(* ===== verification/Octo_Prelude.thy ===== *)
theory Octo_Prelude
  imports Complex_Main "HOL-Library.Sublist" "HOL-Library.AList"
begin

text \<open>
  Shared vocabulary of the development: the results of fallible Go functions, the pieces of
  the Go \<^verbatim>\<open>strings\<close> and \<^verbatim>\<open>strconv\<close> packages the runtime calls, and
  the generic lemmas the component theories rest on. Strings are Go strings, that is byte
  sequences, and are represented as \<^typ>\<open>string\<close> (a list of 8-bit characters).
\<close>

named_theorems frame_intros \<open>introduction rules: a processor respects the message frame\<close>
named_theorems heap_simps \<open>how the primitive message operations act on the heap\<close>

section \<open>Results of fallible functions\<close>

text \<open>
  A Go function returning \<^verbatim>\<open>(T, error)\<close> is a function into \<open>'e + 'a\<close>: \<open>Inl e\<close>
  is a non-nil error, \<open>Inr x\<close> a result with a nil error. \<open>bind_res\<close> is the idiom
  \<^verbatim>\<open>if err != nil { return err }\<close>.
\<close>

type_synonym ('e, 'a) res = "'e + 'a"

definition bind_res :: "('e, 'a) res \<Rightarrow> ('a \<Rightarrow> ('e, 'b) res) \<Rightarrow> ('e, 'b) res" where
  "bind_res r f = (case r of Inl e \<Rightarrow> Inl e | Inr x \<Rightarrow> f x)"

lemma bind_res_simps [simp]:
  "bind_res (Inl e) f = Inl e"
  "bind_res (Inr x) f = f x"
  by (simp_all add: bind_res_def)

lemma bind_res_Inr_iff:
  "bind_res r f = Inr y \<longleftrightarrow> (\<exists>x. r = Inr x \<and> f x = Inr y)"
  by (cases r) auto

lemma bind_res_Inl_iff:
  "bind_res r f = Inl e \<longleftrightarrow> r = Inl e \<or> (\<exists>x. r = Inr x \<and> f x = Inl e)"
  by (cases r) auto

text \<open>A loop that builds a slice and returns at the first error.\<close>

fun map_res :: "('a \<Rightarrow> ('e, 'b) res) \<Rightarrow> 'a list \<Rightarrow> ('e, 'b list) res" where
  "map_res f [] = Inr []"
| "map_res f (x # xs) =
     (case f x of Inl e \<Rightarrow> Inl e
      | Inr y \<Rightarrow> (case map_res f xs of Inl e \<Rightarrow> Inl e | Inr ys \<Rightarrow> Inr (y # ys)))"

lemma map_res_InrD: "map_res f xs = Inr ys \<Longrightarrow> list_all2 (\<lambda>x y. f x = Inr y) xs ys"
  by (induction xs arbitrary: ys) (auto split: sum.splits)

lemma map_res_InrI: "list_all2 (\<lambda>x y. f x = Inr y) xs ys \<Longrightarrow> map_res f xs = Inr ys"
  by (induction rule: list_all2_induct) auto

lemma map_res_Inr: "map_res f xs = Inr ys \<longleftrightarrow> list_all2 (\<lambda>x y. f x = Inr y) xs ys"
  by (blast intro: map_res_InrI dest: map_res_InrD)

lemma map_res_length: "map_res f xs = Inr ys \<Longrightarrow> length ys = length xs"
  by (auto simp: map_res_Inr dest: list_all2_lengthD)

lemma map_res_Inl_ex: "map_res f xs = Inl e \<Longrightarrow> \<exists>x \<in> set xs. f x = Inl e"
  by (induction xs) (auto split: sum.splits)

section \<open>Association lists\<close>

text \<open>
  A Go map that appears inside a value (a decoded JSON object, a settings map) is an
  association list; lookup is \<^const>\<open>map_of\<close> and assignment is \<^const>\<open>AList.update\<close>.
\<close>

lemma map_of_update [simp]: "map_of (AList.update k v al) = (map_of al)(k \<mapsto> v)"
  by (simp add: update_conv')

section \<open>The strings package\<close>

definition has_prefix :: "string \<Rightarrow> string \<Rightarrow> bool" where
  "has_prefix s p \<longleftrightarrow> take (length p) s = p"

definition has_suffix :: "string \<Rightarrow> string \<Rightarrow> bool" where
  "has_suffix s p \<longleftrightarrow> length p \<le> length s \<and> drop (length s - length p) s = p"

lemma has_prefix_append [simp]: "has_prefix (p @ s) p"
  by (simp add: has_prefix_def)

lemma has_suffix_append [simp]: "has_suffix (s @ p) p"
  by (simp add: has_suffix_def)

lemma has_suffixD: "has_suffix s p \<Longrightarrow> \<exists>t. s = t @ p"
  unfolding has_suffix_def by (metis append_take_drop_id)

definition trim_suffix :: "string \<Rightarrow> string \<Rightarrow> string" where
  "trim_suffix s p = (if has_suffix s p then take (length s - length p) s else s)"

text \<open>\<^verbatim>\<open>strings.Split(s, sep)\<close> for a one-byte separator.\<close>

fun split_on :: "char \<Rightarrow> string \<Rightarrow> string list" where
  "split_on c [] = [[]]"
| "split_on c (x # xs) =
     (if x = c then [] # split_on c xs
      else (case split_on c xs of [] \<Rightarrow> [[x]] | y # ys \<Rightarrow> (x # y) # ys))"

fun join_with :: "string \<Rightarrow> string list \<Rightarrow> string" where
  "join_with sep [] = []"
| "join_with sep [x] = x"
| "join_with sep (x # y # ys) = x @ sep @ join_with sep (y # ys)"

lemma split_on_not_Nil [simp]: "split_on c s \<noteq> []"
  by (induction s) (auto split: list.splits)

lemma split_on_no_sep: "c \<notin> set s \<Longrightarrow> split_on c s = [s]"
  by (induction s) auto

lemma split_on_append: "c \<notin> set s \<Longrightarrow> split_on c (s @ c # t) = s # split_on c t"
  by (induction s) auto

lemma split_on_join:
  "\<forall>x \<in> set xs. c \<notin> set x \<Longrightarrow> xs \<noteq> [] \<Longrightarrow> split_on c (join_with [c] xs) = xs"
  by (induction "[c]" xs rule: join_with.induct) (auto simp: split_on_no_sep split_on_append)

lemma split_on_join_inverse: "join_with [c] (split_on c s) = s"
proof (induction s)
  case (Cons x s)
  obtain y ys where y: "split_on c s = y # ys"
    using split_on_not_Nil [of c s] by (cases "split_on c s") auto
  with Cons.IH show ?case by (cases ys) auto
qed simp

text \<open>
  \<^verbatim>\<open>strings.Cut(s, sep)\<close> for a non-empty separator: the text before and after its
  first occurrence, and whether there was one.
\<close>

fun str_cut :: "string \<Rightarrow> string \<Rightarrow> string \<times> string \<times> bool" where
  "str_cut [] sep = (if sep = [] then ([], [], True) else ([], [], False))"
| "str_cut (x # xs) sep =
     (if has_prefix (x # xs) sep then ([], drop (length sep) (x # xs), True)
      else (case str_cut xs sep of (a, b, f) \<Rightarrow> (x # a, b, f)))"

lemma cut_found: "str_cut s sep = (a, b, True) \<Longrightarrow> s = a @ sep @ b"
proof (induction s arbitrary: a)
  case Nil
  then show ?case by (auto split: if_splits)
next
  case (Cons x s)
  show ?case
  proof (cases "has_prefix (x # s) sep")
    case True
    with Cons.prems have "a = []" "b = drop (length sep) (x # s)" by auto
    with True show ?thesis
      by (metis append_Nil append_take_drop_id has_prefix_def)
  next
    case False
    with Cons.prems obtain a' where "str_cut s sep = (a', b, True)" "a = x # a'"
      by (auto split: prod.splits)
    then show ?thesis using Cons.IH by simp
  qed
qed

lemma cut_not_found: "str_cut s sep = (a, b, False) \<Longrightarrow> a = s \<and> b = []"
  by (induction s arbitrary: a) (auto split: if_splits prod.splits)

lemma cut_rest_shorter:
  "sep \<noteq> [] \<Longrightarrow> str_cut s sep = (a, b, True) \<Longrightarrow> length b < length s"
  using cut_found [of s sep a b] by auto

text \<open>
  The text before the first occurrence of a byte and the text from it on, which is empty
  when the byte does not occur: \<^verbatim>\<open>strings.IndexByte\<close> and the two slices at it.
\<close>

fun span_until :: "char \<Rightarrow> string \<Rightarrow> string \<times> string" where
  "span_until c [] = ([], [])"
| "span_until c (x # xs) =
     (if x = c then ([], x # xs) else (case span_until c xs of (a, b) \<Rightarrow> (x # a, b)))"

lemma span_until_none: "c \<notin> set s \<Longrightarrow> span_until c s = (s, [])"
  by (induction s) auto

lemma span_until_found: "c \<notin> set s \<Longrightarrow> span_until c (s @ c # t) = (s, c # t)"
  by (induction s) auto

text \<open>
  \<^verbatim>\<open>strings.TrimSpace(s) == ""\<close>, over the ASCII white space characters.
\<close>

definition is_space :: "char \<Rightarrow> bool" where
  "is_space c \<longleftrightarrow> of_char c \<in> {9, 10, 11, 12, 13, 32 :: nat}"

definition blank :: "string \<Rightarrow> bool" where
  "blank s \<longleftrightarrow> list_all is_space s"

section \<open>The strconv package\<close>

definition digit_char :: "nat \<Rightarrow> char" where
  "digit_char d = char_of (48 + d)"

definition digit_val :: "char \<Rightarrow> nat option" where
  "digit_val c = (let n = of_char c :: nat in if 48 \<le> n \<and> n \<le> 57 then Some (n - 48) else None)"

text \<open>\<^verbatim>\<open>strconv.Itoa\<close> on a non-negative argument.\<close>

fun itoa :: "nat \<Rightarrow> string" where
  "itoa n = (if n < 10 then [digit_char n] else itoa (n div 10) @ [digit_char (n mod 10)])"

declare itoa.simps [simp del]

fun read_digits :: "nat \<Rightarrow> string \<Rightarrow> nat option" where
  "read_digits acc [] = Some acc"
| "read_digits acc (c # cs) =
     (case digit_val c of None \<Rightarrow> None | Some d \<Rightarrow> read_digits (10 * acc + d) cs)"

text \<open>
  \<^verbatim>\<open>strconv.Atoi\<close>: an optional sign, at least one decimal digit, and a value that fits
  Go's 64-bit \<^verbatim>\<open>int\<close>. \<open>None\<close> is a syntax or a range error.
\<close>

definition atoi :: "string \<Rightarrow> int option" where
  "atoi s =
     (let neg = (s \<noteq> [] \<and> hd s = CHR ''-'');
          ds = (if s \<noteq> [] \<and> (hd s = CHR ''-'' \<or> hd s = CHR ''+'') then tl s else s)
      in if ds = [] then None
         else (case read_digits 0 ds of None \<Rightarrow> None
               | Some n \<Rightarrow> let v = (if neg then - int n else int n)
                          in if - (2 ^ 63) \<le> v \<and> v < 2 ^ 63 then Some v else None))"

lemma digit_val_digit_char [simp]: "d < 10 \<Longrightarrow> digit_val (digit_char d) = Some d"
  by (simp add: digit_val_def digit_char_def)

lemma read_digits_append:
  "read_digits acc (xs @ ys) =
     (case read_digits acc xs of None \<Rightarrow> None | Some n \<Rightarrow> read_digits n ys)"
  by (induction xs arbitrary: acc) (auto split: option.splits)

lemma read_digits_itoa: "read_digits 0 (itoa n) = Some n"
proof (induction n rule: itoa.induct)
  case (1 n)
  show ?case
    by (subst itoa.simps) (auto simp: read_digits_append 1)
qed

lemma itoa_not_Nil [simp]: "itoa n \<noteq> []"
  by (subst itoa.simps) simp

lemma digit_char_of: "d < 10 \<Longrightarrow> of_char (digit_char d) = (48 + d :: nat)"
  by (simp add: digit_char_def)

lemma itoa_digits: "c \<in> set (itoa n) \<Longrightarrow> \<exists>d < 10. c = digit_char d"
proof (induction n rule: itoa.induct)
  case (1 n)
  have "c \<in> set (if n < 10 then [digit_char n] else itoa (n div 10) @ [digit_char (n mod 10)])"
    using 1(2) by (subst (asm) itoa.simps)
  then show ?case using 1(1)
    by (cases "n < 10") (auto intro: exI [of _ "n mod 10"])
qed

lemma digit_char_neq:
  assumes "d < 10" and "(of_char c :: nat) < 48 \<or> 58 \<le> (of_char c :: nat)"
  shows "c \<noteq> digit_char d"
proof
  assume "c = digit_char d"
  then have "(of_char c :: nat) = 48 + d" using digit_char_of [of d] assms(1) by simp
  with assms show False by auto
qed

lemma itoa_no_char:
  "(of_char c :: nat) < 48 \<or> 58 \<le> (of_char c :: nat) \<Longrightarrow> c \<notin> set (itoa n)"
  by (blast dest: itoa_digits digit_char_neq)

lemma itoa_clean:
  "CHR ''.'' \<notin> set (itoa n)" "CHR ''['' \<notin> set (itoa n)" "CHR '']'' \<notin> set (itoa n)"
  "CHR ''-'' \<notin> set (itoa n)" "CHR ''+'' \<notin> set (itoa n)"
  by (simp_all add: itoa_no_char)

lemma atoi_itoa: "n < 2 ^ 63 \<Longrightarrow> atoi (itoa n) = Some (int n)"
proof -
  assume n: "n < 2 ^ 63"
  obtain c cs where cs: "itoa n = c # cs" using itoa_not_Nil [of n] by (cases "itoa n") auto
  then have "c \<noteq> CHR ''-''" "c \<noteq> CHR ''+''"
    using itoa_clean(4,5) [of n] by auto
  moreover have "read_digits 0 (c # cs) = Some n" using read_digits_itoa [of n] cs by simp
  moreover have "int n < 2 ^ 63" using n by (metis of_nat_less_iff of_nat_numeral of_nat_power)
  ultimately show ?thesis by (simp add: atoi_def cs Let_def)
qed

text \<open>
  The \<^verbatim>\<open>%q\<close> verb on ASCII text: quotes, backslashes and control characters are
  escaped. Bytes above 127 are kept, which is what the verb does for printable runes.
\<close>

definition hex_digit :: "nat \<Rightarrow> char" where
  "hex_digit d = (if d < 10 then char_of (48 + d) else char_of (87 + d))"

definition quote_char :: "char \<Rightarrow> string" where
  "quote_char c =
     (let n = of_char c :: nat in
      if n = 34 then [char_of (92 :: nat), c]
      else if n = 92 then [c, c]
      else if n = 7 then char_of (92 :: nat) # ''a''
      else if n = 8 then char_of (92 :: nat) # ''b''
      else if n = 12 then char_of (92 :: nat) # ''f''
      else if n = 10 then char_of (92 :: nat) # ''n''
      else if n = 13 then char_of (92 :: nat) # ''r''
      else if n = 9 then char_of (92 :: nat) # ''t''
      else if n = 11 then char_of (92 :: nat) # ''v''
      else if n < 32 \<or> n = 127
        then char_of (92 :: nat) # CHR ''x'' # [hex_digit (n div 16), hex_digit (n mod 16)]
      else [c])"

definition quote :: "string \<Rightarrow> string" where
  "quote s = char_of (34 :: nat) # concat (map quote_char s) @ [char_of (34 :: nat)]"

end
