(* ===== verification/Octo_Value.thy ===== *)
theory Octo_Value
  imports Octo_Prelude
begin

text \<open>
  The values a message carries and the errors a block returns:
  \<^item> \<open>gval\<close> is Go's \<^verbatim>\<open>any\<close> restricted to what reaches a message body, a
    variable or a settings map: the decoded-JSON kinds, the integer kinds Go code puts
    there directly, typed nil containers, and an opaque kind that JSON cannot encode;
  \<^item> \<open>copyBody\<close> is the deep copy of \<^verbatim>\<open>runtime/types/bodycopy.go\<close>;
  \<^item> the typed accessors of \<^verbatim>\<open>runtime/types/variables.go\<close>;
  \<^item> \<open>err\<close> is a Go error chain with the block errors of
    \<^verbatim>\<open>runtime/core/blockerror.go\<close>.
  A float64 is a rational (JSON has neither NaN nor infinities).
\<close>

section \<open>Dynamic values\<close>

datatype gval =
    GNull
  | GBool bool
  | GStr string
  | GFloat rat
  | GInt int
  | GInt64 int
  | GMap "(string \<times> gval) list"
  | GNilMap
  | GList "gval list"
  | GNilList
  | GOpaque nat

text \<open>
  The decoded-JSON kinds, which is the contract of \<^verbatim>\<open>Message.Body\<close>: numbers are
  float64, objects maps and arrays slices.
\<close>

fun json_native :: "gval \<Rightarrow> bool" where
  "json_native GNull = True"
| "json_native (GBool b) = True"
| "json_native (GStr s) = True"
| "json_native (GFloat q) = True"
| "json_native (GMap kvs) = (\<forall>kv \<in> set kvs. json_native (snd kv))"
| "json_native (GList vs) = (\<forall>v \<in> set vs. json_native v)"
| "json_native _ = False"

text \<open>Whether \<^verbatim>\<open>json.Marshal\<close> accepts the value.\<close>

fun encodable :: "gval \<Rightarrow> bool" where
  "encodable (GMap kvs) = (\<forall>kv \<in> set kvs. encodable (snd kv))"
| "encodable (GList vs) = (\<forall>v \<in> set vs. encodable v)"
| "encodable (GOpaque n) = False"
| "encodable _ = True"

text \<open>Container nesting, which \<^verbatim>\<open>json.Unmarshal\<close> bounds.\<close>

fun nesting :: "gval \<Rightarrow> nat" where
  "nesting (GMap kvs) = Suc (foldr max (map (\<lambda>kv. nesting (snd kv)) kvs) 0)"
| "nesting (GList vs) = Suc (foldr max (map nesting vs) 0)"
| "nesting _ = 0"

subsection \<open>int64 to float64\<close>

fun bit_length :: "nat \<Rightarrow> nat" where
  "bit_length n = (if n = 0 then 0 else Suc (bit_length (n div 2)))"

declare bit_length.simps [simp del]

text \<open>Rounding to the nearest 53-bit significand, ties to even.\<close>

definition float64_of_int :: "int \<Rightarrow> rat" where
  "float64_of_int n =
     (let a = nat \<bar>n\<bar>; k = bit_length a - 53; q = a div 2 ^ k; r = a mod 2 ^ k;
          q' = (if 2 * r > 2 ^ k \<or> 2 * r = 2 ^ k \<and> odd q then Suc q else q)
      in of_int (sgn n * int (q' * 2 ^ k)))"

lemma bit_length_le: "n < 2 ^ k \<Longrightarrow> bit_length n \<le> k"
proof (induction n arbitrary: k rule: bit_length.induct)
  case (1 n)
  show ?case
  proof (cases "n = 0")
    case True
    then show ?thesis by (simp add: bit_length.simps)
  next
    case False
    with 1(2) obtain k' where k: "k = Suc k'" by (cases k) auto
    with 1(2) have "n div 2 < 2 ^ k'" by (simp add: less_mult_imp_div_less mult.commute)
    with 1(1) False have "bit_length (n div 2) \<le> k'" by simp
    with k False show ?thesis by (subst bit_length.simps) simp
  qed
qed

lemma float64_of_int_exact: "\<bar>n\<bar> < 2 ^ 53 \<Longrightarrow> float64_of_int n = of_int n"
proof -
  assume n: "\<bar>n\<bar> < 2 ^ 53"
  then have "nat \<bar>n\<bar> < 2 ^ 53" by (simp add: nat_less_iff)
  then have "bit_length (nat \<bar>n\<bar>) - 53 = 0" using bit_length_le [of "nat \<bar>n\<bar>" 53] by simp
  then show ?thesis by (simp add: float64_of_int_def abs_if sgn_if)
qed

section \<open>Deep copy of a body\<close>

definition maxCopyDepth :: nat where
  "maxCopyDepth = 10000"

text \<open>What a value decodes to after it was encoded as JSON.\<close>

fun json_normal :: "gval \<Rightarrow> gval" where
  "json_normal (GInt n) = GFloat (float64_of_int n)"
| "json_normal (GInt64 n) = GFloat (float64_of_int n)"
| "json_normal GNilMap = GNull"
| "json_normal GNilList = GNull"
| "json_normal (GMap kvs) = GMap (map (\<lambda>(k, v). (k, json_normal v)) kvs)"
| "json_normal (GList vs) = GList (map json_normal vs)"
| "json_normal v = v"

definition jsonCopy :: "gval \<Rightarrow> gval" where
  "jsonCopy v = (if encodable v \<and> nesting v \<le> maxCopyDepth then json_normal v else v)"

fun copyBodyAt :: "gval \<Rightarrow> nat \<Rightarrow> gval" where
  "copyBodyAt (GMap kvs) depth =
     (if depth > maxCopyDepth then jsonCopy (GMap kvs)
      else GMap (map (\<lambda>(k, v). (k, copyBodyAt v (depth + 1))) kvs))"
| "copyBodyAt (GList vs) depth =
     (if depth > maxCopyDepth then jsonCopy (GList vs)
      else GList (map (\<lambda>v. copyBodyAt v (depth + 1)) vs))"
| "copyBodyAt GNilMap depth = (if depth > maxCopyDepth then jsonCopy GNilMap else GNull)"
| "copyBodyAt GNilList depth = (if depth > maxCopyDepth then jsonCopy GNilList else GNull)"
| "copyBodyAt (GInt n) depth = jsonCopy (GInt n)"
| "copyBodyAt (GInt64 n) depth = jsonCopy (GInt64 n)"
| "copyBodyAt (GOpaque n) depth = jsonCopy (GOpaque n)"
| "copyBodyAt v depth = (if depth > maxCopyDepth then jsonCopy v else v)"

definition copyBody :: "gval \<Rightarrow> gval" where
  "copyBody v = copyBodyAt v 0"

lemma json_normal_native: "json_native v \<Longrightarrow> json_normal v = v"
  by (induction v rule: json_normal.induct) (auto intro!: map_idI)

lemma json_native_normal: "encodable v \<Longrightarrow> json_native (json_normal v)"
  by (induction v rule: json_normal.induct) auto

lemma json_native_encodable: "json_native v \<Longrightarrow> encodable v"
  by (induction v rule: json_native.induct) auto

lemma jsonCopy_native: "json_native v \<Longrightarrow> jsonCopy v = v"
  by (simp add: jsonCopy_def json_normal_native)

lemma copyBodyAt_native: "json_native v \<Longrightarrow> copyBodyAt v d = v"
  by (induction v d rule: copyBodyAt.induct) (auto simp: jsonCopy_native intro!: map_idI)

lemma foldr_max_ge: "x \<in> set xs \<Longrightarrow> x \<le> foldr max xs (0 :: nat)"
  by (induction xs) auto

lemma nesting_member:
  "(k, v) \<in> set kvs \<Longrightarrow> nesting v < nesting (GMap kvs)"
  "v \<in> set vs \<Longrightarrow> nesting v < nesting (GList vs)"
  using foldr_max_ge [of "nesting v"] by (force simp: less_Suc_eq_le)+

lemma jsonCopy_normal:
  "encodable v \<Longrightarrow> nesting v \<le> maxCopyDepth \<Longrightarrow> jsonCopy v = json_normal v"
  by (simp add: jsonCopy_def)

text \<open>
  Within the nesting JSON itself accepts, the structural walk computes exactly what a JSON
  round trip of the whole body would have.
\<close>

lemma copyBodyAt_normal:
  "encodable v \<Longrightarrow> nesting v \<le> maxCopyDepth \<Longrightarrow> copyBodyAt v d = json_normal v"
proof (induction v d rule: copyBodyAt.induct)
  case (1 kvs d)
  have "copyBodyAt v (d + 1) = json_normal v" if "(k, v) \<in> set kvs" "\<not> d > maxCopyDepth" for k v
    using 1 that nesting_member(1) [OF that(1)] by force
  then show ?case using 1(2,3) by (auto simp: jsonCopy_normal)
next
  case (2 vs d)
  have "copyBodyAt v (d + 1) = json_normal v" if "v \<in> set vs" "\<not> d > maxCopyDepth" for v
    using 2 that nesting_member(2) [OF that(1)] by force
  then show ?case using 2(2,3) by (auto simp: jsonCopy_normal)
qed (auto simp: jsonCopy_def maxCopyDepth_def)

text \<open>
  Copying a body that JSON can encode, within JSON's own nesting limit, gives exactly
  what an encode/decode round trip would: a decoded-JSON value, on which copying again is
  the identity.
\<close>

theorem copyBody_json_roundtrip:
  assumes "encodable v" and "nesting v \<le> maxCopyDepth"
  shows "copyBody v = json_normal v \<and> json_native (copyBody v) \<and> copyBody (copyBody v) = copyBody v"
  using assms by (simp add: copyBody_def copyBodyAt_normal json_native_normal copyBodyAt_native)

theorem copyBody_json_roundtrip_witness:
  "copyBody (GMap [(''n'', GInt 3), (''xs'', GNilList)]) = GMap [(''n'', GFloat 3), (''xs'', GNull)] \<and>
   json_native (copyBody (GMap [(''n'', GInt 3), (''xs'', GNilList)]))"
  using copyBody_json_roundtrip [of "GMap [(''n'', GInt 3), (''xs'', GNilList)]"]
  by (simp add: maxCopyDepth_def float64_of_int_exact)

section \<open>Typed access to variables\<close>

type_synonym variables = "string \<rightharpoonup> gval"

definition var_String :: "variables \<Rightarrow> string \<Rightarrow> string \<times> bool" where
  "var_String v key = (case v key of Some (GStr s) \<Rightarrow> (s, True) | _ \<Rightarrow> ([], False))"

definition var_Bool :: "variables \<Rightarrow> string \<Rightarrow> bool \<times> bool" where
  "var_Bool v key = (case v key of Some (GBool b) \<Rightarrow> (b, True) | _ \<Rightarrow> (False, False))"

text \<open>
  Go's \<^verbatim>\<open>int(f)\<close>: truncation toward zero. Out of the int64 range the result is
  implementation-defined; the amd64 result, the least int64, is used here.
\<close>

definition int_of_float64 :: "rat \<Rightarrow> int" where
  "int_of_float64 q =
     (let t = (if q \<ge> 0 then \<lfloor>q\<rfloor> else \<lceil>q\<rceil>)
      in if - (2 ^ 63) \<le> t \<and> t < 2 ^ 63 then t else - (2 ^ 63))"

definition var_Int :: "variables \<Rightarrow> string \<Rightarrow> int \<times> bool" where
  "var_Int v key =
     (case v key of
        Some (GInt n) \<Rightarrow> (n, True)
      | Some (GInt64 n) \<Rightarrow> (n, True)
      | Some (GFloat q) \<Rightarrow>
          (if q = float64_of_int (int_of_float64 q) then (int_of_float64 q, True) else (0, False))
      | _ \<Rightarrow> (0, False))"

definition var_Float :: "variables \<Rightarrow> string \<Rightarrow> rat \<times> bool" where
  "var_Float v key =
     (case v key of
        Some (GFloat q) \<Rightarrow> (q, True)
      | Some (GInt n) \<Rightarrow> (float64_of_int n, True)
      | Some (GInt64 n) \<Rightarrow> (float64_of_int n, True)
      | _ \<Rightarrow> (0, False))"

definition var_Set :: "variables \<Rightarrow> string \<Rightarrow> gval \<Rightarrow> variables" where
  "var_Set v key value = v(key \<mapsto> value)"

lemma var_Int_json:
  "\<bar>n\<bar> < 2 ^ 53 \<Longrightarrow> v key = Some (GInt n) \<Longrightarrow>
     var_Int (v(key \<mapsto> json_normal (GInt n))) key = var_Int v key"
  by (auto simp: var_Int_def int_of_float64_def float64_of_int_exact Let_def)

section \<open>Errors\<close>

text \<open>
  \<open>Err\<close> is a leaf error, \<open>Wrap c e\<close> is \<^verbatim>\<open>fmt.Errorf("c: %w", e)\<close>,
  \<open>BlockError l e\<close> is \<^verbatim>\<open>core.BlockError\<close> and \<open>Joined\<close> is
  \<^verbatim>\<open>errors.Join\<close>.
\<close>

datatype err =
    Err string
  | Wrap string err
  | BlockError string err
  | Joined "err list"

fun err_text :: "err \<Rightarrow> string" where
  "err_text (Err s) = s"
| "err_text (Wrap c e) = c @ '': '' @ err_text e"
| "err_text (BlockError l e) = ''block '' @ quote l @ '': '' @ err_text e"
| "err_text (Joined es) = join_with [char_of (10 :: nat)] (map err_text es)"

text \<open>\<^verbatim>\<open>errors.As(err, &be)\<close>: the first block error in a pre-order walk of the chain.\<close>

fun as_block_error :: "err \<Rightarrow> (string \<times> err) option"
  and as_block_errors :: "err list \<Rightarrow> (string \<times> err) option" where
  "as_block_error (Err s) = None"
| "as_block_error (Wrap c e) = as_block_error e"
| "as_block_error (BlockError l e) = Some (l, e)"
| "as_block_error (Joined es) = as_block_errors es"
| "as_block_errors [] = None"
| "as_block_errors (e # es) =
     (case as_block_error e of Some r \<Rightarrow> Some r | None \<Rightarrow> as_block_errors es)"

definition FailingBlock :: "err \<Rightarrow> string" where
  "FailingBlock e = (case as_block_error e of Some (l, _) \<Rightarrow> l | None \<Rightarrow> [])"

text \<open>\<^verbatim>\<open>unlabel\<close> of \<^verbatim>\<open>core/engine/debug.go\<close>.\<close>

definition unlabel :: "err \<Rightarrow> err" where
  "unlabel e = (case as_block_error e of Some (_, inner) \<Rightarrow> inner | None \<Rightarrow> e)"

lemma FailingBlock_simps [simp]:
  "FailingBlock (Err s) = []"
  "FailingBlock (Wrap c e) = FailingBlock e"
  "FailingBlock (BlockError l e) = l"
  by (simp_all add: FailingBlock_def)

lemma unlabel_BlockError [simp]: "unlabel (BlockError l e) = e"
  by (simp add: unlabel_def)

definition ErrorVariable :: string where
  "ErrorVariable = ''error''"

text \<open>The structured value a recovery path reads as \<^verbatim>\<open>vars.error\<close>.\<close>

definition error_object :: "string \<Rightarrow> err \<Rightarrow> gval" where
  "error_object name e =
     GMap [(''message'', GStr (err_text e)), (''flow'', GStr name),
           (''block'', GStr (FailingBlock e))]"

end
