(* ===== verification/Octo_Message.thy ===== *)
theory Octo_Message
  imports Octo_Value
begin

text \<open>
  The message and its operations (\<^verbatim>\<open>runtime/types/message.go\<close>).

  Go passes messages by pointer and blocks rewrite the message they are given, so messages
  live in a heap: \<open>heap w a\<close> is the message at address \<open>a\<close>, \<open>hp w\<close> the next free
  address. A message owns its variables map and its body, as \<^verbatim>\<open>shallow\<close> and the
  replace-only contract of \<^verbatim>\<open>Body\<close> arrange in the source.
  \<open>entropy\<close> holds the coming results of
  \<^verbatim>\<open>crypto/rand\<close>; \<open>None\<close>, or an exhausted list, is a failed read. The record is
  extensible: the rest of the world (stores, collectors) extends it.
\<close>

section \<open>The message record\<close>

record message =
  EventID :: string
  CorrelationID :: string
  Variables :: variables
  Body :: gval
  BodySchema :: string
  RawContent :: bool
  bodyShared :: bool

record world =
  heap :: "nat \<Rightarrow> message"
  hp :: nat
  entropy :: "string option list"

type_synonym addr = nat

definition upd :: "'a world_scheme \<Rightarrow> addr \<Rightarrow> (message \<Rightarrow> message) \<Rightarrow> 'a world_scheme" where
  "upd w a f = w\<lparr>heap := (heap w)(a := f (heap w a))\<rparr>"

definition alloc :: "'a world_scheme \<Rightarrow> message \<Rightarrow> 'a world_scheme \<times> addr" where
  "alloc w m = (w\<lparr>heap := (heap w)(hp w := m), hp := Suc (hp w)\<rparr>, hp w)"

section \<open>Reserved variables\<close>

definition internalVarPrefix :: string where
  "internalVarPrefix = ''__''"

definition IsInternalVar :: "string \<Rightarrow> bool" where
  "IsInternalVar name = has_prefix name internalVarPrefix"

definition stopVar :: string where
  "stopVar = internalVarPrefix @ ''octoStop''"

definition traceVar :: string where
  "traceVar = internalVarPrefix @ ''octoTraceId''"

definition RawContentTypeKey :: string where "RawContentTypeKey = ''contentType''"
definition RawDataKey :: string where "RawDataKey = ''rawData''"
definition RawPartsKey :: string where "RawPartsKey = ''parts''"

lemmas reserved_defs = internalVarPrefix_def IsInternalVar_def stopVar_def traceVar_def
  RawContentTypeKey_def RawDataKey_def RawPartsKey_def has_prefix_def

lemma stopVar_internal [simp]: "IsInternalVar stopVar"
  and traceVar_internal [simp]: "IsInternalVar traceVar"
  and stopVar_traceVar [simp]: "stopVar \<noteq> traceVar" "traceVar \<noteq> stopVar"
  by (simp_all add: reserved_defs)

section \<open>Methods that rewrite one message\<close>

definition SetVar :: "string \<Rightarrow> gval \<Rightarrow> message \<Rightarrow> message" where
  "SetVar key value m = m\<lparr>Variables := var_Set (Variables m) key value\<rparr>"

definition DeleteVar :: "string \<Rightarrow> message \<Rightarrow> message" where
  "DeleteVar key m = m\<lparr>Variables := (Variables m)(key := None)\<rparr>"

definition SetBody :: "gval \<Rightarrow> message \<Rightarrow> message" where
  "SetBody value m = m\<lparr>Body := value, RawContent := False\<rparr>"

definition SetRawBody :: "string \<Rightarrow> string \<Rightarrow> message \<Rightarrow> message" where
  "SetRawBody contentType rawData m =
     m\<lparr>Body := GMap [(RawContentTypeKey, GStr contentType), (RawDataKey, GStr rawData)],
       RawContent := True\<rparr>"

definition SetRawBodyParts ::
  "string \<Rightarrow> string \<Rightarrow> (string \<times> gval) list \<Rightarrow> message \<Rightarrow> message" where
  "SetRawBodyParts contentType rawData parts m =
     (let m' = SetRawBody contentType rawData m in
      case Body m' of
        GMap kvs \<Rightarrow> m'\<lparr>Body := GMap (AList.update RawPartsKey (GMap parts) kvs)\<rparr>
      | _ \<Rightarrow> m')"

definition RawBody :: "message \<Rightarrow> (string \<times> string) option" where
  "RawBody m =
     (if \<not> RawContent m then None
      else (case Body m of
          GMap flds \<Rightarrow>
            (case map_of flds RawContentTypeKey of
               Some (GStr ct) \<Rightarrow>
                 (case map_of flds RawDataKey of Some (GStr rd) \<Rightarrow> Some (ct, rd) | _ \<Rightarrow> None)
             | _ \<Rightarrow> None)
        | _ \<Rightarrow> None))"

definition RequestStop :: "message \<Rightarrow> message" where
  "RequestStop = SetVar stopVar (GBool True)"

definition StopRequested :: "message \<Rightarrow> bool" where
  "StopRequested m = fst (var_Bool (Variables m) stopVar)"

definition TraceID :: "message \<Rightarrow> string" where
  "TraceID m = fst (var_String (Variables m) traceVar)"

definition SetTraceID :: "string \<Rightarrow> message \<Rightarrow> message" where
  "SetTraceID tid m = (if tid = [] then m else SetVar traceVar (GStr tid) m)"

definition SetErrorVariable :: "string \<Rightarrow> err \<Rightarrow> message \<Rightarrow> message" where
  "SetErrorVariable name e = SetVar ErrorVariable (error_object name e)"

text \<open>
  \<open>json.Unmarshal\<close> of a body is a parameter: \<open>decode raw\<close> is the decoded value, or
  \<open>None\<close> for malformed JSON.
\<close>

definition SetBodyJSON :: "(string \<Rightarrow> gval option) \<Rightarrow> string \<Rightarrow> message \<Rightarrow> (err, message) res" where
  "SetBodyJSON decode raw m =
     (case decode raw of
        None \<Rightarrow> Inl (Wrap ''decode body'' (Err ''invalid JSON''))
      | Some v \<Rightarrow> Inr (SetBody v m))"

section \<open>JSON documents\<close>

text \<open>
  A JSON text is represented by the tree it decodes to, with its integer literals exact:
  \<open>Marshal\<close> fails on what JSON cannot encode, \<open>Unmarshal\<close> into \<^verbatim>\<open>any\<close>
  normalises numbers and refuses documents nested deeper than the decoder allows.
\<close>

definition Marshal :: "gval \<Rightarrow> gval option" where
  "Marshal v = (if encodable v then Some v else None)"

definition Unmarshal :: "gval \<Rightarrow> gval option" where
  "Unmarshal doc = (if encodable doc \<and> nesting doc \<le> maxCopyDepth then Some (json_normal doc) else None)"

definition BodyJSON :: "message \<Rightarrow> (err, gval) res" where
  "BodyJSON m = (case Marshal (Body m) of
      None \<Rightarrow> Inl (Wrap ''encode body'' (Err ''unsupported type'')) | Some d \<Rightarrow> Inr d)"

definition SetBodyDoc :: "gval \<Rightarrow> message \<Rightarrow> (err, message) res" where
  "SetBodyDoc doc m =
     (case Unmarshal doc of
        None \<Rightarrow> Inl (Wrap ''decode body'' (Err ''invalid JSON''))
      | Some v \<Rightarrow> Inr (SetBody v m))"

section \<open>Identifiers\<close>

definition eventIDBytes :: nat where
  "eventIDBytes = 16"

definition hex_encode :: "string \<Rightarrow> string" where
  "hex_encode s = concat (map (\<lambda>c. let n = of_char c :: nat
                                  in [hex_digit (n div 16), hex_digit (n mod 16)]) s)"

definition newEventID :: "'a world_scheme \<Rightarrow> 'a world_scheme \<times> (err, string) res" where
  "newEventID w =
     (case entropy w of
        Some buf # rest \<Rightarrow> (w\<lparr>entropy := rest\<rparr>, Inr (hex_encode (take eventIDBytes buf)))
      | None # rest \<Rightarrow>
          (w\<lparr>entropy := rest\<rparr>, Inl (Wrap ''generate event id'' (Err ''entropy source failed'')))
      | [] \<Rightarrow> (w, Inl (Wrap ''generate event id'' (Err ''entropy source failed''))))"

definition NewMessage :: "string \<Rightarrow> 'a world_scheme \<Rightarrow> 'a world_scheme \<times> (err, addr) res" where
  "NewMessage correlationID w =
     (case newEventID w of
        (w1, Inl e) \<Rightarrow> (w1, Inl e)
      | (w1, Inr eid) \<Rightarrow>
          (case alloc w1 \<lparr>EventID = eid, CorrelationID = correlationID, Variables = Map.empty,
                          Body = GNull, BodySchema = [], RawContent = False,
                          bodyShared = False\<rparr> of
             (w2, a) \<Rightarrow> (w2, Inr a)))"

definition Rekey :: "'a world_scheme \<Rightarrow> addr \<Rightarrow> 'a world_scheme \<times> (err, string) res" where
  "Rekey w a =
     (case newEventID w of
        (w1, Inl e) \<Rightarrow> (w1, Inl e)
      | (w1, Inr eid) \<Rightarrow> (upd w1 a (\<lambda>m. m\<lparr>EventID := eid\<rparr>), Inr eid))"

definition EnsureTraceID :: "'a world_scheme \<Rightarrow> addr \<Rightarrow> 'a world_scheme \<times> (err, string) res" where
  "EnsureTraceID w a =
     (let tid = TraceID (heap w a) in
      if tid \<noteq> [] then (w, Inr tid)
      else (case newEventID w of
              (w1, Inl e) \<Rightarrow> (w1, Inl e)
            | (w1, Inr eid) \<Rightarrow> (upd w1 a (SetVar traceVar (GStr eid)), Inr eid)))"

section \<open>Copies\<close>

text \<open>
  \<open>shallow\<close> duplicates the struct, the variables map and the schema bytes. In the heap of
  records every message has its own map and its own bytes, so the duplicate is a record
  equal to the original.
\<close>

definition shallow :: "message \<Rightarrow> message" where
  "shallow m = m\<lparr>Variables := (\<lambda>k. Variables m k), BodySchema := map id (BodySchema m)\<rparr>"

definition Clone :: "'a world_scheme \<Rightarrow> addr \<Rightarrow> 'a world_scheme \<times> addr" where
  "Clone w a =
     (let m = heap w a in alloc w ((shallow m)\<lparr>Body := copyBody (Body m), bodyShared := False\<rparr>))"

definition Scoped :: "'a world_scheme \<Rightarrow> addr \<Rightarrow> 'a world_scheme \<times> addr" where
  "Scoped w a =
     (let scoped = (shallow (heap w a))\<lparr>bodyShared := True\<rparr>;
          w1 = upd w a (\<lambda>m. m\<lparr>bodyShared := True\<rparr>)
      in alloc w1 scoped)"

definition MutableBody :: "'a world_scheme \<Rightarrow> addr \<Rightarrow> 'a world_scheme \<times> gval" where
  "MutableBody w a =
     (let w1 = (if bodyShared (heap w a)
                then upd w a (\<lambda>m. m\<lparr>Body := copyBody (Body m), bodyShared := False\<rparr>) else w)
      in (w1, Body (heap w1 a)))"

definition Reported :: "'a world_scheme \<Rightarrow> addr \<Rightarrow> 'a world_scheme \<times> addr" where
  "Reported w a =
     (case Scoped w a of (w1, r) \<Rightarrow>
        (upd w1 r (\<lambda>m. m\<lparr>Variables :=
            (\<lambda>name. if IsInternalVar name then None else Variables m name)\<rparr>), r))"

section \<open>Laws\<close>

lemma upd_simps [heap_simps, simp]:
  "hp (upd w a f) = hp w"
  "entropy (upd w a f) = entropy w"
  "heap (upd w a f) b = (if b = a then f (heap w a) else heap w b)"
  "world.more (upd w a f) = world.more w"
  by (simp_all add: upd_def)

lemma alloc_simps [heap_simps, simp]:
  "hp (fst (alloc w m)) = Suc (hp w)"
  "snd (alloc w m) = hp w"
  "entropy (fst (alloc w m)) = entropy w"
  "heap (fst (alloc w m)) b = (if b = hp w then m else heap w b)"
  "world.more (fst (alloc w m)) = world.more w"
  by (simp_all add: alloc_def)

lemma shallow_eq [simp]: "shallow m = m"
  by (simp add: shallow_def)

lemma SetVar_simps [simp]:
  "EventID (SetVar k v m) = EventID m"
  "CorrelationID (SetVar k v m) = CorrelationID m"
  "Body (SetVar k v m) = Body m"
  "BodySchema (SetVar k v m) = BodySchema m"
  "RawContent (SetVar k v m) = RawContent m"
  "bodyShared (SetVar k v m) = bodyShared m"
  "Variables (SetVar k v m) = (Variables m)(k \<mapsto> v)"
  by (simp_all add: SetVar_def var_Set_def)

lemma DeleteVar_simps [simp]:
  "EventID (DeleteVar k m) = EventID m"
  "Body (DeleteVar k m) = Body m"
  "Variables (DeleteVar k m) = (Variables m)(k := None)"
  by (simp_all add: DeleteVar_def)

lemma SetBody_simps [simp]:
  "EventID (SetBody v m) = EventID m"
  "CorrelationID (SetBody v m) = CorrelationID m"
  "Body (SetBody v m) = v"
  "BodySchema (SetBody v m) = BodySchema m"
  "RawContent (SetBody v m) = False"
  "bodyShared (SetBody v m) = bodyShared m"
  "Variables (SetBody v m) = Variables m"
  by (simp_all add: SetBody_def)

lemma StopRequested_SetVar [simp]:
  "StopRequested (SetVar k v m) =
     (if k = stopVar then (case v of GBool b \<Rightarrow> b | _ \<Rightarrow> False) else StopRequested m)"
  by (auto simp: StopRequested_def var_Bool_def split: gval.splits)

lemma StopRequested_RequestStop [simp]: "StopRequested (RequestStop m)"
  by (simp add: RequestStop_def)

lemma StopRequested_SetBody [simp]: "StopRequested (SetBody v m) = StopRequested m"
  by (simp add: StopRequested_def)

lemma TraceID_SetVar [simp]:
  "TraceID (SetVar k v m) =
     (if k = traceVar then (case v of GStr s \<Rightarrow> s | _ \<Rightarrow> []) else TraceID m)"
  by (auto simp: TraceID_def var_String_def split: gval.splits)

lemma RequestStop_simps [simp]:
  "EventID (RequestStop m) = EventID m"
  "Body (RequestStop m) = Body m"
  "Variables (RequestStop m) = (Variables m)(stopVar \<mapsto> GBool True)"
  "TraceID (RequestStop m) = TraceID m"
  "RawContent (RequestStop m) = RawContent m"
  by (simp_all add: RequestStop_def)

lemma SetErrorVariable_simps [simp]:
  "EventID (SetErrorVariable n e m) = EventID m"
  "Body (SetErrorVariable n e m) = Body m"
  "Variables (SetErrorVariable n e m) ErrorVariable = Some (error_object n e)"
  "StopRequested (SetErrorVariable n e m) = StopRequested m"
  by (simp_all add: SetErrorVariable_def ErrorVariable_def reserved_defs)

lemma Clone_simps [heap_simps]:
  assumes "Clone w a = (w', c)"
  shows "c = hp w" "hp w' = Suc (hp w)" "entropy w' = entropy w"
    and "b \<noteq> c \<Longrightarrow> heap w' b = heap w b"
    and "heap w' c = (heap w a)\<lparr>Body := copyBody (Body (heap w a)), bodyShared := False\<rparr>"
    and "world.more w' = world.more w"
  using assms by (auto simp: Clone_def alloc_def Let_def)

lemma Scoped_simps [heap_simps]:
  assumes "Scoped w a = (w', s)" and "a < hp w"
  shows "s = hp w" "hp w' = Suc (hp w)" "entropy w' = entropy w"
    and "b \<noteq> s \<Longrightarrow> b \<noteq> a \<Longrightarrow> heap w' b = heap w b"
    and "heap w' a = (heap w a)\<lparr>bodyShared := True\<rparr>"
    and "heap w' s = (heap w a)\<lparr>bodyShared := True\<rparr>"
    and "world.more w' = world.more w"
  using assms by (auto simp: Scoped_def alloc_def upd_def Let_def)

lemma newEventID_frame:
  assumes "newEventID w = (w', r)"
  shows "heap w' = heap w" "hp w' = hp w" "world.more w' = world.more w"
  using assms by (auto simp: newEventID_def split: list.splits option.splits)

lemma length_hex_encode: "length (hex_encode s) = 2 * length s"
  by (induction s) (auto simp: hex_encode_def Let_def)

lemma copyBody_map:
  "copyBody (GMap kvs) = GMap (map (\<lambda>(k, v). (k, copyBodyAt v 1)) kvs)"
  by (simp add: copyBody_def)

lemma map_of_copy: "map_of (map (\<lambda>(k, v). (k, f v)) kvs) k = map_option f (map_of kvs k)"
  by (induction kvs) auto

lemma copyBodyAt_str: "copyBodyAt v d = GStr s \<longleftrightarrow> v = GStr s"
  by (cases v) (auto simp: jsonCopy_def)

lemma copyBody_map_iff:
  "copyBody v = GMap kvs' \<longleftrightarrow>
     (\<exists>kvs. v = GMap kvs \<and> kvs' = map (\<lambda>(k, v). (k, copyBodyAt v 1)) kvs)"
  by (cases v) (auto simp: copyBody_def jsonCopy_def maxCopyDepth_def)

lemma RawBody_Some:
  "RawBody m = Some (ct, rd) \<longleftrightarrow> RawContent m \<and>
     (\<exists>kvs. Body m = GMap kvs \<and> map_of kvs RawContentTypeKey = Some (GStr ct) \<and>
            map_of kvs RawDataKey = Some (GStr rd))"
  by (auto simp: RawBody_def split: gval.splits option.splits)

lemma RawBody_copy:
  "RawBody (m\<lparr>Body := copyBody (Body m), bodyShared := x\<rparr>) = RawBody m"
proof (rule option.expand)
  let ?m = "m\<lparr>Body := copyBody (Body m), bodyShared := x\<rparr>"
  have eq: "RawBody ?m = Some (ct, rd) \<longleftrightarrow> RawBody m = Some (ct, rd)" for ct rd
    by (auto simp: RawBody_Some copyBody_map_iff map_of_copy copyBodyAt_str jsonCopy_def)
  show "(RawBody ?m = None) = (RawBody m = None)"
    using eq by (metis option.exhaust surj_pair)
  show "the (RawBody ?m) = the (RawBody m)" if "RawBody ?m \<noteq> None" "RawBody m \<noteq> None"
    using eq that by (metis option.collapse prod.collapse)
qed

section \<open>Properties of messages\<close>

text \<open>
  A raw body reads back as it was written, with or without parsed parts, on the message
  and on every clone of it; replacing the body makes the message stop being raw content.
\<close>

theorem raw_body_roundtrip:
  "RawBody (SetRawBody ct rd m) = Some (ct, rd) \<and>
   RawBody (SetRawBodyParts ct rd parts m) = Some (ct, rd) \<and>
   (\<forall>w' c. Clone w a = (w', c) \<longrightarrow> RawBody (heap w' c) = RawBody (heap w a)) \<and>
   RawBody (SetBody v (SetRawBody ct rd m)) = None"
proof (intro conjI allI impI)
  show "RawBody (SetRawBody ct rd m) = Some (ct, rd)"
    "RawBody (SetRawBodyParts ct rd parts m) = Some (ct, rd)"
    by (simp_all add: RawBody_def SetRawBody_def SetRawBodyParts_def reserved_defs)
  show "RawBody (SetBody v (SetRawBody ct rd m)) = None" by (simp add: RawBody_def)
  fix w' c assume "Clone w a = (w', c)"
  from Clone_simps(5) [OF this] show "RawBody (heap w' c) = RawBody (heap w a)"
    by (simp add: RawBody_copy)
qed

definition sample_msg :: message where
  "sample_msg = \<lparr>EventID = ''e'', CorrelationID = ''c'', Variables = [''__octoStop'' \<mapsto> GBool True, ''x'' \<mapsto> GStr ''y''],
     Body = GNull, BodySchema = [], RawContent = False, bodyShared = False\<rparr>"

definition sample_heap :: world where
  "sample_heap = \<lparr>heap = (\<lambda>_. sample_msg), hp = 1, entropy = [Some (replicate 16 CHR ''A'')]\<rparr>"

theorem raw_body_roundtrip_witness:
  "RawBody (heap (fst (Clone (upd sample_heap 0 (SetRawBody ''text/plain'' ''hi'')) 0)) 1) =
     Some (''text/plain'', ''hi'')"
  using raw_body_roundtrip [of "''text/plain''" "''hi''" sample_msg "[]"
      "upd sample_heap 0 (SetRawBody ''text/plain'' ''hi'')" 0 GNull]
  by (simp add: Clone_def Let_def alloc_def sample_heap_def)

text \<open>
  The copy handed to reporting consumers carries every variable but the reserved ones,
  so neither the stop flag nor the trace id escapes, and the message itself keeps them.
\<close>

theorem Reported_strips_internal:
  assumes "a < hp w" and "Reported w a = (w', r)"
  shows "Variables (heap w' r) = Variables (heap w a) |` {k. \<not> IsInternalVar k} \<and>
         \<not> StopRequested (heap w' r) \<and> TraceID (heap w' r) = [] \<and>
         EventID (heap w' r) = EventID (heap w a) \<and> Body (heap w' r) = Body (heap w a) \<and>
         Variables (heap w' a) = Variables (heap w a) \<and> r \<noteq> a"
proof -
  obtain w1 where s: "Scoped w a = (w1, r)" and w': "w' = upd w1 r (\<lambda>m. m\<lparr>Variables :=
            (\<lambda>name. if IsInternalVar name then None else Variables m name)\<rparr>)"
    using assms(2) by (auto simp: Reported_def split: prod.splits)
  note S = Scoped_simps [OF s assms(1)]
  have r: "r \<noteq> a" using S assms(1) by simp
  have "Variables (heap w' r) = Variables (heap w a) |` {k. \<not> IsInternalVar k}"
    using S by (auto simp: w' restrict_map_def fun_eq_iff)
  then show ?thesis using S r
    by (simp add: w' StopRequested_def TraceID_def var_Bool_def var_String_def)
qed

theorem Reported_strips_internal_witness:
  "Variables (heap (fst (Reported sample_heap 0)) 1) = [''x'' \<mapsto> GStr ''y'']"
proof -
  have "Reported sample_heap 0 = (fst (Reported sample_heap 0), 1)"
    by (simp add: Reported_def Scoped_def alloc_def upd_def Let_def sample_heap_def)
  from Reported_strips_internal [OF _ this]
  show ?thesis
    by (auto simp: sample_heap_def sample_msg_def restrict_map_def fun_eq_iff reserved_defs)
qed

text \<open>
  Once a trace id is ensured it stays: ensuring again changes nothing, and rekeying,
  cloning and scoping the message carry it, so the work a message fans out into shares one
  trace.
\<close>

theorem trace_id_stable:
  assumes "EnsureTraceID w a = (w1, Inr t)" and "t \<noteq> []"
  shows "TraceID (heap w1 a) = t \<and> EnsureTraceID w1 a = (w1, Inr t) \<and>
    (\<forall>w2 e. Rekey w1 a = (w2, Inr e) \<longrightarrow> TraceID (heap w2 a) = t \<and> EventID (heap w2 a) = e) \<and>
    (\<forall>w2 b. Clone w1 a = (w2, b) \<longrightarrow> TraceID (heap w2 b) = t) \<and>
    (\<forall>w2 b. Scoped w1 a = (w2, b) \<longrightarrow> TraceID (heap w2 b) = t)"
proof -
  have t: "TraceID (heap w1 a) = t"
    using assms(1) by (auto simp: EnsureTraceID_def Let_def split: if_splits prod.splits sum.splits)
  have rk: "TraceID (heap w2 a) = t \<and> EventID (heap w2 a) = e" if "Rekey w1 a = (w2, Inr e)" for w2 e
    using that t newEventID_frame
    by (fastforce simp: Rekey_def TraceID_def split: prod.splits sum.splits)
  have "TraceID (heap w2 b) = t" if "Clone w1 a = (w2, b)" for w2 b
    using Clone_simps(5) [OF that] t by (simp add: TraceID_def)
  moreover have "TraceID (heap w2 b) = t" if "Scoped w1 a = (w2, b)" for w2 b
    using that t by (auto simp: Scoped_def Let_def alloc_def TraceID_def)
  ultimately show ?thesis using t rk assms(2) by (auto simp: EnsureTraceID_def Let_def)
qed

theorem trace_id_stable_witness:
  "\<exists>w1 t. EnsureTraceID sample_heap 0 = (w1, Inr t) \<and> length t = 32 \<and> TraceID (heap w1 0) = t"
proof -
  have n: "TraceID (heap sample_heap 0) = []"
    by (simp add: TraceID_def sample_heap_def sample_msg_def var_String_def reserved_defs)
  define t where "t = hex_encode (replicate 16 CHR ''A'')"
  have l: "length t = 32" by (simp add: t_def length_hex_encode)
  have "newEventID sample_heap = (sample_heap\<lparr>entropy := []\<rparr>, Inr t)"
    by (simp add: newEventID_def sample_heap_def t_def eventIDBytes_def)
  then obtain w1 where w1: "EnsureTraceID sample_heap 0 = (w1, Inr t)"
    using n by (simp add: EnsureTraceID_def)
  moreover have "t \<noteq> []" using l by auto
  ultimately show ?thesis using trace_id_stable [of sample_heap 0 w1 t] l by blast
qed

end
