(* ===== verification/Octo_Block_Events.thy ===== *)
theory Octo_Block_Events
  imports Octo_Message
begin

text \<open>
  The dispatcher of block events (\<^verbatim>\<open>runtime/core/blockevents.go\<close>) and the event
  record (\<^verbatim>\<open>runtime/types/event.go\<close>). A listener observes: it is a function of
  the event that either returns or panics, a panic being contained and counted. What was
  delivered, and how many panics were contained, is part of the world. Timestamps and
  durations are left out of the events.
\<close>

section \<open>Events\<close>

datatype block_event_kind = BlockPreInvoke | BlockPostInvoke

record block_event =
  be_kind :: block_event_kind
  be_flow :: string
  be_path :: string
  be_block_type :: string
  be_event_id :: string
  be_correlation_id :: string
  be_message :: addr
  be_err :: "err option"
  be_dropped :: bool

section \<open>Registration\<close>

text \<open>\<open>panics\<close> says whether the listener function panics on an event.\<close>

record listener =
  lid :: nat
  panics_on :: "block_event \<Rightarrow> bool"

record registration =
  fn :: listener
  paths :: "string list option"

definition wants :: "registration \<Rightarrow> string \<Rightarrow> bool" where
  "wants r path = (case paths r of None \<Rightarrow> True | Some ps \<Rightarrow> path \<in> set ps)"

text \<open>
  One snapshot of the registered listeners: the registrations, the union of the filtered
  sets and whether some listener asked for everything.
\<close>

record listeners =
  registered :: "registration list"
  union_paths :: "string list"
  all_paths :: bool

definition observes :: "listeners \<Rightarrow> string \<Rightarrow> bool" where
  "observes l path =
     (if all_paths l then True
      else if union_paths l = [] then False
      else path \<in> set (union_paths l))"

definition NewBlockEvents :: listeners where
  "NewBlockEvents = \<lparr>registered = [], union_paths = [], all_paths = False\<rparr>"

text \<open>The union is only maintained while no listener watches everything, as in the source.\<close>

definition add_registration :: "listeners \<Rightarrow> registration \<Rightarrow> listeners" where
  "add_registration l r =
     (let everything = all_paths l \<or> paths r = None in
      \<lparr>registered = registered l @ [r],
       union_paths = (if everything then []
                      else union_paths l @ (case paths r of None \<Rightarrow> [] | Some ps \<Rightarrow> ps)),
       all_paths = everything\<rparr>)"

definition AddSync :: "listeners \<Rightarrow> listener \<Rightarrow> listeners" where
  "AddSync l f = add_registration l \<lparr>fn = f, paths = None\<rparr>"

definition AddSyncFor :: "listeners \<Rightarrow> string list \<Rightarrow> listener \<Rightarrow> listeners" where
  "AddSyncFor l ps f =
     (if ps = [] then l else add_registration l \<lparr>fn = f, paths = Some ps\<rparr>)"

definition Active :: "listeners \<Rightarrow> bool" where
  "Active l \<longleftrightarrow> registered l \<noteq> []"

section \<open>Delivery\<close>

record obs_world = world +
  deliveries :: "(nat \<times> block_event) list"
  panic_count :: nat

text \<open>One listener call. The event is delivered either way; a panic is counted.\<close>

definition call_listener ::
  "listener \<Rightarrow> block_event \<Rightarrow> 'a obs_world_scheme \<Rightarrow> 'a obs_world_scheme" where
  "call_listener f ev w =
     (let w1 = w\<lparr>deliveries := deliveries w @ [(lid f, ev)]\<rparr>
      in if panics_on f ev then w1\<lparr>panic_count := Suc (panic_count w1)\<rparr> else w1)"

definition Emit :: "listeners \<Rightarrow> block_event \<Rightarrow> 'a obs_world_scheme \<Rightarrow> 'a obs_world_scheme" where
  "Emit l ev w =
     fold (\<lambda>r w. if wants r (be_path ev) then call_listener (fn r) ev w else w) (registered l) w"

section \<open>Laws\<close>

text \<open>The snapshots that registration can build.\<close>

inductive built_listeners :: "listeners \<Rightarrow> bool" where
  built_new: "built_listeners NewBlockEvents"
| built_sync: "built_listeners l \<Longrightarrow> built_listeners (AddSync l f)"
| built_sync_for: "built_listeners l \<Longrightarrow> built_listeners (AddSyncFor l ps f)"

text \<open>
  The cached answer of \<open>observes\<close> agrees with asking every registration. The invariant
  that carries the proof relates the two cached fields to the list.
\<close>

definition snapshot_ok :: "listeners \<Rightarrow> bool" where
  "snapshot_ok l \<longleftrightarrow>
     all_paths l = (\<exists>r \<in> set (registered l). paths r = None) \<and>
     (\<not> all_paths l \<longrightarrow>
        set (union_paths l) = (\<Union>r \<in> set (registered l). set (the (paths r))))"

lemma snapshot_ok_new: "snapshot_ok NewBlockEvents"
  by (simp add: snapshot_ok_def NewBlockEvents_def)

lemma snapshot_ok_add: "snapshot_ok l \<Longrightarrow> snapshot_ok (add_registration l r)"
  by (auto simp: snapshot_ok_def add_registration_def Let_def split: option.splits)

lemma snapshot_ok_observes:
  assumes "snapshot_ok l"
  shows "observes l p \<longleftrightarrow> (\<exists>r \<in> set (registered l). wants r p)"
proof (cases "all_paths l")
  case True
  with assms obtain r where "r \<in> set (registered l)" "wants r p"
    by (auto simp: snapshot_ok_def wants_def)
  with True show ?thesis by (auto simp: observes_def)
next
  case False
  with assms have some: "\<forall>r \<in> set (registered l). paths r \<noteq> None"
    and union: "set (union_paths l) = (\<Union>r \<in> set (registered l). set (the (paths r)))"
    by (auto simp: snapshot_ok_def)
  have "observes l p \<longleftrightarrow> p \<in> set (union_paths l)"
    using False by (auto simp: observes_def)
  also have "\<dots> \<longleftrightarrow> (\<exists>r \<in> set (registered l). wants r p)"
  proof -
    have "wants r p \<longleftrightarrow> p \<in> set (the (paths r))" if "r \<in> set (registered l)" for r
      using some that by (auto simp: wants_def)
    then show ?thesis using union by auto
  qed
  finally show ?thesis .
qed

lemma built_snapshot_ok: "built_listeners l \<Longrightarrow> snapshot_ok l"
  by (induction rule: built_listeners.induct)
     (auto simp: AddSync_def AddSyncFor_def snapshot_ok_new snapshot_ok_add)

lemma call_listener_frame [simp]:
  "heap (call_listener f ev w) = heap w"
  "hp (call_listener f ev w) = hp w"
  "entropy (call_listener f ev w) = entropy w"
  "obs_world.more (call_listener f ev w) = obs_world.more w"
  by (simp_all add: call_listener_def Let_def)

lemma fold_listeners_frame:
  "heap (fold (\<lambda>r w. if wants r p then call_listener (fn r) ev w else w) rs w) = heap w"
  "hp (fold (\<lambda>r w. if wants r p then call_listener (fn r) ev w else w) rs w) = hp w"
  "entropy (fold (\<lambda>r w. if wants r p then call_listener (fn r) ev w else w) rs w) = entropy w"
  "obs_world.more (fold (\<lambda>r w. if wants r p then call_listener (fn r) ev w else w) rs w) =
     obs_world.more w"
  by (induction rs arbitrary: w) simp_all

lemma Emit_frame [simp]:
  "heap (Emit l ev w) = heap w"
  "hp (Emit l ev w) = hp w"
  "entropy (Emit l ev w) = entropy w"
  "obs_world.more (Emit l ev w) = obs_world.more w"
  by (simp_all add: Emit_def fold_listeners_frame)

lemma deliveries_fold:
  "deliveries (fold (\<lambda>r w. if wants r p then call_listener (fn r) ev w else w) rs w) =
     deliveries w @ map (\<lambda>r. (lid (fn r), ev)) (filter (\<lambda>r. wants r p) rs)"
  by (induction rs arbitrary: w) (simp_all add: call_listener_def Let_def)

lemma deliveries_Emit:
  "deliveries (Emit l ev w) =
     deliveries w @ map (\<lambda>r. (lid (fn r), ev)) (filter (\<lambda>r. wants r (be_path ev)) (registered l))"
  by (simp add: Emit_def deliveries_fold)

end
