(* ===== verification/Octo_Engine.thy ===== *)
theory Octo_Engine
  imports Octo_Block_Events
begin

text \<open>
  The flow runner: the processor interface of \<^verbatim>\<open>runtime/core/pipeline.go\<close>, the
  block loop of \<^verbatim>\<open>runtime/core/engine/flow.go\<close>, and the continuations of
  \<^verbatim>\<open>runtime/core/engine/continuation.go\<close>.

  A processor takes a context, the world and the address of its message, and returns the
  world it leaves behind and one of the three outcomes of \<^verbatim>\<open>Process\<close>: an error,
  a drop, or a message. The world after an error or a drop matters, because a block may have
  rewritten its message before failing and a recovery path runs on that message.
\<close>

section \<open>Processors\<close>

datatype ctx = Ctx (cancelled: bool)

datatype outcome = Failed err | Dropped | Out addr

type_synonym 'w processor = "ctx \<Rightarrow> 'w \<Rightarrow> addr \<Rightarrow> 'w \<times> outcome"

text \<open>\<open>Resume\<close> of a continuation returns an error or nil.\<close>

type_synonym 'w cont = "ctx \<Rightarrow> 'w \<Rightarrow> addr \<Rightarrow> 'w \<times> err option"

text \<open>
  A block and its optional capabilities: \<open>aware\<close> is \<^verbatim>\<open>ContinuationAware\<close>, in which
  case \<open>bproc\<close> reads the continuation it was handed; \<open>lifecycle\<close> is
  \<^verbatim>\<open>LifecycleProcessor\<close>, and \<open>stateKey\<close> is \<^verbatim>\<open>StateScoped\<close>.
\<close>

record 'w block =
  bname :: string
  btype :: string
  bpath :: string
  bproc :: "'w cont option \<Rightarrow> 'w processor"
  aware :: bool
  bcont :: "'w cont option"
  lifecycle :: bool
  stateKey :: "string option"

definition block_process :: "'w block \<Rightarrow> 'w processor" where
  "block_process b = bproc b (bcont b)"

record 'w flow =
  flow_label :: string
  blocks :: "'w block list"
  flowName :: string
  events :: "listeners option"

definition blockLabel :: "string \<Rightarrow> string \<Rightarrow> string" where
  "blockLabel blockType name = (if name \<noteq> [] then name else blockType)"

definition LifecycleProcessors :: "'w flow \<Rightarrow> 'w block list" where
  "LifecycleProcessors f = filter lifecycle (blocks f)"

definition StateKeys :: "'w flow \<Rightarrow> string list" where
  "StateKeys f = List.map_filter stateKey (blocks f)"

section \<open>The block loop\<close>

definition mk_event ::
  "string \<Rightarrow> block_event_kind \<Rightarrow> 'w block \<Rightarrow> addr \<Rightarrow> message \<Rightarrow> block_event" where
  "mk_event fname kind b a m =
     \<lparr>be_kind = kind, be_flow = fname, be_path = bpath b, be_block_type = btype b,
      be_event_id = EventID m, be_correlation_id = CorrelationID m, be_message = a,
      be_err = None, be_dropped = False\<rparr>"

text \<open>
  The post-invoke event carries the message the block produced, or its input when it
  produced none.
\<close>

definition mk_outcome ::
  "string \<Rightarrow> ('a obs_world_scheme) block \<Rightarrow> addr \<Rightarrow> outcome \<Rightarrow> 'a obs_world_scheme \<Rightarrow> block_event"
where
  "mk_outcome fname b input res w =
     (let a = (case res of Out o' \<Rightarrow> o' | _ \<Rightarrow> input)
      in (mk_event fname BlockPostInvoke b a (heap w a))
           \<lparr>be_err := (case res of Failed e \<Rightarrow> Some e | _ \<Rightarrow> None),
            be_dropped := (res = Dropped)\<rparr>)"

definition observed :: "listeners option \<Rightarrow> 'w block \<Rightarrow> bool" where
  "observed evs b =
     (case evs of None \<Rightarrow> False | Some l \<Rightarrow> bpath b \<noteq> [] \<and> observes l (bpath b))"

definition emit_if ::
  "bool \<Rightarrow> listeners option \<Rightarrow> block_event \<Rightarrow> 'a obs_world_scheme \<Rightarrow> 'a obs_world_scheme" where
  "emit_if obs evs ev w =
     (if obs then (case evs of None \<Rightarrow> w | Some l \<Rightarrow> Emit l ev w) else w)"

text \<open>One block with its bracketing events.\<close>

definition invoke ::
  "listeners option \<Rightarrow> string \<Rightarrow> ('a obs_world_scheme) block \<Rightarrow> ('a obs_world_scheme) processor"
where
  "invoke evs fname b c w a =
     (let obs = observed evs b;
          w1 = emit_if obs evs (mk_event fname BlockPreInvoke b a (heap w a)) w
      in case block_process b c w1 a of (w2, res) \<Rightarrow>
           (emit_if obs evs (mk_outcome fname b a res w2) w2, res))"

fun run_blocks ::
  "listeners option \<Rightarrow> string \<Rightarrow> ('a obs_world_scheme) block list \<Rightarrow> ('a obs_world_scheme) processor"
where
  "run_blocks evs fname [] c w a = (w, Out a)"
| "run_blocks evs fname (b # bs) c w a =
     (case invoke evs fname b c w a of
        (w', Failed e) \<Rightarrow> (w', Failed (BlockError (blockLabel (btype b) (bname b)) e))
      | (w', Dropped) \<Rightarrow> (w', Dropped)
      | (w', Out o') \<Rightarrow>
          if StopRequested (heap w' o') then (w', Out o') else run_blocks evs fname bs c w' o')"

definition flow_process :: "('a obs_world_scheme) flow \<Rightarrow> ('a obs_world_scheme) processor" where
  "flow_process f = run_blocks (events f) (flowName f) (blocks f)"

section \<open>Continuations\<close>

definition errNoResume :: err where
  "errNoResume = Err ''flow has no resume hook: this flow was not built by the runtime''"

definition tailFrom :: "'w flow \<Rightarrow> nat \<Rightarrow> 'w flow" where
  "tailFrom f i = f\<lparr>blocks := drop i (blocks f)\<rparr>"

text \<open>
  The runtime's hook schedules a message through a tail. A flow without a hook fails the
  resume.
\<close>

type_synonym 'w resume_hook = "'w block list \<Rightarrow> 'w cont"

definition Resume :: "'w resume_hook option \<Rightarrow> 'w block list \<Rightarrow> 'w cont" where
  "Resume hook tail c w a =
     (case hook of None \<Rightarrow> (w, Some errNoResume) | Some h \<Rightarrow> h tail c w a)"

definition last_block_error :: "'w block \<Rightarrow> err" where
  "last_block_error b =
     Err (''block '' @ quote (blockLabel (btype b) (bname b)) @
          '' continues the flow but is the last block in the chain: nothing would run after it'')"

text \<open>
  Each aware block is handed the chain after it. A tail shares the blocks of the flow it is
  carved from, so the blocks in it are wired as well.
\<close>

fun wireContinuations :: "'w resume_hook option \<Rightarrow> 'w block list \<Rightarrow> (err, 'w block list) res" where
  "wireContinuations hook [] = Inr []"
| "wireContinuations hook (b # bs) =
     (if aware b \<and> bs = [] then Inl (last_block_error b)
      else (case wireContinuations hook bs of
              Inl e \<Rightarrow> Inl e
            | Inr ts \<Rightarrow>
                Inr ((if aware b then b\<lparr>bcont := Some (Resume hook ts)\<rparr> else b) # ts)))"

section \<open>Laws of the loop\<close>

lemma emit_if_frame [simp]:
  "heap (emit_if obs evs ev w) = heap w"
  "hp (emit_if obs evs ev w) = hp w"
  "entropy (emit_if obs evs ev w) = entropy w"
  "obs_world.more (emit_if obs evs ev w) = obs_world.more w"
  by (auto simp: emit_if_def split: option.splits)

subsection \<open>The message frame\<close>

text \<open>
  \<open>frames w a w'\<close>: going from \<open>w\<close> to \<open>w'\<close> no message that existed was
  rewritten or freed, \<open>a\<close> apart. \<open>owned w a w' b\<close>: \<open>b\<close> is \<open>a\<close> or was
  allocated on the way.
\<close>

definition frames :: "'a world_scheme \<Rightarrow> addr \<Rightarrow> 'a world_scheme \<Rightarrow> bool" where
  "frames w a w' \<longleftrightarrow> hp w \<le> hp w' \<and> (\<forall>b < hp w. b \<noteq> a \<longrightarrow> heap w' b = heap w b)"

definition owned :: "'a world_scheme \<Rightarrow> addr \<Rightarrow> 'a world_scheme \<Rightarrow> addr \<Rightarrow> bool" where
  "owned w a w' b \<longleftrightarrow> b = a \<or> (hp w \<le> b \<and> b < hp w')"

lemma frames_refl [simp]: "frames w a w"
  by (simp add: frames_def)

lemma owned_self [simp]: "owned w a w' a"
  by (simp add: owned_def)

lemma frames_heap: "frames w a w' \<Longrightarrow> b < hp w \<Longrightarrow> b \<noteq> a \<Longrightarrow> heap w' b = heap w b"
  by (simp add: frames_def)

lemma frames_grow: "frames w a w' \<Longrightarrow> hp w \<le> hp w'"
  by (simp add: frames_def)

lemma owned_live: "a < hp w \<Longrightarrow> frames w a w' \<Longrightarrow> owned w a w' b \<Longrightarrow> b < hp w'"
  by (auto simp: frames_def owned_def)

lemma frames_trans:
  assumes "frames w a w1" and "owned w a w1 b" and "frames w1 b w2"
  shows "frames w a w2"
proof -
  have "heap w2 x = heap w x" if "x < hp w" "x \<noteq> a" for x
    using assms that frames_heap [OF assms(3), of x] by (auto simp: frames_def owned_def)
  then show ?thesis using assms by (auto simp: frames_def)
qed

lemma owned_trans:
  "frames w a w1 \<Longrightarrow> owned w a w1 b \<Longrightarrow> frames w1 b w2 \<Longrightarrow> owned w1 b w2 x \<Longrightarrow> owned w a w2 x"
  by (auto simp: frames_def owned_def)

lemma frames_upd: "frames w a w1 \<Longrightarrow> owned w a w1 b \<Longrightarrow> frames w a (upd w1 b f)"
  by (auto simp: frames_def owned_def)

lemma owned_upd [simp]: "owned w a (upd w1 b f) x = owned w a w1 x"
  by (simp add: owned_def)

lemma frames_same:
  "heap w1 = heap w \<Longrightarrow> hp w1 = hp w \<Longrightarrow> heap w2' = heap w2 \<Longrightarrow> hp w2' = hp w2 \<Longrightarrow>
   frames w1 a w2 \<Longrightarrow> frames w a w2'"
  by (simp add: frames_def)

lemma frames_Scoped:
  assumes "Scoped w a = (w1, s)" and "a < hp w"
  shows "frames w a w1" and "owned w a w1 s" and "s < hp w1" and "a < hp w1" and "s \<noteq> a"
  using Scoped_simps [OF assms] assms(2) by (auto simp: frames_def owned_def)

lemma frames_Clone:
  assumes "Clone w a = (w1, s)" and "a < hp w"
  shows "frames w x w1" and "owned w x w1 s" and "s < hp w1" and "a < hp w1" and "s \<noteq> a"
  using Clone_simps [OF assms(1)] assms(2) by (auto simp: frames_def owned_def)

text \<open>
  The contract a processor keeps towards the messages of other invocations: it only rewrites
  the message it was given and messages it allocated, and what it returns is one of those.
\<close>

locale framed_processor =
  fixes P :: "('a world_scheme) processor"
  assumes frame: "a < hp w \<Longrightarrow> P c w a = (w', r) \<Longrightarrow> frames w a w'"
    and result: "a < hp w \<Longrightarrow> P c w a = (w', Out b) \<Longrightarrow> owned w a w' b"
begin

lemma result_live: "a < hp w \<Longrightarrow> P c w a = (w', Out b) \<Longrightarrow> b < hp w'"
  using frame result by (blast intro: owned_live)

lemma others_kept: "a < hp w \<Longrightarrow> b < hp w \<Longrightarrow> b \<noteq> a \<Longrightarrow> heap (fst (P c w a)) b = heap w b"
  by (metis frame frames_heap prod.collapse)

end

lemma framed_processorI [intro]:
  assumes "\<And>c w a w' r. a < hp w \<Longrightarrow> P c w a = (w', r) \<Longrightarrow>
      frames w a w' \<and> (\<forall>b. r = Out b \<longrightarrow> owned w a w' b)"
  shows "framed_processor P"
  by (standard; use assms in blast)

lemma framed_processorD:
  assumes "framed_processor P" and "a < hp w" and "P c w a = (w', r)"
  shows "frames w a w' \<and> (\<forall>b. r = Out b \<longrightarrow> owned w a w' b)"
  using framed_processor.frame [OF assms] framed_processor.result [OF assms(1,2)] assms(3)
  by blast

text \<open>
  Sequencing: a processor that runs on a message the caller owns stays within the caller's
  frame.
\<close>

lemma framed_seq:
  assumes Q: "framed_processor Q" and a: "a < hp w" and p: "frames w a w1" "owned w a w1 b"
    and q: "Q c w1 b = (w2, r)"
  shows "frames w a w2 \<and> (\<forall>x. r = Out x \<longrightarrow> owned w a w2 x)"
  using framed_processorD [OF Q owned_live [OF a p] q] p
  by (blast intro: frames_trans owned_trans)

lemma invoke_cases:
  assumes "invoke evs fname b c w a = (w', r)"
  obtains w1 w2 where "heap w1 = heap w" "hp w1 = hp w" "block_process b c w1 a = (w2, r)"
    "heap w' = heap w2" "hp w' = hp w2"
proof (rule that)
  let ?w1 = "emit_if (observed evs b) evs (mk_event fname BlockPreInvoke b a (heap w a)) w"
  show "block_process b c ?w1 a = (fst (block_process b c ?w1 a), r)"
    and "heap w' = heap (fst (block_process b c ?w1 a))"
    and "hp w' = hp (fst (block_process b c ?w1 a))"
    using assms by (auto simp: invoke_def Let_def split: prod.splits)
qed simp_all

lemma framed_invoke [frame_intros]:
  assumes "framed_processor (block_process b)"
  shows "framed_processor (invoke evs fname b)"
proof
  fix c and w :: "'a obs_world_scheme" and a w' r
  assume a: "a < hp w" and i: "invoke evs fname b c w a = (w', r)"
  obtain w1 w2 where w: "heap w1 = heap w" "hp w1 = hp w" "block_process b c w1 a = (w2, r)"
    "heap w' = heap w2" "hp w' = hp w2" using invoke_cases [OF i] .
  with framed_processorD [OF assms, of a w1] a
  show "frames w a w' \<and> (\<forall>b. r = Out b \<longrightarrow> owned w a w' b)"
    by (simp add: frames_def owned_def)
qed

lemma framed_run_blocks [frame_intros]:
  assumes "\<forall>b \<in> set bs. framed_processor (block_process b)"
  shows "framed_processor (run_blocks evs fname bs)"
  using assms
proof (induction bs)
  case Nil
  show ?case by (rule framed_processorI) auto
next
  case (Cons b bs)
  have I: "framed_processor (invoke evs fname b)" using Cons.prems by (simp add: framed_invoke)
  have R: "framed_processor (run_blocks evs fname bs)" using Cons by simp
  show ?case
  proof
    fix c and w :: "'a obs_world_scheme" and a w' r
    assume a: "a < hp w" and run: "run_blocks evs fname (b # bs) c w a = (w', r)"
    obtain w1 r1 where i: "invoke evs fname b c w a = (w1, r1)" by force
    have f: "frames w a w1" "\<And>x. r1 = Out x \<Longrightarrow> owned w a w1 x"
      using framed_processorD [OF I a i] by simp_all
    show "frames w a w' \<and> (\<forall>b. r = Out b \<longrightarrow> owned w a w' b)"
    proof (cases r1)
      case (Out x)
      show ?thesis
      proof (cases "StopRequested (heap w1 x)")
        case False
        then have "run_blocks evs fname bs c w1 x = (w', r)" using run i Out by simp
        then show ?thesis by (rule framed_seq [OF R a f(1) f(2) [OF Out]])
      qed (use run i Out f in simp)
    qed (use run i f in auto)
  qed
qed

section \<open>A sample run\<close>

text \<open>A small flow the properties are evaluated on.\<close>

definition sample_message :: message where
  "sample_message =
     \<lparr>EventID = ''e1'', CorrelationID = ''c1'', Variables = Map.empty, Body = GNull,
      BodySchema = [], RawContent = False, bodyShared = False\<rparr>"

definition sample_world :: obs_world where
  "sample_world =
     \<lparr>heap = (\<lambda>_. sample_message), hp = 1, entropy = [], deliveries = [], panic_count = 0\<rparr>"

definition sample_block :: "string \<Rightarrow> obs_world processor \<Rightarrow> obs_world block" where
  "sample_block name p =
     \<lparr>bname = name, btype = ''log'', bpath = ''orders.'' @ name, bproc = (\<lambda>_. p), aware = False,
      bcont = None, lifecycle = False, stateKey = None\<rparr>"

definition sample_pass :: "obs_world processor" where
  "sample_pass c w a = (w, Out a)"

definition sample_stop :: "obs_world processor" where
  "sample_stop c w a = (upd w a RequestStop, Out a)"

definition sample_listeners :: listeners where
  "sample_listeners = AddSync NewBlockEvents \<lparr>lid = 7, panics_on = (\<lambda>_. True)\<rparr>"

definition sample_flow :: "obs_world flow" where
  "sample_flow =
     \<lparr>flow_label = ''orders'',
      blocks = [sample_block ''a'' sample_pass, sample_block ''b'' sample_stop,
                sample_block ''c'' sample_pass],
      flowName = ''orders'', events = Some sample_listeners\<rparr>"

lemma sample_world_simps [simp]:
  "hp sample_world = 1" "heap sample_world a = sample_message" "deliveries sample_world = []"
  by (simp_all add: sample_world_def)

lemma sample_block_simps [simp]:
  "block_process (sample_block n p) = p" "bpath (sample_block n p) = ''orders.'' @ n"
  "btype (sample_block n p) = ''log''" "bname (sample_block n p) = n" "\<not> aware (sample_block n p)"
  by (simp_all add: sample_block_def block_process_def)

lemma sample_flow_simps [simp]:
  "blocks sample_flow =
     [sample_block ''a'' sample_pass, sample_block ''b'' sample_stop, sample_block ''c'' sample_pass]"
  "events sample_flow = Some sample_listeners" "flowName sample_flow = ''orders''"
  by (simp_all add: sample_flow_def)

lemma sample_listeners_built: "built_listeners sample_listeners"
  unfolding sample_listeners_def by (intro built_listeners.intros)

section \<open>Properties of the runner\<close>

subsection \<open>Tails\<close>

lemma run_blocks_append:
  "run_blocks evs fname (xs @ ys) c w a =
     (case run_blocks evs fname xs c w a of
        (w', Out b) \<Rightarrow>
          if xs \<noteq> [] \<and> StopRequested (heap w' b) then (w', Out b)
          else run_blocks evs fname ys c w' b
      | x \<Rightarrow> x)"
proof (induction xs arbitrary: w a)
  case (Cons b xs)
  obtain w1 r1 where i: "invoke evs fname b c w a = (w1, r1)" by force
  show ?case using Cons.IH i by (cases r1) (auto split: prod.splits outcome.splits)
qed simp

text \<open>
  Cutting a chain at any block and running the tail (what \<^verbatim>\<open>tailFrom\<close> hands a
  continuation) on the message the head returned is running the chain, with the same events:
  a head that fails, drops or stops ends the run, and nothing of the tail runs.
\<close>

theorem tail_completes_chain:
  assumes "0 < i"
  shows "flow_process f c w a =
     (case flow_process (f\<lparr>blocks := take i (blocks f)\<rparr>) c w a of
        (w', Out b) \<Rightarrow>
          if blocks f \<noteq> [] \<and> StopRequested (heap w' b) then (w', Out b)
          else flow_process (tailFrom f i) c w' b
      | x \<Rightarrow> x)"
proof -
  have "take i (blocks f) \<noteq> [] \<longleftrightarrow> blocks f \<noteq> []" using assms by auto
  then show ?thesis
    using run_blocks_append [of "events f" "flowName f" "take i (blocks f)" "drop i (blocks f)" c w a]
    by (auto simp: flow_process_def tailFrom_def split: prod.splits outcome.splits)
qed

theorem tail_completes_chain_witness:
  "0 < (2 :: nat) \<and>
   flow_process sample_flow (Ctx False) sample_world 0 =
     (case flow_process (sample_flow\<lparr>blocks := take 2 (blocks sample_flow)\<rparr>) (Ctx False) sample_world 0 of
        (w', Out b) \<Rightarrow>
          if blocks sample_flow \<noteq> [] \<and> StopRequested (heap w' b) then (w', Out b)
          else flow_process (tailFrom sample_flow 2) (Ctx False) w' b
      | x \<Rightarrow> x)"
  by (rule conjI [OF _ tail_completes_chain]) simp_all

subsection \<open>Labels\<close>

lemma run_blocks_failure:
  "run_blocks evs fname bs c w a = (w', Failed e) \<Longrightarrow>
   \<exists>b \<in> set bs. \<exists>e'. e = BlockError (blockLabel (btype b) (bname b)) e'"
proof (induction bs arbitrary: w a)
  case (Cons b bs)
  obtain w1 r1 where i: "invoke evs fname b c w a = (w1, r1)" by force
  show ?case
    using Cons.prems i Cons.IH by (cases r1) (auto split: if_splits)
qed simp

subsection \<open>Bracketing\<close>

text \<open>
  A quiet block emits nothing itself, which is the case of every block without sub-flows.
\<close>

definition quiet :: "('a obs_world_scheme) block \<Rightarrow> bool" where
  "quiet b \<longleftrightarrow> (\<forall>c w a. deliveries (fst (block_process b c w a)) = deliveries w)"

lemma quietD: "quiet b \<Longrightarrow> block_process b c w a = (w', r) \<Longrightarrow> deliveries w' = deliveries w"
  by (metis fst_conv quiet_def)

text \<open>What one listener is told, as the kind and the path of each event.\<close>

definition told :: "nat \<Rightarrow> 'a obs_world_scheme \<Rightarrow> (block_event_kind \<times> string) list" where
  "told l w = map (\<lambda>(_, ev). (be_kind ev, be_path ev)) (filter (\<lambda>(i, _). i = l) (deliveries w))"

definition bracket :: "'w block \<Rightarrow> (block_event_kind \<times> string) list" where
  "bracket b = [(BlockPreInvoke, bpath b), (BlockPostInvoke, bpath b)]"

text \<open>The identifiers of the listeners that want a path.\<close>

definition wanting :: "listeners \<Rightarrow> string \<Rightarrow> nat list" where
  "wanting l p = map (\<lambda>r. lid (fn r)) (filter (\<lambda>r. wants r p) (registered l))"

lemma told_Emit:
  "distinct (map (\<lambda>r. lid (fn r)) (registered l)) \<Longrightarrow>
   told i (Emit l ev w) =
     told i w @ (if i \<in> set (wanting l (be_path ev)) then [(be_kind ev, be_path ev)] else [])"
proof -
  assume d: "distinct (map (\<lambda>r. lid (fn r)) (registered l))"
  have "map snd (filter (\<lambda>(j, _). j = i) (map (\<lambda>r. (lid (fn r), x)) rs)) =
      (if i \<in> set (map (\<lambda>r. lid (fn r)) rs) then [x] else [])"
    if "distinct (map (\<lambda>r. lid (fn r)) rs)" for rs and x :: block_event
    using that by (induction rs) (auto simp: filter_empty_conv)
  note this [of "filter (\<lambda>r. wants r (be_path ev)) (registered l)" ev]
  then have m: "map snd (filter (\<lambda>(j, _). j = i)
        (map (\<lambda>r. (lid (fn r), ev)) (filter (\<lambda>r. wants r (be_path ev)) (registered l)))) =
      (if i \<in> set (wanting l (be_path ev)) then [ev] else [])"
    using d by (simp add: distinct_map_filter wanting_def)
  have "map (\<lambda>(_, ev). (be_kind ev, be_path ev)) xs = map (\<lambda>ev. (be_kind ev, be_path ev)) (map snd xs)"
    for xs :: "(nat \<times> block_event) list" by auto
  then show ?thesis using m by (auto simp: told_def deliveries_Emit)
qed

definition listener_ids :: "listeners \<Rightarrow> nat list" where
  "listener_ids l = map (\<lambda>r. lid (fn r)) (registered l)"

definition hears :: "listeners \<Rightarrow> nat \<Rightarrow> 'w block \<Rightarrow> bool" where
  "hears l i b \<longleftrightarrow> bpath b \<noteq> [] \<and> i \<in> set (wanting l (bpath b))"

lemma told_emit_if:
  assumes "built_listeners l" and "distinct (listener_ids l)" and "be_path ev = bpath b"
  shows "told i (emit_if (observed (Some l) b) (Some l) ev w) =
     told i w @ (if hears l i b then [(be_kind ev, bpath b)] else [])"
proof (cases "observed (Some l) b")
  case True
  then show ?thesis using told_Emit [of l i ev w] assms(2,3)
    by (auto simp: emit_if_def observed_def hears_def listener_ids_def)
next
  case False
  then have "\<not> hears l i b"
    using snapshot_ok_observes [OF built_snapshot_ok [OF assms(1)], of "bpath b"]
    by (auto simp: observed_def hears_def wanting_def)
  with False show ?thesis by (simp add: emit_if_def)
qed

lemma told_invoke:
  assumes "built_listeners l" and "distinct (listener_ids l)" and "quiet b"
    and "invoke (Some l) fname b c w a = (w', r)"
  shows "told i w' = told i w @ (if hears l i b then bracket b else [])"
proof -
  let ?o = "observed (Some l) b"
  let ?w1 = "emit_if ?o (Some l) (mk_event fname BlockPreInvoke b a (heap w a)) w"
  obtain w2 where b: "block_process b c ?w1 a = (w2, r)"
    and w': "w' = emit_if ?o (Some l) (mk_outcome fname b a r w2) w2"
    using assms(4) by (auto simp: invoke_def Let_def split: prod.splits)
  have "told i w' = told i w2 @ (if hears l i b then [(BlockPostInvoke, bpath b)] else [])"
    unfolding w' by (subst told_emit_if [OF assms(1,2)]) (simp_all add: mk_outcome_def mk_event_def Let_def)
  moreover have "told i w2 = told i ?w1" using quietD [OF assms(3) b] by (simp add: told_def)
  moreover have "told i ?w1 = told i w @ (if hears l i b then [(BlockPreInvoke, bpath b)] else [])"
    by (subst told_emit_if [OF assms(1,2)]) (simp_all add: mk_event_def)
  ultimately show ?thesis by (simp add: bracket_def)
qed

lemma told_run_blocks:
  assumes "built_listeners l" and "distinct (listener_ids l)" and "\<forall>b \<in> set bs. quiet b"
    and "run_blocks (Some l) fname bs c w a = (w', r)"
  shows "\<exists>k \<le> length bs.
      told i w' = told i w @ concat (map bracket (filter (hears l i) (take k bs))) \<and>
      (\<forall>b. r = Out b \<longrightarrow> \<not> StopRequested (heap w' b) \<longrightarrow> k = length bs) \<and>
      (bs \<noteq> [] \<longrightarrow> 0 < k)"
  using assms(3,4)
proof (induction bs arbitrary: w a)
  case (Cons b bs)
  obtain w1 r1 where i: "invoke (Some l) fname b c w a = (w1, r1)" by force
  have one: "told i w1 = told i w @ (if hears l i b then bracket b else [])"
    using told_invoke [OF assms(1,2) _ i] Cons.prems(1) by simp
  show ?case
  proof (cases "\<exists>x. r1 = Out x \<and> \<not> StopRequested (heap w1 x)")
    case True
    then obtain x where x: "r1 = Out x" "\<not> StopRequested (heap w1 x)" by blast
    then have "run_blocks (Some l) fname bs c w1 x = (w', r)" using Cons.prems(2) i by simp
    from Cons.IH [OF _ this] Cons.prems(1) obtain k where
      "k \<le> length bs" "told i w' = told i w1 @ concat (map bracket (filter (hears l i) (take k bs)))"
      "\<forall>b. r = Out b \<longrightarrow> \<not> StopRequested (heap w' b) \<longrightarrow> k = length bs" by auto
    with one show ?thesis by (intro exI [of _ "Suc k"]) auto
  next
    case False
    then have "w' = w1 \<and> (\<forall>b. r = Out b \<longrightarrow> StopRequested (heap w' b))"
      using Cons.prems(2) i by (cases r1) auto
    with one show ?thesis by (intro exI [of _ 1]) auto
  qed
qed simp



subsection \<open>Wiring of continuations\<close>

lemma wire_refuses:
  "bs \<noteq> [] \<Longrightarrow> aware (last bs) \<Longrightarrow> wireContinuations hook bs = Inl (last_block_error (last bs))"
  by (induction bs) auto

lemma wire_accepts: "wireContinuations hook bs = Inl e \<Longrightarrow> bs \<noteq> [] \<and> aware (last bs)"
  by (induction bs) (auto split: sum.splits if_splits)

lemma wire_ok:
  "wireContinuations hook bs = Inr ws \<Longrightarrow> length ws = length bs \<and> (\<forall>i < length bs.
     ws ! i = (if aware (bs ! i) then (bs ! i)\<lparr>bcont := Some (Resume hook (drop (Suc i) ws))\<rparr>
               else bs ! i))"
proof (induction bs arbitrary: ws)
  case (Cons b bs)
  then obtain ts where ts: "wireContinuations hook bs = Inr ts"
    and ws: "ws = (if aware b then b\<lparr>bcont := Some (Resume hook ts)\<rparr> else b) # ts"
    by (auto split: if_splits sum.splits)
  show ?case
  proof (intro conjI allI impI)
    show "length ws = length (b # bs)" using Cons.IH [OF ts] ws by simp
    fix i assume "i < length (b # bs)"
    then show "ws ! i = (if aware ((b # bs) ! i)
        then ((b # bs) ! i)\<lparr>bcont := Some (Resume hook (drop (Suc i) ws))\<rparr> else (b # bs) ! i)"
      using Cons.IH [OF ts] ws by (cases i) auto
  qed
qed simp

text \<open>
  Wiring fails exactly when the last block of the chain is continuation-aware, naming
  it; otherwise every aware block is handed the continuation of the wired blocks after it
  (its tail is never empty) and no other block changes.
\<close>

theorem wireContinuations_correct:
  "(case wireContinuations hook bs of
      Inl e \<Rightarrow> bs \<noteq> [] \<and> aware (last bs) \<and> e = last_block_error (last bs)
    | Inr ws \<Rightarrow> (bs = [] \<or> \<not> aware (last bs)) \<and> length ws = length bs \<and>
        (\<forall>i < length bs.
           if aware (bs ! i)
           then drop (Suc i) ws \<noteq> [] \<and>
                ws ! i = (bs ! i)\<lparr>bcont := Some (Resume hook (drop (Suc i) ws))\<rparr>
           else ws ! i = bs ! i))"
proof (cases "wireContinuations hook bs")
  case (Inl e)
  then show ?thesis using wire_accepts [OF Inl] wire_refuses [of bs hook] by simp
next
  case (Inr ws)
  have last: "bs = [] \<or> \<not> aware (last bs)" using wire_refuses [of bs hook] Inr by auto
  have "drop (Suc i) ws \<noteq> []" if i: "i < length bs" "aware (bs ! i)" for i
  proof -
    have "i \<noteq> length bs - 1" using last i by (cases "bs = []") (auto simp: last_conv_nth)
    then show ?thesis using i wire_ok [OF Inr] by simp
  qed
  with wire_ok [OF Inr] last Inr show ?thesis by simp
qed

theorem wireContinuations_correct_witness:
  "(let split = (sample_block ''split'' sample_pass)\<lparr>aware := True\<rparr>; log = sample_block ''log'' sample_pass
    in wireContinuations None [split, log] = Inr [split\<lparr>bcont := Some (Resume None [log])\<rparr>, log]) \<and>
   (case wireContinuations None [(sample_block ''split'' sample_pass)\<lparr>aware := True\<rparr>] of
      Inl e \<Rightarrow> e = last_block_error ((sample_block ''split'' sample_pass)\<lparr>aware := True\<rparr>) | Inr ws \<Rightarrow> False)"
  using wireContinuations_correct [where hook = None and bs = "[(sample_block ''split'' sample_pass)\<lparr>aware := True\<rparr>]"]
  by (simp add: Let_def sample_block_def)

end
