(* ===== verification/Octo_Composites.thy ===== *)
theory Octo_Composites
  imports Octo_Engine
begin

text \<open>
  The blocks that shape how a flow runs (\<^verbatim>\<open>runtime/blocks/controlflow\<close>:
  \<^verbatim>\<open>composites.go\<close>, \<^verbatim>\<open>filter.go\<close>, \<^verbatim>\<open>validate.go\<close>,
  \<^verbatim>\<open>takeover.go\<close>), the condition evaluator every guard shares
  (\<^verbatim>\<open>core/expr/condition.go\<close>) and the built-in setters
  (\<^verbatim>\<open>blocks/builtin/setters.go\<close>). Sub-flows are processors.

  A compiled CEL program is a parameter: the evaluator is third-party code. It is a function
  of the world (the clock and the environment are readable from an expression) and of the
  message it is evaluated against.
\<close>

type_synonym 'w program = "'w \<Rightarrow> message \<Rightarrow> (err, gval) res"

section \<open>Conditions\<close>

text \<open>The \<^verbatim>\<open>%T\<close> verb.\<close>

fun type_name :: "gval \<Rightarrow> string" where
  "type_name GNull = ''<nil>''"
| "type_name (GBool b) = ''bool''"
| "type_name (GStr s) = ''string''"
| "type_name (GFloat q) = ''float64''"
| "type_name (GInt n) = ''int''"
| "type_name (GInt64 n) = ''int64''"
| "type_name (GMap kvs) = ''map[string]interface {}''"
| "type_name GNilMap = ''map[string]interface {}''"
| "type_name (GList vs) = ''[]interface {}''"
| "type_name GNilList = ''[]interface {}''"
| "type_name (GOpaque n) = ''chan struct {}''"

definition EvalCondition :: "'w program \<Rightarrow> 'w \<Rightarrow> message \<Rightarrow> (err, bool) res" where
  "EvalCondition p w m =
     (case p w m of
        Inl e \<Rightarrow> Inl e
      | Inr (GBool b) \<Rightarrow> Inr b
      | Inr v \<Rightarrow> Inl (Err (''condition must evaluate to a bool, got '' @ type_name v)))"

text \<open>\<^verbatim>\<open>value.([]any)\<close>: a typed nil slice is a slice of length zero.\<close>

definition as_list :: "gval \<Rightarrow> gval list option" where
  "as_list v = (case v of GList vs \<Rightarrow> Some vs | GNilList \<Rightarrow> Some [] | _ \<Rightarrow> None)"

section \<open>Error boundary\<close>

definition scope_process ::
  "('a world_scheme) processor \<Rightarrow> ('a world_scheme) processor option \<Rightarrow>
   (err \<Rightarrow> message \<Rightarrow> message) option \<Rightarrow> ('a world_scheme) processor" where
  "scope_process main alternative onError c w a =
     (case main c w a of
        (w1, Failed e) \<Rightarrow>
          (case alternative of
             None \<Rightarrow> (w1, Failed e)
           | Some alt \<Rightarrow>
               let w2 = (case onError of None \<Rightarrow> w1 | Some f \<Rightarrow> upd w1 a (f e)) in
               (case alt c w2 a of
                  (w3, Failed e') \<Rightarrow> (w3, Failed (Wrap ''scope alternative'' e'))
                | (w3, r) \<Rightarrow> (w3, r)))
      | (w1, r) \<Rightarrow> (w1, r))"

text \<open>The \<^verbatim>\<open>handle-errors\<close> specialisation: the failure is exposed as \<^verbatim>\<open>vars.error\<close>.\<close>

definition handle_errors ::
  "string \<Rightarrow> ('a world_scheme) processor \<Rightarrow> ('a world_scheme) processor \<Rightarrow>
   ('a world_scheme) processor" where
  "handle_errors name main alternative =
     scope_process main (Some alternative) (Some (\<lambda>e. SetErrorVariable name e))"

section \<open>Fork\<close>

text \<open>
  The branches run concurrently on clones. A schedule lists the branches in the order in
  which they take the join's mutex, and says of each whether it saw the cancellation the
  first failing branch triggers; branches touch disjoint messages, so running each one at
  its turn is one of the executions and every interleaving of the join has such an order.
\<close>

record 'w fork_branch =
  fb_name :: string
  fb_flow :: "'w processor"

fun clones :: "'a world_scheme \<Rightarrow> addr \<Rightarrow> nat \<Rightarrow> 'a world_scheme \<times> addr list" where
  "clones w a 0 = (w, [])"
| "clones w a (Suc n) =
     (case Clone w a of (w1, cl) \<Rightarrow> (case clones w1 a n of (w2, cs) \<Rightarrow> (w2, cl # cs)))"

record join_state =
  js_stop :: bool
  js_err :: "err option"

definition run_branch ::
  "('a world_scheme) fork_branch \<Rightarrow> addr \<Rightarrow> bool \<Rightarrow> ctx \<Rightarrow> 'a world_scheme \<Rightarrow> join_state \<Rightarrow>
   'a world_scheme \<times> join_state" where
  "run_branch br cl sees c w js =
     (let c' = Ctx (cancelled c \<or> sees \<and> js_err js \<noteq> None) in
      case fb_flow br c' w cl of (w', r) \<Rightarrow>
        (w', \<lparr>js_stop = (js_stop js \<or> StopRequested (heap w' cl) \<or>
                        (case r of Out o' \<Rightarrow> StopRequested (heap w' o') | _ \<Rightarrow> False)),
              js_err = (case (r, js_err js) of
                          (Failed e, None) \<Rightarrow>
                            Some (Wrap (''fork branch '' @ quote (fb_name br)) e)
                        | _ \<Rightarrow> js_err js)\<rparr>))"

fun run_branches ::
  "('a world_scheme) fork_branch list \<Rightarrow> addr list \<Rightarrow> (nat \<times> bool) list \<Rightarrow> ctx \<Rightarrow>
   'a world_scheme \<Rightarrow> join_state \<Rightarrow> 'a world_scheme \<times> join_state" where
  "run_branches brs cs [] c w js = (w, js)"
| "run_branches brs cs ((i, sees) # sched) c w js =
     (case run_branch (brs ! i) (cs ! i) sees c w js of
        (w', js') \<Rightarrow> run_branches brs cs sched c w' js')"

definition fork_process ::
  "('a world_scheme) fork_branch list \<Rightarrow> (nat \<times> bool) list \<Rightarrow> ('a world_scheme) processor" where
  "fork_process brs sched c w a =
     (case clones w a (length brs) of (w1, cs) \<Rightarrow>
      case run_branches brs cs sched c w1 \<lparr>js_stop = False, js_err = None\<rparr> of (w2, js) \<Rightarrow>
        (case js_err js of
           Some e \<Rightarrow> (w2, Failed e)
         | None \<Rightarrow> ((if js_stop js then upd w2 a RequestStop else w2), Out a)))"

text \<open>A schedule runs every branch exactly once.\<close>

definition schedule_of :: "nat \<Rightarrow> (nat \<times> bool) list \<Rightarrow> bool" where
  "schedule_of n sched \<longleftrightarrow> distinct (map fst sched) \<and> set (map fst sched) = {..<n}"

section \<open>Branching\<close>

definition if_process ::
  "('a world_scheme) program \<Rightarrow> ('a world_scheme) processor \<Rightarrow>
   ('a world_scheme) processor option \<Rightarrow> ('a world_scheme) processor" where
  "if_process condition thn els c w a =
     (case EvalCondition condition w (heap w a) of
        Inl e \<Rightarrow> (w, Failed e)
      | Inr True \<Rightarrow> thn c w a
      | Inr False \<Rightarrow> (case els of Some p \<Rightarrow> p c w a | None \<Rightarrow> (w, Out a)))"

text \<open>The loop of \<^verbatim>\<open>switchBlock.Process\<close>, from case number \<open>i\<close> on.\<close>

fun switch_from ::
  "nat \<Rightarrow> (('a world_scheme) program \<times> ('a world_scheme) processor) list \<Rightarrow>
   ('a world_scheme) processor option \<Rightarrow> ('a world_scheme) processor" where
  "switch_from i [] def c w a = (case def of Some p \<Rightarrow> p c w a | None \<Rightarrow> (w, Out a))"
| "switch_from i ((guard, flow) # cases) def c w a =
     (case EvalCondition guard w (heap w a) of
        Inl e \<Rightarrow> (w, Failed (Wrap (''switch case '' @ itoa i) e))
      | Inr True \<Rightarrow> flow c w a
      | Inr False \<Rightarrow> switch_from (Suc i) cases def c w a)"

definition switch_process ::
  "(('a world_scheme) program \<times> ('a world_scheme) processor) list \<Rightarrow>
   ('a world_scheme) processor option \<Rightarrow> ('a world_scheme) processor" where
  "switch_process = switch_from 0"

section \<open>Iteration\<close>

text \<open>
  Map mode. \<open>mapped\<close> holds the elements collected so far; the boolean of the result says
  whether a stop ended the loop.
\<close>

fun map_loop ::
  "string \<Rightarrow> ('a world_scheme) processor \<Rightarrow> ctx \<Rightarrow> addr \<Rightarrow> gval list \<Rightarrow> gval list \<Rightarrow> 'a world_scheme \<Rightarrow>
   'a world_scheme \<times> (err, gval list \<times> bool) res" where
  "map_loop var body c a [] mapped w = (w, Inr (mapped, False))"
| "map_loop var body c a (item # items) mapped w =
     (case Scoped w a of (w1, s) \<Rightarrow>
      case body c (upd w1 s (SetVar var item)) s of
        (w2, Failed e) \<Rightarrow> (w2, Inl e)
      | (w2, Dropped) \<Rightarrow> map_loop var body c a items (mapped @ [GNull]) w2
      | (w2, Out o') \<Rightarrow>
          let mapped' = mapped @ [Body (heap w2 o')] in
          if StopRequested (heap w2 o') then (w2, Inr (mapped', True))
          else map_loop var body c a items mapped' w2)"

definition mapItems ::
  "string \<Rightarrow> ('a world_scheme) processor \<Rightarrow> gval list \<Rightarrow> ('a world_scheme) processor" where
  "mapItems var body items c w a =
     (case map_loop var body c a items [] w of
        (w1, Inl e) \<Rightarrow> (w1, Failed e)
      | (w1, Inr (mapped, stopped)) \<Rightarrow>
          let w2 = upd w1 a (SetBody (GList mapped))
          in ((if stopped then upd w2 a RequestStop else w2), Out a))"

text \<open>
  Iterate mode. \<open>prev\<close> is the value the loop variable had before the loop, if any. A stop
  leaves the loop with the message as it is.
\<close>

fun iterate_loop ::
  "string \<Rightarrow> ('a world_scheme) processor \<Rightarrow> gval option \<Rightarrow> gval list \<Rightarrow> ('a world_scheme) processor"
where
  "iterate_loop var body prev [] c w a =
     (case prev of
        Some v \<Rightarrow> (upd w a (SetVar var v), Out a)
      | None \<Rightarrow> (upd w a (DeleteVar var), Out a))"
| "iterate_loop var body prev (item # items) c w a =
     (case body c (upd w a (SetVar var item)) a of
        (w1, Failed e) \<Rightarrow> (w1, Failed e)
      | (w1, Dropped) \<Rightarrow> (w1, Dropped)
      | (w1, Out o') \<Rightarrow>
          if StopRequested (heap w1 o') then (w1, Out o')
          else iterate_loop var body prev items c w1 o')"

definition iterate ::
  "string \<Rightarrow> ('a world_scheme) processor \<Rightarrow> gval list \<Rightarrow> ('a world_scheme) processor" where
  "iterate var body items c w a =
     iterate_loop var body (Variables (heap w a) var) items c w a"

definition foreach_process ::
  "('a world_scheme) program \<Rightarrow> string \<Rightarrow> ('a world_scheme) processor \<Rightarrow> bool \<Rightarrow>
   ('a world_scheme) processor" where
  "foreach_process items var body mapMode c w a =
     (case items w (heap w a) of
        Inl e \<Rightarrow> (w, Failed (Wrap ''foreach items'' e))
      | Inr v \<Rightarrow>
          (case as_list v of
             None \<Rightarrow>
               (w, Failed (Err (''foreach items must evaluate to an array, got '' @ type_name v)))
           | Some vs \<Rightarrow>
               if mapMode then mapItems var body vs c w a else iterate var body vs c w a))"

definition foreachMapMode :: "string \<Rightarrow> (err, bool) res" where
  "foreachMapMode mode =
     (if mode = [] \<or> mode = ''iterate'' then Inr False
      else if mode = ''map'' then Inr True
      else Inl (Err (''foreach block mode '' @ quote mode @ '' must be '' @ quote ''iterate'' @
                     '' or '' @ quote ''map'')))"

section \<open>Enrichment\<close>

text \<open>
  The variable expressions are a Go map, whose iteration order is arbitrary: \<open>setVars\<close> is
  one enumeration of it. All of them are evaluated against the scope's result \<open>out\<close>.
\<close>

fun enrich_vars ::
  "(string \<times> ('a world_scheme) program) list \<Rightarrow> message \<Rightarrow> 'a world_scheme \<Rightarrow> addr \<Rightarrow>
   'a world_scheme \<times> err option" where
  "enrich_vars [] out w a = (w, None)"
| "enrich_vars ((name, prog) # vs) out w a =
     (case prog w out of
        Inl e \<Rightarrow> (w, Some (Wrap (''enrich setVars['' @ quote name @ '']'') e))
      | Inr v \<Rightarrow> enrich_vars vs out (upd w a (SetVar name v)) a)"

definition enrich_process ::
  "('a world_scheme) processor \<Rightarrow> ('a world_scheme) program option \<Rightarrow>
   (string \<times> ('a world_scheme) program) list \<Rightarrow> ('a world_scheme) processor" where
  "enrich_process body setBody setVars c w a =
     (case Scoped w a of (w1, s) \<Rightarrow>
      case body c w1 s of
        (w2, Failed e) \<Rightarrow> (w2, Failed e)
      | (w2, Dropped) \<Rightarrow> (w2, Dropped)
      | (w2, Out o') \<Rightarrow>
          let out = heap w2 o' in
          (case (case setBody of
                   None \<Rightarrow> (w2, None)
                 | Some p \<Rightarrow>
                     (case p w2 out of
                        Inl e \<Rightarrow> (w2, Some (Wrap ''enrich setBody'' e))
                      | Inr v \<Rightarrow> (upd w2 a (SetBody v), None))) of
             (w3, Some e) \<Rightarrow> (w3, Failed e)
           | (w3, None) \<Rightarrow>
               (case enrich_vars setVars out w3 a of
                  (w4, Some e) \<Rightarrow> (w4, Failed e)
                | (w4, None) \<Rightarrow>
                    ((if StopRequested (heap w4 o') then upd w4 a RequestStop else w4), Out a))))"

section \<open>Filters\<close>

definition httpStatusVar :: string where
  "httpStatusVar = ''httpStatus''"

definition applyReject ::
  "('a world_scheme) processor option \<Rightarrow> int \<Rightarrow> gval \<Rightarrow> ('a world_scheme) processor" where
  "applyReject onReject status body c w a =
     (case onReject of
        Some p \<Rightarrow>
          (case p c w a of
             (w1, Out o') \<Rightarrow> (upd w1 o' RequestStop, Out o')
           | (w1, r) \<Rightarrow> (w1, r))
      | None \<Rightarrow>
          (upd w a (\<lambda>m. RequestStop (SetBody body (SetVar httpStatusVar (GInt status) m))), Out a))"

definition validationErrorsVar :: string where
  "validationErrorsVar = ''validationErrors''"

definition defaultValidateStatus :: int where
  "defaultValidateStatus = 422"

fun eval_rules ::
  "nat \<Rightarrow> (('a world_scheme) program \<times> string) list \<Rightarrow> 'a world_scheme \<Rightarrow> message \<Rightarrow>
   (err, gval list) res" where
  "eval_rules i [] w m = Inr []"
| "eval_rules i ((prog, text) # rules) w m =
     (case EvalCondition prog w m of
        Inl e \<Rightarrow> Inl (Wrap (''validate rule '' @ itoa i) e)
      | Inr ok \<Rightarrow>
          (case eval_rules (Suc i) rules w m of
             Inl e \<Rightarrow> Inl e
           | Inr fs \<Rightarrow> Inr (if ok then fs else GStr text # fs)))"

definition validate_process ::
  "(('a world_scheme) program \<times> string) list \<Rightarrow> ('a world_scheme) processor option \<Rightarrow> int \<Rightarrow>
   ('a world_scheme) processor" where
  "validate_process rules onReject status c w a =
     (case eval_rules 0 rules w (heap w a) of
        Inl e \<Rightarrow> (w, Failed e)
      | Inr failures \<Rightarrow>
          if failures = [] then (w, Out a)
          else applyReject onReject status
                 (GMap [(''error'', GStr ''validation_failed''), (''messages'', GList failures)])
                 c (upd w a (SetVar validationErrorsVar (GList failures))) a)"

definition applyTakeover ::
  "('a world_scheme) processor option \<Rightarrow> ('a world_scheme) processor" where
  "applyTakeover buildResponse c w a =
     (case buildResponse of
        Some p \<Rightarrow>
          (case p c w a of
             (w1, Out o') \<Rightarrow> (upd w1 o' RequestStop, Out o')
           | (w1, r) \<Rightarrow> (w1, r))
      | None \<Rightarrow> (upd w a RequestStop, Out a))"

section \<open>Setters\<close>

definition set_payload ::
  "('a world_scheme) program \<Rightarrow> bool \<Rightarrow> string \<Rightarrow> ('a world_scheme) processor" where
  "set_payload value rawBody contentType c w a =
     (case value w (heap w a) of
        Inl e \<Rightarrow> (w, Failed (Wrap ''set-payload value'' e))
      | Inr v \<Rightarrow>
          if rawBody
          then (case v of
                  GStr data \<Rightarrow> (upd w a (SetRawBody contentType data), Out a)
                | _ \<Rightarrow> (w, Failed (Err (''set-payload value must be a string when rawBody is set, got ''
                                      @ type_name v))))
          else (upd w a (SetBody v), Out a))"

definition set_variable ::
  "string \<Rightarrow> ('a world_scheme) program \<Rightarrow> ('a world_scheme) processor" where
  "set_variable name value c w a =
     (case value w (heap w a) of
        Inl e \<Rightarrow> (w, Failed (Wrap (''set-variable '' @ quote name @ '' value'') e))
      | Inr v \<Rightarrow> (upd w a (SetVar name v), Out a))"

definition delete_variable :: "string \<Rightarrow> ('a world_scheme) processor" where
  "delete_variable name c w a = (upd w a (DeleteVar name), Out a)"

section \<open>Composites respect the message frame\<close>

text \<open>
  An optional sub-flow is framed when it is absent or framed.
\<close>

definition framed_opt :: "('a world_scheme) processor option \<Rightarrow> bool" where
  "framed_opt q \<longleftrightarrow> (\<forall>p. q = Some p \<longrightarrow> framed_processor p)"

lemma framed_opt_simps [simp]:
  "framed_opt None" "framed_opt (Some p) = framed_processor p"
  by (simp_all add: framed_opt_def)

lemma frames_own_upd [simp]: "frames w a (upd w a f)"
  by (simp add: frames_upd)

lemma framed_scope [frame_intros]:
  assumes main: "framed_processor main" and alt: "framed_opt alternative"
  shows "framed_processor (scope_process main alternative onError)"
proof
  fix c and w :: "'a world_scheme" and a w' r
  assume a: "a < hp w" and run: "scope_process main alternative onError c w a = (w', r)"
  obtain w1 r1 where m: "main c w a = (w1, r1)" by force
  have f: "frames w a w1" "\<And>x. r1 = Out x \<Longrightarrow> owned w a w1 x"
    using framed_processorD [OF main a m] by simp_all
  show "frames w a w' \<and> (\<forall>b. r = Out b \<longrightarrow> owned w a w' b)"
  proof (cases "\<exists>e q. r1 = Failed e \<and> alternative = Some q")
    case True
    then obtain e q where e: "r1 = Failed e" "alternative = Some q" by blast
    let ?w2 = "case onError of None \<Rightarrow> w1 | Some f \<Rightarrow> upd w1 a (f e)"
    obtain w3 r3 where q: "q c ?w2 a = (w3, r3)" by force
    have fq: "framed_processor q" using alt e by simp
    have f2: "frames w a ?w2" using f(1) by (simp add: frames_upd split: option.split)
    have "frames w a w3 \<and> (\<forall>x. r3 = Out x \<longrightarrow> owned w a w3 x)"
      by (rule framed_seq [OF fq a f2 owned_self q])
    then show ?thesis using run m e q
      by (auto simp: scope_process_def Let_def split: outcome.splits)
  next
    case False
    then show ?thesis using run m f
      by (auto simp: scope_process_def split: outcome.splits option.splits)
  qed
qed

lemma framed_handle_errors [frame_intros]:
  "framed_processor main \<Longrightarrow> framed_processor alternative \<Longrightarrow>
   framed_processor (handle_errors name main alternative)"
  by (simp add: handle_errors_def framed_scope)

lemma framed_optD:
  "framed_opt q \<Longrightarrow> a < hp w \<Longrightarrow> (case q of Some p \<Rightarrow> p c w a | None \<Rightarrow> (w, Out a)) = (w', r) \<Longrightarrow>
   frames w a w' \<and> (\<forall>b. r = Out b \<longrightarrow> owned w a w' b)"
  by (cases q) (auto dest: framed_processorD)

lemma framed_if [frame_intros]:
  assumes "framed_processor thn" and "framed_opt els"
  shows "framed_processor (if_process condition thn els)"
proof
  fix c and w :: "'a world_scheme" and a w' r
  assume a: "a < hp w" and run: "if_process condition thn els c w a = (w', r)"
  show "frames w a w' \<and> (\<forall>b. r = Out b \<longrightarrow> owned w a w' b)"
    using run framed_processorD [OF assms(1) a] framed_optD [OF assms(2) a]
    by (simp add: if_process_def split: sum.splits bool.splits) auto
qed

lemma framed_switch_from:
  assumes "\<forall>p \<in> snd ` set cases. framed_processor p" and "framed_opt def"
  shows "framed_processor (switch_from i cases def)"
  using assms(1)
proof (induction cases arbitrary: i)
  case Nil
  show ?case by (rule framed_processorI) (simp add: framed_optD [OF assms(2)])
next
  case (Cons cs cases)
  obtain guard flow where cs: "cs = (guard, flow)" by force
  show ?case
  proof
    fix c and w :: "'a world_scheme" and a w' r
    assume a: "a < hp w" and run: "switch_from i (cs # cases) def c w a = (w', r)"
    have "framed_processor flow" "framed_processor (switch_from (Suc i) cases def)"
      using Cons cs by simp_all
    note this [THEN framed_processorD, OF a]
    then show "frames w a w' \<and> (\<forall>b. r = Out b \<longrightarrow> owned w a w' b)"
      using run by (simp add: cs split: sum.splits bool.splits) auto
  qed
qed

lemma framed_switch [frame_intros]:
  "\<forall>p \<in> snd ` set cases. framed_processor p \<Longrightarrow> framed_opt def \<Longrightarrow>
   framed_processor (switch_process cases def)"
  by (simp add: switch_process_def framed_switch_from)

lemma framed_stop_after [frame_intros]:
  assumes "framed_processor p"
  shows "framed_processor (applyTakeover (Some p))"
proof
  fix c and w :: "'a world_scheme" and a w' r
  assume a: "a < hp w" and run: "applyTakeover (Some p) c w a = (w', r)"
  obtain w1 r1 where q: "p c w a = (w1, r1)" by force
  show "frames w a w' \<and> (\<forall>b. r = Out b \<longrightarrow> owned w a w' b)"
    using run q framed_processorD [OF assms a q]
    by (auto simp: applyTakeover_def frames_upd split: outcome.splits)
qed

lemma applyReject_Some: "applyReject (Some p) status body = applyTakeover (Some p)"
  by (simp add: fun_eq_iff applyReject_def applyTakeover_def)

lemma framed_takeover [frame_intros]:
  "framed_opt q \<Longrightarrow> framed_processor (applyTakeover q)"
  by (cases q) (auto simp: framed_stop_after applyTakeover_def intro!: framed_processorI)

lemma framed_reject [frame_intros]:
  "framed_opt q \<Longrightarrow> framed_processor (applyReject q status body)"
  by (cases q)
     (auto simp: applyReject_Some framed_stop_after applyReject_def intro!: framed_processorI)

lemma framed_validate [frame_intros]:
  assumes "framed_opt onReject"
  shows "framed_processor (validate_process rules onReject status)"
proof
  fix c and w :: "'a world_scheme" and a w' r
  assume a: "a < hp w" and run: "validate_process rules onReject status c w a = (w', r)"
  show "frames w a w' \<and> (\<forall>b. r = Out b \<longrightarrow> owned w a w' b)"
    using run framed_seq [OF framed_reject [OF assms] a frames_own_upd owned_self]
    by (auto simp: validate_process_def split: sum.splits if_splits)
qed

lemma framed_setters [frame_intros]:
  "framed_processor (set_payload value rawBody contentType)"
  "framed_processor (set_variable name value)"
  "framed_processor (delete_variable name)"
  by (auto simp: set_payload_def set_variable_def delete_variable_def
      split: sum.splits if_splits gval.splits intro!: framed_processorI)

lemma framed_iterate_loop:
  assumes "framed_processor body"
  shows "framed_processor (iterate_loop var body prev items)"
proof (induction items)
  case Nil
  show ?case by (rule framed_processorI) (auto split: option.splits)
next
  case (Cons item items)
  show ?case
  proof
    fix c and w :: "'a world_scheme" and a w' r
    assume a: "a < hp w" and run: "iterate_loop var body prev (item # items) c w a = (w', r)"
    obtain w1 r1 where b: "body c (upd w a (SetVar var item)) a = (w1, r1)" by force
    have f: "frames w a w1" "\<And>x. r1 = Out x \<Longrightarrow> owned w a w1 x"
      using framed_seq [OF assms a frames_own_upd owned_self b] by simp_all
    show "frames w a w' \<and> (\<forall>b. r = Out b \<longrightarrow> owned w a w' b)"
    proof (cases r1)
      case (Out x)
      show ?thesis
        using run b Out f(1) f(2) [OF Out] framed_seq [OF Cons a f(1) f(2) [OF Out]]
        by (simp split: if_splits) auto
    qed (use run b f in auto)
  qed
qed

lemma framed_iterate [frame_intros]:
  "framed_processor body \<Longrightarrow> framed_processor (iterate var body items)"
  by (rule framed_processorI) (simp add: iterate_def framed_processorD [OF framed_iterate_loop])

text \<open>
  The scope an isolated body runs on is fresh, so the body leaves the enclosing message as
  \<^const>\<open>Scoped\<close> left it.
\<close>

lemma scoped_body:
  assumes body: "framed_processor body" and a: "a < hp w" and s: "Scoped w a = (w1, s)"
    and run: "body c (upd w1 s f) s = (w2, r)"
  shows "frames w a w2" and "heap w2 a = (heap w a)\<lparr>bodyShared := True\<rparr>"
    and "r = Out o' \<Longrightarrow> owned w a w2 o' \<and> o' \<noteq> a \<and> o' < hp w2"
proof -
  note S = Scoped_simps [OF s a] frames_Scoped [OF s a]
  have live: "s < hp (upd w1 s f)" using S by simp
  have b: "frames (upd w1 s f) s w2" "r = Out o' \<Longrightarrow> owned (upd w1 s f) s w2 o'"
    using framed_processorD [OF body live run] by simp_all
  have f1: "frames w a (upd w1 s f)" using S by (simp add: frames_upd)
  have o1: "owned w a (upd w1 s f) s" using S by simp
  show "frames w a w2" using frames_trans [OF f1 o1 b(1)] .
  show "heap w2 a = (heap w a)\<lparr>bodyShared := True\<rparr>"
    using frames_heap [OF b(1), of a] S by simp
  show "owned w a w2 o' \<and> o' \<noteq> a \<and> o' < hp w2" if "r = Out o'"
    using owned_trans [OF f1 o1 b(1) b(2) [OF that]] owned_live [OF live b(1) b(2) [OF that]]
      b(2) [OF that] S by (auto simp: owned_def)
qed

lemma map_loop_frame:
  assumes "framed_processor body" and "a < hp w" and "map_loop var body c a items mapped w = (w', r)"
  shows "frames w a w' \<and> heap w' a = (heap w a)\<lparr>bodyShared := bodyShared (heap w a) \<or> items \<noteq> []\<rparr>"
  using assms(2,3)
proof (induction items arbitrary: mapped w)
  case (Cons item items)
  obtain w1 s where s: "Scoped w a = (w1, s)" by force
  obtain w2 r2 where b: "body c (upd w1 s (SetVar var item)) s = (w2, r2)" by force
  note B = scoped_body [OF assms(1) Cons.prems(1) s b]
  have a2: "a < hp w2" using B(1) Cons.prems(1) by (auto simp: frames_def)
  have step: ?case if "map_loop var body c a items mapped' w2 = (w', r)" for mapped'
    using Cons.IH [OF a2 that] B(1,2) frames_trans [OF B(1) owned_self] by simp
  show ?case
  proof (cases r2)
    case Dropped
    with Cons.prems(2) s b show ?thesis by (simp add: step)
  next
    case (Out x)
    show ?thesis
    proof (cases "StopRequested (heap w2 x)")
      case True
      with Cons.prems(2) s b B Out show ?thesis by (auto simp: Let_def)
    next
      case False
      with Cons.prems(2) s b Out show ?thesis by (auto simp: Let_def step)
    qed
  qed (use Cons.prems s b B in auto)
qed simp

lemma framed_mapItems [frame_intros]:
  assumes "framed_processor body"
  shows "framed_processor (mapItems var body items)"
proof
  fix c and w :: "'a world_scheme" and a w' r
  assume a: "a < hp w" and run: "mapItems var body items c w a = (w', r)"
  obtain w1 r1 where l: "map_loop var body c a items [] w = (w1, r1)" by force
  show "frames w a w' \<and> (\<forall>b. r = Out b \<longrightarrow> owned w a w' b)"
    using run l map_loop_frame [OF assms a l]
    by (auto simp: mapItems_def Let_def frames_upd split: sum.splits prod.splits)
qed

lemma framed_foreach [frame_intros]:
  assumes "framed_processor body"
  shows "framed_processor (foreach_process items var body mapMode)"
proof
  fix c and w :: "'a world_scheme" and a w' r
  assume a: "a < hp w" and run: "foreach_process items var body mapMode c w a = (w', r)"
  show "frames w a w' \<and> (\<forall>b. r = Out b \<longrightarrow> owned w a w' b)"
    using run framed_processorD [OF framed_iterate [OF assms] a]
      framed_processorD [OF framed_mapItems [OF assms] a]
    by (simp add: foreach_process_def split: sum.splits option.splits if_splits) auto
qed

lemma enrich_vars_frame:
  assumes "frames w a w1" and "enrich_vars vs out w1 a = (w', e)"
  shows "frames w a w' \<and> hp w' = hp w1 \<and> (\<forall>b. b \<noteq> a \<longrightarrow> heap w' b = heap w1 b)"
  using assms
  by (induction vs out w1 a rule: enrich_vars.induct) (auto simp: frames_upd split: sum.splits)

lemma framed_enrich [frame_intros]:
  assumes "framed_processor body"
  shows "framed_processor (enrich_process body setBody setVars)"
proof
  fix c and w :: "'a world_scheme" and a w' r
  assume a: "a < hp w" and run: "enrich_process body setBody setVars c w a = (w', r)"
  obtain w1 s where s: "Scoped w a = (w1, s)" by force
  obtain w2 r2 where b: "body c w1 s = (w2, r2)" by force
  have "upd w1 s id = w1" by (simp add: upd_def)
  then have f: "frames w a w2" using scoped_body(1) [OF assms a s, of c id w2 r2] b by simp
  have fv: "frames w a w4" if "enrich_vars setVars out w3 a = (w4, e)" "frames w a w3" for w3 w4 e out
    using enrich_vars_frame [OF that(2,1)] by simp
  have f3: "frames w a (upd w2 a g)" for g using f by (simp add: frames_upd)
  show "frames w a w' \<and> (\<forall>b. r = Out b \<longrightarrow> owned w a w' b)"
    using run s b f f3
    by (auto simp: enrich_process_def Let_def split: outcome.splits option.splits sum.splits
        prod.splits if_splits intro!: frames_upd dest: fv)
qed

subsection \<open>Fork\<close>

text \<open>What \<^verbatim>\<open>Clone\<close> makes of a message.\<close>

definition cloned :: "message \<Rightarrow> message" where
  "cloned m = m\<lparr>Body := copyBody (Body m), bodyShared := False\<rparr>"

lemma clones_spec:
  "a < hp w \<Longrightarrow> clones w a n = (w', cs) \<Longrightarrow>
     cs = [hp w..<hp w + n] \<and> hp w' = hp w + n \<and> (\<forall>b < hp w. heap w' b = heap w b) \<and>
     (\<forall>b. hp w \<le> b \<longrightarrow> b < hp w + n \<longrightarrow> heap w' b = cloned (heap w a))"
proof (induction n arbitrary: w cs)
  case (Suc n)
  obtain w1 cl where c: "Clone w a = (w1, cl)" by force
  obtain cs' where cs: "clones w1 a n = (w', cs')" "cs = cl # cs'"
    using Suc.prems(2) c by (auto split: prod.splits)
  note C = Clone_simps [OF c]
  have a1: "a < hp w1" using C Suc.prems(1) by simp
  have IH: "cs' = [hp w1..<hp w1 + n]" "hp w' = hp w1 + n" "\<forall>b < hp w1. heap w' b = heap w1 b"
    "\<forall>b. hp w1 \<le> b \<longrightarrow> b < hp w1 + n \<longrightarrow> heap w' b = cloned (heap w1 a)"
    using Suc.IH [OF a1 cs(1)] by auto
  have "heap w' b = cloned (heap w a)" if "hp w \<le> b" "b < hp w + Suc n" for b
    using IH(3,4) C Suc.prems(1) that by (cases "b = hp w") (auto simp: cloned_def)
  then show ?case using IH C cs(2) by (auto simp: upt_rec)
qed auto

lemma clones_simps:
  assumes "a < hp w" and "clones w a n = (w', cs)"
  shows "cs = [hp w..<hp w + n]" and "hp w' = hp w + n"
    and "b < hp w \<Longrightarrow> heap w' b = heap w b"
    and "hp w \<le> b \<Longrightarrow> b < hp w + n \<Longrightarrow> heap w' b = cloned (heap w a)"
  using clones_spec [OF assms] by auto

lemma run_branches_frame:
  assumes "\<forall>i < length brs. framed_processor (fb_flow (brs ! i))"
    and "fst ` set sched \<subseteq> {..<length brs}"
    and "\<forall>i < length brs. h \<le> cs ! i \<and> cs ! i < hp w"
    and "run_branches brs cs sched c w js = (w', js')"
  shows "hp w \<le> hp w' \<and> (\<forall>b < h. b < hp w \<longrightarrow> heap w' b = heap w b)"
  using assms(2-)
proof (induction sched arbitrary: w js)
  case (Cons s sched)
  obtain i sees where s: "s = (i, sees)" by force
  have i: "i < length brs" using Cons.prems(1) s by simp
  obtain w1 js1 where r: "run_branch (brs ! i) (cs ! i) sees c w js = (w1, js1)" by force
  have "frames w (cs ! i) w1"
    using framed_processor.frame [of "fb_flow (brs ! i)" "cs ! i" w] assms(1) i Cons.prems(2) r
    by (auto simp: run_branch_def Let_def split: prod.splits)
  then have 1: "hp w \<le> hp w1" "\<forall>b < h. b < hp w \<longrightarrow> heap w1 b = heap w b"
    using Cons.prems(2) i by (fastforce simp: frames_def)+
  have "\<forall>i < length brs. h \<le> cs ! i \<and> cs ! i < hp w1"
    using Cons.prems(2) 1(1) by (meson order_less_le_trans)
  then have "hp w1 \<le> hp w' \<and> (\<forall>b < h. b < hp w1 \<longrightarrow> heap w' b = heap w1 b)"
    using Cons.IH [of w1 js1] Cons.prems s r by simp
  with 1 show ?case by (auto dest: order_less_le_trans)
qed simp

lemma run_branches_err:
  assumes "run_branches brs cs sched c w js = (w', js')" and "js_err js' = Some e" and "js_err js = None"
  shows "\<exists>i e'. i \<in> fst ` set sched \<and> e = Wrap (''fork branch '' @ quote (fb_name (brs ! i))) e'"
  using assms
proof (induction sched arbitrary: w js)
  case (Cons s sched)
  obtain i sees where s: "s = (i, sees)" by force
  obtain w1 js1 where r: "run_branch (brs ! i) (cs ! i) sees c w js = (w1, js1)" by force
  have rest: "run_branches brs cs sched c w1 js1 = (w', js')" using Cons.prems s r by simp
  show ?case
  proof (cases "js_err js1")
    case None
    then show ?thesis using Cons.IH [OF rest Cons.prems(2)] s by auto
  next
    case (Some e1)
    have keep: "js_err js' = Some e1"
      if "run_branches brs cs sched c w1 js1 = (w', js')" "js_err js1 = Some e1" for sched w1 js1
      using that
      by (induction sched arbitrary: w1 js1)
         (auto simp: run_branch_def Let_def split: prod.splits outcome.splits)
    have "e1 = e" using keep [OF rest Some] Cons.prems(2) by simp
    moreover have "\<exists>e'. e1 = Wrap (''fork branch '' @ quote (fb_name (brs ! i))) e'"
      using r Some Cons.prems(3)
      by (auto simp: run_branch_def Let_def split: prod.splits outcome.splits)
    ultimately show ?thesis using s by auto
  qed
qed simp

lemma framed_fork [frame_intros]:
  assumes br: "\<forall>i < length brs. framed_processor (fb_flow (brs ! i))"
    and sched: "schedule_of (length brs) sched"
  shows "framed_processor (fork_process brs sched)"
proof
  fix c and w :: "'a world_scheme" and a w' r
  assume a: "a < hp w" and run: "fork_process brs sched c w a = (w', r)"
  obtain w1 cs where cl: "clones w a (length brs) = (w1, cs)" by force
  obtain w2 js where rb: "run_branches brs cs sched c w1 \<lparr>js_stop = False, js_err = None\<rparr> = (w2, js)"
    by force
  note C = clones_simps [OF a cl]
  have "hp w1 \<le> hp w2 \<and> (\<forall>b < hp w. b < hp w1 \<longrightarrow> heap w2 b = heap w1 b)"
    using run_branches_frame [OF br _ _ rb, of "hp w"] sched C
    by (auto simp: schedule_of_def)
  then have "frames w a w2" using C by (auto simp: frames_def)
  with run cl rb show "frames w a w' \<and> (\<forall>b. r = Out b \<longrightarrow> owned w a w' b)"
    by (auto simp: fork_process_def frames_upd split: option.splits)
qed

end
