(* ===== verification/Octo_Semantics.thy ===== *)
theory Octo_Semantics
  imports Octo_Composites
begin

text \<open>
  The abstract specification of a flow: a transformer of one message. The heap, the scopes
  and clones a composite allocates, the listeners and the context are gone; a transformer
  says what the processor leaves in the message it was given and what it returns: an error,
  a drop, that same message, or another one.

  \<open>implements P T\<close> is the contract between a processor of the model and a transformer.
  Each composite implements the composition of what its sub-flows implement, so a chain of
  blocks is understood by computing with transformers.
\<close>

section \<open>Transformers\<close>

datatype tres = TFail err | TDrop | TSame | TNew message

type_synonym transformer = "message \<Rightarrow> message \<times> tres"

text \<open>Continue with the message that was returned, if there is one.\<close>

fun t_bind :: "message \<times> tres \<Rightarrow> transformer \<Rightarrow> message \<times> tres" where
  "t_bind (m, TSame) k = k m"
| "t_bind (m, TNew n) k = (m, case k n of (n', TSame) \<Rightarrow> TNew n' | (_, x) \<Rightarrow> x)"
| "t_bind (m, TFail e) k = (m, TFail e)"
| "t_bind (m, TDrop) k = (m, TDrop)"

fun t_map_err :: "(err \<Rightarrow> err) \<Rightarrow> message \<times> tres \<Rightarrow> message \<times> tres" where
  "t_map_err f (m, TFail e) = (m, TFail (f e))"
| "t_map_err f (m, x) = (m, x)"

definition unless_stopped :: "transformer \<Rightarrow> transformer" where
  "unless_stopped k m = (if StopRequested m then (m, TSame) else k m)"

fun t_out :: "message \<times> tres \<Rightarrow> message option" where
  "t_out (m, TSame) = Some m"
| "t_out (m, TNew n) = Some n"
| "t_out (m, TFail e) = None"
| "t_out (m, TDrop) = None"

text \<open>A chain of labelled blocks.\<close>

fun t_chain :: "(string \<times> transformer) list \<Rightarrow> transformer" where
  "t_chain [] m = (m, TSame)"
| "t_chain ((label, t) # ts) m =
     t_bind (t_map_err (BlockError label) (t m)) (unless_stopped (t_chain ts))"

definition t_scope :: "transformer \<Rightarrow> transformer \<Rightarrow> (err \<Rightarrow> message \<Rightarrow> message) \<Rightarrow> transformer" where
  "t_scope main alt onError m =
     (case main m of
        (m', TFail e) \<Rightarrow> t_map_err (Wrap ''scope alternative'') (alt (onError e m'))
      | x \<Rightarrow> x)"

definition t_pass :: "transformer option \<Rightarrow> transformer" where
  "t_pass q m = (case q of Some t \<Rightarrow> t m | None \<Rightarrow> (m, TSame))"

type_synonym pure_program = "message \<Rightarrow> (err, gval) res"

definition t_if :: "pure_program \<Rightarrow> transformer \<Rightarrow> transformer option \<Rightarrow> transformer" where
  "t_if cond thn els m =
     (case EvalCondition (\<lambda>_. cond) () m of
        Inl e \<Rightarrow> (m, TFail e)
      | Inr True \<Rightarrow> thn m
      | Inr False \<Rightarrow> t_pass els m)"

fun t_iterate :: "string \<Rightarrow> transformer \<Rightarrow> gval option \<Rightarrow> gval list \<Rightarrow> transformer" where
  "t_iterate var body prev [] m =
     ((case prev of Some v \<Rightarrow> SetVar var v m | None \<Rightarrow> DeleteVar var m), TSame)"
| "t_iterate var body prev (item # items) m =
     t_bind (body (SetVar var item m)) (unless_stopped (t_iterate var body prev items))"

text \<open>
  Map mode: every element runs on the same message but for the loop variable. The result is
  an error, or the collected bodies and whether a stop ended the loop.
\<close>

fun t_map :: "string \<Rightarrow> transformer \<Rightarrow> message \<Rightarrow> gval list \<Rightarrow> (err, gval list \<times> bool) res" where
  "t_map var body m [] = Inr ([], False)"
| "t_map var body m (item # items) =
     (let out = body (SetVar var item m) in
      case snd out of
        TFail e \<Rightarrow> Inl e
      | _ \<Rightarrow>
          let v = (case t_out out of None \<Rightarrow> GNull | Some n \<Rightarrow> Body n) in
          if (case t_out out of None \<Rightarrow> False | Some n \<Rightarrow> StopRequested n) then Inr ([v], True)
          else (case t_map var body m items of
                  Inl e \<Rightarrow> Inl e
                | Inr (vs, stopped) \<Rightarrow> Inr (v # vs, stopped)))"

text \<open>
  Enrichment: the body runs on a copy, and only what the expressions name folds back, plus a
  stop.
\<close>

fun t_enrich_vars :: "(string \<times> pure_program) list \<Rightarrow> message \<Rightarrow> transformer" where
  "t_enrich_vars [] out m = (m, TSame)"
| "t_enrich_vars ((name, prog) # vs) out m =
     (case prog out of
        Inl e \<Rightarrow> (m, TFail (Wrap (''enrich setVars['' @ quote name @ '']'') e))
      | Inr v \<Rightarrow> t_enrich_vars vs out (SetVar name v m))"

definition t_enrich ::
  "transformer \<Rightarrow> pure_program option \<Rightarrow> (string \<times> pure_program) list \<Rightarrow> transformer" where
  "t_enrich body setBody setVars m0 =
     (let m = m0\<lparr>bodyShared := True\<rparr>; res = body m in
      case t_out res of
        None \<Rightarrow> (m, snd res)
      | Some out \<Rightarrow>
          t_bind (case setBody of
                    None \<Rightarrow> (m, TSame)
                  | Some p \<Rightarrow>
                      (case p out of
                         Inl e \<Rightarrow> (m, TFail (Wrap ''enrich setBody'' e))
                       | Inr v \<Rightarrow> (SetBody v m, TSame)))
            (\<lambda>m. t_bind (t_enrich_vars setVars out m)
               (\<lambda>m. ((if StopRequested out then RequestStop m else m), TSame))))"

definition t_stop_after :: "transformer \<Rightarrow> transformer" where
  "t_stop_after t m = t_bind (t m) (\<lambda>n. (RequestStop n, TSame))"

fun t_switch :: "nat \<Rightarrow> (pure_program \<times> transformer) list \<Rightarrow> transformer option \<Rightarrow> transformer" where
  "t_switch i [] def m = t_pass def m"
| "t_switch i ((guard, t) # cases) def m =
     (case EvalCondition (\<lambda>_. guard) () m of
        Inl e \<Rightarrow> (m, TFail (Wrap (''switch case '' @ itoa i) e))
      | Inr True \<Rightarrow> t m
      | Inr False \<Rightarrow> t_switch (Suc i) cases def m)"

definition t_set_payload :: "pure_program \<Rightarrow> transformer" where
  "t_set_payload q m =
     (case q m of
        Inl e \<Rightarrow> (m, TFail (Wrap ''set-payload value'' e))
      | Inr v \<Rightarrow> (SetBody v m, TSame))"

definition t_set_variable :: "string \<Rightarrow> pure_program \<Rightarrow> transformer" where
  "t_set_variable name q m =
     (case q m of
        Inl e \<Rightarrow> (m, TFail (Wrap (''set-variable '' @ quote name @ '' value'') e))
      | Inr v \<Rightarrow> (SetVar name v m, TSame))"

section \<open>The contract\<close>

fun abs_outcome :: "'a world_scheme \<Rightarrow> addr \<Rightarrow> outcome \<Rightarrow> tres" where
  "abs_outcome w a (Failed e) = TFail e"
| "abs_outcome w a Dropped = TDrop"
| "abs_outcome w a (Out b) = (if b = a then TSame else TNew (heap w b))"

locale implements = framed_processor P for P :: "('a world_scheme) processor" +
  fixes T :: transformer
  assumes sem: "a < hp w \<Longrightarrow> P c w a = (w', r) \<Longrightarrow> (heap w' a, abs_outcome w' a r) = T (heap w a)"
begin

lemma sem_out:
  assumes "a < hp w" and "P c w a = (w', r)"
  shows "t_out (T (heap w a)) = (case r of Out b \<Rightarrow> Some (heap w' b) | _ \<Rightarrow> None)"
  using sem [OF assms, symmetric] by (cases r) auto

end

lemma implementsI:
  assumes "framed_processor P"
    and "\<And>c w a w' r. a < hp w \<Longrightarrow> P c w a = (w', r) \<Longrightarrow>
           (heap w' a, abs_outcome w' a r) = T (heap w a)"
  shows "implements P T"
  using assms by (simp add: implements_def implements_axioms_def)

lemma implements_framed: "implements P T \<Longrightarrow> framed_processor P"
  by (simp add: implements_def)

lemmas implements_sem = implements.sem

section \<open>What the engine and the composites implement\<close>

text \<open>
  Sequencing. \<open>b\<close> is the message the first processor returned: running \<open>Q\<close> on it
  is \<^const>\<open>t_bind\<close> on the abstract side.
\<close>

lemma implements_seq:
  assumes Q: "implements Q T" and a: "a < hp w" and f: "frames w a w1" "owned w a w1 b"
    and q: "Q c w1 b = (w2, r)" and x: "(heap w1 a, abs_outcome w1 a (Out b)) = x"
  shows "(heap w2 a, abs_outcome w2 a r) = t_bind x T"
proof -
  have b: "b < hp w1" by (rule owned_live [OF a f])
  have s: "T (heap w1 b) = (heap w2 b, abs_outcome w2 b r)" using implements_sem [OF Q b q] by simp
  have q': "frames w1 b w2" "\<And>y. r = Out y \<Longrightarrow> owned w1 b w2 y"
    using framed_processorD [OF implements_framed [OF Q] b q] by simp_all
  show ?thesis
  proof (cases "b = a")
    case True
    then show ?thesis using s x by auto
  next
    case False
    then have "heap w2 a = heap w1 a" using frames_heap [OF q'(1), of a] a f(1) by (simp add: frames_def)
    moreover have "y \<noteq> a" if "r = Out y" for y
      using q'(2) [OF that] False a f(1) by (auto simp: owned_def frames_def)
    ultimately show ?thesis using s x False by (cases r) auto
  qed
qed

lemma implements_invoke:
  assumes "implements (block_process b) T"
  shows "implements (invoke evs fname b) T"
proof (rule implementsI)
  show "framed_processor (invoke evs fname b)"
    by (rule framed_invoke [OF implements_framed [OF assms]])
  fix c and w :: "'a obs_world_scheme" and a w' r
  assume a: "a < hp w" and i: "invoke evs fname b c w a = (w', r)"
  obtain w1 w2 where w: "heap w1 = heap w" "hp w1 = hp w" "block_process b c w1 a = (w2, r)"
    "heap w' = heap w2" "hp w' = hp w2" using invoke_cases [OF i] .
  show "(heap w' a, abs_outcome w' a r) = T (heap w a)"
    using implements_sem [OF assms _ w(3)] a w by (cases r) auto
qed

lemma t_bind_stop:
  "StopRequested (heap w x) \<Longrightarrow>
   t_bind (heap w a, abs_outcome w a (Out x)) (unless_stopped k) = (heap w a, abs_outcome w a (Out x))"
  by (auto simp: unless_stopped_def)

lemma t_bind_go:
  "\<not> StopRequested (heap w x) \<Longrightarrow>
   t_bind (heap w a, abs_outcome w a (Out x)) (unless_stopped k) =
     t_bind (heap w a, abs_outcome w a (Out x)) k"
  by (auto simp: unless_stopped_def)

definition block_label :: "'w block \<Rightarrow> string" where
  "block_label b = blockLabel (btype b) (bname b)"

lemma implements_blocks_framed:
  "list_all2 (\<lambda>b t. implements (block_process b) t) bs ts \<Longrightarrow>
   \<forall>b \<in> set bs. framed_processor (block_process b)"
  by (induction rule: list_all2_induct) (auto dest: implements_framed)

lemma implements_run_blocks:
  assumes "list_all2 (\<lambda>b t. implements (block_process b) t) bs ts"
  shows "implements (run_blocks evs fname bs) (t_chain (zip (map block_label bs) ts))"
  using assms
proof (induction bs ts rule: list_all2_induct)
  case Nil
  show ?case by (rule implementsI) (auto intro: framed_run_blocks)
next
  case (Cons b bs t ts)
  note I = implements_invoke [OF Cons.hyps(1), of evs fname]
  have framed: "framed_processor (run_blocks evs fname (b # bs))"
    using implements_blocks_framed [of "b # bs" "t # ts"] Cons.hyps by (simp add: framed_run_blocks)
  show ?case
  proof (rule implementsI [OF framed])
    fix c and w :: "'a obs_world_scheme" and a w' r
    assume a: "a < hp w" and run: "run_blocks evs fname (b # bs) c w a = (w', r)"
    obtain w1 r1 where i: "invoke evs fname b c w a = (w1, r1)" by force
    have s: "t (heap w a) = (heap w1 a, abs_outcome w1 a r1)" using implements_sem [OF I a i] by simp
    have f: "frames w a w1" "\<And>x. r1 = Out x \<Longrightarrow> owned w a w1 x"
      using framed_processorD [OF implements_framed [OF I] a i] by simp_all
    show "(heap w' a, abs_outcome w' a r) = t_chain (zip (map block_label (b # bs)) (t # ts)) (heap w a)"
    proof (cases r1)
      case (Out x)
      have e: "t_map_err l (heap w1 a, abs_outcome w1 a (Out x)) = (heap w1 a, abs_outcome w1 a (Out x))" for l
        by simp
      show ?thesis
      proof (cases "StopRequested (heap w1 x)")
        case True
        then have "w' = w1" "r = Out x" using run i Out by simp_all
        then show ?thesis using s Out True by (simp only: t_chain.simps list.map zip_Cons_Cons e t_bind_stop)
      next
        case False
        have "run_blocks evs fname bs c w1 x = (w', r)" using run i Out False by simp
        from implements_seq [OF Cons.IH a f(1) f(2) [OF Out] this refl]
        show ?thesis using s Out False by (simp only: t_chain.simps list.map zip_Cons_Cons e t_bind_go not_False_eq_True)
      qed
    qed (use run i s in \<open>auto simp: block_label_def\<close>)
  qed
qed

lemma implements_flow_process:
  "list_all2 (\<lambda>b t. implements (block_process b) t) (blocks f) ts \<Longrightarrow>
   implements (flow_process f) (t_chain (zip (map block_label (blocks f)) ts))"
  by (simp add: flow_process_def implements_run_blocks)

subsection \<open>Error boundary\<close>

lemma implements_scope:
  assumes M: "implements main Tm" and A: "implements alt Ta"
  shows "implements (scope_process main (Some alt) (Some f)) (t_scope Tm Ta f)"
proof (rule implementsI)
  show "framed_processor (scope_process main (Some alt) (Some f))"
    using M A by (simp add: framed_scope implements_framed)
  fix c and w :: "'a world_scheme" and a w' r
  assume a: "a < hp w" and run: "scope_process main (Some alt) (Some f) c w a = (w', r)"
  obtain w1 r1 where m: "main c w a = (w1, r1)" by force
  have s: "Tm (heap w a) = (heap w1 a, abs_outcome w1 a r1)" using implements_sem [OF M a m] by simp
  show "(heap w' a, abs_outcome w' a r) = t_scope Tm Ta f (heap w a)"
  proof (cases r1)
    case (Failed e)
    obtain w3 r3 where q: "alt c (upd w1 a (f e)) a = (w3, r3)" by force
    have "a < hp (upd w1 a (f e))"
      using framed_processor.frame [OF implements_framed [OF M] a m] a by (simp add: frames_def)
    from implements_sem [OF A this q]
    have "Ta (f e (heap w1 a)) = (heap w3 a, abs_outcome w3 a r3)" by simp
    then show ?thesis using run m s Failed q
      by (cases r3) (auto simp: scope_process_def t_scope_def)
  next
    case (Out x)
    then show ?thesis using run m s by (auto simp: scope_process_def t_scope_def)
  qed (use run m s in \<open>auto simp: scope_process_def t_scope_def\<close>)
qed

lemma implements_handle_errors:
  "implements main Tm \<Longrightarrow> implements alt Ta \<Longrightarrow>
   implements (handle_errors name main alt) (t_scope Tm Ta (SetErrorVariable name))"
  by (simp add: handle_errors_def implements_scope)

subsection \<open>Branching\<close>

definition implements_opt :: "('a world_scheme) processor option \<Rightarrow> transformer option \<Rightarrow> bool" where
  "implements_opt p t \<longleftrightarrow> rel_option implements p t"

lemma implements_opt_framed: "implements_opt p t \<Longrightarrow> framed_opt p"
  by (cases p; cases t) (auto simp: implements_opt_def implements_framed)

lemma implements_opt_sem:
  assumes "implements_opt p t" and "a < hp w"
    and "(case p of Some q \<Rightarrow> q c w a | None \<Rightarrow> (w, Out a)) = (w', r)"
  shows "(heap w' a, abs_outcome w' a r) = t_pass t (heap w a)"
  using assms by (cases p; cases t) (auto simp: implements_opt_def t_pass_def dest: implements_sem)

lemma EvalCondition_pure: "EvalCondition (\<lambda>_. q) w m = EvalCondition (\<lambda>_. q) () m"
  by (simp add: EvalCondition_def)

lemma implements_if:
  assumes T: "implements thn Tt" and E: "implements_opt els Te"
  shows "implements (if_process (\<lambda>_. cond) thn els) (t_if cond Tt Te)"
proof (rule implementsI)
  show "framed_processor (if_process (\<lambda>_. cond) thn els)"
    using T E by (simp add: framed_if implements_framed implements_opt_framed)
  fix c and w :: "'a world_scheme" and a w' r
  assume a: "a < hp w" and run: "if_process (\<lambda>_. cond) thn els c w a = (w', r)"
  show "(heap w' a, abs_outcome w' a r) = t_if cond Tt Te (heap w a)"
    using run implements_sem [OF T a] implements_opt_sem [OF E a]
    by (simp add: if_process_def t_if_def EvalCondition_pure [of cond w] split: sum.splits bool.splits)
       auto
qed

subsection \<open>Iteration\<close>

lemma implements_iterate_loop:
  assumes B: "implements body T"
  shows "implements (iterate_loop var body prev items) (t_iterate var T prev items)"
proof (induction items)
  case Nil
  show ?case
    by (rule implementsI [OF framed_iterate_loop [OF implements_framed [OF B]]]) (auto split: option.splits)
next
  case (Cons item items)
  show ?case
  proof (rule implementsI)
    show "framed_processor (iterate_loop var body prev (item # items))"
      by (rule framed_iterate_loop [OF implements_framed [OF B]])
    fix c and w :: "'a world_scheme" and a w' r
    assume a: "a < hp w" and run: "iterate_loop var body prev (item # items) c w a = (w', r)"
    obtain w1 r1 where b: "body c (upd w a (SetVar var item)) a = (w1, r1)" by force
    have s: "T (SetVar var item (heap w a)) = (heap w1 a, abs_outcome w1 a r1)"
      using implements_sem [OF B _ b] a by simp
    have f: "frames w a w1" "\<And>x. r1 = Out x \<Longrightarrow> owned w a w1 x"
      using framed_seq [OF implements_framed [OF B] a frames_own_upd owned_self b] by simp_all
    show "(heap w' a, abs_outcome w' a r) = t_iterate var T prev (item # items) (heap w a)"
    proof (cases r1)
      case (Out x)
      show ?thesis
      proof (cases "StopRequested (heap w1 x)")
        case True
        then have "w' = w1" "r = Out x" using run b Out by simp_all
        then show ?thesis using s Out True by (simp only: t_iterate.simps t_bind_stop)
      next
        case False
        have "iterate_loop var body prev items c w1 x = (w', r)" using run b Out False by simp
        from implements_seq [OF Cons a f(1) f(2) [OF Out] this refl]
        show ?thesis using s Out False by (simp only: t_iterate.simps t_bind_go not_False_eq_True)
      qed
    qed (use run b s in auto)
  qed
qed

text \<open>The scopes of map mode differ from the message in \<^const>\<open>bodyShared\<close> only.\<close>

lemma map_loop_sem:
  assumes B: "implements body T" and "a < hp w"
    and "map_loop var body c a items mapped w = (w', r)"
  shows "r = (case t_map var T ((heap w a)\<lparr>bodyShared := True\<rparr>) items of
                Inl e \<Rightarrow> Inl e | Inr (vs, stopped) \<Rightarrow> Inr (mapped @ vs, stopped))"
  using assms(2,3)
proof (induction items arbitrary: mapped w)
  case (Cons item items)
  let ?m = "(heap w a)\<lparr>bodyShared := True\<rparr>"
  obtain w1 s where s: "Scoped w a = (w1, s)" by force
  obtain w2 r2 where b: "body c (upd w1 s (SetVar var item)) s = (w2, r2)" by force
  note S = Scoped_simps [OF s Cons.prems(1)]
  note F = scoped_body [OF implements_framed [OF B] Cons.prems(1) s b]
  have a2: "a < hp w2" using F(1) Cons.prems(1) by (auto simp: frames_def)
  have t: "T (SetVar var item ?m) = (heap w2 s, abs_outcome w2 s r2)"
    using implements_sem [OF B _ b] S by simp
  have m2: "(heap w2 a)\<lparr>bodyShared := True\<rparr> = ?m" using F(2) by simp
  note IH = Cons.IH [OF a2, unfolded m2]
  show ?case
  proof (cases r2)
    case Dropped
    then have run: "map_loop var body c a items (mapped @ [GNull]) w2 = (w', r)"
      using Cons.prems(2) s b by simp
    show ?thesis using IH [OF run] t Dropped by (auto split: sum.split)
  next
    case (Out x)
    have out: "t_out (T (SetVar var item ?m)) = Some (heap w2 x)"
      and "\<And>e. snd (T (SetVar var item ?m)) \<noteq> TFail e" using t Out by auto
    show ?thesis
    proof (cases "StopRequested (heap w2 x)")
      case True
      then show ?thesis using Cons.prems(2) s b Out t by (auto simp: Let_def)
    next
      case False
      then have run: "map_loop var body c a items (mapped @ [Body (heap w2 x)]) w2 = (w', r)"
        using Cons.prems(2) s b Out by (simp add: Let_def)
      show ?thesis using IH [OF run] t Out False by (auto simp: Let_def split: sum.split)
    qed
  qed (use Cons.prems s b t in auto)
qed simp

subsection \<open>Setters\<close>

interpretation set_payload: implements "set_payload (\<lambda>_. q) False contentType" "t_set_payload q"
  for q contentType
  by (rule implementsI) (auto simp: framed_setters, auto simp: set_payload_def t_set_payload_def split: sum.splits)

interpretation set_variable: implements "set_variable name (\<lambda>_. q)" "t_set_variable name q"
  for name q
  by (rule implementsI) (auto simp: framed_setters, auto simp: set_variable_def t_set_variable_def split: sum.splits)

interpretation delete_variable: implements "delete_variable name" "\<lambda>m. (DeleteVar name m, TSame)"
  for name
  by (rule implementsI) (auto simp: framed_setters, auto simp: delete_variable_def)

subsection \<open>Switch, takeover and enrichment\<close>

lemma implements_switch_from:
  assumes "list_all2 (\<lambda>c t. fst c = (\<lambda>_. fst t) \<and> implements (snd c) (snd t)) cases ts"
    and D: "implements_opt def Td"
  shows "implements (switch_from i cases def) (t_switch i ts Td)"
  using assms(1)
proof (induction cases ts arbitrary: i rule: list_all2_induct)
  case Nil
  show ?case
  proof (rule implementsI)
    show "framed_processor (switch_from i [] def)"
      by (rule framed_switch_from) (auto intro: implements_opt_framed [OF D])
  qed (auto dest: implements_opt_sem [OF D])
next
  case (Cons cs cases t ts)
  obtain flow where cs: "cs = (\<lambda>_. fst t, flow)" "implements flow (snd t)"
    using Cons.hyps(1) by (cases cs) auto
  note R = Cons.IH [of "Suc i"]
  show ?case
  proof (rule implementsI)
    show "framed_processor (switch_from i (cs # cases) def)"
      using implements_framed [OF cs(2)] implements_framed [OF R] cs(1)
      by (intro framed_processorI)
         (auto split: sum.splits bool.splits dest: framed_processorD)
    fix c and w :: "'a world_scheme" and a w' r
    assume a: "a < hp w" and run: "switch_from i (cs # cases) def c w a = (w', r)"
    show "(heap w' a, abs_outcome w' a r) = t_switch i (t # ts) Td (heap w a)"
      using run implements_sem [OF cs(2) a] implements_sem [OF R a]
      by (cases t) (auto simp: cs EvalCondition_pure [of _ w] split: sum.splits bool.splits)
  qed
qed

lemma implements_stop_after:
  assumes "implements p T"
  shows "implements (applyTakeover (Some p)) (t_stop_after T)"
proof (rule implementsI)
  show "framed_processor (applyTakeover (Some p))"
    by (rule framed_stop_after [OF implements_framed [OF assms]])
  fix c and w :: "'a world_scheme" and a w' r
  assume a: "a < hp w" and run: "applyTakeover (Some p) c w a = (w', r)"
  obtain w1 r1 where q: "p c w a = (w1, r1)" by force
  show "(heap w' a, abs_outcome w' a r) = t_stop_after T (heap w a)"
    using run q implements_sem [OF assms a q, symmetric]
    by (cases r1) (auto simp: applyTakeover_def t_stop_after_def)
qed

lemma enrich_vars_sem:
  assumes "enrich_vars (map (\<lambda>(n, q). (n, \<lambda>_. q)) vs) out w a = (w', e)"
  shows "(heap w' a, case e of None \<Rightarrow> TSame | Some e \<Rightarrow> TFail e) = t_enrich_vars vs out (heap w a)"
  using assms by (induction vs arbitrary: w) (auto split: sum.splits)

lemma implements_enrich:
  assumes B: "implements body T"
  shows "implements (enrich_process body (map_option (\<lambda>q _. q) setBody) (map (\<lambda>(n, q). (n, \<lambda>_. q)) vs))
           (t_enrich T setBody vs)"
proof (rule implementsI)
  show "framed_processor (enrich_process body (map_option (\<lambda>q _. q) setBody) (map (\<lambda>(n, q). (n, \<lambda>_. q)) vs))"
    by (rule framed_enrich [OF implements_framed [OF B]])
  fix c and w :: "'a world_scheme" and a w' r
  let ?vs = "map (\<lambda>(n, q). (n, \<lambda>_. q)) vs" let ?m = "(heap w a)\<lparr>bodyShared := True\<rparr>"
  assume a: "a < hp w"
    and run: "enrich_process body (map_option (\<lambda>q _. q) setBody) ?vs c w a = (w', r)"
  obtain w1 s where s: "Scoped w a = (w1, s)" by force
  obtain w2 r2 where b: "body c w1 s = (w2, r2)" by force
  note S = Scoped_simps [OF s a]
  have idu: "upd w1 s id = w1" by (simp add: upd_def)
  note F = scoped_body [OF implements_framed [OF B] a s, of c id, unfolded idu, OF b]
  have t: "T ?m = (heap w2 s, abs_outcome w2 s r2)" using implements_sem [OF B _ b] S by simp
  show "(heap w' a, abs_outcome w' a r) = t_enrich T setBody vs (heap w a)"
  proof (cases r2)
    case (Out x)
    have x: "x \<noteq> a" using F(3) [OF Out] by simp
    have out: "t_out (T ?m) = Some (heap w2 x)" using t Out by auto
    have vars: "(heap w' a, abs_outcome w' a r) =
        t_bind (t_enrich_vars vs (heap w2 x) (heap w3 a))
          (\<lambda>m. ((if StopRequested (heap w2 x) then RequestStop m else m), TSame))"
      if w3: "(case enrich_vars ?vs (heap w2 x) w3 a of
                (w4, Some e) \<Rightarrow> (w4, Failed e)
              | (w4, None) \<Rightarrow> ((if StopRequested (heap w4 x) then upd w4 a RequestStop else w4), Out a))
            = (w', r)" and h: "heap w3 x = heap w2 x" for w3
    proof -
      obtain w4 e where e: "enrich_vars ?vs (heap w2 x) w3 a = (w4, e)" by force
      have "heap w4 x = heap w2 x"
        using enrich_vars_frame [OF frames_refl e] x h by simp
      with enrich_vars_sem [OF e, symmetric] w3 e show ?thesis by (auto split: option.splits)
    qed
    show ?thesis
      using run s b Out out F(2) x vars [of w2] vars [of "upd w2 a (SetBody v)" for v]
      by (auto simp: enrich_process_def t_enrich_def Let_def split: option.splits sum.splits)
  qed (use run s b t F in \<open>auto simp: enrich_process_def t_enrich_def Let_def\<close>)
qed

subsection \<open>Fork\<close>

text \<open>
  A branch stops when the flag is on the clone it was given or on what it returned.
\<close>

definition t_stops :: "message \<times> tres \<Rightarrow> bool" where
  "t_stops x \<longleftrightarrow> StopRequested (fst x) \<or> (case snd x of TNew n \<Rightarrow> StopRequested n | _ \<Rightarrow> False)"

fun t_fork_err ::
  "string list \<Rightarrow> transformer list \<Rightarrow> nat list \<Rightarrow> message \<Rightarrow> err option" where
  "t_fork_err names ts [] m = None"
| "t_fork_err names ts (i # order) m =
     (case snd ((ts ! i) m) of
        TFail e \<Rightarrow> Some (Wrap (''fork branch '' @ quote (names ! i)) e)
      | _ \<Rightarrow> t_fork_err names ts order m)"

lemma run_branches_sem:
  assumes I: "\<forall>i < length brs. implements (fb_flow (brs ! i)) (ts ! i)"
    and sub: "fst ` set sched \<subseteq> {..<length brs}" and dist: "distinct (map fst sched)"
    and live: "h + length brs \<le> hp w" and start: "\<forall>i \<in> fst ` set sched. heap w (h + i) = m"
    and run: "run_branches brs [h..<h + length brs] sched c w js = (w', js')"
  shows "js_stop js' = (js_stop js \<or> (\<exists>i \<in> fst ` set sched. t_stops ((ts ! i) m))) \<and>
         js_err js' = (case js_err js of Some e \<Rightarrow> Some e
           | None \<Rightarrow> t_fork_err (map fb_name brs) ts (map fst sched) m)"
  using sub dist live start run
proof (induction sched arbitrary: w js)
  case Nil
  then show ?case by (simp split: option.split)
next
  case (Cons s sched)
  obtain i sees where s: "s = (i, sees)" by force
  have i: "i < length brs" and hi: "h + i < hp w" using Cons.prems(1,3) s by auto
  have nth: "[h..<h + length brs] ! i = h + i" using i by simp
  let ?c = "Ctx (cancelled c \<or> sees \<and> js_err js \<noteq> None)"
  obtain w1 r1 where b: "fb_flow (brs ! i) ?c w (h + i) = (w1, r1)" by force
  have imp: "implements (fb_flow (brs ! i)) (ts ! i)" using I i by blast
  have t: "(ts ! i) m = (heap w1 (h + i), abs_outcome w1 (h + i) r1)"
    using implements_sem [OF imp hi b] Cons.prems(4) s by simp
  have f: "frames w (h + i) w1" by (rule framed_processor.frame [OF implements_framed [OF imp] hi b])
  have keep: "\<forall>j \<in> fst ` set sched. heap w1 (h + j) = m"
  proof
    fix j assume j: "j \<in> fst ` set sched"
    then have "j \<noteq> i" "j < length brs" using Cons.prems(1,2) s by auto
    then show "heap w1 (h + j) = m"
      using frames_heap [OF f, of "h + j"] Cons.prems(3,4) j by simp
  qed
  have live1: "h + length brs \<le> hp w1" using f Cons.prems(3) by (simp add: frames_def)
  let ?js1 = "snd (run_branch (brs ! i) (h + i) sees c w js)"
  have "run_branches brs [h..<h + length brs] sched c w1 ?js1 = (w', js')"
    using Cons.prems(5) s nth b by (simp add: run_branch_def Let_def)
  from Cons.IH [OF _ _ live1 keep this] Cons.prems(1,2) s
  have IH: "js_stop js' = (js_stop ?js1 \<or> (\<exists>i \<in> fst ` set sched. t_stops ((ts ! i) m)))"
    "js_err js' = (case js_err ?js1 of Some e \<Rightarrow> Some e
        | None \<Rightarrow> t_fork_err (map fb_name brs) ts (map fst sched) m)" by auto
  have "js_stop ?js1 = (js_stop js \<or> t_stops ((ts ! i) m))"
    using b t by (cases r1) (auto simp: run_branch_def Let_def t_stops_def)
  moreover have "js_err ?js1 = (case js_err js of Some e \<Rightarrow> Some e
      | None \<Rightarrow> (case snd ((ts ! i) m) of TFail e \<Rightarrow> Some (Wrap (''fork branch '' @ quote (fb_name (brs ! i))) e)
                 | _ \<Rightarrow> None))"
    using b t by (cases r1) (auto simp: run_branch_def Let_def split: option.splits)
  ultimately show ?case using IH s i by (auto split: option.splits tres.splits)
qed

lemma fork_sem:
  assumes I: "\<forall>i < length brs. implements (fb_flow (brs ! i)) (ts ! i)"
    and sched: "schedule_of (length brs) sched" and a: "a < hp w"
    and run: "fork_process brs sched c w a = (w', r)"
  shows "case t_fork_err (map fb_name brs) ts (map fst sched) (cloned (heap w a)) of
      Some e \<Rightarrow> r = Failed e \<and> heap w' a = heap w a
    | None \<Rightarrow> r = Out a \<and> heap w' a =
        (if \<exists>i < length brs. t_stops ((ts ! i) (cloned (heap w a)))
         then RequestStop (heap w a) else heap w a)"
proof -
  obtain w1 cs where cl: "clones w a (length brs) = (w1, cs)" by force
  obtain w2 js where rb: "run_branches brs cs sched c w1 \<lparr>js_stop = False, js_err = None\<rparr> = (w2, js)"
    by force
  note C = clones_simps [OF a cl]
  have idx: "fst ` set sched = {..<length brs}" using sched by (simp add: schedule_of_def)
  have start: "\<forall>i \<in> fst ` set sched. heap w1 (hp w + i) = cloned (heap w a)"
    using C(4) idx by simp
  have js: "js_stop js = (\<exists>i < length brs. t_stops ((ts ! i) (cloned (heap w a))))"
    "js_err js = t_fork_err (map fb_name brs) ts (map fst sched) (cloned (heap w a))"
    using run_branches_sem [OF I _ _ _ start rb [unfolded C(1)]] sched idx C(2)
    by (auto simp: schedule_of_def)
  have "heap w2 a = heap w1 a"
    using run_branches_frame [OF _ _ _ rb, of "hp w"] I idx C a
    by (auto intro: implements_framed)
  then have "heap w2 a = heap w a" using C(3) [OF a] by simp
  then show ?thesis using run cl rb js
    by (auto simp: fork_process_def split: option.splits)
qed

lemma t_fork_err_None:
  "t_fork_err names ts order m = None \<longleftrightarrow> (\<forall>i \<in> set order. \<forall>e. snd ((ts ! i) m) \<noteq> TFail e)"
  by (induction order) (auto split: tres.splits)

section \<open>Properties of flows and composites\<close>

definition sample_set :: "string \<Rightarrow> gval \<Rightarrow> obs_world block" where
  "sample_set name v = sample_block name (set_variable name (\<lambda>_ _. Inr v))"

text \<open>
  C1. A flow run implements the chain of what its blocks implement. What it leaves in the
  message and returns is a function of the message alone: neither the listeners that watch
  it, nor the other messages, nor the addresses of the copies the blocks allocate matter,
  and no other message changes.
\<close>

theorem flow_process_refines_chain:
  assumes "list_all2 (\<lambda>b t. implements (block_process b) t) (blocks f) ts"
    and "a < hp w" and "flow_process f c w a = (w', r)"
  shows "(heap w' a, abs_outcome w' a r) =
           t_chain (zip (map (\<lambda>b. blockLabel (btype b) (bname b)) (blocks f)) ts) (heap w a) \<and>
         (\<forall>b < hp w. b \<noteq> a \<longrightarrow> heap w' b = heap w b)"
proof -
  note I = implements_flow_process [OF assms(1)]
  have "map block_label (blocks f) = map (\<lambda>b. blockLabel (btype b) (bname b)) (blocks f)"
    by (simp add: block_label_def)
  with implements_sem [OF I assms(2,3)] framed_processor.frame [OF implements_framed [OF I] assms(2,3)]
  show ?thesis by (simp add: frames_def)
qed

theorem flow_process_refines_chain_witness:
  "\<exists>w' r. flow_process (sample_flow\<lparr>blocks := [sample_set ''a'' (GInt 1), sample_set ''b'' (GInt 2)]\<rparr>)
            (Ctx False) sample_world 0 = (w', r) \<and>
     (heap w' 0, abs_outcome w' 0 r) =
       (SetVar ''b'' (GInt 2) (SetVar ''a'' (GInt 1) sample_message), TSame)"
proof -
  let ?f = "sample_flow\<lparr>blocks := [sample_set ''a'' (GInt 1), sample_set ''b'' (GInt 2)]\<rparr>"
  obtain w' r where run: "flow_process ?f (Ctx False) sample_world 0 = (w', r)" by force
  have I: "list_all2 (\<lambda>b t. implements (block_process b) t) (blocks ?f)
      [t_set_variable ''a'' (\<lambda>_. Inr (GInt 1)), t_set_variable ''b'' (\<lambda>_. Inr (GInt 2))]"
    by (simp add: sample_set_def set_variable.implements_axioms)
  from flow_process_refines_chain [OF I _ run]
  have "(heap w' 0, abs_outcome w' 0 r) =
       (SetVar ''b'' (GInt 2) (SetVar ''a'' (GInt 1) sample_message), TSame)"
    by (simp add: sample_set_def t_set_variable_def unless_stopped_def StopRequested_def
        sample_message_def var_Bool_def reserved_defs)
  with run show ?thesis by blast
qed





lemma t_map_complete:
  "t_map var t m items = Inr (vs, False) \<Longrightarrow>
   vs = map (\<lambda>item. case t_out (t (SetVar var item m)) of None \<Rightarrow> GNull | Some n \<Rightarrow> Body n) items"
  by (induction items arbitrary: vs) (auto simp: Let_def split: tres.splits if_splits sum.splits)

lemma t_map_stopped:
  "t_map var t m items = Inr (vs, True) \<Longrightarrow>
   vs \<noteq> [] \<and> length vs \<le> length items \<and>
   vs = map (\<lambda>item. case t_out (t (SetVar var item m)) of None \<Rightarrow> GNull | Some n \<Rightarrow> Body n)
          (take (length vs) items) \<and>
   (\<exists>n. t_out (t (SetVar var (items ! (length vs - 1)) m)) = Some n \<and> StopRequested n)"
proof (induction items arbitrary: vs)
  case (Cons item items)
  let ?out = "t (SetVar var item m)"
  let ?v = "case t_out ?out of None \<Rightarrow> GNull | Some n \<Rightarrow> Body n"
  show ?case
  proof (cases "\<exists>n. t_out ?out = Some n \<and> StopRequested n")
    case True
    then have "vs = [?v]" using Cons.prems by (auto simp: Let_def split: tres.splits if_splits)
    with True show ?thesis by auto
  next
    case False
    then obtain vs' where "t_map var t m items = Inr (vs', True)" "vs = ?v # vs'"
      using Cons.prems by (auto simp: Let_def split: tres.splits if_splits sum.splits option.splits)
    with Cons.IH [of vs'] show ?thesis by (cases vs') auto
  qed
qed simp

text \<open>
  \<^verbatim>\<open>foreach\<close> in map mode is a positional map: element by element the body runs
  on the incoming message but for the loop variable, so no element sees what another did,
  and the collected bodies (null for a dropped element) replace the message's body. A stop
  ends the loop with the prefix collected so far and is raised on the message. Variables
  and identity of the message are untouched otherwise.
\<close>

theorem foreach_map_positional:
  assumes "implements body t" and "a < hp w" and "mapItems var body items c w a = (w', Out b)"
  shows "b = a \<and> (\<exists>vs stopped. Body (heap w' a) = GList vs \<and>
      vs = map (\<lambda>item. case t_out (t (SetVar var item ((heap w a)\<lparr>bodyShared := True\<rparr>)))
                        of None \<Rightarrow> GNull | Some n \<Rightarrow> Body n) (take (length vs) items) \<and>
      EventID (heap w' a) = EventID (heap w a) \<and>
      (if stopped
       then Variables (heap w' a) = (Variables (heap w a))(stopVar \<mapsto> GBool True) \<and>
            (\<exists>n. t_out (t (SetVar var (items ! (length vs - 1)) ((heap w a)\<lparr>bodyShared := True\<rparr>))) = Some n \<and>
                 StopRequested n)
       else length vs = length items \<and> Variables (heap w' a) = Variables (heap w a)))"
proof -
  let ?m = "(heap w a)\<lparr>bodyShared := True\<rparr>"
  obtain w1 r1 where l: "map_loop var body c a items [] w = (w1, r1)" by force
  have h: "heap w1 a = (heap w a)\<lparr>bodyShared := bodyShared (heap w a) \<or> items \<noteq> []\<rparr>"
    using map_loop_frame [OF implements_framed [OF assms(1)] assms(2) l] by simp
  have r1: "r1 = t_map var t ?m items"
    using map_loop_sem [OF assms(1,2) l] by (auto split: sum.splits)
  obtain vs stopped where v: "t_map var t ?m items = Inr (vs, stopped)"
    using assms(3) l r1 by (cases "t_map var t ?m items") (auto simp: mapItems_def)
  have b: "b = a" and w': "heap w' a = (if stopped then RequestStop (SetBody (GList vs) (heap w1 a))
      else SetBody (GList vs) (heap w1 a))"
    using assms(3) l r1 v by (auto simp: mapItems_def Let_def)
  show ?thesis
  proof (cases stopped)
    case True
    have "t_map var t ?m items = Inr (vs, True)" using v True by simp
    from t_map_stopped [OF this] show ?thesis
      using b w' True h by (intro conjI exI [of _ vs] exI [of _ True]) auto
  next
    case False
    have "t_map var t ?m items = Inr (vs, False)" using v False by simp
    from t_map_complete [OF this] show ?thesis
      using b w' False h by (intro conjI exI [of _ vs] exI [of _ False]) auto
  qed
qed

theorem foreach_map_positional_witness:
  "\<exists>w'. mapItems ''x'' (set_payload (\<lambda>_ m. Inr (case Variables m ''x'' of Some v \<Rightarrow> GList [v] | None \<Rightarrow> GNull))
            False []) [GInt 1, GInt 2] (Ctx False) sample_world 0 = (w', Out 0) \<and>
        Body (heap w' 0) = GList [GList [GInt 1], GList [GInt 2]]"
proof -
  let ?q = "\<lambda>m. Inr (case Variables m ''x'' of Some v \<Rightarrow> GList [v] | None \<Rightarrow> GNull)"
  let ?body = "set_payload (\<lambda>_. ?q) False []"
  obtain w' where run: "mapItems ''x'' ?body [GInt 1, GInt 2] (Ctx False) sample_world 0 = (w', Out 0)"
    by (auto simp: mapItems_def Scoped_def Let_def alloc_def set_payload_def StopRequested_def
        var_Bool_def sample_message_def reserved_defs upd_def sample_world_def)
  have v: "Variables (heap w' 0) = Map.empty"
    using run by (auto simp: mapItems_def Scoped_def Let_def alloc_def set_payload_def StopRequested_def
        var_Bool_def sample_message_def reserved_defs upd_def sample_world_def)
  then have "Variables (heap w' 0) stopVar \<noteq> Some (GBool True)" by simp
  with foreach_map_positional [OF set_payload.implements_axioms _ run]
  have "\<exists>vs. Body (heap w' 0) = GList vs \<and> length vs = 2 \<and>
      vs = map (\<lambda>item. case t_out (t_set_payload ?q (SetVar ''x'' item (sample_message\<lparr>bodyShared := True\<rparr>)))
              of None \<Rightarrow> GNull | Some n \<Rightarrow> Body n) (take (length vs) [GInt 1, GInt 2])"
    by (auto split: if_splits)
  with run show ?thesis by (auto simp: t_set_payload_def)
qed

lemma iterate_loop_restores:
  "iterate_loop var body prev items c w a = (w', Out b) \<Longrightarrow> \<not> StopRequested (heap w' b) \<Longrightarrow>
   Variables (heap w' b) var = prev"
proof (induction items arbitrary: w a)
  case (Cons item items)
  obtain w1 r1 where "body c (upd w a (SetVar var item)) a = (w1, r1)" by force
  with Cons show ?case by (cases r1) (auto split: if_splits)
qed (auto split: option.splits)

text \<open>
  \<^verbatim>\<open>foreach\<close> in iterate mode gives the loop variable back: when the loop runs to
  its end, the variable has on the outgoing message the value (or the absence) it had
  before the loop, whatever the body did to it.
\<close>

theorem foreach_iterate_restores:
  assumes "iterate var body items c w a = (w', Out b)" and "\<not> StopRequested (heap w' b)"
  shows "Variables (heap w' b) var = Variables (heap w a) var"
  using iterate_loop_restores assms by (simp add: iterate_def)

theorem foreach_iterate_restores_witness:
  "Variables (heap (fst (iterate ''x'' (delete_variable ''y'') [GInt 1] (Ctx False) sample_world 0)) 0) ''x'' = None"
  using foreach_iterate_restores [of "''x''" "delete_variable ''y''" "[GInt 1]" "Ctx False" sample_world 0
      "fst (iterate ''x'' (delete_variable ''y'') [GInt 1] (Ctx False) sample_world 0)" 0]
  by (simp add: iterate_def delete_variable_def sample_message_def StopRequested_def var_Bool_def
      reserved_defs)

text \<open>
  A stop inside the body leaves the loop at once: no later element runs, and the message
  that leaves the block still carries the loop variable with the current element, which the
  comment on \<^verbatim>\<open>iterate\<close> does not say.
\<close>

theorem foreach_iterate_stop_keeps_variable:
  assumes "var \<noteq> stopVar"
  shows "\<exists>w'. iterate var (applyTakeover None) (item # items) c w a = (w', Out a) \<and>
     StopRequested (heap w' a) \<and> Variables (heap w' a) var = Some item"
  using assms by (simp add: iterate_def applyTakeover_def)

theorem foreach_iterate_stop_keeps_variable_witness:
  "\<exists>w'. iterate ''x'' (applyTakeover None) [GInt 1, GInt 2] (Ctx False) sample_world 0 = (w', Out 0) \<and>
     Variables (heap w' 0) ''x'' = Some (GInt 1)"
  using foreach_iterate_stop_keeps_variable [of "''x''" "GInt 1" "[GInt 2]" "Ctx False" sample_world 0]
  by (auto simp: reserved_defs)

lemma t_enrich_vars_ok:
  "t_enrich_vars vs out m = (m', TSame) \<Longrightarrow> distinct (map fst vs) \<Longrightarrow>
   Body m' = Body m \<and> Variables m' k =
     (case map_of vs k of
        Some p \<Rightarrow> (case p out of Inr v \<Rightarrow> Some v | Inl _ \<Rightarrow> None)
      | None \<Rightarrow> Variables m k)"
proof (induction vs arbitrary: m)
  case (Cons nv vs)
  obtain n p where nv: "nv = (n, p)" by force
  then obtain v where v: "p out = Inr v" "t_enrich_vars vs out (SetVar n v m) = (m', TSame)"
    using Cons.prems by (auto split: sum.splits)
  have "map_of vs n = None" using Cons.prems nv by (auto simp: map_of_eq_None_iff)
  with Cons.IH [OF v(2)] Cons.prems nv v(1) show ?case by (auto split: option.splits)
qed simp

lemma t_enrich_vars_same: "snd (t_enrich_vars vs out m) \<noteq> TNew n" "snd (t_enrich_vars vs out m) \<noteq> TDrop"
  by (induction vs out m rule: t_enrich_vars.induct) (auto split: sum.splits)

text \<open>
  Enrichment is isolated: whatever the body flow did to its scope, the message gains
  exactly the body and the variables the expressions name, evaluated against the scope's
  result, and a stop. In particular the order in which the variables of the Go map are
  visited does not matter.
\<close>

theorem enrich_folds_back:
  assumes "implements body t" and "distinct (map fst vs)" and "a < hp w"
    and "enrich_process body (map_option (\<lambda>q _. q) setBody) (map (\<lambda>(n, q). (n, \<lambda>_. q)) vs) c w a = (w', Out b)"
  shows "b = a \<and> (\<exists>out. t_out (t ((heap w a)\<lparr>bodyShared := True\<rparr>)) = Some out \<and>
     (case setBody of None \<Rightarrow> Body (heap w' a) = Body (heap w a)
                    | Some p \<Rightarrow> p out = Inr (Body (heap w' a))) \<and>
     (\<forall>k. Variables (heap w' a) k =
        (if k = stopVar \<and> StopRequested out then Some (GBool True)
         else (case map_of vs k of
                 Some p \<Rightarrow> (case p out of Inr v \<Rightarrow> Some v | Inl _ \<Rightarrow> None)
               | None \<Rightarrow> Variables (heap w a) k))))"
proof -
  let ?m = "(heap w a)\<lparr>bodyShared := True\<rparr>"
  have s: "t_enrich t setBody vs (heap w a) = (heap w' a, abs_outcome w' a (Out b))"
    using implements_sem [OF implements_enrich [OF assms(1)] assms(3,4)] by simp
  obtain out where out: "t_out (t ?m) = Some out"
    using s by (cases "t ?m"; cases "snd (t ?m)") (auto simp: t_enrich_def Let_def split: if_splits)
  define m1 where "m1 = (case setBody of None \<Rightarrow> (?m, TSame)
      | Some p \<Rightarrow> (case p out of Inl e \<Rightarrow> (?m, TFail (Wrap ''enrich setBody'' e)) | Inr v \<Rightarrow> (SetBody v ?m, TSame)))"
  have s1: "t_bind m1 (\<lambda>m. t_bind (t_enrich_vars vs out m)
      (\<lambda>m. ((if StopRequested out then RequestStop m else m), TSame))) = (heap w' a, abs_outcome w' a (Out b))"
    using s out by (simp add: t_enrich_def m1_def Let_def)
  have "\<exists>n. m1 = (n, TSame)"
    using s1 by (auto simp: m1_def split: option.splits sum.splits if_splits)
  then obtain n1 where n1: "m1 = (n1, TSame)" by blast
  obtain n2 x where v: "t_enrich_vars vs out n1 = (n2, x)" by force
  have x: "x = TSame" using s1 n1 v t_enrich_vars_same [of vs out n1] by (cases x) (auto split: if_splits)
  have fin: "heap w' a = (if StopRequested out then RequestStop n2 else n2)" "b = a"
    using s1 n1 v x by (auto split: if_splits)
  have b1: "case setBody of None \<Rightarrow> Body n1 = Body (heap w a) | Some p \<Rightarrow> p out = Inr (Body n1)"
    and v1: "Variables n1 = Variables (heap w a)"
    using n1 by (auto simp: m1_def split: option.splits sum.splits)
  show ?thesis
    using t_enrich_vars_ok [OF v [unfolded x] assms(2)] b1 v1 fin out
    by (auto split: option.splits)
qed

theorem enrich_folds_back_witness:
  "\<exists>w'. enrich_process (set_variable ''y'' (\<lambda>_ _. Inr (GInt 5))) None
            [(''z'', \<lambda>_ m. Inr (case Variables m ''y'' of Some v \<Rightarrow> v | None \<Rightarrow> GNull))]
            (Ctx False) sample_world 0 = (w', Out 0) \<and>
     Variables (heap w' 0) ''z'' = Some (GInt 5) \<and> Variables (heap w' 0) ''y'' = None"
proof -
  let ?vs = "[(''z'', \<lambda>m. Inr (case Variables m ''y'' of Some v \<Rightarrow> v | None \<Rightarrow> GNull))]"
  obtain w' where run: "enrich_process (set_variable ''y'' (\<lambda>_ _. Inr (GInt 5)))
      (map_option (\<lambda>q _. q) None) (map (\<lambda>(n, q). (n, \<lambda>_. q)) ?vs) (Ctx False) sample_world 0 = (w', Out 0)"
    by (auto simp: enrich_process_def Scoped_def Let_def alloc_def set_variable_def)
  from enrich_folds_back [OF set_variable.implements_axioms _ _ run] run show ?thesis
    by (auto simp: t_set_variable_def sample_message_def reserved_defs)
qed

lemma switch_from_skip:
  assumes "\<forall>j < i. EvalCondition (fst (cases ! j)) w (heap w a) = Inr False" and "i \<le> length cases"
  shows "switch_from k cases def c w a = switch_from (k + i) (drop i cases) def c w a"
  using assms
proof (induction i arbitrary: k cases)
  case (Suc i)
  then obtain g p rest where cases: "cases = (g, p) # rest" by (cases cases) auto
  have "EvalCondition g w (heap w a) = Inr False" using Suc.prems(1) cases by auto
  moreover have "\<forall>j < i. EvalCondition (fst (rest ! j)) w (heap w a) = Inr False"
    using Suc.prems(1) cases by fastforce
  ultimately show ?case using Suc.IH [of rest "Suc k"] Suc.prems(2) cases by simp
qed simp

text \<open>
  A switch runs the flow of the first case whose guard holds: with every earlier guard
  false, case \<open>i\<close> decides alone (a failing guard fails the block with its index), and
  with all guards false the default runs, or the message passes through.
\<close>

theorem switch_first_match:
  assumes "\<forall>j < i. EvalCondition (fst (cases ! j)) w (heap w a) = Inr False"
    and "i \<le> length cases"
  shows "(i = length cases \<longrightarrow> switch_process cases def c w a =
            (case def of Some p \<Rightarrow> p c w a | None \<Rightarrow> (w, Out a))) \<and>
         (i < length cases \<longrightarrow>
            (EvalCondition (fst (cases ! i)) w (heap w a) = Inr True \<longrightarrow>
               switch_process cases def c w a = snd (cases ! i) c w a) \<and>
            (\<forall>e. EvalCondition (fst (cases ! i)) w (heap w a) = Inl e \<longrightarrow>
               switch_process cases def c w a = (w, Failed (Wrap (''switch case '' @ itoa i) e))))"
  using switch_from_skip [OF assms, of 0 "def" c]
  by (cases "cases ! i"; cases "i < length cases")
     (auto simp: switch_process_def Cons_nth_drop_Suc [symmetric])

theorem switch_first_match_witness:
  "switch_process [(\<lambda>_ _. Inr (GBool False), sample_stop), (\<lambda>_ _. Inr (GBool True), sample_pass)] None
     (Ctx False) sample_world 0 = (sample_world, Out 0)"
  using switch_first_match [of 1 "[(\<lambda>_ _. Inr (GBool False), sample_stop), (\<lambda>_ _. Inr (GBool True), sample_pass)]"
      sample_world 0 None "Ctx False"]
  by (simp add: EvalCondition_def sample_pass_def)

lemma eval_rules_pure:
  "eval_rules i (map (\<lambda>(q, t). (\<lambda>_. q, t)) rules) w m = eval_rules i (map (\<lambda>(q, t). (\<lambda>_. q, t)) rules) w' m"
  by (induction rules arbitrary: i) (auto simp: EvalCondition_def split: sum.splits)

lemma eval_rules_failures:
  "eval_rules i rules w m = Inr fs \<Longrightarrow>
   fs = map (\<lambda>r. GStr (snd r)) (filter (\<lambda>r. EvalCondition (fst r) w m = Inr False) rules)"
  by (induction rules arbitrary: i fs) (auto split: sum.splits if_splits)

text \<open>
  A \<^verbatim>\<open>validate\<close> block gates the chain: if every rule holds the message goes on
  unchanged; if some fail, the texts of exactly those rules, in order, are in
  \<^verbatim>\<open>vars.validationErrors\<close> and the built-in response, the configured status is set,
  and none of the blocks that follow run.
\<close>

theorem validate_gates_chain:
  assumes "bproc b (bcont b) = validate_process (map (\<lambda>(q, t). (\<lambda>_. q, t)) rules) None status"
    and "eval_rules 0 (map (\<lambda>(q, t). (\<lambda>_. q, t)) rules) w (heap w a) = Inr fs"
    and "run_blocks evs fname [b] c w a = (w', r)"
  shows "fs = map (\<lambda>r. GStr (snd r)) (filter (\<lambda>r. EvalCondition (\<lambda>_. fst r) w (heap w a) = Inr False) rules) \<and>
    r = Out a \<and>
    (if fs = [] then heap w' a = heap w a
     else run_blocks evs fname (b # bs) c w a = (w', Out a) \<and> StopRequested (heap w' a) \<and>
          Variables (heap w' a) ''validationErrors'' = Some (GList fs) \<and>
          Variables (heap w' a) ''httpStatus'' = Some (GInt status) \<and>
          Body (heap w' a) = GMap [(''error'', GStr ''validation_failed''), (''messages'', GList fs)])"
proof -
  let ?rules = "map (\<lambda>(q, t). (\<lambda>_. q, t)) rules"
  obtain r1 where i: "invoke evs fname b c w a = (w', r1)"
    and r: "r = (case r1 of Failed e \<Rightarrow> Failed (BlockError (blockLabel (btype b) (bname b)) e) | x \<Rightarrow> x)"
    using assms(3) by (auto split: prod.splits outcome.splits if_splits)
  obtain w1 w2 where w: "heap w1 = heap w" "block_process b c w1 a = (w2, r1)" "heap w' = heap w2"
    using invoke_cases [OF i] by metis
  have e1: "eval_rules 0 ?rules w1 (heap w1 a) = Inr fs"
    using assms(2) eval_rules_pure [of 0 rules w1 "heap w a" w] w(1) by simp
  have fs: "fs = map (\<lambda>r. GStr (snd r)) (filter (\<lambda>r. EvalCondition (\<lambda>_. fst r) w (heap w a) = Inr False) rules)"
    using eval_rules_failures [OF assms(2)] by (simp add: filter_map o_def case_prod_unfold)
  show ?thesis
  proof (cases "fs = []")
    case True
    have "w2 = w1" "r1 = Out a" using w(2) assms(1) e1 True by (auto simp: block_process_def validate_process_def)
    then show ?thesis using fs True r w by simp
  next
    case False
    have r1: "r1 = Out a" and w2: "heap w2 a = RequestStop (SetBody
        (GMap [(''error'', GStr ''validation_failed''), (''messages'', GList fs)])
        (SetVar httpStatusVar (GInt status) (SetVar validationErrorsVar (GList fs) (heap w a))))"
      using w(1,2) assms(1) e1 False
      by (auto simp: block_process_def validate_process_def applyReject_def)
    have stop: "StopRequested (heap w' a)" using w(3) w2 by simp
    then have "run_blocks evs fname (b # bs) c w a = (w', Out a)" using i r1 by simp
    then show ?thesis using fs False r r1 stop w(3) w2
      by (simp add: httpStatusVar_def validationErrorsVar_def reserved_defs)
  qed
qed

theorem validate_gates_chain_witness:
  "let b = sample_block ''v'' (validate_process (map (\<lambda>(q, t). (\<lambda>_. q, t)) [(\<lambda>_. Inr (GBool False), ''no'')]) None 422)
   in \<exists>w'. run_blocks None ''f'' [b, sample_block ''x'' sample_pass] (Ctx False) sample_world 0 = (w', Out 0) \<and>
        Variables (heap w' 0) ''httpStatus'' = Some (GInt 422)"
proof -
  let ?rules = "[(\<lambda>_. Inr (GBool False), ''no'')]"
  let ?b = "sample_block ''v'' (validate_process (map (\<lambda>(q, t). (\<lambda>_. q, t)) ?rules) None 422)"
  obtain w' r where run: "run_blocks None ''f'' [?b] (Ctx False) sample_world 0 = (w', r)" by force
  have b: "bproc ?b (bcont ?b) = validate_process (map (\<lambda>(q, t). (\<lambda>_. q, t)) ?rules) None 422"
    by (simp add: sample_block_def)
  have e: "eval_rules 0 (map (\<lambda>(q, t). (\<lambda>_. q, t)) ?rules) sample_world (heap sample_world 0) = Inr [GStr ''no'']"
    by (simp add: EvalCondition_def)
  from validate_gates_chain [OF b e run, of "[sample_block ''x'' sample_pass]"]
  show ?thesis by (simp add: Let_def)
qed

end
