(* ===== verification/Octo_KV.thy ===== *)
theory Octo_KV
  imports Octo_Prelude "HOL-Library.While_Combinator"
begin

text \<open>
  The versioned key/value store: the interface of \<^verbatim>\<open>runtime/core/services.go\<close> as
  the locale \<open>versioned_kv\<close>, and its standalone implementation
  \<^verbatim>\<open>runtime/services/standalone/kv.go\<close> with the snapshot files of
  \<^verbatim>\<open>persist.go\<close>.

  A file of the storage directory is represented by the entries it decodes to. The disk may
  fail a write before or after the file was replaced (\<open>write_result\<close>).
\<close>

section \<open>Namespaces\<close>

definition NamespaceSystem :: string where "NamespaceSystem = ''system''"
definition NamespaceUser :: string where "NamespaceUser = ''user''"
definition NamespaceSystemSecrets :: string where "NamespaceSystemSecrets = ''system_secrets''"
definition NamespaceUserSecrets :: string where "NamespaceUserSecrets = ''user_secrets''"
definition NamespaceSystemVolatile :: string where "NamespaceSystemVolatile = ''system_volatile''"
definition NamespaceUserVolatile :: string where "NamespaceUserVolatile = ''user_volatile''"
definition SecretNamespaceSuffix :: string where "SecretNamespaceSuffix = ''_secrets''"
definition VolatileNamespaceSuffix :: string where "VolatileNamespaceSuffix = ''_volatile''"

lemmas namespace_defs = NamespaceSystem_def NamespaceUser_def NamespaceSystemSecrets_def
  NamespaceUserSecrets_def NamespaceSystemVolatile_def NamespaceUserVolatile_def
  SecretNamespaceSuffix_def VolatileNamespaceSuffix_def

definition secretNamespace :: "string \<Rightarrow> string" where
  "secretNamespace namespace =
     (if namespace = NamespaceSystem then NamespaceSystemSecrets
      else if namespace = NamespaceUser then NamespaceUserSecrets
      else namespace @ SecretNamespaceSuffix)"

definition IsSecretNamespace :: "string \<Rightarrow> bool" where
  "IsSecretNamespace namespace = has_suffix namespace SecretNamespaceSuffix"

definition VolatileNamespace :: "string \<Rightarrow> string" where
  "VolatileNamespace namespace =
     (if namespace = NamespaceSystem then NamespaceSystemVolatile
      else if namespace = NamespaceUser then NamespaceUserVolatile
      else namespace @ VolatileNamespaceSuffix)"

definition IsVolatileNamespace :: "string \<Rightarrow> bool" where
  "IsVolatileNamespace namespace = has_suffix namespace VolatileNamespaceSuffix"

lemma namespace_suffix:
  "secretNamespace n = n @ SecretNamespaceSuffix" "VolatileNamespace n = n @ VolatileNamespaceSuffix"
  by (simp_all add: secretNamespace_def VolatileNamespace_def namespace_defs)

section \<open>The interface\<close>

record 'v entry =
  Value :: 'v
  Version :: int

text \<open>\<^verbatim>\<open>ErrVersionConflict\<close> and \<^verbatim>\<open>ErrNoKV\<close>.\<close>

datatype kv_error = ErrVersionConflict | ErrNoKV

text \<open>The calls of a client.\<close>

datatype 'v kv_op = KSet string string 'v int | KDelete string string int

fun deletes :: "string \<Rightarrow> string \<Rightarrow> 'v kv_op \<Rightarrow> bool" where
  "deletes n k (KSet n' k' v ev) = False"
| "deletes n k (KDelete n' k' ev) = (n' = n \<and> k' = k)"

text \<open>
  The contract of \<^verbatim>\<open>core.KV\<close>: a write or a delete affects one key of one
  namespace, a write succeeds exactly when the expected version is the stored one (zero for
  an absent key), and it stores the value under the next version.
\<close>

locale versioned_kv =
  fixes kget :: "'s \<Rightarrow> string \<Rightarrow> string \<Rightarrow> 'v entry option"
    and kset :: "'s \<Rightarrow> string \<Rightarrow> string \<Rightarrow> 'v \<Rightarrow> int \<Rightarrow> 's \<times> (kv_error, int) res"
    and kdelete :: "'s \<Rightarrow> string \<Rightarrow> string \<Rightarrow> int \<Rightarrow> 's \<times> (kv_error, unit) res"
    and inv :: "'s \<Rightarrow> bool"
  assumes set_ok: "inv s \<Longrightarrow> (case kget s n k of None \<Rightarrow> 0 | Some e \<Rightarrow> Version e) = ev \<Longrightarrow>
      snd (kset s n k v ev) = Inr (ev + 1) \<and>
      kget (fst (kset s n k v ev)) n k = Some \<lparr>Value = v, Version = ev + 1\<rparr>"
    and set_conflict: "inv s \<Longrightarrow> (case kget s n k of None \<Rightarrow> 0 | Some e \<Rightarrow> Version e) \<noteq> ev \<Longrightarrow>
      kset s n k v ev = (s, Inl ErrVersionConflict)"
    and set_other: "inv s \<Longrightarrow> (n', k') \<noteq> (n, k) \<Longrightarrow> kget (fst (kset s n k v ev)) n' k' = kget s n' k'"
    and delete_ok: "inv s \<Longrightarrow> ev = 0 \<or> kget s n k = None \<or> Version (the (kget s n k)) = ev \<Longrightarrow>
      snd (kdelete s n k ev) = Inr () \<and> kget (fst (kdelete s n k ev)) n k = None"
    and delete_conflict: "inv s \<Longrightarrow> kget s n k = Some e \<Longrightarrow> ev \<noteq> 0 \<Longrightarrow> Version e \<noteq> ev \<Longrightarrow>
      kdelete s n k ev = (s, Inl ErrVersionConflict)"
    and delete_other: "inv s \<Longrightarrow> (n', k') \<noteq> (n, k) \<Longrightarrow>
      kget (fst (kdelete s n k ev)) n' k' = kget s n' k'"
    and positive: "inv s \<Longrightarrow> kget s n k = Some e \<Longrightarrow> 0 < Version e"
    and inv_set: "inv s \<Longrightarrow> inv (fst (kset s n k v ev))"
    and inv_delete: "inv s \<Longrightarrow> inv (fst (kdelete s n k ev))"
begin

definition version :: "'s \<Rightarrow> string \<Rightarrow> string \<Rightarrow> int" where
  "version s n k = (case kget s n k of None \<Rightarrow> 0 | Some e \<Rightarrow> Version e)"

lemma set_iff: "inv s \<Longrightarrow> (\<exists>nv. snd (kset s n k v ev) = Inr nv) \<longleftrightarrow> version s n k = ev"
  using set_ok [of s n k ev v] set_conflict [of s n k ev v]
  by (cases "version s n k = ev") (auto simp: version_def)

lemma version_set:
  "inv s \<Longrightarrow> version (fst (kset s n k v ev)) n' k' =
     (if (n', k') = (n, k) \<and> version s n k = ev then ev + 1 else version s n' k')"
  using set_ok [of s n k ev v] set_conflict [of s n k ev v] set_other [of s n' k' n k v ev]
  by (cases "version s n k = ev"; cases "(n', k') = (n, k)") (auto simp: version_def)

text \<open>
  A sequence of calls. As long as none of them deletes the key, its version never goes back,
  so a writer that lost a race stays refused.
\<close>

fun apply_op :: "'v kv_op \<Rightarrow> 's \<Rightarrow> 's" where
  "apply_op (KSet n k v ev) s = fst (kset s n k v ev)"
| "apply_op (KDelete n k ev) s = fst (kdelete s n k ev)"

lemma apply_op_version:
  assumes "inv s" and "\<not> deletes n k op"
  shows "inv (apply_op op s) \<and> version s n k \<le> version (apply_op op s) n k"
proof (cases op)
  case (KSet n' k' v ev)
  then show ?thesis using inv_set [OF assms(1)] version_set [OF assms(1), of n' k' v ev n k] by simp
next
  case (KDelete n' k' ev)
  then have "(n, k) \<noteq> (n', k')" using assms(2) by auto
  then show ?thesis using KDelete delete_other [OF assms(1), of n k n' k' ev] inv_delete [OF assms(1)]
    by (simp add: version_def)
qed

lemma ops_version:
  "inv s \<Longrightarrow> \<forall>op \<in> List.set ops. \<not> deletes n k op \<Longrightarrow>
   inv (fold apply_op ops s) \<and> version s n k \<le> version (fold apply_op ops s) n k"
proof (induction ops arbitrary: s)
  case (Cons op ops)
  have "inv (apply_op op s)" "version s n k \<le> version (apply_op op s) n k"
    using apply_op_version [of s n k op] Cons.prems by simp_all
  with Cons show ?case by fastforce
qed simp

lemma stale_writer_refused:
  assumes "inv s" and "kset s n k v1 ev = (s1, Inr nv)"
    and "\<forall>op \<in> List.set ops. \<not> deletes n k op"
  shows "kset (fold apply_op ops s1) n k v2 ev = (fold apply_op ops s1, Inl ErrVersionConflict)"
proof -
  have "version s n k = ev" using set_iff assms by (metis snd_conv)
  then have v1: "version s1 n k = ev + 1" using version_set [OF assms(1), of n k v1 ev n k] assms(2) by simp
  have "inv s1" using inv_set [OF assms(1), of n k v1 ev] assms(2) by simp
  with ops_version [of s1 ops n k] assms(3) v1
  have "inv (fold apply_op ops s1)" "version (fold apply_op ops s1) n k \<noteq> ev" by auto
  then show ?thesis using set_conflict by (simp add: version_def)
qed

end

text \<open>
  Confining a client to the image of an injective renaming of namespaces keeps the contract:
  this is what the secret store does.
\<close>

locale renamed_kv = versioned_kv +
  fixes rename :: "string \<Rightarrow> string"
  assumes rename_inj: "rename a = rename b \<longleftrightarrow> a = b"

sublocale renamed_kv \<subseteq> renamed: versioned_kv
  "\<lambda>s n. kget s (rename n)" "\<lambda>s n. kset s (rename n)" "\<lambda>s n. kdelete s (rename n)" inv
  by unfold_locales
     (simp_all add: set_ok set_conflict set_other delete_ok delete_conflict delete_other positive
       inv_set inv_delete rename_inj)

section \<open>The standalone store\<close>

type_synonym 'v keyspace = "(string \<times> 'v entry) list"

text \<open>
  \<open>wake\<close> is the one-slot nudge channel and \<open>closed\<close> the closed stop channel; the flusher
  goroutine idles, waits out the delay, flushes or has exited, after which \<^verbatim>\<open>close\<close>
  flushes once more (\<open>FClosing\<close>, \<open>FClosed\<close>). While a flush runs, \<open>pending\<close> holds
  the namespaces it took and still has to write. The disk lists the files of the storage
  directory; a file that does not decode has no contents.
\<close>

datatype flusher = FIdle | FDelay | FFlushing | FExited | FClosing | FClosed

record 'v store =
  ns :: "string \<rightharpoonup> 'v keyspace"
  dirty :: "string list"
  snap :: bool
  wake :: bool
  closed :: bool
  flusher_at :: flusher
  pending :: "(string \<times> 'v keyspace) list"
  disk :: "(string \<times> 'v keyspace option) list"

definition persists :: "'v store \<Rightarrow> string \<Rightarrow> bool" where
  "persists s namespace \<longleftrightarrow>
     snap s \<and> \<not> IsVolatileNamespace namespace \<and> \<not> IsSecretNamespace namespace"

definition keyspace :: "'v store \<Rightarrow> string \<Rightarrow> 'v keyspace" where
  "keyspace s namespace = (case ns s namespace of None \<Rightarrow> [] | Some keys \<Rightarrow> keys)"

definition Get :: "'v store \<Rightarrow> string \<Rightarrow> string \<Rightarrow> 'v entry option" where
  "Get s namespace key = map_of (keyspace s namespace) key"

definition touch :: "string \<Rightarrow> 'v store \<Rightarrow> 'v store" where
  "touch namespace s =
     (if persists s namespace
      then s\<lparr>dirty := List.insert namespace (dirty s), wake := True\<rparr> else s)"

definition store_write :: "'v store \<Rightarrow> string \<Rightarrow> string \<Rightarrow> 'v \<Rightarrow> int \<Rightarrow> 'v store \<times> (kv_error, int) res" where
  "store_write s namespace key value expectedVersion =
     (let keys = keyspace s namespace;
          current = (case map_of keys key of None \<Rightarrow> 0 | Some e \<Rightarrow> Version e)
      in if expectedVersion \<noteq> current then (s, Inl ErrVersionConflict)
         else let next = current + 1 in
           (touch namespace
              (s\<lparr>ns := (ns s)(namespace \<mapsto> AList.update key \<lparr>Value = value, Version = next\<rparr> keys)\<rparr>),
            Inr next))"

definition Delete :: "'v store \<Rightarrow> string \<Rightarrow> string \<Rightarrow> int \<Rightarrow> 'v store \<times> (kv_error, unit) res" where
  "Delete s namespace key expectedVersion =
     (case map_of (keyspace s namespace) key of
        None \<Rightarrow> (s, Inr ())
      | Some e \<Rightarrow>
          if expectedVersion \<noteq> 0 \<and> expectedVersion \<noteq> Version e then (s, Inl ErrVersionConflict)
          else (touch namespace
                  (s\<lparr>ns := (ns s)(namespace \<mapsto> AList.delete key (keyspace s namespace))\<rparr>), Inr ()))"

text \<open>The adapter that confines the secret store to the secret namespaces.\<close>

definition secret_Get :: "'v store \<Rightarrow> string \<Rightarrow> string \<Rightarrow> 'v entry option" where
  "secret_Get s namespace key = Get s (secretNamespace namespace) key"

definition secret_Set ::
  "'v store \<Rightarrow> string \<Rightarrow> string \<Rightarrow> 'v \<Rightarrow> int \<Rightarrow> 'v store \<times> (kv_error, int) res" where
  "secret_Set s namespace key value ev = store_write s (secretNamespace namespace) key value ev"

definition secret_Delete ::
  "'v store \<Rightarrow> string \<Rightarrow> string \<Rightarrow> int \<Rightarrow> 'v store \<times> (kv_error, unit) res" where
  "secret_Delete s namespace key ev = Delete s (secretNamespace namespace) key ev"

subsection \<open>The no-op store\<close>

definition noop_Get :: "unit \<Rightarrow> string \<Rightarrow> string \<Rightarrow> 'v entry option" where
  "noop_Get s namespace key = None"

definition noop_Set :: "unit \<Rightarrow> string \<Rightarrow> string \<Rightarrow> 'v \<Rightarrow> int \<Rightarrow> unit \<times> (kv_error, int) res" where
  "noop_Set s namespace key value ev = ((), Inl ErrNoKV)"

definition noop_Delete :: "unit \<Rightarrow> string \<Rightarrow> string \<Rightarrow> int \<Rightarrow> unit \<times> (kv_error, unit) res" where
  "noop_Delete s namespace key ev = ((), Inl ErrNoKV)"

subsection \<open>It keeps the contract\<close>

definition store_inv :: "'v store \<Rightarrow> bool" where
  "store_inv s \<longleftrightarrow> (\<forall>n k e. Get s n k = Some e \<longrightarrow> 0 < Version e)"

lemma touch_simps [simp]:
  "ns (touch n s) = ns s" "snap (touch n s) = snap s" "keyspace (touch n s) = keyspace s"
  "disk (touch n s) = disk s" "pending (touch n s) = pending s" "closed (touch n s) = closed s"
  "flusher_at (touch n s) = flusher_at s" "persists (touch n s) = persists s"
  by (simp_all add: touch_def keyspace_def persists_def fun_eq_iff)

lemma keyspace_upd [simp]:
  "keyspace (s\<lparr>ns := (ns s)(n \<mapsto> keys)\<rparr>) = (keyspace s)(n := keys)"
  by (auto simp: keyspace_def fun_eq_iff)

definition current :: "'v store \<Rightarrow> string \<Rightarrow> string \<Rightarrow> int" where
  "current s n k = (case Get s n k of None \<Rightarrow> 0 | Some e \<Rightarrow> Version e)"

lemma Get_write:
  "Get (fst (store_write s n k v ev)) n' k' =
     (if current s n k = ev \<and> n' = n \<and> k' = k then Some \<lparr>Value = v, Version = ev + 1\<rparr> else Get s n' k')"
  "snd (store_write s n k v ev) = (if current s n k = ev then Inr (ev + 1) else Inl ErrVersionConflict)"
  "current s n k \<noteq> ev \<Longrightarrow> store_write s n k v ev = (s, Inl ErrVersionConflict)"
  by (auto simp: Get_def store_write_def current_def Let_def)

lemma Get_Delete:
  "Get (fst (Delete s n k ev)) n' k' =
     (if (ev = 0 \<or> ev = current s n k) \<and> n' = n \<and> k' = k then None else Get s n' k')"
  "snd (Delete s n k ev) =
     (if Get s n k = None \<or> ev = 0 \<or> ev = current s n k then Inr () else Inl ErrVersionConflict)"
  "Get s n k \<noteq> None \<Longrightarrow> ev \<noteq> 0 \<Longrightarrow> ev \<noteq> current s n k \<Longrightarrow>
     Delete s n k ev = (s, Inl ErrVersionConflict)"
  by (auto simp: Get_def Delete_def current_def delete_conv' split: option.splits)

lemma store_inv_Get: "store_inv s \<longleftrightarrow> (\<forall>n k e. Get s n k = Some e \<longrightarrow> 0 < Version e)"
  by (simp add: store_inv_def)

lemma store_inv_current: "store_inv s \<Longrightarrow> 0 \<le> current s n k"
  by (fastforce simp: store_inv_Get current_def split: option.splits)

lemma store_inv_write: "store_inv s \<Longrightarrow> store_inv (fst (store_write s n k v ev))"
  using store_inv_current [of s n k] unfolding store_inv_Get Get_write by auto

lemma store_inv_Delete: "store_inv s \<Longrightarrow> store_inv (fst (Delete s n k ev))"
  unfolding store_inv_Get Get_Delete by auto

lemma store_inv_positive: "store_inv s \<Longrightarrow> Get s n k = Some e \<Longrightarrow> 0 < Version e"
  by (simp add: store_inv_Get)

interpretation standalone: versioned_kv Get store_write Delete store_inv
  by unfold_locales
     (auto simp: Get_write Get_Delete store_inv_write store_inv_Delete store_inv_positive
       current_def split: option.splits if_splits)

interpretation secrets: renamed_kv Get store_write Delete store_inv secretNamespace
  by unfold_locales (simp add: namespace_suffix)

lemma secret_store_ops:
  "secret_Get = (\<lambda>s n. Get s (secretNamespace n))"
  "secret_Set = (\<lambda>s n. store_write s (secretNamespace n))"
  "secret_Delete = (\<lambda>s n. Delete s (secretNamespace n))"
  by (intro ext, simp add: secret_Get_def secret_Set_def secret_Delete_def)+

section \<open>Snapshot files\<close>

definition snapshotExt :: string where
  "snapshotExt = ''.gob''"

definition isPlainNameByte :: "char \<Rightarrow> bool" where
  "isPlainNameByte c =
     (let n = of_char c :: nat in
      97 \<le> n \<and> n \<le> 122 \<or> 65 \<le> n \<and> n \<le> 90 \<or> 48 \<le> n \<and> n \<le> 57 \<or> n = 95 \<or> n = 45)"

definition upper_hex :: "nat \<Rightarrow> char" where
  "upper_hex d = (if d < 10 then char_of (48 + d) else char_of (55 + d))"

fun encodeName :: "string \<Rightarrow> string" where
  "encodeName [] = []"
| "encodeName (c # cs) =
     (if isPlainNameByte c then c # encodeName cs
      else let n = of_char c :: nat in
        CHR ''%'' # upper_hex (n div 16) # upper_hex (n mod 16) # encodeName cs)"

text \<open>One digit of \<^verbatim>\<open>strconv.ParseUint(s, 16, 8)\<close>.\<close>

definition hex_val :: "char \<Rightarrow> nat option" where
  "hex_val c =
     (let n = of_char c :: nat in
      if 48 \<le> n \<and> n \<le> 57 then Some (n - 48)
      else if 65 \<le> n \<and> n \<le> 70 then Some (n - 55)
      else if 97 \<le> n \<and> n \<le> 102 then Some (n - 87) else None)"

definition parse_hex2 :: "char \<Rightarrow> char \<Rightarrow> nat option" where
  "parse_hex2 a b =
     (case (hex_val a, hex_val b) of (Some x, Some y) \<Rightarrow> Some (16 * x + y) | _ \<Rightarrow> None)"

fun decodeName :: "string \<Rightarrow> string" where
  "decodeName (c # a # b # cs) =
     (if c \<noteq> CHR ''%'' then c # decodeName (a # b # cs)
      else (case parse_hex2 a b of
              None \<Rightarrow> c # decodeName (a # b # cs)
            | Some v \<Rightarrow> char_of v # decodeName cs))"
| "decodeName (c # cs) = c # decodeName cs"
| "decodeName [] = []"

definition snapshot_path :: "string \<Rightarrow> string" where
  "snapshot_path namespace = encodeName namespace @ snapshotExt"

definition load_file ::
  "string \<times> 'v keyspace option \<Rightarrow> (string \<rightharpoonup> 'v keyspace) \<Rightarrow> (string \<rightharpoonup> 'v keyspace)" where
  "load_file f out =
     (if has_suffix (fst f) snapshotExt
      then (case snd f of
              None \<Rightarrow> out
            | Some keys \<Rightarrow> out(decodeName (trim_suffix (fst f) snapshotExt) \<mapsto> keys))
      else out)"

definition load :: "(string \<times> 'v keyspace option) list \<Rightarrow> string \<rightharpoonup> 'v keyspace" where
  "load d = fold load_file d Map.empty"

text \<open>
  \<^verbatim>\<open>snapshot.write\<close>: the file is replaced by a rename or removed. \<open>FailBefore\<close>
  is a failure that leaves the old file, \<open>FailAfter\<close> one of the directory sync after the
  replacement.
\<close>

datatype write_result = WriteOk | FailBefore | FailAfter

definition snapshot_write ::
  "(string \<times> 'v keyspace option) list \<Rightarrow> string \<Rightarrow> 'v keyspace \<Rightarrow> write_result \<Rightarrow>
   (string \<times> 'v keyspace option) list \<times> bool" where
  "snapshot_write d namespace keys result =
     (let path = snapshot_path namespace in
      if keys = []
      then (if map_of d path = None then (d, True)
            else if result = FailBefore then (d, False)
            else (AList.delete path d, result = WriteOk))
      else (if result = FailBefore then (d, False)
            else (AList.update path (Some keys) d, result = WriteOk)))"

definition newStore :: "(string \<times> 'v keyspace option) list option \<Rightarrow> 'v store" where
  "newStore dir =
     \<lparr>ns = (case dir of None \<Rightarrow> Map.empty | Some d \<Rightarrow> load d), dirty = [],
      snap = (dir \<noteq> None), wake = False, closed = False,
      flusher_at = (if dir = None then FExited else FIdle), pending = [],
      disk = (case dir of None \<Rightarrow> [] | Some d \<Rightarrow> d)\<rparr>"

text \<open>
  The locked half of \<^verbatim>\<open>flush\<close>, and the write of one namespace it took. A namespace
  that fails to write is touched again.
\<close>

definition flush_take :: "'v store \<Rightarrow> 'v store" where
  "flush_take s = s\<lparr>pending := map (\<lambda>n. (n, keyspace s n)) (dirty s), dirty := []\<rparr>"

definition flush_write :: "string \<Rightarrow> write_result \<Rightarrow> 'v store \<Rightarrow> 'v store" where
  "flush_write n result s =
     (case map_of (pending s) n of
        None \<Rightarrow> s
      | Some keys \<Rightarrow>
          (case snapshot_write (disk s) n keys result of (d, ok) \<Rightarrow>
             let s' = s\<lparr>disk := d, pending := AList.delete n (pending s)\<rparr>
             in if ok then s' else touch n s'))"

subsection \<open>Names round-trip\<close>

lemma hex_val_upper_hex: "d < 16 \<Longrightarrow> hex_val (upper_hex d) = Some d"
  by (auto simp: hex_val_def upper_hex_def Let_def)

lemma parse_hex2_byte:
  "parse_hex2 (upper_hex ((of_char c :: nat) div 16)) (upper_hex ((of_char c :: nat) mod 16)) =
     Some (of_char c)"
proof -
  have "(of_char c :: nat) < 256" by (metis mod_less_divisor of_char_mod_256 zero_less_numeral)
  then have "(of_char c :: nat) div 16 < 16" by (simp add: less_mult_imp_div_less)
  then show ?thesis by (simp add: parse_hex2_def hex_val_upper_hex)
qed

lemma decodeName_plain: "c \<noteq> CHR ''%'' \<Longrightarrow> decodeName (c # cs) = c # decodeName cs"
  by (cases cs; cases "tl cs") auto

lemma decode_encodeName: "decodeName (encodeName s) = s"
proof (induction s)
  case (Cons c s)
  show ?case
  proof (cases "isPlainNameByte c")
    case True
    then have "c \<noteq> CHR ''%''" by (auto simp: isPlainNameByte_def)
    with True Cons show ?thesis by (simp add: decodeName_plain)
  next
    case False
    then show ?thesis using Cons by (simp add: Let_def parse_hex2_byte)
  qed
qed simp

lemma snapshot_path_inj: "snapshot_path a = snapshot_path b \<longleftrightarrow> a = b"
  by (metis append_same_eq decode_encodeName snapshot_path_def)

lemma trim_path: "trim_suffix (snapshot_path n) snapshotExt = encodeName n"
  by (simp add: trim_suffix_def snapshot_path_def)

section \<open>The store over time\<close>

text \<open>
  Client calls, the flusher goroutine and \<^verbatim>\<open>close\<close>, interleaved at the points
  where the mutex is released.
\<close>

inductive store_step :: "'v store \<Rightarrow> 'v store \<Rightarrow> bool" where
  step_set: "store_step s (fst (store_write s n k v ev))"
| step_delete: "store_step s (fst (Delete s n k ev))"
| step_wake: "flusher_at s = FIdle \<Longrightarrow> wake s \<Longrightarrow> store_step s (s\<lparr>wake := False, flusher_at := FDelay\<rparr>)"
| step_timer: "flusher_at s = FDelay \<Longrightarrow> store_step s ((flush_take s)\<lparr>flusher_at := FFlushing\<rparr>)"
| step_write: "store_step s (flush_write n result s)"
| step_flushed: "flusher_at s = FFlushing \<Longrightarrow> pending s = [] \<Longrightarrow> store_step s (s\<lparr>flusher_at := FIdle\<rparr>)"
| step_close: "store_step s (s\<lparr>closed := True\<rparr>)"
| step_exit: "closed s \<Longrightarrow> flusher_at s \<in> {FIdle, FDelay} \<Longrightarrow> store_step s (s\<lparr>flusher_at := FExited\<rparr>)"
| step_final: "closed s \<Longrightarrow> snap s \<Longrightarrow> flusher_at s = FExited \<Longrightarrow>
    store_step s ((flush_take s)\<lparr>flusher_at := FClosing\<rparr>)"
| step_closed: "flusher_at s = FClosing \<Longrightarrow> pending s = [] \<Longrightarrow> store_step s (s\<lparr>flusher_at := FClosed\<rparr>)"

inductive store_run :: "'v store \<Rightarrow> 'v store \<Rightarrow> bool" where
  run_refl: "store_run s s"
| run_step: "store_run s t \<Longrightarrow> store_step t u \<Longrightarrow> store_run s u"

definition persistent_name :: "string \<Rightarrow> bool" where
  "persistent_name n \<longleftrightarrow> \<not> IsVolatileNamespace n \<and> \<not> IsSecretNamespace n"

text \<open>A directory as this store leaves it: one file per persistent namespace.\<close>

definition wf_disk :: "(string \<times> 'v keyspace option) list \<Rightarrow> bool" where
  "wf_disk d \<longleftrightarrow> distinct (map fst d) \<and>
     (\<forall>f \<in> fst ` set d. has_suffix f snapshotExt \<longrightarrow> (\<exists>n. f = snapshot_path n \<and> persistent_name n))"

definition on_disk :: "(string \<times> 'v keyspace option) list \<Rightarrow> string \<Rightarrow> 'v keyspace" where
  "on_disk d n = (case map_of d (snapshot_path n) of Some (Some keys) \<Rightarrow> keys | _ \<Rightarrow> [])"

lemma load_file_at:
  "load_file (snapshot_path n, c) out n = (case c of None \<Rightarrow> out n | Some keys \<Rightarrow> Some keys)"
  "m \<noteq> n \<Longrightarrow> load_file (snapshot_path m, c) out n = out n"
  by (auto simp: load_file_def trim_path decode_encodeName split: option.splits)
     (simp_all add: snapshot_path_def)

lemma load_fold:
  assumes "distinct (map fst d)"
    and "\<forall>f \<in> fst ` set d. has_suffix f snapshotExt \<longrightarrow> (\<exists>n. f = snapshot_path n)"
  shows "fold load_file d out n =
     (case map_of d (snapshot_path n) of Some (Some keys) \<Rightarrow> Some keys | _ \<Rightarrow> out n)"
  using assms
proof (induction d arbitrary: out)
  case (Cons x d)
  obtain f c where x: "x = (f, c)" by force
  have IH: "fold load_file d out' n =
      (case map_of d (snapshot_path n) of Some (Some keys) \<Rightarrow> Some keys | _ \<Rightarrow> out' n)" for out'
    using Cons by simp
  show ?case
  proof (cases "f = snapshot_path n")
    case True
    then have "map_of d (snapshot_path n) = None"
      using Cons.prems(1) x by (auto simp: map_of_eq_None_iff)
    then show ?thesis using IH [of "load_file x out"] x True
      by (auto simp: load_file_at split: option.split)
  next
    case False
    have "load_file x out n = out n"
    proof (cases "has_suffix f snapshotExt")
      case True
      then obtain m where "f = snapshot_path m" using Cons.prems(2) x by auto
      with False x show ?thesis using load_file_at(2) [of m n c out] by auto
    qed (use x in \<open>simp add: load_file_def\<close>)
    then show ?thesis using IH [of "load_file x out"] x False by (auto split: option.splits)
  qed
qed simp

lemma load_on_disk:
  "wf_disk d \<Longrightarrow> (case load d n of None \<Rightarrow> [] | Some keys \<Rightarrow> keys) = on_disk d n"
proof -
  assume wf: "wf_disk d"
  have "\<forall>f \<in> fst ` set d. has_suffix f snapshotExt \<longrightarrow> (\<exists>n. f = snapshot_path n)"
    using wf unfolding wf_disk_def by blast
  then show ?thesis using load_fold [of d Map.empty n] wf
    by (auto simp: wf_disk_def load_def on_disk_def split: option.splits)
qed

lemma snapshot_write_spec:
  assumes "snapshot_write d n keys result = (d', ok)"
  shows "ok \<Longrightarrow> on_disk d' n = keys" and "n' \<noteq> n \<Longrightarrow> on_disk d' n' = on_disk d n'"
    and "wf_disk d \<Longrightarrow> persistent_name n \<Longrightarrow> wf_disk d'"
proof -
  show "on_disk d' n = keys" if ok
    using assms that
    by (auto simp: snapshot_write_def on_disk_def Let_def delete_conv' split: if_splits option.splits)
  show "on_disk d' n' = on_disk d n'" if "n' \<noteq> n"
    using assms that snapshot_path_inj [of n' n]
    by (auto simp: snapshot_write_def on_disk_def Let_def delete_conv' split: if_splits)
  assume wf: "wf_disk d" and p: "persistent_name n"
  note dl = dom_delete_subset [of "snapshot_path n" d]
  have "wf_disk (AList.delete (snapshot_path n) d)"
    using wf dl distinct_delete [of d] unfolding wf_disk_def by blast
  moreover have "wf_disk (AList.update (snapshot_path n) x d)" for x
    using wf p by (auto simp: wf_disk_def distinct_update dom_update)
  ultimately show "wf_disk d'"
    using assms wf by (auto simp: snapshot_write_def Let_def split: if_splits)
qed

subsection \<open>The invariant\<close>

definition synced :: "'v store \<Rightarrow> string \<Rightarrow> bool" where
  "synced s n \<longleftrightarrow>
     (\<forall>keys. map_of (pending s) n = Some keys \<longrightarrow> keys = keyspace s n) \<and>
     (map_of (pending s) n = None \<longrightarrow> on_disk (disk s) n = keyspace s n)"

definition kv_inv :: "'v store \<Rightarrow> bool" where
  "kv_inv s \<longleftrightarrow>
     wf_disk (disk s) \<and> (\<forall>n. persists s n \<longrightarrow> n \<notin> set (dirty s) \<longrightarrow> synced s n) \<and>
     (\<forall>n \<in> set (dirty s) \<union> fst ` set (pending s). persists s n) \<and>
     (pending s \<noteq> [] \<longrightarrow> flusher_at s \<in> {FFlushing, FClosing}) \<and>
     (dirty s \<noteq> [] \<longrightarrow> flusher_at s \<in> {FIdle, FFlushing} \<longrightarrow> wake s) \<and>
     (flusher_at s \<in> {FExited, FClosing, FClosed} \<longrightarrow> closed s \<or> \<not> snap s)"

lemma kv_invD:
  assumes "kv_inv s"
  shows "wf_disk (disk s)" and "persists s n \<Longrightarrow> n \<notin> set (dirty s) \<Longrightarrow> synced s n"
    and "n \<in> set (dirty s) \<Longrightarrow> persists s n" and "map_of (pending s) n = Some keys \<Longrightarrow> persists s n"
    and "flusher_at s \<notin> {FFlushing, FClosing} \<Longrightarrow> pending s = []"
proof -
  show "wf_disk (disk s)" using assms by (simp add: kv_inv_def)
  show "synced s n" if "persists s n" "n \<notin> set (dirty s)" using assms that by (simp add: kv_inv_def)
  show "persists s n" if "n \<in> set (dirty s)" using assms that by (simp add: kv_inv_def)
  show "persists s n" if "map_of (pending s) n = Some keys"
  proof -
    have "n \<in> fst ` set (pending s)" using map_of_SomeD [OF that] by force
    then show ?thesis using assms unfolding kv_inv_def by blast
  qed
  show "pending s = []" if "flusher_at s \<notin> {FFlushing, FClosing}"
    using assms that unfolding kv_inv_def by blast
qed

lemma kv_invI:
  assumes "wf_disk (disk s)" and "\<And>n. persists s n \<Longrightarrow> n \<notin> set (dirty s) \<Longrightarrow> synced s n"
    and "\<And>n. n \<in> set (dirty s) \<Longrightarrow> persists s n"
    and "\<And>n. n \<in> fst ` set (pending s) \<Longrightarrow> persists s n"
    and "pending s \<noteq> [] \<Longrightarrow> flusher_at s \<in> {FFlushing, FClosing}"
    and "dirty s \<noteq> [] \<Longrightarrow> flusher_at s \<in> {FIdle, FFlushing} \<Longrightarrow> wake s"
    and "flusher_at s \<in> {FExited, FClosing, FClosed} \<Longrightarrow> closed s \<or> \<not> snap s"
  shows "kv_inv s"
  unfolding kv_inv_def using assms by blast

lemma kv_invE:
  assumes "kv_inv s"
  shows "n \<in> fst ` set (pending s) \<Longrightarrow> persists s n"
    and "pending s \<noteq> [] \<Longrightarrow> flusher_at s \<in> {FFlushing, FClosing}"
    and "dirty s \<noteq> [] \<Longrightarrow> flusher_at s \<in> {FIdle, FFlushing} \<Longrightarrow> wake s"
    and "flusher_at s \<in> {FExited, FClosing, FClosed} \<Longrightarrow> closed s \<or> \<not> snap s"
  using assms unfolding kv_inv_def by blast+

lemma touch_dirty:
  "set (dirty (touch n s)) = (if persists s n then insert n (set (dirty s)) else set (dirty s))"
  "wake (touch n s) = (wake s \<or> persists s n)"
  "dirty (touch n s) = [] \<longleftrightarrow> dirty s = [] \<and> \<not> persists s n"
  by (auto simp: touch_def List.insert_def)

lemma store_field_simps [simp]:
  "persists (s\<lparr>closed := b\<rparr>) = persists s" "keyspace (s\<lparr>closed := b\<rparr>) = keyspace s"
  "persists (s\<lparr>wake := b\<rparr>) = persists s" "keyspace (s\<lparr>wake := b\<rparr>) = keyspace s"
  "persists (s\<lparr>flusher_at := f\<rparr>) = persists s" "keyspace (s\<lparr>flusher_at := f\<rparr>) = keyspace s"
  "synced (s\<lparr>closed := b\<rparr>) = synced s" "synced (s\<lparr>wake := b\<rparr>) = synced s"
  "synced (s\<lparr>flusher_at := f\<rparr>) = synced s"
  by (simp_all add: persists_def keyspace_def synced_def fun_eq_iff)

lemma kv_inv_new: "wf_disk d \<Longrightarrow> kv_inv (newStore (Some d))" "kv_inv (newStore None)"
  by (auto simp: kv_inv_def newStore_def synced_def keyspace_def load_on_disk persists_def)
     (simp add: wf_disk_def)

text \<open>A client operation rewrites one namespace and touches it.\<close>

lemma kv_inv_modify:
  assumes "kv_inv s"
  shows "kv_inv (touch n (s\<lparr>ns := (ns s)(n \<mapsto> keys)\<rparr>))"
proof -
  let ?s = "s\<lparr>ns := (ns s)(n \<mapsto> keys)\<rparr>"
  have p: "persists ?s = persists s" by (simp add: persists_def fun_eq_iff)
  have "synced (touch n ?s) m" if "persists s m" "m \<notin> set (dirty (touch n ?s))" for m
  proof -
    have "m \<noteq> n" using that p by (auto simp: touch_def)
    moreover have "m \<notin> set (dirty s)" using that p by (auto simp: touch_def split: if_splits)
    ultimately show ?thesis using kv_invD(2) [OF assms that(1)] by (simp add: synced_def)
  qed
  then show ?thesis
    using kv_invD(1,3) [OF assms] kv_invE [OF assms] p
    by (intro kv_invI) (auto simp: touch_dirty split: if_splits)
qed

lemma kv_inv_write: "kv_inv s \<Longrightarrow> kv_inv (fst (store_write s n k v ev))"
  by (simp add: store_write_def Let_def kv_inv_modify)

lemma kv_inv_Delete: "kv_inv s \<Longrightarrow> kv_inv (fst (Delete s n k ev))"
  by (simp add: Delete_def kv_inv_modify split: option.split)

lemma kv_inv_take:
  assumes "kv_inv s" and "flusher_at s \<notin> {FFlushing, FClosing}" and "f \<in> {FFlushing, FClosing}"
    and "f = FClosing \<longrightarrow> closed s"
  shows "kv_inv ((flush_take s)\<lparr>flusher_at := f\<rparr>)"
proof -
  let ?s = "(flush_take s)\<lparr>flusher_at := f\<rparr>"
  have p: "persists ?s = persists s" "keyspace ?s = keyspace s"
    by (simp_all add: persists_def fun_eq_iff flush_take_def keyspace_def)
  have nil: "pending s = []" using kv_invD(5) assms(1,2) .
  have "synced ?s m" if "persists s m" for m
    using kv_invD(2) [OF assms(1) that] nil p(2)
    by (auto simp: synced_def flush_take_def map_of_map_restrict restrict_map_def)
  then show ?thesis using assms p kv_invD(3) [OF assms(1)]
    by (auto simp: kv_inv_def flush_take_def)
qed

lemma kv_inv_flush_write:
  assumes "kv_inv s"
  shows "kv_inv (flush_write n result s)"
proof (cases "map_of (pending s) n")
  case None
  then show ?thesis using assms by (simp add: flush_write_def)
next
  case (Some keys)
  obtain d ok where w: "snapshot_write (disk s) n keys result = (d, ok)" by force
  let ?s = "s\<lparr>disk := d, pending := AList.delete n (pending s)\<rparr>"
  have P: "persists s n" by (rule kv_invD(4) [OF assms Some])
  have p: "persists ?s = persists s" "keyspace ?s = keyspace s"
    by (simp_all add: persists_def fun_eq_iff keyspace_def)
  have wf: "wf_disk d"
    using snapshot_write_spec(3) [OF w] kv_invD(1) [OF assms] P by (simp add: persists_def persistent_name_def)
  have other: "synced ?s m" if "m \<noteq> n" "synced s m" for m
    using that snapshot_write_spec(2) [OF w that(1)] p(2)
    by (simp add: synced_def delete_conv')
  have own: "synced ?s n" if ok "synced s n"
    using that snapshot_write_spec(1) [OF w] Some p(2) by (simp add: synced_def delete_conv')
  have pend: "m \<in> fst ` set (AList.delete n (pending s)) \<Longrightarrow> persists s m" for m
    using dom_delete_subset [of n "pending s"] kv_invE(1) [OF assms] by blast
  have live: "pending s \<noteq> []" using Some by auto
  then have fl: "flusher_at s \<in> {FFlushing, FClosing}" using assms by (auto simp: kv_inv_def)
  show ?thesis
  proof (cases ok)
    case True
    have "synced ?s m" if "persists s m" "m \<notin> set (dirty s)" for m
      using other own True kv_invD(2) [OF assms that] by (cases "m = n") auto
    then have "kv_inv ?s" using kv_invD(3) [OF assms] kv_invE(3,4) [OF assms] pend wf p(1) fl
      by (intro kv_invI) simp_all
    then show ?thesis using Some w True by (simp add: flush_write_def)
  next
    case False
    have "synced (touch n ?s) m" if "persists s m" "m \<notin> set (dirty (touch n ?s))" for m
    proof -
      have "m \<noteq> n" "m \<notin> set (dirty s)" using that P p(1) by (auto simp: touch_def)
      then show ?thesis using other kv_invD(2) [OF assms that(1)] by (simp add: synced_def)
    qed
    then have "kv_inv (touch n ?s)"
      using kv_invD(3) [OF assms] kv_invE(4) [OF assms] pend wf p(1) fl P
      by (intro kv_invI) (simp_all add: touch_dirty, blast)
    then show ?thesis using Some w False by (simp add: flush_write_def)
  qed
qed

lemma kv_inv_close: "kv_inv s \<Longrightarrow> kv_inv (s\<lparr>closed := True\<rparr>)"
  by (simp add: kv_inv_def)

lemma kv_inv_wake: "kv_inv s \<Longrightarrow> flusher_at s = FIdle \<Longrightarrow> kv_inv (s\<lparr>wake := b, flusher_at := FDelay\<rparr>)"
  by (simp add: kv_inv_def)

lemma kv_inv_exit:
  "kv_inv s \<Longrightarrow> closed s \<Longrightarrow> flusher_at s \<in> {FIdle, FDelay} \<Longrightarrow> kv_inv (s\<lparr>flusher_at := FExited\<rparr>)"
  by (auto simp: kv_inv_def)

lemma kv_inv_flushed:
  "kv_inv s \<Longrightarrow> flusher_at s = FFlushing \<Longrightarrow> pending s = [] \<Longrightarrow> kv_inv (s\<lparr>flusher_at := FIdle\<rparr>)"
  "kv_inv s \<Longrightarrow> flusher_at s = FClosing \<Longrightarrow> pending s = [] \<Longrightarrow> kv_inv (s\<lparr>flusher_at := FClosed\<rparr>)"
  by (simp_all add: kv_inv_def)

lemma kv_inv_step:
  assumes "store_step s t" and "kv_inv s"
  shows "kv_inv t"
  using assms
proof (induction rule: store_step.induct)
  case (step_timer s)
  then show ?case by (simp add: kv_inv_take)
next
  case (step_final s)
  then show ?case by (simp add: kv_inv_take)
qed (simp_all add: kv_inv_write kv_inv_Delete kv_inv_flush_write kv_inv_close kv_inv_wake
      kv_inv_exit kv_inv_flushed)

lemma kv_inv_run: "store_run s t \<Longrightarrow> kv_inv s \<Longrightarrow> kv_inv t"
  by (induction rule: store_run.induct) (auto dest: kv_inv_step)

lemma store_step_snap: "store_step s t \<Longrightarrow> snap t = snap s"
  by (induction rule: store_step.induct)
     (simp_all add: store_write_def Delete_def flush_take_def flush_write_def Let_def split: option.split prod.split)

lemma store_run_snap: "store_run s t \<Longrightarrow> snap t = snap s"
  by (induction rule: store_run.induct) (simp_all add: store_step_snap)

section \<open>Properties of the store\<close>

lemma Get_new: "Get (newStore None) n k = None"
  by (simp add: newStore_def Get_def keyspace_def)

lemma store_inv_new: "store_inv (newStore None)"
  by (simp add: store_inv_def Get_new)

text \<open>The calls of a client on this store.\<close>

fun store_op :: "'v kv_op \<Rightarrow> 'v store \<Rightarrow> 'v store" where
  "store_op (KSet n k v ev) s = fst (store_write s n k v ev)"
| "store_op (KDelete n k ev) s = fst (Delete s n k ev)"

lemma store_op_eq: "standalone.apply_op = store_op"
  by (intro ext, rename_tac x y, case_tac x) simp_all

text \<open>
  C33. Optimistic concurrency: once a writer has written a key at the version another writer
  also read, the other one is refused with a version conflict and leaves the store as it is,
  whatever calls of whatever clients come in between, as long as none of them deletes the
  key.
\<close>

theorem kv_stale_writer_refused:
  assumes "store_inv s" and "store_write s n k v1 ev = (s1, Inr nv)"
    and "\<forall>op \<in> set ops. \<not> deletes n k op"
  shows "store_write (fold store_op ops s1) n k v2 ev = (fold store_op ops s1, Inl ErrVersionConflict)"
  using standalone.stale_writer_refused [OF assms] by (simp add: store_op_eq)

theorem kv_stale_writer_refused_witness:
  "let s1 = fst (store_write (newStore None) ''user'' ''k'' (1 :: nat) 0);
       s2 = store_op (KSet ''user'' ''other'' 5 0) s1
   in store_write s2 ''user'' ''k'' 2 0 = (s2, Inl ErrVersionConflict)"
proof -
  let ?s1 = "fst (store_write (newStore None) ''user'' ''k'' (1 :: nat) 0)"
  have w: "store_write (newStore None) ''user'' ''k'' (1 :: nat) 0 = (?s1, Inr 1)"
    by (simp add: store_write_def newStore_def keyspace_def Let_def)
  show ?thesis
    using kv_stale_writer_refused [OF store_inv_new w, of "[KSet ''user'' ''other'' 5 0]" 2]
    by (simp add: Let_def)
qed

text \<open>
  Deleting a key forgets its version: after a delete and a new creation the key is at
  version 1 again, so a writer that read the deleted entry at version 1 is accepted and
  replaces the new value, although the version of a key is documented to be monotonic.
\<close>

theorem kv_delete_rewinds_version:
  assumes "Get s n k = None"
  shows "let s1 = fst (store_write s n k v1 0); s2 = fst (Delete s1 n k 1);
             s3 = fst (store_write s2 n k v2 0); s4 = fst (store_write s3 n k v3 1)
         in Get s1 n k = Some \<lparr>Value = v1, Version = 1\<rparr> \<and> Get s3 n k = Some \<lparr>Value = v2, Version = 1\<rparr> \<and>
            snd (store_write s3 n k v3 1) = Inr 2 \<and> Get s4 n k = Some \<lparr>Value = v3, Version = 2\<rparr>"
  using assms by (simp add: Let_def Get_write Get_Delete current_def)

theorem kv_delete_rewinds_version_witness:
  "snd (store_write (fst (store_write (fst (Delete (fst (store_write (newStore None) ''user'' ''k'' (1 :: nat) 0))
      ''user'' ''k'' 1)) ''user'' ''k'' 2 0)) ''user'' ''k'' 3 1) = Inr 2"
  using kv_delete_rewinds_version [OF Get_new, of "''user''" "''k''" "1 :: nat" 2 3]
  unfolding Let_def by blast

text \<open>
  C34. Durability: from any directory the store wrote, through any interleaving of client
  calls, flushes and failing disk writes, once the store is closed and nothing is left
  dirty, a store opened on the directory reads every persistent namespace as the closed one
  did.
\<close>

theorem kv_survives_restart:
  assumes "wf_disk d" and "store_run (newStore (Some d)) s" and "flusher_at s = FClosed"
    and "dirty s = []" and "persistent_name n"
  shows "Get (newStore (Some (disk s))) n k = Get s n k"
proof -
  have inv: "kv_inv s" using kv_inv_run [OF assms(2)] kv_inv_new(1) [OF assms(1)] by blast
  have snap: "snap s" using store_run_snap [OF assms(2)] by (simp add: newStore_def)
  have p: "persists s n" using snap assms(5) by (simp add: persists_def persistent_name_def)
  have nil: "pending s = []" using kv_invD(5) [OF inv] assms(3) by simp
  have "on_disk (disk s) n = keyspace s n" using kv_invD(2) [OF inv p] assms(4) nil by (simp add: synced_def)
  then show ?thesis using load_on_disk [OF kv_invD(1) [OF inv], of n]
    by (simp add: Get_def newStore_def keyspace_def)
qed

theorem kv_survives_restart_witness:
  "\<exists>s :: nat store. store_run (newStore (Some [])) s \<and> flusher_at s = FClosed \<and>
     Get (newStore (Some (disk s))) ''user'' ''k'' = Some \<lparr>Value = 7, Version = 1\<rparr>"
proof -
  define s0 :: "nat store" where "s0 = newStore (Some [])"
  define s1 where "s1 = (fst (store_write s0 ''user'' ''k'' 7 0))\<lparr>closed := True\<rparr>"
  define s2 where "s2 = s1\<lparr>flusher_at := FExited\<rparr>"
  define s3 where "s3 = (flush_take s2)\<lparr>flusher_at := FClosing\<rparr>"
  define s4 where "s4 = flush_write ''user'' WriteOk s3"
  define s5 where "s5 = s4\<lparr>flusher_at := FClosed\<rparr>"
  note D = s0_def s1_def s2_def s3_def s4_def s5_def newStore_def store_write_def keyspace_def load_def
    Let_def touch_def persists_def IsVolatileNamespace_def IsSecretNamespace_def namespace_defs
    has_suffix_def flush_take_def flush_write_def snapshot_write_def
  have f: "flusher_at s1 = FIdle" "closed s1" "closed s2" "snap s2" "flusher_at s2 = FExited"
    "flusher_at s4 = FClosing" "pending s4 = []" by (simp_all add: D)
  have run: "store_run s0 s5"
    unfolding s5_def s4_def s3_def s2_def s1_def
    by (intro run_step [OF _ step_closed] run_step [OF _ step_write] run_step [OF _ step_final]
        run_step [OF _ step_exit] run_step [OF _ step_close] run_step [OF _ step_set] run_refl)
       (use f in \<open>simp_all add: s2_def [symmetric] s1_def [symmetric] s3_def [symmetric] s4_def [symmetric]\<close>)
  have "Get s5 ''user'' ''k'' = Some \<lparr>Value = 7, Version = 1\<rparr>" by (simp add: D Get_def)
  moreover have "flusher_at s5 = FClosed" "dirty s5 = []" by (simp_all add: D)
  moreover have "persistent_name ''user''"
    by (simp add: persistent_name_def IsVolatileNamespace_def IsSecretNamespace_def namespace_defs has_suffix_def)
  ultimately show ?thesis
    using kv_survives_restart [of "[]" s5 "''user''" "''k''"] run by (auto simp: s0_def wf_disk_def)
qed

text \<open>
  C35. Secrets stay in memory: the secret store writes namespaces that are recognised as
  secret, and no reachable state of the store has a file for one of them (or for a volatile
  namespace).
\<close>

theorem kv_secrets_never_on_disk:
  assumes "wf_disk d" and "store_run (newStore (Some d)) s"
    and "n = secretNamespace m \<or> n = VolatileNamespace m"
  shows "(IsSecretNamespace n \<or> IsVolatileNamespace n) \<and> snapshot_path n \<notin> fst ` set (disk s)"
proof -
  have sec: "IsSecretNamespace n \<or> IsVolatileNamespace n"
    using assms(3) by (auto simp: namespace_suffix IsSecretNamespace_def IsVolatileNamespace_def)
  have "wf_disk (disk s)"
    using kv_invD(1) [OF kv_inv_run [OF assms(2) kv_inv_new(1) [OF assms(1)]]] .
  then have "snapshot_path n \<in> fst ` set (disk s) \<Longrightarrow> persistent_name n"
    unfolding wf_disk_def
    by (metis has_suffix_append snapshot_path_def snapshot_path_inj)
  with sec show ?thesis by (auto simp: persistent_name_def)
qed

theorem kv_secrets_never_on_disk_witness:
  "snapshot_path (secretNamespace ''user'') \<notin>
     fst ` set (disk (fst (store_write (newStore (Some [])) (secretNamespace ''user'') ''token'' (1 :: nat) 0)))"
proof -
  have "wf_disk ([] :: (string \<times> nat keyspace option) list)" by (simp add: wf_disk_def)
  from kv_secrets_never_on_disk [OF this run_step [OF run_refl step_set] disjI1 [OF refl]]
  show ?thesis by blast
qed

text \<open>
  No write is stranded in memory: while the store runs, a dirty namespace always has a
  flush on its way (a pending nudge, or a flusher that has already taken the nudge).
\<close>

theorem kv_no_lost_wakeup:
  assumes "wf_disk d" and "store_run (newStore (Some d)) s" and "dirty s \<noteq> []" and "\<not> closed s"
  shows "wake s \<or> flusher_at s = FDelay"
proof -
  have inv: "kv_inv s" using kv_inv_run [OF assms(2)] kv_inv_new(1) [OF assms(1)] by blast
  have "persists s (hd (dirty s))" using kv_invD(3) [OF inv] assms(3) by simp
  then have "snap s" by (simp add: persists_def)
  then show ?thesis using kv_invE(3,4) [OF inv] assms(3,4) by (cases "flusher_at s") auto
qed

theorem kv_no_lost_wakeup_witness:
  "wake (fst (store_write (newStore (Some [])) ''user'' ''k'' (1 :: nat) 0)) \<or>
   flusher_at (fst (store_write (newStore (Some [])) ''user'' ''k'' (1 :: nat) 0)) = FDelay"
proof -
  let ?s = "fst (store_write (newStore (Some [])) ''user'' ''k'' (1 :: nat) 0)"
  have d: "dirty ?s \<noteq> []" and c: "\<not> closed ?s"
    by (simp_all add: store_write_def newStore_def keyspace_def load_def Let_def touch_def persists_def
        IsVolatileNamespace_def IsSecretNamespace_def namespace_defs has_suffix_def)
  have wf: "wf_disk ([] :: (string \<times> nat keyspace option) list)" by (simp add: wf_disk_def)
  show ?thesis by (rule kv_no_lost_wakeup [OF wf run_step [OF run_refl step_set] d c])
qed

text \<open>
  File names round-trip: every namespace is read back from the name of its snapshot
  file, so two namespaces never share a file.
\<close>

theorem kv_file_names_roundtrip:
  "decodeName (trim_suffix (snapshot_path n) snapshotExt) = n \<and>
   (snapshot_path n = snapshot_path m \<longleftrightarrow> n = m)"
  by (simp add: trim_path decode_encodeName snapshot_path_inj)

end
