(* ===== verification/Octo_Cache.thy ===== *)
theory Octo_Cache
  imports Octo_Semantics Octo_KV
begin

text \<open>
  The \<^verbatim>\<open>cache-scope\<close> and \<^verbatim>\<open>invalidate-cache\<close> blocks
  (\<^verbatim>\<open>runtime/blocks/controlflow/cache.go\<close>), clients of the versioned store.

  A JSON text is represented by the tree it decodes to. \<open>hash\<close> stands for the hexadecimal SHA-256 digest and \<open>render\<close> for
  the text \<^verbatim>\<open>json.Marshal\<close> gives a non-string key value.
\<close>

section \<open>Keys\<close>

definition EvalString ::
  "(gval \<Rightarrow> string) \<Rightarrow> 'w program \<Rightarrow> 'w \<Rightarrow> message \<Rightarrow> (err, string) res" where
  "EvalString render p w m =
     (case p w m of
        Inl e \<Rightarrow> Inl e
      | Inr (GStr s) \<Rightarrow> Inr s
      | Inr v \<Rightarrow> Inr (render v))"

text \<open>The rest of the world a block of this kind reaches: the store and the clock.\<close>

record kv_world = obs_world +
  kv :: "gval store"
  clock :: int

section \<open>The blocks\<close>

definition defaultCacheTTL :: int where
  "defaultCacheTTL = 60 * 1000000000"

text \<open>
  The envelope \<^verbatim>\<open>{"expiresAt": n, "body": doc}\<close>. Decoding it into the struct fails
  on a document of another shape; a missing body leaves an empty \<^verbatim>\<open>RawMessage\<close>,
  which no JSON decoder accepts.
\<close>

definition cacheEnvelope :: "int \<Rightarrow> gval \<Rightarrow> gval" where
  "cacheEnvelope expiresAt body = GMap [(''expiresAt'', GInt64 expiresAt), (''body'', body)]"

definition decodeFreshEnvelope :: "int \<Rightarrow> gval \<Rightarrow> gval option" where
  "decodeFreshEnvelope now value =
     (case value of
        GMap kvs \<Rightarrow>
          (case map_of kvs ''expiresAt'' of
             Some (GInt64 e) \<Rightarrow>
               if e \<noteq> 0 \<and> now \<ge> e then None else map_of kvs ''body''
           | None \<Rightarrow> map_of kvs ''body''
           | _ \<Rightarrow> None)
      | _ \<Rightarrow> None)"

definition cache_store :: "int \<Rightarrow> string \<Rightarrow> int \<Rightarrow> message \<Rightarrow> 'a kv_world_scheme \<Rightarrow> 'a kv_world_scheme" where
  "cache_store ttl key expectedVersion out w =
     (case BodyJSON out of
        Inl _ \<Rightarrow> w
      | Inr body \<Rightarrow>
          (case Marshal (cacheEnvelope (if ttl > 0 then clock w + ttl else 0) body) of
             None \<Rightarrow> w
           | Some encoded \<Rightarrow>
               w\<lparr>kv := fst (store_write (kv w) NamespaceUserVolatile key encoded expectedVersion)\<rparr>))"

definition cache_process ::
  "(string \<Rightarrow> string) \<Rightarrow> (gval \<Rightarrow> string) \<Rightarrow> ('a kv_world_scheme) program \<Rightarrow> int \<Rightarrow>
   ('a kv_world_scheme) processor \<Rightarrow> ('a kv_world_scheme) processor" where
  "cache_process hash render keyExpr ttl body c w a =
     (case EvalString render keyExpr w (heap w a) of
        Inl e \<Rightarrow> (w, Failed (Wrap ''cache-scope key'' e))
      | Inr keyValue \<Rightarrow>
          let key = hash keyValue;
              entry = Get (kv w) NamespaceUserVolatile key;
              hit = (case entry of
                       None \<Rightarrow> None
                     | Some e \<Rightarrow>
                         (case decodeFreshEnvelope (clock w) (Value e) of
                            None \<Rightarrow> None
                          | Some cached \<Rightarrow>
                              (case SetBodyDoc cached (heap w a) of Inl _ \<Rightarrow> None | Inr m \<Rightarrow> Some m)))
          in case hit of
               Some m \<Rightarrow> (upd w a (\<lambda>_. m), Out a)
             | None \<Rightarrow>
                 (case body c w a of
                    (w1, Out o') \<Rightarrow>
                      if StopRequested (heap w1 o') then (w1, Out o')
                      else (cache_store ttl key (case entry of None \<Rightarrow> 0 | Some e \<Rightarrow> Version e)
                              (heap w1 o') w1, Out o')
                  | x \<Rightarrow> x))"

definition kv_error_text :: "kv_error \<Rightarrow> err" where
  "kv_error_text e = (case e of ErrVersionConflict \<Rightarrow> Err ''kv: object version conflict''
                             | ErrNoKV \<Rightarrow> Err ''kv: no store configured'')"

definition invalidate_process ::
  "(string \<Rightarrow> string) \<Rightarrow> (gval \<Rightarrow> string) \<Rightarrow> ('a kv_world_scheme) program \<Rightarrow>
   ('a kv_world_scheme) processor" where
  "invalidate_process hash render keyExpr c w a =
     (case EvalString render keyExpr w (heap w a) of
        Inl e \<Rightarrow> (w, Failed (Wrap ''invalidate-cache key'' e))
      | Inr keyValue \<Rightarrow>
          (case Delete (kv w) NamespaceUserVolatile (hash keyValue) 0 of
             (s, Inl e) \<Rightarrow> (w\<lparr>kv := s\<rparr>, Failed (Wrap (''invalidate-cache '' @ quote keyValue) (kv_error_text e)))
           | (s, Inr _) \<Rightarrow> (w\<lparr>kv := s\<rparr>, Out a)))"

section \<open>Properties\<close>

text \<open>The fresh body under a key, if there is one.\<close>

definition cached_body :: "'a kv_world_scheme \<Rightarrow> string \<Rightarrow> gval option" where
  "cached_body w key =
     (case Get (kv w) NamespaceUserVolatile key of
        None \<Rightarrow> None
      | Some e \<Rightarrow> (case decodeFreshEnvelope (clock w) (Value e) of
                    None \<Rightarrow> None | Some d \<Rightarrow> Unmarshal d))"

lemma cache_hit:
  assumes "EvalString render keyExpr w (heap w a) = Inr k" and "cached_body w (hash k) = Some v"
  shows "cache_process hash render keyExpr ttl body c w a = (upd w a (SetBody v), Out a)"
  using assms
  by (auto simp: cache_process_def cached_body_def SetBodyDoc_def Let_def upd_def split: option.splits)

lemma cache_miss:
  assumes "EvalString render keyExpr w (heap w a) = Inr k" and "cached_body w (hash k) = None"
    and "body c w a = (w1, Out o')" and "\<not> StopRequested (heap w1 o')"
  shows "cache_process hash render keyExpr ttl body c w a =
    (cache_store ttl (hash k) (current (kv w) NamespaceUserVolatile (hash k)) (heap w1 o') w1, Out o')"
  using assms
  by (auto simp: cache_process_def cached_body_def SetBodyDoc_def Let_def current_def split: option.splits)

lemma cache_store_reads_back:
  assumes "encodable (Body m)" and "nesting (Body m) \<le> maxCopyDepth"
    and "current (kv w) NamespaceUserVolatile key = ev" and "w' = cache_store ttl key ev m w"
    and "kv w2 = kv w'" and "ttl > 0 \<Longrightarrow> clock w2 < clock w + ttl"
    and "0 < clock w"
  shows "cached_body w2 key = Some (json_normal (Body m))"
proof -
  let ?e = "cacheEnvelope (if ttl > 0 then clock w + ttl else 0) (Body m)"
  have "kv w' = fst (store_write (kv w) NamespaceUserVolatile key ?e ev)"
    using assms(1,4) by (simp add: cache_store_def BodyJSON_def Marshal_def cacheEnvelope_def)
  then have "Get (kv w2) NamespaceUserVolatile key = Some \<lparr>Value = ?e, Version = ev + 1\<rparr>"
    using assms(3,5) by (simp add: Get_write)
  moreover have "decodeFreshEnvelope (clock w2) ?e = Some (Body m)"
    using assms(6,7) by (auto simp: decodeFreshEnvelope_def cacheEnvelope_def)
  ultimately show ?thesis using assms(1,2) by (simp add: cached_body_def Unmarshal_def)
qed

text \<open>
  Memoisation: when a cache-scope ran its body and nothing else wrote the key meanwhile,
  then until the entry expires every cache-scope that computes the same key returns the JSON
  form of that body without running its own sub-flow, whatever that sub-flow is.
\<close>

theorem cache_scope_memoizes:
  assumes "EvalString render keyExpr w (heap w a) = Inr k" and "cached_body w (hash k) = None"
    and "body c w a = (w1, Out b)" and "\<not> StopRequested (heap w1 b)"
    and "encodable (Body (heap w1 b))" and "nesting (Body (heap w1 b)) \<le> maxCopyDepth"
    and "current (kv w1) NamespaceUserVolatile (hash k) = current (kv w) NamespaceUserVolatile (hash k)"
    and "0 < clock w1"
    and "cache_process hash render keyExpr ttl body c w a = (w', r)"
    and "kv w2 = kv w'" and "ttl > 0 \<Longrightarrow> clock w2 < clock w1 + ttl"
    and "EvalString render keyExpr' w2 (heap w2 a2) = Inr k"
  shows "r = Out b \<and> Body (heap w' b) = Body (heap w1 b) \<and>
    cache_process hash render keyExpr' ttl' other c' w2 a2 =
      (upd w2 a2 (SetBody (json_normal (Body (heap w1 b)))), Out a2)"
proof -
  have w': "w' = cache_store ttl (hash k) (current (kv w) NamespaceUserVolatile (hash k)) (heap w1 b) w1"
    and r: "r = Out b"
    using cache_miss [where hash = hash and body = body and c = c, OF assms(1-4), of ttl] assms(9)
    by simp_all
  have "heap w' = heap w1"
    unfolding w' by (simp add: cache_store_def split: sum.split option.split)
  moreover have "cached_body w2 (hash k) = Some (json_normal (Body (heap w1 b)))"
    using cache_store_reads_back [OF assms(5,6,7) w' assms(10,11,8)] by simp
  ultimately show ?thesis using cache_hit [where hash = hash, OF assms(12)] r by simp
qed

definition sample_kv_world :: kv_world where
  "sample_kv_world =
     \<lparr>heap = (\<lambda>_. sample_message), hp = 1, entropy = [], deliveries = [], panic_count = 0,
      kv = newStore None, clock = 5\<rparr>"

theorem cache_scope_memoizes_witness:
  "let body = set_payload (\<lambda>_ _. Inr (GInt 3)) False []; w = sample_kv_world;
       w' = fst (cache_process id (\<lambda>_. []) (\<lambda>_ _. Inr (GStr ''k'')) 10 body (Ctx False) w 0)
   in cache_process id (\<lambda>_. []) (\<lambda>_ _. Inr (GStr ''k'')) 10 (\<lambda>c w a. (w, Dropped)) (Ctx False) (w'\<lparr>clock := 14\<rparr>) 0 =
        (upd (w'\<lparr>clock := 14\<rparr>) 0 (SetBody (GFloat 3)), Out 0)"
proof -
  let ?body = "set_payload (\<lambda>_ _. Inr (GInt 3)) False [] :: kv_world processor"
  let ?w = sample_kv_world let ?k = "\<lambda>_ _. Inr (GStr ''k'') :: (err, gval) res"
  let ?w1 = "upd ?w 0 (SetBody (GInt 3))"
  let ?w' = "fst (cache_process id (\<lambda>_. []) ?k 10 ?body (Ctx False) ?w 0)"
  obtain r where run: "cache_process id (\<lambda>_. []) ?k 10 ?body (Ctx False) ?w 0 = (?w', r)"
    by (metis prod.collapse)
  have key: "EvalString (\<lambda>_. []) ?k w m = Inr ''k''" for w :: kv_world and m by (simp add: EvalString_def)
  have miss: "cached_body ?w (id ''k'') = None"
    by (simp add: cached_body_def sample_kv_world_def Get_new)
  have b: "?body (Ctx False) ?w 0 = (?w1, Out 0)" by (simp add: set_payload_def)
  have f: "\<not> StopRequested (heap ?w1 0)" "encodable (Body (heap ?w1 0))"
    "nesting (Body (heap ?w1 0)) \<le> maxCopyDepth" "kv ?w1 = kv ?w" "clock ?w1 = 5"
    by (simp_all add: sample_kv_world_def upd_def StopRequested_def sample_message_def var_Bool_def SetBody_def)
  have "current (kv ?w1) NamespaceUserVolatile (id ''k'') = current (kv ?w) NamespaceUserVolatile (id ''k'')"
    using f(4) by simp
  from cache_scope_memoizes [where hash = id and body = ?body and c = "Ctx False",
      OF key miss b f(1-3) this _ run, of "?w'\<lparr>clock := 14\<rparr>", OF _ _ _ key]
  show ?thesis using f(5) by (simp add: Let_def float64_of_int_exact)
qed

text \<open>
  A result that requested stop, a drop and a failure are never cached: the store is as
  the body left it.
\<close>

theorem cache_scope_skips_partial:
  assumes "EvalString render keyExpr w (heap w a) = Inr k" and "cached_body w (hash k) = None"
    and "body c w a = (wb, rb)" and "\<forall>b. rb = Out b \<longrightarrow> StopRequested (heap wb b)"
  shows "cache_process hash render keyExpr ttl body c w a = (wb, rb)"
  using assms
  by (cases rb) (auto simp: cache_process_def cached_body_def SetBodyDoc_def Let_def split: option.splits)

theorem cache_scope_skips_partial_witness:
  "kv (fst (cache_process id (\<lambda>_. []) (\<lambda>_ _. Inr (GStr ''k'')) 10 (applyTakeover None) (Ctx False) sample_kv_world 0))
     = newStore None"
  using cache_scope_skips_partial [where render = "\<lambda>_. []" and keyExpr = "\<lambda>_ _. Inr (GStr ''k'')"
      and w = sample_kv_world and a = 0 and k = "''k''" and hash = id and body = "applyTakeover None"
      and c = "Ctx False" and wb = "upd sample_kv_world 0 RequestStop" and rb = "Out 0" and ttl = 10]
  by (simp add: EvalString_def cached_body_def applyTakeover_def sample_kv_world_def Get_new upd_def)

text \<open>
  Eviction: after \<^verbatim>\<open>invalidate-cache\<close> on a key, a cache-scope that computes
  the same key runs its body again; entries under other keys are untouched.
\<close>

theorem invalidate_cache_evicts:
  assumes "EvalString render keyExpr w (heap w a) = Inr k"
  shows "\<exists>w'. invalidate_process hash render keyExpr c w a = (w', Out a) \<and> heap w' = heap w \<and>
     cached_body w' (hash k) = None \<and>
     (\<forall>key. key \<noteq> hash k \<longrightarrow> cached_body w' key = cached_body w key)"
proof -
  obtain s u where d: "Delete (kv w) NamespaceUserVolatile (hash k) 0 = (s, Inr u)"
    using Get_Delete(2) [of "kv w" NamespaceUserVolatile "hash k" 0] by (metis prod.collapse)
  have "Get s NamespaceUserVolatile key = (if key = hash k then None else Get (kv w) NamespaceUserVolatile key)" for key
    using Get_Delete(1) [of "kv w" NamespaceUserVolatile "hash k" 0 NamespaceUserVolatile key] d by simp
  then show ?thesis using assms d
    by (intro exI [of _ "w\<lparr>kv := s\<rparr>"]) (auto simp: invalidate_process_def cached_body_def split: option.split)
qed

theorem invalidate_cache_evicts_witness:
  "\<exists>w'. invalidate_process id (\<lambda>_. []) (\<lambda>_ _. Inr (GStr ''k'')) (Ctx False) sample_kv_world 0 = (w', Out 0) \<and>
     cached_body w' ''k'' = None"
  using invalidate_cache_evicts [where render = "\<lambda>_. []" and keyExpr = "\<lambda>_ _. Inr (GStr ''k'')"
      and w = sample_kv_world and a = 0 and k = "''k''" and hash = id and c = "Ctx False"]
  by (auto simp: EvalString_def)

end
