(* ===== verification/Octo_Leases.thy ===== *)
theory Octo_Leases
  imports Octo_Prelude
begin

text \<open>
  Fail-fast leases: the configuration of \<^verbatim>\<open>runtime/core/lease.go\<close> and the
  standalone implementation \<^verbatim>\<open>runtime/services/standalone/leases.go\<close>.

  Claims are objects that outlive their place in the table, so they live in a store of their
  own: \<open>claims s i\<close> is the claim with number \<open>i\<close>. Every operation takes the one
  mutex for its whole body, so operations are the steps; time passes between them. Durations
  and instants are in nanoseconds.
\<close>

section \<open>Configuration\<close>

definition DefaultLeaseTTL :: int where
  "DefaultLeaseTTL = 30 * 1000000000"

definition MinLeaseTTL :: int where
  "MinLeaseTTL = 1000000000"

text \<open>Each option sets the TTL.\<close>

definition NewLeaseConfig :: "int list \<Rightarrow> int" where
  "NewLeaseConfig opts =
     (let ttl = fold (\<lambda>d _. d) opts DefaultLeaseTTL in
      if ttl \<le> 0 then DefaultLeaseTTL else if ttl < MinLeaseTTL then MinLeaseTTL else ttl)"

definition renewDivisor :: int where
  "renewDivisor = 3"

section \<open>Claims\<close>

record heldLease =
  name :: string
  deadline :: int
  lost :: bool

record leases =
  claims :: "nat \<Rightarrow> heldLease"
  next_claim :: nat
  held :: "string \<rightharpoonup> nat"
  now :: int

definition newLeases :: "int \<Rightarrow> leases" where
  "newLeases t =
     \<lparr>claims = (\<lambda>_. \<lparr>name = [], deadline = 0, lost = True\<rparr>), next_claim = 0, held = Map.empty, now = t\<rparr>"

definition loseLocked :: "nat \<Rightarrow> leases \<Rightarrow> leases" where
  "loseLocked i s =
     (if lost (claims s i) then s
      else s\<lparr>claims := (claims s)(i := (claims s i)\<lparr>lost := True\<rparr>)\<rparr>)"

definition grant :: "string \<Rightarrow> int \<Rightarrow> leases \<Rightarrow> leases \<times> nat option" where
  "grant n ttl s =
     (let i = next_claim s in
      (s\<lparr>claims := (claims s)(i := \<lparr>name = n, deadline = now s + ttl, lost = False\<rparr>),
         next_claim := Suc i, held := (held s)(n \<mapsto> i)\<rparr>, Some i))"

definition Acquire :: "string \<Rightarrow> int list \<Rightarrow> leases \<Rightarrow> leases \<times> nat option" where
  "Acquire n opts s =
     (let ttl = NewLeaseConfig opts in
      case held s n of
        Some i \<Rightarrow>
          if now s < deadline (claims s i) then (s, None) else grant n ttl (loseLocked i s)
      | None \<Rightarrow> grant n ttl s)"

definition Close :: "nat \<Rightarrow> leases \<Rightarrow> leases" where
  "Close i s =
     loseLocked i (if held s (name (claims s i)) = Some i
                   then s\<lparr>held := (held s)(name (claims s i) := None)\<rparr> else s)"

text \<open>
  \<open>renew_tick i ttl\<close> is one tick of the renewal goroutine: \<^verbatim>\<open>extend\<close> by the
  interval times the divisor, where the interval is a third of the TTL.
\<close>

definition extend :: "nat \<Rightarrow> int \<Rightarrow> leases \<Rightarrow> leases \<times> bool" where
  "extend i ttl s =
     (if lost (claims s i) then (s, False)
      else (s\<lparr>claims := (claims s)(i := (claims s i)\<lparr>deadline := now s + ttl\<rparr>)\<rparr>, True))"

definition renew_tick :: "nat \<Rightarrow> int \<Rightarrow> leases \<Rightarrow> leases \<times> bool" where
  "renew_tick i ttl s = extend i (ttl div renewDivisor * renewDivisor) s"

definition closeAll :: "leases \<Rightarrow> leases" where
  "closeAll s =
     s\<lparr>claims := (\<lambda>i. if held s (name (claims s i)) = Some i then (claims s i)\<lparr>lost := True\<rparr> else claims s i),
       held := Map.empty\<rparr>"

section \<open>Steps and the invariant\<close>

inductive lease_step :: "leases \<Rightarrow> leases \<Rightarrow> bool" where
  lease_acquire: "Acquire n opts s = (t, r) \<Longrightarrow> lease_step s t"
| lease_close: "i < next_claim s \<Longrightarrow> lease_step s (Close i s)"
| lease_renew: "i < next_claim s \<Longrightarrow> renew_tick i ttl s = (t, b) \<Longrightarrow> lease_step s t"
| lease_close_all: "lease_step s (closeAll s)"
| lease_tick: "0 \<le> d \<Longrightarrow> lease_step s (s\<lparr>now := now s + d\<rparr>)"

inductive lease_reach :: "leases \<Rightarrow> leases \<Rightarrow> bool" where
  reach_refl: "lease_reach s s"
| reach_step: "lease_reach s t \<Longrightarrow> lease_step t u \<Longrightarrow> lease_reach s u"

text \<open>
  A claim is not lost exactly when the table points to it, so the table decides who holds a
  name.
\<close>

definition lease_inv :: "leases \<Rightarrow> bool" where
  "lease_inv s \<longleftrightarrow>
     (\<forall>i < next_claim s. \<not> lost (claims s i) \<longrightarrow> held s (name (claims s i)) = Some i) \<and>
     (\<forall>n i. held s n = Some i \<longrightarrow> i < next_claim s \<and> name (claims s i) = n \<and> \<not> lost (claims s i))"

lemma lease_invI:
  assumes "\<And>i. i < next_claim s \<Longrightarrow> \<not> lost (claims s i) \<Longrightarrow> held s (name (claims s i)) = Some i"
    and "\<And>n i. held s n = Some i \<Longrightarrow> i < next_claim s \<and> name (claims s i) = n \<and> \<not> lost (claims s i)"
  shows "lease_inv s"
  using assms by (simp add: lease_inv_def)

lemma lease_inv_held:
  "lease_inv s \<Longrightarrow> i < next_claim s \<Longrightarrow> \<not> lost (claims s i) \<Longrightarrow> held s (name (claims s i)) = Some i"
  by (simp add: lease_inv_def)

lemma lease_inv_claim:
  "lease_inv s \<Longrightarrow> held s n = Some i \<Longrightarrow> i < next_claim s \<and> name (claims s i) = n \<and> \<not> lost (claims s i)"
  by (simp add: lease_inv_def)

lemma lease_inv_new: "lease_inv (newLeases t)"
  by (simp add: lease_inv_def newLeases_def)

lemma loseLocked_simps [simp]:
  "claims (loseLocked i s) j = (if j = i then (claims s i)\<lparr>lost := True\<rparr> else claims s j)"
  "next_claim (loseLocked i s) = next_claim s" "held (loseLocked i s) = held s" "now (loseLocked i s) = now s"
  by (auto simp: loseLocked_def)

lemma grant_simps [simp]:
  "claims (fst (grant n ttl s)) j =
     (if j = next_claim s then \<lparr>name = n, deadline = now s + ttl, lost = False\<rparr> else claims s j)"
  "next_claim (fst (grant n ttl s)) = Suc (next_claim s)"
  "held (fst (grant n ttl s)) = (held s)(n \<mapsto> next_claim s)"
  "snd (grant n ttl s) = Some (next_claim s)"
  by (simp_all add: grant_def Let_def)

lemma Close_simps [simp]:
  "claims (Close i s) j = (if j = i then (claims s i)\<lparr>lost := True\<rparr> else claims s j)"
  "next_claim (Close i s) = next_claim s" "now (Close i s) = now s"
  "held (Close i s) = (if held s (name (claims s i)) = Some i
                       then (held s)(name (claims s i) := None) else held s)"
  by (simp_all add: Close_def)

lemma lease_inv_unique:
  "lease_inv s \<Longrightarrow> i < next_claim s \<Longrightarrow> j < next_claim s \<Longrightarrow> \<not> lost (claims s i) \<Longrightarrow> \<not> lost (claims s j) \<Longrightarrow>
   name (claims s i) = name (claims s j) \<Longrightarrow> i = j"
  by (metis lease_inv_held option.inject)

text \<open>The state a grant starts from: the name is free, or its holder was just told.\<close>

lemma lease_inv_grant:
  assumes inv: "lease_inv s"
    and s': "s' = (case held s n of None \<Rightarrow> s | Some i \<Rightarrow> loseLocked i s)"
  shows "lease_inv (fst (grant n ttl s'))"
proof (rule lease_invI)
  have c: "next_claim s' = next_claim s" "held s' = held s"
    "\<And>i. claims s' i = (if held s n = Some i then (claims s i)\<lparr>lost := True\<rparr> else claims s i)"
    by (auto simp: s' split: option.splits)
  fix i assume i: "i < next_claim (fst (grant n ttl s'))" "\<not> lost (claims (fst (grant n ttl s')) i)"
  show "held (fst (grant n ttl s')) (name (claims (fst (grant n ttl s')) i)) = Some i"
  proof (cases "i = next_claim s")
    case False
    with i c have l: "i < next_claim s" "\<not> lost (claims s i)" "held s n \<noteq> Some i" by (auto split: if_splits)
    with lease_inv_held [OF inv l(1,2)] False c show ?thesis by auto
  qed (simp add: c)
next
  have c: "next_claim s' = next_claim s" "held s' = held s"
    "\<And>i. claims s' i = (if held s n = Some i then (claims s i)\<lparr>lost := True\<rparr> else claims s i)"
    by (auto simp: s' split: option.splits)
  fix m i assume h: "held (fst (grant n ttl s')) m = Some i"
  show "i < next_claim (fst (grant n ttl s')) \<and> name (claims (fst (grant n ttl s')) i) = m \<and>
      \<not> lost (claims (fst (grant n ttl s')) i)"
  proof (cases "m = n")
    case False
    with h c have m: "held s m = Some i" by simp
    then have "held s n \<noteq> Some i" using lease_inv_claim [OF inv] False by metis
    then show ?thesis using lease_inv_claim [OF inv m] c by auto
  qed (use h c in auto)
qed

lemma Acquire_cases:
  "Acquire n opts s =
     (if \<exists>i. held s n = Some i \<and> now s < deadline (claims s i) then (s, None)
      else grant n (NewLeaseConfig opts) (case held s n of None \<Rightarrow> s | Some i \<Rightarrow> loseLocked i s))"
  by (auto simp: Acquire_def Let_def split: option.splits)

lemma lease_inv_Acquire: "lease_inv s \<Longrightarrow> lease_inv (fst (Acquire n opts s))"
  unfolding Acquire_cases by (simp add: lease_inv_grant)

lemma lease_inv_Close:
  assumes "lease_inv s"
  shows "lease_inv (Close i s)"
proof (rule lease_invI)
  fix j assume j: "j < next_claim (Close i s)" "\<not> lost (claims (Close i s) j)"
  then have "j \<noteq> i" "held s (name (claims s j)) = Some j"
    using lease_inv_held [OF assms, of j] by (auto split: if_splits)
  then show "held (Close i s) (name (claims (Close i s) j)) = Some j" by auto
next
  fix n j assume "held (Close i s) n = Some j"
  then have h: "held s n = Some j" "j \<noteq> i"
    using lease_inv_claim [OF assms, of n j] by (auto split: if_splits)
  then show "j < next_claim (Close i s) \<and> name (claims (Close i s) j) = n \<and> \<not> lost (claims (Close i s) j)"
    using lease_inv_claim [OF assms h(1)] by simp
qed

lemma extend_simps [simp]:
  "name (claims (fst (extend i ttl s)) j) = name (claims s j)"
  "lost (claims (fst (extend i ttl s)) j) = lost (claims s j)"
  "next_claim (fst (extend i ttl s)) = next_claim s" "held (fst (extend i ttl s)) = held s"
  by (simp_all add: extend_def)

lemma lease_inv_extend: "lease_inv s \<Longrightarrow> lease_inv (fst (extend i ttl s))"
  by (rule lease_invI) (simp_all add: lease_inv_held lease_inv_claim)

lemma lease_inv_closeAll: "lease_inv s \<Longrightarrow> lease_inv (closeAll s)"
  by (rule lease_invI) (auto simp: closeAll_def lease_inv_held split: if_splits)

lemma lease_inv_tick: "lease_inv s \<Longrightarrow> lease_inv (s\<lparr>now := t\<rparr>)"
  by (simp add: lease_inv_def)

lemma lease_inv_step: "lease_step s t \<Longrightarrow> lease_inv s \<Longrightarrow> lease_inv t"
proof (induction rule: lease_step.induct)
  case (lease_acquire n opts s t r)
  then show ?case using lease_inv_Acquire [of s n opts] by simp
next
  case (lease_renew i s ttl t b)
  then show ?case using lease_inv_extend [of s i "ttl div renewDivisor * renewDivisor"]
    by (simp add: renew_tick_def)
qed (simp_all add: lease_inv_Close lease_inv_closeAll lease_inv_tick)

lemma lease_inv_reach: "lease_reach s t \<Longrightarrow> lease_inv s \<Longrightarrow> lease_inv t"
  by (induction rule: lease_reach.induct) (auto dest: lease_inv_step)

section \<open>Properties\<close>

text \<open>
  C36. Mutual exclusion: in every reachable state at most one claim on a name has not been
  told it is lost, through acquiring, closing (twice, or after the claim expired), renewing,
  shutting down and the passage of time.
\<close>

theorem lease_mutual_exclusion:
  assumes "lease_reach (newLeases t0) s" and "i < next_claim s" and "j < next_claim s"
    and "\<not> lost (claims s i)" and "\<not> lost (claims s j)" and "name (claims s i) = name (claims s j)"
  shows "i = j"
  using lease_inv_unique [OF lease_inv_reach [OF assms(1) lease_inv_new] assms(2-)] .

theorem lease_mutual_exclusion_witness:
  "name (claims (fst (Acquire ''n'' [] (fst (Acquire ''m'' [] (newLeases 0))))) 0) \<noteq>
   name (claims (fst (Acquire ''n'' [] (fst (Acquire ''m'' [] (newLeases 0))))) 1)"
proof -
  let ?s1 = "fst (Acquire ''m'' [] (newLeases 0))"
  let ?s = "fst (Acquire ''n'' [] ?s1)"
  have "lease_reach (newLeases 0) ?s1"
    by (rule reach_step [OF reach_refl lease_acquire [of "''m''" "[]" _ _ "snd (Acquire ''m'' [] (newLeases 0))"]]) simp
  then have r: "lease_reach (newLeases 0) ?s"
    by (rule reach_step [OF _ lease_acquire [of "''n''" "[]" _ _ "snd (Acquire ''n'' [] ?s1)"]]) simp
  have "next_claim ?s = 2" "\<not> lost (claims ?s 0)" "\<not> lost (claims ?s 1)"
    by (simp_all add: Acquire_def newLeases_def grant_def Let_def)
  then show ?thesis using lease_mutual_exclusion [OF r, of 0 1] by auto
qed

text \<open>
  Acquire answers at once and definitively: it refuses exactly when a claim on the name
  has not reached its deadline; otherwise it hands out a fresh claim, after telling the
  displaced one, and the configured TTL is at least the minimum.
\<close>

theorem lease_acquire_decides:
  assumes "lease_inv s" and "Acquire n opts s = (t, r)"
  shows "MinLeaseTTL \<le> NewLeaseConfig opts \<and>
    (if \<exists>i < next_claim s. \<not> lost (claims s i) \<and> name (claims s i) = n \<and> now s < deadline (claims s i)
     then r = None \<and> t = s
     else r = Some (next_claim s) \<and> held t n = r \<and>
          deadline (claims t (next_claim s)) = now s + NewLeaseConfig opts \<and>
          (\<forall>i < next_claim s. name (claims s i) = n \<longrightarrow> lost (claims t i)) \<and>
          (\<forall>i < next_claim s. name (claims s i) \<noteq> n \<longrightarrow> claims t i = claims s i))"
proof -
  have ttl: "MinLeaseTTL \<le> NewLeaseConfig opts"
    by (simp add: NewLeaseConfig_def Let_def MinLeaseTTL_def DefaultLeaseTTL_def)
  have iff: "(\<exists>i < next_claim s. \<not> lost (claims s i) \<and> name (claims s i) = n \<and> now s < deadline (claims s i))
      \<longleftrightarrow> (\<exists>i. held s n = Some i \<and> now s < deadline (claims s i))"
    using lease_inv_held [OF assms(1)] lease_inv_claim [OF assms(1)] by blast
  let ?s' = "case held s n of None \<Rightarrow> s | Some i \<Rightarrow> loseLocked i s"
  have c: "next_claim ?s' = next_claim s" "now ?s' = now s"
    "\<And>i. claims ?s' i = (if held s n = Some i then (claims s i)\<lparr>lost := True\<rparr> else claims s i)"
    by (auto split: option.splits)
  have told: "lost (claims ?s' i)" if "i < next_claim s" "name (claims s i) = n" for i
    using lease_inv_held [OF assms(1) that(1)] that(2) by (auto simp: c(3))
  have other: "claims ?s' i = claims s i" if "name (claims s i) \<noteq> n" for i
    using lease_inv_claim [OF assms(1), of n i] that by (auto simp: c(3))
  show ?thesis
  proof (cases "\<exists>i. held s n = Some i \<and> now s < deadline (claims s i)")
    case True
    then have "r = None \<and> t = s" using assms(2) by (auto simp: Acquire_cases)
    then show ?thesis using ttl True iff by simp
  next
    case False
    have g: "(t, r) = grant n (NewLeaseConfig opts) ?s'"
      using assms(2) unfolding Acquire_cases if_not_P [OF False] by (rule sym)
    have t: "t = fst (grant n (NewLeaseConfig opts) ?s')" using arg_cong [OF g, of fst] by simp
    have "r = Some (next_claim s)" using arg_cong [OF g, of snd] c(1) by simp
    with t show ?thesis using ttl False iff c(1,2) told other by simp
  qed
qed

theorem lease_acquire_decides_witness:
  "Acquire ''m'' [] (fst (Acquire ''m'' [5000000000] (newLeases 0))) =
     (fst (Acquire ''m'' [5000000000] (newLeases 0)), None)"
proof -
  let ?s = "fst (Acquire ''m'' [5000000000] (newLeases 0))"
  have "\<not> lost (claims ?s 0)" "name (claims ?s 0) = ''m''" "now ?s < deadline (claims ?s 0)" "0 < next_claim ?s"
    by (simp_all add: Acquire_def newLeases_def grant_def Let_def NewLeaseConfig_def MinLeaseTTL_def)
  then have "\<exists>i < next_claim ?s. \<not> lost (claims ?s i) \<and> name (claims ?s i) = ''m'' \<and> now ?s < deadline (claims ?s i)"
    by blast
  then show ?thesis
    using lease_acquire_decides [OF lease_inv_Acquire [OF lease_inv_new], of "''m''" "[]" "''m''" "[5000000000]" 0
        "fst (Acquire ''m'' [] ?s)" "snd (Acquire ''m'' [] ?s)"]
    by (metis prod.collapse)
qed

text \<open>
  Releasing is idempotent and never evicts a successor: closing a claim ends that claim
  and frees the name only if the claim still held it; every other claim, and what the table
  says of other claims, is unchanged; closing again changes nothing.
\<close>

theorem lease_close_safe:
  shows "lost (claims (Close i s) i) \<and> Close i (Close i s) = Close i s \<and>
    (\<forall>j < next_claim s. j \<noteq> i \<longrightarrow> claims (Close i s) j = claims s j \<and>
       (\<forall>n. held s n = Some j \<longrightarrow> held (Close i s) n = Some j))"
proof -
  have "Close i (Close i s) = Close i s"
    by (simp add: Close_def [of i "Close i s"] loseLocked_def)
  moreover have "held (Close i s) n = Some j" if "held s n = Some j" "j \<noteq> i" for n j
    using that by auto
  ultimately show ?thesis by simp
qed

theorem lease_close_safe_witness:
  "Close 0 (Close 0 (fst (Acquire ''m'' [] (newLeases 0)))) = Close 0 (fst (Acquire ''m'' [] (newLeases 0)))"
  using lease_close_safe [of 0 "fst (Acquire ''m'' [] (newLeases 0))"] by blast

end
