(* ===== verification/Octo_Address.thy ===== *)
theory Octo_Address
  imports Octo_Value
begin

text \<open>
  Block paths and their resolution: the grammar of \<^verbatim>\<open>runtime/core/blockpath.go\<close>,
  the resolver of \<^verbatim>\<open>runtime/core/runtime/address.go\<close>, the branches a block
  exposes (\<^verbatim>\<open>runtime/core/schema/branches.go\<close>), the decoding of a block
  (\<^verbatim>\<open>runtime/types/flow.go\<close>) and the injectors that wrap or replace the block an
  address names (\<^verbatim>\<open>spy.go\<close>, \<^verbatim>\<open>breakpoint.go\<close>, \<^verbatim>\<open>mock.go\<close>
  of \<^verbatim>\<open>runtime/core/runtime\<close>).

  The resolver walks a tree of decoded JSON and finally assigns into the slice it reached.
  That slice is part of the tree, so the model returns where it is: a list of hops from the
  root, and the index in the chain found there.
\<close>

section \<open>The grammar\<close>

definition BranchProcess :: string where "BranchProcess = ''process''"
definition BranchError :: string where "BranchError = ''error''"

definition BlockLabel :: "string \<Rightarrow> string \<Rightarrow> string \<Rightarrow> string" where
  "BlockLabel name blockType ref =
     (if name \<noteq> [] then name else if blockType \<noteq> [] then blockType else ref)"

definition MemberBranch :: "string \<Rightarrow> nat \<Rightarrow> string" where
  "MemberBranch name index = (if name \<noteq> [] then name else itoa index)"

definition JoinBlock :: "string \<Rightarrow> string \<Rightarrow> string" where
  "JoinBlock pre label = pre @ ''.'' @ label"

definition JoinBranch :: "string \<Rightarrow> string \<Rightarrow> string" where
  "JoinBranch blockPath branch = blockPath @ ''['' @ branch @ '']''"

record step =
  st_block :: string
  st_branch :: string

record address =
  ad_flow :: string
  ad_chain :: string
  ad_steps :: "step list"

subsection \<open>Parsing\<close>

definition splitBracket :: "string \<Rightarrow> (err, string \<times> string) res" where
  "splitBracket segment =
     (let (name, rest) = span_until (CHR ''['') segment in
      if rest = []
      then (if CHR '']'' \<in> set segment
            then Inl (Err (''segment '' @ quote segment @ '' has a closing bracket with no opening one''))
            else Inr (segment, []))
      else if \<not> has_suffix segment '']''
      then Inl (Err (''segment '' @ quote segment @ '' is missing its closing bracket''))
      else let bracket = butlast (tl rest) in
        if bracket = [] then Inl (Err (''segment '' @ quote segment @ '' has an empty bracket''))
        else if CHR ''['' \<in> set bracket \<or> CHR '']'' \<in> set bracket
        then Inl (Err (''segment '' @ quote segment @ '' has nested brackets; use one branch per segment''))
        else Inr (name, bracket))"

text \<open>The prefix every message of a resolver starts with.\<close>

definition at_addr :: "string \<Rightarrow> string \<Rightarrow> string" where
  "at_addr kind addr = kind @ '' '' @ quote addr"

text \<open>The loop of \<^verbatim>\<open>parseSteps\<close>, from segment number \<open>i\<close> on.\<close>

fun parseSteps :: "string \<Rightarrow> string \<Rightarrow> nat \<Rightarrow> string list \<Rightarrow> (err, step list) res" where
  "parseSteps kind addr i [] = Inr []"
| "parseSteps kind addr i (segment # segments) =
     (case splitBracket segment of
        Inl e \<Rightarrow> Inl (Wrap (at_addr kind addr) e)
      | Inr (block, branch) \<Rightarrow>
          if block = []
          then Inl (Err (at_addr kind addr @ '': segment '' @ itoa (i + 1) @ '' names no block''))
          else if segments \<noteq> [] \<and> branch = []
          then Inl (Err (at_addr kind addr @ '': block '' @ quote block @
                 '' is on the way to the target, so it needs a branch, as '' @ block @ ''[<branch>]''))
          else if segments = [] \<and> branch \<noteq> []
          then Inl (Err (at_addr kind addr @ '': the target block '' @ quote block @
                 '' must not name a branch; address a block inside it instead''))
          else (case parseSteps kind addr (i + 1) segments of
                  Inl e \<Rightarrow> Inl e
                | Inr steps \<Rightarrow> Inr (\<lparr>st_block = block, st_branch = branch\<rparr> # steps)))"

definition parseAddress :: "string \<Rightarrow> string \<Rightarrow> (err, address) res" where
  "parseAddress kind addr =
     (if blank addr then Inl (Err (kind @ '' address is empty''))
      else case split_on (CHR ''.'') addr of
        [] \<Rightarrow> Inl (Err ''unreachable'')
      | [_] \<Rightarrow> Inl (Err (at_addr kind addr @
            '': address must name a flow and at least one block, as <flow>.<block>''))
      | first # segments \<Rightarrow>
          (case splitBracket first of
             Inl e \<Rightarrow> Inl (Wrap (at_addr kind addr) e)
           | Inr (flow, chain) \<Rightarrow>
               if flow = [] then Inl (Err (at_addr kind addr @ '': address must start with a flow name''))
               else (case parseSteps kind addr 0 segments of
                       Inl e \<Rightarrow> Inl e
                     | Inr steps \<Rightarrow>
                         Inr \<lparr>ad_flow = flow, ad_chain = (if chain = [] then BranchProcess else chain),
                              ad_steps = steps\<rparr>)))"

text \<open>How a path is minted from its parts.\<close>

fun mint_steps :: "string \<Rightarrow> step list \<Rightarrow> string" where
  "mint_steps pre [] = pre"
| "mint_steps pre (s # ss) =
     (let p = JoinBlock pre (st_block s)
      in mint_steps (if ss = [] then p else JoinBranch p (st_branch s)) ss)"

definition mint :: "address \<Rightarrow> string" where
  "mint a = mint_steps (if ad_chain a = BranchProcess then ad_flow a
                        else JoinBranch (ad_flow a) (ad_chain a)) (ad_steps a)"

text \<open>
  \<^verbatim>\<open>isInside\<close> of \<^verbatim>\<open>mock.go\<close>: the outer address is a proper prefix.
\<close>

fun steps_inside :: "step list \<Rightarrow> step list \<Rightarrow> bool" where
  "steps_inside [] inner = True"
| "steps_inside (o' # outer) [] = False"
| "steps_inside (o' # outer) (i # inner) =
     (st_block o' = st_block i \<and> (outer \<noteq> [] \<longrightarrow> st_branch o' = st_branch i) \<and> steps_inside outer inner)"

definition isInside :: "address \<Rightarrow> address \<Rightarrow> bool" where
  "isInside outer inner \<longleftrightarrow>
     ad_flow outer = ad_flow inner \<and> ad_chain outer = ad_chain inner \<and>
     length (ad_steps outer) < length (ad_steps inner) \<and>
     steps_inside (ad_steps outer) (ad_steps inner)"

text \<open>\<open>others\<close> are the observing addresses with the kind that asked for each.\<close>

fun conflict_with :: "string \<Rightarrow> address \<Rightarrow> (string \<times> string) list \<Rightarrow> err option" where
  "conflict_with mocked outer [] = None"
| "conflict_with mocked outer ((kind, addr) # others) =
     (case parseAddress kind addr of
        Inl e \<Rightarrow> Some e
      | Inr inner \<Rightarrow>
          if isInside outer inner
          then Some (Err (at_addr kind addr @ '' is inside mocked block '' @ quote mocked @
                 '': the mock replaces that block, so there is nothing in there to '' @ kind))
          else conflict_with mocked outer others)"

definition mockBlockType :: string where "mockBlockType = ''mock''"
definition spyBlockType :: string where "spyBlockType = ''spy''"
definition breakpointBlockType :: string where "breakpointBlockType = ''breakpoint''"

fun checkMockConflicts :: "string list \<Rightarrow> (string \<times> string) list \<Rightarrow> err option" where
  "checkMockConflicts [] others = None"
| "checkMockConflicts (mocked # mocks) others =
     (case parseAddress mockBlockType mocked of
        Inl e \<Rightarrow> Some e
      | Inr outer \<Rightarrow>
          (case conflict_with mocked outer others of
             Some e \<Rightarrow> Some e
           | None \<Rightarrow> checkMockConflicts mocks others))"

section \<open>Trees of decoded JSON\<close>

datatype hop = Key string | Idx nat

fun get_at :: "hop list \<Rightarrow> gval \<Rightarrow> gval option" where
  "get_at [] v = Some v"
| "get_at (Key k # p) (GMap kvs) = (case map_of kvs k of None \<Rightarrow> None | Some v \<Rightarrow> get_at p v)"
| "get_at (Idx i # p) (GList vs) = (if i < length vs then get_at p (vs ! i) else None)"
| "get_at (h # p) v = None"

fun put_at :: "hop list \<Rightarrow> gval \<Rightarrow> gval \<Rightarrow> gval" where
  "put_at [] x v = x"
| "put_at (Key k # p) x (GMap kvs) =
     (case map_of kvs k of
        None \<Rightarrow> GMap kvs | Some v \<Rightarrow> GMap (AList.update k (put_at p x v) kvs))"
| "put_at (Idx i # p) x (GList vs) =
     (if i < length vs then GList (vs[i := put_at p x (vs ! i)]) else GList vs)"
| "put_at (h # p) x v = v"

lemma get_at_append: "get_at (p @ q) v = (case get_at p v of None \<Rightarrow> None | Some x \<Rightarrow> get_at q x)"
  by (induction p v rule: get_at.induct) (auto split: option.splits)

lemma get_put_at: "get_at p v = Some y \<Longrightarrow> get_at p (put_at p x v) = Some x"
  by (induction p v rule: get_at.induct) (auto split: option.splits if_splits)

text \<open>Two paths part when neither is a prefix of the other.\<close>

fun apart :: "hop list \<Rightarrow> hop list \<Rightarrow> bool" where
  "apart (a # p) (b # q) = (a \<noteq> b \<or> apart p q)"
| "apart _ _ = False"

lemma get_put_apart: "apart q p \<Longrightarrow> get_at q (put_at p x v) = get_at q v"
proof (induction p x v arbitrary: q rule: put_at.induct)
  case (2 k p x kvs)
  then obtain b q' where q: "q = b # q'" by (cases q) auto
  show ?case
  proof (cases "map_of kvs k")
    case (Some v)
    then show ?thesis using 2 q by (cases b) (auto split: option.splits)
  qed simp
next
  case (3 i p x vs)
  then obtain b q' where q: "q = b # q'" by (cases q) auto
  show ?case using 3 q by (cases b) (auto simp: nth_list_update)
qed auto

text \<open>A block is the map it decodes to; anything that is not a map reads as an empty block.\<close>

type_synonym gblock = "(string \<times> gval) list"

definition asBlock :: "gval \<Rightarrow> gblock" where
  "asBlock v = (case v of GMap kvs \<Rightarrow> kvs | _ \<Rightarrow> [])"

definition block_str :: "gblock \<Rightarrow> string \<Rightarrow> string" where
  "block_str b key = (case map_of b key of Some (GStr s) \<Rightarrow> s | _ \<Rightarrow> [])"

text \<open>Where \<^verbatim>\<open>slot\<close> finds a settings key: under \<^verbatim>\<open>settings\<close>, else at the top level.\<close>

definition slot_at :: "gblock \<Rightarrow> string \<Rightarrow> (hop list \<times> gval) option" where
  "slot_at b name =
     (let top = (case map_of b name of None \<Rightarrow> None | Some v \<Rightarrow> Some ([Key name], v)) in
      case map_of b ''settings'' of
        Some (GMap st) \<Rightarrow>
          (case map_of st name of Some v \<Rightarrow> Some ([Key ''settings'', Key name], v) | None \<Rightarrow> top)
      | _ \<Rightarrow> top)"

lemma slot_at_get: "slot_at b name = Some (p, v) \<Longrightarrow> get_at p (GMap b) = Some v"
  by (auto simp: slot_at_def Let_def split: option.splits gval.splits)

definition isDebugWrapper :: "gblock \<Rightarrow> bool" where
  "isDebugWrapper b \<longleftrightarrow> block_str b ''type'' = breakpointBlockType \<or> block_str b ''type'' = spyBlockType"

lemma size_member: "(k, v) \<in> set kvs \<Longrightarrow> size v < size (GMap kvs)"
  by (induction kvs) auto

lemma slot_at_size: "slot_at b name = Some (p, v) \<Longrightarrow> size v < size (GMap b)"
  by (auto simp: slot_at_def Let_def split: option.splits gval.splits
      dest!: map_of_SomeD size_member)

lemma asBlock_size: "size (GMap (asBlock v)) \<le> max (size v) (size (GMap []))"
  by (cases v) (auto simp: asBlock_def)

lemma wrapped_size:
  assumes "isDebugWrapper b" and "slot_at b name = Some (p, GList [v])"
  shows "size_list (size_prod (\<lambda>x. 0) size) (asBlock v) < size_list (size_prod (\<lambda>x. 0) size) b"
proof -
  have "size (GList [v]) < size (GMap b)" using slot_at_size [OF assms(2)] .
  then have "size v < size (GMap b)" by simp
  moreover have "b \<noteq> []" using assms(1)
    by (auto simp: isDebugWrapper_def block_str_def breakpointBlockType_def spyBlockType_def)
  then have "size (GMap []) < size (GMap b)" by (cases b) auto
  ultimately show ?thesis using asBlock_size [of v] by simp
qed

text \<open>
  \<^verbatim>\<open>unwrapDebug\<close>: the wrapped block and the hops down to it. The wrapped block is a
  part of the wrapper, so the loop ends.
\<close>

function unwrapDebug :: "gblock \<Rightarrow> hop list \<times> gblock" where
  "unwrapDebug b =
     (if isDebugWrapper b
      then (case slot_at b BranchProcess of
              Some (p, GList [v]) \<Rightarrow>
                (case unwrapDebug (asBlock v) of (q, b') \<Rightarrow> (p @ Idx 0 # q, b'))
            | _ \<Rightarrow> ([], b))
      else ([], b))"
  by pat_completeness auto
termination
  by (relation "measure (\<lambda>b. size (GMap b))") (auto dest: wrapped_size)

declare unwrapDebug.simps [simp del]

lemma unwrapDebug_plain: "\<not> isDebugWrapper b \<Longrightarrow> unwrapDebug b = ([], b)"
  by (simp add: unwrapDebug.simps)

section \<open>Resolution\<close>

definition comma_list :: "string list \<Rightarrow> string" where
  "comma_list names = join_with '', '' names"

definition matches :: "gval list \<Rightarrow> string \<Rightarrow> string \<Rightarrow> nat list" where
  "matches chain key selector =
     filter (\<lambda>i. block_str (asBlock (chain ! i)) key = selector \<and> selector \<noteq> []) [0..<length chain]"

fun select_by :: "string \<Rightarrow> string \<Rightarrow> gval list \<Rightarrow> string \<Rightarrow> string list \<Rightarrow> (err, nat) res" where
  "select_by kind addr chain selector [] =
     Inl (Err (at_addr kind addr @ '': no block '' @ quote selector @ '' in that chain (blocks: '' @
       comma_list (map (\<lambda>v. BlockLabel (block_str (asBlock v) ''name'') (block_str (asBlock v) ''type'')
                                      (block_str (asBlock v) ''ref'')) chain) @ '')''))"
| "select_by kind addr chain selector (key # keys) =
     (case matches chain key selector of
        [] \<Rightarrow> select_by kind addr chain selector keys
      | [i] \<Rightarrow> Inr i
      | found \<Rightarrow>
          Inl (Err (at_addr kind addr @ '': '' @ quote selector @ '' matches '' @ itoa (length found) @
            '' blocks in the same chain; give the one you want a unique name'')))"

definition selectBlock :: "string \<Rightarrow> string \<Rightarrow> gval list \<Rightarrow> string \<Rightarrow> (err, nat) res" where
  "selectBlock kind addr chain selector =
     select_by kind addr chain selector [''name'', ''type'', ''ref'']"

text \<open>\<open>defs\<close> is the index of named processors: name and type.\<close>

definition effectiveType :: "(string \<times> string) list \<Rightarrow> gblock \<Rightarrow> string" where
  "effectiveType defs b =
     (if block_str b ''type'' \<noteq> [] then block_str b ''type''
      else case map_of defs (block_str b ''ref'') of None \<Rightarrow> [] | Some t \<Rightarrow> t)"

subsection \<open>The branches a block exposes\<close>

text \<open>
  The schema registry lists, per block type, the fields of its settings struct with their
  types; a block without a settings struct has no fields to list.
\<close>

record AddressBranches =
  Named :: "string list"
  ByMember :: "string list"

definition namedBranchType :: "string \<Rightarrow> bool" where
  "namedBranchType t \<longleftrightarrow> t = ''flow'' \<or> t = ''block-list''"

definition memberBranchType :: "string \<Rightarrow> bool" where
  "memberBranchType t \<longleftrightarrow> t \<in> {''flow-list'', ''case-list'', ''route-list'', ''tool-list''}"

definition addressBranchesOf :: "(string \<times> string) list \<Rightarrow> AddressBranches option" where
  "addressBranchesOf flds =
     (let named = map fst (filter (\<lambda>f. namedBranchType (snd f)) flds);
          byMember = map fst (filter (\<lambda>f. \<not> namedBranchType (snd f) \<and> memberBranchType (snd f)) flds)
      in if named = [] \<and> byMember = [] then None else Some \<lparr>Named = named, ByMember = byMember\<rparr>)"

type_synonym schema = "(string \<times> (string \<times> string) list option) list"

definition Branches :: "schema \<Rightarrow> string \<Rightarrow> AddressBranches option" where
  "Branches reg blockType =
     (case map_of reg blockType of
        None \<Rightarrow> None
      | Some None \<Rightarrow> None
      | Some (Some flds) \<Rightarrow> addressBranchesOf flds)"

definition namedChain :: "gblock \<Rightarrow> string \<Rightarrow> (hop list \<times> gval list) option" where
  "namedChain b name =
     (case slot_at b name of
        None \<Rightarrow> None
      | Some (p, value) \<Rightarrow>
          (case (case value of
                   GMap flow \<Rightarrow>
                     (case map_of flow BranchProcess of
                        None \<Rightarrow> None | Some v \<Rightarrow> Some (p @ [Key BranchProcess], v))
                 | _ \<Rightarrow> Some (p, value)) of
             Some (q, GList chain) \<Rightarrow> if chain = [] then None else Some (q, chain)
           | _ \<Rightarrow> None))"

definition parseIndex :: "string \<Rightarrow> nat option" where
  "parseIndex branch =
     (case atoi branch of None \<Rightarrow> None | Some n \<Rightarrow> if n < 0 then None else Some (nat n))"

definition members :: "gblock \<Rightarrow> string \<Rightarrow> (hop list \<times> gval list) option" where
  "members b slot = (case slot_at b slot of Some (p, GList vs) \<Rightarrow> Some (p, vs) | _ \<Rightarrow> None)"

text \<open>The first member the branch names, by its own name or by its index.\<close>

definition memberChain :: "gblock \<Rightarrow> string \<Rightarrow> string \<Rightarrow> (hop list \<times> gval list) option" where
  "memberChain b slot branch =
     (case members b slot of
        None \<Rightarrow> None
      | Some (p, vs) \<Rightarrow>
          (case filter (\<lambda>i. block_str (asBlock (vs ! i)) ''name'' = branch \<or> parseIndex branch = Some i)
                  [0..<length vs] of
             [] \<Rightarrow> None
           | i # _ \<Rightarrow>
               (case map_of (asBlock (vs ! i)) BranchProcess of
                  Some (GList chain) \<Rightarrow> Some (p @ [Idx i, Key BranchProcess], chain)
                | _ \<Rightarrow> None)))"

fun first_some :: "('a \<Rightarrow> 'b option) \<Rightarrow> 'a list \<Rightarrow> 'b option" where
  "first_some f [] = None"
| "first_some f (x # xs) = (case f x of Some y \<Rightarrow> Some y | None \<Rightarrow> first_some f xs)"

definition branchNames :: "gblock \<Rightarrow> AddressBranches option \<Rightarrow> string list" where
  "branchNames b branches =
     (let names = (case branches of
            None \<Rightarrow> []
          | Some br \<Rightarrow>
              filter (\<lambda>n. namedChain b n \<noteq> None) (Named br) @
              concat (map (\<lambda>slot. case members b slot of
                  None \<Rightarrow> []
                | Some (_, vs) \<Rightarrow>
                    map (\<lambda>i. MemberBranch (block_str (asBlock (vs ! i)) ''name'') i) [0..<length vs])
                (ByMember br)))
      in if names = [] then [''none: this is a leaf block''] else names)"

definition branchChain ::
  "schema \<Rightarrow> (string \<times> string) list \<Rightarrow> gblock \<Rightarrow> string \<Rightarrow> (err, hop list \<times> gval list) res" where
  "branchChain reg defs b branch =
     (let branches = Branches reg (effectiveType defs b) in
      case (case branches of
              None \<Rightarrow> None
            | Some br \<Rightarrow>
                (case first_some (namedChain b) (filter (\<lambda>n. n = branch) (Named br)) of
                   Some r \<Rightarrow> Some r
                 | None \<Rightarrow> first_some (\<lambda>slot. memberChain b slot branch) (ByMember br))) of
        Some r \<Rightarrow> Inr r
      | None \<Rightarrow> Inl (Err (''has no branch '' @ quote branch @ '' (branches: '' @
                         comma_list (branchNames b branches) @ '')'')))"

subsection \<open>Locating the target\<close>

fun locate ::
  "schema \<Rightarrow> (string \<times> string) list \<Rightarrow> string \<Rightarrow> string \<Rightarrow> hop list \<Rightarrow> gval list \<Rightarrow> step list \<Rightarrow>
   (err, hop list \<times> nat) res" where
  "locate reg defs kind addr p chain [] = Inl (Err ''slice bounds out of range'')"
| "locate reg defs kind addr p chain [target] =
     (case selectBlock kind addr chain (st_block target) of Inl e \<Rightarrow> Inl e | Inr i \<Rightarrow> Inr (p, i))"
| "locate reg defs kind addr p chain (s # s' # steps) =
     (case selectBlock kind addr chain (st_block s) of
        Inl e \<Rightarrow> Inl e
      | Inr i \<Rightarrow>
          (case unwrapDebug (asBlock (chain ! i)) of (up, b) \<Rightarrow>
             (case branchChain reg defs b (st_branch s) of
                Inl e \<Rightarrow> Inl (Wrap (at_addr kind addr @ '': block '' @ quote (st_block s)) e)
              | Inr (bp, next) \<Rightarrow>
                  locate reg defs kind addr (p @ Idx i # up @ bp) next (s' # steps))))"

section \<open>Typed blocks\<close>

record block_config =
  bc_type :: string
  bc_name :: string
  bc_ref :: string
  bc_settings :: "(string \<times> gval) list"

definition bc_label :: "block_config \<Rightarrow> string" where
  "bc_label c = BlockLabel (bc_name c) (bc_type c) (bc_ref c)"

text \<open>A string field of a JSON object: null leaves it empty.\<close>

definition str_field :: "string \<Rightarrow> gblock \<Rightarrow> (err, string) res" where
  "str_field key b =
     (case map_of b key of
        None \<Rightarrow> Inr [] | Some GNull \<Rightarrow> Inr [] | Some (GStr s) \<Rightarrow> Inr s
      | Some _ \<Rightarrow> Inl (Wrap (''block field '' @ quote key) (Err ''cannot unmarshal into string'')))"

definition settings_field :: "gblock \<Rightarrow> (err, (string \<times> gval) list) res" where
  "settings_field b =
     (case map_of b ''settings'' of
        None \<Rightarrow> Inr [] | Some GNull \<Rightarrow> Inr [] | Some (GMap st) \<Rightarrow> Inr st
      | Some _ \<Rightarrow> Inl (Wrap (''block field '' @ quote ''settings'') (Err ''cannot unmarshal into map'')))"

definition reserved_key :: "string \<Rightarrow> bool" where
  "reserved_key k \<longleftrightarrow> k \<in> {''type'', ''name'', ''ref'', ''settings''}"

definition fold_block :: "block_config \<Rightarrow> (string \<times> gval) list \<Rightarrow> (err, block_config) res" where
  "fold_block c rest =
     (case filter (\<lambda>kv. map_of (bc_settings c) (fst kv) \<noteq> None) rest of
        [] \<Rightarrow> Inr (c\<lparr>bc_settings := bc_settings c @ rest\<rparr>)
      | (k, _) # _ \<Rightarrow>
          Inl (Err (''block '' @ quote (bc_label c) @ '': '' @ quote k @
                 '' is given both at the top level and under settings'')))"

definition UnmarshalJSON :: "gblock \<Rightarrow> (err, block_config) res" where
  "UnmarshalJSON b =
     bind_res (str_field ''type'' b) (\<lambda>t. bind_res (str_field ''name'' b) (\<lambda>n.
     bind_res (str_field ''ref'' b) (\<lambda>r. bind_res (settings_field b) (\<lambda>st.
       fold_block \<lparr>bc_type = t, bc_name = n, bc_ref = r, bc_settings = st\<rparr>
         (filter (\<lambda>kv. \<not> reserved_key (fst kv)) b)))))"

definition decode_block :: "gval \<Rightarrow> (err, block_config) res" where
  "decode_block v =
     (case v of
        GMap b \<Rightarrow> UnmarshalJSON b
      | GNull \<Rightarrow> UnmarshalJSON []
      | _ \<Rightarrow> Inl (Wrap ''decode block'' (Err ''cannot unmarshal into map'')))"

definition fromGeneric :: "gval \<Rightarrow> (err, block_config) res" where
  "fromGeneric v = (case decode_block v of Inl e \<Rightarrow> Inl (Wrap ''decode block'' e) | Inr c \<Rightarrow> Inr c)"

definition fromGenericChain :: "gval list \<Rightarrow> (err, block_config list) res" where
  "fromGenericChain vs =
     (case map_res decode_block vs of Inl e \<Rightarrow> Inl (Wrap ''decode flow'' e) | Inr cs \<Rightarrow> Inr cs)"

text \<open>
  Encoding leaves empty fields out, and decoding the text again gives numbers as floats.
  Settings come from a decoded document, so encoding them does not fail.
\<close>

definition toGeneric :: "block_config \<Rightarrow> gval" where
  "toGeneric c =
     GMap ((if bc_type c = [] then [] else [(''type'', GStr (bc_type c))]) @
           (if bc_name c = [] then [] else [(''name'', GStr (bc_name c))]) @
           (if bc_ref c = [] then [] else [(''ref'', GStr (bc_ref c))]) @
           (if bc_settings c = [] then [] else [(''settings'', json_normal (GMap (bc_settings c)))]))"

record flow_config =
  fc_name :: string
  fc_process :: "block_config list"
  fc_error :: "block_config list"

record config =
  cfg_flows :: "flow_config list"
  cfg_processors :: "(string \<times> string) list"

fun findFlow :: "string \<Rightarrow> flow_config list \<Rightarrow> nat \<Rightarrow> nat option" where
  "findFlow name [] i = None"
| "findFlow name (f # fs) i = (if fc_name f = name then Some i else findFlow name fs (Suc i))"

text \<open>
  \<^verbatim>\<open>rewriteTarget\<close>: parse, find the flow and its chain, locate the block, rewrite it,
  and type the whole chain back.
\<close>

definition rewrite_chain ::
  "schema \<Rightarrow> (string \<times> string) list \<Rightarrow> string \<Rightarrow> string \<Rightarrow> step list \<Rightarrow>
   (block_config \<Rightarrow> block_config) \<Rightarrow> block_config list \<Rightarrow> (err, block_config list) res" where
  "rewrite_chain reg defs kind addr steps rewrite chain =
     (let root = map toGeneric chain in
      bind_res (locate reg defs kind addr [] root steps) (\<lambda>(p, i).
        case get_at (p @ [Idx i]) (GList root) of
          None \<Rightarrow> Inl (Err ''index out of range'')
        | Some t \<Rightarrow>
            bind_res (fromGeneric t) (\<lambda>target.
              case put_at (p @ [Idx i]) (toGeneric (rewrite target)) (GList root) of
                GList root' \<Rightarrow> fromGenericChain root'
              | _ \<Rightarrow> Inl (Err ''unreachable''))))"

definition rewriteTarget ::
  "schema \<Rightarrow> string \<Rightarrow> string \<Rightarrow> (block_config \<Rightarrow> block_config) \<Rightarrow> config \<Rightarrow> (err, config) res" where
  "rewriteTarget reg kind addr rewrite cfg =
     bind_res (parseAddress kind addr) (\<lambda>a.
       case findFlow (ad_flow a) (cfg_flows cfg) 0 of
         None \<Rightarrow>
           Inl (Err (kind @ '': no flow named '' @ quote (ad_flow a) @ '' (flows: '' @
                  comma_list (map fc_name (cfg_flows cfg)) @ '')''))
       | Some i \<Rightarrow>
           let f = cfg_flows cfg ! i in
           if ad_chain a = BranchProcess
           then bind_res (rewrite_chain reg (cfg_processors cfg) kind addr (ad_steps a) rewrite (fc_process f))
                  (\<lambda>ch. Inr (cfg\<lparr>cfg_flows := (cfg_flows cfg)[i := f\<lparr>fc_process := ch\<rparr>]\<rparr>))
           else if ad_chain a = BranchError
           then bind_res (rewrite_chain reg (cfg_processors cfg) kind addr (ad_steps a) rewrite (fc_error f))
                  (\<lambda>ch. Inr (cfg\<lparr>cfg_flows := (cfg_flows cfg)[i := f\<lparr>fc_error := ch\<rparr>]\<rparr>))
           else Inl (Err (kind @ '': flow '' @ quote (fc_name f) @ '' has no chain '' @ quote (ad_chain a) @
                  '' (want '' @ quote BranchProcess @ '' or '' @ quote BranchError @ '')'')))"

section \<open>Injection\<close>

definition wrapInSpy :: "string \<Rightarrow> block_config \<Rightarrow> block_config" where
  "wrapInSpy addr target =
     \<lparr>bc_type = spyBlockType, bc_name = bc_label target, bc_ref = [],
      bc_settings = [(''address'', GStr addr), (''process'', GList [toGeneric target])]\<rparr>"

definition wrapInBreakpoint :: "block_config \<Rightarrow> block_config" where
  "wrapInBreakpoint target =
     \<lparr>bc_type = breakpointBlockType, bc_name = bc_label target, bc_ref = [],
      bc_settings = [(''process'', GList [toGeneric target])]\<rparr>"

definition standInMock :: "string \<Rightarrow> block_config \<Rightarrow> block_config" where
  "standInMock addr target =
     \<lparr>bc_type = mockBlockType, bc_name = bc_label target, bc_ref = [],
      bc_settings = [(''address'', GStr addr)]\<rparr>"

fun inject_all ::
  "schema \<Rightarrow> string \<Rightarrow> (string \<Rightarrow> block_config \<Rightarrow> block_config) \<Rightarrow> string list \<Rightarrow> config \<Rightarrow> (err, config) res"
where
  "inject_all reg kind wrap [] cfg = Inr cfg"
| "inject_all reg kind wrap (addr # addrs) cfg =
     bind_res (rewriteTarget reg kind addr (wrap addr) cfg) (inject_all reg kind wrap addrs)"

definition injectSpies :: "schema \<Rightarrow> string list \<Rightarrow> config \<Rightarrow> (err, config) res" where
  "injectSpies reg addrs cfg = inject_all reg spyBlockType wrapInSpy addrs cfg"

definition injectMocks :: "schema \<Rightarrow> string list \<Rightarrow> config \<Rightarrow> (err, config) res" where
  "injectMocks reg addrs cfg = inject_all reg mockBlockType standInMock addrs cfg"

definition injectBreakpoint :: "schema \<Rightarrow> string \<Rightarrow> config \<Rightarrow> (err, config) res" where
  "injectBreakpoint reg addr cfg = rewriteTarget reg breakpointBlockType addr wrapInBreakpoint cfg"

section \<open>Properties\<close>

subsection \<open>Paths parse back\<close>

definition clean :: "string \<Rightarrow> bool" where
  "clean s \<longleftrightarrow> s \<noteq> [] \<and> CHR ''.'' \<notin> set s \<and> CHR ''['' \<notin> set s \<and> CHR '']'' \<notin> set s"

fun clean_steps :: "step list \<Rightarrow> bool" where
  "clean_steps [] = False"
| "clean_steps [s] = (clean (st_block s) \<and> st_branch s = [])"
| "clean_steps (s # s' # ss) = (clean (st_block s) \<and> clean (st_branch s) \<and> clean_steps (s' # ss))"

definition clean_address :: "address \<Rightarrow> bool" where
  "clean_address a \<longleftrightarrow> clean (ad_flow a) \<and> clean (ad_chain a) \<and> clean_steps (ad_steps a)"

lemma splitBracket_plain: "clean s \<Longrightarrow> splitBracket s = Inr (s, [])"
  by (simp add: splitBracket_def clean_def span_until_none)

lemma splitBracket_branch: "clean s \<Longrightarrow> clean b \<Longrightarrow> splitBracket (JoinBranch s b) = Inr (s, b)"
  using has_suffix_append [of "s @ ''['' @ b" "'']''"]
  by (simp add: splitBracket_def clean_def JoinBranch_def span_until_found butlast_append)

fun segments :: "step list \<Rightarrow> string list" where
  "segments [] = []"
| "segments [s] = [st_block s]"
| "segments (s # s' # ss) = JoinBranch (st_block s) (st_branch s) # segments (s' # ss)"

lemma join_with_join: "join_with sep ((x @ sep @ y) # zs) = join_with sep (x # y # zs)"
  by (cases zs) simp_all

lemma mint_steps_join: "mint_steps pre ss = join_with ''.'' (pre # segments ss)"
proof (induction ss arbitrary: pre rule: segments.induct)
  case (3 s s' ss)
  let ?b = "JoinBranch (st_block s) (st_branch s)"
  have "mint_steps pre (s # s' # ss) = mint_steps (pre @ ''.'' @ ?b) (s' # ss)"
    by (simp add: JoinBlock_def JoinBranch_def Let_def)
  also have "\<dots> = join_with ''.'' ((pre @ ''.'' @ ?b) # segments (s' # ss))" by (rule 3)
  also have "\<dots> = join_with ''.'' (pre # ?b # segments (s' # ss))" by (rule join_with_join)
  finally show ?case by simp
qed (simp_all add: JoinBlock_def Let_def)

lemma segments_nodot: "clean_steps ss \<Longrightarrow> x \<in> set (segments ss) \<Longrightarrow> CHR ''.'' \<notin> set x"
  by (induction ss rule: segments.induct) (auto simp: clean_def JoinBranch_def)

lemma segments_Nil [simp]: "segments ss = [] \<longleftrightarrow> ss = []"
  by (cases ss rule: segments.cases) simp_all

lemma parseSteps_segments: "clean_steps ss \<Longrightarrow> parseSteps kind addr i (segments ss) = Inr ss"
proof (induction ss arbitrary: i rule: segments.induct)
  case (2 s)
  then show ?case by (cases s) (simp add: splitBracket_plain clean_def)
next
  case (3 s s' ss)
  then show ?case by (cases s) (simp add: splitBracket_branch, simp add: clean_def)
qed simp

lemma not_blank_dot: "CHR ''.'' \<in> set s \<Longrightarrow> \<not> blank s"
  by (auto simp: blank_def list_all_iff is_space_def intro!: bexI [of _ "CHR ''.''"])

text \<open>
  Paths and addresses speak one grammar: the path minted for a block, with the helpers
  the builder uses, parses back to exactly the flow, chain, composites, branches and block it
  was minted from, as long as the names are free of the grammar's own characters.
\<close>

theorem parse_minted_path:
  assumes "clean_address a"
  shows "parseAddress kind (mint a) = Inr a"
proof -
  let ?pre = "if ad_chain a = BranchProcess then ad_flow a else JoinBranch (ad_flow a) (ad_chain a)"
  obtain s ss where ss: "ad_steps a = s # ss" using assms by (cases "ad_steps a") (auto simp: clean_address_def)
  have c: "clean (ad_flow a)" "clean (ad_chain a)" "clean_steps (ad_steps a)"
    using assms by (simp_all add: clean_address_def)
  have m: "mint a = join_with ''.'' (?pre # segments (ad_steps a))" by (simp add: mint_def mint_steps_join)
  have nodot: "\<forall>x \<in> set (?pre # segments (ad_steps a)). CHR ''.'' \<notin> set x"
    using c segments_nodot [OF c(3)] by (auto simp: clean_def JoinBranch_def)
  have split: "split_on (CHR ''.'') (mint a) = ?pre # segments (ad_steps a)"
    unfolding m using split_on_join [OF nodot] by simp
  have seg: "segments (ad_steps a) \<noteq> []" using ss by simp
  then have "CHR ''.'' \<in> set (mint a)" unfolding m by (cases "segments (ad_steps a)") auto
  then have nb: "\<not> blank (mint a)" by (rule not_blank_dot)
  have sp: "splitBracket ?pre = Inr (ad_flow a, if ad_chain a = BranchProcess then [] else ad_chain a)"
    using c by (simp add: splitBracket_plain splitBracket_branch)
  have ps: "parseSteps kind (mint a) 0 (segments (ad_steps a)) = Inr (ad_steps a)"
    by (rule parseSteps_segments [OF c(3)])
  obtain x xs where x: "segments (ad_steps a) = x # xs" using seg by (cases "segments (ad_steps a)") auto
  have "parseAddress kind (mint a) =
      Inr \<lparr>ad_flow = ad_flow a, ad_chain = ad_chain a, ad_steps = ad_steps a\<rparr>"
    unfolding parseAddress_def if_not_P [OF nb] split
    using sp ps [unfolded x] c by (simp add: x clean_def)
  then show ?thesis by simp
qed

definition sample_address :: address where
  "sample_address = \<lparr>ad_flow = ''orders'', ad_chain = ''process'',
     ad_steps = [\<lparr>st_block = ''checkHeader'', st_branch = ''else''\<rparr>, \<lparr>st_block = ''api-call-1'', st_branch = []\<rparr>]\<rparr>"

theorem parse_minted_path_witness:
  "mint sample_address = ''orders.checkHeader[else].api-call-1'' \<and>
   parseAddress ''spy'' ''orders.checkHeader[else].api-call-1'' = Inr sample_address"
proof -
  have m: "mint sample_address = ''orders.checkHeader[else].api-call-1''"
    by (simp add: mint_def sample_address_def JoinBlock_def JoinBranch_def BranchProcess_def Let_def)
  have "clean_address sample_address" by (simp add: clean_address_def sample_address_def clean_def)
  from parse_minted_path [OF this, of "''spy''"] m show ?thesis by simp
qed

subsection \<open>Resolution is sound\<close>

text \<open>
  The selector names the block: it is its name, or its type, or its ref, and no other block
  of the chain matches the same way.
\<close>

definition selects :: "gval list \<Rightarrow> string \<Rightarrow> nat \<Rightarrow> bool" where
  "selects chain selector i \<longleftrightarrow> i < length chain \<and> selector \<noteq> [] \<and>
     (\<exists>key \<in> {''name'', ''type'', ''ref''}.
        \<forall>j < length chain. block_str (asBlock (chain ! j)) key = selector \<longleftrightarrow> j = i)"

lemma set_singleton_list: "distinct xs \<Longrightarrow> set xs = {i} \<longleftrightarrow> xs = [i]"
  by (cases xs; cases "tl xs") auto

lemma matches_one: "matches chain key selector = [i] \<longleftrightarrow>
    i < length chain \<and> selector \<noteq> [] \<and>
    (\<forall>j < length chain. block_str (asBlock (chain ! j)) key = selector \<longleftrightarrow> j = i)"
proof -
  have "distinct (matches chain key selector)" by (simp add: matches_def)
  then have "matches chain key selector = [i] \<longleftrightarrow> set (matches chain key selector) = {i}"
    by (simp add: set_singleton_list)
  then show ?thesis by (auto simp: matches_def)
qed

lemma matches_none: "matches chain key selector = [] \<longleftrightarrow>
    selector = [] \<or> (\<forall>j < length chain. block_str (asBlock (chain ! j)) key \<noteq> selector)"
  by (auto simp: matches_def filter_empty_conv)

lemma select_by_sound:
  "select_by kind addr chain selector keys = Inr i \<Longrightarrow> \<exists>key \<in> set keys. matches chain key selector = [i]"
  by (induction keys) (auto split: list.splits)

lemma selectBlock_sound: "selectBlock kind addr chain selector = Inr i \<Longrightarrow> selects chain selector i"
  using select_by_sound [of kind addr chain selector "[''name'', ''type'', ''ref'']" i]
  by (auto simp: selectBlock_def selects_def matches_one)

lemma unwrapDebug_path: "unwrapDebug b = (p, b') \<Longrightarrow> b' \<noteq> [] \<Longrightarrow> get_at p (GMap b) = Some (GMap b')"
proof (induction b arbitrary: p b' rule: unwrapDebug.induct)
  case (1 b)
  show ?case
  proof (cases "\<exists>q v. isDebugWrapper b \<and> slot_at b BranchProcess = Some (q, GList [v])")
    case True
    then obtain q v where w: "isDebugWrapper b" and s: "slot_at b BranchProcess = Some (q, GList [v])" by blast
    obtain up c where u: "unwrapDebug (asBlock v) = (up, c)" by force
    have p: "p = q @ Idx 0 # up" "b' = c" using 1(2) w s u by (simp_all add: unwrapDebug.simps [of b])
    have "asBlock v \<noteq> []"
    proof
      assume "asBlock v = []"
      then have "c = []" using u
        by (simp add: unwrapDebug.simps [of "[]"] isDebugWrapper_def block_str_def breakpointBlockType_def spyBlockType_def)
      then show False using 1(3) p by simp
    qed
    then have v: "v = GMap (asBlock v)" by (cases v) (auto simp: asBlock_def)
    have "get_at up (GMap (asBlock v)) = Some (GMap c)"
      using 1(1) [OF w s refl refl refl refl u] 1(3) p by simp
    then show ?thesis using slot_at_get [OF s] p v by (simp add: get_at_append)
  next
    case False
    then have "p = []" "b' = b" using 1(2)
      by (auto simp: unwrapDebug.simps [of b] split: if_splits option.splits prod.splits gval.splits list.splits)
    then show ?thesis by simp
  qed
qed

lemma namedChain_get: "namedChain b name = Some (p, chain) \<Longrightarrow> get_at p (GMap b) = Some (GList chain)"
  by (auto simp: namedChain_def get_at_append split: option.splits gval.splits if_splits dest!: slot_at_get)

lemma memberChain_get: "memberChain b slot branch = Some (p, chain) \<Longrightarrow> get_at p (GMap b) = Some (GList chain)"
proof -
  assume "memberChain b slot branch = Some (p, chain)"
  then obtain q vs i rest where q: "slot_at b slot = Some (q, GList vs)"
    and i: "filter (\<lambda>i. block_str (asBlock (vs ! i)) ''name'' = branch \<or> parseIndex branch = Some i) [0..<length vs] = i # rest"
    and c: "map_of (asBlock (vs ! i)) BranchProcess = Some (GList chain)" and p: "p = q @ [Idx i, Key BranchProcess]"
    by (auto simp: memberChain_def members_def split: option.splits list.splits gval.splits)
  have "i \<in> set (i # rest)" by simp
  then have "i < length vs" unfolding i [symmetric] by simp
  moreover have "vs ! i = GMap (asBlock (vs ! i))" using c by (cases "vs ! i") (auto simp: asBlock_def)
  ultimately show ?thesis using slot_at_get [OF q] c p by (simp add: get_at_append) (metis get_at.simps(1,2) option.simps(5))
qed

lemma first_some_ex: "first_some f xs = Some y \<Longrightarrow> \<exists>x \<in> set xs. f x = Some y"
  by (induction xs) (auto split: option.splits)

lemma branchChain_get:
  assumes "branchChain reg defs b branch = Inr (p, chain)"
  shows "get_at p (GMap b) = Some (GList chain) \<and> b \<noteq> []"
proof -
  have "get_at p (GMap b) = Some (GList chain)"
    using assms
    by (auto simp: branchChain_def Let_def split: option.splits dest!: first_some_ex namedChain_get memberChain_get)
  moreover have "get_at p (GMap []) \<noteq> Some (GList chain)"
    by (cases p rule: list.exhaust; cases "hd p") auto
  ultimately show ?thesis by auto
qed

lemma locate_sound:
  assumes "get_at p tree = Some (GList chain)" and "locate reg defs kind addr p chain steps = Inr (q, i)"
  shows "\<exists>found. get_at q tree = Some (GList found) \<and> selects found (st_block (last steps)) i"
  using assms
proof (induction reg defs kind addr p chain steps rule: locate.induct)
  case (2 reg defs kind addr p chain target)
  then show ?case by (auto split: sum.splits dest: selectBlock_sound)
next
  case (3 reg defs kind addr p chain s s' steps)
  obtain j where j: "selectBlock kind addr chain (st_block s) = Inr j"
    using 3(3) by (auto split: sum.splits)
  obtain up b where u: "unwrapDebug (asBlock (chain ! j)) = (up, b)" by force
  obtain bp nxt where bc: "branchChain reg defs b (st_branch s) = Inr (bp, nxt)"
    and rest: "locate reg defs kind addr (p @ Idx j # up @ bp) nxt (s' # steps) = Inr (q, i)"
    using 3(3) j u by (auto split: sum.splits)
  have jl: "j < length chain" using selectBlock_sound [OF j] by (simp add: selects_def)
  note B = branchChain_get [OF bc]
  have "asBlock (chain ! j) \<noteq> []"
    using u B by (auto simp: unwrapDebug.simps [of "[]"] isDebugWrapper_def block_str_def breakpointBlockType_def spyBlockType_def)
  then have cj: "chain ! j = GMap (asBlock (chain ! j))" by (cases "chain ! j") (auto simp: asBlock_def)
  have "get_at (up @ bp) (GMap (asBlock (chain ! j))) = Some (GList nxt)"
    using unwrapDebug_path [OF u] B by (simp add: get_at_append)
  then have "get_at (p @ Idx j # up @ bp) tree = Some (GList nxt)"
    using 3(2) jl cj by (simp add: get_at_append)
  from 3(1) [OF j u [symmetric] bc refl this rest] show ?case by simp
qed simp

text \<open>
  Resolution is sound: an address that resolves leads to an existing chain of the tree
  and to the one block of it that its last step names, through wrappers, named slots and
  members; assigning there replaces exactly that block and nothing beside it.
\<close>

theorem locate_rewrites_target_only:
  assumes "locate reg defs kind addr [] tree steps = Inr (p, i)"
  shows "\<exists>chain. get_at p (GList tree) = Some (GList chain) \<and> selects chain (st_block (last steps)) i \<and>
     get_at (p @ [Idx i]) (put_at (p @ [Idx i]) x (GList tree)) = Some x \<and>
     (\<forall>q. apart q (p @ [Idx i]) \<longrightarrow>
          get_at q (put_at (p @ [Idx i]) x (GList tree)) = get_at q (GList tree))"
proof -
  obtain chain where c: "get_at p (GList tree) = Some (GList chain)" "selects chain (st_block (last steps)) i"
    using locate_sound [OF _ assms, of "GList tree"] by auto
  then have "get_at (p @ [Idx i]) (GList tree) = Some (chain ! i)"
    by (simp add: get_at_append selects_def)
  with c show ?thesis using get_put_at get_put_apart by blast
qed

definition sample_schema :: schema where
  "sample_schema = [(''if'', Some [(''condition'', ''cel''), (''then'', ''flow''), (''else'', ''flow'')]),
                    (''fork'', Some [(''branches'', ''flow-list'')])]"

definition sample_tree :: "gval list" where
  "sample_tree =
     [GMap [(''type'', GStr ''log'')],
      GMap [(''type'', GStr ''if''), (''name'', GStr ''check''),
            (''settings'', GMap [(''else'', GMap [(''process'', GList [GMap [(''type'', GStr ''http'')]])])])]]"

definition sample_steps :: "step list" where
  "sample_steps = [\<lparr>st_block = ''check'', st_branch = ''else''\<rparr>, \<lparr>st_block = ''http'', st_branch = []\<rparr>]"

lemma sample_locate:
  "locate sample_schema [] ''spy'' ''f.check[else].http'' [] sample_tree sample_steps =
     Inr ([Idx 1, Key ''settings'', Key ''else'', Key ''process''], 0)"
  by (simp add: sample_schema_def sample_tree_def sample_steps_def selectBlock_def matches_def
      block_str_def asBlock_def unwrapDebug_plain isDebugWrapper_def breakpointBlockType_def spyBlockType_def
      branchChain_def effectiveType_def Branches_def addressBranchesOf_def namedBranchType_def
      memberBranchType_def namedChain_def slot_at_def BranchProcess_def Let_def)

theorem locate_rewrites_target_only_witness:
  "\<exists>chain. get_at [Idx 1, Key ''settings'', Key ''else'', Key ''process''] (GList sample_tree) = Some (GList chain) \<and>
     selects chain ''http'' 0"
  using locate_rewrites_target_only [OF sample_locate, of GNull]
  unfolding sample_steps_def by (metis last_ConsL last_ConsR list.distinct(1) step.select_convs(1))

subsection \<open>Addressing a block that is already wrapped\<close>

lemma toGeneric_str:
  "block_str (asBlock (toGeneric c)) ''name'' = bc_name c"
  "block_str (asBlock (toGeneric c)) ''type'' = bc_type c"
  "block_str (asBlock (toGeneric c)) ''ref'' = bc_ref c"
  by (simp_all add: toGeneric_def block_str_def asBlock_def)

lemma reselect:
  assumes s: "selectBlock kind addr chain sel = Inr i"
    and w: "block_str (asBlock v) ''name'' = sel"
  shows "selectBlock kind' addr' (chain[i := v]) sel = Inr i"
proof -
  obtain key where "matches chain key sel = [i]"
    using select_by_sound s unfolding selectBlock_def by metis
  then have i: "i < length chain" "sel \<noteq> []" by (simp_all add: matches_one)
  have other: "block_str (asBlock (chain ! j)) ''name'' \<noteq> sel" if "j < length chain" "j \<noteq> i" for j
  proof (cases "matches chain ''name'' sel")
    case Nil
    then show ?thesis using that i by (auto simp: matches_none)
  next
    case (Cons k ks)
    then have "ks = [] \<and> k = i" using s by (auto simp: selectBlock_def split: list.splits)
    then show ?thesis using Cons that matches_one [of chain "''name''" sel i] by blast
  qed
  have "matches (chain[i := v]) ''name'' sel = [i]"
    unfolding matches_one using i w other by (auto simp: nth_list_update)
  then show ?thesis by (simp add: selectBlock_def)
qed

text \<open>
  Features compose at one address: after a spy, a breakpoint or a mock was put at a block
  that was addressed by its label, the same address selects what was put there, so the next
  injection wraps around it.
\<close>

theorem wrapped_block_stays_addressable:
  assumes "selectBlock kind addr (map toGeneric chain) sel = Inr i" and "sel = bc_label (chain ! i)"
    and "wrap \<in> {wrapInSpy a, wrapInBreakpoint, standInMock a}"
  shows "selectBlock kind' addr' (map toGeneric (chain[i := wrap (chain ! i)])) sel = Inr i"
proof -
  have "block_str (asBlock (toGeneric (wrap (chain ! i)))) ''name'' = sel"
    using assms(2,3) by (auto simp: toGeneric_str wrapInSpy_def wrapInBreakpoint_def standInMock_def)
  from reselect [OF assms(1) this] show ?thesis by (simp add: map_update)
qed

definition sample_chain :: "block_config list" where
  "sample_chain =
     [\<lparr>bc_type = ''fork'', bc_name = ''fan'', bc_ref = [], bc_settings = []\<rparr>,
      \<lparr>bc_type = ''log'', bc_name = [], bc_ref = [], bc_settings = []\<rparr>]"

theorem wrapped_block_stays_addressable_witness:
  "selectBlock ''breakpoint'' ''f.log'' (map toGeneric (sample_chain[1 := wrapInSpy ''f.log'' (sample_chain ! 1)])) ''log'' = Inr 1"
proof -
  have s: "selectBlock ''spy'' ''f.log'' (map toGeneric sample_chain) ''log'' = Inr 1"
    by (simp add: selectBlock_def matches_def sample_chain_def toGeneric_def block_str_def asBlock_def)
  have l: "''log'' = bc_label (sample_chain ! 1)" by (simp add: sample_chain_def bc_label_def BlockLabel_def)
  show ?thesis by (rule wrapped_block_stays_addressable [OF s l, of _ "''f.log''"]) simp
qed

text \<open>
  A named block that was addressed by its type is lost to that address once it is
  wrapped: the wrapper takes the block's name and its own type, so a second address that
  selects or descends through the block by type finds nothing, although wrappers are meant
  to be transparent on the way down.
\<close>

theorem wrapped_block_lost_by_type:
  assumes "i < length chain" and "sel \<noteq> []" and "bc_name (chain ! i) \<noteq> []" and "bc_name (chain ! i) \<noteq> sel"
    and "sel \<noteq> spyBlockType" and "\<forall>j < length chain. j \<noteq> i \<longrightarrow>
      bc_name (chain ! j) \<noteq> sel \<and> bc_type (chain ! j) \<noteq> sel \<and> bc_ref (chain ! j) \<noteq> sel"
  shows "(bc_type (chain ! i) = sel \<longrightarrow> selectBlock kind addr (map toGeneric chain) sel = Inr i) \<and>
     (\<exists>e. selectBlock kind addr (map toGeneric (chain[i := wrapInSpy a (chain ! i)])) sel = Inl e)"
proof
  let ?g = "map toGeneric chain" and ?w = "map toGeneric (chain[i := wrapInSpy a (chain ! i)])"
  have at: "block_str (asBlock (?g ! j)) ''name'' = bc_name (chain ! j)"
    "block_str (asBlock (?g ! j)) ''type'' = bc_type (chain ! j)" if "j < length chain" for j
    using that by (simp_all add: toGeneric_str)
  have n: "matches ?g ''name'' sel = []" unfolding matches_none using assms at by (metis length_map)
  show "bc_type (chain ! i) = sel \<longrightarrow> selectBlock kind addr ?g sel = Inr i"
  proof
    assume t: "bc_type (chain ! i) = sel"
    have "matches ?g ''type'' sel = [i]" unfolding matches_one using assms at t by (metis length_map)
    then show "selectBlock kind addr ?g sel = Inr i" using n by (simp add: selectBlock_def)
  qed
  have w: "bc_name (chain[i := wrapInSpy a (chain ! i)] ! j) \<noteq> sel \<and>
      bc_type (chain[i := wrapInSpy a (chain ! i)] ! j) \<noteq> sel \<and> bc_ref (chain[i := wrapInSpy a (chain ! i)] ! j) \<noteq> sel"
    if "j < length chain" for j
    using that assms by (cases "j = i") (auto simp: wrapInSpy_def bc_label_def BlockLabel_def)
  have "block_str (asBlock (?w ! j)) key \<noteq> sel"
    if "key \<in> {''name'', ''type'', ''ref''}" "j < length chain" for key j
    using w [OF that(2)] that by (auto simp: toGeneric_str)
  then have "matches ?w key sel = []" if "key \<in> {''name'', ''type'', ''ref''}" for key
    unfolding matches_none using that by simp
  then show "\<exists>e. selectBlock kind addr ?w sel = Inl e" by (simp add: selectBlock_def)
qed

theorem wrapped_block_lost_by_type_witness:
  "selectBlock ''spy'' ''f.fork'' (map toGeneric sample_chain) ''fork'' = Inr 0 \<and>
   (\<exists>e. selectBlock ''spy'' ''f.fork'' (map toGeneric (sample_chain[0 := wrapInSpy ''f.fork'' (sample_chain ! 0)])) ''fork'' = Inl e)"
  using wrapped_block_lost_by_type [of 0 sample_chain "''fork''" "''spy''" "''f.fork''" "''f.fork''"]
  by (auto simp: sample_chain_def spyBlockType_def less_Suc_eq)

subsection \<open>Blocks decode to what they were\<close>

lemma decode_toGeneric:
  "decode_block (toGeneric c) =
     Inr (c\<lparr>bc_settings := map (\<lambda>(k, v). (k, json_normal v)) (bc_settings c)\<rparr>)"
  by (cases c) (auto simp: decode_block_def toGeneric_def UnmarshalJSON_def str_field_def
      settings_field_def fold_block_def reserved_key_def)

text \<open>
  A block survives the generic tree: encoding a typed block and typing it back gives the
  block, with its numbers in JSON form.
\<close>

theorem block_generic_roundtrip:
  "fromGeneric (toGeneric c) =
     Inr (c\<lparr>bc_settings := map (\<lambda>(k, v). (k, json_normal v)) (bc_settings c)\<rparr>)"
  by (simp add: fromGeneric_def decode_toGeneric)

end
