(* ===== verification/Octo_Debug.thy ===== *)
theory Octo_Debug
  imports Octo_Semantics
begin

text \<open>
  The debugging seams: the collectors \<^verbatim>\<open>Spies\<close> and \<^verbatim>\<open>Breakpoint\<close>
  (\<^verbatim>\<open>runtime/core/spy.go\<close>, \<^verbatim>\<open>breakpoint.go\<close>), the mock specifications
  (\<^verbatim>\<open>runtime/core/mock.go\<close>) and the three blocks the runtime injects
  (\<^verbatim>\<open>runtime/core/engine/spy.go\<close>, \<^verbatim>\<open>breakpoint.go\<close>,
  \<^verbatim>\<open>mock.go\<close>).

  The collectors are shared objects the injected blocks write to, so they are part of the
  world. A record points at the messages it keeps; that these are never rewritten later is a
  theorem and not a convention of the model. Times of records are left out.
\<close>

section \<open>Collectors\<close>

record spy_record =
  Seq :: int
  Input :: addr
  Output :: "addr option"
  WasDropped :: bool
  Error :: string

record spies =
  order :: "string list"
  spy_lists :: "string \<rightharpoonup> spy_record list"
  seq :: int

fun NewSpies_from :: "string list \<Rightarrow> spies \<Rightarrow> (err, spies) res" where
  "NewSpies_from [] s = Inr s"
| "NewSpies_from (address # addresses) s =
     (if address = [] then Inl (Err ''spy address is empty'')
      else if spy_lists s address \<noteq> None
      then Inl (Err (''spy '' @ quote address @ '' is listed twice''))
      else NewSpies_from addresses
             (s\<lparr>order := order s @ [address], spy_lists := (spy_lists s)(address \<mapsto> [])\<rparr>))"

definition NewSpies :: "string list \<Rightarrow> (err, spies) res" where
  "NewSpies addresses = NewSpies_from addresses \<lparr>order = [], spy_lists = Map.empty, seq = 0\<rparr>"

definition spies_Record :: "string \<Rightarrow> spy_record \<Rightarrow> spies \<Rightarrow> spies" where
  "spies_Record address rec s =
     (case spy_lists s address of
        None \<Rightarrow> s
      | Some records \<Rightarrow>
          s\<lparr>seq := seq s + 1,
            spy_lists := (spy_lists s)(address \<mapsto> records @ [rec\<lparr>Seq := seq s + 1\<rparr>])\<rparr>)"

definition Records :: "spies \<Rightarrow> string \<Rightarrow> spy_record list" where
  "Records s address = (case spy_lists s address of None \<Rightarrow> [] | Some records \<Rightarrow> records)"

record breakpoint =
  bp_address :: string
  snapshot :: "addr option"

definition NewBreakpoint :: "string \<Rightarrow> breakpoint" where
  "NewBreakpoint address = \<lparr>bp_address = address, snapshot = None\<rparr>"

definition bp_Record :: "addr \<Rightarrow> breakpoint \<Rightarrow> breakpoint" where
  "bp_Record msg b = (if snapshot b \<noteq> None then b else b\<lparr>snapshot := Some msg\<rparr>)"

record debug_world = obs_world +
  the_spies :: spies
  the_breakpoint :: breakpoint

section \<open>The wrappers\<close>

definition record_crossing ::
  "string \<Rightarrow> spy_record \<Rightarrow> 'a debug_world_scheme \<Rightarrow> 'a debug_world_scheme" where
  "record_crossing address rec w = w\<lparr>the_spies := spies_Record address rec (the_spies w)\<rparr>"

definition spy_process ::
  "('a debug_world_scheme) processor \<Rightarrow> string \<Rightarrow> ('a debug_world_scheme) processor" where
  "spy_process inner address c w a =
     (case Clone w a of (w0, i) \<Rightarrow>
      case inner c w0 a of
        (w1, Failed e) \<Rightarrow>
          (record_crossing address
             \<lparr>Seq = 0, Input = i, Output = None, WasDropped = False, Error = err_text (unlabel e)\<rparr> w1,
           Failed (unlabel e))
      | (w1, Dropped) \<Rightarrow>
          (record_crossing address
             \<lparr>Seq = 0, Input = i, Output = None, WasDropped = True, Error = []\<rparr> w1, Dropped)
      | (w1, Out o') \<Rightarrow>
          (case Clone w1 o' of (w2, r) \<Rightarrow>
             (record_crossing address
                \<lparr>Seq = 0, Input = i, Output = Some r, WasDropped = False, Error = []\<rparr> w2, Out o')))"

definition breakpoint_process ::
  "('a debug_world_scheme) processor \<Rightarrow> ('a debug_world_scheme) processor" where
  "breakpoint_process inner c w a =
     (case inner c w a of
        (w1, Failed e) \<Rightarrow> (w1, Failed (unlabel e))
      | (w1, Dropped) \<Rightarrow> (w1, Dropped)
      | (w1, Out o') \<Rightarrow>
          (case Clone w1 o' of (w2, s) \<Rightarrow>
             (upd (w2\<lparr>the_breakpoint := bp_Record s (the_breakpoint w2)\<rparr>) o' RequestStop, Out o')))"

section \<open>Mocks\<close>

record mock_case =
  mc_When :: string
  mc_Body :: gval
  mc_Vars :: "(string \<times> gval) list"
  mc_Error :: string
  mc_Drop :: bool

record mock_spec =
  Cases :: "mock_case list"
  Default :: "mock_case option"

definition outcomes_set :: "mock_case \<Rightarrow> string list" where
  "outcomes_set c =
     (if mc_Body c \<noteq> GNull then [''body''] else []) @ (if mc_Error c \<noteq> [] then [''error''] else []) @
     (if mc_Drop c then [''drop''] else [])"

definition validateOutcome :: "mock_case \<Rightarrow> err option" where
  "validateOutcome c =
     (let st = outcomes_set c in
      if length st = 0 then Some (Err ''needs an outcome: one of `body`, `error` or `drop`'')
      else if length st = 1
      then (if mc_Vars c \<noteq> [] \<and> mc_Body c = GNull
            then Some (Err ''`vars` only goes with a `body`: a block that failed or dropped returned no message'')
            else None)
      else Some (Err (''has more than one outcome (['' @ join_with '' '' st @
             '']): a block either returns a message, fails, or drops it'')))"

fun validate_cases :: "nat \<Rightarrow> mock_case list \<Rightarrow> err option" where
  "validate_cases i [] = None"
| "validate_cases i (c # cs) =
     (if mc_When c = []
      then Some (Err (''case '' @ itoa i @
             '' needs a `when` expression (a case with no condition is the `default`)''))
      else (case validateOutcome c of
              Some e \<Rightarrow> Some (Wrap (''case '' @ itoa i) e)
            | None \<Rightarrow> validate_cases (Suc i) cs))"

definition validateSpec :: "mock_spec \<Rightarrow> err option" where
  "validateSpec spec =
     (if Cases spec = [] \<and> Default spec = None then Some (Err ''needs at least one case, or a default'')
      else (case validate_cases 0 (Cases spec) of
              Some e \<Rightarrow> Some e
            | None \<Rightarrow>
                (case Default spec of
                   None \<Rightarrow> None
                 | Some d \<Rightarrow>
                     if mc_When d \<noteq> []
                     then Some (Err ''the default must not have a `when` expression: it is what runs when no case matched'')
                     else map_option (Wrap ''default'') (validateOutcome d))))"

text \<open>The specifications are a Go map, visited in the order of its sorted keys.\<close>

fun insert_key :: "string \<Rightarrow> string list \<Rightarrow> string list" where
  "insert_key k [] = [k]"
| "insert_key k (x # xs) =
     (if lexordp (\<lambda>a b. (of_char a :: nat) < of_char b) x k then x # insert_key k xs else k # x # xs)"

definition sortedKeys :: "(string \<times> mock_spec) list \<Rightarrow> string list" where
  "sortedKeys specs = foldr insert_key (map fst specs) []"

fun check_specs :: "(string \<times> mock_spec) list \<Rightarrow> string list \<Rightarrow> err option" where
  "check_specs specs [] = None"
| "check_specs specs (address # addresses) =
     (if address = [] then Some (Err ''mock address is empty'')
      else (case (case map_of specs address of None \<Rightarrow> None | Some s \<Rightarrow> validateSpec s) of
              Some e \<Rightarrow> Some (Wrap (''mock '' @ quote address) e)
            | None \<Rightarrow> check_specs specs addresses))"

definition NewMocks :: "(string \<times> mock_spec) list \<Rightarrow> (err, (string \<times> mock_spec) list) res" where
  "NewMocks specs =
     (case check_specs specs (sortedKeys specs) of Some e \<Rightarrow> Inl e | None \<Rightarrow> Inr specs)"

text \<open>
  A prepared outcome keeps its canned values encoded; \<open>None\<close> is an empty
  \<^verbatim>\<open>RawMessage\<close>.
\<close>

record mock_outcome =
  mo_body :: "gval option"
  mo_vars :: "gval option"
  mo_err :: string
  mo_drop :: bool

definition newMockOutcome :: "mock_case \<Rightarrow> (err, mock_outcome) res" where
  "newMockOutcome c =
     (let out = \<lparr>mo_body = None, mo_vars = None, mo_err = mc_Error c, mo_drop = mc_Drop c\<rparr> in
      if mc_Body c = GNull then Inr out
      else (case Marshal (mc_Body c) of
              None \<Rightarrow> Inl (Wrap ''body'' (Err ''unsupported type''))
            | Some body \<Rightarrow>
                if mc_Vars c \<noteq> []
                then (case Marshal (GMap (mc_Vars c)) of
                        None \<Rightarrow> Inl (Wrap ''vars'' (Err ''unsupported type''))
                      | Some vars \<Rightarrow> Inr (out\<lparr>mo_body := Some body, mo_vars := Some vars\<rparr>))
                else Inr (out\<lparr>mo_body := Some body\<rparr>)))"

text \<open>The decoded variables are a map; \<open>fold\<close> sets them in one enumeration of it.\<close>

definition set_vars :: "(string \<times> gval) list \<Rightarrow> message \<Rightarrow> message" where
  "set_vars vars m = fold (\<lambda>(k, v). SetVar k v) vars m"

definition apply_outcome :: "mock_outcome \<Rightarrow> ('a world_scheme) processor" where
  "apply_outcome o' c w a =
     (if mo_err o' \<noteq> [] then (w, Failed (Err (mo_err o')))
      else if mo_drop o' then (w, Dropped)
      else (case (case mo_body o' of None \<Rightarrow> None | Some doc \<Rightarrow> Unmarshal doc) of
              None \<Rightarrow> (w, Failed (Wrap ''mock body'' (Err ''invalid JSON'')))
            | Some body \<Rightarrow>
                let w1 = upd w a (SetBody body) in
                (case mo_vars o' of
                   None \<Rightarrow> (w1, Out a)
                 | Some doc \<Rightarrow>
                     (case Unmarshal doc of
                        Some (GMap vars) \<Rightarrow> (upd w1 a (set_vars vars), Out a)
                      | _ \<Rightarrow> (w1, Failed (Wrap ''mock vars'' (Err ''invalid JSON'')))))))"

fun mock_from ::
  "nat \<Rightarrow> (('a world_scheme) program \<times> mock_outcome) list \<Rightarrow> mock_outcome option \<Rightarrow>
   ('a world_scheme) processor" where
  "mock_from i [] def c w a =
     (case def of
        Some o' \<Rightarrow> apply_outcome o' c w a
      | None \<Rightarrow>
          (w, Failed (Err (''no mock case matched, and there is no default: '' @
             ''add a `default`, or a case with `when: \"true\"`''))))"
| "mock_from i ((when, o') # cases) def c w a =
     (case EvalCondition when w (heap w a) of
        Inl e \<Rightarrow> (w, Failed (Wrap (''mock case '' @ itoa i) e))
      | Inr True \<Rightarrow> apply_outcome o' c w a
      | Inr False \<Rightarrow> mock_from (Suc i) cases def c w a)"

definition mock_process ::
  "(('a world_scheme) program \<times> mock_outcome) list \<Rightarrow> mock_outcome option \<Rightarrow>
   ('a world_scheme) processor" where
  "mock_process = mock_from 0"

text \<open>
  Building a mock from its specification; \<open>compile\<close> is \<^verbatim>\<open>expr.CompileMessage\<close>.
\<close>

fun build_cases ::
  "(string \<Rightarrow> (err, 'w program) res) \<Rightarrow> string \<Rightarrow> nat \<Rightarrow> mock_case list \<Rightarrow>
   (err, ('w program \<times> mock_outcome) list) res" where
  "build_cases compile address i [] = Inr []"
| "build_cases compile address i (c # cs) =
     (let tag = Wrap (''mock '' @ quote address @ '' case '' @ itoa i) in
      case compile (mc_When c) of
        Inl e \<Rightarrow> Inl (tag e)
      | Inr when \<Rightarrow>
          (case newMockOutcome c of
             Inl e \<Rightarrow> Inl (tag e)
           | Inr o' \<Rightarrow>
               bind_res (build_cases compile address (Suc i) cs) (\<lambda>rest. Inr ((when, o') # rest))))"

definition build_mock ::
  "(string \<Rightarrow> (err, ('a world_scheme) program) res) \<Rightarrow> (string \<times> mock_spec) list \<Rightarrow> string \<Rightarrow>
   (err, ('a world_scheme) processor) res" where
  "build_mock compile specs address =
     (case map_of specs address of
        None \<Rightarrow> Inl (Err (''mock block has no spec for address '' @ quote address))
      | Some spec \<Rightarrow>
          bind_res (build_cases compile address 0 (Cases spec)) (\<lambda>cases.
            case Default spec of
              None \<Rightarrow> Inr (mock_process cases None)
            | Some d \<Rightarrow>
                (case newMockOutcome d of
                   Inl e \<Rightarrow> Inl (Wrap (''mock '' @ quote address @ '' default'') e)
                 | Inr o' \<Rightarrow> Inr (mock_process cases (Some o')))))"

section \<open>Laws of the collectors\<close>

lemma Records_spies_Record:
  "Records (spies_Record address rec s) b =
     (if b = address \<and> spy_lists s address \<noteq> None then Records s b @ [rec\<lparr>Seq := seq s + 1\<rparr>]
      else Records s b)"
  by (auto simp: Records_def spies_Record_def split: option.splits)

lemma NewSpies_from_order:
  "NewSpies_from addrs s = Inr s' \<Longrightarrow>
   order s' = order s @ addrs \<and> seq s' = seq s \<and>
   (\<forall>a. spy_lists s' a = (if a \<in> set addrs then Some [] else spy_lists s a)) \<and>
   (\<forall>a \<in> set addrs. spy_lists s a = None) \<and> distinct addrs"
proof (induction addrs arbitrary: s)
  case (Cons x addrs)
  from Cons.prems have n: "spy_lists s x = None"
    and r: "NewSpies_from addrs (s\<lparr>order := order s @ [x], spy_lists := (spy_lists s)(x \<mapsto> [])\<rparr>) = Inr s'"
    by (auto split: if_splits)
  from Cons.IH [OF r] n show ?case by (auto split: if_splits)
qed simp

definition spies_inv :: "spies \<Rightarrow> bool" where
  "spies_inv s \<longleftrightarrow>
     0 \<le> seq s \<and>
     (\<forall>a. sorted_wrt (<) (map Seq (Records s a)) \<and> (\<forall>r \<in> set (Records s a). 0 < Seq r \<and> Seq r \<le> seq s)) \<and>
     (\<forall>a b. a \<noteq> b \<longrightarrow> Seq ` set (Records s a) \<inter> Seq ` set (Records s b) = {})"

lemma seq_spies_Record:
  "seq (spies_Record a rec s) = (if spy_lists s a = None then seq s else seq s + 1)"
  by (simp add: spies_Record_def split: option.splits)

lemma spies_inv_Record:
  assumes "spies_inv s" shows "spies_inv (spies_Record a rec s)"
proof (cases "spy_lists s a")
  case None
  then show ?thesis using assms by (simp add: spies_Record_def)
next
  case (Some rs)
  let ?s = "spies_Record a rec s"
  have q: "seq ?s = seq s + 1" using Some by (simp add: seq_spies_Record)
  have R: "Records ?s b = (if b = a then Records s b @ [rec\<lparr>Seq := seq s + 1\<rparr>] else Records s b)" for b
    using Some by (simp add: Records_spies_Record)
  have old: "0 < Seq r \<and> Seq r \<le> seq s" if "r \<in> set (Records s b)" for r b
    using assms that by (auto simp: spies_inv_def)
  have srt: "sorted_wrt (<) (map Seq (Records s b))" for b
    using assms by (simp add: spies_inv_def)
  have "sorted_wrt (<) (map Seq (Records ?s b))" for b
    using srt [of b] old by (fastforce simp: R sorted_wrt_append)
  moreover have "0 < Seq r \<and> Seq r \<le> seq ?s" if "r \<in> set (Records ?s b)" for r b
    using that old assms by (fastforce simp: R q spies_inv_def split: if_splits)
  moreover have "Seq ` set (Records ?s b) \<inter> Seq ` set (Records ?s d) = {}" if "b \<noteq> d" for b d
  proof -
    have "Seq ` set (Records s b) \<inter> Seq ` set (Records s d) = {}"
      using assms that by (simp add: spies_inv_def)
    moreover have "seq s + 1 \<notin> Seq ` set (Records s x)" for x using old [of _ x] by force
    ultimately show ?thesis using that by (simp add: R) blast
  qed
  moreover have "0 \<le> seq ?s" using assms q by (simp add: spies_inv_def)
  ultimately show ?thesis unfolding spies_inv_def by blast
qed

lemma spies_inv_fold: "spies_inv s \<Longrightarrow> spies_inv (fold (\<lambda>(a, rec). spies_Record a rec) ops s)"
  by (induction ops arbitrary: s) (auto simp: spies_inv_Record)

lemma NewSpies_inv: "NewSpies addrs = Inr s \<Longrightarrow> spies_inv s"
  unfolding NewSpies_def by (drule NewSpies_from_order) (auto simp: spies_inv_def Records_def split: if_splits)

lemma Records_fold:
  "map (\<lambda>r. r\<lparr>Seq := 0\<rparr>) (Records (fold (\<lambda>(a, rec). spies_Record a rec) ops s) b) =
   map (\<lambda>r. r\<lparr>Seq := 0\<rparr>) (Records s b) @
     (if spy_lists s b = None then [] else map (\<lambda>(a, r). r\<lparr>Seq := 0\<rparr>) (filter (\<lambda>(a, r). a = b) ops))"
proof (induction ops arbitrary: s)
  case (Cons op ops)
  obtain a rec where op: "op = (a, rec)" by force
  have "(spy_lists (spies_Record a rec s) b = None) = (spy_lists s b = None)"
    by (auto simp: spies_Record_def split: option.splits)
  then show ?case using Cons.IH op by (auto simp: Records_spies_Record)
qed simp

text \<open>
  One total order over every spy: whatever crossings are recorded, in whatever
  interleaving, each spied address keeps exactly its own crossings in the order they were
  recorded, stamped with strictly increasing numbers, and no number is used twice, not even
  by two addresses. The addresses are listed as they were given.
\<close>

theorem spies_total_order:
  assumes "NewSpies addrs = Inr s0" and "s = fold (\<lambda>(a, rec). spies_Record a rec) ops s0"
    and "a \<in> set addrs" and "b \<noteq> a"
  shows "order s0 = addrs \<and> distinct addrs \<and>
    map (\<lambda>r. r\<lparr>Seq := 0\<rparr>) (Records s a) =
      map (\<lambda>(_, r). r\<lparr>Seq := 0\<rparr>) (filter (\<lambda>(x, _). x = a) ops) \<and>
    sorted_wrt (<) (map Seq (Records s a)) \<and>
    Seq ` set (Records s a) \<inter> Seq ` set (Records s b) = {}"
proof (intro conjI)
  have n: "order s0 = addrs" "distinct addrs" "spy_lists s0 a = Some []"
    using NewSpies_from_order [of addrs _ s0] assms(1,3) unfolding NewSpies_def by auto
  then show "order s0 = addrs" "distinct addrs" by simp_all
  show "map (\<lambda>r. r\<lparr>Seq := 0\<rparr>) (Records s a) =
         map (\<lambda>(_, r). r\<lparr>Seq := 0\<rparr>) (filter (\<lambda>(x, _). x = a) ops)"
    using Records_fold [of ops s0 a] n(3) by (simp add: assms(2) Records_def)
  have "spies_inv s" unfolding assms(2) by (intro spies_inv_fold NewSpies_inv [OF assms(1)])
  then show "sorted_wrt (<) (map Seq (Records s a))"
    and "Seq ` set (Records s a) \<inter> Seq ` set (Records s b) = {}"
    using assms(4) unfolding spies_inv_def by (simp, metis)
qed

definition sample_crossing :: "addr \<Rightarrow> spy_record" where
  "sample_crossing i = \<lparr>Seq = 0, Input = i, Output = None, WasDropped = True, Error = []\<rparr>"

theorem spies_total_order_witness:
  "map Input (Records (fold (\<lambda>(a, rec). spies_Record a rec)
       [(''f.a'', sample_crossing 1), (''f.b'', sample_crossing 2), (''f.a'', sample_crossing 3)]
       \<lparr>order = [''f.a'', ''f.b''], spy_lists = [''f.a'' \<mapsto> [], ''f.b'' \<mapsto> []], seq = 0\<rparr>) ''f.a'') = [1, 3]"
proof -
  let ?s0 = "\<lparr>order = [''f.a'', ''f.b''], spy_lists = [''f.a'' \<mapsto> [], ''f.b'' \<mapsto> []], seq = 0\<rparr>"
  let ?ops = "[(''f.a'', sample_crossing 1), (''f.b'', sample_crossing 2), (''f.a'', sample_crossing 3)]"
  let ?rs = "Records (fold (\<lambda>(a, rec). spies_Record a rec) ?ops ?s0) ''f.a''"
  have "NewSpies [''f.a'', ''f.b''] = Inr ?s0" by (simp add: NewSpies_def)
  from spies_total_order [OF this refl, of "''f.a''" "''f.b''" ?ops]
  have "map (\<lambda>r. r\<lparr>Seq := 0\<rparr>) ?rs = [sample_crossing 1, sample_crossing 3]"
    by (simp add: sample_crossing_def)
  then have "map Input (map (\<lambda>r. r\<lparr>Seq := 0\<rparr>) ?rs) = [1, 3]" by (simp add: sample_crossing_def)
  moreover have "map Input (map (\<lambda>r. r\<lparr>Seq := 0\<rparr>) xs) = map Input xs" for xs :: "spy_record list" by simp
  ultimately show ?thesis by metis
qed

section \<open>Transparency of the wrappers\<close>

lemma record_crossing_simps [simp]:
  "heap (record_crossing address rec w) = heap w"
  "hp (record_crossing address rec w) = hp w"
  "the_spies (record_crossing address rec w) = spies_Record address rec (the_spies w)"
  by (simp_all add: record_crossing_def)

text \<open>
  One crossing, taken apart: the input copy \<open>i\<close>, the inner run, and what is left.
\<close>

lemma spy_process_cases:
  assumes F: "framed_processor inner" and a: "a < hp w" and run: "spy_process inner address c w a = (w', r)"
    and cl: "Clone w a = (w0, i)" and inn: "inner c w0 a = (w1, r1)"
  shows "r = (case r1 of Failed e \<Rightarrow> Failed (unlabel e) | x \<Rightarrow> x)"
    and "b < hp w1 \<Longrightarrow> heap w' b = heap w1 b" and "hp w1 \<le> hp w'"
    and "frames w a w1" and "r1 = Out x \<Longrightarrow> owned w a w1 x \<and> x < hp w1" and "i < hp w1"
    and "heap w1 i = (heap w a)\<lparr>Body := copyBody (Body (heap w a)), bodyShared := False\<rparr>"
proof -
  note C = Clone_simps [OF cl]
  have a0: "a < hp w0" "a \<noteq> i" using C(1,2) a by auto
  have f: "frames w0 a w1" "\<And>x. r1 = Out x \<Longrightarrow> owned w0 a w1 x"
    using framed_processorD [OF F a0(1) inn] by simp_all
  have f0: "frames w a w0" using frames_Clone(1) [OF cl a] .
  show "frames w a w1" by (rule frames_trans [OF f0 owned_self f(1)])
  show "i < hp w1" using f(1) C(1,2) by (simp add: frames_def)
  have i: "i < hp w0" using C(1,2) by simp
  then show "heap w1 i = (heap w a)\<lparr>Body := copyBody (Body (heap w a)), bodyShared := False\<rparr>"
    using frames_heap [OF f(1) i] a0(2) C(5) by simp
  show "r1 = Out x \<Longrightarrow> owned w a w1 x \<and> x < hp w1"
    using f(2) owned_trans [OF f0 owned_self f(1)] owned_live [OF a0(1) f(1)] by blast
  show "r = (case r1 of Failed e \<Rightarrow> Failed (unlabel e) | x \<Rightarrow> x)"
    using run cl inn by (cases r1) (auto simp: spy_process_def split: prod.splits)
  have "hp w1 \<le> hp w' \<and> (b < hp w1 \<longrightarrow> heap w' b = heap w1 b)" for b
  proof (cases r1)
    case (Out o')
    obtain w2 s where c2: "Clone w1 o' = (w2, s)" by force
    have "w' = record_crossing address
        \<lparr>Seq = 0, Input = i, Output = Some s, WasDropped = False, Error = []\<rparr> w2"
      using run cl inn Out c2 by (simp add: spy_process_def)
    then show ?thesis using Clone_simps(1,2) [OF c2] Clone_simps(4) [OF c2, of b] by simp
  qed (use run cl inn in \<open>auto simp: spy_process_def\<close>)
  then show "hp w1 \<le> hp w'" and "b < hp w1 \<Longrightarrow> heap w' b = heap w1 b" by blast+
qed

lemma framed_spy [frame_intros]:
  assumes F: "framed_processor inner" shows "framed_processor (spy_process inner address)"
proof
  fix c and w :: "'a debug_world_scheme" and a w' r
  assume a: "a < hp w" and run: "spy_process inner address c w a = (w', r)"
  obtain w0 i where cl: "Clone w a = (w0, i)" by force
  obtain w1 r1 where inn: "inner c w0 a = (w1, r1)" by force
  note S = spy_process_cases [OF F a run cl inn]
  have "frames w a w'" using S(2-4) by (auto simp: frames_def)
  moreover have "owned w a w' b" if "r = Out b" for b
  proof -
    have "r1 = Out b" using that S(1) by (cases r1) auto
    then show ?thesis using S(3,5) by (auto simp: owned_def)
  qed
  ultimately show "frames w a w' \<and> (\<forall>b. r = Out b \<longrightarrow> owned w a w' b)" by blast
qed

definition t_unlabel :: "transformer \<Rightarrow> transformer" where
  "t_unlabel t m = t_map_err unlabel (t m)"

lemma implements_spy:
  assumes I: "implements inner T" shows "implements (spy_process inner address) (t_unlabel T)"
proof (rule implementsI [OF framed_spy [OF implements_framed [OF I]]])
  fix c and w :: "'a debug_world_scheme" and a w' r
  assume a: "a < hp w" and run: "spy_process inner address c w a = (w', r)"
  obtain w0 i where cl: "Clone w a = (w0, i)" by force
  obtain w1 r1 where inn: "inner c w0 a = (w1, r1)" by force
  note S = spy_process_cases [OF implements_framed [OF I] a run cl inn]
  have "a < hp w0" "heap w0 a = heap w a" using Clone_simps(1,2) [OF cl] Clone_simps(4) [OF cl, of a] a by auto
  then have t: "T (heap w a) = (heap w1 a, abs_outcome w1 a r1)"
    using implements_sem [OF I _ inn] by simp
  have ha: "heap w' a = heap w1 a" using S(2) [of a] S(4) a by (simp add: frames_def)
  show "(heap w' a, abs_outcome w' a r) = t_unlabel T (heap w a)"
  proof (cases r1)
    case (Out x)
    then show ?thesis using S(1,2,5) ha t by (simp add: t_unlabel_def)
  qed (use S(1) ha t in \<open>simp_all add: t_unlabel_def\<close>)
qed

text \<open>
  What the builder makes of an injected wrapper: it carries its target's label, reports no
  path, and holds the target as a chain of one block.
\<close>

definition wrapper_block :: "string \<Rightarrow> string \<Rightarrow> 'w processor \<Rightarrow> 'w block" where
  "wrapper_block label type p =
     \<lparr>bname = label, btype = type, bpath = [], bproc = (\<lambda>_. p), aware = False, bcont = None,
      lifecycle = False, stateKey = None\<rparr>"

definition spied ::
  "listeners option \<Rightarrow> string \<Rightarrow> string \<Rightarrow> ('a debug_world_scheme) block \<Rightarrow> ('a debug_world_scheme) block" where
  "spied evs fname address b =
     wrapper_block (block_label b) ''spy'' (spy_process (run_blocks evs fname [b]) address)"

lemma wrapper_block_simps [simp]:
  "block_process (wrapper_block l t p) = p" "bname (wrapper_block l t p) = l"
  "bpath (wrapper_block l t p) = []" "\<not> aware (wrapper_block l t p)"
  "btype (wrapper_block l t p) = t"
  by (simp_all add: wrapper_block_def block_process_def)

lemma t_chain_single: "t_chain [(l, t)] m = t_map_err (BlockError l) (t m)"
  by (cases "t_map_err (BlockError l) (t m)" rule: prod.exhaust)
     (simp, rename_tac n x, case_tac x, auto simp: unless_stopped_def split: prod.splits)

lemma t_unlabel_chain: "t_unlabel (t_chain [(l, t)]) = t"
proof
  fix m
  obtain n x where "t m = (n, x)" by force
  then show "t_unlabel (t_chain [(l, t)]) m = t m"
    unfolding t_unlabel_def t_chain_single by (cases x) auto
qed

lemma implements_spied:
  assumes "implements (block_process b) t"
  shows "implements (block_process (spied evs fname address b)) t"
proof -
  have "implements (run_blocks evs fname [b]) (t_chain [(block_label b, t)])"
    using implements_run_blocks [of "[b]" "[t]" evs fname] assms by simp
  from implements_spy [OF this, of address] show ?thesis
    by (simp add: spied_def t_unlabel_chain)
qed

lemma block_label_spied:
  "block_label b \<noteq> [] \<Longrightarrow> block_label (spied evs fname address b) = block_label b"
  by (simp add: spied_def block_label_def [of "wrapper_block _ _ _"] blockLabel_def)

text \<open>
  A spied run is the run that would have happened anyway: with the block at any position of a
  chain wrapped in a spy, the chain leaves the same message and the same outcome, errors
  labelled with the same block included.
\<close>

lemma spy_transparent:
  assumes "list_all2 (\<lambda>b t. implements (block_process b) t) bs ts" and "n < length bs"
    and "block_label (bs ! n) \<noteq> []" and "a < hp w"
    and "run_blocks evs fname bs c w a = (w1, r1)"
    and "run_blocks evs fname (bs[n := spied evs fname address (bs ! n)]) c w a = (w2, r2)"
  shows "heap w2 a = heap w1 a \<and> abs_outcome w2 a r2 = abs_outcome w1 a r1"
proof -
  let ?bs = "bs[n := spied evs fname address (bs ! n)]"
  have "list_all2 (\<lambda>b t. implements (block_process b) t) ?bs ts"
    using assms(1,2) by (auto simp: list_all2_conv_all_nth nth_list_update implements_spied)
  then have I: "implements (run_blocks evs fname ?bs) (t_chain (zip (map block_label ?bs) ts))"
    by (rule implements_run_blocks)
  have "map block_label ?bs = (map block_label bs)[n := map block_label bs ! n]"
    using assms(2) block_label_spied [OF assms(3)] by (simp add: map_update)
  then have "map block_label ?bs = map block_label bs" by (simp only: list_update_id)
  then have "(heap w2 a, abs_outcome w2 a r2) = t_chain (zip (map block_label bs) ts) (heap w a)"
    using implements_sem [OF I assms(4,6)] by (simp only:)
  moreover have "(heap w1 a, abs_outcome w1 a r1) = t_chain (zip (map block_label bs) ts) (heap w a)"
    using implements_sem [OF implements_run_blocks [OF assms(1)] assms(4,5)] .
  ultimately show ?thesis by (metis Pair_inject)
qed

definition sample_debug_world :: debug_world where
  "sample_debug_world =
     \<lparr>heap = (\<lambda>_. sample_message), hp = 1, entropy = [], deliveries = [], panic_count = 0,
      the_spies = \<lparr>order = [''orders.a''], spy_lists = [''orders.a'' \<mapsto> []], seq = 0\<rparr>,
      the_breakpoint = NewBreakpoint ''orders.a''\<rparr>"

definition sample_leaf :: "string \<Rightarrow> debug_world processor \<Rightarrow> debug_world block" where
  "sample_leaf name p =
     \<lparr>bname = name, btype = ''set-variable'', bpath = ''orders.'' @ name, bproc = (\<lambda>_. p), aware = False,
      bcont = None, lifecycle = False, stateKey = None\<rparr>"

lemma sample_leaf_simps [simp]:
  "block_process (sample_leaf n p) = p" "bname (sample_leaf n p) = n"
  "btype (sample_leaf n p) = ''set-variable''" "bpath (sample_leaf n p) = ''orders.'' @ n"
  by (simp_all add: sample_leaf_def block_process_def)

lemma sample_debug_world_simps [simp]:
  "hp sample_debug_world = 1" "heap sample_debug_world a = sample_message"
  "spy_lists (the_spies sample_debug_world) = [''orders.a'' \<mapsto> []]"
  "snapshot (the_breakpoint sample_debug_world) = None"
  by (simp_all add: sample_debug_world_def NewBreakpoint_def)

text \<open>
  What a spy records: one record per crossing, under its own address, whose input is a
  copy of the message as the block received it (not as the block left it), and whose outcome
  is a copy of the message returned, the drop, or the text of the error passed on. The copies
  are fresh messages, which no other processor that keeps the frame contract can rewrite.
\<close>

theorem spy_records_crossing:
  assumes "framed_processor inner" and "a < hp w" and "spy_process inner address c w a = (w', r)"
    and "Clone w a = (w0, i)" and "inner c w0 a = (w1, r1)"
    and "spy_lists (the_spies w1) address \<noteq> None"
  shows "\<exists>rec. Records (the_spies w') address = Records (the_spies w1) address @ [rec] \<and>
     hp w \<le> Input rec \<and> Input rec < hp w' \<and>
     heap w' (Input rec) = (heap w a)\<lparr>Body := copyBody (Body (heap w a)), bodyShared := False\<rparr> \<and>
     (case r of
        Failed e \<Rightarrow> Error rec = err_text e \<and> Output rec = None \<and> \<not> WasDropped rec
      | Dropped \<Rightarrow> WasDropped rec \<and> Output rec = None \<and> Error rec = []
      | Out o' \<Rightarrow> \<not> WasDropped rec \<and> Error rec = [] \<and>
          (\<exists>x. Output rec = Some x \<and> hp w \<le> x \<and> x < hp w' \<and> x \<noteq> o' \<and> x \<noteq> Input rec \<and>
             heap w' x = (heap w' o')\<lparr>Body := copyBody (Body (heap w' o')), bodyShared := False\<rparr>))"
proof -
  note S = spy_process_cases [OF assms(1-5)]
  have i: "hp w \<le> i" "i < hp w'" using Clone_simps(1) [OF assms(4)] S(3,6) by auto
  have hi: "heap w' i = (heap w a)\<lparr>Body := copyBody (Body (heap w a)), bodyShared := False\<rparr>"
    using S(2) [OF S(6)] S(7) by simp
  show ?thesis
  proof (cases r1)
    case (Out o')
    obtain w2 s where c2: "Clone w1 o' = (w2, s)" by force
    have w': "w' = record_crossing address
        \<lparr>Seq = 0, Input = i, Output = Some s, WasDropped = False, Error = []\<rparr> w2" "r = Out o'"
      using assms(3-5) Out c2 by (simp_all add: spy_process_def)
    have "the_spies w2 = the_spies w1" using c2 by (auto simp: Clone_def alloc_def Let_def)
    moreover have "o' < hp w1" using S(5) Out by blast
    moreover have "hp w \<le> hp w1" using S(4) by (simp add: frames_def)
    ultimately show ?thesis
      using w' i hi assms(6) Clone_simps(1,2,5) [OF c2] Clone_simps(4) [OF c2, of o'] S(6)
      by (auto simp: Records_spies_Record)
  qed (use assms(3-6) i hi in \<open>auto simp: spy_process_def Records_spies_Record\<close>)
qed

theorem spy_records_crossing_witness:
  "\<exists>rec. Records (the_spies (fst (spy_process (set_variable ''x'' (\<lambda>_ _. Inr (GInt 1))) ''orders.a''
             (Ctx False) sample_debug_world 0))) ''orders.a'' = [rec] \<and>
     Variables (heap (fst (spy_process (set_variable ''x'' (\<lambda>_ _. Inr (GInt 1))) ''orders.a''
             (Ctx False) sample_debug_world 0)) (Input rec)) ''x'' = None"
proof -
  let ?p = "set_variable ''x'' (\<lambda>_ _. Inr (GInt 1)) :: debug_world processor"
  obtain w' r where run: "spy_process ?p ''orders.a'' (Ctx False) sample_debug_world 0 = (w', r)" by force
  obtain w0 i where cl: "Clone sample_debug_world 0 = (w0, i)" by force
  obtain w1 r1 where inn: "?p (Ctx False) w0 0 = (w1, r1)" by force
  have s: "the_spies w1 = the_spies sample_debug_world"
    using cl inn by (auto simp: Clone_def alloc_def Let_def set_variable_def upd_def)
  from spy_records_crossing [OF implements_framed [OF set_variable.implements_axioms] _ run cl inn] s
  obtain rec where "Records (the_spies w') ''orders.a'' = Records (the_spies w1) ''orders.a'' @ [rec]"
    and "heap w' (Input rec) = sample_message\<lparr>Body := copyBody (Body sample_message), bodyShared := False\<rparr>"
    by auto
  then show ?thesis using run s by (simp add: Records_def sample_message_def)
qed

section \<open>Breakpoints\<close>

text \<open>
  A breakpoint halts the run at its block: the chain returns the wrapped block's message
  with a stop and no later block runs; the snapshot is a fresh copy of that message without
  the stop marker, unless an earlier arrival was already recorded, which is kept.
\<close>

theorem breakpoint_halts_chain:
  assumes "framed_processor inner" and "a < hp w" and "inner c w a = (w1, Out o')"
  shows "\<exists>w'. run_blocks evs fname (wrapper_block label ''breakpoint'' (breakpoint_process inner) # later) c w a =
       (w', Out o') \<and>
     heap w' o' = RequestStop (heap w1 o') \<and>
     (case snapshot (the_breakpoint w1) of
        Some s \<Rightarrow> snapshot (the_breakpoint w') = Some s
      | None \<Rightarrow> \<exists>s. snapshot (the_breakpoint w') = Some s \<and> hp w \<le> s \<and> s \<noteq> o' \<and>
          heap w' s = (heap w1 o')\<lparr>Body := copyBody (Body (heap w1 o')), bodyShared := False\<rparr>)"
proof -
  obtain w2 s where c2: "Clone w1 o' = (w2, s)" by force
  let ?w' = "upd (w2\<lparr>the_breakpoint := bp_Record s (the_breakpoint w2)\<rparr>) o' RequestStop"
  have o: "o' < hp w1" by (rule framed_processor.result_live [OF assms])
  have g: "hp w \<le> hp w1" using framed_processor.frame [OF assms] by (simp add: frames_def)
  have bp: "the_breakpoint w2 = the_breakpoint w1" using c2 by (auto simp: Clone_def alloc_def Let_def)
  note C = Clone_simps(1,2,5) [OF c2] Clone_simps(4) [OF c2, of o']
  have "run_blocks evs fname (wrapper_block label ''breakpoint'' (breakpoint_process inner) # later) c w a =
      (?w', Out o')"
    using assms(3) c2 by (simp add: invoke_def observed_def emit_if_def Let_def breakpoint_process_def split: option.splits)
  moreover have "heap ?w' o' = RequestStop (heap w1 o')" using C o by simp
  moreover have "case snapshot (the_breakpoint w1) of
        Some s \<Rightarrow> snapshot (the_breakpoint ?w') = Some s
      | None \<Rightarrow> \<exists>s. snapshot (the_breakpoint ?w') = Some s \<and> hp w \<le> s \<and> s \<noteq> o' \<and>
          heap ?w' s = (heap w1 o')\<lparr>Body := copyBody (Body (heap w1 o')), bodyShared := False\<rparr>"
    using C o g bp by (simp add: bp_Record_def upd_def split: option.splits)
  ultimately show ?thesis by blast
qed

theorem breakpoint_halts_chain_witness:
  "\<exists>w' s. run_blocks None ''orders''
      [wrapper_block ''a'' ''breakpoint'' (breakpoint_process (set_variable ''x'' (\<lambda>_ _. Inr (GInt 1)))),
       sample_leaf ''b'' (set_variable ''x'' (\<lambda>_ _. Inr (GInt 2)))] (Ctx False) sample_debug_world 0 = (w', Out 0) \<and>
     snapshot (the_breakpoint w') = Some s \<and> Variables (heap w' s) ''x'' = Some (GInt 1) \<and>
     \<not> StopRequested (heap w' s)"
proof -
  let ?p = "set_variable ''x'' (\<lambda>_ _. Inr (GInt 1)) :: debug_world processor"
  let ?w1 = "upd sample_debug_world 0 (SetVar ''x'' (GInt 1))"
  have p: "?p (Ctx False) sample_debug_world 0 = (?w1, Out 0)" by (simp add: set_variable_def)
  have bp: "snapshot (the_breakpoint ?w1) = None"
    by (simp add: sample_debug_world_def upd_def NewBreakpoint_def)
  from breakpoint_halts_chain [OF implements_framed [OF set_variable.implements_axioms] _ p,
      of None "''orders''" "''a''" "[sample_leaf ''b'' (set_variable ''x'' (\<lambda>_ _. Inr (GInt 2)))]"] bp
  show ?thesis
    by (auto simp: sample_message_def StopRequested_def var_Bool_def reserved_defs)
qed

section \<open>Mocks stand in\<close>

definition t_outcome :: "mock_case \<Rightarrow> transformer" where
  "t_outcome c m =
     (if mc_Error c \<noteq> [] then (m, TFail (Err (mc_Error c)))
      else if mc_Drop c then (m, TDrop)
      else (set_vars (map (\<lambda>(k, v). (k, json_normal v)) (mc_Vars c)) (SetBody (json_normal (mc_Body c)) m), TSame))"

fun t_mock :: "(string \<Rightarrow> pure_program) \<Rightarrow> nat \<Rightarrow> mock_case list \<Rightarrow> mock_case option \<Rightarrow> transformer" where
  "t_mock prog i [] def m =
     (case def of
        Some c \<Rightarrow> t_outcome c m
      | None \<Rightarrow> (m, TFail (Err (''no mock case matched, and there is no default: '' @
             ''add a `default`, or a case with `when: \"true\"`''))))"
| "t_mock prog i (c # cs) def m =
     (case EvalCondition (\<lambda>_. prog (mc_When c)) () m of
        Inl e \<Rightarrow> (m, TFail (Wrap (''mock case '' @ itoa i) e))
      | Inr True \<Rightarrow> t_outcome c m
      | Inr False \<Rightarrow> t_mock prog (Suc i) cs def m)"

text \<open>The canned values are shallow enough for the JSON decoder.\<close>

definition shallow_case :: "mock_case \<Rightarrow> bool" where
  "shallow_case c \<longleftrightarrow> nesting (mc_Body c) \<le> maxCopyDepth \<and> nesting (GMap (mc_Vars c)) \<le> maxCopyDepth"

lemma validateOutcome_one:
  assumes "validateOutcome c = None"
  shows "mc_Body c \<noteq> GNull \<longleftrightarrow> mc_Error c = [] \<and> \<not> mc_Drop c"
    and "mc_Error c = [] \<or> \<not> mc_Drop c" and "mc_Vars c \<noteq> [] \<longrightarrow> mc_Body c \<noteq> GNull"
  using assms by (auto simp: validateOutcome_def outcomes_set_def Let_def split: if_splits)

lemma framed_apply_outcome [frame_intros]: "framed_processor (apply_outcome o')"
  by (rule framed_processorI)
     (auto simp: apply_outcome_def Let_def split: if_splits option.splits gval.splits intro!: frames_upd)

lemma implements_outcome:
  assumes "validateOutcome c = None" and "newMockOutcome c = Inr o'" and "shallow_case c"
  shows "implements (apply_outcome o') (t_outcome c)"
proof (rule implementsI [OF framed_apply_outcome])
  fix x and w :: "'a world_scheme" and a w' r
  assume run: "apply_outcome o' x w a = (w', r)"
  note V = validateOutcome_one [OF assms(1)]
  show "(heap w' a, abs_outcome w' a r) = t_outcome c (heap w a)"
  proof (cases "mc_Body c = GNull")
    case True
    then have "o' = \<lparr>mo_body = None, mo_vars = None, mo_err = mc_Error c, mo_drop = mc_Drop c\<rparr>"
      using assms(2) by (simp add: newMockOutcome_def Let_def)
    then show ?thesis using run V True by (auto simp: apply_outcome_def t_outcome_def)
  next
    case False
    then have e: "mc_Error c = []" "\<not> mc_Drop c" using V(1) by simp_all
    have n: "nesting (mc_Body c) \<le> maxCopyDepth" "nesting (GMap (mc_Vars c)) \<le> maxCopyDepth"
      using assms(3) by (simp_all add: shallow_case_def)
    show ?thesis
    proof (cases "mc_Vars c = []")
      case True
      then have "encodable (mc_Body c)"
        "o' = \<lparr>mo_body = Some (mc_Body c), mo_vars = None, mo_err = [], mo_drop = False\<rparr>"
        using assms(2) False e by (auto simp: newMockOutcome_def Let_def Marshal_def split: if_splits)
      then show ?thesis using run e n(1) True
        by (auto simp: apply_outcome_def t_outcome_def Unmarshal_def set_vars_def Let_def)
    next
      case vs: False
      then have enc: "encodable (mc_Body c)" "encodable (GMap (mc_Vars c))"
        and o': "o' = \<lparr>mo_body = Some (mc_Body c), mo_vars = Some (GMap (mc_Vars c)), mo_err = [], mo_drop = False\<rparr>"
        using assms(2) False e by (auto simp: newMockOutcome_def Let_def Marshal_def split: if_splits)
      have "Unmarshal (GMap (mc_Vars c)) = Some (GMap (map (\<lambda>(k, v). (k, json_normal v)) (mc_Vars c)))"
        using enc(2) n(2) by (simp add: Unmarshal_def)
      then show ?thesis using run e enc(1) n(1) o'
        by (auto simp: apply_outcome_def t_outcome_def Unmarshal_def [of "mc_Body c"] Let_def)
    qed
  qed
qed

lemma build_cases_progs:
  assumes "build_cases (\<lambda>s. Inr (\<lambda>_. prog s)) address i cs = Inr ps"
  shows "list_all2 (\<lambda>c p. fst p = (\<lambda>_. prog (mc_When c)) \<and> newMockOutcome c = Inr (snd p)) cs ps"
  using assms
  by (induction cs arbitrary: i ps) (auto simp: Let_def bind_res_def split: sum.splits)

lemma implements_mock_from:
  assumes "list_all2 (\<lambda>c p. fst p = (\<lambda>_. prog (mc_When c)) \<and>
      implements (apply_outcome (snd p) :: ('a world_scheme) processor) (t_outcome c)) cs ps"
    and "rel_option (\<lambda>c o'. implements (apply_outcome o' :: ('a world_scheme) processor) (t_outcome c)) def d"
  shows "implements (mock_from i ps d :: ('a world_scheme) processor) (t_mock prog i cs def)"
  using assms(1)
proof (induction cs ps arbitrary: i rule: list_all2_induct)
  case Nil
  show ?case
  proof (cases d)
    case None
    then have "def = None" using assms(2) by simp
    then show ?thesis using None by (intro implementsI framed_processorI) auto
  next
    case (Some o')
    then obtain c where "def = Some c" "implements (apply_outcome o' :: ('a world_scheme) processor) (t_outcome c)"
      using assms(2) by (auto simp: option_rel_Some2)
    then show ?thesis using Some by (simp add: implements_def implements_axioms_def framed_processor_def)
  qed
next
  case (Cons c cs p ps)
  obtain guard o' where p: "p = (guard, o')" by force
  have I: "implements (apply_outcome o' :: ('a world_scheme) processor) (t_outcome c)"
    and w: "guard = (\<lambda>_. prog (mc_When c))" using Cons.hyps(1) p by auto
  note R = Cons.IH [of "Suc i"]
  let ?P = "mock_from i (p # ps) d :: ('a world_scheme) processor"
  have eq: "?P x wd a = (case EvalCondition (\<lambda>_. prog (mc_When c)) () (heap wd a) of
        Inl e \<Rightarrow> (wd, Failed (Wrap (''mock case '' @ itoa i) e))
      | Inr True \<Rightarrow> apply_outcome o' x wd a
      | Inr False \<Rightarrow> mock_from (Suc i) ps d x wd a)" for x wd a
    using EvalCondition_pure [of "prog (mc_When c)" wd] by (simp add: p w)
  show ?case
  proof (rule implementsI)
    show "framed_processor ?P"
      using implements_framed [OF I] implements_framed [OF R]
      by (intro framed_processorI)
         (auto simp: eq split: sum.splits bool.splits dest: framed_processorD)
    fix x and wd :: "'a world_scheme" and a w' r
    assume "a < hp wd" and "?P x wd a = (w', r)"
    then show "(heap w' a, abs_outcome w' a r) = t_mock prog i (c # cs) def (heap wd a)"
      using implements_sem [OF I, of a wd x w' r] implements_sem [OF R, of a wd x w' r]
      by (auto simp: eq split: sum.splits bool.splits)
  qed
qed

lemma set_sortedKeys: "set (sortedKeys specs) = fst ` set specs"
proof -
  have "set (insert_key k ks) = insert k (set ks)" for k ks by (induction ks) auto
  then have "set (foldr insert_key xs []) = set xs" for xs by (induction xs) auto
  then show ?thesis by (simp add: sortedKeys_def)
qed

lemma check_specs_valid:
  "check_specs specs as = None \<Longrightarrow> a \<in> set as \<Longrightarrow> map_of specs a = Some spec \<Longrightarrow> validateSpec spec = None"
  by (induction as) (auto split: if_splits option.splits)

lemma validate_cases_None: "validate_cases i cs = None \<Longrightarrow> c \<in> set cs \<Longrightarrow> validateOutcome c = None"
  by (induction cs arbitrary: i) (auto split: if_splits option.splits)

lemma NewMocks_valid:
  assumes "NewMocks specs = Inr specs'" and "map_of specs address = Some spec"
  shows "specs' = specs" and "c \<in> set (Cases spec) \<union> set_option (Default spec) \<Longrightarrow> validateOutcome c = None"
proof -
  have "address \<in> set (sortedKeys specs)"
    using map_of_SomeD [OF assms(2)] by (force simp: set_sortedKeys)
  then have v: "validateSpec spec = None"
    using assms by (auto simp: NewMocks_def intro: check_specs_valid split: option.splits)
  show "specs' = specs" using assms(1) by (simp add: NewMocks_def split: option.splits)
  show "validateOutcome c = None" if "c \<in> set (Cases spec) \<union> set_option (Default spec)"
    using v that by (auto simp: validateSpec_def intro: validate_cases_None split: if_splits option.splits)
qed

text \<open>
  A mock stands in for its block: for specifications that passed validation, the block
  built for an address answers with the outcome of the first case whose condition holds on
  the message it received, else with the default, else with an error. The outcome is exactly
  the one the case names: the error, the drop, or the canned body and variables decoded anew
  for each message; the body never fails to decode.
\<close>

theorem mock_stands_in:
  assumes "NewMocks specs = Inr specs'" and "map_of specs address = Some spec"
    and "build_mock (\<lambda>s. Inr (\<lambda>_. prog s)) specs' address = Inr P"
    and "list_all shallow_case (Cases spec)" and "pred_option shallow_case (Default spec)"
  shows "implements (P :: ('a world_scheme) processor) (t_mock prog 0 (Cases spec) (Default spec))"
proof -
  note V = NewMocks_valid [OF assms(1,2)]
  obtain ps :: "(('a world_scheme) program \<times> mock_outcome) list"
    where ps: "build_cases (\<lambda>s. Inr (\<lambda>_. prog s)) address 0 (Cases spec) = Inr ps"
    using assms(2,3) V(1) by (auto simp: build_mock_def bind_res_def split: sum.splits)
  have "list_all2 (\<lambda>c p. fst p = (\<lambda>_. prog (mc_When c)) \<and>
      implements (apply_outcome (snd p) :: ('a world_scheme) processor) (t_outcome c)) (Cases spec) ps"
    using build_cases_progs [OF ps] V(2) assms(4)
    by (auto simp: list_all2_conv_all_nth list_all_length intro: implements_outcome)
  note M = implements_mock_from [OF this]
  show ?thesis
  proof (cases "Default spec")
    case None
    then show ?thesis using assms(2,3) V(1) ps M [of None None 0] by (simp add: build_mock_def mock_process_def)
  next
    case (Some d)
    then obtain o' where o': "newMockOutcome d = Inr o'" "P = mock_process ps (Some o')"
      using assms(2,3) V(1) ps by (auto simp: build_mock_def split: sum.splits)
    have "implements (apply_outcome o' :: ('a world_scheme) processor) (t_outcome d)"
      using implements_outcome [OF V(2) o'(1)] Some assms(5) by simp
    then show ?thesis using Some o'(2) M [of "Some d" "Some o'" 0] by (simp add: mock_process_def)
  qed
qed

definition sample_spec :: mock_spec where
  "sample_spec =
     \<lparr>Cases = [\<lparr>mc_When = ''vip'', mc_Body = GStr ''gold'', mc_Vars = [(''status'', GInt 200)], mc_Error = [], mc_Drop = False\<rparr>],
      Default = Some \<lparr>mc_When = [], mc_Body = GNull, mc_Vars = [], mc_Error = ''down'', mc_Drop = False\<rparr>\<rparr>"

theorem mock_stands_in_witness:
  "\<exists>P :: world processor.
     build_mock (\<lambda>s. Inr (\<lambda>_ _. Inr (GBool (s = ''vip'')))) [(''f.call'', sample_spec)] ''f.call'' = Inr P \<and>
     implements P (t_mock (\<lambda>s _. Inr (GBool (s = ''vip''))) 0 (Cases sample_spec) (Default sample_spec)) \<and>
     t_mock (\<lambda>s _. Inr (GBool (s = ''vip''))) 0 (Cases sample_spec) (Default sample_spec) sample_message =
       (SetVar ''status'' (GFloat 200) (SetBody (GStr ''gold'') sample_message), TSame)"
proof -
  let ?prog = "\<lambda>s (_ :: message). Inr (GBool (s = ''vip'')) :: (err, gval) res"
  let ?specs = "[(''f.call'', sample_spec)]"
  have n: "NewMocks ?specs = Inr ?specs"
    by (simp add: NewMocks_def sortedKeys_def validateSpec_def sample_spec_def validateOutcome_def outcomes_set_def Let_def)
  obtain P :: "world processor" where b: "build_mock (\<lambda>s. Inr (\<lambda>_. ?prog s)) ?specs ''f.call'' = Inr P"
    by (simp add: build_mock_def sample_spec_def newMockOutcome_def Marshal_def Let_def)
  have sh: "list_all shallow_case (Cases sample_spec)" "pred_option shallow_case (Default sample_spec)"
    by (simp_all add: sample_spec_def shallow_case_def maxCopyDepth_def)
  from mock_stands_in [OF n _ b sh] have "implements P (t_mock ?prog 0 (Cases sample_spec) (Default sample_spec))"
    by simp
  moreover have "t_mock ?prog 0 (Cases sample_spec) (Default sample_spec) sample_message =
       (SetVar ''status'' (GFloat 200) (SetBody (GStr ''gold'') sample_message), TSame)"
    by (simp add: sample_spec_def EvalCondition_def t_outcome_def set_vars_def float64_of_int_exact)
  ultimately show ?thesis using b by blast
qed

end
