(* ===== verification/Octo_Builder.thy ===== *)
theory Octo_Builder
  imports Octo_Debug Octo_Address
begin

text \<open>
  Assembling a flow from its configuration: the builder of
  \<^verbatim>\<open>runtime/core/engine/flow.go\<close> with the injected blocks of
  \<^verbatim>\<open>engine/spy.go\<close>, \<^verbatim>\<open>breakpoint.go\<close> and \<^verbatim>\<open>mock.go\<close>, the
  sub-flow seam of \<^verbatim>\<open>runtime/core/subflows.go\<close>, and the factories of the control-flow
  blocks (\<^verbatim>\<open>runtime/blocks/controlflow\<close>) and setters
  (\<^verbatim>\<open>runtime/blocks/builtin\<close>).

  A block's factory builds sub-flows through the seam, so the builder recurses through code it
  does not own, and a processor definition may refer to itself: the recursion need not end.
  The builder takes fuel, one unit per nested block, and \<open>Diverge\<close> is running out of it.
  The registry of factories is a parameter, \<open>compile\<close> stands for
  \<^verbatim>\<open>expr.CompileMessage\<close>. Settings are the decoded JSON object; its keys are matched
  as the tags spell them.
\<close>

section \<open>Build results\<close>

datatype 'a build = Diverge | Reject err | Built 'a

fun bind_build :: "'a build \<Rightarrow> ('a \<Rightarrow> 'b build) \<Rightarrow> 'b build" where
  "bind_build Diverge k = Diverge"
| "bind_build (Reject e) k = Reject e"
| "bind_build (Built x) k = k x"

fun wrap_build :: "string \<Rightarrow> 'a build \<Rightarrow> 'a build" where
  "wrap_build s (Reject e) = Reject (Wrap s e)"
| "wrap_build s r = r"

definition of_res :: "(err, 'a) res \<Rightarrow> 'a build" where
  "of_res r = (case r of Inl e \<Rightarrow> Reject e | Inr x \<Rightarrow> Built x)"

fun map_build :: "('a \<Rightarrow> 'b build) \<Rightarrow> 'a list \<Rightarrow> 'b list build" where
  "map_build f [] = Built []"
| "map_build f (x # xs) = bind_build (f x) (\<lambda>y. bind_build (map_build f xs) (\<lambda>ys. Built (y # ys)))"

section \<open>Configuration\<close>

type_synonym settings = "(string \<times> gval) list"

record flow_spec = flow_config +
  fc_source :: "gval option"
  fc_workers :: int
  fc_buffer :: int
  fc_pool :: int

definition chain_spec :: "string \<Rightarrow> block_config list \<Rightarrow> flow_spec" where
  "chain_spec name process =
     \<lparr>fc_name = name, fc_process = process, fc_error = [], fc_source = None, fc_workers = 0,
      fc_buffer = 0, fc_pool = 0\<rparr>"

record processor_config =
  pc_name :: string
  pc_type :: string
  pc_settings :: settings

text \<open>
  Decoding settings into a struct. A missing or null field keeps its zero value; a key the
  struct does not declare is an error under \<^verbatim>\<open>DecodeStrict\<close>, in the struct itself and
  in the \<^verbatim>\<open>FlowConfig\<close>s it holds.
\<close>

definition decode_error :: "string \<Rightarrow> err" where
  "decode_error s = Wrap ''decode settings'' (Err s)"

definition DecodeStrict :: "string list \<Rightarrow> settings \<Rightarrow> (err, settings) res" where
  "DecodeStrict keys st =
     (case filter (\<lambda>kv. fst kv \<notin> set keys) st of
        [] \<Rightarrow> Inr st
      | (k, _) # _ \<Rightarrow> Inl (decode_error (''json: unknown field '' @ quote k)))"

definition get_string :: "settings \<Rightarrow> string \<Rightarrow> (err, string) res" where
  "get_string st key =
     (case map_of st key of
        None \<Rightarrow> Inr [] | Some GNull \<Rightarrow> Inr [] | Some (GStr s) \<Rightarrow> Inr s
      | Some _ \<Rightarrow> Inl (decode_error (''cannot unmarshal field '' @ key)))"

definition get_bool :: "settings \<Rightarrow> string \<Rightarrow> (err, bool) res" where
  "get_bool st key =
     (case map_of st key of
        None \<Rightarrow> Inr False | Some GNull \<Rightarrow> Inr False | Some (GBool b) \<Rightarrow> Inr b
      | Some _ \<Rightarrow> Inl (decode_error (''cannot unmarshal field '' @ key)))"

definition get_int :: "settings \<Rightarrow> string \<Rightarrow> (err, int) res" where
  "get_int st key =
     (case map_of st key of
        None \<Rightarrow> Inr 0 | Some GNull \<Rightarrow> Inr 0 | Some (GInt n) \<Rightarrow> Inr n | Some (GInt64 n) \<Rightarrow> Inr n
      | Some (GFloat q) \<Rightarrow>
          if of_int \<lfloor>q\<rfloor> = q then Inr \<lfloor>q\<rfloor> else Inl (decode_error (''cannot unmarshal field '' @ key))
      | Some _ \<Rightarrow> Inl (decode_error (''cannot unmarshal field '' @ key)))"

definition get_list :: "settings \<Rightarrow> string \<Rightarrow> (err, gval list) res" where
  "get_list st key =
     (case map_of st key of
        None \<Rightarrow> Inr [] | Some GNull \<Rightarrow> Inr [] | Some GNilList \<Rightarrow> Inr [] | Some (GList vs) \<Rightarrow> Inr vs
      | Some _ \<Rightarrow> Inl (decode_error (''cannot unmarshal field '' @ key)))"

definition get_object :: "settings \<Rightarrow> string \<Rightarrow> (err, settings option) res" where
  "get_object st key =
     (case map_of st key of
        None \<Rightarrow> Inr None | Some GNull \<Rightarrow> Inr None | Some GNilMap \<Rightarrow> Inr None | Some (GMap kvs) \<Rightarrow> Inr (Some kvs)
      | Some _ \<Rightarrow> Inl (decode_error (''cannot unmarshal field '' @ key)))"

definition get_chain :: "settings \<Rightarrow> string \<Rightarrow> (err, block_config list) res" where
  "get_chain st key =
     bind_res (get_list st key) (\<lambda>vs.
       case map_res decode_block vs of Inl e \<Rightarrow> Inl (Wrap ''decode settings'' e) | Inr cs \<Rightarrow> Inr cs)"

definition decode_source :: "settings \<Rightarrow> (err, gval) res" where
  "decode_source kvs =
     bind_res (DecodeStrict [''connector'', ''type'', ''settings''] kvs) (\<lambda>st.
     bind_res (get_string st ''connector'') (\<lambda>_. bind_res (get_string st ''type'') (\<lambda>_.
     bind_res (get_object st ''settings'') (\<lambda>_. Inr (GMap kvs)))))"

definition decode_flow :: "settings \<Rightarrow> (err, flow_spec) res" where
  "decode_flow kvs =
     bind_res (DecodeStrict [''name'', ''source'', ''process'', ''error'', ''workers'', ''buffer'', ''pool''] kvs) (\<lambda>st.
     bind_res (get_string st ''name'') (\<lambda>name. bind_res (get_object st ''source'') (\<lambda>src.
     bind_res (case src of None \<Rightarrow> Inr None | Some s \<Rightarrow> bind_res (decode_source s) (Inr \<circ> Some)) (\<lambda>source.
     bind_res (get_chain st ''process'') (\<lambda>process. bind_res (get_chain st ''error'') (\<lambda>error.
     bind_res (get_int st ''workers'') (\<lambda>workers. bind_res (get_int st ''buffer'') (\<lambda>buffer.
     bind_res (get_int st ''pool'') (\<lambda>pool.
       Inr \<lparr>fc_name = name, fc_process = process, fc_error = error, fc_source = source,
            fc_workers = workers, fc_buffer = buffer, fc_pool = pool\<rparr>)))))))))"

definition get_flow :: "settings \<Rightarrow> string \<Rightarrow> (err, flow_spec option) res" where
  "get_flow st key =
     bind_res (get_object st key) (\<lambda>obj.
       case obj of None \<Rightarrow> Inr None | Some kvs \<Rightarrow> bind_res (decode_flow kvs) (Inr \<circ> Some))"

section \<open>The seam to a factory\<close>

record 'w sub_flows =
  Branch :: "string \<Rightarrow> flow_spec \<Rightarrow> 'w processor build"
  Member :: "string \<Rightarrow> nat \<Rightarrow> flow_spec \<Rightarrow> 'w processor build"
  Root :: bool

record block_address =
  ba_Flow :: string
  ba_Path :: string
  ba_Name :: string

text \<open>
  What a factory is given besides its settings. \<open>Scheduler\<close> says in which order the pool
  finishes \<open>n\<close> tasks, see \<^const>\<open>fork_process\<close>.
\<close>

record 'w block_deps =
  Address :: block_address
  SubFlows :: "'w sub_flows option"
  Scheduler :: "(nat \<Rightarrow> (nat \<times> bool) list) option"
  compile :: "string \<Rightarrow> (err, 'w program) res"

text \<open>A built processor with its optional capabilities.\<close>

record 'w built_proc =
  p_run :: "'w cont option \<Rightarrow> 'w processor"
  p_aware :: bool
  p_lifecycle :: bool
  p_stateKey :: "string option"

definition plain :: "'w processor \<Rightarrow> 'w built_proc" where
  "plain p = \<lparr>p_run = (\<lambda>_. p), p_aware = False, p_lifecycle = False, p_stateKey = None\<rparr>"

type_synonym 'w factory = "settings \<Rightarrow> 'w block_deps \<Rightarrow> 'w built_proc build"

definition ErrNoSubFlows :: err where
  "ErrNoSubFlows = Err ''block declares a sub-flow but was built without a flow builder''"

definition ErrNoScheduler :: err where
  "ErrNoScheduler = Err ''block schedules concurrent work but was built without a scheduler''"

definition SubFlowsOf :: "'w block_deps \<Rightarrow> 'w sub_flows build" where
  "SubFlowsOf deps = (case SubFlows deps of None \<Rightarrow> Reject ErrNoSubFlows | Some s \<Rightarrow> Built s)"

section \<open>The builder\<close>

text \<open>
  What is constant during a build: the registry, the named processors, the flow's name, and
  what the runtime threads through the dependencies. \<open>hook\<close> resumes a continuation.
\<close>

record 'w builder =
  registry :: "string \<rightharpoonup> 'w factory"
  bdefs :: "(string \<times> processor_config) list"
  root_name :: string
  sched :: "(nat \<Rightarrow> (nat \<times> bool) list) option"
  compile_message :: "string \<Rightarrow> (err, 'w program) res"
  dispatcher :: "listeners option"
  resume_hook :: "'w resume_hook option"
  has_spies :: bool
  has_breakpoint :: bool
  mock_specs :: "(string \<times> mock_spec) list option"

fun processorDefs_from ::
  "(string \<times> processor_config) list \<Rightarrow> processor_config list \<Rightarrow> (err, (string \<times> processor_config) list) res" where
  "processorDefs_from defs [] = Inr defs"
| "processorDefs_from defs (cfg # cfgs) =
     (if pc_name cfg = [] then Inl (Err ''processor definition requires a name'')
      else if map_of defs (pc_name cfg) \<noteq> None
      then Inl (Err (''processor '' @ quote (pc_name cfg) @ '' is defined more than once''))
      else processorDefs_from (defs @ [(pc_name cfg, cfg)]) cfgs)"

definition processorDefs :: "processor_config list \<Rightarrow> (err, (string \<times> processor_config) list) res" where
  "processorDefs = processorDefs_from []"

definition mergeSettings :: "settings \<Rightarrow> settings \<Rightarrow> settings" where
  "mergeSettings base override =
     (if override = [] then base else filter (\<lambda>kv. map_of override (fst kv) = None) base @ override)"

definition resolve ::
  "(string \<times> processor_config) list \<Rightarrow> block_config \<Rightarrow> (err, string \<times> settings) res" where
  "resolve defs cfg =
     (if bc_ref cfg = [] then Inr (bc_type cfg, bc_settings cfg)
      else (case map_of defs (bc_ref cfg) of
              None \<Rightarrow> Inl (Err (''block ref '' @ quote (bc_ref cfg) @ '' is not a defined processor''))
            | Some def \<Rightarrow>
                if bc_type cfg \<noteq> [] \<and> bc_type cfg \<noteq> pc_type def
                then Inl (Err (''block ref '' @ quote (bc_ref cfg) @ '' is type '' @ quote (pc_type def) @
                       '' but declares type '' @ quote (bc_type cfg)))
                else Inr (pc_type def, mergeSettings (pc_settings def) (bc_settings cfg))))"

definition debug_wrapper_type :: "string \<Rightarrow> bool" where
  "debug_wrapper_type t \<longleftrightarrow> t = spyBlockType \<or> t = breakpointBlockType"

text \<open>
  The parts of the builder above one block are written over the block builder \<open>blk\<close>, which
  takes the path of the chain and whether it is a root chain.
\<close>

definition build_flow ::
  "'w builder \<Rightarrow> (string \<Rightarrow> bool \<Rightarrow> block_config \<Rightarrow> 'w block build) \<Rightarrow> string \<Rightarrow> bool \<Rightarrow>
   string \<Rightarrow> block_config list \<Rightarrow> 'w flow build" where
  "build_flow b blk path isRoot name process =
     bind_build (map_build (blk path isRoot) process) (\<lambda>bs.
     bind_build (if isRoot then of_res (wireContinuations (resume_hook b) bs) else Built bs) (\<lambda>bs'.
       Built \<lparr>flow_label = name, blocks = bs', flowName = root_name b, events = dispatcher b\<rparr>))"

definition subFlow ::
  "'w builder \<Rightarrow> (string \<Rightarrow> bool \<Rightarrow> block_config \<Rightarrow> 'w block build) \<Rightarrow> string \<Rightarrow> bool \<Rightarrow>
   flow_spec \<Rightarrow> 'w flow build" where
  "subFlow b blk path isRoot cfg =
     (if fc_source cfg \<noteq> None then Reject (Err ''sub-flow must not declare a source'')
      else if fc_workers cfg \<noteq> 0 \<or> fc_buffer cfg \<noteq> 0 \<or> fc_pool cfg \<noteq> 0
      then Reject (Err ''sub-flow must not declare workers, buffer, or pool'')
      else if fc_error cfg \<noteq> [] then Reject (Err ''sub-flow must not declare an error path'')
      else build_flow b blk path isRoot (fc_name cfg) (fc_process cfg))"

definition sub_flows_at ::
  "('a obs_world_scheme) builder \<Rightarrow>
   (string \<Rightarrow> bool \<Rightarrow> block_config \<Rightarrow> ('a obs_world_scheme) block build) \<Rightarrow> string \<Rightarrow> bool \<Rightarrow>
   ('a obs_world_scheme) sub_flows" where
  "sub_flows_at b blk path isRoot =
     \<lparr>Branch = (\<lambda>name cfg. bind_build (subFlow b blk (JoinBranch path name) False cfg) (\<lambda>f. Built (flow_process f))),
      Member = (\<lambda>name index cfg.
        bind_build (subFlow b blk (JoinBranch path (MemberBranch name index)) False cfg) (\<lambda>f. Built (flow_process f))),
      Root = isRoot\<rparr>"

definition errBreakpointUnwired :: err where
  "errBreakpointUnwired =
     Err ''breakpoint is an internal debugging block injected by --break-at and cannot be declared in a flow''"

definition errSpyUnwired :: err where
  "errSpyUnwired =
     Err ''spy is an internal debugging block injected by --spies and cannot be declared in a flow''"

definition errMockUnwired :: err where
  "errMockUnwired =
     Err ''mock is an internal debugging block injected by --mocks and cannot be declared in a flow''"

definition wrapperSettings :: "settings \<Rightarrow> (err, string \<times> block_config list) res" where
  "wrapperSettings st =
     bind_res (DecodeStrict [''address'', ''process''] st) (\<lambda>st.
     bind_res (get_string st ''address'') (\<lambda>address.
     bind_res (get_chain st ''process'') (\<lambda>process. Inr (address, process))))"

definition build_breakpoint ::
  "('a debug_world_scheme) builder \<Rightarrow>
   (string \<Rightarrow> bool \<Rightarrow> block_config \<Rightarrow> ('a debug_world_scheme) block build) \<Rightarrow> string \<Rightarrow> bool \<Rightarrow>
   settings \<Rightarrow> ('a debug_world_scheme) built_proc build" where
  "build_breakpoint b blk path isRoot st =
     (if \<not> has_breakpoint b then Reject errBreakpointUnwired
      else bind_build (of_res (wrapperSettings st)) (\<lambda>(_, process).
        if process = [] then Reject (Err ''breakpoint block requires the block it wraps'')
        else bind_build (subFlow b blk path isRoot (chain_spec [] process)) (\<lambda>inner.
          Built (plain (breakpoint_process (flow_process inner))))))"

definition build_spy ::
  "('a debug_world_scheme) builder \<Rightarrow>
   (string \<Rightarrow> bool \<Rightarrow> block_config \<Rightarrow> ('a debug_world_scheme) block build) \<Rightarrow> string \<Rightarrow> bool \<Rightarrow>
   settings \<Rightarrow> ('a debug_world_scheme) built_proc build" where
  "build_spy b blk path isRoot st =
     (if \<not> has_spies b then Reject errSpyUnwired
      else bind_build (of_res (wrapperSettings st)) (\<lambda>(address, process).
        if process = [] then Reject (Err ''spy block requires the block it wraps'')
        else if address = [] then Reject (Err ''spy block requires the address it records under'')
        else bind_build (subFlow b blk path isRoot (chain_spec [] process)) (\<lambda>inner.
          Built (plain (spy_process (flow_process inner) address)))))"

definition build_mock_block ::
  "('a debug_world_scheme) builder \<Rightarrow> settings \<Rightarrow> ('a debug_world_scheme) built_proc build" where
  "build_mock_block b st =
     (case mock_specs b of
        None \<Rightarrow> Reject errMockUnwired
      | Some specs \<Rightarrow>
          bind_build (of_res (bind_res (DecodeStrict [''address''] st) (\<lambda>st. get_string st ''address''))) (\<lambda>address.
          bind_build (of_res (build_mock (compile_message b) specs address)) (\<lambda>p. Built (plain p))))"

definition build_processor ::
  "('a debug_world_scheme) builder \<Rightarrow>
   (string \<Rightarrow> bool \<Rightarrow> block_config \<Rightarrow> ('a debug_world_scheme) block build) \<Rightarrow> string \<Rightarrow> bool \<Rightarrow>
   string \<Rightarrow> string \<Rightarrow> settings \<Rightarrow> ('a debug_world_scheme) built_proc build" where
  "build_processor b blk path isRoot name effType st =
     (if effType = breakpointBlockType then build_breakpoint b blk path isRoot st
      else if effType = spyBlockType then build_spy b blk path isRoot st
      else if effType = mockBlockType then build_mock_block b st
      else (case registry b effType of
              None \<Rightarrow> Reject (Err (''block '' @ quote effType @ '' not registered''))
            | Some factory \<Rightarrow>
                factory st
                  \<lparr>Address = \<lparr>ba_Flow = root_name b, ba_Path = path, ba_Name = name\<rparr>,
                   SubFlows = Some (sub_flows_at b blk path isRoot), Scheduler = sched b,
                   compile = compile_message b\<rparr>))"

fun build_block ::
  "nat \<Rightarrow> ('a debug_world_scheme) builder \<Rightarrow> string \<Rightarrow> bool \<Rightarrow> block_config \<Rightarrow>
   ('a debug_world_scheme) block build" where
  "build_block 0 b path isRoot cfg = Diverge"
| "build_block (Suc n) b path isRoot cfg =
     (if bc_type cfg = [] \<and> bc_ref cfg = [] then Reject (Err ''block requires a type or a ref'')
      else bind_build (of_res (resolve (bdefs b) cfg)) (\<lambda>(effType, effSettings).
        let full = JoinBlock path (bc_label cfg);
            (inner, reported) = (if debug_wrapper_type effType then (path, []) else (full, full))
        in bind_build
             (wrap_build (''block '' @ quote (blockLabel effType (bc_name cfg)))
                (build_processor b (build_block n b) inner isRoot (bc_name cfg) effType effSettings))
             (\<lambda>p. Built \<lparr>bname = bc_name cfg, btype = effType, bpath = reported, bproc = p_run p,
                         aware = p_aware p, bcont = None, lifecycle = p_lifecycle p, stateKey = p_stateKey p\<rparr>)))"

definition BuildRoot ::
  "nat \<Rightarrow> ('a debug_world_scheme) builder \<Rightarrow> processor_config list \<Rightarrow> flow_spec \<Rightarrow>
   ('a debug_world_scheme) flow build" where
  "BuildRoot fuel b processors cfg =
     bind_build (of_res (processorDefs processors)) (\<lambda>defs.
       let b' = b\<lparr>bdefs := defs, root_name := fc_name cfg\<rparr>
       in build_flow b' (build_block fuel b') (fc_name cfg) True (fc_name cfg) (fc_process cfg))"

definition BuildErrorPath ::
  "nat \<Rightarrow> ('a debug_world_scheme) builder \<Rightarrow> processor_config list \<Rightarrow> flow_spec \<Rightarrow>
   ('a debug_world_scheme) flow build" where
  "BuildErrorPath fuel b processors cfg =
     bind_build (of_res (processorDefs processors)) (\<lambda>defs.
       let b' = b\<lparr>bdefs := defs, root_name := fc_name cfg\<rparr>
       in build_flow b' (build_block fuel b') (JoinBranch (fc_name cfg) BranchError) True
            (fc_name cfg) (fc_error cfg))"

section \<open>Factories\<close>

definition BranchThen :: string where "BranchThen = ''then''"
definition BranchElse :: string where "BranchElse = ''else''"
definition BranchBody :: string where "BranchBody = ''body''"
definition BranchDefault :: string where "BranchDefault = ''default''"
definition BranchOnReject :: string where "BranchOnReject = ''onReject''"
definition BranchBuildResponse :: string where "BranchBuildResponse = ''buildResponse''"

definition newHandleErrors :: "('a world_scheme) factory" where
  "newHandleErrors raw deps =
     bind_build (of_res (bind_res (DecodeStrict [''process'', ''error''] raw) (\<lambda>st.
       bind_res (get_chain st ''process'') (\<lambda>process. bind_res (get_chain st ''error'') (\<lambda>error.
         Inr (process, error)))))) (\<lambda>(process, error).
     if process = [] then Reject (Err ''handle-errors block requires a process chain'')
     else if error = [] then Reject (Err ''handle-errors block requires an error chain'')
     else bind_build (SubFlowsOf deps) (\<lambda>flows.
       bind_build (wrap_build ''handle-errors process'' (Branch flows BranchProcess (chain_spec [] process))) (\<lambda>main.
       bind_build (wrap_build ''handle-errors error'' (Branch flows BranchError (chain_spec [] error))) (\<lambda>alt.
         Built (plain (handle_errors (ba_Name (Address deps)) main alt))))))"

fun fork_members ::
  "'w sub_flows \<Rightarrow> nat \<Rightarrow> flow_spec list \<Rightarrow> ('w fork_branch list) build" where
  "fork_members flows i [] = Built []"
| "fork_members flows i (cfg # cfgs) =
     bind_build (wrap_build (''fork branch '' @ itoa i) (Member flows (fc_name cfg) i cfg)) (\<lambda>p.
     bind_build (fork_members flows (Suc i) cfgs) (\<lambda>rest.
       Built (\<lparr>fb_name = fc_name cfg, fb_flow = p\<rparr> # rest)))"

definition decode_flows :: "gval list \<Rightarrow> (err, flow_spec list) res" where
  "decode_flows =
     map_res (\<lambda>v. case v of GMap kvs \<Rightarrow> decode_flow kvs | GNull \<Rightarrow> decode_flow [] | GNilMap \<Rightarrow> decode_flow []
                 | _ \<Rightarrow> Inl (decode_error ''cannot unmarshal into FlowConfig''))"

definition newFork :: "('a world_scheme) factory" where
  "newFork raw deps =
     bind_build (of_res (bind_res (DecodeStrict [''branches''] raw) (\<lambda>st.
       bind_res (get_list st ''branches'') decode_flows))) (\<lambda>cfgs.
     if cfgs = [] then Reject (Err ''fork block requires at least one branch'')
     else bind_build (SubFlowsOf deps) (\<lambda>flows.
       case Scheduler deps of
         None \<Rightarrow> Reject ErrNoScheduler
       | Some sc \<Rightarrow>
           bind_build (fork_members flows 0 cfgs) (\<lambda>brs.
             Built (plain (fork_process brs (sc (length brs)))))))"

definition newIf :: "('a world_scheme) factory" where
  "newIf raw deps =
     bind_build (of_res (bind_res (DecodeStrict [''condition'', ''then'', ''else''] raw) (\<lambda>st.
       bind_res (get_string st ''condition'') (\<lambda>condition. bind_res (get_flow st ''then'') (\<lambda>thn.
       bind_res (get_flow st ''else'') (\<lambda>els. Inr (condition, thn, els))))))) (\<lambda>(condition, thn, els).
     if condition = [] then Reject (Err ''if block requires a condition'')
     else (case thn of
       None \<Rightarrow> Reject (Err ''if block requires a then flow'')
     | Some t \<Rightarrow>
         bind_build (SubFlowsOf deps) (\<lambda>flows.
         bind_build (of_res (compile deps condition)) (\<lambda>prog.
         bind_build (wrap_build ''if then'' (Branch flows BranchThen t)) (\<lambda>p.
           case els of
             None \<Rightarrow> Built (plain (if_process prog p None))
           | Some e \<Rightarrow>
               bind_build (wrap_build ''if else'' (Branch flows BranchElse e)) (\<lambda>q.
                 Built (plain (if_process prog p (Some q)))))))))"

definition decode_case :: "gval \<Rightarrow> (err, string \<times> string \<times> block_config list) res" where
  "decode_case v =
     (case v of
        GMap kvs \<Rightarrow>
          bind_res (DecodeStrict [''when'', ''name'', ''process''] kvs) (\<lambda>st.
          bind_res (get_string st ''when'') (\<lambda>guard. bind_res (get_string st ''name'') (\<lambda>name.
          bind_res (get_chain st ''process'') (\<lambda>process. Inr (guard, name, process)))))
      | GNull \<Rightarrow> Inr ([], [], [])
      | _ \<Rightarrow> Inl (decode_error ''cannot unmarshal into switchCaseSettings''))"

fun switch_members ::
  "'w block_deps \<Rightarrow> 'w sub_flows \<Rightarrow> nat \<Rightarrow> (string \<times> string \<times> block_config list) list \<Rightarrow>
   (('w program \<times> 'w processor) list) build" where
  "switch_members deps flows i [] = Built []"
| "switch_members deps flows i ((guard, name, process) # cs) =
     (if guard = [] then Reject (Err (''switch case '' @ itoa i @ '' requires a when condition''))
      else bind_build (of_res (compile deps guard)) (\<lambda>prog.
        bind_build (wrap_build (''switch case '' @ itoa i) (Member flows name i (chain_spec name process))) (\<lambda>p.
        bind_build (switch_members deps flows (Suc i) cs) (\<lambda>rest. Built ((prog, p) # rest)))))"

definition newSwitch :: "('a world_scheme) factory" where
  "newSwitch raw deps =
     bind_build (of_res (bind_res (DecodeStrict [''cases'', ''default''] raw) (\<lambda>st.
       bind_res (bind_res (get_list st ''cases'') (map_res decode_case)) (\<lambda>cases.
       bind_res (get_flow st ''default'') (\<lambda>def. Inr (cases, def)))))) (\<lambda>(cases, def).
     if cases = [] then Reject (Err ''switch block requires at least one case'')
     else bind_build (SubFlowsOf deps) (\<lambda>flows.
       bind_build (switch_members deps flows 0 cases) (\<lambda>built.
         case def of
           None \<Rightarrow> Built (plain (switch_process built None))
         | Some d \<Rightarrow>
             bind_build (wrap_build ''switch default'' (Branch flows BranchDefault d)) (\<lambda>p.
               Built (plain (switch_process built (Some p)))))))"

fun compile_vars ::
  "'w block_deps \<Rightarrow> (string \<times> string) list \<Rightarrow> (err, (string \<times> 'w program) list) res" where
  "compile_vars deps [] = Inr []"
| "compile_vars deps ((name, expression) # vs) =
     (case compile deps expression of
        Inl e \<Rightarrow> Inl (Wrap (''enrich setVars['' @ quote name @ '']'') e)
      | Inr p \<Rightarrow> bind_res (compile_vars deps vs) (\<lambda>ps. Inr ((name, p) # ps)))"

definition get_string_map :: "settings \<Rightarrow> string \<Rightarrow> (err, (string \<times> string) list) res" where
  "get_string_map st key =
     bind_res (get_object st key) (\<lambda>obj.
       map_res (\<lambda>(k, v). case v of GStr s \<Rightarrow> Inr (k, s) | GNull \<Rightarrow> Inr (k, [])
                          | _ \<Rightarrow> Inl (decode_error (''cannot unmarshal field '' @ key)))
         (case obj of None \<Rightarrow> [] | Some kvs \<Rightarrow> kvs))"

definition newEnrich :: "('a world_scheme) factory" where
  "newEnrich raw deps =
     bind_build (of_res (bind_res (DecodeStrict [''setBody'', ''setVars'', ''body''] raw) (\<lambda>st.
       bind_res (get_string st ''setBody'') (\<lambda>setBody. bind_res (get_string_map st ''setVars'') (\<lambda>setVars.
       bind_res (get_flow st ''body'') (\<lambda>body. Inr (setBody, setVars, body))))))) (\<lambda>(setBody, setVars, body).
     case body of
       None \<Rightarrow> Reject (Err ''enrich block requires a body flow'')
     | Some cfg \<Rightarrow>
         bind_build (SubFlowsOf deps) (\<lambda>flows.
         bind_build (wrap_build ''enrich body'' (Branch flows BranchBody cfg)) (\<lambda>p.
         bind_build (if setBody = [] then Built None
                     else wrap_build ''enrich setBody''
                            (bind_build (of_res (compile deps setBody)) (\<lambda>q. Built (Some q)))) (\<lambda>q.
         bind_build (of_res (compile_vars deps setVars)) (\<lambda>vs.
           Built (plain (enrich_process p q vs)))))))"

definition defaultForeachVar :: string where
  "defaultForeachVar = ''item''"

definition newForeach :: "('a world_scheme) factory" where
  "newForeach raw deps =
     bind_build (of_res (bind_res (DecodeStrict [''items'', ''as'', ''mode'', ''body''] raw) (\<lambda>st.
       bind_res (get_string st ''items'') (\<lambda>items. bind_res (get_string st ''as'') (\<lambda>var.
       bind_res (get_string st ''mode'') (\<lambda>mode. bind_res (get_flow st ''body'') (\<lambda>body.
         Inr (items, var, mode, body)))))))) (\<lambda>(items, var, mode, body).
     if items = [] then Reject (Err ''foreach block requires an items expression'')
     else (case body of
       None \<Rightarrow> Reject (Err ''foreach block requires a body flow'')
     | Some cfg \<Rightarrow>
         bind_build (of_res (foreachMapMode mode)) (\<lambda>mapMode.
         bind_build (SubFlowsOf deps) (\<lambda>flows.
         bind_build (of_res (compile deps items)) (\<lambda>prog.
         bind_build (wrap_build ''foreach body'' (Branch flows BranchBody cfg)) (\<lambda>p.
           Built (plain (foreach_process prog (if var = [] then defaultForeachVar else var) p mapMode))))))))"

definition buildOnReject ::
  "'w block_deps \<Rightarrow> flow_spec option \<Rightarrow> ('w processor option) build" where
  "buildOnReject deps cfg =
     (case cfg of
        None \<Rightarrow> Built None
      | Some c \<Rightarrow>
          if fc_process c = [] then Built None
          else bind_build (SubFlowsOf deps) (\<lambda>flows.
            bind_build (wrap_build ''onReject'' (Branch flows BranchOnReject c)) (\<lambda>p. Built (Some p))))"

fun compile_rules ::
  "'w block_deps \<Rightarrow> nat \<Rightarrow> (string \<times> string) list \<Rightarrow> (err, ('w program \<times> string) list) res" where
  "compile_rules deps i [] = Inr []"
| "compile_rules deps i ((expression, text) # rules) =
     (if expression = [] then Inl (Err (''validate rule '' @ itoa i @ '' requires an expr''))
      else (case compile deps expression of
              Inl e \<Rightarrow> Inl (Wrap (''validate rule '' @ itoa i) e)
            | Inr p \<Rightarrow> bind_res (compile_rules deps (Suc i) rules) (\<lambda>ps. Inr ((p, text) # ps))))"

definition decode_rule :: "gval \<Rightarrow> (err, string \<times> string) res" where
  "decode_rule v =
     (case v of
        GMap kvs \<Rightarrow>
          bind_res (DecodeStrict [''expr'', ''message''] kvs) (\<lambda>st.
          bind_res (get_string st ''expr'') (\<lambda>e. bind_res (get_string st ''message'') (\<lambda>t. Inr (e, t))))
      | GNull \<Rightarrow> Inr ([], [])
      | _ \<Rightarrow> Inl (decode_error ''cannot unmarshal into validateRuleSettings''))"

definition newValidate :: "('a world_scheme) factory" where
  "newValidate raw deps =
     bind_build (of_res (bind_res (DecodeStrict [''rules'', ''rejectStatus'', ''onReject''] raw) (\<lambda>st.
       bind_res (bind_res (get_list st ''rules'') (map_res decode_rule)) (\<lambda>rules.
       bind_res (get_int st ''rejectStatus'') (\<lambda>status. bind_res (get_flow st ''onReject'') (\<lambda>onReject.
         Inr (rules, status, onReject))))))) (\<lambda>(rules, status, onReject).
     if rules = [] then Reject (Err ''validate block requires at least one rule'')
     else bind_build (of_res (compile_rules deps 0 rules)) (\<lambda>rs.
       bind_build (buildOnReject deps onReject) (\<lambda>rej.
         Built (plain (validate_process rs rej (if status = 0 then defaultValidateStatus else status))))))"

text \<open>The check a block that takes the flow over makes of its place.\<close>

definition buildTakeoverResponse ::
  "string \<Rightarrow> 'w block_deps \<Rightarrow> flow_spec option \<Rightarrow> ('w processor option) build" where
  "buildTakeoverResponse kind deps cfg =
     bind_build (SubFlowsOf deps) (\<lambda>flows.
       if \<not> Root flows
       then Reject (Err (kind @ '' block must be a top-level block in a flow's chain, not inside another block's slot''))
       else (case cfg of
               None \<Rightarrow> Built None
             | Some c \<Rightarrow>
                 if fc_process c = [] then Built None
                 else bind_build (wrap_build ''buildResponse'' (Branch flows BranchBuildResponse c)) (\<lambda>p. Built (Some p))))"

definition newSetPayload :: "('a world_scheme) factory" where
  "newSetPayload raw deps =
     bind_build (of_res (bind_res (get_string raw ''value'') (\<lambda>value. bind_res (get_bool raw ''rawBody'') (\<lambda>rawBody.
       bind_res (get_string raw ''contentType'') (\<lambda>ct. Inr (value, rawBody, ct)))))) (\<lambda>(value, rawBody, ct).
     if value = [] then Reject (Err ''set-payload requires a value expression'')
     else if rawBody \<and> ct = [] then Reject (Err ''set-payload requires a contentType when rawBody is set'')
     else bind_build (of_res (compile deps value)) (\<lambda>p. Built (plain (set_payload p rawBody ct))))"

definition newSetVariable :: "('a world_scheme) factory" where
  "newSetVariable raw deps =
     bind_build (of_res (bind_res (get_string raw ''name'') (\<lambda>name. bind_res (get_string raw ''value'') (\<lambda>value.
       Inr (name, value))))) (\<lambda>(name, value).
     if name = [] then Reject (Err ''set-variable requires a name'')
     else if value = [] then Reject (Err ''set-variable requires a value expression'')
     else bind_build (of_res (compile deps value)) (\<lambda>p. Built (plain (set_variable name p))))"

definition newDeleteVariable :: "('a world_scheme) factory" where
  "newDeleteVariable raw deps =
     bind_build (of_res (get_string raw ''name'')) (\<lambda>name.
     if name = [] then Reject (Err ''delete-variable requires a name'')
     else Built (plain (delete_variable name)))"

text \<open>
  The registry: the blocks above, and \<open>leaf\<close> for every other type, which is built from its
  settings and builds no sub-flow.
\<close>

definition block_registry ::
  "(string \<rightharpoonup> (settings \<Rightarrow> 'a world_scheme block_deps \<Rightarrow> (err, ('a world_scheme) built_proc) res)) \<Rightarrow>
   string \<rightharpoonup> ('a world_scheme) factory" where
  "block_registry leaf =
     (\<lambda>t. case leaf t of None \<Rightarrow> None
        | Some f \<Rightarrow> Some (\<lambda>st deps. of_res (f st (deps\<lparr>SubFlows := None\<rparr>))))
     (''handle-errors'' \<mapsto> newHandleErrors, ''fork'' \<mapsto> newFork, ''if'' \<mapsto> newIf,
      ''switch'' \<mapsto> newSwitch, ''enrich'' \<mapsto> newEnrich, ''foreach'' \<mapsto> newForeach,
      ''validate'' \<mapsto> newValidate, ''set-payload'' \<mapsto> newSetPayload,
      ''set-variable'' \<mapsto> newSetVariable, ''delete-variable'' \<mapsto> newDeleteVariable)"

section \<open>More fuel changes no result\<close>

definition le_build :: "'a build \<Rightarrow> 'a build \<Rightarrow> bool" where
  "le_build x y \<longleftrightarrow> x = Diverge \<or> x = y"

named_theorems build_mono

lemma le_build_refl [build_mono]: "le_build x x"
  by (simp add: le_build_def)

lemma le_build_Diverge [build_mono]: "le_build Diverge x"
  by (simp add: le_build_def)

lemma le_build_bind [build_mono]:
  assumes "le_build x y" and "\<And>v. le_build (f v) (g v)"
  shows "le_build (bind_build x f) (bind_build y g)"
proof (cases x)
  case (Built v)
  then have "y = Built v" using assms(1) by (simp add: le_build_def)
  with Built show ?thesis using assms(2) [of v] by simp
qed (use assms(1) in \<open>auto simp: le_build_def\<close>)

lemma le_build_wrap [build_mono]: "le_build x y \<Longrightarrow> le_build (wrap_build s x) (wrap_build s y)"
  by (cases x) (auto simp: le_build_def)

lemma le_build_map [build_mono]:
  "(\<And>x. le_build (f x) (g x)) \<Longrightarrow> le_build (map_build f xs) (map_build g xs)"
  by (induction xs) (auto intro!: build_mono)

lemma le_build_Built: "le_build (Built x) y \<longleftrightarrow> y = Built x"
  by (auto simp: le_build_def)

definition le_flows :: "'w sub_flows \<Rightarrow> 'w sub_flows \<Rightarrow> bool" where
  "le_flows s s' \<longleftrightarrow> Root s = Root s' \<and> (\<forall>n c. le_build (Branch s n c) (Branch s' n c)) \<and>
     (\<forall>n i c. le_build (Member s n i c) (Member s' n i c))"

lemma le_flowsD [build_mono]:
  "le_flows s s' \<Longrightarrow> le_build (Branch s n c) (Branch s' n c)"
  "le_flows s s' \<Longrightarrow> le_build (Member s n i c) (Member s' n i c)"
  by (simp_all add: le_flows_def)

text \<open>
  What the builder relies on of a registry: a factory's answer only gets more defined when the
  sub-flow builder it is handed does. A factory that propagates the failures of its sub-flows
  has this property.
\<close>

locale monotone_registry =
  fixes reg :: "string \<rightharpoonup> ('a debug_world_scheme) factory"
  assumes mono: "reg t = Some f \<Longrightarrow> le_flows s s' \<Longrightarrow>
    le_build (f st (d\<lparr>SubFlows := Some s\<rparr>)) (f st (d\<lparr>SubFlows := Some s'\<rparr>))"
begin

lemma build_flow_mono:
  "(\<And>p r c. le_build (blk p r c) (blk' p r c)) \<Longrightarrow>
   le_build (build_flow b blk path isRoot name process) (build_flow b blk' path isRoot name process)"
  unfolding build_flow_def by (intro build_mono)

lemma subFlow_mono:
  "(\<And>p r c. le_build (blk p r c) (blk' p r c)) \<Longrightarrow>
   le_build (subFlow b blk path isRoot cfg) (subFlow b blk' path isRoot cfg)"
  unfolding subFlow_def by (simp add: build_flow_mono build_mono)

lemma sub_flows_at_mono:
  "(\<And>p r c. le_build (blk p r c) (blk' p r c)) \<Longrightarrow>
   le_flows (sub_flows_at b blk path isRoot) (sub_flows_at b blk' path isRoot)"
  unfolding le_flows_def sub_flows_at_def by (auto intro!: build_mono subFlow_mono)

lemma build_processor_mono:
  assumes "registry b = reg" and le: "\<And>p r c. le_build (blk p r c) (blk' p r c)"
  shows "le_build (build_processor b blk path isRoot name t st) (build_processor b blk' path isRoot name t st)"
proof -
  have d: "le_build (f st (d\<lparr>SubFlows := Some (sub_flows_at b blk path isRoot)\<rparr>))
      (f st (d\<lparr>SubFlows := Some (sub_flows_at b blk' path isRoot)\<rparr>))" if "reg t = Some f" for f d
    by (rule mono [OF that sub_flows_at_mono [OF le]])
  have s: "le_build (build_spy b blk path isRoot st) (build_spy b blk' path isRoot st)"
    unfolding build_spy_def by (auto simp: split_def intro!: build_mono subFlow_mono le)
  have k: "le_build (build_breakpoint b blk path isRoot st) (build_breakpoint b blk' path isRoot st)"
    unfolding build_breakpoint_def by (auto simp: split_def intro!: build_mono subFlow_mono le)
  show ?thesis
  proof (cases "reg t")
    case None
    then show ?thesis using s k assms(1) by (simp add: build_processor_def le_build_refl)
  next
    case (Some f)
    let ?d = "\<lparr>Address = \<lparr>ba_Flow = root_name b, ba_Path = path, ba_Name = name\<rparr>, SubFlows = None,
        Scheduler = sched b, compile = compile_message b\<rparr>"
    show ?thesis using d [OF Some, of ?d] s k assms(1) Some by (simp add: build_processor_def le_build_refl)
  qed
qed

lemma build_block_Suc:
  assumes "registry b = reg"
  shows "le_build (build_block n b path isRoot cfg) (build_block (Suc n) b path isRoot cfg)"
proof (induction n arbitrary: path isRoot cfg)
  case (Suc n)
  show ?case
    by (simp only: build_block.simps(2))
       (auto simp: split_def Let_def intro!: build_mono build_processor_mono [OF assms] Suc.IH)
qed (simp add: le_build_Diverge)

lemma build_block_more:
  assumes "registry b = reg" and "build_block n b path isRoot cfg = r" and "r \<noteq> Diverge" and "n \<le> m"
  shows "build_block m b path isRoot cfg = r"
  using assms(4)
proof (induction m rule: dec_induct)
  case (step m)
  then show ?case using build_block_Suc [OF assms(1), of m path isRoot cfg] assms(3)
    by (auto simp: le_build_def)
qed (rule assms(2))

end

lemma SubFlowsOf_some [simp]: "SubFlowsOf (d\<lparr>SubFlows := Some s\<rparr>) = Built s"
  by (simp add: SubFlowsOf_def)

lemma fork_members_mono [build_mono]:
  "le_flows s s' \<Longrightarrow> le_build (fork_members s i cfgs) (fork_members s' i cfgs)"
  by (induction cfgs arbitrary: i) (auto intro!: build_mono)

lemma switch_members_mono [build_mono]:
  "le_flows s s' \<Longrightarrow> compile d' = compile d \<Longrightarrow> le_build (switch_members d s i cs) (switch_members d' s' i cs)"
  by (induction d s i cs rule: switch_members.induct) (auto intro!: build_mono)

lemma buildOnReject_mono [build_mono]:
  "le_flows s s' \<Longrightarrow>
   le_build (buildOnReject (d\<lparr>SubFlows := Some s\<rparr>) cfg) (buildOnReject (d\<lparr>SubFlows := Some s'\<rparr>) cfg)"
  by (auto simp: buildOnReject_def split: option.splits intro!: build_mono)

lemma compile_rules_SubFlows [simp]: "compile_rules (d\<lparr>SubFlows := s\<rparr>) i rules = compile_rules d i rules"
  by (induction d i rules rule: compile_rules.induct) (auto split: sum.splits)

lemma compile_vars_SubFlows [simp]: "compile_vars (d\<lparr>SubFlows := s\<rparr>) vs = compile_vars d vs"
  by (induction d vs rule: compile_vars.induct) (auto split: sum.splits)

lemma factories_mono:
  assumes "le_flows s s'"
  shows "le_build (newHandleErrors st (d\<lparr>SubFlows := Some s\<rparr>)) (newHandleErrors st (d\<lparr>SubFlows := Some s'\<rparr>))"
    and "le_build (newFork st (d\<lparr>SubFlows := Some s\<rparr>)) (newFork st (d\<lparr>SubFlows := Some s'\<rparr>))"
    and "le_build (newIf st (d\<lparr>SubFlows := Some s\<rparr>)) (newIf st (d\<lparr>SubFlows := Some s'\<rparr>))"
    and "le_build (newEnrich st (d\<lparr>SubFlows := Some s\<rparr>)) (newEnrich st (d\<lparr>SubFlows := Some s'\<rparr>))"
    and "le_build (newForeach st (d\<lparr>SubFlows := Some s\<rparr>)) (newForeach st (d\<lparr>SubFlows := Some s'\<rparr>))"
  using assms
  by (auto simp: newHandleErrors_def newFork_def newIf_def newEnrich_def newForeach_def split_def
      split: option.splits intro!: build_mono)

lemma newSwitch_mono:
  assumes "le_flows s s'"
  shows "le_build (newSwitch st (d\<lparr>SubFlows := Some s\<rparr>)) (newSwitch st (d\<lparr>SubFlows := Some s'\<rparr>))"
  using assms by (auto simp: newSwitch_def split_def split: option.splits intro!: build_mono)

lemma newValidate_mono:
  assumes "le_flows s s'"
  shows "le_build (newValidate st (d\<lparr>SubFlows := Some s\<rparr>)) (newValidate st (d\<lparr>SubFlows := Some s'\<rparr>))"
  using assms by (auto simp: newValidate_def split_def intro!: build_mono)

lemma setters_mono:
  "newSetPayload st (d\<lparr>SubFlows := s\<rparr>) = newSetPayload st (d\<lparr>SubFlows := s'\<rparr>)"
  "newSetVariable st (d\<lparr>SubFlows := s\<rparr>) = newSetVariable st (d\<lparr>SubFlows := s'\<rparr>)"
  "newDeleteVariable st (d\<lparr>SubFlows := s\<rparr>) = newDeleteVariable st (d\<lparr>SubFlows := s'\<rparr>)"
  by (simp_all add: newSetPayload_def newSetVariable_def newDeleteVariable_def cong: if_cong)

lemma block_registry_cases:
  assumes "block_registry leaf t = Some f"
  obtains "f \<in> {newHandleErrors, newFork, newIf, newSwitch, newEnrich, newForeach, newValidate,
      newSetPayload, newSetVariable, newDeleteVariable}"
  | g where "f = (\<lambda>st deps. of_res (g st (deps\<lparr>SubFlows := None\<rparr>)))"
  using assms by (auto simp: block_registry_def split: if_splits option.splits)

lemma block_registry_mono:
  assumes "block_registry leaf t = Some f" and s: "le_flows s s'"
  shows "le_build (f st (d\<lparr>SubFlows := Some s\<rparr>)) (f st (d\<lparr>SubFlows := Some s'\<rparr>))"
  using assms(1)
proof (cases rule: block_registry_cases)
  case 1
  then show ?thesis
    using factories_mono [OF s] newSwitch_mono [OF s] newValidate_mono [OF s]
      setters_mono [of st "Some s" d "Some s'"] by (auto simp: le_build_refl)
qed (simp add: le_build_refl)

interpretation control_flow: monotone_registry "block_registry leaf" for leaf
  by unfold_locales (rule block_registry_mono)

lemma map_build_le: "(\<And>x. le_build (f x) (g x)) \<Longrightarrow> map_build f xs = Built ys \<Longrightarrow> map_build g xs = Built ys"
  using le_build_map [of f g xs] by (simp add: le_build_Built)

lemma map_build_Built: "map_build f xs = Built ys \<longleftrightarrow> list_all2 (\<lambda>x y. f x = Built y) xs ys"
proof (induction xs arbitrary: ys)
  case (Cons x xs)
  show ?case
  proof (cases "f x")
    case (Built y)
    show ?thesis using Cons.IH Built by (cases "map_build f xs") (auto simp: list_all2_Cons1)
  qed (auto simp: list_all2_Cons1)
qed auto

section \<open>What an injected spy builds to\<close>

lemma DecodeStrict_wrapper [simp]:
  "wrapperSettings [(''address'', GStr addr), (''process'', GList [toGeneric cfg])] =
     Inr (addr, [cfg\<lparr>bc_settings := map (\<lambda>(k, v). (k, json_normal v)) (bc_settings cfg)\<rparr>])"
  "wrapperSettings [(''process'', GList [toGeneric cfg])] =
     Inr ([], [cfg\<lparr>bc_settings := map (\<lambda>(k, v). (k, json_normal v)) (bc_settings cfg)\<rparr>])"
  by (simp_all add: wrapperSettings_def DecodeStrict_def get_string_def get_chain_def get_list_def decode_toGeneric)

text \<open>The settings of a block that came through the JSON bridge.\<close>

definition json_settings :: "block_config \<Rightarrow> bool" where
  "json_settings cfg \<longleftrightarrow> json_native (GMap (bc_settings cfg))"

lemma json_settings_decoded:
  "json_settings cfg \<Longrightarrow> cfg\<lparr>bc_settings := map (\<lambda>(k, v). (k, json_normal v)) (bc_settings cfg)\<rparr> = cfg"
  using json_normal_native [of "GMap (bc_settings cfg)"] by (simp add: json_settings_def)

lemma of_res_simps [simp]: "of_res (Inr x) = Built x" "of_res (Inl e) = Reject e"
  by (simp_all add: of_res_def)

lemma bind_build_Built: "bind_build x f = Built y \<longleftrightarrow> (\<exists>v. x = Built v \<and> f v = Built y)"
  by (cases x) auto

lemma wrap_build_Built: "wrap_build s x = Built y \<longleftrightarrow> x = Built y"
  by (cases x) auto

lemma of_res_Built: "of_res r = Built y \<longleftrightarrow> r = Inr y"
  by (cases r) auto

lemma build_block_Built:
  assumes "build_block n b path isRoot cfg = Built blk"
  obtains m t st p where "n = Suc m" "bc_type cfg \<noteq> [] \<or> bc_ref cfg \<noteq> []" "resolve (bdefs b) cfg = Inr (t, st)"
    "btype blk = t" "bname blk = bc_name cfg" "aware blk = p_aware p"
    "bpath blk = (if debug_wrapper_type t then [] else JoinBlock path (bc_label cfg))"
    "build_processor b (build_block m b) (if debug_wrapper_type t then path else JoinBlock path (bc_label cfg))
       isRoot (bc_name cfg) t st = Built p"
  using assms
  by (cases n)
     (auto simp: bind_build_Built wrap_build_Built of_res_Built Let_def split_def split: if_splits)

lemma build_block_label:
  assumes "build_block n b path isRoot cfg = Built blk" and "bc_name cfg \<noteq> [] \<or> bc_ref cfg = []"
  shows "block_label blk = bc_label cfg \<and> bc_label cfg \<noteq> []"
  using assms(1)
proof (cases rule: build_block_Built)
  case (1 m t st p)
  then show ?thesis using assms(2)
    by (auto simp: block_label_def blockLabel_def bc_label_def BlockLabel_def resolve_def split: if_splits)
qed

lemma build_wrapped_spy:
  assumes "has_spies b" and "addr \<noteq> []" and "json_settings cfg"
    and "build_block n b path isRoot cfg = Built blk" and "bc_name cfg \<noteq> [] \<or> bc_ref cfg = []"
  shows "build_block (Suc n) b path isRoot (wrapInSpy addr cfg) =
     (if isRoot \<and> aware blk
      then Reject (Wrap (''block '' @ quote (bc_label cfg)) (last_block_error blk))
      else Built (spied (dispatcher b) (root_name b) addr blk))"
proof -
  note l = build_block_label [OF assms(4,5)]
  have t: "spyBlockType \<noteq> []" "spyBlockType = ''spy''" "spyBlockType \<noteq> breakpointBlockType"
    by (simp_all add: spyBlockType_def breakpointBlockType_def)
  have f: "subFlow b (build_block n b) path isRoot (chain_spec [] [cfg]) =
      (if isRoot \<and> aware blk then Reject (last_block_error blk)
       else Built \<lparr>flow_label = [], blocks = [blk], flowName = root_name b, events = dispatcher b\<rparr>)"
    using assms(4) by (simp add: subFlow_def chain_spec_def build_flow_def)
  have "build_processor b (build_block n b) path isRoot (bc_label cfg) spyBlockType
      (bc_settings (wrapInSpy addr cfg)) =
      (if isRoot \<and> aware blk then Reject (last_block_error blk)
       else Built (plain (spy_process (run_blocks (dispatcher b) (root_name b) [blk]) addr)))"
    using assms(1,2) f json_settings_decoded [OF assms(3)] t
    by (simp add: build_processor_def build_spy_def wrapInSpy_def flow_process_def)
  then show ?thesis
    using t l by (auto simp: wrapInSpy_def resolve_def debug_wrapper_type_def Let_def spied_def wrapper_block_def
        plain_def blockLabel_def)
qed


definition sample_builder :: "debug_world builder" where
  "sample_builder =
     \<lparr>registry = block_registry Map.empty, bdefs = [], root_name = ''orders'', sched = None,
      compile_message = (\<lambda>s. Inr (\<lambda>_ _. Inl (Err ''boom''))), dispatcher = None, resume_hook = None,
      has_spies = True, has_breakpoint = True, mock_specs = None\<rparr>"

definition sample_cfg :: block_config where
  "sample_cfg =
     \<lparr>bc_type = ''set-variable'', bc_name = ''a'', bc_ref = [],
      bc_settings = [(''name'', GStr ''x''), (''value'', GStr ''1'')]\<rparr>"

definition sample_built :: "debug_world block" where
  "sample_built =
     \<lparr>bname = ''a'', btype = ''set-variable'', bpath = ''orders.a'',
      bproc = (\<lambda>_. set_variable ''x'' (\<lambda>_ _. Inl (Err ''boom''))), aware = False, bcont = None,
      lifecycle = False, stateKey = None\<rparr>"

lemma sample_build: "map_build (build_block 1 sample_builder ''orders'' True) [sample_cfg] = Built [sample_built]"
  by (simp add: sample_cfg_def sample_built_def sample_builder_def resolve_def Let_def build_processor_def
      block_registry_def newSetVariable_def get_string_def debug_wrapper_type_def spyBlockType_def
      breakpointBlockType_def mockBlockType_def JoinBlock_def bc_label_def BlockLabel_def plain_def)


text \<open>
  A block that takes the flow over (a split, an aggregate) cannot be observed: with the
  spy or breakpoint the injector puts at its address the flow no longer builds, whatever
  follows the block in its chain. The wrapper's chain of one block is built as a root chain,
  and the block is the last in it.
\<close>

theorem injected_wrapper_breaks_takeover:
  assumes "has_spies b" and "has_breakpoint b" and "addr \<noteq> []" and "json_settings cfg"
    and "build_block n b path True cfg = Built blk" and "aware blk"
    and "bc_name cfg \<noteq> [] \<or> bc_ref cfg = []"
    and "wrapped \<in> {wrapInSpy addr cfg, wrapInBreakpoint cfg}"
  shows "build_flow b (build_block (Suc n) b) path True name (wrapped # later) =
     Reject (Wrap (''block '' @ quote (bc_label cfg))
       (Err (''block '' @ quote (bc_label cfg) @
          '' continues the flow but is the last block in the chain: nothing would run after it'')))"
proof -
  have l: "block_label blk = bc_label cfg" "bc_label cfg \<noteq> []" using build_block_label [OF assms(5,7)] by simp_all
  have e: "last_block_error blk = Err (''block '' @ quote (bc_label cfg) @
      '' continues the flow but is the last block in the chain: nothing would run after it'')"
    using l by (simp add: last_block_error_def block_label_def)
  have s: "build_block (Suc n) b path True (wrapInSpy addr cfg) =
      Reject (Wrap (''block '' @ quote (bc_label cfg)) (last_block_error blk))"
    using build_wrapped_spy [OF assms(1,3,4,5,7)] assms(6) by (simp del: build_block.simps)
  have "subFlow b (build_block n b) path True (chain_spec [] [cfg]) = Reject (last_block_error blk)"
    using assms(5,6) by (simp add: subFlow_def chain_spec_def build_flow_def)
  then have "build_block (Suc n) b path True (wrapInBreakpoint cfg) =
      Reject (Wrap (''block '' @ quote (bc_label cfg)) (last_block_error blk))"
    using assms(2) json_settings_decoded [OF assms(4)] l
    by (simp add: wrapInBreakpoint_def resolve_def build_processor_def build_breakpoint_def debug_wrapper_type_def
        breakpointBlockType_def blockLabel_def Let_def)
  then show ?thesis using s e assms(8) by (auto simp: build_flow_def simp del: build_block.simps)
qed

text \<open>A takeover block as a registered leaf.\<close>

definition sample_takeover_builder :: "debug_world builder" where
  "sample_takeover_builder = sample_builder\<lparr>registry := block_registry
     [''split'' \<mapsto> (\<lambda>st d. Inr \<lparr>p_run = (\<lambda>_. applyTakeover None), p_aware = True, p_lifecycle = False,
                           p_stateKey = None\<rparr>)]\<rparr>"

definition sample_split :: block_config where
  "sample_split = \<lparr>bc_type = ''split'', bc_name = [], bc_ref = [], bc_settings = []\<rparr>"

lemma sample_takeover_builds:
  "build_block 1 sample_takeover_builder ''orders'' True sample_split =
     Built \<lparr>bname = [], btype = ''split'', bpath = ''orders.split'', bproc = (\<lambda>_. applyTakeover None), aware = True,
            bcont = None, lifecycle = False, stateKey = None\<rparr>"
  by (simp add: sample_takeover_builder_def sample_builder_def sample_split_def resolve_def Let_def
      build_processor_def block_registry_def debug_wrapper_type_def spyBlockType_def breakpointBlockType_def
      mockBlockType_def JoinBlock_def bc_label_def BlockLabel_def)

theorem injected_wrapper_breaks_takeover_witness:
  "\<exists>e. build_flow sample_takeover_builder (build_block (Suc 1) sample_takeover_builder) ''orders'' True ''orders''
     [wrapInSpy ''orders.split'' sample_split, sample_cfg] = Reject e"
proof -
  have "has_spies sample_takeover_builder" "has_breakpoint sample_takeover_builder" "json_settings sample_split"
    by (simp_all add: sample_takeover_builder_def sample_builder_def json_settings_def sample_split_def)
  from injected_wrapper_breaks_takeover [OF this(1,2) _ this(3) sample_takeover_builds, of "''orders.split''"
      "wrapInSpy ''orders.split'' sample_split" "''orders''" "[sample_cfg]"]
  show ?thesis by (simp add: sample_split_def del: build_block.simps)
qed

section \<open>Definitions that refer to themselves\<close>



end
