(* ===== verification/Octo_Split.thy ===== *)
theory Octo_Split
  imports Octo_Builder
begin

text \<open>
  The \<^verbatim>\<open>split\<close> block (\<^verbatim>\<open>runtime/blocks/controlflow/split.go\<close>): one message in,
  many out, each handed to the continuation of the flow.

  An element source is a state with one pulling step. The loop that pulls takes fuel, because
  a source built with an empty delimiter or a chunk size of zero would never end; the mode
  check refuses both, and then the length of the text is enough.

  Text is a list of bytes; a chunk is counted in runes the way \<^verbatim>\<open>utf8.DecodeRuneInString\<close>
  reads them.
\<close>

section \<open>Settings\<close>

definition varGroupID :: string where "varGroupID = ''groupId''"
definition varGroupIndex :: string where "varGroupIndex = ''groupIndex''"
definition varGroupSize :: string where "varGroupSize = ''groupSize''"

definition sizeUnknown :: int where "sizeUnknown = - 1"

datatype 'w split_mode = ByExpression "'w program" | ByLines | ByDelimiter string | ByChunk int

record 'w split_block =
  sp_mode :: "'w split_mode"
  sp_abort :: bool
  sp_buildResponse :: "'w processor option"

definition resolveMode ::
  "'w block_deps \<Rightarrow> string \<Rightarrow> string \<Rightarrow> string \<Rightarrow> int \<Rightarrow> (err, 'w split_mode) res" where
  "resolveMode deps mode items delimiter chunkSize =
     (if mode = ''expression''
      then (if items = [] then Inl (Err ''split block in expression mode requires an items expression'')
            else (case compile deps items of
                    Inl e \<Rightarrow> Inl (Wrap ''split items'' e)
                  | Inr p \<Rightarrow> Inr (ByExpression p)))
      else if mode = ''delimiter''
      then (if delimiter = [] then Inl (Err ''split block in delimiter mode requires a delimiter'')
            else Inr (ByDelimiter delimiter))
      else if mode = ''chunk''
      then (if chunkSize \<le> 0 then Inl (Err ''split block in chunk mode requires a positive chunkSize'')
            else Inr (ByChunk chunkSize))
      else if mode = ''lines'' then Inr ByLines
      else Inl (Err (''split block mode '' @ quote mode @ '' must be one of '' @ quote ''expression'' @ '', '' @
             quote ''lines'' @ '', '' @ quote ''delimiter'' @ '', '' @ quote ''chunk'')))"

section \<open>Element sources\<close>

definition in_range :: "nat \<Rightarrow> nat \<Rightarrow> char \<Rightarrow> bool" where
  "in_range lo hi c \<longleftrightarrow> lo \<le> of_char c \<and> of_char c \<le> hi"

text \<open>How many bytes the first rune of a text takes; a malformed one takes one byte.\<close>

definition rune_width :: "string \<Rightarrow> nat" where
  "rune_width s =
     (case s of
        c0 # c1 # c2 # c3 # _ \<Rightarrow>
          if in_range 0xF0 0xF0 c0 \<and> in_range 0x90 0xBF c1 \<and> in_range 0x80 0xBF c2 \<and> in_range 0x80 0xBF c3 then 4
          else if in_range 0xF1 0xF3 c0 \<and> in_range 0x80 0xBF c1 \<and> in_range 0x80 0xBF c2 \<and> in_range 0x80 0xBF c3 then 4
          else if in_range 0xF4 0xF4 c0 \<and> in_range 0x80 0x8F c1 \<and> in_range 0x80 0xBF c2 \<and> in_range 0x80 0xBF c3 then 4
          else if in_range 0xE0 0xE0 c0 \<and> in_range 0xA0 0xBF c1 \<and> in_range 0x80 0xBF c2 then 3
          else if in_range 0xED 0xED c0 \<and> in_range 0x80 0x9F c1 \<and> in_range 0x80 0xBF c2 then 3
          else if in_range 0xE1 0xEF c0 \<and> \<not> in_range 0xED 0xED c0 \<and> in_range 0x80 0xBF c1 \<and> in_range 0x80 0xBF c2 then 3
          else if in_range 0xC2 0xDF c0 \<and> in_range 0x80 0xBF c1 then 2 else 1
      | [c0, c1, c2] \<Rightarrow>
          if in_range 0xE0 0xE0 c0 \<and> in_range 0xA0 0xBF c1 \<and> in_range 0x80 0xBF c2 then 3
          else if in_range 0xED 0xED c0 \<and> in_range 0x80 0x9F c1 \<and> in_range 0x80 0xBF c2 then 3
          else if in_range 0xE1 0xEF c0 \<and> \<not> in_range 0xED 0xED c0 \<and> in_range 0x80 0xBF c1 \<and> in_range 0x80 0xBF c2 then 3
          else if in_range 0xC2 0xDF c0 \<and> in_range 0x80 0xBF c1 then 2 else 1
      | [c0, c1] \<Rightarrow> if in_range 0xC2 0xDF c0 \<and> in_range 0x80 0xBF c1 then 2 else 1
      | [_] \<Rightarrow> 1
      | [] \<Rightarrow> 0)"

text \<open>The inner loop of \<^verbatim>\<open>chunkElements\<close>: the bytes of the next \<open>n\<close> runes.\<close>

fun take_runes :: "nat \<Rightarrow> string \<Rightarrow> string \<times> string" where
  "take_runes 0 s = ([], s)"
| "take_runes (Suc n) s =
     (if s = [] then ([], [])
      else (case take_runes n (drop (rune_width s) s) of
              (chunk, rest) \<Rightarrow> (take (rune_width s) s @ chunk, rest)))"

datatype source =
    Items "gval list"
  | Lines string
  | Delimited string string bool
  | Chunks int string

definition trim_cr :: "string \<Rightarrow> string" where
  "trim_cr line = trim_suffix line [char_of (13 :: nat)]"

definition newline :: string where "newline = [char_of (10 :: nat)]"

definition next_element :: "source \<Rightarrow> (gval \<times> source) option" where
  "next_element src =
     (case src of
        Items [] \<Rightarrow> None
      | Items (v # vs) \<Rightarrow> Some (v, Items vs)
      | Lines rest \<Rightarrow>
          if rest = [] then None
          else (case str_cut rest newline of
                  (line, remainder, found) \<Rightarrow>
                    Some (GStr (trim_cr line), Lines (if found then remainder else [])))
      | Delimited sep rest fin \<Rightarrow>
          if fin then None
          else (case str_cut rest sep of
                  (part, remainder, found) \<Rightarrow>
                    Some (GStr part, if found then Delimited sep remainder False else Delimited sep rest True))
      | Chunks chunkSize rest \<Rightarrow>
          if rest = [] then None
          else (case take_runes (nat chunkSize) rest of
                  (chunk, remainder) \<Rightarrow> Some (GStr chunk, Chunks chunkSize remainder)))"

definition textBody :: "message \<Rightarrow> (err, string) res" where
  "textBody m =
     (case RawBody m of
        Some (_, raw) \<Rightarrow> Inr raw
      | None \<Rightarrow>
          (case Body m of
             GStr text \<Rightarrow> Inr text
           | v \<Rightarrow> Inl (Err (''split in a tokenizing mode requires a text body (raw content or a string), got '' @
                    type_name v))))"

definition elements :: "'w split_mode \<Rightarrow> 'w \<Rightarrow> message \<Rightarrow> (err, source \<times> int) res" where
  "elements mode w m =
     (case mode of
        ByExpression items \<Rightarrow>
          (case items w m of
             Inl e \<Rightarrow> Inl (Wrap ''split items'' e)
           | Inr v \<Rightarrow>
               (case as_list v of
                  None \<Rightarrow> Inl (Err (''split items expression must evaluate to an array, got '' @ type_name v))
                | Some vs \<Rightarrow> Inr (Items vs, int (length vs))))
      | ByLines \<Rightarrow> bind_res (textBody m) (\<lambda>text. Inr (Lines text, sizeUnknown))
      | ByDelimiter sep \<Rightarrow> bind_res (textBody m) (\<lambda>text. Inr (Delimited sep text (text = []), sizeUnknown))
      | ByChunk chunkSize \<Rightarrow> bind_res (textBody m) (\<lambda>text. Inr (Chunks chunkSize text, sizeUnknown)))"

section \<open>Fanning out\<close>

text \<open>
  The element message: a fresh message with a copy of the element as its body, under the
  parent's correlation id and variables.
\<close>

definition elementMessage ::
  "addr \<Rightarrow> gval \<Rightarrow> 'a world_scheme \<Rightarrow> 'a world_scheme \<times> (err, addr) res" where
  "elementMessage parent value w =
     (case NewMessage (CorrelationID (heap w parent)) w of
        (w1, Inl e) \<Rightarrow> (w1, Inl e)
      | (w1, Inr m) \<Rightarrow>
          (case Clone (upd w1 m (SetBody value)) m of
             (w2, elem) \<Rightarrow>
               (upd w2 elem (\<lambda>x. x\<lparr>Variables := Variables x ++ Variables (heap w2 parent)\<rparr>), Inr elem)))"

definition emit ::
  "bool \<Rightarrow> ('a world_scheme) cont \<Rightarrow> ctx \<Rightarrow> addr \<Rightarrow> string \<Rightarrow> int \<Rightarrow> int \<Rightarrow> gval \<Rightarrow>
   'a world_scheme \<Rightarrow> 'a world_scheme \<times> err option" where
  "emit abort cont c parent groupID index count value w =
     (case elementMessage parent value w of
        (w1, Inl e) \<Rightarrow> (w1, Some e)
      | (w1, Inr elem) \<Rightarrow>
          (case cont c (upd w1 elem (SetVar varGroupSize (GInt count) \<circ> SetVar varGroupIndex (GInt index) \<circ>
                                     SetVar varGroupID (GStr groupID))) elem of
             (w2, None) \<Rightarrow> (w2, None)
           | (w2, Some e) \<Rightarrow>
               (w2, if abort then Some (Wrap (''split element '' @ itoa (nat index)) e) else None)))"

text \<open>
  The pulling loop keeps one element back. \<open>None\<close> is running out of fuel; otherwise the
  world, the number of elements emitted and the error that ended it.
\<close>

fun fanOut ::
  "nat \<Rightarrow> bool \<Rightarrow> ('a world_scheme) cont \<Rightarrow> ctx \<Rightarrow> addr \<Rightarrow> string \<Rightarrow> int \<Rightarrow>
   source \<Rightarrow> gval option \<Rightarrow> int \<Rightarrow> 'a world_scheme \<Rightarrow> ('a world_scheme \<times> int \<times> err option) option" where
  "fanOut 0 abort cont c parent groupID knownSize src held index w = None"
| "fanOut (Suc n) abort cont c parent groupID knownSize src held index w =
     (case next_element src of
        None \<Rightarrow>
          (case held of
             None \<Rightarrow> Some (w, index, None)
           | Some v \<Rightarrow>
               (case emit abort cont c parent groupID index
                       (if knownSize = sizeUnknown then index + 1 else knownSize) v w of
                  (w1, Some e) \<Rightarrow> Some (w1, index, Some e)
                | (w1, None) \<Rightarrow> Some (w1, index + 1, None)))
      | Some (value, src') \<Rightarrow>
          (case held of
             None \<Rightarrow> fanOut n abort cont c parent groupID knownSize src' (Some value) index w
           | Some v \<Rightarrow>
               (case emit abort cont c parent groupID index knownSize v w of
                  (w1, Some e) \<Rightarrow> Some (w1, index, Some e)
                | (w1, None) \<Rightarrow> fanOut n abort cont c parent groupID knownSize src' (Some value) (index + 1) w1)))"

fun source_measure :: "source \<Rightarrow> nat" where
  "source_measure (Items vs) = length vs"
| "source_measure (Lines s) = length s"
| "source_measure (Delimited sep s fin) = (if fin then 0 else Suc (length s))"
| "source_measure (Chunks n s) = length s"

definition errNoFuel :: err where
  "errNoFuel = Err ''split: the element source did not end''"

definition split_process ::
  "('a world_scheme) split_block \<Rightarrow> ('a world_scheme) cont \<Rightarrow> ('a world_scheme) processor" where
  "split_process s cont c w a =
     (case elements (sp_mode s) w (heap w a) of
        Inl e \<Rightarrow> (w, Failed e)
      | Inr (src, knownSize) \<Rightarrow>
          (let groupID = EventID (heap w a) in
           case fanOut (Suc (source_measure src)) (sp_abort s) cont c a groupID knownSize src None 0 w of
             None \<Rightarrow> (w, Failed errNoFuel)
           | Some (w1, n, Some e) \<Rightarrow> (w1, Failed e)
           | Some (w1, n, None) \<Rightarrow>
               applyTakeover (sp_buildResponse s) c
                 (upd w1 a (SetVar varGroupSize (GInt n) \<circ> SetVar varGroupID (GStr groupID))) a))"

definition splitOnError :: "string \<Rightarrow> (err, bool) res" where
  "splitOnError onError =
     (if onError = [] \<or> onError = ''skip'' then Inr False
      else if onError = ''abort'' then Inr True
      else Inl (Err (''split block onError '' @ quote onError @ '' must be '' @ quote ''skip'' @ '' or '' @
             quote ''abort'')))"

text \<open>The continuation is handed over when the chain is wired; before that it is nil.\<close>

definition newSplit :: "('a world_scheme) factory" where
  "newSplit raw deps =
     bind_build (of_res (bind_res (DecodeStrict
         [''mode'', ''items'', ''delimiter'', ''chunkSize'', ''onError'', ''buildResponse''] raw) (\<lambda>st.
       bind_res (get_string st ''mode'') (\<lambda>mode. bind_res (get_string st ''items'') (\<lambda>items.
       bind_res (get_string st ''delimiter'') (\<lambda>delimiter. bind_res (get_int st ''chunkSize'') (\<lambda>chunkSize.
       bind_res (get_string st ''onError'') (\<lambda>onError. bind_res (get_flow st ''buildResponse'') (\<lambda>response.
         Inr (mode, items, delimiter, chunkSize, onError, response))))))))))
       (\<lambda>(mode, items, delimiter, chunkSize, onError, response).
     bind_build (of_res (resolveMode deps (if mode = [] then ''expression'' else mode) items delimiter chunkSize)) (\<lambda>m.
     bind_build (of_res (splitOnError onError)) (\<lambda>abort.
     bind_build (buildTakeoverResponse ''split'' deps response) (\<lambda>resp.
       Built \<lparr>p_run = (\<lambda>co. case co of
                   None \<Rightarrow> (\<lambda>c w a. (w, Failed (Err ''nil continuation'')))
                 | Some k \<Rightarrow> split_process \<lparr>sp_mode = m, sp_abort = abort, sp_buildResponse = resp\<rparr> k),
              p_aware = True, p_lifecycle = False, p_stateKey = None\<rparr>))))"

text \<open>The registry with the block in it is one the builder can rely on.\<close>

definition split_registry ::
  "(string \<rightharpoonup> (settings \<Rightarrow> 'a world_scheme block_deps \<Rightarrow> (err, ('a world_scheme) built_proc) res)) \<Rightarrow>
   string \<rightharpoonup> ('a world_scheme) factory" where
  "split_registry leaf = (block_registry leaf)(''split'' \<mapsto> newSplit)"

lemma buildTakeoverResponse_mono [build_mono]:
  "le_flows s s' \<Longrightarrow>
   le_build (buildTakeoverResponse kind (d\<lparr>SubFlows := Some s\<rparr>) cfg) (buildTakeoverResponse kind (d\<lparr>SubFlows := Some s'\<rparr>) cfg)"
  by (auto simp: buildTakeoverResponse_def le_flows_def split: option.splits intro!: build_mono)

lemma resolveMode_SubFlows [simp]:
  "resolveMode (d\<lparr>SubFlows := s\<rparr>) mode items delimiter chunkSize = resolveMode d mode items delimiter chunkSize"
  by (simp add: resolveMode_def)

lemma newSplit_mono:
  assumes "le_flows s s'"
  shows "le_build (newSplit st (d\<lparr>SubFlows := Some s\<rparr>)) (newSplit st (d\<lparr>SubFlows := Some s'\<rparr>))"
  using assms by (auto simp: newSplit_def split_def intro!: build_mono)

interpretation splitting: monotone_registry "split_registry leaf" for leaf
  by unfold_locales (auto simp: split_registry_def newSplit_mono block_registry_mono split: if_splits)

section \<open>Sources end\<close>

text \<open>The sources a resolved mode makes: a non-empty separator, a positive chunk.\<close>

fun wf_source :: "source \<Rightarrow> bool" where
  "wf_source (Delimited sep s fin) \<longleftrightarrow> sep \<noteq> []"
| "wf_source (Chunks n s) \<longleftrightarrow> 0 < n"
| "wf_source _ \<longleftrightarrow> True"

lemma rune_width_pos: "s \<noteq> [] \<Longrightarrow> 0 < rune_width s"
  by (auto simp: rune_width_def split: list.splits)

lemma take_runes_append: "take_runes n s = (a, b) \<Longrightarrow> a @ b = s"
  by (induction n s arbitrary: a rule: take_runes.induct) (auto split: if_splits prod.splits)

lemma take_runes_nonempty:
  "take_runes n s = (a, b) \<Longrightarrow> 0 < n \<Longrightarrow> s \<noteq> [] \<Longrightarrow> a \<noteq> []"
  using rune_width_pos [of s] by (cases n) (auto split: prod.splits)

lemma next_element_wf:
  "next_element src = Some (v, src') \<Longrightarrow> wf_source src \<Longrightarrow>
     wf_source src' \<and> source_measure src' < source_measure src"
proof (cases src)
  case (Chunks n s)
  assume nx: "next_element src = Some (v, src')" and wf: "wf_source src"
  obtain a b where ab: "take_runes (nat n) s = (a, b)" by force
  with take_runes_append [OF ab] take_runes_nonempty [OF ab] nx wf Chunks show ?thesis
    by (auto simp: next_element_def split: if_splits)
next
  case (Lines s)
  assume nx: "next_element src = Some (v, src')"
  then show ?thesis using cut_rest_shorter [of newline s] Lines
    by (auto simp: next_element_def newline_def split: if_splits prod.splits)
next
  case (Delimited sep s fin)
  assume nx: "next_element src = Some (v, src')" and wf: "wf_source src"
  then show ?thesis using cut_rest_shorter [of sep s] Delimited
    by (auto simp: next_element_def split: if_splits prod.splits)
qed (auto simp: next_element_def split: list.splits)

text \<open>What a source yields, all at once.\<close>

fun pull :: "nat \<Rightarrow> source \<Rightarrow> gval list" where
  "pull 0 src = []"
| "pull (Suc n) src = (case next_element src of None \<Rightarrow> [] | Some (v, src') \<Rightarrow> v # pull n src')"

lemma pull_more: "wf_source src \<Longrightarrow> source_measure src \<le> n \<Longrightarrow> pull n src = pull (source_measure src) src"
proof (induction "source_measure src" arbitrary: src n rule: less_induct)
  case less
  show ?case
  proof (cases "next_element src")
    case None
    then show ?thesis by (cases n; cases "source_measure src"; simp)
  next
    case (Some p)
    obtain v src' where p: "p = (v, src')" by force
    note wf = next_element_wf [OF Some [unfolded p] less.prems(1)]
    with less.prems(2) obtain k n' where k: "source_measure src = Suc k" "n = Suc n'"
      by (cases "source_measure src"; cases n) auto
    have "pull i src' = pull (source_measure src') src'" if "k \<le> i" for i
      using less.hyps [of src' i] wf k that by simp
    from this [of k] this [of n'] show ?thesis using less.prems(2) k by (simp add: Some p)
  qed
qed

definition all_elements :: "source \<Rightarrow> gval list" where
  "all_elements src = pull (source_measure src) src"

lemma all_elements_step:
  assumes "wf_source src"
  shows "all_elements src =
    (case next_element src of None \<Rightarrow> [] | Some (v, src') \<Rightarrow> v # all_elements src')"
proof (cases "next_element src")
  case None
  then show ?thesis by (cases "source_measure src") (simp_all add: all_elements_def)
next
  case (Some p)
  obtain v src' where p: "p = (v, src')" by force
  note wf = next_element_wf [OF Some [unfolded p] assms]
  then obtain k where k: "source_measure src = Suc k" by (cases "source_measure src") auto
  with wf have "pull k src' = all_elements src'" unfolding all_elements_def by (intro pull_more) simp_all
  then show ?thesis by (simp add: Some p all_elements_def k)
qed

lemma source_induct [consumes 1, case_names stop step]:
  assumes "wf_source src"
    and stop: "\<And>src. wf_source src \<Longrightarrow> next_element src = None \<Longrightarrow> P src"
    and step: "\<And>src v src'. wf_source src \<Longrightarrow> next_element src = Some (v, src') \<Longrightarrow> wf_source src' \<Longrightarrow>
      source_measure src' < source_measure src \<Longrightarrow> P src' \<Longrightarrow> P src"
  shows "P src"
  using assms(1)
proof (induction "source_measure src" arbitrary: src rule: less_induct)
  case less
  show ?case
  proof (cases "next_element src")
    case (Some p)
    then show ?thesis using less next_element_wf step by (cases p) blast
  qed (use less stop in blast)
qed

lemma resolveMode_wf:
  "resolveMode deps mode items delimiter chunkSize = Inr m \<Longrightarrow> elements m w msg = Inr (src, k) \<Longrightarrow> wf_source src"
  by (auto simp: resolveMode_def elements_def bind_res_Inr_iff split: if_splits sum.splits option.splits)

section \<open>Properties of split\<close>

lemma cut_no_sep: "sep \<noteq> [] \<Longrightarrow> str_cut s sep = (a, b, f) \<Longrightarrow> \<not> sublist sep a"
proof (induction s arbitrary: a)
  case (Cons x s)
  show ?case
  proof (cases "has_prefix (x # s) sep")
    case False
    with Cons.prems obtain a' where a: "str_cut s sep = (a', b, f)" "a = x # a'"
      by (auto split: prod.splits)
    have "\<not> Sublist.prefix sep a"
    proof
      assume "Sublist.prefix sep a"
      moreover have "Sublist.prefix a (x # s)"
        using cut_found [of s sep a' b] cut_not_found [of s sep a' b] a by (cases f) auto
      ultimately have "Sublist.prefix sep (x # s)" by (rule prefix_order.trans)
      with False show False by (auto simp: has_prefix_def Sublist.prefix_def)
    qed
    with a Cons.IH [OF Cons.prems(1) a(1)] show ?thesis by (auto simp: sublist_Cons_right)
  qed (use Cons.prems in auto)
qed (auto split: if_splits)

lemma delimited_elements:
  "sep \<noteq> [] \<Longrightarrow> \<exists>parts. all_elements (Delimited sep s False) = map GStr parts \<and> parts \<noteq> [] \<and>
     join_with sep parts = s \<and> (\<forall>p \<in> set parts. \<not> sublist sep p)"
proof (induction "length s" arbitrary: s rule: less_induct)
  case less
  obtain a b f where c: "str_cut s sep = (a, b, f)" by (metis prod_cases3)
  note st = all_elements_step [of "Delimited sep s False", simplified, OF less.prems]
  show ?case
  proof (cases f)
    case True
    then have "length b < length s" using c cut_rest_shorter [OF less.prems] by simp
    then obtain parts where
      p: "all_elements (Delimited sep b False) = map GStr parts" "parts \<noteq> []"
        "join_with sep parts = b" "\<forall>p \<in> set parts. \<not> sublist sep p"
      using less.hyps [of b] less.prems by blast
    then obtain y ys where y: "parts = y # ys" by (cases parts) auto
    have "all_elements (Delimited sep s False) = GStr a # map GStr parts"
      using c True p(1) by (simp add: st next_element_def)
    then show ?thesis
      using c True cut_found [of s sep a b] cut_no_sep [OF less.prems c] p y
      by (intro exI [of _ "a # parts"]) simp
  next
    case False
    have "all_elements (Delimited sep s True) = []" by (simp add: all_elements_def)
    with c False cut_not_found [of s sep a b] cut_no_sep [OF less.prems c] show ?thesis
      by (intro exI [of _ "[a]"]) (simp add: st next_element_def)
  qed
qed

lemma chunk_elements:
  "0 < n \<Longrightarrow> \<exists>parts. all_elements (Chunks n s) = map GStr parts \<and> concat parts = s \<and> [] \<notin> set parts"
proof (induction "length s" arbitrary: s rule: less_induct)
  case less
  note st = all_elements_step [of "Chunks n s", simplified, OF less.prems]
  obtain a b where c: "take_runes (nat n) s = (a, b)" by force
  show ?case
  proof (cases "s = []")
    case False
    have ab: "a @ b = s" "a \<noteq> []" using take_runes_append [OF c] take_runes_nonempty [OF c] less.prems False by auto
    then have "length b < length s" by auto
    with less obtain parts where
      "all_elements (Chunks n b) = map GStr parts" "concat parts = b" "[] \<notin> set parts" by blast
    with ab c False show ?thesis by (intro exI [of _ "a # parts"]) (auto simp: st next_element_def)
  next
    case True
    then show ?thesis by (intro exI [of _ "[]"]) (simp add: all_elements_def)
  qed
qed

lemma newline_char: "newline = [CHR 0x0A]"
  by code_simp

lemma trim_cr_clean: "CHR 0x0D \<notin> set s \<Longrightarrow> trim_cr s = s"
proof -
  have "[char_of (13 :: nat)] = [CHR 0x0D]" by code_simp
  moreover assume "CHR 0x0D \<notin> set s"
  ultimately show ?thesis by (auto simp: trim_cr_def trim_suffix_def dest!: has_suffixD)
qed

lemma line_elements:
  "CHR 0x0D \<notin> set s \<Longrightarrow> \<exists>parts. all_elements (Lines s) = map GStr parts \<and>
     (\<forall>p \<in> set parts. CHR 0x0A \<notin> set p) \<and> (parts = [] \<longrightarrow> s = []) \<and>
     (join_with newline parts = s \<or> join_with newline parts @ newline = s)"
proof (induction "length s" arbitrary: s rule: less_induct)
  case less
  have ne: "newline \<noteq> []" by (simp add: newline_def)
  note st = all_elements_step [of "Lines s", simplified]
  obtain a b f where c: "str_cut s newline = (a, b, f)" by (metis prod_cases3)
  show ?case
  proof (cases "s = []")
    case False
    have a: "CHR 0x0A \<notin> set a"
      using cut_no_sep [OF ne c] by (fastforce simp: newline_char sublist_def dest: split_list)
    have "CHR 0x0D \<notin> set a" 
      using less.prems cut_found [of s newline a b] cut_not_found [of s newline a b] c by (cases f) auto
    then have tr: "trim_cr a = a" by (rule trim_cr_clean)
    show ?thesis
    proof (cases f)
      case True
      have t: "s = a @ newline @ b" using cut_found [of s newline a b] c True by simp
      then have "length b < length s" "CHR 0x0D \<notin> set b" using less.prems ne by auto
      with less.hyps obtain parts where
        p: "all_elements (Lines b) = map GStr parts" "\<forall>p \<in> set parts. CHR 0x0A \<notin> set p"
          "parts = [] \<longrightarrow> b = []" "join_with newline parts = b \<or> join_with newline parts @ newline = b"
        by blast
      have "all_elements (Lines s) = GStr a # map GStr parts"
        using c True False p(1) tr by (simp add: st next_element_def)
      then show ?thesis using t p(2-4) a
        by (intro exI [of _ "a # parts"]) (cases parts; auto)
    next
      case False
      have "all_elements (Lines []) = []" by (simp add: all_elements_def)
      with \<open>s \<noteq> []\<close> c False cut_not_found [of s newline a b] a tr show ?thesis
        by (intro exI [of _ "[a]"]) (simp add: st next_element_def)
    qed
  next
    case True
    then show ?thesis by (intro exI [of _ "[]"]) (simp add: all_elements_def)
  qed
qed

text \<open>
  The text modes lose nothing. The parts a delimiter yields, joined by it, are the text
  again and none contains the delimiter; the chunks concatenate to the text and none is
  empty; the lines of a text without carriage returns, joined by newlines, are the text up
  to one final newline.
\<close>

theorem split_text_lossless:
  assumes "text1 \<noteq> []" and "sep \<noteq> []" and "0 < n" and "CHR 0x0D \<notin> set text2"
  shows "(\<exists>parts. all_elements (Delimited sep text1 False) = map GStr parts \<and>
             join_with sep parts = text1 \<and> (\<forall>p \<in> set parts. \<not> sublist sep p)) \<and>
         (\<exists>parts. all_elements (Chunks n text1) = map GStr parts \<and> concat parts = text1 \<and> [] \<notin> set parts) \<and>
         (\<exists>parts. all_elements (Lines text2) = map GStr parts \<and> (\<forall>p \<in> set parts. CHR 0x0A \<notin> set p) \<and>
             (join_with newline parts = text2 \<or> join_with newline parts @ newline = text2))"
  using delimited_elements [OF assms(2), of text1] chunk_elements [OF assms(3), of text1]
    line_elements [OF assms(4)] by blast

theorem split_text_lossless_witness:
  "\<exists>parts. all_elements (Delimited ''--'' ''a--b----'' False) = map GStr parts \<and>
     join_with ''--'' parts = ''a--b----''"
  using split_text_lossless [of "''a--b----''" "''--''" 1 "[]"] by auto

text \<open>
  The reference reading of a fan-out: every element with its position and the group size it
  announces, in order, until one fails.
\<close>

fun emit_all ::
  "bool \<Rightarrow> ('a world_scheme) cont \<Rightarrow> ctx \<Rightarrow> addr \<Rightarrow> string \<Rightarrow> int \<Rightarrow> (int \<times> gval) list \<Rightarrow>
   'a world_scheme \<Rightarrow> 'a world_scheme \<times> int \<times> err option" where
  "emit_all abort cont c parent groupID index [] w = (w, index, None)"
| "emit_all abort cont c parent groupID index ((count, v) # xs) w =
     (case emit abort cont c parent groupID index count v w of
        (w1, Some e) \<Rightarrow> (w1, index, Some e)
      | (w1, None) \<Rightarrow> emit_all abort cont c parent groupID (index + 1) xs w1)"

definition announced :: "int \<Rightarrow> int \<Rightarrow> gval list \<Rightarrow> (int \<times> gval) list" where
  "announced start knownSize vs =
     (if knownSize = sizeUnknown
      then map (\<lambda>v. (sizeUnknown, v)) (butlast vs) @
           (if vs = [] then [] else [(start + int (length vs), last vs)])
      else map (\<lambda>v. (knownSize, v)) vs)"

lemma announced_Cons: "announced i k (v # u # vs) = (k, v) # announced (i + 1) k (u # vs)"
  by (simp add: announced_def)

lemma announced_one: "announced i k [v] = [(if k = sizeUnknown then i + 1 else k, v)]"
  by (simp add: announced_def)

lemma fanOut_emit_all:
  "wf_source src \<Longrightarrow> source_measure src < fuel \<Longrightarrow>
   fanOut fuel abort cont c a gid k src held i w =
     Some (emit_all abort cont c a gid i
       (announced i k ((case held of None \<Rightarrow> [] | Some v \<Rightarrow> [v]) @ all_elements src)) w)"
proof (induction fuel arbitrary: src held i w)
  case (Suc fuel)
  note st = all_elements_step [OF Suc.prems(1)]
  show ?case
  proof (cases "next_element src")
    case None
    then show ?thesis
      by (cases held) (auto simp: st announced_one announced_def split: prod.splits option.splits)
  next
    case (Some p)
    obtain v src' where p: "p = (v, src')" by force
    note wf = next_element_wf [OF Some [unfolded p] Suc.prems(1)]
    with Suc.prems(2) have m: "source_measure src' < fuel" by simp
    show ?thesis
      using Suc.IH [OF conjunct1 [OF wf] m]
      by (cases held) (auto simp: st Some p announced_Cons split: prod.splits option.splits)
  qed
qed simp

text \<open>What an element carries into the continuation.\<close>

definition element_of :: "message \<Rightarrow> string \<Rightarrow> int \<Rightarrow> int \<Rightarrow> gval \<Rightarrow> message \<Rightarrow> bool" where
  "element_of parent groupID index count v m \<longleftrightarrow>
     Body m = copyBody v \<and> CorrelationID m = CorrelationID parent \<and> \<not> RawContent m \<and>
     Variables m = (Variables parent)(varGroupID \<mapsto> GStr groupID, varGroupIndex \<mapsto> GInt index, varGroupSize \<mapsto> GInt count)"

text \<open>
  C30. A split with a mode its settings resolve to always ends, and does exactly what handing
  over all its elements at once would: every element in order under its position, announcing
  the group's size on all of them when the mode knows it and otherwise on the last one only,
  and then the response on the original message with the count.
\<close>

theorem split_fans_out:
  assumes "resolveMode deps mode items delimiter chunkSize = Inr (sp_mode s)"
    and "elements (sp_mode s) w (heap w a) = Inr (src, knownSize)"
  shows "split_process s cont c w a =
     (case emit_all (sp_abort s) cont c a (EventID (heap w a)) 0 (announced 0 knownSize (all_elements src)) w of
        (w1, n, Some e) \<Rightarrow> (w1, Failed e)
      | (w1, n, None) \<Rightarrow>
          applyTakeover (sp_buildResponse s) c
            (upd w1 a (SetVar varGroupSize (GInt n) \<circ> SetVar varGroupID (GStr (EventID (heap w a))))) a)"
  by (simp add: split_process_def assms(2) fanOut_emit_all [OF resolveMode_wf [OF assms]] Let_def
      del: fanOut.simps split: prod.splits option.splits)

definition sample_text_split :: "world split_block" where
  "sample_text_split = \<lparr>sp_mode = ByDelimiter '','', sp_abort = True, sp_buildResponse = None\<rparr>"

theorem split_fans_out_witness:
  "split_process sample_text_split (\<lambda>c w e. (w, None)) (Ctx False) (upd sample_heap 0 (SetBody (GStr []))) 0 =
     (upd (upd sample_heap 0 (SetBody (GStr []))) 0
        (RequestStop \<circ> SetVar ''groupSize'' (GInt 0) \<circ> SetVar ''groupId'' (GStr ''e'')), Out 0)"
  using split_fans_out [of undefined "''delimiter''" "[]" "'',''" 0 sample_text_split
      "upd sample_heap 0 (SetBody (GStr []))" 0 "Delimited '','' [] True" "- 1" "\<lambda>c w e. (w, None)" "Ctx False"]
  by (simp add: resolveMode_def sample_text_split_def elements_def textBody_def RawBody_def sizeUnknown_def
      sample_heap_def sample_msg_def all_elements_def announced_def applyTakeover_def upd_def
      varGroupSize_def varGroupID_def comp_def)

text \<open>
  What a split hands over is a new message: a copy of the element as its body, the
  original's correlation id and variables, and the position, size and identity of the group;
  no message that existed is touched. A continuation that refuses it fails the block only
  when it was told to abort.
\<close>

theorem split_element_message:
  assumes "parent < hp w" and "newEventID w = (w0, Inr eid)"
  shows "\<exists>w1 elem. element_of (heap w parent) groupID index count v (heap w1 elem) \<and>
           EventID (heap w1 elem) = eid \<and> hp w \<le> elem \<and> frames w elem w1 \<and>
           emit abort cont c parent groupID index count v w =
             (case cont c w1 elem of
                (w2, None) \<Rightarrow> (w2, None)
              | (w2, Some e) \<Rightarrow>
                  (w2, if abort then Some (Wrap (''split element '' @ itoa (nat index)) e) else None))"
proof -
  note n = newEventID_frame [OF assms(2)]
  obtain w1 elem where e: "elementMessage parent v w = (w1, Inr elem)"
      and m: "heap w1 elem = \<lparr>EventID = eid, CorrelationID = CorrelationID (heap w parent),
                Variables = Variables (heap w parent), Body = copyBody v, BodySchema = [],
                RawContent = False, bodyShared = False\<rparr>"
      and f: "elem = Suc (hp w)" "hp w1 = Suc (Suc (hp w))" "\<And>b. b < hp w \<Longrightarrow> heap w1 b = heap w b"
    using assms(1) n
    by (auto simp: elementMessage_def NewMessage_def assms(2) alloc_def Clone_def Let_def SetBody_def)
  let ?w = "upd w1 elem (SetVar varGroupSize (GInt count) \<circ> SetVar varGroupIndex (GInt index) \<circ>
                                     SetVar varGroupID (GStr groupID))"
  have "emit abort cont c parent groupID index count v w =
             (case cont c ?w elem of
                (w2, None) \<Rightarrow> (w2, None)
              | (w2, Some e) \<Rightarrow>
                  (w2, if abort then Some (Wrap (''split element '' @ itoa (nat index)) e) else None))"
    by (simp add: emit_def e)
  moreover have "element_of (heap w parent) groupID index count v (heap ?w elem)" "EventID (heap ?w elem) = eid"
    using m by (simp_all add: element_of_def)
  moreover have "hp w \<le> elem" "frames w elem ?w" using f by (simp_all add: frames_def)
  ultimately show ?thesis by blast
qed

theorem split_element_message_witness:
  "\<exists>w1 elem. element_of sample_msg ''g'' 2 5 (GStr ''v'') (heap w1 elem) \<and> 1 \<le> elem \<and>
     emit True (\<lambda>c w e. (w, Some (Err ''full''))) (Ctx False) 0 ''g'' 2 5 (GStr ''v'') sample_heap =
       (w1, Some (Wrap ''split element 2'' (Err ''full'')))"
proof -
  have i: "itoa 2 = ''2''" by (simp add: itoa.simps digit_char_def) code_simp
  have "0 < hp sample_heap" "newEventID sample_heap =
      (sample_heap\<lparr>entropy := []\<rparr>, Inr (hex_encode (replicate 16 CHR ''A'')))"
    by (simp_all add: sample_heap_def newEventID_def eventIDBytes_def)
  from split_element_message [OF this, of "''g''" 2 5 "GStr ''v''" True
      "\<lambda>c w e. (w, Some (Err ''full''))" "Ctx False"] i
  show ?thesis by (auto simp: sample_heap_def)
qed

end
