(* ===== verification/Octo_Aggregate.thy ===== *)
theory Octo_Aggregate
  imports Octo_Split Octo_Cache "HOL-Library.Word"
begin

text \<open>
  The \<^verbatim>\<open>aggregate\<close> block (\<^verbatim>\<open>runtime/blocks/controlflow/aggregate.go\<close>): many
  messages in, one out, with the open groups kept in the versioned store.

  Other replicas, and other goroutines of this one, act on the store between any two calls
  this block makes. \<open>others\<close> lists what they do: before each call one entry is taken, the
  store and the clock become what it makes of them, and the call fails when the entry says so.
  An empty list is a quiet store. The in-process locks only restrict what can be interleaved,
  so the model covers every schedule they allow.

  A stored group is the JSON document of its state, with exact integer literals.
\<close>

section \<open>Calls to the store\<close>

type_synonym interference = "(gval store \<times> int \<Rightarrow> gval store \<times> int) \<times> err option"

record agg_world = kv_world +
  others :: "interference list"

datatype kv_failure = Conflict | Broken err

definition kv_failure_text :: "kv_failure \<Rightarrow> err" where
  "kv_failure_text f = (case f of Conflict \<Rightarrow> kv_error_text ErrVersionConflict | Broken e \<Rightarrow> e)"

definition others_act :: "'a agg_world_scheme \<Rightarrow> 'a agg_world_scheme \<times> err option" where
  "others_act w =
     (case others w of
        [] \<Rightarrow> (w, None)
      | (act, fault) # rest \<Rightarrow>
          (case act (kv w, clock w) of
             (s, t) \<Rightarrow> (w\<lparr>kv := s, clock := t, others := rest\<rparr>, fault)))"

definition kv_Get :: "'a agg_world_scheme \<Rightarrow> string \<Rightarrow> 'a agg_world_scheme \<times> (err, gval entry option) res" where
  "kv_Get w key =
     (case others_act w of
        (w1, Some e) \<Rightarrow> (w1, Inl e)
      | (w1, None) \<Rightarrow> (w1, Inr (Get (kv w1) NamespaceSystem key)))"

definition kv_Set ::
  "'a agg_world_scheme \<Rightarrow> string \<Rightarrow> gval \<Rightarrow> int \<Rightarrow> 'a agg_world_scheme \<times> (kv_failure, unit) res" where
  "kv_Set w key value expectedVersion =
     (case others_act w of
        (w1, Some e) \<Rightarrow> (w1, Inl (Broken e))
      | (w1, None) \<Rightarrow>
          (case store_write (kv w1) NamespaceSystem key value expectedVersion of
             (s, Inr _) \<Rightarrow> (w1\<lparr>kv := s\<rparr>, Inr ())
           | (s, Inl ErrVersionConflict) \<Rightarrow> (w1\<lparr>kv := s\<rparr>, Inl Conflict)
           | (s, Inl e) \<Rightarrow> (w1\<lparr>kv := s\<rparr>, Inl (Broken (kv_error_text e)))))"

definition kv_Delete ::
  "'a agg_world_scheme \<Rightarrow> string \<Rightarrow> int \<Rightarrow> 'a agg_world_scheme \<times> (kv_failure, unit) res" where
  "kv_Delete w key expectedVersion =
     (case others_act w of
        (w1, Some e) \<Rightarrow> (w1, Inl (Broken e))
      | (w1, None) \<Rightarrow>
          (case Delete (kv w1) NamespaceSystem key expectedVersion of
             (s, Inr _) \<Rightarrow> (w1\<lparr>kv := s\<rparr>, Inr ())
           | (s, Inl ErrVersionConflict) \<Rightarrow> (w1\<lparr>kv := s\<rparr>, Inl Conflict)
           | (s, Inl e) \<Rightarrow> (w1\<lparr>kv := s\<rparr>, Inl (Broken (kv_error_text e)))))"

section \<open>Numbers\<close>

text \<open>Arithmetic on \<^verbatim>\<open>int64\<close> wraps; division truncates towards zero.\<close>

definition int64 :: "int \<Rightarrow> int" where
  "int64 n = sint (word_of_int n :: 64 word)"

definition quot :: "int \<Rightarrow> int \<Rightarrow> int" where
  "quot a b = sgn a * sgn b * (\<bar>a\<bar> div \<bar>b\<bar>)"

definition foldStripes :: nat where "foldStripes = 64"

definition stripeSeed :: "32 word" where "stripeSeed = 31"

definition stripeOf :: "string \<Rightarrow> nat" where
  "stripeOf hash = unat (foldl (\<lambda>acc c. acc * stripeSeed + of_nat (of_char c)) 0 hash) mod foldStripes"

definition asInt :: "gval \<Rightarrow> int option" where
  "asInt value =
     (case value of
        GInt n \<Rightarrow> Some n
      | GInt64 n \<Rightarrow> Some n
      | GFloat q \<Rightarrow> if q = float64_of_int (int_of_float64 q) then Some (int_of_float64 q) else None
      | _ \<Rightarrow> None)"

definition normalizeJSON :: "gval \<Rightarrow> (err, gval) res" where
  "normalizeJSON value =
     (case Marshal value of
        None \<Rightarrow> Inl (Wrap ''encode value'' (Err ''unsupported type''))
      | Some raw \<Rightarrow>
          (case Unmarshal raw of
             None \<Rightarrow> Inl (Wrap ''decode value'' (Err ''exceeded max depth''))
           | Some decoded \<Rightarrow> Inr decoded))"

text \<open>\<^verbatim>\<open>time.RFC3339\<close> of a UTC instant in nanoseconds since the epoch.\<close>

definition two_digits :: "int \<Rightarrow> string" where
  "two_digits n = (if n < 10 then ''0'' else []) @ itoa (nat n)"

definition civil :: "int \<Rightarrow> int \<times> int \<times> int" where
  "civil days =
     (let z = days + 719468; era = z div 146097; doe = z mod 146097;
          yoe = (doe - doe div 1460 + doe div 36524 - doe div 146096) div 365;
          doy = doe - (365 * yoe + yoe div 4 - yoe div 100);
          mp = (5 * doy + 2) div 153; d = doy - (153 * mp + 2) div 5 + 1;
          m = (if mp < 10 then mp + 3 else mp - 9)
      in (yoe + era * 400 + (if m \<le> 2 then 1 else 0), m, d))"

definition rfc3339 :: "int \<Rightarrow> string" where
  "rfc3339 nanos =
     (let secs = nanos div 1000000000; days = secs div 86400; s = secs mod 86400
      in case civil days of (y, m, d) \<Rightarrow>
           itoa (nat y) @ ''-'' @ two_digits m @ ''-'' @ two_digits d @ ''T'' @ two_digits (s div 3600) @ '':'' @
           two_digits (s div 60 mod 60) @ '':'' @ two_digits (s mod 60) @ ''Z'')"

section \<open>Groups\<close>

record group_state =
  gs_Key :: string
  gs_Count :: int
  gs_Size :: int
  gs_Acc :: gval
  gs_CorrelationID :: string
  gs_TraceID :: string
  gs_FirstAt :: int
  gs_LastAt :: int
  gs_Deadline :: int

definition zero_group :: group_state where
  "zero_group = \<lparr>gs_Key = [], gs_Count = 0, gs_Size = 0, gs_Acc = GNull, gs_CorrelationID = [], gs_TraceID = [],
     gs_FirstAt = 0, gs_LastAt = 0, gs_Deadline = 0\<rparr>"

definition omit_empty :: "string \<Rightarrow> string \<Rightarrow> (string \<times> gval) list" where
  "omit_empty key s = (if s = [] then [] else [(key, GStr s)])"

definition group_fields :: "group_state \<Rightarrow> (string \<times> gval) list" where
  "group_fields g =
     [(''key'', GStr (gs_Key g)), (''count'', GInt (gs_Count g)), (''size'', GInt (gs_Size g)), (''acc'', gs_Acc g)] @
     omit_empty ''correlationId'' (gs_CorrelationID g) @ omit_empty ''traceId'' (gs_TraceID g) @
     [(''firstAt'', GInt64 (gs_FirstAt g)), (''lastAt'', GInt64 (gs_LastAt g))] @
     (if gs_Deadline g = 0 then [] else [(''deadline'', GInt64 (gs_Deadline g))])"

definition encode_group :: "group_state \<Rightarrow> gval option" where
  "encode_group g = Marshal (GMap (group_fields g))"

text \<open>
  Decoding fills the fields of a struct that is already there: a field the document does not
  have, or has as null, keeps its value.
\<close>

definition over_string :: "(string \<times> gval) list \<Rightarrow> string \<Rightarrow> string \<Rightarrow> (err, string) res" where
  "over_string kvs key old = (case map_of kvs key of None \<Rightarrow> Inr old | Some GNull \<Rightarrow> Inr old | _ \<Rightarrow> get_string kvs key)"

definition over_int :: "(string \<times> gval) list \<Rightarrow> string \<Rightarrow> int \<Rightarrow> (err, int) res" where
  "over_int kvs key old = (case map_of kvs key of None \<Rightarrow> Inr old | Some GNull \<Rightarrow> Inr old | _ \<Rightarrow> get_int kvs key)"

definition decode_group :: "group_state \<Rightarrow> gval \<Rightarrow> (err, group_state) res" where
  "decode_group g doc =
     (if \<not> encodable doc \<or> maxCopyDepth < nesting doc then Inl (Err ''exceeded max depth'')
      else (case doc of
        GMap kvs \<Rightarrow>
          bind_res (over_string kvs ''key'' (gs_Key g)) (\<lambda>key. bind_res (over_int kvs ''count'' (gs_Count g)) (\<lambda>n.
          bind_res (over_int kvs ''size'' (gs_Size g)) (\<lambda>sz.
          bind_res (over_string kvs ''correlationId'' (gs_CorrelationID g)) (\<lambda>corr.
          bind_res (over_string kvs ''traceId'' (gs_TraceID g)) (\<lambda>tid.
          bind_res (over_int kvs ''firstAt'' (gs_FirstAt g)) (\<lambda>fa. bind_res (over_int kvs ''lastAt'' (gs_LastAt g)) (\<lambda>la.
          bind_res (over_int kvs ''deadline'' (gs_Deadline g)) (\<lambda>dl.
            Inr \<lparr>gs_Key = key, gs_Count = n, gs_Size = sz,
                 gs_Acc = (case map_of kvs ''acc'' of None \<Rightarrow> gs_Acc g | Some v \<Rightarrow> json_normal v),
                 gs_CorrelationID = corr, gs_TraceID = tid, gs_FirstAt = fa, gs_LastAt = la, gs_Deadline = dl\<rparr>))))))))
      | GNull \<Rightarrow> Inr g
      | _ \<Rightarrow> Inl (Err ''cannot unmarshal into groupState'')))"

record group_entry =
  ge_FirstAt :: int
  ge_Deadline :: int

type_synonym group_index = "(string \<times> group_entry) list"

definition encode_entry :: "group_entry \<Rightarrow> gval" where
  "encode_entry e = GMap ((''firstAt'', GInt64 (ge_FirstAt e)) #
     (if ge_Deadline e = 0 then [] else [(''deadline'', GInt64 (ge_Deadline e))]))"

definition encode_index :: "group_index \<Rightarrow> gval" where
  "encode_index idx = GMap [(''groups'', GMap (map (\<lambda>(h, e). (h, encode_entry e)) idx))]"

definition decode_entry :: "gval \<Rightarrow> (err, group_entry) res" where
  "decode_entry v =
     (case v of
        GMap kvs \<Rightarrow>
          bind_res (over_int kvs ''firstAt'' 0) (\<lambda>fa. bind_res (over_int kvs ''deadline'' 0) (\<lambda>dl.
            Inr \<lparr>ge_FirstAt = fa, ge_Deadline = dl\<rparr>))
      | GNull \<Rightarrow> Inr \<lparr>ge_FirstAt = 0, ge_Deadline = 0\<rparr>
      | _ \<Rightarrow> Inl (Err ''cannot unmarshal into groupEntry''))"

text \<open>A null or missing map of groups becomes an empty one.\<close>

definition decode_index :: "gval \<Rightarrow> (err, group_index) res" where
  "decode_index doc =
     (case doc of
        GMap kvs \<Rightarrow>
          bind_res (get_object kvs ''groups'') (\<lambda>gs. case gs of
              None \<Rightarrow> Inr []
            | Some hs \<Rightarrow>
                bind_res (map_res (\<lambda>(h, v). bind_res (decode_entry v) (\<lambda>e. Inr (h, e))) hs) (\<lambda>es.
                  Inr (fold (\<lambda>(h, e). AList.update h e) es [])))
      | GNull \<Rightarrow> Inr []
      | _ \<Rightarrow> Inl (Err ''cannot unmarshal into groupIndex''))"

section \<open>The block\<close>

datatype overflow_policy = OverflowFail | OverflowComplete | OverflowDrop

text \<open>
  \<open>ag_fold\<close> is absent in append mode. \<open>ag_hash\<close> is \<^verbatim>\<open>hashedKey\<close>, the hexadecimal
  SHA-256 digest, and \<open>ag_render\<close> the JSON text of a correlation value that is not a string.
\<close>

record 'w aggregate =
  ag_storeKey :: string
  ag_correlation :: "'w program"
  ag_fold :: "'w program option"
  ag_completionSize :: "'w program"
  ag_completionExpr :: "'w program option"
  ag_timeout :: int
  ag_fromLast :: bool
  ag_maxGroups :: int
  ag_onOverflow :: overflow_policy
  ag_buildResponse :: "'w processor option"
  ag_hash :: "string \<Rightarrow> string"
  ag_render :: "gval \<Rightarrow> string"

definition defaultMaxGroups :: int where "defaultMaxGroups = 1000"
definition aggregateWriteAttempts :: nat where "aggregateWriteAttempts = 5"
definition maxPositionedIndex :: int where "maxPositionedIndex = 100000"
definition minReapInterval :: int where "minReapInterval = 1000000000"
definition maxReapInterval :: int where "maxReapInterval = 30 * 1000000000"

definition varAggregateKey :: string where "varAggregateKey = ''aggregateKey''"
definition varAggregateCount :: string where "varAggregateCount = ''aggregateCount''"
definition varAggregateReason :: string where "varAggregateReason = ''aggregateReason''"
definition varGroup :: string where "varGroup = ''group''"

definition groupStateKey :: "'w aggregate \<Rightarrow> string \<Rightarrow> string" where
  "groupStateKey a h = ''aggregate/'' @ ag_hash a (ag_storeKey a) @ ''/g/'' @ h"

definition indexKey :: "'w aggregate \<Rightarrow> string" where
  "indexKey a = ''aggregate/'' @ ag_hash a (ag_storeKey a) @ ''/index''"

definition errGroupContended :: "string \<Rightarrow> err" where
  "errGroupContended s = Err (''aggregate: group contended by concurrent writers: '' @ s)"

subsection \<open>The index\<close>

definition readIndex ::
  "('a agg_world_scheme) aggregate \<Rightarrow> 'a agg_world_scheme \<Rightarrow>
   'a agg_world_scheme \<times> (err, group_index \<times> int) res" where
  "readIndex a w =
     (case kv_Get w (indexKey a) of
        (w1, Inl e) \<Rightarrow> (w1, Inl (Wrap ''aggregate: read group index'' e))
      | (w1, Inr None) \<Rightarrow> (w1, Inr ([], 0))
      | (w1, Inr (Some en)) \<Rightarrow>
          (case decode_index (Value en) of
             Inl e \<Rightarrow> (w1, Inl (Wrap ''aggregate: decode group index'' e))
           | Inr idx \<Rightarrow> (w1, Inr (idx, Version en))))"

text \<open>\<open>Inr True\<close> is a lost race.\<close>

definition writeIndex ::
  "('a agg_world_scheme) aggregate \<Rightarrow> group_index \<Rightarrow> int \<Rightarrow> 'a agg_world_scheme \<Rightarrow>
   'a agg_world_scheme \<times> (err, bool) res" where
  "writeIndex a idx version w =
     (case kv_Set w (indexKey a) (encode_index idx) version of
        (w1, Inr _) \<Rightarrow> (w1, Inr False)
      | (w1, Inl Conflict) \<Rightarrow> (w1, Inr True)
      | (w1, Inl (Broken e)) \<Rightarrow> (w1, Inl (Wrap ''aggregate: write group index'' e)))"

text \<open>
  \<open>mutate\<close> answers nothing when it leaves the index alone. What goes wrong is only logged.
\<close>

fun updateIndex_loop ::
  "nat \<Rightarrow> ('a agg_world_scheme) aggregate \<Rightarrow> (group_index \<Rightarrow> group_index option) \<Rightarrow> 'a agg_world_scheme \<Rightarrow>
   'a agg_world_scheme" where
  "updateIndex_loop 0 a mutate w = w"
| "updateIndex_loop (Suc n) a mutate w =
     (case readIndex a w of
        (w1, Inl e) \<Rightarrow> w1
      | (w1, Inr (idx, version)) \<Rightarrow>
          (case mutate idx of
             None \<Rightarrow> w1
           | Some idx' \<Rightarrow>
               (case writeIndex a idx' version w1 of
                  (w2, Inl e) \<Rightarrow> w2
                | (w2, Inr True) \<Rightarrow> updateIndex_loop n a mutate w2
                | (w2, Inr False) \<Rightarrow> w2)))"

definition updateIndex ::
  "('a agg_world_scheme) aggregate \<Rightarrow> (group_index \<Rightarrow> group_index option) \<Rightarrow> 'a agg_world_scheme \<Rightarrow> 'a agg_world_scheme" where
  "updateIndex = updateIndex_loop aggregateWriteAttempts"

definition trackGroup ::
  "('a agg_world_scheme) aggregate \<Rightarrow> string \<Rightarrow> group_state \<Rightarrow> 'a agg_world_scheme \<Rightarrow> 'a agg_world_scheme" where
  "trackGroup a h g =
     (let want = \<lparr>ge_FirstAt = gs_FirstAt g, ge_Deadline = gs_Deadline g\<rparr> in
      updateIndex a (\<lambda>idx. if map_of idx h = Some want then None else Some (AList.update h want idx)))"

definition forgetGroup ::
  "('a agg_world_scheme) aggregate \<Rightarrow> string \<Rightarrow> 'a agg_world_scheme \<Rightarrow> 'a agg_world_scheme" where
  "forgetGroup a h =
     updateIndex a (\<lambda>idx. if map_of idx h = None then None else Some (AList.delete h idx))"

subsection \<open>Folding a message\<close>

definition activation :: "group_state \<Rightarrow> int \<Rightarrow> gval" where
  "activation g now =
     GMap [(''key'', GStr (gs_Key g)), (''count'', GInt (gs_Count g)), (''size'', GInt (gs_Size g)),
       (''acc'', gs_Acc g), (''firstAt'', GStr (rfc3339 (gs_FirstAt g))), (''lastAt'', GStr (rfc3339 (gs_LastAt g))),
       (''ageMs'', GInt64 (quot (int64 (now - gs_FirstAt g)) 1000000)),
       (''idleMs'', GInt64 (quot (int64 (now - gs_LastAt g)) 1000000))]"

definition withGroup ::
  "group_state \<Rightarrow> 'a agg_world_scheme \<Rightarrow> addr \<Rightarrow> 'a agg_world_scheme \<times> addr" where
  "withGroup g w m =
     (case Scoped w m of (w1, scoped) \<Rightarrow> (upd w1 scoped (SetVar varGroup (activation g (clock w1))), scoped))"

definition positionLimit :: "message \<Rightarrow> group_state \<Rightarrow> int" where
  "positionLimit m g =
     (if 0 < gs_Size g then min (gs_Size g) maxPositionedIndex
      else (case var_Int (Variables m) varGroupSize of
              (count, ok) \<Rightarrow> if ok \<and> 0 < count then min count maxPositionedIndex else maxPositionedIndex))"

definition items_of :: "gval \<Rightarrow> gval list" where
  "items_of acc = (case acc of GList vs \<Rightarrow> vs | _ \<Rightarrow> [])"

definition place_at :: "nat \<Rightarrow> gval \<Rightarrow> gval list \<Rightarrow> gval list" where
  "place_at i v items = (items @ replicate (Suc i - length items) GNull)[i := v]"

definition placeInOrder :: "gval \<Rightarrow> message \<Rightarrow> group_state \<Rightarrow> gval list" where
  "placeInOrder acc m g =
     (case var_Int (Variables m) varGroupIndex of
        (index, positioned) \<Rightarrow>
          if \<not> positioned \<or> index < 0 \<or> positionLimit m g \<le> index then items_of acc @ [Body m]
          else place_at (nat index) (Body m) (items_of acc))"

definition accumulate ::
  "('a agg_world_scheme) aggregate \<Rightarrow> group_state \<Rightarrow> 'a agg_world_scheme \<Rightarrow> addr \<Rightarrow>
   'a agg_world_scheme \<times> (err, gval) res" where
  "accumulate a g w m =
     (case ag_fold a of
        None \<Rightarrow> (w, Inr (GList (placeInOrder (gs_Acc g) (heap w m) g)))
      | Some p \<Rightarrow>
          (case withGroup g w m of
             (w1, s) \<Rightarrow>
               (case p w1 (heap w1 s) of
                  Inl e \<Rightarrow> (w1, Inl (Wrap ''aggregate expression'' e))
                | Inr value \<Rightarrow> (w1, normalizeJSON value))))"

definition deadline :: "'w aggregate \<Rightarrow> group_state \<Rightarrow> int" where
  "deadline a g =
     (if ag_timeout a \<le> 0 then 0
      else int64 ((if ag_fromLast a then gs_LastAt g else gs_FirstAt g) + ag_timeout a))"

definition learnSize ::
  "('a agg_world_scheme) aggregate \<Rightarrow> group_state \<Rightarrow> 'a agg_world_scheme \<Rightarrow> addr \<Rightarrow>
   'a agg_world_scheme \<times> (err, group_state) res" where
  "learnSize a g w m =
     (if 0 \<le> gs_Size g then (w, Inr g)
      else (case withGroup g w m of
              (w1, s) \<Rightarrow>
                (case ag_completionSize a w1 (heap w1 s) of
                   Inl e \<Rightarrow> (w1, Inl (Wrap ''aggregate completionSize'' e))
                 | Inr value \<Rightarrow>
                     (w1, Inr (case asInt value of
                                 Some n \<Rightarrow> if 0 < n then g\<lparr>gs_Size := n\<rparr> else g
                               | None \<Rightarrow> g)))))"

datatype reason = ReasonSize | ReasonTimeout | ReasonExpression | ReasonOverflow

fun reason_text :: "reason \<Rightarrow> string" where
  "reason_text ReasonSize = ''size''"
| "reason_text ReasonTimeout = ''timeout''"
| "reason_text ReasonExpression = ''expression''"
| "reason_text ReasonOverflow = ''overflow''"

definition checkExpression ::
  "('a agg_world_scheme) aggregate \<Rightarrow> group_state \<Rightarrow> 'a agg_world_scheme \<Rightarrow> addr \<Rightarrow>
   'a agg_world_scheme \<times> (err, bool) res" where
  "checkExpression a g w m =
     (case ag_completionExpr a of
        None \<Rightarrow> (w, Inr False)
      | Some p \<Rightarrow>
          (case withGroup g w m of
             (w1, s) \<Rightarrow>
               (case EvalCondition p w1 (heap w1 s) of
                  Inl e \<Rightarrow> (w1, Inl (Wrap ''aggregate completionExpression'' e))
                | Inr b \<Rightarrow> (w1, Inr b))))"

text \<open>The folded state, and why the group is complete when it is.\<close>

definition applyMessage ::
  "('a agg_world_scheme) aggregate \<Rightarrow> group_state \<Rightarrow> 'a agg_world_scheme \<Rightarrow> addr \<Rightarrow>
   'a agg_world_scheme \<times> (err, group_state \<times> reason option) res" where
  "applyMessage a g w m =
     (case accumulate a g w m of
        (w1, Inl e) \<Rightarrow> (w1, Inl e)
      | (w1, Inr acc) \<Rightarrow>
          (let g1 = g\<lparr>gs_Acc := acc, gs_Count := gs_Count g + 1, gs_LastAt := clock w1\<rparr>;
               g2 = g1\<lparr>gs_Deadline := deadline a g1\<rparr>
           in case learnSize a g2 w1 m of
                (w2, Inl e) \<Rightarrow> (w2, Inl e)
              | (w2, Inr g3) \<Rightarrow>
                  if 0 \<le> gs_Size g3 \<and> gs_Size g3 \<le> gs_Count g3 then (w2, Inr (g3, Some ReasonSize))
                  else (case checkExpression a g3 w2 m of
                          (w3, Inl e) \<Rightarrow> (w3, Inl e)
                        | (w3, Inr done') \<Rightarrow> (w3, Inr (g3, if done' then Some ReasonExpression else None)))))"

definition loadGroup ::
  "string \<Rightarrow> gval entry option \<Rightarrow> 'a agg_world_scheme \<Rightarrow> addr \<Rightarrow> (err, group_state) res" where
  "loadGroup key found w m =
     (let g = zero_group\<lparr>gs_Key := key, gs_Size := sizeUnknown\<rparr> in
      case found of
        Some en \<Rightarrow>
          (case decode_group g (Value en) of
             Inl e \<Rightarrow> Inl (Wrap (''aggregate: decode group '' @ quote key) e)
           | Inr g' \<Rightarrow> Inr g')
      | None \<Rightarrow> Inr (g\<lparr>gs_CorrelationID := CorrelationID (heap w m), gs_TraceID := TraceID (heap w m),
                      gs_FirstAt := clock w\<rparr>))"

subsection \<open>Committing\<close>

text \<open>\<open>Inr True\<close> is a version conflict.\<close>

definition commitComplete ::
  "('a agg_world_scheme) aggregate \<Rightarrow> string \<Rightarrow> gval entry option \<Rightarrow> 'a agg_world_scheme \<Rightarrow>
   'a agg_world_scheme \<times> (err, bool) res" where
  "commitComplete a h found w =
     (case found of
        None \<Rightarrow> (forgetGroup a h w, Inr False)
      | Some en \<Rightarrow>
          (case kv_Delete w (groupStateKey a h) (Version en) of
             (w1, Inl Conflict) \<Rightarrow> (w1, Inr True)
           | (w1, Inl (Broken e)) \<Rightarrow> (w1, Inl (Wrap ''release'' e))
           | (w1, Inr _) \<Rightarrow> (forgetGroup a h w1, Inr False)))"

definition commitOpen ::
  "('a agg_world_scheme) aggregate \<Rightarrow> string \<Rightarrow> gval entry option \<Rightarrow> group_state \<Rightarrow> 'a agg_world_scheme \<Rightarrow>
   'a agg_world_scheme \<times> (err, bool) res" where
  "commitOpen a h found g w =
     (case encode_group g of
        None \<Rightarrow> (w, Inl (Wrap ''encode'' (Err ''unsupported type'')))
      | Some encoded \<Rightarrow>
          (case kv_Set w (groupStateKey a h) encoded (case found of None \<Rightarrow> 0 | Some en \<Rightarrow> Version en) of
             (w1, Inl Conflict) \<Rightarrow> (w1, Inr True)
           | (w1, Inl (Broken e)) \<Rightarrow> (w1, Inl (Wrap ''write'' e))
           | (w1, Inr _) \<Rightarrow> (trackGroup a h g w1, Inr False)))"

fun foldLocked_loop ::
  "nat \<Rightarrow> ('a agg_world_scheme) aggregate \<Rightarrow> string \<Rightarrow> string \<Rightarrow> 'a agg_world_scheme \<Rightarrow> addr \<Rightarrow>
   'a agg_world_scheme \<times> (err, (group_state \<times> reason) option) res" where
  "foldLocked_loop 0 a key h w m =
     (w, Inl (errGroupContended (quote key @ '' after '' @ itoa aggregateWriteAttempts @ '' attempts'')))"
| "foldLocked_loop (Suc n) a key h w m =
     (case kv_Get w (groupStateKey a h) of
        (w1, Inl e) \<Rightarrow> (w1, Inl (Wrap (''aggregate: read group '' @ quote key) e))
      | (w1, Inr found) \<Rightarrow>
          (case loadGroup key found w1 m of
             Inl e \<Rightarrow> (w1, Inl e)
           | Inr g \<Rightarrow>
               (case applyMessage a g w1 m of
                  (w2, Inl e) \<Rightarrow> (w2, Inl e)
                | (w2, Inr (g', why)) \<Rightarrow>
                    (case (case why of Some _ \<Rightarrow> commitComplete a h found w2
                                          | None \<Rightarrow> commitOpen a h found g' w2) of
                       (w3, Inr True) \<Rightarrow> foldLocked_loop n a key h w3 m
                     | (w3, Inl e) \<Rightarrow> (w3, Inl (Wrap (''aggregate: group '' @ quote key) e))
                     | (w3, Inr False) \<Rightarrow> (w3, Inr (map_option (\<lambda>r. (g', r)) why))))))"

definition foldLocked ::
  "('a agg_world_scheme) aggregate \<Rightarrow> string \<Rightarrow> string \<Rightarrow> 'a agg_world_scheme \<Rightarrow> addr \<Rightarrow>
   'a agg_world_scheme \<times> (err, (group_state \<times> reason) option) res" where
  "foldLocked = foldLocked_loop aggregateWriteAttempts"

subsection \<open>Delivering\<close>

definition release ::
  "('a agg_world_scheme) cont \<Rightarrow> ctx \<Rightarrow> group_state \<Rightarrow> reason \<Rightarrow> 'a agg_world_scheme \<Rightarrow>
   'a agg_world_scheme \<times> err option" where
  "release cont c g why w =
     (case NewMessage (gs_CorrelationID g) w of
        (w1, Inl e) \<Rightarrow> (w1, Some e)
      | (w1, Inr out) \<Rightarrow>
          (case cont c (upd w1 out (SetVar varAggregateReason (GStr (reason_text why)) \<circ>
                   SetVar varAggregateCount (GInt (gs_Count g)) \<circ> SetVar varAggregateKey (GStr (gs_Key g)) \<circ>
                   SetTraceID (gs_TraceID g) \<circ> SetBody (gs_Acc g))) out of
             (w2, None) \<Rightarrow> (w2, None)
           | (w2, Some e) \<Rightarrow> (w2, Some (Wrap (''aggregate: continue with group '' @ quote (gs_Key g)) e))))"

definition restore ::
  "('a agg_world_scheme) aggregate \<Rightarrow> string \<Rightarrow> group_state \<Rightarrow> 'a agg_world_scheme \<Rightarrow> 'a agg_world_scheme" where
  "restore a h g w =
     (case encode_group g of
        None \<Rightarrow> w
      | Some encoded \<Rightarrow>
          (case kv_Set w (groupStateKey a h) encoded 0 of
             (w1, Inl e) \<Rightarrow> w1
           | (w1, Inr _) \<Rightarrow> trackGroup a h g w1))"

definition deliver ::
  "('a agg_world_scheme) aggregate \<Rightarrow> ('a agg_world_scheme) cont \<Rightarrow> ctx \<Rightarrow> string \<Rightarrow> group_state \<Rightarrow> reason \<Rightarrow>
   'a agg_world_scheme \<Rightarrow> 'a agg_world_scheme \<times> err option" where
  "deliver a cont c h g why w =
     (case release cont c g why w of
        (w1, None) \<Rightarrow> (w1, None)
      | (w1, Some e) \<Rightarrow> (restore a h g w1, Some e))"

definition takeStored ::
  "('a agg_world_scheme) aggregate \<Rightarrow> string \<Rightarrow> 'a agg_world_scheme \<Rightarrow>
   'a agg_world_scheme \<times> (err, group_state option) res" where
  "takeStored a h w =
     (case kv_Get w (groupStateKey a h) of
        (w1, Inl e) \<Rightarrow> (w1, Inl (Wrap ''aggregate: read group'' e))
      | (w1, Inr None) \<Rightarrow> (forgetGroup a h w1, Inr None)
      | (w1, Inr (Some en)) \<Rightarrow>
          (case decode_group zero_group (Value en) of
             Inl e \<Rightarrow> (w1, Inl (Wrap ''aggregate: decode group'' e))
           | Inr g \<Rightarrow>
               (case kv_Delete w1 (groupStateKey a h) (Version en) of
                  (w2, Inl Conflict) \<Rightarrow> (w2, Inr None)
                | (w2, Inl (Broken e)) \<Rightarrow> (w2, Inl (Wrap ''aggregate: release group'' e))
                | (w2, Inr _) \<Rightarrow> (forgetGroup a h w2, Inr (Some g)))))"

definition completeStored ::
  "('a agg_world_scheme) aggregate \<Rightarrow> ('a agg_world_scheme) cont \<Rightarrow> ctx \<Rightarrow> string \<Rightarrow> reason \<Rightarrow>
   'a agg_world_scheme \<Rightarrow> 'a agg_world_scheme \<times> err option" where
  "completeStored a cont c h why w =
     (case takeStored a h w of
        (w1, Inl e) \<Rightarrow> (w1, Some e)
      | (w1, Inr None) \<Rightarrow> (w1, None)
      | (w1, Inr (Some g)) \<Rightarrow> deliver a cont c h g why w1)"

subsection \<open>Admission\<close>

text \<open>The comparison \<^verbatim>\<open>hash < oldest\<close> of strings is by bytes.\<close>

fun bytes_less :: "string \<Rightarrow> string \<Rightarrow> bool" where
  "bytes_less s [] = False"
| "bytes_less [] (y # ys) = True"
| "bytes_less (x # xs) (y # ys) =
     ((of_char x :: nat) < of_char y \<or> x = y \<and> bytes_less xs ys)"

fun oldest_of :: "string \<times> int \<Rightarrow> group_index \<Rightarrow> string" where
  "oldest_of (oldest, firstAt) [] = oldest"
| "oldest_of (oldest, firstAt) ((h, e) # rest) =
     oldest_of (if oldest = [] \<or> ge_FirstAt e < firstAt \<or> ge_FirstAt e = firstAt \<and> bytes_less h oldest
                then (h, ge_FirstAt e) else (oldest, firstAt)) rest"

text \<open>Go visits the entries of a map in any order; \<open>visit\<close> is the order of this visit.\<close>

definition releaseOldest ::
  "('a agg_world_scheme) aggregate \<Rightarrow> ('a agg_world_scheme) cont \<Rightarrow> ctx \<Rightarrow> (group_index \<Rightarrow> group_index) \<Rightarrow>
   group_index \<Rightarrow> 'a agg_world_scheme \<Rightarrow> 'a agg_world_scheme \<times> err option" where
  "releaseOldest a cont c visit idx w =
     (let oldest = oldest_of ([], 0) (visit idx) in
      if oldest = [] then (w, None) else completeStored a cont c oldest ReasonOverflow w)"

text \<open>Whether the message may go on to open a group.\<close>

definition overflow ::
  "('a agg_world_scheme) aggregate \<Rightarrow> ('a agg_world_scheme) cont \<Rightarrow> ctx \<Rightarrow> (group_index \<Rightarrow> group_index) \<Rightarrow>
   'a agg_world_scheme \<Rightarrow> 'a agg_world_scheme \<times> (err, bool) res" where
  "overflow a cont c visit w =
     (case ag_onOverflow a of
        OverflowDrop \<Rightarrow> (w, Inr False)
      | OverflowComplete \<Rightarrow>
          (case readIndex a w of
             (w1, Inl e) \<Rightarrow> (w1, Inl e)
           | (w1, Inr (idx, _)) \<Rightarrow>
               (case releaseOldest a cont c visit idx w1 of
                  (w2, Some e) \<Rightarrow> (w2, Inl e)
                | (w2, None) \<Rightarrow> (w2, Inr True)))
      | OverflowFail \<Rightarrow>
          (w, Inl (Err (''aggregate: '' @ itoa (nat (ag_maxGroups a)) @
             '' groups open (maxGroups); raise maxGroups, narrow the correlation, or set onOverflow''))))"

datatype claim = Held | Claimed | Full

fun claimSlot_loop ::
  "nat \<Rightarrow> ('a agg_world_scheme) aggregate \<Rightarrow> string \<Rightarrow> 'a agg_world_scheme \<Rightarrow>
   'a agg_world_scheme \<times> (err, claim) res" where
  "claimSlot_loop 0 a h w = (w, Inl (errGroupContended (''group index of '' @ quote (ag_storeKey a))))"
| "claimSlot_loop (Suc n) a h w =
     (case readIndex a w of
        (w1, Inl e) \<Rightarrow> (w1, Inl e)
      | (w1, Inr (idx, version)) \<Rightarrow>
          if map_of idx h \<noteq> None then (w1, Inr Held)
          else if ag_maxGroups a \<le> int (length idx) then (w1, Inr Full)
          else (case writeIndex a (AList.update h \<lparr>ge_FirstAt = clock w1, ge_Deadline = 0\<rparr> idx) version w1 of
                  (w2, Inl e) \<Rightarrow> (w2, Inl e)
                | (w2, Inr False) \<Rightarrow> (w2, Inr Claimed)
                | (w2, Inr True) \<Rightarrow> claimSlot_loop n a h w2))"

definition claimSlot ::
  "('a agg_world_scheme) aggregate \<Rightarrow> string \<Rightarrow> 'a agg_world_scheme \<Rightarrow> 'a agg_world_scheme \<times> (err, claim) res" where
  "claimSlot = claimSlot_loop aggregateWriteAttempts"

text \<open>\<open>Inr None\<close> when the policy discarded the message, otherwise whether this call claimed the slot.\<close>

fun reserve_loop ::
  "nat \<Rightarrow> ('a agg_world_scheme) aggregate \<Rightarrow> ('a agg_world_scheme) cont \<Rightarrow> ctx \<Rightarrow> (group_index \<Rightarrow> group_index) \<Rightarrow>
   string \<Rightarrow> 'a agg_world_scheme \<Rightarrow> 'a agg_world_scheme \<times> (err, bool option) res" where
  "reserve_loop 0 a cont c visit h w =
     (w, Inl (errGroupContended (''group index of '' @ quote (ag_storeKey a))))"
| "reserve_loop (Suc n) a cont c visit h w =
     (case claimSlot a h w of
        (w1, Inl e) \<Rightarrow> (w1, Inl e)
      | (w1, Inr Held) \<Rightarrow> (w1, Inr (Some False))
      | (w1, Inr Claimed) \<Rightarrow> (w1, Inr (Some True))
      | (w1, Inr Full) \<Rightarrow>
          (case overflow a cont c visit w1 of
             (w2, Inl e) \<Rightarrow> (w2, Inl e)
           | (w2, Inr False) \<Rightarrow> (w2, Inr None)
           | (w2, Inr True) \<Rightarrow> reserve_loop n a cont c visit h w2))"

definition reserve ::
  "('a agg_world_scheme) aggregate \<Rightarrow> ('a agg_world_scheme) cont \<Rightarrow> ctx \<Rightarrow> (group_index \<Rightarrow> group_index) \<Rightarrow>
   string \<Rightarrow> 'a agg_world_scheme \<Rightarrow> 'a agg_world_scheme \<times> (err, bool option) res" where
  "reserve = reserve_loop aggregateWriteAttempts"

subsection \<open>The handler\<close>

text \<open>The hint the source appends after a failed correlation is left out of the error's text.\<close>

text \<open>\<open>Inr True\<close> when an overflow policy discarded the message.\<close>

definition foldMessage ::
  "('a agg_world_scheme) aggregate \<Rightarrow> ('a agg_world_scheme) cont \<Rightarrow> ctx \<Rightarrow> (group_index \<Rightarrow> group_index) \<Rightarrow>
   string \<Rightarrow> 'a agg_world_scheme \<Rightarrow> addr \<Rightarrow> 'a agg_world_scheme \<times> (err, bool) res" where
  "foldMessage a cont c visit key w m =
     (let h = ag_hash a key in
      case reserve a cont c visit h w of
        (w1, Inl e) \<Rightarrow> (w1, Inl e)
      | (w1, Inr None) \<Rightarrow> (w1, Inr True)
      | (w1, Inr (Some claimed)) \<Rightarrow>
          (case foldLocked a key h w1 m of
             (w2, Inl e) \<Rightarrow> ((if claimed then forgetGroup a h w2 else w2), Inl e)
           | (w2, Inr None) \<Rightarrow> (w2, Inr False)
           | (w2, Inr (Some (g, why))) \<Rightarrow>
               (case deliver a cont c h g why w2 of
                  (w3, Some e) \<Rightarrow> (w3, Inl e)
                | (w3, None) \<Rightarrow> (w3, Inr False))))"

definition aggregate_process ::
  "('a agg_world_scheme) aggregate \<Rightarrow> (group_index \<Rightarrow> group_index) \<Rightarrow> ('a agg_world_scheme) cont \<Rightarrow>
   ('a agg_world_scheme) processor" where
  "aggregate_process a visit cont c w m =
     (case EvalString (ag_render a) (ag_correlation a) w (heap w m) of
        Inl e \<Rightarrow> (w, Failed (Wrap ''aggregate correlation'' e))
      | Inr key \<Rightarrow>
          if key = [] then (w, Failed (Err ''aggregate correlation expression evaluated to empty''))
          else (case foldMessage a cont c visit key w m of
                  (w1, Inl e) \<Rightarrow> (w1, Failed e)
                | (w1, Inr True) \<Rightarrow> (w1, Dropped)
                | (w1, Inr False) \<Rightarrow> applyTakeover (ag_buildResponse a) c w1 m))"

subsection \<open>The reaper\<close>

definition reapInterval :: "'w aggregate \<Rightarrow> int" where
  "reapInterval a =
     (let interval = quot (ag_timeout a) 2 in
      if interval < minReapInterval then minReapInterval
      else if maxReapInterval < interval then maxReapInterval else interval)"

definition reclaimStale ::
  "('a agg_world_scheme) aggregate \<Rightarrow> string \<Rightarrow> 'a agg_world_scheme \<Rightarrow> 'a agg_world_scheme" where
  "reclaimStale a h w =
     (case kv_Get w (groupStateKey a h) of
        (w1, Inl e) \<Rightarrow> w1
      | (w1, Inr (Some en)) \<Rightarrow> w1
      | (w1, Inr None) \<Rightarrow> forgetGroup a h w1)"

fun sweep_entries ::
  "('a agg_world_scheme) aggregate \<Rightarrow> ('a agg_world_scheme) cont \<Rightarrow> ctx \<Rightarrow> int \<Rightarrow> group_index \<Rightarrow>
   'a agg_world_scheme \<Rightarrow> 'a agg_world_scheme" where
  "sweep_entries a cont c now [] w = w"
| "sweep_entries a cont c now ((h, e) # rest) w =
     sweep_entries a cont c now rest
       (if ge_Deadline e = 0 then reclaimStale a h w
        else if now < ge_Deadline e then w
        else fst (completeStored a cont c h ReasonTimeout w))"

text \<open>\<open>leader\<close> is what the lease says; there is no lease before \<^verbatim>\<open>Start\<close>.\<close>

definition sweep ::
  "('a agg_world_scheme) aggregate \<Rightarrow> ('a agg_world_scheme) cont \<Rightarrow> ctx \<Rightarrow> (group_index \<Rightarrow> group_index) \<Rightarrow>
   bool option \<Rightarrow> 'a agg_world_scheme \<Rightarrow> 'a agg_world_scheme" where
  "sweep a cont c visit leader w =
     (if leader = Some False then w
      else (case readIndex a w of
              (w1, Inl e) \<Rightarrow> w1
            | (w1, Inr (idx, _)) \<Rightarrow> sweep_entries a cont c (clock w1) (visit idx) w1))"

text \<open>
  The goroutine of the reaper: each tick sweeps under what the lease then says, until the
  context is cancelled or \<^verbatim>\<open>Stop\<close> closes the done channel.
\<close>

datatype reap_event = Tick "bool option" | CtxDone | StopClosed

fun reap ::
  "('a agg_world_scheme) aggregate \<Rightarrow> ('a agg_world_scheme) cont \<Rightarrow> ctx \<Rightarrow> (group_index \<Rightarrow> group_index) \<Rightarrow>
   reap_event list \<Rightarrow> 'a agg_world_scheme \<Rightarrow> 'a agg_world_scheme" where
  "reap a cont c visit [] w = w"
| "reap a cont c visit (Tick leader # es) w = reap a cont c visit es (sweep a cont c visit leader w)"
| "reap a cont c visit (CtxDone # es) w = w"
| "reap a cont c visit (StopClosed # es) w = w"

record reaper =
  rp_lease :: bool
  rp_running :: bool
  rp_done :: bool

text \<open>\<open>acquire\<close> is what the election answers to the campaign for the given key.\<close>

definition leaderKey :: "'w aggregate \<Rightarrow> string" where
  "leaderKey a = ''aggregate_'' @ ag_storeKey a"

definition agg_Start :: "'w aggregate \<Rightarrow> (string \<Rightarrow> (err, unit) res) \<Rightarrow> reaper \<Rightarrow> (err, reaper) res" where
  "agg_Start a acquire r =
     (if ag_timeout a \<le> 0 then Inr r
      else (case acquire (leaderKey a) of
              Inl e \<Rightarrow> Inl (Wrap (''aggregate: acquire leadership for '' @ quote (leaderKey a)) e)
            | Inr _ \<Rightarrow> Inr (r\<lparr>rp_lease := True, rp_running := True\<rparr>)))"

text \<open>\<open>close_lease\<close> is the answer of the lease; \<^verbatim>\<open>Stop\<close> waits for the reaper first.\<close>

definition agg_Stop :: "err option \<Rightarrow> reaper \<Rightarrow> reaper \<times> err option" where
  "agg_Stop close_lease r = (r\<lparr>rp_done := True, rp_running := False\<rparr>, if rp_lease r then close_lease else None)"

section \<open>Settings\<close>

text \<open>
  \<^verbatim>\<open>time.ParseDuration\<close>: signed sequences of a decimal number and a unit, in
  nanoseconds. A fraction is cut to whole nanoseconds. \<open>None\<close> is a syntax or range error.
\<close>

fun leading_digits :: "nat \<times> nat \<Rightarrow> string \<Rightarrow> (nat \<times> nat) \<times> string" where
  "leading_digits (v, n) [] = ((v, n), [])"
| "leading_digits (v, n) (c # cs) =
     (case digit_val c of None \<Rightarrow> ((v, n), c # cs) | Some d \<Rightarrow> leading_digits (10 * v + d, Suc n) cs)"

definition unit_nanos :: "string \<Rightarrow> nat option" where
  "unit_nanos u =
     map_of [(''ns'', 1), (''us'', 1000), (map char_of [0xC2, 0xB5, 0x73 :: nat], 1000),
       (map char_of [0xCE, 0xBC, 0x73 :: nat], 1000), (''ms'', 1000000), (''s'', 1000000000), (''m'', 60000000000),
       (''h'', 3600000000000)] u"

definition in_number :: "char \<Rightarrow> bool" where
  "in_number c \<longleftrightarrow> c = CHR ''.'' \<or> digit_val c \<noteq> None"

text \<open>One number with its unit; the value and what follows.\<close>

definition duration_part :: "string \<Rightarrow> (nat \<times> string) option" where
  "duration_part s =
     (case leading_digits (0, 0) s of ((v, pre), s1) \<Rightarrow>
      case (case s1 of c # cs \<Rightarrow> if c = CHR ''.'' then leading_digits (0, 0) cs else ((0, 0), s1) | [] \<Rightarrow> ((0, 0), s1)) of
        ((f, post), s2) \<Rightarrow>
          if pre = 0 \<and> post = 0 \<or> 2 ^ 63 < v then None
          else (case unit_nanos (takeWhile (Not \<circ> in_number) s2) of
                  None \<Rightarrow> None
                | Some u \<Rightarrow>
                    let n = v * u + f * u div 10 ^ post
                    in if 2 ^ 63 < n then None else Some (n, dropWhile (Not \<circ> in_number) s2)))"

fun duration_parts :: "nat \<Rightarrow> nat \<Rightarrow> string \<Rightarrow> nat option" where
  "duration_parts 0 d s = None"
| "duration_parts (Suc fuel) d s =
     (if s = [] then Some d
      else (case duration_part s of
              None \<Rightarrow> None
            | Some (n, s') \<Rightarrow> if 2 ^ 63 < d + n then None else duration_parts fuel (d + n) s'))"

definition ParseDuration :: "string \<Rightarrow> int option" where
  "ParseDuration s =
     (let neg = (s \<noteq> [] \<and> hd s = CHR ''-'');
          t = (if s \<noteq> [] \<and> (hd s = CHR ''-'' \<or> hd s = CHR ''+'') then tl s else s)
      in if t = ''0'' then Some 0
         else if t = [] then None
         else (case duration_parts (Suc (length t)) 0 t of
                 None \<Rightarrow> None
               | Some d \<Rightarrow> if neg then Some (- int d) else if int d < 2 ^ 63 then Some (int d) else None))"

definition defaultCorrelation :: string where "defaultCorrelation = ''vars.groupId''"

definition defaultCompletionSize :: string where
  "defaultCompletionSize = ''has(vars.groupSize) ? vars.groupSize : -1''"

definition resolveStrategy ::
  "'w block_deps \<Rightarrow> string \<Rightarrow> string \<Rightarrow> (err, 'w program option) res" where
  "resolveStrategy deps strategy expression =
     (if strategy = [] \<or> strategy = ''append''
      then (if expression \<noteq> [] then Inl (Err ''aggregate block in append strategy must not declare an expression'')
            else Inr None)
      else if strategy = ''expression''
      then (if expression = [] then Inl (Err ''aggregate block in expression strategy requires an expression'')
            else (case compile deps expression of
                    Inl e \<Rightarrow> Inl (Wrap ''aggregate expression'' e) | Inr p \<Rightarrow> Inr (Some p)))
      else Inl (Err (''aggregate block strategy '' @ quote strategy @ '' must be '' @ quote ''append'' @ '' or '' @
             quote ''expression'')))"

definition wrap_res :: "string \<Rightarrow> (err, 'a) res \<Rightarrow> (err, 'a) res" where
  "wrap_res s r = (case r of Inl e \<Rightarrow> Inl (Wrap s e) | Inr x \<Rightarrow> Inr x)"

text \<open>The correlation, size, predicate and fold programs, in the order they are compiled.\<close>

definition compileExpressions ::
  "'w block_deps \<Rightarrow> string \<Rightarrow> string \<Rightarrow> string \<Rightarrow> string \<Rightarrow> string \<Rightarrow>
   (err, 'w program \<times> 'w program \<times> 'w program option \<times> 'w program option) res" where
  "compileExpressions deps correlation completionSize completionExpression strategy expression =
     bind_res (wrap_res ''aggregate correlation''
       (compile deps (if correlation = [] then defaultCorrelation else correlation))) (\<lambda>corr.
     bind_res (wrap_res ''aggregate completionSize''
       (compile deps (if completionSize = [] then defaultCompletionSize else completionSize))) (\<lambda>sz.
     bind_res (if completionExpression = [] then Inr None
               else bind_res (wrap_res ''aggregate completionExpression'' (compile deps completionExpression)) (Inr \<circ> Some)) (\<lambda>ex.
     bind_res (resolveStrategy deps strategy expression) (\<lambda>fd. Inr (corr, sz, ex, fd)))))"

definition resolveCompletion ::
  "string \<Rightarrow> string \<Rightarrow> string \<Rightarrow> (err, int \<times> bool \<times> overflow_policy) res" where
  "resolveCompletion completionTimeout timeoutFrom onOverflow =
     bind_res (if completionTimeout = [] then Inr 0
               else (case ParseDuration completionTimeout of
                       None \<Rightarrow> Inl (Wrap ''aggregate completionTimeout'' (Err (''time: invalid duration '' @ quote completionTimeout)))
                     | Some d \<Rightarrow> if d \<le> 0 then Inl (Err ''aggregate completionTimeout must be positive'') else Inr d)) (\<lambda>timeout.
     bind_res (if timeoutFrom = [] \<or> timeoutFrom = ''first'' then Inr False
               else if timeoutFrom = ''last'' then Inr True
               else Inl (Err (''aggregate block timeoutFrom '' @ quote timeoutFrom @ '' must be '' @ quote ''first'' @
                      '' or '' @ quote ''last''))) (\<lambda>fromLast.
     bind_res (if onOverflow = [] \<or> onOverflow = ''fail'' then Inr OverflowFail
               else if onOverflow = ''complete'' then Inr OverflowComplete
               else if onOverflow = ''drop'' then Inr OverflowDrop
               else Inl (Err (''aggregate block onOverflow '' @ quote onOverflow @ '' must be one of '' @ quote ''fail'' @
                      '', '' @ quote ''complete'' @ '', '' @ quote ''drop''))) (\<lambda>policy.
       Inr (timeout, fromLast, policy))))"

definition build_aggregate ::
  "(string \<Rightarrow> string) \<Rightarrow> (gval \<Rightarrow> string) \<Rightarrow> settings \<Rightarrow> 'w block_deps \<Rightarrow> 'w aggregate build" where
  "build_aggregate hash render raw deps =
     bind_build (of_res (bind_res (DecodeStrict
         [''correlation'', ''strategy'', ''expression'', ''completionSize'', ''completionTimeout'',
          ''completionExpression'', ''timeoutFrom'', ''storeKey'', ''maxGroups'', ''onOverflow'', ''buildResponse''] raw) (\<lambda>st.
       bind_res (get_string st ''correlation'') (\<lambda>corr. bind_res (get_string st ''strategy'') (\<lambda>strategy.
       bind_res (get_string st ''expression'') (\<lambda>ex. bind_res (get_string st ''completionSize'') (\<lambda>csize.
       bind_res (get_string st ''completionTimeout'') (\<lambda>ctime. bind_res (get_string st ''completionExpression'') (\<lambda>cexpr.
       bind_res (get_string st ''timeoutFrom'') (\<lambda>tfrom. bind_res (get_string st ''storeKey'') (\<lambda>skey.
       bind_res (get_int st ''maxGroups'') (\<lambda>maxGroups. bind_res (get_string st ''onOverflow'') (\<lambda>onOverflow.
       bind_res (get_flow st ''buildResponse'') (\<lambda>response.
       bind_res (compileExpressions deps corr csize cexpr strategy ex) (\<lambda>progs.
       bind_res (resolveCompletion ctime tfrom onOverflow) (\<lambda>completion.
         Inr (skey, maxGroups, response, progs, completion)))))))))))))))))
       (\<lambda>(skey, maxGroups, response, (corr, csize, cexpr, fold_prog), timeout, fromLast, policy).
     bind_build (buildTakeoverResponse ''aggregate'' deps response) (\<lambda>resp.
       Built \<lparr>ag_storeKey = (if skey = [] then ba_Path (Address deps) else skey), ag_correlation = corr, ag_fold = fold_prog,
              ag_completionSize = csize, ag_completionExpr = cexpr, ag_timeout = timeout, ag_fromLast = fromLast,
              ag_maxGroups = (if maxGroups \<le> 0 then defaultMaxGroups else maxGroups), ag_onOverflow = policy,
              ag_buildResponse = resp, ag_hash = hash, ag_render = render\<rparr>))"

text \<open>The block is aware of its continuation, has a lifecycle, and reports the identity of its state.\<close>

definition newAggregate ::
  "(string \<Rightarrow> string) \<Rightarrow> (gval \<Rightarrow> string) \<Rightarrow> (group_index \<Rightarrow> group_index) \<Rightarrow> ('a agg_world_scheme) factory" where
  "newAggregate hash render visit raw deps =
     bind_build (build_aggregate hash render raw deps) (\<lambda>a.
       Built \<lparr>p_run = (\<lambda>co. case co of
                   None \<Rightarrow> (\<lambda>c w m. (w, Failed (Err ''nil continuation'')))
                 | Some k \<Rightarrow> aggregate_process a visit k),
              p_aware = True, p_lifecycle = True, p_stateKey = Some (ag_storeKey a)\<rparr>)"

end
