(* ===== verification/Octo_Rejoin.thy ===== *)
theory Octo_Rejoin
  imports Octo_Aggregate
begin

text \<open>
  What an aggregate does to a split: whatever the order its elements arrive in, the group is
  put together in the order of the original collection, and leaves the block exactly once.

  The store is quiet in the first part (nobody else writes between the calls of one handler);
  the messages themselves arrive one after the other in any order.
\<close>

section \<open>Documents\<close>

lemma over_simps [simp]:
  "map_of kvs key = None \<Longrightarrow> over_string kvs key old = Inr old"
  "map_of kvs key = Some (GStr s) \<Longrightarrow> over_string kvs key old = Inr s"
  "map_of kvs key = None \<Longrightarrow> over_int kvs key n = Inr n"
  "map_of kvs key = Some (GInt i) \<Longrightarrow> over_int kvs key n = Inr i"
  "map_of kvs key = Some (GInt64 i) \<Longrightarrow> over_int kvs key n = Inr i"
  by (simp_all add: over_string_def over_int_def get_string_def get_int_def)

lemma decode_encode_entry [simp]: "decode_entry (encode_entry e) = Inr e"
  by (cases e) (simp add: decode_entry_def encode_entry_def)

lemma fold_update_distinct:
  "distinct (map fst (acc @ es)) \<Longrightarrow> fold (\<lambda>(h, e). AList.update h e) es acc = acc @ es"
proof (induction es arbitrary: acc)
  case (Cons x es)
  obtain h e where x: "x = (h, e)" by force
  have "AList.update h e acc = acc @ [x]"
    using Cons.prems x by (induction acc) (auto simp: x)
  with Cons show ?case by (simp add: x)
qed simp

lemma decode_encode_index:
  assumes "distinct (map fst idx)"
  shows "decode_index (encode_index idx) = Inr idx"
proof -
  have "map_res (\<lambda>(h, v). bind_res (decode_entry v) (\<lambda>e. Inr (h, e))) (map (\<lambda>(h, e). (h, encode_entry e)) idx) = Inr idx"
    by (induction idx) auto
  then show ?thesis using fold_update_distinct [of "[]" idx] assms
    by (simp add: decode_index_def encode_index_def get_object_def)
qed

lemma group_fields_of [simp]:
  "map_of (group_fields g) ''key'' = Some (GStr (gs_Key g))"
  "map_of (group_fields g) ''count'' = Some (GInt (gs_Count g))"
  "map_of (group_fields g) ''size'' = Some (GInt (gs_Size g))"
  "map_of (group_fields g) ''acc'' = Some (gs_Acc g)"
  "map_of (group_fields g) ''firstAt'' = Some (GInt64 (gs_FirstAt g))"
  "map_of (group_fields g) ''lastAt'' = Some (GInt64 (gs_LastAt g))"
  by (simp_all add: group_fields_def omit_empty_def)

lemma group_fields_optional:
  "map_of (group_fields g) ''correlationId'' = (if gs_CorrelationID g = [] then None else Some (GStr (gs_CorrelationID g)))"
  "map_of (group_fields g) ''traceId'' = (if gs_TraceID g = [] then None else Some (GStr (gs_TraceID g)))"
  "map_of (group_fields g) ''deadline'' = (if gs_Deadline g = 0 then None else Some (GInt64 (gs_Deadline g)))"
  by (simp_all add: group_fields_def omit_empty_def)

lemma over_optional:
  "over_string (group_fields g) ''correlationId'' [] = Inr (gs_CorrelationID g)"
  "over_string (group_fields g) ''traceId'' [] = Inr (gs_TraceID g)"
  "over_int (group_fields g) ''deadline'' 0 = Inr (gs_Deadline g)"
  by (simp_all add: over_string_def over_int_def get_string_def get_int_def group_fields_optional)

lemma encodable_group: "encodable (GMap (group_fields g)) = encodable (gs_Acc g)"
  by (auto simp: group_fields_def omit_empty_def)

lemma nesting_group: "nesting (GMap (group_fields g)) = Suc (nesting (gs_Acc g))"
  by (simp add: group_fields_def omit_empty_def)

lemma encode_group_some: "encodable (gs_Acc g) \<Longrightarrow> encode_group g = Some (GMap (group_fields g))"
  by (simp add: encode_group_def Marshal_def encodable_group del: encodable.simps)

text \<open>The defaults a reader starts from.\<close>

definition fresh_group :: "group_state \<Rightarrow> bool" where
  "fresh_group b \<longleftrightarrow> gs_CorrelationID b = [] \<and> gs_TraceID b = [] \<and> gs_Deadline b = 0"

lemma decode_group_fields:
  assumes "encodable (gs_Acc g)" and "nesting (gs_Acc g) < maxCopyDepth" and "fresh_group b"
  shows "decode_group b (GMap (group_fields g)) = Inr (g\<lparr>gs_Acc := json_normal (gs_Acc g)\<rparr>)"
  using assms
  by (simp add: decode_group_def over_optional fresh_group_def encodable_group nesting_group Suc_le_eq not_less
      del: encodable.simps nesting.simps)

text \<open>
  A stored group reads back as it was written, up to the JSON form of its accumulator,
  whatever defaults the reader starts from for what the document always has.
\<close>

theorem group_state_roundtrip:
  assumes "encodable (gs_Acc g)" and "nesting (gs_Acc g) < maxCopyDepth" and "fresh_group b"
  shows "\<exists>doc. encode_group g = Some doc \<and> decode_group b doc = Inr (g\<lparr>gs_Acc := json_normal (gs_Acc g)\<rparr>)"
  using encode_group_some [OF assms(1)] decode_group_fields [OF assms] by blast

section \<open>A quiet store\<close>

definition quiet :: "'a agg_world_scheme \<Rightarrow> bool" where
  "quiet w \<longleftrightarrow> others w = []"

lemma quiet_simps [simp]:
  "quiet (w\<lparr>kv := s\<rparr>) = quiet w" "quiet (w\<lparr>heap := x\<rparr>) = quiet w" "quiet (w\<lparr>hp := y\<rparr>) = quiet w"
  "quiet (upd w a f) = quiet w"
  by (simp_all add: quiet_def upd_def)

lemma quiet_calls:
  assumes "quiet w"
  shows "kv_Get w key = (w, Inr (Get (kv w) NamespaceSystem key))"
    and "current (kv w) NamespaceSystem key = v \<Longrightarrow>
      kv_Set w key d v = (w\<lparr>kv := fst (store_write (kv w) NamespaceSystem key d v)\<rparr>, Inr ())"
    and "Get (kv w) NamespaceSystem key = Some en \<Longrightarrow>
      kv_Delete w key (Version en) = (w\<lparr>kv := fst (Delete (kv w) NamespaceSystem key (Version en))\<rparr>, Inr ())"
proof -
  note o = assms [unfolded quiet_def]
  show "kv_Get w key = (w, Inr (Get (kv w) NamespaceSystem key))" by (simp add: kv_Get_def others_act_def o)
  show "kv_Set w key d v = (w\<lparr>kv := fst (store_write (kv w) NamespaceSystem key d v)\<rparr>, Inr ())"
    if "current (kv w) NamespaceSystem key = v"
    using Get_write(2) [of "kv w" NamespaceSystem key d v] that
    by (cases "store_write (kv w) NamespaceSystem key d v") (simp add: kv_Set_def others_act_def o)
  show "kv_Delete w key (Version en) = (w\<lparr>kv := fst (Delete (kv w) NamespaceSystem key (Version en))\<rparr>, Inr ())"
    if "Get (kv w) NamespaceSystem key = Some en"
    using Get_Delete(2) [of "kv w" NamespaceSystem key "Version en"] that
    by (cases "Delete (kv w) NamespaceSystem key (Version en)")
       (simp add: kv_Delete_def others_act_def o current_def)
qed

text \<open>The keys of the groups and of the index are apart.\<close>

lemma keys_apart [simp]:
  "groupStateKey a h \<noteq> indexKey a" "indexKey a \<noteq> groupStateKey a h"
  "groupStateKey a h = groupStateKey a h' \<longleftrightarrow> h = h'"
  by (simp_all add: groupStateKey_def indexKey_def)

text \<open>The index a reader sees.\<close>

definition index_at :: "'w aggregate \<Rightarrow> gval store \<Rightarrow> group_index \<Rightarrow> bool" where
  "index_at a s idx \<longleftrightarrow> distinct (map fst idx) \<and>
     (case Get s NamespaceSystem (indexKey a) of
        None \<Rightarrow> idx = [] | Some en \<Rightarrow> decode_index (Value en) = Inr idx)"

text \<open>Two stores that differ in one system key only.\<close>

definition differ_at :: "string \<Rightarrow> gval store \<Rightarrow> gval store \<Rightarrow> bool" where
  "differ_at key s s' \<longleftrightarrow> (\<forall>k. k \<noteq> key \<longrightarrow> Get s' NamespaceSystem k = Get s NamespaceSystem k)"

lemma differ_at_trans: "differ_at k s s1 \<Longrightarrow> differ_at k s1 s2 \<Longrightarrow> differ_at k s s2"
  by (simp add: differ_at_def)

lemma differ_at_other: "differ_at k s s' \<Longrightarrow> k' \<noteq> k \<Longrightarrow> Get s' NamespaceSystem k' = Get s NamespaceSystem k'"
  by (simp add: differ_at_def)

lemma index_at_other: "differ_at (groupStateKey a h) s s' \<Longrightarrow> index_at a s' idx = index_at a s idx"
  using differ_at_other [of "groupStateKey a h" s s' "indexKey a"] by (simp add: index_at_def)

lemma differ_at_refl [simp]: "differ_at k s s"
  by (simp add: differ_at_def)

lemma differ_at_write: "differ_at k s (fst (store_write s NamespaceSystem k d v))"
  by (simp add: differ_at_def Get_write)

lemma differ_at_delete: "differ_at k s (fst (Delete s NamespaceSystem k v))"
  by (simp add: differ_at_def Get_Delete)

lemma readIndex_quiet:
  "quiet w \<Longrightarrow> index_at a (kv w) idx \<Longrightarrow>
   readIndex a w = (w, Inr (idx, current (kv w) NamespaceSystem (indexKey a)))"
  by (auto simp: readIndex_def quiet_calls(1) index_at_def current_def split: option.splits)

lemma writeIndex_quiet:
  assumes "quiet w" and "distinct (map fst idx)"
  obtains s where "writeIndex a idx (current (kv w) NamespaceSystem (indexKey a)) w = (w\<lparr>kv := s\<rparr>, Inr False)"
    and "index_at a s idx" and "differ_at (indexKey a) (kv w) s"
proof (rule that)
  let ?v = "current (kv w) NamespaceSystem (indexKey a)"
  let ?s = "fst (store_write (kv w) NamespaceSystem (indexKey a) (encode_index idx) ?v)"
  show "writeIndex a idx ?v w = (w\<lparr>kv := ?s\<rparr>, Inr False)"
    by (simp add: writeIndex_def quiet_calls(2) [OF assms(1) refl])
  show "index_at a ?s idx" using assms(2) by (simp add: index_at_def Get_write decode_encode_index)
  show "differ_at (indexKey a) (kv w) ?s" by (rule differ_at_write)
qed

lemma updateIndex_quiet:
  assumes "quiet w" and "index_at a (kv w) idx"
    and "\<And>idx'. mutate idx = Some idx' \<Longrightarrow> distinct (map fst idx')"
  obtains s where "updateIndex a mutate w = w\<lparr>kv := s\<rparr>"
    and "index_at a s (case mutate idx of None \<Rightarrow> idx | Some idx' \<Rightarrow> idx')" and "differ_at (indexKey a) (kv w) s"
proof (cases "mutate idx")
  case None
  then have "updateIndex a mutate w = w\<lparr>kv := kv w\<rparr>"
    by (simp add: updateIndex_def aggregateWriteAttempts_def numeral_eq_Suc readIndex_quiet [OF assms(1,2)])
  with None assms(2) show ?thesis by (intro that [of "kv w"]) simp_all
next
  case (Some idx')
  obtain s where w: "writeIndex a idx' (current (kv w) NamespaceSystem (indexKey a)) w = (w\<lparr>kv := s\<rparr>, Inr False)"
    and s: "index_at a s idx'" "differ_at (indexKey a) (kv w) s"
    using writeIndex_quiet [OF assms(1) assms(3) [OF Some], of a] by blast
  have "updateIndex a mutate w = w\<lparr>kv := s\<rparr>"
    by (simp add: updateIndex_def aggregateWriteAttempts_def numeral_eq_Suc readIndex_quiet [OF assms(1,2)] Some w)
  with s Some show ?thesis by (intro that [of s]) simp_all
qed

lemma index_distinct: "index_at a s idx \<Longrightarrow> distinct (map fst idx)"
  by (simp add: index_at_def)

lemma trackGroup_quiet:
  assumes "quiet w" and "index_at a (kv w) idx"
  obtains s idx' where "trackGroup a h g w = w\<lparr>kv := s\<rparr>" and "index_at a s idx'" and "differ_at (indexKey a) (kv w) s"
    and "map_of idx' = (map_of idx)(h \<mapsto> \<lparr>ge_FirstAt = gs_FirstAt g, ge_Deadline = gs_Deadline g\<rparr>)"
    and "map_of idx h \<noteq> None \<Longrightarrow> length idx' = length idx"
proof -
  let ?want = "\<lparr>ge_FirstAt = gs_FirstAt g, ge_Deadline = gs_Deadline g\<rparr>"
  let ?m = "\<lambda>idx. if map_of idx h = Some ?want then None else Some (AList.update h ?want idx)"
  have d: "distinct (map fst idx)" using assms(2) by (rule index_distinct)
  have m: "distinct (map fst idx')" if "?m idx = Some idx'" for idx'
    using that d by (auto simp: distinct_update split: if_splits)
  obtain s where s: "updateIndex a ?m w = w\<lparr>kv := s\<rparr>" "index_at a s (case ?m idx of None \<Rightarrow> idx | Some idx' \<Rightarrow> idx')"
      "differ_at (indexKey a) (kv w) s"
    using updateIndex_quiet [of w a idx ?m, OF assms m] by blast
  show ?thesis
  proof (rule that [OF _ s(2,3)])
    show "trackGroup a h g w = w\<lparr>kv := s\<rparr>" using s(1) by (simp add: trackGroup_def Let_def)
    show "map_of (case ?m idx of None \<Rightarrow> idx | Some idx' \<Rightarrow> idx') = (map_of idx)(h \<mapsto> ?want)" by auto
    show "length (case ?m idx of None \<Rightarrow> idx | Some idx' \<Rightarrow> idx') = length idx" if "map_of idx h \<noteq> None"
      using that by (induction idx) (auto split: if_splits)
  qed
qed

lemma forgetGroup_quiet:
  assumes "quiet w" and "index_at a (kv w) idx"
  obtains s where "forgetGroup a h w = w\<lparr>kv := s\<rparr>" and "index_at a s (AList.delete h idx)"
    and "differ_at (indexKey a) (kv w) s"
proof -
  let ?m = "\<lambda>idx. if map_of idx h = None then None else Some (AList.delete h idx)"
  have d: "distinct (map fst idx)" using assms(2) by (rule index_distinct)
  have m: "distinct (map fst idx')" if "?m idx = Some idx'" for idx'
    using that d by (auto simp: distinct_delete split: if_splits)
  obtain s where s: "updateIndex a ?m w = w\<lparr>kv := s\<rparr>" "index_at a s (case ?m idx of None \<Rightarrow> idx | Some idx' \<Rightarrow> idx')"
      "differ_at (indexKey a) (kv w) s"
    using updateIndex_quiet [of w a idx ?m, OF assms m] by blast
  moreover have "(case ?m idx of None \<Rightarrow> idx | Some idx' \<Rightarrow> idx') = AList.delete h idx"
    by (auto simp: map_of_eq_None_iff delete_id)
  ultimately show ?thesis using that by (simp add: forgetGroup_def)
qed

lemma claimSlot_quiet:
  assumes "quiet w" and "index_at a (kv w) idx"
  shows "map_of idx h \<noteq> None \<Longrightarrow> claimSlot a h w = (w, Inr Held)"
    and "map_of idx h = None \<Longrightarrow> ag_maxGroups a \<le> int (length idx) \<Longrightarrow> claimSlot a h w = (w, Inr Full)"
    and "map_of idx h = None \<Longrightarrow> int (length idx) < ag_maxGroups a \<Longrightarrow>
      \<exists>s. claimSlot a h w = (w\<lparr>kv := s\<rparr>, Inr Claimed) \<and> differ_at (indexKey a) (kv w) s \<and>
        index_at a s (AList.update h \<lparr>ge_FirstAt = clock w, ge_Deadline = 0\<rparr> idx)"
proof -
  note r = readIndex_quiet [OF assms]
  show "map_of idx h \<noteq> None \<Longrightarrow> claimSlot a h w = (w, Inr Held)"
    by (simp add: claimSlot_def aggregateWriteAttempts_def numeral_eq_Suc r)
  show "map_of idx h = None \<Longrightarrow> ag_maxGroups a \<le> int (length idx) \<Longrightarrow> claimSlot a h w = (w, Inr Full)"
    by (simp add: claimSlot_def aggregateWriteAttempts_def numeral_eq_Suc r)
  assume n: "map_of idx h = None" "int (length idx) < ag_maxGroups a"
  let ?idx = "AList.update h \<lparr>ge_FirstAt = clock w, ge_Deadline = 0\<rparr> idx"
  have "distinct (map fst ?idx)" using index_distinct [OF assms(2)] by (rule distinct_update)
  from writeIndex_quiet [OF assms(1) this, of a] obtain s where
    "writeIndex a ?idx (current (kv w) NamespaceSystem (indexKey a)) w = (w\<lparr>kv := s\<rparr>, Inr False)"
    "index_at a s ?idx" "differ_at (indexKey a) (kv w) s" by blast
  then show "\<exists>s. claimSlot a h w = (w\<lparr>kv := s\<rparr>, Inr Claimed) \<and> differ_at (indexKey a) (kv w) s \<and> index_at a s ?idx"
    using n by (intro exI [of _ s]) (simp add: claimSlot_def aggregateWriteAttempts_def numeral_eq_Suc r)
qed

section \<open>Folding one message\<close>

text \<open>What evaluating an expression leaves of the world: the message may be marked as shared.\<close>

definition read_only :: "'a agg_world_scheme \<Rightarrow> addr \<Rightarrow> 'a agg_world_scheme \<Rightarrow> bool" where
  "read_only w m w' \<longleftrightarrow> frames w m w' \<and> kv w' = kv w \<and> clock w' = clock w \<and> others w' = others w \<and>
     entropy w' = entropy w \<and> (\<exists>b. heap w' m = (heap w m)\<lparr>bodyShared := b\<rparr>)"

lemma read_only_refl [simp]: "read_only w m w"
  by (auto simp: read_only_def intro: exI [of _ "bodyShared (heap w m)"])

lemma withGroup_read_only:
  assumes "withGroup g w m = (w', s)" and "m < hp w"
  shows "read_only w m w'" and "heap w' s = SetVar varGroup (activation g (clock w)) ((heap w m)\<lparr>bodyShared := True\<rparr>)"
  using assms by (auto simp: withGroup_def Scoped_def alloc_def upd_def Let_def read_only_def frames_def)

text \<open>The contract of an aggregate that re-joins a split with its default settings.\<close>

locale rejoining =
  fixes a :: "('a agg_world_scheme) aggregate"
  assumes append_mode: "ag_fold a = None"
    and no_predicate: "ag_completionExpr a = None"
    and no_response: "ag_buildResponse a = None"
    and size_program: "ag_completionSize a w m =
      Inr (case Variables m varGroupSize of Some v \<Rightarrow> v | None \<Rightarrow> GInt (- 1))"
    and correlation_program: "Variables m varGroupID = Some v \<Longrightarrow> ag_correlation a w m = Inr v"

definition fold_state :: "'w aggregate \<Rightarrow> int \<Rightarrow> message \<Rightarrow> group_state \<Rightarrow> group_state" where
  "fold_state a now mm g =
     (let g1 = g\<lparr>gs_Acc := GList (placeInOrder (gs_Acc g) mm g), gs_Count := gs_Count g + 1, gs_LastAt := now\<rparr>;
          g2 = g1\<lparr>gs_Deadline := deadline a g1\<rparr>
      in if 0 \<le> gs_Size g then g2
         else (case asInt (case Variables mm varGroupSize of Some v \<Rightarrow> v | None \<Rightarrow> GInt (- 1)) of
                 Some n \<Rightarrow> if 0 < n then g2\<lparr>gs_Size := n\<rparr> else g2
               | None \<Rightarrow> g2))"

definition full :: "group_state \<Rightarrow> reason option" where
  "full g = (if 0 \<le> gs_Size g \<and> gs_Size g \<le> gs_Count g then Some ReasonSize else None)"

lemma varGroup_other [simp]: "varGroupSize \<noteq> varGroup" "varGroup \<noteq> varGroupSize"
  by (simp_all add: varGroup_def varGroupSize_def)

lemma loadGroup_kv [simp]: "loadGroup key found (w\<lparr>kv := s\<rparr>) m = loadGroup key found w m"
  by (cases found) (simp_all add: loadGroup_def)

context rejoining
begin

lemma applyMessage_append:
  assumes "m < hp w"
  obtains w' where "read_only w m w'"
    and "applyMessage a g w m = (w', Inr (fold_state a (clock w) (heap w m) g, full (fold_state a (clock w) (heap w m) g)))"
proof (cases "0 \<le> gs_Size g")
  case True
  have "applyMessage a g w m = (w, Inr (fold_state a (clock w) (heap w m) g, full (fold_state a (clock w) (heap w m) g)))"
    using True
    by (simp add: applyMessage_def accumulate_def append_mode learnSize_def checkExpression_def no_predicate Let_def
        fold_state_def full_def)
  then show ?thesis by (intro that [of w]) simp_all
next
  case False
  define g1 where "g1 = g\<lparr>gs_Acc := GList (placeInOrder (gs_Acc g) (heap w m) g), gs_Count := gs_Count g + 1, gs_LastAt := clock w\<rparr>"
  define g2 where "g2 = g1\<lparr>gs_Deadline := deadline a g1\<rparr>"
  obtain w' s where ws: "withGroup g2 w m = (w', s)" by force
  note r = withGroup_read_only [OF ws assms]
  have v: "Variables (heap w' s) varGroupSize = Variables (heap w m) varGroupSize"
    by (simp add: r(2))
  have "gs_Size g2 = gs_Size g" by (simp add: g2_def g1_def)
  then have "applyMessage a g w m =
      (w', Inr (fold_state a (clock w) (heap w m) g, full (fold_state a (clock w) (heap w m) g)))"
    using False ws v
    by (auto simp: applyMessage_def accumulate_def append_mode learnSize_def checkExpression_def no_predicate Let_def
        fold_state_def full_def size_program g1_def [symmetric] g2_def [symmetric] split: option.splits)
  then show ?thesis using r(1) that by blast
qed

lemma foldLocked_open:
  assumes "quiet w" and "m < hp w" and "index_at a (kv w) idx"
    and "loadGroup key (Get (kv w) NamespaceSystem (groupStateKey a h)) w m = Inr g"
    and "full (fold_state a (clock w) (heap w m) g) = None" and "encodable (gs_Acc (fold_state a (clock w) (heap w m) g))"
  obtains w1 s idx' en where "foldLocked a key h w m = (w1\<lparr>kv := s\<rparr>, Inr None)" and "read_only w m w1"
    and "Get s NamespaceSystem (groupStateKey a h) = Some en"
    and "Value en = GMap (group_fields (fold_state a (clock w) (heap w m) g))"
    and "index_at a s idx'" and "map_of idx' h \<noteq> None"
proof -
  let ?g = "fold_state a (clock w) (heap w m) g" and ?k = "groupStateKey a h"
  obtain w1 where r: "read_only w m w1" and ap: "applyMessage a g w m = (w1, Inr (?g, None))"
    using applyMessage_append [OF assms(2), of g] assms(5) by metis
  have kv: "kv w1 = kv w" "quiet w1" using r assms(1) by (simp_all add: read_only_def quiet_def)
  define v where "v = (case Get (kv w) NamespaceSystem ?k of None \<Rightarrow> 0 | Some en \<Rightarrow> Version en)"
  have cur: "current (kv w1) NamespaceSystem ?k = v" by (simp add: kv v_def current_def)
  define s0 where "s0 = fst (store_write (kv w1) NamespaceSystem ?k (GMap (group_fields ?g)) v)"
  have set: "kv_Set w1 ?k (GMap (group_fields ?g)) v = (w1\<lparr>kv := s0\<rparr>, Inr ())"
    unfolding s0_def by (rule quiet_calls(2) [OF kv(2) cur])
  have d0: "differ_at ?k (kv w) s0" unfolding s0_def kv by (rule differ_at_write)
  have g0: "Get s0 NamespaceSystem ?k = Some \<lparr>Value = GMap (group_fields ?g), Version = v + 1\<rparr>"
    using cur by (simp add: s0_def Get_write)
  have q: "quiet (w1\<lparr>kv := s0\<rparr>)" "index_at a (kv (w1\<lparr>kv := s0\<rparr>)) idx"
    using kv(2) assms(3) index_at_other [OF d0] by simp_all
  obtain s idx' where tr: "trackGroup a h ?g (w1\<lparr>kv := s0\<rparr>) = w1\<lparr>kv := s0\<rparr>\<lparr>kv := s\<rparr>" and ix: "index_at a s idx'"
      "differ_at (indexKey a) (kv (w1\<lparr>kv := s0\<rparr>)) s" "map_of idx' = (map_of idx)(h \<mapsto> \<lparr>ge_FirstAt = gs_FirstAt ?g, ge_Deadline = gs_Deadline ?g\<rparr>)"
    using trackGroup_quiet [OF q, of h ?g] by blast
  have "foldLocked a key h w m = (w1\<lparr>kv := s\<rparr>, Inr None)"
    using set tr
    by (simp add: foldLocked_def aggregateWriteAttempts_def numeral_eq_Suc quiet_calls(1) [OF assms(1)] assms(4) ap
        commitOpen_def encode_group_some [OF assms(6)] v_def [symmetric])
  moreover have "Get s NamespaceSystem ?k = Some \<lparr>Value = GMap (group_fields ?g), Version = v + 1\<rparr>"
    using differ_at_other [OF ix(2)] g0 by simp
  ultimately show ?thesis using that [OF _ r] ix by simp
qed

lemma foldLocked_full:
  assumes "quiet w" and "m < hp w" and "index_at a (kv w) idx"
    and "loadGroup key (Get (kv w) NamespaceSystem (groupStateKey a h)) w m = Inr g"
    and "full (fold_state a (clock w) (heap w m) g) = Some why"
  obtains w1 s where "foldLocked a key h w m = (w1\<lparr>kv := s\<rparr>, Inr (Some (fold_state a (clock w) (heap w m) g, why)))"
    and "read_only w m w1" and "Get s NamespaceSystem (groupStateKey a h) = None" and "index_at a s (AList.delete h idx)"
proof -
  let ?g = "fold_state a (clock w) (heap w m) g" and ?k = "groupStateKey a h"
  obtain w1 where r: "read_only w m w1" and ap: "applyMessage a g w m = (w1, Inr (?g, Some why))"
    using applyMessage_append [OF assms(2), of g] assms(5) by metis
  have kv: "kv w1 = kv w" "quiet w1" using r assms(1) by (simp_all add: read_only_def quiet_def)
  obtain s0 where s0: "(case Get (kv w) NamespaceSystem ?k of None \<Rightarrow> s0 = kv w
        | Some en \<Rightarrow> kv_Delete w1 ?k (Version en) = (w1\<lparr>kv := s0\<rparr>, Inr ()))"
      and d0: "differ_at ?k (kv w) s0" and g0: "Get s0 NamespaceSystem ?k = None"
  proof (cases "Get (kv w) NamespaceSystem ?k")
    case None
    then show ?thesis by (intro that [of "kv w"]) simp_all
  next
    case (Some en)
    then have "current (kv w) NamespaceSystem ?k = Version en" by (simp add: current_def)
    then show ?thesis using quiet_calls(3) [OF kv(2), of ?k en] Some kv(1)
      by (intro that [of "fst (Delete (kv w) NamespaceSystem ?k (Version en))"]) (simp_all add: differ_at_delete Get_Delete)
  qed
  obtain s where fg: "forgetGroup a h (w1\<lparr>kv := s0\<rparr>) = w1\<lparr>kv := s0\<rparr>\<lparr>kv := s\<rparr>"
    and ix: "index_at a s (AList.delete h idx)" "differ_at (indexKey a) s0 s"
    using forgetGroup_quiet [of "w1\<lparr>kv := s0\<rparr>" a idx h] kv(2) assms(3) index_at_other [OF d0] by auto
  have "w1\<lparr>kv := kv w\<rparr> = w1" using kv(1) [symmetric] by simp
  then have "commitComplete a h (Get (kv w) NamespaceSystem ?k) w1 = (w1\<lparr>kv := s\<rparr>, Inr False)"
    using s0 fg by (auto simp: commitComplete_def split: option.splits)
  then have "foldLocked a key h w m = (w1\<lparr>kv := s\<rparr>, Inr (Some (?g, why)))"
    by (simp add: foldLocked_def aggregateWriteAttempts_def numeral_eq_Suc quiet_calls(1) [OF assms(1)] assms(4) ap)
  moreover have "Get s NamespaceSystem ?k = None" using differ_at_other [OF ix(2)] g0 by simp
  ultimately show ?thesis using that [OF _ r] ix(1) by simp
qed

text \<open>The slot is there already, or there is room for it.\<close>

lemma reserve_quiet:
  assumes "quiet w" and "index_at a (kv w) idx" and "map_of idx h \<noteq> None \<or> int (length idx) < ag_maxGroups a"
  obtains s idx' claimed where "\<forall>cont. reserve a cont c visit h w = (w\<lparr>kv := s\<rparr>, Inr (Some claimed))"
    and "index_at a s idx'" and "map_of idx' h \<noteq> None" and "differ_at (indexKey a) (kv w) s"
proof (cases "map_of idx h = None")
  case False
  then have "claimSlot a h w = (w\<lparr>kv := kv w\<rparr>, Inr Held)" using claimSlot_quiet(1) [OF assms(1,2)] by simp
  then show ?thesis using assms(2) False
    by (intro that [of "kv w" False idx]) (simp_all add: reserve_def aggregateWriteAttempts_def numeral_eq_Suc)
next
  case True
  with assms(3) claimSlot_quiet(3) [OF assms(1,2)] obtain s where
    "claimSlot a h w = (w\<lparr>kv := s\<rparr>, Inr Claimed)" "differ_at (indexKey a) (kv w) s"
    "index_at a s (AList.update h \<lparr>ge_FirstAt = clock w, ge_Deadline = 0\<rparr> idx)" by auto
  then show ?thesis
    by (intro that [of s True "AList.update h \<lparr>ge_FirstAt = clock w, ge_Deadline = 0\<rparr> idx"]) (simp_all add: reserve_def aggregateWriteAttempts_def numeral_eq_Suc)
qed

lemma absorb_open:
  assumes "quiet w" and "m < hp w" and "index_at a (kv w) idx"
    and "map_of idx (ag_hash a key) \<noteq> None \<or> int (length idx) < ag_maxGroups a"
    and "Variables (heap w m) varGroupID = Some (GStr key)" and "key \<noteq> []"
    and "loadGroup key (Get (kv w) NamespaceSystem (groupStateKey a (ag_hash a key))) w m = Inr g"
    and "g' = fold_state a (clock w) (heap w m) g" and "full g' = None" and "encodable (gs_Acc g')"
  obtains w1 s idx' en where "read_only w m w1"
    and "\<forall>cont. aggregate_process a visit cont c w m = (upd (w1\<lparr>kv := s\<rparr>) m RequestStop, Out m)"
    and "Get s NamespaceSystem (groupStateKey a (ag_hash a key)) = Some en" and "Value en = GMap (group_fields g')"
    and "index_at a s idx'" and "map_of idx' (ag_hash a key) \<noteq> None"
proof -
  let ?h = "ag_hash a key"
  obtain s0 idx0 cl where rs: "\<forall>cont. reserve a cont c visit ?h w = (w\<lparr>kv := s0\<rparr>, Inr (Some cl))"
    and ix: "index_at a s0 idx0" "map_of idx0 ?h \<noteq> None" "differ_at (indexKey a) (kv w) s0"
    by (rule reserve_quiet [OF assms(1,3,4), of c visit])
  let ?w = "w\<lparr>kv := s0\<rparr>"
  have k: "Get s0 NamespaceSystem (groupStateKey a ?h) = Get (kv w) NamespaceSystem (groupStateKey a ?h)"
    by (rule differ_at_other [OF ix(3)]) simp
  have q: "quiet ?w" "m < hp ?w" "index_at a (kv ?w) idx0"
    using assms(1,2) ix(1) by simp_all
  have l: "loadGroup key (Get (kv ?w) NamespaceSystem (groupStateKey a ?h)) ?w m = Inr g"
    using assms(7) k by simp
  have g': "g' = fold_state a (clock ?w) (heap ?w m) g" using assms(8) by simp
  have f: "full (fold_state a (clock ?w) (heap ?w m) g) = None"
      "encodable (gs_Acc (fold_state a (clock ?w) (heap ?w m) g))"
    using assms(8-10) by simp_all
  obtain w1 s idx' en where fl: "foldLocked a key ?h ?w m = (w1\<lparr>kv := s\<rparr>, Inr None)" and r: "read_only ?w m w1"
    and st: "Get s NamespaceSystem (groupStateKey a ?h) = Some en" "Value en = GMap (group_fields g')"
      "index_at a s idx'" "map_of idx' ?h \<noteq> None"
    by (rule foldLocked_open [OF q l f, folded g'])
  have "aggregate_process a visit cont c w m = (upd (w1\<lparr>kv := s\<rparr>) m RequestStop, Out m)" for cont
    using rs fl assms(6)
    by (simp add: aggregate_process_def EvalString_def correlation_program [OF assms(5)] foldMessage_def Let_def
        applyTakeover_def no_response)
  moreover have "read_only w m (w1\<lparr>kv := kv w\<rparr>)" using r by (auto simp: read_only_def frames_def)
  ultimately show ?thesis using that [of "w1\<lparr>kv := kv w\<rparr>" s] st by simp
qed

lemma absorb_full:
  assumes "quiet w" and "m < hp w" and "index_at a (kv w) idx"
    and "map_of idx (ag_hash a key) \<noteq> None \<or> int (length idx) < ag_maxGroups a"
    and "Variables (heap w m) varGroupID = Some (GStr key)" and "key \<noteq> []"
    and "loadGroup key (Get (kv w) NamespaceSystem (groupStateKey a (ag_hash a key))) w m = Inr g"
    and "g' = fold_state a (clock w) (heap w m) g" and "full g' = Some why"
  obtains w1 s where "read_only w m w1" and "Get s NamespaceSystem (groupStateKey a (ag_hash a key)) = None"
    and "\<forall>cont. aggregate_process a visit cont c w m =
      (case deliver a cont c (ag_hash a key) g' why (w1\<lparr>kv := s\<rparr>) of
         (w2, None) \<Rightarrow> (upd w2 m RequestStop, Out m)
       | (w2, Some e) \<Rightarrow> (w2, Failed e))"
proof -
  let ?h = "ag_hash a key"
  obtain s0 idx0 cl where rs: "\<forall>cont. reserve a cont c visit ?h w = (w\<lparr>kv := s0\<rparr>, Inr (Some cl))"
    and ix: "index_at a s0 idx0" "map_of idx0 ?h \<noteq> None" "differ_at (indexKey a) (kv w) s0"
    by (rule reserve_quiet [OF assms(1,3,4), of c visit])
  let ?w = "w\<lparr>kv := s0\<rparr>"
  have k: "Get s0 NamespaceSystem (groupStateKey a ?h) = Get (kv w) NamespaceSystem (groupStateKey a ?h)"
    by (rule differ_at_other [OF ix(3)]) simp
  have q: "quiet ?w" "m < hp ?w" "index_at a (kv ?w) idx0"
    using assms(1,2) ix(1) by simp_all
  have l: "loadGroup key (Get (kv ?w) NamespaceSystem (groupStateKey a ?h)) ?w m = Inr g"
    using assms(7) k by simp
  have g': "g' = fold_state a (clock ?w) (heap ?w m) g" using assms(8) by simp
  have f: "full (fold_state a (clock ?w) (heap ?w m) g) = Some why" using assms(8,9) by simp
  obtain w1 s where fl: "foldLocked a key ?h ?w m = (w1\<lparr>kv := s\<rparr>, Inr (Some (g', why)))" and r: "read_only ?w m w1"
    and st: "Get s NamespaceSystem (groupStateKey a ?h) = None"
    by (rule foldLocked_full [OF q l f, folded g'])
  have "aggregate_process a visit cont c w m =
      (case deliver a cont c ?h g' why (w1\<lparr>kv := s\<rparr>) of
         (w2, None) \<Rightarrow> (upd w2 m RequestStop, Out m) | (w2, Some e) \<Rightarrow> (w2, Failed e))" for cont
    using rs fl assms(6)
    by (simp add: aggregate_process_def EvalString_def correlation_program [OF assms(5)] foldMessage_def Let_def
        applyTakeover_def no_response split: prod.splits option.splits)
  moreover have "read_only w m (w1\<lparr>kv := kv w\<rparr>)" using r by (auto simp: read_only_def frames_def)
  ultimately show ?thesis using that [of "w1\<lparr>kv := kv w\<rparr>" s] st by simp
qed

end

section \<open>Positions\<close>

text \<open>
  The accumulator when the elements at the positions \<open>S\<close> have arrived: what is there up to
  the last of them, with nulls in the gaps.
\<close>

definition arrived :: "gval list \<Rightarrow> nat set \<Rightarrow> gval list" where
  "arrived bodies S =
     map (\<lambda>j. if j \<in> S then bodies ! j else GNull) [0..<(if S = {} then 0 else Suc (Max S))]"

lemma length_arrived: "length (arrived bodies S) = (if S = {} then 0 else Suc (Max S))"
  by (simp add: arrived_def)

lemma arrived_nth:
  "j < length (arrived bodies S) \<Longrightarrow> arrived bodies S ! j = (if j \<in> S then bodies ! j else GNull)"
  by (auto simp: arrived_def)

lemma place_arrived:
  assumes "finite S"
  shows "place_at i (bodies ! i) (arrived bodies S) = arrived bodies (insert i S)"
proof (rule nth_equalityI)
  have M: "Max (insert i S) = (if S = {} then i else max i (Max S))" using assms by simp
  show l: "length (place_at i (bodies ! i) (arrived bodies S)) = length (arrived bodies (insert i S))"
    by (auto simp: place_at_def length_arrived M max_def)
  fix j assume j: "j < length (place_at i (bodies ! i) (arrived bodies S))"
  have out: "j \<notin> S" if "\<not> j < length (arrived bodies S)"
    using that Max_ge [OF assms, of j] by (auto simp: length_arrived split: if_splits)
  show "place_at i (bodies ! i) (arrived bodies S) ! j = arrived bodies (insert i S) ! j"
  proof (cases "j = i")
    case False
    then show ?thesis
      using j out arrived_nth [of j bodies "insert i S"] arrived_nth [of j bodies S] l
      by (cases "j < length (arrived bodies S)") (auto simp: place_at_def nth_append)
  qed (use j l arrived_nth [of j bodies "insert i S"] in \<open>auto simp: place_at_def\<close>)
qed

lemma arrived_all: "0 < length bodies \<Longrightarrow> arrived bodies {0..<length bodies} = bodies"
proof (rule nth_equalityI)
  assume n: "0 < length bodies"
  then have "Max {0..<length bodies} = length bodies - 1" by (intro Max_eqI) auto
  with n show l: "length (arrived bodies {0..<length bodies}) = length bodies" by (simp add: length_arrived)
  show "arrived bodies {0..<length bodies} ! j = bodies ! j" if "j < length (arrived bodies {0..<length bodies})" for j
    using arrived_nth [OF that] l that by simp
qed

lemma arrived_members:
  assumes "S \<subseteq> {0..<length bodies}"
  shows "set (arrived bodies S) \<subseteq> insert GNull (set bodies)"
  using assms by (auto simp: arrived_def)

lemma foldr_max_mono: "(\<forall>x \<in> set xs. x \<le> k) \<Longrightarrow> foldr max xs (0 :: nat) \<le> k"
  by (induction xs) auto

lemma arrived_json:
  assumes "\<forall>b \<in> set bodies. json_native b" and "S \<subseteq> {0..<length bodies}"
  shows "json_native (GList (arrived bodies S))" and "nesting (GList (arrived bodies S)) \<le> nesting (GList bodies)"
proof -
  show "json_native (GList (arrived bodies S))" using arrived_members [OF assms(2)] assms(1) by fastforce
  have "nesting v \<le> foldr max (map nesting bodies) 0" if "v \<in> set (arrived bodies S)" for v
    using that arrived_members [OF assms(2)] foldr_max_ge [of "nesting v" "map nesting bodies"] by fastforce
  then show "nesting (GList (arrived bodies S)) \<le> nesting (GList bodies)" by (auto intro!: foldr_max_mono)
qed

text \<open>
  The sizes a split announces for \<open>n\<close> elements: on all of them, or on the last one only.
\<close>

definition announces :: "nat \<Rightarrow> (nat \<Rightarrow> int) \<Rightarrow> bool" where
  "announces n sz \<longleftrightarrow>
     (\<forall>i < n. sz i = int n) \<or> (\<forall>i < n. sz i = (if Suc i = n then int n else sizeUnknown))"

text \<open>An element message of the group, and the group when some elements have arrived.\<close>

definition element :: "string \<Rightarrow> string \<Rightarrow> string \<Rightarrow> gval list \<Rightarrow> (nat \<Rightarrow> int) \<Rightarrow> nat \<Rightarrow> message \<Rightarrow> bool" where
  "element key corr tid bodies sz i m \<longleftrightarrow>
     Body m = bodies ! i \<and> CorrelationID m = corr \<and> TraceID m = tid \<and> Variables m varGroupID = Some (GStr key) \<and>
     Variables m varGroupIndex = Some (GInt (int i)) \<and> Variables m varGroupSize = Some (GInt (sz i))"

definition partial_group ::
  "string \<Rightarrow> string \<Rightarrow> string \<Rightarrow> gval list \<Rightarrow> (nat \<Rightarrow> int) \<Rightarrow> nat list \<Rightarrow> group_state \<Rightarrow> bool" where
  "partial_group key corr tid bodies sz is g \<longleftrightarrow>
     gs_Key g = key \<and> gs_CorrelationID g = corr \<and> gs_TraceID g = tid \<and> gs_Count g = int (length is) \<and>
     items_of (gs_Acc g) = arrived bodies (set is) \<and>
     gs_Size g = (if \<exists>i \<in> set is. 0 < sz i then int (length bodies) else sizeUnknown)"

lemma var_Int_GInt: "v k = Some (GInt n) \<Longrightarrow> var_Int v k = (n, True)"
  by (simp add: var_Int_def)

lemma fold_state_element:
  assumes "partial_group key corr tid bodies sz is g" and "element key corr tid bodies sz i m"
    and "announces (length bodies) sz" and "i < length bodies" and "int (length bodies) \<le> maxPositionedIndex"
  shows "partial_group key corr tid bodies sz (is @ [i]) (fold_state a now m g)"
    and "gs_Acc (fold_state a now m g) = GList (arrived bodies (set (is @ [i])))"
proof -
  have sz: "sz i = int (length bodies) \<or> sz i = sizeUnknown" "0 < length bodies"
    using assms(3,4) by (auto simp: announces_def)
  have lim: "int i < positionLimit m g"
    using assms sz
    by (auto simp: positionLimit_def partial_group_def element_def var_Int_GInt sizeUnknown_def min_def)
  have pl: "placeInOrder (gs_Acc g) m g = arrived bodies (insert i (set is))"
    using lim assms(1,2) place_arrived [of "set is" i bodies]
    by (simp add: placeInOrder_def element_def var_Int_GInt partial_group_def)
  show acc: "gs_Acc (fold_state a now m g) = GList (arrived bodies (set (is @ [i])))"
    using pl by (auto simp: fold_state_def Let_def split: option.splits)
  show "partial_group key corr tid bodies sz (is @ [i]) (fold_state a now m g)"
    using assms(1,2) sz pl
    by (auto simp: partial_group_def fold_state_def Let_def element_def asInt_def sizeUnknown_def items_of_def)
qed

lemma full_iff_all:
  assumes "partial_group key corr tid bodies sz is g" and "announces (length bodies) sz"
    and "distinct is" and "set is \<subseteq> {0..<length bodies}" and "0 < length bodies"
  shows "full g = (if length is = length bodies then Some ReasonSize else None)"
proof -
  have c: "card (set is) = length is" using assms(3) by (rule distinct_card)
  then have le: "length is \<le> length bodies" using card_mono [OF _ assms(4)] by simp
  show ?thesis
  proof (cases "length is = length bodies")
    case True
    then have "set is = {0..<length bodies}" using c assms(4) by (intro card_subset_eq) simp_all
    then have "length bodies - 1 \<in> set is" using assms(5) by simp
    moreover have "0 < sz (length bodies - 1)" using assms(2,5) by (auto simp: announces_def)
    ultimately show ?thesis using assms(1) True by (auto simp: full_def partial_group_def)
  qed (use assms(1,5) le in \<open>auto simp: full_def partial_group_def sizeUnknown_def\<close>)
qed

section \<open>A whole group\<close>

text \<open>Messages handled one after the other.\<close>

fun arrivals ::
  "('a agg_world_scheme) aggregate \<Rightarrow> (group_index \<Rightarrow> group_index) \<Rightarrow> ('a agg_world_scheme) cont \<Rightarrow> ctx \<Rightarrow>
   addr list \<Rightarrow> 'a agg_world_scheme \<Rightarrow> 'a agg_world_scheme \<times> outcome list" where
  "arrivals a visit cont c [] w = (w, [])"
| "arrivals a visit cont c (m # ms) w =
     (case aggregate_process a visit cont c w m of
        (w1, r) \<Rightarrow> (case arrivals a visit cont c ms w1 of (w2, rs) \<Rightarrow> (w2, r # rs)))"

lemma arrivals_append:
  "arrivals a visit cont c (xs @ ys) w =
     (case arrivals a visit cont c xs w of (w1, rs) \<Rightarrow>
        (case arrivals a visit cont c ys w1 of (w2, rs') \<Rightarrow> (w2, rs @ rs')))"
  by (induction xs arbitrary: w) (auto split: prod.splits)

record group_case =
  gc_key :: string
  gc_corr :: string
  gc_trace :: string
  gc_bodies :: "gval list"
  gc_size :: "nat \<Rightarrow> int"
  gc_at :: "nat \<Rightarrow> addr"

abbreviation gc_element where
  "gc_element x \<equiv> element (gc_key x) (gc_corr x) (gc_trace x) (gc_bodies x) (gc_size x)"

abbreviation gc_partial where
  "gc_partial x \<equiv> partial_group (gc_key x) (gc_corr x) (gc_trace x) (gc_bodies x) (gc_size x)"

text \<open>The group is one JSON can hold, within the positions an accumulator is padded to.\<close>

definition sound_case :: "group_case \<Rightarrow> bool" where
  "sound_case x \<longleftrightarrow>
     gc_key x \<noteq> [] \<and> gc_bodies x \<noteq> [] \<and> int (length (gc_bodies x)) \<le> maxPositionedIndex \<and>
     announces (length (gc_bodies x)) (gc_size x) \<and> (\<forall>b \<in> set (gc_bodies x). json_native b) \<and>
     nesting (GList (gc_bodies x)) < maxCopyDepth \<and> inj_on (gc_at x) {0..<length (gc_bodies x)}"

text \<open>
  What holds while the group is being gathered, after the elements \<open>is\<close>: the others wait
  untouched, and the store holds the partial group.
\<close>

definition gathering :: "('a agg_world_scheme) aggregate \<Rightarrow> group_case \<Rightarrow> nat list \<Rightarrow> 'a agg_world_scheme \<Rightarrow> bool" where
  "gathering a x is w \<longleftrightarrow>
     quiet w \<and>
     (\<forall>i < length (gc_bodies x). gc_at x i < hp w \<and> (i \<notin> set is \<longrightarrow> gc_element x i (heap w (gc_at x i)))) \<and>
     (\<exists>idx. index_at a (kv w) idx \<and>
        (map_of idx (ag_hash a (gc_key x)) \<noteq> None \<or> int (length idx) < ag_maxGroups a)) \<and>
     (case Get (kv w) NamespaceSystem (groupStateKey a (ag_hash a (gc_key x))) of
        None \<Rightarrow> is = []
      | Some en \<Rightarrow> is \<noteq> [] \<and> (\<exists>g. Value en = GMap (group_fields g) \<and> gc_partial x is g \<and>
                                 gs_Acc g = GList (arrived (gc_bodies x) (set is))))"

lemma gathering_load:
  assumes "gathering a x is w" and "sound_case x" and "set is \<subseteq> {0..<length (gc_bodies x)}"
    and "i < length (gc_bodies x)" and "i \<notin> set is"
  obtains g where
    "loadGroup (gc_key x) (Get (kv w) NamespaceSystem (groupStateKey a (ag_hash a (gc_key x)))) w (gc_at x i) = Inr g"
    and "gc_partial x is g"
proof (cases "Get (kv w) NamespaceSystem (groupStateKey a (ag_hash a (gc_key x)))")
  case None
  have "gc_element x i (heap w (gc_at x i))" "is = []" using assms None by (auto simp: gathering_def)
  with None that show ?thesis
    by (auto simp: loadGroup_def partial_group_def element_def zero_group_def items_of_def arrived_def)
next
  case (Some en)
  obtain g where g: "Value en = GMap (group_fields g)" "gc_partial x is g"
      "gs_Acc g = GList (arrived (gc_bodies x) (set is))"
    using assms(1) Some by (auto simp: gathering_def)
  have j: "json_native (gs_Acc g)" "nesting (gs_Acc g) < maxCopyDepth"
    using arrived_json [OF _ assms(3)] assms(2) g(3) by (auto simp: sound_case_def)
  then have "decode_group (zero_group\<lparr>gs_Key := gc_key x, gs_Size := sizeUnknown\<rparr>) (GMap (group_fields g)) = Inr g"
    using decode_group_fields [of g "zero_group\<lparr>gs_Key := gc_key x, gs_Size := sizeUnknown\<rparr>"]
    by (simp add: json_native_encodable json_normal_native fresh_group_def zero_group_def)
  then show ?thesis using that [of g] g Some by (simp add: loadGroup_def)
qed

context rejoining
begin

lemma gather_step:
  assumes "gathering a x is w" and x: "sound_case x" and "set is \<subseteq> {0..<length (gc_bodies x)}" and "distinct is"
    and "i < length (gc_bodies x)" and "i \<notin> set is" and "Suc (length is) < length (gc_bodies x)"
  obtains w' where "\<forall>cont. aggregate_process a visit cont c w (gc_at x i) = (w', Out (gc_at x i))"
    and "gathering a x (is @ [i]) w'" and "entropy w' = entropy w"
proof -
  let ?m = "gc_at x i" and ?h = "ag_hash a (gc_key x)" and ?k = "groupStateKey a (ag_hash a (gc_key x))"
  obtain idx where idx: "index_at a (kv w) idx" "map_of idx ?h \<noteq> None \<or> int (length idx) < ag_maxGroups a"
    and q: "quiet w" "?m < hp w" and el: "gc_element x i (heap w ?m)"
    using assms(1,5,6) by (auto simp: gathering_def)
  obtain g where ld: "loadGroup (gc_key x) (Get (kv w) NamespaceSystem ?k) w ?m = Inr g" and g: "gc_partial x is g"
    using gathering_load [OF assms(1,2,3,5,6)] by blast
  define g' where "g' = fold_state a (clock w) (heap w ?m) g"
  note S = x [unfolded sound_case_def]
  have g': "gc_partial x (is @ [i]) g'" "gs_Acc g' = GList (arrived (gc_bodies x) (set (is @ [i])))"
    unfolding g'_def using fold_state_element [OF g el _ assms(5)] S by simp_all
  have sub: "distinct (is @ [i])" "set (is @ [i]) \<subseteq> {0..<length (gc_bodies x)}" using assms by auto
  have f: "full g' = None" using full_iff_all [OF g'(1) _ sub] S assms(7) by auto
  have e: "encodable (gs_Acc g')"
    using arrived_json(1) [OF _ sub(2)] S unfolding g'(2) by (blast intro: json_native_encodable)
  have v: "Variables (heap w ?m) varGroupID = Some (GStr (gc_key x))" "gc_key x \<noteq> []"
    using el S by (simp_all add: element_def)
  obtain w1 s idx' en where r: "read_only w ?m w1"
    and p: "\<forall>cont. aggregate_process a visit cont c w ?m = (upd (w1\<lparr>kv := s\<rparr>) ?m RequestStop, Out ?m)"
    and st: "Get s NamespaceSystem ?k = Some en" "Value en = GMap (group_fields g')" "index_at a s idx'" "map_of idx' ?h \<noteq> None"
    by (rule absorb_open [OF q idx v ld g'_def f e, of visit c])
  let ?w = "upd (w1\<lparr>kv := s\<rparr>) ?m RequestStop"
  have fr: "frames w ?m w1" "others w1 = others w" "entropy w1 = entropy w" using r by (simp_all add: read_only_def)
  have kvw: "kv ?w = s" by (simp add: upd_def)
  have oth: "heap ?w (gc_at x j) = heap w (gc_at x j)" "gc_at x j < hp ?w"
    if "j < length (gc_bodies x)" "j \<noteq> i" for j
  proof -
    have "gc_at x j \<noteq> ?m" using that assms(5) S by (auto dest: inj_onD)
    moreover have "gc_at x j < hp w" using assms(1) that by (simp add: gathering_def)
    ultimately show "heap ?w (gc_at x j) = heap w (gc_at x j)" "gc_at x j < hp ?w"
      using frames_heap [OF fr(1)] frames_grow [OF fr(1)] by simp_all
  qed
  have "gathering a x (is @ [i]) ?w"
    unfolding gathering_def kvw
  proof (intro conjI)
    show "quiet ?w" using q(1) fr(2) by (simp add: quiet_def upd_def)
    show "\<forall>j < length (gc_bodies x). gc_at x j < hp ?w \<and> (j \<notin> set (is @ [i]) \<longrightarrow> gc_element x j (heap ?w (gc_at x j)))"
    proof (intro allI impI)
      fix j assume j: "j < length (gc_bodies x)"
      show "gc_at x j < hp ?w \<and> (j \<notin> set (is @ [i]) \<longrightarrow> gc_element x j (heap ?w (gc_at x j)))"
      proof (cases "j = i")
        case True
        then show ?thesis using q(2) frames_grow [OF fr(1)] by simp
      next
        case False
        then show ?thesis using oth [OF j] assms(1) j by (simp add: gathering_def)
      qed
    qed
    show "\<exists>idx. index_at a s idx \<and> (map_of idx ?h \<noteq> None \<or> int (length idx) < ag_maxGroups a)" using st by blast
    show "case Get s NamespaceSystem ?k of None \<Rightarrow> is @ [i] = []
      | Some en \<Rightarrow> is @ [i] \<noteq> [] \<and> (\<exists>g. Value en = GMap (group_fields g) \<and> gc_partial x (is @ [i]) g \<and>
          gs_Acc g = GList (arrived (gc_bodies x) (set (is @ [i]))))"
      using st g' by auto
  qed
  moreover have "entropy ?w = entropy w" using fr(3) by (simp add: upd_def)
  ultimately show ?thesis using that p by blast
qed

lemma gather_most:
  assumes "sound_case x"
  shows "gathering a x is w \<Longrightarrow> distinct (is @ js) \<Longrightarrow> set (is @ js) \<subseteq> {0..<length (gc_bodies x)} \<Longrightarrow>
     length (is @ js) < length (gc_bodies x) \<Longrightarrow>
     \<exists>w'. (\<forall>cont. arrivals a visit cont c (map (gc_at x) js) w = (w', map (Out \<circ> gc_at x) js)) \<and>
       gathering a x (is @ js) w' \<and> entropy w' = entropy w"
proof (induction js arbitrary: "is" w)
  case (Cons i js)
  have i: "i < length (gc_bodies x)" "i \<notin> set is" "Suc (length is) < length (gc_bodies x)" "distinct is"
    "set is \<subseteq> {0..<length (gc_bodies x)}" using Cons.prems by auto
  obtain w1 where w1: "\<forall>cont. aggregate_process a visit cont c w (gc_at x i) = (w1, Out (gc_at x i))"
    "gathering a x (is @ [i]) w1" "entropy w1 = entropy w"
    by (rule gather_step [OF Cons.prems(1) assms i(5,4,1,2,3), of visit c])
  obtain w' where w': "\<forall>cont. arrivals a visit cont c (map (gc_at x) js) w1 = (w', map (Out \<circ> gc_at x) js)"
    "gathering a x (is @ i # js) w'" "entropy w' = entropy w1"
    using Cons.IH [OF w1(2)] Cons.prems by auto
  show ?case
    by (rule exI [of _ w']) (use w1 w' in simp)
qed simp

lemma gather_last:
  assumes "gathering a x is w" and x: "sound_case x" and "set is \<subseteq> {0..<length (gc_bodies x)}" and "distinct is"
    and "i < length (gc_bodies x)" and "i \<notin> set is" and "Suc (length is) = length (gc_bodies x)"
  obtains w1 g where
    "\<forall>cont. aggregate_process a visit cont c w (gc_at x i) =
       (case deliver a cont c (ag_hash a (gc_key x)) g ReasonSize w1 of
          (w2, None) \<Rightarrow> (upd w2 (gc_at x i) RequestStop, Out (gc_at x i))
        | (w2, Some e) \<Rightarrow> (w2, Failed e))"
    and "gs_Key g = gc_key x" "gs_CorrelationID g = gc_corr x" "gs_TraceID g = gc_trace x"
      "gs_Count g = int (length (gc_bodies x))" "gs_Acc g = GList (gc_bodies x)"
    and "Get (kv w1) NamespaceSystem (groupStateKey a (ag_hash a (gc_key x))) = None" and "entropy w1 = entropy w"
proof -
  let ?m = "gc_at x i" and ?h = "ag_hash a (gc_key x)" and ?k = "groupStateKey a (ag_hash a (gc_key x))"
  obtain idx where idx: "index_at a (kv w) idx" "map_of idx ?h \<noteq> None \<or> int (length idx) < ag_maxGroups a"
    and q: "quiet w" "?m < hp w" and el: "gc_element x i (heap w ?m)"
    using assms(1,5,6) by (auto simp: gathering_def)
  obtain g where ld: "loadGroup (gc_key x) (Get (kv w) NamespaceSystem ?k) w ?m = Inr g" and g: "gc_partial x is g"
    using gathering_load [OF assms(1,2,3,5,6)] by blast
  define g' where "g' = fold_state a (clock w) (heap w ?m) g"
  note S = x [unfolded sound_case_def]
  have g': "gc_partial x (is @ [i]) g'" "gs_Acc g' = GList (arrived (gc_bodies x) (set (is @ [i])))"
    unfolding g'_def using fold_state_element [OF g el _ assms(5)] S by simp_all
  have sub: "distinct (is @ [i])" "set (is @ [i]) \<subseteq> {0..<length (gc_bodies x)}" using assms by auto
  have f: "full g' = Some ReasonSize" using full_iff_all [OF g'(1) _ sub] S assms(7) by auto
  have "card (set (is @ [i])) = length (gc_bodies x)" using distinct_card [OF sub(1)] assms(7) by simp
  then have "set (is @ [i]) = {0..<length (gc_bodies x)}" using sub(2) by (intro card_subset_eq) simp_all
  then have acc: "gs_Acc g' = GList (gc_bodies x)" using g'(2) arrived_all [of "gc_bodies x"] S by simp
  have v: "Variables (heap w ?m) varGroupID = Some (GStr (gc_key x))" "gc_key x \<noteq> []"
    using el S by (simp_all add: element_def)
  obtain w1 s where r: "read_only w ?m w1" and st: "Get s NamespaceSystem ?k = None"
    and p: "\<forall>cont. aggregate_process a visit cont c w ?m =
      (case deliver a cont c ?h g' ReasonSize (w1\<lparr>kv := s\<rparr>) of
         (w2, None) \<Rightarrow> (upd w2 ?m RequestStop, Out ?m) | (w2, Some e) \<Rightarrow> (w2, Failed e))"
    by (rule absorb_full [OF q idx v ld g'_def f, of visit c])
  show ?thesis
    by (rule that [OF p]) (use g'(1) acc st r assms(7) in \<open>simp_all add: partial_group_def read_only_def\<close>)
qed

end

text \<open>The message a completed group continues the flow with.\<close>

definition joined_message :: "string \<Rightarrow> string \<Rightarrow> string \<Rightarrow> string \<Rightarrow> gval list \<Rightarrow> message" where
  "joined_message eid key corr tid bodies =
     \<lparr>EventID = eid, CorrelationID = corr,
      Variables = (if tid = [] then Map.empty else [traceVar \<mapsto> GStr tid])
        (varAggregateKey \<mapsto> GStr key, varAggregateCount \<mapsto> GInt (int (length bodies)), varAggregateReason \<mapsto> GStr ''size''),
      Body = GList bodies, BodySchema = [], RawContent = False, bodyShared = False\<rparr>"

lemma release_joined:
  assumes "entropy w = Some buf # rest" and "gs_Key g = key" and "gs_CorrelationID g = corr" and "gs_TraceID g = tid"
    and "gs_Count g = int (length bodies)" and "gs_Acc g = GList bodies"
  obtains w1 out where "heap w1 out = joined_message (hex_encode (take eventIDBytes buf)) key corr tid bodies"
    and "kv w1 = kv w" and "hp w \<le> out"
    and "\<forall>cont. release cont c g ReasonSize w = (case cont c w1 out of
       (w2, None) \<Rightarrow> (w2, None)
     | (w2, Some e) \<Rightarrow> (w2, Some (Wrap (''aggregate: continue with group '' @ quote key) e)))"
proof -
  let ?eid = "hex_encode (take eventIDBytes buf)"
  obtain w1 where n: "NewMessage corr w = (w1, Inr (hp w))" and kv: "kv w1 = kv w"
    and h: "heap w1 (hp w) = \<lparr>EventID = ?eid, CorrelationID = corr, Variables = Map.empty, Body = GNull,
        BodySchema = [], RawContent = False, bodyShared = False\<rparr>"
    by (auto simp: NewMessage_def newEventID_def assms(1) alloc_def)
  let ?w = "upd w1 (hp w) (SetVar varAggregateReason (GStr (reason_text ReasonSize)) \<circ>
       SetVar varAggregateCount (GInt (gs_Count g)) \<circ> SetVar varAggregateKey (GStr (gs_Key g)) \<circ>
       SetTraceID (gs_TraceID g) \<circ> SetBody (gs_Acc g))"
  show ?thesis
  proof (rule that [of ?w "hp w"])
    show "heap ?w (hp w) = joined_message ?eid key corr tid bodies"
      using h by (simp add: assms joined_message_def SetTraceID_def SetVar_def var_Set_def SetBody_def)
    show "kv ?w = kv w" using kv by (simp add: upd_def)
    show "\<forall>cont. release cont c g ReasonSize w = (case cont c ?w (hp w) of
       (w2, None) \<Rightarrow> (w2, None)
     | (w2, Some e) \<Rightarrow> (w2, Some (Wrap (''aggregate: continue with group '' @ quote key) e)))"
      using n by (simp add: release_def assms split: prod.split option.split)
  qed simp
qed

context rejoining
begin

lemma rejoin_any_order:
  assumes x: "sound_case x" and w: "gathering a x [] w" and ord: "distinct perm" "set perm = {0..<length (gc_bodies x)}"
    and ent: "entropy w = Some buf # rest"
  shows "\<exists>w1 out g. heap w1 out =
       joined_message (hex_encode (take eventIDBytes buf)) (gc_key x) (gc_corr x) (gc_trace x) (gc_bodies x) \<and>
     Get (kv w1) NamespaceSystem (groupStateKey a (ag_hash a (gc_key x))) = None \<and> gs_Acc g = GList (gc_bodies x) \<and>
     (\<forall>cont. arrivals a visit cont c (map (gc_at x) perm) w =
        (case cont c w1 out of
           (w2, None) \<Rightarrow> (upd w2 (gc_at x (last perm)) RequestStop, map (Out \<circ> gc_at x) perm)
         | (w2, Some e) \<Rightarrow>
             (restore a (ag_hash a (gc_key x)) g w2, map (Out \<circ> gc_at x) (butlast perm) @
                [Failed (Wrap (''aggregate: continue with group '' @ quote (gc_key x)) e)])))"
proof -
  let ?n = "length (gc_bodies x)"
  have len: "length perm = ?n" using distinct_card [OF ord(1)] ord(2) by simp
  have n: "0 < ?n" using x by (simp add: sound_case_def)
  then obtain js i where j: "perm = js @ [i]" using len by (metis append_butlast_last_id list.size(3) less_numeral_extra(3))
  have jj: "distinct js" "set js \<subseteq> {0..<?n}" "i < ?n" "i \<notin> set js" "Suc (length js) = ?n" using ord len j by auto
  obtain w0 where w0: "\<forall>cont. arrivals a visit cont c (map (gc_at x) js) w = (w0, map (Out \<circ> gc_at x) js)"
    "gathering a x js w0" "entropy w0 = entropy w"
    using gather_most [OF x w, of js visit c] jj by auto
  obtain w1 g where p: "\<forall>cont. aggregate_process a visit cont c w0 (gc_at x i) =
       (case deliver a cont c (ag_hash a (gc_key x)) g ReasonSize w1 of
          (w2, None) \<Rightarrow> (upd w2 (gc_at x i) RequestStop, Out (gc_at x i)) | (w2, Some e) \<Rightarrow> (w2, Failed e))"
    and g: "gs_Key g = gc_key x" "gs_CorrelationID g = gc_corr x" "gs_TraceID g = gc_trace x"
      "gs_Count g = int ?n" "gs_Acc g = GList (gc_bodies x)"
    and k: "Get (kv w1) NamespaceSystem (groupStateKey a (ag_hash a (gc_key x))) = None" and en: "entropy w1 = entropy w0"
    by (rule gather_last [OF w0(2) x jj(2,1,3,4,5), of visit c])
  have e1: "entropy w1 = Some buf # rest" using en w0(3) ent by simp
  obtain w2 out where m: "heap w2 out =
      joined_message (hex_encode (take eventIDBytes buf)) (gc_key x) (gc_corr x) (gc_trace x) (gc_bodies x)" "kv w2 = kv w1"
    and rel: "\<forall>cont. release cont c g ReasonSize w1 = (case cont c w2 out of
       (w3, None) \<Rightarrow> (w3, None) | (w3, Some e) \<Rightarrow> (w3, Some (Wrap (''aggregate: continue with group '' @ quote (gc_key x)) e)))"
    by (rule release_joined [OF e1 g, of c])
  have "arrivals a visit cont c (map (gc_at x) perm) w =
        (case cont c w2 out of
           (w2, None) \<Rightarrow> (upd w2 (gc_at x (last perm)) RequestStop, map (Out \<circ> gc_at x) perm)
         | (w2, Some e) \<Rightarrow>
             (restore a (ag_hash a (gc_key x)) g w2, map (Out \<circ> gc_at x) (butlast perm) @
                [Failed (Wrap (''aggregate: continue with group '' @ quote (gc_key x)) e)]))" for cont
    using w0(1) p rel by (simp add: j arrivals_append deliver_def split: prod.splits option.splits)
  then show ?thesis using m k g(5) by (intro exI [of _ w2] exI [of _ out] exI [of _ g]) simp
qed

end

section \<open>The default settings\<close>

text \<open>What the two default expressions evaluate to.\<close>

definition cel_groupId :: "'w program" where
  "cel_groupId w m =
     (case Variables m varGroupID of Some v \<Rightarrow> Inr v | None \<Rightarrow> Inl (Err ''no such key: groupId''))"

definition cel_groupSize :: "'w program" where
  "cel_groupSize w m = Inr (case Variables m varGroupSize of Some v \<Rightarrow> v | None \<Rightarrow> GInt (- 1))"

definition default_aggregate :: "(string \<Rightarrow> string) \<Rightarrow> (gval \<Rightarrow> string) \<Rightarrow> string \<Rightarrow> ('a agg_world_scheme) aggregate" where
  "default_aggregate hash render path =
     \<lparr>ag_storeKey = path, ag_correlation = cel_groupId, ag_fold = None, ag_completionSize = cel_groupSize,
      ag_completionExpr = None, ag_timeout = 0, ag_fromLast = False, ag_maxGroups = defaultMaxGroups,
      ag_onOverflow = OverflowFail, ag_buildResponse = None, ag_hash = hash, ag_render = render\<rparr>"

interpretation by_default: rejoining "default_aggregate hash render path" for hash render path
  by unfold_locales (simp_all add: default_aggregate_def cel_groupId_def cel_groupSize_def)

lemma build_default:
  assumes "compile deps defaultCorrelation = Inr cel_groupId"
    and "compile deps defaultCompletionSize = Inr cel_groupSize"
    and "build_aggregate hash render [] deps = Built a"
  shows "a = default_aggregate hash render (ba_Path (Address deps))"
  using assms
  by (auto simp: build_aggregate_def DecodeStrict_def get_string_def get_int_def get_flow_def get_object_def
      compileExpressions_def wrap_res_def resolveStrategy_def resolveCompletion_def default_aggregate_def
      bind_build_Built buildTakeoverResponse_def split: if_splits)

text \<open>
  C7. Splitting and aggregating with the default settings is the identity on the collection:
  whatever the order the elements of a split arrive in, every element but the last to arrive
  is absorbed without continuing the flow, and the last continues it exactly once, with one
  message that has the bodies in their original order, the correlation id and the trace of
  the split, and none of its group variables. By then the group is out of the store; if the
  continuation refuses the message the group is put back.
\<close>

theorem split_rejoined_in_order:
  assumes "compile deps defaultCorrelation = Inr cel_groupId"
    and "compile deps defaultCompletionSize = Inr cel_groupSize"
    and "build_aggregate hash render [] deps = Built a"
    and "sound_case x" and "gathering a x [] w"
    and "distinct perm" and "set perm = {0..<length (gc_bodies x)}"
    and "entropy w = Some buf # rest"
  shows "\<exists>w1 out g. heap w1 out =
       joined_message (hex_encode (take eventIDBytes buf)) (gc_key x) (gc_corr x) (gc_trace x) (gc_bodies x) \<and>
     Get (kv w1) NamespaceSystem (groupStateKey a (ag_hash a (gc_key x))) = None \<and> gs_Acc g = GList (gc_bodies x) \<and>
     (\<forall>cont. arrivals a visit cont c (map (gc_at x) perm) w =
        (case cont c w1 out of
           (w2, None) \<Rightarrow> (upd w2 (gc_at x (last perm)) RequestStop, map (Out \<circ> gc_at x) perm)
         | (w2, Some e) \<Rightarrow>
             (restore a (ag_hash a (gc_key x)) g w2, map (Out \<circ> gc_at x) (butlast perm) @
                [Failed (Wrap (''aggregate: continue with group '' @ quote (gc_key x)) e)])))"
  using assms(5) by_default.rejoin_any_order [OF assms(4) _ assms(6-8), of hash render "ba_Path (Address deps)"]
  unfolding build_default [OF assms(1-3)] by blast

definition sample_deps :: "'w block_deps" where
  "sample_deps = \<lparr>Address = \<lparr>ba_Flow = ''f'', ba_Path = ''f.agg'', ba_Name = ''agg''\<rparr>,
     SubFlows = Some \<lparr>Branch = (\<lambda>_ _. Diverge), Member = (\<lambda>_ _ _. Diverge), Root = True\<rparr>, Scheduler = None,
     compile = (\<lambda>s. if s = defaultCorrelation then Inr cel_groupId
                   else if s = defaultCompletionSize then Inr cel_groupSize else Inl (Err ''unknown''))\<rparr>"

definition sample_case :: group_case where
  "sample_case = \<lparr>gc_key = ''e'', gc_corr = ''c'', gc_trace = [], gc_bodies = [GStr ''a'', GStr ''b''],
     gc_size = (\<lambda>i. if i = 1 then 2 else - 1), gc_at = id\<rparr>"

definition sample_element :: "nat \<Rightarrow> message" where
  "sample_element i = sample_msg\<lparr>Variables := [varGroupID \<mapsto> GStr ''e'', varGroupIndex \<mapsto> GInt (int i),
       varGroupSize \<mapsto> GInt (gc_size sample_case i)], Body := gc_bodies sample_case ! i\<rparr>"

definition sample_agg_world :: agg_world where
  "sample_agg_world = \<lparr>heap = sample_element, hp = 2, entropy = [Some []], deliveries = [], panic_count = 0,
     kv = newStore None, clock = 5, others = []\<rparr>"

lemma sample_elements: "gc_element sample_case i (heap sample_agg_world (gc_at sample_case i))"
  by (simp add: element_def sample_case_def sample_agg_world_def sample_element_def sample_msg_def TraceID_def
      var_String_def traceVar_def internalVarPrefix_def varGroupID_def varGroupIndex_def varGroupSize_def)

lemma sample_gathering: "gathering (default_aggregate hash render path) sample_case [] sample_agg_world"
proof -
  have "index_at (default_aggregate hash render path) (kv sample_agg_world) []"
    by (simp add: index_at_def sample_agg_world_def Get_new)
  then show ?thesis using sample_elements
    by (auto simp: gathering_def quiet_def sample_case_def sample_agg_world_def Get_new default_aggregate_def
        defaultMaxGroups_def intro: exI [of _ "[]"])
qed

theorem split_rejoined_in_order_witness:
  "\<exists>w1 out. Body (heap w1 out) = GList [GStr ''a'', GStr ''b''] \<and>
     arrivals (default_aggregate id (\<lambda>_. []) ''f.agg'') id (\<lambda>c w m. (w, None)) (Ctx False) [1, 0] sample_agg_world =
       (upd w1 0 RequestStop, [Out 1, Out 0])"
proof -
  have b: "build_aggregate id (\<lambda>_. []) [] (sample_deps :: agg_world block_deps) =
      Built (default_aggregate id (\<lambda>_. []) ''f.agg'')"
    by (simp add: build_aggregate_def DecodeStrict_def get_string_def get_int_def get_flow_def get_object_def
        compileExpressions_def wrap_res_def resolveStrategy_def resolveCompletion_def default_aggregate_def
        sample_deps_def defaultCorrelation_def defaultCompletionSize_def buildTakeoverResponse_def SubFlowsOf_def)
  have s: "sound_case sample_case"
    by (auto simp: sound_case_def sample_case_def maxPositionedIndex_def announces_def maxCopyDepth_def sizeUnknown_def
        less_Suc_eq numeral_2_eq_2)
  have p: "distinct [1, 0 :: nat]" "set [1, 0 :: nat] = {0..<length (gc_bodies sample_case)}"
    by (auto simp: sample_case_def)
  have e: "entropy sample_agg_world = Some [] # []" by (simp add: sample_agg_world_def)
  have c: "compile sample_deps defaultCorrelation = Inr cel_groupId"
    "compile sample_deps defaultCompletionSize = Inr cel_groupSize"
    by (simp_all add: sample_deps_def defaultCorrelation_def defaultCompletionSize_def)
  from split_rejoined_in_order [OF c b s sample_gathering p e, of id "Ctx False"] show ?thesis
  proof (elim exE conjE, goal_cases)
    case (1 w1 out g)
    then show ?case
      by (intro exI [of _ w1] exI [of _ out])
         (use spec [OF 1(4), of "\<lambda>c w m. (w, None)"] in
          \<open>simp add: joined_message_def sample_case_def del: arrivals.simps\<close>)
  qed
qed

end
