(* ===== verification/Octo_Groups.thy ===== *)
theory Octo_Groups
  imports Octo_Rejoin
begin

text \<open>
  What an aggregate promises while other replicas act on the store between its calls: folds
  that lose no update, a cap on the open groups, groups that time out, and bounds on what a
  message can make it allocate; and where those promises end.
\<close>

section \<open>Bounds\<close>

text \<open>
  The accumulator is never padded past the size of the group or past the fixed ceiling,
  whatever position a message claims: one message makes it at most one longer, or as long as
  the size the group or the message announces allows. The stripe of a hash is one of the
  stripes there are, and the reaper's interval is between a second and half a minute.
\<close>

theorem aggregate_bounds:
  "length (placeInOrder acc m g) \<le> max (Suc (length (items_of acc))) (nat maxPositionedIndex) \<and>
   length (items_of acc) \<le> length (placeInOrder acc m g) \<and>
   (0 < gs_Size g \<longrightarrow> length (placeInOrder acc m g) \<le> max (Suc (length (items_of acc))) (nat (gs_Size g))) \<and>
   stripeOf h < foldStripes \<and>
   minReapInterval \<le> reapInterval a \<and> reapInterval a \<le> maxReapInterval \<and>
   (2 * minReapInterval \<le> ag_timeout a \<longrightarrow> reapInterval a < ag_timeout a)"
proof -
  have len: "length (place_at i v xs) = max (length xs) (Suc i)" for i v xs
    by (auto simp: place_at_def)
  obtain i p where ip: "var_Int (Variables m) varGroupIndex = (i, p)" by force
  have lim: "positionLimit m g \<le> maxPositionedIndex" "0 < gs_Size g \<Longrightarrow> positionLimit m g \<le> gs_Size g"
    by (auto simp: positionLimit_def split: prod.splits)
  have "length (placeInOrder acc m g) \<le> max (Suc (length (items_of acc))) (nat maxPositionedIndex)"
    "length (items_of acc) \<le> length (placeInOrder acc m g)"
    "0 < gs_Size g \<Longrightarrow> length (placeInOrder acc m g) \<le> max (Suc (length (items_of acc))) (nat (gs_Size g))"
    using lim by (auto simp: placeInOrder_def ip len)
  moreover have "stripeOf h < foldStripes" by (simp add: stripeOf_def foldStripes_def)
  moreover have "minReapInterval \<le> reapInterval a" "reapInterval a \<le> maxReapInterval"
    by (auto simp: reapInterval_def Let_def minReapInterval_def maxReapInterval_def)
  moreover have "reapInterval a < ag_timeout a" if "2 * minReapInterval \<le> ag_timeout a"
    using that by (auto simp: reapInterval_def Let_def minReapInterval_def maxReapInterval_def quot_def)
  ultimately show ?thesis by blast
qed

theorem aggregate_bounds_witness:
  "length (placeInOrder (GList [GStr ''x'']) (SetVar ''groupIndex'' (GInt 99999999) sample_msg) zero_group) \<le> 100000 \<and>
   reapInterval ((default_aggregate id (\<lambda>_. []) [] :: agg_world aggregate) \<lparr>ag_timeout := 5 * 1000000000\<rparr>) < 5 * 1000000000"
  using aggregate_bounds [of "GList [GStr ''x'']" "SetVar ''groupIndex'' (GInt 99999999) sample_msg" zero_group "[]"
      "(default_aggregate id (\<lambda>_. []) [] :: agg_world aggregate)\<lparr>ag_timeout := 5 * 1000000000\<rparr>"]
  by (simp add: maxPositionedIndex_def items_of_def minReapInterval_def)

theorem group_state_roundtrip_witness:
  "\<exists>doc. encode_group (zero_group\<lparr>gs_Acc := GList [GInt 3]\<rparr>) = Some doc \<and>
     decode_group zero_group doc = Inr (zero_group\<lparr>gs_Acc := GList [GFloat 3]\<rparr>)"
  using group_state_roundtrip [of "zero_group\<lparr>gs_Acc := GList [GInt 3]\<rparr>" zero_group]
  by (simp add: zero_group_def fresh_group_def maxCopyDepth_def float64_of_int_exact)

text \<open>
  The deadline of a group is the end of its window as long as that fits the 64-bit clock.
  Past it the sum wraps to an instant in the past: a window that is accepted as a setting but
  too long makes the very next sweep time the group out.
\<close>

theorem deadline_wraps:
  assumes "0 < ag_timeout a" and "ag_timeout a < 2 ^ 63" and "0 \<le> gs_FirstAt g" and "gs_FirstAt g < 2 ^ 63"
    and "\<not> ag_fromLast a"
  shows "(gs_FirstAt g + ag_timeout a < 2 ^ 63 \<longrightarrow>
            deadline a g = gs_FirstAt g + ag_timeout a \<and> gs_FirstAt g < deadline a g) \<and>
         (2 ^ 63 \<le> gs_FirstAt g + ag_timeout a \<longrightarrow> deadline a g < 0)"
proof -
  have i: "int64 n = (n + 2 ^ 63) mod 2 ^ 64 - 2 ^ 63" for n by (simp add: int64_def int_word_sint)
  have w: "int64 n = n" if "0 \<le> n" "n < 2 ^ 63" for n using that by (simp add: i)
  have v: "int64 n = n - 2 ^ 64" if "2 ^ 63 \<le> n" "n < 2 ^ 64" for n
    using that mod_pos_pos_trivial [of "n - 2 ^ 63" "2 ^ 64"] mod_add_self2 [of "n - 2 ^ 63" "2 ^ 64 :: int"]
    by (simp add: i add.commute)
  show ?thesis using assms w [of "gs_FirstAt g + ag_timeout a"] v [of "gs_FirstAt g + ag_timeout a"]
    by (auto simp: deadline_def)
qed

theorem deadline_wraps_witness:
  "deadline ((default_aggregate id (\<lambda>_. []) [] :: agg_world aggregate) \<lparr>ag_timeout := 8000000000000000000\<rparr>)
     (zero_group\<lparr>gs_FirstAt := 1700000000000000000\<rparr>) < 0"
  using deadline_wraps [of "(default_aggregate id (\<lambda>_. []) [] :: agg_world aggregate)\<lparr>ag_timeout := 8000000000000000000\<rparr>"
      "zero_group\<lparr>gs_FirstAt := 1700000000000000000\<rparr>"]
  by (simp add: default_aggregate_def)

section \<open>Folds under interference\<close>

context versioned_kv
begin

text \<open>A key nobody deletes and whose version is the same has not been written.\<close>

lemma same_version_same_entry:
  "inv s \<Longrightarrow> \<forall>op \<in> List.set ops. \<not> deletes n k op \<Longrightarrow> version (fold apply_op ops s) n k = version s n k \<Longrightarrow>
   kget (fold apply_op ops s) n k = kget s n k"
proof (induction ops arbitrary: s)
  case (Cons op ops)
  note st = apply_op_version [OF Cons.prems(1), of n k op]
  have nd: "\<not> deletes n k op" "\<forall>op \<in> List.set ops. \<not> deletes n k op" using Cons.prems(2) by auto
  have i: "inv (apply_op op s)" "version s n k \<le> version (apply_op op s) n k" using st nd(1) by simp_all
  have v: "version (apply_op op s) n k = version s n k"
    using ops_version [OF i(1) nd(2)] i(2) Cons.prems(3) by simp
  have "kget (apply_op op s) n k = kget s n k"
  proof (cases op)
    case (KSet n' k' x ev)
    show ?thesis
    proof (cases "(n, k) = (n', k')")
      case True
      then have "version s n' k' \<noteq> ev" using v version_set [OF Cons.prems(1), of n' k' x ev n k] KSet by auto
      then have "kset s n' k' x ev = (s, Inl ErrVersionConflict)"
        using set_conflict [OF Cons.prems(1)] unfolding version_def by blast
      then show ?thesis by (simp add: KSet)
    next
      case False
      then show ?thesis using set_other [OF Cons.prems(1) False] KSet by simp
    qed
  next
    case (KDelete n' k' ev)
    then show ?thesis using nd(1) delete_other [OF Cons.prems(1), of n k n' k' ev] by auto
  qed
  moreover have "kget (fold apply_op ops (apply_op op s)) n k = kget (apply_op op s) n k"
    using Cons.IH [OF i(1) nd(2)] v Cons.prems(3) by simp
  ultimately show ?case by simp
qed simp

end

text \<open>What others did before a call, and others that never delete the key.\<close>

definition after_others :: "interference list \<Rightarrow> gval store \<times> int \<Rightarrow> gval store \<times> int" where
  "after_others used st = fold (\<lambda>i. fst i) used st"

definition spares :: "string \<Rightarrow> interference \<Rightarrow> bool" where
  "spares key i \<longleftrightarrow> (\<exists>ops. (\<forall>s t. fst (fst i (s, t)) = fold standalone.apply_op ops s) \<and>
     (\<forall>op \<in> set ops. \<not> deletes NamespaceSystem key op))"

lemma after_others_append: "after_others (xs @ ys) st = after_others ys (after_others xs st)"
  by (simp add: after_others_def)

lemma spares_ops:
  "\<forall>i \<in> set used. spares key i \<Longrightarrow>
   \<exists>ops. fst (after_others used (s, t)) = fold standalone.apply_op ops s \<and> (\<forall>op \<in> set ops. \<not> deletes NamespaceSystem key op)"
proof (induction used arbitrary: s t)
  case Nil
  then show ?case by (intro exI [of _ "[]"]) (simp add: after_others_def)
next
  case (Cons i used)
  obtain ops1 where o1: "\<forall>s t. fst (fst i (s, t)) = fold standalone.apply_op ops1 s"
    "\<forall>op \<in> set ops1. \<not> deletes NamespaceSystem key op" using Cons.prems by (auto simp: spares_def)
  obtain s1 t1 where st: "fst i (s, t) = (s1, t1)" by force
  obtain ops2 where o2: "fst (after_others used (s1, t1)) = fold standalone.apply_op ops2 s1"
    "\<forall>op \<in> set ops2. \<not> deletes NamespaceSystem key op" using Cons.IH [of s1 t1] Cons.prems by auto
  have "s1 = fold standalone.apply_op ops1 s" using o1(1) st by (metis fst_conv)
  then show ?case using o1(2) o2 st by (intro exI [of _ "ops1 @ ops2"]) (auto simp: after_others_def)
qed

lemma spared_entry:
  assumes "store_inv s" and "\<forall>i \<in> set used. spares key i" and "fst (after_others used (s, t)) = s'"
  shows "store_inv s'" and "current s' NamespaceSystem key = current s NamespaceSystem key \<Longrightarrow>
    Get s' NamespaceSystem key = Get s NamespaceSystem key"
    and "current s NamespaceSystem key \<le> current s' NamespaceSystem key"
proof -
  obtain ops where o: "s' = fold standalone.apply_op ops s" "\<forall>op \<in> set ops. \<not> deletes NamespaceSystem key op"
    using spares_ops [OF assms(2), of s t] assms(3) by auto
  have c: "standalone.version s NamespaceSystem key = current s NamespaceSystem key" for s
    by (simp add: standalone.version_def current_def)
  show "store_inv s'" using standalone.ops_version [OF assms(1) o(2)] o(1) by simp
  show "Get s' NamespaceSystem key = Get s NamespaceSystem key"
    if "current s' NamespaceSystem key = current s NamespaceSystem key"
    using standalone.same_version_same_entry [OF assms(1) o(2)] that o(1) by (simp add: c)
  show "current s NamespaceSystem key \<le> current s' NamespaceSystem key"
    using standalone.ops_version [OF assms(1) o(2)] o(1) by (simp add: c)
qed

lemma others_actD:
  assumes "others_act w = (w1, f)"
  obtains used where "others w = used @ others w1" and "(kv w1, clock w1) = after_others used (kv w, clock w)"
    and "heap w1 = heap w" and "hp w1 = hp w" and "entropy w1 = entropy w"
  using assms by (auto simp: others_act_def after_others_def split: list.splits prod.splits)

text \<open>Evaluating expressions reads the message and does not reach the store.\<close>

lemma read_only_trans: "read_only w m w1 \<Longrightarrow> read_only w1 m w2 \<Longrightarrow> read_only w m w2"
  by (auto simp: read_only_def intro: frames_trans [OF _ owned_self])

lemma read_only_live: "m < hp w \<Longrightarrow> read_only w m w' \<Longrightarrow> m < hp w'"
  using frames_grow by (fastforce simp: read_only_def)

lemma withGroup_ro: "withGroup g w m = (w', s) \<Longrightarrow> m < hp w \<Longrightarrow> read_only w m w'"
  by (rule withGroup_read_only)

lemma accumulate_ro: "accumulate a g w m = (w', r) \<Longrightarrow> m < hp w \<Longrightarrow> read_only w m w'"
  by (auto simp: accumulate_def split: option.splits prod.splits sum.splits dest: withGroup_ro)

lemma learnSize_ro: "learnSize a g w m = (w', r) \<Longrightarrow> m < hp w \<Longrightarrow> read_only w m w'"
  by (auto simp: learnSize_def split: if_splits prod.splits sum.splits dest: withGroup_ro)

lemma checkExpression_ro: "checkExpression a g w m = (w', r) \<Longrightarrow> m < hp w \<Longrightarrow> read_only w m w'"
  by (auto simp: checkExpression_def split: option.splits prod.splits sum.splits dest: withGroup_ro)

lemma applyMessage_ro:
  assumes "applyMessage a g w m = (w', r)" and "m < hp w"
  shows "read_only w m w'"
proof -
  obtain w1 r1 where 1: "accumulate a g w m = (w1, r1)" by force
  note a1 = accumulate_ro [OF 1 assms(2)]
  show ?thesis
  proof (cases r1)
    case (Inr acc)
    define g1 where "g1 = g\<lparr>gs_Acc := acc, gs_Count := gs_Count g + 1, gs_LastAt := clock w1\<rparr>"
    obtain w2 r2 where 2: "learnSize a (g1\<lparr>gs_Deadline := deadline a g1\<rparr>) w1 m = (w2, r2)" by force
    note a2 = read_only_trans [OF a1 learnSize_ro [OF 2 read_only_live [OF assms(2) a1]]]
    show ?thesis
    proof (cases r2)
      case (Inr g3)
      obtain w3 r3 where 3: "checkExpression a g3 w2 m = (w3, r3)" by force
      note a3 = read_only_trans [OF a2 checkExpression_ro [OF 3 read_only_live [OF assms(2) a2]]]
      show ?thesis using assms(1) 1 2 3 \<open>r1 = Inr acc\<close> Inr a2 a3
        by (auto simp: applyMessage_def Let_def g1_def split: if_splits sum.splits)
    qed (use assms(1) 1 2 \<open>r1 = Inr acc\<close> a2 in \<open>auto simp: applyMessage_def Let_def g1_def\<close>)
  qed (use assms(1) 1 a1 in \<open>auto simp: applyMessage_def\<close>)
qed

text \<open>
  The atomic step a fold amounts to, on the store \<open>s\<close> it took effect on: the message \<open>mm\<close> is
  folded onto the group stored there, and the group is replaced or taken out.
\<close>

definition folds_onto ::
  "('a agg_world_scheme) aggregate \<Rightarrow> string \<Rightarrow> string \<Rightarrow> addr \<Rightarrow> message \<Rightarrow> gval store \<Rightarrow>
   (group_state \<times> reason) option \<Rightarrow> 'a agg_world_scheme \<Rightarrow> bool" where
  "folds_onto a key h m mm s res w' \<longleftrightarrow>
     (\<exists>w1 w2 w3 b g g' why.
        heap w1 m = mm\<lparr>bodyShared := b\<rparr> \<and>
        loadGroup key (Get s NamespaceSystem (groupStateKey a h)) w1 m = Inr g \<and>
        applyMessage a g w1 m = (w2, Inr (g', why)) \<and> res = map_option (\<lambda>r. (g', r)) why \<and>
        (case why of
           None \<Rightarrow> \<exists>doc. encode_group g' = Some doc \<and>
             w' = trackGroup a h g' (w3\<lparr>kv := fst (store_write s NamespaceSystem (groupStateKey a h) doc
                    (current s NamespaceSystem (groupStateKey a h)))\<rparr>)
         | Some _ \<Rightarrow>
             w' = forgetGroup a h (w3\<lparr>kv := fst (Delete s NamespaceSystem (groupStateKey a h)
                    (current s NamespaceSystem (groupStateKey a h)))\<rparr>)))"

lemma kv_GetD:
  assumes "kv_Get w key = (w1, Inr found)"
  obtains used where "others w = used @ others w1" "(kv w1, clock w1) = after_others used (kv w, clock w)"
    "heap w1 = heap w" "hp w1 = hp w" "found = Get (kv w1) NamespaceSystem key"
proof -
  obtain w0 f where o: "others_act w = (w0, f)" by force
  with assms have "w0 = w1" "found = Get (kv w1) NamespaceSystem key"
    by (auto simp: kv_Get_def split: option.splits)
  with others_actD [OF o] that show ?thesis by metis
qed

text \<open>A write or delete that went through, or was refused.\<close>

lemma kv_SetD:
  assumes "kv_Set w key d v = (w1, r)" and "r = Inr () \<or> r = Inl Conflict"
  obtains used w0 where "others w = used @ others w0" "(kv w0, clock w0) = after_others used (kv w, clock w)"
    "heap w0 = heap w" "hp w0 = hp w"
    "r = Inr () \<longrightarrow> current (kv w0) NamespaceSystem key = v \<and> w1 = w0\<lparr>kv := fst (store_write (kv w0) NamespaceSystem key d v)\<rparr>"
    "r = Inl Conflict \<longrightarrow> w1 = w0"
proof -
  obtain w0 f where o: "others_act w = (w0, f)" by force
  have f: "f = None" using assms o by (auto simp: kv_Set_def split: option.splits)
  have "r = Inr () \<longrightarrow> current (kv w0) NamespaceSystem key = v \<and> w1 = w0\<lparr>kv := fst (store_write (kv w0) NamespaceSystem key d v)\<rparr>"
    using assms o f Get_write(2) [of "kv w0" NamespaceSystem key d v]
    by (cases "store_write (kv w0) NamespaceSystem key d v") (auto simp: kv_Set_def split: sum.splits kv_error.splits if_splits)
  moreover have "r = Inl Conflict \<longrightarrow> w1 = w0"
    using assms o f Get_write(2) [of "kv w0" NamespaceSystem key d v] Get_write(3) [of "kv w0" NamespaceSystem key v d]
    by (cases "store_write (kv w0) NamespaceSystem key d v") (auto simp: kv_Set_def split: sum.splits kv_error.splits if_splits)
  ultimately show ?thesis using others_actD [OF o] that by metis
qed

lemma kv_DeleteD:
  assumes "kv_Delete w key v = (w1, r)" and "r = Inr () \<or> r = Inl Conflict" and "v \<noteq> 0"
  obtains used w0 where "others w = used @ others w0" "(kv w0, clock w0) = after_others used (kv w, clock w)"
    "heap w0 = heap w" "hp w0 = hp w"
    "r = Inr () \<longrightarrow> Get (kv w0) NamespaceSystem key = None \<or> current (kv w0) NamespaceSystem key = v"
    "r = Inr () \<longrightarrow> w1 = w0\<lparr>kv := fst (Delete (kv w0) NamespaceSystem key v)\<rparr>" "r = Inl Conflict \<longrightarrow> w1 = w0"
proof -
  obtain w0 f where o: "others_act w = (w0, f)" by force
  have f: "f = None" using assms o by (auto simp: kv_Delete_def split: option.splits)
  have "r = Inr () \<longrightarrow> (Get (kv w0) NamespaceSystem key = None \<or> current (kv w0) NamespaceSystem key = v) \<and>
      w1 = w0\<lparr>kv := fst (Delete (kv w0) NamespaceSystem key v)\<rparr>"
    using assms o f Get_Delete(2) [of "kv w0" NamespaceSystem key v]
    by (cases "Delete (kv w0) NamespaceSystem key v") (auto simp: kv_Delete_def split: sum.splits kv_error.splits if_splits)
  moreover have "r = Inl Conflict \<longrightarrow> w1 = w0"
    using assms o f Get_Delete(2) [of "kv w0" NamespaceSystem key v] Get_Delete(3) [of "kv w0" NamespaceSystem key v]
    by (cases "Delete (kv w0) NamespaceSystem key v") (auto simp: kv_Delete_def split: sum.splits kv_error.splits if_splits)
  ultimately show ?thesis using others_actD [OF o] that by metis
qed

text \<open>One attempt: it takes effect on the store as others left it, or it changes nothing.\<close>

lemma commit_attempt:
  assumes inv: "store_inv (kv w2)" and sp: "\<forall>i \<in> set (others w2). spares (groupStateKey a h) i"
    and found: "found = Get (kv w2) NamespaceSystem (groupStateKey a h)"
    and run: "(case why of Some _ \<Rightarrow> commitComplete a h found w2 | None \<Rightarrow> commitOpen a h found g' w2) = (w3, Inr lost)"
  obtains used w0 where "others w2 = used @ others w0" "(kv w0, clock w0) = after_others used (kv w2, clock w2)"
    "heap w0 = heap w2" "hp w0 = hp w2"
    "lost \<longrightarrow> w3 = w0"
    "\<not> lost \<longrightarrow> Get (kv w0) NamespaceSystem (groupStateKey a h) = found"
    "\<not> lost \<longrightarrow> (case why of
         None \<Rightarrow> \<exists>doc. encode_group g' = Some doc \<and> w3 = trackGroup a h g'
           (w0\<lparr>kv := fst (store_write (kv w0) NamespaceSystem (groupStateKey a h) doc
              (current (kv w0) NamespaceSystem (groupStateKey a h)))\<rparr>)
       | Some _ \<Rightarrow> w3 = forgetGroup a h (w0\<lparr>kv := fst (Delete (kv w0) NamespaceSystem (groupStateKey a h)
              (current (kv w0) NamespaceSystem (groupStateKey a h)))\<rparr>))"
proof -
  let ?k = "groupStateKey a h"
  have cur: "(case found of None \<Rightarrow> 0 | Some en \<Rightarrow> Version en) = current (kv w2) NamespaceSystem ?k"
    by (simp add: found current_def)
  have keep: "Get (kv w0) NamespaceSystem ?k = found"
    if "others w2 = used @ others w0" "(kv w0, clock w0) = after_others used (kv w2, clock w2)"
      "current (kv w0) NamespaceSystem ?k = current (kv w2) NamespaceSystem ?k" for used w0
    using spared_entry(2) [OF inv, of used ?k "clock w2" "kv w0"] sp that unfolding found by (metis UnCI fst_conv set_append)
  show ?thesis
  proof (cases why)
    case None
    obtain doc where d: "encode_group g' = Some doc"
      using run None by (auto simp: commitOpen_def split: option.splits)
    obtain w1 r where s: "kv_Set w2 ?k doc (current (kv w2) NamespaceSystem ?k) = (w1, r)" by force
    have r: "r = Inr () \<or> r = Inl Conflict" "lost \<longleftrightarrow> r = Inl Conflict"
        "w3 = (if lost then w1 else trackGroup a h g' w1)"
      using run None d s by (auto simp: commitOpen_def cur split: sum.splits kv_failure.splits)
    obtain used w0 where w0: "others w2 = used @ others w0" "(kv w0, clock w0) = after_others used (kv w2, clock w2)"
      "heap w0 = heap w2" "hp w0 = hp w2"
      "r = Inr () \<longrightarrow> current (kv w0) NamespaceSystem ?k = current (kv w2) NamespaceSystem ?k \<and>
         w1 = w0\<lparr>kv := fst (store_write (kv w0) NamespaceSystem ?k doc (current (kv w2) NamespaceSystem ?k))\<rparr>"
      "r = Inl Conflict \<longrightarrow> w1 = w0" by (rule kv_SetD [OF s r(1)])
    show ?thesis
      by (rule that [OF w0(1-4)]) (use r w0 keep [OF w0(1,2)] None d in auto)
  next
    case (Some x)
    show ?thesis
    proof (cases found)
      case None
      then have "\<not> lost" "w3 = forgetGroup a h w2" using run Some by (auto simp: commitComplete_def)
      moreover have "fst (Delete (kv w2) NamespaceSystem ?k v) = kv w2" for v
        using None found by (simp add: Delete_def Get_def)
      ultimately show ?thesis using Some found by (intro that [of "[]" w2]) (simp_all add: after_others_def)
    next
      case (Some en)
      have v: "Version en = current (kv w2) NamespaceSystem ?k" "Version en \<noteq> 0"
        using cur Some store_inv_positive [OF inv, of NamespaceSystem ?k en] found by auto
      obtain w1 r where s: "kv_Delete w2 ?k (Version en) = (w1, r)" by force
      have r: "r = Inr () \<or> r = Inl Conflict" "lost \<longleftrightarrow> r = Inl Conflict" "w3 = (if lost then w1 else forgetGroup a h w1)"
        using run Some s \<open>why = Some x\<close> by (auto simp: commitComplete_def split: sum.splits kv_failure.splits)
      obtain used w0 where w0: "others w2 = used @ others w0" "(kv w0, clock w0) = after_others used (kv w2, clock w2)"
        "heap w0 = heap w2" "hp w0 = hp w2"
        "r = Inr () \<longrightarrow> Get (kv w0) NamespaceSystem ?k = None \<or> current (kv w0) NamespaceSystem ?k = Version en"
        "r = Inr () \<longrightarrow> w1 = w0\<lparr>kv := fst (Delete (kv w0) NamespaceSystem ?k (Version en))\<rparr>" "r = Inl Conflict \<longrightarrow> w1 = w0"
        by (rule kv_DeleteD [OF s r(1) v(2)])
      have "0 < current (kv w2) NamespaceSystem ?k" using v store_inv_positive [OF inv, of NamespaceSystem ?k en] Some found by simp
      moreover have "current (kv w2) NamespaceSystem ?k \<le> current (kv w0) NamespaceSystem ?k"
        using spared_entry(3) [OF inv, of used ?k "clock w2" "kv w0"] sp w0(1,2) by (metis UnCI fst_conv set_append)
      ultimately have c: "r = Inr () \<longrightarrow> current (kv w0) NamespaceSystem ?k = Version en"
        using w0(5) by (auto simp: current_def split: option.splits)
      show ?thesis
        by (rule that [OF w0(1-4)]) (use r w0 c keep [OF w0(1,2)] v \<open>why = Some x\<close> in auto)
    qed
  qed
qed

lemma fold_loop_atomic:
  assumes "foldLocked_loop n a key h w m = (w', Inr res)" and "m < hp w" and "store_inv (kv w)"
    and "\<forall>i \<in> set (others w). spares (groupStateKey a h) i"
  shows "\<exists>used rest. others w = used @ rest \<and>
    folds_onto a key h m (heap w m) (fst (after_others used (kv w, clock w))) res w'"
  using assms
proof (induction n arbitrary: w)
  case (Suc n)
  let ?k = "groupStateKey a h"
  obtain w1 found where "kv_Get w ?k = (w1, Inr found)" using Suc.prems(1) by (auto split: prod.splits sum.splits)
  then obtain u1 where g1: "kv_Get w ?k = (w1, Inr found)" "others w = u1 @ others w1"
    "(kv w1, clock w1) = after_others u1 (kv w, clock w)" "heap w1 = heap w" "hp w1 = hp w" "found = Get (kv w1) NamespaceSystem ?k"
    by (metis kv_GetD)
  obtain g where ld: "loadGroup key found w1 m = Inr g" using Suc.prems(1) g1(1) by (auto split: sum.splits)
  obtain w2 g' why where ap: "applyMessage a g w1 m = (w2, Inr (g', why))"
    using Suc.prems(1) g1(1) ld by (auto split: sum.splits prod.splits)
  have ro: "read_only w1 m w2" using applyMessage_ro [OF ap] Suc.prems(2) g1(5) by simp
  define com where "com = (case why of Some _ \<Rightarrow> commitComplete a h found w2 | None \<Rightarrow> commitOpen a h found g' w2)"
  have "\<exists>w3 lost. com = (w3, Inr lost)"
    using Suc.prems(1) g1(1) ld ap by (cases com) (auto simp: com_def [symmetric] split: sum.splits)
  then obtain w3 lost where c: "com = (w3, Inr lost)" by blast
  have i1: "store_inv (kv w1)" "\<forall>i \<in> set (others w1). spares ?k i"
    using spared_entry(1) [OF Suc.prems(3), of u1 ?k "clock w" "kv w1"] Suc.prems(4) g1(2,3) by (auto, metis UnCI fst_conv)
  have i2: "store_inv (kv w2)" "\<forall>i \<in> set (others w2). spares ?k i" "found = Get (kv w2) NamespaceSystem ?k"
    using i1 g1(6) ro by (simp_all add: read_only_def)
  obtain u2 w0 where w0: "others w2 = u2 @ others w0" "(kv w0, clock w0) = after_others u2 (kv w2, clock w2)"
    "heap w0 = heap w2" "hp w0 = hp w2" and lost: "lost \<longrightarrow> w3 = w0"
    and kept: "\<not> lost \<longrightarrow> Get (kv w0) NamespaceSystem ?k = found"
    and done': "\<not> lost \<longrightarrow> (case why of
         None \<Rightarrow> \<exists>doc. encode_group g' = Some doc \<and> w3 = trackGroup a h g'
           (w0\<lparr>kv := fst (store_write (kv w0) NamespaceSystem ?k doc (current (kv w0) NamespaceSystem ?k))\<rparr>)
       | Some _ \<Rightarrow> w3 = forgetGroup a h (w0\<lparr>kv := fst (Delete (kv w0) NamespaceSystem ?k (current (kv w0) NamespaceSystem ?k))\<rparr>))"
    by (rule commit_attempt [OF i2 c [unfolded com_def]])
  have oth: "others w = (u1 @ u2) @ others w0" using g1(2) w0(1) ro by (simp add: read_only_def)
  have af: "after_others (u1 @ u2) (kv w, clock w) = (kv w0, clock w0)"
    using g1(3) w0(2) ro by (simp add: after_others_append read_only_def)
  obtain b where b: "heap w0 m = (heap w m)\<lparr>bodyShared := b\<rparr>" using ro g1(4) w0(3) by (auto simp: read_only_def)
  show ?case
  proof (cases lost)
    case True
    then have "foldLocked_loop n a key h w0 m = (w', Inr res)"
      using Suc.prems(1) g1(1) ld ap c lost by (simp add: com_def)
    moreover have "m < hp w0" using Suc.prems(2) g1(5) ro w0(4) frames_grow by (fastforce simp: read_only_def)
    moreover have "store_inv (kv w0)" "\<forall>i \<in> set (others w0). spares ?k i"
      using spared_entry(1) [OF Suc.prems(3), of "u1 @ u2" ?k "clock w" "kv w0"] Suc.prems(4) oth af by auto
    ultimately obtain u3 rest where u3: "others w0 = u3 @ rest"
      "folds_onto a key h m (heap w0 m) (fst (after_others u3 (kv w0, clock w0))) res w'" using Suc.IH by blast
    have "folds_onto a key h m (heap w m) (fst (after_others u3 (kv w0, clock w0))) res w'"
      using u3(2) unfolding folds_onto_def b by auto
    moreover have "after_others (u1 @ u2 @ u3) (kv w, clock w) = after_others u3 (kv w0, clock w0)"
      using af by (simp add: after_others_append)
    ultimately show ?thesis using oth u3(1) by (intro exI [of _ "u1 @ u2 @ u3"] exI [of _ rest]) simp
  next
    case False
    then have w': "w' = w3" "res = map_option (\<lambda>r. (g', r)) why"
      using Suc.prems(1) g1(1) ld ap c by (simp_all add: com_def)
    have "heap w1 m = (heap w m)\<lparr>bodyShared := bodyShared (heap w m)\<rparr>" using g1(4) by simp
    then have "folds_onto a key h m (heap w m) (kv w0) res w'"
      unfolding folds_onto_def w'(1) using w'(2) ld ap kept done' False
      by (rule_tac x = w1 in exI, rule_tac x = w2 in exI, rule_tac x = w0 in exI,
          rule_tac x = "bodyShared (heap w m)" in exI, rule_tac x = g in exI, rule_tac x = g' in exI,
          rule_tac x = why in exI) simp
    then show ?thesis using oth af by (intro exI [of _ "u1 @ u2"] exI [of _ "others w0"]) simp
  qed
qed simp

text \<open>
  C8. A fold loses no update: whatever other replicas write between the calls of the handler,
  short of deleting the group, a fold that reports success took effect once, atomically, on
  the group exactly as it was stored at that moment: the message is folded onto it, and it is
  replaced by the result or, when that completes it, taken out.
\<close>

theorem fold_loses_no_update:
  assumes "foldLocked a key h w m = (w', Inr res)" and "m < hp w" and "store_inv (kv w)"
    and "\<forall>i \<in> set (others w). spares (groupStateKey a h) i"
  shows "\<exists>used rest. others w = used @ rest \<and>
    folds_onto a key h m (heap w m) (fst (after_others used (kv w, clock w))) res w'"
  using fold_loop_atomic assms unfolding foldLocked_def by blast

lemma sample_fold:
  obtains w' where "foldLocked (default_aggregate id (\<lambda>_. []) ''f.agg'') ''e'' ''e'' sample_agg_world 0 = (w', Inr None)"
proof -
  let ?a = "default_aggregate id (\<lambda>_. []) ''f.agg'' :: agg_world aggregate" and ?w = sample_agg_world
  have s: "sound_case sample_case"
    by (auto simp: sound_case_def sample_case_def maxPositionedIndex_def announces_def maxCopyDepth_def sizeUnknown_def
        less_Suc_eq numeral_2_eq_2)
  have k: "ag_hash ?a (gc_key sample_case) = ''e''" "gc_key sample_case = ''e''" "gc_at sample_case 0 = 0"
      "length (gc_bodies sample_case) = 2"
    by (simp_all add: default_aggregate_def sample_case_def)
  obtain g where ld: "loadGroup ''e'' (Get (kv ?w) NamespaceSystem (groupStateKey ?a ''e'')) ?w 0 = Inr g"
    and g: "gc_partial sample_case [] g"
    using gathering_load [OF sample_gathering s, of 0 id "\<lambda>_. []" "''f.agg''"] k by auto
  have el: "gc_element sample_case 0 (heap ?w 0)"
    using sample_elements [of 0] k(3) by simp
  have an: "announces (length (gc_bodies sample_case)) (gc_size sample_case)"
    "int (length (gc_bodies sample_case)) \<le> maxPositionedIndex" using s by (simp_all add: sound_case_def)
  note f = fold_state_element [OF g el an(1) _ an(2), of ?a "clock ?w"]
  have full: "full (fold_state ?a (clock ?w) (heap ?w 0) g) = None"
    using full_iff_all [OF f(1) an(1)] k by simp
  have e: "encodable (gs_Acc (fold_state ?a (clock ?w) (heap ?w 0) g))"
    using f(2) k by (simp add: arrived_def sample_case_def)
  have "quiet ?w" "0 < hp ?w" "index_at ?a (kv ?w) []"
    by (simp_all add: quiet_def sample_agg_world_def index_at_def Get_new)
  from by_default.foldLocked_open [OF this ld full e] that show ?thesis by metis
qed

theorem fold_loses_no_update_witness:
  "\<exists>w' used rest. foldLocked (default_aggregate id (\<lambda>_. []) ''f.agg'') ''e'' ''e'' sample_agg_world 0 = (w', Inr None) \<and>
     others sample_agg_world = used @ rest \<and>
     folds_onto (default_aggregate id (\<lambda>_. []) ''f.agg'') ''e'' ''e'' 0 (sample_element 0) (newStore None) None w'"
proof -
  obtain w' where f: "foldLocked (default_aggregate id (\<lambda>_. []) ''f.agg'') ''e'' ''e'' sample_agg_world 0 = (w', Inr None)"
    by (rule sample_fold)
  have "0 < hp sample_agg_world" "store_inv (kv sample_agg_world)"
    by (simp_all add: sample_agg_world_def store_inv_def Get_new)
  from fold_loses_no_update [OF f this] f show ?thesis
    by (auto simp: sample_agg_world_def after_others_def)
qed

end
