(* ===== verification/Octo_Timeouts.thy ===== *)
theory Octo_Timeouts
  imports Octo_Groups
begin

text \<open>
  The paths of an aggregate that run without a message in hand: the sweep of timed-out groups,
  the release of the oldest group, and the cap on how many groups are open.
\<close>

section \<open>The sweep\<close>

text \<open>A continuation that accepts everything and keeps what it was handed.\<close>

record mail_world = agg_world +
  mail :: "message list"

definition keep_mail :: "('a mail_world_scheme) cont" where
  "keep_mail c w m = (w\<lparr>mail := mail w @ [heap w m]\<rparr>, None)"

text \<open>The message a stored group leaves as.\<close>

definition released_as :: "group_state \<Rightarrow> reason \<Rightarrow> message \<Rightarrow> bool" where
  "released_as g why m \<longleftrightarrow>
     Body m = gs_Acc g \<and> CorrelationID m = gs_CorrelationID g \<and> TraceID m = gs_TraceID g \<and>
     Variables m varAggregateKey = Some (GStr (gs_Key g)) \<and>
     Variables m varAggregateCount = Some (GInt (gs_Count g)) \<and>
     Variables m varAggregateReason = Some (GStr (reason_text why)) \<and> Variables m varGroupID = None"

definition group_at :: "'w aggregate \<Rightarrow> gval store \<Rightarrow> string \<Rightarrow> gval entry option" where
  "group_at a s h = Get s NamespaceSystem (groupStateKey a h)"

text \<open>One step of the sweep: only the group it is about can go, and then it was handed over.\<close>

definition swept ::
  "('a mail_world_scheme) aggregate \<Rightarrow> string set \<Rightarrow> 'a mail_world_scheme \<Rightarrow> 'a mail_world_scheme \<Rightarrow> bool" where
  "swept a H w w' \<longleftrightarrow> quiet w' \<and> clock w' = clock w \<and> (\<exists>idx. index_at a (kv w') idx) \<and>
     (\<forall>h. h \<notin> H \<longrightarrow> group_at a (kv w') h = group_at a (kv w) h) \<and>
     (\<exists>new. mail w' = mail w @ new) \<and> (\<exists>n \<le> card H. entropy w' = drop n (entropy w))"

lemma mail_names [simp]:
  "varAggregateKey \<noteq> varAggregateCount" "varAggregateKey \<noteq> varAggregateReason" "varAggregateCount \<noteq> varAggregateReason"
  "traceVar \<noteq> varAggregateKey" "traceVar \<noteq> varAggregateCount" "traceVar \<noteq> varAggregateReason"
  "varGroupID \<noteq> varAggregateKey" "varGroupID \<noteq> varAggregateCount" "varGroupID \<noteq> varAggregateReason" "varGroupID \<noteq> traceVar"
  by (simp_all add: varAggregateKey_def varAggregateCount_def varAggregateReason_def traceVar_def internalVarPrefix_def
      varGroupID_def)

lemma release_mail:
  assumes "entropy w = Some buf # rest"
  obtains w' mm where "release keep_mail c g why w = (w', None)" and "kv w' = kv w" and "clock w' = clock w"
    and "others w' = others w" and "mail w' = mail w @ [mm]" and "released_as g why mm" and "entropy w' = rest"
proof -
  have "\<exists>w' mm. release keep_mail c g why w = (w', None) \<and> kv w' = kv w \<and> clock w' = clock w \<and> others w' = others w \<and>
      mail w' = mail w @ [mm] \<and> released_as g why mm \<and> entropy w' = rest"
    by (auto simp: release_def NewMessage_def newEventID_def assms alloc_def keep_mail_def upd_def released_as_def
        SetTraceID_def SetVar_def var_Set_def SetBody_def TraceID_def var_String_def split: if_splits)
  then show ?thesis using that by blast
qed

lemma swept_forget:
  assumes "quiet w" and "index_at a (kv w) idx"
  shows "swept a H w (forgetGroup a h w)" and "group_at a (kv (forgetGroup a h w)) h' = group_at a (kv w) h'"
    and "mail (forgetGroup a h w) = mail w" and "entropy (forgetGroup a h w) = entropy w"
    and "others (forgetGroup a h w) = others w" and "clock (forgetGroup a h w) = clock w"
proof -
  obtain s where s: "forgetGroup a h w = w\<lparr>kv := s\<rparr>" "index_at a s (AList.delete h idx)"
    "differ_at (indexKey a) (kv w) s" by (rule forgetGroup_quiet [OF assms])
  have g: "group_at a s h' = group_at a (kv w) h'" for h'
    unfolding group_at_def by (rule differ_at_other [OF s(3)]) simp
  then show "group_at a (kv (forgetGroup a h w)) h' = group_at a (kv w) h'" using s(1) by simp
  show "swept a H w (forgetGroup a h w)"
    unfolding swept_def s(1) using assms(1) s(2) g by (auto intro: exI [of _ 0])
  show "mail (forgetGroup a h w) = mail w" "entropy (forgetGroup a h w) = entropy w"
    "others (forgetGroup a h w) = others w" "clock (forgetGroup a h w) = clock w"
    using s(1) by simp_all
qed

lemma takeStored_quiet:
  assumes "quiet w" and "index_at a (kv w) idx"
    and "group_at a (kv w) h = Some en" and "decode_group zero_group (Value en) = Inr g"
  obtains w' where "takeStored a h w = (w', Inr (Some g))" and "swept a {h} w w'" and "group_at a (kv w') h = None"
    and "mail w' = mail w" and "entropy w' = entropy w"
proof -
  let ?k = "groupStateKey a h"
  define s0 where "s0 = fst (Delete (kv w) NamespaceSystem ?k (Version en))"
  let ?w = "w\<lparr>kv := s0\<rparr>"
  have k: "Get (kv w) NamespaceSystem ?k = Some en" using assms(3) by (simp add: group_at_def)
  have del: "kv_Delete w ?k (Version en) = (?w, Inr ())" unfolding s0_def by (rule quiet_calls(3) [OF assms(1) k])
  have d: "differ_at ?k (kv w) s0" unfolding s0_def by (rule differ_at_delete)
  have g0: "group_at a s0 h = None" using k by (simp add: group_at_def s0_def Get_Delete current_def)
  have go: "group_at a s0 h' = group_at a (kv w) h'" if "h' \<noteq> h" for h'
    unfolding group_at_def by (rule differ_at_other [OF d]) (use that in simp)
  have q: "quiet ?w" "index_at a (kv ?w) idx" using assms(1,2) index_at_other [OF d] by simp_all
  note F = swept_forget [OF q, where h = h]
  have "takeStored a h w = (forgetGroup a h ?w, Inr (Some g))"
    by (simp add: takeStored_def quiet_calls(1) [OF assms(1)] k assms(4) del)
  moreover have "swept a {h} w (forgetGroup a h ?w)"
    using F(1) [of "{h}"] F(2) go by (simp add: swept_def)
  ultimately show ?thesis using that [of "forgetGroup a h ?w"] F(2) [of h] F(3,4) g0 by simp
qed

lemma swept_trans:
  assumes "swept a {h} w w1" and "swept a H w1 w2" and "finite H" and "h \<notin> H"
  shows "swept a (insert h H) w w2"
proof -
  obtain n1 n2 where n: "n1 \<le> 1" "entropy w1 = drop n1 (entropy w)" "n2 \<le> card H" "entropy w2 = drop n2 (entropy w1)"
    using assms(1,2) by (auto simp: swept_def)
  then have "entropy w2 = drop (n1 + n2) (entropy w)" "n1 + n2 \<le> card (insert h H)"
    using assms(3,4) by (simp_all add: add.commute)
  then show ?thesis using assms(1,2) by (auto simp: swept_def)
qed

text \<open>Enough randomness for the messages a sweep makes.\<close>

definition fresh_ids :: "nat \<Rightarrow> 'a world_scheme \<Rightarrow> bool" where
  "fresh_ids n w \<longleftrightarrow> n \<le> length (entropy w) \<and> (\<forall>i < n. entropy w ! i \<noteq> None)"

lemma completeStored_quiet:
  assumes "quiet w" and "index_at a (kv w) idx"
    and "group_at a (kv w) h = Some en" and "decode_group zero_group (Value en) = Inr g" and "fresh_ids 1 w"
  obtains w' mm where "completeStored a keep_mail c h why w = (w', None)" and "swept a {h} w w'"
    and "group_at a (kv w') h = None" and "mail w' = mail w @ [mm]" and "released_as g why mm"
proof -
  obtain w1 where t: "takeStored a h w = (w1, Inr (Some g))" "swept a {h} w w1" "group_at a (kv w1) h = None"
    "mail w1 = mail w" "entropy w1 = entropy w" by (rule takeStored_quiet [OF assms(1-4)])
  obtain buf rest where "entropy w1 = Some buf # rest" using assms(5) t(5) by (cases "entropy w") (auto simp: fresh_ids_def)
  then obtain w' mm where r: "release keep_mail c g why w1 = (w', None)" "kv w' = kv w1" "clock w' = clock w1"
    "others w' = others w1" "mail w' = mail w1 @ [mm]" "released_as g why mm" "entropy w' = rest"
    by (rule release_mail)
  have "completeStored a keep_mail c h why w = (w', None)" by (simp add: completeStored_def t(1) deliver_def r(1))
  moreover have "\<exists>n \<le> card {h}. entropy w' = drop n (entropy w)"
    using \<open>entropy w1 = Some buf # rest\<close> t(5) r(7) by (intro exI [of _ 1]) simp
  then have "swept a {h} w w'" using t(2,4) r by (simp add: swept_def quiet_def)
  ultimately show ?thesis using that [of w' mm] t r by simp
qed

lemma completeStored_swept:
  assumes "quiet w" and "index_at a (kv w) idx" and "fresh_ids 1 w"
  shows "swept a {h} w (fst (completeStored a keep_mail c h why w))"
proof (cases "group_at a (kv w) h")
  case None
  then show ?thesis using swept_forget(1) [OF assms(1,2)]
    by (simp add: completeStored_def takeStored_def quiet_calls(1) [OF assms(1)] group_at_def)
next
  case (Some en)
  show ?thesis
  proof (cases "decode_group zero_group (Value en)")
    case (Inl e)
    with Some have "fst (completeStored a keep_mail c h why w) = w"
      by (simp add: completeStored_def takeStored_def quiet_calls(1) [OF assms(1)] group_at_def)
    then show ?thesis using assms(1,2) by (auto simp: swept_def intro: exI [of _ 0])
  next
    case (Inr g)
    obtain w' where "completeStored a keep_mail c h why w = (w', None)" "swept a {h} w w'"
      by (rule completeStored_quiet [OF assms(1,2) Some Inr assms(3), of c why])
    then show ?thesis by simp
  qed
qed

lemma reclaimStale_swept:
  assumes "quiet w" and "index_at a (kv w) idx"
  shows "swept a {h} w (reclaimStale a h w)"
    and "group_at a (kv (reclaimStale a h w)) h' = group_at a (kv w) h'"
proof -
  have i: "swept a {h} w w" using assms by (auto simp: swept_def intro: exI [of _ 0])
  show "swept a {h} w (reclaimStale a h w)"
    using swept_forget(1) [OF assms, of "{h}" h] i
    by (auto simp: reclaimStale_def quiet_calls(1) [OF assms(1)] split: option.split)
  show "group_at a (kv (reclaimStale a h w)) h' = group_at a (kv w) h'"
    using swept_forget(2) [OF assms, of h h']
    by (auto simp: reclaimStale_def quiet_calls(1) [OF assms(1)] split: option.split)
qed

lemma fresh_ids_drop: "fresh_ids n w \<Longrightarrow> entropy w' = drop k (entropy w) \<Longrightarrow> m + k \<le> n \<Longrightarrow> fresh_ids m w'"
  by (auto simp: fresh_ids_def)

text \<open>
  What a sweep over some entries at an instant does: the groups past their deadline are gone
  and were handed over, the others are as they were.
\<close>

definition sweep_done ::
  "('a mail_world_scheme) aggregate \<Rightarrow> int \<Rightarrow> group_index \<Rightarrow> 'a mail_world_scheme \<Rightarrow> 'a mail_world_scheme \<Rightarrow> bool" where
  "sweep_done a now es w w' \<longleftrightarrow>
     swept a (fst ` set es) w w' \<and>
     (\<forall>h e. (h, e) \<in> set es \<longrightarrow>
        (if ge_Deadline e = 0 \<or> now < ge_Deadline e then group_at a (kv w') h = group_at a (kv w) h
         else (\<forall>en g. group_at a (kv w) h = Some en \<longrightarrow> decode_group zero_group (Value en) = Inr g \<longrightarrow>
                 group_at a (kv w') h = None \<and>
                 (\<exists>mm \<in> set (drop (length (mail w)) (mail w')). released_as g ReasonTimeout mm))))"

lemma sweep_entries_quiet:
  "quiet w \<Longrightarrow> \<exists>idx. index_at a (kv w) idx \<Longrightarrow> distinct (map fst es) \<Longrightarrow> fresh_ids (length es) w \<Longrightarrow>
   sweep_done a now es w (sweep_entries a keep_mail c now es w)"
proof (induction es arbitrary: w)
  case Nil
  then show ?case by (auto simp: sweep_done_def swept_def intro: exI [of _ 0])
next
  case (Cons he es)
  obtain h e where he: "he = (h, e)" by force
  obtain idx where idx: "index_at a (kv w) idx" using Cons.prems(2) by blast
  have f1: "fresh_ids 1 w" using Cons.prems(4) by (auto simp: fresh_ids_def)
  let ?w1 = "if ge_Deadline e = 0 then reclaimStale a h w
        else if now < ge_Deadline e then w else fst (completeStored a keep_mail c h ReasonTimeout w)"
  have s1: "swept a {h} w ?w1"
    using reclaimStale_swept(1) [OF Cons.prems(1) idx] completeStored_swept [OF Cons.prems(1) idx f1] Cons.prems(1) idx
    by (auto simp: swept_def intro: exI [of _ 0])
  have nh: "h \<notin> fst ` set es" "distinct (map fst es)" using Cons.prems(3) he by (auto simp: image_iff)
  obtain k new1 where k: "k \<le> 1" "entropy ?w1 = drop k (entropy w)" and new1: "mail ?w1 = mail w @ new1"
    using s1 by (auto simp: swept_def)
  have q1: "quiet ?w1" "\<exists>idx. index_at a (kv ?w1) idx" using s1 by (simp_all add: swept_def)
  have fr: "fresh_ids (length es) ?w1" by (rule fresh_ids_drop [OF Cons.prems(4) k(2)]) (use k(1) he in simp)
  define w2 where "w2 = sweep_entries a keep_mail c now es ?w1"
  note IH = Cons.IH [OF q1 nh(2) fr, folded w2_def, unfolded sweep_done_def]
  have w2: "sweep_entries a keep_mail c now (he # es) w = w2" by (simp add: he w2_def)
  have sw: "swept a (insert h (fst ` set es)) w w2"
    by (rule swept_trans [OF s1 conjunct1 [OF IH] _ nh(1)]) simp
  obtain new2 where new2: "mail w2 = mail ?w1 @ new2" using conjunct1 [OF IH] by (auto simp: swept_def)
  have h2: "group_at a (kv w2) h = group_at a (kv ?w1) h" using conjunct1 [OF IH] nh(1) by (simp add: swept_def)
  show ?case
    unfolding w2 sweep_done_def
  proof (intro conjI allI impI)
    show "swept a (fst ` set (he # es)) w w2" using sw he by simp
    fix h' e' assume m: "(h', e') \<in> set (he # es)"
    show "if ge_Deadline e' = 0 \<or> now < ge_Deadline e' then group_at a (kv w2) h' = group_at a (kv w) h'
         else (\<forall>en g. group_at a (kv w) h' = Some en \<longrightarrow> decode_group zero_group (Value en) = Inr g \<longrightarrow>
                 group_at a (kv w2) h' = None \<and>
                 (\<exists>mm \<in> set (drop (length (mail w)) (mail w2)). released_as g ReasonTimeout mm))"
    proof (cases "(h', e') = (h, e)")
      case True
      show ?thesis
      proof (cases "ge_Deadline e = 0 \<or> now < ge_Deadline e")
        case True
        then show ?thesis using h2 \<open>(h', e') = (h, e)\<close> reclaimStale_swept(2) [OF Cons.prems(1) idx, of h h] by auto
      next
        case False
        then have w1: "?w1 = fst (completeStored a keep_mail c h ReasonTimeout w)" by simp
        have "group_at a (kv w2) h = None \<and> (\<exists>mm \<in> set (drop (length (mail w)) (mail w2)). released_as g ReasonTimeout mm)"
          if st: "group_at a (kv w) h = Some en" "decode_group zero_group (Value en) = Inr g" for en g
        proof -
          obtain x mm where "completeStored a keep_mail c h ReasonTimeout w = (x, None)" "group_at a (kv x) h = None"
            "mail x = mail w @ [mm]" "released_as g ReasonTimeout mm"
            by (rule completeStored_quiet [OF Cons.prems(1) idx st f1, of c ReasonTimeout])
          then show ?thesis using w1 h2 new2 by auto
        qed
        then show ?thesis using False True by auto
      qed
    next
      case False
      then have m': "(h', e') \<in> set es" using m he by auto
      then have "h' \<noteq> h" using nh(1) by force
      then have g1: "group_at a (kv ?w1) h' = group_at a (kv w) h'" using s1 by (simp add: swept_def)
      have "set (drop (length (mail ?w1)) (mail w2)) \<subseteq> set (drop (length (mail w)) (mail w2))"
        using new1 new2 by auto
      then show ?thesis using conjunct2 [OF IH] m' g1 by (auto split: if_splits) blast+
    qed
  qed
qed


definition sample_mail_world :: mail_world where
  "sample_mail_world = \<lparr>heap = sample_element, hp = 2, entropy = [Some []], deliveries = [], panic_count = 0,
     kv = fst (store_write (fst (store_write (newStore None) NamespaceSystem ''aggregate/s/g/h''
            (GMap (group_fields (zero_group\<lparr>gs_Key := ''k'', gs_Acc := GStr ''half''\<rparr>))) 0))
          NamespaceSystem ''aggregate/s/index'' (encode_index [(''h'', \<lparr>ge_FirstAt = 1, ge_Deadline = 3\<rparr>)]) 0),
     clock = 5, others = [], mail = []\<rparr>"


section \<open>The oldest group\<close>

text \<open>The order in which groups give way: by when they opened, then by hash.\<close>

definition older :: "string \<times> int \<Rightarrow> string \<times> int \<Rightarrow> bool" where
  "older x y \<longleftrightarrow> snd x < snd y \<or> snd x = snd y \<and> bytes_less (fst x) (fst y)"

lemma bytes_less_irrefl [simp]: "\<not> bytes_less s s"
  by (induction s) auto

lemma bytes_less_trans: "bytes_less s t \<Longrightarrow> bytes_less t u \<Longrightarrow> bytes_less s u"
proof (induction s t arbitrary: u rule: bytes_less.induct)
  case (2 y ys)
  then show ?case by (cases u) auto
next
  case (3 x xs y ys)
  then show ?case by (cases u) auto
qed simp

lemma bytes_less_total: "s \<noteq> t \<Longrightarrow> bytes_less s t \<or> bytes_less t s"
proof (induction s t rule: bytes_less.induct)
  case (1 s)
  then show ?case by (cases s) auto
next
  case (3 x xs y ys)
  show ?case
  proof (cases "x = y")
    case False
    then have "(of_char x :: nat) \<noteq> of_char y" by simp
    then have "(of_char x :: nat) < of_char y \<or> (of_char y :: nat) < of_char x" by linarith
    then show ?thesis by auto
  qed (use 3 in auto)
qed simp

lemma older_trans: "older x y \<Longrightarrow> older y z \<Longrightarrow> older x z"
  by (auto simp: older_def intro: bytes_less_trans)

lemma older_total: "x \<noteq> y \<Longrightarrow> older x y \<or> older y x"
  using bytes_less_total [of "fst x" "fst y"] by (auto simp: older_def prod_eq_iff)

definition slots :: "group_index \<Rightarrow> (string \<times> int) set" where
  "slots idx = (\<lambda>(h, e). (h, ge_FirstAt e)) ` set idx"

lemma oldest_of_min:
  "[] \<notin> fst ` set idx \<Longrightarrow> o0 \<noteq> [] \<Longrightarrow>
   \<exists>f. (oldest_of (o0, f0) idx, f) \<in> insert (o0, f0) (slots idx) \<and>
     (\<forall>x \<in> insert (o0, f0) (slots idx). x \<noteq> (oldest_of (o0, f0) idx, f) \<longrightarrow> older (oldest_of (o0, f0) idx, f) x)"
proof (induction idx arbitrary: o0 f0)
  case (Cons he idx)
  obtain h e where he: "he = (h, e)" by force
  have sl: "slots (he # idx) = insert (h, ge_FirstAt e) (slots idx)" by (simp add: slots_def he)
  obtain o1 f1 where o: "(o1, f1) = (if ge_FirstAt e < f0 \<or> ge_FirstAt e = f0 \<and> bytes_less h o0 then (h, ge_FirstAt e) else (o0, f0))"
    by (metis surj_pair)
  have ne: "o1 \<noteq> []" "[] \<notin> fst ` set idx" using Cons.prems he o by (auto split: if_splits)
  let ?r = "oldest_of (o1, f1) idx"
  have st: "oldest_of (o0, f0) (he # idx) = ?r" using Cons.prems(2) o by (simp add: he)
  obtain f where f: "(?r, f) \<in> insert (o1, f1) (slots idx)"
    "\<forall>x \<in> insert (o1, f1) (slots idx). x \<noteq> (?r, f) \<longrightarrow> older (?r, f) x"
    using Cons.IH [OF ne(2,1)] by blast
  have ord: "x = (o1, f1) \<or> older (o1, f1) x" if "x = (o0, f0) \<or> x = (h, ge_FirstAt e)" for x
    using that o older_total [of "(h, ge_FirstAt e)" "(o0, f0)"] by (auto simp: older_def split: if_splits)
  have le: "(o1, f1) = (?r, f) \<or> older (?r, f) (o1, f1)" using f(2) by blast
  have "older (?r, f) x" if x: "x \<in> insert (o0, f0) (slots (he # idx))" "x \<noteq> (?r, f)" for x
  proof (cases "x \<in> slots idx")
    case False
    then have "x = (o0, f0) \<or> x = (h, ge_FirstAt e)" using x(1) sl by blast
    from ord [OF this] show ?thesis using le x(2) older_trans by metis
  qed (use f(2) x in blast)
  moreover have "(?r, f) \<in> insert (o0, f0) (slots (he # idx))" using f(1) o sl by (auto split: if_splits)
  ultimately show ?case unfolding st by blast
qed (auto simp: slots_def)

lemma oldest_of_index:
  assumes "[] \<notin> fst ` set idx" and "idx \<noteq> []"
  shows "\<exists>f. (oldest_of ([], 0) idx, f) \<in> slots idx \<and>
     (\<forall>x \<in> slots idx. x \<noteq> (oldest_of ([], 0) idx, f) \<longrightarrow> older (oldest_of ([], 0) idx, f) x)"
proof -
  obtain h e rest where i: "idx = (h, e) # rest" using assms(2) by (cases idx) auto
  have "slots idx = insert (h, ge_FirstAt e) (slots rest)" "oldest_of ([], 0) idx = oldest_of (h, ge_FirstAt e) rest"
    by (simp_all add: i slots_def)
  then show ?thesis using oldest_of_min [of rest h "ge_FirstAt e"] assms(1) by (auto simp: i)
qed

text \<open>
  The group that gives way at the cap is the one that has been open the longest, ties
  broken by hash: it is the unique least entry of the index, so it does not depend on the
  order in which the map is visited.
\<close>

theorem oldest_is_least:
  assumes "[] \<notin> fst ` set idx" and "idx \<noteq> []"
  shows "(\<exists>f. (oldest_of ([], 0) idx, f) \<in> slots idx \<and>
            (\<forall>x \<in> slots idx. x \<noteq> (oldest_of ([], 0) idx, f) \<longrightarrow> older (oldest_of ([], 0) idx, f) x)) \<and>
         (\<forall>idx'. set idx' = set idx \<longrightarrow> oldest_of ([], 0) idx' = oldest_of ([], 0) idx)"
proof (intro conjI allI impI)
  show least: "\<exists>f. (oldest_of ([], 0) idx, f) \<in> slots idx \<and>
      (\<forall>x \<in> slots idx. x \<noteq> (oldest_of ([], 0) idx, f) \<longrightarrow> older (oldest_of ([], 0) idx, f) x)"
    by (rule oldest_of_index [OF assms])
  fix idx' :: group_index assume s: "set idx' = set idx"
  have "[] \<notin> fst ` set idx'" "idx' \<noteq> []" "slots idx' = slots idx" using assms s by (auto simp: slots_def)
  from oldest_of_index [OF this(1,2), unfolded this(3)] obtain f' where
    f': "(oldest_of ([], 0) idx', f') \<in> slots idx"
      "\<forall>x \<in> slots idx. x \<noteq> (oldest_of ([], 0) idx', f') \<longrightarrow> older (oldest_of ([], 0) idx', f') x" by blast
  obtain f where f: "(oldest_of ([], 0) idx, f) \<in> slots idx"
      "\<forall>x \<in> slots idx. x \<noteq> (oldest_of ([], 0) idx, f) \<longrightarrow> older (oldest_of ([], 0) idx, f) x" using least by blast
  show "oldest_of ([], 0) idx' = oldest_of ([], 0) idx"
  proof (rule ccontr)
    assume "oldest_of ([], 0) idx' \<noteq> oldest_of ([], 0) idx"
    then have d: "(oldest_of ([], 0) idx', f') \<noteq> (oldest_of ([], 0) idx, f)" by simp
    have "older (oldest_of ([], 0) idx', f') (oldest_of ([], 0) idx, f)" using f'(2) f(1) d by metis
    moreover have "older (oldest_of ([], 0) idx, f) (oldest_of ([], 0) idx', f')" using f(2) f'(1) d by metis
    ultimately have "older (oldest_of ([], 0) idx', f') (oldest_of ([], 0) idx', f')" by (rule older_trans)
    then show False by (simp add: older_def)
  qed
qed

theorem oldest_is_least_witness:
  "oldest_of ([], 0) [(''b'', \<lparr>ge_FirstAt = 3, ge_Deadline = 0\<rparr>), (''a'', \<lparr>ge_FirstAt = 3, ge_Deadline = 0\<rparr>)] = ''a''"
proof -
  let ?i = "[(''a'', \<lparr>ge_FirstAt = 3, ge_Deadline = 0\<rparr>), (''b'', \<lparr>ge_FirstAt = 3, ge_Deadline = 0\<rparr>)] :: group_index"
  have "set [(''b'', \<lparr>ge_FirstAt = 3, ge_Deadline = 0\<rparr>), (''a'', \<lparr>ge_FirstAt = 3, ge_Deadline = 0\<rparr>)] = set ?i" by auto
  then have "oldest_of ([], 0) [(''b'', \<lparr>ge_FirstAt = 3, ge_Deadline = 0\<rparr>), (''a'', \<lparr>ge_FirstAt = 3, ge_Deadline = 0\<rparr>)] =
      oldest_of ([], 0) ?i"
    using oldest_is_least [of ?i] by auto
  then show ?thesis by simp
qed

section \<open>The cap\<close>

definition capped :: "'w aggregate \<Rightarrow> gval store \<Rightarrow> bool" where
  "capped a s \<longleftrightarrow> (\<exists>idx. index_at a s idx \<and> int (length idx) \<le> ag_maxGroups a)"

definition keep_cap :: "'w aggregate \<Rightarrow> interference list \<Rightarrow> bool" where
  "keep_cap a is \<longleftrightarrow> (\<forall>i \<in> set is. \<forall>s t. capped a s \<longrightarrow> capped a (fst (fst i (s, t))))"

definition cap_holds :: "('a agg_world_scheme) aggregate \<Rightarrow> 'a agg_world_scheme \<Rightarrow> bool" where
  "cap_holds a w \<longleftrightarrow> capped a (kv w) \<and> keep_cap a (others w)"

lemma others_act_cap: "others_act w = (w1, f) \<Longrightarrow> cap_holds a w \<Longrightarrow> cap_holds a w1"
  by (auto simp: others_act_def cap_holds_def keep_cap_def split: list.splits prod.splits)
     (metis fst_conv, fastforce)

lemma readIndex_cap:
  assumes "readIndex a w = (w1, r)" and "cap_holds a w"
  shows "cap_holds a w1" and "r = Inr (idx, v) \<Longrightarrow> index_at a (kv w1) idx \<and> int (length idx) \<le> ag_maxGroups a"
proof -
  obtain w0 f where o: "others_act w = (w0, f)" by force
  then have w0: "w1 = w0" using assms(1)
    by (auto simp: readIndex_def kv_Get_def split: option.splits sum.splits)
  show c: "cap_holds a w1" using others_act_cap [OF o assms(2)] w0 by simp
  obtain idx' where idx': "index_at a (kv w1) idx'" "int (length idx') \<le> ag_maxGroups a"
    using c by (auto simp: cap_holds_def capped_def)
  assume "r = Inr (idx, v)"
  then have "idx = idx'" using assms(1) o w0 idx'(1)
    by (auto simp: readIndex_def kv_Get_def index_at_def split: option.splits sum.splits)
  with idx' show "index_at a (kv w1) idx \<and> int (length idx) \<le> ag_maxGroups a" by simp
qed

lemma writeIndex_cap:
  assumes "writeIndex a idx v w = (w1, r)" and "cap_holds a w" and "distinct (map fst idx)"
    and "int (length idx) \<le> ag_maxGroups a"
  shows "cap_holds a w1"
proof -
  obtain w0 f where o: "others_act w = (w0, f)" by force
  have c: "cap_holds a w0" by (rule others_act_cap [OF o assms(2)])
  have "capped a (fst (store_write (kv w0) NamespaceSystem (indexKey a) (encode_index idx) v))"
  proof (cases "current (kv w0) NamespaceSystem (indexKey a) = v")
    case True
    then have "index_at a (fst (store_write (kv w0) NamespaceSystem (indexKey a) (encode_index idx) v)) idx"
      using assms(3) by (simp add: index_at_def Get_write decode_encode_index)
    then show ?thesis using assms(4) by (auto simp: capped_def)
  next
    case False
    then show ?thesis using c Get_write(3) [OF False, of "encode_index idx"] by (simp add: cap_holds_def)
  qed
  then show ?thesis
    using assms(1) o c
    by (cases "store_write (kv w0) NamespaceSystem (indexKey a) (encode_index idx) v")
       (auto simp: writeIndex_def kv_Set_def cap_holds_def split: option.splits sum.splits kv_error.splits kv_failure.splits)
qed

lemma claimSlot_loop_cap: "claimSlot_loop n a h w = (w', r) \<Longrightarrow> cap_holds a w \<Longrightarrow> cap_holds a w'"
proof (induction n arbitrary: w)
  case (Suc n)
  obtain w1 r1 where rd: "readIndex a w = (w1, r1)" by force
  note c1 = readIndex_cap [OF rd Suc.prems(2)]
  show ?case
  proof (cases "\<exists>idx v. r1 = Inr (idx, v) \<and> map_of idx h = None \<and> int (length idx) < ag_maxGroups a")
    case True
    then obtain idx v where i: "r1 = Inr (idx, v)" "map_of idx h = None" "int (length idx) < ag_maxGroups a" by blast
    let ?idx = "AList.update h \<lparr>ge_FirstAt = clock w1, ge_Deadline = 0\<rparr> idx"
    obtain w2 r2 where wr: "writeIndex a ?idx v w1 = (w2, r2)" by force
    have "length ?idx = Suc (length idx)" using i(2) by (induction idx) (auto split: if_splits)
    then have c2: "cap_holds a w2"
      using writeIndex_cap [OF wr c1(1)] c1(2) [OF i(1)] i(3) by (simp add: distinct_update index_at_def)
    show ?thesis using Suc.prems(1) Suc.IH rd i wr c2 by (auto split: sum.splits bool.splits)
  qed (use Suc.prems(1) rd c1(1) in \<open>auto split: sum.splits if_splits\<close>)
qed simp

lemma updateIndex_loop_cap:
  assumes "\<And>idx idx'. mutate idx = Some idx' \<Longrightarrow> distinct (map fst idx) \<Longrightarrow>
      distinct (map fst idx') \<and> length idx' \<le> length idx"
  shows "cap_holds a w \<Longrightarrow> cap_holds a (updateIndex_loop n a mutate w)"
proof (induction n arbitrary: w)
  case (Suc n)
  obtain w1 r1 where rd: "readIndex a w = (w1, r1)" by force
  note c1 = readIndex_cap [OF rd Suc.prems]
  show ?case
  proof (cases "\<exists>idx v idx'. r1 = Inr (idx, v) \<and> mutate idx = Some idx'")
    case True
    then obtain idx v idx' where i: "r1 = Inr (idx, v)" "mutate idx = Some idx'" by blast
    obtain w2 r2 where wr: "writeIndex a idx' v w1 = (w2, r2)" by force
    have "distinct (map fst idx')" "int (length idx') \<le> ag_maxGroups a"
      using assms [OF i(2)] c1(2) [OF i(1)] index_distinct by fastforce+
    then have c2: "cap_holds a w2" by (rule writeIndex_cap [OF wr c1(1)])
    show ?thesis using Suc.IH rd i wr c2 by (auto split: sum.splits bool.splits)
  qed (use rd c1(1) in \<open>auto split: sum.splits option.splits\<close>)
qed simp

text \<open>
  Admission keeps the cap: as long as nobody else stores an index of more than
  \<^verbatim>\<open>maxGroups\<close> groups, neither claiming a slot nor giving one back does, whatever the
  races; but the tracking of a group whose slot was given back meanwhile is not an admission,
  and puts it in a full index.
\<close>

theorem cap_on_admission:
  assumes "cap_holds a w"
  shows "cap_holds a (fst (claimSlot a h w)) \<and> cap_holds a (forgetGroup a h w) \<and>
    (\<forall>idx g. quiet w \<longrightarrow> index_at a (kv w) idx \<longrightarrow> int (length idx) = ag_maxGroups a \<longrightarrow> map_of idx h = None \<longrightarrow>
       \<not> capped a (kv (trackGroup a h g w)))"
proof (intro conjI allI impI)
  show "cap_holds a (fst (claimSlot a h w))"
    using claimSlot_loop_cap assms unfolding claimSlot_def by (metis prod.collapse)
  have len: "length (AList.delete h idx) \<le> length idx" for h and idx :: group_index by (rule length_delete_le)
  show "cap_holds a (forgetGroup a h w)"
    unfolding forgetGroup_def updateIndex_def
    by (rule updateIndex_loop_cap [OF _ assms]) (auto simp: distinct_delete len split: if_splits)
  fix idx g assume q: "quiet w" "index_at a (kv w) idx" and f: "int (length idx) = ag_maxGroups a" "map_of idx h = None"
  obtain s idx' where s: "trackGroup a h g w = w\<lparr>kv := s\<rparr>" "index_at a s idx'"
    "map_of idx' = (map_of idx)(h \<mapsto> \<lparr>ge_FirstAt = gs_FirstAt g, ge_Deadline = gs_Deadline g\<rparr>)"
    by (rule trackGroup_quiet [OF q, of h g])
  have "fst ` set idx' = insert h (fst ` set idx)" using s(3) by (simp flip: dom_map_of_conv_image_fst)
  moreover have "card (fst ` set i) = length i" if "distinct (map fst i)" for i :: group_index
    using distinct_card [OF that] by simp
  moreover have "h \<notin> fst ` set idx" using f(2) by (simp add: map_of_eq_None_iff)
  ultimately have "length idx' = Suc (length idx)"
    using index_distinct [OF s(2)] index_distinct [OF q(2)] by (metis List.finite_set card_insert_disjoint finite_imageI)
  then show "\<not> capped a (kv (trackGroup a h g w))"
    using s(1,2) f(1) by (auto simp: capped_def index_at_def split: option.splits)
qed

theorem cap_on_admission_witness:
  "cap_holds (default_aggregate id (\<lambda>_. []) ''s'')
     (fst (claimSlot (default_aggregate id (\<lambda>_. []) ''s'') ''h'' sample_agg_world))"
proof -
  let ?a = "default_aggregate id (\<lambda>_. []) ''s'' :: agg_world aggregate"
  have "index_at ?a (kv sample_agg_world) []" by (simp add: index_at_def sample_agg_world_def Get_new)
  then have "cap_holds ?a sample_agg_world"
    by (auto simp: cap_holds_def capped_def keep_cap_def sample_agg_world_def default_aggregate_def defaultMaxGroups_def)
  from cap_on_admission [OF this, of "''h''"] show ?thesis by simp
qed

section \<open>A group taken twice\<close>

text \<open>
  Another replica lifts the same group out of the store between two calls of this one: it runs
  its whole \<^verbatim>\<open>takeStored\<close> on the store as it is then.
\<close>

definition rival_takes :: "('a agg_world_scheme) aggregate \<Rightarrow> string \<Rightarrow> 'a agg_world_scheme \<Rightarrow> interference" where
  "rival_takes a h r = (\<lambda>(s, t). (kv (fst (takeStored a h (r\<lparr>kv := s\<rparr>))), t), None)"

lemma takeStored_run:
  assumes "quiet r" and "Get (kv r) NamespaceSystem (groupStateKey a h) = Some en"
    and "decode_group zero_group (Value en) = Inr g"
  shows "takeStored a h r = (forgetGroup a h
    (r\<lparr>kv := fst (Delete (kv r) NamespaceSystem (groupStateKey a h) (Version en))\<rparr>), Inr (Some g))"
  by (simp add: takeStored_def quiet_calls(1) [OF assms(1)] quiet_calls(3) [OF assms(1,2)] assms(2,3))

text \<open>
  A version-checked delete does not tell a group that is gone from one it removed: when
  two replicas take the same group and the second reads it before the first deletes it, the
  delete of the second succeeds on the absent key and both get the group, so it is delivered
  twice.
\<close>

theorem group_taken_twice:
  assumes "quiet r" and "kv r = kv w" and "index_at a (kv w) idx"
    and "Get (kv w) NamespaceSystem (groupStateKey a h) = Some en" and "decode_group zero_group (Value en) = Inr g"
    and "others w = (\<lambda>st. st, None) # rival_takes a h r # rest"
  shows "snd (takeStored a h r) = Inr (Some g) \<and> snd (takeStored a h w) = Inr (Some g)"
proof -
  let ?k = "groupStateKey a h"
  define s0 where "s0 = fst (Delete (kv w) NamespaceSystem ?k (Version en))"
  have t: "takeStored a h r = (forgetGroup a h (r\<lparr>kv := s0\<rparr>), Inr (Some g))"
    using takeStored_run [of r a h en g] assms(1,2,4,5) by (simp add: s0_def)
  have d: "differ_at ?k (kv w) s0" unfolding s0_def by (rule differ_at_delete)
  have "quiet (r\<lparr>kv := s0\<rparr>)" "index_at a (kv (r\<lparr>kv := s0\<rparr>)) idx" using assms(1,3) index_at_other [OF d] by simp_all
  from forgetGroup_quiet [OF this, of h] obtain s1 where
    s1: "forgetGroup a h (r\<lparr>kv := s0\<rparr>) = r\<lparr>kv := s0\<rparr>\<lparr>kv := s1\<rparr>" "differ_at (indexKey a) s0 s1" by auto
  have "Get s0 NamespaceSystem ?k = None" using assms(4) by (simp add: s0_def Get_Delete current_def)
  then have none: "Get s1 NamespaceSystem ?k = None" using differ_at_other [OF s1(2), of ?k] by simp
  have r: "r\<lparr>kv := kv w\<rparr> = r" using assms(2) by simp
  have del: "Delete s1 NamespaceSystem ?k (Version en) = (s1, Inr ())"
    using none by (simp add: Delete_def Get_def)
  let ?w1 = "w\<lparr>others := rival_takes a h r # rest\<rparr>"
  have g: "kv_Get w ?k = (?w1, Inr (Some en))"
    using assms(4,6) by (simp add: kv_Get_def others_act_def)
  have "kv_Delete ?w1 ?k (Version en) = (w\<lparr>others := rest, kv := s1\<rparr>, Inr ())"
    using t s1(1) r del by (simp add: kv_Delete_def others_act_def rival_takes_def)
  then show ?thesis using t g assms(5) by (simp add: takeStored_def)
qed

theorem group_taken_twice_witness:
  "\<exists>g. snd (takeStored (default_aggregate id (\<lambda>_. []) ''s'') ''h'' sample_mail_world) = Inr (Some g) \<and>
     snd (takeStored (default_aggregate id (\<lambda>_. []) ''s'') ''h''
       (sample_mail_world\<lparr>others := [(\<lambda>st. st, None), rival_takes (default_aggregate id (\<lambda>_. []) ''s'') ''h'' sample_mail_world]\<rparr>)) =
       Inr (Some g)"
proof -
  let ?a = "default_aggregate id (\<lambda>_. []) ''s'' :: mail_world aggregate" and ?w = sample_mail_world
  let ?v = "?w\<lparr>others := [(\<lambda>st. st, None), rival_takes ?a ''h'' ?w]\<rparr>"
  let ?g = "zero_group\<lparr>gs_Key := ''k'', gs_Acc := GStr ''half''\<rparr>"
  have k: "groupStateKey ?a ''h'' = ''aggregate/s/g/h''" "indexKey ?a = ''aggregate/s/index''"
    by (simp_all add: groupStateKey_def indexKey_def default_aggregate_def)
  have q: "quiet ?w" "kv ?w = kv ?v" by (simp_all add: quiet_def sample_mail_world_def)
  have ix: "index_at ?a (kv ?v) [(''h'', \<lparr>ge_FirstAt = 1, ge_Deadline = 3\<rparr>)]"
    by (simp add: index_at_def k sample_mail_world_def Get_write current_def Get_new decode_encode_index)
  obtain en where en: "Get (kv ?v) NamespaceSystem (groupStateKey ?a ''h'') = Some en" "Value en = GMap (group_fields ?g)"
    by (auto simp: k sample_mail_world_def Get_write current_def Get_new)
  have d: "decode_group zero_group (Value en) = Inr ?g"
    using decode_group_fields [of ?g zero_group] en(2) by (simp add: fresh_group_def zero_group_def maxCopyDepth_def)
  from group_taken_twice [OF q ix en(1) d] show ?thesis by simp
qed

end
