(* ===== verification/Octo_Bound_Flow.thy ===== *)
theory Octo_Bound_Flow
  imports Octo_Engine "HOL-Library.Word"
begin

text \<open>
  A runnable flow: the flow-event record of \<^verbatim>\<open>runtime/types/event.go\<close>, the event
  bus of \<^verbatim>\<open>runtime/core/eventbus.go\<close>, and of
  \<^verbatim>\<open>runtime/core/runtime/boundflow.go\<close> the sizing of its workers and of its
  buffer, the run of one message with its error path and its two events, and the start and
  stop of the blocks that own background work. \<^verbatim>\<open>runtime/core/runtime/capacity.go\<close>
  is at the end.

  The clock is a sequence of readings, one taken per call of \<^verbatim>\<open>time.Now\<close>. A
  subscriber is a function of the event and of the world.
\<close>

section \<open>Flow events\<close>

datatype flow_event_kind =
    FlowEventStarted | FlowEventCompleted | FlowEventDropped | FlowEventFailed

record flow_event =
  fe_kind :: flow_event_kind
  fe_flow :: string
  fe_event_id :: string
  fe_trace_id :: string
  fe_occurred_at :: int
  fe_duration :: int
  fe_err :: "err option"
  fe_block :: string
  fe_result :: "addr option"

record run_world = obs_world +
  clock :: "nat \<Rightarrow> int"
  readings :: nat
  tracing :: bool

definition Now :: "'a run_world_scheme \<Rightarrow> 'a run_world_scheme \<times> int" where
  "Now w = (w\<lparr>readings := Suc (readings w)\<rparr>, clock w (readings w))"

section \<open>The event bus\<close>

type_synonym 'w handler = "flow_event \<Rightarrow> 'w \<Rightarrow> 'w"

record 'w subscription =
  sub_id :: "64 word"
  sub_handler :: "'w handler"

record 'w event_bus =
  nextID :: "64 word"
  subscribers :: "'w subscription list option"

definition NewEventBus :: "'w event_bus" where
  "NewEventBus = \<lparr>nextID = 0, subscribers = None\<rparr>"

definition bus_snapshot :: "'w event_bus \<Rightarrow> 'w subscription list" where
  "bus_snapshot b = (case subscribers b of Some p \<Rightarrow> p | None \<Rightarrow> [])"

text \<open>The first subscription with the id is removed; an unknown id changes nothing.\<close>

fun remove_sub :: "64 word \<Rightarrow> 'w subscription list \<Rightarrow> 'w subscription list option" where
  "remove_sub i [] = None"
| "remove_sub i (s # ss) =
     (if sub_id s = i then Some ss else map_option ((#) s) (remove_sub i ss))"

definition unsubscribe :: "64 word \<Rightarrow> 'w event_bus \<Rightarrow> 'w event_bus" where
  "unsubscribe i b =
     (case remove_sub i (bus_snapshot b) of
        Some rest \<Rightarrow> b\<lparr>subscribers := Some rest\<rparr>
      | None \<Rightarrow> b)"

text \<open>
  The function returned to the subscriber is \<^term>\<open>unsubscribe i\<close>; a nil handler gets the
  function that does nothing.
\<close>

definition Subscribe ::
  "'w handler option \<Rightarrow> 'w event_bus \<Rightarrow> 'w event_bus \<times> ('w event_bus \<Rightarrow> 'w event_bus)" where
  "Subscribe handler b =
     (case handler of
        None \<Rightarrow> (b, \<lambda>b. b)
      | Some h \<Rightarrow>
          let i = nextID b;
              b1 = b\<lparr>nextID := i + 1,
                     subscribers := Some (bus_snapshot b @ [\<lparr>sub_id = i, sub_handler = h\<rparr>])\<rparr>
          in (b1, unsubscribe i))"

definition bus_Publish :: "'w event_bus \<Rightarrow> 'w handler" where
  "bus_Publish b ev w =
     (case subscribers b of
        None \<Rightarrow> w
      | Some p \<Rightarrow> fold (\<lambda>s w. sub_handler s ev w) p w)"

section \<open>Sizing\<close>

definition defaultWorkers :: int where "defaultWorkers = 8"
definition defaultBuffer :: int where "defaultBuffer = 64"
definition workersPerProc :: int where "workersPerProc = 4"

definition resolveWorkers :: "int \<Rightarrow> int \<Rightarrow> int" where
  "resolveWorkers configured gomaxprocs =
     (if configured > 0 then configured
      else max defaultWorkers (gomaxprocs * workersPerProc))"

definition resolveBuffer :: "int \<Rightarrow> int \<Rightarrow> int" where
  "resolveBuffer configured workers =
     (if configured > 0 then configured else max defaultBuffer workers)"

definition workersOrigin :: "bool \<Rightarrow> string" where
  "workersOrigin derived = (if derived then ''derived'' else ''configured'')"

section \<open>Capacity\<close>

record capacity =
  cap_limit :: int
  cap_setting :: string

record capacity_bound =
  component :: string
  bound_capacity :: capacity

record capacity_check =
  bounds :: "capacity_bound list"
  seen_components :: "string list"

definition newCapacityCheck :: capacity_check where
  "newCapacityCheck = \<lparr>bounds = [], seen_components = []\<rparr>"

text \<open>\<open>reported\<close> is \<open>None\<close> for a component that is no \<^verbatim>\<open>CapacityReporter\<close>.\<close>

definition capacity_add :: "string \<Rightarrow> capacity option \<Rightarrow> capacity_check \<Rightarrow> capacity_check" where
  "capacity_add name reported c =
     (case reported of
        None \<Rightarrow> c
      | Some capa \<Rightarrow>
          if name \<in> set (seen_components c) then c
          else let c1 = c\<lparr>seen_components := seen_components c @ [name]\<rparr>
               in if cap_limit capa > 0
                  then c1\<lparr>bounds := bounds c1 @ [\<lparr>component = name, bound_capacity = capa\<rparr>]\<rparr>
                  else c1)"

text \<open>The wrapped lookup answers as the wrapped one does and records what it resolved.\<close>

definition capacity_lookup ::
  "(string \<Rightarrow> ('c \<times> capacity option) option) \<Rightarrow> string \<Rightarrow> capacity_check
     \<Rightarrow> capacity_check \<times> 'c option" where
  "capacity_lookup inner name c =
     (case inner name of
        Some (conn, reported) \<Rightarrow> (capacity_add name reported c, Some conn)
      | None \<Rightarrow> (c, None))"

section \<open>One message\<close>

record 'w bound_flow =
  bf_name :: string
  bf_root :: "'w flow"
  bf_errorPath :: "'w flow option"
  bf_workers :: int
  bf_bus :: "'w event_bus option"
  bf_capacity :: "capacity_bound list"

definition overCapacity :: "'w bound_flow \<Rightarrow> capacity_bound list" where
  "overCapacity bf = filter (\<lambda>b. bf_workers bf > cap_limit (bound_capacity b)) (bf_capacity bf)"

record flow_outcome =
  o_kind :: flow_event_kind
  o_eventID :: string
  o_traceID :: string
  o_elapsed :: int
  o_err :: "err option"
  o_result :: "addr option"

definition publish ::
  "('a run_world_scheme) bound_flow \<Rightarrow> flow_outcome \<Rightarrow> 'a run_world_scheme \<Rightarrow> 'a run_world_scheme" where
  "publish bf oc w =
     (case bf_bus bf of
        None \<Rightarrow> w
      | Some b \<Rightarrow>
          (case Now w of (w1, t) \<Rightarrow>
             bus_Publish b
               \<lparr>fe_kind = o_kind oc, fe_flow = bf_name bf, fe_event_id = o_eventID oc,
                fe_trace_id = o_traceID oc, fe_occurred_at = t, fe_duration = o_elapsed oc,
                fe_err = o_err oc,
                fe_block = (case o_err oc of Some e \<Rightarrow> FailingBlock e | None \<Rightarrow> []),
                fe_result = o_result oc\<rparr> w1))"

definition bf_traceID :: "'a run_world_scheme \<Rightarrow> addr \<Rightarrow> 'a run_world_scheme \<times> string" where
  "bf_traceID w a =
     (if \<not> tracing w then (w, TraceID (heap w a))
      else (case EnsureTraceID w a of
              (w1, Inr t) \<Rightarrow> (w1, t)
            | (w1, Inl _) \<Rightarrow> (w1, [])))"

text \<open>The recovery: the error path runs on the message with the failure in its variables.\<close>

definition recover ::
  "('a run_world_scheme) bound_flow \<Rightarrow> ctx \<Rightarrow> addr \<Rightarrow> 'a run_world_scheme \<times> outcome
     \<Rightarrow> 'a run_world_scheme \<times> outcome" where
  "recover bf c a r =
     (case r of
        (w, Failed e) \<Rightarrow>
          (case bf_errorPath bf of
             None \<Rightarrow> (w, Failed e)
           | Some p \<Rightarrow>
               (case flow_process p c (upd w a (SetErrorVariable (bf_name bf) e)) a of
                  (w1, Failed altErr) \<Rightarrow> (w1, Failed (Wrap ''error path'' altErr))
                | (w1, recovered) \<Rightarrow> (w1, recovered)))
      | _ \<Rightarrow> r)"

definition terminal_outcome :: "addr \<Rightarrow> string \<Rightarrow> string \<Rightarrow> int \<Rightarrow> outcome \<Rightarrow> flow_outcome" where
  "terminal_outcome a eid tid elapsed r =
     (let oc = \<lparr>o_kind = FlowEventCompleted, o_eventID = eid, o_traceID = tid,
                o_elapsed = elapsed, o_err = None, o_result = None\<rparr>
      in case r of
           Failed e \<Rightarrow> oc\<lparr>o_kind := FlowEventFailed, o_err := Some e, o_result := Some a\<rparr>
         | Dropped \<Rightarrow> oc\<lparr>o_kind := FlowEventDropped, o_result := Some a\<rparr>
         | Out out \<Rightarrow> oc\<lparr>o_kind := FlowEventCompleted, o_result := Some out\<rparr>)"

definition bf_run ::
  "('a run_world_scheme) bound_flow \<Rightarrow> ctx \<Rightarrow> 'a run_world_scheme \<Rightarrow> addr
     \<Rightarrow> ('a run_world_scheme) processor \<Rightarrow> 'a run_world_scheme" where
  "bf_run bf c w a proc =
     (case bf_traceID w a of (w1, tid) \<Rightarrow>
        let w2 = publish bf \<lparr>o_kind = FlowEventStarted, o_eventID = EventID (heap w1 a),
                             o_traceID = tid, o_elapsed = 0, o_err = None, o_result = None\<rparr> w1
        in case Now w2 of (w3, started) \<Rightarrow>
             (case recover bf c a (proc c w3 a) of (w4, r) \<Rightarrow>
                (case Now w4 of (w5, ended) \<Rightarrow>
                   publish bf
                     (terminal_outcome a (EventID (heap w5 a)) tid (ended - started) r) w5)))"

definition handle ::
  "('a run_world_scheme) bound_flow \<Rightarrow> ctx \<Rightarrow> 'a run_world_scheme \<Rightarrow> addr \<Rightarrow> 'a run_world_scheme" where
  "handle bf c w a = bf_run bf c w a (flow_process (bf_root bf))"

text \<open>
  A resumed tail runs under the flow's own context with cancellation stripped, or under the
  background context when the flow was never started.
\<close>

definition runCtx :: "ctx option \<Rightarrow> ctx" where
  "runCtx own = (case own of None \<Rightarrow> Ctx False | Some _ \<Rightarrow> Ctx False)"

section \<open>Blocks with background work\<close>

definition lifecycleProcessors :: "'w bound_flow \<Rightarrow> 'w block list" where
  "lifecycleProcessors bf =
     LifecycleProcessors (bf_root bf) @
     (case bf_errorPath bf of Some p \<Rightarrow> LifecycleProcessors p | None \<Rightarrow> [])"

text \<open>
  The blocks are started in order up to the first that refuses. \<open>start b\<close> is the answer
  of the block's own \<^verbatim>\<open>Start\<close>. The result carries the blocks that run.
\<close>

fun start_all :: "string \<Rightarrow> ('b \<Rightarrow> err option) \<Rightarrow> 'b list \<Rightarrow> 'b list \<times> err option" where
  "start_all name start [] = ([], None)"
| "start_all name start (b # bs) =
     (case start b of
        Some e \<Rightarrow> ([], Some (Wrap (''flow '' @ quote name @ '': start block'') e))
      | None \<Rightarrow> (case start_all name start bs of (up, r) \<Rightarrow> (b # up, r)))"

definition startProcessors ::
  "'w bound_flow \<Rightarrow> ('w block \<Rightarrow> err option) \<Rightarrow> 'w block list \<times> err option" where
  "startProcessors bf start = start_all (bf_name bf) start (lifecycleProcessors bf)"

definition errors_join :: "err option list \<Rightarrow> err option" where
  "errors_join es =
     (case List.map_filter (\<lambda>e. e) es of [] \<Rightarrow> None | xs \<Rightarrow> Some (Joined xs))"

fun stop_all :: "string \<Rightarrow> ('b \<Rightarrow> err option) \<Rightarrow> 'b list \<Rightarrow> 'b list \<times> err list" where
  "stop_all name stop [] = ([], [])"
| "stop_all name stop (b # bs) =
     (case stop_all name stop bs of (asked, errs) \<Rightarrow>
        (b # asked,
         case stop b of
           Some e \<Rightarrow> Wrap (''flow '' @ quote name @ '': stop block'') e # errs
         | None \<Rightarrow> errs))"

definition stopProcessors ::
  "'w bound_flow \<Rightarrow> ('w block \<Rightarrow> err option) \<Rightarrow> 'w block list \<times> err option" where
  "stopProcessors bf stop =
     (case stop_all (bf_name bf) stop (lifecycleProcessors bf) of
        (asked, errs) \<Rightarrow> (asked, errors_join (map Some errs)))"

end
