(* ===== verification/Octo_Reports.thy ===== *)
theory Octo_Reports
  imports Octo_Bound_Flow Octo_Semantics
begin

text \<open>
  What a bound flow reports: the laws of the event bus, the pair of events every invocation
  publishes, and the refinement of a run by the report the transformers of its chains give.
  The sizing and the shutdown of the blocks are at the end.
\<close>

section \<open>The bus\<close>

definition bus_ok :: "'w event_bus \<Rightarrow> bool" where
  "bus_ok b \<longleftrightarrow> distinct (map sub_id (bus_snapshot b)) \<and>
     (\<forall>s \<in> set (bus_snapshot b). sub_id s < nextID b)"

lemma Publish_snapshot:
  "bus_Publish b ev w = fold (\<lambda>s w. sub_handler s ev w) (bus_snapshot b) w"
  by (simp add: bus_Publish_def bus_snapshot_def split: option.splits)

lemma remove_sub_None: "remove_sub i ss = None \<longleftrightarrow> i \<notin> sub_id ` set ss"
  by (induction ss) auto

lemma remove_sub_filter:
  "distinct (map sub_id ss) \<Longrightarrow> remove_sub i ss = Some rest \<Longrightarrow> rest = filter (\<lambda>s. sub_id s \<noteq> i) ss"
proof (induction ss arbitrary: rest)
  case (Cons s ss)
  show ?case
  proof (cases "sub_id s = i")
    case True
    have "filter (\<lambda>s. sub_id s \<noteq> i) ss = ss"
      using Cons.prems(1) True by (auto simp: filter_id_conv image_iff)
    then show ?thesis using Cons.prems True by simp
  qed (use Cons in auto)
qed simp

lemma snapshot_unsubscribe:
  assumes "bus_ok b"
  shows "bus_snapshot (unsubscribe i b) = filter (\<lambda>s. sub_id s \<noteq> i) (bus_snapshot b)"
proof (cases "remove_sub i (bus_snapshot b)")
  case None
  then have "i \<notin> sub_id ` set (bus_snapshot b)" by (simp add: remove_sub_None)
  then have "filter (\<lambda>s. sub_id s \<noteq> i) (bus_snapshot b) = bus_snapshot b"
    by (auto simp: filter_id_conv)
  then show ?thesis using None by (simp add: unsubscribe_def)
next
  case (Some rest)
  then show ?thesis using assms remove_sub_filter [OF _ Some]
    by (simp add: unsubscribe_def bus_ok_def) (simp add: bus_snapshot_def)
qed

lemma snapshot_Subscribe:
  "Subscribe (Some h) b = (b', u) \<Longrightarrow>
   bus_snapshot b' = bus_snapshot b @ [\<lparr>sub_id = nextID b, sub_handler = h\<rparr>] \<and>
   nextID b' = nextID b + 1 \<and> u = unsubscribe (nextID b)"
  by (auto simp: Subscribe_def Let_def bus_snapshot_def)

lemma bus_ok_new: "bus_ok NewEventBus"
  by (simp add: bus_ok_def bus_snapshot_def NewEventBus_def)

lemma bus_ok_unsubscribe:
  assumes "bus_ok b"
  shows "bus_ok (unsubscribe i b)"
proof -
  have "nextID (unsubscribe i b) = nextID b" by (simp add: unsubscribe_def split: option.splits)
  then show ?thesis using assms
    by (auto simp: bus_ok_def snapshot_unsubscribe [OF assms] distinct_map intro: inj_on_subset)
qed

lemma next_id_grows:
  assumes "x \<noteq> - 1" and "(i :: 64 word) \<le> x"
  shows "i < x + 1"
proof -
  have "x + 1 \<noteq> 0" using assms(1) max_word_wrap by auto
  then have "x < x + 1" by (simp add: less_le) (uint_arith)
  then show ?thesis using assms(2) by (rule le_less_trans [rotated])
qed

text \<open>
  A subscription adds its handler after the others and hears every event from then on;
  the function it gets back takes away that handler and no other, however many handlers have
  come since, and calling it again changes nothing. The ids stay apart until the 64-bit
  counter wraps.
\<close>

theorem subscription_is_exact:
  assumes ok: "bus_ok b" and room: "nextID b \<noteq> - 1"
    and s: "Subscribe (Some h) b = (b', u)"
    and later: "bus_ok b2" "bus_snapshot b2 = bus_snapshot b' @ newer"
  shows "bus_ok b' \<and> bus_Publish b' ev w = h ev (bus_Publish b ev w) \<and>
    bus_Publish (u b2) ev w = fold (\<lambda>s. sub_handler s ev) newer (bus_Publish b ev w) \<and>
    bus_snapshot (u (u b2)) = bus_snapshot (u b2)"
proof -
  note S = snapshot_Subscribe [OF s]
  have old: "filter (\<lambda>s. sub_id s \<noteq> nextID b) (bus_snapshot b) = bus_snapshot b"
    using ok by (auto simp: bus_ok_def filter_id_conv)
  have new: "filter (\<lambda>s. sub_id s \<noteq> nextID b) newer = newer"
    using later S by (auto simp: bus_ok_def filter_id_conv image_iff)
  have "bus_ok b'"
    using ok S next_id_grows [OF room] by (fastforce simp: bus_ok_def)
  moreover have "bus_snapshot (u b2) = bus_snapshot b @ newer"
    using snapshot_unsubscribe [OF later(1)] S later(2) old new by simp
  moreover have "bus_snapshot (u (u b2)) = bus_snapshot (u b2)"
    using snapshot_unsubscribe [OF bus_ok_unsubscribe [OF later(1)]] snapshot_unsubscribe [OF later(1)] S
    by simp
  ultimately show ?thesis using S by (simp add: Publish_snapshot)
qed

theorem subscription_is_exact_witness:
  "\<forall>ev. bus_Publish (snd (Subscribe (Some (\<lambda>_ n. Suc n)) NewEventBus)
      (fst (Subscribe (Some (\<lambda>_ n. n * 2)) (fst (Subscribe (Some (\<lambda>_ n. Suc n)) NewEventBus)))))
    ev 5 = (10 :: nat)"
proof
  fix ev :: flow_event
  let ?b = "fst (Subscribe (Some (\<lambda>_ n. Suc n)) NewEventBus)"
  let ?b2 = "fst (Subscribe (Some (\<lambda>_ n. n * 2)) ?b)"
  have "bus_ok ?b2"
    by (simp add: bus_ok_def Subscribe_def Let_def NewEventBus_def bus_snapshot_def)
  moreover have "bus_snapshot ?b2 = bus_snapshot ?b @ [\<lparr>sub_id = 1, sub_handler = (\<lambda>_ n. n * 2)\<rparr>]"
    by (simp add: Subscribe_def Let_def NewEventBus_def bus_snapshot_def)
  ultimately show "bus_Publish (snd (Subscribe (Some (\<lambda>_ n. Suc n)) NewEventBus) ?b2) ev 5 = (10 :: nat)"
    using subscription_is_exact [OF bus_ok_new _ _, of "\<lambda>_ n. Suc n" ?b
        "snd (Subscribe (Some (\<lambda>_ n. Suc n)) NewEventBus)" ?b2
        "[\<lparr>sub_id = 1, sub_handler = (\<lambda>_ n. n * 2)\<rparr>]" ev 5]
    by (simp add: NewEventBus_def bus_Publish_def)
qed

section \<open>Relations a run respects\<close>

text \<open>
  A relation between the worlds before and after a step that holds for everything the engine
  itself does: delivering block events, rewriting a message under its id, reading the clock
  and drawing a trace id. Then it holds of a run whenever it holds of each block.
\<close>

definition moves_by :: "('w \<Rightarrow> 'w \<Rightarrow> bool) \<Rightarrow> 'w processor \<Rightarrow> bool" where
  "moves_by R P \<longleftrightarrow> (\<forall>c w a w' r. P c w a = (w', r) \<longrightarrow> R w w')"

lemma moves_byD: "moves_by R P \<Longrightarrow> P c w a = (w', r) \<Longrightarrow> R w w'"
  unfolding moves_by_def by blast

locale run_relation =
  fixes R :: "'a run_world_scheme \<Rightarrow> 'a run_world_scheme \<Rightarrow> bool"
  assumes same: "R w w"
    and trans: "R w w1 \<Longrightarrow> R w1 w2 \<Longrightarrow> R w w2"
    and told: "R w (call_listener l ev w)"
    and rewrite: "(\<And>m. EventID (f m) = EventID m) \<Longrightarrow> R w (upd w a f)"
    and draw: "R w (w\<lparr>entropy := e\<rparr>)"
begin

lemma emits: "R w (emit_if obs evs ev w)"
proof (cases evs)
  case (Some l)
  have "R w (fold (\<lambda>r w. if wants r (be_path ev) then call_listener (fn r) ev w else w) rs w)" for rs w
    by (induction rs arbitrary: w) (auto intro: same trans [OF told])
  then show ?thesis using Some same by (simp add: emit_if_def Emit_def)
qed (simp add: emit_if_def same)

lemma invokes:
  assumes "moves_by R (block_process b)" and "invoke evs fname b c w a = (w', r)"
  shows "R w w'"
proof -
  obtain w2 r2 where p: "block_process b c (emit_if (observed evs b) evs
      (mk_event fname BlockPreInvoke b a (heap w a)) w) a = (w2, r2)" by force
  have "R w w2" by (rule trans [OF emits moves_byD [OF assms(1) p]])
  then show ?thesis using assms(2) p trans emits by (fastforce simp: invoke_def Let_def)
qed

lemma runs_blocks:
  assumes "\<forall>b \<in> set bs. moves_by R (block_process b)"
    and "run_blocks evs fname bs c w a = (w', r)"
  shows "R w w'"
  using assms
proof (induction bs arbitrary: w a)
  case (Cons b bs)
  obtain w1 r1 where i: "invoke evs fname b c w a = (w1, r1)" by force
  have l: "R w w1" using invokes [OF _ i] Cons.prems by simp
  show ?case
  proof (cases "\<exists>x. r1 = Out x \<and> \<not> StopRequested (heap w1 x)")
    case True
    then obtain x where "run_blocks evs fname bs c w1 x = (w', r)" using Cons.prems i by auto
    then have "R w1 w'" using Cons by simp
    then show ?thesis using l trans by blast
  next
    case False
    then show ?thesis using Cons.prems i l by (cases r1) auto
  qed
qed (simp add: same)

lemma runs_flow:
  "\<forall>b \<in> set (blocks f). moves_by R (block_process b) \<Longrightarrow> moves_by R (flow_process f)"
  using runs_blocks [of "blocks f" "events f" "flowName f"]
  unfolding flow_process_def moves_by_def [of R "run_blocks (events f) (flowName f) (blocks f)"]
  by blast

lemma draws_trace: "bf_traceID w a = (w', t) \<Longrightarrow> R w w'"
  by (auto simp: bf_traceID_def EnsureTraceID_def newEventID_def Let_def
      intro: same draw trans [OF draw rewrite]
      split: if_splits prod.splits sum.splits list.splits option.splits)

lemma recovers:
  assumes p: "\<forall>q. bf_errorPath bf = Some q \<longrightarrow> moves_by R (flow_process q)"
    and l: "R w w1" and r: "recover bf c a (w1, r1) = (w2, r2)"
  shows "R w w2"
proof (cases "\<exists>e q. r1 = Failed e \<and> bf_errorPath bf = Some q")
  case True
  then obtain e q where q: "r1 = Failed e" "bf_errorPath bf = Some q" by blast
  let ?w1 = "upd w1 a (SetErrorVariable (bf_name bf) e)"
  obtain w3 r3 where f: "flow_process q c ?w1 a = (w3, r3)" by force
  have "R w1 ?w1" by (rule rewrite) simp
  moreover have "moves_by R (flow_process q)" using p q(2) by blast
  from moves_byD [OF this f] have "R ?w1 w3" .
  ultimately have "R w w3" using l trans by blast
  then show ?thesis using r q f by (auto simp: recover_def split: outcome.splits)
next
  case False
  then show ?thesis using l r by (auto simp: recover_def split: outcome.splits option.splits)
qed

end

text \<open>The setters respect every relation of this kind.\<close>

lemma setters_move_by:
  assumes "run_relation R"
  shows "moves_by R (set_variable name program)" "moves_by R (delete_variable name)"
    "moves_by R (set_payload program raw ct)"
  using run_relation.same [OF assms] run_relation.rewrite [OF assms]
  by (auto simp: moves_by_def set_variable_def delete_variable_def set_payload_def SetRawBody_def
      split: sum.splits gval.splits if_splits)

section \<open>The contracts\<close>

record log_world = run_world +
  seen :: "flow_event list"

definition events_of :: "string \<Rightarrow> flow_event list \<Rightarrow> flow_event list" where
  "events_of eid = filter (\<lambda>ev. fe_event_id ev = eid)"

lemma events_of_simps [simp]:
  "events_of eid [] = []"
  "events_of eid (xs @ ys) = events_of eid xs @ events_of eid ys"
  "events_of eid (ev # xs) = (if fe_event_id ev = eid then [ev] else []) @ events_of eid xs"
  by (simp_all add: events_of_def)

text \<open>
  A bus whose subscribers listen: one of them writes the event down, and none changes a
  message or the clock.
\<close>

locale listening_bus =
  fixes b :: "('a log_world_scheme) event_bus"
  assumes logs: "seen (bus_Publish b ev w) = seen w @ [ev]"
    and reads: "heap (bus_Publish b ev w) = heap w" "hp (bus_Publish b ev w) = hp w"
      "clock (bus_Publish b ev w) = clock w" "readings (bus_Publish b ev w) = readings w"

text \<open>
  A processor that leaves an invocation's record alone: it publishes no event under the
  invocation's id (a tail it resumes has an id of its own), keeps the ids of the messages
  that exist, and lets the clock run on.
\<close>

definition later :: "string \<Rightarrow> 'a log_world_scheme \<Rightarrow> 'a log_world_scheme \<Rightarrow> bool" where
  "later eid w w' \<longleftrightarrow> events_of eid (seen w') = events_of eid (seen w) \<and>
     clock w' = clock w \<and> readings w \<le> readings w' \<and> hp w \<le> hp w' \<and>
     (\<forall>y < hp w. EventID (heap w' y) = EventID (heap w y))"

locale courteous =
  fixes eid :: string and P :: "('a log_world_scheme) processor"
  assumes polite: "P c w a = (w', r) \<Longrightarrow> later eid w w'"

lemma later_refl [simp]: "later eid w w"
  by (simp add: later_def)

lemma later_trans: "later eid w w1 \<Longrightarrow> later eid w1 w2 \<Longrightarrow> later eid w w2"
  by (auto simp: later_def)

text \<open>The record of an invocation is a relation the engine respects.\<close>

interpretation kept: run_relation "later eid"
  by standard (auto simp: later_def call_listener_def Let_def upd_def)

lemma courteous_moves_by: "courteous eid P \<longleftrightarrow> moves_by (later eid) P"
  by (auto simp: courteous_def moves_by_def)

lemma courteous_flow:
  "\<forall>b \<in> set (blocks f). courteous eid (block_process b) \<Longrightarrow> courteous eid (flow_process f)"
  by (simp add: courteous_moves_by kept.runs_flow)

text \<open>The setters are polite, and so is every chain of them.\<close>

interpretation setting_variable: courteous eid "set_variable name program"
  unfolding courteous_moves_by by (rule setters_move_by [OF kept.run_relation_axioms])

interpretation deleting_variable: courteous eid "delete_variable name"
  unfolding courteous_moves_by by (rule setters_move_by [OF kept.run_relation_axioms])

interpretation setting_payload: courteous eid "set_payload program raw ct"
  unfolding courteous_moves_by by (rule setters_move_by [OF kept.run_relation_axioms])

section \<open>Two events per invocation\<close>

lemma Now_later: "Now w = (w', t) \<Longrightarrow> later eid w w' \<and> t = clock w (readings w) \<and>
    readings w' = Suc (readings w) \<and> seen w' = seen w \<and> heap w' = heap w \<and> hp w' = hp w \<and>
    clock w' = clock w"
  by (auto simp: Now_def later_def)

context listening_bus
begin

lemma publish_logs:
  assumes "bf_bus bf = Some b"
  shows "\<exists>ev. seen (publish bf oc w) = seen w @ [ev] \<and> fe_kind ev = o_kind oc \<and>
      fe_flow ev = bf_name bf \<and> fe_event_id ev = o_eventID oc \<and> fe_trace_id ev = o_traceID oc \<and>
      fe_duration ev = o_elapsed oc \<and> fe_occurred_at ev = clock w (readings w) \<and>
      fe_err ev = o_err oc \<and> fe_result ev = o_result oc"
    and "heap (publish bf oc w) = heap w" "hp (publish bf oc w) = hp w"
      "clock (publish bf oc w) = clock w" "readings (publish bf oc w) = Suc (readings w)"
  using assms by (simp_all add: publish_def Now_def logs reads)

end

lemma terminal_outcome_simps [simp]:
  "o_eventID (terminal_outcome a eid tid d r) = eid"
  "o_traceID (terminal_outcome a eid tid d r) = tid"
  "o_elapsed (terminal_outcome a eid tid d r) = d"
  "o_kind (terminal_outcome a eid tid d r) =
     (case r of Failed _ \<Rightarrow> FlowEventFailed | Dropped \<Rightarrow> FlowEventDropped | Out _ \<Rightarrow> FlowEventCompleted)"
  "o_err (terminal_outcome a eid tid d r) = (case r of Failed e \<Rightarrow> Some e | _ \<Rightarrow> None)"
  "o_result (terminal_outcome a eid tid d r) = Some (case r of Out x \<Rightarrow> x | _ \<Rightarrow> a)"
  by (simp_all add: terminal_outcome_def Let_def split: outcome.splits)

text \<open>The shape of a run, named step by step.\<close>

lemma bf_run_steps:
  obtains w1 tid w3 started w3' r3 w4 r w5 ended where
    "bf_traceID w a = (w1, tid)"
    "Now (publish bf \<lparr>o_kind = FlowEventStarted, o_eventID = EventID (heap w1 a), o_traceID = tid,
            o_elapsed = 0, o_err = None, o_result = None\<rparr> w1) = (w3, started)"
    "proc c w3 a = (w3', r3)" "recover bf c a (w3', r3) = (w4, r)" "Now w4 = (w5, ended)"
    "bf_run bf c w a proc =
       publish bf (terminal_outcome a (EventID (heap w5 a)) tid (ended - started) r) w5"
  by (simp add: bf_run_def Let_def split: prod.splits) (metis prod.collapse)

definition record_event :: "('a log_world_scheme) handler" where
  "record_event ev w = w\<lparr>seen := seen w @ [ev]\<rparr>"

definition recording_bus :: "('a log_world_scheme) event_bus" where
  "recording_bus = fst (Subscribe (Some record_event) NewEventBus)"

lemma recording_bus_Publish: "bus_Publish recording_bus ev w = w\<lparr>seen := seen w @ [ev]\<rparr>"
  by (simp add: recording_bus_def Subscribe_def NewEventBus_def bus_snapshot_def Let_def bus_Publish_def
      record_event_def)

interpretation recording: listening_bus recording_bus
  by standard (simp_all add: recording_bus_Publish)

definition sample_log :: log_world where
  "sample_log =
     \<lparr>heap = (\<lambda>_. sample_message), hp = 1, entropy = [], deliveries = [], panic_count = 0,
      clock = (\<lambda>n. int n), readings = 0, tracing = False, seen = []\<rparr>"

definition log_block :: "string \<Rightarrow> log_world processor \<Rightarrow> log_world block" where
  "log_block name p =
     \<lparr>bname = name, btype = ''set'', bpath = [], bproc = (\<lambda>_. p), aware = False,
      bcont = None, lifecycle = False, stateKey = None\<rparr>"

definition log_flow :: "log_world block list \<Rightarrow> log_world flow" where
  "log_flow bs = \<lparr>flow_label = ''orders'', blocks = bs, flowName = ''orders'', events = None\<rparr>"

text \<open>A flow whose only block fails, and whose error path sets a variable.\<close>

definition failing_block :: "log_world block" where
  "failing_block = log_block ''price'' (set_variable ''total'' (\<lambda>_ _. Inl (Err ''no such key'')))"

definition mending_block :: "log_world block" where
  "mending_block = log_block ''mend'' (set_variable ''total'' (\<lambda>_ _. Inr (GInt 0)))"

definition sample_bound :: "log_world bound_flow" where
  "sample_bound =
     \<lparr>bf_name = ''orders'', bf_root = log_flow [failing_block],
      bf_errorPath = Some (log_flow [mending_block]), bf_workers = 8, bf_bus = Some recording_bus,
      bf_capacity = []\<rparr>"

lemma sample_bound_simps [simp]:
  "bf_name sample_bound = ''orders''" "bf_root sample_bound = log_flow [failing_block]"
  "bf_errorPath sample_bound = Some (log_flow [mending_block])"
  "bf_bus sample_bound = Some recording_bus"
  by (simp_all add: sample_bound_def)

lemma log_block_process [simp]: "block_process (log_block n p) = p"
  by (simp add: block_process_def log_block_def)

lemma log_flow_courteous:
  "courteous eid (flow_process (log_flow [failing_block]))"
  "courteous eid (flow_process (log_flow [mending_block]))"
  by (rule courteous_flow; simp add: log_flow_def failing_block_def mending_block_def
      setting_variable.courteous_axioms)+

text \<open>
  Every invocation, of a whole flow or of a resumed tail, publishes one started event and
  then one terminal event under the id of its message, and nothing else under that id,
  whether its blocks succeed, drop, fail or recover. Both carry the same trace id; the
  failed event is the one with an error; and on a clock that does not run backwards the
  duration is not negative and fits between the two events.
\<close>

theorem run_reports_once:
  assumes B: "listening_bus b" "bf_bus bf = Some b"
    and P: "courteous (EventID (heap w a)) proc"
    and E: "\<forall>q. bf_errorPath bf = Some q \<longrightarrow> courteous (EventID (heap w a)) (flow_process q)"
    and a: "a < hp w"
  shows "\<exists>started terminal.
    events_of (EventID (heap w a)) (seen (bf_run bf c w a proc)) =
      events_of (EventID (heap w a)) (seen w) @ [started, terminal] \<and>
    fe_kind started = FlowEventStarted \<and> fe_result started = None \<and> fe_duration started = 0 \<and>
    fe_kind terminal \<in> {FlowEventCompleted, FlowEventDropped, FlowEventFailed} \<and>
    (fe_err terminal \<noteq> None \<longleftrightarrow> fe_kind terminal = FlowEventFailed) \<and>
    fe_flow started = bf_name bf \<and> fe_flow terminal = bf_name bf \<and>
    fe_trace_id started = fe_trace_id terminal \<and>
    (mono (clock w) \<longrightarrow> 0 \<le> fe_duration terminal \<and>
       fe_occurred_at started + fe_duration terminal \<le> fe_occurred_at terminal)"
proof -
  let ?id = "EventID (heap w a)"
  obtain w1 tid w3 t0 w3' r3 w4 r w5 t1 where S:
    "bf_traceID w a = (w1, tid)"
    "Now (publish bf \<lparr>o_kind = FlowEventStarted, o_eventID = EventID (heap w1 a), o_traceID = tid,
            o_elapsed = 0, o_err = None, o_result = None\<rparr> w1) = (w3, t0)"
    "proc c w3 a = (w3', r3)" "recover bf c a (w3', r3) = (w4, r)" "Now w4 = (w5, t1)"
    "bf_run bf c w a proc = publish bf (terminal_outcome a (EventID (heap w5 a)) tid (t1 - t0) r) w5"
    by (rule bf_run_steps [of w a bf proc c])
  let ?w2 = "publish bf \<lparr>o_kind = FlowEventStarted, o_eventID = EventID (heap w1 a), o_traceID = tid,
            o_elapsed = 0, o_err = None, o_result = None\<rparr> w1"
  note pub = listening_bus.publish_logs [OF B]
  have l1: "later ?id w w1" by (rule kept.draws_trace [OF S(1)])
  have id1: "EventID (heap w1 a) = ?id" using l1 a by (simp add: later_def)
  obtain ev0 where ev0: "seen ?w2 = seen w1 @ [ev0]" "fe_kind ev0 = FlowEventStarted"
    "fe_flow ev0 = bf_name bf" "fe_event_id ev0 = ?id" "fe_trace_id ev0 = tid" "fe_duration ev0 = 0"
    "fe_occurred_at ev0 = clock w1 (readings w1)" "fe_result ev0 = None"
    using pub(1) [of "\<lparr>o_kind = FlowEventStarted, o_eventID = EventID (heap w1 a), o_traceID = tid,
            o_elapsed = 0, o_err = None, o_result = None\<rparr>" w1] id1 by auto
  note n3 = Now_later [OF S(2), of ?id] and n5 = Now_later [OF S(5), of ?id]
  have l4: "later ?id w3 w4"
    by (rule kept.recovers [OF _ courteous.polite [OF P S(3)] S(4)]) (use E in \<open>simp add: courteous_moves_by\<close>)
  have id5: "EventID (heap w5 a) = ?id"
    using l1 l4 n3 n5 a pub(2,3) id1 by (simp add: later_def)
  obtain ev1 where ev1: "seen (bf_run bf c w a proc) = seen w5 @ [ev1]"
    "fe_kind ev1 = (case r of Failed _ \<Rightarrow> FlowEventFailed | Dropped \<Rightarrow> FlowEventDropped
                           | Out _ \<Rightarrow> FlowEventCompleted)"
    "fe_flow ev1 = bf_name bf" "fe_event_id ev1 = ?id" "fe_trace_id ev1 = tid"
    "fe_duration ev1 = t1 - t0" "fe_occurred_at ev1 = clock w5 (readings w5)"
    "fe_err ev1 = (case r of Failed e \<Rightarrow> Some e | _ \<Rightarrow> None)"
    using pub(1) [of "terminal_outcome a (EventID (heap w5 a)) tid (t1 - t0) r" w5] id5 S(6) by auto
  have evs: "events_of ?id (seen (bf_run bf c w a proc)) = events_of ?id (seen w) @ [ev0, ev1]"
    using ev0 ev1 l1 l4 n3 n5 by (simp add: later_def)
  have times: "0 \<le> t1 - t0 \<and> fe_occurred_at ev0 + (t1 - t0) \<le> fe_occurred_at ev1" if "mono (clock w)"
  proof -
    have "t0 = clock w (Suc (readings w1))" "t1 = clock w (readings w4)"
      "fe_occurred_at ev0 = clock w (readings w1)" "fe_occurred_at ev1 = clock w (Suc (readings w4))"
      "Suc (readings w1) \<le> readings w4"
      using n3 n5 l1 l4 ev0(7) ev1(7) pub(4,5) by (auto simp: later_def)
    then show ?thesis using monoD [OF that] by (smt (verit) Suc_leD le_SucI order_refl)
  qed
  show ?thesis using evs ev0 ev1 times by (intro exI [of _ ev0] exI [of _ ev1]) (auto split: outcome.splits)
qed

theorem run_reports_once_witness:
  "map fe_kind (seen (bf_run sample_bound (Ctx False) sample_log 0
     (flow_process (bf_root sample_bound)))) = [FlowEventStarted, FlowEventCompleted] \<and>
   (\<exists>started terminal. events_of ''e1'' (seen (bf_run sample_bound (Ctx False) sample_log 0
     (flow_process (bf_root sample_bound)))) = [started, terminal])"
proof
  have E: "EventID (heap sample_log 0) = ''e1''" by (simp add: sample_log_def sample_message_def)
  show "map fe_kind (seen (bf_run sample_bound (Ctx False) sample_log 0
     (flow_process (bf_root sample_bound)))) = [FlowEventStarted, FlowEventCompleted]"
    by (simp add: bf_run_def bf_traceID_def sample_log_def publish_def Now_def Let_def
        recording_bus_Publish recover_def flow_process_def log_flow_def invoke_def observed_def
        emit_if_def failing_block_def mending_block_def set_variable_def upd_def
        terminal_outcome_def)
  show "\<exists>started terminal. events_of ''e1'' (seen (bf_run sample_bound (Ctx False) sample_log 0
     (flow_process (bf_root sample_bound)))) = [started, terminal]"
    using run_reports_once [OF recording.listening_bus_axioms, of sample_bound sample_log 0
        "flow_process (bf_root sample_bound)" "Ctx False"] E log_flow_courteous
    by (auto simp: sample_log_def)
qed

section \<open>The report a run refines\<close>

datatype report = RCompleted message | RDropped message | RFailed err message

fun t_report :: "message \<times> tres \<Rightarrow> report" where
  "t_report (m, TSame) = RCompleted m"
| "t_report (m, TNew n) = RCompleted n"
| "t_report (m, TDrop) = RDropped m"
| "t_report (m, TFail e) = RFailed e m"

definition t_recover :: "string \<Rightarrow> transformer \<Rightarrow> transformer option \<Rightarrow> transformer" where
  "t_recover name main alt m =
     (case (main m, alt) of
        ((m', TFail e), Some t) \<Rightarrow> t_map_err (Wrap ''error path'') (t (SetErrorVariable name e m'))
      | (x, _) \<Rightarrow> x)"

fun abs_report :: "'a world_scheme \<Rightarrow> flow_event \<Rightarrow> report" where
  "abs_report w ev =
     (let m = heap w (the (fe_result ev)) in
      case fe_kind ev of
        FlowEventFailed \<Rightarrow> RFailed (the (fe_err ev)) m
      | FlowEventDropped \<Rightarrow> RDropped m
      | _ \<Rightarrow> RCompleted m)"

lemma recover_sem:
  assumes P: "implements proc T" and E: "rel_option (\<lambda>q. implements (flow_process q)) (bf_errorPath bf) alt"
    and a: "a < hp w" and p: "proc c w a = (w1, r1)" and r: "recover bf c a (w1, r1) = (w2, r2)"
  shows "(heap w2 a, abs_outcome w2 a r2) = t_recover (bf_name bf) T alt (heap w a)"
proof -
  have s: "T (heap w a) = (heap w1 a, abs_outcome w1 a r1)" using implements_sem [OF P a p] by simp
  show ?thesis
  proof (cases "\<exists>e q. r1 = Failed e \<and> bf_errorPath bf = Some q")
    case True
    then obtain e q where q: "r1 = Failed e" "bf_errorPath bf = Some q" by blast
    then obtain t where t: "alt = Some t" "implements (flow_process q) t" using E by (cases alt) auto
    let ?w1 = "upd w1 a (SetErrorVariable (bf_name bf) e)"
    obtain w3 r3 where f: "flow_process q c ?w1 a = (w3, r3)" by force
    have "a < hp ?w1"
      using framed_processor.frame [OF implements_framed [OF P] a p] a by (simp add: frames_def)
    from implements_sem [OF t(2) this f]
    have "t (SetErrorVariable (bf_name bf) e (heap w1 a)) = (heap w3 a, abs_outcome w3 a r3)" by simp
    then show ?thesis using s q t f r
      by (cases r3) (auto simp: recover_def t_recover_def)
  next
    case False
    then show ?thesis using s r E
      by (cases r1; cases alt) (auto simp: recover_def t_recover_def split: option.splits)
  qed
qed

text \<open>
  C10. What a flow reports of a message is a function of that message: with a chain and an
  error path that implement transformers, the last event of a run carries the report the
  transformers compute from the message with its trace id. A failure the error path recovers
  is reported as completed or dropped with the error path's outcome, and only an error that
  nothing handled, wrapped when the error path raised it, is reported as failed, with the
  label of the block it came from.
\<close>

theorem run_refines_report:
  assumes B: "listening_bus b" "bf_bus bf = Some b"
    and P: "implements proc T"
    and E: "rel_option (\<lambda>q. implements (flow_process q)) (bf_errorPath bf) alt"
    and a: "a < hp w"
  shows "\<exists>ev. last (seen (bf_run bf c w a proc)) = ev \<and>
    abs_report (bf_run bf c w a proc) ev =
      t_report (t_recover (bf_name bf) T alt (heap (fst (bf_traceID w a)) a)) \<and>
    fe_block ev = (case fe_err ev of Some e \<Rightarrow> FailingBlock e | None \<Rightarrow> [])"
proof -
  obtain w1 tid w3 t0 w3' r3 w4 r w5 t1 where S:
    "bf_traceID w a = (w1, tid)"
    "Now (publish bf \<lparr>o_kind = FlowEventStarted, o_eventID = EventID (heap w1 a), o_traceID = tid,
            o_elapsed = 0, o_err = None, o_result = None\<rparr> w1) = (w3, t0)"
    "proc c w3 a = (w3', r3)" "recover bf c a (w3', r3) = (w4, r)" "Now w4 = (w5, t1)"
    "bf_run bf c w a proc = publish bf (terminal_outcome a (EventID (heap w5 a)) tid (t1 - t0) r) w5"
    by (rule bf_run_steps [of w a bf proc c])
  note pub = listening_bus.publish_logs [OF B]
  have h3: "heap w3 = heap w1" "hp w3 = hp w1"
    using Now_later [OF S(2)] pub(2,3) by simp_all
  have h1: "hp w \<le> hp w1" using kept.draws_trace [OF S(1)] by (simp add: later_def)
  have h5: "heap w5 = heap w4" using Now_later [OF S(5)] by simp
  have "a < hp w3" using a h1 h3 by simp
  from recover_sem [OF P E this S(3,4)]
  have sem: "t_recover (bf_name bf) T alt (heap w1 a) = (heap w4 a, abs_outcome w4 a r)"
    using h3 by simp
  let ?oc = "terminal_outcome a (EventID (heap w5 a)) tid (t1 - t0) r"
  obtain ev where ev: "seen (publish bf ?oc w5) = seen w5 @ [ev]" "fe_kind ev = o_kind ?oc"
    "fe_err ev = o_err ?oc" "fe_result ev = o_result ?oc"
    "fe_block ev = (case o_err ?oc of Some e \<Rightarrow> FailingBlock e | None \<Rightarrow> [])"
    using B(2) by (simp add: publish_def Now_def listening_bus.logs [OF B(1)])
  have "abs_report (publish bf ?oc w5) ev = t_report (heap w4 a, abs_outcome w4 a r)"
    using ev pub(2) h5 by (cases r) (auto simp: Let_def)
  then show ?thesis using S sem ev by (intro exI [of _ ev]) (simp add: Let_def)
qed

theorem run_refines_report_witness:
  "abs_report (bf_run sample_bound (Ctx False) sample_log 0 (flow_process (bf_root sample_bound)))
     (last (seen (bf_run sample_bound (Ctx False) sample_log 0 (flow_process (bf_root sample_bound))))) =
   RCompleted (SetVar ''total'' (GInt 0) (SetErrorVariable ''orders''
     (BlockError ''price'' (Wrap (''set-variable '' @ quote ''total'' @ '' value'') (Err ''no such key'')))
     sample_message))"
proof -
  let ?T = "t_chain [(''price'', t_set_variable ''total'' (\<lambda>_. Inl (Err ''no such key'')))]"
  let ?A = "t_chain [(''mend'', t_set_variable ''total'' (\<lambda>_. Inr (GInt 0)))]"
  have T: "implements (flow_process (bf_root sample_bound)) ?T"
    using implements_flow_process [of "log_flow [failing_block]"
        "[t_set_variable ''total'' (\<lambda>_. Inl (Err ''no such key''))]"]
    by (simp add: log_flow_def failing_block_def set_variable.implements_axioms block_label_def
        log_block_def block_process_def blockLabel_def)
  have A: "implements (flow_process (log_flow [mending_block])) ?A"
    using implements_flow_process [of "log_flow [mending_block]"
        "[t_set_variable ''total'' (\<lambda>_. Inr (GInt 0))]"]
    by (simp add: log_flow_def mending_block_def set_variable.implements_axioms block_label_def
        log_block_def block_process_def blockLabel_def)
  have "fst (bf_traceID sample_log 0) = sample_log"
    by (simp add: bf_traceID_def sample_log_def)
  then show ?thesis
    using run_refines_report [OF recording.listening_bus_axioms _ T, of sample_bound "Some ?A" 0
        sample_log "Ctx False"] A
    by (simp add: sample_log_def t_recover_def t_set_variable_def unless_stopped_def)
qed

section \<open>Sizing, capacity and the blocks with background work\<close>

text \<open>
  A running flow always has a worker and a buffer: the sizes used are positive, a
  configured size is used as given, and when neither is configured the buffer holds at least
  one message per worker, whatever the number of processors reported.
\<close>

theorem flow_sizes_positive:
  "0 < resolveWorkers n procs \<and> 0 < resolveBuffer k (resolveWorkers n procs) \<and>
   (0 < n \<longrightarrow> resolveWorkers n procs = n) \<and> (0 < k \<longrightarrow> resolveBuffer k ws = k) \<and>
   (n \<le> 0 \<longrightarrow> 8 \<le> resolveWorkers n procs \<and> 4 * procs \<le> resolveWorkers n procs) \<and>
   (k \<le> 0 \<longrightarrow> ws \<le> resolveBuffer k ws \<and> 64 \<le> resolveBuffer k ws)"
  by (auto simp: resolveWorkers_def resolveBuffer_def defaultWorkers_def defaultBuffer_def
      workersPerProc_def)

theorem flow_sizes_positive_witness:
  "resolveWorkers 0 16 = 64 \<and> 64 \<le> resolveBuffer (- 1) 64 \<and> resolveWorkers 3 16 = 3"
  using flow_sizes_positive [of 0 16 "- 1" 64] flow_sizes_positive [of 3 16 0 0]
  by (simp add: resolveWorkers_def defaultWorkers_def workersPerProc_def)

lemma stop_all_asks_everyone: "fst (stop_all name stop bs) = bs"
  by (induction bs) (auto split: prod.splits)

lemma stop_all_errors:
  "snd (stop_all name stop bs) =
     map (Wrap (''flow '' @ quote name @ '': stop block'')) (List.map_filter stop bs)"
  by (induction bs) (auto simp: map_filter_simps split: prod.splits option.splits)

lemma start_all_prefix:
  "start_all name start bs = (up, r) \<Longrightarrow>
   up = takeWhile (\<lambda>b. start b = None) bs \<and>
   (r = None \<longleftrightarrow> (\<forall>b \<in> set bs. start b = None))"
  by (induction bs arbitrary: up) (auto split: prod.splits option.splits)

text \<open>
  Stopping a flow asks every block with background work, in both chains, even when some
  fail to stop, and reports exactly their errors; starting ends at the first block that
  refuses, with the blocks before it running.
\<close>

theorem lifecycle_start_stop:
  "fst (stopProcessors bf stop) = lifecycleProcessors bf \<and>
   (snd (stopProcessors bf stop) = None \<longleftrightarrow> (\<forall>b \<in> set (lifecycleProcessors bf). stop b = None)) \<and>
   fst (startProcessors bf start) = takeWhile (\<lambda>b. start b = None) (lifecycleProcessors bf) \<and>
   (snd (startProcessors bf start) = None \<longleftrightarrow>
      fst (startProcessors bf start) = lifecycleProcessors bf)"
proof (intro conjI)
  obtain asked errs where s: "stop_all (bf_name bf) stop (lifecycleProcessors bf) = (asked, errs)"
    by force
  show "fst (stopProcessors bf stop) = lifecycleProcessors bf"
    using stop_all_asks_everyone [of "bf_name bf" stop "lifecycleProcessors bf"] s
    by (simp add: stopProcessors_def)
  have e: "errs = map (Wrap (''flow '' @ quote (bf_name bf) @ '': stop block''))
      (List.map_filter stop (lifecycleProcessors bf))"
    using stop_all_errors [of "bf_name bf" stop "lifecycleProcessors bf"] s by simp
  have "errors_join (map Some errs) = None \<longleftrightarrow> errs = []"
    by (cases errs) (simp_all add: errors_join_def map_filter_simps)
  also have "\<dots> \<longleftrightarrow> (\<forall>b \<in> set (lifecycleProcessors bf). stop b = None)"
    by (auto simp: e List.map_filter_def filter_empty_conv)
  finally show "snd (stopProcessors bf stop) = None \<longleftrightarrow>
      (\<forall>b \<in> set (lifecycleProcessors bf). stop b = None)"
    using s by (simp add: stopProcessors_def)
  obtain up r where u: "start_all (bf_name bf) start (lifecycleProcessors bf) = (up, r)" by force
  note p = start_all_prefix [OF u]
  then show "fst (startProcessors bf start) = takeWhile (\<lambda>b. start b = None) (lifecycleProcessors bf)"
    using u by (simp add: startProcessors_def)
  show "snd (startProcessors bf start) = None \<longleftrightarrow>
      fst (startProcessors bf start) = lifecycleProcessors bf"
    using p u by (simp add: startProcessors_def takeWhile_eq_all_conv)
qed

end
