(* ===== verification/Octo_Flow_Calls.thy ===== *)
theory Octo_Flow_Calls
  imports Octo_Reports
begin

text \<open>
  Calling a flow by name: the registry of \<^verbatim>\<open>runtime/core/runtime/flowregistry.go\<close>
  that implements \<^verbatim>\<open>core.FlowCaller\<close>, the implicit source that fills it
  (\<^verbatim>\<open>runtime/core/runtime/implicitsource.go\<close>), and the \<^verbatim>\<open>flow-ref\<close>
  block (\<^verbatim>\<open>runtime/blocks/builtin/flowref.go\<close>).

  Channels are numbered. The input channel of a flow is a bounded buffer that may be closed;
  a reply channel is a buffer of one, empty or full. A select with two ready cases takes
  either, which the argument \<open>pick\<close> decides.
\<close>

section \<open>The registry\<close>

record call_result =
  cr_msg :: "addr option"
  cr_err :: "err option"

record flow_registry =
  chans :: "string \<rightharpoonup> nat"
  pending :: "string \<rightharpoonup> nat"
  replies :: "nat \<Rightarrow> call_result option"
  next_reply :: nat

definition empty_registry :: flow_registry where
  "empty_registry =
     \<lparr>chans = Map.empty, pending = Map.empty, replies = (\<lambda>_. None), next_reply = 0\<rparr>"

definition register :: "string \<Rightarrow> nat \<Rightarrow> flow_registry \<Rightarrow> (err, flow_registry) res" where
  "register name ch r =
     (if name = [] then Inl (Err ''a callable flow requires a name'')
      else if chans r name \<noteq> None then Inl (Err (''flow '' @ quote name @ '' is already registered''))
      else Inr (r\<lparr>chans := (chans r)(name \<mapsto> ch)\<rparr>))"

definition deregister :: "string \<Rightarrow> flow_registry \<Rightarrow> flow_registry" where
  "deregister name r = r\<lparr>chans := (chans r)(name := None)\<rparr>"

definition lookup_chan :: "string \<Rightarrow> flow_registry \<Rightarrow> nat option" where
  "lookup_chan name r = chans r name"

definition track :: "string \<Rightarrow> flow_registry \<Rightarrow> flow_registry \<times> nat" where
  "track eventID r =
     (let ch = next_reply r in
      (r\<lparr>pending := (pending r)(eventID \<mapsto> ch), next_reply := Suc ch\<rparr>, ch))"

definition forget :: "string \<Rightarrow> flow_registry \<Rightarrow> flow_registry" where
  "forget eventID r = r\<lparr>pending := (pending r)(eventID := None)\<rparr>"

definition result_of :: "flow_event \<Rightarrow> call_result" where
  "result_of ev =
     (let res = \<lparr>cr_msg = None, cr_err = None\<rparr> in
      case fe_kind ev of
        FlowEventCompleted \<Rightarrow> res\<lparr>cr_msg := fe_result ev\<rparr>
      | FlowEventFailed \<Rightarrow> res\<lparr>cr_err := fe_err ev\<rparr>
      | _ \<Rightarrow> res)"

text \<open>The send into a full reply channel is dropped.\<close>

definition onFlowEvent :: "flow_event \<Rightarrow> flow_registry \<Rightarrow> flow_registry" where
  "onFlowEvent ev r =
     (if fe_kind ev = FlowEventStarted then r
      else (case pending r (fe_event_id ev) of
              None \<Rightarrow> r
            | Some ch \<Rightarrow>
                if replies r ch = None then r\<lparr>replies := (replies r)(ch \<mapsto> result_of ev)\<rparr> else r))"

definition receive :: "nat \<Rightarrow> flow_registry \<Rightarrow> flow_registry" where
  "receive ch r = r\<lparr>replies := (replies r)(ch := None)\<rparr>"

section \<open>Sending and calling\<close>

record channel =
  buffer :: "addr list"
  ch_cap :: nat
  ch_closed :: bool

record call_world = run_world +
  reg :: flow_registry
  channels :: "nat \<Rightarrow> channel"

definition on_reg ::
  "(flow_registry \<Rightarrow> flow_registry) \<Rightarrow> 'a call_world_scheme \<Rightarrow> 'a call_world_scheme" where
  "on_reg f w = w\<lparr>reg := f (reg w)\<rparr>"

definition newFlowRegistry ::
  "('a call_world_scheme) event_bus option
     \<Rightarrow> ('a call_world_scheme) event_bus option \<times>
        (('a call_world_scheme) event_bus \<Rightarrow> ('a call_world_scheme) event_bus)" where
  "newFlowRegistry bus =
     (case bus of
        None \<Rightarrow> (None, \<lambda>b. b)
      | Some b \<Rightarrow>
          (case Subscribe (Some (\<lambda>ev. on_reg (onFlowEvent ev))) b of (b', unsub) \<Rightarrow> (Some b', unsub)))"

definition errFlowGone :: err where
  "errFlowGone = Err ''target flow is shutting down''"

definition ctx_Err :: err where
  "ctx_Err = Err ''context canceled''"

datatype 'r waiting = Blocked | Now_ready 'r

text \<open>
  A closed channel is ready to send on, and panics: the deferred recover makes it an error.
\<close>

definition chan_ready :: "channel \<Rightarrow> bool" where
  "chan_ready ch \<longleftrightarrow> ch_closed ch \<or> length (buffer ch) < ch_cap ch"

definition Send ::
  "bool \<Rightarrow> ctx \<Rightarrow> string \<Rightarrow> addr \<Rightarrow> 'a call_world_scheme
     \<Rightarrow> 'a call_world_scheme \<times> err option waiting" where
  "Send pick c name a w =
     (case lookup_chan name (reg w) of
        None \<Rightarrow> (w, Now_ready (Some (Err (''flow '' @ quote name @ '' is not registered''))))
      | Some i \<Rightarrow>
          let ch = channels w i in
          if chan_ready ch \<and> (\<not> cancelled c \<or> pick)
          then if ch_closed ch
               then (w, Now_ready (Some (Wrap (''send to flow '' @ quote name) errFlowGone)))
               else (w\<lparr>channels := (channels w)(i := ch\<lparr>buffer := buffer ch @ [a]\<rparr>)\<rparr>, Now_ready None)
          else if cancelled c
          then (w, Now_ready (Some (Wrap (''send to flow '' @ quote name) ctx_Err)))
          else (w, Blocked))"

text \<open>
  \<open>Call\<close> runs in two parts around the wait for the reply. The first tracks and sends; an
  error of the send ends the call. The second takes the reply, or gives up with the context.
  The tracking is undone whenever the call ends.
\<close>

definition call_begin ::
  "bool \<Rightarrow> ctx \<Rightarrow> string \<Rightarrow> addr \<Rightarrow> 'a call_world_scheme
     \<Rightarrow> 'a call_world_scheme \<times> (err, nat) res waiting" where
  "call_begin pick c name a w =
     (case track (EventID (heap w a)) (reg w) of (r, ch) \<Rightarrow>
        (case Send pick c name a (w\<lparr>reg := r\<rparr>) of
           (w1, Now_ready (Some e)) \<Rightarrow> (on_reg (forget (EventID (heap w a))) w1, Now_ready (Inl e))
         | (w1, Now_ready None) \<Rightarrow> (w1, Now_ready (Inr ch))
         | (w1, Blocked) \<Rightarrow> (w1, Blocked)))"

definition call_end ::
  "bool \<Rightarrow> ctx \<Rightarrow> string \<Rightarrow> addr \<Rightarrow> nat \<Rightarrow> 'a call_world_scheme
     \<Rightarrow> 'a call_world_scheme \<times> (err, addr option) res waiting" where
  "call_end pick c name a ch w =
     (let fin = on_reg (forget (EventID (heap w a))) in
      case replies (reg w) ch of
        Some res \<Rightarrow>
          if \<not> cancelled c \<or> pick
          then (fin (on_reg (receive ch) w),
                Now_ready (case cr_err res of Some e \<Rightarrow> Inl e | None \<Rightarrow> Inr (cr_msg res)))
          else (fin w, Now_ready (Inl (Wrap (''call flow '' @ quote name) ctx_Err)))
      | None \<Rightarrow>
          if cancelled c then (fin w, Now_ready (Inl (Wrap (''call flow '' @ quote name) ctx_Err)))
          else (w, Blocked))"

text \<open>A worker of a flow takes the next message off the flow's channel and runs it.\<close>

definition worker_step ::
  "('a call_world_scheme) bound_flow \<Rightarrow> nat \<Rightarrow> ctx \<Rightarrow> 'a call_world_scheme \<Rightarrow> 'a call_world_scheme" where
  "worker_step bf i c w =
     (case buffer (channels w i) of
        [] \<Rightarrow> w
      | a # rest \<Rightarrow>
          handle bf c (w\<lparr>channels := (channels w)(i := (channels w i)\<lparr>buffer := rest\<rparr>)\<rparr>) a)"

section \<open>The implicit source\<close>

record implicit_source =
  is_name :: string
  is_out :: nat

definition is_Start :: "implicit_source \<Rightarrow> flow_registry \<Rightarrow> (err, flow_registry) res" where
  "is_Start s r = register (is_name s) (is_out s) r"

definition is_Stop :: "implicit_source \<Rightarrow> flow_registry \<Rightarrow> flow_registry" where
  "is_Stop s r = deregister (is_name s) r"

section \<open>The flow-ref block\<close>

text \<open>
  \<^verbatim>\<open>core.FlowCaller\<close>: \<open>Call\<close> returns an error, nothing (dropped) or a message;
  \<open>SendTo\<close> an error or nil.
\<close>

record 'w flow_caller =
  fc_Call :: "ctx \<Rightarrow> string \<Rightarrow> 'w \<Rightarrow> addr \<Rightarrow> 'w \<times> (err, addr option) res"
  fc_Send :: "ctx \<Rightarrow> string \<Rightarrow> 'w \<Rightarrow> addr \<Rightarrow> 'w \<times> err option"

record flow_ref_settings =
  ref_flow :: string
  ref_oneWay :: bool

definition fold_result :: "message \<Rightarrow> message \<Rightarrow> message" where
  "fold_result result m =
     (let m1 = (SetBody (Body result) m)\<lparr>RawContent := RawContent result\<rparr>
      in m1\<lparr>Variables := Variables m1 ++ Variables result\<rparr>)"

definition flow_ref :: "('a world_scheme) flow_caller \<Rightarrow> string \<Rightarrow> bool \<Rightarrow> ('a world_scheme) processor" where
  "flow_ref caller flow oneWay c w a =
     (let fail = (\<lambda>e. Failed (Wrap (''flow-ref '' @ quote flow) e)) in
      case Clone w a of (w1, sub) \<Rightarrow>
        (case Rekey w1 sub of
           (w2, Inl e) \<Rightarrow> (w2, fail e)
         | (w2, Inr _) \<Rightarrow>
             if oneWay
             then (case fc_Send caller c flow w2 sub of
                     (w3, Some e) \<Rightarrow> (w3, fail e)
                   | (w3, None) \<Rightarrow> (w3, Out a))
             else (case fc_Call caller c flow w2 sub of
                     (w3, Inl e) \<Rightarrow> (w3, fail e)
                   | (w3, Inr None) \<Rightarrow> (w3, Out a)
                   | (w3, Inr (Some result)) \<Rightarrow>
                       (upd w3 a (fold_result (heap w3 result)), Out a))))"

definition newFlowRef ::
  "(err, flow_ref_settings) res \<Rightarrow> ('a world_scheme) flow_caller option
     \<Rightarrow> (err, ('a world_scheme) processor) res" where
  "newFlowRef decoded flows =
     (case decoded of
        Inl e \<Rightarrow> Inl e
      | Inr cfg \<Rightarrow>
          if ref_flow cfg = [] then Inl (Err ''flow-ref requires a flow name'')
          else (case flows of
                  None \<Rightarrow> Inl (Err ''flow-ref requires a flow caller (not available in this context)'')
                | Some caller \<Rightarrow> Inr (flow_ref caller (ref_flow cfg) (ref_oneWay cfg))))"

section \<open>The registry as a caller\<close>

text \<open>
  \<open>env\<close> is what the rest of the runtime does while the caller is parked. A goroutine that
  wakes up without its channel being ready was woken by its context.
\<close>

definition woken :: "ctx \<Rightarrow> bool \<Rightarrow> ctx" where
  "woken c ready = (if ready then c else Ctx True)"

definition await :: "'r \<Rightarrow> 'w \<times> 'r waiting \<Rightarrow> 'w \<times> 'r" where
  "await gone x = (case x of (w, Now_ready r) \<Rightarrow> (w, r) | (w, Blocked) \<Rightarrow> (w, gone))"

definition Send_wait ::
  "('a call_world_scheme \<Rightarrow> 'a call_world_scheme) \<Rightarrow> bool \<Rightarrow> ctx \<Rightarrow> string \<Rightarrow> addr
     \<Rightarrow> 'a call_world_scheme \<Rightarrow> 'a call_world_scheme \<times> err option" where
  "Send_wait env pick c name a w =
     (case Send pick c name a w of
        (w1, Now_ready r) \<Rightarrow> (w1, r)
      | (w1, Blocked) \<Rightarrow>
          let w2 = env w1;
              ready = (case lookup_chan name (reg w) of
                         Some i \<Rightarrow> chan_ready (channels w2 i) | None \<Rightarrow> False)
          in await (Some ctx_Err) (Send pick (woken c ready) name a w2))"

definition Call_wait ::
  "('a call_world_scheme \<Rightarrow> 'a call_world_scheme) \<Rightarrow> bool \<Rightarrow> ctx \<Rightarrow> string \<Rightarrow> addr
     \<Rightarrow> 'a call_world_scheme \<Rightarrow> 'a call_world_scheme \<times> (err, addr option) res" where
  "Call_wait env pick c name a w =
     (let eid = EventID (heap w a) in
      case track eid (reg w) of (r, ch) \<Rightarrow>
        (case Send_wait env pick c name a (w\<lparr>reg := r\<rparr>) of
           (w1, Some e) \<Rightarrow> (on_reg (forget eid) w1, Inl e)
         | (w1, None) \<Rightarrow>
             let w2 = env w1
             in await (Inl ctx_Err)
                  (call_end pick (woken c (replies (reg w2) ch \<noteq> None)) name a ch w2)))"

definition registry_caller ::
  "('a call_world_scheme \<Rightarrow> 'a call_world_scheme) \<Rightarrow> bool \<Rightarrow> ('a call_world_scheme) flow_caller" where
  "registry_caller env pick =
     \<lparr>fc_Call = (\<lambda>c name w a. Call_wait env pick c name a w),
      fc_Send = (\<lambda>c name w a. Send_wait env pick c name a w)\<rparr>"

section \<open>Replies reach the caller they belong to\<close>

text \<open>
  Every pending invocation has a reply channel of its own, and channels not yet handed out
  are empty.
\<close>

definition registry_ok :: "flow_registry \<Rightarrow> bool" where
  "registry_ok r \<longleftrightarrow>
     (\<forall>e ch. pending r e = Some ch \<longrightarrow> ch < next_reply r) \<and>
     (\<forall>e e' ch. pending r e = Some ch \<longrightarrow> pending r e' = Some ch \<longrightarrow> e = e') \<and>
     (\<forall>ch. next_reply r \<le> ch \<longrightarrow> replies r ch = None)"

datatype reg_action =
    Track string | Forget string | Publish_event flow_event | Receive nat
  | Register string nat | Deregister string

fun reg_step :: "reg_action \<Rightarrow> flow_registry \<Rightarrow> flow_registry" where
  "reg_step (Track e) r = fst (track e r)"
| "reg_step (Forget e) r = forget e r"
| "reg_step (Publish_event ev) r = onFlowEvent ev r"
| "reg_step (Receive ch) r = receive ch r"
| "reg_step (Register name ch) r = (case register name ch r of Inr r' \<Rightarrow> r' | Inl _ \<Rightarrow> r)"
| "reg_step (Deregister name) r = deregister name r"

lemma registry_ok_empty: "registry_ok empty_registry"
  by (simp add: registry_ok_def empty_registry_def)

lemma registry_ok_step: "registry_ok r \<Longrightarrow> registry_ok (reg_step x r)"
  by (cases x)
    (fastforce simp: registry_ok_def track_def forget_def onFlowEvent_def receive_def register_def
        deregister_def Let_def split: option.splits if_splits)+

definition terminal_for :: "string \<Rightarrow> flow_event \<Rightarrow> bool" where
  "terminal_for eid ev \<longleftrightarrow> fe_kind ev \<noteq> FlowEventStarted \<and> fe_event_id ev = eid"

fun published :: "reg_action list \<Rightarrow> flow_event list" where
  "published [] = []"
| "published (Publish_event ev # xs) = ev # published xs"
| "published (x # xs) = published xs"

text \<open>The steps of others leave a pending invocation and its reply alone.\<close>

definition foreign :: "string \<Rightarrow> nat \<Rightarrow> reg_action \<Rightarrow> bool" where
  "foreign eid ch x \<longleftrightarrow> x \<noteq> Track eid \<and> x \<noteq> Forget eid \<and> x \<noteq> Receive ch"

lemma foreign_step:
  assumes "registry_ok r" and "pending r eid = Some ch" and "foreign eid ch x"
  shows "pending (reg_step x r) eid = Some ch"
    and "replies (reg_step x r) ch =
      (case replies r ch of
         Some res \<Rightarrow> Some res
       | None \<Rightarrow> (case x of Publish_event ev \<Rightarrow> if terminal_for eid ev then Some (result_of ev) else None
                 | _ \<Rightarrow> None))"
  using assms
  by (cases x; fastforce simp: registry_ok_def track_def forget_def onFlowEvent_def receive_def
      register_def deregister_def foreign_def terminal_for_def Let_def split: option.splits if_splits)+

lemma replies_fold:
  "registry_ok r \<Longrightarrow> pending r eid = Some ch \<Longrightarrow> \<forall>x \<in> set xs. foreign eid ch x \<Longrightarrow>
   replies (fold reg_step xs r) ch =
     (case replies r ch of
        Some res \<Rightarrow> Some res
      | None \<Rightarrow> map_option result_of (find (terminal_for eid) (published xs)))"
proof (induction xs arbitrary: r)
  case Nil
  then show ?case by (simp split: option.splits)
next
  case (Cons x xs)
  have f: "foreign eid ch x" using Cons.prems by simp
  note S = foreign_step [OF Cons.prems(1,2) f]
  have "replies (fold reg_step xs (reg_step x r)) ch =
     (case replies (reg_step x r) ch of
        Some res \<Rightarrow> Some res
      | None \<Rightarrow> map_option result_of (find (terminal_for eid) (published xs)))"
    using Cons.IH [OF registry_ok_step [OF Cons.prems(1)] S(1)] Cons.prems(3) by simp
  then show ?case using S(2) by (cases x) (auto split: option.splits)
qed

text \<open>
  C14. Whatever the other callers, flows and sources do meanwhile, in any interleaving, the
  reply a parked caller finds is the outcome of the first terminal event published under the
  id it is waiting for, and nothing else: no other invocation's answer, not a started event,
  not a later event; and it finds nothing until that event has been published.
\<close>

theorem reply_is_own_outcome:
  assumes "registry_ok r" and "track eid r = (r1, ch)"
    and "\<forall>x \<in> set xs. x \<noteq> Track eid \<and> x \<noteq> Forget eid \<and> x \<noteq> Receive ch"
  shows "registry_ok (fold reg_step xs r1) \<and>
    replies (fold reg_step xs r1) ch =
      map_option result_of
        (find (\<lambda>ev. fe_kind ev \<noteq> FlowEventStarted \<and> fe_event_id ev = eid) (published xs))"
proof -
  have r1: "registry_ok r1" using registry_ok_step [OF assms(1), of "Track eid"] assms(2) by simp
  have ok: "registry_ok (fold reg_step xs r1)" using r1
    by (induction xs arbitrary: r1) (auto intro: registry_ok_step)
  have "pending r1 eid = Some ch" "replies r1 ch = None"
    using assms(1,2) by (auto simp: track_def Let_def registry_ok_def)
  then have "replies (fold reg_step xs r1) ch =
      map_option result_of (find (terminal_for eid) (published xs))"
    using replies_fold [OF r1, of eid ch xs] assms(3) by (simp add: foreign_def)
  then show ?thesis using ok by (simp add: terminal_for_def [abs_def])
qed

definition sample_done :: "string \<Rightarrow> addr \<Rightarrow> flow_event" where
  "sample_done eid a =
     \<lparr>fe_kind = FlowEventCompleted, fe_flow = ''pricing'', fe_event_id = eid, fe_trace_id = [],
      fe_occurred_at = 0, fe_duration = 0, fe_err = None, fe_block = [], fe_result = Some a\<rparr>"

theorem reply_is_own_outcome_witness:
  "replies (fold reg_step [Track ''b'', Publish_event (sample_done ''b'' 7),
      Publish_event (sample_done ''a'' 3), Forget ''b'', Publish_event (sample_done ''a'' 9)]
      (fst (track ''a'' empty_registry))) 0 = Some \<lparr>cr_msg = Some 3, cr_err = None\<rparr>"
proof -
  have "track ''a'' empty_registry = (fst (track ''a'' empty_registry), 0)"
    by (simp add: track_def empty_registry_def Let_def)
  from reply_is_own_outcome [OF registry_ok_empty this, of
      "[Track ''b'', Publish_event (sample_done ''b'' 7), Publish_event (sample_done ''a'' 3),
        Forget ''b'', Publish_event (sample_done ''a'' 9)]"]
  show ?thesis by (simp add: sample_done_def result_of_def)
qed

section \<open>A call returns what the called flow makes of the message\<close>

text \<open>A bus on which the registry listens, and nobody changes a message.\<close>

locale answering_bus =
  fixes b :: "('a call_world_scheme) event_bus"
  assumes answers: "reg (bus_Publish b ev w) = onFlowEvent ev (reg w)"
    and reads: "heap (bus_Publish b ev w) = heap w" "hp (bus_Publish b ev w) = hp w"
      "channels (bus_Publish b ev w) = channels w"

definition registry_bus :: "('a call_world_scheme) event_bus" where
  "registry_bus = the (fst (newFlowRegistry (Some NewEventBus)))"

interpretation answered: answering_bus registry_bus
  by standard
    (simp_all add: registry_bus_def newFlowRegistry_def Subscribe_def NewEventBus_def bus_snapshot_def
      bus_Publish_def on_reg_def Let_def)

text \<open>
  What a called flow may do to a pending call: leave its entry and its reply channel alone
  and keep the ids of the messages.
\<close>

definition discreet :: "string \<Rightarrow> nat \<Rightarrow> 'a call_world_scheme \<Rightarrow> 'a call_world_scheme \<Rightarrow> bool" where
  "discreet eid ch w w' \<longleftrightarrow> pending (reg w') eid = pending (reg w) eid \<and>
     replies (reg w') ch = replies (reg w) ch \<and> hp w \<le> hp w' \<and>
     (\<forall>y < hp w. EventID (heap w' y) = EventID (heap w y))"

interpretation discreetly: run_relation "discreet eid ch"
  by standard (auto simp: discreet_def call_listener_def Let_def upd_def)

context answering_bus
begin

lemma publish_answers:
  assumes "bf_bus bf = Some b"
  shows "\<exists>ev. reg (publish bf oc w) = onFlowEvent ev (reg w) \<and> fe_kind ev = o_kind oc \<and>
      fe_event_id ev = o_eventID oc \<and> fe_err ev = o_err oc \<and> fe_result ev = o_result oc"
    and "heap (publish bf oc w) = heap w" "hp (publish bf oc w) = hp w"
proof -
  show "\<exists>ev. reg (publish bf oc w) = onFlowEvent ev (reg w) \<and> fe_kind ev = o_kind oc \<and>
      fe_event_id ev = o_eventID oc \<and> fe_err ev = o_err oc \<and> fe_result ev = o_result oc"
    using assms by (simp add: publish_def Now_def answers) (rule exI, rule conjI, rule refl, simp)
qed (use assms in \<open>simp_all add: publish_def Now_def reads\<close>)

text \<open>
  One invocation on this bus answers the caller that is waiting for it, with the report of
  the chains of the flow.
\<close>

lemma run_answers:
  assumes bus: "bf_bus bf = Some b" and a: "a < hp w"
    and P: "implements proc T"
    and E: "rel_option (\<lambda>q. implements (flow_process q)) (bf_errorPath bf) alt"
    and D: "moves_by (discreet (EventID (heap w a)) ch) proc"
      "\<forall>q. bf_errorPath bf = Some q \<longrightarrow> moves_by (discreet (EventID (heap w a)) ch) (flow_process q)"
    and waiting: "pending (reg w) (EventID (heap w a)) = Some ch" "replies (reg w) ch = None"
  obtains res where "replies (reg (bf_run bf c w a proc)) ch = Some res"
    "case t_report (t_recover (bf_name bf) T alt (heap (fst (bf_traceID w a)) a)) of
       RCompleted m \<Rightarrow> cr_err res = None \<and>
         (\<exists>x. cr_msg res = Some x \<and> heap (bf_run bf c w a proc) x = m)
     | RDropped _ \<Rightarrow> res = \<lparr>cr_msg = None, cr_err = None\<rparr>
     | RFailed e _ \<Rightarrow> cr_err res = Some e"
proof -
  let ?id = "EventID (heap w a)"
  obtain w1 tid w3 t0 w3' r3 w4 r w5 t1 where S:
    "bf_traceID w a = (w1, tid)"
    "Now (publish bf \<lparr>o_kind = FlowEventStarted, o_eventID = EventID (heap w1 a), o_traceID = tid,
            o_elapsed = 0, o_err = None, o_result = None\<rparr> w1) = (w3, t0)"
    "proc c w3 a = (w3', r3)" "recover bf c a (w3', r3) = (w4, r)" "Now w4 = (w5, t1)"
    "bf_run bf c w a proc = publish bf (terminal_outcome a (EventID (heap w5 a)) tid (t1 - t0) r) w5"
    by (rule bf_run_steps [of w a bf proc c])
  note pub = publish_answers [OF bus]
  have d1: "discreet ?id ch w w1" by (rule discreetly.draws_trace [OF S(1)])
  have w3: "reg w3 = reg w1" "heap w3 = heap w1" "hp w3 = hp w1"
    using S(2) pub(1) [of "\<lparr>o_kind = FlowEventStarted, o_eventID = EventID (heap w1 a), o_traceID = tid,
            o_elapsed = 0, o_err = None, o_result = None\<rparr>" w1] pub(2,3)
    by (auto simp: Now_def onFlowEvent_def)
  have "discreet ?id ch w3 w4"
    using discreetly.recovers [OF D(2) moves_byD [OF D(1) S(3)] S(4)] .
  then have d4: "discreet ?id ch w w4" using d1 w3 by (auto simp: discreet_def)
  have w5: "heap w5 = heap w4" "reg w5 = reg w4" using S(5) by (auto simp: Now_def)
  have "a < hp w3" using a d1 w3 by (simp add: discreet_def)
  from recover_sem [OF P E this S(3,4)]
  have sem: "t_recover (bf_name bf) T alt (heap w1 a) = (heap w4 a, abs_outcome w4 a r)"
    using w3 by simp
  let ?oc = "terminal_outcome a (EventID (heap w5 a)) tid (t1 - t0) r"
  obtain ev where ev: "reg (publish bf ?oc w5) = onFlowEvent ev (reg w4)" "fe_kind ev = o_kind ?oc"
    "fe_event_id ev = ?id" "fe_err ev = o_err ?oc" "fe_result ev = o_result ?oc"
    using pub(1) [of ?oc w5] w5 d4 a by (auto simp: discreet_def)
  have kind: "fe_kind ev \<noteq> FlowEventStarted" using ev(2) by (simp split: outcome.splits)
  have "replies (reg (bf_run bf c w a proc)) ch = Some (result_of ev)"
    using S(6) ev(1,3) kind d4 waiting by (simp add: discreet_def onFlowEvent_def)
  then show ?thesis
    by (rule that)
      (use S sem ev pub(2) w5 in \<open>cases r; simp add: result_of_def Let_def\<close>)
qed

end

lemma bf_traceID_frame:
  "heap (fst (bf_traceID (w\<lparr>reg := r\<rparr>) a)) = heap (fst (bf_traceID w a))"
  by (simp add: bf_traceID_def EnsureTraceID_def newEventID_def upd_def Let_def
      split: option.splits list.splits)

text \<open>A callable flow that sets a variable, idle, and a world with a message for it.\<close>

definition pricing_block :: "call_world block" where
  "pricing_block =
     \<lparr>bname = ''price'', btype = ''set-variable'', bpath = [],
      bproc = (\<lambda>_. set_variable ''total'' (\<lambda>_ _. Inr (GInt 42))), aware = False,
      bcont = None, lifecycle = False, stateKey = None\<rparr>"

definition pricing_flow :: "call_world bound_flow" where
  "pricing_flow =
     \<lparr>bf_name = ''pricing'',
      bf_root = \<lparr>flow_label = ''pricing'', blocks = [pricing_block], flowName = ''pricing'', events = None\<rparr>,
      bf_errorPath = None, bf_workers = 8, bf_bus = Some registry_bus, bf_capacity = []\<rparr>"

definition calling_world :: call_world where
  "calling_world =
     \<lparr>heap = (\<lambda>_. sample_message), hp = 1, entropy = [Some (replicate 16 (CHR ''A''))], deliveries = [],
      panic_count = 0, clock = (\<lambda>n. int n), readings = 0, tracing = False,
      reg = empty_registry\<lparr>chans := [''pricing'' \<mapsto> 0]\<rparr>,
      channels = (\<lambda>_. \<lparr>buffer = [], ch_cap = 64, ch_closed = False\<rparr>)\<rparr>"

lemma pricing_simps [simp]:
  "bf_bus pricing_flow = Some registry_bus" "bf_errorPath pricing_flow = None"
  "bf_name pricing_flow = ''pricing''" "blocks (bf_root pricing_flow) = [pricing_block]"
  "block_process pricing_block = set_variable ''total'' (\<lambda>_ _. Inr (GInt 42))"
  by (simp_all add: pricing_flow_def pricing_block_def block_process_def)

lemma pricing_implements:
  "implements (flow_process (bf_root pricing_flow))
     (t_chain [(''price'', t_set_variable ''total'' (\<lambda>_. Inr (GInt 42)))])"
  using implements_flow_process [of "bf_root pricing_flow" "[t_set_variable ''total'' (\<lambda>_. Inr (GInt 42))]"]
  by (simp add: set_variable.implements_axioms block_label_def pricing_block_def blockLabel_def
      block_process_def)

lemma pricing_discreet: "moves_by (discreet eid ch) (flow_process (bf_root pricing_flow))"
  by (rule discreetly.runs_flow) (simp add: setters_move_by [OF discreetly.run_relation_axioms])

lemma calling_world_simps [simp]:
  "hp calling_world = 1" "heap calling_world y = sample_message" "\<not> tracing calling_world"
  "reg calling_world = empty_registry\<lparr>chans := [''pricing'' \<mapsto> 0]\<rparr>"
  "channels calling_world i = \<lparr>buffer = [], ch_cap = Suc 63, ch_closed = False\<rparr>"
  by (simp_all add: calling_world_def)

lemma calling_registry_ok: "registry_ok (reg calling_world)"
  by (simp add: registry_ok_def empty_registry_def)

lemma pricing_report:
  "t_report (t_recover ''pricing'' (t_chain [(''price'', t_set_variable ''total'' (\<lambda>_. Inr (GInt 42)))])
      None m) = RCompleted (SetVar ''total'' (GInt 42) m)"
  by (simp add: t_recover_def t_set_variable_def unless_stopped_def)

text \<open>
  A call of a registered flow that has room in its channel and a worker to serve it
  returns exactly the outcome of that flow on the message: the result of a completed run,
  nothing for a dropped one, the unhandled error of a failed one. The outcome is the report
  of the flow's chain and error path, computed from the message alone.
\<close>

theorem call_returns_outcome:
  assumes bus: "answering_bus b" "bf_bus bf = Some b"
    and P: "implements (flow_process (bf_root bf)) T"
    and E: "rel_option (\<lambda>q. implements (flow_process q)) (bf_errorPath bf) alt"
    and D: "moves_by (discreet (EventID (heap w a)) (next_reply (reg w))) (flow_process (bf_root bf))"
      "\<forall>q. bf_errorPath bf = Some q \<longrightarrow>
           moves_by (discreet (EventID (heap w a)) (next_reply (reg w))) (flow_process q)"
    and a: "a < hp w" and ok: "registry_ok (reg w)" and c: "\<not> cancelled c"
    and ch: "chans (reg w) name = Some i" "channels w i = \<lparr>buffer = [], ch_cap = Suc n, ch_closed = False\<rparr>"
  shows "\<exists>w1 ch w2 res. call_begin pick c name a w = (w1, Now_ready (Inr ch)) \<and>
    call_end pick c name a ch (worker_step bf i c' w1) = (w2, Now_ready res) \<and>
    (case t_report (t_recover (bf_name bf) T alt (heap (fst (bf_traceID w a)) a)) of
       RCompleted m \<Rightarrow> \<exists>x. res = Inr (Some x) \<and> heap w2 x = m
     | RDropped _ \<Rightarrow> res = Inr None
     | RFailed e _ \<Rightarrow> res = Inl e)"
proof -
  let ?id = "EventID (heap w a)" and ?ch = "next_reply (reg w)"
  let ?r = "fst (track ?id (reg w))"
  let ?w1 = "w\<lparr>reg := ?r, channels := (channels w)(i := (channels w i)\<lparr>buffer := [a]\<rparr>)\<rparr>"
  define v where "v = w\<lparr>reg := ?r\<rparr>"
  have v: "EventID (heap v a) = ?id" "hp v = hp w"
    "heap (fst (bf_traceID v a)) = heap (fst (bf_traceID w a))"
    by (simp_all add: v_def bf_traceID_frame)
  have tr: "track ?id (reg w) = (?r, ?ch)" by (simp add: track_def Let_def)
  have started: "call_begin pick c name a w = (?w1, Now_ready (Inr ?ch))"
    using tr ch c by (simp add: call_begin_def Send_def lookup_chan_def chan_ready_def track_def Let_def)
  have step: "worker_step bf i c' ?w1 = bf_run bf c' v a (flow_process (bf_root bf))"
    using ch(2) by (simp add: worker_step_def handle_def v_def fun_upd_idem)
  have waiting: "pending (reg v) (EventID (heap v a)) = Some ?ch" "replies (reg v) ?ch = None"
    using ok by (auto simp: v_def track_def Let_def registry_ok_def)
  let ?w = "bf_run bf c' v a (flow_process (bf_root bf))"
  obtain res where res: "replies (reg ?w) ?ch = Some res"
    "case t_report (t_recover (bf_name bf) T alt (heap (fst (bf_traceID w a)) a)) of
       RCompleted m \<Rightarrow> cr_err res = None \<and>
         (\<exists>x. cr_msg res = Some x \<and> heap ?w x = m)
     | RDropped _ \<Rightarrow> res = \<lparr>cr_msg = None, cr_err = None\<rparr>
     | RFailed e _ \<Rightarrow> cr_err res = Some e"
    by (rule answering_bus.run_answers [OF bus _ P E _ _ waiting, of c'])
      (use a D v in auto)
  obtain w2 where w2: "call_end pick c name a ?ch ?w =
      (w2, Now_ready (case cr_err res of Some e \<Rightarrow> Inl e | None \<Rightarrow> Inr (cr_msg res)))"
      "heap w2 = heap ?w"
    using res(1) c by (simp add: call_end_def Let_def on_reg_def)
  show ?thesis
    by (rule exI [of _ ?w1], rule exI [of _ ?ch], rule exI [of _ w2],
        rule exI [of _ "case cr_err res of Some e \<Rightarrow> Inl e | None \<Rightarrow> Inr (cr_msg res)"])
      (use started step w2 res(2) in \<open>auto split: report.splits\<close>)
qed

theorem call_returns_outcome_witness:
  "\<exists>w1 ch w2 x. call_begin False (Ctx False) ''pricing'' 0 calling_world = (w1, Now_ready (Inr ch)) \<and>
    call_end False (Ctx False) ''pricing'' 0 ch (worker_step pricing_flow 0 (Ctx False) w1) =
      (w2, Now_ready (Inr (Some x))) \<and>
    heap w2 x = SetVar ''total'' (GInt 42) sample_message"
proof -
  have t: "fst (bf_traceID calling_world 0) = calling_world" by (simp add: bf_traceID_def)
  show ?thesis
    using call_returns_outcome [OF answered.answering_bus_axioms _ pricing_implements _ pricing_discreet,
        where alt = None and w = calling_world and a = 0 and c = "Ctx False" and c' = "Ctx False" and
          name = "''pricing''" and i = 0 and n = 63 and pick = False] calling_registry_ok t
    by (auto simp: pricing_report)
qed

section \<open>A flow-ref folds the called flow back\<close>

lemma fold_result_simps [simp]:
  "Body (fold_result n m) = Body n" "RawContent (fold_result n m) = RawContent n"
  "Variables (fold_result n m) = Variables m ++ Variables n"
  "EventID (fold_result n m) = EventID m" "CorrelationID (fold_result n m) = CorrelationID m"
  by (simp_all add: fold_result_def Let_def)

lemma framed_recover:
  assumes "framed_processor proc" and "\<forall>q. bf_errorPath bf = Some q \<longrightarrow> framed_processor (flow_process q)"
    and "a < hp w" and "proc c w a = (w1, r1)" and "recover bf c a (w1, r1) = (w2, r2)"
  shows "frames w a w2"
proof -
  have f: "frames w a w1" using framed_processorD [OF assms(1,3,4)] by simp
  show ?thesis
  proof (cases "\<exists>e q. r1 = Failed e \<and> bf_errorPath bf = Some q")
    case True
    then obtain e q where q: "r1 = Failed e" "bf_errorPath bf = Some q" by blast
    let ?w1 = "upd w1 a (SetErrorVariable (bf_name bf) e)"
    obtain w3 r3 where p: "flow_process q c ?w1 a = (w3, r3)" by force
    have "framed_processor (flow_process q)" using assms(2) q by blast
    from framed_seq [OF this assms(3) frames_upd [OF f] owned_self p] have "frames w a w3" by simp
    then show ?thesis using assms(5) q p by (auto simp: recover_def split: outcome.splits)
  next
    case False
    then show ?thesis using f assms(5) by (auto simp: recover_def split: outcome.splits option.splits)
  qed
qed

lemma traceID_frames: "bf_traceID w a = (w', t) \<Longrightarrow> frames w a w'"
  by (auto simp: bf_traceID_def EnsureTraceID_def newEventID_def upd_def frames_def Let_def
      split: if_splits prod.splits sum.splits list.splits option.splits)

lemma run_keeps_others:
  assumes b: "answering_bus b" "bf_bus bf = Some b" and a: "a < hp w"
    and P: "framed_processor proc" "\<forall>q. bf_errorPath bf = Some q \<longrightarrow> framed_processor (flow_process q)"
  shows "frames w a (bf_run bf c w a proc)"
proof -
  obtain w1 tid w3 t0 w3' r3 w4 r w5 t1 where S:
    "bf_traceID w a = (w1, tid)"
    "Now (publish bf \<lparr>o_kind = FlowEventStarted, o_eventID = EventID (heap w1 a), o_traceID = tid,
            o_elapsed = 0, o_err = None, o_result = None\<rparr> w1) = (w3, t0)"
    "proc c w3 a = (w3', r3)" "recover bf c a (w3', r3) = (w4, r)" "Now w4 = (w5, t1)"
    "bf_run bf c w a proc = publish bf (terminal_outcome a (EventID (heap w5 a)) tid (t1 - t0) r) w5"
    by (rule bf_run_steps [of w a bf proc c])
  note pub = answering_bus.publish_answers(2,3) [OF b]
  have t: "frames w a w1" by (rule traceID_frames [OF S(1)])
  have w3: "heap w3 = heap w1" "hp w3 = hp w1" using S(2) pub by (auto simp: Now_def)
  have "frames w3 a w4"
    using framed_recover [OF P _ S(3,4)] a t w3 by (simp add: frames_def)
  then show ?thesis using t w3 S(5,6) pub by (auto simp: frames_def Now_def)
qed

lemma call_begin_sent:
  assumes "call_begin pick c name a w = (w1, Now_ready (Inr ch))"
  obtains r where "track (EventID (heap w a)) (reg w) = (r, ch)"
    "Send pick c name a (w\<lparr>reg := r\<rparr>) = (w1, Now_ready None)" "heap w1 = heap w" "hp w1 = hp w"
  using assms
  by (auto simp: call_begin_def Send_def Let_def
      split: prod.splits waiting.splits option.splits if_splits)

lemma call_end_heap: "call_end pick c name a ch w = (w1, r) \<Longrightarrow> heap w1 = heap w \<and> hp w1 = hp w"
  by (auto simp: call_end_def on_reg_def Let_def split: option.splits if_splits)

lemma Call_wait_eq:
  assumes b: "call_begin pick c name a w = (w1, Now_ready (Inr ch))"
    and e: "call_end pick c name a ch (env w1) = (w2, Now_ready res)" and c: "\<not> cancelled c"
  shows "Call_wait env pick c name a w = (w2, res)"
proof -
  obtain r where B: "track (EventID (heap w a)) (reg w) = (r, ch)"
    "Send pick c name a (w\<lparr>reg := r\<rparr>) = (w1, Now_ready None)" using call_begin_sent [OF b] .
  have "replies (reg (env w1)) ch \<noteq> None"
    using e c by (auto simp: call_end_def Let_def split: option.splits)
  then have "woken c (replies (reg (env w1)) ch \<noteq> None) = c" by (simp add: woken_def)
  then show ?thesis using B e by (simp add: Call_wait_def Send_wait_def await_def Let_def)
qed

lemma worker_step_frames:
  assumes "answering_bus b" "bf_bus bf = Some b" "framed_processor (flow_process (bf_root bf))"
    "\<forall>q. bf_errorPath bf = Some q \<longrightarrow> framed_processor (flow_process q)"
    and "buffer (channels w i) = [a]" "a < hp w"
  shows "frames w a (worker_step bf i c w)"
proof -
  let ?v = "w\<lparr>channels := (channels w)(i := (channels w i)\<lparr>buffer := []\<rparr>)\<rparr>"
  have "frames ?v a (bf_run bf c ?v a (flow_process (bf_root bf)))"
    by (rule run_keeps_others [OF assms(1,2) _ assms(3,4)]) (simp add: assms(6))
  then show ?thesis using assms(5) by (simp add: worker_step_def handle_def frames_def)
qed

text \<open>
  C13. A two-way flow-ref runs the called flow on a copy of the message under an id of its
  own and folds its answer back: the body with its raw-content mode and the variables of a
  completed run, including a stop, under the caller's own ids; the variables the callee does
  not carry stay. A dropped run leaves the message as it was, and an unhandled error fails
  the block. Nothing else of the caller's message changes.
\<close>

theorem flow_ref_folds_back:
  assumes bus: "answering_bus b" "bf_bus bf = Some b"
    and P: "implements (flow_process (bf_root bf)) T"
    and E: "rel_option (\<lambda>q. implements (flow_process q)) (bf_errorPath bf) alt"
    and D: "\<And>eid ch. moves_by (discreet eid ch) (flow_process (bf_root bf))"
      "\<And>eid ch q. bf_errorPath bf = Some q \<Longrightarrow> moves_by (discreet eid ch) (flow_process q)"
    and a: "a < hp w" and ok: "registry_ok (reg w)" and c: "\<not> cancelled c"
    and ch: "chans (reg w) name = Some i" "channels w i = \<lparr>buffer = [], ch_cap = Suc n, ch_closed = False\<rparr>"
    and sub: "Clone w a = (w1, sub)" "Rekey w1 sub = (w2, Inr eid)"
  shows "EventID (heap w2 sub) = eid \<and>
    (case t_report (t_recover (bf_name bf) T alt (heap (fst (bf_traceID w2 sub)) sub)) of
       RCompleted m \<Rightarrow> \<exists>w'. flow_ref (registry_caller (worker_step bf i c') pick) name False c w a = (w', Out a) \<and>
         heap w' a = (heap w a)\<lparr>Body := Body m, RawContent := RawContent m,
                                Variables := Variables (heap w a) ++ Variables m\<rparr>
     | RDropped _ \<Rightarrow> \<exists>w'. flow_ref (registry_caller (worker_step bf i c') pick) name False c w a = (w', Out a) \<and>
         heap w' a = heap w a
     | RFailed e _ \<Rightarrow> \<exists>w'. flow_ref (registry_caller (worker_step bf i c') pick) name False c w a =
         (w', Failed (Wrap (''flow-ref '' @ quote name) e)) \<and> heap w' a = heap w a)"
proof -
  note C = Clone_simps [OF sub(1)]
  have rk: "heap w2 sub = (heap w1 sub)\<lparr>EventID := eid\<rparr>" "\<And>y. y \<noteq> sub \<Longrightarrow> heap w2 y = heap w1 y"
    "hp w2 = hp w1" "world.more w2 = world.more w1"
    using sub(2) newEventID_frame [of w1] by (auto simp: Rekey_def split: prod.splits sum.splits)
  have w2: "sub < hp w2" "a < hp w2" "a \<noteq> sub" "heap w2 a = heap w a"
    using C rk a by auto
  have same: "reg w2 = reg w" "channels w2 = channels w"
    using rk(4) C(6) by (cases w, cases w1, cases w2, simp)+
  have framed_alt: "\<forall>q. bf_errorPath bf = Some q \<longrightarrow> framed_processor (flow_process q)"
    using E by (cases alt) (auto intro: implements_framed)
  note call = call_returns_outcome [OF bus P E _ _ w2(1) _ c _ _, of name i n pick c']
  obtain w3 ch w4 res where R: "call_begin pick c name sub w2 = (w3, Now_ready (Inr ch))"
    "call_end pick c name sub ch (worker_step bf i c' w3) = (w4, Now_ready res)"
    "case t_report (t_recover (bf_name bf) T alt (heap (fst (bf_traceID w2 sub)) sub)) of
       RCompleted m \<Rightarrow> \<exists>x. res = Inr (Some x) \<and> heap w4 x = m
     | RDropped _ \<Rightarrow> res = Inr None | RFailed e _ \<Rightarrow> res = Inl e"
    using call D ok ch same by (auto; blast)
  have call_eq: "fc_Call (registry_caller (worker_step bf i c') pick) c name w2 sub = (w4, res)"
    using Call_wait_eq [OF R(1) _ c, of "worker_step bf i c'"] R(2) by (simp add: registry_caller_def)
  obtain r where B: "track (EventID (heap w2 sub)) (reg w2) = (r, ch)"
    "Send pick c name sub (w2\<lparr>reg := r\<rparr>) = (w3, Now_ready None)" "heap w3 = heap w2" "hp w3 = hp w2"
    using call_begin_sent [OF R(1)] .
  have "buffer (channels w3 i) = [sub]"
    using B ch same c by (auto simp: Send_def lookup_chan_def chan_ready_def track_def Let_def)
  then have "frames w3 sub (worker_step bf i c' w3)"
    using worker_step_frames [OF bus implements_framed [OF P] framed_alt] B w2(1) by simp
  then have h4: "heap w4 a = heap w a"
    using call_end_heap [OF R(2)] B w2 by (simp add: frames_def)
  let ?out = "case res of Inl e \<Rightarrow> (w4, Failed (Wrap (''flow-ref '' @ quote name) e))
      | Inr None \<Rightarrow> (w4, Out a) | Inr (Some x) \<Rightarrow> (upd w4 a (fold_result (heap w4 x)), Out a)"
  have "flow_ref (registry_caller (worker_step bf i c') pick) name False c w a = ?out"
    using sub call_eq by (simp add: flow_ref_def split: sum.splits option.splits)
  moreover have "fold_result m (heap w a) = (heap w a)\<lparr>Body := Body m, RawContent := RawContent m,
                                Variables := Variables (heap w a) ++ Variables m\<rparr>" for m
    by (simp add: fold_result_def SetBody_def Let_def)
  ultimately show ?thesis using R(3) h4 rk(1) by (auto split: report.splits)
qed

theorem flow_ref_folds_back_witness:
  "\<exists>w'. flow_ref (registry_caller (worker_step pricing_flow 0 (Ctx False)) False) ''pricing'' False
      (Ctx False) calling_world 0 = (w', Out 0) \<and>
    Variables (heap w' 0) ''total'' = Some (GInt 42) \<and> EventID (heap w' 0) = ''e1''"
proof -
  let ?id = "hex_encode (replicate 16 (CHR ''A''))"
  obtain w1 sub where c: "Clone calling_world 0 = (w1, sub)" by force
  have "entropy w1 = [Some (replicate 16 (CHR ''A''))]"
    using Clone_simps(3) [OF c] by (simp add: calling_world_def)
  then obtain w2 where r: "Rekey w1 sub = (w2, Inr ?id)"
    by (simp add: Rekey_def newEventID_def eventIDBytes_def)
  from flow_ref_folds_back [OF answered.answering_bus_axioms _ pricing_implements _ pricing_discreet _ _ _ _ _ _ c r,
      where alt = None and c = "Ctx False" and c' = "Ctx False" and name = "''pricing''" and i = 0 and n = 63
        and pick = False] calling_registry_ok
  obtain w' where "flow_ref (registry_caller (worker_step pricing_flow 0 (Ctx False)) False) ''pricing'' False
      (Ctx False) calling_world 0 = (w', Out 0)"
    "heap w' 0 = sample_message\<lparr>Body := Body (heap (fst (bf_traceID w2 sub)) sub),
       RawContent := RawContent (heap (fst (bf_traceID w2 sub)) sub),
       Variables := Variables sample_message ++
         Variables (SetVar ''total'' (GInt 42) (heap (fst (bf_traceID w2 sub)) sub))\<rparr>"
    by (auto simp: pricing_report)
  then show ?thesis by (simp add: map_add_def sample_message_def)
qed

end
