(* ===== verification/Octo_Pool.thy ===== *)
theory Octo_Pool
  imports Octo_Bound_Flow
begin

text \<open>
  The shared worker pool of \<^verbatim>\<open>runtime/core/internal/pool/pool.go\<close> and the
  goroutines of a bound flow (\<^verbatim>\<open>runtime/core/runtime/boundflow.go\<close>): the workers
  on the source channel, the pool's workers, and the goroutines of blocks with background
  work, with the scheduling of resumed tails and the ordered shutdown.

  What a message does to its own data is the matter of the engine. Here a unit of work is
  the tree of the tails it resumes: a task resumes its children one after the other and
  then ends. A goroutine is the stack of the tasks it is running, since a tail that finds
  the pool full runs on the goroutine that resumed it.
\<close>

section \<open>The pool\<close>

datatype task = Tail (resumes: "task list")

record pool =
  p_workers :: int
  p_queue :: int
  p_tasks :: "task list"
  p_closed :: bool

definition pool_defaultWorkers :: int where "pool_defaultWorkers = 8"
definition pool_defaultQueue :: int where "pool_defaultQueue = 64"

definition pool_New :: "int \<Rightarrow> int \<Rightarrow> pool" where
  "pool_New workers queue =
     \<lparr>p_workers = (if workers \<le> 0 then pool_defaultWorkers else workers),
      p_queue = (if queue \<le> 0 then pool_defaultQueue else queue),
      p_tasks = [], p_closed = False\<rparr>"

definition pool_full :: "pool \<Rightarrow> bool" where
  "pool_full p \<longleftrightarrow> p_queue p \<le> int (length (p_tasks p))"

text \<open>\<open>Inl\<close> is a panic: of the pool itself on a full queue, of the channel when it is closed.\<close>

definition Submit :: "task \<Rightarrow> pool \<Rightarrow> (string, pool) res" where
  "Submit t p =
     (if p_closed p then Inl ''send on closed channel''
      else if pool_full p
      then Inl (''flow pool exhausted: queue of '' @ itoa (nat (p_queue p)) @ '' full with '' @
                itoa (nat (p_workers p)) @ '' workers'')
      else Inr (p\<lparr>p_tasks := p_tasks p @ [t]\<rparr>))"

definition TrySubmit :: "task \<Rightarrow> pool \<Rightarrow> pool \<times> bool" where
  "TrySubmit t p =
     (if p_closed p then (p, False)
      else if pool_full p then (p, False)
      else (p\<lparr>p_tasks := p_tasks p @ [t]\<rparr>, True))"

text \<open>Closing the queue; the wait for the workers is a step of its own below.\<close>

definition pool_Stop :: "pool \<Rightarrow> pool" where
  "pool_Stop p = (if p_closed p then p else p\<lparr>p_closed := True\<rparr>)"

section \<open>The goroutines of a flow\<close>

text \<open>
  A frame is a task that is running: the tails it has still to resume, and whether the
  in-flight count was raised for it. It was for every resumed tail, and was not for a
  message off the source channel.
\<close>

datatype frame = Frame (counted: bool) (todo: "task list")

datatype go_kind = SourceWorker | PoolWorker | BlockRoutine

type_synonym goroutine = "go_kind \<times> frame list"

text \<open>The shutdown runs through these phases in order.\<close>

datatype phase = Serving | Draining | Quieting | Waiting | Closing | Stopped

fun phase_no :: "phase \<Rightarrow> nat" where
  "phase_no Serving = 0" | "phase_no Draining = 1" | "phase_no Quieting = 2"
| "phase_no Waiting = 3" | "phase_no Closing = 4" | "phase_no Stopped = 5"

record machine =
  m_in :: "task list"
  m_in_cap :: nat
  m_pool :: pool
  m_gos :: "goroutine list"
  m_held :: "task list"
  m_inflight :: nat
  m_phase :: phase
  m_ran :: nat

text \<open>
  \<open>m_held\<close> is the work the blocks' own goroutines may still release, such as the groups an
  aggregate waits on; \<open>m_ran\<close> counts the tasks that have ended.
\<close>

definition resume_on :: "nat \<Rightarrow> go_kind \<Rightarrow> frame list \<Rightarrow> task \<Rightarrow> machine \<Rightarrow> machine" where
  "resume_on i k st t m =
     (let m1 = m\<lparr>m_inflight := m_inflight m + 1\<rparr> in
      case TrySubmit t (m_pool m1) of
        (p, True) \<Rightarrow> m1\<lparr>m_pool := p, m_gos := (m_gos m1)[i := (k, st)]\<rparr>
      | (_, False) \<Rightarrow> m1\<lparr>m_gos := (m_gos m1)[i := (k, Frame True (resumes t) # st)]\<rparr>)"

definition idle :: "go_kind \<Rightarrow> machine \<Rightarrow> bool" where
  "idle k m \<longleftrightarrow> (\<forall>g \<in> set (m_gos m). fst g = k \<longrightarrow> snd g = [])"

datatype action =
    Admit task | Take nat | TakeTail nat | ResumeNext nat | Finish nat | Release nat
  | StopSource | SourceDrained | BlocksStopped | InflightZero | PoolJoined

text \<open>
  One atomic step; \<open>None\<close> when its guard does not hold. The source is stopped and its
  channel closed in one step, and nothing is admitted after it. The workers leave when the
  closed channel is empty. Stopping a block waits for its goroutine. The pool is closed when
  the count is zero, and joined when its workers are done.
\<close>

fun fire :: "action \<Rightarrow> machine \<Rightarrow> machine option" where
  "fire (Admit t) m =
     (if m_phase m = Serving \<and> length (m_in m) < m_in_cap m
      then Some (m\<lparr>m_in := m_in m @ [t]\<rparr>) else None)"
| "fire (Take i) m =
     (if i < length (m_gos m) \<and> m_gos m ! i = (SourceWorker, [])
      then (case m_in m of
              [] \<Rightarrow> None
            | t # ts \<Rightarrow> Some (m\<lparr>m_in := ts,
                 m_gos := (m_gos m)[i := (SourceWorker, [Frame False (resumes t)])]\<rparr>))
      else None)"
| "fire (TakeTail i) m =
     (if i < length (m_gos m) \<and> m_gos m ! i = (PoolWorker, [])
      then (case p_tasks (m_pool m) of
              [] \<Rightarrow> None
            | t # ts \<Rightarrow> Some (m\<lparr>m_pool := (m_pool m)\<lparr>p_tasks := ts\<rparr>,
                 m_gos := (m_gos m)[i := (PoolWorker, [Frame True (resumes t)])]\<rparr>))
      else None)"
| "fire (ResumeNext i) m =
     (if i < length (m_gos m)
      then (case m_gos m ! i of
              (k, Frame c (t # ts) # st) \<Rightarrow> Some (resume_on i k (Frame c ts # st) t m)
            | _ \<Rightarrow> None)
      else None)"
| "fire (Finish i) m =
     (if i < length (m_gos m)
      then (case m_gos m ! i of
              (k, Frame c [] # st) \<Rightarrow>
                Some (m\<lparr>m_gos := (m_gos m)[i := (k, st)], m_ran := m_ran m + 1,
                        m_inflight := (if c then m_inflight m - 1 else m_inflight m)\<rparr>)
            | _ \<Rightarrow> None)
      else None)"
| "fire (Release i) m =
     (if i < length (m_gos m) \<and> m_gos m ! i = (BlockRoutine, []) \<and> phase_no (m_phase m) \<le> 2
      then (case m_held m of
              [] \<Rightarrow> None
            | t # ts \<Rightarrow> Some (resume_on i BlockRoutine [] t (m\<lparr>m_held := ts\<rparr>)))
      else None)"
| "fire StopSource m = (if m_phase m = Serving then Some (m\<lparr>m_phase := Draining\<rparr>) else None)"
| "fire SourceDrained m =
     (if m_phase m = Draining \<and> m_in m = [] \<and> idle SourceWorker m
      then Some (m\<lparr>m_phase := Quieting\<rparr>) else None)"
| "fire BlocksStopped m =
     (if m_phase m = Quieting \<and> idle BlockRoutine m
      then Some (m\<lparr>m_phase := Waiting\<rparr>) else None)"
| "fire InflightZero m =
     (if m_phase m = Waiting \<and> m_inflight m = 0
      then Some (m\<lparr>m_phase := Closing, m_pool := pool_Stop (m_pool m)\<rparr>) else None)"
| "fire PoolJoined m =
     (if m_phase m = Closing \<and> p_tasks (m_pool m) = [] \<and> idle PoolWorker m
      then Some (m\<lparr>m_phase := Stopped\<rparr>) else None)"

text \<open>A flow that has just started: every goroutine idle, nothing admitted.\<close>

definition fresh :: "nat \<Rightarrow> nat \<Rightarrow> nat \<Rightarrow> int \<Rightarrow> task list \<Rightarrow> machine" where
  "fresh workers buffer routines poolSize held =
     (let p = pool_New poolSize 0 in
      \<lparr>m_in = [], m_in_cap = buffer, m_pool = p,
       m_gos = replicate workers (SourceWorker, []) @ replicate (nat (p_workers p)) (PoolWorker, []) @
               replicate routines (BlockRoutine, []),
       m_held = held, m_inflight = 0, m_phase = Serving, m_ran = 0\<rparr>)"

inductive reaches :: "machine \<Rightarrow> machine \<Rightarrow> bool" where
  reaches_refl: "reaches m m"
| reaches_step: "reaches m m1 \<Longrightarrow> fire a m1 = Some m2 \<Longrightarrow> reaches m m2"

section \<open>Counting\<close>

definition frames_of :: "machine \<Rightarrow> frame list" where
  "frames_of m = concat (map snd (m_gos m))"

definition counted_frames :: "frame list \<Rightarrow> nat" where
  "counted_frames fs = length (filter counted fs)"

lemma counted_frames_simps [simp]:
  "counted_frames [] = 0"
  "counted_frames (f # fs) = (if counted f then 1 else 0) + counted_frames fs"
  "counted_frames (fs @ gs) = counted_frames fs + counted_frames gs"
  by (simp_all add: counted_frames_def)

text \<open>Replacing the stack of one goroutine, for any quantity that adds up over frames.\<close>

lemma update_split:
  "i < length gs \<Longrightarrow> gs ! i = (k, st) \<Longrightarrow>
   \<exists>xs ys. gs = xs @ (k, st) # ys \<and> (\<forall>g. gs[i := g] = xs @ g # ys)"
  by (metis id_take_nth_drop upd_conv_take_nth_drop)

primrec task_count :: "task \<Rightarrow> nat" where
  "task_count (Tail ts) = Suc (sum_list (map task_count ts))"

definition frame_work :: "frame \<Rightarrow> nat" where
  "frame_work f = Suc (sum_list (map task_count (todo f)))"

definition work :: "machine \<Rightarrow> nat" where
  "work m = m_ran m + sum_list (map task_count (m_in m)) +
     sum_list (map task_count (p_tasks (m_pool m))) + sum_list (map frame_work (frames_of m)) +
     sum_list (map task_count (m_held m))"

lemma task_count_unfold: "task_count t = Suc (sum_list (map task_count (resumes t)))"
  by (cases t) simp

lemma TrySubmit_cases:
  assumes "TrySubmit t p = (p', ok)"
  obtains "ok" "p' = p\<lparr>p_tasks := p_tasks p @ [t]\<rparr>" "\<not> p_closed p" "int (length (p_tasks p)) < p_queue p"
  | "\<not> ok" "p' = p"
  using assms by (auto simp: TrySubmit_def pool_full_def split: if_splits)

lemma resume_on_cases:
  obtains "resume_on i k st t m = m\<lparr>m_inflight := m_inflight m + 1,
      m_pool := (m_pool m)\<lparr>p_tasks := p_tasks (m_pool m) @ [t]\<rparr>, m_gos := (m_gos m)[i := (k, st)]\<rparr>"
      "\<not> p_closed (m_pool m)" "int (length (p_tasks (m_pool m))) < p_queue (m_pool m)"
  | "resume_on i k st t m = m\<lparr>m_inflight := m_inflight m + 1,
      m_gos := (m_gos m)[i := (k, Frame True (resumes t) # st)]\<rparr>"
proof -
  obtain p ok where s: "TrySubmit t (m_pool m) = (p, ok)" by force
  show ?thesis
    by (rule TrySubmit_cases [OF s]; use s that in \<open>simp add: resume_on_def Let_def\<close>)
qed

text \<open>
  The steps that move work: what they change, one case each. A step of a running goroutine
  replaces its stack, a step of the shutdown only advances the phase.
\<close>

lemma fire_cases:
  assumes "fire a m = Some m'"
  obtains (Admit) t where "a = Admit t" "m_phase m = Serving" "length (m_in m) < m_in_cap m"
      "m' = m\<lparr>m_in := m_in m @ [t]\<rparr>"
  | (Take) i t ts xs ys where "a = Take i" "m_in m = t # ts" "m_gos m = xs @ (SourceWorker, []) # ys"
      "m' = m\<lparr>m_in := ts, m_gos := xs @ (SourceWorker, [Frame False (resumes t)]) # ys\<rparr>"
  | (TakeTail) i t ts xs ys where "a = TakeTail i" "p_tasks (m_pool m) = t # ts"
      "m_gos m = xs @ (PoolWorker, []) # ys"
      "m' = m\<lparr>m_pool := (m_pool m)\<lparr>p_tasks := ts\<rparr>,
              m_gos := xs @ (PoolWorker, [Frame True (resumes t)]) # ys\<rparr>"
  | (Queued) i k c t ts st xs ys where "a = ResumeNext i" "m_gos m = xs @ (k, Frame c (t # ts) # st) # ys"
      "\<not> p_closed (m_pool m)" "int (length (p_tasks (m_pool m))) < p_queue (m_pool m)"
      "m' = m\<lparr>m_inflight := m_inflight m + 1,
              m_pool := (m_pool m)\<lparr>p_tasks := p_tasks (m_pool m) @ [t]\<rparr>,
              m_gos := xs @ (k, Frame c ts # st) # ys\<rparr>"
  | (CallerRuns) i k c t ts st xs ys where "a = ResumeNext i"
      "m_gos m = xs @ (k, Frame c (t # ts) # st) # ys"
      "m' = m\<lparr>m_inflight := m_inflight m + 1,
              m_gos := xs @ (k, Frame True (resumes t) # Frame c ts # st) # ys\<rparr>"
  | (Finish) i k c st xs ys where "a = Finish i" "m_gos m = xs @ (k, Frame c [] # st) # ys"
      "m' = m\<lparr>m_gos := xs @ (k, st) # ys, m_ran := m_ran m + 1,
              m_inflight := (if c then m_inflight m - 1 else m_inflight m)\<rparr>"
  | (ReleaseQueued) i t ts xs ys where "a = Release i" "m_held m = t # ts" "phase_no (m_phase m) \<le> 2"
      "m_gos m = xs @ (BlockRoutine, []) # ys"
      "\<not> p_closed (m_pool m)" "int (length (p_tasks (m_pool m))) < p_queue (m_pool m)"
      "m' = m\<lparr>m_held := ts, m_inflight := m_inflight m + 1,
              m_pool := (m_pool m)\<lparr>p_tasks := p_tasks (m_pool m) @ [t]\<rparr>\<rparr>"
  | (ReleaseRuns) i t ts xs ys where "a = Release i" "m_held m = t # ts" "phase_no (m_phase m) \<le> 2"
      "m_gos m = xs @ (BlockRoutine, []) # ys"
      "m' = m\<lparr>m_held := ts, m_inflight := m_inflight m + 1,
              m_gos := xs @ (BlockRoutine, [Frame True (resumes t)]) # ys\<rparr>"
  | (StopSource) "a = StopSource" "m_phase m = Serving" "m' = m\<lparr>m_phase := Draining\<rparr>"
  | (SourceDrained) "a = SourceDrained" "m_phase m = Draining" "m_in m = []" "idle SourceWorker m"
      "m' = m\<lparr>m_phase := Quieting\<rparr>"
  | (BlocksStopped) "a = BlocksStopped" "m_phase m = Quieting" "idle BlockRoutine m"
      "m' = m\<lparr>m_phase := Waiting\<rparr>"
  | (InflightZero) "a = InflightZero" "m_phase m = Waiting" "m_inflight m = 0"
      "m' = m\<lparr>m_phase := Closing, m_pool := pool_Stop (m_pool m)\<rparr>"
  | (PoolJoined) "a = PoolJoined" "m_phase m = Closing" "p_tasks (m_pool m) = []" "idle PoolWorker m"
      "m' = m\<lparr>m_phase := Stopped\<rparr>"
proof (cases a)
  case (ResumeNext i)
  then obtain k c t ts st where g: "i < length (m_gos m)" "m_gos m ! i = (k, Frame c (t # ts) # st)"
    "m' = resume_on i k (Frame c ts # st) t m"
    using assms by (auto split: if_splits prod.splits list.splits frame.splits)
  obtain xs ys where "m_gos m = xs @ (k, Frame c (t # ts) # st) # ys"
    "\<And>g. (m_gos m)[i := g] = xs @ g # ys" using update_split [OF g(1,2)] by blast
  with g(3) ResumeNext show ?thesis
    by (cases rule: resume_on_cases [of i k "Frame c ts # st" t m]) (auto intro: Queued CallerRuns)
next
  case (Release i)
  then obtain t ts where g: "i < length (m_gos m)" "m_gos m ! i = (BlockRoutine, [])"
    "phase_no (m_phase m) \<le> 2" "m_held m = t # ts"
    "m' = resume_on i BlockRoutine [] t (m\<lparr>m_held := ts\<rparr>)"
    using assms by (auto split: if_splits list.splits)
  obtain xs ys where "m_gos m = xs @ (BlockRoutine, []) # ys"
    "\<And>g. (m_gos m)[i := g] = xs @ g # ys" using update_split [OF g(1,2)] by blast
  with g Release show ?thesis
    by (cases rule: resume_on_cases [of i BlockRoutine "[]" t "m\<lparr>m_held := ts\<rparr>"])
      (auto intro: ReleaseQueued ReleaseRuns)
next
  case (Take i)
  then obtain t ts where g: "i < length (m_gos m)" "m_gos m ! i = (SourceWorker, [])" "m_in m = t # ts"
    "m' = m\<lparr>m_in := ts, m_gos := (m_gos m)[i := (SourceWorker, [Frame False (resumes t)])]\<rparr>"
    using assms by (auto split: if_splits list.splits)
  obtain xs ys where "m_gos m = xs @ (SourceWorker, []) # ys"
    "\<And>g. (m_gos m)[i := g] = xs @ g # ys" using update_split [OF g(1,2)] by blast
  with that(2) [OF Take g(3)] g(4) show ?thesis by simp
next
  case (TakeTail i)
  then obtain t ts where g: "i < length (m_gos m)" "m_gos m ! i = (PoolWorker, [])"
    "p_tasks (m_pool m) = t # ts"
    "m' = m\<lparr>m_pool := (m_pool m)\<lparr>p_tasks := ts\<rparr>,
            m_gos := (m_gos m)[i := (PoolWorker, [Frame True (resumes t)])]\<rparr>"
    using assms by (auto split: if_splits list.splits)
  obtain xs ys where "m_gos m = xs @ (PoolWorker, []) # ys"
    "\<And>g. (m_gos m)[i := g] = xs @ g # ys" using update_split [OF g(1,2)] by blast
  with that(3) [OF TakeTail g(3)] g(4) show ?thesis by simp
next
  case (Finish i)
  then obtain k c st where g: "i < length (m_gos m)" "m_gos m ! i = (k, Frame c [] # st)"
    "m' = m\<lparr>m_gos := (m_gos m)[i := (k, st)], m_ran := m_ran m + 1,
            m_inflight := (if c then m_inflight m - 1 else m_inflight m)\<rparr>"
    using assms by (auto split: if_splits list.splits prod.splits frame.splits)
  obtain xs ys where "m_gos m = xs @ (k, Frame c [] # st) # ys"
    "\<And>g. (m_gos m)[i := g] = xs @ g # ys" using update_split [OF g(1,2)] by blast
  with that(6) [OF Finish] g(3) show ?thesis by simp
qed (use assms that in \<open>auto split: if_splits\<close>)

section \<open>The invariant\<close>

definition machine_ok :: "machine \<Rightarrow> bool" where
  "machine_ok m \<longleftrightarrow>
     m_inflight m = length (p_tasks (m_pool m)) + counted_frames (frames_of m) \<and>
     (\<forall>(k, st) \<in> set (m_gos m). k \<noteq> SourceWorker \<longrightarrow> list_all counted st) \<and>
     int (length (p_tasks (m_pool m))) \<le> p_queue (m_pool m) \<and> length (m_in m) \<le> m_in_cap m \<and>
     (p_closed (m_pool m) \<longleftrightarrow> 4 \<le> phase_no (m_phase m)) \<and>
     (2 \<le> phase_no (m_phase m) \<longrightarrow> m_in m = [] \<and> idle SourceWorker m) \<and>
     (3 \<le> phase_no (m_phase m) \<longrightarrow> idle BlockRoutine m) \<and>
     (4 \<le> phase_no (m_phase m) \<longrightarrow> m_inflight m = 0)"

lemma frames_of_gos: "m_gos m = xs @ (k, st) # ys \<Longrightarrow>
    frames_of m = concat (map snd xs) @ st @ concat (map snd ys)"
  by (simp add: frames_of_def)

lemma idle_iff: "idle k m \<longleftrightarrow> (\<forall>st. (k, st) \<in> set (m_gos m) \<longrightarrow> st = [])"
  by (auto simp: idle_def)

lemma pool_Stop_simps [simp]:
  "p_tasks (pool_Stop p) = p_tasks p" "p_queue (pool_Stop p) = p_queue p" "p_closed (pool_Stop p)"
  "p_workers (pool_Stop p) = p_workers p"
  by (simp_all add: pool_Stop_def)

text \<open>A running goroutine, once the count is zero, would be one that was never counted.\<close>

lemma counted_zero: "list_all counted st \<Longrightarrow> counted_frames st = 0 \<Longrightarrow> st = []"
  by (cases st) auto

lemma no_frames_at_zero:
  assumes "machine_ok m" and "2 \<le> phase_no (m_phase m)" and "m_inflight m = 0"
  shows "(k, st) \<in> set (m_gos m) \<Longrightarrow> st = []"
proof -
  assume g: "(k, st) \<in> set (m_gos m)"
  then obtain xs ys where "m_gos m = xs @ (k, st) # ys" by (auto dest: split_list)
  then have "counted_frames st = 0" using assms by (auto simp: machine_ok_def frames_of_def)
  then show ?thesis using assms g counted_zero
    by (cases "k = SourceWorker") (auto simp: machine_ok_def idle_iff)
qed

lemmas machine_simps = machine_ok_def frames_of_def idle_def

lemma busy_phase:
  assumes "machine_ok m" and "m_gos m = xs @ (k, f # st) # ys"
  shows "phase_no (m_phase m) < 4 \<and> (2 \<le> phase_no (m_phase m) \<longrightarrow> k \<noteq> SourceWorker) \<and>
    (3 \<le> phase_no (m_phase m) \<longrightarrow> k \<noteq> BlockRoutine)"
proof -
  have "(k, f # st) \<in> set (m_gos m)" using assms(2) by simp
  then show ?thesis using assms(1) no_frames_at_zero [OF assms(1)]
    by (fastforce simp: machine_ok_def idle_iff)
qed

lemma machine_ok_fire:
  assumes ok: "machine_ok m" and f: "fire a m = Some m'"
  shows "machine_ok m'"
  using f
proof (cases rule: fire_cases)
  case (Admit t)
  then show ?thesis using ok by (simp add: machine_simps)
next
  case (Take i t ts xs ys)
  then show ?thesis using ok by (auto simp: machine_simps)
next
  case (TakeTail i t ts xs ys)
  then show ?thesis using ok by (auto simp: machine_simps)
next
  case (Queued i k c t ts st xs ys)
  then show ?thesis using ok busy_phase [OF ok Queued(2)] by (auto simp: machine_simps)
next
  case (CallerRuns i k c t ts st xs ys)
  then show ?thesis using ok busy_phase [OF ok CallerRuns(2)] by (auto simp: machine_simps)
next
  case (Finish i k c st xs ys)
  then show ?thesis using ok busy_phase [OF ok Finish(2)] by (auto simp: machine_simps)
next
  case (ReleaseQueued i t ts xs ys)
  then show ?thesis using ok by (auto simp: machine_simps)
next
  case (ReleaseRuns i t ts xs ys)
  then show ?thesis using ok by (auto simp: machine_simps)
qed (use ok in \<open>auto simp: machine_simps\<close>)

lemma machine_ok_fresh: "machine_ok (fresh n buf k sz held)"
  by (auto simp: machine_simps fresh_def pool_New_def Let_def pool_defaultQueue_def pool_defaultWorkers_def)

lemma machine_ok_reaches: "reaches m m' \<Longrightarrow> machine_ok m \<Longrightarrow> machine_ok m'"
  by (induction rule: reaches.induct) (auto intro: machine_ok_fire)

section \<open>Work is neither lost nor invented\<close>

lemma work_fire:
  assumes f: "fire a m = Some m'"
  shows "work m' = work m + (case a of Admit t \<Rightarrow> task_count t | _ \<Rightarrow> 0)"
  using f
proof (cases rule: fire_cases)
  case (Take i t ts xs ys)
  then show ?thesis using task_count_unfold [of t] by (simp add: work_def frames_of_def frame_work_def)
next
  case (TakeTail i t ts xs ys)
  then show ?thesis using task_count_unfold [of t] by (simp add: work_def frames_of_def frame_work_def)
next
  case (CallerRuns i k c t ts st xs ys)
  then show ?thesis using task_count_unfold [of t] by (simp add: work_def frames_of_def frame_work_def)
next
  case (ReleaseRuns i t ts xs ys)
  then show ?thesis using task_count_unfold [of t] by (simp add: work_def frames_of_def frame_work_def)
qed (simp_all add: work_def frames_of_def frame_work_def)

section \<open>Every shutdown ends\<close>

fun fire_all :: "action list \<Rightarrow> machine \<Rightarrow> machine option" where
  "fire_all [] m = Some m"
| "fire_all (a # as) m = (case fire a m of None \<Rightarrow> None | Some m1 \<Rightarrow> fire_all as m1)"

text \<open>
  A task waiting to be resumed weighs more than the same task queued, and a queued one more
  than a running one.
\<close>

primrec task_weight :: "task \<Rightarrow> nat" where
  "task_weight (Tail ts) = 3 + sum_list (map task_weight ts)"

definition frame_weight :: "frame \<Rightarrow> nat" where
  "frame_weight f = 1 + sum_list (map task_weight (todo f))"

definition steps_left :: "machine \<Rightarrow> nat" where
  "steps_left m = sum_list (map (\<lambda>t. task_weight t - 1) (m_in m @ p_tasks (m_pool m))) +
     sum_list (map frame_weight (frames_of m)) + sum_list (map task_weight (m_held m)) +
     (5 - phase_no (m_phase m))"

lemma task_weight_unfold: "task_weight t = 3 + sum_list (map task_weight (resumes t))"
  by (cases t) simp

lemma steps_left_fire:
  assumes f: "fire a m = Some m'" and a: "\<nexists>t. a = Admit t"
  shows "steps_left m' < steps_left m"
  using f
proof (cases rule: fire_cases)
  case (Take i t ts xs ys)
  then show ?thesis using task_weight_unfold [of t]
    by (simp add: steps_left_def frames_of_def frame_weight_def)
next
  case (TakeTail i t ts xs ys)
  then show ?thesis using task_weight_unfold [of t]
    by (simp add: steps_left_def frames_of_def frame_weight_def)
next
  case (Queued i k c t ts st xs ys)
  then show ?thesis using task_weight_unfold [of t]
    by (simp add: steps_left_def frames_of_def frame_weight_def)
next
  case (CallerRuns i k c t ts st xs ys)
  then show ?thesis using task_weight_unfold [of t]
    by (simp add: steps_left_def frames_of_def frame_weight_def)
next
  case (ReleaseQueued i t ts xs ys)
  then show ?thesis using task_weight_unfold [of t]
    by (simp add: steps_left_def frames_of_def frame_weight_def)
next
  case (ReleaseRuns i t ts xs ys)
  then show ?thesis using task_weight_unfold [of t]
    by (simp add: steps_left_def frames_of_def frame_weight_def)
qed (use a in \<open>simp_all add: steps_left_def frames_of_def frame_weight_def\<close>)

lemma gos_kinds: "fire a m = Some m' \<Longrightarrow> map fst (m_gos m') = map fst (m_gos m)"
  by (erule fire_cases) simp_all

lemma not_serving: "fire a m = Some m' \<Longrightarrow> m_phase m \<noteq> Serving \<Longrightarrow>
    (\<nexists>t. a = Admit t) \<and> m_phase m' \<noteq> Serving"
  by (erule fire_cases) auto

lemma reaches_kinds: "reaches m m' \<Longrightarrow> map fst (m_gos m') = map fst (m_gos m)"
  by (induction rule: reaches.induct) (auto dest: gos_kinds)

text \<open>Outside the final phase something can always move: nothing waits on itself.\<close>

lemma busy_moves:
  assumes "(k, f # st) \<in> set (m_gos m)"
  shows "\<exists>a m'. fire a m = Some m' \<and> (\<nexists>t. a = Admit t)"
proof -
  obtain i where i: "i < length (m_gos m)" "m_gos m ! i = (k, f # st)"
    using assms by (auto simp: in_set_conv_nth)
  show ?thesis
  proof (cases f)
    case (Frame c ts)
    show ?thesis
    proof (cases ts)
      case Nil
      then show ?thesis using i Frame by (intro exI [of _ "Finish i"]) simp
    next
      case (Cons t us)
      then show ?thesis using i Frame by (intro exI [of _ "ResumeNext i"]) simp
    qed
  qed
qed

lemma progress:
  assumes ok: "machine_ok m" and kinds: "SourceWorker \<in> set (map fst (m_gos m))"
      "PoolWorker \<in> set (map fst (m_gos m))"
    and p: "m_phase m \<noteq> Stopped"
  shows "\<exists>a m'. fire a m = Some m' \<and> (\<nexists>t. a = Admit t)"
proof (cases "\<exists>k f st. (k, f # st) \<in> set (m_gos m)")
  case True
  then show ?thesis using busy_moves by blast
next
  case False
  then have empty: "\<And>k st. (k, st) \<in> set (m_gos m) \<Longrightarrow> st = []" by (metis list.exhaust)
  then have idles: "idle k m" for k by (auto simp: idle_iff)
  obtain i where i: "i < length (m_gos m)" "m_gos m ! i = (SourceWorker, [])"
    using kinds(1) empty by (fastforce simp: in_set_conv_nth)
  obtain j where j: "j < length (m_gos m)" "m_gos m ! j = (PoolWorker, [])"
    using kinds(2) empty by (fastforce simp: in_set_conv_nth)
  have quiet: "frames_of m = []" using empty by (auto simp: frames_of_def)
  consider (i) "m_in m \<noteq> []" | (t) "p_tasks (m_pool m) \<noteq> []"
    | (n) "m_in m = []" "p_tasks (m_pool m) = []" by blast
  then show ?thesis
  proof cases
    case i: i
    then show ?thesis using \<open>i < length (m_gos m)\<close> \<open>m_gos m ! i = (SourceWorker, [])\<close>
      by (intro exI [of _ "Take i"]) (auto split: list.splits)
  next
    case t
    then show ?thesis using j by (intro exI [of _ "TakeTail j"]) (auto split: list.splits)
  next
    case n
    then have z: "m_inflight m = 0" using ok quiet by (simp add: machine_ok_def)
    show ?thesis
    proof (cases "m_phase m")
      case Serving
      then show ?thesis by (intro exI [of _ StopSource]) simp
    next
      case Draining
      then show ?thesis using n idles by (intro exI [of _ SourceDrained]) simp
    next
      case Quieting
      then show ?thesis using idles by (intro exI [of _ BlocksStopped]) simp
    next
      case Waiting
      then show ?thesis using z by (intro exI [of _ InflightZero]) simp
    next
      case Closing
      then show ?thesis using n idles by (intro exI [of _ PoolJoined]) simp
    next
      case Stopped
      then show ?thesis using p by simp
    qed
  qed
qed

lemma fire_all_facts:
  "fire_all as m = Some m' \<Longrightarrow> m_phase m \<noteq> Serving \<Longrightarrow> machine_ok m \<Longrightarrow>
   length as + steps_left m' \<le> steps_left m \<and> machine_ok m' \<and> work m' = work m \<and>
   map fst (m_gos m') = map fst (m_gos m)"
proof (induction as arbitrary: m)
  case (Cons a as)
  then obtain m1 where m1: "fire a m = Some m1" "fire_all as m1 = Some m'" by (auto split: option.splits)
  note ns = not_serving [OF m1(1) Cons.prems(2)]
  have "work m1 = work m" using work_fire [OF m1(1)] ns by (cases a) auto
  with Cons.IH [OF m1(2)] ns machine_ok_fire [OF Cons.prems(3) m1(1)]
    steps_left_fire [OF m1(1)] gos_kinds [OF m1(1)]
  show ?case by auto
qed simp

lemma fresh_kinds:
  "0 < n \<Longrightarrow> SourceWorker \<in> set (map fst (m_gos (fresh n buf k sz held))) \<and>
             PoolWorker \<in> set (map fst (m_gos (fresh n buf k sz held)))"
  by (auto simp: fresh_def Let_def pool_New_def pool_defaultWorkers_def)

lemma fire_all_append:
  "fire_all (as @ bs) m = (case fire_all as m of None \<Rightarrow> None | Some m1 \<Rightarrow> fire_all bs m1)"
  by (induction as arbitrary: m) (auto split: option.splits)

lemma can_stop:
  assumes "machine_ok m" "m_phase m \<noteq> Serving" "SourceWorker \<in> set (map fst (m_gos m))"
    "PoolWorker \<in> set (map fst (m_gos m))"
  shows "\<exists>as m'. fire_all as m = Some m' \<and> m_phase m' = Stopped"
  using assms
proof (induction "steps_left m" arbitrary: m rule: less_induct)
  case less
  show ?case
  proof (cases "m_phase m = Stopped")
    case True
    then show ?thesis by (intro exI [of _ "[]"]) simp
  next
    case False
    then obtain a m1 where a: "fire a m = Some m1" "\<nexists>t. a = Admit t"
      using progress [OF less.prems(1,3,4)] by blast
    have "\<exists>as m'. fire_all as m1 = Some m' \<and> m_phase m' = Stopped"
      using less.hyps [OF steps_left_fire [OF a]] machine_ok_fire [OF less.prems(1) a(1)]
        not_serving [OF a(1) less.prems(2)] gos_kinds [OF a(1)] less.prems(3,4) by metis
    then obtain as m' where "fire_all (a # as) m = Some m' \<and> m_phase m' = Stopped" using a by auto
    then show ?thesis by blast
  qed
qed

text \<open>A message that resumes one tail, with the source stopped behind it.\<close>

definition sample_flow_start :: machine where
  "sample_flow_start = fresh 1 2 0 1 []"

definition sample_stopping :: machine where
  "sample_stopping = the (fire_all [Admit (Tail [Tail []]), StopSource] sample_flow_start)"

lemma reaches_fire_all: "fire_all as m = Some m' \<Longrightarrow> reaches m0 m \<Longrightarrow> reaches m0 m'"
  by (induction as arbitrary: m) (auto split: option.splits intro: reaches.intros)

lemmas machine_eval = sample_flow_start_def sample_stopping_def fresh_def pool_New_def
  pool_defaultQueue_def pool_defaultWorkers_def resume_on_def TrySubmit_def pool_full_def
  idle_def pool_Stop_def

lemma sample_stopping_reached:
  "reaches (fresh 1 2 0 1 []) sample_stopping" "m_phase sample_stopping = Draining"
  by (rule reaches_fire_all [of "[Admit (Tail [Tail []]), StopSource]" sample_flow_start];
      simp add: machine_eval reaches_refl)
    (simp add: machine_eval)



text \<open>
  C12. A flow that has stopped lost nothing: the buffer and the pool's queue are empty, no
  goroutine is in the middle of a message, the in-flight count is zero, and every task that
  was accepted when the source stopped, with every tail it went on to resume, has ended,
  but for the work the blocks' own goroutines never released.
\<close>

theorem shutdown_loses_nothing:
  assumes "reaches (fresh n buf k sz held) m" and "m_phase m \<noteq> Serving"
    and "fire_all as m = Some m'" and "m_phase m' = Stopped"
  shows "m_in m' = [] \<and> p_tasks (m_pool m') = [] \<and> (\<forall>g \<in> set (m_gos m'). snd g = []) \<and>
    m_inflight m' = 0 \<and> m_ran m' + sum_list (map task_count (m_held m')) = work m"
proof -
  have ok: "machine_ok m" using machine_ok_reaches [OF assms(1) machine_ok_fresh] .
  note F = fire_all_facts [OF assms(3,2) ok]
  then have ok': "machine_ok m'" by simp
  have "4 \<le> phase_no (m_phase m')" using assms(4) by simp
  then have z: "m_inflight m' = 0" using ok' unfolding machine_ok_def by blast
  have e: "st = []" if "(k', st) \<in> set (m_gos m')" for k' st
    by (rule no_frames_at_zero [OF ok' _ z that]) (simp add: assms(4))
  then have "frames_of m' = []" by (auto simp: frames_of_def)
  moreover have "p_tasks (m_pool m') = []" using ok' z by (auto simp: machine_ok_def)
  moreover have "m_in m' = []" using ok' assms(4) by (simp add: machine_ok_def)
  ultimately show ?thesis using F e z by (auto simp: work_def)
qed

theorem shutdown_loses_nothing_witness:
  "\<exists>m'. fire_all [Take 0, ResumeNext 0, Finish 0, SourceDrained, TakeTail 1, BlocksStopped, Finish 1,
                  InflightZero, PoolJoined] sample_stopping = Some m' \<and>
        m_ran m' = 2 \<and> m_inflight m' = 0"
proof -
  let ?as = "[Take 0, ResumeNext 0, Finish 0, SourceDrained, TakeTail 1, BlocksStopped, Finish 1,
              InflightZero, PoolJoined]"
  obtain m' where m': "fire_all ?as sample_stopping = Some m'" "m_phase m' = Stopped" "m_held m' = []"
    by (simp add: machine_eval)
  moreover have "work sample_stopping = 2"
    by (simp add: machine_eval work_def frames_of_def)
  ultimately show ?thesis
    using shutdown_loses_nothing [OF sample_stopping_reached(1) _ m'(1,2)] sample_stopping_reached(2)
    by auto
qed



end
