(* ===== verification/Octo_Service.thy ===== *)
theory Octo_Service
  imports Octo_Flow_Calls Octo_Builder Octo_Pool
begin

text \<open>
  The service of \<^verbatim>\<open>runtime/core/runtime/runtime.go\<close>: the connectors of a
  generation, explicit and started on demand, the build of its flows, their start in order,
  and the teardown.

  What the service does to the outside is kept as a ledger of the resources it brought up
  and took down. The answers of connectors, sources and blocks, and the chains the engine
  builds for a flow, are arguments: the record \<^verbatim>\<open>outside\<close>. The source of a flow
  without one is the implicit source, which registers the flow under its name.
\<close>

section \<open>Configuration and environment\<close>

record connector_config =
  cc_name :: string
  cc_type :: string

record source_config =
  sc_connector :: string
  sc_type :: string

record flow_def =
  fd_name :: string
  fd_source :: "source_config option"
  fd_workers :: int
  fd_buffer :: int
  fd_pool :: int

text \<open>What the service reads of the chains the engine builds, root chain first.\<close>

record chains =
  ch_lifecycle :: "string list"
  ch_stateKeys :: "string list"

record outside =
  o_registry :: "string \<Rightarrow> bool"
  o_conn_start :: "string \<Rightarrow> err option"
  o_conn_stop :: "string \<Rightarrow> err option"
  o_provides :: "string \<Rightarrow> bool"
  o_new_source :: "source_config \<Rightarrow> err option"
  o_block_start :: "string \<Rightarrow> string \<Rightarrow> err option"
  o_block_stop :: "string \<Rightarrow> string \<Rightarrow> err option"
  o_source_start :: "string \<Rightarrow> err option"
  o_source_stop :: "string \<Rightarrow> err option"
  o_chains :: "flow_def \<Rightarrow> (err, chains) res"
  o_gomaxprocs :: int

datatype life =
    ConnectorUp string | ConnectorDown string
  | PoolUp string | BlockUp string string | SourceUp string
  | SourceDown string | BlockDown string string | PoolDown string

record service =
  ledger :: "life list"
  sv_flows :: flow_registry

definition note_life :: "life list \<Rightarrow> service \<Rightarrow> service" where
  "note_life ls s = s\<lparr>ledger := ledger s @ ls\<rparr>"

section \<open>Connectors\<close>

text \<open>
  A connector is known by its instance name. \<open>cs_running\<close> is in starting order.
\<close>

record connector_set =
  cs_configs :: "connector_config list"
  cs_running :: "string list"
  cs_byName :: "string \<rightharpoonup> string"

definition registry_New :: "outside \<Rightarrow> string \<Rightarrow> err option" where
  "registry_New ou name =
     (if o_registry ou name then None else Some (Err (''connector '' @ quote name @ '' not registered'')))"

text \<open>Stopped in reverse order, all of them; the first error is reported.\<close>

fun stop_in_order ::
  "outside \<Rightarrow> string list \<Rightarrow> err option \<Rightarrow> service \<Rightarrow> service \<times> err option" where
  "stop_in_order ou [] firstErr s = (s, firstErr)"
| "stop_in_order ou (c # cs) firstErr s =
     stop_in_order ou cs (if firstErr = None then o_conn_stop ou c else firstErr)
       (note_life [ConnectorDown c] s)"

definition stopConnectors :: "outside \<Rightarrow> string list \<Rightarrow> service \<Rightarrow> service \<times> err option" where
  "stopConnectors ou running s = stop_in_order ou (rev running) None s"

definition sourceConnectorNames :: "flow_def list \<Rightarrow> string list" where
  "sourceConnectorNames flows =
     List.map_filter (\<lambda>f. case fd_source f of
        Some src \<Rightarrow> if sc_connector src \<noteq> [] then Some (sc_connector src) else None
      | None \<Rightarrow> None) flows"

fun start_connectors_from ::
  "outside \<Rightarrow> string list \<Rightarrow> connector_config list \<Rightarrow> connector_set \<Rightarrow> service
     \<Rightarrow> service \<times> (err, connector_set) res" where
  "start_connectors_from ou skip [] cset s = (s, Inr cset)"
| "start_connectors_from ou skip (cfg # cfgs) cset s =
     (if cc_name cfg \<in> set skip then start_connectors_from ou skip cfgs cset s
      else (case registry_New ou (cc_type cfg) of
              Some e \<Rightarrow> (fst (stopConnectors ou (cs_running cset) s), Inl e)
            | None \<Rightarrow>
                (case o_conn_start ou (cc_name cfg) of
                   Some e \<Rightarrow> (fst (stopConnectors ou (cs_running cset) s),
                             Inl (Wrap (''start connector '' @ quote (cc_name cfg)) e))
                 | None \<Rightarrow>
                     start_connectors_from ou skip cfgs
                       (cset\<lparr>cs_running := cs_running cset @ [cc_name cfg],
                             cs_byName := (cs_byName cset)(cc_name cfg \<mapsto> cc_name cfg)\<rparr>)
                       (note_life [ConnectorUp (cc_name cfg)] s))))"

definition startConnectors ::
  "outside \<Rightarrow> bool \<Rightarrow> connector_config list \<Rightarrow> flow_def list \<Rightarrow> service
     \<Rightarrow> service \<times> (err, connector_set) res" where
  "startConnectors ou invokeMode cfgs flows s =
     start_connectors_from ou (if invokeMode then sourceConnectorNames flows else []) cfgs
       \<lparr>cs_configs = cfgs, cs_running = [], cs_byName = Map.empty\<rparr> s"

definition desiredType :: "outside \<Rightarrow> source_config \<Rightarrow> string" where
  "desiredType ou cfg =
     (if sc_connector cfg \<noteq> [] \<and> o_registry ou (sc_connector cfg) then sc_connector cfg
      else if sc_type cfg \<noteq> [] \<and> o_registry ou (sc_type cfg) then sc_type cfg
      else [])"

definition configuredOfType :: "connector_set \<Rightarrow> string \<Rightarrow> string list" where
  "configuredOfType cset typeName =
     map cc_name (filter (\<lambda>c. cc_type c = typeName) (cs_configs cset))"

definition explicit_binding :: "connector_set \<Rightarrow> source_config \<Rightarrow> string option" where
  "explicit_binding cset cfg =
     (if sc_connector cfg \<noteq> [] then cs_byName cset (sc_connector cfg) else None)"

text \<open>The on-demand instance, shared under the name of its type.\<close>

definition default_instance ::
  "outside \<Rightarrow> string \<Rightarrow> connector_set \<Rightarrow> service \<Rightarrow> service \<times> connector_set \<times> (err, string) res" where
  "default_instance ou typeName cset s =
     (case cs_byName cset typeName of
        Some c \<Rightarrow> (s, cset, Inr c)
      | None \<Rightarrow>
          (case registry_New ou typeName of
             Some e \<Rightarrow> (s, cset, Inl e)
           | None \<Rightarrow>
               (case o_conn_start ou typeName of
                  Some e \<Rightarrow> (s, cset, Inl (Wrap (''start implicit connector '' @ quote typeName) e))
                | None \<Rightarrow>
                    (note_life [ConnectorUp typeName] s,
                     cset\<lparr>cs_running := cs_running cset @ [typeName],
                          cs_byName := (cs_byName cset)(typeName \<mapsto> typeName)\<rparr>,
                     Inr typeName))))"

text \<open>How a source binds when its connector is not named explicitly.\<close>

definition implicit_binding ::
  "outside \<Rightarrow> string \<Rightarrow> source_config \<Rightarrow> connector_set \<Rightarrow> service \<Rightarrow> service \<times> connector_set \<times> (err, string) res" where
  "implicit_binding ou typeName cfg cset s =
     (if typeName = []
      then (s, cset, Inl (Err (''source connector '' @ quote (sc_connector cfg) @ '' is not configured'')))
      else (case configuredOfType cset typeName of
              [] \<Rightarrow> default_instance ou typeName cset s
            | [m] \<Rightarrow> (case cs_byName cset m of
                       Some c \<Rightarrow> (s, cset, Inr c)
                     | None \<Rightarrow> default_instance ou typeName cset s)
            | ms \<Rightarrow> (s, cset, Inl (Err (''source connector is ambiguous: '' @ itoa (length ms) @
                     '' connectors of type '' @ quote typeName @
                     '' are configured; set the source's connector explicitly'')))))"

definition resolveConnector ::
  "outside \<Rightarrow> source_config \<Rightarrow> connector_set \<Rightarrow> service \<Rightarrow> service \<times> connector_set \<times> (err, string) res" where
  "resolveConnector ou cfg cset s =
     (case explicit_binding cset cfg of
        Some c \<Rightarrow> (s, cset, Inr c)
      | None \<Rightarrow> implicit_binding ou (desiredType ou cfg) cfg cset s)"

section \<open>Building the flows\<close>

record bound =
  b_name :: string
  b_implicit :: bool
  b_workers :: int
  b_derived :: bool
  b_buffer :: int
  b_pool :: int
  b_blocks :: "string list"
  b_keys :: "string list"
  b_sourceDesc :: string

definition describeSource :: "source_config option \<Rightarrow> bool \<Rightarrow> string" where
  "describeSource src implicit =
     (if implicit then ''implicit''
      else (case src of
              None \<Rightarrow> ''implicit''
            | Some c \<Rightarrow>
                if sc_connector c \<noteq> [] then sc_type c @ '' via connector '' @ quote (sc_connector c)
                else sc_type c @ '' via default connector''))"

definition newSource ::
  "outside \<Rightarrow> source_config \<Rightarrow> connector_set \<Rightarrow> service \<Rightarrow> service \<times> connector_set \<times> err option" where
  "newSource ou cfg cset s =
     (case resolveConnector ou cfg cset s of
        (s1, cset1, Inl e) \<Rightarrow> (s1, cset1, Some e)
      | (s1, cset1, Inr c) \<Rightarrow>
          if \<not> o_provides ou c
          then (s1, cset1, Some (Err (''connector for source type '' @ quote (sc_type cfg) @
                                      '' does not provide sources'')))
          else (s1, cset1, map_option (Wrap (''new source '' @ quote (sc_type cfg))) (o_new_source ou cfg)))"

definition buildSource ::
  "outside \<Rightarrow> bool \<Rightarrow> flow_def \<Rightarrow> connector_set \<Rightarrow> service \<Rightarrow> service \<times> connector_set \<times> err option" where
  "buildSource ou invokeMode cfg cset s =
     (case (fd_source cfg, invokeMode) of
        (Some src, False) \<Rightarrow> newSource ou src cset s
      | _ \<Rightarrow>
          if fd_name cfg = []
          then (s, cset, Some (Err ''flow without a source requires a name to be callable''))
          else (s, cset, None))"

definition buildFlow ::
  "outside \<Rightarrow> bool \<Rightarrow> flow_def \<Rightarrow> connector_set \<Rightarrow> service
     \<Rightarrow> service \<times> connector_set \<times> (err, bound) res" where
  "buildFlow ou invokeMode cfg cset s =
     (let workers = resolveWorkers (fd_workers cfg) (o_gomaxprocs ou);
          implicit = (fd_source cfg = None \<or> invokeMode)
      in case buildSource ou invokeMode cfg cset s of
           (s1, cset1, Some e) \<Rightarrow> (s1, cset1, Inl e)
         | (s1, cset1, None) \<Rightarrow>
             (case o_chains ou cfg of
                Inl e \<Rightarrow> (s1, cset1, Inl e)
              | Inr ch \<Rightarrow>
                  (s1, cset1, Inr
                     \<lparr>b_name = fd_name cfg, b_implicit = implicit, b_workers = workers,
                      b_derived = (fd_workers cfg \<le> 0),
                      b_buffer = resolveBuffer (fd_buffer cfg) workers,
                      b_pool = p_workers (pool_New (fd_pool cfg) 0),
                      b_blocks = ch_lifecycle ch, b_keys = ch_stateKeys ch,
                      b_sourceDesc = describeSource (fd_source cfg) implicit\<rparr>)))"

fun claim_keys ::
  "string \<Rightarrow> string list \<Rightarrow> (string \<rightharpoonup> string) \<Rightarrow> (err, string \<rightharpoonup> string) res" where
  "claim_keys name [] claimed = Inr claimed"
| "claim_keys name (key # keys) claimed =
     (case claimed key of
        Some owner \<Rightarrow>
          Inl (Err (''flow '' @ quote name @ '': state key '' @ quote key @ '' is already used by flow '' @
               quote owner @ ''; give one of the blocks its own storeKey''))
      | None \<Rightarrow> claim_keys name keys (claimed(key \<mapsto> name)))"

definition claimStateKeys ::
  "(string \<rightharpoonup> string) \<Rightarrow> string \<Rightarrow> bound \<Rightarrow> (err, string \<rightharpoonup> string) res" where
  "claimStateKeys claimed name flow = claim_keys name (b_keys flow) claimed"

fun build_flows_from ::
  "outside \<Rightarrow> bool \<Rightarrow> flow_def list \<Rightarrow> (string \<rightharpoonup> string) \<Rightarrow> connector_set \<Rightarrow> service
     \<Rightarrow> service \<times> connector_set \<times> (err, bound list) res" where
  "build_flows_from ou invoking [] claimed cset s = (s, cset, Inr [])"
| "build_flows_from ou invoking (cfg # cfgs) claimed cset s =
     (case buildFlow ou invoking cfg cset s of
        (s1, cset1, Inl e) \<Rightarrow> (s1, cset1, Inl (Wrap (''build flow '' @ quote (fd_name cfg)) e))
      | (s1, cset1, Inr flow) \<Rightarrow>
          (case claimStateKeys claimed (fd_name cfg) flow of
             Inl e \<Rightarrow> (s1, cset1, Inl e)
           | Inr claimed1 \<Rightarrow>
               (case build_flows_from ou invoking cfgs claimed1 cset1 s1 of
                  (s2, cset2, Inl e) \<Rightarrow> (s2, cset2, Inl e)
                | (s2, cset2, Inr flows) \<Rightarrow> (s2, cset2, Inr (flow # flows)))))"

text \<open>
  The debug blocks the caller asked for: mocks, then spies, then the breakpoint, checked
  before anything is rewritten.
\<close>

definition debugAddresses :: "string list option \<Rightarrow> string option \<Rightarrow> (string \<times> string) list" where
  "debugAddresses spies bp =
     (case spies of None \<Rightarrow> [] | Some addrs \<Rightarrow> map (\<lambda>a. (spyBlockType, a)) addrs) @
     (case bp of None \<Rightarrow> [] | Some a \<Rightarrow> [(breakpointBlockType, a)])"

definition applyDebug ::
  "schema \<Rightarrow> bool \<Rightarrow> string list option \<Rightarrow> string list option \<Rightarrow> string option \<Rightarrow> config
     \<Rightarrow> (err, config) res" where
  "applyDebug sch invokeMode mocks spies bp cfg =
     (if bp = None \<and> spies = None \<and> mocks = None then Inr cfg
      else if \<not> invokeMode
      then Inl (Err (''breakpoints, spies and mocks require invoke mode: '' @
             ''they would halt, buffer, or fake live traffic on a source-backed flow''))
      else (case checkMockConflicts (case mocks of Some m \<Rightarrow> m | None \<Rightarrow> []) (debugAddresses spies bp) of
              Some e \<Rightarrow> Inl e
            | None \<Rightarrow>
                bind_res (injectMocks sch (case mocks of Some m \<Rightarrow> m | None \<Rightarrow> []) cfg) (\<lambda>cfg1.
                bind_res (injectSpies sch (case spies of Some m \<Rightarrow> m | None \<Rightarrow> []) cfg1) (\<lambda>cfg2.
                  case bp of None \<Rightarrow> Inr cfg2 | Some addr \<Rightarrow> injectBreakpoint sch addr cfg2))))"

text \<open>\<open>debugged\<close> is the outcome of \<open>applyDebug\<close>, on which the built chains depend.\<close>

definition buildFlows ::
  "outside \<Rightarrow> bool \<Rightarrow> err option \<Rightarrow> flow_def list \<Rightarrow> connector_set \<Rightarrow> service
     \<Rightarrow> service \<times> connector_set \<times> (err, bound list) res" where
  "buildFlows ou invoking debugged flows cset s =
     (case debugged of
        Some e \<Rightarrow> (s, cset, Inl e)
      | None \<Rightarrow> build_flows_from ou invoking flows Map.empty cset s)"

section \<open>Starting and stopping\<close>

definition source_start :: "outside \<Rightarrow> nat \<Rightarrow> bound \<Rightarrow> service \<Rightarrow> service \<times> err option" where
  "source_start ou ch bf s =
     (if b_implicit bf
      then (case is_Start \<lparr>is_name = b_name bf, is_out = ch\<rparr> (sv_flows s) of
              Inl e \<Rightarrow> (s, Some e)
            | Inr r \<Rightarrow> (note_life [SourceUp (b_name bf)] (s\<lparr>sv_flows := r\<rparr>), None))
      else (case o_source_start ou (b_name bf) of
              Some e \<Rightarrow> (s, Some e)
            | None \<Rightarrow> (note_life [SourceUp (b_name bf)] s, None)))"

definition source_stop :: "outside \<Rightarrow> bound \<Rightarrow> service \<Rightarrow> service \<times> err option" where
  "source_stop ou bf s =
     (let s1 = note_life [SourceDown (b_name bf)] s in
      if b_implicit bf
      then (s1\<lparr>sv_flows := is_Stop \<lparr>is_name = b_name bf, is_out = 0\<rparr> (sv_flows s1)\<rparr>, None)
      else (s1, o_source_stop ou (b_name bf)))"

text \<open>
  The pool and the workers come up first, then the blocks in order, then the source. \<open>ch\<close>
  is the flow's own input channel.
\<close>

definition flow_start :: "outside \<Rightarrow> nat \<Rightarrow> bound \<Rightarrow> service \<Rightarrow> service \<times> err option" where
  "flow_start ou ch bf s =
     (let s1 = note_life [PoolUp (b_name bf)] s in
      case start_all (b_name bf) (o_block_start ou (b_name bf)) (b_blocks bf) of
        (up, r) \<Rightarrow>
          let s2 = note_life (map (BlockUp (b_name bf)) up) s1 in
          (case r of Some e \<Rightarrow> (s2, Some e) | None \<Rightarrow> source_start ou ch bf s2))"

definition flow_stop :: "outside \<Rightarrow> bound \<Rightarrow> service \<Rightarrow> service \<times> err option" where
  "flow_stop ou bf s =
     (case source_stop ou bf s of (s1, sourceErr) \<Rightarrow>
        (case stop_all (b_name bf) (o_block_stop ou (b_name bf)) (b_blocks bf) of (asked, errs) \<Rightarrow>
           (note_life (map (BlockDown (b_name bf)) asked @ [PoolDown (b_name bf)]) s1,
            errors_join [sourceErr, errors_join (map Some errs)])))"

definition orderForStart :: "bound list \<Rightarrow> bound list" where
  "orderForStart flows = filter b_implicit flows @ filter (\<lambda>f. \<not> b_implicit f) flows"

fun start_in_order ::
  "outside \<Rightarrow> nat \<Rightarrow> bound list \<Rightarrow> service \<Rightarrow> service \<times> bound list \<times> err option" where
  "start_in_order ou ch [] s = (s, [], None)"
| "start_in_order ou ch (f # fs) s =
     (case flow_start ou ch f s of
        (s1, Some e) \<Rightarrow> (s1, [], Some (Wrap (''start flow '' @ quote (b_name f)) e))
      | (s1, None) \<Rightarrow>
          (case start_in_order ou (Suc ch) fs s1 of (s2, started, r) \<Rightarrow> (s2, f # started, r)))"

definition startFlows :: "outside \<Rightarrow> bound list \<Rightarrow> service \<Rightarrow> service \<times> bound list \<times> err option" where
  "startFlows ou flows s = start_in_order ou 0 (orderForStart flows) s"

fun stop_flows_in_order ::
  "outside \<Rightarrow> bound list \<Rightarrow> err option \<Rightarrow> service \<Rightarrow> service \<times> err option" where
  "stop_flows_in_order ou [] firstErr s = (s, firstErr)"
| "stop_flows_in_order ou (f # fs) firstErr s =
     (case flow_stop ou f s of (s1, r) \<Rightarrow>
        stop_flows_in_order ou fs
          (if firstErr = None then map_option (Wrap (''stop flow '' @ quote (b_name f))) r else firstErr) s1)"

definition stopFlows :: "outside \<Rightarrow> bound list \<Rightarrow> service \<Rightarrow> service \<times> err option" where
  "stopFlows ou flows s = stop_flows_in_order ou (rev flows) None s"

text \<open>
  \<open>Run\<close> from the call to its return. The wait for the context is the point where the
  generation serves.
\<close>

definition service_Run ::
  "outside \<Rightarrow> bool \<Rightarrow> err option \<Rightarrow> connector_config list \<Rightarrow> flow_def list \<Rightarrow> service
     \<Rightarrow> service \<times> err option" where
  "service_Run ou invoking debugged conns defs s =
     (case startConnectors ou invoking conns defs s of
        (s1, Inl e) \<Rightarrow> (s1, Some e)
      | (s1, Inr cset) \<Rightarrow>
          (case buildFlows ou invoking debugged defs cset s1 of
             (s2, cset2, Inl e) \<Rightarrow> (fst (stopConnectors ou (cs_running cset2) s2), Some e)
           | (s2, cset2, Inr flows) \<Rightarrow>
               (case startFlows ou flows s2 of
                  (s3, started, Some e) \<Rightarrow>
                    (fst (stopConnectors ou (cs_running cset2) (fst (stopFlows ou started s3))), Some e)
                | (s3, started, None) \<Rightarrow>
                    (case stopFlows ou started s3 of (s4, flowErr) \<Rightarrow>
                       (case stopConnectors ou (cs_running cset2) s4 of (s5, connErr) \<Rightarrow>
                          (s5, if flowErr \<noteq> None then flowErr else connErr))))))"

definition Queues :: "bound list \<Rightarrow> (string \<Rightarrow> nat) \<Rightarrow> (string \<times> nat \<times> int) list" where
  "Queues running depth = map (\<lambda>f. (b_name f, depth (b_name f), b_buffer f)) running"

section \<open>The ledger\<close>

lemma note_life_simps [simp]:
  "ledger (note_life ls s) = ledger s @ ls" "sv_flows (note_life ls s) = sv_flows s"
  by (simp_all add: note_life_def)

lemma stop_in_order_ledger [simp]:
  "ledger (fst (stop_in_order ou cs e s)) = ledger s @ map ConnectorDown cs"
  by (induction cs arbitrary: e s) simp_all

lemma stopConnectors_ledger [simp]:
  "ledger (fst (stopConnectors ou cs s)) = ledger s @ map ConnectorDown (rev cs)"
  by (simp add: stopConnectors_def)

text \<open>Going from one set of connectors to a later one only brings connectors up.\<close>

definition grew :: "connector_set \<Rightarrow> service \<Rightarrow> connector_set \<Rightarrow> service \<Rightarrow> bool" where
  "grew cset s cset' s' \<longleftrightarrow>
     (\<exists>xs. cs_running cset' = cs_running cset @ xs \<and> ledger s' = ledger s @ map ConnectorUp xs)"

lemma grew_refl [simp]: "grew cset s cset s"
  by (simp add: grew_def)

lemma grew_trans: "grew c1 s1 c2 s2 \<Longrightarrow> grew c2 s2 c3 s3 \<Longrightarrow> grew c1 s1 c3 s3"
  by (auto simp: grew_def)

lemma grew_up:
  "grew cset s (cset\<lparr>cs_running := cs_running cset @ [c], cs_byName := m\<rparr>) (note_life [ConnectorUp c] s)"
  by (simp add: grew_def)

lemma start_connectors_ledger:
  "start_connectors_from ou skip cfgs cset s = (s', r) \<Longrightarrow>
   (case r of
      Inr cset' \<Rightarrow> grew cset s cset' s'
    | Inl e \<Rightarrow> \<exists>xs. ledger s' = ledger s @ map ConnectorUp xs @ map ConnectorDown (rev (cs_running cset @ xs)))"
proof (induction cfgs arbitrary: cset s)
  case (Cons cfg cfgs)
  show ?case
  proof (cases "cc_name cfg \<in> set skip \<or> registry_New ou (cc_type cfg) \<noteq> None \<or>
      o_conn_start ou (cc_name cfg) \<noteq> None")
    case True
    then show ?thesis using Cons by (fastforce split: if_splits option.splits)
  next
    case False
    let ?c = "cset\<lparr>cs_running := cs_running cset @ [cc_name cfg],
        cs_byName := (cs_byName cset)(cc_name cfg \<mapsto> cc_name cfg)\<rparr>"
    let ?s = "note_life [ConnectorUp (cc_name cfg)] s"
    have run: "start_connectors_from ou skip cfgs ?c ?s = (s', r)" using Cons.prems False by simp
    show ?thesis
    proof (cases r)
      case (Inl e)
      then obtain xs where "ledger s' = ledger ?s @ map ConnectorUp xs @
          map ConnectorDown (rev (cs_running ?c @ xs))" using Cons.IH [OF run] by auto
      then show ?thesis using Inl by (auto intro: exI [of _ "cc_name cfg # xs"])
    next
      case (Inr cset')
      then show ?thesis using Cons.IH [OF run] grew_trans [OF grew_up] by simp
    qed
  qed
qed auto

lemma default_instance_grew: "default_instance ou t cset s = (s', cset', r) \<Longrightarrow> grew cset s cset' s'"
  by (auto simp: default_instance_def intro: grew_up split: option.splits)

lemma resolveConnector_grew: "resolveConnector ou cfg cset s = (s', cset', r) \<Longrightarrow> grew cset s cset' s'"
  by (auto simp: resolveConnector_def implicit_binding_def dest: default_instance_grew
      split: option.splits if_splits list.splits)

lemma buildSource_grew: "buildSource ou i cfg cset s = (s', cset', r) \<Longrightarrow> grew cset s cset' s'"
  by (auto simp: buildSource_def newSource_def dest: resolveConnector_grew
      split: option.splits bool.splits if_splits prod.splits sum.splits)

lemma buildFlow_grew: "buildFlow ou i cfg cset s = (s', cset', r) \<Longrightarrow> grew cset s cset' s'"
  by (auto simp: buildFlow_def Let_def dest: buildSource_grew
      split: option.splits prod.splits sum.splits)

lemma build_flows_grew: "build_flows_from ou i cfgs claimed cset s = (s', cset', r) \<Longrightarrow> grew cset s cset' s'"
proof (induction cfgs arbitrary: claimed cset s s' cset' r)
  case (Cons cfg cfgs)
  obtain s1 cset1 r1 where b: "buildFlow ou i cfg cset s = (s1, cset1, r1)" by (metis prod_cases3)
  note g = buildFlow_grew [OF b]
  show ?case using Cons.prems b g Cons.IH grew_trans [OF g]
    by (auto split: sum.splits prod.splits)
qed simp

definition flow_up :: "bound \<Rightarrow> life list" where
  "flow_up f = PoolUp (b_name f) # map (BlockUp (b_name f)) (b_blocks f) @ [SourceUp (b_name f)]"

definition flow_down :: "bound \<Rightarrow> life list" where
  "flow_down f = SourceDown (b_name f) # map (BlockDown (b_name f)) (b_blocks f) @ [PoolDown (b_name f)]"

definition half_up :: "bound \<Rightarrow> nat \<Rightarrow> life list" where
  "half_up f k = PoolUp (b_name f) # map (BlockUp (b_name f)) (take k (b_blocks f))"

lemma start_all_take:
  assumes "start_all name start bs = (up, r)"
  shows "(\<exists>k. up = take k bs) \<and> (r = None \<longrightarrow> up = bs)"
proof -
  note p = start_all_prefix [OF assms]
  then have up: "up = takeWhile (\<lambda>b. start b = None) bs" by blast
  have "\<exists>k. up = take k bs" unfolding up by (rule exI, rule takeWhile_eq_take)
  moreover have "up = bs" if "r = None" unfolding up takeWhile_eq_all_conv using p that by blast
  ultimately show ?thesis by blast
qed

lemma source_start_ledger:
  "source_start ou ch f s = (s', r) \<Longrightarrow> ledger s' = ledger s @ (if r = None then [SourceUp (b_name f)] else [])"
  by (cases "o_source_start ou (b_name f)"; cases r) (auto simp: source_start_def split: if_splits sum.splits)

lemma flow_start_ledger:
  assumes "flow_start ou ch f s = (s', r)"
  shows "(r = None \<longrightarrow> ledger s' = ledger s @ flow_up f) \<and>
         (r \<noteq> None \<longrightarrow> (\<exists>k. ledger s' = ledger s @ half_up f k))"
proof -
  obtain up r1 where u: "start_all (b_name f) (o_block_start ou (b_name f)) (b_blocks f) = (up, r1)" by force
  obtain k where k: "up = take k (b_blocks f)" "r1 = None \<longrightarrow> up = b_blocks f" using start_all_take [OF u] by blast
  let ?s = "note_life (map (BlockUp (b_name f)) up) (note_life [PoolUp (b_name f)] s)"
  show ?thesis
  proof (cases r1)
    case None
    then have "source_start ou ch f ?s = (s', r)" using assms u by (simp add: flow_start_def Let_def)
    from source_start_ledger [OF this] show ?thesis using k None
      by (auto simp: flow_up_def half_up_def intro: exI [of _ "length (b_blocks f)"])
  next
    case (Some e)
    then have "ledger s' = ledger s @ half_up f k" "r \<noteq> None"
      using assms u k(1) by (auto simp: flow_start_def half_up_def Let_def)
    then show ?thesis by blast
  qed
qed

lemma flow_stop_ledger: "ledger (fst (flow_stop ou f s)) = ledger s @ flow_down f"
proof -
  obtain asked errs where a: "stop_all (b_name f) (o_block_stop ou (b_name f)) (b_blocks f) = (asked, errs)"
    by force
  moreover have "asked = b_blocks f"
    using stop_all_asks_everyone [of "b_name f" "o_block_stop ou (b_name f)" "b_blocks f"] a by simp
  ultimately show ?thesis by (simp add: flow_stop_def source_stop_def flow_down_def Let_def)
qed

lemma stop_flows_ledger [simp]:
  "ledger (fst (stop_flows_in_order ou fs e s)) = ledger s @ concat (map flow_down fs)"
proof (induction fs arbitrary: e s)
  case (Cons f fs)
  obtain s1 r where f: "flow_stop ou f s = (s1, r)" by force
  have "ledger s1 = ledger s @ flow_down f" using flow_stop_ledger [of ou f s] f by simp
  then show ?case using Cons f by simp
qed simp

lemma stopFlows_ledger [simp]:
  "ledger (fst (stopFlows ou fs s)) = ledger s @ concat (map flow_down (rev fs))"
  by (simp add: stopFlows_def)

lemma start_in_order_ledger:
  "start_in_order ou ch fs s = (s', started, r) \<Longrightarrow>
   (r = None \<longrightarrow> started = fs \<and> ledger s' = ledger s @ concat (map flow_up fs)) \<and>
   (r \<noteq> None \<longrightarrow> (\<exists>f rest k. fs = started @ f # rest \<and>
      ledger s' = ledger s @ concat (map flow_up started) @ half_up f k))"
proof (induction fs arbitrary: ch s s' started r)
  case (Cons f fs)
  obtain s1 r1 where f: "flow_start ou ch f s = (s1, r1)" by force
  note L = flow_start_ledger [OF f]
  show ?case
  proof (cases r1)
    case (Some e)
    then show ?thesis using Cons.prems f L by auto
  next
    case None
    obtain s2 st r2 where q: "start_in_order ou (Suc ch) fs s1 = (s2, st, r2)" by (metis prod_cases3)
    then have eq: "s' = s2" "started = f # st" "r = r2" using Cons.prems f None by auto
    show ?thesis using Cons.IH [OF q] L None by (auto simp: eq)
  qed
qed simp

lemma sorted_wrt_all: "(\<And>x y. x \<in> set xs \<Longrightarrow> y \<in> set xs \<Longrightarrow> R x y) \<Longrightarrow> sorted_wrt R xs"
  by (induction xs) auto

text \<open>
  A configured database connector and a flow whose source starts an HTTP connector on
  demand. Its second block with background work refuses to start.
\<close>

definition sample_outside :: outside where
  "sample_outside =
     \<lparr>o_registry = (\<lambda>t. t = ''http'' \<or> t = ''sql''), o_conn_start = (\<lambda>_. None), o_conn_stop = (\<lambda>_. None),
      o_provides = (\<lambda>_. True), o_new_source = (\<lambda>_. None),
      o_block_start = (\<lambda>_ b. if b = ''bad'' then Some (Err ''no lease'') else None),
      o_block_stop = (\<lambda>_ _. None), o_source_start = (\<lambda>_. None), o_source_stop = (\<lambda>_. None),
      o_chains = (\<lambda>f. if fd_name f = ''orders''
                      then Inr \<lparr>ch_lifecycle = [''agg'', ''bad''], ch_stateKeys = [''k1'']\<rparr>
                      else Inr \<lparr>ch_lifecycle = [], ch_stateKeys = []\<rparr>),
      o_gomaxprocs = 4\<rparr>"

definition sample_orders :: flow_def where
  "sample_orders =
     \<lparr>fd_name = ''orders'', fd_source = Some \<lparr>sc_connector = [], sc_type = ''http''\<rparr>, fd_workers = 0,
      fd_buffer = 0, fd_pool = 0\<rparr>"

definition sample_service :: service where
  "sample_service = \<lparr>ledger = [], sv_flows = empty_registry\<rparr>"

definition sample_run :: "service \<times> err option" where
  "sample_run = service_Run sample_outside False None [\<lparr>cc_name = ''db'', cc_type = ''sql''\<rparr>]
     [sample_orders] sample_service"

definition sample_set :: connector_set where
  "sample_set = \<lparr>cs_configs = [\<lparr>cc_name = ''db'', cc_type = ''sql''\<rparr>], cs_running = [''db''],
                 cs_byName = [''db'' \<mapsto> ''db'']\<rparr>"

lemmas service_eval = sample_run_def sample_outside_def sample_orders_def sample_service_def sample_set_def
  service_Run_def startConnectors_def registry_New_def buildFlows_def buildFlow_def buildSource_def
  newSource_def resolveConnector_def implicit_binding_def explicit_binding_def desiredType_def configuredOfType_def
  default_instance_def claimStateKeys_def startFlows_def orderForStart_def flow_start_def source_start_def
  stopFlows_def stopConnectors_def describeSource_def

lemma flows_up_and_down:
  assumes st: "startFlows ou flows s = (s1, started, r)"
  shows "\<exists>left. ledger (fst (stopFlows ou started s1)) =
      ledger s @ concat (map flow_up started) @ left @ concat (map flow_down (rev started)) \<and>
    (left = [] \<or> r \<noteq> None \<and> (\<exists>f k. left = half_up f k)) \<and>
    sorted_wrt (\<lambda>f g. b_implicit g \<longrightarrow> b_implicit f) started"
proof -
  have ordered: "sorted_wrt (\<lambda>f g. b_implicit g \<longrightarrow> b_implicit f) (orderForStart flows)"
    by (auto simp: orderForStart_def sorted_wrt_append intro: sorted_wrt_all)
  note S = start_in_order_ledger [OF st [unfolded startFlows_def]]
  show ?thesis
  proof (cases r)
    case None
    then show ?thesis using S ordered by (intro exI [of _ "[]"]) (simp add: stopFlows_ledger)
  next
    case (Some e)
    then obtain f rest k where l: "orderForStart flows = started @ f # rest"
      "ledger s1 = ledger s @ concat (map flow_up started) @ half_up f k" using S by auto
    then show ?thesis
      using Some ordered by (intro exI [of _ "half_up f k"]) (auto simp: stopFlows_ledger sorted_wrt_append)
  qed
qed

text \<open>
  C22. Whatever fails, the ledger of a generation has one shape: connectors come up first,
  those started on demand for a source included; then flows, each with its pool, its blocks
  and its source, the callable ones before those with an external source; the flows that
  started go down in reverse order, source first and pool last; and after them exactly the
  connectors that came up, in reverse order. Only a flow whose own start failed is left half
  up, and then an error is returned.
\<close>

theorem generation_ledger:
  assumes "service_Run ou invoking debugged conns defs s = (s', r)" and "ledger s = []"
  shows "\<exists>xs fs left. ledger s' = map ConnectorUp xs @ concat (map flow_up fs) @ left @
      concat (map flow_down (rev fs)) @ map ConnectorDown (rev xs) \<and>
    (left = [] \<or> r \<noteq> None \<and> (\<exists>f k. left = half_up f k)) \<and>
    sorted_wrt (\<lambda>f g. b_implicit g \<longrightarrow> b_implicit f) fs"
proof -
  obtain s1 r1 where c: "startConnectors ou invoking conns defs s = (s1, r1)" by force
  note C = start_connectors_ledger [OF c [unfolded startConnectors_def]]
  show ?thesis
  proof (cases r1)
    case (Inl e)
    then obtain xs where "ledger s1 = map ConnectorUp xs @ map ConnectorDown (rev xs)"
      using C assms(2) by auto
    then show ?thesis using assms(1) c Inl
      by (intro exI [of _ xs] exI [of _ "[]"]) (simp add: service_Run_def)
  next
    case (Inr cset)
    obtain s2 cset2 r2 where b: "buildFlows ou invoking debugged defs cset s1 = (s2, cset2, r2)"
      by (metis prod_cases3)
    have "grew cset s1 cset2 s2"
      using b by (auto simp: buildFlows_def dest: build_flows_grew split: option.splits)
    then obtain xs where xs: "cs_running cset2 = xs" "ledger s2 = map ConnectorUp xs"
      using C Inr assms(2) grew_trans by (fastforce simp: grew_def)
    show ?thesis
    proof (cases r2)
      case (Inl e)
      then show ?thesis using assms(1) c Inr b xs
        by (intro exI [of _ xs] exI [of _ "[]"]) (auto simp: service_Run_def)
    next
      case flows: (Inr flows)
      obtain s3 started r3 where st: "startFlows ou flows s2 = (s3, started, r3)" by (metis prod_cases3)
      obtain left where l: "ledger (fst (stopFlows ou started s3)) =
          map ConnectorUp xs @ concat (map flow_up started) @ left @ concat (map flow_down (rev started))"
        "left = [] \<or> r3 \<noteq> None \<and> (\<exists>f k. left = half_up f k)"
        "sorted_wrt (\<lambda>f g. b_implicit g \<longrightarrow> b_implicit f) started"
        using flows_up_and_down [OF st] xs(2) by auto
      have "s' = fst (stopConnectors ou xs (fst (stopFlows ou started s3)))" "r3 \<noteq> None \<longrightarrow> r \<noteq> None"
        using assms(1) c Inr b flows st xs(1) by (auto simp: service_Run_def split: prod.splits option.splits)
      then show ?thesis
        using l by (intro exI [of _ xs] exI [of _ started] exI [of _ left]) (auto simp: stopConnectors_ledger)
    qed
  qed
qed

theorem generation_ledger_witness:
  "ledger (fst sample_run) = [ConnectorUp ''db'', ConnectorUp ''http'', PoolUp ''orders'',
      BlockUp ''orders'' ''agg'', ConnectorDown ''http'', ConnectorDown ''db''] \<and>
   (\<exists>xs fs left. ledger (fst sample_run) = map ConnectorUp xs @ concat (map flow_up fs) @ left @
      concat (map flow_down (rev fs)) @ map ConnectorDown (rev xs))"
proof
  show "ledger (fst sample_run) = [ConnectorUp ''db'', ConnectorUp ''http'', PoolUp ''orders'',
      BlockUp ''orders'' ''agg'', ConnectorDown ''http'', ConnectorDown ''db'']"
    by (simp add: service_eval Let_def note_life_def)
  show "\<exists>xs fs left. ledger (fst sample_run) = map ConnectorUp xs @ concat (map flow_up fs) @ left @
      concat (map flow_down (rev fs)) @ map ConnectorDown (rev xs)"
    using generation_ledger [of sample_outside False None "[\<lparr>cc_name = ''db'', cc_type = ''sql''\<rparr>]"
        "[sample_orders]" sample_service "fst sample_run" "snd sample_run"]
    by (auto simp: sample_run_def sample_service_def)
qed

section \<open>A flow whose start fails\<close>

lemma names_of_ups:
  "PoolUp n \<in> set (concat (map flow_up fs)) \<longleftrightarrow> n \<in> b_name ` set fs"
  "PoolDown n \<in> set (concat (map flow_down fs)) \<longleftrightarrow> n \<in> b_name ` set fs"
  "PoolDown n \<notin> set (concat (map flow_up fs))" "PoolDown n \<notin> set (half_up f k)"
  "BlockDown n b \<in> set (concat (map flow_down fs)) \<longleftrightarrow> (\<exists>f \<in> set fs. n = b_name f \<and> b \<in> set (b_blocks f))"
  "BlockDown n b \<notin> set (concat (map flow_up fs))" "BlockDown n b \<notin> set (half_up f k)"
  by (auto simp: flow_up_def flow_down_def half_up_def)

text \<open>
  When a block or the source of a flow refuses to start, \<^verbatim>\<open>Run\<close> stops the flows
  before it and returns the error, but not the flow itself: its pool and workers and every
  block of it that had started, with the lease such a block holds, are never stopped.
\<close>

theorem failed_start_left_up:
  assumes "startFlows ou flows s = (s1, started, Some e)" and "distinct (map b_name flows)"
    and "ledger s = []"
  shows "\<exists>f \<in> set flows. \<exists>k.
    (\<forall>x \<in> set (PoolUp (b_name f) # map (BlockUp (b_name f)) (take k (b_blocks f))).
       x \<in> set (ledger (fst (stopFlows ou started s1)))) \<and>
    PoolDown (b_name f) \<notin> set (ledger (fst (stopFlows ou started s1))) \<and>
    (\<forall>b. BlockDown (b_name f) b \<notin> set (ledger (fst (stopFlows ou started s1))))"
proof -
  obtain f rest k where f: "orderForStart flows = started @ f # rest"
    "ledger s1 = concat (map flow_up started) @ half_up f k"
    using start_in_order_ledger [OF assms(1) [unfolded startFlows_def]] assms(3) by auto
  have set_eq: "set (orderForStart flows) = set flows" by (auto simp: orderForStart_def)
  have "distinct (map b_name (orderForStart flows))"
    using assms(2) by (auto simp: orderForStart_def distinct_map inj_on_def)
  then have fresh: "b_name f \<notin> b_name ` set started" using f(1) by auto
  have "f \<in> set flows" using f(1) set_eq by auto
  moreover have "ledger (fst (stopFlows ou started s1)) =
      concat (map flow_up started) @ half_up f k @ concat (map flow_down (rev started))"
    using f(2) by simp
  ultimately show ?thesis using fresh names_of_ups
    by (intro bexI [of _ f] exI [of _ k]) (auto simp: half_up_def names_of_ups)
qed

definition sample_bound_orders :: bound where
  "sample_bound_orders =
     \<lparr>b_name = ''orders'', b_implicit = False, b_workers = 16, b_derived = True, b_buffer = 64, b_pool = 8,
      b_blocks = [''agg'', ''bad''], b_keys = [''k1''], b_sourceDesc = ''http via default connector''\<rparr>"

theorem failed_start_left_up_witness:
  "\<exists>s1 e. startFlows sample_outside [sample_bound_orders] sample_service = (s1, [], Some e) \<and>
     PoolUp ''orders'' \<in> set (ledger (fst (stopFlows sample_outside [] s1))) \<and>
     PoolDown ''orders'' \<notin> set (ledger (fst (stopFlows sample_outside [] s1)))"
proof -
  obtain s1 e where "startFlows sample_outside [sample_bound_orders] sample_service = (s1, [], Some e)"
    by (simp add: service_eval sample_bound_orders_def Let_def)
  with failed_start_left_up [OF this] show ?thesis
    by (auto simp: sample_service_def sample_bound_orders_def)
qed

section \<open>Connectors are shared\<close>

definition running_ok :: "connector_set \<Rightarrow> bool" where
  "running_ok cset \<longleftrightarrow> distinct (cs_running cset) \<and> dom (cs_byName cset) = set (cs_running cset) \<and>
     (\<forall>n c. cs_byName cset n = Some c \<longrightarrow> c = n)"

lemma running_ok_default:
  assumes "running_ok cset" and "default_instance ou t cset s = (s1, cset1, Inr c)"
  shows "running_ok cset1 \<and> c = t \<and> cs_byName cset1 t = Some t \<and> cs_configs cset1 = cs_configs cset \<and>
    (\<forall>n. n \<noteq> t \<longrightarrow> cs_byName cset1 n = cs_byName cset n)"
proof (cases "cs_byName cset t")
  case (Some x)
  then show ?thesis using assms by (auto simp: running_ok_def default_instance_def)
next
  case None
  then have "t \<notin> set (cs_running cset)" using assms(1) by (auto simp: running_ok_def)
  moreover have eqs: "c = t" "cset1 = cset\<lparr>cs_running := cs_running cset @ [t],
      cs_byName := (cs_byName cset)(t \<mapsto> t)\<rparr>"
    using assms(2) None by (auto simp: default_instance_def split: option.splits)
  ultimately show ?thesis using assms(1) unfolding running_ok_def eqs by simp
qed

lemma resolve_split:
  "resolveConnector ou cfg cset s =
     (case explicit_binding cset cfg of
        Some c \<Rightarrow> (s, cset, Inr c)
      | None \<Rightarrow> implicit_binding ou (desiredType ou cfg) cfg cset s)"
  by (simp add: resolveConnector_def)

lemma implicit_binding_again:
  assumes "running_ok cset" and "implicit_binding ou t cfg cset s = (s1, cset1, Inr c)"
  shows "running_ok cset1 \<and> c \<in> set (cs_running cset1) \<and>
    implicit_binding ou t cfg' cset1 s1 = (s1, cset1, Inr c) \<and>
    (\<forall>n. cs_byName cset1 n = cs_byName cset n \<or> n = c \<and> cs_byName cset1 n = Some c)"
proof (cases "s1 = s \<and> cset1 = cset \<and> (\<exists>m. configuredOfType cset t = [m] \<and> cs_byName cset m = Some c)")
  case True
  then show ?thesis using assms by (auto simp: implicit_binding_def running_ok_def)
next
  case False
  then have d: "default_instance ou t cset s = (s1, cset1, Inr c)" and t: "t \<noteq> []"
    and ms: "length (configuredOfType cset t) \<le> 1"
    and none: "\<And>m. configuredOfType cset t = [m] \<Longrightarrow> cs_byName cset m = None"
    using assms(2) by (auto simp: implicit_binding_def split: if_splits list.splits option.splits)
  note D = running_ok_default [OF assms(1) d]
  have cfgs: "configuredOfType cset1 t = configuredOfType cset t"
    using D by (simp add: configuredOfType_def)
  have again: "default_instance ou t cset1 s1 = (s1, cset1, Inr c)"
    using D by (simp add: default_instance_def)
  have "implicit_binding ou t cfg' cset1 s1 = (s1, cset1, Inr c)"
  proof (cases "configuredOfType cset t")
    case Nil
    then show ?thesis using again cfgs t by (simp add: implicit_binding_def)
  next
    case (Cons m ms')
    then have m: "configuredOfType cset t = [m]" using ms by simp
    then show ?thesis using again cfgs t none [OF m] D
      by (cases "m = t") (simp_all add: implicit_binding_def)
  qed
  moreover have "c \<in> set (cs_running cset1)" using D by (auto simp: running_ok_def)
  ultimately show ?thesis using D by auto
qed

text \<open>
  A source that binds does so to a running connector, and binding is stable: asked again
  it gets the same connector and nothing new is started, and so does every other source that
  leaves the connector open and wants the same type. The set keeps one entry per running
  connector.
\<close>

theorem connectors_are_shared:
  assumes "running_ok cset" and "resolveConnector ou cfg cset s = (s1, cset1, Inr c)"
  shows "running_ok cset1 \<and> c \<in> set (cs_running cset1) \<and>
    resolveConnector ou cfg cset1 s1 = (s1, cset1, Inr c) \<and>
    (\<forall>cfg'. explicit_binding cset cfg = None \<longrightarrow> explicit_binding cset1 cfg' = None \<longrightarrow>
       desiredType ou cfg' = desiredType ou cfg \<longrightarrow>
       resolveConnector ou cfg' cset1 s1 = (s1, cset1, Inr c))"
proof (cases "explicit_binding cset cfg")
  case (Some x)
  then show ?thesis using assms
    by (auto simp: resolve_split explicit_binding_def running_ok_def split: if_splits)
next
  case None
  then have i: "implicit_binding ou (desiredType ou cfg) cfg cset s = (s1, cset1, Inr c)"
    using assms(2) by (simp add: resolve_split)
  note A = implicit_binding_again [OF assms(1) i]
  have "explicit_binding cset1 cfg = None \<or> explicit_binding cset1 cfg = Some c"
    using None A unfolding explicit_binding_def by metis
  then show ?thesis using A by (auto simp: resolve_split)
qed

theorem connectors_are_shared_witness:
  "\<exists>s1 cset1. resolveConnector sample_outside \<lparr>sc_connector = [], sc_type = ''http''\<rparr> sample_set sample_service =
       (s1, cset1, Inr ''http'') \<and>
     resolveConnector sample_outside \<lparr>sc_connector = ''http'', sc_type = ''route''\<rparr> cset1 s1 =
       (s1, cset1, Inr ''http'') \<and> cs_running cset1 = [''db'', ''http'']"
proof -
  obtain s1 cset1 where r: "resolveConnector sample_outside \<lparr>sc_connector = [], sc_type = ''http''\<rparr> sample_set
      sample_service = (s1, cset1, Inr ''http'')" "cs_running cset1 = [''db'', ''http'']"
      "cs_byName cset1 = [''db'' \<mapsto> ''db'', ''http'' \<mapsto> ''http'']"
    by (simp add: service_eval)
  have "running_ok sample_set" by (auto simp: running_ok_def sample_set_def)
  from connectors_are_shared [OF this r(1)] r show ?thesis
    by (simp add: resolveConnector_def explicit_binding_def)
qed

section \<open>State keys\<close>

lemma claim_keys_iff:
  "(\<exists>m'. claim_keys name keys m = Inr m') \<longleftrightarrow> distinct keys \<and> set keys \<inter> dom m = {}"
  "claim_keys name keys m = Inr m' \<Longrightarrow> dom m' = dom m \<union> set keys"
  by (induction keys arbitrary: m) (auto split: option.splits)

lemma build_flows_keys:
  "build_flows_from ou i defs m cset s = (s', cset', Inr flows) \<Longrightarrow>
   distinct (concat (map b_keys flows)) \<and> set (concat (map b_keys flows)) \<inter> dom m = {} \<and>
   map b_name flows = map fd_name defs"
proof (induction defs arbitrary: m cset s s' cset' flows)
  case (Cons cfg defs)
  obtain s1 cset1 f where b: "buildFlow ou i cfg cset s = (s1, cset1, Inr f)"
    using Cons.prems by (auto split: prod.splits sum.splits)
  obtain m1 where c: "claim_keys (fd_name cfg) (b_keys f) m = Inr m1"
    using Cons.prems b by (auto simp: claimStateKeys_def split: sum.splits)
  obtain fs where r: "build_flows_from ou i defs m1 cset1 s1 = (s', cset', Inr fs)" "flows = f # fs"
    using Cons.prems b c by (auto simp: claimStateKeys_def split: prod.splits sum.splits)
  have "b_name f = fd_name cfg"
    using b by (auto simp: buildFlow_def Let_def split: prod.splits option.splits sum.splits)
  moreover have "distinct (b_keys f) \<and> set (b_keys f) \<inter> dom m = {}" "dom m1 = dom m \<union> set (b_keys f)"
    using claim_keys_iff(1) [of "fd_name cfg" "b_keys f" m] claim_keys_iff(2) [OF c] c by simp_all
  ultimately show ?case using Cons.IH [OF r(1)] r(2) by auto
qed simp

text \<open>
  A configuration that builds gives every stateful block a state key of its own, across
  all flows and both chains of each; a flow that repeats a key already claimed is refused.
\<close>

theorem state_keys_unshared:
  assumes "buildFlows ou invoking debugged defs cset s = (s', cset', Inr flows)"
  shows "distinct (concat (map b_keys flows)) \<and> map b_name flows = map fd_name defs \<and>
    (\<forall>claimed name f. (\<exists>m. claimStateKeys claimed name f = Inr m) \<longleftrightarrow>
       distinct (b_keys f) \<and> (\<forall>k \<in> set (b_keys f). claimed k = None))"
proof -
  have "build_flows_from ou invoking defs Map.empty cset s = (s', cset', Inr flows)"
    using assms by (simp add: buildFlows_def split: option.splits)
  from build_flows_keys [OF this] show ?thesis
    by (auto simp: claimStateKeys_def claim_keys_iff(1) dom_def)
qed

theorem state_keys_unshared_witness:
  "\<exists>s1 cset1 flows. buildFlows sample_outside False None
       [sample_orders, sample_orders\<lparr>fd_name := ''returns''\<rparr>] sample_set sample_service = (s1, cset1, Inr flows) \<and>
     concat (map b_keys flows) = [''k1''] \<and> distinct (concat (map b_keys flows))"
proof -
  obtain s1 cset1 flows where b: "buildFlows sample_outside False None
       [sample_orders, sample_orders\<lparr>fd_name := ''returns''\<rparr>] sample_set sample_service = (s1, cset1, Inr flows)"
      "concat (map b_keys flows) = [''k1'']"
    by (simp add: service_eval Let_def)
  with state_keys_unshared [OF b(1)] show ?thesis by blast
qed

end
