(* ===== verification/Octo_Strings.thy ===== *)
theory Octo_Strings
  imports Octo_Prelude
begin

text \<open>
  More of Go's \<^verbatim>\<open>strings\<close> package, shared by the \<^verbatim>\<open>.env\<close> parser, the
  configuration loader and the alerting service: the case of ASCII letters and
  \<^verbatim>\<open>strings.TrimSpace\<close>, whose white space is Unicode's in its UTF-8 encodings.
\<close>

text \<open>The case of a letter, where only ASCII letters matter.\<close>

definition lower_ascii :: "char \<Rightarrow> char" where
  "lower_ascii c =
     (let n = of_char c :: nat in if 65 \<le> n \<and> n \<le> 90 then char_of (n + 32) else c)"

text \<open>The encodings of the runes for which \<^verbatim>\<open>unicode.IsSpace\<close> holds.\<close>

definition space_runes :: "string list" where
  "space_runes =
     [[CHR 0x09], [CHR 0x0A], [CHR 0x0B], [CHR 0x0C], [CHR 0x0D], [CHR 0x20],
      [CHR 0xC2, CHR 0x85], [CHR 0xC2, CHR 0xA0], [CHR 0xE1, CHR 0x9A, CHR 0x80],
      [CHR 0xE2, CHR 0x80, CHR 0x80], [CHR 0xE2, CHR 0x80, CHR 0x81], [CHR 0xE2, CHR 0x80, CHR 0x82],
      [CHR 0xE2, CHR 0x80, CHR 0x83], [CHR 0xE2, CHR 0x80, CHR 0x84], [CHR 0xE2, CHR 0x80, CHR 0x85],
      [CHR 0xE2, CHR 0x80, CHR 0x86], [CHR 0xE2, CHR 0x80, CHR 0x87], [CHR 0xE2, CHR 0x80, CHR 0x88],
      [CHR 0xE2, CHR 0x80, CHR 0x89], [CHR 0xE2, CHR 0x80, CHR 0x8A], [CHR 0xE2, CHR 0x80, CHR 0xA8],
      [CHR 0xE2, CHR 0x80, CHR 0xA9], [CHR 0xE2, CHR 0x80, CHR 0xAF], [CHR 0xE2, CHR 0x81, CHR 0x9F],
      [CHR 0xE3, CHR 0x80, CHR 0x80]]"

function trim_left :: "string \<Rightarrow> string" where
  "trim_left s =
     (case find (has_prefix s) space_runes of None \<Rightarrow> s | Some r \<Rightarrow> trim_left (drop (length r) s))"
  by pat_completeness auto
termination
proof (relation "measure length")
  fix s r assume "find (has_prefix s) space_runes = Some r"
  then have "has_prefix s r" "r \<in> set space_runes" by (auto simp: find_Some_iff)
  moreover from this have "r \<noteq> []" by (auto simp: space_runes_def)
  ultimately show "(drop (length r) s, s) \<in> measure length"
    by (cases s) (auto simp: has_prefix_def)
qed simp

declare trim_left.simps [simp del]

function trim_right :: "string \<Rightarrow> string" where
  "trim_right s =
     (case find (has_suffix s) space_runes of
        None \<Rightarrow> s | Some r \<Rightarrow> trim_right (take (length s - length r) s))"
  by pat_completeness auto
termination
proof (relation "measure length")
  fix s r assume "find (has_suffix s) space_runes = Some r"
  then have "has_suffix s r" "r \<in> set space_runes" by (auto simp: find_Some_iff)
  moreover from this have "r \<noteq> []" by (auto simp: space_runes_def)
  ultimately show "(take (length s - length r) s, s) \<in> measure length"
    by (cases r) (auto simp: has_suffix_def)
qed simp

declare trim_right.simps [simp del]

definition TrimSpace :: "string \<Rightarrow> string" where
  "TrimSpace s = trim_right (trim_left s)"

end
