(* ===== verification/Octo_Dotenv.thy ===== *)
theory Octo_Dotenv
  imports Octo_Split Octo_Debug Octo_Strings
begin

text \<open>
  The \<^verbatim>\<open>.env\<close> format of \<^verbatim>\<open>runtime/core/dotenv/dotenv.go\<close>: the parser,
  the formatter, and the round trip between them. Text is a list of bytes. A map given
  to the formatter is an association list with distinct keys.
\<close>

section \<open>Bytes\<close>

definition dquote :: char where "dquote = CHR 0x22"
definition squote :: char where "squote = CHR 0x27"
definition backslash :: char where "backslash = CHR 0x5C"

fun index_any :: "string \<Rightarrow> string \<Rightarrow> char option" where
  "index_any [] chars = None"
| "index_any (x # xs) chars = (if x \<in> set chars then Some x else index_any xs chars)"

section \<open>Values\<close>

definition needsQuoting :: string where
  "needsQuoting = [CHR 0x20, CHR 0x09, CHR 0x0A, CHR 0x0D, CHR 0x23, dquote, squote, backslash]"

definition invalidInKey :: string where
  "invalidInKey = [CHR 0x3D, CHR 0x20, CHR 0x09, CHR 0x0A, CHR 0x0D, CHR 0x23, dquote, squote]"

text \<open>The replacer scans once; each byte is written as itself or as its escape.\<close>

definition escape_byte :: "char \<Rightarrow> string" where
  "escape_byte c =
     (if c = backslash then [backslash, backslash]
      else if c = dquote then [backslash, dquote]
      else if c = CHR 0x0A then [backslash, CHR ''n'']
      else if c = CHR 0x0D then [backslash, CHR ''r'']
      else if c = CHR 0x09 then [backslash, CHR ''t'']
      else [c])"

definition valueEscaper :: "string \<Rightarrow> string" where
  "valueEscaper s = concat (map escape_byte s)"

definition env_quote :: "string \<Rightarrow> string" where
  "env_quote v =
     (if v \<noteq> [] \<and> index_any v needsQuoting = None \<and> TrimSpace v = v then v
      else dquote # valueEscaper v @ [dquote])"

definition unescape_byte :: "char \<Rightarrow> char" where
  "unescape_byte c =
     (if c = CHR ''n'' then CHR 0x0A
      else if c = CHR ''r'' then CHR 0x0D
      else if c = CHR ''t'' then CHR 0x09
      else c)"

fun unescape_loop :: "string \<Rightarrow> string" where
  "unescape_loop [] = []"
| "unescape_loop [c] = [c]"
| "unescape_loop (c # d # s) =
     (if c \<noteq> backslash then c # unescape_loop (d # s) else unescape_byte d # unescape_loop s)"

definition unescape :: "string \<Rightarrow> string" where
  "unescape v = (if backslash \<notin> set v then v else unescape_loop v)"

definition env_unquote :: "string \<Rightarrow> string" where
  "env_unquote v =
     (if length v < 2 then v
      else let first = hd v in
        if first \<noteq> dquote \<and> first \<noteq> squote then v
        else if last v \<noteq> first then v
        else let inner = butlast (tl v) in if first = squote then inner else unescape inner)"

section \<open>Lines\<close>

text \<open>
  \<^verbatim>\<open>bufio.Scanner\<close> over lines: a final newline ends the last line, a carriage return
  before a newline is dropped, and a line of more bytes than its buffer holds ends the scan
  with an error.
\<close>

definition maxScanLine :: nat where "maxScanLine = 65535"

definition scan_lines :: "string \<Rightarrow> string list" where
  "scan_lines data =
     (let xs = split_on (CHR 0x0A) data in if last xs = [] then butlast xs else xs)"

definition errTooLong :: err where
  "errTooLong = Err ''bufio.Scanner: token too long''"

definition trim_prefix :: "string \<Rightarrow> string \<Rightarrow> string" where
  "trim_prefix s p = (if has_prefix s p then drop (length p) s else s)"

definition line_no :: "nat \<Rightarrow> string" where
  "line_no n = ''parse .env line '' @ itoa n @ '': ''"

text \<open>One line: nothing, an assignment, or an error.\<close>

definition parse_line :: "nat \<Rightarrow> string \<Rightarrow> (err, (string \<times> string) option) res" where
  "parse_line n line =
     (let raw = TrimSpace line in
      if raw = [] \<or> has_prefix raw ''#'' then Inr None
      else let raw1 = trim_prefix raw ''export '' in
        (case str_cut raw1 ''='' of
           (key, v, ok) \<Rightarrow>
             if \<not> ok then Inl (Err (line_no n @ ''missing '' @ [squote] @ ''='' @ [squote] @ '' in '' @ quote raw1))
             else let k = TrimSpace key in
               if k = [] then Inl (Err (line_no n @ ''empty variable name''))
               else Inr (Some (k, env_unquote (TrimSpace v)))))"

fun parse_lines ::
  "nat \<Rightarrow> string list \<Rightarrow> (string \<rightharpoonup> string) \<Rightarrow> (err, string \<rightharpoonup> string) res" where
  "parse_lines n [] values = Inr values"
| "parse_lines n (l # ls) values =
     (if maxScanLine < length l then Inl (Wrap ''read .env'' errTooLong)
      else (case parse_line n (trim_cr l) of
              Inl e \<Rightarrow> Inl e
            | Inr None \<Rightarrow> parse_lines (Suc n) ls values
            | Inr (Some (k, v)) \<Rightarrow> parse_lines (Suc n) ls (values(k \<mapsto> v))))"

definition env_Parse :: "string \<Rightarrow> (err, string \<rightharpoonup> string) res" where
  "env_Parse data = parse_lines 1 (scan_lines data) Map.empty"

section \<open>Formatting\<close>

text \<open>The offending byte as \<^verbatim>\<open>%q\<close> prints it: a quoted character literal.\<close>

definition quote_byte :: "char \<Rightarrow> string" where
  "quote_byte c =
     [squote] @
     (if c = squote then [backslash, squote]
      else if c = CHR 0x09 then [backslash, CHR ''t'']
      else if c = CHR 0x0A then [backslash, CHR ''n'']
      else if c = CHR 0x0D then [backslash, CHR ''r'']
      else [c]) @ [squote]"

definition checkKey :: "string \<Rightarrow> err option" where
  "checkKey key =
     (if key = [] then Some (Err ''variable name is empty'')
      else (case index_any key invalidInKey of
              Some c \<Rightarrow> Some (Err (''variable name '' @ quote key @ '' contains '' @ quote_byte c))
            | None \<Rightarrow>
                if TrimSpace key \<noteq> key
                then Some (Err (''variable name '' @ quote key @ '' starts or ends with whitespace''))
                else None))"

definition env_line :: "string \<Rightarrow> string \<Rightarrow> string" where
  "env_line key v = key @ ''='' @ env_quote v"

fun format_keys :: "(string \<times> string) list \<Rightarrow> string list \<Rightarrow> (err, string) res" where
  "format_keys vals [] = Inr []"
| "format_keys vals (key # keys) =
     (case checkKey key of
        Some e \<Rightarrow> Inl e
      | None \<Rightarrow>
          (case format_keys vals keys of
             Inl e \<Rightarrow> Inl e
           | Inr rest \<Rightarrow>
               Inr (env_line key (case map_of vals key of Some v \<Rightarrow> v | None \<Rightarrow> []) @ [CHR 0x0A] @ rest)))"

definition env_Format :: "(string \<times> string) list \<Rightarrow> (err, string) res" where
  "env_Format vals = format_keys vals (foldr insert_key (map fst vals) [])"

section \<open>White space\<close>

lemma space_rune_bytes:
  "r \<in> set space_runes \<Longrightarrow> r \<noteq> [] \<and> CHR ''='' \<notin> set r \<and> dquote \<notin> set r"
  by (auto simp: space_runes_def dquote_def)

lemma trim_left_none: "(\<And>r. r \<in> set space_runes \<Longrightarrow> \<not> has_prefix s r) \<Longrightarrow> trim_left s = s"
proof -
  assume "\<And>r. r \<in> set space_runes \<Longrightarrow> \<not> has_prefix s r"
  then have "find (has_prefix s) space_runes = None" by (simp add: find_None_iff)
  then show ?thesis by (subst trim_left.simps) simp
qed

lemma trim_right_none: "(\<And>r. r \<in> set space_runes \<Longrightarrow> \<not> has_suffix s r) \<Longrightarrow> trim_right s = s"
proof -
  assume "\<And>r. r \<in> set space_runes \<Longrightarrow> \<not> has_suffix s r"
  then have "find (has_suffix s) space_runes = None" by (simp add: find_None_iff)
  then show ?thesis by (subst trim_right.simps) simp
qed

lemma length_trim_left: "length (trim_left s) \<le> length s"
proof (induction s rule: trim_left.induct)
  case (1 s)
  show ?case
  proof (cases "find (has_prefix s) space_runes")
    case None
    then show ?thesis by (subst trim_left.simps) simp
  next
    case (Some r)
    then show ?thesis using 1 [OF Some] by (subst trim_left.simps) simp
  qed
qed

lemma length_trim_right: "length (trim_right s) \<le> length s"
proof (induction s rule: trim_right.induct)
  case (1 s)
  show ?case
  proof (cases "find (has_suffix s) space_runes")
    case None
    then show ?thesis by (subst trim_right.simps) simp
  next
    case (Some r)
    then show ?thesis using 1 [OF Some] by (subst trim_right.simps) simp
  qed
qed

lemma trim_left_shrinks:
  assumes "r \<in> set space_runes" and "has_prefix s r"
  shows "length (trim_left s) < length s"
proof -
  obtain q where q: "find (has_prefix s) space_runes = Some q"
    using assms by (cases "find (has_prefix s) space_runes") (auto simp: find_None_iff)
  then have "q \<in> set space_runes" "has_prefix s q" by (auto simp: find_Some_iff)
  then have "0 < length q" "length q \<le> length s"
    using space_rune_bytes [of q] by (auto simp: has_prefix_def dest: arg_cong [of _ _ length])
  then have "length s - length q < length s" by linarith
  then have "length (trim_left (drop (length q) s)) < length s"
    using length_trim_left [of "drop (length q) s"] unfolding length_drop by (rule le_less_trans [rotated])
  then show ?thesis using q by (subst trim_left.simps) simp
qed

lemma trim_right_shrinks:
  assumes "r \<in> set space_runes" and "has_suffix s r"
  shows "length (trim_right s) < length s"
proof -
  obtain q where q: "find (has_suffix s) space_runes = Some q"
    using assms by (cases "find (has_suffix s) space_runes") (auto simp: find_None_iff)
  then have "q \<in> set space_runes" "has_suffix s q" by (auto simp: find_Some_iff)
  then have "0 < length q" "length q \<le> length s"
    using space_rune_bytes [of q] by (auto simp: has_suffix_def)
  then have "length s - length q < length s" by linarith
  then have "length (trim_right (take (length s - length q) s)) < length s"
    using length_trim_right [of "take (length s - length q) s"] unfolding length_take by linarith
  then show ?thesis using q by (subst trim_right.simps) simp
qed

lemma TrimSpace_fixed_iff:
  "TrimSpace s = s \<longleftrightarrow> (\<forall>r \<in> set space_runes. \<not> has_prefix s r \<and> \<not> has_suffix s r)"
proof
  assume t: "TrimSpace s = s"
  have l: "\<not> has_prefix s r" if "r \<in> set space_runes" for r
    using trim_left_shrinks [OF that] length_trim_right [of "trim_left s"] t
    by (metis TrimSpace_def leD le_less_trans)
  then have "trim_left s = s" by (rule trim_left_none)
  then have "trim_right s = s" using t by (simp add: TrimSpace_def)
  then show "\<forall>r \<in> set space_runes. \<not> has_prefix s r \<and> \<not> has_suffix s r"
    using l trim_right_shrinks by (metis less_irrefl)
next
  assume "\<forall>r \<in> set space_runes. \<not> has_prefix s r \<and> \<not> has_suffix s r"
  then show "TrimSpace s = s" by (simp add: TrimSpace_def trim_left_none trim_right_none)
qed

text \<open>A text around an equals sign is trimmed at its ends only.\<close>

lemma prefix_before:
  assumes "has_prefix (k @ c # t) r" and "c \<notin> set r"
  shows "has_prefix k r"
proof (cases "length r \<le> length k")
  case True
  then show ?thesis using assms(1) by (simp add: has_prefix_def)
next
  case False
  then have "c \<in> set (take (length r - length k) (c # t))"
    by (cases "length r - length k") auto
  moreover have "set (take (length r - length k) (c # t)) \<subseteq> set (take (length r) (k @ c # t))"
    by simp
  moreover have "take (length r) (k @ c # t) = r" using assms(1) by (simp only: has_prefix_def)
  ultimately show ?thesis using assms(2) by (metis subsetD)
qed

lemma suffix_after:
  assumes "has_suffix (k @ c # t) r" and "c \<notin> set r"
  shows "has_suffix t r"
proof -
  obtain u where u: "k @ c # t = u @ r" using has_suffixD [OF assms(1)] by blast
  then obtain us where "(k = u @ us \<and> us @ c # t = r) \<or> (k @ us = u \<and> c # t = us @ r)"
    by (auto simp: append_eq_append_conv2)
  then show ?thesis
  proof
    assume "k = u @ us \<and> us @ c # t = r"
    then have "c \<in> set r" by auto
    then show ?thesis using assms(2) by simp
  next
    assume e: "k @ us = u \<and> c # t = us @ r"
    show ?thesis
    proof (cases us)
      case Nil
      then show ?thesis using e assms(2) by (cases r) auto
    next
      case (Cons a as)
      then show ?thesis using e by (auto simp: has_suffix_def)
    qed
  qed
qed

lemma TrimSpace_around:
  assumes "TrimSpace k = k" and "TrimSpace v = v"
  shows "TrimSpace (k @ CHR ''='' # v) = k @ CHR ''='' # v"
  using assms prefix_before suffix_after space_rune_bytes
  unfolding TrimSpace_fixed_iff by blast

lemma TrimSpace_quoted: "TrimSpace (dquote # s @ [dquote]) = dquote # s @ [dquote]"
proof -
  have "\<not> has_prefix (dquote # s @ [dquote]) r" "\<not> has_suffix (dquote # s @ [dquote]) r"
    if "r \<in> set space_runes" for r
    using prefix_before [of "[]" dquote _ r] suffix_after [of "dquote # s" dquote "[]" r]
      space_rune_bytes [OF that] by (auto simp: has_prefix_def has_suffix_def)
  then show ?thesis by (simp add: TrimSpace_fixed_iff)
qed

section \<open>A value reads back\<close>

lemma index_any_None: "index_any s cs = None \<longleftrightarrow> set s \<inter> set cs = {}"
  by (induction s) auto

lemma unescape_loop_escape: "unescape_loop (valueEscaper v) = v"
proof (induction v)
  case (Cons c v)
  note IH = Cons.IH
  show ?case
  proof (cases "escape_byte c = [c]")
    case True
    then have c: "c \<noteq> backslash" by (auto simp: escape_byte_def)
    show ?thesis
    proof (cases "valueEscaper v")
      case Nil
      then have "v = []" by (cases v) (auto simp: valueEscaper_def escape_byte_def split: if_splits)
      then show ?thesis using True by (simp add: valueEscaper_def)
    next
      case (Cons d s)
      then show ?thesis using IH c True by (simp add: valueEscaper_def)
    qed
  next
    case False
    then show ?thesis using IH
      by (auto simp: valueEscaper_def escape_byte_def unescape_byte_def backslash_def dquote_def
          split: if_splits)
  qed
qed (simp add: valueEscaper_def)

lemma unescape_loop_plain: "backslash \<notin> set s \<Longrightarrow> unescape_loop s = s"
  by (induction s rule: unescape_loop.induct) auto

lemma unescape_escape: "unescape (valueEscaper v) = v"
  using unescape_loop_escape [of v] unescape_loop_plain [of "valueEscaper v"]
  by (auto simp: unescape_def)

lemma env_unquote_quote: "env_unquote (env_quote v) = v"
proof (cases "v \<noteq> [] \<and> index_any v needsQuoting = None \<and> TrimSpace v = v")
  case True
  then have "dquote \<notin> set v" "squote \<notin> set v" by (auto simp: index_any_None needsQuoting_def)
  then show ?thesis using True by (cases v) (auto simp: env_quote_def env_unquote_def Let_def)
next
  case False
  then show ?thesis
    by (auto simp: env_quote_def env_unquote_def Let_def unescape_escape dquote_def squote_def)
qed

lemma env_quote_trimmed: "TrimSpace (env_quote v) = env_quote v"
  by (auto simp: env_quote_def TrimSpace_quoted)

lemma env_quote_one_line: "CHR 0x0A \<notin> set (env_quote v)" "CHR 0x0D \<notin> set (env_quote v)"
  by (auto simp: env_quote_def index_any_None needsQuoting_def valueEscaper_def escape_byte_def
      dquote_def backslash_def split: if_splits)

section \<open>A line reads back\<close>

lemma str_cut_at: "c \<notin> set k \<Longrightarrow> str_cut (k @ c # v) [c] = (k, v, True)"
  by (induction k) (auto simp: has_prefix_def)

lemma checkKey_ok:
  assumes "checkKey k = None"
  shows "k \<noteq> []" and "set k \<inter> set invalidInKey = {}" and "TrimSpace k = k"
proof -
  show "k \<noteq> []" using assms by (auto simp: checkKey_def)
  then have i: "index_any k invalidInKey = None"
    using assms by (auto simp: checkKey_def split: option.splits if_splits)
  then show "set k \<inter> set invalidInKey = {}" by (simp add: index_any_None)
  show "TrimSpace k = k"
    using assms \<open>k \<noteq> []\<close> i by (auto simp: checkKey_def split: if_splits)
qed

lemma no_export_prefix:
  assumes "CHR 0x20 \<notin> set k"
  shows "\<not> has_prefix (k @ CHR ''='' # v) ''export ''"
proof
  assume p: "has_prefix (k @ CHR ''='' # v) ''export ''"
  then have "has_prefix k ''export ''" by (rule prefix_before) simp
  then have "set ''export '' \<subseteq> set k" by (metis has_prefix_def set_take_subset)
  then show False using assms by simp
qed

lemma trim_cr_id: "CHR 0x0D \<notin> set l \<Longrightarrow> trim_cr l = l"
proof -
  assume l: "CHR 0x0D \<notin> set l"
  have "\<not> has_suffix l [CHR 0x0D]"
  proof
    assume "has_suffix l [CHR 0x0D]"
    then obtain u where "l = u @ [CHR 0x0D]" using has_suffixD by blast
    then show False using l by simp
  qed
  moreover have "char_of (13 :: nat) = CHR 0x0D" by code_simp
  ultimately show ?thesis by (simp add: trim_cr_def trim_suffix_def)
qed

lemma parse_line_entry:
  assumes "checkKey k = None"
  shows "parse_line n (trim_cr (env_line k v)) = Inr (Some (k, v))"
proof -
  note k = checkKey_ok [OF assms]
  let ?l = "k @ CHR ''='' # env_quote v"
  have chars: "CHR ''='' \<notin> set k" "CHR 0x20 \<notin> set k" "CHR 0x23 \<notin> set k" "CHR 0x0D \<notin> set k"
    using k(2) by (auto simp: invalidInKey_def)
  have l: "env_line k v = ?l" by (simp add: env_line_def)
  have "CHR 0x0D \<notin> set ?l" using chars env_quote_one_line(2) [of v] by simp
  then have cr: "trim_cr ?l = ?l" by (rule trim_cr_id)
  have trim: "TrimSpace ?l = ?l" using k(3) env_quote_trimmed by (rule TrimSpace_around)
  have comment: "\<not> has_prefix ?l ''#''" using k(1) chars(3) by (cases k) (auto simp: has_prefix_def)
  have raw: "trim_prefix ?l ''export '' = ?l"
    using no_export_prefix [OF chars(2)] by (simp add: trim_prefix_def)
  have cut: "str_cut ?l ''='' = (k, env_quote v, True)" using chars(1) by (rule str_cut_at)
  show ?thesis
    using trim comment raw cut k(1,3)
    by (simp add: l cr parse_line_def Let_def env_quote_trimmed env_unquote_quote)
qed

section \<open>The round trip\<close>

lemma split_on_line:
  "c \<notin> set l \<Longrightarrow> split_on c (l @ c # rest) = l # split_on c rest"
  by (induction l) auto

lemma split_on_lines:
  "(\<And>l. l \<in> set ls \<Longrightarrow> c \<notin> set l) \<Longrightarrow> split_on c (concat (map (\<lambda>l. l @ [c]) ls)) = ls @ [[]]"
proof (induction ls)
  case (Cons l ls)
  then show ?case by (simp add: split_on_line)
qed simp

lemma scan_lines_of_lines:
  "(\<And>l. l \<in> set ls \<Longrightarrow> CHR 0x0A \<notin> set l) \<Longrightarrow>
   scan_lines (concat (map (\<lambda>l. l @ [CHR 0x0A]) ls)) = ls"
  by (simp add: scan_lines_def split_on_lines)

lemma set_insert_key: "set (insert_key k xs) = insert k (set xs)"
  by (induction xs) auto

lemma set_sorted_keys: "set (foldr insert_key ks []) = set ks"
  by (induction ks) (simp_all add: set_insert_key)

definition value_at :: "(string \<times> string) list \<Rightarrow> string \<Rightarrow> string" where
  "value_at m k = (case map_of m k of Some v \<Rightarrow> v | None \<Rightarrow> [])"

lemma format_keys_eq:
  "format_keys m ks =
     (case find (\<lambda>k. checkKey k \<noteq> None) ks of
        Some k \<Rightarrow> Inl (the (checkKey k))
      | None \<Rightarrow> Inr (concat (map (\<lambda>l. l @ [CHR 0x0A]) (map (\<lambda>k. env_line k (value_at m k)) ks))))"
  by (induction ks) (auto simp: value_at_def split: option.splits)

lemma env_line_one_line: "checkKey k = None \<Longrightarrow> CHR 0x0A \<notin> set (env_line k v)"
  using checkKey_ok(2) [of k] env_quote_one_line(1) [of v]
  by (auto simp: env_line_def invalidInKey_def)

lemma parse_lines_entries:
  assumes "\<And>k. k \<in> set ks \<Longrightarrow> checkKey k = None"
  shows "parse_lines n (map (\<lambda>k. env_line k (f k)) ks) m =
     (if \<forall>k \<in> set ks. length (env_line k (f k)) \<le> maxScanLine
      then Inr (\<lambda>k. if k \<in> set ks then Some (f k) else m k)
      else Inl (Wrap ''read .env'' errTooLong))"
  using assms
proof (induction ks arbitrary: n m)
  case (Cons k ks)
  have "parse_line n (trim_cr (env_line k (f k))) = Inr (Some (k, f k))"
    using Cons.prems by (intro parse_line_entry) simp
  moreover have "(\<lambda>j. if j \<in> set ks then Some (f j) else (m(k \<mapsto> f k)) j) =
      (\<lambda>j. if j \<in> set (k # ks) then Some (f j) else m j)" by auto
  ultimately show ?case using Cons by (simp add: not_less)
qed simp

lemma env_Parse_formatted:
  assumes "env_Format m = Inr data"
  shows "env_Parse data =
     (if \<forall>k v. map_of m k = Some v \<longrightarrow> length (env_line k v) \<le> maxScanLine
      then Inr (map_of m) else Inl (Wrap ''read .env'' errTooLong))"
proof -
  let ?ks = "foldr insert_key (map fst m) []"
  have ks: "set ?ks = dom (map_of m)" by (simp add: set_sorted_keys dom_map_of_conv_image_fst)
  have none: "find (\<lambda>k. checkKey k \<noteq> None) ?ks = None"
    using assms by (auto simp: env_Format_def format_keys_eq split: option.splits)
  then have ok: "checkKey k = None" if "k \<in> set ?ks" for k using that by (auto simp: find_None_iff)
  have data: "data = concat (map (\<lambda>l. l @ [CHR 0x0A]) (map (\<lambda>k. env_line k (value_at m k)) ?ks))"
    using assms none by (simp add: env_Format_def format_keys_eq)
  have "scan_lines data = map (\<lambda>k. env_line k (value_at m k)) ?ks"
    unfolding data by (rule scan_lines_of_lines) (auto simp: ok env_line_one_line)
  then have "env_Parse data =
      (if \<forall>k \<in> set ?ks. length (env_line k (value_at m k)) \<le> maxScanLine
       then Inr (\<lambda>k. if k \<in> set ?ks then Some (value_at m k) else None)
       else Inl (Wrap ''read .env'' errTooLong))"
    unfolding env_Parse_def by (simp only:) (rule parse_lines_entries [OF ok])
  moreover have "(\<lambda>k. if k \<in> set ?ks then Some (value_at m k) else None) = map_of m"
    unfolding ks by (auto simp: value_at_def split: option.splits)
  moreover have "(\<forall>k \<in> set ?ks. length (env_line k (value_at m k)) \<le> maxScanLine) \<longleftrightarrow>
      (\<forall>k v. map_of m k = Some v \<longrightarrow> length (env_line k v) \<le> maxScanLine)"
    unfolding ks by (force simp: value_at_def)
  ultimately show ?thesis by simp
qed

text \<open>
  C40. Formatting variables and parsing the result gives the variables back, whatever
  bytes the values hold; the exception is a line longer than the scanner's buffer, which
  does not parse at all.
\<close>

theorem dotenv_round_trip:
  assumes "env_Format m = Inr data"
  shows "env_Parse data =
     (if \<forall>k v. map_of m k = Some v \<longrightarrow> length (env_line k v) \<le> maxScanLine
      then Inr (map_of m) else Inl (Wrap ''read .env'' errTooLong))"
  using assms by (rule env_Parse_formatted)

text \<open>A value with a line break and a quote, and a value with spaces, beside an empty one.\<close>

lemma dotenv_round_trip_witness:
  "env_Parse ([CHR ''A'', CHR ''='', dquote, CHR ''x'', backslash, CHR ''n'', backslash, dquote, dquote, CHR 0x0A] @
      ''B='' @ [dquote, dquote, CHR 0x0A]) =
   Inr (map_of [(''B'', []), (''A'', [CHR ''x'', CHR 0x0A, dquote])])"
proof -
  have f: "env_Format [(''B'', []), (''A'', [CHR ''x'', CHR 0x0A, dquote])] =
      Inr ([CHR ''A'', CHR ''='', dquote, CHR ''x'', backslash, CHR ''n'', backslash, dquote, dquote, CHR 0x0A] @
      ''B='' @ [dquote, dquote, CHR 0x0A])"
    by code_simp
  show ?thesis
    using dotenv_round_trip [OF f]
    by (auto simp: env_line_def env_quote_def maxScanLine_def valueEscaper_def escape_byte_def
        needsQuoting_def split: if_splits)
qed

end
