(* ===== verification/Octo_Authz.thy ===== *)
theory Octo_Authz
  imports Octo_Dotenv
begin

text \<open>
  The guard of the orchestrator's API (\<^verbatim>\<open>orchestrator/internal/authz\<close>): the
  policy table and the allowlist of pipelines (\<^verbatim>\<open>policy.go\<close>), the verifier that
  fetches the keyset once and backs off after a failure (\<^verbatim>\<open>verifier.go\<close>), the
  middleware that decides a request (\<^verbatim>\<open>authz.go\<close>), and the bearer token it
  reads (\<^verbatim>\<open>internal/caller\<close>). The identity provider's library is a parameter:
  what a fetch of the keyset gives, and what the keyset says of a raw token. Times are
  nanoseconds of the Unix clock.
\<close>

section \<open>Roles and rules\<close>

definition RoleAdmin :: string where "RoleAdmin = ''platform:admin''"
definition RoleMonitor :: string where "RoleMonitor = ''platform:monitor''"
definition RoleDeveloper :: string where "RoleDeveloper = ''platform:developer''"
definition RoleOperator :: string where "RoleOperator = ''platform:operator''"
definition RoleRuntime :: string where "RoleRuntime = ''platform:runtime''"
definition RoleCICD :: string where "RoleCICD = ''platform:cicd''"

lemmas role_defs = RoleAdmin_def RoleMonitor_def RoleDeveloper_def RoleOperator_def
  RoleRuntime_def RoleCICD_def

definition anyone :: "string list" where
  "anyone = [RoleAdmin, RoleOperator, RoleDeveloper, RoleMonitor]"

definition builds :: "string list" where
  "builds = [RoleAdmin, RoleOperator, RoleDeveloper]"

definition runs :: "string list" where
  "runs = [RoleAdmin, RoleOperator, RoleRuntime]"

record authz_rule =
  ar_pattern :: string
  ar_read :: "string list"
  ar_write :: "string list"

definition policy :: "authz_rule list" where
  "policy =
     [\<lparr>ar_pattern = ''deployments/*/kv'', ar_read = runs, ar_write = runs\<rparr>,
      \<lparr>ar_pattern = ''deployments/*/namespaces'', ar_read = runs, ar_write = runs\<rparr>,
      \<lparr>ar_pattern = ''deployments/*/objects'', ar_read = builds @ [RoleRuntime], ar_write = builds @ [RoleRuntime]\<rparr>,
      \<lparr>ar_pattern = ''deployments/*/agent-memory'', ar_read = builds @ [RoleRuntime], ar_write = builds @ [RoleRuntime]\<rparr>,
      \<lparr>ar_pattern = ''snapshots/*/resources'', ar_read = anyone @ [RoleRuntime], ar_write = builds\<rparr>,
      \<lparr>ar_pattern = ''deployments/*/pods'', ar_read = anyone, ar_write = []\<rparr>,
      \<lparr>ar_pattern = ''deployments'', ar_read = anyone, ar_write = [RoleAdmin, RoleOperator]\<rparr>,
      \<lparr>ar_pattern = ''upgrades'', ar_read = anyone, ar_write = []\<rparr>,
      \<lparr>ar_pattern = ''runtimes'', ar_read = anyone, ar_write = []\<rparr>,
      \<lparr>ar_pattern = ''integrations'', ar_read = anyone, ar_write = builds\<rparr>,
      \<lparr>ar_pattern = ''folders'', ar_read = anyone, ar_write = builds\<rparr>,
      \<lparr>ar_pattern = ''snapshots'', ar_read = anyone, ar_write = builds\<rparr>,
      \<lparr>ar_pattern = ''devruns'', ar_read = anyone, ar_write = builds\<rparr>,
      \<lparr>ar_pattern = ''secrets'', ar_read = [RoleAdmin], ar_write = [RoleAdmin]\<rparr>,
      \<lparr>ar_pattern = ''settings'', ar_read = [RoleAdmin], ar_write = [RoleAdmin]\<rparr>,
      \<lparr>ar_pattern = ''email'', ar_read = [RoleAdmin, RoleOperator], ar_write = [RoleAdmin, RoleOperator]\<rparr>]"

definition pipeline :: "(string \<times> string) list" where
  "pipeline =
     [(''GET'', ''integrations''),
      (''GET'', ''integrations/*''),
      (''GET'', ''integrations/*/deployments''),
      (''GET'', ''integrations/*/snapshots''),
      (''PUT'', ''integrations/*/bundle''),
      (''POST'', ''integrations/*/snapshots''),
      (''GET'', ''snapshots/*''),
      (''GET'', ''deployments''),
      (''GET'', ''deployments/*''),
      (''POST'', ''deployments/*/rollout''),
      (''POST'', ''deployments/*/testruns''),
      (''GET'', ''deployments/*/testruns''),
      (''GET'', ''deployments/*/testruns/*''),
      (''GET'', ''upgrades''),
      (''GET'', ''runtimes'')]"

definition bypass :: "string list" where
  "bypass = [''/healthz'', ''/openapi.json'', ''/openapi/operations'', ''/settings/health'', ''/db-version'']"

definition selfAuthenticated :: "string list" where
  "selfAuthenticated = [''devruns/*/bundle'', ''devruns/*/expire'']"

definition path_segments :: "string \<Rightarrow> string list" where
  "path_segments path = filter (\<lambda>s. s \<noteq> []) (split_on (CHR ''/'') path)"

definition pattern_segments :: "string \<Rightarrow> string list" where
  "pattern_segments pattern = split_on (CHR ''/'') pattern"

definition pattern_matches :: "string \<Rightarrow> string list \<Rightarrow> bool" where
  "pattern_matches pattern segs =
     (let want = pattern_segments pattern in
      length want \<le> length segs \<and>
      list_all (\<lambda>(w, s). w = ''*'' \<or> w = s) (zip want segs))"

text \<open>The table is searched for the first rule whose pattern matches; no match is admin only.\<close>

fun first_rule :: "authz_rule list \<Rightarrow> bool \<Rightarrow> string list \<Rightarrow> string list" where
  "first_rule [] is_write segs = [RoleAdmin]"
| "first_rule (r # rs) is_write segs =
     (if \<not> pattern_matches (ar_pattern r) segs then first_rule rs is_write segs
      else if is_write then ar_write r else ar_read r)"

definition is_write :: "string \<Rightarrow> bool" where
  "is_write method \<longleftrightarrow> method \<noteq> ''GET'' \<and> method \<noteq> ''HEAD''"

definition required :: "string \<Rightarrow> string \<Rightarrow> string list" where
  "required method path = first_rule policy (is_write method) (path_segments path)"

definition whole_match :: "string \<Rightarrow> string list \<Rightarrow> bool" where
  "whole_match pattern segs \<longleftrightarrow>
     length (pattern_segments pattern) = length segs \<and> pattern_matches pattern segs"

definition pipelineMay :: "string \<Rightarrow> string \<Rightarrow> bool" where
  "pipelineMay method path =
     (let segs = path_segments path in
      list_ex (\<lambda>(m, p). m = method \<and> whole_match p segs) pipeline)"

definition exempt :: "string \<Rightarrow> bool" where
  "exempt path =
     (trim_suffix path ''/'' \<in> set bypass \<or>
      (let segs = path_segments path in
       list_ex (\<lambda>p. whole_match p segs) selfAuthenticated))"

section \<open>Who the caller is\<close>

record principal =
  pr_Subject :: string
  pr_Roles :: "string list"
  pr_Deployment :: string

definition pr_Has :: "principal \<Rightarrow> string list \<Rightarrow> bool" where
  "pr_Has p roles = list_ex (\<lambda>want. list_ex (\<lambda>held. held = want) (pr_Roles p)) roles"

definition ownsTarget :: "principal \<Rightarrow> string \<Rightarrow> bool" where
  "ownsTarget p path =
     (if pr_Deployment p = [] then True
      else let segs = path_segments path in
        if length segs \<le> 1 \<or> segs ! 0 \<noteq> ''deployments'' then True
        else segs ! 1 = pr_Deployment p)"

text \<open>The credential a request presents. The scheme is compared without case.\<close>

definition bearer :: "string \<Rightarrow> string" where
  "bearer value =
     (let scheme = ''bearer '' in
      if length value \<le> length scheme
         \<or> map lower_ascii (take (length scheme) value) \<noteq> scheme
      then [] else TrimSpace (drop (length scheme) value))"

text \<open>What the library says of a token whose signature, issuer and audience it accepts.\<close>

record authz_claims =
  ac_Roles :: "string list"
  ac_Deployment :: string
  ac_NotBefore :: int

record id_token =
  it_Subject :: string
  it_Expiry :: int
  it_IssuedAt :: int
  it_Claims :: "(err, authz_claims) res"

datatype auth_error = ErrUnauthenticated string | ErrUnavailable string

definition second :: int where "second = 1000000000"
definition clockSkew :: int where "clockSkew = 60 * second"
definition retryAfter :: int where "retryAfter = 5 * second"

record 'k verifier =
  v_ready :: "'k option"
  v_retryAt :: int

text \<open>Nanoseconds from the Unix epoch to Go's zero time, which is no backoff.\<close>

definition zeroTime :: int where "zeroTime = - 62135596800 * second"

definition NewVerifier :: "'k verifier" where
  "NewVerifier = \<lparr>v_ready = None, v_retryAt = zeroTime\<rparr>"

text \<open>
  What surrounds one call: the clock when the backoff is tested, when a failed fetch is
  recorded and when the token is judged, and what fetching the keyset gives if it is tried.
\<close>

record 'k moment =
  at_resolve :: int
  at_failure :: int
  at_check :: int
  fetch :: "(err, 'k) res"

definition resolve_keyset :: "'k moment \<Rightarrow> 'k verifier \<Rightarrow> (auth_error, 'k) res \<times> 'k verifier" where
  "resolve_keyset t v =
     (case v_ready v of
        Some k \<Rightarrow> (Inr k, v)
      | None \<Rightarrow>
          if at_resolve t < v_retryAt v
          then (Inl (ErrUnavailable ''the keyset could not be fetched''), v)
          else (case fetch t of
                  Inl e \<Rightarrow> (Inl (ErrUnavailable ''the keyset could not be fetched''),
                            v\<lparr>v_retryAt := at_failure t + retryAfter\<rparr>)
                | Inr k \<Rightarrow> (Inr k, v\<lparr>v_ready := Some k\<rparr>)))"

definition check_token :: "int \<Rightarrow> id_token \<Rightarrow> (auth_error, principal) res" where
  "check_token now token =
     (if it_Expiry token + clockSkew < now then Inl (ErrUnauthenticated ''the token expired'')
      else if now < it_IssuedAt token - clockSkew
      then Inl (ErrUnauthenticated ''the token was issued in the future'')
      else (case it_Claims token of
              Inl e \<Rightarrow> Inl (ErrUnauthenticated ''reading claims'')
            | Inr claims \<Rightarrow>
                if ac_NotBefore claims \<noteq> 0 \<and> now < ac_NotBefore claims * second - clockSkew
                then Inl (ErrUnauthenticated ''the token is not valid yet'')
                else Inr \<lparr>pr_Subject = it_Subject token, pr_Roles = ac_Roles claims,
                          pr_Deployment = ac_Deployment claims\<rparr>))"

definition Verify ::
  "('k \<Rightarrow> string \<Rightarrow> (err, id_token) res) \<Rightarrow> 'k moment \<Rightarrow> 'k verifier \<Rightarrow> string
   \<Rightarrow> (auth_error, principal) res \<times> 'k verifier" where
  "Verify library t v raw =
     (case resolve_keyset t v of
        (Inl e, v') \<Rightarrow> (Inl e, v')
      | (Inr k, v') \<Rightarrow>
          (case library k raw of
             Inl e \<Rightarrow> (Inl (ErrUnauthenticated ''verify''), v')
           | Inr token \<Rightarrow> (check_token (at_check t) token, v')))"

section \<open>The middleware\<close>

datatype decision =
    Serve "principal option"
  | Refuse nat string

record request =
  rq_Method :: string
  rq_Path :: string
  rq_Authorization :: string

definition decide :: "principal \<Rightarrow> string \<Rightarrow> string \<Rightarrow> decision" where
  "decide p method path =
     (if \<not> ownsTarget p path then Refuse 403 ''this account may not perform that operation''
      else let allowed = required method path;
               byRole = 0 < length allowed \<and> pr_Has p allowed;
               byPipeline = pr_Has p [RoleCICD] \<and> pipelineMay method path in
        if \<not> byRole \<and> \<not> byPipeline then Refuse 403 ''this account may not perform that operation''
        else Serve (Some p))"

definition Wrap ::
  "('v \<Rightarrow> string \<Rightarrow> (auth_error, principal) res \<times> 'v) \<Rightarrow> 'v \<Rightarrow> request \<Rightarrow> decision \<times> 'v" where
  "Wrap verify v r =
     (if exempt (rq_Path r) then (Serve None, v)
      else let token = bearer (rq_Authorization r) in
        if token = [] then (Refuse 401 ''a bearer token is required'', v)
        else (case verify v token of
                (Inl (ErrUnavailable _), v') \<Rightarrow>
                  (Refuse 503 ''this request cannot be authorized right now'', v')
              | (Inl (ErrUnauthenticated _), v') \<Rightarrow> (Refuse 401 ''the token is not valid'', v')
              | (Inr p, v') \<Rightarrow> (decide p (rq_Method r) (rq_Path r), v')))"

text \<open>A sequence of requests on one verifier; its lock serialises the fetches.\<close>

fun serve_all ::
  "('k \<Rightarrow> string \<Rightarrow> (err, id_token) res) \<Rightarrow> 'k verifier \<Rightarrow> ('k moment \<times> request) list
   \<Rightarrow> decision list \<times> 'k verifier" where
  "serve_all library v [] = ([], v)"
| "serve_all library v ((t, r) # rs) =
     (case Wrap (Verify library t) v r of
        (d, v') \<Rightarrow> (case serve_all library v' rs of (ds, w) \<Rightarrow> (d # ds, w)))"

section \<open>Patterns\<close>

fun seg_match :: "string list \<Rightarrow> string list \<Rightarrow> bool" where
  "seg_match [] segs = True"
| "seg_match (w # ws) [] = False"
| "seg_match (w # ws) (s # segs) = ((w = ''*'' \<or> s = w) \<and> seg_match ws segs)"

lemma pattern_matches_eq: "pattern_matches p segs = seg_match (pattern_segments p) segs"
proof -
  have "(length ws \<le> length segs \<and> list_all (\<lambda>(w, s). w = ''*'' \<or> w = s) (zip ws segs)) =
      seg_match ws segs" for ws
    by (induction ws segs rule: seg_match.induct) auto
  then show ?thesis by (simp add: pattern_matches_def Let_def)
qed

lemma seg_match_two: "seg_match [w1, w2, w3] segs \<longleftrightarrow>
    (\<exists>a b c rest. segs = a # b # c # rest \<and> (w1 = ''*'' \<or> w1 = a) \<and> (w2 = ''*'' \<or> w2 = b) \<and> (w3 = ''*'' \<or> w3 = c))"
  by (cases segs rule: remdups_adj.cases; cases "tl (tl segs)") auto

text \<open>The table with its patterns split.\<close>

lemma policy_segments:
  "map (\<lambda>r. (pattern_segments (ar_pattern r), ar_read r, ar_write r)) policy =
     [([''deployments'', ''*'', ''kv''], runs, runs),
      ([''deployments'', ''*'', ''namespaces''], runs, runs),
      ([''deployments'', ''*'', ''objects''], builds @ [RoleRuntime], builds @ [RoleRuntime]),
      ([''deployments'', ''*'', ''agent-memory''], builds @ [RoleRuntime], builds @ [RoleRuntime]),
      ([''snapshots'', ''*'', ''resources''], anyone @ [RoleRuntime], builds),
      ([''deployments'', ''*'', ''pods''], anyone, []),
      ([''deployments''], anyone, [RoleAdmin, RoleOperator]),
      ([''upgrades''], anyone, []),
      ([''runtimes''], anyone, []),
      ([''integrations''], anyone, builds),
      ([''folders''], anyone, builds),
      ([''snapshots''], anyone, builds),
      ([''devruns''], anyone, builds),
      ([''secrets''], [RoleAdmin], [RoleAdmin]),
      ([''settings''], [RoleAdmin], [RoleAdmin]),
      ([''email''], [RoleAdmin, RoleOperator], [RoleAdmin, RoleOperator])]"
  by (simp add: policy_def pattern_segments_def)

fun first_seg_rule ::
  "(string list \<times> string list \<times> string list) list \<Rightarrow> bool \<Rightarrow> string list \<Rightarrow> string list" where
  "first_seg_rule [] w segs = [RoleAdmin]"
| "first_seg_rule ((p, rd, wr) # rs) w segs =
     (if \<not> seg_match p segs then first_seg_rule rs w segs else if w then wr else rd)"

lemma first_rule_eq:
  "first_rule rs w segs =
   first_seg_rule (map (\<lambda>r. (pattern_segments (ar_pattern r), ar_read r, ar_write r)) rs) w segs"
  by (induction rs) (simp_all add: pattern_matches_eq)

lemma required_eq:
  "required method path = first_seg_rule
     [([''deployments'', ''*'', ''kv''], runs, runs),
      ([''deployments'', ''*'', ''namespaces''], runs, runs),
      ([''deployments'', ''*'', ''objects''], builds @ [RoleRuntime], builds @ [RoleRuntime]),
      ([''deployments'', ''*'', ''agent-memory''], builds @ [RoleRuntime], builds @ [RoleRuntime]),
      ([''snapshots'', ''*'', ''resources''], anyone @ [RoleRuntime], builds),
      ([''deployments'', ''*'', ''pods''], anyone, []),
      ([''deployments''], anyone, [RoleAdmin, RoleOperator]),
      ([''upgrades''], anyone, []),
      ([''runtimes''], anyone, []),
      ([''integrations''], anyone, builds),
      ([''folders''], anyone, builds),
      ([''snapshots''], anyone, builds),
      ([''devruns''], anyone, builds),
      ([''secrets''], [RoleAdmin], [RoleAdmin]),
      ([''settings''], [RoleAdmin], [RoleAdmin]),
      ([''email''], [RoleAdmin, RoleOperator], [RoleAdmin, RoleOperator])]
     (is_write method) (path_segments path)"
  by (simp only: required_def first_rule_eq policy_segments)

section \<open>What each role reaches\<close>

definition own_stores :: "string list" where
  "own_stores = [''kv'', ''namespaces'', ''objects'', ''agent-memory'']"

definition store_path :: "string list \<Rightarrow> bool" where
  "store_path segs \<longleftrightarrow>
     (case segs of a # d # s # rest \<Rightarrow> a = ''deployments'' \<and> s \<in> set own_stores | _ \<Rightarrow> False)"

definition resources_path :: "string list \<Rightarrow> bool" where
  "resources_path segs \<longleftrightarrow>
     (case segs of a # i # s # rest \<Rightarrow> a = ''snapshots'' \<and> s = ''resources'' | _ \<Rightarrow> False)"

lemma segs_cases:
  obtains "segs = []" | a where "segs = [a]" | a b where "segs = [a, b]"
  | a b c rest where "segs = a # b # c # rest"
  by (metis list.exhaust)

lemma role_distinct [simp]:
  "RoleAdmin \<noteq> RoleMonitor" "RoleAdmin \<noteq> RoleDeveloper" "RoleAdmin \<noteq> RoleOperator"
  "RoleAdmin \<noteq> RoleRuntime" "RoleAdmin \<noteq> RoleCICD" "RoleMonitor \<noteq> RoleDeveloper"
  "RoleMonitor \<noteq> RoleOperator" "RoleMonitor \<noteq> RoleRuntime" "RoleMonitor \<noteq> RoleCICD"
  "RoleDeveloper \<noteq> RoleOperator" "RoleDeveloper \<noteq> RoleRuntime" "RoleDeveloper \<noteq> RoleCICD"
  "RoleOperator \<noteq> RoleRuntime" "RoleOperator \<noteq> RoleCICD" "RoleRuntime \<noteq> RoleCICD"
  by (simp_all add: role_defs)

lemmas role_distinct_sym [simp] = role_distinct [symmetric]

lemmas role_groups = anyone_def builds_def runs_def

lemma runtime_required:
  "RoleRuntime \<in> set (required method path) \<longleftrightarrow>
   store_path (path_segments path) \<or> \<not> is_write method \<and> resources_path (path_segments path)"
  unfolding required_eq store_path_def resources_path_def own_stores_def
  by (cases "path_segments path" rule: segs_cases) (auto simp: role_groups)

lemma cicd_not_required: "RoleCICD \<notin> set (required method path)"
  unfolding required_eq by (simp add: role_groups)

definition known_roots :: "string list" where
  "known_roots = [''deployments'', ''snapshots'', ''upgrades'', ''runtimes'', ''integrations'',
     ''folders'', ''devruns'', ''email'']"

lemma unknown_admin_only:
  "(case path_segments path of [] \<Rightarrow> True | a # _ \<Rightarrow> a \<notin> set known_roots)
   \<Longrightarrow> required method path = [RoleAdmin]"
  unfolding required_eq known_roots_def
  by (cases "path_segments path" rule: segs_cases) simp_all

lemma admin_required:
  "RoleAdmin \<in> set (required method path) \<longleftrightarrow>
   \<not> (is_write method \<and>
      (case path_segments path of
         [] \<Rightarrow> False
       | a # segs \<Rightarrow> a = ''upgrades'' \<or> a = ''runtimes''
                    \<or> a = ''deployments'' \<and> (\<exists>d rest. segs = d # ''pods'' # rest)))"
  unfolding required_eq
  by (cases "path_segments path" rule: segs_cases; cases "is_write method") (simp_all add: role_groups)

lemma monitor_reads_only: "RoleMonitor \<in> set (required method path) \<Longrightarrow> \<not> is_write method"
  unfolding required_eq by (auto simp: role_groups split: if_splits)

lemma developer_deployments:
  "RoleDeveloper \<in> set (required method path) \<Longrightarrow> is_write method \<Longrightarrow>
   path_segments path = ''deployments'' # rest \<Longrightarrow>
   \<exists>d s more. rest = d # s # more \<and> (s = ''objects'' \<or> s = ''agent-memory'')"
  unfolding required_eq
  by (cases "path_segments path" rule: segs_cases) (auto simp: role_groups split: if_splits)

section \<open>The allowlist of pipelines\<close>

lemma pipeline_segments: "map (\<lambda>(m, p). (m, pattern_segments p)) pipeline =
     [(''GET'', [''integrations'']), (''GET'', [''integrations'', ''*'']),
      (''GET'', [''integrations'', ''*'', ''deployments'']), (''GET'', [''integrations'', ''*'', ''snapshots'']),
      (''PUT'', [''integrations'', ''*'', ''bundle'']), (''POST'', [''integrations'', ''*'', ''snapshots'']),
      (''GET'', [''snapshots'', ''*'']), (''GET'', [''deployments'']), (''GET'', [''deployments'', ''*'']),
      (''POST'', [''deployments'', ''*'', ''rollout'']), (''POST'', [''deployments'', ''*'', ''testruns'']),
      (''GET'', [''deployments'', ''*'', ''testruns'']), (''GET'', [''deployments'', ''*'', ''testruns'', ''*'']),
      (''GET'', [''upgrades'']), (''GET'', [''runtimes''])]"
  by (simp add: pipeline_def pattern_segments_def)

lemma pipelineMay_iff:
  "pipelineMay method path \<longleftrightarrow>
   (\<exists>p. (method, p) \<in> set (map (\<lambda>(m, p). (m, pattern_segments p)) pipeline) \<and>
      length p = length (path_segments path) \<and> seg_match p (path_segments path))"
proof -
  have "list_ex (\<lambda>(m, p). m = method \<and> whole_match p segs) ps \<longleftrightarrow>
      (\<exists>p. (method, p) \<in> set (map (\<lambda>(m, p). (m, pattern_segments p)) ps) \<and>
         length p = length segs \<and> seg_match p segs)" for segs ps
    by (induction ps) (auto simp: whole_match_def pattern_matches_eq)
  then show ?thesis by (simp only: pipelineMay_def Let_def)
qed

lemma pipeline_write_entries:
  "filter (\<lambda>(m, p). is_write m) (map (\<lambda>(m, p). (m, pattern_segments p)) pipeline) =
     [(''PUT'', [''integrations'', ''*'', ''bundle'']), (''POST'', [''integrations'', ''*'', ''snapshots'']),
      (''POST'', [''deployments'', ''*'', ''rollout'']), (''POST'', [''deployments'', ''*'', ''testruns''])]"
  unfolding pipeline_segments by (simp add: is_write_def)

lemma pipeline_roots_known:
  "list_all (\<lambda>(m, p). p \<noteq> [] \<and> hd p \<noteq> ''*'' \<and> hd p \<in> set known_roots)
     (map (\<lambda>(m, p). (m, pattern_segments p)) pipeline)"
  unfolding pipeline_segments known_roots_def by simp

lemma seg_match_whole:
  "length segs = 3 \<Longrightarrow> seg_match [a, ''*'', c] segs \<Longrightarrow> a \<noteq> ''*'' \<Longrightarrow> c \<noteq> ''*'' \<Longrightarrow> \<exists>i. segs = [a, i, c]"
  by (cases segs rule: segs_cases) auto

lemma pipeline_writes:
  assumes "pipelineMay method path" and "is_write method"
  shows "\<exists>i. (method, path_segments path) \<in>
      {(''PUT'', [''integrations'', i, ''bundle'']), (''POST'', [''integrations'', i, ''snapshots'']),
       (''POST'', [''deployments'', i, ''rollout'']), (''POST'', [''deployments'', i, ''testruns''])}"
proof -
  obtain p where p: "(method, p) \<in> set (map (\<lambda>(m, p). (m, pattern_segments p)) pipeline)"
      "length p = length (path_segments path)" "seg_match p (path_segments path)"
    using assms(1) pipelineMay_iff by blast
  then have "(method, p) \<in> set (filter (\<lambda>(m, p). is_write m) (map (\<lambda>(m, p). (m, pattern_segments p)) pipeline))"
    using assms(2) by simp
  then have "(method, p) \<in> {(''PUT'', [''integrations'', ''*'', ''bundle'']),
      (''POST'', [''integrations'', ''*'', ''snapshots'']),
      (''POST'', [''deployments'', ''*'', ''rollout'']), (''POST'', [''deployments'', ''*'', ''testruns''])}"
    unfolding pipeline_write_entries by (simp only: list.set insert_iff empty_iff)
  moreover have "\<exists>i. path_segments path = [a, i, c]"
    if "p = [a, ''*'', c]" "a \<noteq> ''*''" "c \<noteq> ''*''" for a c
    using p(2,3) that by (intro seg_match_whole) simp_all
  ultimately show ?thesis by (elim insertE emptyE) fastforce+
qed

lemma pipeline_root:
  assumes "pipelineMay method path"
  shows "\<exists>a rest. path_segments path = a # rest \<and> a \<in> set known_roots"
proof -
  obtain p where p: "(method, p) \<in> set (map (\<lambda>(m, p). (m, pattern_segments p)) pipeline)"
      "seg_match p (path_segments path)"
    using assms pipelineMay_iff by blast
  then have "p \<noteq> [] \<and> hd p \<noteq> ''*'' \<and> hd p \<in> set known_roots"
    using pipeline_roots_known by (auto simp only: list_all_iff)
  then show ?thesis using p(2) by (cases p; cases "path_segments path") auto
qed

section \<open>The interface of the middleware to its verifier\<close>

text \<open>
  What the middleware relies on: a principal it is given is one the verifier vouches for.
\<close>

locale checker =
  fixes verify :: "'v \<Rightarrow> string \<Rightarrow> (auth_error, principal) res \<times> 'v"
    and vouches :: "string \<Rightarrow> principal \<Rightarrow> bool"
  assumes vouched: "verify v raw = (Inr p, v') \<Longrightarrow> vouches raw p"
begin

lemma wrap_serves:
  assumes "fst (Wrap verify v r) = Serve q"
  shows "(exempt (rq_Path r) \<and> q = None) \<or>
    (\<exists>p. q = Some p \<and> vouches (bearer (rq_Authorization r)) p
       \<and> decide p (rq_Method r) (rq_Path r) = Serve (Some p))"
proof (cases "exempt (rq_Path r)")
  case True
  then show ?thesis using assms by (simp add: Wrap_def)
next
  case False
  note ne = False
  show ?thesis
  proof (cases "bearer (rq_Authorization r) = []")
    case True
    then show ?thesis using assms ne by (simp add: Wrap_def)
  next
    case False
    obtain a w where a: "verify v (bearer (rq_Authorization r)) = (a, w)" by fastforce
    then show ?thesis
    proof (cases a)
      case (Inl e)
      then show ?thesis using assms ne False a by (cases e) (simp_all add: Wrap_def)
    next
      case (Inr p)
      then have "decide p (rq_Method r) (rq_Path r) = Serve q"
        using assms ne False a by (simp add: Wrap_def)
      moreover from this have "q = Some p" by (auto simp: decide_def Let_def split: if_splits)
      ultimately show ?thesis using vouched a Inr by blast
    qed
  qed
qed

end

definition keyset_vouches ::
  "('k \<Rightarrow> string \<Rightarrow> (err, id_token) res) \<Rightarrow> int \<Rightarrow> string \<Rightarrow> principal \<Rightarrow> bool" where
  "keyset_vouches library now raw p \<longleftrightarrow>
     (\<exists>k token. library k raw = Inr token \<and> check_token now token = Inr p)"

interpretation oidc: checker "Verify library t" "keyset_vouches library (at_check t)" for library t
proof
  fix v raw p v'
  assume "Verify library t v raw = (Inr p, v')"
  then show "keyset_vouches library (at_check t) raw p"
    by (auto simp: Verify_def keyset_vouches_def split: prod.splits sum.splits)
qed

lemma decide_serves:
  "decide p method path = Serve (Some p) \<longleftrightarrow>
   ownsTarget p path \<and>
   (set (pr_Roles p) \<inter> set (required method path) \<noteq> {}
    \<or> RoleCICD \<in> set (pr_Roles p) \<and> pipelineMay method path)"
  by (auto simp: decide_def Let_def pr_Has_def list_ex_iff)

lemma check_token_Inr:
  "check_token now token = Inr p \<longleftrightarrow>
   (\<exists>c. it_Claims token = Inr c \<and>
      p = \<lparr>pr_Subject = it_Subject token, pr_Roles = ac_Roles c, pr_Deployment = ac_Deployment c\<rparr> \<and>
      now \<le> it_Expiry token + clockSkew \<and> it_IssuedAt token - clockSkew \<le> now \<and>
      (ac_NotBefore c = 0 \<or> ac_NotBefore c * second - clockSkew \<le> now))"
  by (auto simp: check_token_def not_less split: sum.splits)

section \<open>The keyset\<close>

text \<open>The fetches of a sequence of requests: when each was begun and, failed, recorded.\<close>

definition fetches :: "'k moment \<Rightarrow> 'k verifier \<Rightarrow> request \<Rightarrow> bool" where
  "fetches t v r \<longleftrightarrow> \<not> exempt (rq_Path r) \<and> bearer (rq_Authorization r) \<noteq> [] \<and>
     v_ready v = None \<and> v_retryAt v \<le> at_resolve t"

fun fetch_times ::
  "('k \<Rightarrow> string \<Rightarrow> (err, id_token) res) \<Rightarrow> 'k verifier \<Rightarrow> ('k moment \<times> request) list \<Rightarrow> (int \<times> int) list" where
  "fetch_times library v [] = []"
| "fetch_times library v ((t, r) # rs) =
     (if fetches t v r then [(at_resolve t, at_failure t)] else []) @
     fetch_times library (snd (Wrap (Verify library t) v r)) rs"

lemma Verify_state: "snd (Verify library t v raw) = snd (resolve_keyset t v)"
  by (auto simp: Verify_def split: prod.splits sum.splits)

lemma snd_case_auth: "snd (case x of (Inl (ErrUnavailable u), w) \<Rightarrow> (f u, w)
    | (Inl (ErrUnauthenticated u), w) \<Rightarrow> (g u, w) | (Inr p, w) \<Rightarrow> (h p, w)) = snd x"
  by (auto split: prod.splits sum.splits auth_error.splits)

lemma Wrap_state:
  "snd (Wrap (Verify library t) v r) =
     (if exempt (rq_Path r) \<or> bearer (rq_Authorization r) = [] then v else snd (resolve_keyset t v))"
  by (simp add: Wrap_def Let_def snd_case_auth Verify_state)

lemma Wrap_state_fetch:
  "fetches t v r \<Longrightarrow> snd (Wrap (Verify library t) v r) =
     (case fetch t of Inl e \<Rightarrow> v\<lparr>v_retryAt := at_failure t + retryAfter\<rparr> | Inr k \<Rightarrow> v\<lparr>v_ready := Some k\<rparr>)"
  by (auto simp: Wrap_state fetches_def resolve_keyset_def split: sum.splits)

lemma Wrap_state_quiet:
  "\<not> fetches t v r \<Longrightarrow> snd (Wrap (Verify library t) v r) = v"
  by (auto simp: Wrap_state fetches_def resolve_keyset_def split: sum.splits option.splits)

lemma no_fetch_when_ready: "v_ready v = Some k \<Longrightarrow> fetch_times library v rs = []"
proof (induction rs)
  case (Cons tr rs)
  obtain t r where tr: "tr = (t, r)" by fastforce
  have "\<not> fetches t v r" using Cons.prems by (simp add: fetches_def)
  then show ?case using Cons tr by (simp add: Wrap_state_quiet)
qed simp

lemma fetch_not_before:
  assumes "\<forall>(t, r) \<in> set rs. at_resolve t \<le> at_failure t"
  shows "(a, b) \<in> set (fetch_times library v rs) \<Longrightarrow> v_retryAt v \<le> a"
  using assms
proof (induction rs arbitrary: v)
  case (Cons tr rs)
  obtain t r where tr: "tr = (t, r)" by fastforce
  show ?case
  proof (cases "fetches t v r")
    case True
    then have le: "v_retryAt v \<le> at_resolve t" by (simp add: fetches_def)
    show ?thesis
    proof (cases "fetch t")
      case (Inl e)
      let ?v = "v\<lparr>v_retryAt := at_failure t + retryAfter\<rparr>"
      have "v_retryAt v \<le> v_retryAt ?v"
        using le Cons.prems(2) tr by (simp add: retryAfter_def second_def)
      moreover have "(a, b) = (at_resolve t, at_failure t) \<or> (a, b) \<in> set (fetch_times library ?v rs)"
        using Cons.prems(1) tr True Inl by (simp add: Wrap_state_fetch)
      moreover have "(a, b) \<in> set (fetch_times library ?v rs) \<Longrightarrow> v_retryAt ?v \<le> a"
        using Cons.prems(2) by (intro Cons.IH) simp_all
      ultimately show ?thesis using le by auto
    next
      case (Inr k)
      then show ?thesis using Cons.prems(1) tr True le
        by (simp add: Wrap_state_fetch no_fetch_when_ready [of _ k])
    qed
  next
    case False
    then show ?thesis using Cons.prems tr by (intro Cons.IH) (simp_all add: Wrap_state_quiet)
  qed
qed simp

lemma fetches_spaced:
  assumes "\<forall>(t, r) \<in> set rs. at_resolve t \<le> at_failure t"
  shows "sorted_wrt (\<lambda>(a, b) (c, d). b + retryAfter \<le> c) (fetch_times library v rs)"
  using assms
proof (induction rs arbitrary: v)
  case (Cons tr rs)
  obtain t r where tr: "tr = (t, r)" by fastforce
  let ?v = "snd (Wrap (Verify library t) v r)"
  have IH: "sorted_wrt (\<lambda>(a, b) (c, d). b + retryAfter \<le> c) (fetch_times library ?v rs)"
    using Cons.prems by (intro Cons.IH) simp
  show ?case
  proof (cases "fetches t v r")
    case True
    have "at_failure t + retryAfter \<le> c" if "(c, d) \<in> set (fetch_times library ?v rs)" for c d
    proof (cases "fetch t")
      case (Inl e)
      then have "v_retryAt ?v = at_failure t + retryAfter" using True by (simp add: Wrap_state_fetch)
      moreover have "v_retryAt ?v \<le> c" using Cons.prems that by (intro fetch_not_before) auto
      ultimately show ?thesis by simp
    next
      case (Inr k)
      then have "v_ready ?v = Some k" using True by (simp add: Wrap_state_fetch)
      then show ?thesis using that by (simp add: no_fetch_when_ready)
    qed
    then show ?thesis using True IH tr by auto
  next
    case False
    then show ?thesis using IH tr by simp
  qed
qed simp

section \<open>What the guard promises\<close>

lemma runtime_decides:
  assumes "set (pr_Roles p) = {RoleRuntime}" and "pr_Deployment p \<noteq> []"
    and "decide p method path = Serve (Some p)"
  shows "(\<exists>s rest. path_segments path = ''deployments'' # pr_Deployment p # s # rest \<and> s \<in> set own_stores)
     \<or> \<not> is_write method \<and> (\<exists>i rest. path_segments path = ''snapshots'' # i # ''resources'' # rest)"
proof -
  have own: "ownsTarget p path" and "RoleRuntime \<in> set (required method path)"
    using assms by (auto simp: decide_serves)
  then consider "store_path (path_segments path)" | "\<not> is_write method" "resources_path (path_segments path)"
    using runtime_required by blast
  then show ?thesis
  proof cases
    case 1
    then obtain d s rest where s: "path_segments path = ''deployments'' # d # s # rest" "s \<in> set own_stores"
      by (cases "path_segments path" rule: segs_cases) (auto simp: store_path_def)
    then have "d = pr_Deployment p" using own assms(2) by (simp add: ownsTarget_def)
    then show ?thesis using s by simp
  next
    case 2
    then show ?thesis
      by (cases "path_segments path" rule: segs_cases) (auto simp: resources_path_def)
  qed
qed

text \<open>
  C21. A request served for a deployment's own token carries a token the keyset accepts and
  whose dates hold, and names a store of that very deployment, or reads the resources of a
  snapshot: no route of another deployment and no other part of the API.
\<close>

theorem runtime_token_confined:
  assumes "fst (Wrap (Verify library t) v r) = Serve (Some p)"
    and "set (pr_Roles p) = {RoleRuntime}" and "pr_Deployment p \<noteq> []"
  shows "keyset_vouches library (at_check t) (bearer (rq_Authorization r)) p \<and>
    ((\<exists>s rest. path_segments (rq_Path r) = ''deployments'' # pr_Deployment p # s # rest \<and> s \<in> set own_stores)
     \<or> \<not> is_write (rq_Method r) \<and> (\<exists>i rest. path_segments (rq_Path r) = ''snapshots'' # i # ''resources'' # rest))"
  using oidc.wrap_serves [OF assms(1)] runtime_decides [OF assms(2,3)] by auto

definition pod_token :: id_token where
  "pod_token = \<lparr>it_Subject = ''u'', it_Expiry = 100 * second, it_IssuedAt = 0,
     it_Claims = Inr \<lparr>ac_Roles = [RoleRuntime], ac_Deployment = ''d1'', ac_NotBefore = 0\<rparr>\<rparr>"

definition pod_principal :: principal where
  "pod_principal = \<lparr>pr_Subject = ''u'', pr_Roles = [RoleRuntime], pr_Deployment = ''d1''\<rparr>"

definition pod_moment :: "nat moment" where
  "pod_moment = \<lparr>at_resolve = second, at_failure = second, at_check = second, fetch = Inr 7\<rparr>"

definition pod_request :: request where
  "pod_request = \<lparr>rq_Method = ''PUT'', rq_Path = ''/deployments/d1/kv/x'', rq_Authorization = ''Bearer abc''\<rparr>"

lemma pod_served:
  "fst (Wrap (Verify (\<lambda>k raw. if k = 7 \<and> raw = ''abc'' then Inr pod_token else Inl (Err ''down'')) pod_moment)
     NewVerifier pod_request) = Serve (Some pod_principal)"
  by code_simp

lemma runtime_token_confined_witness:
  "\<exists>s rest. path_segments ''/deployments/d1/kv/x'' = ''deployments'' # ''d1'' # s # rest \<and> s \<in> set own_stores"
  using runtime_token_confined [OF pod_served]
  by (simp add: pod_principal_def pod_request_def is_write_def)

text \<open>
  A pipeline's token changes four things and no others: an integration's bundle, its
  snapshots, and the rollout and the test runs of a deployment.
\<close>

theorem pipeline_token_only_ships:
  assumes "fst (Wrap (Verify library t) v r) = Serve (Some p)"
    and "set (pr_Roles p) = {RoleCICD}" and "is_write (rq_Method r)"
  shows "\<exists>i. (rq_Method r, path_segments (rq_Path r)) \<in>
      {(''PUT'', [''integrations'', i, ''bundle'']), (''POST'', [''integrations'', i, ''snapshots'']),
       (''POST'', [''deployments'', i, ''rollout'']), (''POST'', [''deployments'', i, ''testruns''])}"
proof -
  have "decide p (rq_Method r) (rq_Path r) = Serve (Some p)"
    using oidc.wrap_serves [OF assms(1)] by auto
  then have "pipelineMay (rq_Method r) (rq_Path r)"
    using assms(2) cicd_not_required by (auto simp: decide_serves)
  then show ?thesis using assms(3) by (rule pipeline_writes)
qed

definition ci_token :: id_token where
  "ci_token = \<lparr>it_Subject = ''u'', it_Expiry = 100 * second, it_IssuedAt = 0,
     it_Claims = Inr \<lparr>ac_Roles = [RoleCICD], ac_Deployment = [], ac_NotBefore = 0\<rparr>\<rparr>"

lemma pipeline_token_only_ships_witness:
  "\<exists>i. (''POST'', path_segments ''/deployments/d1/rollout'') \<in>
      {(''PUT'', [''integrations'', i, ''bundle'']), (''POST'', [''integrations'', i, ''snapshots'']),
       (''POST'', [''deployments'', i, ''rollout'']), (''POST'', [''deployments'', i, ''testruns''])}"
proof -
  let ?r = "\<lparr>rq_Method = ''POST'', rq_Path = ''/deployments/d1/rollout'', rq_Authorization = ''bearer k''\<rparr>"
  have "fst (Wrap (Verify (\<lambda>k raw. Inr ci_token) pod_moment) NewVerifier ?r) =
      Serve (Some \<lparr>pr_Subject = ''u'', pr_Roles = [RoleCICD], pr_Deployment = []\<rparr>)"
    by code_simp
  from pipeline_token_only_ships [OF this] show ?thesis by (simp add: is_write_def)
qed

text \<open>
  A route whose first segment no rule names is served to an administrator only,
  whatever the method.
\<close>

theorem unwritten_route_is_admin_only:
  assumes "fst (Wrap (Verify library t) v r) = Serve (Some p)"
    and "case path_segments (rq_Path r) of [] \<Rightarrow> True | a # _ \<Rightarrow> a \<notin> set known_roots"
  shows "RoleAdmin \<in> set (pr_Roles p)"
proof -
  have d: "decide p (rq_Method r) (rq_Path r) = Serve (Some p)"
    using oidc.wrap_serves [OF assms(1)] by auto
  have "\<not> pipelineMay (rq_Method r) (rq_Path r)"
    using pipeline_root [of "rq_Method r" "rq_Path r"] assms(2) by auto
  then show ?thesis using d unknown_admin_only [OF assms(2)] by (auto simp: decide_serves)
qed

definition admin_token :: id_token where
  "admin_token = \<lparr>it_Subject = ''u'', it_Expiry = 100 * second, it_IssuedAt = 0,
     it_Claims = Inr \<lparr>ac_Roles = [RoleAdmin], ac_Deployment = [], ac_NotBefore = 0\<rparr>\<rparr>"

lemma unwritten_route_is_admin_only_witness: "RoleAdmin \<in> set [RoleAdmin]"
proof -
  let ?r = "\<lparr>rq_Method = ''DELETE'', rq_Path = ''/brand-new'', rq_Authorization = ''Bearer k''\<rparr>"
  have "fst (Wrap (Verify (\<lambda>k raw. Inr admin_token) pod_moment) NewVerifier ?r) =
      Serve (Some \<lparr>pr_Subject = ''u'', pr_Roles = [RoleAdmin], pr_Deployment = []\<rparr>)"
    by code_simp
  from unwritten_route_is_admin_only [OF this] show ?thesis
    by (simp add: path_segments_def known_roots_def)
qed

text \<open>
  Fetches of the keyset that fail are at least the backoff apart: each later fetch begins
  no sooner than the backoff after the failure of every earlier one was recorded. A fetch that
  succeeds is the last.
\<close>

theorem keyset_fetches_spaced:
  assumes "\<forall>(t, r) \<in> set rs. at_resolve t \<le> at_failure t"
  shows "sorted_wrt (\<lambda>(a, b) (c, d). b + retryAfter \<le> c) (fetch_times library v rs)"
  using assms by (rule fetches_spaced)

lemma keyset_fetches_spaced_witness:
  "sorted_wrt (\<lambda>(a, b) (c, d). b + retryAfter \<le> c)
     (fetch_times (\<lambda>k raw. Inr pod_token) (NewVerifier :: nat verifier)
        [(pod_moment\<lparr>fetch := Inl (Err ''down'')\<rparr>, pod_request),
         (pod_moment\<lparr>at_resolve := 2 * second, at_failure := 2 * second\<rparr>, pod_request),
         (pod_moment\<lparr>at_resolve := 6 * second, at_failure := 6 * second\<rparr>, pod_request)])"
  by (rule keyset_fetches_spaced) (simp add: pod_moment_def)

text \<open>
  While the keyset cannot be fetched a caller with a token is told the service is
  unavailable, never that the token is bad or the operation forbidden.
\<close>

theorem outage_is_unavailable:
  assumes "\<not> exempt (rq_Path r)" and "bearer (rq_Authorization r) \<noteq> []"
    and "v_ready v = None" and "at_resolve t < v_retryAt v \<or> fetch t = Inl e"
  shows "fst (Wrap (Verify library t) v r) = Refuse 503 ''this request cannot be authorized right now''"
  using assms by (auto simp: Wrap_def Verify_def resolve_keyset_def)

lemma outage_is_unavailable_witness:
  "fst (Wrap (Verify (\<lambda>k raw. Inr pod_token) (pod_moment\<lparr>fetch := Inl (Err ''down'')\<rparr>)) NewVerifier pod_request) =
   Refuse 503 ''this request cannot be authorized right now''"
proof (rule outage_is_unavailable [where e = "Err ''down''"])
  show "\<not> exempt (rq_Path pod_request)" "bearer (rq_Authorization pod_request) \<noteq> []" by code_simp+
qed (simp_all add: NewVerifier_def)

end
