(* ===== verification/Octo_Config.thy ===== *)
theory Octo_Config
  imports Octo_Builder Octo_Dotenv
begin

text \<open>
  Loading a configuration (\<^verbatim>\<open>runtime/core/runtime/config.go\<close> and
  \<^verbatim>\<open>env.go\<close>): which files of a directory are read, how their declarations of
  environment variables are gathered and resolved, how references are substituted in the
  parsed documents, and how the decoded files merge into one configuration. The YAML library
  is a parameter: it parses a file's bytes to a node, decodes a node to typed sections, and
  says whether a text reads as a number or a truth value.
\<close>

section \<open>Nodes and typed sections\<close>

datatype ykind = ZeroNode | DocumentNode | SequenceNode | MappingNode | ScalarNode | AliasNode

datatype ynode = Node (ykind: ykind) (yvalue: string) (ytag: string) (ystyle: nat) (ycontent: "ynode list")

record service_config =
  svc_Name :: string
  svc_Environment :: string

definition no_service :: service_config where
  "no_service = \<lparr>svc_Name = [], svc_Environment = []\<rparr>"

record env_var =
  ev_Name :: string
  ev_Default :: "string option"
  ev_Required :: bool

record template_resource =
  tp_Resource :: string
  tp_As :: string

record connector_decl =
  cn_Name :: string
  cn_Type :: string
  cn_Settings :: settings

record runtime_config =
  rc_Service :: service_config
  rc_Env :: "env_var list"
  rc_ResEnv :: "string list"
  rc_Templates :: "template_resource list"
  rc_Connectors :: "connector_decl list"
  rc_Processors :: "processor_config list"
  rc_Flows :: "flow_spec list"
  rc_ResolvedEnv :: "string \<rightharpoonup> string"

definition no_config :: runtime_config where
  "no_config = \<lparr>rc_Service = no_service, rc_Env = [], rc_ResEnv = [], rc_Templates = [],
     rc_Connectors = [], rc_Processors = [], rc_Flows = [], rc_ResolvedEnv = Map.empty\<rparr>"

section \<open>Which files are read\<close>

definition file_ext :: "string \<Rightarrow> string" where
  "file_ext name =
     (let back = rev name; e = takeWhile (\<lambda>c. c \<noteq> CHR ''.'' \<and> c \<noteq> CHR ''/'') back in
      if length e < length back \<and> back ! length e = CHR ''.'' then CHR ''.'' # rev e else [])"

definition isYAML :: "string \<Rightarrow> bool" where
  "isYAML name \<longleftrightarrow> map lower_ascii (file_ext name) \<in> {''.yaml'', ''.yml''}"

definition IsTestFile :: "string \<Rightarrow> bool" where
  "IsTestFile name \<longleftrightarrow> has_suffix (trim_suffix name (file_ext name)) ''_test''"

definition IsConfigFile :: "string \<Rightarrow> bool" where
  "IsConfigFile name \<longleftrightarrow> isYAML name \<and> \<not> IsTestFile name"

text \<open>An entry of the directory: its name, whether it is a directory, what reading it gives.\<close>

record dir_entry =
  de_Name :: string
  de_IsDir :: bool
  de_Read :: "(err, string) res"

record document =
  doc_path :: string
  doc_node :: ynode

definition loadOne :: "(string \<Rightarrow> (err, ynode) res) \<Rightarrow> dir_entry \<Rightarrow> (err, document) res" where
  "loadOne parse e =
     (case de_Read e of
        Inl er \<Rightarrow> Inl (Wrap (''read config file '' @ quote (de_Name e)) er)
      | Inr data \<Rightarrow>
          (case parse data of
             Inl er \<Rightarrow> Inl (Wrap ''parse config'' er)
           | Inr n \<Rightarrow> Inr \<lparr>doc_path = de_Name e, doc_node = n\<rparr>))"

fun insert_entry :: "dir_entry \<Rightarrow> dir_entry list \<Rightarrow> dir_entry list" where
  "insert_entry e [] = [e]"
| "insert_entry e (x # xs) =
     (if lexordp (\<lambda>a b. (of_char a :: nat) < of_char b) (de_Name x) (de_Name e)
      then x # insert_entry e xs else e # x # xs)"

definition loadDir ::
  "(string \<Rightarrow> (err, ynode) res) \<Rightarrow> string \<Rightarrow> dir_entry list \<Rightarrow> (err, document list) res" where
  "loadDir parse dir entries =
     (let ps = filter (\<lambda>e. \<not> de_IsDir e \<and> IsConfigFile (de_Name e)) entries in
      if ps = [] then Inl (Err (''no .yaml/.yml config files in '' @ quote dir))
      else map_res (loadOne parse) (foldr insert_entry ps []))"

section \<open>Declarations of variables\<close>

text \<open>Entries whose key was not seen before, in order, and the keys seen after them.\<close>

fun keep_first :: "('a \<Rightarrow> string) \<Rightarrow> 'a list \<Rightarrow> string list \<times> 'a list \<Rightarrow> string list \<times> 'a list" where
  "keep_first key [] s = s"
| "keep_first key (x # xs) (seen, acc) =
     (if key x \<in> set seen then keep_first key xs (seen, acc)
      else keep_first key xs (seen @ [key x], acc @ [x]))"

record env_decls =
  ed_Env :: "env_var list"
  ed_Resources :: "string list"

fun mergeEnvDecls_loop ::
  "(ynode \<Rightarrow> (err, env_decls) res) \<Rightarrow> document list
   \<Rightarrow> (string list \<times> env_var list) \<times> (string list \<times> string list) \<Rightarrow> (err, env_decls) res" where
  "mergeEnvDecls_loop decode [] (vars, ress) = Inr \<lparr>ed_Env = snd vars, ed_Resources = snd ress\<rparr>"
| "mergeEnvDecls_loop decode (d # ds) (vars, ress) =
     (if ykind (doc_node d) = ZeroNode then mergeEnvDecls_loop decode ds (vars, ress)
      else (case decode (doc_node d) of
              Inl e \<Rightarrow> Inl (Wrap ''parse config'' e)
            | Inr decls \<Rightarrow>
                mergeEnvDecls_loop decode ds
                  (keep_first ev_Name (ed_Env decls) vars, keep_first (\<lambda>id. id) (ed_Resources decls) ress)))"

definition mergeEnvDecls ::
  "(ynode \<Rightarrow> (err, env_decls) res) \<Rightarrow> document list \<Rightarrow> (err, env_decls) res" where
  "mergeEnvDecls decode docs = mergeEnvDecls_loop decode docs (([], []), ([], []))"

section \<open>Where values come from\<close>

datatype file_read = Missing | Unreadable err | Contents string

record environment =
  os_env :: "string \<rightharpoonup> string"
  os_file :: "string \<Rightarrow> file_read"
  env_resource :: "string \<Rightarrow> (err, string) res"

definition DotEnvPaths :: "environment \<Rightarrow> string list" where
  "DotEnvPaths w =
     ''.env'' # (case os_env w ''OCTO_ENV_FILE'' of
                   Some extra \<Rightarrow> if extra \<noteq> [] then [extra] else []
                 | None \<Rightarrow> [])"

fun loadDotEnv_loop ::
  "environment \<Rightarrow> string list \<Rightarrow> (string \<rightharpoonup> string) \<Rightarrow> (err, string \<rightharpoonup> string) res" where
  "loadDotEnv_loop w [] merged = Inr merged"
| "loadDotEnv_loop w (p # ps) merged =
     (case os_file w p of
        Missing \<Rightarrow> loadDotEnv_loop w ps merged
      | Unreadable e \<Rightarrow> Inl (Wrap (''read .env file '' @ quote p) e)
      | Contents data \<Rightarrow>
          (case env_Parse data of
             Inl e \<Rightarrow> Inl (Wrap (quote p) e)
           | Inr values \<Rightarrow> loadDotEnv_loop w ps (merged ++ values)))"

definition loadDotEnv :: "environment \<Rightarrow> (err, string \<rightharpoonup> string) res" where
  "loadDotEnv w = loadDotEnv_loop w (DotEnvPaths w) Map.empty"

text \<open>A resource that is missing, unreadable or malformed is skipped.\<close>

fun loadEnvResources :: "environment \<Rightarrow> string list \<Rightarrow> (string \<rightharpoonup> string) \<Rightarrow> string \<rightharpoonup> string" where
  "loadEnvResources w [] merged = merged"
| "loadEnvResources w (r # rs) merged =
     (case env_resource w r of
        Inl e \<Rightarrow> loadEnvResources w rs merged
      | Inr data \<Rightarrow>
          (case env_Parse data of
             Inl e \<Rightarrow> loadEnvResources w rs merged
           | Inr values \<Rightarrow> loadEnvResources w rs (merged ++ values)))"

definition lookupEnv :: "(string \<rightharpoonup> string) \<Rightarrow> string \<Rightarrow> (string \<rightharpoonup> string) \<Rightarrow> string option" where
  "lookupEnv os name dotenv = (case os name of Some v \<Rightarrow> Some v | None \<Rightarrow> dotenv name)"

fun resolveEnv_loop ::
  "(string \<rightharpoonup> string) \<Rightarrow> env_var list \<Rightarrow> (string \<rightharpoonup> string) \<Rightarrow> (string \<rightharpoonup> string)
   \<Rightarrow> (err, string \<rightharpoonup> string) res" where
  "resolveEnv_loop os [] dotenv resolved = Inr resolved"
| "resolveEnv_loop os (d # ds) dotenv resolved =
     (if ev_Name d = [] then Inl (Err ''env declaration requires a name'')
      else (case lookupEnv os (ev_Name d) dotenv of
              Some v \<Rightarrow> resolveEnv_loop os ds dotenv (resolved(ev_Name d \<mapsto> v))
            | None \<Rightarrow>
                if ev_Required d
                then Inl (Err (''required environment variable '' @ quote (ev_Name d) @ '' is not set''))
                else (case ev_Default d of
                        Some v \<Rightarrow> resolveEnv_loop os ds dotenv (resolved(ev_Name d \<mapsto> v))
                      | None \<Rightarrow> resolveEnv_loop os ds dotenv resolved)))"

definition resolveEnv ::
  "(string \<rightharpoonup> string) \<Rightarrow> env_var list \<Rightarrow> (string \<rightharpoonup> string) \<Rightarrow> (err, string \<rightharpoonup> string) res" where
  "resolveEnv os decls dotenv = resolveEnv_loop os decls dotenv Map.empty"

text \<open>Checking a shape: what nothing supplies reads as empty, and what a run would miss is reported.\<close>

fun standInUnset ::
  "(string \<rightharpoonup> string) \<Rightarrow> env_var list \<Rightarrow> (string \<rightharpoonup> string) \<Rightarrow> (string \<rightharpoonup> string) \<times> string list" where
  "standInUnset os [] dotenv = (dotenv, [])"
| "standInUnset os (d # ds) dotenv =
     (if lookupEnv os (ev_Name d) dotenv \<noteq> None then standInUnset os ds dotenv
      else if ev_Required d
      then (case standInUnset os ds (dotenv(ev_Name d \<mapsto> [])) of (m, rs) \<Rightarrow> (m, ev_Name d # rs))
      else if ev_Default d = None then standInUnset os ds (dotenv(ev_Name d \<mapsto> []))
      else standInUnset os ds dotenv)"

definition resolveDeclared ::
  "environment \<Rightarrow> bool \<Rightarrow> env_decls \<Rightarrow> (err, (string \<rightharpoonup> string) \<times> string list) res" where
  "resolveDeclared w unset decls =
     (case loadDotEnv w of
        Inl e \<Rightarrow> Inl e
      | Inr dotenv0 \<Rightarrow>
          let dotenv1 = dotenv0 ++ loadEnvResources w (ed_Resources decls) Map.empty;
              dotenv2 = (if unset then fst (standInUnset (os_env w) (ed_Env decls) dotenv1) else dotenv1)
          in (case resolveEnv (os_env w) (ed_Env decls) dotenv2 of
                Inl e \<Rightarrow> Inl e
              | Inr resolved \<Rightarrow> Inr (resolved, map ev_Name (ed_Env decls))))"

section \<open>Substitution\<close>

definition is_name_start :: "char \<Rightarrow> bool" where
  "is_name_start c \<longleftrightarrow>
     (let n = of_char c :: nat in 65 \<le> n \<and> n \<le> 90 \<or> 97 \<le> n \<and> n \<le> 122 \<or> n = 95)"

definition is_name_char :: "char \<Rightarrow> bool" where
  "is_name_char c \<longleftrightarrow> is_name_start c \<or> (let n = of_char c :: nat in 48 \<le> n \<and> n \<le> 57)"

text \<open>A reference at the head of a text: its name, and the text after it.\<close>

definition reference_at :: "string \<Rightarrow> (string \<times> string) option" where
  "reference_at s =
     (if \<not> has_prefix s ''${'' then None
      else let body = drop 2 s; name = takeWhile is_name_char body; after = dropWhile is_name_char body in
        if name \<noteq> [] \<and> is_name_start (hd name) \<and> after \<noteq> [] \<and> hd after = CHR 0x7D
        then Some (name, tl after) else None)"

definition exactPlaceholder :: "string \<Rightarrow> string option" where
  "exactPlaceholder s =
     (case reference_at s of Some (name, after) \<Rightarrow> if after = [] then Some name else None | None \<Rightarrow> None)"

lemma reference_at_shorter: "reference_at s = Some (name, after) \<Longrightarrow> length after < length s"
proof -
  assume r: "reference_at s = Some (name, after)"
  have "length (dropWhile is_name_char (drop 2 s)) \<le> length (drop 2 s)" by (rule length_dropWhile_le)
  moreover have "after = tl (dropWhile is_name_char (drop 2 s))" "dropWhile is_name_char (drop 2 s) \<noteq> []"
    using r by (auto simp: reference_at_def Let_def split: if_splits)
  ultimately show ?thesis by (cases "dropWhile is_name_char (drop 2 s)") auto
qed

text \<open>
  Every reference of a text is replaced; one that does not resolve stays, and the last such
  failure is the one reported.
\<close>

function expand_refs :: "(string \<Rightarrow> (err, string) res) \<Rightarrow> string \<Rightarrow> string \<times> err option" where
  "expand_refs rv [] = ([], None)"
| "expand_refs rv (c # s) =
     (case reference_at (c # s) of
        None \<Rightarrow> (case expand_refs rv s of (out, e) \<Rightarrow> (c # out, e))
      | Some (name, after) \<Rightarrow>
          (case expand_refs rv after of (out, later) \<Rightarrow>
             (case rv name of
                Inr v \<Rightarrow> (v @ out, later)
              | Inl e \<Rightarrow> (take (length (c # s) - length after) (c # s) @ out,
                          case later of Some l \<Rightarrow> Some l | None \<Rightarrow> Some e))))"
  by pat_completeness auto
termination
proof (relation "measure (\<lambda>(r, s). length s)")
  fix rv c s x name after
  assume "reference_at (c # s) = Some x" "(name, after) = x"
  then have "length after < length (c # s)" using reference_at_shorter by (metis)
  then show "((rv, after), rv, c # s) \<in> measure (\<lambda>(r, s). length s)" by simp
qed auto

record substitutor =
  su_resolved :: "string \<rightharpoonup> string"
  su_declared :: "string list"

definition resolve_ref :: "substitutor \<Rightarrow> string \<Rightarrow> (err, string) res" where
  "resolve_ref su name =
     (if name \<notin> set (su_declared su)
      then Inl (Err (''config references undeclared environment variable '' @ quote name @ '' (add it under env:)''))
      else (case su_resolved su name of
              None \<Rightarrow> Inl (Err (''environment variable '' @ quote name @ '' is referenced but not set and has no default''))
            | Some v \<Rightarrow> Inr v))"

text \<open>
  A text the library reads as a number or a truth value takes that type; any other stays a
  string. \<open>natural\<close> is the library's reading of a nonempty text.
\<close>

definition coerces_to_string :: "(string \<Rightarrow> bool) \<Rightarrow> string \<Rightarrow> bool" where
  "coerces_to_string natural v \<longleftrightarrow> v = [] \<or> \<not> natural v"

definition subst_scalar ::
  "(string \<Rightarrow> bool) \<Rightarrow> substitutor \<Rightarrow> ynode \<Rightarrow> (err, ynode) res" where
  "subst_scalar natural su n =
     (case exactPlaceholder (yvalue n) of
        Some name \<Rightarrow>
          (case resolve_ref su name of
             Inl e \<Rightarrow> Inl e
           | Inr v \<Rightarrow>
               if coerces_to_string natural v
               then Inr (Node (ykind n) v ''!!str'' (ystyle n) (ycontent n))
               else Inr (Node (ykind n) v [] 0 (ycontent n)))
      | None \<Rightarrow>
          (case expand_refs (resolve_ref su) (yvalue n) of
             (out, Some e) \<Rightarrow> Inl e
           | (out, None) \<Rightarrow> Inr (Node (ykind n) out (ytag n) (ystyle n) (ycontent n))))"

definition literalSections :: "string list" where "literalSections = [''env'', ''resources'']"

fun subst_node :: "(string \<Rightarrow> bool) \<Rightarrow> substitutor \<Rightarrow> bool \<Rightarrow> ynode \<Rightarrow> (err, ynode) res"
  and subst_pairs :: "(string \<Rightarrow> bool) \<Rightarrow> substitutor \<Rightarrow> bool \<Rightarrow> ynode list \<Rightarrow> (err, ynode list) res"
  and subst_items :: "(string \<Rightarrow> bool) \<Rightarrow> substitutor \<Rightarrow> bool \<Rightarrow> ynode list \<Rightarrow> (err, ynode list) res" where
  "subst_node natural su outer (Node k v t st cs) =
     (case k of
        ScalarNode \<Rightarrow> subst_scalar natural su (Node k v t st cs)
      | MappingNode \<Rightarrow> (case subst_pairs natural su outer cs of Inl e \<Rightarrow> Inl e | Inr ds \<Rightarrow> Inr (Node k v t st ds))
      | DocumentNode \<Rightarrow> (case subst_items natural su outer cs of Inl e \<Rightarrow> Inl e | Inr ds \<Rightarrow> Inr (Node k v t st ds))
      | SequenceNode \<Rightarrow> (case subst_items natural su False cs of Inl e \<Rightarrow> Inl e | Inr ds \<Rightarrow> Inr (Node k v t st ds))
      | _ \<Rightarrow> Inr (Node k v t st cs))"
| "subst_pairs natural su outer [] = Inr []"
| "subst_pairs natural su outer [x] = Inr [x]"
| "subst_pairs natural su outer (key # x # rest) =
     (if outer \<and> yvalue key \<in> set literalSections
      then (case subst_pairs natural su outer rest of Inl e \<Rightarrow> Inl e | Inr ds \<Rightarrow> Inr (key # x # ds))
      else (case subst_node natural su False x of
              Inl e \<Rightarrow> Inl e
            | Inr y \<Rightarrow> (case subst_pairs natural su outer rest of Inl e \<Rightarrow> Inl e | Inr ds \<Rightarrow> Inr (key # y # ds))))"
| "subst_items natural su outer [] = Inr []"
| "subst_items natural su outer (x # rest) =
     (case subst_node natural su outer x of
        Inl e \<Rightarrow> Inl e
      | Inr y \<Rightarrow> (case subst_items natural su outer rest of Inl e \<Rightarrow> Inl e | Inr ds \<Rightarrow> Inr (y # ds)))"

definition substituteDocument ::
  "(string \<Rightarrow> bool) \<Rightarrow> (string \<rightharpoonup> string) \<Rightarrow> string list \<Rightarrow> ynode \<Rightarrow> (err, ynode) res" where
  "substituteDocument natural resolved declared n =
     subst_node natural \<lparr>su_resolved = resolved, su_declared = declared\<rparr> True n"

section \<open>Merging\<close>

record config_file =
  cf_Path :: string
  cf_Config :: runtime_config

record configMerger =
  cm_merged :: runtime_config
  cm_serviceFile :: "string option"
  cm_connectors :: "string \<rightharpoonup> string"
  cm_processors :: "string \<rightharpoonup> string"
  cm_flows :: "string \<rightharpoonup> string"
  cm_env :: "string list"
  cm_envRes :: "string list"
  cm_tplRes :: "string list"

definition newConfigMerger :: configMerger where
  "newConfigMerger =
     \<lparr>cm_merged = no_config, cm_serviceFile = None, cm_connectors = Map.empty, cm_processors = Map.empty,
      cm_flows = Map.empty, cm_env = [], cm_envRes = [], cm_tplRes = []\<rparr>"

definition whereTwice :: "string \<Rightarrow> string \<Rightarrow> string" where
  "whereTwice a b =
     (if a = [] \<or> b = [] then ''more than once''
      else if a = b then ''more than once in '' @ a
      else ''in both '' @ a @ '' and '' @ b)"

definition claimName ::
  "(string \<rightharpoonup> string) \<Rightarrow> string \<Rightarrow> string \<Rightarrow> string \<Rightarrow> (err, string \<rightharpoonup> string) res" where
  "claimName seen name knd p =
     (case seen name of
        Some a \<Rightarrow> Inl (Err (knd @ '' '' @ quote name @ '' is defined '' @ whereTwice a p))
      | None \<Rightarrow> Inr (seen(name \<mapsto> p)))"

definition addService :: "service_config \<Rightarrow> string \<Rightarrow> configMerger \<Rightarrow> (err, configMerger) res" where
  "addService svc p m =
     (if svc = no_service then Inr m
      else (case cm_serviceFile m of
              Some q \<Rightarrow> Inl (Err (''service identity is declared '' @ whereTwice q p))
            | None \<Rightarrow> Inr (m\<lparr>cm_merged := (cm_merged m)\<lparr>rc_Service := svc\<rparr>, cm_serviceFile := Some p\<rparr>)))"

definition addEnv :: "env_var list \<Rightarrow> configMerger \<Rightarrow> configMerger" where
  "addEnv env m =
     (case keep_first ev_Name env (cm_env m, rc_Env (cm_merged m)) of
        (seen, acc) \<Rightarrow> m\<lparr>cm_merged := (cm_merged m)\<lparr>rc_Env := acc\<rparr>, cm_env := seen\<rparr>)"

definition template_key :: "template_resource \<Rightarrow> string" where
  "template_key t = (if tp_As t = [] then tp_Resource t else tp_As t)"

definition addResources :: "string list \<Rightarrow> template_resource list \<Rightarrow> configMerger \<Rightarrow> configMerger" where
  "addResources env tpls m =
     (case keep_first (\<lambda>r. r) env (cm_envRes m, rc_ResEnv (cm_merged m)) of
        (seen, acc) \<Rightarrow>
     (case keep_first template_key tpls (cm_tplRes m, rc_Templates (cm_merged m)) of
        (tseen, tacc) \<Rightarrow>
          m\<lparr>cm_merged := (cm_merged m)\<lparr>rc_ResEnv := acc, rc_Templates := tacc\<rparr>,
            cm_envRes := seen, cm_tplRes := tseen\<rparr>))"

text \<open>The loop over one kind's entries: each name is claimed, an exempt one is not.\<close>

fun claim_each ::
  "string \<Rightarrow> string \<Rightarrow> ('a \<Rightarrow> string) \<Rightarrow> ('a \<Rightarrow> bool) \<Rightarrow> 'a list \<Rightarrow> (string \<rightharpoonup> string) \<times> 'a list
   \<Rightarrow> (err, (string \<rightharpoonup> string) \<times> 'a list) res" where
  "claim_each p knd nm must [] s = Inr s"
| "claim_each p knd nm must (x # xs) (seen, acc) =
     (if must x
      then (case claimName seen (nm x) knd p of
              Inl e \<Rightarrow> Inl e
            | Inr seen' \<Rightarrow> claim_each p knd nm must xs (seen', acc @ [x]))
      else claim_each p knd nm must xs (seen, acc @ [x]))"

definition add_connectors :: "string \<Rightarrow> connector_decl list \<Rightarrow> configMerger \<Rightarrow> (err, configMerger) res" where
  "add_connectors p cs m =
     (case claim_each p ''connector'' cn_Name (\<lambda>_. True) cs (cm_connectors m, rc_Connectors (cm_merged m)) of
        Inl e \<Rightarrow> Inl e
      | Inr (seen, acc) \<Rightarrow> Inr (m\<lparr>cm_merged := (cm_merged m)\<lparr>rc_Connectors := acc\<rparr>, cm_connectors := seen\<rparr>))"

definition add_processors :: "string \<Rightarrow> processor_config list \<Rightarrow> configMerger \<Rightarrow> (err, configMerger) res" where
  "add_processors p ps m =
     (case claim_each p ''processor'' pc_name (\<lambda>_. True) ps (cm_processors m, rc_Processors (cm_merged m)) of
        Inl e \<Rightarrow> Inl e
      | Inr (seen, acc) \<Rightarrow> Inr (m\<lparr>cm_merged := (cm_merged m)\<lparr>rc_Processors := acc\<rparr>, cm_processors := seen\<rparr>))"

definition add_flows :: "string \<Rightarrow> flow_spec list \<Rightarrow> configMerger \<Rightarrow> (err, configMerger) res" where
  "add_flows p fs m =
     (case claim_each p ''flow'' fc_name (\<lambda>f. fc_name f \<noteq> []) fs (cm_flows m, rc_Flows (cm_merged m)) of
        Inl e \<Rightarrow> Inl e
      | Inr (seen, acc) \<Rightarrow> Inr (m\<lparr>cm_merged := (cm_merged m)\<lparr>rc_Flows := acc\<rparr>, cm_flows := seen\<rparr>))"

definition merger_add :: "config_file \<Rightarrow> configMerger \<Rightarrow> (err, configMerger) res" where
  "merger_add f m =
     (let c = cf_Config f; p = cf_Path f in
      bind_res (addService (rc_Service c) p m) (\<lambda>m1.
      bind_res (add_connectors p (rc_Connectors c)
                  (addResources (rc_ResEnv c) (rc_Templates c) (addEnv (rc_Env c) m1))) (\<lambda>m2.
      bind_res (add_processors p (rc_Processors c) m2) (\<lambda>m3.
      add_flows p (rc_Flows c) m3))))"

fun merger_adds :: "config_file list \<Rightarrow> configMerger \<Rightarrow> (err, configMerger) res" where
  "merger_adds [] m = Inr m"
| "merger_adds (f # fs) m = (case merger_add f m of Inl e \<Rightarrow> Inl e | Inr m' \<Rightarrow> merger_adds fs m')"

definition MergeConfigs :: "config_file list \<Rightarrow> (err, runtime_config) res" where
  "MergeConfigs files =
     (case merger_adds files newConfigMerger of Inl e \<Rightarrow> Inl e | Inr m \<Rightarrow> Inr (cm_merged m))"

section \<open>Loading\<close>

definition Decode ::
  "(ynode \<Rightarrow> (err, runtime_config) res) \<Rightarrow> ynode \<Rightarrow> (err, runtime_config) res" where
  "Decode decode n =
     (if ykind n = ZeroNode then Inr no_config
      else (case decode n of Inl e \<Rightarrow> Inl (Wrap ''parse config'' e) | Inr c \<Rightarrow> Inr c))"

fun load_documents ::
  "(string \<Rightarrow> bool) \<Rightarrow> (ynode \<Rightarrow> (err, runtime_config) res) \<Rightarrow> (string \<rightharpoonup> string) \<Rightarrow> string list
   \<Rightarrow> document list \<Rightarrow> (err, config_file list) res" where
  "load_documents natural decode resolved declared [] = Inr []"
| "load_documents natural decode resolved declared (d # ds) =
     (case substituteDocument natural resolved declared (doc_node d) of
        Inl e \<Rightarrow> Inl e
      | Inr n \<Rightarrow>
          (case Decode decode n of
             Inl e \<Rightarrow> Inl e
           | Inr c \<Rightarrow>
               (case load_documents natural decode resolved declared ds of
                  Inl e \<Rightarrow> Inl e
                | Inr cs \<Rightarrow> Inr (\<lparr>cf_Path = doc_path d, cf_Config = c\<rparr> # cs))))"

definition resolveDocuments ::
  "environment \<Rightarrow> bool \<Rightarrow> (string \<Rightarrow> bool) \<Rightarrow> (ynode \<Rightarrow> (err, env_decls) res)
   \<Rightarrow> (ynode \<Rightarrow> (err, runtime_config) res) \<Rightarrow> document list \<Rightarrow> (err, runtime_config) res" where
  "resolveDocuments w unset natural decode_env decode docs =
     bind_res (mergeEnvDecls decode_env docs) (\<lambda>decls.
     bind_res (resolveDeclared w unset decls) (\<lambda>(resolved, declared).
     bind_res (load_documents natural decode resolved declared docs) (\<lambda>configs.
     bind_res (MergeConfigs configs) (\<lambda>c. Inr (c\<lparr>rc_ResolvedEnv := resolved\<rparr>)))))"

section \<open>What a merge gives\<close>

text \<open>The reference: the first entry of every key, and the entries of all files in order.\<close>

fun firsts :: "('a \<Rightarrow> string) \<Rightarrow> string list \<Rightarrow> 'a list \<Rightarrow> 'a list" where
  "firsts key seen [] = []"
| "firsts key seen (x # xs) =
     (if key x \<in> set seen then firsts key seen xs else x # firsts key (seen @ [key x]) xs)"

lemma keep_first_eq:
  "keep_first key xs (seen, acc) = (seen @ map key (firsts key seen xs), acc @ firsts key seen xs)"
  by (induction xs arbitrary: seen acc) auto

lemma firsts_append:
  "firsts key seen (xs @ ys) = firsts key seen xs @ firsts key (seen @ map key (firsts key seen xs)) ys"
  by (induction xs arbitrary: seen) auto

lemma set_firsts: "key ` set (firsts key seen xs) = key ` set xs - set seen"
  by (induction xs arbitrary: seen) auto

lemma distinct_firsts: "distinct (map key (firsts key seen xs))"
proof (induction xs arbitrary: seen)
  case (Cons x xs)
  have "key x \<notin> key ` set (firsts key (seen @ [key x]) xs)" by (simp add: set_firsts)
  then show ?case using Cons by simp
qed simp

lemma firsts_distinct: "distinct (map key xs) \<Longrightarrow> set seen \<inter> key ` set xs = {} \<Longrightarrow> firsts key seen xs = xs"
  by (induction xs arbitrary: seen) auto

lemma firsts_idem: "firsts key [] (firsts key [] xs) = firsts key [] xs"
  by (rule firsts_distinct) (simp_all add: distinct_firsts)

definition all_of :: "(runtime_config \<Rightarrow> 'a list) \<Rightarrow> runtime_config list \<Rightarrow> 'a list" where
  "all_of sel cs = concat (map sel cs)"

lemma all_of_simps [simp]: "all_of sel [] = []" "all_of sel (c # cs) = sel c @ all_of sel cs"
  "all_of sel (cs @ ds) = all_of sel cs @ all_of sel ds"
  by (simp_all add: all_of_def)

definition services :: "runtime_config list \<Rightarrow> service_config list" where
  "services cs = filter (\<lambda>s. s \<noteq> no_service) (map rc_Service cs)"

definition merged_spec :: "runtime_config list \<Rightarrow> runtime_config" where
  "merged_spec cs =
     \<lparr>rc_Service = (case services cs of [] \<Rightarrow> no_service | s # _ \<Rightarrow> s),
      rc_Env = firsts ev_Name [] (all_of rc_Env cs),
      rc_ResEnv = firsts (\<lambda>r. r) [] (all_of rc_ResEnv cs),
      rc_Templates = firsts template_key [] (all_of rc_Templates cs),
      rc_Connectors = all_of rc_Connectors cs, rc_Processors = all_of rc_Processors cs,
      rc_Flows = all_of rc_Flows cs, rc_ResolvedEnv = Map.empty\<rparr>"

definition flow_names :: "flow_spec list \<Rightarrow> string list" where
  "flow_names fs = filter (\<lambda>n. n \<noteq> []) (map fc_name fs)"

text \<open>When files can be one configuration.\<close>

definition compatible :: "runtime_config list \<Rightarrow> bool" where
  "compatible cs \<longleftrightarrow>
     length (services cs) \<le> 1 \<and> distinct (map cn_Name (all_of rc_Connectors cs)) \<and>
     distinct (map pc_name (all_of rc_Processors cs)) \<and> distinct (flow_names (all_of rc_Flows cs))"

definition claims :: "('a \<Rightarrow> string) \<Rightarrow> ('a \<Rightarrow> bool) \<Rightarrow> 'a list \<Rightarrow> string list" where
  "claims nm must xs = map nm (filter must xs)"

lemma claim_each_Inr:
  "claim_each p knd nm must xs (seen, acc) = Inr r \<longleftrightarrow>
     distinct (claims nm must xs) \<and> dom seen \<inter> set (claims nm must xs) = {} \<and>
     r = (\<lambda>n. if n \<in> set (claims nm must xs) then Some p else seen n, acc @ xs)"
proof (induction xs arbitrary: seen acc)
  case Nil
  then show ?case by (auto simp: claims_def)
next
  case (Cons x xs)
  let ?c = "claims nm must xs"
  show ?case
  proof (cases "must x")
    case True
    then have c: "claims nm must (x # xs) = nm x # ?c" by (simp add: claims_def)
    show ?thesis
    proof (cases "seen (nm x)")
      case None
      have step: "claim_each p knd nm must (x # xs) (seen, acc) = claim_each p knd nm must xs (seen(nm x \<mapsto> p), acc @ [x])"
        using True None by (simp add: claimName_def)
      have e: "(\<lambda>n. if n \<in> set ?c then Some p else (seen(nm x \<mapsto> p)) n) =
          (\<lambda>n. if n \<in> set (nm x # ?c) then Some p else seen n)" by auto
      have d: "distinct ?c \<and> dom (seen(nm x \<mapsto> p)) \<inter> set ?c = {} \<longleftrightarrow>
          distinct (nm x # ?c) \<and> dom seen \<inter> set (nm x # ?c) = {}"
        using None by auto
      show ?thesis unfolding step Cons.IH e c using d by auto
    next
      case (Some q)
      then show ?thesis unfolding c using True by (auto simp: claimName_def)
    qed
  next
    case False
    then show ?thesis using Cons by (simp add: claims_def)
  qed
qed

lemma claims_simps [simp]:
  "claims nm must [] = []" "claims nm must (xs @ ys) = claims nm must xs @ claims nm must ys"
  "claims nm (\<lambda>_. True) xs = map nm xs"
  by (simp_all add: claims_def)

lemma flow_names_claims: "flow_names fs = claims fc_name (\<lambda>f. fc_name f \<noteq> []) fs"
  by (induction fs) (auto simp: flow_names_def claims_def)

text \<open>The merger after some files.\<close>

definition stands_for :: "configMerger \<Rightarrow> runtime_config list \<Rightarrow> bool" where
  "stands_for m cs \<longleftrightarrow>
     cm_merged m = merged_spec cs \<and> (cm_serviceFile m = None \<longleftrightarrow> services cs = []) \<and>
     dom (cm_connectors m) = set (map cn_Name (all_of rc_Connectors cs)) \<and>
     dom (cm_processors m) = set (map pc_name (all_of rc_Processors cs)) \<and>
     dom (cm_flows m) = set (flow_names (all_of rc_Flows cs)) \<and>
     cm_env m = map ev_Name (rc_Env (cm_merged m)) \<and> cm_envRes m = rc_ResEnv (cm_merged m) \<and>
     cm_tplRes m = map template_key (rc_Templates (cm_merged m))"

lemma new_stands_for: "stands_for newConfigMerger []"
  by (simp add: stands_for_def newConfigMerger_def merged_spec_def no_config_def services_def flow_names_def)

lemma dom_claimed: "dom (\<lambda>n. if n \<in> S then Some p else f n) = S \<union> dom f"
  by (auto simp: dom_def)

lemma flow_names_append [simp]: "flow_names (fs @ gs) = flow_names fs @ flow_names gs"
  by (simp add: flow_names_def)

lemma services_append [simp]: "services (cs @ ds) = services cs @ services ds"
  by (simp add: services_def)

definition claim_all :: "string \<Rightarrow> string list \<Rightarrow> (string \<rightharpoonup> string) \<Rightarrow> string \<rightharpoonup> string" where
  "claim_all p ns seen = (\<lambda>n. if n \<in> set ns then Some p else seen n)"

lemma dom_claim_all [simp]: "dom (claim_all p ns seen) = set ns \<union> dom seen"
  by (auto simp: claim_all_def dom_def)

lemma case_pair_Inr:
  "(case r of Inl e \<Rightarrow> Inl e | Inr (a, b) \<Rightarrow> Inr (h a b)) = Inr y \<longleftrightarrow> (\<exists>a b. r = Inr (a, b) \<and> y = h a b)"
  by (auto split: sum.splits)

lemma add_connectors_Inr:
  "add_connectors p cs m = Inr m' \<longleftrightarrow>
     distinct (map cn_Name cs) \<and> dom (cm_connectors m) \<inter> cn_Name ` set cs = {} \<and>
     m' = m\<lparr>cm_merged := (cm_merged m)\<lparr>rc_Connectors := rc_Connectors (cm_merged m) @ cs\<rparr>,
            cm_connectors := claim_all p (map cn_Name cs) (cm_connectors m)\<rparr>"
  unfolding add_connectors_def
  by (auto simp: case_pair_Inr claim_each_Inr claim_all_def)

lemma add_processors_Inr:
  "add_processors p ps m = Inr m' \<longleftrightarrow>
     distinct (map pc_name ps) \<and> dom (cm_processors m) \<inter> pc_name ` set ps = {} \<and>
     m' = m\<lparr>cm_merged := (cm_merged m)\<lparr>rc_Processors := rc_Processors (cm_merged m) @ ps\<rparr>,
            cm_processors := claim_all p (map pc_name ps) (cm_processors m)\<rparr>"
  unfolding add_processors_def
  by (auto simp: case_pair_Inr claim_each_Inr claim_all_def)

lemma add_flows_Inr:
  "add_flows p fs m = Inr m' \<longleftrightarrow>
     distinct (flow_names fs) \<and> dom (cm_flows m) \<inter> set (flow_names fs) = {} \<and>
     m' = m\<lparr>cm_merged := (cm_merged m)\<lparr>rc_Flows := rc_Flows (cm_merged m) @ fs\<rparr>,
            cm_flows := claim_all p (flow_names fs) (cm_flows m)\<rparr>"
  unfolding add_flows_def flow_names_claims
  by (auto simp: case_pair_Inr claim_each_Inr claim_all_def)

lemma addService_Inr:
  "addService svc p m = Inr m' \<longleftrightarrow>
     (if svc = no_service then m' = m
      else cm_serviceFile m = None \<and>
           m' = m\<lparr>cm_merged := (cm_merged m)\<lparr>rc_Service := svc\<rparr>, cm_serviceFile := Some p\<rparr>)"
  by (auto simp: addService_def split: option.splits)

lemma services_one: "services [c] = (if rc_Service c = no_service then [] else [rc_Service c])"
  by (simp add: services_def)

text \<open>What one file adds, where it can be added.\<close>

definition grown :: "config_file \<Rightarrow> configMerger \<Rightarrow> configMerger" where
  "grown f m =
     (let c = cf_Config f; p = cf_Path f; g = cm_merged m;
          ev = firsts ev_Name (cm_env m) (rc_Env c);
          re = firsts (\<lambda>r. r) (cm_envRes m) (rc_ResEnv c);
          tp = firsts template_key (cm_tplRes m) (rc_Templates c) in
      \<lparr>cm_merged = \<lparr>rc_Service = (if rc_Service c = no_service then rc_Service g else rc_Service c),
          rc_Env = rc_Env g @ ev, rc_ResEnv = rc_ResEnv g @ re, rc_Templates = rc_Templates g @ tp,
          rc_Connectors = rc_Connectors g @ rc_Connectors c,
          rc_Processors = rc_Processors g @ rc_Processors c,
          rc_Flows = rc_Flows g @ rc_Flows c, rc_ResolvedEnv = rc_ResolvedEnv g\<rparr>,
        cm_serviceFile = (if rc_Service c = no_service then cm_serviceFile m else Some p),
        cm_connectors = claim_all p (map cn_Name (rc_Connectors c)) (cm_connectors m),
        cm_processors = claim_all p (map pc_name (rc_Processors c)) (cm_processors m),
        cm_flows = claim_all p (flow_names (rc_Flows c)) (cm_flows m),
        cm_env = cm_env m @ map ev_Name ev, cm_envRes = cm_envRes m @ re,
        cm_tplRes = cm_tplRes m @ map template_key tp\<rparr>)"

definition can_add :: "config_file \<Rightarrow> configMerger \<Rightarrow> bool" where
  "can_add f m \<longleftrightarrow>
     (let c = cf_Config f in
      (rc_Service c = no_service \<or> cm_serviceFile m = None) \<and>
      distinct (map cn_Name (rc_Connectors c)) \<and> dom (cm_connectors m) \<inter> cn_Name ` set (rc_Connectors c) = {} \<and>
      distinct (map pc_name (rc_Processors c)) \<and> dom (cm_processors m) \<inter> pc_name ` set (rc_Processors c) = {} \<and>
      distinct (flow_names (rc_Flows c)) \<and> dom (cm_flows m) \<inter> set (flow_names (rc_Flows c)) = {})"

lemma merger_add_Inr: "merger_add f m = Inr m' \<longleftrightarrow> can_add f m \<and> m' = grown f m"
  by (cases "rc_Service (cf_Config f) = no_service")
    (auto simp: merger_add_def Let_def bind_res_Inr_iff addService_Inr add_connectors_Inr add_processors_Inr
      add_flows_Inr addEnv_def addResources_def keep_first_eq can_add_def grown_def)

lemma grown_stands_for:
  assumes "stands_for m cs" and "can_add f m"
  shows "stands_for (grown f m) (cs @ [cf_Config f])"
  using assms
  by (auto simp: stands_for_def grown_def can_add_def Let_def merged_spec_def services_def firsts_append
      split: list.splits)

lemma can_add_iff:
  assumes "stands_for m cs" and "compatible cs"
  shows "can_add f m \<longleftrightarrow> compatible (cs @ [cf_Config f])"
  using assms
  by (cases "services cs") (auto simp: stands_for_def can_add_def Let_def compatible_def services_one)

lemma compatible_prefix: "compatible (cs @ ds) \<Longrightarrow> compatible cs"
  by (simp add: compatible_def)

lemma merger_adds_Inr:
  assumes "stands_for m cs" and "compatible cs"
  shows "(\<exists>m'. merger_adds files m = Inr m' \<and> cm_merged m' = c) \<longleftrightarrow>
     compatible (cs @ map cf_Config files) \<and> c = merged_spec (cs @ map cf_Config files)"
  using assms
proof (induction files arbitrary: m cs)
  case Nil
  then show ?case by (auto simp: stands_for_def)
next
  case (Cons f files)
  show ?case
  proof (cases "can_add f m")
    case True
    then have a: "merger_add f m = Inr (grown f m)" by (simp add: merger_add_Inr)
    have "stands_for (grown f m) (cs @ [cf_Config f])" using Cons.prems(1) True by (rule grown_stands_for)
    moreover have "compatible (cs @ [cf_Config f])" using can_add_iff [OF Cons.prems] True by simp
    ultimately show ?thesis using Cons.IH [of "grown f m" "cs @ [cf_Config f]"] a by simp
  next
    case False
    then have "merger_add f m \<noteq> Inr m'" for m' by (simp add: merger_add_Inr)
    then obtain e where "merger_add f m = Inl e" by (cases "merger_add f m") auto
    moreover have "\<not> compatible (cs @ [cf_Config f])" using can_add_iff [OF Cons.prems] False by simp
    then have "\<not> compatible (cs @ map cf_Config (f # files))"
      using compatible_prefix [of "cs @ [cf_Config f]" "map cf_Config files"] by auto
    ultimately show ?thesis by simp
  qed
qed

lemma MergeConfigs_Inr:
  "MergeConfigs files = Inr c \<longleftrightarrow>
     compatible (map cf_Config files) \<and> c = merged_spec (map cf_Config files)"
proof -
  have "compatible []" by (simp add: compatible_def services_def flow_names_def)
  moreover have "MergeConfigs files = Inr c \<longleftrightarrow>
      (\<exists>m'. merger_adds files newConfigMerger = Inr m' \<and> cm_merged m' = c)"
    by (auto simp: MergeConfigs_def split: sum.splits)
  ultimately show ?thesis using merger_adds_Inr [OF new_stands_for, of files c] by simp
qed

section \<open>The declarations and their values\<close>

lemma mergeEnvDecls_loop_Inr:
  "mergeEnvDecls_loop decode docs ((vs, va), (rs, ra)) = Inr r \<longleftrightarrow>
   (\<exists>ds. map_res (\<lambda>d. decode (doc_node d)) (filter (\<lambda>d. ykind (doc_node d) \<noteq> ZeroNode) docs) = Inr ds \<and>
      r = \<lparr>ed_Env = va @ firsts ev_Name vs (concat (map ed_Env ds)),
           ed_Resources = ra @ firsts (\<lambda>r. r) rs (concat (map ed_Resources ds))\<rparr>)"
proof (induction docs arbitrary: vs va rs ra)
  case (Cons d docs)
  show ?case
  proof (cases "ykind (doc_node d) = ZeroNode")
    case False
    then show ?thesis
      by (cases "decode (doc_node d)")
        (auto simp: keep_first_eq Cons.IH firsts_append split: sum.splits)
  qed (simp add: Cons.IH)
qed auto

text \<open>The value a declaration resolves to.\<close>

definition env_value :: "(string \<rightharpoonup> string) \<Rightarrow> (string \<rightharpoonup> string) \<Rightarrow> env_var \<Rightarrow> string option" where
  "env_value os dotenv d =
     (case lookupEnv os (ev_Name d) dotenv of Some v \<Rightarrow> Some v | None \<Rightarrow> ev_Default d)"

definition satisfied :: "(string \<rightharpoonup> string) \<Rightarrow> (string \<rightharpoonup> string) \<Rightarrow> env_var \<Rightarrow> bool" where
  "satisfied os dotenv d \<longleftrightarrow>
     ev_Name d \<noteq> [] \<and> (ev_Required d \<longrightarrow> lookupEnv os (ev_Name d) dotenv \<noteq> None)"

lemma resolveEnv_loop_Inr:
  assumes "distinct (map ev_Name ds)"
  shows "resolveEnv_loop os ds dotenv m = Inr r \<longleftrightarrow>
     (\<forall>d \<in> set ds. satisfied os dotenv d) \<and>
     r = (\<lambda>n. case find (\<lambda>d. ev_Name d = n \<and> env_value os dotenv d \<noteq> None) ds of
                None \<Rightarrow> m n | Some d \<Rightarrow> env_value os dotenv d)"
  using assms
proof (induction ds arbitrary: m)
  case (Cons d ds)
  let ?at = "\<lambda>n. find (\<lambda>d. ev_Name d = n \<and> env_value os dotenv d \<noteq> None) ds"
  have none: "?at (ev_Name d) = None"
    using Cons.prems by (simp add: find_None_iff image_iff) metis
  have shift: "(\<lambda>n. case ?at n of None \<Rightarrow> (m(ev_Name d \<mapsto> v)) n | Some d \<Rightarrow> env_value os dotenv d) =
      (\<lambda>n. case if ev_Name d = n then Some d else ?at n of None \<Rightarrow> m n | Some d \<Rightarrow> env_value os dotenv d)"
    if v: "env_value os dotenv d = Some v" for v
  proof (rule ext)
    fix n
    show "(case ?at n of None \<Rightarrow> (m(ev_Name d \<mapsto> v)) n | Some d \<Rightarrow> env_value os dotenv d) =
        (case if ev_Name d = n then Some d else ?at n of None \<Rightarrow> m n | Some d \<Rightarrow> env_value os dotenv d)"
    proof (cases "ev_Name d = n")
      case True
      then have "?at n = None" using none by simp
      then show ?thesis using True v by simp
    next
      case False
      then show ?thesis by (cases "?at n") simp_all
    qed
  qed
  show ?case
  proof (cases "satisfied os dotenv d")
    case False
    then show ?thesis by (auto simp: satisfied_def split: option.splits)
  next
    case True
    show ?thesis
    proof (cases "env_value os dotenv d")
      case None
      then have "resolveEnv_loop os (d # ds) dotenv m = resolveEnv_loop os ds dotenv m"
        using True by (auto simp: env_value_def satisfied_def split: option.splits)
      then show ?thesis using Cons True None by simp
    next
      case (Some v)
      then have step: "resolveEnv_loop os (d # ds) dotenv m = resolveEnv_loop os ds dotenv (m(ev_Name d \<mapsto> v))"
        using True by (auto simp: env_value_def satisfied_def split: option.splits)
      have "distinct (map ev_Name ds)" using Cons.prems by simp
      then show ?thesis unfolding step Cons.IH [OF \<open>distinct (map ev_Name ds)\<close>] shift [OF Some]
        using True Some by (simp del: not_None_eq)
    qed
  qed
qed auto

lemma resolved_value:
  assumes "distinct (map ev_Name ds)" and "resolveEnv os ds dotenv = Inr r" and "d \<in> set ds"
  shows "r (ev_Name d) = env_value os dotenv d" and "satisfied os dotenv d"
proof -
  have r: "r = (\<lambda>n. case find (\<lambda>d. ev_Name d = n \<and> env_value os dotenv d \<noteq> None) ds of
      None \<Rightarrow> None | Some d \<Rightarrow> env_value os dotenv d)" and s: "\<forall>d \<in> set ds. satisfied os dotenv d"
    using assms(1,2) by (auto simp: resolveEnv_def resolveEnv_loop_Inr)
  show "satisfied os dotenv d" using s assms(3) by blast
  have uniq: "e = d" if "e \<in> set ds" "ev_Name e = ev_Name d" for e
    using assms(1,3) that by (auto simp: distinct_map dest: inj_onD)
  show "r (ev_Name d) = env_value os dotenv d"
  proof (cases "find (\<lambda>e. ev_Name e = ev_Name d \<and> env_value os dotenv e \<noteq> None) ds")
    case None
    then have "env_value os dotenv d = None" using assms(3) by (auto simp: find_None_iff)
    then show ?thesis using r None by simp
  next
    case (Some e)
    then have "e = d" by (intro uniq) (auto simp: find_Some_iff)
    then show ?thesis using r Some by simp
  qed
qed

lemma resolved_outside:
  assumes "distinct (map ev_Name ds)" and "resolveEnv os ds dotenv = Inr r" and "n \<notin> ev_Name ` set ds"
  shows "r n = None"
proof -
  have "find (\<lambda>d. ev_Name d = n \<and> env_value os dotenv d \<noteq> None) ds = None"
    using assms(3) by (auto simp: find_None_iff)
  then show ?thesis using assms(1,2) by (simp add: resolveEnv_def resolveEnv_loop_Inr)
qed


section \<open>What substitution reads\<close>

text \<open>The references of a text, and those of the values a document's substitution visits.\<close>

function text_refs :: "string \<Rightarrow> string list" where
  "text_refs [] = []"
| "text_refs (c # s) =
     (case reference_at (c # s) of None \<Rightarrow> text_refs s | Some (name, after) \<Rightarrow> name # text_refs after)"
  by pat_completeness auto
termination
proof (relation "measure length")
  fix c s x name after
  assume "reference_at (c # s) = Some x" "(name, after) = x"
  then show "(after, c # s) \<in> measure length" using reference_at_shorter by (metis in_measure)
qed auto

fun node_refs :: "bool \<Rightarrow> ynode \<Rightarrow> string list"
  and pairs_refs :: "bool \<Rightarrow> ynode list \<Rightarrow> string list"
  and items_refs :: "bool \<Rightarrow> ynode list \<Rightarrow> string list" where
  "node_refs outer (Node k v t st cs) =
     (case k of
        ScalarNode \<Rightarrow> text_refs v
      | MappingNode \<Rightarrow> pairs_refs outer cs
      | DocumentNode \<Rightarrow> items_refs outer cs
      | SequenceNode \<Rightarrow> items_refs False cs
      | _ \<Rightarrow> [])"
| "pairs_refs outer [] = []"
| "pairs_refs outer [x] = []"
| "pairs_refs outer (key # x # rest) =
     (if outer \<and> yvalue key \<in> set literalSections then [] else node_refs False x) @ pairs_refs outer rest"
| "items_refs outer [] = []"
| "items_refs outer (x # rest) = node_refs outer x @ items_refs outer rest"

lemma expand_refs_error: "snd (expand_refs rv s) = None \<longleftrightarrow> (\<forall>n \<in> set (text_refs s). \<exists>v. rv n = Inr v)"
proof (induction s rule: text_refs.induct)
  case (2 c s)
  show ?case
  proof (cases "reference_at (c # s)")
    case None
    then show ?thesis using 2(1) by (cases "expand_refs rv s") simp
  next
    case (Some r)
    obtain name after where r: "r = (name, after)" by fastforce
    obtain out later where e: "expand_refs rv after = (out, later)" by fastforce
    have IH: "snd (expand_refs rv after) = None \<longleftrightarrow> (\<forall>n \<in> set (text_refs after). \<exists>v. rv n = Inr v)"
      using 2(2) Some r by simp
    then show ?thesis using Some r e by (cases "rv name"; cases later) auto
  qed
qed simp

lemma exact_text_refs: "exactPlaceholder s = Some name \<Longrightarrow> text_refs s = [name]"
  by (cases s) (auto simp: exactPlaceholder_def reference_at_def has_prefix_def split: option.splits if_splits)

lemma subst_scalar_ok:
  "(\<exists>m. subst_scalar natural su n = Inr m) \<longleftrightarrow>
   (\<forall>r \<in> set (text_refs (yvalue n)). \<exists>v. resolve_ref su r = Inr v)"
proof (cases "exactPlaceholder (yvalue n)")
  case None
  then show ?thesis using expand_refs_error [of "resolve_ref su" "yvalue n"]
    by (auto simp: subst_scalar_def split: prod.splits option.splits)
next
  case (Some name)
  then show ?thesis using exact_text_refs [OF Some]
    by (auto simp: subst_scalar_def split: sum.splits)
qed

lemma subst_ok:
  "(\<exists>m. subst_node natural su outer n = Inr m) \<longleftrightarrow>
     (\<forall>r \<in> set (node_refs outer n). \<exists>v. resolve_ref su r = Inr v)"
  "(\<exists>ms. subst_pairs natural su outer ns = Inr ms) \<longleftrightarrow>
     (\<forall>r \<in> set (pairs_refs outer ns). \<exists>v. resolve_ref su r = Inr v)"
  "(\<exists>ms. subst_items natural su outer ns = Inr ms) \<longleftrightarrow>
     (\<forall>r \<in> set (items_refs outer ns). \<exists>v. resolve_ref su r = Inr v)"
proof (induction outer n and outer ns and outer ns
    rule: node_refs_pairs_refs_items_refs.induct)
  case (1 outer k v t st cs)
  then show ?case by (cases k) (auto simp: subst_scalar_ok split: sum.splits)
next
  case (4 outer key x rest)
  then show ?case
    by (cases "outer \<and> yvalue key \<in> set literalSections") (auto split: sum.splits)
next
  case (6 outer x rest)
  then show ?case by (auto split: sum.splits)
qed simp_all

lemma resolve_ref_Inr: "(\<exists>v. resolve_ref su r = Inr v) \<longleftrightarrow> r \<in> set (su_declared su) \<and> su_resolved su r \<noteq> None"
  by (auto simp: resolve_ref_def split: option.splits)

section \<open>What loading promises\<close>

text \<open>
  Merging files succeeds exactly when no two connectors, no two processors and no two
  named flows of any of the files share a name and at most one file declares the service.
  The result is then the files' entries in order, with the first declaration of every
  variable, environment resource and template alias kept.
\<close>

theorem merge_configs_exact:
  "MergeConfigs files = Inr c \<longleftrightarrow>
     compatible (map cf_Config files) \<and> c = merged_spec (map cf_Config files)"
  by (rule MergeConfigs_Inr)

text \<open>
  Substituting the references of a document fails exactly when a visited value names a
  variable that is not declared or has no value: keys, aliases and the sections that declare
  the environment are never read.
\<close>

theorem substitution_fails_exactly:
  "(\<exists>m. substituteDocument natural resolved declared n = Inr m) \<longleftrightarrow>
     set (node_refs True n) \<subseteq> set declared \<inter> dom resolved"
  by (auto simp: substituteDocument_def subst_ok resolve_ref_Inr)

lemma mergeEnvDecls_names:
  assumes "mergeEnvDecls decode docs = Inr decls"
  shows "distinct (map ev_Name (ed_Env decls))"
  using assms by (auto simp: mergeEnvDecls_def mergeEnvDecls_loop_Inr distinct_firsts)

text \<open>
  A configuration that loads for a run has every required variable supplied by the
  operating system or an environment file, whatever its default; and the value of each
  declared variable comes from the operating system if it is there, else from the last
  environment resource that names it, else from the environment files, else from its default.
\<close>

theorem variables_resolve_by_precedence:
  assumes "mergeEnvDecls decode docs = Inr decls" and "resolveDeclared w False decls = Inr (r, names)"
    and "d \<in> set (ed_Env decls)"
  shows "\<exists>dot. loadDotEnv w = Inr dot \<and>
    (let supplied = (case os_env w (ev_Name d) of
           Some v \<Rightarrow> Some v
         | None \<Rightarrow> (case loadEnvResources w (ed_Resources decls) Map.empty (ev_Name d) of
             Some v \<Rightarrow> Some v
           | None \<Rightarrow> dot (ev_Name d)))
     in (ev_Required d \<longrightarrow> supplied \<noteq> None) \<and>
        r (ev_Name d) = (case supplied of Some v \<Rightarrow> Some v | None \<Rightarrow> ev_Default d))"
proof -
  let ?res = "loadEnvResources w (ed_Resources decls) Map.empty"
  obtain dot where dot: "loadDotEnv w = Inr dot" "resolveEnv (os_env w) (ed_Env decls) (dot ++ ?res) = Inr r"
    using assms(2) by (auto simp: resolveDeclared_def Let_def split: sum.splits)
  note v = resolved_value [OF mergeEnvDecls_names [OF assms(1)] dot(2) assms(3)]
  then show ?thesis
    unfolding Let_def using dot(1)
    by (auto simp: env_value_def satisfied_def lookupEnv_def map_add_def split: option.splits)
qed

definition sample_env :: environment where
  "sample_env =
     \<lparr>os_env = Map.empty, os_file = (\<lambda>p. if p = ''.env'' then Contents ''PORT=80'' else Missing),
      env_resource = (\<lambda>r. Inl (Err ''missing''))\<rparr>"

definition sample_port :: env_var where
  "sample_port = \<lparr>ev_Name = ''PORT'', ev_Default = Some ''8080'', ev_Required = True\<rparr>"

lemma variables_resolve_by_precedence_witness:
  "\<exists>r. resolveDeclared sample_env False \<lparr>ed_Env = [sample_port], ed_Resources = []\<rparr> = Inr (r, [''PORT''])
     \<and> r ''PORT'' = Some ''80''"
proof -
  let ?d = "\<lparr>ed_Env = [sample_port], ed_Resources = []\<rparr>"
  have m: "mergeEnvDecls (\<lambda>n. Inr ?d) [\<lparr>doc_path = ''a.yaml'', doc_node = Node MappingNode [] [] 0 []\<rparr>] = Inr ?d"
    by (simp add: mergeEnvDecls_def)
  have "scan_lines ''PORT=80'' = [''PORT=80'']" "parse_line 1 (trim_cr ''PORT=80'') = Inr (Some (''PORT'', ''80''))"
    by code_simp+
  then have e: "env_Parse ''PORT=80'' = Inr [''PORT'' \<mapsto> ''80'']"
    by (simp add: env_Parse_def maxScanLine_def)
  have l: "loadDotEnv sample_env = Inr [''PORT'' \<mapsto> ''80'']"
    by (simp add: loadDotEnv_def DotEnvPaths_def sample_env_def e)
  have os: "os_env sample_env = Map.empty" by (simp add: sample_env_def)
  obtain r where r: "resolveDeclared sample_env False ?d = Inr (r, [''PORT''])"
    using l os by (simp add: resolveDeclared_def resolveEnv_def lookupEnv_def sample_port_def)
  have "r ''PORT'' = Some ''80''"
    using variables_resolve_by_precedence [OF m r, of sample_port] l
    by (simp add: sample_port_def os Let_def)
  then show ?thesis using r by blast
qed

lemma standInUnset_step:
  "fst (standInUnset os (d # ds) m) =
   fst (standInUnset os ds
     (if lookupEnv os (ev_Name d) m = None \<and> (ev_Required d \<or> ev_Default d = None)
      then m(ev_Name d \<mapsto> []) else m))"
  by (simp split: prod.splits)

lemma standInUnset_keeps: "n \<in> dom m \<Longrightarrow> n \<in> dom (fst (standInUnset os ds m))"
proof (induction ds arbitrary: m)
  case (Cons d ds)
  then show ?case unfolding standInUnset_step by (simp add: domIff)
qed simp

lemma lookupEnv_dom: "lookupEnv os n dotenv \<noteq> None \<longleftrightarrow> n \<in> dom os \<union> dom dotenv"
  by (auto simp: lookupEnv_def split: option.splits)

lemma standInUnset_supplies:
  "d \<in> set ds \<Longrightarrow> ev_Required d \<Longrightarrow> ev_Name d \<in> dom os \<union> dom (fst (standInUnset os ds m))"
proof (induction ds arbitrary: m)
  case (Cons e ds)
  show ?case
  proof (cases "d = e")
    case True
    show ?thesis
    proof (cases "ev_Name d \<in> dom os")
      case False
      let ?m = "if lookupEnv os (ev_Name d) m = None \<and> (ev_Required d \<or> ev_Default d = None)
        then m(ev_Name d \<mapsto> []) else m"
      have "ev_Name d \<in> dom ?m"
        using Cons.prems(2) False lookupEnv_dom [of os "ev_Name d" m] by auto
      then show ?thesis using standInUnset_keeps True unfolding standInUnset_step by blast
    qed blast
  next
    case False
    then show ?thesis using Cons unfolding standInUnset_step by simp
  qed
qed simp

text \<open>
  Checking a configuration's shape without its secrets never fails for a variable nobody
  supplies: it resolves whenever the environment files read and every declaration is named.
\<close>

theorem shape_check_needs_no_secret:
  assumes "loadDotEnv w = Inr dot" and "mergeEnvDecls decode docs = Inr decls"
    and "\<forall>d \<in> set (ed_Env decls). ev_Name d \<noteq> []"
  shows "\<exists>r. resolveDeclared w True decls = Inr (r, map ev_Name (ed_Env decls))"
proof -
  let ?env = "fst (standInUnset (os_env w) (ed_Env decls) (dot ++ loadEnvResources w (ed_Resources decls) Map.empty))"
  have "\<exists>r. resolveEnv (os_env w) (ed_Env decls) ?env = Inr r"
    unfolding resolveEnv_def resolveEnv_loop_Inr [OF mergeEnvDecls_names [OF assms(2)]]
    using assms(3) standInUnset_supplies by (auto simp: satisfied_def lookupEnv_dom simp del: not_None_eq)
  then show ?thesis using assms(1) by (auto simp: resolveDeclared_def Let_def)
qed

lemma shape_check_needs_no_secret_witness:
  "\<exists>r. resolveDeclared (sample_env\<lparr>os_file := \<lambda>p. Missing\<rparr>) True
     \<lparr>ed_Env = [sample_port], ed_Resources = []\<rparr> = Inr (r, [''PORT''])"
  using shape_check_needs_no_secret [of "sample_env\<lparr>os_file := \<lambda>p. Missing\<rparr>" Map.empty
      "\<lambda>n. Inr \<lparr>ed_Env = [sample_port], ed_Resources = []\<rparr>"
      "[\<lparr>doc_path = ''a.yaml'', doc_node = Node MappingNode [] [] 0 []\<rparr>]"
      "\<lparr>ed_Env = [sample_port], ed_Resources = []\<rparr>"]
  by (simp add: mergeEnvDecls_def loadDotEnv_def DotEnvPaths_def sample_env_def sample_port_def)

end
