(* ===== verification/Octo_Project.thy ===== *)
theory Octo_Project
  imports Octo_Config
begin

text \<open>
  An integration as a folder of files (\<^verbatim>\<open>orchestrator/internal/projectfile\<close>): what
  a file is by its path (\<^verbatim>\<open>classify.go\<close>) and how several configuration files
  fold into one document (\<^verbatim>\<open>merge.go\<close>). The last section relates the document
  to what the runtime makes of the folder itself. Parsing and printing YAML are parameters.
\<close>

section \<open>What a file is\<close>

datatype file_role = RoleConfig | RoleTest | RoleResource

definition Classify :: "string \<Rightarrow> file_role" where
  "Classify p =
     (if CHR ''/'' \<in> set p then RoleResource
      else if \<not> isYAML p then RoleResource
      else if IsTestFile p then RoleTest
      else RoleConfig)"

section \<open>Folding documents\<close>

record project_file =
  pf_Path :: string
  pf_Content :: string

datatype section_kind = KConnectors | KProcessors | KFlows

fun kind_key :: "section_kind \<Rightarrow> string" where
  "kind_key KConnectors = ''connectors''"
| "kind_key KProcessors = ''processors''"
| "kind_key KFlows = ''flows''"

record merger =
  pm_service :: "ynode option"
  pm_serviceFile :: string
  pm_env :: "ynode list"
  pm_envSeen :: "string list"
  pm_resEnv :: "ynode list"
  pm_resSeen :: "string list"
  pm_templates :: "ynode list"
  pm_tplSeen :: "string list"
  pm_entries :: "section_kind \<Rightarrow> ynode list"
  pm_named :: "section_kind \<Rightarrow> (string \<rightharpoonup> string)"
  pm_extra :: "(string \<times> ynode) list"

definition newMerger :: merger where
  "newMerger =
     \<lparr>pm_service = None, pm_serviceFile = [], pm_env = [], pm_envSeen = [], pm_resEnv = [], pm_resSeen = [],
      pm_templates = [], pm_tplSeen = [], pm_entries = (\<lambda>_. []), pm_named = (\<lambda>_. Map.empty), pm_extra = []\<rparr>"

text \<open>A scalar field of a mapping, empty when it is absent.\<close>

fun pairs_field :: "string \<Rightarrow> ynode list \<Rightarrow> string" where
  "pairs_field key (k # v # rest) = (if yvalue k = key then yvalue v else pairs_field key rest)"
| "pairs_field key _ = []"

definition fieldValue :: "ynode \<Rightarrow> string \<Rightarrow> string" where
  "fieldValue n key = (if ykind n \<noteq> MappingNode then [] else pairs_field key (ycontent n))"

text \<open>The identity of an entry: the first of the fields it carries, else its own text.\<close>

fun entry_id :: "string list \<Rightarrow> ynode \<Rightarrow> string" where
  "entry_id [] n = yvalue n"
| "entry_id (k # ks) n = (if fieldValue n k \<noteq> [] then fieldValue n k else entry_id ks n)"

definition appendDeduped ::
  "string list \<Rightarrow> ynode \<Rightarrow> string list \<times> ynode list \<Rightarrow> string list \<times> ynode list" where
  "appendDeduped keys v s =
     (if ykind v \<noteq> SequenceNode then s else keep_first (entry_id keys) (ycontent v) s)"

definition add_env :: "ynode \<Rightarrow> merger \<Rightarrow> merger" where
  "add_env v m =
     (case appendDeduped [''name''] v (pm_envSeen m, pm_env m) of
        (seen, acc) \<Rightarrow> m\<lparr>pm_env := acc, pm_envSeen := seen\<rparr>)"

fun add_resource_pairs :: "ynode list \<Rightarrow> merger \<Rightarrow> merger" where
  "add_resource_pairs (k # v # rest) m =
     add_resource_pairs rest
       (if yvalue k = ''env''
        then (case appendDeduped [] v (pm_resSeen m, pm_resEnv m) of
                (seen, acc) \<Rightarrow> m\<lparr>pm_resEnv := acc, pm_resSeen := seen\<rparr>)
        else if yvalue k = ''templates''
        then (case appendDeduped [''as'', ''resource''] v (pm_tplSeen m, pm_templates m) of
                (seen, acc) \<Rightarrow> m\<lparr>pm_templates := acc, pm_tplSeen := seen\<rparr>)
        else m)"
| "add_resource_pairs _ m = m"

definition merge_resources :: "ynode \<Rightarrow> merger \<Rightarrow> merger" where
  "merge_resources v m = (if ykind v \<noteq> MappingNode then m else add_resource_pairs (ycontent v) m)"

definition errMerge :: "string \<Rightarrow> err" where
  "errMerge detail = Wrap ''config files conflict'' (Err detail)"

fun add_entries :: "string \<Rightarrow> section_kind \<Rightarrow> ynode list \<Rightarrow> merger \<Rightarrow> (err, merger) res" where
  "add_entries p knd [] m = Inr m"
| "add_entries p knd (x # xs) m =
     (let name = fieldValue x ''name'';
          put = (\<lambda>m. m\<lparr>pm_entries := (pm_entries m)(knd := pm_entries m knd @ [x])\<rparr>) in
      if name = [] then add_entries p knd xs (put m)
      else (case pm_named m knd name of
              Some owner \<Rightarrow> Inl (errMerge (trim_suffix (kind_key knd) ''s'' @ '' '' @ quote name @
                 '' is defined in both '' @ owner @ '' and '' @ p))
            | None \<Rightarrow> add_entries p knd xs
                (put (m\<lparr>pm_named := (pm_named m)(knd := (pm_named m knd)(name \<mapsto> p))\<rparr>))))"

definition addNamed :: "string \<Rightarrow> section_kind \<Rightarrow> ynode \<Rightarrow> merger \<Rightarrow> (err, merger) res" where
  "addNamed p knd v m =
     (if ykind v \<noteq> SequenceNode then Inr m else add_entries p knd (ycontent v) m)"

definition addKey :: "string \<Rightarrow> string \<Rightarrow> ynode \<Rightarrow> merger \<Rightarrow> (err, merger) res" where
  "addKey p key v m =
     (if key = ''service'' then
        (case pm_service m of
           Some _ \<Rightarrow> Inl (errMerge (''service identity is declared in '' @ pm_serviceFile m @ '' and '' @ p))
         | None \<Rightarrow> Inr (m\<lparr>pm_service := Some v, pm_serviceFile := p\<rparr>))
      else if key = ''env'' then Inr (add_env v m)
      else if key = ''resources'' then Inr (merge_resources v m)
      else if key = ''connectors'' then addNamed p KConnectors v m
      else if key = ''processors'' then addNamed p KProcessors v m
      else if key = ''flows'' then addNamed p KFlows v m
      else if key \<in> fst ` set (pm_extra m) then Inr m
      else Inr (m\<lparr>pm_extra := pm_extra m @ [(key, v)]\<rparr>))"

fun add_pairs :: "string \<Rightarrow> ynode list \<Rightarrow> merger \<Rightarrow> (err, merger) res" where
  "add_pairs p (k # v # rest) m =
     (case addKey p (yvalue k) v m of Inl e \<Rightarrow> Inl e | Inr m' \<Rightarrow> add_pairs p rest m')"
| "add_pairs p _ m = Inr m"

definition documentRoot ::
  "(string \<Rightarrow> (err, ynode) res) \<Rightarrow> project_file \<Rightarrow> (err, ynode option) res" where
  "documentRoot parse f =
     (case parse (pf_Content f) of
        Inl e \<Rightarrow> Inl (Wrap (''parse '' @ pf_Path f) e)
      | Inr doc \<Rightarrow>
          if ykind doc = ZeroNode \<or> ycontent doc = [] then Inr None
          else let rt = hd (ycontent doc) in
            if ykind rt \<noteq> MappingNode then Inl (errMerge (pf_Path f @ '' is not a config mapping''))
            else Inr (Some rt))"

definition merge_file ::
  "(string \<Rightarrow> (err, ynode) res) \<Rightarrow> project_file \<Rightarrow> merger \<Rightarrow> (err, merger) res" where
  "merge_file parse f m =
     (case documentRoot parse f of
        Inl e \<Rightarrow> Inl e
      | Inr None \<Rightarrow> Inr m
      | Inr (Some rt) \<Rightarrow> add_pairs (pf_Path f) (ycontent rt) m)"

fun merge_files ::
  "(string \<Rightarrow> (err, ynode) res) \<Rightarrow> project_file list \<Rightarrow> merger \<Rightarrow> (err, merger) res" where
  "merge_files parse [] m = Inr m"
| "merge_files parse (f # fs) m =
     (case merge_file parse f m of Inl e \<Rightarrow> Inl e | Inr m' \<Rightarrow> merge_files parse fs m')"

text \<open>The merged document. A section with no entries is left out.\<close>

definition scalar_node :: "string \<Rightarrow> ynode" where
  "scalar_node s = Node ScalarNode s [] 0 []"

definition put_key :: "string \<Rightarrow> ynode option \<Rightarrow> ynode list" where
  "put_key key v = (case v of None \<Rightarrow> [] | Some n \<Rightarrow> [scalar_node key, n])"

definition sequence_node :: "ynode list \<Rightarrow> ynode option" where
  "sequence_node entries = (if entries = [] then None else Some (Node SequenceNode [] [] 0 entries))"

definition resourcesNode :: "merger \<Rightarrow> ynode option" where
  "resourcesNode m =
     (let env = sequence_node (pm_resEnv m); templates = sequence_node (pm_templates m) in
      if env = None \<and> templates = None then None
      else Some (Node MappingNode [] [] 0 (put_key ''env'' env @ put_key ''templates'' templates)))"

definition merged_root :: "merger \<Rightarrow> ynode" where
  "merged_root m =
     Node MappingNode [] [] 0
       (put_key ''service'' (pm_service m) @ put_key ''env'' (sequence_node (pm_env m)) @
        put_key ''resources'' (resourcesNode m) @
        put_key ''connectors'' (sequence_node (pm_entries m KConnectors)) @
        put_key ''processors'' (sequence_node (pm_entries m KProcessors)) @
        put_key ''flows'' (sequence_node (pm_entries m KFlows)) @
        concat (map (\<lambda>(k, v). put_key k (Some v)) (pm_extra m)))"

fun insert_file :: "project_file \<Rightarrow> project_file list \<Rightarrow> project_file list" where
  "insert_file f [] = [f]"
| "insert_file f (x # xs) =
     (if lexordp (\<lambda>a b. (of_char a :: nat) < of_char b) (pf_Path x) (pf_Path f)
      then x # insert_file f xs else f # x # xs)"

definition Merge ::
  "(string \<Rightarrow> (err, ynode) res) \<Rightarrow> (ynode \<Rightarrow> (err, string) res) \<Rightarrow> project_file list \<Rightarrow> (err, string) res" where
  "Merge parse print files =
     (case foldr insert_file files [] of
        [] \<Rightarrow> Inr []
      | [f] \<Rightarrow> Inr (pf_Content f)
      | in_order \<Rightarrow>
          (case merge_files parse in_order newMerger of
             Inl e \<Rightarrow> Inl e
           | Inr m \<Rightarrow> (case print (merged_root m) of
                         Inl e \<Rightarrow> Inl (Wrap ''encode merged config'' e)
                       | Inr out \<Rightarrow> Inr out)))"

section \<open>What the folding gathers\<close>

text \<open>The keyed values of all files, in the order they are met, and the entries under one key.\<close>

type_synonym keyed = "string \<times> ynode"

fun keyed_pairs :: "ynode list \<Rightarrow> keyed list" where
  "keyed_pairs (k # v # rest) = (yvalue k, v) # keyed_pairs rest"
| "keyed_pairs _ = []"

definition entries_of :: "string \<Rightarrow> keyed list \<Rightarrow> ynode list" where
  "entries_of key ts = concat (map (\<lambda>(k, v). if k = key then ycontent v else []) ts)"

definition resource_entries :: "string \<Rightarrow> keyed list \<Rightarrow> ynode list" where
  "resource_entries key ts =
     concat (map (\<lambda>(k, v). if k = ''resources'' then entries_of key (keyed_pairs (ycontent v)) else []) ts)"

lemma entries_of_simps [simp]:
  "entries_of key [] = []" "entries_of key ((k, v) # ts) = (if k = key then ycontent v else []) @ entries_of key ts"
  "entries_of key (ts @ us) = entries_of key ts @ entries_of key us"
  by (simp_all add: entries_of_def)

lemma resource_entries_simps [simp]:
  "resource_entries key [] = []"
  "resource_entries key ((k, v) # ts) =
     (if k = ''resources'' then entries_of key (keyed_pairs (ycontent v)) else []) @ resource_entries key ts"
  "resource_entries key (ts @ us) = resource_entries key ts @ resource_entries key us"
  by (simp_all add: resource_entries_def)

definition section_keys :: "string list" where
  "section_keys = [''service'', ''env'', ''resources'', ''connectors'', ''processors'', ''flows'']"

text \<open>Sections of the shape the merge reads: anything else it drops.\<close>

definition shaped :: "keyed \<Rightarrow> bool" where
  "shaped kv \<longleftrightarrow> (case kv of (k, v) \<Rightarrow>
     k \<noteq> ''<<'' \<and>
     (k \<in> {''env'', ''connectors'', ''processors'', ''flows''} \<longrightarrow> ykind v = SequenceNode) \<and>
     (k = ''resources'' \<longrightarrow> ykind v = MappingNode \<and> even (length (ycontent v)) \<and>
        distinct (map fst (keyed_pairs (ycontent v))) \<and> ''<<'' \<notin> fst ` set (keyed_pairs (ycontent v)) \<and>
        (\<forall>(k, v) \<in> set (keyed_pairs (ycontent v)). k \<in> {''env'', ''templates''} \<longrightarrow> ykind v = SequenceNode)))"

definition raw_names :: "ynode list \<Rightarrow> string list" where
  "raw_names xs = filter (\<lambda>n. n \<noteq> []) (map (\<lambda>x. fieldValue x ''name'') xs)"

lemma raw_names_simps [simp]: "raw_names [] = []" "raw_names (xs @ ys) = raw_names xs @ raw_names ys"
  by (simp_all add: raw_names_def)

definition gathers :: "merger \<Rightarrow> keyed list \<Rightarrow> bool" where
  "gathers m ts \<longleftrightarrow>
     pm_service m = map_of ts ''service'' \<and>
     pm_env m = firsts (entry_id [''name'']) [] (entries_of ''env'' ts) \<and>
     pm_envSeen m = map (entry_id [''name'']) (pm_env m) \<and>
     pm_resEnv m = firsts (entry_id []) [] (resource_entries ''env'' ts) \<and>
     pm_resSeen m = map (entry_id []) (pm_resEnv m) \<and>
     pm_templates m = firsts (entry_id [''as'', ''resource'']) [] (resource_entries ''templates'' ts) \<and>
     pm_tplSeen m = map (entry_id [''as'', ''resource'']) (pm_templates m) \<and>
     (\<forall>knd. pm_entries m knd = entries_of (kind_key knd) ts) \<and>
     (\<forall>knd. dom (pm_named m knd) = set (raw_names (entries_of (kind_key knd) ts))) \<and>
     set (pm_extra m) \<subseteq> {(k, v) \<in> set ts. k \<notin> set section_keys} \<and>
     distinct (map fst (pm_extra m))"

lemma new_gathers: "gathers newMerger []"
  by (simp add: gathers_def newMerger_def)

lemma appendDeduped_seq:
  "ykind v = SequenceNode \<Longrightarrow> appendDeduped keys v (seen, acc) =
     (seen @ map (entry_id keys) (firsts (entry_id keys) seen (ycontent v)),
      acc @ firsts (entry_id keys) seen (ycontent v))"
  by (simp add: appendDeduped_def keep_first_eq)

lemma keep_first_append: "keep_first key (xs @ ys) s = keep_first key ys (keep_first key xs s)"
  by (cases s) (simp add: keep_first_eq firsts_append)

definition set_resources ::
  "string list \<times> ynode list \<Rightarrow> string list \<times> ynode list \<Rightarrow> merger \<Rightarrow> merger" where
  "set_resources e t m =
     m\<lparr>pm_resEnv := snd e, pm_resSeen := fst e, pm_templates := snd t, pm_tplSeen := fst t\<rparr>"

lemma set_resources_get [simp]:
  "pm_resEnv (set_resources e t m) = snd e" "pm_resSeen (set_resources e t m) = fst e"
  "pm_templates (set_resources e t m) = snd t" "pm_tplSeen (set_resources e t m) = fst t"
  by (simp_all add: set_resources_def)

declare entry_id.simps [simp del]

lemma add_resource_pairs_eq:
  assumes "\<forall>(k, v) \<in> set (keyed_pairs ps). k \<in> {''env'', ''templates''} \<longrightarrow> ykind v = SequenceNode"
  shows "add_resource_pairs ps (set_resources e t m) =
     set_resources (keep_first (entry_id []) (entries_of ''env'' (keyed_pairs ps)) e)
       (keep_first (entry_id [''as'', ''resource'']) (entries_of ''templates'' (keyed_pairs ps)) t) m"
  using assms
proof (induction ps arbitrary: e t rule: keyed_pairs.induct)
  case (1 k v rest)
  have rest: "\<forall>(k, v) \<in> set (keyed_pairs rest). k \<in> {''env'', ''templates''} \<longrightarrow> ykind v = SequenceNode"
    using "1.prems" by simp
  consider "yvalue k = ''env''" | "yvalue k = ''templates''" | "yvalue k \<noteq> ''env''" "yvalue k \<noteq> ''templates''"
    by blast
  then show ?case
  proof cases
    case 1
    then have "ykind v = SequenceNode" using "1.prems" by simp
    then have "(case appendDeduped [] v (fst e, snd e) of (seen, acc) \<Rightarrow>
        (set_resources e t m)\<lparr>pm_resEnv := acc, pm_resSeen := seen\<rparr>) =
        set_resources (keep_first (entry_id []) (ycontent v) e) t m"
      by (cases "keep_first (entry_id []) (ycontent v) e") (simp add: appendDeduped_def set_resources_def)
    then show ?thesis using "1.IH" [OF rest] 1 by (simp add: keep_first_append)
  next
    case 2
    then have "ykind v = SequenceNode" using "1.prems" by simp
    then have "(case appendDeduped [''as'', ''resource''] v (fst t, snd t) of (seen, acc) \<Rightarrow>
        (set_resources e t m)\<lparr>pm_templates := acc, pm_tplSeen := seen\<rparr>) =
        set_resources e (keep_first (entry_id [''as'', ''resource'']) (ycontent v) t) m"
      by (cases "keep_first (entry_id [''as'', ''resource'']) (ycontent v) t")
        (simp add: appendDeduped_def set_resources_def)
    then show ?thesis using "1.IH" [OF rest] 2 by (simp add: keep_first_append)
  next
    case 3
    then show ?thesis using "1.IH" [OF rest] by simp
  qed
qed simp_all

definition put_entry :: "section_kind \<Rightarrow> ynode list \<Rightarrow> (string \<rightharpoonup> string) \<Rightarrow> merger \<Rightarrow> merger" where
  "put_entry knd xs named m =
     m\<lparr>pm_entries := (pm_entries m)(knd := pm_entries m knd @ xs), pm_named := (pm_named m)(knd := named)\<rparr>"

lemma put_entry_put [simp]:
  "put_entry knd ys named' (put_entry knd xs named m) = put_entry knd (xs @ ys) named' m"
  by (simp add: put_entry_def)

lemma put_entry_named [simp]: "pm_named (put_entry knd xs named m) knd = named"
  by (simp add: put_entry_def)

lemma add_entries_Cons:
  "add_entries p knd (x # xs) m =
     (let name = fieldValue x ''name'' in
      if name = [] then add_entries p knd xs (put_entry knd [x] (pm_named m knd) m)
      else (case pm_named m knd name of
              Some owner \<Rightarrow> Inl (errMerge (trim_suffix (kind_key knd) ''s'' @ '' '' @ quote name @
                 '' is defined in both '' @ owner @ '' and '' @ p))
            | None \<Rightarrow> add_entries p knd xs (put_entry knd [x] ((pm_named m knd)(name \<mapsto> p)) m)))"
  by (cases m) (simp add: Let_def put_entry_def split: option.split)

lemma add_entries_ok:
  assumes "distinct (raw_names xs)" and "dom (pm_named m knd) \<inter> set (raw_names xs) = {}"
  shows "\<exists>named. add_entries p knd xs m = Inr (put_entry knd xs named m)
     \<and> dom named = dom (pm_named m knd) \<union> set (raw_names xs)"
  using assms
proof (induction xs arbitrary: m)
  case Nil
  then show ?case by (intro exI [of _ "pm_named m knd"]) (simp add: put_entry_def)
next
  case (Cons x xs)
  let ?n = "fieldValue x ''name''"
  show ?case
  proof (cases "?n = []")
    case True
    then show ?thesis
      using Cons.IH [of "put_entry knd [x] (pm_named m knd) m"] Cons.prems
      by (simp add: raw_names_def add_entries_Cons del: add_entries.simps)
  next
    case False
    have "pm_named m knd ?n = None" using Cons.prems(2) False by (auto simp: raw_names_def domIff)
    define N where "N = (pm_named m knd)(?n \<mapsto> p)"
    have dom: "dom N = insert ?n (dom (pm_named m knd))" by (simp add: N_def)
    have raw: "raw_names (x # xs) = ?n # raw_names xs" using False by (simp add: raw_names_def)
    have "distinct (raw_names xs)" "dom (pm_named (put_entry knd [x] N m) knd) \<inter> set (raw_names xs) = {}"
      using Cons.prems dom by (simp_all add: raw)
    from Cons.IH [OF this] obtain named where
      n: "add_entries p knd xs (put_entry knd [x] N m) = Inr (put_entry knd (x # xs) named m)"
      "dom named = dom N \<union> set (raw_names xs)"
      by auto
    have "add_entries p knd (x # xs) m = add_entries p knd xs (put_entry knd [x] N m)"
      using False \<open>pm_named m knd ?n = None\<close>
      by (simp add: add_entries_Cons Let_def N_def del: add_entries.simps)
    then show ?thesis using n dom raw by (intro exI [of _ named]) simp
  qed
qed

lemma set_resources_same:
  "m = set_resources (pm_resSeen m, pm_resEnv m) (pm_tplSeen m, pm_templates m) m"
  by (cases m) (simp add: set_resources_def)

lemma merge_resources_eq:
  assumes "shaped (''resources'', v)"
  shows "merge_resources v m =
     set_resources (keep_first (entry_id []) (entries_of ''env'' (keyed_pairs (ycontent v))) (pm_resSeen m, pm_resEnv m))
       (keep_first (entry_id [''as'', ''resource'']) (entries_of ''templates'' (keyed_pairs (ycontent v)))
          (pm_tplSeen m, pm_templates m)) m"
proof -
  have "ykind v = MappingNode" using assms by (simp add: shaped_def)
  then have "merge_resources v m = add_resource_pairs (ycontent v) m" by (simp add: merge_resources_def)
  also have "\<dots> = add_resource_pairs (ycontent v)
      (set_resources (pm_resSeen m, pm_resEnv m) (pm_tplSeen m, pm_templates m) m)"
    using set_resources_same [of m] by simp
  also have "\<dots> = set_resources (keep_first (entry_id []) (entries_of ''env'' (keyed_pairs (ycontent v))) (pm_resSeen m, pm_resEnv m))
       (keep_first (entry_id [''as'', ''resource'']) (entries_of ''templates'' (keyed_pairs (ycontent v)))
          (pm_tplSeen m, pm_templates m)) m"
    using assms by (intro add_resource_pairs_eq) (simp add: shaped_def)
  finally show ?thesis .
qed

lemma kind_key_inj [simp]: "kind_key a = kind_key b \<longleftrightarrow> a = b"
  by (cases a; cases b) simp_all

lemma kind_key_section [simp]:
  "kind_key knd \<noteq> ''service''" "kind_key knd \<noteq> ''env''" "kind_key knd \<noteq> ''resources''"
  "''service'' \<noteq> kind_key knd" "''env'' \<noteq> kind_key knd" "''resources'' \<noteq> kind_key knd"
  "kind_key knd \<in> set section_keys"
  by (cases knd; simp add: section_keys_def)+

lemma addKey_kind: "addKey p (kind_key knd) v m = addNamed p knd v m"
  by (cases knd) (simp_all add: addKey_def)

lemma addKey_other:
  "k \<notin> set section_keys \<Longrightarrow> addKey p k v m =
     Inr (if k \<in> fst ` set (pm_extra m) then m else m\<lparr>pm_extra := pm_extra m @ [(k, v)]\<rparr>)"
  by (simp add: addKey_def section_keys_def)

lemma section_keys_cases:
  obtains "k = ''service''" | "k = ''env''" | "k = ''resources''" | knd where "k = kind_key knd"
  | "k \<notin> set section_keys"
proof -
  have "k \<in> set section_keys \<Longrightarrow>
      k = ''service'' \<or> k = ''env'' \<or> k = ''resources'' \<or> (\<exists>knd. k = kind_key knd)"
    unfolding section_keys_def by (simp, metis kind_key.simps)
  then show ?thesis using that by blast
qed

lemma entries_of_other:
  "k \<noteq> key \<Longrightarrow> entries_of key (ts @ [(k, v)]) = entries_of key ts"
  "k \<noteq> ''resources'' \<Longrightarrow> resource_entries key (ts @ [(k, v)]) = resource_entries key ts"
  by simp_all

lemma map_of_snoc_other: "k \<noteq> key \<Longrightarrow> ([k \<mapsto> v] ++ map_of ts) key = map_of ts key"
  by (simp add: map_add_def split: option.split)

lemma addKey_gathers:
  assumes g: "gathers m ts" and sh: "shaped (k, v)"
    and svc: "k = ''service'' \<Longrightarrow> ''service'' \<notin> fst ` set ts"
    and names: "\<And>knd. k = kind_key knd \<Longrightarrow> distinct (raw_names (entries_of k ts @ ycontent v))"
  shows "\<exists>m'. addKey p k v m = Inr m' \<and> gathers m' (ts @ [(k, v)])"
proof (cases k rule: section_keys_cases)
  case 1
  have "map_of ts ''service'' = None" using svc 1 by (simp add: map_of_eq_None_iff)
  then show ?thesis using g 1
    by (auto simp: addKey_def gathers_def map_add_def)
next
  case 2
  then have "ykind v = SequenceNode" using sh by (simp add: shaped_def)
  then show ?thesis using g 2
    by (auto simp: addKey_def gathers_def map_of_snoc_other add_env_def appendDeduped_seq firsts_append)
next
  case 3
  then have "addKey p k v m = Inr (merge_resources v m)" by (simp add: addKey_def)
  moreover have "gathers (merge_resources v m) (ts @ [(k, v)])"
    using g sh 3
    by (simp add: merge_resources_eq keep_first_eq gathers_def map_of_snoc_other firsts_append) 
      (auto simp: set_resources_def)
  ultimately show ?thesis by blast
next
  case (4 knd)
  then have "ykind v = SequenceNode" using sh by (cases knd) (simp_all add: shaped_def)
  then have a: "addKey p k v m = add_entries p knd (ycontent v) m"
    using 4 by (simp add: addKey_kind addNamed_def)
  have "distinct (raw_names (ycontent v))" "dom (pm_named m knd) \<inter> set (raw_names (ycontent v)) = {}"
    using names [OF 4] g 4 by (auto simp: gathers_def map_of_snoc_other)
  from add_entries_ok [OF this, of p] obtain named where
    n: "add_entries p knd (ycontent v) m = Inr (put_entry knd (ycontent v) named m)"
    "dom named = dom (pm_named m knd) \<union> set (raw_names (ycontent v))" by blast
  have "gathers (put_entry knd (ycontent v) named m) (ts @ [(k, v)])"
    using g 4 n(2) by (auto simp: gathers_def map_of_snoc_other put_entry_def)
  then show ?thesis using a n(1) by auto
next
  case 5
  then have "k \<noteq> ''service''" "k \<noteq> ''env''" "k \<noteq> ''resources''" "\<And>knd. k \<noteq> kind_key knd"
    using kind_key_section(7) by (auto simp: section_keys_def)
  then show ?thesis using g 5 by (auto simp: addKey_other gathers_def map_of_snoc_other)
qed

definition mergeable :: "keyed list \<Rightarrow> bool" where
  "mergeable ts \<longleftrightarrow>
     list_all shaped ts \<and> length (filter (\<lambda>kv. fst kv = ''service'') ts) \<le> 1 \<and>
     (\<forall>knd. distinct (raw_names (entries_of (kind_key knd) ts)))"

lemma mergeable_prefix: "mergeable (ts @ us) \<Longrightarrow> mergeable ts"
  by (simp add: mergeable_def)

lemma addKey_mergeable:
  assumes "gathers m ts" and "mergeable (ts @ [(k, v)])"
  shows "\<exists>m'. addKey p k v m = Inr m' \<and> gathers m' (ts @ [(k, v)])"
proof (rule addKey_gathers [OF assms(1)])
  show "shaped (k, v)" using assms(2) by (simp add: mergeable_def)
  show "''service'' \<notin> fst ` set ts" if "k = ''service''"
  proof
    assume "''service'' \<in> fst ` set ts"
    then have "filter (\<lambda>kv. fst kv = ''service'') ts \<noteq> []" by (force simp: filter_empty_conv)
    then show False using assms(2) that
      by (cases "filter (\<lambda>kv. fst kv = ''service'') ts") (simp_all add: mergeable_def)
  qed
  show "distinct (raw_names (entries_of k ts @ ycontent v))" if "k = kind_key knd" for knd
  proof -
    have "distinct (raw_names (entries_of (kind_key knd) (ts @ [(k, v)])))"
      using assms(2) by (simp only: mergeable_def)
    then show ?thesis using that by simp
  qed
qed

lemma add_pairs_gathers:
  assumes "gathers m ts" and "mergeable (ts @ keyed_pairs ps)"
  shows "\<exists>m'. add_pairs p ps m = Inr m' \<and> gathers m' (ts @ keyed_pairs ps)"
  using assms
proof (induction ps arbitrary: m ts rule: keyed_pairs.induct)
  case (1 k v rest)
  have "mergeable (ts @ [(yvalue k, v)])"
    using "1.prems"(2) mergeable_prefix [of "ts @ [(yvalue k, v)]" "keyed_pairs rest"] by simp
  from addKey_mergeable [OF "1.prems"(1) this, of p] obtain m1 where
    "addKey p (yvalue k) v m = Inr m1" "gathers m1 (ts @ [(yvalue k, v)])" by blast
  then show ?case using "1.IH" [of m1 "ts @ [(yvalue k, v)]"] "1.prems"(2) by simp
qed simp_all

text \<open>A parsed file: one document with a mapping of distinct keys.\<close>

definition file_pairs :: "ynode \<Rightarrow> keyed list" where
  "file_pairs n = keyed_pairs (ycontent (hd (ycontent n)))"

definition config_document :: "ynode \<Rightarrow> bool" where
  "config_document n \<longleftrightarrow>
     ykind n = DocumentNode \<and> length (ycontent n) = 1 \<and> ykind (hd (ycontent n)) = MappingNode \<and>
     even (length (ycontent (hd (ycontent n)))) \<and> distinct (map fst (file_pairs n))"

lemma merge_files_gathers:
  assumes "list_all2 (\<lambda>f n. parse (pf_Content f) = Inr n \<and> config_document n) fs ns"
    and "gathers m ts" and "mergeable (ts @ concat (map file_pairs ns))"
  shows "\<exists>m'. merge_files parse fs m = Inr m' \<and> gathers m' (ts @ concat (map file_pairs ns))"
  using assms
proof (induction fs ns arbitrary: m ts rule: list_all2_induct)
  case (Cons f fs n ns)
  have "documentRoot parse f = Inr (Some (hd (ycontent n)))"
    using Cons(1) by (cases "ycontent n") (auto simp: documentRoot_def config_document_def)
  then have f: "merge_file parse f m = add_pairs (pf_Path f) (ycontent (hd (ycontent n))) m"
    by (simp add: merge_file_def)
  have "mergeable (ts @ file_pairs n)"
    using Cons.prems(2) mergeable_prefix [of "ts @ file_pairs n" "concat (map file_pairs ns)"] by simp
  from add_pairs_gathers [OF Cons.prems(1), of "ycontent (hd (ycontent n))" "pf_Path f"] this
  obtain m1 where "add_pairs (pf_Path f) (ycontent (hd (ycontent n))) m = Inr m1" "gathers m1 (ts @ file_pairs n)"
    unfolding file_pairs_def by blast
  then show ?case using Cons.IH [of m1 "ts @ file_pairs n"] Cons.prems(2) f by simp
qed simp

section \<open>What the runtime reads of a document\<close>

text \<open>The readers of single entries, as the YAML library types them.\<close>

record readers =
  rd_service :: "ynode \<Rightarrow> (err, service_config) res"
  rd_env :: "ynode \<Rightarrow> (err, env_var) res"
  rd_id :: "ynode \<Rightarrow> (err, string) res"
  rd_template :: "ynode \<Rightarrow> (err, template_resource) res"
  rd_connector :: "ynode \<Rightarrow> (err, connector_decl) res"
  rd_processor :: "ynode \<Rightarrow> (err, processor_config) res"
  rd_flow :: "ynode \<Rightarrow> (err, flow_spec) res"

definition read_list :: "(ynode \<Rightarrow> (err, 'a) res) \<Rightarrow> ynode option \<Rightarrow> (err, 'a list) res" where
  "read_list rd v =
     (case v of
        None \<Rightarrow> Inr []
      | Some n \<Rightarrow> if ykind n = SequenceNode then map_res rd (ycontent n)
                  else Inl (Err ''cannot unmarshal into a list''))"

definition resource_at :: "string \<Rightarrow> keyed list \<Rightarrow> ynode option" where
  "resource_at key ps =
     (case map_of ps ''resources'' of None \<Rightarrow> None | Some v \<Rightarrow> map_of (keyed_pairs (ycontent v)) key)"

text \<open>
  How the library decodes a mapping into the configuration's struct: each known key by its
  reader, missing keys zero, unknown keys ignored.
\<close>

definition reads_as :: "readers \<Rightarrow> keyed list \<Rightarrow> runtime_config \<Rightarrow> bool" where
  "reads_as R ps c \<longleftrightarrow>
     (case map_of ps ''service'' of None \<Rightarrow> rc_Service c = no_service | Some v \<Rightarrow> rd_service R v = Inr (rc_Service c)) \<and>
     read_list (rd_env R) (map_of ps ''env'') = Inr (rc_Env c) \<and>
     read_list (rd_id R) (resource_at ''env'' ps) = Inr (rc_ResEnv c) \<and>
     read_list (rd_template R) (resource_at ''templates'' ps) = Inr (rc_Templates c) \<and>
     read_list (rd_connector R) (map_of ps ''connectors'') = Inr (rc_Connectors c) \<and>
     read_list (rd_processor R) (map_of ps ''processors'') = Inr (rc_Processors c) \<and>
     read_list (rd_flow R) (map_of ps ''flows'') = Inr (rc_Flows c) \<and>
     rc_ResolvedEnv c = Map.empty"

definition decodes ::
  "readers \<Rightarrow> (ynode \<Rightarrow> (err, runtime_config) res) \<Rightarrow> (ynode \<Rightarrow> (err, env_decls) res) \<Rightarrow> bool" where
  "decodes R decode decode_env \<longleftrightarrow>
     (\<forall>n. config_document n \<and> list_all shaped (file_pairs n) \<longrightarrow>
        (\<forall>c. decode n = Inr c \<longleftrightarrow> reads_as R (file_pairs n) c) \<and>
        (\<forall>d. decode_env n = Inr d \<longleftrightarrow>
           read_list (rd_env R) (map_of (file_pairs n) ''env'') = Inr (ed_Env d) \<and>
           read_list (rd_id R) (resource_at ''env'' (file_pairs n)) = Inr (ed_Resources d) \<and>
           (\<exists>ts. read_list (rd_template R) (resource_at ''templates'' (file_pairs n)) = Inr ts)))"

section \<open>Substitution and decoding of one document\<close>

lemma subst_items_map: "subst_items natural su outer xs = map_res (subst_node natural su outer) xs"
  by (induction xs) (simp_all split: sum.splits)

lemma subst_kind: "subst_node natural su outer x = Inr y \<Longrightarrow> ykind y = ykind x"
  by (cases x; cases "ykind x")
    (auto simp: subst_scalar_def split: sum.splits option.splits prod.splits if_splits)

definition subst_pair :: "(string \<Rightarrow> bool) \<Rightarrow> substitutor \<Rightarrow> keyed \<Rightarrow> keyed \<Rightarrow> bool" where
  "subst_pair natural su a b \<longleftrightarrow> fst a = fst b \<and>
     (if fst a \<in> set literalSections then snd b = snd a else subst_node natural su False (snd a) = Inr (snd b))"

lemma subst_pairs_keyed:
  assumes "even (length ps)"
  shows "subst_pairs natural su True ps = Inr qs \<Longrightarrow>
    even (length qs) \<and> list_all2 (subst_pair natural su) (keyed_pairs ps) (keyed_pairs qs)"
  using assms
proof (induction ps arbitrary: qs rule: keyed_pairs.induct)
  case (1 k v rest)
  show ?case
  proof (cases "yvalue k \<in> set literalSections")
    case True
    then obtain rs where "subst_pairs natural su True rest = Inr rs" "qs = k # v # rs"
      using "1.prems"(1) by (auto split: sum.splits)
    then show ?thesis using 1 True by (simp add: subst_pair_def)
  next
    case False
    then obtain y rs where "subst_node natural su False v = Inr y"
        "subst_pairs natural su True rest = Inr rs" "qs = k # y # rs"
      using "1.prems"(1) by (auto split: sum.splits)
    then show ?thesis using 1 False by (simp add: subst_pair_def)
  qed
qed auto

lemma subst_pairs_some:
  assumes "\<forall>(k, v) \<in> set (keyed_pairs ps). k \<notin> set literalSections \<longrightarrow> (\<exists>w. subst_node natural su False v = Inr w)"
  shows "\<exists>qs. subst_pairs natural su True ps = Inr qs"
  using assms by (induction ps rule: keyed_pairs.induct) auto

lemma subst_pair_map_of:
  assumes "list_all2 (subst_pair natural su) ps qs"
  shows "map_of ps key = None \<Longrightarrow> map_of qs key = None"
    and "map_of ps key = Some v \<Longrightarrow> \<exists>w. map_of qs key = Some w \<and>
       (if key \<in> set literalSections then w = v else subst_node natural su False v = Inr w)"
proof -
  have "(map_of ps key = None \<longrightarrow> map_of qs key = None) \<and>
      (\<forall>v. map_of ps key = Some v \<longrightarrow> (\<exists>w. map_of qs key = Some w \<and>
         (if key \<in> set literalSections then w = v else subst_node natural su False v = Inr w)))"
    using assms
  proof (induction rule: list_all2_induct)
    case (Cons a ps b qs)
    then show ?case by (cases a; cases b; cases "fst a = key") (auto simp: subst_pair_def)
  qed simp
  then show "map_of ps key = None \<Longrightarrow> map_of qs key = None"
    and "map_of ps key = Some v \<Longrightarrow> \<exists>w. map_of qs key = Some w \<and>
       (if key \<in> set literalSections then w = v else subst_node natural su False v = Inr w)"
    by blast+
qed

lemma subst_pair_keys: "list_all2 (subst_pair natural su) ps qs \<Longrightarrow> map fst qs = map fst ps"
  by (induction rule: list_all2_induct) (auto simp: subst_pair_def)

lemma subst_pair_shaped:
  "list_all2 (subst_pair natural su) ps qs \<Longrightarrow> list_all shaped qs = list_all shaped ps"
proof (induction rule: list_all2_induct)
  case (Cons a ps b qs)
  have "shaped b = shaped a"
  proof (cases "fst a \<in> set literalSections")
    case True
    then have "a = b" using Cons by (simp add: subst_pair_def prod_eq_iff)
    then show ?thesis by simp
  next
    case False
    then have "ykind (snd b) = ykind (snd a)" "fst a = fst b" "fst a \<noteq> ''resources''"
      using Cons subst_kind by (auto simp: subst_pair_def literalSections_def)
    then show ?thesis by (cases a; cases b) (simp add: shaped_def)
  qed
  then show ?case using Cons by simp
qed simp

lemma config_document_cases:
  assumes "config_document n"
  obtains v t s v' t' s' ps where "n = Node DocumentNode v t s [Node MappingNode v' t' s' ps]"
    "even (length ps)" "file_pairs n = keyed_pairs ps"
proof -
  obtain k v t s cs where n: "n = Node k v t s cs" by (cases n)
  obtain r where "cs = [r]" using assms n by (cases cs) (auto simp: config_document_def)
  moreover obtain k' v' t' s' ps where "r = Node k' v' t' s' ps" by (cases r)
  ultimately show ?thesis using assms n that by (auto simp: config_document_def file_pairs_def)
qed

lemma subst_document:
  assumes "config_document n" and "substituteDocument natural r d n = Inr n'"
  shows "config_document n' \<and>
    list_all2 (subst_pair natural \<lparr>su_resolved = r, su_declared = d\<rparr>) (file_pairs n) (file_pairs n')"
  using assms(1)
proof (rule config_document_cases)
  fix v t s v' t' s' ps
  assume n: "n = Node DocumentNode v t s [Node MappingNode v' t' s' ps]"
    "even (length ps)" "file_pairs n = keyed_pairs ps"
  let ?su = "\<lparr>su_resolved = r, su_declared = d\<rparr>"
  obtain qs where qs: "subst_pairs natural ?su True ps = Inr qs"
      "n' = Node DocumentNode v t s [Node MappingNode v' t' s' qs]"
    using assms(2) n(1) by (auto simp: substituteDocument_def split: sum.splits)
  note k = subst_pairs_keyed [OF n(2) qs(1)]
  have "distinct (map fst (keyed_pairs qs))"
    using assms(1) n subst_pair_keys [OF conjunct2 [OF k]] by (simp add: config_document_def)
  then show ?thesis using k qs(2) n(1) by (simp add: config_document_def file_pairs_def)
qed

lemma subst_document_some:
  assumes "config_document n"
    and "\<forall>(k, v) \<in> set (file_pairs n). k \<notin> set literalSections \<longrightarrow>
      (\<exists>w. subst_node natural \<lparr>su_resolved = r, su_declared = d\<rparr> False v = Inr w)"
  shows "\<exists>n'. substituteDocument natural r d n = Inr n'"
  using assms(1)
proof (rule config_document_cases)
  fix v t s v' t' s' ps
  assume n: "n = Node DocumentNode v t s [Node MappingNode v' t' s' ps]"
    "even (length ps)" "file_pairs n = keyed_pairs ps"
  obtain qs where "subst_pairs natural \<lparr>su_resolved = r, su_declared = d\<rparr> True ps = Inr qs"
    using subst_pairs_some assms(2) n(3) by metis
  then show ?thesis using n(1) by (simp add: substituteDocument_def)
qed

lemma map_res_append:
  "map_res f (xs @ ys) = Inr zs \<longleftrightarrow> (\<exists>us vs. map_res f xs = Inr us \<and> map_res f ys = Inr vs \<and> zs = us @ vs)"
  unfolding map_res_Inr list_all2_append1 by (metis list_all2_lengthD)

text \<open>An entry is substituted, then read.\<close>

definition via :: "(string \<Rightarrow> bool) \<Rightarrow> substitutor \<Rightarrow> (ynode \<Rightarrow> (err, 'a) res) \<Rightarrow> ynode \<Rightarrow> (err, 'a) res" where
  "via natural su rd x = bind_res (subst_node natural su False x) rd"

lemma map_res_via:
  "(\<exists>ys. map_res (subst_node natural su False) xs = Inr ys \<and> map_res rd ys = Inr cs) \<longleftrightarrow>
   map_res (via natural su rd) xs = Inr cs"
proof -
  have "(\<lambda>x c. via natural su rd x = Inr c) =
      (\<lambda>x y. subst_node natural su False x = Inr y) OO (\<lambda>y c. rd y = Inr c)"
    by (auto simp: fun_eq_iff via_def bind_res_Inr_iff)
  then show ?thesis unfolding map_res_Inr by (auto simp: list.rel_compp)
qed

lemma entries_of_distinct:
  "distinct (map fst ps) \<Longrightarrow> entries_of key ps = (case map_of ps key of None \<Rightarrow> [] | Some v \<Rightarrow> ycontent v)"
proof (induction ps)
  case (Cons a ps)
  obtain k v where a: "a = (k, v)" by fastforce
  have "k = key \<Longrightarrow> map_of ps key = None" using Cons.prems a by (simp add: map_of_eq_None_iff)
  then show ?case using Cons a by auto
qed simp

lemma subst_sequence:
  assumes "ykind v = SequenceNode" and "subst_node natural su False v = Inr w"
  shows "map_res (subst_node natural su False) (ycontent v) = Inr (ycontent w)"
  using assms by (cases v) (auto simp: subst_items_map split: sum.splits)

text \<open>What a document holds, in terms of its entries as written.\<close>

definition raw_reads ::
  "(string \<Rightarrow> bool) \<Rightarrow> substitutor \<Rightarrow> readers \<Rightarrow> keyed list \<Rightarrow> runtime_config \<Rightarrow> bool" where
  "raw_reads natural su R ts c \<longleftrightarrow>
     (case map_of ts ''service'' of None \<Rightarrow> rc_Service c = no_service
      | Some v \<Rightarrow> via natural su (rd_service R) v = Inr (rc_Service c)) \<and>
     map_res (rd_env R) (entries_of ''env'' ts) = Inr (rc_Env c) \<and>
     map_res (rd_id R) (resource_entries ''env'' ts) = Inr (rc_ResEnv c) \<and>
     map_res (rd_template R) (resource_entries ''templates'' ts) = Inr (rc_Templates c) \<and>
     map_res (via natural su (rd_connector R)) (entries_of ''connectors'' ts) = Inr (rc_Connectors c) \<and>
     map_res (via natural su (rd_processor R)) (entries_of ''processors'' ts) = Inr (rc_Processors c) \<and>
     map_res (via natural su (rd_flow R)) (entries_of ''flows'' ts) = Inr (rc_Flows c) \<and>
     rc_ResolvedEnv c = Map.empty \<and>
     (\<forall>(k, v) \<in> set ts. k \<notin> set literalSections \<longrightarrow> (\<exists>w. subst_node natural su False v = Inr w))"

lemma read_list_via:
  assumes "list_all2 (subst_pair natural su) ps qs" and "distinct (map fst ps)"
    and "key \<notin> set literalSections" and "\<And>v. map_of ps key = Some v \<Longrightarrow> ykind v = SequenceNode"
  shows "read_list rd (map_of qs key) = Inr cs \<longleftrightarrow> map_res (via natural su rd) (entries_of key ps) = Inr cs"
proof (cases "map_of ps key")
  case None
  then have "map_of qs key = None" using subst_pair_map_of(1) [OF assms(1)] by simp
  then show ?thesis using None assms(2) by (auto simp: read_list_def entries_of_distinct)
next
  case (Some v)
  then obtain w where w: "map_of qs key = Some w" "subst_node natural su False v = Inr w"
    using subst_pair_map_of(2) [OF assms(1)] assms(3) by fastforce
  have k: "ykind v = SequenceNode" by (rule assms(4) [OF Some])
  then have "ykind w = SequenceNode" using subst_kind [OF w(2)] by simp
  then have "read_list rd (map_of qs key) = map_res rd (ycontent w)" using w(1) by (simp add: read_list_def)
  also have "map_res rd (ycontent w) = Inr cs \<longleftrightarrow>
      (\<exists>ys. map_res (subst_node natural su False) (ycontent v) = Inr ys \<and> map_res rd ys = Inr cs)"
    using subst_sequence [OF k w(2)] by simp
  finally show ?thesis using Some assms(2) by (simp add: entries_of_distinct map_res_via)
qed

lemma read_list_plain:
  assumes "distinct (map fst ps)" and "\<And>v. map_of ps key = Some v \<Longrightarrow> ykind v = SequenceNode"
  shows "read_list rd (map_of ps key) = map_res rd (entries_of key ps)"
  using assms by (auto simp: read_list_def entries_of_distinct split: option.splits)

lemma resource_entries_distinct:
  "distinct (map fst ps) \<Longrightarrow> resource_entries key ps =
     (case map_of ps ''resources'' of None \<Rightarrow> [] | Some v \<Rightarrow> entries_of key (keyed_pairs (ycontent v)))"
proof (induction ps)
  case (Cons a ps)
  obtain k v where a: "a = (k, v)" by fastforce
  have "k = ''resources'' \<Longrightarrow> map_of ps ''resources'' = None"
    using Cons.prems a by (simp add: map_of_eq_None_iff)
  then show ?case using Cons a by auto
qed simp

lemma read_list_resource:
  assumes "distinct (map fst ps)" and "list_all shaped ps" and "key \<in> {''env'', ''templates''}"
  shows "read_list rd (resource_at key ps) = map_res rd (resource_entries key ps)"
proof (cases "map_of ps ''resources''")
  case None
  then show ?thesis by (simp add: resource_at_def read_list_def resource_entries_distinct [OF assms(1)])
next
  case (Some v)
  then have "shaped (''resources'', v)" using assms(2) by (auto simp: list_all_iff dest: map_of_SomeD)
  then have d: "distinct (map fst (keyed_pairs (ycontent v)))"
    and s: "\<And>w. map_of (keyed_pairs (ycontent v)) key = Some w \<Longrightarrow> ykind w = SequenceNode"
    using assms(3) by (auto simp: shaped_def dest!: map_of_SomeD)
  show ?thesis using Some read_list_plain [OF d s]
    by (simp add: resource_at_def resource_entries_distinct [OF assms(1)])
qed

lemma shaped_sequence:
  assumes "list_all shaped ps" and "key \<in> {''env'', ''connectors'', ''processors'', ''flows''}"
    and "map_of ps key = Some v"
  shows "ykind v = SequenceNode"
proof -
  have "(key, v) \<in> set ps" using assms(3) by (rule map_of_SomeD)
  then have "shaped (key, v)" using assms(1) by (simp add: list_all_iff)
  then show ?thesis using assms(2) unfolding shaped_def by blast
qed

lemma reads_as_raw:
  assumes l: "list_all2 (subst_pair natural su) ps qs" and d: "distinct (map fst ps)" and s: "list_all shaped ps"
  shows "reads_as R qs c \<longleftrightarrow> raw_reads natural su R ps c"
proof -
  note seq = shaped_sequence [OF s]
  have all: "\<forall>(k, v) \<in> set ps. k \<notin> set literalSections \<longrightarrow> (\<exists>w. subst_node natural su False v = Inr w)"
    using l by (induction rule: list_all2_induct) (auto simp: subst_pair_def)
  have d': "distinct (map fst qs)" "list_all shaped qs"
    using d s subst_pair_keys [OF l] subst_pair_shaped [OF l] by simp_all
  have lit: "map_of qs key = map_of ps key" if "key \<in> set literalSections" for key
    using subst_pair_map_of [OF l, of key] that by (cases "map_of ps key") auto
  have res: "resource_at key qs = resource_at key ps" for key
    using lit [of "''resources''"] by (simp add: resource_at_def literalSections_def)
  have svc: "(case map_of qs ''service'' of None \<Rightarrow> rc_Service c = no_service | Some v \<Rightarrow> rd_service R v = Inr (rc_Service c))
      \<longleftrightarrow> (case map_of ps ''service'' of None \<Rightarrow> rc_Service c = no_service
      | Some v \<Rightarrow> via natural su (rd_service R) v = Inr (rc_Service c))"
  proof (cases "map_of ps ''service''")
    case None
    then show ?thesis using subst_pair_map_of(1) [OF l] by simp
  next
    case (Some v)
    then obtain w where "map_of qs ''service'' = Some w" "subst_node natural su False v = Inr w"
      using subst_pair_map_of(2) [OF l Some] by (auto simp: literalSections_def)
    then show ?thesis using Some by (simp add: via_def)
  qed
  have env: "read_list (rd_env R) (map_of qs ''env'') = map_res (rd_env R) (entries_of ''env'' ps)"
    using lit [of "''env''"] read_list_plain [OF d seq [of "''env''"]] by (simp add: literalSections_def)
  have ids: "read_list (rd_id R) (resource_at ''env'' qs) = map_res (rd_id R) (resource_entries ''env'' ps)"
    unfolding res by (rule read_list_resource [OF d s]) simp
  have tpl: "read_list (rd_template R) (resource_at ''templates'' qs) = map_res (rd_template R) (resource_entries ''templates'' ps)"
    unfolding res by (rule read_list_resource [OF d s]) simp
  have con: "read_list (rd_connector R) (map_of qs ''connectors'') = Inr cs \<longleftrightarrow>
      map_res (via natural su (rd_connector R)) (entries_of ''connectors'' ps) = Inr cs" for cs
    by (rule read_list_via [OF l d]) (use seq [of "''connectors''"] in \<open>simp_all add: literalSections_def\<close>)
  have pro: "read_list (rd_processor R) (map_of qs ''processors'') = Inr cs \<longleftrightarrow>
      map_res (via natural su (rd_processor R)) (entries_of ''processors'' ps) = Inr cs" for cs
    by (rule read_list_via [OF l d]) (use seq [of "''processors''"] in \<open>simp_all add: literalSections_def\<close>)
  have flo: "read_list (rd_flow R) (map_of qs ''flows'') = Inr cs \<longleftrightarrow>
      map_res (via natural su (rd_flow R)) (entries_of ''flows'' ps) = Inr cs" for cs
    by (rule read_list_via [OF l d]) (use seq [of "''flows''"] in \<open>simp_all add: literalSections_def\<close>)
  show ?thesis
    unfolding reads_as_def raw_reads_def svc env ids tpl con pro flo using all by blast
qed

lemma document_reads:
  assumes dec: "decodes R decode decode_env" and n: "config_document n" "list_all shaped (file_pairs n)"
  shows "(\<exists>n'. substituteDocument natural r d n = Inr n' \<and> Decode decode n' = Inr c) \<longleftrightarrow>
     raw_reads natural \<lparr>su_resolved = r, su_declared = d\<rparr> R (file_pairs n) c"
proof -
  have dist: "distinct (map fst (file_pairs n))" using n(1) by (simp add: config_document_def)
  have read: "Decode decode n' = Inr c \<longleftrightarrow> raw_reads natural \<lparr>su_resolved = r, su_declared = d\<rparr> R (file_pairs n) c"
    if "substituteDocument natural r d n = Inr n'" for n'
  proof -
    note s = subst_document [OF n(1) that]
    have "list_all shaped (file_pairs n')" using subst_pair_shaped [OF conjunct2 [OF s]] n(2) by simp
    then have "decode n' = Inr c \<longleftrightarrow> reads_as R (file_pairs n') c"
      using dec s by (simp add: decodes_def)
    moreover have "Decode decode n' = Inr c \<longleftrightarrow> decode n' = Inr c"
      using s by (auto simp: Decode_def config_document_def split: sum.splits)
    ultimately show ?thesis using reads_as_raw [OF conjunct2 [OF s] dist n(2)] by simp
  qed
  show ?thesis
  proof
    assume "\<exists>n'. substituteDocument natural r d n = Inr n' \<and> Decode decode n' = Inr c"
    then show "raw_reads natural \<lparr>su_resolved = r, su_declared = d\<rparr> R (file_pairs n) c" using read by blast
  next
    assume raw: "raw_reads natural \<lparr>su_resolved = r, su_declared = d\<rparr> R (file_pairs n) c"
    then have "\<exists>n'. substituteDocument natural r d n = Inr n'"
      by (intro subst_document_some [OF n(1)]) (simp add: raw_reads_def)
    then show "\<exists>n'. substituteDocument natural r d n = Inr n' \<and> Decode decode n' = Inr c"
      using read raw by blast
  qed
qed

section \<open>The folder and its merge\<close>

text \<open>
  The names, variables, ids and aliases of a folder are plain texts, which the library reads
  as they stand and which hold no reference: the identity the merge compares is then the name
  the runtime compares.
\<close>

definition names_literal :: "(string \<Rightarrow> bool) \<Rightarrow> readers \<Rightarrow> keyed list \<Rightarrow> bool" where
  "names_literal natural R ts \<longleftrightarrow>
     (\<forall>x \<in> set (entries_of ''connectors'' ts). \<forall>su c.
        via natural su (rd_connector R) x = Inr c \<longrightarrow> cn_Name c = fieldValue x ''name'') \<and>
     (\<forall>x \<in> set (entries_of ''processors'' ts). \<forall>su c.
        via natural su (rd_processor R) x = Inr c \<longrightarrow> pc_name c = fieldValue x ''name'') \<and>
     (\<forall>x \<in> set (entries_of ''flows'' ts). \<forall>su c.
        via natural su (rd_flow R) x = Inr c \<longrightarrow> fc_name c = fieldValue x ''name'') \<and>
     (\<forall>x \<in> set (entries_of ''env'' ts). \<forall>c. rd_env R x = Inr c \<longrightarrow> ev_Name c = entry_id [''name''] x) \<and>
     (\<forall>x \<in> set (resource_entries ''env'' ts). \<forall>c. rd_id R x = Inr c \<longrightarrow> c = entry_id [] x) \<and>
     (\<forall>x \<in> set (resource_entries ''templates'' ts). \<forall>c.
        rd_template R x = Inr c \<longrightarrow> template_key c = entry_id [''as'', ''resource''] x)"

abbreviation folder_pairs :: "ynode list \<Rightarrow> keyed list" where
  "folder_pairs ns \<equiv> concat (map file_pairs ns)"

lemma map_res_keys:
  assumes "map_res f xs = Inr ys" and "\<And>x y. x \<in> set xs \<Longrightarrow> f x = Inr y \<Longrightarrow> nm y = key x"
  shows "map nm ys = map key xs"
  using assms
proof (induction xs arbitrary: ys)
  case (Cons x xs)
  then show ?case by (auto split: sum.splits)
qed simp

lemma map_res_firsts:
  assumes "map_res f xs = Inr ys" and "\<And>x y. x \<in> set xs \<Longrightarrow> f x = Inr y \<Longrightarrow> nm y = key x"
  shows "map_res f (firsts key seen xs) = Inr (firsts nm seen ys)"
  using assms
proof (induction xs arbitrary: ys seen)
  case (Cons x xs)
  obtain y zs where y: "f x = Inr y" "map_res f xs = Inr zs" "ys = y # zs"
    using Cons.prems(1) by (auto split: sum.splits)
  then have k: "nm y = key x" using Cons.prems(2) by simp
  have IH: "map_res f (firsts key seen xs) = Inr (firsts nm seen zs)" for seen
    using y(2) Cons.prems(2) by (intro Cons.IH) simp_all
  show ?case using y(1,3) k by (simp add: IH)
qed simp

lemma folder_reads:
  assumes "list_all2 (\<lambda>n c. raw_reads natural su R (file_pairs n) c) ns cs"
  shows "map_res (rd_env R) (entries_of ''env'' (folder_pairs ns)) = Inr (all_of rc_Env cs)"
    and "map_res (rd_id R) (resource_entries ''env'' (folder_pairs ns)) = Inr (all_of rc_ResEnv cs)"
    and "map_res (rd_template R) (resource_entries ''templates'' (folder_pairs ns)) = Inr (all_of rc_Templates cs)"
    and "map_res (via natural su (rd_connector R)) (entries_of ''connectors'' (folder_pairs ns)) = Inr (all_of rc_Connectors cs)"
    and "map_res (via natural su (rd_processor R)) (entries_of ''processors'' (folder_pairs ns)) = Inr (all_of rc_Processors cs)"
    and "map_res (via natural su (rd_flow R)) (entries_of ''flows'' (folder_pairs ns)) = Inr (all_of rc_Flows cs)"
    and "\<forall>(k, v) \<in> set (folder_pairs ns). k \<notin> set literalSections \<longrightarrow> (\<exists>w. subst_node natural su False v = Inr w)"
  using assms
  by (induction rule: list_all2_induct) (auto simp: raw_reads_def map_res_append)

text \<open>At most one file names the service, and it is the only one to declare it.\<close>

definition service_count :: "keyed list \<Rightarrow> nat" where
  "service_count ts = length (filter (\<lambda>kv. fst kv = ''service'') ts)"

lemma service_count_zero: "service_count ts = 0 \<longleftrightarrow> map_of ts ''service'' = None"
  by (induction ts) (auto simp: service_count_def)

lemma service_count_append: "service_count (ts @ us) = service_count ts + service_count us"
  by (simp add: service_count_def)

lemma folder_service:
  assumes "list_all2 (\<lambda>n c. raw_reads natural su R (file_pairs n) c) ns cs"
    and "service_count (folder_pairs ns) \<le> 1"
  shows "(map_of (folder_pairs ns) ''service'' = None \<longrightarrow> services cs = []) \<and>
    (\<forall>v. map_of (folder_pairs ns) ''service'' = Some v \<longrightarrow>
       (\<exists>s. via natural su (rd_service R) v = Inr s \<and> services cs = (if s = no_service then [] else [s])))"
  using assms
proof (induction rule: list_all2_induct)
  case Nil
  then show ?case by (simp add: services_def)
next
  case (Cons n ns c cs)
  have cons: "services (c # cs) = services [c] @ services cs" by (simp add: services_def)
  show ?case
  proof (cases "map_of (file_pairs n) ''service''")
    case None
    then have "services [c] = []" using Cons(1) by (simp add: raw_reads_def services_one)
    then show ?thesis using Cons None unfolding cons
      by (simp add: service_count_append map_add_def)
  next
    case (Some v)
    then have z: "service_count (folder_pairs ns) = 0"
      using Cons.prems service_count_zero [of "file_pairs n"]
      by (simp add: service_count_append)
    then have "services cs = []" using Cons.IH service_count_zero [of "folder_pairs ns"] by simp
    moreover have "map_of (folder_pairs (n # ns)) ''service'' = Some v"
      using Some z by (simp add: map_add_def service_count_zero)
    ultimately show ?thesis using Cons(1) Some unfolding cons
      by (auto simp: raw_reads_def services_one)
  qed
qed

lemma folder_mergeable:
  assumes reads: "list_all2 (\<lambda>n c. raw_reads natural su R (file_pairs n) c) ns cs"
    and comp: "compatible cs" and lit: "names_literal natural R (folder_pairs ns)"
    and sh: "list_all shaped (folder_pairs ns)" and svc: "service_count (folder_pairs ns) \<le> 1"
  shows "mergeable (folder_pairs ns)"
proof -
  let ?ts = "folder_pairs ns"
  have "map cn_Name (all_of rc_Connectors cs) = map (\<lambda>x. fieldValue x ''name'') (entries_of ''connectors'' ?ts)"
    using lit by (intro map_res_keys [OF folder_reads(4) [OF reads]]) (simp add: names_literal_def)
  moreover have "map pc_name (all_of rc_Processors cs) = map (\<lambda>x. fieldValue x ''name'') (entries_of ''processors'' ?ts)"
    using lit by (intro map_res_keys [OF folder_reads(5) [OF reads]]) (simp add: names_literal_def)
  moreover have "map fc_name (all_of rc_Flows cs) = map (\<lambda>x. fieldValue x ''name'') (entries_of ''flows'' ?ts)"
    using lit by (intro map_res_keys [OF folder_reads(6) [OF reads]]) (simp add: names_literal_def)
  ultimately have "distinct (raw_names (entries_of (kind_key knd) ?ts))" for knd
    using comp by (cases knd) (simp_all add: compatible_def raw_names_def flow_names_def distinct_filter)
  then show ?thesis using sh svc by (simp add: mergeable_def service_count_def)
qed

text \<open>The merged document's sections.\<close>

definition opt_pair :: "string \<Rightarrow> ynode option \<Rightarrow> keyed list" where
  "opt_pair key v = (case v of None \<Rightarrow> [] | Some n \<Rightarrow> [(key, n)])"

lemma keyed_put: "keyed_pairs (put_key key v @ rest) = opt_pair key v @ keyed_pairs rest"
  by (cases v) (simp_all add: put_key_def opt_pair_def scalar_node_def)

lemma keyed_extra: "keyed_pairs (concat (map (\<lambda>(k, v). put_key k (Some v)) xs)) = xs"
proof (induction xs)
  case (Cons x xs)
  then show ?case by (cases x) (simp add: keyed_put opt_pair_def)
qed simp

lemma even_put: "even (length (put_key key v @ rest)) = even (length rest)"
  by (cases v) (simp_all add: put_key_def)

lemma even_extra: "even (length (concat (map (\<lambda>(k, v). put_key k (Some v)) xs)))"
  by (induction xs) (auto simp: put_key_def)

definition merged_document :: "merger \<Rightarrow> ynode" where
  "merged_document m = Node DocumentNode [] [] 0 [merged_root m]"

lemma merged_pairs:
  "file_pairs (merged_document m) =
     opt_pair ''service'' (pm_service m) @ opt_pair ''env'' (sequence_node (pm_env m)) @
     opt_pair ''resources'' (resourcesNode m) @
     opt_pair ''connectors'' (sequence_node (pm_entries m KConnectors)) @
     opt_pair ''processors'' (sequence_node (pm_entries m KProcessors)) @
     opt_pair ''flows'' (sequence_node (pm_entries m KFlows)) @ pm_extra m"
  by (simp add: file_pairs_def merged_document_def merged_root_def keyed_put keyed_extra)

lemma entries_of_opt:
  "entries_of key (opt_pair k (sequence_node es)) = (if k = key then es else [])"
  by (simp add: opt_pair_def sequence_node_def)

lemma entries_of_absent: "key \<notin> fst ` set ts \<Longrightarrow> entries_of key ts = []"
  by (induction ts) auto

lemma resource_entries_absent: "''resources'' \<notin> fst ` set ts \<Longrightarrow> resource_entries key ts = []"
  by (induction ts) auto

lemma resource_entries_opt: "k \<noteq> ''resources'' \<Longrightarrow> resource_entries key (opt_pair k v) = []"
  by (simp add: opt_pair_def split: option.split)

lemma entries_of_opt_other: "k \<noteq> key \<Longrightarrow> entries_of key (opt_pair k v) = []"
  by (simp add: opt_pair_def split: option.split)

lemma map_of_opt: "map_of (opt_pair k v @ ts) key = (if k = key \<and> v \<noteq> None then v else map_of ts key)"
  by (auto simp: opt_pair_def split: option.split)

lemma keyed_put_last: "keyed_pairs (put_key key v) = opt_pair key v"
  using keyed_put [of key v "[]"] by simp

lemma resourcesNode_entries:
  "resource_entries key (opt_pair ''resources'' (resourcesNode m)) =
     entries_of key (opt_pair ''env'' (sequence_node (pm_resEnv m)) @
       opt_pair ''templates'' (sequence_node (pm_templates m)))"
proof (cases "pm_resEnv m = [] \<and> pm_templates m = []")
  case True
  then show ?thesis by (simp add: resourcesNode_def sequence_node_def opt_pair_def)
next
  case False
  then show ?thesis
    by (auto simp: resourcesNode_def sequence_node_def opt_pair_def keyed_put keyed_put_last)
qed

lemma extra_keys:
  assumes "gathers m ts" and "key \<in> set section_keys"
  shows "key \<notin> fst ` set (pm_extra m)"
  using assms by (auto simp: gathers_def)

lemma section_key_members:
  "''service'' \<in> set section_keys" "''env'' \<in> set section_keys" "''resources'' \<in> set section_keys"
  "''connectors'' \<in> set section_keys" "''processors'' \<in> set section_keys" "''flows'' \<in> set section_keys"
  by (simp_all add: section_keys_def)

lemma merged_entries:
  assumes "gathers m ts"
  shows "entries_of ''env'' (file_pairs (merged_document m)) = pm_env m"
    and "resource_entries ''env'' (file_pairs (merged_document m)) = pm_resEnv m"
    and "resource_entries ''templates'' (file_pairs (merged_document m)) = pm_templates m"
    and "entries_of ''connectors'' (file_pairs (merged_document m)) = entries_of ''connectors'' ts"
    and "entries_of ''processors'' (file_pairs (merged_document m)) = entries_of ''processors'' ts"
    and "entries_of ''flows'' (file_pairs (merged_document m)) = entries_of ''flows'' ts"
    and "map_of (file_pairs (merged_document m)) ''service'' = map_of ts ''service''"
proof -
  note x = extra_keys [OF assms]
  note absent = entries_of_absent [OF x [OF section_key_members(2)]] entries_of_absent [OF x [OF section_key_members(4)]]
    entries_of_absent [OF x [OF section_key_members(5)]] entries_of_absent [OF x [OF section_key_members(6)]]
    resource_entries_absent [OF x [OF section_key_members(3)]]
  have k: "pm_entries m KConnectors = entries_of ''connectors'' ts" "pm_entries m KProcessors = entries_of ''processors'' ts"
      "pm_entries m KFlows = entries_of ''flows'' ts"
    using assms unfolding gathers_def by (metis kind_key.simps)+
  show "entries_of ''env'' (file_pairs (merged_document m)) = pm_env m"
    "entries_of ''connectors'' (file_pairs (merged_document m)) = entries_of ''connectors'' ts"
    "entries_of ''processors'' (file_pairs (merged_document m)) = entries_of ''processors'' ts"
    "entries_of ''flows'' (file_pairs (merged_document m)) = entries_of ''flows'' ts"
    by (simp_all add: merged_pairs entries_of_opt entries_of_opt_other absent k)
  show "resource_entries ''env'' (file_pairs (merged_document m)) = pm_resEnv m"
    "resource_entries ''templates'' (file_pairs (merged_document m)) = pm_templates m"
    by (simp_all add: merged_pairs resource_entries_opt resourcesNode_entries entries_of_opt absent)
  have s: "pm_service m = map_of ts ''service''" using assms by (simp add: gathers_def)
  have "map_of (pm_extra m) ''service'' = None"
    using x [OF section_key_members(1)] by (simp add: map_of_eq_None_iff)
  then show "map_of (file_pairs (merged_document m)) ''service'' = map_of ts ''service''"
    unfolding merged_pairs map_of_opt s by simp
qed

lemma opt_keys: "fst ` set (opt_pair k v) \<subseteq> {k}" "map fst (opt_pair k v) = (if v = None then [] else [k])"
  by (auto simp: opt_pair_def split: option.split)

lemma merged_config_document:
  assumes "gathers m ts"
  shows "config_document (merged_document m)"
proof -
  have "distinct (map fst (pm_extra m))" using assms by (simp add: gathers_def)
  moreover note extra_keys [OF assms, OF section_key_members(1)] extra_keys [OF assms, OF section_key_members(2)]
    extra_keys [OF assms, OF section_key_members(3)] extra_keys [OF assms, OF section_key_members(4)]
    extra_keys [OF assms, OF section_key_members(5)] extra_keys [OF assms, OF section_key_members(6)]
  ultimately have "distinct (map fst (file_pairs (merged_document m)))"
    unfolding merged_pairs by (simp add: opt_keys)
  moreover have "even (length (ycontent (merged_root m)))"
    by (simp only: merged_root_def ynode.sel even_put even_extra)
  ultimately show ?thesis by (simp add: config_document_def merged_document_def merged_root_def)
qed

lemma shaped_sequence_node: "k \<noteq> ''<<'' \<Longrightarrow> k \<noteq> ''resources'' \<Longrightarrow> list_all shaped (opt_pair k (sequence_node es))"
  by (simp add: opt_pair_def sequence_node_def shaped_def)

lemma shaped_resources_node: "list_all shaped (opt_pair ''resources'' (resourcesNode m))"
proof (cases "resourcesNode m")
  case (Some v)
  then have v: "v = Node MappingNode [] [] 0
      (put_key ''env'' (sequence_node (pm_resEnv m)) @ put_key ''templates'' (sequence_node (pm_templates m)))"
    by (auto simp: resourcesNode_def Let_def split: if_splits)
  have kp: "keyed_pairs (ycontent v) =
      opt_pair ''env'' (sequence_node (pm_resEnv m)) @ opt_pair ''templates'' (sequence_node (pm_templates m))"
    by (simp add: v keyed_put keyed_put_last)
  have "even (length (ycontent v))" by (simp add: v even_put) (simp add: put_key_def split: option.split)
  moreover have "\<forall>(k, w) \<in> set (keyed_pairs (ycontent v)). k \<in> {''env'', ''templates''} \<longrightarrow> ykind w = SequenceNode"
    unfolding kp by (auto simp: opt_pair_def sequence_node_def split: if_splits)
  moreover have "distinct (map fst (keyed_pairs (ycontent v)))" "''<<'' \<notin> fst ` set (keyed_pairs (ycontent v))"
    unfolding kp by (auto simp: opt_pair_def sequence_node_def split: option.splits)
  moreover have "ykind v = MappingNode" by (simp add: v)
  ultimately show ?thesis using Some by (simp add: opt_pair_def shaped_def)
qed (simp add: opt_pair_def)

lemma merged_shaped:
  assumes "gathers m ts" and "list_all shaped ts"
  shows "list_all shaped (file_pairs (merged_document m))"
proof -
  have "list_all shaped (pm_extra m)" using assms by (auto simp: gathers_def list_all_iff)
  moreover have "list_all shaped (opt_pair ''service'' (pm_service m))"
    by (simp add: opt_pair_def shaped_def split: option.split)
  ultimately show ?thesis
    by (simp add: merged_pairs shaped_sequence_node shaped_resources_node)
qed

lemma map_res_via_subst:
  assumes "map_res (via natural su rd) xs = Inr cs"
  shows "\<exists>ys. map_res (subst_node natural su False) xs = Inr ys"
  using assms map_res_via [of natural su xs rd cs] by blast

lemma subst_sequence_node:
  assumes "map_res (via natural su rd) xs = Inr cs" and "(k, v) \<in> set (opt_pair key (sequence_node xs))"
  shows "\<exists>w. subst_node natural su False v = Inr w"
  using assms map_res_via_subst [OF assms(1)]
  by (auto simp: opt_pair_def sequence_node_def subst_items_map split: if_splits)

lemma merged_reads:
  assumes reads: "list_all2 (\<lambda>n c. raw_reads natural su R (file_pairs n) c) ns cs"
    and g: "gathers m (folder_pairs ns)" and lit: "names_literal natural R (folder_pairs ns)"
    and svc: "service_count (folder_pairs ns) \<le> 1"
  shows "raw_reads natural su R (file_pairs (merged_document m)) (merged_spec cs)"
proof -
  let ?ts = "folder_pairs ns"
  note e = merged_entries [OF g] and f = folder_reads [OF reads]
  have env: "map_res (rd_env R) (pm_env m) = Inr (rc_Env (merged_spec cs))"
  proof -
    have "pm_env m = firsts (entry_id [''name'']) [] (entries_of ''env'' ?ts)" using g by (simp add: gathers_def)
    then show ?thesis
      using map_res_firsts [OF f(1), of ev_Name "entry_id [''name'']" "[]"] lit
      by (simp add: merged_spec_def names_literal_def)
  qed
  have ids: "map_res (rd_id R) (pm_resEnv m) = Inr (rc_ResEnv (merged_spec cs))"
  proof -
    have "pm_resEnv m = firsts (entry_id []) [] (resource_entries ''env'' ?ts)" using g by (simp add: gathers_def)
    then show ?thesis
      using map_res_firsts [OF f(2), of "\<lambda>r. r" "entry_id []" "[]"] lit
      by (simp add: merged_spec_def names_literal_def)
  qed
  have tpl: "map_res (rd_template R) (pm_templates m) = Inr (rc_Templates (merged_spec cs))"
  proof -
    have "pm_templates m = firsts (entry_id [''as'', ''resource'']) [] (resource_entries ''templates'' ?ts)"
      using g by (simp add: gathers_def)
    then show ?thesis
      using map_res_firsts [OF f(3), of template_key "entry_id [''as'', ''resource'']" "[]"] lit
      by (simp add: merged_spec_def names_literal_def)
  qed
  note s = folder_service [OF reads svc]
  have service: "case map_of ?ts ''service'' of None \<Rightarrow> rc_Service (merged_spec cs) = no_service
      | Some v \<Rightarrow> via natural su (rd_service R) v = Inr (rc_Service (merged_spec cs))"
  proof (cases "map_of ?ts ''service''")
    case None
    then show ?thesis using s by (simp add: merged_spec_def)
  next
    case (Some v)
    then obtain sv where "via natural su (rd_service R) v = Inr sv"
        "services cs = (if sv = no_service then [] else [sv])" using s by blast
    then show ?thesis using Some by (cases "sv = no_service") (simp_all add: merged_spec_def)
  qed
  have ok: "\<exists>w. subst_node natural su False v = Inr w"
    if kv: "(k, v) \<in> set (file_pairs (merged_document m))" "k \<notin> set literalSections" for k v
  proof -
    have k: "pm_entries m KConnectors = entries_of ''connectors'' ?ts" "pm_entries m KProcessors = entries_of ''processors'' ?ts"
        "pm_entries m KFlows = entries_of ''flows'' ?ts"
      using g unfolding gathers_def by (metis kind_key.simps)+
    have lits: "(k, v) \<notin> set (opt_pair ''env'' x)" "(k, v) \<notin> set (opt_pair ''resources'' x)" for x
      using kv(2) by (auto simp: opt_pair_def literalSections_def split: option.splits)
    have svc_in: "(k, v) \<in> set ?ts" if "(k, v) \<in> set (opt_pair ''service'' (pm_service m))"
    proof -
      have "map_of ?ts ''service'' = Some v" "k = ''service''"
        using that g by (auto simp: opt_pair_def gathers_def split: option.splits)
      then show ?thesis using map_of_SomeD by fastforce
    qed
    have extra_in: "(k, v) \<in> set ?ts" if "(k, v) \<in> set (pm_extra m)"
      using that g by (auto simp: gathers_def)
    from kv(1) consider "(k, v) \<in> set ?ts"
      | "(k, v) \<in> set (opt_pair ''connectors'' (sequence_node (entries_of ''connectors'' ?ts)))"
      | "(k, v) \<in> set (opt_pair ''processors'' (sequence_node (entries_of ''processors'' ?ts)))"
      | "(k, v) \<in> set (opt_pair ''flows'' (sequence_node (entries_of ''flows'' ?ts)))"
      unfolding merged_pairs k using lits svc_in extra_in by auto
    then show ?thesis
    proof cases
      case 1
      then show ?thesis using f(7) kv(2) by auto
    next
      case 2
      then show ?thesis by (rule subst_sequence_node [OF f(4)])
    next
      case 3
      then show ?thesis by (rule subst_sequence_node [OF f(5)])
    next
      case 4
      then show ?thesis by (rule subst_sequence_node [OF f(6)])
    qed
  qed
  show ?thesis
    unfolding raw_reads_def e
    using env ids tpl service f(4-6) ok by (auto simp: merged_spec_def)
qed

lemma merged_spec_idem: "length (services cs) \<le> 1 \<Longrightarrow> merged_spec [merged_spec cs] = merged_spec cs"
  by (cases "services cs")
    (auto simp: merged_spec_def firsts_idem services_one)

lemma merged_spec_compatible:
  assumes "compatible cs"
  shows "compatible [merged_spec cs]"
proof -
  have s: "length (services [merged_spec cs]) \<le> 1" unfolding services_one by simp
  have e: "all_of rc_Connectors [merged_spec cs] = all_of rc_Connectors cs"
    "all_of rc_Processors [merged_spec cs] = all_of rc_Processors cs"
    "all_of rc_Flows [merged_spec cs] = all_of rc_Flows cs"
    by (simp_all add: merged_spec_def)
  show ?thesis using assms s unfolding compatible_def e by blast
qed

lemma MergeConfigs_merged:
  "compatible cs \<Longrightarrow> MergeConfigs [\<lparr>cf_Path = p, cf_Config = merged_spec cs\<rparr>] = Inr (merged_spec cs)"
  using merged_spec_compatible [of cs] merged_spec_idem [of cs]
  by (simp add: MergeConfigs_Inr) (simp add: compatible_def)

definition folder_documents :: "project_file list \<Rightarrow> ynode list \<Rightarrow> document list" where
  "folder_documents fs ns = map2 (\<lambda>f n. \<lparr>doc_path = pf_Path f, doc_node = n\<rparr>) fs ns"

lemma config_file_eq:
  "(\<exists>c. P c \<and> z = \<lparr>cf_Path = p, cf_Config = c\<rparr>) \<longleftrightarrow> cf_Path z = p \<and> P (cf_Config z)"
  by (cases z) auto

lemma load_documents_Inr:
  assumes "decodes R decode decode_env" and "\<forall>d \<in> set docs. config_document (doc_node d)"
    and "\<forall>d \<in> set docs. list_all shaped (file_pairs (doc_node d))"
  shows "load_documents natural decode r ds docs = Inr cfs \<longleftrightarrow>
    list_all2 (\<lambda>d cf. cf_Path cf = doc_path d \<and>
      raw_reads natural \<lparr>su_resolved = r, su_declared = ds\<rparr> R (file_pairs (doc_node d)) (cf_Config cf)) docs cfs"
  using assms(2,3)
proof (induction docs arbitrary: cfs)
  case (Cons d docs)
  let ?reads = "\<lambda>c. raw_reads natural \<lparr>su_resolved = r, su_declared = ds\<rparr> R (file_pairs (doc_node d)) c"
  have dr: "(\<exists>n'. substituteDocument natural r ds (doc_node d) = Inr n' \<and> Decode decode n' = Inr c) \<longleftrightarrow> ?reads c" for c
    using Cons.prems by (intro document_reads [OF assms(1)]) simp_all
  have "load_documents natural decode r ds (d # docs) = Inr cfs \<longleftrightarrow>
      (\<exists>c cs. (\<exists>n'. substituteDocument natural r ds (doc_node d) = Inr n' \<and> Decode decode n' = Inr c) \<and>
        load_documents natural decode r ds docs = Inr cs \<and> cfs = \<lparr>cf_Path = doc_path d, cf_Config = c\<rparr> # cs)"
    by (auto split: sum.splits)
  also have "\<dots> \<longleftrightarrow> (\<exists>z cs. (\<exists>c. ?reads c \<and> z = \<lparr>cf_Path = doc_path d, cf_Config = c\<rparr>) \<and>
      load_documents natural decode r ds docs = Inr cs \<and> cfs = z # cs)"
    unfolding dr by blast
  also have "\<dots> \<longleftrightarrow> (\<exists>z cs. cf_Path z = doc_path d \<and> ?reads (cf_Config z) \<and>
      load_documents natural decode r ds docs = Inr cs \<and> cfs = z # cs)"
    unfolding config_file_eq by blast
  finally show ?case using Cons.IH Cons.prems by (simp add: list_all2_Cons1) blast
qed auto

lemma mergeEnvDecls_folder:
  assumes dec: "decodes R decode decode_env" and n: "\<forall>n \<in> set ns. config_document n \<and> list_all shaped (file_pairs n)"
    and l: "length fs = length ns"
    and reads: "list_all2 (\<lambda>n c. raw_reads natural su R (file_pairs n) c) ns cs"
  shows "mergeEnvDecls decode_env (folder_documents fs ns) =
     Inr \<lparr>ed_Env = rc_Env (merged_spec cs), ed_Resources = rc_ResEnv (merged_spec cs)\<rparr>"
proof -
  define dcl where "dcl c = \<lparr>ed_Env = rc_Env c, ed_Resources = rc_ResEnv c\<rparr>" for c :: runtime_config
  have one: "decode_env n = Inr (dcl c)"
    if "config_document n" "list_all shaped (file_pairs n)" "raw_reads natural su R (file_pairs n) c" for n c
  proof -
    have d: "distinct (map fst (file_pairs n))" using that(1) by (simp add: config_document_def)
    have "read_list (rd_env R) (map_of (file_pairs n) ''env'') = Inr (rc_Env c)"
    proof -
      have "read_list (rd_env R) (map_of (file_pairs n) ''env'') = map_res (rd_env R) (entries_of ''env'' (file_pairs n))"
        by (rule read_list_plain [OF d shaped_sequence [OF that(2), of "''env''"]]) simp_all
      then show ?thesis using that(3) by (simp add: raw_reads_def)
    qed
    moreover have "read_list (rd_id R) (resource_at ''env'' (file_pairs n)) = Inr (rc_ResEnv c)"
      "read_list (rd_template R) (resource_at ''templates'' (file_pairs n)) = Inr (rc_Templates c)"
      using read_list_resource [OF d that(2), of "''env''" "rd_id R"]
        read_list_resource [OF d that(2), of "''templates''" "rd_template R"] that(3)
      by (simp_all add: raw_reads_def)
    ultimately show ?thesis using dec that(1,2) by (simp add: decodes_def dcl_def)
  qed
  have "map_res (\<lambda>d. decode_env (doc_node d)) (folder_documents fs ns) = Inr (map dcl cs)"
    unfolding map_res_Inr using reads n l
    by (auto simp: list_all2_conv_all_nth folder_documents_def intro!: one)
  moreover have "filter (\<lambda>d. ykind (doc_node d) \<noteq> ZeroNode) (folder_documents fs ns) = folder_documents fs ns"
    using n by (auto simp: filter_id_conv folder_documents_def config_document_def set_zip)
  ultimately have "mergeEnvDecls decode_env (folder_documents fs ns) =
      Inr \<lparr>ed_Env = firsts ev_Name [] (concat (map ed_Env (map dcl cs))),
           ed_Resources = firsts (\<lambda>r. r) [] (concat (map ed_Resources (map dcl cs)))\<rparr>"
    by (simp add: mergeEnvDecls_def mergeEnvDecls_loop_Inr)
  moreover have "concat (map ed_Env (map dcl cs)) = all_of rc_Env cs"
    "concat (map ed_Resources (map dcl cs)) = all_of rc_ResEnv cs"
    by (simp_all add: all_of_def dcl_def o_def)
  ultimately show ?thesis by (simp add: merged_spec_def)
qed

text \<open>A folder of files that parse to configuration documents of the expected shape.\<close>

definition tidy_folder ::
  "(string \<Rightarrow> (err, ynode) res) \<Rightarrow> (string \<Rightarrow> bool) \<Rightarrow> readers \<Rightarrow> project_file list \<Rightarrow> ynode list \<Rightarrow> bool" where
  "tidy_folder parse natural R fs ns \<longleftrightarrow>
     list_all2 (\<lambda>f n. parse (pf_Content f) = Inr n \<and> config_document n) fs ns \<and>
     list_all shaped (folder_pairs ns) \<and> names_literal natural R (folder_pairs ns) \<and>
     service_count (folder_pairs ns) \<le> 1"

lemma folder_merge_loads:
  assumes tidy: "tidy_folder parse natural R fs ns" and dec: "decodes R decode decode_env"
    and loads: "resolveDocuments w unset natural decode_env decode (folder_documents fs ns) = Inr c"
  shows "\<exists>m. merge_files parse fs newMerger = Inr m \<and>
    resolveDocuments w unset natural decode_env decode
      [\<lparr>doc_path = [], doc_node = merged_document m\<rparr>] = Inr c"
proof -
  have parses: "list_all2 (\<lambda>f n. parse (pf_Content f) = Inr n \<and> config_document n) fs ns"
    and sh: "list_all shaped (folder_pairs ns)" and lit: "names_literal natural R (folder_pairs ns)"
    and svc: "service_count (folder_pairs ns) \<le> 1"
    using tidy by (simp_all add: tidy_folder_def)
  have len: "length fs = length ns" using parses by (rule list_all2_lengthD)
  have docs: "\<forall>n \<in> set ns. config_document n \<and> list_all shaped (file_pairs n)"
    using parses sh by (auto simp: list_all2_conv_all_nth in_set_conv_nth list_all_iff)
  obtain decls r ds cfs c' where load:
      "mergeEnvDecls decode_env (folder_documents fs ns) = Inr decls" "resolveDeclared w unset decls = Inr (r, ds)"
      "load_documents natural decode r ds (folder_documents fs ns) = Inr cfs"
      "MergeConfigs cfs = Inr c'" "c = c'\<lparr>rc_ResolvedEnv := r\<rparr>"
    using loads by (auto simp: resolveDocuments_def bind_res_Inr_iff)
  let ?su = "\<lparr>su_resolved = r, su_declared = ds\<rparr>"
  define cs where "cs = map cf_Config cfs"
  have "list_all2 (\<lambda>d cf. cf_Path cf = doc_path d \<and> raw_reads natural ?su R (file_pairs (doc_node d)) (cf_Config cf))
      (folder_documents fs ns) cfs"
    using docs load(3) by (subst (asm) load_documents_Inr [OF dec]) (auto simp: folder_documents_def set_zip)
  then have reads: "list_all2 (\<lambda>n c. raw_reads natural ?su R (file_pairs n) c) ns cs"
    using len by (simp add: cs_def list_all2_conv_all_nth folder_documents_def)
  have comp: "compatible cs" and c': "c' = merged_spec cs"
    using load(4) by (simp_all add: MergeConfigs_Inr cs_def)
  have "mergeable (folder_pairs ns)" by (rule folder_mergeable [OF reads comp lit sh svc])
  then obtain m where m: "merge_files parse fs newMerger = Inr m" "gathers m (folder_pairs ns)"
    using merge_files_gathers [OF parses new_gathers] by auto
  let ?md = "merged_document m"
  have md: "config_document ?md" "list_all shaped (file_pairs ?md)"
    using merged_config_document [OF m(2)] merged_shaped [OF m(2) sh] by simp_all
  have raw: "raw_reads natural ?su R (file_pairs ?md) (merged_spec cs)"
    by (rule merged_reads [OF reads m(2) lit svc])
  have decls: "decls = \<lparr>ed_Env = rc_Env (merged_spec cs), ed_Resources = rc_ResEnv (merged_spec cs)\<rparr>"
    using mergeEnvDecls_folder [OF dec docs len reads] load(1) by simp
  have fd: "folder_documents [\<lparr>pf_Path = [], pf_Content = []\<rparr>] [?md] = [\<lparr>doc_path = [], doc_node = ?md\<rparr>]"
    by (simp add: folder_documents_def)
  have idem: "merged_spec [merged_spec cs] = merged_spec cs"
    using comp by (intro merged_spec_idem) (simp add: compatible_def)
  have "mergeEnvDecls decode_env [\<lparr>doc_path = [], doc_node = ?md\<rparr>] = Inr decls"
    using mergeEnvDecls_folder [OF dec, of "[?md]" "[\<lparr>pf_Path = [], pf_Content = []\<rparr>]" natural ?su "[merged_spec cs]"]
      md raw by (simp add: fd decls idem)
  moreover have "load_documents natural decode r ds [\<lparr>doc_path = [], doc_node = ?md\<rparr>] =
      Inr [\<lparr>cf_Path = [], cf_Config = merged_spec cs\<rparr>]"
    using md raw by (subst load_documents_Inr [OF dec]) simp_all
  ultimately have "resolveDocuments w unset natural decode_env decode [\<lparr>doc_path = [], doc_node = ?md\<rparr>] = Inr c"
    using load(2,5) c' MergeConfigs_merged [OF comp]
    by (simp add: resolveDocuments_def)
  then show ?thesis using m(1) by blast
qed

lemma classify_agrees: "Classify p = RoleConfig \<longleftrightarrow> CHR ''/'' \<notin> set p \<and> IsConfigFile p"
  by (simp add: Classify_def IsConfigFile_def)


section \<open>A library that reads as described\<close>

definition read_config :: "readers \<Rightarrow> keyed list \<Rightarrow> (err, runtime_config) res" where
  "read_config R ps =
     bind_res (case map_of ps ''service'' of None \<Rightarrow> Inr no_service | Some v \<Rightarrow> rd_service R v) (\<lambda>s.
     bind_res (read_list (rd_env R) (map_of ps ''env'')) (\<lambda>e.
     bind_res (read_list (rd_id R) (resource_at ''env'' ps)) (\<lambda>i.
     bind_res (read_list (rd_template R) (resource_at ''templates'' ps)) (\<lambda>t.
     bind_res (read_list (rd_connector R) (map_of ps ''connectors'')) (\<lambda>c.
     bind_res (read_list (rd_processor R) (map_of ps ''processors'')) (\<lambda>p.
     bind_res (read_list (rd_flow R) (map_of ps ''flows'')) (\<lambda>f.
       Inr \<lparr>rc_Service = s, rc_Env = e, rc_ResEnv = i, rc_Templates = t, rc_Connectors = c,
            rc_Processors = p, rc_Flows = f, rc_ResolvedEnv = Map.empty\<rparr>)))))))"

definition read_decls :: "readers \<Rightarrow> keyed list \<Rightarrow> (err, env_decls) res" where
  "read_decls R ps =
     bind_res (read_list (rd_env R) (map_of ps ''env'')) (\<lambda>e.
     bind_res (read_list (rd_id R) (resource_at ''env'' ps)) (\<lambda>i.
     bind_res (read_list (rd_template R) (resource_at ''templates'' ps)) (\<lambda>t.
       Inr \<lparr>ed_Env = e, ed_Resources = i\<rparr>)))"

lemma read_config_decodes: "decodes R (\<lambda>n. read_config R (file_pairs n)) (\<lambda>n. read_decls R (file_pairs n))"
proof -
  have "read_config R ps = Inr c \<longleftrightarrow> reads_as R ps c" for ps c
    by (cases c) (auto simp: read_config_def reads_as_def bind_res_Inr_iff split: option.splits)
  moreover have "read_decls R ps = Inr d \<longleftrightarrow>
      read_list (rd_env R) (map_of ps ''env'') = Inr (ed_Env d) \<and>
      read_list (rd_id R) (resource_at ''env'' ps) = Inr (ed_Resources d) \<and>
      (\<exists>ts. read_list (rd_template R) (resource_at ''templates'' ps) = Inr ts)" for ps d
    by (cases d) (auto simp: read_decls_def bind_res_Inr_iff)
  ultimately show ?thesis by (simp add: decodes_def)
qed

definition plain_readers :: readers where
  "plain_readers =
     \<lparr>rd_service = (\<lambda>n. Inr \<lparr>svc_Name = fieldValue n ''name'', svc_Environment = []\<rparr>),
      rd_env = (\<lambda>n. Inl (Err ''unused'')), rd_id = (\<lambda>n. Inr (yvalue n)), rd_template = (\<lambda>n. Inl (Err ''unused'')),
      rd_connector = (\<lambda>n. Inr \<lparr>cn_Name = fieldValue n ''name'', cn_Type = [], cn_Settings = []\<rparr>),
      rd_processor = (\<lambda>n. Inl (Err ''unused'')), rd_flow = (\<lambda>n. Inl (Err ''unused''))\<rparr>"

definition text_node :: "string \<Rightarrow> ynode" where
  "text_node s = Node ScalarNode s ''!!str'' 0 []"

definition connector_file :: "string \<Rightarrow> ynode" where
  "connector_file name = Node DocumentNode [] [] 0 [Node MappingNode [] [] 0
     [text_node ''connectors'', Node SequenceNode [] [] 0
        [Node MappingNode [] [] 0 [text_node ''name'', text_node name]]]]"

definition named_connector :: "string \<Rightarrow> connector_decl" where
  "named_connector name = \<lparr>cn_Name = name, cn_Type = [], cn_Settings = []\<rparr>"

definition two_files :: "project_file list" where
  "two_files = [\<lparr>pf_Path = ''a.yaml'', pf_Content = ''x''\<rparr>, \<lparr>pf_Path = ''b.yaml'', pf_Content = ''y''\<rparr>]"

definition two_connectors :: runtime_config where
  "two_connectors = no_config\<lparr>rc_Connectors := [named_connector ''x'', named_connector ''y'']\<rparr>"

lemma connector_file_pairs:
  "file_pairs (connector_file name) = [(''connectors'', Node SequenceNode [] [] 0
     [Node MappingNode [] [] 0 [text_node ''name'', text_node name]])]"
  by (simp add: file_pairs_def connector_file_def text_node_def)

lemma text_node_simps [simp]: "yvalue (text_node s) = s" "ykind (text_node s) = ScalarNode"
  by (simp_all add: text_node_def)

lemma plain_scalar:
  assumes "c \<noteq> CHR ''$''"
  shows "subst_node natural su outer (text_node [c]) = Inr (text_node [c])"
  using assms
  by (simp add: text_node_def subst_scalar_def reference_at_def has_prefix_def exactPlaceholder_def)

lemma plain_entry:
  assumes "c \<noteq> CHR ''$''"
  shows "subst_node natural su outer (Node MappingNode [] [] 0 [text_node ''name'', text_node [c]]) =
     Inr (Node MappingNode [] [] 0 [text_node ''name'', text_node [c]])"
  using plain_scalar [OF assms] by (simp add: literalSections_def)

lemma plain_name: "fieldValue (Node MappingNode [] [] 0 [text_node ''name'', text_node n]) ''name'' = n"
  by (simp add: fieldValue_def)

lemma connector_document: "config_document (connector_file n)"
  unfolding config_document_def connector_file_pairs by (simp add: connector_file_def)

lemma two_files_tidy:
  "tidy_folder (\<lambda>s. Inr (connector_file s)) natural plain_readers two_files [connector_file ''x'', connector_file ''y'']"
  by (simp add: tidy_folder_def two_files_def connector_document connector_file_pairs names_literal_def
      shaped_def service_count_def via_def plain_readers_def plain_entry plain_name del: subst_node.simps)

lemma connector_file_substituted:
  "c \<noteq> CHR ''$'' \<Longrightarrow> substituteDocument natural r d (connector_file [c]) = Inr (connector_file [c])"
  using plain_entry [of c] by (simp add: substituteDocument_def connector_file_def literalSections_def)

definition empty_env :: environment where
  "empty_env = \<lparr>os_env = Map.empty, os_file = (\<lambda>p. Missing), env_resource = (\<lambda>r. Inl (Err ''missing''))\<rparr>"

lemma two_files_load:
  "resolveDocuments empty_env False (\<lambda>s. False) (\<lambda>n. read_decls plain_readers (file_pairs n))
     (\<lambda>n. read_config plain_readers (file_pairs n))
     (folder_documents two_files [connector_file ''x'', connector_file ''y'']) = Inr two_connectors"
proof -
  let ?d = "folder_documents two_files [connector_file ''x'', connector_file ''y'']"
  have docs: "?d = [\<lparr>doc_path = ''a.yaml'', doc_node = connector_file ''x''\<rparr>,
      \<lparr>doc_path = ''b.yaml'', doc_node = connector_file ''y''\<rparr>]"
    by (simp add: folder_documents_def two_files_def)
  have knd: "ykind (connector_file n) = DocumentNode" for n by (simp add: connector_file_def)
  have cfg: "read_config plain_readers (file_pairs (connector_file n)) =
      Inr (no_config\<lparr>rc_Connectors := [named_connector n]\<rparr>)" for n
    by (simp add: read_config_def connector_file_pairs read_list_def resource_at_def plain_readers_def plain_name
        no_config_def named_connector_def)
  have dcl: "read_decls plain_readers (file_pairs (connector_file n)) = Inr \<lparr>ed_Env = [], ed_Resources = []\<rparr>" for n
    by (simp add: read_decls_def connector_file_pairs read_list_def resource_at_def)
  have "mergeEnvDecls (\<lambda>n. read_decls plain_readers (file_pairs n)) ?d = Inr \<lparr>ed_Env = [], ed_Resources = []\<rparr>"
    by (simp add: docs mergeEnvDecls_def knd dcl)
  moreover have "resolveDeclared empty_env False \<lparr>ed_Env = [], ed_Resources = []\<rparr> = Inr (Map.empty, [])"
    by (simp add: resolveDeclared_def loadDotEnv_def DotEnvPaths_def empty_env_def resolveEnv_def)
  moreover have "load_documents (\<lambda>s. False) (\<lambda>n. read_config plain_readers (file_pairs n)) Map.empty [] ?d =
      Inr [\<lparr>cf_Path = ''a.yaml'', cf_Config = no_config\<lparr>rc_Connectors := [named_connector ''x'']\<rparr>\<rparr>,
           \<lparr>cf_Path = ''b.yaml'', cf_Config = no_config\<lparr>rc_Connectors := [named_connector ''y'']\<rparr>\<rparr>]"
    by (simp add: docs connector_file_substituted Decode_def knd cfg)
  moreover have "MergeConfigs [\<lparr>cf_Path = ''a.yaml'', cf_Config = no_config\<lparr>rc_Connectors := [named_connector ''x'']\<rparr>\<rparr>,
      \<lparr>cf_Path = ''b.yaml'', cf_Config = no_config\<lparr>rc_Connectors := [named_connector ''y'']\<rparr>\<rparr>] = Inr two_connectors"
    by (simp add: MergeConfigs_Inr compatible_def services_def no_config_def named_connector_def
        flow_names_def merged_spec_def two_connectors_def)
  ultimately show ?thesis by (simp add: resolveDocuments_def two_connectors_def no_config_def)
qed


end
