(* ===== verification/Octo_Queues.thy ===== *)
theory Octo_Queues
  imports Octo_Value
begin

text \<open>
  The in-process queues of the standalone services
  (\<^verbatim>\<open>services/standalone/queues.go\<close>; \<^verbatim>\<open>topics.go\<close> is in Octo\_Topics; the options of
  \<^verbatim>\<open>core/queues.go\<close>). A Go channel is a bounded first-in first-out buffer. The
  goroutines of subscribers and the waiting requesters interleave as steps; where a
  \<^verbatim>\<open>select\<close> has several ready cases every choice is a step. Messages are
  values of any type: both sides hold clones.
\<close>

section \<open>Channels\<close>

definition chan_room :: "nat \<Rightarrow> 'a list \<Rightarrow> bool" where
  "chan_room cap c \<longleftrightarrow> length c < cap"

definition chan_send :: "'a \<Rightarrow> 'a list \<Rightarrow> 'a list" where
  "chan_send x c = c @ [x]"

fun chan_recv :: "'a list \<Rightarrow> ('a \<times> 'a list) option" where
  "chan_recv [] = None"
| "chan_recv (x # c) = Some (x, c)"

definition queueBuffer :: nat where "queueBuffer = 1024"
definition topicBuffer :: nat where "topicBuffer = 1024"

text \<open>
  What the users of a bounded channel rely on: a send with room appends, a receive takes the
  oldest, and the content never outgrows the capacity.
\<close>

locale bounded_channel =
  fixes room :: "'c \<Rightarrow> bool" and send :: "'a \<Rightarrow> 'c \<Rightarrow> 'c" and recv :: "'c \<Rightarrow> ('a \<times> 'c) option"
    and content :: "'c \<Rightarrow> 'a list" and capacity :: nat
  assumes room_iff: "room c \<longleftrightarrow> length (content c) < capacity"
    and content_send: "content (send x c) = content c @ [x]"
    and recv_Some: "recv c = Some (x, d) \<Longrightarrow> content c = x # content d"
    and recv_None: "recv c = None \<Longrightarrow> content c = []"
begin

lemma send_within: "room c \<Longrightarrow> length (content (send x c)) \<le> capacity"
  by (simp add: room_iff content_send)

lemma recv_within: "recv c = Some (x, d) \<Longrightarrow> length (content c) \<le> capacity \<Longrightarrow> length (content d) \<le> capacity"
  using recv_Some [of c x d] by simp

text \<open>The ledger of a channel: what was taken and what is left is what was accepted, in order.\<close>

lemma ledger_send: "accepted = taken @ content c \<Longrightarrow> accepted @ [x] = taken @ content (send x c)"
  by (simp add: content_send)

lemma ledger_recv: "recv c = Some (x, d) \<Longrightarrow> accepted = taken @ content c \<Longrightarrow> accepted = (taken @ [x]) @ content d"
  using recv_Some [of c x d] by simp

end

interpretation qchan: bounded_channel "chan_room queueBuffer" chan_send chan_recv "\<lambda>c. c" queueBuffer
proof
  fix c :: "'a list" and x d
  show "chan_recv c = Some (x, d) \<Longrightarrow> c = x # d" by (cases c) simp_all
  show "chan_recv c = None \<Longrightarrow> c = []" by (cases c) simp_all
qed (simp_all add: chan_room_def chan_send_def)

interpretation tchan: bounded_channel "chan_room topicBuffer" chan_send chan_recv "\<lambda>c. c" topicBuffer
proof
  fix c :: "'a list" and x d
  show "chan_recv c = Some (x, d) \<Longrightarrow> c = x # d" by (cases c) simp_all
  show "chan_recv c = None \<Longrightarrow> c = []" by (cases c) simp_all
qed (simp_all add: chan_room_def chan_send_def)

section \<open>Options\<close>

definition DefaultListeners :: int where "DefaultListeners = 8"

definition DefaultRequestTimeout :: int where "DefaultRequestTimeout = 30000000000"

text \<open>The last option wins; a value that is not positive falls back to the default.\<close>

definition NewSubscribeConfig :: "int list \<Rightarrow> int" where
  "NewSubscribeConfig opts =
     (let n = (if opts = [] then DefaultListeners else last opts) in if n \<le> 0 then DefaultListeners else n)"

definition NewRequestConfig :: "int list \<Rightarrow> int" where
  "NewRequestConfig opts =
     (let d = (if opts = [] then DefaultRequestTimeout else last opts) in if d \<le> 0 then DefaultRequestTimeout else d)"

section \<open>Queues\<close>

record 'm envelope =
  env_msg :: 'm
  env_reply :: "nat option"

datatype queue_error = ErrQueueFull | ErrNoResponder | ErrCancelled string

text \<open>
  A goroutine of a subscription: its subject and the envelope it is handling. A subscription
  that was closed has its context cancelled. The reply channel of a request holds at most one
  message. The last fields record what happened: what each subject accepted, what was taken
  from it and by whom, and what each request was and was answered.
\<close>

record 'm consumer =
  c_subscription :: nat
  c_subject :: string
  c_hand :: "'m envelope option"

record 'm queues =
  q_subjects :: "string \<rightharpoonup> 'm envelope list"
  q_consumers :: "nat \<rightharpoonup> 'm consumer"
  q_cancelled :: "nat \<Rightarrow> bool"
  q_replies :: "nat \<rightharpoonup> 'm list"
  q_waiting :: "nat \<rightharpoonup> string"
  q_fresh :: nat
  q_accepted :: "string \<Rightarrow> 'm envelope list"
  q_taken :: "string \<Rightarrow> (nat \<times> 'm envelope) list"
  q_asked :: "nat \<rightharpoonup> 'm"

definition newQueues :: "'m queues" where
  "newQueues =
     \<lparr>q_subjects = Map.empty, q_consumers = Map.empty, q_cancelled = (\<lambda>_. False), q_replies = Map.empty,
      q_waiting = Map.empty, q_fresh = 0, q_accepted = (\<lambda>_. []), q_taken = (\<lambda>_. []), q_asked = Map.empty\<rparr>"

definition queue_of :: "'m queues \<Rightarrow> string \<Rightarrow> 'm envelope list" where
  "queue_of q subject = (case q_subjects q subject of Some c \<Rightarrow> c | None \<Rightarrow> [])"

text \<open>The channel of a subject is made on first use.\<close>

definition q_channel :: "string \<Rightarrow> 'm queues \<Rightarrow> 'm queues" where
  "q_channel subject q =
     (case q_subjects q subject of
        Some c \<Rightarrow> q
      | None \<Rightarrow> q\<lparr>q_subjects := (q_subjects q)(subject \<mapsto> [])\<rparr>)"

definition q_put :: "string \<Rightarrow> 'm envelope \<Rightarrow> 'm queues \<Rightarrow> 'm queues" where
  "q_put subject env q =
     q\<lparr>q_subjects := (q_subjects q)(subject \<mapsto> chan_send env (queue_of q subject)),
       q_accepted := (q_accepted q)(subject := q_accepted q subject @ [env])\<rparr>"

text \<open>
  \<open>ctxDone\<close> says whether the caller's context is over, \<open>pickDone\<close> which case
  the runtime picks when both the send and the context are ready.
\<close>

definition enqueue ::
  "bool \<Rightarrow> bool \<Rightarrow> string \<Rightarrow> 'm envelope \<Rightarrow> 'm queues \<Rightarrow> queue_error option \<times> 'm queues" where
  "enqueue ctxDone pickDone subject env q0 =
     (let q = q_channel subject q0; room = chan_room queueBuffer (queue_of q subject) in
      if room \<and> \<not> (ctxDone \<and> pickDone) then (None, q_put subject env q)
      else if ctxDone then (Some (ErrCancelled subject), q)
      else (Some ErrQueueFull, q))"

definition Publish :: "bool \<Rightarrow> bool \<Rightarrow> string \<Rightarrow> 'm \<Rightarrow> 'm queues \<Rightarrow> queue_error option \<times> 'm queues" where
  "Publish ctxDone pickDone subject msg q =
     enqueue ctxDone pickDone subject \<lparr>env_msg = msg, env_reply = None\<rparr> q"

text \<open>A request up to its wait: a reply channel of capacity one, then the message with it.\<close>

definition Request_send ::
  "bool \<Rightarrow> bool \<Rightarrow> string \<Rightarrow> 'm \<Rightarrow> 'm queues \<Rightarrow> (queue_error, nat) res \<times> 'm queues" where
  "Request_send ctxDone pickDone subject msg q =
     (let r = q_fresh q;
          q1 = q\<lparr>q_fresh := Suc r, q_replies := (q_replies q)(r \<mapsto> [])\<rparr> in
      (case enqueue ctxDone pickDone subject \<lparr>env_msg = msg, env_reply = Some r\<rparr> q1 of
         (Some e, q2) \<Rightarrow> (Inl e, q2)
       | (None, q2) \<Rightarrow>
           (Inr r, q2\<lparr>q_waiting := (q_waiting q2)(r \<mapsto> subject), q_asked := (q_asked q2)(r \<mapsto> msg)\<rparr>)))"

text \<open>The end of the wait, by the reply or by the deadline.\<close>

definition Request_receive :: "nat \<Rightarrow> 'm queues \<Rightarrow> ('m \<times> 'm queues) option" where
  "Request_receive r q =
     (case q_replies q r of
        Some (m # rest) \<Rightarrow>
          Some (m, q\<lparr>q_replies := (q_replies q)(r \<mapsto> rest), q_waiting := (q_waiting q)(r := None)\<rparr>)
      | _ \<Rightarrow> None)"

definition Request_expire :: "nat \<Rightarrow> 'm queues \<Rightarrow> queue_error \<times> 'm queues" where
  "Request_expire r q = (ErrNoResponder, q\<lparr>q_waiting := (q_waiting q)(r := None)\<rparr>)"

text \<open>A subscription starts its listeners on the subject's channel.\<close>

fun add_consumers :: "nat \<Rightarrow> string \<Rightarrow> nat \<Rightarrow> nat \<Rightarrow> (nat \<rightharpoonup> 'm consumer) \<Rightarrow> (nat \<rightharpoonup> 'm consumer)" where
  "add_consumers sub subject g 0 cs = cs"
| "add_consumers sub subject g (Suc n) cs =
     add_consumers sub subject (Suc g) n
       (cs(g \<mapsto> \<lparr>c_subscription = sub, c_subject = subject, c_hand = None\<rparr>))"

definition q_Subscribe :: "string \<Rightarrow> int list \<Rightarrow> 'm queues \<Rightarrow> nat \<times> 'm queues" where
  "q_Subscribe subject opts q0 =
     (let q = q_channel subject q0; sub = q_fresh q; n = nat (NewSubscribeConfig opts) in
      (sub, q\<lparr>q_fresh := sub + 1 + n, q_cancelled := (q_cancelled q)(sub := False),
              q_consumers := add_consumers sub subject (Suc sub) n (q_consumers q)\<rparr>))"

text \<open>One turn of a consumer that is not handling a message: it takes the next one, or leaves.\<close>

definition consume_take :: "nat \<Rightarrow> 'm queues \<Rightarrow> 'm queues option" where
  "consume_take g q =
     (case q_consumers q g of
        None \<Rightarrow> None
      | Some c \<Rightarrow>
          if c_hand c \<noteq> None then None
          else (case chan_recv (queue_of q (c_subject c)) of
                  None \<Rightarrow> None
                | Some (env, rest) \<Rightarrow>
                    Some (q\<lparr>q_subjects := (q_subjects q)(c_subject c \<mapsto> rest),
                            q_consumers := (q_consumers q)(g \<mapsto> c\<lparr>c_hand := Some env\<rparr>),
                            q_taken := (q_taken q)(c_subject c := q_taken q (c_subject c) @ [(g, env)])\<rparr>)))"

definition consume_exit :: "nat \<Rightarrow> 'm queues \<Rightarrow> 'm queues option" where
  "consume_exit g q =
     (case q_consumers q g of
        None \<Rightarrow> None
      | Some c \<Rightarrow>
          if c_hand c = None \<and> q_cancelled q (c_subscription c)
          then Some (q\<lparr>q_consumers := (q_consumers q)(g := None)\<rparr>) else None)"

text \<open>The handler returns: a reply goes down the request's channel if that has room.\<close>

definition consume_finish :: "nat \<Rightarrow> (err, 'm) res \<Rightarrow> 'm queues \<Rightarrow> 'm queues option" where
  "consume_finish g out q =
     (case q_consumers q g of
        None \<Rightarrow> None
      | Some c \<Rightarrow>
          (case c_hand c of
             None \<Rightarrow> None
           | Some env \<Rightarrow>
               let q1 = q\<lparr>q_consumers := (q_consumers q)(g \<mapsto> c\<lparr>c_hand := None\<rparr>)\<rparr> in
               (case (env_reply env, out) of
                  (Some r, Inr reply) \<Rightarrow>
                    (case q_replies q r of
                       Some ch \<Rightarrow> Some (if chan_room 1 ch then q1\<lparr>q_replies := (q_replies q1)(r \<mapsto> chan_send reply ch)\<rparr> else q1)
                     | None \<Rightarrow> Some q1)
                | _ \<Rightarrow> Some q1)))"

text \<open>Closing cancels the context; it returns once no goroutine of the subscription is left.\<close>

definition Close_cancel :: "nat \<Rightarrow> 'm queues \<Rightarrow> 'm queues" where
  "Close_cancel sub q = q\<lparr>q_cancelled := (q_cancelled q)(sub := True)\<rparr>"

definition Close_returns :: "nat \<Rightarrow> 'm queues \<Rightarrow> bool" where
  "Close_returns sub q \<longleftrightarrow> q_cancelled q sub \<and> (\<forall>g c. q_consumers q g = Some c \<longrightarrow> c_subscription c \<noteq> sub)"

text \<open>The interleavings. The handler of the consumers is a parameter.\<close>

inductive q_step :: "('m \<Rightarrow> (err, 'm) res \<Rightarrow> bool) \<Rightarrow> 'm queues \<Rightarrow> 'm queues \<Rightarrow> bool"
  for handler :: "'m \<Rightarrow> (err, 'm) res \<Rightarrow> bool" where
  publish: "q_step handler q (snd (Publish done pick subject msg q))"
| request: "q_step handler q (snd (Request_send done pick subject msg q))"
| receive: "q_waiting q r \<noteq> None \<Longrightarrow> Request_receive r q = Some (m, q') \<Longrightarrow> q_step handler q q'"
| expire: "q_waiting q r \<noteq> None \<Longrightarrow> q_step handler q (snd (Request_expire r q))"
| subscribe: "q_step handler q (snd (q_Subscribe subject opts q))"
| take: "consume_take g q = Some q' \<Longrightarrow> q_step handler q q'"
| finish: "q_consumers q g = Some c \<Longrightarrow> c_hand c = Some env \<Longrightarrow> handler (env_msg env) out \<Longrightarrow>
    consume_finish g out q = Some q' \<Longrightarrow> q_step handler q q'"
| exit: "consume_exit g q = Some q' \<Longrightarrow> q_step handler q q'"
| close: "q_step handler q (Close_cancel sub q)"

inductive q_reachable :: "('m \<Rightarrow> (err, 'm) res \<Rightarrow> bool) \<Rightarrow> 'm queues \<Rightarrow> bool"
  for handler :: "'m \<Rightarrow> (err, 'm) res \<Rightarrow> bool" where
  start: "q_reachable handler newQueues"
| after: "q_reachable handler q \<Longrightarrow> q_step handler q q' \<Longrightarrow> q_reachable handler q'"

inductive_cases q_stepE: "q_step handler q q'"

section \<open>What the queues promise\<close>

definition q_ledger :: "'m queues \<Rightarrow> bool" where
  "q_ledger q \<longleftrightarrow>
     (\<forall>s. q_accepted q s = map snd (q_taken q s) @ queue_of q s \<and> length (queue_of q s) \<le> queueBuffer)"

lemma queue_of_channel [simp]: "queue_of (q_channel subject q) s = queue_of q s"
  by (auto simp: queue_of_def q_channel_def split: option.splits)

lemma q_channel_rest [simp]:
  "q_accepted (q_channel subject q) = q_accepted q" "q_taken (q_channel subject q) = q_taken q"
  "q_consumers (q_channel subject q) = q_consumers q" "q_replies (q_channel subject q) = q_replies q"
  "q_asked (q_channel subject q) = q_asked q" "q_fresh (q_channel subject q) = q_fresh q"
  "q_waiting (q_channel subject q) = q_waiting q" "q_cancelled (q_channel subject q) = q_cancelled q"
  by (auto simp: q_channel_def split: option.splits)

lemma queue_of_put: "queue_of (q_put subject env q) s = (if s = subject then chan_send env (queue_of q s) else queue_of q s)"
  by (simp add: queue_of_def q_put_def)

lemma q_put_rest [simp]:
  "q_accepted (q_put subject env q) = (q_accepted q)(subject := q_accepted q subject @ [env])"
  "q_taken (q_put subject env q) = q_taken q" "q_consumers (q_put subject env q) = q_consumers q"
  "q_replies (q_put subject env q) = q_replies q" "q_asked (q_put subject env q) = q_asked q"
  "q_fresh (q_put subject env q) = q_fresh q" "q_waiting (q_put subject env q) = q_waiting q"
  by (simp_all add: q_put_def)

lemma enqueue_cases:
  "enqueue done pick subject env q =
     (if chan_room queueBuffer (queue_of q subject) \<and> \<not> (done \<and> pick)
      then (None, q_put subject env (q_channel subject q))
      else (Some (if done then ErrCancelled subject else ErrQueueFull), q_channel subject q))"
  by (simp add: enqueue_def Let_def)

lemma enqueue_ledger: "q_ledger q \<Longrightarrow> q_ledger (snd (enqueue done pick subject env q))"
  unfolding enqueue_cases q_ledger_def
  using qchan.send_within by (auto simp: queue_of_put qchan.content_send)

lemma ledger_same:
  assumes "q_ledger q" and "q_subjects q' = q_subjects q" and "q_accepted q' = q_accepted q" and "q_taken q' = q_taken q"
  shows "q_ledger q'"
  using assms by (simp add: q_ledger_def queue_of_def)

lemma Request_send_ledger: "q_ledger q \<Longrightarrow> q_ledger (snd (Request_send done pick subject msg q))"
proof -
  assume q: "q_ledger q"
  let ?q1 = "q\<lparr>q_fresh := Suc (q_fresh q), q_replies := (q_replies q)(q_fresh q \<mapsto> [])\<rparr>"
  let ?e = "enqueue done pick subject \<lparr>env_msg = msg, env_reply = Some (q_fresh q)\<rparr> ?q1"
  have "q_ledger ?q1" using q by (rule ledger_same) simp_all
  then have "q_ledger (snd ?e)" by (rule enqueue_ledger)
  then show ?thesis
    by (cases ?e; cases "fst ?e") (auto simp: Request_send_def Let_def elim: ledger_same)
qed

lemma take_ledger: "q_ledger q \<Longrightarrow> consume_take g q = Some q' \<Longrightarrow> q_ledger q'"
proof -
  assume q: "q_ledger q" and t: "consume_take g q = Some q'"
  obtain c env rest where c: "q_consumers q g = Some c" "chan_recv (queue_of q (c_subject c)) = Some (env, rest)"
      "q' = q\<lparr>q_subjects := (q_subjects q)(c_subject c \<mapsto> rest),
              q_consumers := (q_consumers q)(g \<mapsto> c\<lparr>c_hand := Some env\<rparr>),
              q_taken := (q_taken q)(c_subject c := q_taken q (c_subject c) @ [(g, env)])\<rparr>"
    using t by (auto simp: consume_take_def split: option.splits if_splits)
  have "queue_of q' s = (if s = c_subject c then rest else queue_of q s)" for s
    using c(3) by (simp add: queue_of_def)
  then show ?thesis
    using q qchan.ledger_recv [OF c(2)] qchan.recv_within [OF c(2)] c(3) by (auto simp: q_ledger_def)
qed

lemma finish_fields:
  assumes "consume_finish g out q = Some q'"
  shows "q_subjects q' = q_subjects q" "q_accepted q' = q_accepted q" "q_taken q' = q_taken q" "q_asked q' = q_asked q"
    "q_fresh q' = q_fresh q"
  using assms by (auto simp: consume_finish_def Let_def split: option.splits sum.splits if_splits)

lemma step_ledger: "q_step handler q q' \<Longrightarrow> q_ledger q \<Longrightarrow> q_ledger q'"
proof (induction rule: q_step.induct)
  case (publish q dn pick subject msg)
  then show ?case by (simp add: Publish_def enqueue_ledger)
next
  case (request q dn pick subject msg)
  then show ?case by (rule Request_send_ledger)
next
  case (receive q r m q')
  then show ?case by (auto simp: Request_receive_def split: option.splits list.splits elim: ledger_same)
next
  case (expire q r)
  then show ?case by (auto simp: Request_expire_def elim: ledger_same)
next
  case (subscribe q subject opts)
  have "q_ledger (q_channel subject q)" using subscribe by (simp add: q_ledger_def)
  then show ?case by (auto simp: q_Subscribe_def Let_def elim: ledger_same)
next
  case (take g q q')
  then show ?case by (auto intro: take_ledger)
next
  case (finish q g c env out q')
  then show ?case using finish_fields [OF finish(4)] by (auto elim: ledger_same)
next
  case (exit g q q')
  then show ?case by (auto simp: consume_exit_def split: option.splits if_splits elim: ledger_same)
next
  case (close q sub)
  then show ?case by (auto simp: Close_cancel_def elim: ledger_same)
qed

lemma reachable_ledger: "q_reachable handler q \<Longrightarrow> q_ledger q"
proof (induction rule: q_reachable.induct)
  case start
  then show ?case by (simp add: q_ledger_def newQueues_def queue_of_def)
next
  case (after q q')
  then show ?case using step_ledger by blast
qed

definition from_own_handler :: "('m \<Rightarrow> (err, 'm) res \<Rightarrow> bool) \<Rightarrow> 'm queues \<Rightarrow> bool" where
  "from_own_handler handler q \<longleftrightarrow>
     (\<forall>r. q_fresh q \<le> r \<longrightarrow> q_replies q r = None \<and> q_asked q r = None) \<and>
     (\<forall>s env r. env \<in> set (queue_of q s) \<longrightarrow> env_reply env = Some r \<longrightarrow> q_asked q r = Some (env_msg env)) \<and>
     (\<forall>g c env r. q_consumers q g = Some c \<longrightarrow> c_hand c = Some env \<longrightarrow> env_reply env = Some r \<longrightarrow>
        q_asked q r = Some (env_msg env)) \<and>
     (\<forall>r ch m. q_replies q r = Some ch \<longrightarrow> m \<in> set ch \<longrightarrow>
        (\<exists>msg. q_asked q r = Some msg \<and> handler msg (Inr m)))"

lemma own_same:
  assumes "from_own_handler handler q" and "\<And>s. queue_of q' s = queue_of q s" and "q_asked q' = q_asked q"
    and "q_replies q' = q_replies q" and "q_fresh q \<le> q_fresh q'"
    and "\<And>g c. q_consumers q' g = Some c \<Longrightarrow> c_hand c \<noteq> None \<Longrightarrow> q_consumers q g = Some c"
  shows "from_own_handler handler q'"
  unfolding from_own_handler_def assms(2-4)
proof (intro conjI allI impI)
  fix r assume "q_fresh q' \<le> r"
  then show "q_replies q r = None" "q_asked q r = None"
    using assms(1,5) by (auto simp: from_own_handler_def)
next
  fix g c env r
  assume c: "q_consumers q' g = Some c" "c_hand c = Some env" and r: "env_reply env = Some r"
  then have "q_consumers q g = Some c" using assms(6) by simp
  then show "q_asked q r = Some (env_msg env)"
    using assms(1) c(2) r unfolding from_own_handler_def by blast
next
  fix s env r
  assume "env \<in> set (queue_of q s)" "env_reply env = Some r"
  then show "q_asked q r = Some (env_msg env)"
    using assms(1) unfolding from_own_handler_def by blast
next
  fix r ch m
  assume "q_replies q r = Some ch" "m \<in> set ch"
  then show "\<exists>msg. q_asked q r = Some msg \<and> handler msg (Inr m)"
    using assms(1) unfolding from_own_handler_def by blast
qed

lemma own_publish:
  assumes "from_own_handler handler q"
  shows "from_own_handler handler (snd (Publish done pick subject msg q))"
  using assms unfolding from_own_handler_def Publish_def enqueue_cases
  by (auto simp: queue_of_put qchan.content_send split: if_splits)

lemma own_request:
  assumes q: "from_own_handler handler q"
  shows "from_own_handler handler (snd (Request_send done pick subject msg q))"
proof -
  let ?r = "q_fresh q"
  let ?q1 = "q\<lparr>q_fresh := Suc ?r, q_replies := (q_replies q)(?r \<mapsto> [])\<rparr>"
  have n: "q_asked q ?r = None" using q by (simp add: from_own_handler_def)
  have q1: "from_own_handler handler ?q1" using q by (auto simp: from_own_handler_def queue_of_def)
  show ?thesis
  proof (cases "chan_room queueBuffer (queue_of ?q1 subject) \<and> \<not> (done \<and> pick)")
    case False
    then have "snd (Request_send done pick subject msg q) = q_channel subject ?q1"
      by (auto simp: Request_send_def Let_def enqueue_cases)
    then show ?thesis using q1 by (auto elim!: own_same)
  next
    case True
    let ?e = "\<lparr>env_msg = msg, env_reply = Some ?r\<rparr>"
    let ?q2 = "q_put subject ?e (q_channel subject ?q1)"
    have e: "snd (Request_send done pick subject msg q) =
        ?q2\<lparr>q_waiting := (q_waiting ?q2)(?r \<mapsto> subject), q_asked := (q_asked ?q2)(?r \<mapsto> msg)\<rparr>"
      using True by (simp add: Request_send_def Let_def enqueue_cases)
    have queue: "queue_of (?q2\<lparr>q_waiting := w, q_asked := a\<rparr>) s =
        (if s = subject then queue_of q s @ [?e] else queue_of q s)" for w a s
      by (simp add: queue_of_def q_put_def q_channel_def chan_send_def split: option.split)
    have old: "q_asked q r = Some (env_msg env) \<and> r \<noteq> ?r"
      if "env \<in> set (queue_of q s)" "env_reply env = Some r" for s env r
      using q n that unfolding from_own_handler_def by fastforce
    have held: "q_asked q r = Some (env_msg env) \<and> r \<noteq> ?r"
      if "q_consumers q g = Some c" "c_hand c = Some env" "env_reply env = Some r" for g c env r
      using q n that unfolding from_own_handler_def by fastforce
    have replied: "\<exists>msg. q_asked q r = Some msg \<and> handler msg (Inr m)"
      if "q_replies q r = Some ch" "m \<in> set ch" for r ch m
      using q that unfolding from_own_handler_def by blast
    have fresh: "q_replies q r = None \<and> q_asked q r = None" if "?r \<le> r" for r
      using q that unfolding from_own_handler_def by blast
    show ?thesis
      unfolding e from_own_handler_def queue
      by (auto dest: old held replied simp: fresh split: if_splits)
  qed
qed

lemma own_receive:
  assumes "from_own_handler handler q" and "Request_receive r q = Some (m, q')"
  shows "from_own_handler handler q'" and "\<exists>msg. q_asked q r = Some msg \<and> handler msg (Inr m)"
proof -
  obtain rest where r: "q_replies q r = Some (m # rest)"
      "q' = q\<lparr>q_replies := (q_replies q)(r \<mapsto> rest), q_waiting := (q_waiting q)(r := None)\<rparr>"
    using assms(2) by (auto simp: Request_receive_def split: option.splits list.splits)
  have "r < q_fresh q"
    using assms(1) r(1) unfolding from_own_handler_def by (metis not_le option.distinct(1))
  then show "from_own_handler handler q'"
    using assms(1) r unfolding from_own_handler_def by (auto simp: queue_of_def)
  show "\<exists>msg. q_asked q r = Some msg \<and> handler msg (Inr m)"
    using assms(1) r(1) unfolding from_own_handler_def by (meson list.set_intros(1))
qed

lemma add_consumers_idle:
  "add_consumers sub subject g n cs h = Some c \<Longrightarrow> c_hand c \<noteq> None \<Longrightarrow> cs h = Some c"
proof (induction n arbitrary: g cs)
  case (Suc n)
  let ?new = "\<lparr>c_subscription = sub, c_subject = subject, c_hand = None\<rparr>"
  have "add_consumers sub subject (Suc g) n (cs(g \<mapsto> ?new)) h = Some c"
    using Suc.prems(1) by (simp only: add_consumers.simps)
  from Suc.IH [OF this Suc.prems(2)] have n: "(cs(g \<mapsto> ?new)) h = Some c" .
  show ?case
  proof (cases "h = g")
    case True
    then have "c_hand c = None" using n by auto
    then show ?thesis using Suc.prems(2) by simp
  next
    case False
    then show ?thesis using n by simp
  qed
qed simp

lemma own_take:
  assumes "from_own_handler handler q" and "consume_take g q = Some q'"
  shows "from_own_handler handler q'"
proof -
  obtain c env rest where c: "q_consumers q g = Some c" "chan_recv (queue_of q (c_subject c)) = Some (env, rest)"
      "q' = q\<lparr>q_subjects := (q_subjects q)(c_subject c \<mapsto> rest),
              q_consumers := (q_consumers q)(g \<mapsto> c\<lparr>c_hand := Some env\<rparr>),
              q_taken := (q_taken q)(c_subject c := q_taken q (c_subject c) @ [(g, env)])\<rparr>"
    using assms(2) by (auto simp: consume_take_def split: option.splits if_splits)
  have queue: "queue_of q' s = (if s = c_subject c then rest else queue_of q s)" for s
    using c(3) by (simp add: queue_of_def)
  have content: "queue_of q (c_subject c) = env # rest" using qchan.recv_Some [OF c(2)] .
  have queued: "q_asked q r = Some (env_msg x)"
    if "x \<in> set (queue_of q s)" "env_reply x = Some r" for x s r
    using assms(1) that unfolding from_own_handler_def by blast
  have taken: "q_asked q r = Some (env_msg x)" if "x \<in> insert env (set rest)" "env_reply x = Some r" for x r
    using queued [of x "c_subject c"] that content by simp
  show ?thesis
    using assms(1) unfolding from_own_handler_def queue
    by (auto simp: c(3) taken split: if_splits)
qed

lemma own_reply:
  assumes q: "from_own_handler handler q" and ch: "q_replies q r = Some ch"
    and a: "q_asked q r = Some msg" and h: "handler msg (Inr reply)"
  shows "from_own_handler handler (q\<lparr>q_replies := (q_replies q)(r \<mapsto> ch @ [reply])\<rparr>)"
proof -
  have "\<exists>msg. q_asked q r' = Some msg \<and> handler msg (Inr m)"
    if "((q_replies q)(r \<mapsto> ch @ [reply])) r' = Some ch'" "m \<in> set ch'" for r' ch' m
  proof (cases "r' = r \<and> m = reply")
    case True
    then show ?thesis using a h by blast
  next
    case False
    then have "\<exists>c. q_replies q r' = Some c \<and> m \<in> set c" using that ch by (auto split: if_splits)
    then show ?thesis using q unfolding from_own_handler_def by blast
  qed
  moreover have "r < q_fresh q" using q ch unfolding from_own_handler_def by (metis not_le option.distinct(1))
  ultimately show ?thesis
    using q unfolding from_own_handler_def by (simp add: queue_of_def)
qed

lemma own_finish:
  assumes q: "from_own_handler handler q" and c: "q_consumers q g = Some c" "c_hand c = Some env"
    and h: "handler (env_msg env) out" and f: "consume_finish g out q = Some q'"
  shows "from_own_handler handler q'"
proof -
  let ?q1 = "q\<lparr>q_consumers := (q_consumers q)(g \<mapsto> c\<lparr>c_hand := None\<rparr>)\<rparr>"
  have q1: "from_own_handler handler ?q1"
    by (rule own_same [OF q]) (auto simp: queue_of_def split: if_splits)
  show ?thesis
  proof (cases "q' = ?q1")
    case True
    then show ?thesis using q1 by simp
  next
    case False
    then obtain r reply ch where r: "env_reply env = Some r" "out = Inr reply" "q_replies q r = Some ch"
        "q' = ?q1\<lparr>q_replies := (q_replies ?q1)(r \<mapsto> chan_send reply ch)\<rparr>"
      using f c by (auto simp: consume_finish_def Let_def split: option.splits sum.splits if_splits)
    have asked: "q_asked q r = Some (env_msg env)"
      using q c r(1) unfolding from_own_handler_def by blast
    then show ?thesis
      using r(2,3) asked h unfolding r(4) chan_send_def
      by (intro own_reply [OF q1, of r ch "env_msg env"]) simp_all
  qed
qed

lemma own_exit: "from_own_handler handler q \<Longrightarrow> consume_exit g q = Some q' \<Longrightarrow> from_own_handler handler q'"
proof -
  assume q: "from_own_handler handler q" and x: "consume_exit g q = Some q'"
  have "q' = q\<lparr>q_consumers := (q_consumers q)(g := None)\<rparr>"
    using x by (simp add: consume_exit_def split: option.splits if_splits)
  then show ?thesis by (intro own_same [OF q]) (auto simp: queue_of_def split: if_splits)
qed

lemma own_subscribe: "from_own_handler handler q \<Longrightarrow> from_own_handler handler (snd (q_Subscribe subject opts q))"
proof -
  assume q: "from_own_handler handler q"
  let ?q1 = "q_channel subject q"
  let ?n = "nat (NewSubscribeConfig opts)"
  have e: "snd (q_Subscribe subject opts q) = ?q1\<lparr>q_fresh := q_fresh q + 1 + ?n,
      q_cancelled := (q_cancelled q)(q_fresh q := False),
      q_consumers := add_consumers (q_fresh q) subject (Suc (q_fresh q)) ?n (q_consumers q)\<rparr>"
    by (simp add: q_Subscribe_def Let_def)
  have queue: "queue_of (?q1\<lparr>q_fresh := a, q_cancelled := b, q_consumers := cs\<rparr>) s = queue_of q s" for a b cs s
    using queue_of_channel [of subject q s] by (simp add: queue_of_def)
  show ?thesis
    unfolding e
    by (rule own_same [OF q]) (simp_all add: queue, erule add_consumers_idle, simp)
qed

lemma step_own: "q_step handler q q' \<Longrightarrow> from_own_handler handler q \<Longrightarrow> from_own_handler handler q'"
proof (induction rule: q_step.induct)
  case (publish q dn pick subject msg)
  then show ?case by (rule own_publish)
next
  case (request q dn pick subject msg)
  then show ?case by (rule own_request)
next
  case (receive q r m q')
  show ?case by (rule own_receive(1) [OF receive(3,2)])
next
  case (expire q r)
  show ?case by (rule own_same [OF expire(2)]) (simp_all add: Request_expire_def queue_of_def)
next
  case (subscribe q subject opts)
  then show ?case by (rule own_subscribe)
next
  case (take g q q')
  show ?case by (rule own_take [OF take(2,1)])
next
  case (finish q g c env out q')
  show ?case by (rule own_finish [OF finish(5,1-4)])
next
  case (exit g q q')
  show ?case by (rule own_exit [OF exit(2,1)])
next
  case (close q sub)
  then show ?case by (rule own_same) (simp_all add: Close_cancel_def queue_of_def)
qed

lemma reachable_own: "q_reachable handler q \<Longrightarrow> from_own_handler handler q"
proof (induction rule: q_reachable.induct)
  case start
  then show ?case by (simp add: from_own_handler_def newQueues_def queue_of_def)
next
  case (after q q')
  then show ?case using step_own by blast
qed



text \<open>
  A reply that ends a request is one the handler gave for the message of that very request,
  whatever other requests, subscriptions and timeouts surround it.
\<close>

theorem request_answered_by_own_handler:
  assumes "q_reachable handler q" and "Request_receive r q = Some (m, q')"
  shows "\<exists>msg. q_asked q r = Some msg \<and> handler msg (Inr m)"
  using own_receive(2) [OF reachable_own [OF assms(1)] assms(2)] .

lemma request_answered_by_own_handler_witness:
  "\<exists>q q' m. Request_receive 2 q = Some (m, q') \<and> m = ''ok'' \<and>
     (\<exists>msg. q_asked q 2 = Some msg \<and> (msg = ''ping'' \<longrightarrow> m = ''ok''))"
proof -
  let ?h = "\<lambda>m out. m = ''ping'' \<longrightarrow> out = Inr ''ok''"
  let ?q1 = "snd (q_Subscribe ''s'' [1] (newQueues :: string queues))"
  let ?q2 = "snd (Request_send False False ''s'' ''ping'' ?q1)"
  have r2: "q_reachable ?h ?q2"
    by (intro q_reachable.after [OF q_reachable.after [OF q_reachable.start q_step.subscribe] q_step.request])
  obtain q3 where q3: "consume_take 1 ?q2 = Some q3"
      "q_consumers q3 1 = Some \<lparr>c_subscription = 0, c_subject = ''s'', c_hand = Some \<lparr>env_msg = ''ping'', env_reply = Some 2\<rparr>\<rparr>"
      "q_replies q3 2 = Some []"
    by (simp add: consume_take_def q_Subscribe_def NewSubscribeConfig_def Request_send_def Let_def enqueue_cases
        queue_of_def q_channel_def newQueues_def chan_room_def queueBuffer_def q_put_def chan_send_def)
  obtain q4 where q4: "consume_finish 1 (Inr ''ok'') q3 = Some q4" "q_replies q4 2 = Some [''ok'']"
    using q3(2,3) by (simp add: consume_finish_def Let_def chan_room_def chan_send_def)
  have "q_reachable ?h q3" using r2 q3(1) q_reachable.after q_step.take by blast
  then have "q_reachable ?h q4"
    using q_reachable.after [of ?h q3 q4] q_step.finish [of q3 1 _ _ ?h "Inr ''ok''" q4] q3(2) q4(1) by simp
  moreover obtain q5 where "Request_receive 2 q4 = Some (''ok'', q5)"
    using q4(2) by (simp add: Request_receive_def)
  ultimately show ?thesis using request_answered_by_own_handler [of ?h q4 2 "''ok''" q5] by blast
qed

text \<open>
  A send is refused for want of room exactly when the subject holds its full buffer and the
  caller is not done, and a refused send leaves every queue as it was.
\<close>

lemma publish_refused_iff:
  "fst (Publish done pick subject msg q) = Some ErrQueueFull \<longleftrightarrow>
     \<not> done \<and> queueBuffer \<le> length (queue_of q subject)"
  by (auto simp: Publish_def enqueue_cases chan_room_def)

lemma publish_refused_keeps:
  "fst (Publish done pick subject msg q) \<noteq> None \<Longrightarrow> queue_of (snd (Publish done pick subject msg q)) s = queue_of q s"
  by (auto simp: Publish_def enqueue_cases split: if_splits)

end
