(* ===== verification/Octo_Topics.thy ===== *)
theory Octo_Topics
  imports Octo_Queues
begin

text \<open>
  The in-process broadcast topics of the standalone services
  (\<^verbatim>\<open>services/standalone/topics.go\<close>): every subscription has a channel of its own,
  a publish takes a snapshot of the registered subscriptions under the lock and then sends to
  each of them without blocking, outside the lock. Publishers, consumers, subscribing and
  closing interleave as steps; the iteration order of the map is any order.
\<close>

section \<open>State and operations\<close>

text \<open>
  A subscription: \<open>ts_closed\<close> that its once-guarded close began, \<open>ts_done\<close> that
  its context is over, by the close or with its parent; \<open>ts_taken\<close> records what its goroutines took from the channel, with
  the goroutine. A publish in flight has its message and the subscriptions it has not
  reached; \<open>p_snapshot\<close> records all it set out to reach. \<open>t_offers\<close> records the
  sends in order: publish, subscription, whether the buffer had room.
\<close>

record 'm topic_sub =
  ts_subject :: string
  ts_ch :: "'m list"
  ts_closed :: bool
  ts_done :: bool
  ts_taken :: "(nat \<times> 'm) list"

record 'm publishing =
  p_subject :: string
  p_msg :: 'm
  p_snapshot :: "nat list"
  p_pending :: "nat list"

record 'm topics =
  t_subs :: "string \<rightharpoonup> nat set"
  t_subscriptions :: "nat \<rightharpoonup> 'm topic_sub"
  t_consumers :: "nat \<rightharpoonup> nat \<times> 'm option"
  t_publishing :: "nat \<rightharpoonup> 'm publishing"
  t_fresh :: nat
  t_offers :: "(nat \<times> nat \<times> bool) list"

definition newTopics :: "'m topics" where
  "newTopics =
     \<lparr>t_subs = Map.empty, t_subscriptions = Map.empty, t_consumers = Map.empty, t_publishing = Map.empty,
      t_fresh = 0, t_offers = []\<rparr>"

definition registered :: "'m topics \<Rightarrow> string \<Rightarrow> nat set" where
  "registered t subject = (case t_subs t subject of Some subs \<Rightarrow> subs | None \<Rightarrow> {})"

text \<open>The locked part of a publish: \<open>order\<close> is the order in which the map is walked.\<close>

definition Publish_snapshot :: "nat list \<Rightarrow> string \<Rightarrow> 'm \<Rightarrow> 'm topics \<Rightarrow> (nat \<times> 'm topics) option" where
  "Publish_snapshot ord subject msg t =
     (if distinct ord \<and> set ord = registered t subject
      then Some (t_fresh t, t\<lparr>t_fresh := Suc (t_fresh t),
             t_publishing := (t_publishing t)(t_fresh t \<mapsto>
               \<lparr>p_subject = subject, p_msg = msg, p_snapshot = ord, p_pending = ord\<rparr>)\<rparr>)
      else None)"

text \<open>One turn of its loop: the send, or nothing when the buffer is full.\<close>

definition Publish_send :: "nat \<Rightarrow> 'm topics \<Rightarrow> 'm topics option" where
  "Publish_send p t =
     (case t_publishing t p of
        None \<Rightarrow> None
      | Some pub \<Rightarrow>
          (case p_pending pub of
             [] \<Rightarrow> None
           | sub # rest \<Rightarrow>
               (case t_subscriptions t sub of
                  None \<Rightarrow> None
                | Some s \<Rightarrow>
                    let room = chan_room topicBuffer (ts_ch s);
                        t1 = t\<lparr>t_publishing := (t_publishing t)(p \<mapsto> pub\<lparr>p_pending := rest\<rparr>),
                               t_offers := t_offers t @ [(p, sub, room)]\<rparr> in
                    Some (if room
                          then t1\<lparr>t_subscriptions := (t_subscriptions t)(sub \<mapsto> s\<lparr>ts_ch := chan_send (p_msg pub) (ts_ch s)\<rparr>)\<rparr>
                          else t1))))"

definition Publish_returned :: "nat \<Rightarrow> 'm topics \<Rightarrow> bool" where
  "Publish_returned p t \<longleftrightarrow> (case t_publishing t p of Some pub \<Rightarrow> p_pending pub = [] | None \<Rightarrow> False)"

fun start_listeners :: "nat \<Rightarrow> nat \<Rightarrow> nat \<Rightarrow> (nat \<rightharpoonup> nat \<times> 'm option) \<Rightarrow> (nat \<rightharpoonup> nat \<times> 'm option)" where
  "start_listeners sub g 0 cs = cs"
| "start_listeners sub g (Suc n) cs = start_listeners sub (Suc g) n (cs(g \<mapsto> (sub, None)))"

definition t_Subscribe :: "string \<Rightarrow> int list \<Rightarrow> 'm topics \<Rightarrow> nat \<times> 'm topics" where
  "t_Subscribe subject opts t =
     (let sub = t_fresh t; n = nat (NewSubscribeConfig opts) in
      (sub, t\<lparr>t_subs := (t_subs t)(subject \<mapsto> insert sub (registered t subject)),
              t_subscriptions := (t_subscriptions t)(sub \<mapsto>
                \<lparr>ts_subject = subject, ts_ch = [], ts_closed = False, ts_done = False, ts_taken = []\<rparr>),
              t_consumers := start_listeners sub (Suc sub) n (t_consumers t),
              t_fresh := sub + 1 + n\<rparr>))"

text \<open>A turn of a listener: it takes a message, the handler returns, or it leaves when cancelled.\<close>

definition consumeTopic_take :: "nat \<Rightarrow> 'm topics \<Rightarrow> 'm topics option" where
  "consumeTopic_take g t =
     (case t_consumers t g of
        Some (sub, None) \<Rightarrow>
          (case t_subscriptions t sub of
             None \<Rightarrow> None
           | Some s \<Rightarrow>
               (case chan_recv (ts_ch s) of
                  None \<Rightarrow> None
                | Some (msg, rest) \<Rightarrow>
                    Some (t\<lparr>t_consumers := (t_consumers t)(g \<mapsto> (sub, Some msg)),
                            t_subscriptions := (t_subscriptions t)(sub \<mapsto>
                              s\<lparr>ts_ch := rest, ts_taken := ts_taken s @ [(g, msg)]\<rparr>)\<rparr>)))
      | _ \<Rightarrow> None)"

definition consumeTopic_handled :: "nat \<Rightarrow> 'm topics \<Rightarrow> 'm topics option" where
  "consumeTopic_handled g t =
     (case t_consumers t g of
        Some (sub, Some msg) \<Rightarrow> Some (t\<lparr>t_consumers := (t_consumers t)(g \<mapsto> (sub, None))\<rparr>)
      | _ \<Rightarrow> None)"

definition consumeTopic_exit :: "nat \<Rightarrow> 'm topics \<Rightarrow> 'm topics option" where
  "consumeTopic_exit g t =
     (case t_consumers t g of
        Some (sub, None) \<Rightarrow>
          (case t_subscriptions t sub of
             Some s \<Rightarrow> if ts_done s then Some (t\<lparr>t_consumers := (t_consumers t)(g := None)\<rparr>) else None
           | None \<Rightarrow> None)
      | _ \<Rightarrow> None)"

text \<open>
  Closing takes the subscription out of its subject, and the subject out of the map with its
  last one, then cancels its context; a second close does nothing. The wait of the close ends
  when no listener is left.
\<close>

definition topic_unregister :: "nat \<Rightarrow> 'm topics \<Rightarrow> 'm topics" where
  "topic_unregister sub t =
     (case t_subscriptions t sub of
        None \<Rightarrow> t
      | Some s \<Rightarrow>
          (case t_subs t (ts_subject s) of
             None \<Rightarrow> t
           | Some subs \<Rightarrow>
               let left = subs - {sub} in
               if left = {} then t\<lparr>t_subs := (t_subs t)(ts_subject s := None)\<rparr>
               else t\<lparr>t_subs := (t_subs t)(ts_subject s \<mapsto> left)\<rparr>))"

definition topic_Close_unregister :: "nat \<Rightarrow> 'm topics \<Rightarrow> 'm topics" where
  "topic_Close_unregister sub t =
     (case t_subscriptions t sub of
        None \<Rightarrow> t
      | Some s \<Rightarrow>
          if ts_closed s then t
          else (topic_unregister sub t)\<lparr>t_subscriptions := (t_subscriptions t)(sub \<mapsto> s\<lparr>ts_closed := True\<rparr>)\<rparr>)"

definition topic_cancel :: "nat \<Rightarrow> 'm topics \<Rightarrow> 'm topics" where
  "topic_cancel sub t =
     (case t_subscriptions t sub of
        None \<Rightarrow> t
      | Some s \<Rightarrow> t\<lparr>t_subscriptions := (t_subscriptions t)(sub \<mapsto> s\<lparr>ts_done := True\<rparr>)\<rparr>)"

definition topic_Close_returns :: "nat \<Rightarrow> 'm topics \<Rightarrow> bool" where
  "topic_Close_returns sub t \<longleftrightarrow>
     (case t_subscriptions t sub of Some s \<Rightarrow> ts_closed s \<and> ts_done s | None \<Rightarrow> False) \<and>
     (\<forall>g h. t_consumers t g \<noteq> Some (sub, h))"

text \<open>The interleavings; \<open>cancel\<close> is the second half of a close or the end of the parent context.\<close>

inductive t_step :: "'m topics \<Rightarrow> 'm topics \<Rightarrow> bool" where
  snapshot: "Publish_snapshot ord subject msg t = Some (p, t') \<Longrightarrow> t_step t t'"
| send: "Publish_send p t = Some t' \<Longrightarrow> t_step t t'"
| subscribe: "t_step t (snd (t_Subscribe subject opts t))"
| take: "consumeTopic_take g t = Some t' \<Longrightarrow> t_step t t'"
| handled: "consumeTopic_handled g t = Some t' \<Longrightarrow> t_step t t'"
| exit: "consumeTopic_exit g t = Some t' \<Longrightarrow> t_step t t'"
| close: "t_step t (topic_Close_unregister sub t)"
| cancel: "t_step t (topic_cancel sub t)"

inductive t_reachable :: "'m topics \<Rightarrow> bool" where
  start: "t_reachable newTopics"
| after: "t_reachable t \<Longrightarrow> t_step t t' \<Longrightarrow> t_reachable t'"

inductive_cases t_stepE: "t_step t t'"

section \<open>What the topics promise\<close>

definition offered_to :: "'m topics \<Rightarrow> nat \<Rightarrow> (nat \<times> nat \<times> bool) list" where
  "offered_to t sub = filter (\<lambda>(p, x, ok). x = sub) (t_offers t)"

definition offered_by :: "'m topics \<Rightarrow> nat \<Rightarrow> nat list" where
  "offered_by t p = map (\<lambda>(p, x, ok). x) (filter (\<lambda>(p', x, ok). p' = p) (t_offers t))"

definition message_of :: "'m topics \<Rightarrow> nat \<Rightarrow> 'm" where
  "message_of t p = p_msg (the (t_publishing t p))"

definition delivered :: "'m topics \<Rightarrow> nat \<Rightarrow> 'm list" where
  "delivered t sub = map (\<lambda>(p, x, ok). message_of t p) (filter (\<lambda>(p, x, ok). ok) (offered_to t sub))"

definition t_wf :: "'m topics \<Rightarrow> bool" where
  "t_wf t \<longleftrightarrow>
     (\<forall>subject. registered t subject =
        {sub. \<exists>s. t_subscriptions t sub = Some s \<and> ts_subject s = subject \<and> \<not> ts_closed s}) \<and>
     (\<forall>sub s. t_subscriptions t sub = Some s \<longrightarrow> sub < t_fresh t) \<and>
     (\<forall>p pub. t_publishing t p = Some pub \<longrightarrow>
        p < t_fresh t \<and> distinct (p_snapshot pub) \<and> offered_by t p @ p_pending pub = p_snapshot pub \<and>
        (\<forall>sub\<in>set (p_snapshot pub). t_subscriptions t sub \<noteq> None)) \<and>
     (\<forall>p sub ok. (p, sub, ok) \<in> set (t_offers t) \<longrightarrow> t_publishing t p \<noteq> None \<and> t_subscriptions t sub \<noteq> None)"

definition t_ledger :: "'m topics \<Rightarrow> bool" where
  "t_ledger t \<longleftrightarrow>
     (\<forall>sub s. t_subscriptions t sub = Some s \<longrightarrow>
        delivered t sub = map snd (ts_taken s) @ ts_ch s \<and> length (ts_ch s) \<le> topicBuffer)"

lemma wf_pub:
  "t_wf t \<Longrightarrow> t_publishing t p = Some pub \<Longrightarrow>
    p < t_fresh t \<and> distinct (p_snapshot pub) \<and> offered_by t p @ p_pending pub = p_snapshot pub \<and>
    (\<forall>sub\<in>set (p_snapshot pub). t_subscriptions t sub \<noteq> None)"
  unfolding t_wf_def by blast

lemma wf_offered:
  "t_wf t \<Longrightarrow> (p, sub, ok) \<in> set (t_offers t) \<Longrightarrow> t_publishing t p \<noteq> None \<and> t_subscriptions t sub \<noteq> None"
  unfolding t_wf_def by blast

lemma wf_sub:
  "t_wf t \<Longrightarrow> t_subscriptions t sub = Some s \<Longrightarrow> sub < t_fresh t"
  unfolding t_wf_def by blast

lemma wf_registered:
  "t_wf t \<Longrightarrow> registered t subject =
    {sub. \<exists>s. t_subscriptions t sub = Some s \<and> ts_subject s = subject \<and> \<not> ts_closed s}"
  unfolding t_wf_def by blast

lemma wf_offer: "t_wf t \<Longrightarrow> (p, sub, ok) \<in> set (t_offers t) \<Longrightarrow> p < t_fresh t \<and> sub < t_fresh t"
  unfolding t_wf_def by (metis option.exhaust)

text \<open>Steps that leave the messages and the offers alone change no delivery.\<close>

lemma delivered_cong:
  assumes "t_offers t' = t_offers t" "\<And>p pub. t_publishing t p = Some pub \<Longrightarrow> message_of t' p = message_of t p" "t_wf t"
  shows "delivered t' sub = delivered t sub"
proof -
  have "message_of t' p = message_of t p" if "(p, x, ok) \<in> set (t_offers t)" for p x ok
    using that assms(2,3) unfolding t_wf_def by (metis option.exhaust)
  then show ?thesis unfolding delivered_def offered_to_def assms(1) by (auto intro!: map_cong)
qed

lemma offered_by_none: "t_wf t \<Longrightarrow> offered_by t (t_fresh t) = []"
  using wf_offer unfolding offered_by_def by (fastforce simp: filter_empty_conv)

lemma offered_to_none: "t_wf t \<Longrightarrow> offered_to t (t_fresh t) = []"
  using wf_offer unfolding offered_to_def by (fastforce simp: filter_empty_conv)

subsection \<open>Publishing\<close>

lemma snapshot_inv:
  assumes "t_wf t" "t_ledger t" "Publish_snapshot ord subject msg t = Some (p, t')"
  shows "t_wf t' \<and> t_ledger t'"
proof -
  let ?pub = "\<lparr>p_subject = subject, p_msg = msg, p_snapshot = ord, p_pending = ord\<rparr>"
  have o: "distinct ord" "set ord = registered t subject" "p = t_fresh t"
      and t': "t' = t\<lparr>t_fresh := Suc (t_fresh t), t_publishing := (t_publishing t)(t_fresh t \<mapsto> ?pub)\<rparr>"
    using assms(3) by (auto simp: Publish_snapshot_def split: if_splits)
  have none: "t_publishing t (t_fresh t) = None"
    using assms(1) unfolding t_wf_def by (metis nat_less_le option.exhaust)
  have reg: "registered t' s = registered t s" "offered_by t' q = offered_by t q" for s q
    by (simp_all add: t' registered_def offered_by_def)
  have subs: "\<forall>sub\<in>set ord. t_subscriptions t sub \<noteq> None"
    using assms(1) unfolding o(2) t_wf_def by auto
  have pubs: "q < t_fresh t' \<and> distinct (p_snapshot x) \<and> offered_by t' q @ p_pending x = p_snapshot x \<and>
        (\<forall>sub\<in>set (p_snapshot x). t_subscriptions t' sub \<noteq> None)" if "t_publishing t' q = Some x" for q x
    using that wf_pub [OF assms(1), of q x] o(1) subs offered_by_none [OF assms(1)]
    unfolding reg by (auto simp: t' split: if_splits)
  have "t_wf t'"
    unfolding t_wf_def reg
  proof (intro conjI allI impI)
    show "registered t s = {sub. \<exists>x. t_subscriptions t' sub = Some x \<and> ts_subject x = s \<and> \<not> ts_closed x}" for s
      using wf_registered [OF assms(1), of s] by (simp add: t')
    show "sub < t_fresh t'" if "t_subscriptions t' sub = Some s" for sub s
      using wf_sub [OF assms(1), of sub s] that by (simp add: t')
    show "t_publishing t' q \<noteq> None" if "(q, sub, ok) \<in> set (t_offers t')" for q sub ok
      using wf_offered [OF assms(1), of q sub ok] that by (simp add: t')
    show "t_subscriptions t' sub \<noteq> None" if "(q, sub, ok) \<in> set (t_offers t')" for q sub ok
      using wf_offered [OF assms(1), of q sub ok] that by (simp add: t')
  qed (use pubs in \<open>auto simp: reg\<close>)
  moreover have "delivered t' sub = delivered t sub" for sub
    by (rule delivered_cong) (use none assms(1) in \<open>auto simp: t' message_of_def\<close>)
  ultimately show ?thesis using assms(2) by (simp add: t_ledger_def t')
qed

lemma send_cases:
  assumes "Publish_send p t = Some t'"
  obtains pub sub rest s room where "t_publishing t p = Some pub" "p_pending pub = sub # rest"
    "t_subscriptions t sub = Some s" "room = chan_room topicBuffer (ts_ch s)"
    "t' = t\<lparr>t_publishing := (t_publishing t)(p \<mapsto> pub\<lparr>p_pending := rest\<rparr>),
            t_offers := t_offers t @ [(p, sub, room)],
            t_subscriptions := (t_subscriptions t)(sub \<mapsto>
              s\<lparr>ts_ch := (if room then chan_send (p_msg pub) (ts_ch s) else ts_ch s)\<rparr>)\<rparr>"
proof -
  obtain pub sub rest s where f: "t_publishing t p = Some pub" "p_pending pub = sub # rest" "t_subscriptions t sub = Some s"
    using assms by (auto simp: Publish_send_def split: option.splits list.splits)
  have same: "(t_subscriptions t)(sub \<mapsto> s) = t_subscriptions t" using f(3) by auto
  show ?thesis
    using assms f same by (intro that [OF f refl]) (auto simp: Publish_send_def Let_def)
qed

lemma send_inv:
  assumes wf: "t_wf t" and l: "t_ledger t" and "Publish_send p t = Some t'"
  shows "t_wf t' \<and> t_ledger t'"
proof -
  obtain pub sub rest s room where f: "t_publishing t p = Some pub" "p_pending pub = sub # rest"
      "t_subscriptions t sub = Some s" "room = chan_room topicBuffer (ts_ch s)"
    and t': "t' = t\<lparr>t_publishing := (t_publishing t)(p \<mapsto> pub\<lparr>p_pending := rest\<rparr>),
            t_offers := t_offers t @ [(p, sub, room)],
            t_subscriptions := (t_subscriptions t)(sub \<mapsto>
              s\<lparr>ts_ch := (if room then chan_send (p_msg pub) (ts_ch s) else ts_ch s)\<rparr>)\<rparr>"
    using send_cases [OF assms(3)] by blast
  have reg: "registered t' x = registered t x" for x by (simp add: t' registered_def)
  have by': "offered_by t' q = (if q = p then offered_by t p @ [sub] else offered_by t q)" for q
    by (simp add: t' offered_by_def)
  have pub: "p < t_fresh t" "distinct (p_snapshot pub)" "offered_by t p @ sub # rest = p_snapshot pub"
      "\<forall>sub\<in>set (p_snapshot pub). t_subscriptions t sub \<noteq> None"
    using wf_pub [OF wf f(1)] by (simp_all add: f(2))
  have pubs: "q < t_fresh t' \<and> distinct (p_snapshot x) \<and> offered_by t' q @ p_pending x = p_snapshot x \<and>
        (\<forall>sub\<in>set (p_snapshot x). t_subscriptions t' sub \<noteq> None)" if "t_publishing t' q = Some x" for q x
    using that wf_pub [OF wf, of q x] pub unfolding by' by (auto simp: t' split: if_splits)
  have "t_wf t'"
    unfolding t_wf_def reg
  proof (intro conjI allI impI)
    show "registered t y = {sub. \<exists>x. t_subscriptions t' sub = Some x \<and> ts_subject x = y \<and> \<not> ts_closed x}" for y
      using wf_registered [OF wf, of y] f(3) by (auto simp: t')
    show "x < t_fresh t'" if "t_subscriptions t' x = Some y" for x y
      using wf_sub [OF wf, of x] f(3) that by (auto simp: t' split: if_splits)
    show "t_publishing t' q \<noteq> None" if "(q, x, ok) \<in> set (t_offers t')" for q x ok
      using wf_offered [OF wf, of q x ok] that by (auto simp: t')
    show "t_subscriptions t' x \<noteq> None" if "(q, x, ok) \<in> set (t_offers t')" for q x ok
      using wf_offered [OF wf, of q x ok] f(3) that by (auto simp: t')
  qed (use pubs in auto)
  moreover have del: "delivered t' x = (if x = sub \<and> room then delivered t x @ [p_msg pub] else delivered t x)" for x
  proof -
    have m: "message_of t' q = message_of t q" for q by (simp add: t' message_of_def f(1))
    have "message_of t p = p_msg pub" by (simp add: message_of_def f(1))
    then show ?thesis unfolding delivered_def offered_to_def m by (simp add: t')
  qed
  have "t_ledger t'"
    unfolding t_ledger_def del
    using l f(3) tchan.ledger_send [of "delivered t sub" "map snd (ts_taken s)" "ts_ch s" "p_msg pub"]
      tchan.send_within [of "ts_ch s" "p_msg pub"] f(4)
    unfolding t_ledger_def by (auto simp: t' split: if_splits)
  ultimately show ?thesis by simp
qed

subsection \<open>The other steps\<close>

text \<open>Steps of the subscriptions' side leave publishes and offers as they are.\<close>

lemma wf_same_pubs:
  assumes "t_wf t" "t_publishing t' = t_publishing t" "t_offers t' = t_offers t" "t_fresh t \<le> t_fresh t'"
    and "\<And>sub. t_subscriptions t sub \<noteq> None \<Longrightarrow> t_subscriptions t' sub \<noteq> None"
    and "\<And>sub. t_subscriptions t' sub \<noteq> None \<Longrightarrow> sub < t_fresh t'"
    and "\<And>subject. registered t' subject =
        {sub. \<exists>s. t_subscriptions t' sub = Some s \<and> ts_subject s = subject \<and> \<not> ts_closed s}"
  shows "t_wf t'"
proof -
  have b: "offered_by t' p = offered_by t p" for p by (simp add: offered_by_def assms(3))
  have pubs: "p < t_fresh t' \<and> distinct (p_snapshot pub) \<and> offered_by t' p @ p_pending pub = p_snapshot pub \<and>
        (\<forall>sub\<in>set (p_snapshot pub). t_subscriptions t' sub \<noteq> None)" if "t_publishing t' p = Some pub" for p pub
    using assms(1,4) that unfolding b assms(2) t_wf_def by (meson assms(5) order_less_le_trans)
  have offers: "t_publishing t' p \<noteq> None \<and> t_subscriptions t' sub \<noteq> None" if "(p, sub, ok) \<in> set (t_offers t')" for p sub ok
    using assms(1) that unfolding assms(2,3) t_wf_def by (meson assms(5))
  show ?thesis
    unfolding t_wf_def using assms(6,7) pubs offers by auto
qed

lemma same_delivered:
  "t_publishing t' = t_publishing t \<Longrightarrow> t_offers t' = t_offers t \<Longrightarrow> delivered t' sub = delivered t sub"
  by (simp add: delivered_def offered_to_def message_of_def)

lemma wf_update_sub:
  assumes wf: "t_wf t" and s: "t_subscriptions t sub = Some s" "ts_subject s' = ts_subject s" "ts_closed s' = ts_closed s"
  shows "t_wf (t\<lparr>t_consumers := cs, t_subscriptions := (t_subscriptions t)(sub \<mapsto> s')\<rparr>)" (is "t_wf ?t'")
proof (rule wf_same_pubs [OF wf])
  fix subject
  have "registered ?t' subject = registered t subject" by (simp add: registered_def)
  then show "registered ?t' subject =
      {x. \<exists>y. t_subscriptions ?t' x = Some y \<and> ts_subject y = subject \<and> \<not> ts_closed y}"
    using wf_registered [OF wf, of subject] s by auto
qed (use wf_sub [OF wf] s(1) in \<open>auto split: if_splits\<close>)

lemma take_inv:
  assumes wf: "t_wf t" and l: "t_ledger t" and "consumeTopic_take g t = Some t'"
  shows "t_wf t' \<and> t_ledger t'"
proof -
  obtain sub s msg rest where f: "t_subscriptions t sub = Some s" "chan_recv (ts_ch s) = Some (msg, rest)"
    and t': "t' = t\<lparr>t_consumers := (t_consumers t)(g \<mapsto> (sub, Some msg)),
             t_subscriptions := (t_subscriptions t)(sub \<mapsto> s\<lparr>ts_ch := rest, ts_taken := ts_taken s @ [(g, msg)]\<rparr>)\<rparr>"
    using assms(3) by (auto simp: consumeTopic_take_def split: option.splits)
  have "t_wf t'" unfolding t' by (rule wf_update_sub [OF wf f(1)]) simp_all
  have del: "delivered t' x = delivered t x" for x
    by (rule same_delivered) (simp_all add: t')
  have own: "delivered t sub = map snd (ts_taken s) @ ts_ch s" "length (ts_ch s) \<le> topicBuffer"
    using l f(1) unfolding t_ledger_def by blast+
  have "t_ledger t'"
    using l tchan.ledger_recv [OF f(2) own(1)] tchan.recv_within [OF f(2) own(2)]
    unfolding t_ledger_def del by (simp add: t')
  then show ?thesis using \<open>t_wf t'\<close> by simp
qed

lemma subscribe_inv:
  assumes wf: "t_wf t" and l: "t_ledger t"
  shows "t_wf (snd (t_Subscribe subject opts t)) \<and> t_ledger (snd (t_Subscribe subject opts t))"
proof -
  let ?t' = "snd (t_Subscribe subject opts t)"
  have none: "t_subscriptions t (t_fresh t) = None"
    using wf unfolding t_wf_def by (metis nat_less_le option.exhaust)
  have "t_wf ?t'"
  proof (rule wf_same_pubs [OF wf])
    fix x
    have "registered ?t' x = (if x = subject then insert (t_fresh t) (registered t x) else registered t x)"
      by (simp add: t_Subscribe_def Let_def registered_def)
    then show "registered ?t' x = {u. \<exists>y. t_subscriptions ?t' u = Some y \<and> ts_subject y = x \<and> \<not> ts_closed y}"
      using wf_registered [OF wf, of x] none by (auto simp: t_Subscribe_def Let_def)
  qed (use wf_sub [OF wf] in \<open>fastforce simp: t_Subscribe_def Let_def split: if_splits\<close>)+
  have "delivered t (t_fresh t) = []" by (simp add: delivered_def offered_to_none [OF wf])
  moreover have "delivered ?t' sub = delivered t sub" for sub
    by (rule same_delivered) (simp_all add: t_Subscribe_def Let_def)
  ultimately have "t_ledger ?t'"
    using l unfolding t_ledger_def by (auto simp: t_Subscribe_def Let_def split: if_splits)
  then show ?thesis using \<open>t_wf ?t'\<close> by simp
qed

lemma unregister_inv:
  assumes wf: "t_wf t" and l: "t_ledger t"
  shows "t_wf (topic_Close_unregister sub t) \<and> t_ledger (topic_Close_unregister sub t)"
proof (cases "\<exists>s. t_subscriptions t sub = Some s \<and> \<not> ts_closed s")
  case False
  then have "topic_Close_unregister sub t = t" by (auto simp: topic_Close_unregister_def split: option.splits)
  then show ?thesis using assms by simp
next
  case True
  then obtain s where s: "t_subscriptions t sub = Some s" "\<not> ts_closed s" by blast
  let ?t' = "topic_Close_unregister sub t"
  have rest: "t_publishing ?t' = t_publishing t" "t_offers ?t' = t_offers t" "t_fresh ?t' = t_fresh t"
      "t_subscriptions ?t' = (t_subscriptions t)(sub \<mapsto> s\<lparr>ts_closed := True\<rparr>)"
    using s by (auto simp: topic_Close_unregister_def topic_unregister_def Let_def split: option.splits)
  have reg: "registered ?t' x = registered t x - (if x = ts_subject s then {sub} else {})" for x
    using s by (auto simp: topic_Close_unregister_def topic_unregister_def registered_def Let_def split: option.splits if_splits)
  have "t_wf ?t'"
  proof (rule wf_same_pubs [OF wf])
    show "registered ?t' x = {u. \<exists>y. t_subscriptions ?t' u = Some y \<and> ts_subject y = x \<and> \<not> ts_closed y}" for x
      using wf_registered [OF wf, of x] s unfolding reg rest by auto
  qed (use wf_sub [OF wf] s in \<open>auto simp: rest split: if_splits\<close>)
  moreover have "t_ledger ?t'"
    using l s unfolding t_ledger_def by (auto simp: same_delivered [of ?t' t] rest split: if_splits)
  ultimately show ?thesis by simp
qed

lemma cancel_inv:
  assumes wf: "t_wf t" and l: "t_ledger t"
  shows "t_wf (topic_cancel sub t) \<and> t_ledger (topic_cancel sub t)"
proof (cases "t_subscriptions t sub")
  case None
  then show ?thesis using assms by (simp add: topic_cancel_def)
next
  case (Some s)
  let ?t' = "topic_cancel sub t"
  have t': "?t' = t\<lparr>t_consumers := t_consumers t, t_subscriptions := (t_subscriptions t)(sub \<mapsto> s\<lparr>ts_done := True\<rparr>)\<rparr>"
    using Some by (simp add: topic_cancel_def)
  have "t_wf ?t'" unfolding t' by (rule wf_update_sub [OF wf Some]) simp_all
  have del: "delivered ?t' x = delivered t x" for x by (rule same_delivered) (simp_all add: t')
  have "t_ledger ?t'" using l Some unfolding t_ledger_def del by (simp add: t')
  then show ?thesis using \<open>t_wf ?t'\<close> by simp
qed

lemma consumers_inv:
  assumes wf: "t_wf t" and l: "t_ledger t"
  shows "t_wf (t\<lparr>t_consumers := cs\<rparr>) \<and> t_ledger (t\<lparr>t_consumers := cs\<rparr>)" (is "t_wf ?t' \<and> _")
proof -
  have "registered ?t' x = registered t x" "offered_by ?t' p = offered_by t p" for x p
    by (simp_all add: registered_def offered_by_def)
  moreover have "delivered ?t' x = delivered t x" for x by (rule same_delivered) simp_all
  ultimately show ?thesis using assms by (simp add: t_wf_def t_ledger_def)
qed

lemma step_inv: "t_step t t' \<Longrightarrow> t_wf t \<and> t_ledger t \<Longrightarrow> t_wf t' \<and> t_ledger t'"
proof (induction rule: t_step.induct)
  case (snapshot ord subject msg t p t')
  then show ?case using snapshot_inv [OF _ _ snapshot(1)] by simp
next
  case (send p t t')
  then show ?case using send_inv by blast
next
  case (subscribe t subject opts)
  then show ?case using subscribe_inv by blast
next
  case (take g t t')
  then show ?case using take_inv by blast
next
  case (handled g t t')
  then have "\<exists>cs. t' = t\<lparr>t_consumers := cs\<rparr>"
    by (auto simp: consumeTopic_handled_def split: option.splits prod.splits)
  then show ?case using consumers_inv handled(2) by blast
next
  case (exit g t t')
  then have "\<exists>cs. t' = t\<lparr>t_consumers := cs\<rparr>"
    by (auto simp: consumeTopic_exit_def split: option.splits prod.splits if_splits)
  then show ?case using consumers_inv exit(2) by blast
next
  case (close t sub)
  then show ?case using unregister_inv by blast
next
  case (cancel t sub)
  then show ?case using cancel_inv by blast
qed

lemma reachable_t_inv: "t_reachable t \<Longrightarrow> t_wf t \<and> t_ledger t"
proof (induction rule: t_reachable.induct)
  case start
  show ?case by (simp add: t_wf_def t_ledger_def newTopics_def registered_def)
next
  case (after t t')
  then show ?case using step_inv by blast
qed

lemma offered_by_mem: "sub \<in> set (offered_by t p) \<longleftrightarrow> (\<exists>ok. (p, sub, ok) \<in> set (t_offers t))"
  by (force simp: offered_by_def)

text \<open>
  A publish offers its message at most once to each subscription: what it offered followed
  by what it still has to offer is the snapshot it took, without repetition, and it can always
  take its next turn, whatever the subscriptions do: no buffer, close or slow listener holds it up.
\<close>

theorem publish_visits_each_once:
  assumes "t_reachable t" and "t_publishing t p = Some pub"
  shows "distinct (p_snapshot pub) \<and> offered_by t p @ p_pending pub = p_snapshot pub \<and>
    (p_pending pub = [] \<or> (\<exists>t'. Publish_send p t = Some t' \<and>
      t_publishing t' p = Some (pub\<lparr>p_pending := tl (p_pending pub)\<rparr>)))"
proof -
  have pub: "distinct (p_snapshot pub)" "offered_by t p @ p_pending pub = p_snapshot pub"
      "\<forall>sub\<in>set (p_snapshot pub). t_subscriptions t sub \<noteq> None"
    using wf_pub [of t p pub] reachable_t_inv [OF assms(1)] assms(2) by blast+
  have "\<exists>t'. Publish_send p t = Some t' \<and> t_publishing t' p = Some (pub\<lparr>p_pending := tl (p_pending pub)\<rparr>)"
    if n: "p_pending pub = sub # rest" for sub rest
  proof -
    have "sub \<in> set (p_snapshot pub)" using pub(2) n by (metis in_set_conv_decomp)
    then obtain s where "t_subscriptions t sub = Some s" using pub(3) by blast
    then show ?thesis using assms(2) n by (simp add: Publish_send_def Let_def)
  qed
  then show ?thesis using pub by (cases "p_pending pub") auto
qed

text \<open>
  What a subscription's listeners took, followed by its buffer, is exactly the messages of
  the publishes that found room in it, in the order of their sends, and the buffer stays within
  its capacity: nothing is delivered twice or out of order, only a full buffer loses a message.
\<close>

theorem subscription_receives_what_fit:
  assumes "t_reachable t" and "t_subscriptions t sub = Some s"
  shows "map snd (ts_taken s) @ ts_ch s = map (\<lambda>(p, x, ok). message_of t p) (filter (\<lambda>(p, x, ok). x = sub \<and> ok) (t_offers t)) \<and>
    length (ts_ch s) \<le> topicBuffer"
proof -
  have "filter (\<lambda>(p, x, ok). ok) (offered_to t sub) = filter (\<lambda>(p, x, ok). x = sub \<and> ok) (t_offers t)"
    unfolding offered_to_def filter_filter by (rule filter_cong) auto
  then show ?thesis
    using reachable_t_inv [OF assms(1)] assms(2) unfolding t_ledger_def delivered_def by metis
qed

lemma fan_out_run:
  "\<exists>t s pub. t_reachable (t :: string topics) \<and> t_subscriptions t 0 = Some s \<and> ts_ch s = [''m''] \<and>
     t_publishing t 2 = Some pub \<and> p_snapshot pub = [0] \<and> p_pending pub = []"
proof -
  let ?t1 = "snd (t_Subscribe ''s'' [1] (newTopics :: string topics))"
  obtain t2 where t2: "Publish_snapshot [0] ''s'' ''m'' ?t1 = Some (2, t2)"
      "t_publishing t2 2 = Some \<lparr>p_subject = ''s'', p_msg = ''m'', p_snapshot = [0], p_pending = [0]\<rparr>"
      "t_subscriptions t2 0 = Some \<lparr>ts_subject = ''s'', ts_ch = [], ts_closed = False, ts_done = False, ts_taken = []\<rparr>"
    by (simp add: Publish_snapshot_def t_Subscribe_def NewSubscribeConfig_def newTopics_def registered_def)
  obtain t3 where t3: "Publish_send 2 t2 = Some t3" "t_subscriptions t3 0 =
        Some \<lparr>ts_subject = ''s'', ts_ch = [''m''], ts_closed = False, ts_done = False, ts_taken = []\<rparr>"
      "t_publishing t3 2 = Some \<lparr>p_subject = ''s'', p_msg = ''m'', p_snapshot = [0], p_pending = []\<rparr>"
    using t2(2,3) by (simp add: Publish_send_def Let_def chan_room_def topicBuffer_def chan_send_def)
  have "t_reachable t3"
    by (intro t_reachable.after [OF t_reachable.after [OF t_reachable.after [OF t_reachable.start
          t_step.subscribe] t_step.snapshot [OF t2(1)]] t_step.send [OF t3(1)]])
  then show ?thesis using t3(2,3) by (intro exI [of _ t3]) simp
qed

lemma publish_visits_each_once_witness:
  "\<exists>t :: string topics. \<exists>pub. t_publishing t 2 = Some pub \<and> p_snapshot pub = [0] \<and> offered_by t 2 @ p_pending pub = [0]"
proof -
  obtain t :: "string topics" and pub where "t_reachable t" "t_publishing t 2 = Some pub" "p_snapshot pub = [0]"
    using fan_out_run by blast
  with publish_visits_each_once [OF this(1,2)] show ?thesis by metis
qed

lemma subscription_receives_what_fit_witness:
  "\<exists>t :: string topics. \<exists>s. t_subscriptions t 0 = Some s \<and> ts_ch s = [''m''] \<and> length (ts_ch s) \<le> topicBuffer \<and>
     map snd (ts_taken s) @ ts_ch s = map (\<lambda>(p, x, ok). message_of t p) (filter (\<lambda>(p, x, ok). x = 0 \<and> ok) (t_offers t))"
proof -
  obtain t :: "string topics" and s where "t_reachable t" "t_subscriptions t 0 = Some s" "ts_ch s = [''m'']"
    using fan_out_run by blast
  with subscription_receives_what_fit [OF this(1,2)] show ?thesis by blast
qed

end
