(* ===== verification/Octo_Alerting.thy ===== *)
theory Octo_Alerting
  imports Octo_Value "HOL-Library.Signed_Division"
begin

text \<open>
  The vocabulary and the arithmetic of the alerting service
  (\<^verbatim>\<open>observability/internal/alerting\<close>): aggregates, operators, three-valued verdicts
  (\<^verbatim>\<open>alerting.go\<close>), the gap-preserving series (\<^verbatim>\<open>series.go\<close>), the robust
  statistics (\<^verbatim>\<open>stats.go\<close>) and the metric catalogue (\<^verbatim>\<open>metric.go\<close>).
  Times are nanoseconds since the epoch and durations nanoseconds, as integers. The
  floating-point operations of the machine are the record \<open>arith\<close>, so every statement
  holds whatever they round to.
\<close>

section \<open>Vocabulary\<close>

text \<open>\<open>a_lit\<close> is the constant of the source nearest to a rational.\<close>

record 'f arith =
  a_lit :: "rat \<Rightarrow> 'f"
  a_add :: "'f \<Rightarrow> 'f \<Rightarrow> 'f"
  a_sub :: "'f \<Rightarrow> 'f \<Rightarrow> 'f"
  a_mul :: "'f \<Rightarrow> 'f \<Rightarrow> 'f"
  a_div :: "'f \<Rightarrow> 'f \<Rightarrow> 'f"
  a_lt :: "'f \<Rightarrow> 'f \<Rightarrow> bool"
  a_le :: "'f \<Rightarrow> 'f \<Rightarrow> bool"
  a_eq :: "'f \<Rightarrow> 'f \<Rightarrow> bool"
  a_sqrt :: "'f \<Rightarrow> 'f"
  a_abs :: "'f \<Rightarrow> 'f"
  a_neg :: "'f \<Rightarrow> 'f"
  a_max :: "'f \<Rightarrow> 'f \<Rightarrow> 'f"
  a_min :: "'f \<Rightarrow> 'f \<Rightarrow> 'f"

definition seconds :: "int \<Rightarrow> int" where "seconds n = n * 1000000000"

definition EvalLag :: int where "EvalLag = seconds 90"
definition MinStep :: int where "MinStep = seconds 30"
definition MaxStep :: int where "MaxStep = seconds 3600"

datatype alert_source = SourceTraces | SourceLogs | SourcePodStats | SourceOther string

datatype aggregation =
  AggCount | AggSum | AggAvg | AggMin | AggMax | AggP95 | AggRatio | AggOther string

fun FillsZero :: "aggregation \<Rightarrow> alert_source \<Rightarrow> bool" where
  "FillsZero a SourcePodStats = False"
| "FillsZero AggCount src = True"
| "FillsZero AggSum src = True"
| "FillsZero a src = False"

datatype compare_op = OpGT | OpGTE | OpLT | OpLTE | OpOther string

fun op_Compare :: "'f arith \<Rightarrow> compare_op \<Rightarrow> 'f \<Rightarrow> 'f \<Rightarrow> bool" where
  "op_Compare ar OpGT observed threshold = a_lt ar threshold observed"
| "op_Compare ar OpGTE observed threshold = a_le ar threshold observed"
| "op_Compare ar OpLT observed threshold = a_lt ar observed threshold"
| "op_Compare ar OpLTE observed threshold = a_le ar observed threshold"
| "op_Compare ar (OpOther s) observed threshold = False"

definition op_Downward :: "compare_op \<Rightarrow> bool" where
  "op_Downward o' \<longleftrightarrow> o' = OpLT \<or> o' = OpLTE"

datatype truth = TFalse | TTrue | TUnknown

fun truth_String :: "truth \<Rightarrow> string" where
  "truth_String TTrue = ''true''"
| "truth_String TFalse = ''false''"
| "truth_String TUnknown = ''unknown''"

definition TruthOf :: "bool \<Rightarrow> truth" where
  "TruthOf b = (if b then TTrue else TFalse)"

datatype combinator = CombineAll | CombineAny | CombineOther string

text \<open>The loop over the verdicts, with its \<open>unknown\<close> flag, and what follows it.\<close>

fun combine_from :: "combinator \<Rightarrow> bool \<Rightarrow> truth list \<Rightarrow> truth" where
  "combine_from c unknown [] =
     (if unknown then TUnknown else if c = CombineAll then TTrue else TFalse)"
| "combine_from c unknown (v # vs) =
     (if c = CombineAll \<and> v = TFalse then TFalse
      else if c = CombineAny \<and> v = TTrue then TTrue
      else if v = TUnknown then combine_from c True vs
      else combine_from c unknown vs)"

definition Combine :: "combinator \<Rightarrow> truth list \<Rightarrow> truth" where
  "Combine c verdicts = (if verdicts = [] then TUnknown else combine_from c False verdicts)"

datatype no_data = NoDataOK | NoDataFire | NoDataKeep | NoDataOther string

fun no_data_Truth :: "no_data \<Rightarrow> truth" where
  "no_data_Truth NoDataFire = TTrue"
| "no_data_Truth NoDataKeep = TUnknown"
| "no_data_Truth p = TFalse"

section \<open>Series\<close>

text \<open>An absent bucket is \<open>None\<close>; a series without a denominator has an empty column.\<close>

record 'f series =
  se_Step :: int
  StartMS :: int
  Values :: "'f option list"
  Denominator :: "'f option list"
  Filled :: bool

definition Milliseconds :: "int \<Rightarrow> int" where "Milliseconds d = d sdiv 1000000"
definition UnixMilli :: "int \<Rightarrow> int" where "UnixMilli t = t div 1000000"
definition of_milli :: "int \<Rightarrow> int" where "of_milli ms = ms * 1000000"

definition se_Len :: "'f series \<Rightarrow> int" where "se_Len s = int (length (Values s))"

definition cell :: "'f option list \<Rightarrow> int \<Rightarrow> 'f option" where
  "cell col i = (if i < 0 \<or> int (length col) \<le> i then None else col ! nat i)"

definition se_At :: "'f series \<Rightarrow> int \<Rightarrow> 'f option" where
  "se_At s = cell (Values s)"

definition DenominatorAt :: "'f series \<Rightarrow> int \<Rightarrow> 'f option" where
  "DenominatorAt s = cell (Denominator s)"

definition BucketStart :: "'f series \<Rightarrow> int \<Rightarrow> int" where
  "BucketStart s i = of_milli (StartMS s + i * Milliseconds (se_Step s))"

definition BucketEnd :: "'f series \<Rightarrow> int \<Rightarrow> int" where
  "BucketEnd s i = BucketStart s (i + 1)"

definition Known :: "'f series \<Rightarrow> int \<Rightarrow> int \<Rightarrow> 'f list" where
  "Known s from to' = List.map_filter (se_At s) [max from 0..min to' (se_Len s) - 1]"

definition float_sum :: "'f arith \<Rightarrow> 'f list \<Rightarrow> 'f" where
  "float_sum ar = foldl (a_add ar) (a_lit ar 0)"

definition SumDenominator :: "'f arith \<Rightarrow> 'f series \<Rightarrow> int \<Rightarrow> int \<Rightarrow> 'f" where
  "SumDenominator ar s from to' =
     float_sum ar (List.map_filter (DenominatorAt s) [max from 0..min to' (int (length (Denominator s))) - 1])"

datatype alert_error =
  ErrNoSamples | ErrNotReducible | ErrUnknownAggregate | ErrUnknownSource | ErrUnknownMetric string
| ErrUnknownCondition | ErrNestedConditions | ErrInvalidParams string | ErrInvalidWatch string
| ErrCoarseData | ErrFetch string | ErrUnknownAction | ErrTooManyWatches | ErrWatchNotFound | ErrNameTaken
| ErrStore string | ErrDelivery string

definition least :: "('f \<Rightarrow> 'f \<Rightarrow> bool) \<Rightarrow> 'f list \<Rightarrow> 'f" where
  "least lt values = foldl (\<lambda>out v. if lt v out then v else out) (hd values) (tl values)"

definition Reduce :: "'f arith \<Rightarrow> aggregation \<Rightarrow> 'f list \<Rightarrow> (alert_error, 'f) res" where
  "Reduce ar agg values =
     (if values = [] then Inl ErrNoSamples
      else (case agg of
              AggCount \<Rightarrow> Inr (float_sum ar values)
            | AggSum \<Rightarrow> Inr (float_sum ar values)
            | AggAvg \<Rightarrow> Inr (a_div ar (float_sum ar values) (a_lit ar (of_nat (length values))))
            | AggMin \<Rightarrow> Inr (least (a_lt ar) values)
            | AggMax \<Rightarrow> Inr (least (\<lambda>a b. a_lt ar b a) values)
            | AggP95 \<Rightarrow> Inr (least (\<lambda>a b. a_lt ar b a) values)
            | AggRatio \<Rightarrow> Inl ErrNotReducible
            | AggOther s \<Rightarrow> Inl ErrUnknownAggregate))"

definition rollingRatio :: "'f arith \<Rightarrow> 'f series \<Rightarrow> int \<Rightarrow> int \<Rightarrow> int \<Rightarrow> 'f option" where
  "rollingRatio ar s from to' minSamples =
     (let seen = List.map_filter (\<lambda>i. case (se_At s i, DenominatorAt s i) of
                    (Some n, Some d) \<Rightarrow> Some (n, d) | _ \<Rightarrow> None) [max from 0..min to' (se_Len s) - 1];
          num = float_sum ar (map fst seen); den = float_sum ar (map snd seen) in
      if int (length seen) < minSamples \<or> a_eq ar den (a_lit ar 0) then None else Some (a_div ar num den))"

definition rolling_at :: "'f arith \<Rightarrow> aggregation \<Rightarrow> int \<Rightarrow> int \<Rightarrow> 'f series \<Rightarrow> int \<Rightarrow> 'f option" where
  "rolling_at ar agg window minSamples s i =
     (if agg = AggRatio then rollingRatio ar s (i - window + 1) (i + 1) minSamples
      else let known = Known s (i - window + 1) (i + 1) in
        if int (length known) < minSamples then None
        else (case Reduce ar agg known of Inl _ \<Rightarrow> None | Inr v \<Rightarrow> Some v))"

definition Rolling :: "'f arith \<Rightarrow> aggregation \<Rightarrow> int \<Rightarrow> int \<Rightarrow> 'f series \<Rightarrow> 'f series" where
  "Rolling ar agg window minSamples s =
     (let window = (if window < 1 then 1 else window); minSamples = (if minSamples < 1 then 1 else minSamples) in
      \<lparr>se_Step = se_Step s, StartMS = StartMS s,
       Values = map (rolling_at ar agg window minSamples s) [0..se_Len s - 1],
       Denominator = [], Filled = Filled s\<rparr>)"

definition AlignDown :: "int \<Rightarrow> int \<Rightarrow> int" where
  "AlignDown t step =
     (if step \<le> 0 then t
      else let rem = t smod step in t - (if rem < 0 then rem + step else rem))"

definition Window :: "int \<Rightarrow> int \<Rightarrow> int \<Rightarrow> int \<times> int" where
  "Window now step buckets =
     (let buckets = (if buckets < 1 then 1 else buckets); to' = AlignDown (now - EvalLag) step in
      (to' - buckets * step, to'))"

definition BucketCount :: "int \<Rightarrow> int \<Rightarrow> int \<Rightarrow> int" where
  "BucketCount from to' step = (if step \<le> 0 \<or> to' \<le> from then 0 else (to' - from) sdiv step)"

definition NewSeries :: "int \<Rightarrow> int \<Rightarrow> int \<Rightarrow> 'f series" where
  "NewSeries from to' step =
     \<lparr>se_Step = step, StartMS = UnixMilli from, Values = replicate (nat (BucketCount from to' step)) None,
      Denominator = [], Filled = False\<rparr>"

definition IndexOf :: "'f series \<Rightarrow> int \<Rightarrow> int option" where
  "IndexOf s t =
     (if se_Step s \<le> 0 then None
      else let offset = UnixMilli t - StartMS s in
        if offset < 0 then None
        else let i = offset sdiv Milliseconds (se_Step s) in
          if se_Len s \<le> i then None else Some i)"

definition series_Set :: "int \<Rightarrow> 'f \<Rightarrow> 'f series \<Rightarrow> 'f series" where
  "series_Set i v s =
     (if i < 0 \<or> se_Len s \<le> i then s else s\<lparr>Values := (Values s)[nat i := Some v]\<rparr>)"

definition SetRatio :: "int \<Rightarrow> 'f \<Rightarrow> 'f \<Rightarrow> 'f series \<Rightarrow> 'f series" where
  "SetRatio i num den s =
     (if i < 0 \<or> se_Len s \<le> i then s
      else let col = (if Denominator s = [] then replicate (length (Values s)) None else Denominator s) in
        s\<lparr>Values := (Values s)[nat i := Some num], Denominator := col[nat i := Some den]\<rparr>)"

definition FillZeros :: "'f arith \<Rightarrow> 'f series \<Rightarrow> 'f series" where
  "FillZeros ar s =
     s\<lparr>Values := map (\<lambda>v. case v of None \<Rightarrow> Some (a_lit ar 0) | Some x \<Rightarrow> Some x) (Values s), Filled := True\<rparr>"

section \<open>Statistics\<close>

definition madToSigma :: rat where "madToSigma = 14826 / 10000"
definition defaultConfidence :: rat where "defaultConfidence = 95 / 100"

definition zByConfidence :: "(rat \<times> rat) list" where
  "zByConfidence = [(90 / 100, 16449 / 10000), (95 / 100, 19600 / 10000), (99 / 100, 25758 / 10000)]"

definition zFor :: "'f arith \<Rightarrow> 'f \<Rightarrow> 'f" where
  "zFor ar confidence =
     (case find (\<lambda>(k, z). a_eq ar (a_lit ar k) confidence) zByConfidence of
        Some (k, z) \<Rightarrow> a_lit ar z
      | None \<Rightarrow> a_lit ar (19600 / 10000))"

text \<open>\<^verbatim>\<open>sort.Float64s\<close>: ascending, not-a-number first.\<close>

definition float_before :: "'f arith \<Rightarrow> 'f \<Rightarrow> 'f \<Rightarrow> bool" where
  "float_before ar x y \<longleftrightarrow> a_lt ar x y \<or> \<not> a_eq ar x x \<and> a_eq ar y y"

fun float_insert :: "'f arith \<Rightarrow> 'f \<Rightarrow> 'f list \<Rightarrow> 'f list" where
  "float_insert ar x [] = [x]"
| "float_insert ar x (y # ys) = (if float_before ar y x then y # float_insert ar x ys else x # y # ys)"

definition Float64s :: "'f arith \<Rightarrow> 'f list \<Rightarrow> 'f list" where
  "Float64s ar xs = foldr (float_insert ar) xs []"

definition Median :: "'f arith \<Rightarrow> 'f list \<Rightarrow> 'f option" where
  "Median ar values =
     (if values = [] then None
      else let s = Float64s ar values; mid = length s div 2 in
        if length s mod 2 = 1 then Some (s ! mid)
        else Some (a_div ar (a_add ar (s ! (mid - 1)) (s ! mid)) (a_lit ar 2)))"

definition MAD :: "'f arith \<Rightarrow> 'f list \<Rightarrow> ('f \<times> 'f) option" where
  "MAD ar values =
     (case Median ar values of
        None \<Rightarrow> None
      | Some median \<Rightarrow>
          (case Median ar (map (\<lambda>v. a_abs ar (a_sub ar v median)) values) of
             None \<Rightarrow> Some (median, a_lit ar 0)
           | Some mad \<Rightarrow> Some (median, mad)))"

definition Scale :: "'f arith \<Rightarrow> 'f \<Rightarrow> 'f \<Rightarrow> bool \<Rightarrow> 'f \<Rightarrow> 'f" where
  "Scale ar median mad countLike minScale =
     (let scale = a_mul ar mad (a_lit ar madToSigma);
          scale = (if countLike then a_max ar scale (a_sqrt ar (a_max ar median (a_lit ar 1))) else scale) in
      a_max ar scale minScale)"

definition wilson :: "'f arith \<Rightarrow> 'f \<Rightarrow> 'f \<Rightarrow> 'f \<Rightarrow> ('f \<times> 'f) option" where
  "wilson ar successes trials confidence =
     (if a_le ar trials (a_lit ar 0) then None
      else let z = zFor ar confidence; p = a_div ar successes trials; z2 = a_mul ar z z;
             denom = a_add ar (a_lit ar 1) (a_div ar z2 trials);
             centre = a_div ar (a_add ar p (a_div ar z2 (a_mul ar (a_lit ar 2) trials))) denom;
             spread = a_div ar (a_mul ar z (a_sqrt ar
                        (a_add ar (a_div ar (a_mul ar p (a_sub ar (a_lit ar 1) p)) trials)
                                  (a_div ar z2 (a_mul ar (a_mul ar (a_lit ar 4) trials) trials))))) denom in
        Some (a_max ar (a_sub ar centre spread) (a_lit ar 0), a_min ar (a_add ar centre spread) (a_lit ar 1)))"

definition Bound :: "'f arith \<Rightarrow> compare_op \<Rightarrow> 'f \<Rightarrow> 'f \<Rightarrow> 'f \<Rightarrow> 'f option" where
  "Bound ar o' successes trials confidence =
     map_option (if op_Downward o' then snd else fst) (wilson ar successes trials confidence)"

section \<open>Metrics\<close>

datatype unit_name = UnitCount | UnitRatio | UnitUSD | UnitNanos | UnitBytes | UnitUnknown

record metric =
  mt_Name :: string
  mt_Source :: alert_source
  mt_Aggregates :: "aggregation list"
  mt_Unit :: unit_name
  mt_CountLike :: bool
  mt_Numerator :: string
  mt_Denominator :: string

definition metric_Ratio :: "metric \<Rightarrow> bool" where
  "metric_Ratio m \<longleftrightarrow> mt_Unit m = UnitRatio"

definition DefaultAggregate :: "metric \<Rightarrow> aggregation" where
  "DefaultAggregate m = (case mt_Aggregates m of [] \<Rightarrow> AggCount | a # _ \<Rightarrow> a)"

definition metric_Allows :: "metric \<Rightarrow> aggregation \<Rightarrow> bool" where
  "metric_Allows m agg \<longleftrightarrow> agg \<in> set (mt_Aggregates m)"

definition counting :: "string \<Rightarrow> alert_source \<Rightarrow> aggregation \<Rightarrow> metric" where
  "counting name src agg =
     \<lparr>mt_Name = name, mt_Source = src, mt_Aggregates = [agg], mt_Unit = UnitCount, mt_CountLike = True,
      mt_Numerator = [], mt_Denominator = []\<rparr>"

definition traceMetrics :: "metric list" where
  "traceMetrics =
     [counting ''traces'' SourceTraces AggCount, counting ''failed_traces'' SourceTraces AggCount,
      \<lparr>mt_Name = ''error_rate'', mt_Source = SourceTraces, mt_Aggregates = [AggRatio], mt_Unit = UnitRatio,
       mt_CountLike = False, mt_Numerator = ''failed_traces'', mt_Denominator = ''traces''\<rparr>,
      \<lparr>mt_Name = ''duration_ns'', mt_Source = SourceTraces, mt_Aggregates = [AggP95, AggAvg, AggMax],
       mt_Unit = UnitNanos, mt_CountLike = False, mt_Numerator = [], mt_Denominator = []\<rparr>,
      \<lparr>mt_Name = ''cost_usd'', mt_Source = SourceTraces, mt_Aggregates = [AggSum], mt_Unit = UnitUSD,
       mt_CountLike = False, mt_Numerator = [], mt_Denominator = []\<rparr>,
      counting ''tokens'' SourceTraces AggSum, counting ''llm_calls'' SourceTraces AggSum,
      counting ''unpriced_calls'' SourceTraces AggSum]"

definition logMetrics :: "metric list" where
  "logMetrics =
     [counting ''events'' SourceLogs AggCount,
      \<lparr>mt_Name = ''error_rate'', mt_Source = SourceLogs, mt_Aggregates = [AggRatio], mt_Unit = UnitRatio,
       mt_CountLike = False, mt_Numerator = ''error_events'', mt_Denominator = ''events''\<rparr>]"

definition find_metric :: "metric list \<Rightarrow> string \<Rightarrow> (alert_error, metric) res" where
  "find_metric catalogue name =
     (case find (\<lambda>m. mt_Name m = name) catalogue of
        Some m \<Rightarrow> Inr m | None \<Rightarrow> Inl (ErrUnknownMetric name))"

fun LookupMetric :: "alert_source \<Rightarrow> string \<Rightarrow> (alert_error, metric) res" where
  "LookupMetric SourceTraces name = find_metric traceMetrics name"
| "LookupMetric SourceLogs name = find_metric logMetrics name"
| "LookupMetric SourcePodStats name =
     (if name = [] then Inl (ErrInvalidParams ''a pod-stat condition must name a metric'')
      else Inr \<lparr>mt_Name = name, mt_Source = SourcePodStats, mt_Aggregates = [AggMax, AggAvg, AggSum, AggMin],
             mt_Unit = UnitUnknown, mt_CountLike = has_suffix name ''_total'', mt_Numerator = [], mt_Denominator = []\<rparr>)"
| "LookupMetric (SourceOther s) name = Inl ErrUnknownSource"

section \<open>Properties of the vocabulary\<close>

text \<open>What the undecided verdicts might have been.\<close>

definition completion :: "truth list \<Rightarrow> bool list \<Rightarrow> bool" where
  "completion = list_all2 (\<lambda>v b. v = TUnknown \<or> v = TruthOf b)"

definition bool_combine :: "combinator \<Rightarrow> bool list \<Rightarrow> bool" where
  "bool_combine c bs = (if c = CombineAll then list_all id bs else list_ex id bs)"

lemma combine_from_all:
  "combine_from CombineAll u vs =
     (if TFalse \<in> set vs then TFalse else if u \<or> TUnknown \<in> set vs then TUnknown else TTrue)"
proof (induction vs arbitrary: u)
  case (Cons v vs)
  then show ?case by (cases v) auto
qed simp

lemma combine_from_any:
  "combine_from CombineAny u vs =
     (if TTrue \<in> set vs then TTrue else if u \<or> TUnknown \<in> set vs then TUnknown else TFalse)"
proof (induction vs arbitrary: u)
  case (Cons v vs)
  then show ?case by (cases v) auto
qed simp

lemma TruthOf_simps [simp]:
  "TruthOf b = TTrue \<longleftrightarrow> b" "TTrue = TruthOf b \<longleftrightarrow> b" "TruthOf b = TFalse \<longleftrightarrow> \<not> b"
  "TFalse = TruthOf b \<longleftrightarrow> \<not> b" "TruthOf b \<noteq> TUnknown" "TUnknown \<noteq> TruthOf b" "TruthOf b = TruthOf c \<longleftrightarrow> b = c"
  by (auto simp: TruthOf_def split: if_splits)

lemma completion_fill: "completion vs (map (\<lambda>v. if v = TUnknown then b else v = TTrue) vs)"
proof -
  have "v = TUnknown \<or> v = TruthOf (if v = TUnknown then b else v = TTrue)" for v
    by (cases v) (simp_all add: TruthOf_def)
  then show ?thesis unfolding completion_def list_all2_map2 list_all2_same by blast
qed

lemma completion_Cons:
  "completion (v # vs) bs \<longleftrightarrow> (\<exists>b cs. bs = b # cs \<and> (v = TUnknown \<or> v = TruthOf b) \<and> completion vs cs)"
  by (auto simp: completion_def list_all2_Cons1)

lemma completion_member: "completion vs bs \<Longrightarrow> TruthOf b \<in> set vs \<Longrightarrow> b \<in> set bs"
  by (induction vs arbitrary: bs) (auto simp: completion_Cons)

lemma completion_decided:
  "completion vs bs \<Longrightarrow> TUnknown \<notin> set vs \<Longrightarrow> b \<in> set bs \<Longrightarrow> TruthOf b \<in> set vs"
  by (induction vs arbitrary: bs) (auto simp: completion_Cons, auto simp: completion_def)

lemma always_member: "(\<forall>bs. completion vs bs \<longrightarrow> b \<in> set bs) \<longleftrightarrow> TruthOf b \<in> set vs"
proof
  assume "\<forall>bs. completion vs bs \<longrightarrow> b \<in> set bs"
  then have "b \<in> (\<lambda>v. if v = TUnknown then \<not> b else v = TTrue) ` set vs"
    using completion_fill [of vs "\<not> b"] by fastforce
  then obtain v where v: "v \<in> set vs" "b = (if v = TUnknown then \<not> b else v = TTrue)" by blast
  then have "v = TruthOf b" by (cases v rule: truth.exhaust) (auto simp: TruthOf_def split: if_splits)
  then show "TruthOf b \<in> set vs" using v(1) by simp
qed (use completion_member in blast)

lemma never_member: "(\<forall>bs. completion vs bs \<longrightarrow> b \<notin> set bs) \<longleftrightarrow> TruthOf b \<notin> set vs \<and> TUnknown \<notin> set vs"
proof
  assume n: "\<forall>bs. completion vs bs \<longrightarrow> b \<notin> set bs"
  then have "b \<notin> set (map (\<lambda>v. if v = TUnknown then b else v = TTrue) vs)"
    using completion_fill by blast
  then have "\<forall>v\<in>set vs. (if v = TUnknown then b else v = TTrue) \<noteq> b" by auto
  then show "TruthOf b \<notin> set vs \<and> TUnknown \<notin> set vs" by (auto simp: TruthOf_def split: if_splits)
qed (use completion_decided in blast)

lemma bool_combine_member:
  "bool_combine CombineAll bs \<longleftrightarrow> False \<notin> set bs" "bool_combine CombineAny bs \<longleftrightarrow> True \<in> set bs"
  by (induction bs) (auto simp: bool_combine_def)

text \<open>
  C28. A combined verdict is reached exactly when it does not depend on the conditions that
  could not be decided: it is true (false) if and only if every way of deciding them makes the
  conjunction or disjunction true (false).
\<close>

theorem combine_is_supervaluation:
  assumes "verdicts \<noteq> []" and "c = CombineAll \<or> c = CombineAny"
  shows "Combine c verdicts = TruthOf b \<longleftrightarrow> (\<forall>bs. completion verdicts bs \<longrightarrow> bool_combine c bs = b)"
  using assms(2)
proof
  assume c: "c = CombineAll"
  have "(\<forall>bs. completion verdicts bs \<longrightarrow> (False \<notin> set bs) = b) \<longleftrightarrow>
      (if b then TruthOf False \<notin> set verdicts \<and> TUnknown \<notin> set verdicts else TruthOf False \<in> set verdicts)"
    using never_member [of verdicts False] always_member [of verdicts False] by auto
  then show ?thesis
    using assms(1) by (simp add: c Combine_def combine_from_all bool_combine_member TruthOf_def)
next
  assume c: "c = CombineAny"
  have "(\<forall>bs. completion verdicts bs \<longrightarrow> (True \<in> set bs) = b) \<longleftrightarrow>
      (if b then TruthOf True \<in> set verdicts else TruthOf True \<notin> set verdicts \<and> TUnknown \<notin> set verdicts)"
    using never_member [of verdicts True] always_member [of verdicts True] by auto
  then show ?thesis
    using assms(1) by (simp add: c Combine_def combine_from_any bool_combine_member TruthOf_def)
qed

lemma combine_is_supervaluation_witness:
  "Combine CombineAny [TUnknown, TTrue] = TruthOf True \<and>
   bool_combine CombineAny [False, True] \<and> bool_combine CombineAny [True, True]"
proof -
  have decided: "Combine CombineAny [TUnknown, TTrue] = TruthOf True" by (simp add: Combine_def TruthOf_def)
  then have any: "completion [TUnknown, TTrue] bs \<Longrightarrow> bool_combine CombineAny bs = True" for bs
    using combine_is_supervaluation [of "[TUnknown, TTrue]" CombineAny True] by simp
  show ?thesis using decided any [of "[False, True]"] any [of "[True, True]"]
    by (simp add: completion_def TruthOf_def)
qed

end
