(* ===== verification/Octo_Watches.thy ===== *)
theory Octo_Watches
  imports Octo_Alerting Octo_Strings "HOL-Library.Char_ord" "HOL-Library.List_Lexorder"
begin

text \<open>
  Watches of the alerting service: the queries conditions ask and how a watch coalesces them
  (\<^verbatim>\<open>query.go\<close>, \<^verbatim>\<open>watch.go\<close>), the three kinds of condition with their
  parameters and gates (\<^verbatim>\<open>condition.go\<close>, \<^verbatim>\<open>threshold.go\<close>,
  \<^verbatim>\<open>spike.go\<close>, \<^verbatim>\<open>absence.go\<close>), and the evaluation of a whole watch
  (\<^verbatim>\<open>evaluation.go\<close>). The fetched series are arguments. Labels and units, which only
  describe an outcome, are left out.
\<close>

section \<open>Queries\<close>

record scope =
  sc_DeploymentID :: string
  sc_IntegrationID :: string
  sc_AppName :: string
  sc_AppVersion :: string
  sc_Levels :: "string list"
  sc_Search :: string
  sc_Pods :: "string list"
  sc_Labels :: "(string \<times> string) list"
  sc_Across :: string

record alert_query =
  q_Source :: alert_source
  q_Metric :: string
  q_Aggregate :: aggregation
  q_Scope :: scope
  q_Step :: int
  q_From :: int
  q_To :: int

text \<open>
  The key of a scope renders its values quoted, the levels and pods sorted and the labels by
  name; the key of a query joins source, metric, aggregate, step and scope. The rendering is
  kept as the tuple of what it renders.
\<close>

type_synonym query_key =
  "alert_source \<times> string \<times> aggregation \<times> int \<times>
     (string \<times> string \<times> string \<times> string \<times> string list \<times> string \<times> string list \<times> (string \<times> string) list \<times> string)"

definition scope_key ::
  "scope \<Rightarrow> string \<times> string \<times> string \<times> string \<times> string list \<times> string \<times> string list \<times> (string \<times> string) list \<times> string" where
  "scope_key s =
     (sc_DeploymentID s, sc_IntegrationID s, sc_AppName s, sc_AppVersion s, sort (sc_Levels s), sc_Search s,
      sort (sc_Pods s), sort_key fst (sc_Labels s), sc_Across s)"

definition query_Key :: "alert_query \<Rightarrow> query_key" where
  "query_Key q = (q_Source q, q_Metric q, q_Aggregate q, q_Step q, scope_key (q_Scope q))"

definition Widen :: "alert_query \<Rightarrow> alert_query \<Rightarrow> alert_query" where
  "Widen q q2 =
     (let q1 = (if q_From q2 < q_From q then q\<lparr>q_From := q_From q2\<rparr> else q) in
      if q_To q < q_To q2 then q1\<lparr>q_To := q_To q2\<rparr> else q1)"

definition Buckets :: "alert_query \<Rightarrow> int" where
  "Buckets q = BucketCount (q_From q) (q_To q) (q_Step q)"

section \<open>Outcomes\<close>

datatype alert_reason =
  ReasonNoData | ReasonFewSamples | ReasonShortBaseline | ReasonSmallDenom | ReasonSmallDelta
| ReasonSmallRatio | ReasonBelowZ | ReasonNeverReported | ReasonCoarseData | ReasonFetchFailed
| ReasonThresholdUnmet | ReasonConditionMet

text \<open>A zero \<^verbatim>\<open>time.Time\<close> is \<open>None\<close>, and so is an absent error.\<close>

record 'f outcome =
  oc_ConditionID :: string
  oc_Op :: compare_op
  oc_Threshold :: 'f
  oc_Observed :: "'f option"
  oc_Baseline :: "'f option"
  oc_Score :: "'f option"
  oc_Samples :: int
  oc_BaselineSamples :: int
  oc_Denominator :: 'f
  oc_Window :: "(int \<times> int) option"
  oc_Verdict :: truth
  oc_NoData :: bool
  oc_Reason :: "alert_reason option"
  oc_Err :: "alert_error option"

definition oc_finish :: "truth \<Rightarrow> alert_reason option \<Rightarrow> 'f outcome \<Rightarrow> 'f outcome" where
  "oc_finish v r out =
     (case r of None \<Rightarrow> out\<lparr>oc_Verdict := v\<rparr> | Some x \<Rightarrow> out\<lparr>oc_Verdict := v, oc_Reason := Some x\<rparr>)"

section \<open>Conditions\<close>

definition MaxConditions :: nat where "MaxConditions = 10"

text \<open>
  A condition as it is stored. An empty aggregate is \<open>None\<close>; of the children of a
  group only their number is kept, since a spec with children is refused.
\<close>

record condition_spec =
  cs_ID :: string
  cs_Type :: string
  cs_Source :: alert_source
  cs_Metric :: string
  cs_Aggregate :: "aggregation option"
  cs_Scope :: scope
  cs_Params :: "(string \<times> gval) list option"
  cs_Children :: nat

record 'f threshold_params =
  tp_Op :: compare_op
  tp_Threshold :: 'f
  tp_WindowBuckets :: int
  tp_MinSamples :: int
  tp_Confidence :: 'f
  tp_MinDenominator :: 'f

record 'f spike_params =
  sp_WindowBuckets :: int
  sp_BaselineBuckets :: int
  sp_GuardBuckets :: int
  sp_Direction :: string
  sp_Z :: 'f
  sp_MinDelta :: 'f
  sp_MinRatio :: 'f
  sp_MinSamples :: int
  sp_MinBaseline :: int
  sp_MinScale :: 'f
  sp_MinDenominator :: 'f

record absence_params =
  ap_ForBuckets :: int
  ap_MinBaseline :: int
  ap_BaselineBuckets :: int

datatype 'f cond_params =
  Threshold "'f threshold_params" | Spike "'f spike_params" | Absence absence_params

record condition_base =
  cb_spec :: condition_spec
  cb_metric :: metric
  cb_agg :: aggregation
  cb_step :: int

text \<open>
  The strict decoding of the parameters: an object with a field the kind does not know, or
  with a value of another type, is refused; field names match whatever their case.
\<close>

definition named_field :: "(string \<times> gval) list \<Rightarrow> string \<Rightarrow> gval option" where
  "named_field kvs key =
     (case filter (\<lambda>kv. map lower_ascii (fst kv) = map lower_ascii key) kvs of
        [] \<Rightarrow> None | ks \<Rightarrow> Some (snd (last ks)))"

definition decodeParams ::
  "string list \<Rightarrow> (string \<times> gval) list option \<Rightarrow> (alert_error, (string \<times> gval) list) res" where
  "decodeParams known raw =
     (case raw of
        None \<Rightarrow> Inr []
      | Some kvs \<Rightarrow>
          (case find (\<lambda>kv. map lower_ascii (fst kv) \<notin> map lower_ascii ` set known) kvs of
             Some (k, _) \<Rightarrow> Inl (ErrInvalidParams (''unknown field '' @ quote k))
           | None \<Rightarrow> Inr kvs))"

definition int_param :: "(string \<times> gval) list \<Rightarrow> string \<Rightarrow> (alert_error, int) res" where
  "int_param kvs key =
     (case named_field kvs key of
        None \<Rightarrow> Inr 0 | Some GNull \<Rightarrow> Inr 0
      | Some (GInt n) \<Rightarrow> if - (2 ^ 63) \<le> n \<and> n < 2 ^ 63 then Inr n else Inl (ErrInvalidParams key)
      | Some _ \<Rightarrow> Inl (ErrInvalidParams key))"

definition float_param :: "'f arith \<Rightarrow> (string \<times> gval) list \<Rightarrow> string \<Rightarrow> (alert_error, 'f) res" where
  "float_param ar kvs key =
     (case named_field kvs key of
        None \<Rightarrow> Inr (a_lit ar 0) | Some GNull \<Rightarrow> Inr (a_lit ar 0)
      | Some (GInt n) \<Rightarrow> Inr (a_lit ar (of_int n)) | Some (GFloat q) \<Rightarrow> Inr (a_lit ar q)
      | Some _ \<Rightarrow> Inl (ErrInvalidParams key))"

definition string_param :: "(string \<times> gval) list \<Rightarrow> string \<Rightarrow> (alert_error, string) res" where
  "string_param kvs key =
     (case named_field kvs key of
        None \<Rightarrow> Inr [] | Some GNull \<Rightarrow> Inr [] | Some (GStr s) \<Rightarrow> Inr s | Some _ \<Rightarrow> Inl (ErrInvalidParams key))"

definition read_op :: "string \<Rightarrow> compare_op" where
  "read_op s =
     (if s = ''gt'' then OpGT else if s = ''gte'' then OpGTE else if s = ''lt'' then OpLT
      else if s = ''lte'' then OpLTE else OpOther s)"

definition defaultThresholdWindow :: int where "defaultThresholdWindow = 5"
definition defaultMinDenominator :: rat where "defaultMinDenominator = 20"
definition defaultSpikeWindow :: int where "defaultSpikeWindow = 1"
definition defaultGuardBuckets :: int where "defaultGuardBuckets = 1"
definition defaultBaseline :: int where "defaultBaseline = 30"
definition defaultZ :: rat where "defaultZ = 4"
definition defaultMinRatio :: rat where "defaultMinRatio = 2"
definition defaultMinBaseline :: int where "defaultMinBaseline = 12"
definition defaultCountMinDelta :: rat where "defaultCountMinDelta = 5"
definition DirectionUp :: string where "DirectionUp = ''up''"
definition DirectionDown :: string where "DirectionDown = ''down''"
definition defaultAbsenceFor :: int where "defaultAbsenceFor = 5"
definition defaultAbsenceBaseline :: int where "defaultAbsenceBaseline = 12"

definition decode_threshold :: "'f arith \<Rightarrow> (string \<times> gval) list option \<Rightarrow> (alert_error, 'f threshold_params) res" where
  "decode_threshold ar raw =
     bind_res (decodeParams [''op'', ''threshold'', ''windowBuckets'', ''minSamples'', ''confidence'', ''minDenominator''] raw)
                 (\<lambda>kvs.
     bind_res (string_param kvs ''op'') (\<lambda>o'. bind_res (float_param ar kvs ''threshold'') (\<lambda>threshold.
     bind_res (int_param kvs ''windowBuckets'') (\<lambda>w. bind_res (int_param kvs ''minSamples'') (\<lambda>ms.
     bind_res (float_param ar kvs ''confidence'') (\<lambda>conf. bind_res (float_param ar kvs ''minDenominator'') (\<lambda>md.
       Inr \<lparr>tp_Op = read_op o', tp_Threshold = threshold, tp_WindowBuckets = w, tp_MinSamples = ms,
            tp_Confidence = conf, tp_MinDenominator = md\<rparr>)))))))"

definition window_default :: "'f threshold_params \<Rightarrow> 'f threshold_params" where
  "window_default p = (if tp_WindowBuckets p \<le> 0 then p\<lparr>tp_WindowBuckets := defaultThresholdWindow\<rparr> else p)"

definition samples_default :: "'f threshold_params \<Rightarrow> 'f threshold_params" where
  "samples_default p =
     (if tp_MinSamples p \<le> 0 then p\<lparr>tp_MinSamples := (tp_WindowBuckets p + 1) sdiv 2\<rparr> else p)"

definition ratio_defaults :: "'f arith \<Rightarrow> metric \<Rightarrow> 'f threshold_params \<Rightarrow> 'f threshold_params" where
  "ratio_defaults ar m p =
     (let or_lit = (\<lambda>x d. if metric_Ratio m \<and> a_le ar x (a_lit ar 0) then a_lit ar d else x) in
      p\<lparr>tp_Confidence := or_lit (tp_Confidence p) defaultConfidence,
        tp_MinDenominator := or_lit (tp_MinDenominator p) defaultMinDenominator\<rparr>)"

definition newThreshold :: "'f arith \<Rightarrow> condition_base \<Rightarrow> (alert_error, 'f cond_params) res" where
  "newThreshold ar base =
     bind_res (decode_threshold ar (cs_Params (cb_spec base))) (\<lambda>p0.
       if tp_Op p0 \<notin> {OpGT, OpGTE, OpLT, OpLTE} then Inl (ErrInvalidParams ''threshold needs one of gt/gte/lt/lte'')
       else let p = samples_default (window_default p0) in
         if tp_WindowBuckets p < tp_MinSamples p then Inl (ErrInvalidParams ''minSamples exceeds the window'')
         else Inr (Threshold (ratio_defaults ar (cb_metric base) p)))"

definition applySpikeDefaults :: "'f arith \<Rightarrow> metric \<Rightarrow> 'f spike_params \<Rightarrow> 'f spike_params" where
  "applySpikeDefaults ar m p =
     (let or_int = (\<lambda>n d. if n \<le> 0 then d else n); or_lit = (\<lambda>x d. if a_le ar x (a_lit ar 0) then a_lit ar d else x) in
      p\<lparr>sp_WindowBuckets := or_int (sp_WindowBuckets p) defaultSpikeWindow,
        sp_BaselineBuckets := or_int (sp_BaselineBuckets p) defaultBaseline,
        sp_GuardBuckets := (if sp_GuardBuckets p < 0 then 0
                            else if sp_GuardBuckets p = 0 then defaultGuardBuckets else sp_GuardBuckets p),
        sp_Z := or_lit (sp_Z p) defaultZ,
        sp_MinRatio := or_lit (sp_MinRatio p) defaultMinRatio,
        sp_MinSamples := or_int (sp_MinSamples p) 1,
        sp_MinBaseline := or_int (sp_MinBaseline p) defaultMinBaseline,
        sp_MinDelta := (if mt_CountLike m then or_lit (sp_MinDelta p) defaultCountMinDelta else sp_MinDelta p),
        sp_MinDenominator := (if metric_Ratio m then or_lit (sp_MinDenominator p) defaultMinDenominator
                              else sp_MinDenominator p)\<rparr>)"

definition decode_spike :: "'f arith \<Rightarrow> (string \<times> gval) list option \<Rightarrow> (alert_error, 'f spike_params) res" where
  "decode_spike ar raw =
     bind_res (decodeParams [''windowBuckets'', ''baselineBuckets'', ''guardBuckets'', ''direction'', ''z'', ''minDelta'',
                 ''minRatio'', ''minSamples'', ''minBaseline'', ''minScale'', ''minDenominator''] raw) (\<lambda>kvs.
     bind_res (int_param kvs ''windowBuckets'') (\<lambda>w. bind_res (int_param kvs ''baselineBuckets'') (\<lambda>b.
     bind_res (int_param kvs ''guardBuckets'') (\<lambda>g. bind_res (string_param kvs ''direction'') (\<lambda>dir.
     bind_res (float_param ar kvs ''z'') (\<lambda>z. bind_res (float_param ar kvs ''minDelta'') (\<lambda>delta.
     bind_res (float_param ar kvs ''minRatio'') (\<lambda>ratio. bind_res (int_param kvs ''minSamples'') (\<lambda>ms.
     bind_res (int_param kvs ''minBaseline'') (\<lambda>mb. bind_res (float_param ar kvs ''minScale'') (\<lambda>scale.
     bind_res (float_param ar kvs ''minDenominator'') (\<lambda>md.
       Inr \<lparr>sp_WindowBuckets = w, sp_BaselineBuckets = b, sp_GuardBuckets = g, sp_Direction = dir, sp_Z = z,
            sp_MinDelta = delta, sp_MinRatio = ratio, sp_MinSamples = ms, sp_MinBaseline = mb, sp_MinScale = scale,
            sp_MinDenominator = md\<rparr>))))))))))))"

definition newSpike :: "'f arith \<Rightarrow> condition_base \<Rightarrow> (alert_error, 'f cond_params) res" where
  "newSpike ar base =
     bind_res (decode_spike ar (cs_Params (cb_spec base))) (\<lambda>p0.
       let p1 = (if sp_Direction p0 = [] then p0\<lparr>sp_Direction := DirectionUp\<rparr> else p0) in
       if sp_Direction p1 \<noteq> DirectionUp \<and> sp_Direction p1 \<noteq> DirectionDown
       then Inl (ErrInvalidParams ''spike direction must be up or down'')
       else let p = applySpikeDefaults ar (cb_metric base) p1 in
         if sp_WindowBuckets p < sp_MinSamples p then Inl (ErrInvalidParams ''minSamples exceeds the window'')
         else Inr (Spike p))"

definition decode_absence :: "(string \<times> gval) list option \<Rightarrow> (alert_error, absence_params) res" where
  "decode_absence raw =
     bind_res (decodeParams [''forBuckets'', ''minBaseline'', ''baselineBuckets''] raw) (\<lambda>kvs.
     bind_res (int_param kvs ''forBuckets'') (\<lambda>f. bind_res (int_param kvs ''minBaseline'') (\<lambda>mb.
     bind_res (int_param kvs ''baselineBuckets'') (\<lambda>b.
       Inr \<lparr>ap_ForBuckets = f, ap_MinBaseline = mb, ap_BaselineBuckets = b\<rparr>))))"

definition absence_defaults :: "absence_params \<Rightarrow> absence_params" where
  "absence_defaults p =
     (let or_int = (\<lambda>n d. if n \<le> 0 then d else n) in
      \<lparr>ap_ForBuckets = or_int (ap_ForBuckets p) defaultAbsenceFor,
       ap_MinBaseline = or_int (ap_MinBaseline p) defaultAbsenceBaseline,
       ap_BaselineBuckets = or_int (ap_BaselineBuckets p) defaultBaseline\<rparr>)"

definition newAbsence :: "condition_base \<Rightarrow> (alert_error, 'f cond_params) res" where
  "newAbsence base =
     bind_res (decode_absence (cs_Params (cb_spec base))) (\<lambda>p0.
       let p = absence_defaults p0 in
       if ap_BaselineBuckets p < ap_MinBaseline p then Inl (ErrInvalidParams ''minBaseline exceeds the baseline'')
       else Inr (Absence p))"

record 'f condition =
  co_base :: condition_base
  co_params :: "'f cond_params"

definition NewCondition :: "'f arith \<Rightarrow> condition_spec \<Rightarrow> int \<Rightarrow> (alert_error, 'f condition) res" where
  "NewCondition ar spec step =
     (if cs_ID spec = [] then Inl (ErrInvalidParams ''a condition needs an id'')
      else if cs_Type spec = ''group'' \<or> cs_Children spec > 0 then Inl ErrNestedConditions
      else bind_res (LookupMetric (cs_Source spec) (cs_Metric spec)) (\<lambda>m.
        let agg = (case cs_Aggregate spec of None \<Rightarrow> DefaultAggregate m | Some a \<Rightarrow> a);
            base = \<lparr>cb_spec = spec, cb_metric = m, cb_agg = agg, cb_step = step\<rparr>;
            built = map_sum id (\<lambda>p. \<lparr>co_base = base, co_params = p\<rparr>) in
        if \<not> metric_Allows m agg then Inl (ErrInvalidParams ''the metric does not take the aggregate'')
        else if cs_Type spec = ''threshold'' then built (newThreshold ar base)
        else if cs_Type spec = ''spike'' then built (newSpike ar base)
        else if cs_Type spec = ''absence'' then built (newAbsence base)
        else Inl ErrUnknownCondition))"

definition cond_Downward :: "'f condition \<Rightarrow> bool" where
  "cond_Downward c =
     (case co_params c of
        Threshold p \<Rightarrow> op_Downward (tp_Op p)
      | Spike p \<Rightarrow> sp_Direction p = DirectionDown
      | Absence p \<Rightarrow> True)"

definition cond_buckets :: "'f condition \<Rightarrow> int" where
  "cond_buckets c =
     (case co_params c of
        Threshold p \<Rightarrow> tp_WindowBuckets p
      | Spike p \<Rightarrow> sp_WindowBuckets p + sp_GuardBuckets p + sp_BaselineBuckets p + sp_WindowBuckets p - 1
      | Absence p \<Rightarrow> ap_ForBuckets p + ap_BaselineBuckets p)"

definition cond_query :: "int \<Rightarrow> condition_base \<Rightarrow> int \<Rightarrow> alert_query" where
  "cond_query now base buckets =
     (case Window now (cb_step base) buckets of (from, to') \<Rightarrow>
        \<lparr>q_Source = cs_Source (cb_spec base), q_Metric = mt_Name (cb_metric base), q_Aggregate = cb_agg base,
         q_Scope = cs_Scope (cb_spec base), q_Step = cb_step base, q_From = from, q_To = to'\<rparr>)"

definition cond_Query :: "int \<Rightarrow> 'f condition \<Rightarrow> alert_query" where
  "cond_Query now c = cond_query now (co_base c) (cond_buckets c)"

section \<open>Judging a series\<close>

definition windowIndices :: "'f series \<Rightarrow> int \<Rightarrow> int \<Rightarrow> int \<times> int" where
  "windowIndices s now buckets =
     (if se_Step s \<le> 0 \<or> se_Len s = 0 then (0, 0)
      else let end' = AlignDown (now - EvalLag) (se_Step s);
               to0 = (UnixMilli end' - StartMS s) sdiv Milliseconds (se_Step s);
               to1 = (if se_Len s < to0 then se_Len s else to0);
               to2 = (if to1 < 0 then 0 else to1);
               from = to2 - buckets in
        (if from < 0 then 0 else from, to2))"

definition oc_new :: "'f arith \<Rightarrow> condition_base \<Rightarrow> compare_op \<Rightarrow> 'f \<Rightarrow> 'f outcome" where
  "oc_new ar base o' threshold =
     \<lparr>oc_ConditionID = cs_ID (cb_spec base), oc_Op = o', oc_Threshold = threshold, oc_Observed = None,
      oc_Baseline = None, oc_Score = None, oc_Samples = 0, oc_BaselineSamples = 0, oc_Denominator = a_lit ar 0,
      oc_Window = None, oc_Verdict = TFalse, oc_NoData = False, oc_Reason = None, oc_Err = None\<rparr>"

definition spikeOp :: "string \<Rightarrow> compare_op" where
  "spikeOp direction = (if direction = DirectionDown then OpLT else OpGT)"

definition cond_outcome :: "'f arith \<Rightarrow> 'f condition \<Rightarrow> 'f outcome" where
  "cond_outcome ar c =
     (case co_params c of
        Threshold p \<Rightarrow> oc_new ar (co_base c) (tp_Op p) (tp_Threshold p)
      | Spike p \<Rightarrow> oc_new ar (co_base c) (spikeOp (sp_Direction p)) (sp_Z p)
      | Absence p \<Rightarrow> oc_new ar (co_base c) OpLTE (a_lit ar 0))"

definition cond_Unavailable :: "'f arith \<Rightarrow> 'f condition \<Rightarrow> alert_reason \<Rightarrow> alert_error \<Rightarrow> 'f outcome" where
  "cond_Unavailable ar c r e = oc_finish TUnknown (Some r) ((cond_outcome ar c)\<lparr>oc_Err := Some e\<rparr>)"

definition no_data_yet :: "'f outcome \<Rightarrow> 'f outcome" where
  "no_data_yet out = oc_finish TUnknown (Some ReasonNoData) (out\<lparr>oc_NoData := True\<rparr>)"

definition judge :: "'f arith \<Rightarrow> 'f threshold_params \<Rightarrow> 'f \<Rightarrow> 'f outcome \<Rightarrow> 'f outcome" where
  "judge ar p x out =
     (if op_Compare ar (tp_Op p) x (tp_Threshold p) then oc_finish TTrue (Some ReasonConditionMet) out
      else oc_finish TFalse (Some ReasonThresholdUnmet) out)"

definition evaluateRatio ::
  "'f arith \<Rightarrow> 'f threshold_params \<Rightarrow> 'f series \<Rightarrow> int \<Rightarrow> int \<Rightarrow> 'f outcome \<Rightarrow> 'f outcome" where
  "evaluateRatio ar p s from to' out0 =
     (let numerators = Known s from to'; out = out0\<lparr>oc_Samples := int (length numerators)\<rparr> in
      if numerators = [] then no_data_yet out
      else if int (length numerators) < tp_MinSamples p then oc_finish TUnknown (Some ReasonFewSamples) out
      else let numerator = float_sum ar numerators; denominator = SumDenominator ar s from to';
               out = out\<lparr>oc_Denominator := denominator\<rparr> in
        if a_eq ar denominator (a_lit ar 0) then no_data_yet out
        else let out = out\<lparr>oc_Observed := Some (a_div ar numerator denominator)\<rparr> in
          if a_lt ar denominator (tp_MinDenominator p) then oc_finish TUnknown (Some ReasonSmallDenom) out
          else (case Bound ar (tp_Op p) numerator denominator (tp_Confidence p) of
                  None \<Rightarrow> no_data_yet out
                | Some bound \<Rightarrow> judge ar p bound (out\<lparr>oc_Score := Some bound\<rparr>)))"

definition threshold_Evaluate :: "'f arith \<Rightarrow> 'f condition \<Rightarrow> 'f threshold_params \<Rightarrow> int \<Rightarrow> 'f series \<Rightarrow> 'f outcome" where
  "threshold_Evaluate ar c p now s =
     (case windowIndices s now (tp_WindowBuckets p) of (from, to') \<Rightarrow>
        let out = (cond_outcome ar c)\<lparr>oc_Window := Some (BucketStart s from, BucketStart s to')\<rparr> in
        if metric_Ratio (cb_metric (co_base c)) then evaluateRatio ar p s from to' out
        else let known = Known s from to'; out = out\<lparr>oc_Samples := int (length known)\<rparr> in
          if known = [] then no_data_yet out
          else if int (length known) < tp_MinSamples p then oc_finish TUnknown (Some ReasonFewSamples) out
          else (case Reduce ar (cb_agg (co_base c)) known of
                  Inl e \<Rightarrow> oc_finish TUnknown (Some ReasonFetchFailed) (out\<lparr>oc_Err := Some e\<rparr>)
                | Inr observed \<Rightarrow> judge ar p observed (out\<lparr>oc_Observed := Some observed\<rparr>)))"

definition clearsRatio :: "'f arith \<Rightarrow> 'f spike_params \<Rightarrow> 'f \<Rightarrow> 'f \<Rightarrow> bool" where
  "clearsRatio ar p observed median \<longleftrightarrow>
     (if a_le ar median (a_lit ar 0) then True
      else if sp_Direction p = DirectionDown then a_le ar (a_mul ar observed (sp_MinRatio p)) median
      else a_le ar (a_mul ar (sp_MinRatio p) median) observed)"

definition spike_gate :: "'f arith \<Rightarrow> 'f spike_params \<Rightarrow> 'f \<Rightarrow> 'f \<Rightarrow> 'f \<Rightarrow> 'f \<Rightarrow> 'f outcome \<Rightarrow> 'f outcome" where
  "spike_gate ar p z delta observed median out =
     (if a_lt ar z (sp_Z p) then oc_finish TFalse (Some ReasonBelowZ) out
      else if a_lt ar delta (sp_MinDelta p) then oc_finish TFalse (Some ReasonSmallDelta) out
      else if \<not> clearsRatio ar p observed median then oc_finish TFalse (Some ReasonSmallRatio) out
      else oc_finish TTrue (Some ReasonConditionMet) out)"

definition spike_baseline ::
  "'f arith \<Rightarrow> 'f condition \<Rightarrow> 'f spike_params \<Rightarrow> 'f series \<Rightarrow> int \<Rightarrow> 'f \<Rightarrow> 'f outcome \<Rightarrow> 'f outcome" where
  "spike_baseline ar c p rolled obs x out0 =
     (let baselineTo = obs - sp_GuardBuckets p;
          baseline = Known rolled (baselineTo - sp_BaselineBuckets p) baselineTo;
          out = out0\<lparr>oc_BaselineSamples := int (length baseline)\<rparr> in
      if int (length baseline) < sp_MinBaseline p then oc_finish TUnknown (Some ReasonShortBaseline) out
      else let (median, mad) = (case MAD ar baseline of Some mm \<Rightarrow> mm | None \<Rightarrow> (a_lit ar 0, a_lit ar 0));
               out = out\<lparr>oc_Baseline := Some median\<rparr>;
               scale = Scale ar median mad (mt_CountLike (cb_metric (co_base c))) (sp_MinScale p);
               up = a_sub ar x median;
               delta = (if sp_Direction p = DirectionDown then a_neg ar up else up);
               z = a_div ar delta scale in
        spike_gate ar p z delta x median (out\<lparr>oc_Score := Some z\<rparr>))"

definition spike_Evaluate :: "'f arith \<Rightarrow> 'f condition \<Rightarrow> 'f spike_params \<Rightarrow> int \<Rightarrow> 'f series \<Rightarrow> 'f outcome" where
  "spike_Evaluate ar c p now s =
     (let out = cond_outcome ar c;
          rolled = Rolling ar (cb_agg (co_base c)) (sp_WindowBuckets p) (sp_MinSamples p) s;
          to' = snd (windowIndices s now (sp_WindowBuckets p));
          obs = to' - 1; from = obs - sp_WindowBuckets p + 1 in
      if obs < 0 then no_data_yet out
      else let out = out\<lparr>oc_Window := Some (BucketStart s from, BucketStart s to')\<rparr>;
               denominator = SumDenominator ar s from to' in
        if metric_Ratio (cb_metric (co_base c)) \<and> a_lt ar denominator (sp_MinDenominator p)
        then oc_finish TUnknown (Some ReasonSmallDenom) (out\<lparr>oc_Denominator := denominator\<rparr>)
        else (case se_At rolled obs of
                None \<Rightarrow> no_data_yet out
              | Some x \<Rightarrow> spike_baseline ar c p rolled obs x
                  (out\<lparr>oc_Observed := Some x, oc_Samples := int (length (Known s from to'))\<rparr>)))"

definition nonzero_at :: "'f arith \<Rightarrow> 'f series \<Rightarrow> int \<Rightarrow> bool" where
  "nonzero_at ar s i \<longleftrightarrow> (case se_At s i of Some v \<Rightarrow> \<not> a_eq ar v (a_lit ar 0) | None \<Rightarrow> False)"

definition absence_Evaluate :: "'f arith \<Rightarrow> 'f condition \<Rightarrow> absence_params \<Rightarrow> int \<Rightarrow> 'f series \<Rightarrow> 'f outcome" where
  "absence_Evaluate ar c p now s =
     (case windowIndices s now (ap_ForBuckets p) of (from, to') \<Rightarrow>
        let out = (cond_outcome ar c)\<lparr>oc_Window := Some (BucketStart s from, BucketStart s to')\<rparr> in
        if to' \<le> from then no_data_yet out
        else let out = out\<lparr>oc_Observed := Some (a_lit ar 0), oc_Samples := to' - from\<rparr> in
          if list_ex (nonzero_at ar s) [from..to' - 1] then oc_finish TFalse (Some ReasonThresholdUnmet) out
          else let reported = int (length (filter (nonzero_at ar s) [max (from - ap_BaselineBuckets p) 0..from - 1]));
                   out = out\<lparr>oc_BaselineSamples := reported\<rparr> in
            if reported < ap_MinBaseline p then oc_finish TFalse (Some ReasonNeverReported) out
            else oc_finish TTrue (Some ReasonConditionMet) out)"

definition cond_Evaluate :: "'f arith \<Rightarrow> 'f condition \<Rightarrow> int \<Rightarrow> 'f series \<Rightarrow> 'f outcome" where
  "cond_Evaluate ar c now s =
     (case co_params c of
        Threshold p \<Rightarrow> threshold_Evaluate ar c p now s
      | Spike p \<Rightarrow> spike_Evaluate ar c p now s
      | Absence p \<Rightarrow> absence_Evaluate ar c p now s)"

section \<open>Watches\<close>

definition MinInterval :: int where "MinInterval = MinStep"
definition MaxInterval :: int where "MaxInterval = seconds 3600"
definition MaxName :: nat where "MaxName = 200"

record action_spec =
  asp_ID :: string
  asp_Type :: string
  asp_Params :: "(string \<times> gval) list option"

record watch =
  w_ID :: string
  w_Name :: string
  w_Description :: string
  w_Enabled :: bool
  w_Severity :: string
  w_Combinator :: combinator
  w_Conditions :: "condition_spec list"
  w_Actions :: "action_spec list"
  w_OnNoData :: no_data
  w_Step :: int
  w_Interval :: int
  w_For :: int
  w_Cooldown :: int
  w_DefinitionHash :: string

definition HoldEvaluations :: "watch \<Rightarrow> int" where
  "HoldEvaluations w =
     (if w_For w \<le> 0 \<or> w_Interval w \<le> 0 then 1
      else let n = (w_For w + w_Interval w - 1) sdiv w_Interval w in if n < 1 then 1 else n)"

definition ValidSeverity :: "string \<Rightarrow> bool" where
  "ValidSeverity s \<longleftrightarrow> s \<in> {''info'', ''warning'', ''critical''}"

definition watch_validate :: "watch \<Rightarrow> alert_error option" where
  "watch_validate w =
     (if TrimSpace (w_Name w) = [] then Some (ErrInvalidWatch ''a watch needs a name'')
      else if MaxName < length (w_Name w) then Some (ErrInvalidWatch ''the name is too long'')
      else if w_Combinator w \<noteq> CombineAll \<and> w_Combinator w \<noteq> CombineAny
        then Some (ErrInvalidWatch ''combinator must be all or any'')
      else if w_Conditions w = [] then Some (ErrInvalidWatch ''a watch with no conditions asks nothing'')
      else if MaxConditions < length (w_Conditions w) then Some (ErrInvalidWatch ''too many conditions'')
      else if w_Step w < MinStep \<or> MaxStep < w_Step w then Some (ErrInvalidWatch ''step out of bounds'')
      else if w_Interval w < MinInterval \<or> MaxInterval < w_Interval w
        then Some (ErrInvalidWatch ''interval out of bounds'')
      else if w_For w < 0 \<or> w_Cooldown w < 0 then Some (ErrInvalidWatch ''for and cooldown may not be negative'')
      else if \<not> ValidSeverity (w_Severity w) then Some (ErrInvalidWatch ''severity'')
      else None)"

fun build_conditions ::
  "'f arith \<Rightarrow> int \<Rightarrow> string set \<Rightarrow> condition_spec list \<Rightarrow> (alert_error, 'f condition list) res" where
  "build_conditions ar step seen [] = Inr []"
| "build_conditions ar step seen (spec # specs) =
     (if cs_ID spec \<in> seen then Inl (ErrInvalidWatch ''two conditions share an id'')
      else bind_res (NewCondition ar spec step) (\<lambda>c.
           bind_res (build_conditions ar step (insert (cs_ID spec) seen) specs) (\<lambda>cs. Inr (c # cs))))"

record 'f built_watch =
  bw_Watch :: watch
  bw_Conditions :: "'f condition list"

definition watch_Build :: "'f arith \<Rightarrow> watch \<Rightarrow> (alert_error, 'f built_watch) res" where
  "watch_Build ar w =
     (case watch_validate w of
        Some e \<Rightarrow> Inl e
      | None \<Rightarrow> bind_res (build_conditions ar (w_Step w) {} (w_Conditions w)) (\<lambda>cs.
          Inr \<lparr>bw_Watch = w, bw_Conditions = cs\<rparr>))"

definition watch_Downward :: "'f built_watch \<Rightarrow> bool" where
  "watch_Downward b = list_ex cond_Downward (bw_Conditions b)"

text \<open>
  The plan: the queries in the order their keys first occur, each widened by the later ones
  with its key.
\<close>

fun plan_add :: "alert_query \<Rightarrow> alert_query list \<Rightarrow> alert_query list" where
  "plan_add q [] = [q]"
| "plan_add q (x # xs) = (if query_Key x = query_Key q then Widen x q # xs else x # plan_add q xs)"

definition Plan :: "int \<Rightarrow> 'f built_watch \<Rightarrow> alert_query list" where
  "Plan now b = foldl (\<lambda>plan c. plan_add (cond_Query now c) plan) [] (bw_Conditions b)"

type_synonym 'f fetched = "query_key \<rightharpoonup> (alert_error, 'f series) res"

definition fetchAll :: "(alert_query \<Rightarrow> (alert_error, 'f series) res) \<Rightarrow> alert_query list \<Rightarrow> 'f fetched" where
  "fetchAll fetch plan = map_of (map (\<lambda>q. (query_Key q, fetch q)) plan)"

definition evaluateOne :: "'f arith \<Rightarrow> 'f built_watch \<Rightarrow> 'f condition \<Rightarrow> int \<Rightarrow> 'f fetched \<Rightarrow> 'f outcome" where
  "evaluateOne ar b c now fetched =
     (case fetched (query_Key (cond_Query now c)) of
        None \<Rightarrow> cond_Unavailable ar c ReasonFetchFailed (ErrFetch ''no result was fetched for this condition'')
      | Some (Inl ErrCoarseData) \<Rightarrow> cond_Unavailable ar c ReasonCoarseData ErrCoarseData
      | Some (Inl e) \<Rightarrow> cond_Unavailable ar c ReasonFetchFailed e
      | Some (Inr s) \<Rightarrow>
          let out = cond_Evaluate ar c now s in
          if oc_NoData out then oc_finish (no_data_Truth (w_OnNoData (bw_Watch b))) (oc_Reason out) out else out)"

datatype status = StatusOK | StatusFiring | StatusInsufficient | StatusError

definition allErrored :: "'f outcome list \<Rightarrow> bool" where
  "allErrored outcomes \<longleftrightarrow> outcomes \<noteq> [] \<and> list_all (\<lambda>o'. oc_Err o' \<noteq> None) outcomes"

definition statusOf :: "truth \<Rightarrow> 'f outcome list \<Rightarrow> status" where
  "statusOf v outcomes =
     (case v of TTrue \<Rightarrow> StatusFiring | TFalse \<Rightarrow> StatusOK
      | TUnknown \<Rightarrow> if allErrored outcomes then StatusError else StatusInsufficient)"

definition widenSpan :: "(int \<times> int) option \<Rightarrow> (int \<times> int) option \<Rightarrow> (int \<times> int) option" where
  "widenSpan covered candidate =
     (case candidate of
        None \<Rightarrow> covered
      | Some (cf, ct) \<Rightarrow>
          (case covered of None \<Rightarrow> Some (cf, ct) | Some (f, t) \<Rightarrow> Some (min cf f, max ct t)))"

record 'f evaluation =
  ev_At :: int
  ev_Combinator :: combinator
  ev_Outcomes :: "'f outcome list"
  ev_Verdict :: truth
  ev_Status :: status
  ev_Matched :: nat
  ev_Total :: nat
  ev_Degraded :: bool
  ev_Window :: "(int \<times> int) option"

definition watch_Evaluate :: "'f arith \<Rightarrow> 'f built_watch \<Rightarrow> int \<Rightarrow> 'f fetched \<Rightarrow> 'f evaluation" where
  "watch_Evaluate ar b now fetched =
     (let outs = map (\<lambda>c. evaluateOne ar b c now fetched) (bw_Conditions b);
          verdict = Combine (w_Combinator (bw_Watch b)) (map oc_Verdict outs) in
      \<lparr>ev_At = now, ev_Combinator = w_Combinator (bw_Watch b), ev_Outcomes = outs, ev_Verdict = verdict,
       ev_Status = statusOf verdict outs,
       ev_Matched = length (filter (\<lambda>o'. oc_Verdict o' = TTrue) outs), ev_Total = length (bw_Conditions b),
       ev_Degraded = list_ex (\<lambda>o'. oc_Err o' \<noteq> None \<or> oc_Verdict o' = TUnknown) outs,
       ev_Window = foldl widenSpan None (map oc_Window outs)\<rparr>)"

definition ev_Firing :: "'f evaluation \<Rightarrow> bool" where "ev_Firing e \<longleftrightarrow> ev_Verdict e = TTrue"
definition ev_Decided :: "'f evaluation \<Rightarrow> bool" where "ev_Decided e \<longleftrightarrow> ev_Verdict e \<noteq> TUnknown"

end
