(* ===== verification/Octo_Alert_State.thy ===== *)
theory Octo_Alert_State
  imports Octo_Watches
begin

text \<open>
  The state machine of a watch (\<^verbatim>\<open>alerting/state.go\<close>), what the store writes about it
  and about its incidents (\<^verbatim>\<open>alerting/store/record.go\<close>, \<^verbatim>\<open>store.go\<close>), and
  the announcements of the runner (\<^verbatim>\<open>runner.go\<close>, \<^verbatim>\<open>notify.go\<close>). The rows are
  those of one watch; a transaction is one function, which returns the old rows on an
  error. Incident ids are numbered as the database mints them.
\<close>

section \<open>The state machine\<close>

definition resolveEvaluations :: nat where "resolveEvaluations = 2"
definition staleEvaluations :: nat where "staleEvaluations = 30"

datatype watch_phase = PhaseOK | PhasePending | PhaseFiring | PhaseInvalid

record 'f alert_state =
  as_Phase :: watch_phase
  as_Since :: int
  as_Firing :: nat
  as_OK :: nat
  as_Errors :: nat
  as_DefinitionHash :: string
  as_LastEvalAt :: "int option"
  as_LastStatus :: "status option"
  as_LastValue :: "'f option"
  as_IncidentID :: "nat option"
  as_LastNotifiedAt :: "int option"
  as_MutedUntil :: "int option"
  as_NextDueAt :: int

datatype action_kind = ActionOpen | ActionRepeat | ActionResolve | ActionClose
datatype closed_reason = ClosedResolved | ClosedStale | ClosedEdited | ClosedDisabled | ClosedDeleted

record action =
  ac_Kind :: action_kind
  ac_At :: int
  ac_Reason :: "closed_reason option"

definition reset ::
  "'f alert_state \<Rightarrow> watch \<Rightarrow> int \<Rightarrow> closed_reason \<Rightarrow> 'f alert_state \<times> action list" where
  "reset s w now reason =
     (s\<lparr>as_Phase := PhaseOK, as_Since := now, as_Firing := 0, as_OK := 0, as_Errors := 0, as_IncidentID := None,
        as_LastNotifiedAt := None, as_DefinitionHash := w_DefinitionHash w\<rparr>,
      if as_Phase s = PhaseFiring \<and> as_IncidentID s \<noteq> None
      then [\<lparr>ac_Kind = ActionClose, ac_At = now, ac_Reason = Some reason\<rparr>] else [])"

definition Retire :: "'f alert_state \<Rightarrow> watch \<Rightarrow> int \<Rightarrow> closed_reason \<Rightarrow> 'f alert_state \<times> action list" where
  "Retire = reset"

definition firing ::
  "'f alert_state \<Rightarrow> watch \<Rightarrow> int \<Rightarrow> action list \<Rightarrow> 'f alert_state \<times> action list" where
  "firing s w now actions =
     (let n = s\<lparr>as_Firing := Suc (as_Firing s), as_OK := 0, as_Errors := 0\<rparr> in
      if int (as_Firing n) < HoldEvaluations w
      then (if as_Phase n \<noteq> PhasePending then n\<lparr>as_Phase := PhasePending, as_Since := now\<rparr> else n, actions)
      else if as_Phase n \<noteq> PhaseFiring
      then (n\<lparr>as_Phase := PhaseFiring, as_Since := now, as_IncidentID := None\<rparr>,
            actions @ [\<lparr>ac_Kind = ActionOpen, ac_At = now, ac_Reason = None\<rparr>])
      else (n, actions @ [\<lparr>ac_Kind = ActionRepeat, ac_At = now, ac_Reason = None\<rparr>]))"

definition recovered ::
  "'f alert_state \<Rightarrow> int \<Rightarrow> action list \<Rightarrow> 'f alert_state \<times> action list" where
  "recovered s now actions =
     (let n = s\<lparr>as_Firing := 0, as_Errors := 0, as_OK := Suc (as_OK s)\<rparr> in
      case as_Phase n of
        PhaseFiring \<Rightarrow>
          if as_OK n < resolveEvaluations then (n, actions)
          else (n\<lparr>as_Phase := PhaseOK, as_Since := now, as_IncidentID := None\<rparr>,
                actions @ [\<lparr>ac_Kind = ActionResolve, ac_At = now, ac_Reason = Some ClosedResolved\<rparr>])
      | PhasePending \<Rightarrow> (n\<lparr>as_Phase := PhaseOK, as_Since := now\<rparr>, actions)
      | _ \<Rightarrow> (n, actions))"

definition undecided ::
  "'f alert_state \<Rightarrow> int \<Rightarrow> action list \<Rightarrow> 'f alert_state \<times> action list" where
  "undecided s now actions =
     (let n = s\<lparr>as_Firing := 0, as_OK := 0, as_Errors := Suc (as_Errors s)\<rparr> in
      case as_Phase n of
        PhasePending \<Rightarrow> (n\<lparr>as_Phase := PhaseOK, as_Since := now\<rparr>, actions)
      | PhaseFiring \<Rightarrow>
          if as_Errors n < staleEvaluations then (n, actions)
          else (n\<lparr>as_Phase := PhaseOK, as_Since := now, as_IncidentID := None\<rparr>,
                actions @ [\<lparr>ac_Kind = ActionClose, ac_At = now, ac_Reason = Some ClosedStale\<rparr>])
      | _ \<Rightarrow> (n, actions))"

definition firstObserved :: "'f evaluation \<Rightarrow> 'f option" where
  "firstObserved ev = (case List.map_filter oc_Observed (ev_Outcomes ev) of [] \<Rightarrow> None | x # _ \<Rightarrow> Some x)"

definition alert_Step ::
  "'f alert_state \<Rightarrow> watch \<Rightarrow> 'f evaluation \<Rightarrow> int \<Rightarrow> 'f alert_state \<times> action list" where
  "alert_Step cur w ev now =
     (let n = cur\<lparr>as_LastEvalAt := Some now, as_LastStatus := Some (ev_Status ev), as_LastValue := firstObserved ev,
                  as_NextDueAt := now + w_Interval w\<rparr>;
          (n, actions) = (if as_DefinitionHash cur \<noteq> w_DefinitionHash w then reset n w now ClosedEdited else (n, [])) in
      if \<not> ev_Decided ev then undecided n now actions
      else if ev_Firing ev then firing n w now actions
      else recovered n now actions)"

definition state_Muted :: "'f alert_state \<Rightarrow> int \<Rightarrow> bool" where
  "state_Muted s now \<longleftrightarrow> (case as_MutedUntil s of None \<Rightarrow> False | Some t \<Rightarrow> now < t)"

section \<open>The store\<close>

record incident =
  in_OpenedAt :: int
  in_ResolvedAt :: "int option"
  in_ClosedReason :: "closed_reason option"
  in_Evaluations :: nat
  in_Notifications :: nat

record 'f alert_rows =
  ar_State :: "'f alert_state"
  ar_Incidents :: "nat \<rightharpoonup> incident"
  ar_NextIncident :: nat
  ar_History :: "(int \<times> status \<times> watch_phase \<times> watch_phase \<times> nat option) list"

record 'f alert_result =
  rs_Watch :: watch
  rs_Evaluation :: "'f evaluation"
  rs_Previous :: "'f alert_state"
  rs_State :: "'f alert_state"
  rs_Actions :: "action list"

definition Transitioned :: "'f alert_result \<Rightarrow> bool" where
  "Transitioned r \<longleftrightarrow> as_Phase (rs_Previous r) \<noteq> as_Phase (rs_State r)"

definition openIncident :: "'f alert_result \<Rightarrow> 'f alert_rows \<Rightarrow> nat \<times> 'f alert_rows" where
  "openIncident r d =
     (ar_NextIncident d,
      d\<lparr>ar_NextIncident := Suc (ar_NextIncident d),
        ar_Incidents := (ar_Incidents d)(ar_NextIncident d \<mapsto>
          \<lparr>in_OpenedAt = ev_At (rs_Evaluation r), in_ResolvedAt = None, in_ClosedReason = None,
           in_Evaluations = 0, in_Notifications = 0\<rparr>)\<rparr>)"

fun open_all :: "'f alert_result \<Rightarrow> action list \<Rightarrow> 'f alert_state \<times> 'f alert_rows \<Rightarrow> 'f alert_state \<times> 'f alert_rows" where
  "open_all r [] sd = sd"
| "open_all r (a # as) (s, d) =
     open_all r as
       (if ac_Kind a = ActionOpen then (case openIncident r d of (i, d1) \<Rightarrow> (s\<lparr>as_IncidentID := Some i\<rparr>, d1)) else (s, d))"

text \<open>The update of the state row is guarded by the evaluation time and leaves the mute alone.\<close>

definition writeState ::
  "'f alert_state \<Rightarrow> 'f alert_result \<Rightarrow> 'f alert_rows \<Rightarrow> 'f alert_rows option" where
  "writeState s r d =
     (case (as_LastEvalAt (ar_State d), as_LastEvalAt s) of
        (Some old, Some new) \<Rightarrow>
          if old < new then Some (d\<lparr>ar_State := s\<lparr>as_DefinitionHash := w_DefinitionHash (rs_Watch r),
               as_MutedUntil := as_MutedUntil (ar_State d)\<rparr>\<rparr>) else None
      | (None, _) \<Rightarrow> Some (d\<lparr>ar_State := s\<lparr>as_DefinitionHash := w_DefinitionHash (rs_Watch r),
               as_MutedUntil := as_MutedUntil (ar_State d)\<rparr>\<rparr>)
      | (Some old, None) \<Rightarrow> None)"

definition writeEvaluation :: "'f alert_state \<Rightarrow> 'f alert_result \<Rightarrow> 'f alert_rows \<Rightarrow> 'f alert_rows" where
  "writeEvaluation s r d =
     (let d1 = d\<lparr>ar_History := ar_History d @
          [(ev_At (rs_Evaluation r), ev_Status (rs_Evaluation r), as_Phase s, as_Phase (rs_Previous r), as_IncidentID s)]\<rparr> in
      case as_IncidentID s of
        None \<Rightarrow> d1
      | Some i \<Rightarrow> d1\<lparr>ar_Incidents := (ar_Incidents d1)(i := map_option
          (\<lambda>x. x\<lparr>in_Evaluations := Suc (in_Evaluations x)\<rparr>) (ar_Incidents d1 i))\<rparr>)"

definition close_incident :: "nat \<Rightarrow> int \<Rightarrow> closed_reason option \<Rightarrow> 'f alert_rows \<Rightarrow> 'f alert_rows" where
  "close_incident i t reason d =
     d\<lparr>ar_Incidents := (ar_Incidents d)(i := map_option
         (\<lambda>x. if in_ResolvedAt x = None then x\<lparr>in_ResolvedAt := Some t, in_ClosedReason := reason\<rparr> else x)
         (ar_Incidents d i))\<rparr>"

fun closeEpisodes :: "'f alert_result \<Rightarrow> action list \<Rightarrow> 'f alert_rows \<Rightarrow> 'f alert_rows" where
  "closeEpisodes r [] d = d"
| "closeEpisodes r (a # as) d =
     closeEpisodes r as
       (if ac_Kind a \<noteq> ActionResolve \<and> ac_Kind a \<noteq> ActionClose then d
        else (case as_IncidentID (rs_Previous r) of
                None \<Rightarrow> d | Some i \<Rightarrow> close_incident i (ac_At a) (ac_Reason a) d))"

text \<open>\<open>None\<close> is \<^verbatim>\<open>ErrStaleEvaluation\<close>, which rolls the transaction back.\<close>

definition store_Record :: "'f alert_result \<Rightarrow> 'f alert_rows \<Rightarrow> ('f alert_state \<times> 'f alert_rows) option" where
  "store_Record r d =
     (case open_all r (rs_Actions r) (rs_State r, d) of (s, d1) \<Rightarrow>
        (case writeState s r d1 of
           None \<Rightarrow> None
         | Some d2 \<Rightarrow> Some (s, closeEpisodes r (rs_Actions r) (writeEvaluation s r d2))))"

definition RecordNotification :: "nat option \<Rightarrow> int \<Rightarrow> 'f alert_rows \<Rightarrow> 'f alert_rows" where
  "RecordNotification incident t d =
     (let d1 = d\<lparr>ar_State := (ar_State d)\<lparr>as_LastNotifiedAt := Some t\<rparr>\<rparr> in
      case incident of
        None \<Rightarrow> d1
      | Some i \<Rightarrow> d1\<lparr>ar_Incidents := (ar_Incidents d1)(i := map_option
          (\<lambda>x. x\<lparr>in_Notifications := Suc (in_Notifications x)\<rparr>) (ar_Incidents d1 i))\<rparr>)"

text \<open>The retirement of a watch closes whatever is open and puts the machine at rest.\<close>

definition retireTx :: "closed_reason \<Rightarrow> int \<Rightarrow> 'f alert_rows \<Rightarrow> 'f alert_rows" where
  "retireTx reason t d =
     d\<lparr>ar_Incidents := (\<lambda>i. map_option
         (\<lambda>x. if in_ResolvedAt x = None then x\<lparr>in_ResolvedAt := Some t, in_ClosedReason := Some reason\<rparr> else x)
         (ar_Incidents d i)),
       ar_State := (ar_State d)\<lparr>as_Phase := PhaseOK, as_Since := t, as_Firing := 0, as_OK := 0, as_Errors := 0,
         as_IncidentID := None, as_LastNotifiedAt := None\<rparr>\<rparr>"

definition store_Mute :: "int option \<Rightarrow> 'f alert_rows \<Rightarrow> 'f alert_rows" where
  "store_Mute t d = d\<lparr>ar_State := (ar_State d)\<lparr>as_MutedUntil := t\<rparr>\<rparr>"

definition store_Defer :: "int \<Rightarrow> 'f alert_rows \<Rightarrow> 'f alert_rows" where
  "store_Defer t d = d\<lparr>ar_State := (ar_State d)\<lparr>as_NextDueAt := t\<rparr>\<rparr>"

definition MarkInvalid :: "int \<Rightarrow> int \<Rightarrow> 'f alert_rows \<Rightarrow> 'f alert_rows" where
  "MarkInvalid now t d =
     d\<lparr>ar_State := (ar_State d)\<lparr>as_Phase := PhaseInvalid, as_Since := now, as_NextDueAt := t,
          as_LastStatus := Some StatusError\<rparr>,
       ar_History := ar_History d @ [(now, StatusError, PhaseInvalid, PhaseInvalid, None)]\<rparr>"

definition new_rows :: "string \<Rightarrow> int \<Rightarrow> 'f alert_rows" where
  "new_rows hash now =
     \<lparr>ar_State = \<lparr>as_Phase = PhaseOK, as_Since = 0, as_Firing = 0, as_OK = 0, as_Errors = 0,
        as_DefinitionHash = hash, as_LastEvalAt = None, as_LastStatus = None, as_LastValue = None,
        as_IncidentID = None, as_LastNotifiedAt = None, as_MutedUntil = None, as_NextDueAt = now\<rparr>,
      ar_Incidents = Map.empty, ar_NextIncident = 0, ar_History = []\<rparr>"

section \<open>Evaluations in sequence\<close>

text \<open>One evaluation of the leader, from the rows it read to the rows it wrote.\<close>

definition evaluate ::
  "watch \<Rightarrow> 'f evaluation \<Rightarrow> int \<Rightarrow> 'f alert_rows \<Rightarrow> ('f alert_state \<times> 'f alert_rows) option" where
  "evaluate w ev now d =
     (case alert_Step (ar_State d) w ev now of (s, actions) \<Rightarrow>
        store_Record \<lparr>rs_Watch = w, rs_Evaluation = ev, rs_Previous = ar_State d, rs_State = s,
          rs_Actions = actions\<rparr> d)"

text \<open>
  The life of a watch: evaluations, edits of its definition, disabling, muting, deferring,
  and the notes of its announcements.
\<close>

inductive watch_step :: "(watch \<Rightarrow> bool) \<Rightarrow> watch \<times> 'f alert_rows \<Rightarrow> watch \<times> 'f alert_rows \<Rightarrow> bool"
  for allowed :: "watch \<Rightarrow> bool" where
  evaluated: "evaluate w ev now d = Some (s, d') \<Longrightarrow> watch_step allowed (w, d) (w, d')"
| edited: "allowed w' \<Longrightarrow> watch_step allowed (w, d) (w', d)"
| disabled: "watch_step allowed (w, d) (w, retireTx reason t d)"
| muted: "watch_step allowed (w, d) (w, store_Mute u d)"
| deferred: "watch_step allowed (w, d) (w, store_Defer t d)"
| notified: "watch_step allowed (w, d) (w, RecordNotification incident t d)"

inductive watch_reachable :: "(watch \<Rightarrow> bool) \<Rightarrow> watch \<times> 'f alert_rows \<Rightarrow> bool"
  for allowed :: "watch \<Rightarrow> bool" where
  created: "allowed w \<Longrightarrow> watch_reachable allowed (w, new_rows (w_DefinitionHash w) now)"
| later: "watch_reachable allowed c \<Longrightarrow> watch_step allowed c c' \<Longrightarrow> watch_reachable allowed c'"

definition is_open :: "'f alert_rows \<Rightarrow> nat \<Rightarrow> bool" where
  "is_open d i \<longleftrightarrow> (\<exists>x. ar_Incidents d i = Some x \<and> in_ResolvedAt x = None)"

definition starts :: "action list \<Rightarrow> bool" where
  "starts as \<longleftrightarrow> (\<exists>a\<in>set as. ac_Kind a = ActionOpen)"

definition ends :: "action list \<Rightarrow> bool" where
  "ends as \<longleftrightarrow> (\<exists>a\<in>set as. ac_Kind a = ActionResolve \<or> ac_Kind a = ActionClose)"

subsection \<open>What one recorded evaluation does to the incidents\<close>

lemma openIncident_simps [simp]:
  "fst (openIncident r d) = ar_NextIncident d"
  "ar_NextIncident (snd (openIncident r d)) = Suc (ar_NextIncident d)"
  "is_open (snd (openIncident r d)) j \<longleftrightarrow> j = ar_NextIncident d \<or> is_open d j"
  by (auto simp: openIncident_def is_open_def)

lemma open_all_none: "\<not> starts as \<Longrightarrow> open_all r as sd = sd"
  by (induction r as sd rule: open_all.induct) (auto simp: starts_def)

lemma open_all_one:
  "length (filter (\<lambda>a. ac_Kind a = ActionOpen) as) = 1 \<Longrightarrow>
    open_all r as (s, d) = (s\<lparr>as_IncidentID := Some (fst (openIncident r d))\<rparr>, snd (openIncident r d))"
proof (induction as arbitrary: s d)
  case (Cons a as)
  show ?case
  proof (cases "ac_Kind a = ActionOpen")
    case True
    then have "\<not> starts as" using Cons.prems by (auto simp: starts_def filter_empty_conv)
    then show ?thesis using True by (simp add: open_all_none case_prod_unfold)
  next
    case False
    then show ?thesis using Cons by simp
  qed
qed simp

lemma is_open_close:
  "is_open (close_incident i t reason d) j \<longleftrightarrow> is_open d j \<and> j \<noteq> i"
  by (auto simp: is_open_def close_incident_def map_option_case split: option.splits if_splits)

lemma closeEpisodes_open:
  "is_open (closeEpisodes r as d) j \<longleftrightarrow> is_open d j \<and> (ends as \<longrightarrow> as_IncidentID (rs_Previous r) \<noteq> Some j)"
  by (induction r as d rule: closeEpisodes.induct)
    (auto simp: ends_def is_open_close split: option.splits)

lemma closeEpisodes_rest [simp]:
  "ar_State (closeEpisodes r as d) = ar_State d" "ar_NextIncident (closeEpisodes r as d) = ar_NextIncident d"
  "ar_Incidents (closeEpisodes r as d) j = None \<longleftrightarrow> ar_Incidents d j = None"
  by (induction r as d rule: closeEpisodes.induct)
    (auto simp: close_incident_def split: option.splits)

lemma writeEvaluation_rest [simp]:
  "ar_State (writeEvaluation s r d) = ar_State d" "ar_NextIncident (writeEvaluation s r d) = ar_NextIncident d"
  "is_open (writeEvaluation s r d) j \<longleftrightarrow> is_open d j"
  by (auto simp: writeEvaluation_def Let_def is_open_def map_option_case split: option.splits)

lemma writeState_rest:
  "writeState s r d = Some d' \<Longrightarrow> ar_NextIncident d' = ar_NextIncident d \<and> (is_open d' j \<longleftrightarrow> is_open d j) \<and>
     as_Phase (ar_State d') = as_Phase s \<and> as_IncidentID (ar_State d') = as_IncidentID s"
  by (auto simp: writeState_def is_open_def split: option.splits if_splits)

lemma Record_effect:
  assumes "store_Record r d = Some (s, d')"
    and "length (filter (\<lambda>a. ac_Kind a = ActionOpen) (rs_Actions r)) \<le> 1"
  shows "as_Phase (ar_State d') = as_Phase (rs_State r)"
    and "as_IncidentID (ar_State d') =
      (if starts (rs_Actions r) then Some (ar_NextIncident d) else as_IncidentID (rs_State r))"
    and "ar_NextIncident d' = (if starts (rs_Actions r) then Suc (ar_NextIncident d) else ar_NextIncident d)"
    and "is_open d' j \<longleftrightarrow> (is_open d j \<or> starts (rs_Actions r) \<and> j = ar_NextIncident d) \<and>
      (ends (rs_Actions r) \<longrightarrow> as_IncidentID (rs_Previous r) \<noteq> Some j)"
proof -
  obtain s1 d1 d2 where o': "open_all r (rs_Actions r) (rs_State r, d) = (s1, d1)" "writeState s1 r d1 = Some d2"
      "d' = closeEpisodes r (rs_Actions r) (writeEvaluation s1 r d2)"
    using assms(1) by (auto simp: store_Record_def split: prod.splits option.splits)
  have opened: "as_Phase s1 = as_Phase (rs_State r) \<and>
      as_IncidentID s1 = (if starts (rs_Actions r) then Some (ar_NextIncident d) else as_IncidentID (rs_State r)) \<and>
      ar_NextIncident d1 = (if starts (rs_Actions r) then Suc (ar_NextIncident d) else ar_NextIncident d) \<and>
      (\<forall>j. is_open d1 j \<longleftrightarrow> is_open d j \<or> starts (rs_Actions r) \<and> j = ar_NextIncident d)"
  proof (cases "starts (rs_Actions r)")
    case True
    then have "filter (\<lambda>a. ac_Kind a = ActionOpen) (rs_Actions r) \<noteq> []" by (auto simp: starts_def filter_empty_conv)
    then have "length (filter (\<lambda>a. ac_Kind a = ActionOpen) (rs_Actions r)) = 1" using assms(2)
      by (metis One_nat_def Suc_leI le_antisym length_greater_0_conv)
    from open_all_one [OF this, of r "rs_State r" d] o'(1)
    have "s1 = (rs_State r)\<lparr>as_IncidentID := Some (fst (openIncident r d))\<rparr>" "d1 = snd (openIncident r d)" by simp_all
    then show ?thesis using True by auto
  next
    case False
    then show ?thesis using o'(1) by (simp add: open_all_none)
  qed
  note W = writeState_rest [OF o'(2)]
  show "as_Phase (ar_State d') = as_Phase (rs_State r)" "as_IncidentID (ar_State d') =
      (if starts (rs_Actions r) then Some (ar_NextIncident d) else as_IncidentID (rs_State r))"
    "ar_NextIncident d' = (if starts (rs_Actions r) then Suc (ar_NextIncident d) else ar_NextIncident d)"
    using W opened by (auto simp: o'(3))
  show "is_open d' j \<longleftrightarrow> (is_open d j \<or> starts (rs_Actions r) \<and> j = ar_NextIncident d) \<and>
      (ends (rs_Actions r) \<longrightarrow> as_IncidentID (rs_Previous r) \<noteq> Some j)"
    using W opened by (auto simp: o'(3) closeEpisodes_open)
qed

subsection \<open>What a step of the machine asks for\<close>

lemma action_simps [simp]:
  "starts [] = False" "ends [] = False"
  "starts (as @ bs) = (starts as \<or> starts bs)" "ends (as @ bs) = (ends as \<or> ends bs)"
  "starts [a] = (ac_Kind a = ActionOpen)" "ends [a] = (ac_Kind a = ActionResolve \<or> ac_Kind a = ActionClose)"
  by (auto simp: starts_def ends_def)

definition asked :: "'f alert_state \<Rightarrow> action list \<Rightarrow> 'f alert_state \<times> action list \<Rightarrow> bool" where
  "asked cur before out \<longleftrightarrow>
     (case out of (s, as) \<Rightarrow>
        \<exists>new. as = before @ new \<and> length (filter (\<lambda>a. ac_Kind a = ActionOpen) new) \<le> 1 \<and>
          (ends new \<longrightarrow> as_Phase cur = PhaseFiring \<and> as_Phase s = PhaseOK \<and> as_IncidentID s = None) \<and>
          (starts new \<longrightarrow> as_Phase cur \<noteq> PhaseFiring \<and> as_Phase s = PhaseFiring) \<and>
          (\<not> starts new \<longrightarrow> \<not> ends new \<longrightarrow> as_IncidentID s = as_IncidentID cur) \<and>
          (as_Phase s = PhaseFiring \<longrightarrow> \<not> starts new \<longrightarrow> as_Phase cur = PhaseFiring))"

lemma asked_firing: "asked s before (firing s w now before)"
  by (auto simp: asked_def firing_def Let_def)

lemma asked_recovered: "asked s before (recovered s now before)"
  by (cases "as_Phase s") (auto simp: asked_def recovered_def Let_def)

lemma asked_undecided: "asked s before (undecided s now before)"
  by (cases "as_Phase s") (auto simp: asked_def undecided_def Let_def)

text \<open>The state in which the verdict is looked at, and what an edit closed before that.\<close>

definition after_edit :: "'f alert_state \<Rightarrow> watch \<Rightarrow> 'f evaluation \<Rightarrow> int \<Rightarrow> 'f alert_state \<times> action list" where
  "after_edit cur w ev now =
     (let n = cur\<lparr>as_LastEvalAt := Some now, as_LastStatus := Some (ev_Status ev), as_LastValue := firstObserved ev,
                  as_NextDueAt := now + w_Interval w\<rparr> in
      if as_DefinitionHash cur \<noteq> w_DefinitionHash w then reset n w now ClosedEdited else (n, []))"

lemma Step_after_edit:
  "alert_Step cur w ev now =
     (case after_edit cur w ev now of (n, actions) \<Rightarrow>
        if \<not> ev_Decided ev then undecided n now actions
        else if ev_Firing ev then firing n w now actions
        else recovered n now actions)"
  by (simp add: alert_Step_def after_edit_def Let_def)

lemma Step_asked: "after_edit cur w ev now = (n, before) \<Longrightarrow> asked n before (alert_Step cur w ev now)"
  by (simp add: Step_after_edit asked_firing asked_recovered asked_undecided)

lemma after_edit_cases:
  assumes "after_edit cur w ev now = (n, before)"
  shows "(as_Phase n = as_Phase cur \<and> as_IncidentID n = as_IncidentID cur \<and> before = []) \<or>
    (as_Phase n = PhaseOK \<and> as_IncidentID n = None \<and> \<not> starts before \<and>
     (ends before \<longleftrightarrow> as_Phase cur = PhaseFiring \<and> as_IncidentID cur \<noteq> None) \<and>
     filter (\<lambda>a. ac_Kind a = ActionOpen) before = [])"
  using assms by (auto simp: after_edit_def reset_def Let_def starts_def ends_def split: if_splits)

lemma Step_effect:
  assumes "alert_Step cur w ev now = (s, as)"
  shows "length (filter (\<lambda>a. ac_Kind a = ActionOpen) as) \<le> 1"
    and "ends as \<Longrightarrow> as_Phase cur = PhaseFiring"
    and "as_Phase s = PhaseFiring \<Longrightarrow> starts as \<or> as_Phase cur = PhaseFiring \<and> \<not> ends as"
    and "starts as \<Longrightarrow> as_Phase s = PhaseFiring"
    and "\<not> starts as \<Longrightarrow> as_IncidentID s = None \<or> as_IncidentID s = as_IncidentID cur \<and> \<not> ends as"
    and "as_IncidentID cur \<noteq> None \<Longrightarrow> as_Phase cur = PhaseFiring \<Longrightarrow> starts as \<Longrightarrow> ends as"
    and "as_Phase s = PhaseFiring \<Longrightarrow> \<not> starts as \<Longrightarrow> as_IncidentID s = as_IncidentID cur"
proof -
  obtain n before where n: "after_edit cur w ev now = (n, before)" by force
  obtain new where new: "as = before @ new" "length (filter (\<lambda>a. ac_Kind a = ActionOpen) new) \<le> 1"
      "ends new \<longrightarrow> as_Phase n = PhaseFiring \<and> as_Phase s = PhaseOK \<and> as_IncidentID s = None"
      "starts new \<longrightarrow> as_Phase n \<noteq> PhaseFiring \<and> as_Phase s = PhaseFiring"
      "\<not> starts new \<longrightarrow> \<not> ends new \<longrightarrow> as_IncidentID s = as_IncidentID n"
      "as_Phase s = PhaseFiring \<longrightarrow> \<not> starts new \<longrightarrow> as_Phase n = PhaseFiring"
    using Step_asked [OF n] unfolding assms asked_def by auto
  note c = after_edit_cases [OF n]
  show "length (filter (\<lambda>a. ac_Kind a = ActionOpen) as) \<le> 1" using c new(1,2) by auto
  show "as_Phase cur = PhaseFiring" if "ends as" using c new(1,3) that by auto
  show "starts as \<or> as_Phase cur = PhaseFiring \<and> \<not> ends as" if "as_Phase s = PhaseFiring"
    using c new that by auto
  show "as_Phase s = PhaseFiring" if "starts as" using c new that by auto
  show "as_IncidentID s = None \<or> as_IncidentID s = as_IncidentID cur \<and> \<not> ends as" if "\<not> starts as"
    using c new that by auto
  show "ends as" if "as_IncidentID cur \<noteq> None" "as_Phase cur = PhaseFiring" "starts as"
    using c new that by auto
  show "as_IncidentID s = as_IncidentID cur" if "as_Phase s = PhaseFiring" "\<not> starts as"
    using c new that by auto
qed

section \<open>Incidents and the firing phase\<close>

definition prompt :: "watch \<Rightarrow> bool" where
  "prompt w \<longleftrightarrow> HoldEvaluations w = 1"

definition episode_ok :: "'f alert_rows \<Rightarrow> bool" where
  "episode_ok d \<longleftrightarrow>
     (as_Phase (ar_State d) = PhaseFiring \<longleftrightarrow> as_IncidentID (ar_State d) \<noteq> None) \<and>
     (\<forall>i. is_open d i \<longleftrightarrow> as_IncidentID (ar_State d) = Some i) \<and>
     (\<forall>i. is_open d i \<longrightarrow> i < ar_NextIncident d)"

text \<open>Without a hold a firing machine leaves its phase only by ending the episode.\<close>

lemma prompt_Step:
  assumes "alert_Step cur w ev now = (s, as)" "prompt w" "as_Phase cur = PhaseFiring" "as_IncidentID cur \<noteq> None"
  shows "as_Phase s = PhaseFiring \<or> ends as"
proof -
  obtain n before where n: "after_edit cur w ev now = (n, before)" by force
  have "ends before \<or> as_Phase n = PhaseFiring" using after_edit_cases [OF n] assms(3,4) by auto
  then show ?thesis
    using assms(1,2) unfolding Step_after_edit n prompt_def
    by (auto simp: firing_def recovered_def undecided_def Let_def split: if_splits watch_phase.splits)
qed

lemma episode_evaluate:
  assumes "evaluate w ev now d = Some (s', d')" "prompt w" and ok: "episode_ok d"
  shows "episode_ok d'"
proof -
  obtain s as where st: "alert_Step (ar_State d) w ev now = (s, as)" by force
  let ?r = "\<lparr>rs_Watch = w, rs_Evaluation = ev, rs_Previous = ar_State d, rs_State = s, rs_Actions = as\<rparr>"
  have rec: "store_Record ?r d = Some (s', d')" using assms(1) st by (simp add: evaluate_def)
  note S = Step_effect [OF st]
  note R = Record_effect [OF rec, simplified, OF S(1) [simplified]]
  have P: "as_Phase (ar_State d) = PhaseFiring \<longleftrightarrow> as_IncidentID (ar_State d) \<noteq> None"
      "\<And>i. is_open d i \<longleftrightarrow> as_IncidentID (ar_State d) = Some i" "\<And>i. is_open d i \<Longrightarrow> i < ar_NextIncident d"
    using ok by (auto simp: episode_ok_def)
  have fresh: "\<not> is_open d (ar_NextIncident d)" using P(3) by blast
  show ?thesis
  proof (cases "starts as")
    case True
    then have "as_Phase s = PhaseFiring" "as_IncidentID (ar_State d) \<noteq> None \<longrightarrow> ends as"
      using S(4,6) P(1) by auto
    then show ?thesis
      using True P fresh R by (auto simp: episode_ok_def)
  next
    case False
    have "as_Phase s = PhaseFiring \<longrightarrow> as_IncidentID s = as_IncidentID (ar_State d) \<and> \<not> ends as \<and> as_Phase (ar_State d) = PhaseFiring"
      using S(3,7) False by blast
    moreover have "as_Phase s \<noteq> PhaseFiring \<longrightarrow> as_IncidentID s = None \<and> (as_IncidentID (ar_State d) \<noteq> None \<longrightarrow> ends as)"
      using S(5) False prompt_Step [OF st assms(2)] P(1) by auto
    ultimately show ?thesis
      using False P R by (cases "as_Phase s = PhaseFiring") (auto simp: episode_ok_def)
  qed
qed

lemma row_updates_open [simp]:
  "is_open (retireTx reason t d) i = False" "is_open (store_Mute u d) i = is_open d i"
  "is_open (store_Defer t d) i = is_open d i" "is_open (RecordNotification incident t d) i = is_open d i"
  "is_open (MarkInvalid t t2 d) i = is_open d i"
  by (auto simp: is_open_def retireTx_def store_Mute_def store_Defer_def RecordNotification_def Let_def
      MarkInvalid_def map_option_case split: option.splits if_splits)

lemma row_updates_rest [simp]:
  "ar_NextIncident (retireTx reason t d) = ar_NextIncident d" "ar_NextIncident (store_Mute u d) = ar_NextIncident d"
  "ar_NextIncident (store_Defer t d) = ar_NextIncident d"
  "ar_NextIncident (RecordNotification incident t d) = ar_NextIncident d"
  "as_Phase (ar_State (retireTx reason t d)) = PhaseOK" "as_Phase (ar_State (store_Mute u d)) = as_Phase (ar_State d)"
  "as_Phase (ar_State (store_Defer t d)) = as_Phase (ar_State d)"
  "as_Phase (ar_State (RecordNotification incident t d)) = as_Phase (ar_State d)"
  "as_IncidentID (ar_State (retireTx reason t d)) = None"
  "as_IncidentID (ar_State (store_Mute u d)) = as_IncidentID (ar_State d)"
  "as_IncidentID (ar_State (store_Defer t d)) = as_IncidentID (ar_State d)"
  "as_IncidentID (ar_State (RecordNotification incident t d)) = as_IncidentID (ar_State d)"
  by (auto simp: retireTx_def store_Mute_def store_Defer_def RecordNotification_def Let_def split: option.splits)

lemma episode_step:
  "watch_step prompt c c' \<Longrightarrow> prompt (fst c) \<and> episode_ok (snd c) \<Longrightarrow> prompt (fst c') \<and> episode_ok (snd c')"
proof (induction rule: watch_step.induct)
  case (evaluated w ev now d s d')
  then show ?case using episode_evaluate by auto
qed (simp_all add: episode_ok_def)

lemma episode_reachable: "watch_reachable prompt c \<Longrightarrow> prompt (fst c) \<and> episode_ok (snd c)"
proof (induction rule: watch_reachable.induct)
  case (created w now)
  then show ?case by (simp add: episode_ok_def new_rows_def is_open_def)
next
  case (later c c')
  then show ?case using episode_step by blast
qed


definition sample_watch :: watch where
  "sample_watch =
     \<lparr>w_ID = ''w'', w_Name = ''errors'', w_Description = [], w_Enabled = True, w_Severity = ''warning'', w_Combinator = CombineAll,
      w_Conditions = [], w_Actions = [], w_OnNoData = NoDataOK, w_Step = seconds 60, w_Interval = seconds 60, w_For = seconds 120,
      w_Cooldown = 0, w_DefinitionHash = ''h''\<rparr>"

definition sample_evaluation :: "truth \<Rightarrow> rat evaluation" where
  "sample_evaluation v =
     \<lparr>ev_At = 0, ev_Combinator = CombineAll, ev_Outcomes = [], ev_Verdict = v, ev_Status = statusOf v ([] :: rat outcome list),
      ev_Matched = 0, ev_Total = 0, ev_Degraded = False, ev_Window = None\<rparr>"


section \<open>A flap during the hold orphans the incident\<close>

text \<open>An open incident that the state will never close again.\<close>

definition orphaned :: "nat \<Rightarrow> 'f alert_rows \<Rightarrow> bool" where
  "orphaned i d \<longleftrightarrow> is_open d i \<and> i < ar_NextIncident d \<and>
     (as_IncidentID (ar_State d) = Some i \<longrightarrow> as_Phase (ar_State d) \<noteq> PhaseFiring)"

lemma orphaned_evaluate:
  assumes "evaluate w ev now d = Some (s', d')" "orphaned i d"
  shows "orphaned i d'"
proof -
  obtain s as where st: "alert_Step (ar_State d) w ev now = (s, as)" by force
  let ?r = "\<lparr>rs_Watch = w, rs_Evaluation = ev, rs_Previous = ar_State d, rs_State = s, rs_Actions = as\<rparr>"
  have rec: "store_Record ?r d = Some (s', d')" using assms(1) st by (simp add: evaluate_def)
  note S = Step_effect [OF st]
  note R = Record_effect [OF rec, simplified, OF S(1) [simplified]]
  have o': "is_open d i" "i < ar_NextIncident d"
      "as_IncidentID (ar_State d) = Some i \<longrightarrow> as_Phase (ar_State d) \<noteq> PhaseFiring"
    using assms(2) by (auto simp: orphaned_def)
  have "as_Phase s = PhaseFiring \<longrightarrow> starts as \<or> as_IncidentID (ar_State d) \<noteq> Some i \<and> as_IncidentID s = as_IncidentID (ar_State d)"
    using S(3,7) o'(3) by blast
  then show ?thesis
    using R o' S(2) by (auto simp: orphaned_def)
qed

inductive only_evaluated :: "watch \<times> 'f alert_rows \<Rightarrow> watch \<times> 'f alert_rows \<Rightarrow> bool" where
  here: "only_evaluated c c"
| evaluation: "only_evaluated c (w, d) \<Longrightarrow> evaluate w ev now d = Some (s, d') \<Longrightarrow> only_evaluated c (w, d')"
| edit: "only_evaluated c (w, d) \<Longrightarrow> only_evaluated c (w', d)"

lemma orphaned_later: "only_evaluated c c' \<Longrightarrow> orphaned i (snd c) \<Longrightarrow> orphaned i (snd c')"
proof (induction rule: only_evaluated.induct)
  case (evaluation c w d ev now s d')
  then show ?case using orphaned_evaluate by auto
qed auto

text \<open>An evaluation that is recorded: the machine asked for nothing and the time is later.\<close>

lemma evaluate_quiet:
  assumes "alert_Step (ar_State d) w ev now = (s, [])" "\<And>t. as_LastEvalAt (ar_State d) = Some t \<Longrightarrow> t < now"
  obtains d' where "evaluate w ev now d = Some (s, d')" "ar_NextIncident d' = ar_NextIncident d"
    "\<And>j. is_open d' j \<longleftrightarrow> is_open d j"
    "ar_State d' = s\<lparr>as_DefinitionHash := w_DefinitionHash w, as_MutedUntil := as_MutedUntil (ar_State d)\<rparr>"
proof -
  let ?r = "\<lparr>rs_Watch = w, rs_Evaluation = ev, rs_Previous = ar_State d, rs_State = s, rs_Actions = []\<rparr>"
  have last: "as_LastEvalAt s = Some now"
    using assms(1) by (auto simp: alert_Step_def Let_def undecided_def firing_def recovered_def reset_def
        split: if_splits watch_phase.splits)
  obtain d1 where d1: "writeState s ?r d = Some d1"
      "d1 = d\<lparr>ar_State := s\<lparr>as_DefinitionHash := w_DefinitionHash w, as_MutedUntil := as_MutedUntil (ar_State d)\<rparr>\<rparr>"
    using assms(2) last by (auto simp: writeState_def split: option.splits)
  have "evaluate w ev now d = Some (s, writeEvaluation s ?r d1)"
    using d1(1) by (simp add: evaluate_def assms(1) store_Record_def)
  then show ?thesis
    by (rule that) (simp_all add: d1(2), simp add: is_open_def)
qed

text \<open>
  A firing watch with a hold of at least two evaluations that reads one clean evaluation, a
  firing one and a clean one again is back at rest with its incident still open, and nothing
  that is evaluated or edited afterwards ever closes that incident.
\<close>

theorem flap_orphans_incident:
  assumes hold: "2 \<le> HoldEvaluations w"
    and st: "as_Phase (ar_State d) = PhaseFiring" "as_IncidentID (ar_State d) = Some i" "as_OK (ar_State d) = 0"
      "as_DefinitionHash (ar_State d) = w_DefinitionHash w" "as_LastEvalAt (ar_State d) = Some t0"
    and o': "is_open d i" "i < ar_NextIncident d"
    and t: "t0 < t1" "t1 < t2" "t2 < t3"
    and ev: "ev_Verdict e1 = TFalse" "ev_Verdict e2 = TTrue" "ev_Verdict e3 = TFalse"
  shows "\<exists>s1 d1 s2 d2 s3 d3. evaluate w e1 t1 d = Some (s1, d1) \<and> evaluate w e2 t2 d1 = Some (s2, d2) \<and>
    evaluate w e3 t3 d2 = Some (s3, d3) \<and> as_Phase (ar_State d3) = PhaseOK \<and>
    (\<forall>w' d'. only_evaluated (w, d3) (w', d') \<longrightarrow> is_open d' i)"
proof -
  note step = alert_Step_def Let_def ev_Decided_def ev_Firing_def
  obtain s1 where s1: "alert_Step (ar_State d) w e1 t1 = (s1, [])" "as_Phase s1 = PhaseFiring"
      "as_IncidentID s1 = Some i" "as_Firing s1 = 0" "as_LastEvalAt s1 = Some t1"
    using st ev(1) by (simp add: step recovered_def resolveEvaluations_def)
  obtain d1 where d1: "evaluate w e1 t1 d = Some (s1, d1)" "ar_NextIncident d1 = ar_NextIncident d"
      "\<And>j. is_open d1 j \<longleftrightarrow> is_open d j"
      "ar_State d1 = s1\<lparr>as_DefinitionHash := w_DefinitionHash w, as_MutedUntil := as_MutedUntil (ar_State d)\<rparr>"
    by (rule evaluate_quiet [OF s1(1)]) (use st t in auto)
  obtain s2 where s2: "alert_Step (ar_State d1) w e2 t2 = (s2, [])" "as_Phase s2 = PhasePending"
      "as_LastEvalAt s2 = Some t2"
    using s1 d1(4) ev(2) hold by (simp add: step firing_def)
  obtain d2 where d2: "evaluate w e2 t2 d1 = Some (s2, d2)" "ar_NextIncident d2 = ar_NextIncident d1"
      "\<And>j. is_open d2 j \<longleftrightarrow> is_open d1 j"
      "ar_State d2 = s2\<lparr>as_DefinitionHash := w_DefinitionHash w, as_MutedUntil := as_MutedUntil (ar_State d1)\<rparr>"
    by (rule evaluate_quiet [OF s2(1)]) (use s1(5) d1(4) t in auto)
  obtain s3 where s3: "alert_Step (ar_State d2) w e3 t3 = (s3, [])" "as_Phase s3 = PhaseOK"
    using s2 d2(4) ev(3) by (simp add: step recovered_def)
  obtain d3 where d3: "evaluate w e3 t3 d2 = Some (s3, d3)" "ar_NextIncident d3 = ar_NextIncident d2"
      "\<And>j. is_open d3 j \<longleftrightarrow> is_open d2 j"
      "ar_State d3 = s3\<lparr>as_DefinitionHash := w_DefinitionHash w, as_MutedUntil := as_MutedUntil (ar_State d2)\<rparr>"
    by (rule evaluate_quiet [OF s3(1)]) (use s2(3) d2(4) t in auto)
  have ok: "as_Phase (ar_State d3) = PhaseOK" using d3(4) s3(2) by simp
  then have "orphaned i d3" using d1(2,3) d2(2,3) d3(2,3) o' by (simp add: orphaned_def)
  then have "\<forall>w' d'. only_evaluated (w, d3) (w', d') \<longrightarrow> is_open d' i"
    using orphaned_later by (fastforce simp: orphaned_def)
  then show ?thesis using d1(1) d2(1) d3(1) ok by blast
qed

definition sample_firing_rows :: "rat alert_rows" where
  "sample_firing_rows =
     snd (the (evaluate sample_watch (sample_evaluation TTrue) 2
       (snd (the (evaluate sample_watch (sample_evaluation TTrue) 1 (new_rows ''h'' 0))))))"

lemma sample_hold: "HoldEvaluations sample_watch = 2"
  by (simp add: HoldEvaluations_def sample_watch_def seconds_def signed_divide_int_def)

lemma sample_firing_facts:
  "as_Phase (ar_State sample_firing_rows) = PhaseFiring \<and> as_IncidentID (ar_State sample_firing_rows) = Some 0 \<and>
   as_OK (ar_State sample_firing_rows) = 0 \<and> as_DefinitionHash (ar_State sample_firing_rows) = ''h'' \<and>
   as_LastEvalAt (ar_State sample_firing_rows) = Some 2 \<and> is_open sample_firing_rows 0 \<and>
   ar_NextIncident sample_firing_rows = 1"
  unfolding sample_firing_rows_def
  by (simp add: evaluate_def alert_Step_def Let_def firing_def sample_hold new_rows_def store_Record_def writeState_def
      openIncident_def writeEvaluation_def is_open_def ev_Decided_def ev_Firing_def sample_evaluation_def
      sample_watch_def [THEN arg_cong, of w_DefinitionHash] seconds_def)

lemma flap_orphans_incident_witness:
  "\<exists>d. as_Phase (ar_State d) = PhaseOK \<and> is_open (d :: rat alert_rows) 0"
proof -
  note F = sample_firing_facts
  have "w_DefinitionHash sample_watch = ''h''" by (simp add: sample_watch_def)
  then obtain s1 d1 s2 d2 s3 d3 where "evaluate sample_watch (sample_evaluation TFalse) 5 d2 = Some (s3, d3)"
      "as_Phase (ar_State d3) = PhaseOK" "\<forall>w' d'. only_evaluated (sample_watch, d3) (w', d') \<longrightarrow> is_open d' 0"
    using flap_orphans_incident [of sample_watch sample_firing_rows 0 2 3 4 5 "sample_evaluation TFalse"
        "sample_evaluation TTrue" "sample_evaluation TFalse"] F
    by (auto simp: sample_hold sample_evaluation_def)
  then show ?thesis using only_evaluated.here by blast
qed

section \<open>Evidence\<close>

fun evaluate_all :: "watch \<Rightarrow> ('f evaluation \<times> int) list \<Rightarrow> 'f alert_rows \<Rightarrow> 'f alert_rows option" where
  "evaluate_all w [] d = Some d"
| "evaluate_all w ((ev, now) # es) d =
     (case evaluate w ev now d of None \<Rightarrow> None | Some (s, d') \<Rightarrow> evaluate_all w es d')"

text \<open>How many evaluations in a row, counted from the last, had the property.\<close>

definition streak :: "('f evaluation \<Rightarrow> bool) \<Rightarrow> 'f evaluation list \<Rightarrow> nat" where
  "streak P es = length (takeWhile P (rev es))"

definition clean :: "'f evaluation \<Rightarrow> bool" where
  "clean ev \<longleftrightarrow> ev_Decided ev \<and> \<not> ev_Firing ev"

definition counts :: "'f alert_state \<Rightarrow> 'f evaluation list \<Rightarrow> bool" where
  "counts s es \<longleftrightarrow> as_Firing s = streak ev_Firing es \<and> as_OK s = streak clean es \<and>
     as_Errors s = streak (\<lambda>ev. \<not> ev_Decided ev) es"

lemma streak_snoc: "streak P (es @ [ev]) = (if P ev then Suc (streak P es) else 0)"
  by (simp add: streak_def)

lemma Step_counts:
  assumes "alert_Step s w ev now = (s', as)" "counts s es" "as_DefinitionHash s = w_DefinitionHash w"
  shows "counts s' (es @ [ev])"
proof -
  have "ev_Firing ev \<Longrightarrow> ev_Decided ev" by (simp add: ev_Firing_def ev_Decided_def)
  then show ?thesis
    using assms by (auto simp: alert_Step_def Let_def undecided_def firing_def recovered_def counts_def streak_snoc
        clean_def split: if_splits watch_phase.splits)
qed

lemma open_all_counts:
  "open_all r as (s, d) = (s', d') \<Longrightarrow> (counts s' es \<longleftrightarrow> counts s es)"
  by (induction r as "(s, d)" arbitrary: s d rule: open_all.induct) (auto simp: counts_def split: if_splits prod.splits)

lemma evaluate_counts:
  assumes "evaluate w ev now d = Some (s, d')" "counts (ar_State d) es" "as_DefinitionHash (ar_State d) = w_DefinitionHash w"
  shows "counts (ar_State d') (es @ [ev]) \<and> as_DefinitionHash (ar_State d') = w_DefinitionHash w"
proof -
  obtain s0 as where st: "alert_Step (ar_State d) w ev now = (s0, as)" by force
  let ?r = "\<lparr>rs_Watch = w, rs_Evaluation = ev, rs_Previous = ar_State d, rs_State = s0, rs_Actions = as\<rparr>"
  obtain s1 d1 d2 where o': "open_all ?r as (s0, d) = (s1, d1)" "writeState s1 ?r d1 = Some d2"
      "d' = closeEpisodes ?r as (writeEvaluation s1 ?r d2)"
    using assms(1) st by (auto simp: evaluate_def store_Record_def split: prod.splits option.splits)
  have "counts s1 (es @ [ev])" using Step_counts [OF st assms(2,3)] open_all_counts [OF o'(1)] by blast
  moreover have "ar_State d2 = s1\<lparr>as_DefinitionHash := w_DefinitionHash w, as_MutedUntil := as_MutedUntil (ar_State d1)\<rparr>"
    using o'(2) by (auto simp: writeState_def split: option.splits if_splits)
  ultimately show ?thesis by (simp add: o'(3) counts_def)
qed

lemma evaluate_all_counts:
  "evaluate_all w es d = Some d' \<Longrightarrow> counts (ar_State d) before \<Longrightarrow> as_DefinitionHash (ar_State d) = w_DefinitionHash w \<Longrightarrow>
    counts (ar_State d') (before @ map fst es) \<and> as_DefinitionHash (ar_State d') = w_DefinitionHash w"
proof (induction w es d arbitrary: before rule: evaluate_all.induct)
  case (2 w ev now es d)
  obtain s d1 where e: "evaluate w ev now d = Some (s, d1)" "evaluate_all w es d1 = Some d'"
    using 2(2) by (auto split: option.splits)
  note E = evaluate_counts [OF e(1) 2(3,4)]
  from 2(1) [OF e(1) refl e(2), of "before @ [ev]"] E show ?case by simp
qed simp

text \<open>
  C26. Whatever the watch has seen since it was created, its next evaluation opens an incident
  only at the end of a full hold of firing evaluations in a row, records a recovery only after
  two clean evaluations in a row, and closes for lack of evidence only after thirty undecided
  ones in a row: an undecided evaluation never counts as a recovery.
\<close>

theorem transitions_need_their_evidence:
  assumes "evaluate_all w es (new_rows (w_DefinitionHash w) t) = Some d"
    and "alert_Step (ar_State d) w ev now = (s, as)" and "a \<in> set as"
  shows "(ac_Kind a = ActionOpen \<longrightarrow> HoldEvaluations w \<le> int (streak ev_Firing (map fst es @ [ev]))) \<and>
    (ac_Kind a = ActionResolve \<longrightarrow> 2 \<le> streak clean (map fst es @ [ev])) \<and>
    (ac_Kind a = ActionClose \<longrightarrow> 30 \<le> streak (\<lambda>ev. \<not> ev_Decided ev) (map fst es @ [ev]))"
proof -
  have "counts (ar_State (new_rows (w_DefinitionHash w) t)) []"
    "as_DefinitionHash (ar_State (new_rows (w_DefinitionHash w) t)) = w_DefinitionHash w"
    by (simp_all add: counts_def new_rows_def streak_def)
  from evaluate_all_counts [OF assms(1) this]
  have c: "counts (ar_State d) (map fst es)" "as_DefinitionHash (ar_State d) = w_DefinitionHash w" by simp_all
  have "ev_Firing ev \<Longrightarrow> ev_Decided ev" by (simp add: ev_Firing_def ev_Decided_def)
  then show ?thesis
    using assms(2,3) c
    by (auto simp: alert_Step_def Let_def undecided_def firing_def recovered_def counts_def streak_snoc clean_def
        resolveEvaluations_def staleEvaluations_def split: if_splits watch_phase.splits)
qed

lemma transitions_need_their_evidence_witness:
  "\<exists>d s as. evaluate_all sample_watch [(sample_evaluation TTrue, 1)] (new_rows ''h'' 0) = Some d \<and>
     alert_Step (ar_State d) sample_watch (sample_evaluation TTrue) 2 = (s, as) \<and> starts as \<and>
     HoldEvaluations sample_watch \<le> int (streak ev_Firing (map fst [(sample_evaluation TTrue, 1::int)] @ [sample_evaluation TTrue]))"
proof -
  have h: "w_DefinitionHash sample_watch = ''h''" by (simp add: sample_watch_def)
  note sims = evaluate_def alert_Step_def Let_def firing_def sample_hold new_rows_def store_Record_def writeState_def
      openIncident_def writeEvaluation_def ev_Decided_def ev_Firing_def sample_evaluation_def h
  obtain d s as where d: "evaluate_all sample_watch [(sample_evaluation TTrue, 1)] (new_rows ''h'' 0) = Some d"
      "alert_Step (ar_State d) sample_watch (sample_evaluation TTrue) 2 = (s, as)" "starts as"
    by (simp add: sims)
  then obtain a where "a \<in> set as" "ac_Kind a = ActionOpen" by (auto simp: starts_def)
  with transitions_need_their_evidence [of sample_watch "[(sample_evaluation TTrue, 1)]" 0 d
      "sample_evaluation TTrue" 2 s as a] d h show ?thesis by auto
qed

end
