(* ===== verification/Octo_Alert_Service.thy ===== *)
theory Octo_Alert_Service
  imports Octo_Alert_State
begin

text \<open>
  The actions a watch carries (\<^verbatim>\<open>alerting/action\<close>), the service that saves
  watches (\<^verbatim>\<open>alerting/service.go\<close>) and the table of watches with their rows
  (\<^verbatim>\<open>alerting/store/store.go\<close>). Whether a text is a mail address is a parameter, and
  so is the digest of a definition.
\<close>

section \<open>Actions\<close>

definition MaxActions :: nat where "MaxActions = 10"
definition maxRecipients :: nat where "maxRecipients = 50"
definition ActionTypeTopic :: string where "ActionTypeTopic = ''topic''"
definition ActionTypeEmail :: string where "ActionTypeEmail = ''email''"

text \<open>The decoding of an action's parameters ignores the fields it does not know.\<close>

definition list_item :: "gval \<Rightarrow> (alert_error, string) res" where
  "list_item v =
     (case v of GStr s \<Rightarrow> Inr s | GNull \<Rightarrow> Inr [] | _ \<Rightarrow> Inl (ErrInvalidParams ''not a string''))"

fun list_items :: "gval list \<Rightarrow> (alert_error, string list) res" where
  "list_items [] = Inr []"
| "list_items (v # vs) = bind_res (list_item v) (\<lambda>s. bind_res (list_items vs) (\<lambda>ss. Inr (s # ss)))"

definition list_param :: "(string \<times> gval) list \<Rightarrow> string \<Rightarrow> (alert_error, string list) res" where
  "list_param kvs key =
     (case named_field kvs key of
        None \<Rightarrow> Inr [] | Some GNull \<Rightarrow> Inr [] | Some GNilList \<Rightarrow> Inr []
      | Some (GList vs) \<Rightarrow> list_items vs | Some _ \<Rightarrow> Inl (ErrInvalidParams key))"

definition raw_fields :: "(string \<times> gval) list option \<Rightarrow> (string \<times> gval) list" where
  "raw_fields raw = (case raw of None \<Rightarrow> [] | Some kvs \<Rightarrow> kvs)"

record topic_params =
  top_DeploymentID :: string
  top_Subject :: string
  top_ReportTo :: "string list"

datatype deliverer = EmailAction "string list" | TopicAction topic_params

definition newEmailAction :: "(string \<Rightarrow> bool) \<Rightarrow> action_spec \<Rightarrow> (alert_error, deliverer) res" where
  "newEmailAction is_address spec =
     bind_res (list_param (raw_fields (asp_Params spec)) ''to'') (\<lambda>to'.
       if to' = [] then Inl (ErrInvalidParams ''an email action needs a recipient'')
       else if maxRecipients < length to' then Inl (ErrInvalidParams ''too many recipients'')
       else (case find (\<lambda>a. \<not> is_address (TrimSpace a)) to' of
               Some a \<Rightarrow> Inl (ErrInvalidParams (quote a @ '' is not an address''))
             | None \<Rightarrow> Inr (EmailAction to')))"

definition system_prefix :: string where "system_prefix = ''system:''"

definition validSubject :: "string \<Rightarrow> alert_error option" where
  "validSubject subject0 =
     (let subject = TrimSpace subject0 in
      if subject = [] then Some (ErrInvalidParams ''a topic action needs a subject'')
      else if list_ex (\<lambda>c. c \<in> set [CHR '' '', CHR 0x09, CHR 0x0D, CHR 0x0A]) subject
        then Some (ErrInvalidParams ''a subject may not contain whitespace'')
      else if CHR ''*'' \<in> set subject \<or> CHR ''>'' \<in> set subject
        then Some (ErrInvalidParams ''a subject published to may not contain a wildcard'')
      else if take (length system_prefix) subject = system_prefix
        then Some (ErrInvalidParams ''a topic action publishes to a deployment's own subject'')
      else None)"

definition newTopicAction :: "(string \<Rightarrow> bool) \<Rightarrow> action_spec \<Rightarrow> (alert_error, deliverer) res" where
  "newTopicAction is_address spec =
     (let kvs = raw_fields (asp_Params spec) in
      bind_res (string_param kvs ''deploymentId'') (\<lambda>deployment0. bind_res (string_param kvs ''subject'') (\<lambda>subject0.
      bind_res (list_param kvs ''reportTo'') (\<lambda>report0.
        let deployment = TrimSpace deployment0; subject = TrimSpace subject0; report = map TrimSpace report0 in
        if deployment = [] then Inl (ErrInvalidParams ''a topic action needs the deployment'')
        else (case validSubject subject of
                Some e \<Rightarrow> Inl e
              | None \<Rightarrow>
                  if maxRecipients < length report then Inl (ErrInvalidParams ''too many recipients'')
                  else (case find (\<lambda>a. \<not> is_address a) report of
                          Some a \<Rightarrow> Inl (ErrInvalidParams (quote a @ '' is not an address''))
                        | None \<Rightarrow> Inr (TopicAction \<lparr>top_DeploymentID = deployment, top_Subject = subject,
                                          top_ReportTo = report\<rparr>)))))))"

text \<open>What this process can deliver with: a broker connection and a mailer.\<close>

record dispatcher =
  dp_topics :: bool
  dp_mail :: bool

definition action_build ::
  "(string \<Rightarrow> bool) \<Rightarrow> dispatcher \<Rightarrow> action_spec \<Rightarrow> (alert_error, deliverer) res" where
  "action_build is_address dp spec =
     (if asp_Type spec = ActionTypeTopic
      then if \<not> dp_topics dp then Inl (ErrDelivery ''this process has no broker connection'')
           else newTopicAction is_address spec
      else if asp_Type spec = ActionTypeEmail
      then if \<not> dp_mail dp then Inl (ErrDelivery ''this process has no orchestrator address'')
           else newEmailAction is_address spec
      else Inl ErrUnknownAction)"

fun validate_actions :: "(string \<Rightarrow> bool) \<Rightarrow> string set \<Rightarrow> action_spec list \<Rightarrow> alert_error option" where
  "validate_actions is_address seen [] = None"
| "validate_actions is_address seen (spec # specs) =
     (if asp_ID spec = [] then Some (ErrInvalidParams ''an action needs an id'')
      else if asp_ID spec \<in> seen then Some (ErrInvalidWatch ''two actions share an id'')
      else (case action_build is_address \<lparr>dp_topics = True, dp_mail = True\<rparr> spec of
              Inl e \<Rightarrow> Some e
            | Inr _ \<Rightarrow> validate_actions is_address (insert (asp_ID spec) seen) specs))"

definition actions_Validate :: "(string \<Rightarrow> bool) \<Rightarrow> watch \<Rightarrow> alert_error option" where
  "actions_Validate is_address w =
     (if MaxActions < length (w_Actions w) then Some (ErrInvalidWatch ''too many actions'')
      else validate_actions is_address {} (w_Actions w))"

section \<open>The service\<close>

definition MaxWatches :: nat where "MaxWatches = 200"

definition normalize :: "watch \<Rightarrow> watch" where
  "normalize w =
     w\<lparr>w_Name := TrimSpace (w_Name w), w_Description := TrimSpace (w_Description w),
       w_Severity := (if w_Severity w = [] then ''warning'' else w_Severity w),
       w_OnNoData := (if w_OnNoData w = NoDataOther [] then NoDataOK else w_OnNoData w),
       w_Combinator := (if w_Combinator w = CombineOther [] then CombineAll else w_Combinator w)\<rparr>"

definition searchNeedsAScope :: "watch \<Rightarrow> alert_error option" where
  "searchNeedsAScope w =
     (if list_ex (\<lambda>c. cs_Source c = SourceLogs \<and> TrimSpace (sc_Search (cs_Scope c)) \<noteq> [] \<and>
           sc_DeploymentID (cs_Scope c) = [] \<and> sc_AppName (cs_Scope c) = []) (w_Conditions w)
      then Some (ErrInvalidParams ''a log search needs a deployment or app to scope it'') else None)"

definition check :: "'f arith \<Rightarrow> (string \<Rightarrow> bool) \<Rightarrow> watch \<Rightarrow> alert_error option" where
  "check ar is_address w =
     (case watch_Build ar (normalize w) of
        Inl e \<Rightarrow> Some e
      | Inr _ \<Rightarrow> (case actions_Validate is_address w of Some e \<Rightarrow> Some e | None \<Rightarrow> searchNeedsAScope w))"

text \<open>The part of a definition that gives a pending count its meaning.\<close>

record hashable =
  h_Combinator :: combinator
  h_Conditions :: "condition_spec list"
  h_OnNoData :: no_data
  h_StepMS :: int
  h_ForMS :: int
  h_IntervalMS :: int

definition Fingerprint :: "(hashable \<Rightarrow> string) \<Rightarrow> watch \<Rightarrow> string" where
  "Fingerprint digest w =
     digest \<lparr>h_Combinator = w_Combinator w, h_Conditions = w_Conditions w, h_OnNoData = w_OnNoData w,
       h_StepMS = Milliseconds (w_Step w), h_ForMS = Milliseconds (w_For w),
       h_IntervalMS = Milliseconds (w_Interval w)\<rparr>"

section \<open>The table of watches\<close>

text \<open>Durations are stored in whole seconds.\<close>

definition whole_seconds :: "int \<Rightarrow> int" where "whole_seconds d = seconds (d sdiv seconds 1)"

definition saved_row :: "(hashable \<Rightarrow> string) \<Rightarrow> string \<Rightarrow> watch \<Rightarrow> watch" where
  "saved_row digest key w =
     w\<lparr>w_ID := key, w_Step := whole_seconds (w_Step w), w_Interval := whole_seconds (w_Interval w),
       w_For := whole_seconds (w_For w), w_Cooldown := whole_seconds (w_Cooldown w),
       w_DefinitionHash := Fingerprint digest w\<rparr>"

type_synonym 'f watch_table = "(string \<times> watch \<times> 'f alert_rows) list"

text \<open>The columns' checks and the index on the lowered name.\<close>

definition columns_ok :: "watch \<Rightarrow> bool" where
  "columns_ok w \<longleftrightarrow> w_Combinator w \<in> {CombineAll, CombineAny} \<and> w_OnNoData w \<in> {NoDataOK, NoDataFire, NoDataKeep}"

definition name_taken :: "string \<Rightarrow> string \<Rightarrow> 'f watch_table \<Rightarrow> bool" where
  "name_taken key name tab \<longleftrightarrow>
     list_ex (\<lambda>(k, w, d). k \<noteq> key \<and> map lower_ascii (w_Name w) = map lower_ascii name) tab"

definition store_Create ::
  "(hashable \<Rightarrow> string) \<Rightarrow> string \<Rightarrow> int \<Rightarrow> watch \<Rightarrow> 'f watch_table \<Rightarrow> (alert_error, watch) res \<times> 'f watch_table" where
  "store_Create digest key now w tab =
     (let row = saved_row digest key w in
      if MaxWatches \<le> length tab then (Inl ErrTooManyWatches, tab)
      else if \<not> columns_ok w then (Inl (ErrStore ''create a watch''), tab)
      else if name_taken key (w_Name w) tab \<or> key \<in> fst ` set tab then (Inl ErrNameTaken, tab)
      else (Inr row, tab @ [(key, row, new_rows (w_DefinitionHash row) now)]))"

definition replace_row :: "string \<Rightarrow> watch \<times> 'f alert_rows \<Rightarrow> 'f watch_table \<Rightarrow> 'f watch_table" where
  "replace_row key row tab = map (\<lambda>(k, r). if k = key then (k, row) else (k, r)) tab"

definition store_Update ::
  "(hashable \<Rightarrow> string) \<Rightarrow> watch \<Rightarrow> int \<Rightarrow> 'f watch_table \<Rightarrow> (alert_error, watch) res \<times> 'f watch_table" where
  "store_Update digest w now tab =
     (let key = w_ID w; row = saved_row digest key w in
      case map_of tab key of
        None \<Rightarrow> (Inl ErrWatchNotFound, tab)
      | Some (old, d) \<Rightarrow>
          if \<not> columns_ok w then (Inl (ErrStore ''update a watch''), tab)
          else if name_taken key (w_Name w) tab then (Inl ErrNameTaken, tab)
          else (Inr row, replace_row key (row, if w_Enabled row then d else retireTx ClosedDisabled now d) tab))"

definition store_Delete :: "string \<Rightarrow> 'f watch_table \<Rightarrow> alert_error option \<times> 'f watch_table" where
  "store_Delete key tab =
     (if key \<in> fst ` set tab then (None, filter (\<lambda>(k, r). k \<noteq> key) tab) else (Some ErrWatchNotFound, tab))"

definition on_rows :: "string \<Rightarrow> ('f alert_rows \<Rightarrow> 'f alert_rows) \<Rightarrow> 'f watch_table \<Rightarrow> 'f watch_table" where
  "on_rows key f tab = map (\<lambda>(k, w, d). if k = key then (k, w, f d) else (k, w, d)) tab"

definition store_Retire :: "string \<Rightarrow> closed_reason \<Rightarrow> int \<Rightarrow> 'f watch_table \<Rightarrow> 'f watch_table" where
  "store_Retire key reason now tab = on_rows key (retireTx reason now) tab"

definition srv_Create ::
  "'f arith \<Rightarrow> (string \<Rightarrow> bool) \<Rightarrow> (hashable \<Rightarrow> string) \<Rightarrow> string \<Rightarrow> int \<Rightarrow> watch \<Rightarrow> 'f watch_table \<Rightarrow>
     (alert_error, watch) res \<times> 'f watch_table" where
  "srv_Create ar is_address digest key now w tab =
     (case check ar is_address w of
        Some e \<Rightarrow> (Inl e, tab)
      | None \<Rightarrow> if MaxWatches \<le> length tab then (Inl ErrTooManyWatches, tab)
                else store_Create digest key now (normalize w) tab)"

definition srv_Update ::
  "'f arith \<Rightarrow> (string \<Rightarrow> bool) \<Rightarrow> (hashable \<Rightarrow> string) \<Rightarrow> watch \<Rightarrow> int \<Rightarrow> 'f watch_table \<Rightarrow>
     (alert_error, watch) res \<times> 'f watch_table" where
  "srv_Update ar is_address digest w now tab =
     (case check ar is_address w of
        Some e \<Rightarrow> (Inl e, tab)
      | None \<Rightarrow> store_Update digest (normalize w) now tab)"

definition srv_Delete :: "string \<Rightarrow> int \<Rightarrow> 'f watch_table \<Rightarrow> alert_error option \<times> 'f watch_table" where
  "srv_Delete key now tab = store_Delete key (store_Retire key ClosedDeleted now tab)"

definition srv_Mute :: "string \<Rightarrow> int option \<Rightarrow> 'f watch_table \<Rightarrow> alert_error option \<times> 'f watch_table" where
  "srv_Mute key t tab =
     (case map_of tab key of None \<Rightarrow> (Some ErrWatchNotFound, tab) | Some _ \<Rightarrow> (None, on_rows key (store_Mute t) tab))"

text \<open>The watches that are due, oldest first, at most a given number of them.\<close>

definition store_Due :: "int \<Rightarrow> nat \<Rightarrow> 'f watch_table \<Rightarrow> 'f watch_table" where
  "store_Due now limit tab =
     take limit (sort_key (\<lambda>(k, w, d). as_NextDueAt (ar_State d))
       (filter (\<lambda>(k, w, d). w_Enabled w \<and> as_NextDueAt (ar_State d) \<le> now) tab))"

section \<open>Every saved watch can be evaluated\<close>

lemma whole_seconds_eq: "0 \<le> d \<Longrightarrow> whole_seconds d = (d div 1000000000) * 1000000000"
  by (cases "d = 0") (simp_all add: whole_seconds_def seconds_def signed_divide_int_def)

lemma whole_seconds_bounds:
  "0 \<le> d \<Longrightarrow> 0 \<le> whole_seconds d \<and> whole_seconds d \<le> d"
  "0 \<le> n \<Longrightarrow> seconds n \<le> d \<Longrightarrow> seconds n \<le> whole_seconds d"
proof -
  show "0 \<le> whole_seconds d \<and> whole_seconds d \<le> d" if "0 \<le> d"
    using that div_mult_mod_eq [of d 1000000000] pos_mod_sign [of 1000000000 d] by (simp add: whole_seconds_eq)
  show "seconds n \<le> whole_seconds d" if "0 \<le> n" "seconds n \<le> d"
  proof -
    have "n \<le> d div 1000000000" using that(2) zdiv_mono1 [of "n * 1000000000" d 1000000000] by (simp add: seconds_def)
    moreover have "0 \<le> d" using that by (simp add: seconds_def)
    ultimately show ?thesis by (simp add: seconds_def whole_seconds_eq)
  qed
qed

lemma new_params_step:
  "newThreshold ar (base\<lparr>cb_step := s\<rparr>) = newThreshold ar base"
  "newSpike ar (base\<lparr>cb_step := s\<rparr>) = newSpike ar base"
  "newAbsence (base\<lparr>cb_step := s\<rparr>) = newAbsence base"
  by (simp_all add: newThreshold_def newSpike_def newAbsence_def Let_def cong: if_cong)

lemma NewCondition_step:
  "NewCondition ar spec step = Inr c \<Longrightarrow> \<exists>c'. NewCondition ar spec step' = Inr c'"
proof -
  have base: "\<lparr>cb_spec = spec, cb_metric = m, cb_agg = agg, cb_step = step'\<rparr> =
      \<lparr>cb_spec = spec, cb_metric = m, cb_agg = agg, cb_step = step\<rparr>\<lparr>cb_step := step'\<rparr>" for m agg by simp
  assume "NewCondition ar spec step = Inr c"
  then show ?thesis
    unfolding NewCondition_def Let_def base new_params_step
    by (cases "LookupMetric (cs_Source spec) (cs_Metric spec)") (auto split: if_splits simp: map_sum_def split: sum.splits)
qed

lemma build_conditions_step:
  "build_conditions ar step seen specs = Inr cs \<Longrightarrow> \<exists>cs'. build_conditions ar step' seen specs = Inr cs'"
proof (induction specs arbitrary: seen cs)
  case (Cons spec specs)
  then obtain c cs1 where c: "NewCondition ar spec step = Inr c" "cs_ID spec \<notin> seen"
      "build_conditions ar step (insert (cs_ID spec) seen) specs = Inr cs1"
    by (auto split: if_splits simp: bind_res_Inr_iff)
  obtain c' where "NewCondition ar spec step' = Inr c'" using NewCondition_step [OF c(1)] by blast
  moreover obtain cs' where "build_conditions ar step' (insert (cs_ID spec) seen) specs = Inr cs'"
    using Cons.IH [OF c(3)] by blast
  ultimately show ?case using c(2) by simp
qed simp

lemma saved_row_builds:
  assumes "watch_Build ar w = Inr b"
  shows "\<exists>b'. watch_Build ar (saved_row digest key w) = Inr b'"
proof -
  let ?w = "saved_row digest key w"
  have v: "watch_validate w = None" using assms by (simp add: watch_Build_def split: option.splits)
  obtain cs where cs: "build_conditions ar (w_Step w) {} (w_Conditions w) = Inr cs"
    using assms v by (auto simp: watch_Build_def bind_res_Inr_iff)
  have b: "MinStep \<le> w_Step w" "w_Step w \<le> MaxStep" "MinInterval \<le> w_Interval w" "w_Interval w \<le> MaxInterval"
      "0 \<le> w_For w" "0 \<le> w_Cooldown w"
    using v by (auto simp: watch_validate_def split: if_splits)
  have lower: "MinStep \<le> whole_seconds (w_Step w)" "MinInterval \<le> whole_seconds (w_Interval w)"
    using whole_seconds_bounds(2) [of 30] b(1,3) by (auto simp: MinStep_def MinInterval_def)
  have pos: "0 \<le> w_Step w" "0 \<le> w_Interval w" using b(1,3) by (auto simp: MinStep_def MinInterval_def seconds_def)
  have upper: "whole_seconds (w_Step w) \<le> MaxStep" "whole_seconds (w_Interval w) \<le> MaxInterval"
      "0 \<le> whole_seconds (w_For w)" "0 \<le> whole_seconds (w_Cooldown w)"
    using whole_seconds_bounds(1) [OF pos(1)] whole_seconds_bounds(1) [OF pos(2)] whole_seconds_bounds(1) [OF b(5)]
      whole_seconds_bounds(1) [OF b(6)] b(2,4) by linarith+
  have "watch_validate ?w = None"
    using v lower upper unfolding watch_validate_def saved_row_def by (simp split: if_splits)
  moreover obtain cs' where "build_conditions ar (w_Step ?w) {} (w_Conditions ?w) = Inr cs'"
    using build_conditions_step [OF cs, of "w_Step ?w"] by (auto simp: saved_row_def)
  ultimately show ?thesis by (simp add: watch_Build_def)
qed

text \<open>Requests in the order they are served; a refused one leaves the table alone.\<close>

datatype request =
  CreateWatch string int watch | UpdateWatch watch int | DeleteWatch string int | MuteWatch string "int option"

fun serve ::
  "'f arith \<Rightarrow> (string \<Rightarrow> bool) \<Rightarrow> (hashable \<Rightarrow> string) \<Rightarrow> request \<Rightarrow> 'f watch_table \<Rightarrow> 'f watch_table" where
  "serve ar is_address digest (CreateWatch key now w) tab = snd (srv_Create ar is_address digest key now w tab)"
| "serve ar is_address digest (UpdateWatch w now) tab = snd (srv_Update ar is_address digest w now tab)"
| "serve ar is_address digest (DeleteWatch key now) tab = snd (srv_Delete key now tab)"
| "serve ar is_address digest (MuteWatch key t) tab = snd (srv_Mute key t tab)"

definition acceptable :: "'f arith \<Rightarrow> (string \<Rightarrow> bool) \<Rightarrow> watch \<Rightarrow> bool" where
  "acceptable ar is_address w \<longleftrightarrow>
     (\<exists>b. watch_Build ar w = Inr b) \<and> actions_Validate is_address w = None \<and> searchNeedsAScope w = None"

definition lowered :: "watch \<Rightarrow> string" where "lowered w = map lower_ascii (w_Name w)"

definition entries :: "'f watch_table \<Rightarrow> (string \<times> watch) list" where
  "entries tab = map (\<lambda>(k, w, d). (k, w)) tab"

definition table_ok :: "'f arith \<Rightarrow> (string \<Rightarrow> bool) \<Rightarrow> 'f watch_table \<Rightarrow> bool" where
  "table_ok ar is_address tab \<longleftrightarrow>
     distinct (map fst (entries tab)) \<and> distinct (map (lowered \<circ> snd) (entries tab)) \<and>
     length (entries tab) \<le> MaxWatches \<and>
     (\<forall>(k, w)\<in>set (entries tab). w_ID w = k \<and> acceptable ar is_address w)"

lemma entries_simps [simp]:
  "entries [] = []" "entries (tab @ tab') = entries tab @ entries tab'" "entries ((k, w, d) # tab) = (k, w) # entries tab"
  "length (entries tab) = length tab" "entries (on_rows key f tab) = entries tab"
  "entries (filter (\<lambda>(k, r). k \<noteq> key) tab) = filter (\<lambda>(k, w). k \<noteq> key) (entries tab)"
  "entries (replace_row key (v, c) tab) = map (\<lambda>(k, w). (k, if k = key then v else w)) (entries tab)"
  "fst ` set tab = fst ` set (entries tab)"
proof -
  show "entries (filter (\<lambda>(k, r). k \<noteq> key) tab) = filter (\<lambda>(k, w). k \<noteq> key) (entries tab)"
    by (induction tab) (auto simp: entries_def)
  show "fst ` set tab = fst ` set (entries tab)" by (force simp: entries_def)
qed (auto simp: entries_def on_rows_def replace_row_def)

lemma check_accepts:
  assumes "check ar is_address w = None"
  shows "acceptable ar is_address (saved_row digest key (normalize w))"
proof -
  obtain b where b: "watch_Build ar (normalize w) = Inr b" "actions_Validate is_address w = None"
      "searchNeedsAScope w = None"
    using assms by (auto simp: check_def split: sum.splits option.splits)
  have "w_Actions (saved_row digest key (normalize w)) = w_Actions w"
      "w_Conditions (saved_row digest key (normalize w)) = w_Conditions w"
    by (simp_all add: saved_row_def normalize_def)
  then have "actions_Validate is_address (saved_row digest key (normalize w)) = actions_Validate is_address w"
      "searchNeedsAScope (saved_row digest key (normalize w)) = searchNeedsAScope w"
    by (simp_all add: actions_Validate_def searchNeedsAScope_def)
  then show ?thesis using saved_row_builds [OF b(1)] b(2,3) by (simp add: acceptable_def)
qed

lemma not_taken:
  "\<not> name_taken key name tab \<longleftrightarrow> (\<forall>(k, w)\<in>set (entries tab). k \<noteq> key \<longrightarrow> lowered w \<noteq> map lower_ascii name)"
  by (auto simp: name_taken_def list_ex_iff lowered_def entries_def)

lemma saved_row_simps [simp]:
  "lowered (saved_row digest key w) = map lower_ascii (w_Name w)" "w_ID (saved_row digest key w) = key"
  by (simp_all add: lowered_def saved_row_def)

lemma table_ok_Create:
  assumes "table_ok ar is_address tab" "acceptable ar is_address (saved_row digest key w)"
  shows "table_ok ar is_address (snd (store_Create digest key now w tab))"
proof (cases "MaxWatches \<le> length tab \<or> \<not> columns_ok w \<or> name_taken key (w_Name w) tab \<or> key \<in> fst ` set tab")
  case True
  then show ?thesis using assms(1) by (auto simp: store_Create_def Let_def)
next
  case False
  then have "\<forall>(k, v)\<in>set (entries tab). k \<noteq> key \<and> lowered v \<noteq> map lower_ascii (w_Name w)"
    by (force simp: not_taken)
  then show ?thesis
    using False assms by (auto simp: store_Create_def Let_def table_ok_def)
qed

lemma table_ok_Delete: "table_ok ar is_address tab \<Longrightarrow> table_ok ar is_address (snd (store_Delete key tab))"
  using length_filter_le [of "\<lambda>(k, r). k \<noteq> key" tab]
  by (auto simp: store_Delete_def table_ok_def distinct_map_filter simp del: length_filter_le)

lemma table_ok_replace:
  assumes ok: "table_ok ar is_address tab" and new: "acceptable ar is_address w" "w_ID w = key"
    and free: "\<forall>(k, v)\<in>set (entries tab). k \<noteq> key \<longrightarrow> lowered v \<noteq> lowered w"
  shows "table_ok ar is_address (replace_row key (w, d) tab)"
proof -
  let ?f = "\<lambda>(k, v). (k, if k = key then w else v)"
  have keys: "map fst (map ?f es) = map fst es" for es by auto
  have "distinct (map fst es) \<Longrightarrow> distinct (map (lowered \<circ> snd) es) \<Longrightarrow>
      \<forall>(k, v)\<in>set es. k \<noteq> key \<longrightarrow> lowered v \<noteq> lowered w \<Longrightarrow> distinct (map (lowered \<circ> snd) (map ?f es))" for es
    by (induction es) (auto split: if_splits, force+)
  then show ?thesis
    using ok new free unfolding table_ok_def entries_simps keys by auto
qed

lemma table_ok_Update:
  assumes "table_ok ar is_address tab" "acceptable ar is_address (saved_row digest (w_ID w) w)"
  shows "table_ok ar is_address (snd (store_Update digest w now tab))"
  using assms unfolding store_Update_def Let_def
  by (auto simp: not_taken split: option.splits intro!: table_ok_replace)

lemma table_ok_on_rows: "table_ok ar is_address (on_rows key f tab) = table_ok ar is_address tab"
  unfolding table_ok_def entries_simps ..

lemma table_ok_serve: "table_ok ar is_address tab \<Longrightarrow> table_ok ar is_address (serve ar is_address digest r tab)"
proof (cases r)
  case (CreateWatch key now w)
  then show "table_ok ar is_address tab \<Longrightarrow> ?thesis"
    by (auto simp: srv_Create_def split: option.splits intro: table_ok_Create check_accepts)
next
  case (UpdateWatch w now)
  then show "table_ok ar is_address tab \<Longrightarrow> ?thesis"
    using check_accepts [of ar is_address w digest "w_ID w"]
    by (auto simp: srv_Update_def normalize_def split: option.splits intro!: table_ok_Update)
next
  case (DeleteWatch key now)
  then show "table_ok ar is_address tab \<Longrightarrow> ?thesis"
    by (simp add: srv_Delete_def table_ok_Delete store_Retire_def table_ok_on_rows)
next
  case (MuteWatch key t)
  then show "table_ok ar is_address tab \<Longrightarrow> ?thesis"
    by (simp add: srv_Mute_def table_ok_on_rows split: option.splits)
qed


end
