(* ===== verification/Octo_Coalesce.thy ===== *)
theory Octo_Coalesce
  imports Octo_Watches
begin

text \<open>
  Coalescing: a watch that fetches each set of rows once, over the union of the spans its
  conditions ask for, judges every condition as if it had fetched its own span. The conditions
  find their window by time, so the series may begin earlier than they asked.
\<close>

section \<open>Reading a series from either end\<close>

lemma upto_shift: "[a + k..b + k] = map (\<lambda>i. i + k) [a..b]" for k :: int
proof (induction a b rule: upto.induct)
  case (1 a b)
  then show ?case by (simp add: upto.simps [of a b] upto.simps [of "a + k"] algebra_simps)
qed

lemma filter_upto_within:
  fixes a b lo hi :: int
  assumes "\<And>i. P i \<Longrightarrow> lo \<le> i \<and> i \<le> hi"
  shows "filter P [max a lo..min b hi] = filter P [a..b]"
  by (rule sorted_distinct_set_unique) (use assms in \<open>auto intro: sorted_filter [of "\<lambda>x. x", simplified]\<close>)

lemma map_filter_within:
  fixes a b lo hi :: int
  assumes "\<And>i. f i \<noteq> None \<Longrightarrow> lo \<le> i \<and> i \<le> hi"
  shows "List.map_filter f [max a lo..min b hi] = List.map_filter f [a..b]"
  unfolding List.map_filter_def using filter_upto_within [of "\<lambda>i. f i \<noteq> None" lo hi a b] assms by simp

lemma cell_None: "cell col i \<noteq> None \<Longrightarrow> 0 \<le> i \<and> i \<le> int (length col) - 1"
  by (auto simp: cell_def split: if_splits)

lemma Known_eq: "Known s from to' = List.map_filter (se_At s) [from..to' - 1]"
proof -
  have "min to' (se_Len s) - 1 = min (to' - 1) (se_Len s - 1)" by simp
  then show ?thesis
    unfolding Known_def
    using map_filter_within [of "se_At s" 0 "se_Len s - 1" "from" "to' - 1"] cell_None [of "Values s"]
    by (simp add: se_At_def se_Len_def max.commute)
qed

lemma SumDenominator_eq:
  "SumDenominator ar s from to' = float_sum ar (List.map_filter (DenominatorAt s) [from..to' - 1])"
proof -
  have "min to' (int (length (Denominator s))) - 1 = min (to' - 1) (int (length (Denominator s)) - 1)" by simp
  then show ?thesis
    unfolding SumDenominator_def
    using map_filter_within [of "DenominatorAt s" 0 "int (length (Denominator s)) - 1" "from" "to' - 1"]
      cell_None [of "Denominator s"]
    by (simp add: DenominatorAt_def max.commute)
qed

definition ratio_at :: "'f series \<Rightarrow> int \<Rightarrow> ('f \<times> 'f) option" where
  "ratio_at s i = (case (se_At s i, DenominatorAt s i) of (Some n, Some d) \<Rightarrow> Some (n, d) | _ \<Rightarrow> None)"

lemma rollingRatio_eq:
  "rollingRatio ar s from to' minSamples =
     (let seen = List.map_filter (ratio_at s) [from..to' - 1];
          num = float_sum ar (map fst seen); den = float_sum ar (map snd seen) in
      if int (length seen) < minSamples \<or> a_eq ar den (a_lit ar 0) then None else Some (a_div ar num den))"
proof -
  have "ratio_at s i \<noteq> None \<Longrightarrow> 0 \<le> i \<and> i \<le> se_Len s - 1" for i
    using cell_None [of "Values s" i] by (auto simp: ratio_at_def se_At_def se_Len_def split: option.splits)
  then have "List.map_filter (ratio_at s) [max from 0..min to' (se_Len s) - 1] =
      List.map_filter (ratio_at s) [from..to' - 1]"
    using map_filter_within [of "ratio_at s" 0 "se_Len s - 1" "from" "to' - 1"]
    by (simp add: max.commute min_diff_distrib_left)
  then show ?thesis unfolding rollingRatio_def ratio_at_def by simp
qed

text \<open>\<open>wider k s s'\<close>: the series \<open>s\<close> begins \<open>k\<close> buckets before \<open>s'\<close> and agrees with it.\<close>

definition wider :: "int \<Rightarrow> 'f series \<Rightarrow> 'f series \<Rightarrow> bool" where
  "wider k s s' \<longleftrightarrow> 0 \<le> k \<and> se_Step s = se_Step s' \<and> StartMS s' = StartMS s + k * Milliseconds (se_Step s) \<and>
     se_Len s = se_Len s' + k \<and>
     (\<forall>i\<ge>0. se_At s (i + k) = se_At s' i \<and> DenominatorAt s (i + k) = DenominatorAt s' i)"

lemma map_filter_shift:
  fixes a b k :: int
  assumes "\<And>i. a \<le> i \<Longrightarrow> f (i + k) = g i"
  shows "List.map_filter f [a + k..b + k] = List.map_filter g [a..b]"
proof -
  have "filter (\<lambda>i. f (i + k) \<noteq> None) [a..b] = filter (\<lambda>i. g i \<noteq> None) [a..b]"
    by (rule filter_cong) (use assms in auto)
  moreover have "map (\<lambda>i. the (f (i + k))) (filter P [a..b]) = map (\<lambda>i. the (g i)) (filter P [a..b])" for P
    by (rule map_cong) (use assms in auto)
  ultimately show ?thesis
    unfolding upto_shift List.map_filter_def filter_map by (simp add: comp_def)
qed

lemma wider_At: "wider k s s' \<Longrightarrow> 0 \<le> i \<Longrightarrow> se_At s (i + k) = se_At s' i"
  by (simp add: wider_def)

lemma wider_Denominator: "wider k s s' \<Longrightarrow> 0 \<le> i \<Longrightarrow> DenominatorAt s (i + k) = DenominatorAt s' i"
  by (simp add: wider_def)

lemma wider_Known: "wider k s s' \<Longrightarrow> 0 \<le> a \<Longrightarrow> Known s (a + k) (b + k) = Known s' a b"
  using map_filter_shift [of a "se_At s" k "se_At s'" "b - 1"]
  by (simp add: Known_eq wider_At algebra_simps)

lemma wider_SumDenominator:
  "wider k s s' \<Longrightarrow> 0 \<le> a \<Longrightarrow> SumDenominator ar s (a + k) (b + k) = SumDenominator ar s' a b"
  using map_filter_shift [of a "DenominatorAt s" k "DenominatorAt s'" "b - 1"]
  by (simp add: SumDenominator_eq wider_Denominator algebra_simps)

lemma wider_rollingRatio:
  assumes "wider k s s'" "0 \<le> a"
  shows "rollingRatio ar s (a + k) (b + k) m = rollingRatio ar s' a b m"
proof -
  have "ratio_at s (i + k) = ratio_at s' i" if "0 \<le> i" for i
    using assms(1) that by (simp add: ratio_at_def wider_At wider_Denominator)
  then have "List.map_filter (ratio_at s) [a + k..b + k - 1] = List.map_filter (ratio_at s') [a..b - 1]"
    using map_filter_shift [of a "ratio_at s" k "ratio_at s'" "b - 1"] assms(2) by (simp add: algebra_simps)
  then show ?thesis by (simp add: rollingRatio_eq)
qed

lemma wider_rolling_at:
  assumes "wider k s s'" "0 \<le> i - w + 1"
  shows "rolling_at ar agg w m s (i + k) = rolling_at ar agg w m s' i"
  using wider_Known [OF assms, of "i + 1"] wider_rollingRatio [OF assms, of ar "i + 1" m]
  by (simp add: rolling_at_def algebra_simps)

lemma wider_BucketStart: "wider k s s' \<Longrightarrow> BucketStart s (i + k) = BucketStart s' i"
  by (simp add: wider_def BucketStart_def algebra_simps)

lemma Rolling_At:
  assumes "1 \<le> w" "1 \<le> m"
  shows "se_At (Rolling ar agg w m s) i = (if 0 \<le> i \<and> i < se_Len s then rolling_at ar agg w m s i else None)"
  using assms nth_upto [of 0 "nat i" "se_Len s - 1"]
  by (auto simp: se_At_def cell_def Rolling_def Let_def se_Len_def)

lemma wider_Known_Rolling:
  assumes "wider k s s'" "1 \<le> w" "1 \<le> m" "w - 1 \<le> a"
  shows "Known (Rolling ar agg w m s) (a + k) (b + k) = Known (Rolling ar agg w m s') a b"
proof -
  have "se_At (Rolling ar agg w m s) (i + k) = se_At (Rolling ar agg w m s') i" if "a \<le> i" for i
    using assms that wider_rolling_at [OF assms(1), of i w] by (auto simp: Rolling_At wider_def)
  then show ?thesis
    using map_filter_shift [of a "se_At (Rolling ar agg w m s)" k "se_At (Rolling ar agg w m s')" "b - 1"]
    by (simp add: Known_eq algebra_simps)
qed

section \<open>Judging the wider series\<close>

text \<open>
  A series that ends where the evaluation window ends: its length is what the grid from its
  start to there gives.
\<close>

definition ends_at :: "int \<Rightarrow> 'f series \<Rightarrow> bool" where
  "ends_at now s \<longleftrightarrow> 0 < se_Step s \<and> 0 < se_Len s \<and>
     (UnixMilli (AlignDown (now - EvalLag) (se_Step s)) - StartMS s) sdiv Milliseconds (se_Step s) = se_Len s"

lemma windowIndices_end:
  "ends_at now s \<Longrightarrow> b \<le> se_Len s \<Longrightarrow> windowIndices s now b = (se_Len s - b, se_Len s)"
  by (auto simp: ends_at_def windowIndices_def Let_def)

lemma threshold_wider:
  assumes k: "wider k s s'" and e: "ends_at now s" "ends_at now s'" and w: "tp_WindowBuckets p \<le> se_Len s'"
  shows "threshold_Evaluate ar c p now s = threshold_Evaluate ar c p now s'"
proof -
  let ?a = "se_Len s' - tp_WindowBuckets p" and ?b = "se_Len s'"
  have n: "se_Len s = ?b + k" "tp_WindowBuckets p \<le> se_Len s" using k w by (auto simp: wider_def)
  have ix: "windowIndices s now (tp_WindowBuckets p) = (?a + k, ?b + k)"
      "windowIndices s' now (tp_WindowBuckets p) = (?a, ?b)"
    using windowIndices_end [OF e(1) n(2)] windowIndices_end [OF e(2) w] n(1) by simp_all
  have "0 \<le> ?a" using w by simp
  note same = wider_Known [OF k this] wider_SumDenominator [OF k this] wider_BucketStart [OF k]
  have "evaluateRatio ar p s (?a + k) (?b + k) out = evaluateRatio ar p s' ?a ?b out" for out
    by (simp only: evaluateRatio_def same)
  then show ?thesis by (simp only: threshold_Evaluate_def ix prod.case same)
qed

lemma list_ex_shift:
  fixes a b k :: int
  assumes "\<And>i. a \<le> i \<Longrightarrow> P (i + k) = Q i"
  shows "list_ex P [a + k..b + k] = list_ex Q [a..b]" and
    "length (filter P [a + k..b + k]) = length (filter Q [a..b])"
proof -
  have "filter (\<lambda>i. P (i + k)) [a..b] = filter Q [a..b]" by (rule filter_cong) (use assms in auto)
  then show same: "length (filter P [a + k..b + k]) = length (filter Q [a..b])"
    by (simp add: upto_shift filter_map comp_def)
  have "list_ex R xs \<longleftrightarrow> length (filter R xs) \<noteq> 0" for R :: "int \<Rightarrow> bool" and xs
    by (auto simp: list_ex_iff filter_empty_conv)
  then show "list_ex P [a + k..b + k] = list_ex Q [a..b]" by (simp only: same)
qed

lemma absence_wider:
  assumes k: "wider k s s'" and e: "ends_at now s" "ends_at now s'"
    and p: "0 \<le> ap_BaselineBuckets p" and w: "ap_ForBuckets p + ap_BaselineBuckets p \<le> se_Len s'"
  shows "absence_Evaluate ar c p now s = absence_Evaluate ar c p now s'"
proof -
  let ?a = "se_Len s' - ap_ForBuckets p" and ?b = "se_Len s'"
  have w': "ap_ForBuckets p \<le> se_Len s'" using p w by simp
  have n: "se_Len s = ?b + k" "ap_ForBuckets p \<le> se_Len s" using k w' by (auto simp: wider_def)
  have ix: "windowIndices s now (ap_ForBuckets p) = (?a + k, ?b + k)"
      "windowIndices s' now (ap_ForBuckets p) = (?a, ?b)"
    using windowIndices_end [OF e(1) n(2)] windowIndices_end [OF e(2) w'] n(1) by simp_all
  have nz: "nonzero_at ar s (i + k) = nonzero_at ar s' i" if "0 \<le> i" for i
    using wider_At [OF k that] by (simp add: nonzero_at_def)
  have "list_ex (nonzero_at ar s) [?a + k..?b - 1 + k] = list_ex (nonzero_at ar s') [?a..?b - 1]"
    by (rule list_ex_shift) (use nz w' in auto)
  then have silent: "list_ex (nonzero_at ar s) [?a + k..?b + k - 1] = list_ex (nonzero_at ar s') [?a..?b - 1]"
    by (simp add: algebra_simps)
  have "length (filter (nonzero_at ar s) [?a - ap_BaselineBuckets p + k..?a - 1 + k]) =
      length (filter (nonzero_at ar s') [?a - ap_BaselineBuckets p..?a - 1])"
    by (rule list_ex_shift) (use nz w in auto)
  moreover have "max (?a + k - ap_BaselineBuckets p) 0 = ?a - ap_BaselineBuckets p + k"
      "max (?a - ap_BaselineBuckets p) 0 = ?a - ap_BaselineBuckets p" "?a + k - 1 = ?a - 1 + k"
    using w k by (simp_all add: wider_def)
  ultimately have reported: "length (filter (nonzero_at ar s) [max (?a + k - ap_BaselineBuckets p) 0..?a + k - 1]) =
      length (filter (nonzero_at ar s') [max (?a - ap_BaselineBuckets p) 0..?a - 1])"
    by (simp only:)
  have "?b + k \<le> ?a + k \<longleftrightarrow> ?b \<le> ?a" "?b + k - (?a + k) = ?b - ?a" by simp_all
  then show ?thesis
    by (simp only: absence_Evaluate_def ix prod.case silent reported wider_BucketStart [OF k])
qed

lemma spike_baseline_wider:
  assumes k: "wider k s s'" and p: "1 \<le> sp_WindowBuckets p" "1 \<le> sp_MinSamples p"
    and w: "sp_WindowBuckets p - 1 \<le> obs - sp_GuardBuckets p - sp_BaselineBuckets p"
  shows "spike_baseline ar c p (Rolling ar agg (sp_WindowBuckets p) (sp_MinSamples p) s) (obs + k) x out =
    spike_baseline ar c p (Rolling ar agg (sp_WindowBuckets p) (sp_MinSamples p) s') obs x out"
proof -
  let ?to = "obs - sp_GuardBuckets p"
  have "obs + k - sp_GuardBuckets p = ?to + k"
      "?to + k - sp_BaselineBuckets p = (?to - sp_BaselineBuckets p) + k" by simp_all
  then show ?thesis
    unfolding spike_baseline_def Let_def by (simp only: wider_Known_Rolling [OF k p w])
qed

lemma spike_wider:
  assumes k: "wider k s s'" and e: "ends_at now s" "ends_at now s'"
    and p: "1 \<le> sp_WindowBuckets p" "1 \<le> sp_MinSamples p" "0 \<le> sp_GuardBuckets p" "0 \<le> sp_BaselineBuckets p"
    and w: "sp_WindowBuckets p + sp_GuardBuckets p + sp_BaselineBuckets p + sp_WindowBuckets p - 1 \<le> se_Len s'"
  shows "spike_Evaluate ar c p now s = spike_Evaluate ar c p now s'"
proof -
  let ?b = "se_Len s'" and ?w = "sp_WindowBuckets p"
  have w': "?w \<le> ?b" using p w by simp
  have n: "se_Len s = ?b + k" "?w \<le> se_Len s" using k w' by (auto simp: wider_def)
  have ix: "snd (windowIndices s now ?w) = ?b + k" "snd (windowIndices s' now ?w) = ?b"
    using windowIndices_end [OF e(1) n(2)] windowIndices_end [OF e(2) w'] n(1) by simp_all
  have "1 \<le> ?b" "0 \<le> k" using p(1) w' k by (auto simp: wider_def)
  then have obs: "\<not> ?b + k - 1 < 0" "\<not> ?b - 1 < 0" by auto
  have lo: "0 \<le> ?b - 1 - ?w + 1" "0 \<le> ?b - ?w" using w' by auto
  have sh: "?b + k - 1 - ?w + 1 = ?b - 1 - ?w + 1 + k" "?b + k - 1 = (?b - 1) + k" by simp_all
  have at: "se_At (Rolling ar agg ?w (sp_MinSamples p) s) (?b + k - 1) =
      se_At (Rolling ar agg ?w (sp_MinSamples p) s') (?b - 1)" for agg
    using wider_rolling_at [OF k lo(1)] obs n(1) \<open>0 \<le> k\<close> by (simp add: Rolling_At p sh(2))
  have base: "spike_baseline ar c p (Rolling ar agg ?w (sp_MinSamples p) s) (?b + k - 1) x out =
      spike_baseline ar c p (Rolling ar agg ?w (sp_MinSamples p) s') (?b - 1) x out" for agg x out
    unfolding sh(2) by (rule spike_baseline_wider [OF k p(1,2)]) (use w p(1) in linarith)
  note same = wider_Known [OF k lo(1)] wider_SumDenominator [OF k lo(1)] wider_BucketStart [OF k]
  show ?thesis
    unfolding spike_Evaluate_def Let_def ix
    by (simp only: obs if_False sh(1) same at base)
qed

text \<open>The parameters a built condition has.\<close>

definition params_ok :: "'f cond_params \<Rightarrow> bool" where
  "params_ok ps \<longleftrightarrow>
     (case ps of
        Threshold p \<Rightarrow> 1 \<le> tp_WindowBuckets p
      | Spike p \<Rightarrow> 1 \<le> sp_WindowBuckets p \<and> 1 \<le> sp_MinSamples p \<and> 0 \<le> sp_GuardBuckets p \<and> 1 \<le> sp_BaselineBuckets p
      | Absence p \<Rightarrow> 1 \<le> ap_ForBuckets p \<and> 1 \<le> ap_BaselineBuckets p)"

lemma params_ok_buckets: "params_ok (co_params c) \<Longrightarrow> 1 \<le> cond_buckets c"
  by (auto simp: params_ok_def cond_buckets_def split: cond_params.splits)

lemma Evaluate_wider:
  assumes "params_ok (co_params c)" "wider k s s'" "ends_at now s" "ends_at now s'" "cond_buckets c \<le> se_Len s'"
  shows "cond_Evaluate ar c now s = cond_Evaluate ar c now s'"
proof (cases "co_params c")
  case (Threshold p)
  then show ?thesis using assms by (simp add: cond_Evaluate_def cond_buckets_def threshold_wider)
next
  case (Spike p)
  then have "spike_Evaluate ar c p now s = spike_Evaluate ar c p now s'"
    using assms by (intro spike_wider) (auto simp: params_ok_def cond_buckets_def)
  then show ?thesis using Spike by (simp add: cond_Evaluate_def)
next
  case (Absence p)
  then have "absence_Evaluate ar c p now s = absence_Evaluate ar c p now s'"
    using assms by (intro absence_wider) (auto simp: params_ok_def cond_buckets_def)
  then show ?thesis using Absence by (simp add: cond_Evaluate_def)
qed

section \<open>Built conditions\<close>

lemma newThreshold_ok: "newThreshold ar base = Inr ps \<Longrightarrow> params_ok ps"
  by (auto simp: newThreshold_def bind_res_Inr_iff Let_def params_ok_def ratio_defaults_def samples_default_def
      window_default_def defaultThresholdWindow_def split: if_splits)

lemma applySpikeDefaults_ok: "params_ok (Spike (applySpikeDefaults ar m p))"
  by (simp add: params_ok_def applySpikeDefaults_def Let_def defaultSpikeWindow_def defaultGuardBuckets_def
      defaultBaseline_def)

lemma newSpike_ok: "newSpike ar base = Inr ps \<Longrightarrow> params_ok ps"
  by (auto simp: newSpike_def bind_res_Inr_iff Let_def applySpikeDefaults_ok split: if_split_asm)

lemma newAbsence_ok: "newAbsence base = Inr ps \<Longrightarrow> params_ok ps"
  by (auto simp: newAbsence_def bind_res_Inr_iff Let_def params_ok_def absence_defaults_def defaultAbsenceFor_def
      defaultBaseline_def split: if_splits)

lemma NewCondition_ok:
  assumes "NewCondition ar spec step = Inr c"
  shows "params_ok (co_params c) \<and> cb_step (co_base c) = step \<and> cb_spec (co_base c) = spec"
  using assms newThreshold_ok newSpike_ok newAbsence_ok
  by (auto simp: NewCondition_def bind_res_Inr_iff Let_def map_sum_def split: if_splits sum.splits)

lemma build_conditions_ok:
  "build_conditions ar step seen specs = Inr cs \<Longrightarrow> c \<in> set cs \<Longrightarrow>
    params_ok (co_params c) \<and> cb_step (co_base c) = step"
  by (induction specs arbitrary: seen cs)
    (auto simp: bind_res_Inr_iff split: if_splits dest!: NewCondition_ok)

lemma watch_Build_ok:
  assumes "watch_Build ar w = Inr b" "c \<in> set (bw_Conditions b)"
  shows "params_ok (co_params c) \<and> cb_step (co_base c) = w_Step w \<and> MinStep \<le> w_Step w"
  using assms build_conditions_ok [of ar "w_Step w" "{}" "w_Conditions w" "bw_Conditions b" c]
  by (auto simp: watch_Build_def watch_validate_def bind_res_Inr_iff split: option.splits if_splits)

section \<open>The plan\<close>

text \<open>
  What a fetch returns: the series on the grid of the query, whose value in a bucket
  depends on what the key names and on the bucket, not on the span asked for.
\<close>

definition faithful_fetch ::
  "(alert_query \<Rightarrow> (alert_error, 'f series) res) \<Rightarrow> (query_key \<Rightarrow> int \<Rightarrow> 'f option) \<Rightarrow>
   (query_key \<Rightarrow> int \<Rightarrow> 'f option) \<Rightarrow> bool" where
  "faithful_fetch fetch vals dens \<longleftrightarrow>
     (\<forall>q s. fetch q = Inr s \<longrightarrow>
        se_Step s = q_Step q \<and> StartMS s = UnixMilli (q_From q) \<and> se_Len s = Buckets q \<and>
        length (Denominator s) \<le> length (Values s) \<and>
        (\<forall>i. 0 \<le> i \<and> i < se_Len s \<longrightarrow>
           se_At s i = vals (query_Key q) (BucketStart s i) \<and>
           DenominatorAt s i = dens (query_Key q) (BucketStart s i)))"

text \<open>A query on the grid of a step of whole milliseconds, ending at the newest readable bucket.\<close>

definition on_grid :: "int \<Rightarrow> int \<Rightarrow> int \<Rightarrow> alert_query \<Rightarrow> bool" where
  "on_grid now step n q \<longleftrightarrow> 1 \<le> n \<and> q_Step q = step \<and> q_To q = AlignDown (now - EvalLag) step \<and>
     q_From q = q_To q - n * step"

lemma AlignDown_multiple:
  assumes "0 < step"
  shows "\<exists>m. AlignDown t step = m * step" and "AlignDown t step \<le> t" and "t < AlignDown t step + step"
proof -
  let ?rem = "if t smod step < 0 then t smod step + step else t smod step"
  have "\<not> t mod step < 0" using assms by (simp add: not_less)
  then have "?rem = t mod step"
    using assms signed_modulo_int_eq_modulo_int [of t step] pos_mod_sign [of step t] pos_mod_bound [of step t]
    by (auto simp: of_bool_def sgn_if split: if_splits)
  then have e: "AlignDown t step = t - t mod step" using assms by (simp add: AlignDown_def Let_def)
  then have "AlignDown t step = (t div step) * step" by (simp add: minus_mod_eq_div_mult)
  then show "\<exists>m. AlignDown t step = m * step" by blast
  show "AlignDown t step \<le> t" "t < AlignDown t step + step"
    using e assms pos_mod_sign [of step t] pos_mod_bound [of step t] by auto
qed

text \<open>A step of whole milliseconds keeps the grid on whole milliseconds.\<close>

lemma sdiv_pos: "0 \<le> a \<Longrightarrow> 0 < b \<Longrightarrow> a sdiv b = a div b" for a b :: int
  by (auto simp: signed_divide_int_def sgn_if)

lemma grid_facts:
  assumes q: "on_grid now (m * 1000000) n q" and m: "0 < m"
  shows "Buckets q = n"
    and "\<exists>e. AlignDown (now - EvalLag) (m * 1000000) = e * (m * 1000000) \<and> UnixMilli (q_From q) = (e - n) * m"
proof -
  let ?step = "m * 1000000"
  have step: "0 < ?step" using m by simp
  obtain e where e: "AlignDown (now - EvalLag) ?step = e * ?step" using AlignDown_multiple(1) [OF step] by blast
  have begins: "q_From q = ((e - n) * m) * 1000000"
    using q e by (simp add: on_grid_def algebra_simps)
  then have "UnixMilli (q_From q) = (e - n) * m" by (simp add: UnixMilli_def)
  then show "\<exists>e. AlignDown (now - EvalLag) ?step = e * ?step \<and> UnixMilli (q_From q) = (e - n) * m" using e by blast
  have n: "1 \<le> n" "q_To q - q_From q = n * ?step" "q_Step q = ?step" using q by (simp_all add: on_grid_def)
  have "0 < n * ?step" using step n(1) by simp
  have "(n * ?step) sdiv ?step = n" using sdiv_pos [of "n * ?step" ?step] step \<open>0 < n * ?step\<close> by simp
  moreover have "\<not> q_To q \<le> q_From q" using n(2) \<open>0 < n * ?step\<close> by linarith
  ultimately show "Buckets q = n" using n(2,3) step by (simp add: Buckets_def BucketCount_def)
qed

lemma fetched_ends:
  assumes q: "on_grid now (m * 1000000) n q" and m: "0 < m"
    and f: "faithful_fetch fetch vals dens" "fetch q = Inr s"
  shows "ends_at now s" and "se_Len s = n"
proof -
  have s: "se_Step s = m * 1000000" "StartMS s = UnixMilli (q_From q)" "se_Len s = n"
    using f q grid_facts(1) [OF q m] by (auto simp: faithful_fetch_def on_grid_def)
  obtain e where e: "AlignDown (now - EvalLag) (m * 1000000) = e * (m * 1000000)" "UnixMilli (q_From q) = (e - n) * m"
    using grid_facts(2) [OF q m] by blast
  have ms: "Milliseconds (m * 1000000) = m" using m sdiv_pos [of "m * 1000000" 1000000] by (simp add: Milliseconds_def)
  have "UnixMilli (e * (m * 1000000)) = e * m" by (simp add: UnixMilli_def mult.assoc [symmetric])
  then have "UnixMilli (AlignDown (now - EvalLag) (se_Step s)) - StartMS s = n * m"
    by (simp add: s e algebra_simps)
  moreover have "n \<ge> 1" using q by (simp add: on_grid_def)
  moreover have "(n * m) sdiv m = n" using sdiv_pos [of "n * m" m] m \<open>n \<ge> 1\<close> by simp
  ultimately show "ends_at now s" using m by (simp add: ends_at_def s ms)
  show "se_Len s = n" by (rule s(3))
qed

lemma fetched_wider:
  assumes q: "on_grid now (m * 1000000) n q" "on_grid now (m * 1000000) n' q'" and m: "0 < m"
    and key: "query_Key q = query_Key q'" and n: "n' \<le> n"
    and f: "faithful_fetch fetch vals dens" "fetch q = Inr s" "fetch q' = Inr s'"
  shows "wider (n - n') s s'"
proof -
  have s: "se_Step s = m * 1000000" "StartMS s = UnixMilli (q_From q)"
      "length (Denominator s) \<le> length (Values s)"
      "\<And>i. 0 \<le> i \<Longrightarrow> i < se_Len s \<Longrightarrow> se_At s i = vals (query_Key q) (BucketStart s i) \<and>
           DenominatorAt s i = dens (query_Key q) (BucketStart s i)"
    using f(1,2) q(1) by (auto simp: faithful_fetch_def on_grid_def)
  have s': "se_Step s' = m * 1000000" "StartMS s' = UnixMilli (q_From q')"
      "length (Denominator s') \<le> length (Values s')"
      "\<And>i. 0 \<le> i \<Longrightarrow> i < se_Len s' \<Longrightarrow> se_At s' i = vals (query_Key q') (BucketStart s' i) \<and>
           DenominatorAt s' i = dens (query_Key q') (BucketStart s' i)"
    using f(1,3) q(2) by (auto simp: faithful_fetch_def on_grid_def)
  have len: "se_Len s = n" "se_Len s' = n'"
    using fetched_ends(2) [OF q(1) m f(1,2)] fetched_ends(2) [OF q(2) m f(1,3)] .
  obtain e where e: "AlignDown (now - EvalLag) (m * 1000000) = e * (m * 1000000)" "UnixMilli (q_From q) = (e - n) * m"
    using grid_facts(2) [OF q(1) m] by blast
  obtain e' where e': "AlignDown (now - EvalLag) (m * 1000000) = e' * (m * 1000000)" "UnixMilli (q_From q') = (e' - n') * m"
    using grid_facts(2) [OF q(2) m] by blast
  have "e' = e" using e(1) e'(1) m by simp
  moreover have ms: "Milliseconds (m * 1000000) = m" using m sdiv_pos [of "m * 1000000" 1000000] by (simp add: Milliseconds_def)
  ultimately have start: "StartMS s' = StartMS s + (n - n') * Milliseconds (se_Step s)"
    by (simp add: s(1,2) s'(2) e(2) e'(2) algebra_simps)
  have bucket: "BucketStart s (i + (n - n')) = BucketStart s' i" for i
    by (simp add: BucketStart_def start s(1) s'(1) algebra_simps)
  have out: "se_At x i = None \<and> DenominatorAt x i = None" if "length (Denominator x) \<le> length (Values x)" "se_Len x \<le> i" for x :: "'a series" and i
    using that by (auto simp: se_At_def DenominatorAt_def cell_def se_Len_def)
  have "se_At s (i + (n - n')) = se_At s' i \<and> DenominatorAt s (i + (n - n')) = DenominatorAt s' i" if "0 \<le> i" for i
  proof (cases "i < n'")
    case True
    then show ?thesis using s(4) [of "i + (n - n')"] s'(4) [of i] that n len bucket key by simp
  next
    case False
    then show ?thesis using out [OF s(3), of "i + (n - n')"] out [OF s'(3), of i] len by simp
  qed
  then show ?thesis using n start len s(1) s'(1) by (simp add: wider_def)
qed

text \<open>The plan has one query per key, and it reaches back as far as any condition with the key asks.\<close>

definition reaches :: "int \<Rightarrow> int \<Rightarrow> alert_query list \<Rightarrow> query_key \<Rightarrow> int \<Rightarrow> bool" where
  "reaches now step plan key n \<longleftrightarrow>
     (\<exists>x\<in>set plan. \<exists>n'. query_Key x = key \<and> on_grid now step n' x \<and> n \<le> n')"

definition plan_ok :: "int \<Rightarrow> int \<Rightarrow> alert_query list \<Rightarrow> bool" where
  "plan_ok now step plan \<longleftrightarrow> distinct (map query_Key plan) \<and> (\<forall>x\<in>set plan. \<exists>n. on_grid now step n x)"

lemma on_grid_unique: "0 < step \<Longrightarrow> on_grid now step n q \<Longrightarrow> on_grid now step m q \<Longrightarrow> n = m"
  by (auto simp: on_grid_def)

lemma Widen_key [simp]: "query_Key (Widen x q) = query_Key x"
  by (simp add: Widen_def Let_def query_Key_def)

lemma Widen_grid:
  assumes "0 < step" "on_grid now step n x" "on_grid now step n' q"
  shows "on_grid now step (max n n') (Widen x q)"
proof -
  have "q_From q < q_From x \<longleftrightarrow> n < n'"
    using assms by (simp add: on_grid_def mult_less_cancel_right)
  then show ?thesis using assms by (auto simp: on_grid_def Widen_def Let_def max_def)
qed

lemma plan_add_keys: "set (map query_Key (plan_add q xs)) = insert (query_Key q) (set (map query_Key xs))"
  by (induction xs) auto

lemma plan_add_ok:
  assumes "0 < step" "on_grid now step n q"
  shows "plan_ok now step xs \<Longrightarrow> plan_ok now step (plan_add q xs)"
proof (induction xs)
  case (Cons x xs)
  obtain m where "on_grid now step m x" using Cons.prems by (auto simp: plan_ok_def)
  from Widen_grid [OF assms(1) this assms(2)] have "\<exists>n. on_grid now step n (Widen x q)" by blast
  then show ?case
    using Cons plan_add_keys [of q xs] by (auto simp: plan_ok_def)
qed (use assms in \<open>auto simp: plan_ok_def\<close>)

lemma plan_add_reaches:
  assumes "0 < step" "on_grid now step n q"
  shows "plan_ok now step xs \<Longrightarrow> reaches now step (plan_add q xs) (query_Key q) n"
proof (induction xs)
  case (Cons x xs)
  obtain m where m: "on_grid now step m x" using Cons.prems by (auto simp: plan_ok_def)
  show ?case
    using Cons Widen_grid [OF assms(1) m assms(2)] by (fastforce simp: reaches_def plan_ok_def)
qed (use assms in \<open>auto simp: reaches_def\<close>)

lemma plan_add_keeps:
  assumes "0 < step" "on_grid now step n q"
  shows "plan_ok now step xs \<Longrightarrow> reaches now step xs k m \<Longrightarrow> reaches now step (plan_add q xs) k m"
proof (induction xs)
  case (Cons x xs)
  obtain l where l: "on_grid now step l x" using Cons.prems(1) by (auto simp: plan_ok_def)
  have split: "reaches now step (y # ys) k m \<longleftrightarrow>
      (query_Key y = k \<and> (\<exists>n'. on_grid now step n' y \<and> m \<le> n')) \<or> reaches now step ys k m" for y ys
    by (auto simp: reaches_def)
  have "on_grid now step (max l n) (Widen x q)" by (rule Widen_grid [OF assms(1) l assms(2)])
  moreover have "m \<le> l" if "on_grid now step n' x" "m \<le> n'" for n'
    using on_grid_unique [OF assms(1) l that(1)] that(2) by simp
  moreover have "plan_ok now step xs" using Cons.prems(1) by (auto simp: plan_ok_def)
  ultimately show ?case
    using Cons.IH Cons.prems(2) unfolding plan_add.simps by (auto simp: split intro: le_max_iff_disj [THEN iffD2])
qed (simp add: reaches_def)

lemma cond_Query_grid:
  assumes "params_ok (co_params c)" "cb_step (co_base c) = step"
  shows "on_grid now step (cond_buckets c) (cond_Query now c)"
  using params_ok_buckets [OF assms(1)] assms(2)
  by (simp add: on_grid_def cond_Query_def cond_query_def Window_def Let_def)

lemma Plan_reaches:
  assumes "0 < step" and "\<And>c. c \<in> set cs \<Longrightarrow> params_ok (co_params c) \<and> cb_step (co_base c) = step"
    and "plan_ok now step plan"
  shows "plan_ok now step (foldl (\<lambda>plan c. plan_add (cond_Query now c) plan) plan cs) \<and>
    (\<forall>k n. reaches now step plan k n \<longrightarrow> reaches now step (foldl (\<lambda>plan c. plan_add (cond_Query now c) plan) plan cs) k n) \<and>
    (\<forall>c\<in>set cs. reaches now step (foldl (\<lambda>plan c. plan_add (cond_Query now c) plan) plan cs)
       (query_Key (cond_Query now c)) (cond_buckets c))"
  using assms(2,3)
proof (induction cs arbitrary: plan)
  case (Cons c cs)
  have g: "on_grid now step (cond_buckets c) (cond_Query now c)" using Cons.prems(1) by (intro cond_Query_grid) auto
  note P = plan_add_ok [OF assms(1) g Cons.prems(2)] plan_add_reaches [OF assms(1) g Cons.prems(2)]
    plan_add_keeps [OF assms(1) g Cons.prems(2)]
  have I: "d \<in> set cs \<Longrightarrow> params_ok (co_params d) \<and> cb_step (co_base d) = step" for d using Cons.prems(1) by simp
  show ?case
    using Cons.IH [OF I P(1)] P(2,3) by (simp del: split_paired_All)
qed simp

lemma plan_query:
  assumes b: "watch_Build ar w = Inr b" and c: "c \<in> set (bw_Conditions b)"
  obtains q n where "q \<in> set (Plan now b)" "query_Key q = query_Key (cond_Query now c)"
    "on_grid now (w_Step w) n q" "cond_buckets c \<le> n"
    "fetchAll fetch (Plan now b) (query_Key (cond_Query now c)) = Some (fetch q)"
proof -
  have ok: "params_ok (co_params d) \<and> cb_step (co_base d) = w_Step w" if "d \<in> set (bw_Conditions b)" for d
    using watch_Build_ok [OF b that] by simp
  have "0 < w_Step w" using watch_Build_ok [OF b c] by (simp add: MinStep_def seconds_def)
  from Plan_reaches [OF this ok, of "bw_Conditions b" now "[]"]
  have P: "plan_ok now (w_Step w) (Plan now b)"
      "reaches now (w_Step w) (Plan now b) (query_Key (cond_Query now c)) (cond_buckets c)"
    using c by (simp_all add: Plan_def plan_ok_def)
  then obtain q n where q: "q \<in> set (Plan now b)" "query_Key q = query_Key (cond_Query now c)"
      "on_grid now (w_Step w) n q" "cond_buckets c \<le> n" by (auto simp: reaches_def)
  have "distinct (map fst (map (\<lambda>q. (query_Key q, fetch q)) (Plan now b)))"
    using P(1) by (simp add: plan_ok_def comp_def)
  then have "fetchAll fetch (Plan now b) (query_Key q) = Some (fetch q)"
    unfolding fetchAll_def using q(1) by (intro map_of_is_SomeI) auto
  then show ?thesis using that q by simp
qed


text \<open>Two absences over the same rows with spans of 35 and 72 buckets.\<close>

definition sample_scope :: scope where
  "sample_scope =
     \<lparr>sc_DeploymentID = ''d'', sc_IntegrationID = [], sc_AppName = [], sc_AppVersion = [], sc_Levels = [],
      sc_Search = [], sc_Pods = [], sc_Labels = [], sc_Across = []\<rparr>"

definition sample_absence :: "string \<Rightarrow> (string \<times> gval) list \<Rightarrow> condition_spec" where
  "sample_absence name params =
     \<lparr>cs_ID = name, cs_Type = ''absence'', cs_Source = SourceTraces, cs_Metric = ''traces'', cs_Aggregate = None,
      cs_Scope = sample_scope, cs_Params = Some params, cs_Children = 0\<rparr>"

definition coalesced_watch :: watch where
  "coalesced_watch =
     \<lparr>w_ID = ''w'', w_Name = ''silence'', w_Description = [], w_Enabled = True, w_Severity = ''warning'', w_Combinator = CombineAny,
      w_Conditions = [sample_absence ''a'' [], sample_absence ''b'' [(''forBuckets'', GInt 12), (''baselineBuckets'', GInt 60)]], w_Actions = [],
      w_OnNoData = NoDataOK, w_Step = seconds 60, w_Interval = seconds 60, w_For = 0, w_Cooldown = 0,
      w_DefinitionHash = ''h''\<rparr>"

definition rat_arith :: "rat arith" where
  "rat_arith =
     \<lparr>a_lit = id, a_add = (+), a_sub = (-), a_mul = (*), a_div = (/), a_lt = (<), a_le = (\<le>), a_eq = (=),
      a_sqrt = id, a_abs = abs, a_neg = uminus, a_max = max, a_min = min\<rparr>"

definition steady_fetch :: "alert_query \<Rightarrow> (alert_error, rat series) res" where
  "steady_fetch q =
     Inr \<lparr>se_Step = q_Step q, StartMS = UnixMilli (q_From q), Values = replicate (nat (Buckets q)) (Some 1),
          Denominator = [], Filled = False\<rparr>"

lemma steady_fetch_faithful: "faithful_fetch steady_fetch (\<lambda>_ _. Some 1) (\<lambda>_ _. None)"
proof -
  have "0 \<le> Buckets q" for q by (auto simp: Buckets_def BucketCount_def signed_divide_int_def sgn_if pos_imp_zdiv_nonneg_iff)
  then show ?thesis
    by (auto simp: faithful_fetch_def steady_fetch_def se_Len_def se_At_def DenominatorAt_def cell_def)
qed

lemma coalesced_watch_builds:
  "\<exists>b. watch_Build rat_arith coalesced_watch = Inr b \<and> length (bw_Conditions b) = 2"
proof -
  have "case watch_Build rat_arith coalesced_watch of Inl e \<Rightarrow> False | Inr b \<Rightarrow> length (bw_Conditions b) = 2"
    by code_simp
  then show ?thesis by (auto split: sum.splits)
qed


end
