(* ===== verification/Octo_Alert_Runner.thy ===== *)
theory Octo_Alert_Runner
  imports Octo_Alert_Service Octo_Coalesce
begin

text \<open>
  The runner of the leader (\<^verbatim>\<open>alerting/runner.go\<close>): one tick for one watch, from
  the test whether it is due to the announcements, with the cooldown
  (\<^verbatim>\<open>alerting/cooldown\<close>), the notification an action delivers
  (\<^verbatim>\<open>alerting/notify.go\<close>) and the dispatch of the watch's actions
  (\<^verbatim>\<open>alerting/action\<close>). Fetching, the cooldown's store and the delivery itself are
  parameters.
\<close>

section \<open>Notifications and their delivery\<close>

record 'f notification =
  nf_Kind :: action_kind
  nf_At :: int
  nf_WatchID :: string
  nf_WatchName :: string
  nf_Severity :: string
  nf_IncidentID :: "nat option"
  nf_Reason :: "closed_reason option"
  nf_Combinator :: combinator
  nf_Matched :: nat
  nf_Total :: nat
  nf_Degraded :: bool
  nf_Outcomes :: "'f outcome list"
  nf_Window :: "(int \<times> int) option"

definition NewNotification ::
  "watch \<Rightarrow> 'f alert_state \<Rightarrow> 'f evaluation \<Rightarrow> Octo_Alert_State.action \<Rightarrow> 'f notification" where
  "NewNotification w s ev a =
     \<lparr>nf_Kind = ac_Kind a, nf_At = ac_At a, nf_WatchID = w_ID w, nf_WatchName = w_Name w,
      nf_Severity = w_Severity w, nf_IncidentID = as_IncidentID s, nf_Reason = ac_Reason a,
      nf_Combinator = ev_Combinator ev, nf_Matched = ev_Matched ev, nf_Total = ev_Total ev,
      nf_Degraded = ev_Degraded ev, nf_Outcomes = ev_Outcomes ev, nf_Window = ev_Window ev\<rparr>"

definition nf_Resolved :: "'f notification \<Rightarrow> bool" where
  "nf_Resolved n \<longleftrightarrow> nf_Kind n = ActionResolve \<or> nf_Kind n = ActionClose"

definition reason_text :: "closed_reason option \<Rightarrow> string" where
  "reason_text r =
     (case r of None \<Rightarrow> [] | Some ClosedResolved \<Rightarrow> ''resolved'' | Some ClosedStale \<Rightarrow> ''stale''
      | Some ClosedEdited \<Rightarrow> ''edited'' | Some ClosedDisabled \<Rightarrow> ''disabled'' | Some ClosedDeleted \<Rightarrow> ''deleted'')"

definition Headline :: "'f notification \<Rightarrow> string" where
  "Headline n =
     (case nf_Kind n of
        ActionResolve \<Rightarrow> nf_WatchName n @ '' recovered''
      | ActionClose \<Rightarrow> nf_WatchName n @ '' closed ('' @ reason_text (nf_Reason n) @ '')''
      | ActionRepeat \<Rightarrow> nf_WatchName n @ '' is still firing''
      | ActionOpen \<Rightarrow> nf_WatchName n @ '' is firing'')"

definition subjectFor :: "'f notification \<Rightarrow> string" where
  "subjectFor n =
     (if nf_Severity n \<noteq> [] \<and> \<not> nf_Resolved n then ''[octo '' @ nf_Severity n @ '']'' else ''[octo]'') @ '' '' @ Headline n"

record delivery =
  dr_ActionID :: string
  dr_Type :: string
  dr_Err :: "alert_error option"

definition Delivered :: "delivery \<Rightarrow> bool" where "Delivered r \<longleftrightarrow> dr_Err r = None"

definition anyDelivered :: "delivery list \<Rightarrow> bool" where "anyDelivered rs = list_ex Delivered rs"

text \<open>Every action of the watch is tried, whatever became of the ones before.\<close>

definition Notify ::
  "(string \<Rightarrow> bool) \<Rightarrow> dispatcher \<Rightarrow> (deliverer \<Rightarrow> 'f notification \<Rightarrow> alert_error option) \<Rightarrow> watch \<Rightarrow>
     'f notification \<Rightarrow> delivery list" where
  "Notify is_address dp send w n =
     map (\<lambda>spec. \<lparr>dr_ActionID = asp_ID spec, dr_Type = asp_Type spec,
        dr_Err = (case action_build is_address dp spec of Inl e \<Rightarrow> Some e | Inr d \<Rightarrow> send d n)\<rparr>) (w_Actions w)"

section \<open>The cooldown\<close>

text \<open>
  \<open>setnx t key ttl r\<close> is the set-if-absent of the store at its time \<open>t\<close>: whether the key was
  free, or \<open>None\<close> for an error, with the store afterwards.
\<close>

type_synonym 'r setnx = "int \<Rightarrow> string \<Rightarrow> int \<Rightarrow> 'r \<Rightarrow> bool option \<times> 'r"

definition keyPrefix :: string where "keyPrefix = ''octo:alerts:v0:cooldown:''"

definition cooldown_Begin :: "'r setnx \<Rightarrow> int \<Rightarrow> string \<Rightarrow> int \<Rightarrow> 'r \<Rightarrow> bool option \<times> 'r" where
  "cooldown_Begin setnx t watchID ttl r =
     (if ttl \<le> 0 then (Some True, r) else setnx t (keyPrefix @ watchID) ttl r)"

record ('r, 'f) runner =
  rn_arith :: "'f arith"
  rn_is_address :: "string \<Rightarrow> bool"
  rn_dispatcher :: dispatcher
  rn_quiet :: "'r setnx option"

text \<open>Whether the cooldown swallows the announcement, and what it answered.\<close>

datatype cooldown_answer = NotAsked | Granted | Refused | Unanswered

definition claiming :: "action_kind \<Rightarrow> bool" where
  "claiming kind \<longleftrightarrow> kind = ActionOpen \<or> kind = ActionRepeat"

definition silenced ::
  "('r, 'f) runner \<Rightarrow> int \<Rightarrow> watch \<Rightarrow> Octo_Alert_State.action \<Rightarrow> 'r \<Rightarrow> bool \<times> cooldown_answer \<times> 'r" where
  "silenced rn t w a r =
     (case rn_quiet rn of
        None \<Rightarrow> (False, NotAsked, r)
      | Some setnx \<Rightarrow>
          if w_Cooldown w \<le> 0 \<or> \<not> claiming (ac_Kind a) then (False, NotAsked, r)
          else (case cooldown_Begin setnx t (w_ID w) (w_Cooldown w) r of
                  (None, r') \<Rightarrow> (False, Unanswered, r')
                | (Some b, r') \<Rightarrow> (\<not> b, if b then Granted else Refused, r')))"

section \<open>A tick\<close>

text \<open>What a tick meets: its clock, the clock of the cooldown, and the answers it gets.\<close>

record 'f tick =
  tk_Now :: int
  tk_Clock :: int
  tk_Leader :: bool
  tk_Ingesting :: "bool option"
  tk_Fetch :: "alert_query \<Rightarrow> (alert_error, 'f series) res"
  tk_Written :: bool
  tk_Send :: "deliverer \<Rightarrow> 'f notification \<Rightarrow> alert_error option"
  tk_Noted :: bool

text \<open>What was sent: when, what the cooldown answered, and what became of it.\<close>

record 'f sent =
  sn_At :: int
  sn_Answer :: cooldown_answer
  sn_Notification :: "'f notification"
  sn_Results :: "delivery list"

fun announce_each ::
  "('r, 'f) runner \<Rightarrow> 'f tick \<Rightarrow> watch \<Rightarrow> 'f evaluation \<Rightarrow> 'f alert_state \<Rightarrow> Octo_Alert_State.action list \<Rightarrow>
     'f alert_rows \<times> 'r \<times> 'f sent list \<Rightarrow> 'f alert_rows \<times> 'r \<times> 'f sent list" where
  "announce_each rn k w ev s [] st = st"
| "announce_each rn k w ev s (a # as) (d, r, out) =
     (case silenced rn (tk_Clock k) w a r of (swallowed, answer, r1) \<Rightarrow>
        if swallowed then announce_each rn k w ev s as (d, r1, out)
        else let n = NewNotification w s ev a;
                 results = Notify (rn_is_address rn) (rn_dispatcher rn) (tk_Send k) w n;
                 out1 = out @ [\<lparr>sn_At = tk_Clock k, sn_Answer = answer, sn_Notification = n, sn_Results = results\<rparr>];
                 d1 = (if anyDelivered results \<and> tk_Noted k
                       then RecordNotification (as_IncidentID s) (ac_At a) d else d) in
             announce_each rn k w ev s as (d1, r1, out1))"

definition announce ::
  "('r, 'f) runner \<Rightarrow> 'f tick \<Rightarrow> watch \<Rightarrow> 'f evaluation \<Rightarrow> 'f alert_state \<Rightarrow> Octo_Alert_State.action list \<Rightarrow>
     'f alert_rows \<times> 'r \<times> 'f sent list \<Rightarrow> 'f alert_rows \<times> 'r \<times> 'f sent list" where
  "announce rn k w ev s as st = (if state_Muted s (ev_At ev) then st else announce_each rn k w ev s as st)"

definition invalidRetry :: int where "invalidRetry = seconds 3600"

definition run_watch ::
  "('r, 'f) runner \<Rightarrow> 'f tick \<Rightarrow> bool \<Rightarrow> watch \<Rightarrow> 'f alert_rows \<times> 'r \<times> 'f sent list \<Rightarrow>
     'f alert_rows \<times> 'r \<times> 'f sent list" where
  "run_watch rn k ingesting w st =
     (case st of (d, r, out) \<Rightarrow>
        case watch_Build (rn_arith rn) w of
          Inl e \<Rightarrow> (if tk_Written k then MarkInvalid (tk_Now k) (tk_Now k + invalidRetry) d else d, r, out)
        | Inr b \<Rightarrow>
            if \<not> ingesting \<and> watch_Downward b
            then (if tk_Written k then store_Defer (tk_Now k + w_Interval w) d else d, r, out)
            else let ev = watch_Evaluate (rn_arith rn) b (tk_Now k) (fetchAll (tk_Fetch k) (Plan (tk_Now k) b)) in
                 case (if tk_Written k then evaluate w ev (tk_Now k) d else None) of
                   None \<Rightarrow> (d, r, out)
                 | Some (s, d') \<Rightarrow>
                     announce rn k w ev s (snd (alert_Step (ar_State d) w ev (tk_Now k))) (d', r, out))"

definition is_due :: "int \<Rightarrow> watch \<Rightarrow> 'f alert_rows \<Rightarrow> bool" where
  "is_due now w d \<longleftrightarrow> w_Enabled w \<and> as_NextDueAt (ar_State d) \<le> now"

definition ingesting_answer :: "bool option \<Rightarrow> bool" where
  "ingesting_answer a = (case a of None \<Rightarrow> True | Some b \<Rightarrow> b)"

definition runner_tick ::
  "('r, 'f) runner \<Rightarrow> 'f tick \<Rightarrow> watch \<Rightarrow> 'f alert_rows \<times> 'r \<times> 'f sent list \<Rightarrow> 'f alert_rows \<times> 'r \<times> 'f sent list" where
  "runner_tick rn k w st =
     (if tk_Leader k \<and> is_due (tk_Now k) w (fst st)
      then run_watch rn k (ingesting_answer (tk_Ingesting k)) w st else st)"

definition runner_Run ::
  "('r, 'f) runner \<Rightarrow> 'f tick list \<Rightarrow> watch \<Rightarrow> 'f alert_rows \<times> 'r \<times> 'f sent list \<Rightarrow> 'f alert_rows \<times> 'r \<times> 'f sent list" where
  "runner_Run rn ks w st = foldl (\<lambda>st k. runner_tick rn k w st) st ks"

section \<open>The cooldown spaces the claims\<close>

text \<open>What is documented of set-if-absent with an expiry: the key is held until a time that only grows.\<close>

definition faithful_setnx :: "'r setnx \<Rightarrow> ('r \<Rightarrow> string \<Rightarrow> int) \<Rightarrow> bool" where
  "faithful_setnx setnx held \<longleftrightarrow>
     (\<forall>t k ttl r b r'. setnx t k ttl r = (b, r') \<longrightarrow>
        (\<forall>k'. held r k' \<le> held r' k') \<and> (b = Some True \<longrightarrow> held r k \<le> t \<and> t + ttl \<le> held r' k) \<and>
        (b = Some False \<longrightarrow> t < held r k))"

definition spaced :: "watch \<Rightarrow> 'f sent \<Rightarrow> 'f sent \<Rightarrow> bool" where
  "spaced w x y \<longleftrightarrow> (sn_Answer x = Granted \<longrightarrow> sn_Answer y = Granted \<longrightarrow> sn_At x + w_Cooldown w \<le> sn_At y)"

definition claims_ok :: "('r \<Rightarrow> string \<Rightarrow> int) \<Rightarrow> watch \<Rightarrow> 'r \<Rightarrow> 'f sent list \<Rightarrow> bool" where
  "claims_ok held w r out \<longleftrightarrow>
     sorted_wrt (spaced w) out \<and>
     (\<forall>x\<in>set out. (sn_Answer x = Granted \<longrightarrow> sn_At x + w_Cooldown w \<le> held r (keyPrefix @ w_ID w)) \<and>
        (claiming (nf_Kind (sn_Notification x)) \<longrightarrow> sn_Answer x \<in> {Granted, Unanswered}))"

lemma silenced_answer:
  assumes "silenced rn t w a r = (sw, answer, r')" "rn_quiet rn = Some setnx" "0 < w_Cooldown w" "faithful_setnx setnx held"
  shows "held r k \<le> held r' k" "answer = Granted \<Longrightarrow> held r (keyPrefix @ w_ID w) \<le> t \<and> t + w_Cooldown w \<le> held r' (keyPrefix @ w_ID w)"
    "claiming (ac_Kind a) \<Longrightarrow> \<not> sw \<Longrightarrow> answer \<in> {Granted, Unanswered}"
  using assms
  by (fastforce simp: silenced_def cooldown_Begin_def faithful_setnx_def split: if_splits prod.splits option.splits)+

lemma claims_ok_each:
  assumes "rn_quiet rn = Some setnx" "0 < w_Cooldown w" "faithful_setnx setnx held"
  shows "announce_each rn k w ev s as (d, r, out) = (d', r', out') \<Longrightarrow> claims_ok held w r out \<Longrightarrow> claims_ok held w r' out'"
proof (induction as arbitrary: d r out)
  case (Cons a as)
  obtain sw answer r1 where a: "silenced rn (tk_Clock k) w a r = (sw, answer, r1)" by (metis prod_cases3)
  note A = silenced_answer [OF a assms]
  have grown: "claims_ok held w r1 out"
    using Cons.prems(2) A(1) [of "keyPrefix @ w_ID w"] by (force simp: claims_ok_def)
  show ?case
  proof (cases sw)
    case True
    then show ?thesis using Cons.IH [OF _ grown] Cons.prems(1) a by simp
  next
    case False
    let ?x = "\<lparr>sn_At = tk_Clock k, sn_Answer = answer, sn_Notification = NewNotification w s ev a,
      sn_Results = Notify (rn_is_address rn) (rn_dispatcher rn) (tk_Send k) w (NewNotification w s ev a)\<rparr>"
    have "claims_ok held w r1 (out @ [?x])"
      using grown A(2,3) False Cons.prems(2)
      by (fastforce simp: claims_ok_def sorted_wrt_append spaced_def NewNotification_def)
    from Cons.IH [OF _ this] Cons.prems(1) a False show ?thesis by (auto simp: Let_def)
  qed
qed simp

lemma claims_ok_tick:
  assumes q: "rn_quiet rn = Some setnx" "0 < w_Cooldown w" "faithful_setnx setnx held"
    and "runner_tick rn k w (d, r, out) = (d', r', out')" "claims_ok held w r out"
  shows "claims_ok held w r' out'"
  using assms(4,5)
  by (auto simp: runner_tick_def run_watch_def announce_def Let_def claims_ok_each [OF q]
      split: if_splits sum.splits option.splits)

lemma claims_ok_Run:
  assumes q: "rn_quiet rn = Some setnx" "0 < w_Cooldown w" "faithful_setnx setnx held"
  shows "runner_Run rn ks w (d, r, out) = (d', r', out') \<Longrightarrow> claims_ok held w r out \<Longrightarrow> claims_ok held w r' out'"
proof (induction ks arbitrary: d r out)
  case (Cons k ks)
  obtain d1 r1 out1 where t: "runner_tick rn k w (d, r, out) = (d1, r1, out1)" by (metis prod_cases3)
  from Cons.IH [OF _ claims_ok_tick [OF q t Cons.prems(2)]] Cons.prems(1) t show ?case
    by (simp add: runner_Run_def)
qed (simp add: runner_Run_def)

text \<open>
  C27. Two announcements of a firing watch, whatever happens between them, are at least its
  cooldown apart by the clock of the cooldown's store, unless that store could not be asked.
\<close>

theorem claims_spaced_by_cooldown:
  assumes "rn_quiet rn = Some setnx" "0 < w_Cooldown w" "faithful_setnx setnx held"
    and run: "runner_Run rn ks w (d, r, []) = (d', r', out)" and ij: "i < j" "j < length out"
    and "claiming (nf_Kind (sn_Notification (out ! i)))" "claiming (nf_Kind (sn_Notification (out ! j)))"
    and "sn_Answer (out ! i) \<noteq> Unanswered" "sn_Answer (out ! j) \<noteq> Unanswered"
  shows "sn_At (out ! i) + w_Cooldown w \<le> sn_At (out ! j)"
proof -
  have "claims_ok held w r []" by (simp add: claims_ok_def)
  from claims_ok_Run [OF assms(1-3) run this] have ok: "claims_ok held w r' out" .
  then have "spaced w (out ! i) (out ! j)" using ij by (simp add: claims_ok_def sorted_wrt_iff_nth_less)
  moreover have "sn_Answer (out ! n) = Granted"
    if "n < length out" "claiming (nf_Kind (sn_Notification (out ! n)))" "sn_Answer (out ! n) \<noteq> Unanswered" for n
    using ok that nth_mem [OF that(1)] by (fastforce simp: claims_ok_def)
  ultimately show ?thesis using ij assms(7-10) by (simp add: spaced_def)
qed

text \<open>A watch that fires at once, tells a topic, and then keeps quiet for five minutes.\<close>

definition loud_watch :: watch where
  "loud_watch =
     coalesced_watch\<lparr>w_Conditions := [sample_absence ''a'' []], w_Cooldown := seconds 300,
       w_Actions := [\<lparr>asp_ID = ''t'', asp_Type = ''topic'',
         asp_Params = Some [(''deploymentId'', GStr ''d''), (''subject'', GStr ''alerts'')]\<rparr>]\<rparr>"

definition map_setnx :: "(string \<Rightarrow> int) setnx" where
  "map_setnx t key ttl r = (if r key \<le> t then (Some True, r(key := max (r key) (t + ttl))) else (Some False, r))"

lemma map_setnx_faithful: "faithful_setnx map_setnx (\<lambda>r. r)"
  by (auto simp: faithful_setnx_def map_setnx_def split: if_splits)

definition loud_runner :: "(string \<Rightarrow> int, rat) runner" where
  "loud_runner =
     \<lparr>rn_arith = rat_arith, rn_is_address = (\<lambda>a. a \<noteq> []), rn_dispatcher = \<lparr>dp_topics = True, dp_mail = False\<rparr>,
      rn_quiet = Some map_setnx\<rparr>"

text \<open>A source that reported for an hour and then fell silent.\<close>

definition silent_fetch :: "alert_query \<Rightarrow> (alert_error, rat series) res" where
  "silent_fetch q =
     Inr \<lparr>se_Step = q_Step q, StartMS = UnixMilli (q_From q),
          Values = replicate (nat (Buckets q) - 5) (Some 1) @ replicate 5 (Some 0), Denominator = [], Filled = False\<rparr>"

definition loud_tick :: "int \<Rightarrow> rat tick" where
  "loud_tick now =
     \<lparr>tk_Now = now, tk_Clock = now, tk_Leader = True, tk_Ingesting = Some True, tk_Fetch = silent_fetch,
      tk_Written = True, tk_Send = (\<lambda>d n. None), tk_Noted = True\<rparr>"

definition loud_run :: "int list \<Rightarrow> rat alert_rows \<times> (string \<Rightarrow> int) \<times> rat sent list" where
  "loud_run ts = runner_Run loud_runner (map (\<lambda>t. loud_tick (seconds t)) ts) loud_watch (new_rows ''h'' 0, (\<lambda>k. 0), [])"

lemma loud_run_sends:
  "map (\<lambda>x. (nf_Kind (sn_Notification x), sn_At x, sn_Answer x)) (snd (snd (loud_run [600, 700, 1000]))) =
     [(ActionOpen, seconds 600, Granted), (ActionRepeat, seconds 1000, Granted)]"
  by code_simp

lemma claims_spaced_by_cooldown_witness:
  "\<exists>x y. snd (snd (loud_run [600, 700, 1000])) = [x, y] \<and> nf_Kind (sn_Notification y) = ActionRepeat \<and>
     sn_At x + seconds 300 \<le> sn_At y"
proof -
  obtain d r out where run: "loud_run [600, 700, 1000] = (d, r, out)" by (metis prod_cases3)
  obtain x y where out: "out = [x, y]" "nf_Kind (sn_Notification x) = ActionOpen" "sn_Answer x = Granted"
      "nf_Kind (sn_Notification y) = ActionRepeat" "sn_Answer y = Granted"
    using loud_run_sends run by (auto simp: map_eq_Cons_conv)
  have w: "0 < w_Cooldown loud_watch" "w_Cooldown loud_watch = seconds 300" by (simp_all add: loud_watch_def seconds_def)
  have q: "rn_quiet loud_runner = Some map_setnx" by (simp add: loud_runner_def)
  from claims_spaced_by_cooldown [OF q w(1) map_setnx_faithful run [unfolded loud_run_def], of 0 1] out
  show ?thesis using run w(2) by (simp add: claiming_def)
qed

section \<open>What the announcements say\<close>

lemma announce_each_incident:
  assumes "announce_each rn k w ev s as (d, r, out) = (d', r', out')" "x \<in> set out'" "x \<notin> set out"
  shows "nf_IncidentID (sn_Notification x) = as_IncidentID s \<and> (\<exists>a\<in>set as. nf_Kind (sn_Notification x) = ac_Kind a)"
  using assms
proof (induction as arbitrary: d r out)
  case (Cons a as)
  obtain sw answer r1 where a: "silenced rn (tk_Clock k) w a r = (sw, answer, r1)" by (metis prod_cases3)
  show ?case
  proof (cases sw)
    case True
    then show ?thesis using Cons a by auto
  next
    case False
    let ?n = "NewNotification w s ev a"
    let ?x = "\<lparr>sn_At = tk_Clock k, sn_Answer = answer, sn_Notification = ?n,
      sn_Results = Notify (rn_is_address rn) (rn_dispatcher rn) (tk_Send k) w ?n\<rparr>"
    obtain d1 where rest: "announce_each rn k w ev s as (d1, r1, out @ [?x]) = (d', r', out')"
      using Cons.prems(1) a False by (simp add: Let_def)
    show ?thesis
    proof (cases "x = ?x")
      case True
      then show ?thesis by (simp add: NewNotification_def)
    next
      case False
      then show ?thesis using Cons.IH [OF rest] Cons.prems(2,3) by auto
    qed
  qed
qed simp

lemma announce_each_rows:
  assumes "announce_each rn k w ev s as (d, r, out) = (d', r', out')"
  shows "watch_reachable allowed (w, d) \<Longrightarrow> watch_reachable allowed (w, d')"
    and "as_IncidentID s \<noteq> Some i \<Longrightarrow> ar_Incidents d' i = ar_Incidents d i"
proof -
  have "(watch_reachable allowed (w, d) \<longrightarrow> watch_reachable allowed (w, d')) \<and>
      (as_IncidentID s \<noteq> Some i \<longrightarrow> ar_Incidents d' i = ar_Incidents d i)"
    using assms
  proof (induction as arbitrary: d r out)
    case (Cons a as)
    obtain sw answer r1 where a: "silenced rn (tk_Clock k) w a r = (sw, answer, r1)" by (metis prod_cases3)
    let ?d = "RecordNotification (as_IncidentID s) (ac_At a) d"
    have "watch_reachable allowed (w, d) \<Longrightarrow> watch_reachable allowed (w, ?d)"
      by (rule watch_reachable.later [OF _ watch_step.notified])
    moreover have "as_IncidentID s \<noteq> Some i \<Longrightarrow> ar_Incidents ?d i = ar_Incidents d i"
      by (auto simp: RecordNotification_def Let_def split: option.splits)
    ultimately show ?case
      using Cons.IH Cons.prems a by (fastforce simp: Let_def split: if_splits)
  qed simp
  then show "watch_reachable allowed (w, d) \<Longrightarrow> watch_reachable allowed (w, d')"
    "as_IncidentID s \<noteq> Some i \<Longrightarrow> ar_Incidents d' i = ar_Incidents d i" by blast+
qed

lemma announce_reachable:
  assumes "announce rn k w ev s as (d1, r, out) = (d', r', out')" "evaluate w ev now d = Some (s, d1)"
    and "watch_reachable allowed (w, d)"
  shows "watch_reachable allowed (w, d')"
  using assms(1) announce_each_rows(1) watch_reachable.later [OF assms(3) watch_step.evaluated [OF assms(2)]]
  by (fastforce simp: announce_def split: if_splits)

lemma runner_tick_reachable:
  assumes "watch_Build (rn_arith rn) w = Inr b" "runner_tick rn k w (d, r, out) = (d', r', out')"
    and "watch_reachable allowed (w, d)"
  shows "watch_reachable allowed (w, d')"
  using assms watch_reachable.later [OF assms(3) watch_step.deferred, of "tk_Now k + w_Interval w"]
  by (auto simp: runner_tick_def run_watch_def Let_def split: if_splits option.splits
      dest: announce_reachable)

lemma runner_Run_reachable:
  assumes "watch_Build (rn_arith rn) w = Inr b"
  shows "runner_Run rn ks w (d, r, out) = (d', r', out') \<Longrightarrow> watch_reachable allowed (w, d) \<Longrightarrow> watch_reachable allowed (w, d')"
proof (induction ks arbitrary: d r out)
  case (Cons k ks)
  obtain d1 r1 out1 where t: "runner_tick rn k w (d, r, out) = (d1, r1, out1)" by (metis prod_cases3)
  from Cons.IH [OF _ runner_tick_reachable [OF assms t Cons.prems(2)]] Cons.prems(1) t show ?case
    by (simp add: runner_Run_def)
qed (simp add: runner_Run_def)

text \<open>A watch that cannot be built any more is parked with its incident left open for good.\<close>

lemma parked_incident_orphaned:
  "is_open d i \<Longrightarrow> i < ar_NextIncident d \<Longrightarrow> orphaned i (MarkInvalid now t d)"
  by (simp add: orphaned_def) (simp add: MarkInvalid_def)

text \<open>
  A watch that is retired while its evaluation runs is firing again when the evaluation is
  recorded, and points at the incident the retirement closed.
\<close>

lemma retired_while_evaluating:
  assumes "as_Phase (ar_State d) = PhaseFiring" "as_IncidentID (ar_State d) = Some i"
    and "as_DefinitionHash (ar_State d) = w_DefinitionHash w" "HoldEvaluations w \<le> int (Suc (as_Firing (ar_State d)))"
    and "ev_Verdict ev = TTrue" "as_LastEvalAt (ar_State d) = Some t0" "t0 < now"
  shows "\<exists>n as s d'. alert_Step (ar_State d) w ev now = (n, as) \<and>
    store_Record \<lparr>rs_Watch = w, rs_Evaluation = ev, rs_Previous = ar_State d, rs_State = n, rs_Actions = as\<rparr>
      (retireTx reason t d) = Some (s, d') \<and>
    as_Phase (ar_State d') = PhaseFiring \<and> as_IncidentID (ar_State d') = Some i \<and> \<not> is_open d' i"
proof -
  obtain n where n: "alert_Step (ar_State d) w ev now = (n, [\<lparr>ac_Kind = ActionRepeat, ac_At = now, ac_Reason = None\<rparr>])"
      "as_Phase n = PhaseFiring" "as_IncidentID n = Some i" "as_LastEvalAt n = Some now"
    using assms by (simp add: alert_Step_def Let_def firing_def ev_Decided_def ev_Firing_def)
  let ?r = "\<lparr>rs_Watch = w, rs_Evaluation = ev, rs_Previous = ar_State d, rs_State = n,
    rs_Actions = [\<lparr>ac_Kind = ActionRepeat, ac_At = now, ac_Reason = None\<rparr>]\<rparr>"
  have "as_LastEvalAt (ar_State (retireTx reason t d)) = Some t0" using assms(6) by (simp add: retireTx_def)
  then obtain d1 where d1: "writeState n ?r (retireTx reason t d) = Some d1"
    using n(4) assms(7) by (simp add: writeState_def)
  have rec: "store_Record ?r (retireTx reason t d) = Some (n, writeEvaluation n ?r d1)"
    using d1 by (simp add: store_Record_def)
  note R = Record_effect [OF rec]
  show ?thesis using n rec R by (auto simp: starts_def)
qed

text \<open>The returned state names the incident the row names.\<close>

lemma store_Record_state:
  "store_Record r d = Some (s, d') \<Longrightarrow> as_IncidentID (ar_State d') = as_IncidentID s"
  by (auto simp: store_Record_def writeState_def split: prod.splits option.splits if_splits)

lemma ended_is_left:
  assumes "evaluate w ev now d = Some (s, d')" "ends (snd (alert_Step (ar_State d) w ev now))"
    and "i < ar_NextIncident d"
  shows "as_IncidentID s \<noteq> Some i"
proof -
  obtain n as where st: "alert_Step (ar_State d) w ev now = (n, as)" by force
  let ?r = "\<lparr>rs_Watch = w, rs_Evaluation = ev, rs_Previous = ar_State d, rs_State = n, rs_Actions = as\<rparr>"
  have rec: "store_Record ?r d = Some (s, d')" using assms(1) st by (simp add: evaluate_def)
  note S = Step_effect [OF st]
  note R = Record_effect [OF rec, simplified, OF S(1) [simplified]]
  show ?thesis using R(2) S(5) store_Record_state [OF rec] assms(2,3) st by (auto split: if_splits)
qed

lemma close_notifications:
  "map_option in_Notifications (ar_Incidents (closeEpisodes r as d) i) = map_option in_Notifications (ar_Incidents d i)"
  by (induction r as d rule: closeEpisodes.induct)
    (auto simp: close_incident_def option.map_comp comp_def split: option.splits if_splits intro!: option.map_cong)

lemma open_notifications:
  "open_all r as (s, d) = (s', d') \<Longrightarrow> i < ar_NextIncident d \<Longrightarrow> ar_Incidents d' i = ar_Incidents d i"
  by (induction r as "(s, d)" arbitrary: s d rule: open_all.induct)
    (fastforce simp: openIncident_def split: if_splits)+

lemma evaluate_notifications:
  assumes "evaluate w ev now d = Some (s, d')" "i < ar_NextIncident d"
  shows "map_option in_Notifications (ar_Incidents d' i) = map_option in_Notifications (ar_Incidents d i)"
proof -
  have written: "writeState s r d1 = Some d2 \<Longrightarrow> ar_Incidents d2 = ar_Incidents d1" for s r d1 d2
    by (auto simp: writeState_def split: option.splits if_splits)
  have row: "map_option in_Notifications (ar_Incidents (writeEvaluation s r d2) i) = map_option in_Notifications (ar_Incidents d2 i)"
    for s r d2
    by (auto simp: writeEvaluation_def Let_def option.map_comp comp_def split: option.splits)
  show ?thesis
    using assms open_notifications [OF _ assms(2)]
    by (auto simp: evaluate_def store_Record_def close_notifications row written split: prod.splits option.splits)
qed

text \<open>
  The announcement that an episode is over never names the incident it ends, and is not
  counted on that incident: it carries no incident at all, or the one opened by the same
  evaluation after an edit.
\<close>

theorem end_notice_names_no_incident:
  assumes run: "run_watch rn k ingesting w (d, r, []) = (d', r', out)"
    and x: "x \<in> set out" "nf_Resolved (sn_Notification x)"
    and i: "as_IncidentID (ar_State d) = Some i" "i < ar_NextIncident d"
  shows "nf_IncidentID (sn_Notification x) \<noteq> Some i \<and>
    map_option in_Notifications (ar_Incidents d' i) = map_option in_Notifications (ar_Incidents d i)"
proof -
  obtain b where b: "watch_Build (rn_arith rn) w = Inr b"
    using run x(1) by (cases "watch_Build (rn_arith rn) w") (auto simp: run_watch_def split: if_splits)
  define ev where "ev = watch_Evaluate (rn_arith rn) b (tk_Now k) (fetchAll (tk_Fetch k) (Plan (tk_Now k) b))"
  obtain s d1 where e: "evaluate w ev (tk_Now k) d = Some (s, d1)"
      "announce rn k w ev s (snd (alert_Step (ar_State d) w ev (tk_Now k))) (d1, r, []) = (d', r', out)"
    using run b x(1) by (auto simp: run_watch_def Let_def ev_def [symmetric] split: if_splits option.splits)
  let ?as = "snd (alert_Step (ar_State d) w ev (tk_Now k))"
  have each: "announce_each rn k w ev s ?as (d1, r, []) = (d', r', out)"
    using e(2) x(1) by (auto simp: announce_def split: if_splits)
  have I: "nf_IncidentID (sn_Notification x) = as_IncidentID s"
      "\<exists>a\<in>set ?as. nf_Kind (sn_Notification x) = ac_Kind a"
    using announce_each_incident [OF each x(1)] by simp_all
  have "ends ?as" using I(2) x(2) unfolding ends_def nf_Resolved_def by metis
  from ended_is_left [OF e(1) this i(2)] have left: "as_IncidentID s \<noteq> Some i" .
  have "map_option in_Notifications (ar_Incidents d1 i) = map_option in_Notifications (ar_Incidents d i)"
    by (rule evaluate_notifications [OF e(1) i(2)])
  then show ?thesis using I left announce_each_rows(2) [OF each left] by simp
qed

text \<open>The silence of the loud watch ends, and two clean evaluations resolve its incident.\<close>

definition clear_tick :: "int \<Rightarrow> rat tick" where
  "clear_tick now = (loud_tick now)\<lparr>tk_Fetch := steady_fetch\<rparr>"

definition clearing_rows :: "rat alert_rows" where
  "clearing_rows =
     fst (runner_tick loud_runner (clear_tick (seconds 700)) loud_watch (loud_run [600]))"

lemma clearing_facts:
  "as_IncidentID (ar_State clearing_rows) = Some 0" "ar_NextIncident clearing_rows = 1"
  "map (\<lambda>x. nf_Kind (sn_Notification x))
     (snd (snd (run_watch loud_runner (clear_tick (seconds 800)) True loud_watch (clearing_rows, (\<lambda>k. 0), [])))) = [ActionResolve]"
  by code_simp+

lemma end_notice_names_no_incident_witness:
  "\<exists>d r x. run_watch loud_runner (clear_tick (seconds 800)) True loud_watch (clearing_rows, (\<lambda>k. 0), []) = (d, r, [x]) \<and>
     nf_Kind (sn_Notification x) = ActionResolve \<and> as_IncidentID (ar_State clearing_rows) = Some 0 \<and>
     nf_IncidentID (sn_Notification x) \<noteq> Some 0"
proof -
  obtain d r out where run: "run_watch loud_runner (clear_tick (seconds 800)) True loud_watch (clearing_rows, (\<lambda>k. 0), []) = (d, r, out)"
    by (metis prod_cases3)
  obtain x where x: "out = [x]" "nf_Kind (sn_Notification x) = ActionResolve"
    using clearing_facts(3) run by (auto simp: map_eq_Cons_conv)
  from end_notice_names_no_incident [OF run _ _ clearing_facts(1), of x] x run clearing_facts(1,2) show ?thesis
    by (simp add: nf_Resolved_def)
qed

end
