(* ===== verification/Octo_Agent_Run.thy ===== *)
theory Octo_Agent_Run
  imports Octo_Strings Octo_Value Octo_Message
begin

text \<open>
  A run of an agent as everything outside it sees it (\<^verbatim>\<open>blocks/ai/agentsignals.go\<close>):
  the messages handed to it, the stop, the gates it holds in front of a person; the instructions
  that reach it from another replica (\<^verbatim>\<open>agentclaim.go\<close>); the registry of the process's
  runs; and the protocol by which at most one run works on a conversation.
\<close>

section \<open>One run\<close>

text \<open>
  A gate's channel holds at most one answer: \<open>ru_gates\<close> maps an authorization id to the number
  of its channel, \<open>ru_answers\<close> a channel to the answer waiting in it. Every operation is one
  critical section of the run's mutex.
\<close>

record agent_run =
  ru_pending :: "string list"
  ru_stopped :: bool
  ru_done :: bool
  ru_gates :: "string \<rightharpoonup> nat"
  ru_answers :: "nat \<rightharpoonup> bool"
  ru_chans :: nat

definition new_run :: agent_run where
  "new_run = \<lparr>ru_pending = [], ru_stopped = False, ru_done = False, ru_gates = Map.empty, ru_answers = Map.empty, ru_chans = 0\<rparr>"

definition run_openGate :: "string \<Rightarrow> agent_run \<Rightarrow> agent_run \<times> nat" where
  "run_openGate i r = (r\<lparr>ru_gates := (ru_gates r)(i \<mapsto> ru_chans r), ru_chans := Suc (ru_chans r)\<rparr>, ru_chans r)"

definition run_closeGate :: "string \<Rightarrow> agent_run \<Rightarrow> agent_run" where
  "run_closeGate i r = r\<lparr>ru_gates := (ru_gates r)(i := None)\<rparr>"

definition run_authorize :: "string \<Rightarrow> bool \<Rightarrow> agent_run \<Rightarrow> agent_run \<times> bool" where
  "run_authorize i allowed r =
     (case ru_gates r i of
        None \<Rightarrow> (r, False)
      | Some ch \<Rightarrow> (r\<lparr>ru_gates := (ru_gates r)(i := None), ru_answers := (ru_answers r)(ch \<mapsto> allowed)\<rparr>, True))"

definition run_offer :: "string \<Rightarrow> agent_run \<Rightarrow> agent_run \<times> bool" where
  "run_offer s r =
     (if ru_done r then (r, False)
      else let trimmed = TrimSpace s in
        (if trimmed \<noteq> [] then r\<lparr>ru_pending := ru_pending r @ [trimmed]\<rparr> else r, True))"

definition run_requestStop :: "agent_run \<Rightarrow> agent_run \<times> bool" where
  "run_requestStop r = (if ru_done r then (r, False) else (r\<lparr>ru_stopped := True\<rparr>, True))"

definition run_take :: "agent_run \<Rightarrow> agent_run \<times> string list" where
  "run_take r = (r\<lparr>ru_pending := []\<rparr>, ru_pending r)"

definition run_finish :: "agent_run \<Rightarrow> agent_run \<times> bool" where
  "run_finish r = (if ru_pending r \<noteq> [] then (r, False) else (r\<lparr>ru_done := True\<rparr>, True))"

definition run_close :: "agent_run \<Rightarrow> agent_run" where
  "run_close r = r\<lparr>ru_done := True\<rparr>"

lemmas run_op_defs = run_openGate_def run_closeGate_def run_authorize_def run_offer_def run_requestStop_def
  run_take_def run_finish_def run_close_def

section \<open>Instructions from outside\<close>

definition fieldSignal :: string where "fieldSignal = ''signal''"
definition signalContext :: string where "signalContext = ''context''"
definition signalStop :: string where "signalStop = ''stop''"
definition signalAuthorize :: string where "signalAuthorize = ''authorize''"
definition signalUnanswered :: string where "signalUnanswered = ''unanswered''"
definition fieldText :: string where "fieldText = ''text''"
definition fieldAuthorizationID :: string where "fieldAuthorizationID = ''authorizationId''"
definition fieldAllowed :: string where "fieldAllowed = ''allowed''"
definition fieldAccepted :: string where "fieldAccepted = ''accepted''"

lemmas signal_defs = fieldSignal_def signalContext_def signalStop_def signalAuthorize_def signalUnanswered_def
  fieldText_def fieldAuthorizationID_def fieldAllowed_def fieldAccepted_def

record delivery =
  de_signal :: string
  de_text :: string
  de_auth :: string
  de_allowed :: bool

definition delivery_body :: "delivery \<Rightarrow> gval" where
  "delivery_body d =
     GMap ([(fieldSignal, GStr (de_signal d)), (fieldText, GStr (de_text d))] @
       (if de_signal d = signalAuthorize
        then [(fieldAuthorizationID, GStr (de_auth d)), (fieldAllowed, GBool (de_allowed d))] else []))"

definition field_string :: "(string \<times> gval) list \<Rightarrow> string \<Rightarrow> string" where
  "field_string kvs k = (case map_of kvs k of Some (GStr s) \<Rightarrow> s | _ \<Rightarrow> [])"

definition field_bool :: "(string \<times> gval) list \<Rightarrow> string \<Rightarrow> bool" where
  "field_bool kvs k = (case map_of kvs k of Some (GBool b) \<Rightarrow> b | _ \<Rightarrow> False)"

definition readDelivery :: "gval \<Rightarrow> delivery" where
  "readDelivery body =
     (case body of
        GMap kvs \<Rightarrow>
          \<lparr>de_signal = (if field_string kvs fieldSignal = [] then signalContext else field_string kvs fieldSignal),
           de_text = field_string kvs fieldText, de_auth = field_string kvs fieldAuthorizationID,
           de_allowed = field_bool kvs fieldAllowed\<rparr>
      | _ \<Rightarrow> \<lparr>de_signal = signalContext, de_text = [], de_auth = [], de_allowed = False\<rparr>)"

definition apply_delivery :: "delivery \<Rightarrow> agent_run \<Rightarrow> agent_run \<times> bool" where
  "apply_delivery d r =
     (if de_signal d = signalStop then run_requestStop r
      else if de_signal d = signalAuthorize then run_authorize (de_auth d) (de_allowed d) r
      else run_offer (de_text d) r)"

definition handleDelivery :: "gval \<Rightarrow> agent_run \<Rightarrow> agent_run \<times> gval" where
  "handleDelivery body r =
     (case apply_delivery (readDelivery body) r of (r', accepted) \<Rightarrow> (r', GMap [(fieldAccepted, GBool accepted)]))"

definition acceptedBy :: "gval \<Rightarrow> bool" where
  "acceptedBy reply = (case reply of GMap kvs \<Rightarrow> field_bool kvs fieldAccepted | _ \<Rightarrow> False)"

text \<open>The deliveries the code builds: an offer, a stop, an answer to a gate.\<close>

definition context_delivery :: "string \<Rightarrow> delivery" where
  "context_delivery s = \<lparr>de_signal = signalContext, de_text = s, de_auth = [], de_allowed = False\<rparr>"

definition stop_delivery :: delivery where
  "stop_delivery = \<lparr>de_signal = signalStop, de_text = [], de_auth = [], de_allowed = False\<rparr>"

definition authorize_delivery :: "string \<Rightarrow> bool \<Rightarrow> delivery" where
  "authorize_delivery i allowed = \<lparr>de_signal = signalAuthorize, de_text = [], de_auth = i, de_allowed = allowed\<rparr>"

lemma delivery_roundtrip:
  "readDelivery (delivery_body (context_delivery s)) = context_delivery s"
  "readDelivery (delivery_body stop_delivery) = stop_delivery"
  "readDelivery (delivery_body (authorize_delivery i b)) = authorize_delivery i b"
  by (simp_all add: readDelivery_def delivery_body_def context_delivery_def stop_delivery_def
      authorize_delivery_def field_string_def field_bool_def signal_defs)

lemma acceptedBy_handleDelivery:
  "handleDelivery body r = (r', reply) \<Longrightarrow> acceptedBy reply = snd (apply_delivery (readDelivery body) r)"
  by (auto simp: handleDelivery_def acceptedBy_def field_bool_def split: prod.splits)

section \<open>Nothing accepted is lost by a clean finish\<close>

datatype run_op = OpOffer string | OpStop | OpAuthorize string bool | OpOpenGate string | OpCloseGate string
  | OpTake | OpFinish | OpClose

text \<open>What an operation did to the messages: those it accepted, those it gave out.\<close>

fun run_step :: "run_op \<Rightarrow> agent_run \<Rightarrow> agent_run \<times> string list \<times> string list" where
  "run_step (OpOffer s) r =
     (case run_offer s r of (r', ok) \<Rightarrow> (r', if ok \<and> TrimSpace s \<noteq> [] then [TrimSpace s] else [], []))"
| "run_step OpStop r = (fst (run_requestStop r), [], [])"
| "run_step (OpAuthorize i b) r = (fst (run_authorize i b r), [], [])"
| "run_step (OpOpenGate i) r = (fst (run_openGate i r), [], [])"
| "run_step (OpCloseGate i) r = (run_closeGate i r, [], [])"
| "run_step OpTake r = (case run_take r of (r', ms) \<Rightarrow> (r', [], ms))"
| "run_step OpFinish r = (fst (run_finish r), [], [])"
| "run_step OpClose r = (run_close r, [], [])"

fun run_steps :: "run_op list \<Rightarrow> agent_run \<Rightarrow> agent_run \<times> string list \<times> string list" where
  "run_steps [] r = (r, [], [])"
| "run_steps (p # ps) r =
     (case run_step p r of (r1, acc, out) \<Rightarrow>
      case run_steps ps r1 of (r2, accs, outs) \<Rightarrow> (r2, acc @ accs, out @ outs))"

lemma run_step_conserves:
  "run_step p r = (r', acc, out) \<Longrightarrow> ru_pending r @ acc = out @ ru_pending r'"
  by (cases p) (auto simp: run_op_defs Let_def split: option.splits if_splits)

lemma run_steps_conserve:
  "run_steps ps r = (r', acc, out) \<Longrightarrow> ru_pending r @ acc = out @ ru_pending r'"
proof (induction ps arbitrary: r acc out)
  case (Cons p ps)
  obtain r1 a1 o1 where s: "run_step p r = (r1, a1, o1)" by (cases "run_step p r")
  obtain a2 o2 where ss: "run_steps ps r1 = (r', a2, o2)" and eq: "acc = a1 @ a2" "out = o1 @ o2"
    using Cons.prems s by (auto split: prod.splits)
  have "ru_pending r @ acc = o1 @ ru_pending r1 @ a2"
    using run_step_conserves [OF s] by (simp add: eq)
  also have "\<dots> = o1 @ o2 @ ru_pending r'" using Cons.IH [OF ss] by simp
  finally show ?case by (simp add: eq)
qed simp

text \<open>The gates in front of a person: an open gate's channel is empty, so answering never waits.\<close>

definition gates_ok :: "agent_run \<Rightarrow> bool" where
  "gates_ok r \<longleftrightarrow> (\<forall>i ch. ru_gates r i = Some ch \<longrightarrow> ch < ru_chans r \<and> ru_answers r ch = None) \<and>
     (\<forall>ch. ru_answers r ch \<noteq> None \<longrightarrow> ch < ru_chans r) \<and>
     (\<forall>i j ch. ru_gates r i = Some ch \<longrightarrow> ru_gates r j = Some ch \<longrightarrow> i = j)"

lemma gates_ok_new [simp]: "gates_ok new_run"
  by (simp add: gates_ok_def new_run_def)

lemma gates_ok_step: "gates_ok r \<Longrightarrow> run_step p r = (r', acc, out) \<Longrightarrow> gates_ok r'"
  by (cases p) (auto simp: run_op_defs gates_ok_def Let_def split: option.splits if_splits, fastforce+)

theorem clean_finish_loses_nothing:
  assumes "run_steps ps new_run = (r, acc, out)"
    and "run_finish r = (r', True)"
    and "run_steps qs r' = (r'', acc', out')"
  shows "acc = out \<and> acc' = [] \<and> out' = [] \<and> ru_done r''"
proof -
  have p: "ru_pending r = []" and d: "ru_done r'" "ru_pending r' = []"
    using assms(2) by (auto simp: run_finish_def split: if_splits)
  have one: "acc = out" using run_steps_conserve [OF assms(1)] p by (simp add: new_run_def)
  have "\<And>q s s' a b. run_step q s = (s', a, b) \<Longrightarrow> ru_done s \<Longrightarrow> ru_pending s = [] \<Longrightarrow>
      a = [] \<and> b = [] \<and> ru_done s' \<and> ru_pending s' = []"
    by (case_tac q) (auto simp: run_op_defs split: option.splits)
  then have "run_steps qs s = (s', a, b) \<Longrightarrow> ru_done s \<Longrightarrow> ru_pending s = [] \<Longrightarrow> a = [] \<and> b = [] \<and> ru_done s'"
    for s s' a b
    by (induction qs arbitrary: s a b) (fastforce split: prod.splits)+
  with one d assms(3) show ?thesis by blast
qed

theorem clean_finish_witness:
  "run_steps [OpOffer '' hi '', OpTake] new_run = (new_run, [''hi''], [''hi'']) \<and>
   snd (run_steps [OpOffer ''late''] (fst (run_finish new_run))) = ([], [])"
proof -
  have t: "TrimSpace '' hi '' = ''hi''" by code_simp
  have a: "run_steps [OpOffer '' hi '', OpTake] new_run = (new_run, [''hi''], [''hi''])"
    by (simp add: t run_op_defs new_run_def)
  have b: "run_finish new_run = (fst (run_finish new_run), True)"
    by (simp add: run_finish_def new_run_def)
  have "run_steps [OpOffer ''late''] (fst (run_finish new_run)) =
      (fst (run_steps [OpOffer ''late''] (fst (run_finish new_run))),
       fst (snd (run_steps [OpOffer ''late''] (fst (run_finish new_run)))),
       snd (snd (run_steps [OpOffer ''late''] (fst (run_finish new_run)))))" by simp
  from clean_finish_loses_nothing [OF a b this] a show ?thesis
    by (metis prod.collapse)
qed

section \<open>The registry and the claim\<close>

text \<open>
  Invocations are numbered; \<open>home i\<close> is the replica that runs invocation \<open>i\<close> and \<open>conv i\<close> its
  claim key. The lease service grants a key to one holder (\<open>core.Leases\<close>); the conversation's
  subject reaches the runs subscribed under its key (\<open>core.Queues\<close>).
\<close>

datatype run_phase =
    Fresh string | Trying nat string | Leased | Subscribed | Working
  | RunClosed | Unsubscribed | Unleased | Gone | HandedOff | ClaimFailed

record cluster =
  cl_run :: "nat \<Rightarrow> agent_run"
  cl_phase :: "nat \<Rightarrow> run_phase"
  cl_regs :: "nat \<Rightarrow> string \<rightharpoonup> nat"
  cl_lease :: "string \<rightharpoonup> nat"
  cl_subs :: "string \<Rightarrow> nat list"
  cl_lost :: "nat \<Rightarrow> bool"

definition claimAttempts :: nat where "claimAttempts = 3"

definition set_run :: "nat \<Rightarrow> agent_run \<Rightarrow> cluster \<Rightarrow> cluster" where
  "set_run i r s = s\<lparr>cl_run := (cl_run s)(i := r)\<rparr>"

definition set_phase :: "nat \<Rightarrow> run_phase \<Rightarrow> cluster \<Rightarrow> cluster" where
  "set_phase i p s = s\<lparr>cl_phase := (cl_phase s)(i := p)\<rparr>"

definition offerTo :: "nat \<Rightarrow> string \<Rightarrow> cluster \<Rightarrow> cluster \<times> bool" where
  "offerTo j s c = (case run_offer s (cl_run c j) of (r, ok) \<Rightarrow> (set_run j r c, ok))"

definition offerLocal :: "nat \<Rightarrow> string \<Rightarrow> string \<Rightarrow> cluster \<Rightarrow> cluster \<times> bool" where
  "offerLocal a key s c = (case cl_regs c a key of None \<Rightarrow> (c, False) | Some j \<Rightarrow> offerTo j s c)"

definition takeRun :: "nat \<Rightarrow> string \<Rightarrow> nat \<Rightarrow> cluster \<Rightarrow> cluster" where
  "takeRun a key i c = c\<lparr>cl_regs := (cl_regs c)(a := (cl_regs c a)(key \<mapsto> i))\<rparr>"

definition releaseRun :: "nat \<Rightarrow> string \<Rightarrow> nat \<Rightarrow> cluster \<Rightarrow> cluster" where
  "releaseRun a key i c =
     (if key = [] then c
      else if cl_regs c a key = Some i then c\<lparr>cl_regs := (cl_regs c)(a := (cl_regs c a)(key := None))\<rparr> else c)"

definition sharingThread :: "string list \<Rightarrow> nat \<Rightarrow> string \<Rightarrow> cluster \<Rightarrow> string option" where
  "sharingThread keys a key c =
     (let cut = (\<lambda>s. (takeWhile (\<lambda>x. x \<noteq> CHR 0x00) s, dropWhile (\<lambda>x. x \<noteq> CHR 0x00) s)) in
      if snd (cut key) = [] then None
      else map_option (fst \<circ> cut)
        (List.find (\<lambda>k. cl_regs c a k \<noteq> None \<and> k \<noteq> key \<and> snd (cut k) = snd (cut key)) keys))"

inductive cl_step :: "(nat \<Rightarrow> nat) \<Rightarrow> (nat \<Rightarrow> string) \<Rightarrow> cluster \<Rightarrow> cluster \<Rightarrow> bool" for home conv where
  handed_local: "cl_phase c i = Fresh s \<Longrightarrow> offerLocal (home i) (conv i) s c = (c', True) \<Longrightarrow>
    cl_step home conv c (set_phase i HandedOff c')"
| missed: "cl_phase c i = Fresh s \<Longrightarrow> offerLocal (home i) (conv i) s c = (c', False) \<Longrightarrow>
    cl_step home conv c (set_phase i (Trying 0 s) c')"
| acquired: "cl_phase c i = Trying n s \<Longrightarrow> n < claimAttempts \<Longrightarrow> cl_lease c (conv i) = None \<Longrightarrow>
    cl_step home conv c (set_phase i Leased (c\<lparr>cl_lease := (cl_lease c)(conv i \<mapsto> i)\<rparr>))"
| claim_errored: "cl_phase c i = Trying n s \<Longrightarrow> cl_step home conv c (set_phase i ClaimFailed c)"
| subscribed: "cl_phase c i = Leased \<Longrightarrow>
    cl_step home conv c (set_phase i Subscribed (c\<lparr>cl_subs := (cl_subs c)(conv i := i # cl_subs c (conv i))\<rparr>))"
| unsubscribable: "cl_phase c i = Leased \<Longrightarrow>
    cl_step home conv c (set_phase i ClaimFailed
      (if cl_lost c i then c else c\<lparr>cl_lease := (cl_lease c)(conv i := None)\<rparr>))"
| registered: "cl_phase c i = Subscribed \<Longrightarrow> cl_step home conv c (set_phase i Working (takeRun (home i) (conv i) i c))"
| handed_across: "cl_phase c i = Trying n s \<Longrightarrow> n < claimAttempts \<Longrightarrow> cl_lease c (conv i) \<noteq> None \<Longrightarrow>
    j \<in> set (cl_subs c (conv i)) \<Longrightarrow> offerTo j s c = (c', True) \<Longrightarrow>
    cl_step home conv c (set_phase i HandedOff c')"
| nobody_home: "cl_phase c i = Trying n s \<Longrightarrow> n < claimAttempts \<Longrightarrow> cl_lease c (conv i) \<noteq> None \<Longrightarrow>
    cl_step home conv c (set_phase i (Trying (Suc n) s) c)"
| operated: "\<forall>s. p \<noteq> OpOffer s \<Longrightarrow> run_step p (cl_run c i) = (r, acc, out) \<Longrightarrow> cl_step home conv c (set_run i r c)"
| closed: "cl_phase c i = Working \<Longrightarrow>
    cl_step home conv c (set_phase i RunClosed (set_run i (run_close (cl_run c i)) c))"
| unsubscribed: "cl_phase c i = RunClosed \<Longrightarrow>
    cl_step home conv c (set_phase i Unsubscribed (c\<lparr>cl_subs := (cl_subs c)(conv i := removeAll i (cl_subs c (conv i)))\<rparr>))"
| unleased: "cl_phase c i = Unsubscribed \<Longrightarrow>
    cl_step home conv c (set_phase i Unleased
      (if cl_lost c i then c else c\<lparr>cl_lease := (cl_lease c)(conv i := None)\<rparr>))"
| released: "cl_phase c i = Unleased \<Longrightarrow> cl_step home conv c (set_phase i Gone (releaseRun (home i) (conv i) i c))"
| lease_lost: "cl_lease c (conv i) = Some i \<Longrightarrow>
    cl_step home conv c (c\<lparr>cl_lease := (cl_lease c)(conv i := None), cl_lost := (cl_lost c)(i := True)\<rparr>)"

inductive_cases cl_stepE: "cl_step home conv c c'"

definition cluster_init :: "(nat \<Rightarrow> string) \<Rightarrow> cluster" where
  "cluster_init opening =
     \<lparr>cl_run = (\<lambda>_. new_run), cl_phase = (\<lambda>i. Fresh (opening i)), cl_regs = (\<lambda>_. Map.empty), cl_lease = Map.empty,
      cl_subs = (\<lambda>_. []), cl_lost = (\<lambda>_. False)\<rparr>"

text \<open>The phases in which an invocation holds the lease, is registered, is subscribed, has closed its run.\<close>

definition holding :: "run_phase \<Rightarrow> bool" where
  "holding p \<longleftrightarrow> p \<in> {Leased, Subscribed, Working, RunClosed, Unsubscribed}"

definition registering :: "run_phase \<Rightarrow> bool" where
  "registering p \<longleftrightarrow> p \<in> {Working, RunClosed, Unsubscribed, Unleased}"

definition listening :: "run_phase \<Rightarrow> bool" where
  "listening p \<longleftrightarrow> p \<in> {Subscribed, Working, RunClosed}"

definition ended :: "run_phase \<Rightarrow> bool" where
  "ended p \<longleftrightarrow> p \<in> {RunClosed, Unsubscribed, Unleased, Gone}"

definition asking :: "run_phase \<Rightarrow> bool" where
  "asking p \<longleftrightarrow> (\<exists>s. p = Fresh s) \<or> (\<exists>n s. p = Trying n s)"

lemmas phase_defs = holding_def registering_def listening_def ended_def asking_def

definition cluster_ok :: "(nat \<Rightarrow> nat) \<Rightarrow> (nat \<Rightarrow> string) \<Rightarrow> cluster \<Rightarrow> bool" where
  "cluster_ok home conv c \<longleftrightarrow>
     (\<forall>k i. cl_lease c k = Some i \<longrightarrow> conv i = k \<and> holding (cl_phase c i) \<and> \<not> cl_lost c i) \<and>
     (\<forall>i. holding (cl_phase c i) \<and> \<not> cl_lost c i \<longrightarrow> cl_lease c (conv i) = Some i) \<and>
     (\<forall>a k i. cl_regs c a k = Some i \<longrightarrow> home i = a \<and> conv i = k \<and> registering (cl_phase c i)) \<and>
     (\<forall>i. ended (cl_phase c i) \<longrightarrow> ru_done (cl_run c i)) \<and>
     (\<forall>k i. i \<in> set (cl_subs c k) \<longrightarrow> conv i = k \<and> listening (cl_phase c i)) \<and>
     (\<forall>i. asking (cl_phase c i) \<longrightarrow> \<not> cl_lost c i)"

lemma run_step_done: "run_step p r = (r', acc, out) \<Longrightarrow> ru_done r \<Longrightarrow> ru_done r'"
  by (cases p) (auto simp: run_op_defs Let_def split: option.splits if_splits)

lemma run_offer_done: "run_offer s r = (r', ok) \<Longrightarrow> ru_done r' = ru_done r"
  by (auto simp: run_offer_def Let_def split: if_splits)

lemma offerTo_simps:
  "offerTo j s c = (c', ok) \<Longrightarrow> cl_phase c' = cl_phase c \<and> cl_regs c' = cl_regs c \<and> cl_lease c' = cl_lease c \<and>
     cl_subs c' = cl_subs c \<and> cl_lost c' = cl_lost c \<and> (\<forall>i. ru_done (cl_run c' i) = ru_done (cl_run c i))"
  by (auto simp: offerTo_def set_run_def dest: run_offer_done split: prod.splits if_splits)

lemma offerLocal_simps:
  "offerLocal a k s c = (c', ok) \<Longrightarrow> cl_phase c' = cl_phase c \<and> cl_regs c' = cl_regs c \<and> cl_lease c' = cl_lease c \<and>
     cl_subs c' = cl_subs c \<and> cl_lost c' = cl_lost c \<and> (\<forall>i. ru_done (cl_run c' i) = ru_done (cl_run c i))"
  by (auto simp: offerLocal_def split: option.splits dest: offerTo_simps)

lemma cluster_okI:
  assumes "\<And>k i. cl_lease c k = Some i \<Longrightarrow> conv i = k \<and> holding (cl_phase c i) \<and> \<not> cl_lost c i"
    and "\<And>i. holding (cl_phase c i) \<Longrightarrow> \<not> cl_lost c i \<Longrightarrow> cl_lease c (conv i) = Some i"
    and "\<And>a k i. cl_regs c a k = Some i \<Longrightarrow> home i = a \<and> conv i = k \<and> registering (cl_phase c i)"
    and "\<And>i. ended (cl_phase c i) \<Longrightarrow> ru_done (cl_run c i)"
    and "\<And>k i. i \<in> set (cl_subs c k) \<Longrightarrow> conv i = k \<and> listening (cl_phase c i)"
    and "\<And>i. asking (cl_phase c i) \<Longrightarrow> \<not> cl_lost c i"
  shows "cluster_ok home conv c"
  using assms unfolding cluster_ok_def by blast

lemma cluster_okD:
  assumes "cluster_ok home conv c"
  shows ok_lease: "cl_lease c k = Some i \<Longrightarrow> conv i = k \<and> holding (cl_phase c i) \<and> \<not> cl_lost c i"
    and ok_holds: "holding (cl_phase c i) \<Longrightarrow> \<not> cl_lost c i \<Longrightarrow> cl_lease c (conv i) = Some i"
    and ok_regs: "cl_regs c a k = Some i \<Longrightarrow> home i = a \<and> conv i = k \<and> registering (cl_phase c i)"
    and ok_ended: "ended (cl_phase c i) \<Longrightarrow> ru_done (cl_run c i)"
    and ok_subs: "i \<in> set (cl_subs c k) \<Longrightarrow> conv i = k \<and> listening (cl_phase c i)"
    and ok_asking: "asking (cl_phase c i) \<Longrightarrow> \<not> cl_lost c i"
  using assms unfolding cluster_ok_def by blast+

lemma cluster_ok_init: "cluster_ok home conv (cluster_init opening)"
  by (simp add: cluster_ok_def cluster_init_def phase_defs)

text \<open>The invariant only reads which runs are done.\<close>

lemma cluster_ok_cong:
  assumes "cluster_ok home conv c" and "cl_phase c' = cl_phase c" and "cl_regs c' = cl_regs c"
    and "cl_lease c' = cl_lease c" and "cl_subs c' = cl_subs c" and "cl_lost c' = cl_lost c"
    and "\<And>i. ru_done (cl_run c i) \<Longrightarrow> ru_done (cl_run c' i)"
  shows "cluster_ok home conv c'"
  using assms unfolding cluster_ok_def by simp

text \<open>An invocation that holds nothing may move among the phases that hold nothing.\<close>

definition idle :: "run_phase \<Rightarrow> bool" where
  "idle p \<longleftrightarrow> \<not> holding p \<and> \<not> registering p \<and> \<not> listening p \<and> \<not> ended p"

lemma cluster_ok_idle:
  assumes "cluster_ok home conv c" and "idle (cl_phase c i)" and "idle p"
    and "asking p \<Longrightarrow> asking (cl_phase c i)"
  shows "cluster_ok home conv (set_phase i p c)"
  using assms cluster_okD [OF assms(1)]
  by (intro cluster_okI) (auto simp: set_phase_def idle_def split: if_splits)

lemma idle_simps [simp]:
  "idle (Fresh s)" "idle (Trying n s)" "idle HandedOff" "idle ClaimFailed"
  by (simp_all add: idle_def phase_defs)

lemma asking_simps [simp]:
  "asking (Fresh s)" "asking (Trying n s)" "\<not> asking HandedOff" "\<not> asking ClaimFailed" "\<not> asking Leased"
  "\<not> asking Subscribed" "\<not> asking Working" "\<not> asking RunClosed" "\<not> asking Unsubscribed" "\<not> asking Unleased"
  "\<not> asking Gone"
  by (simp_all add: asking_def)

lemma cluster_ok_acquired:
  assumes ok: "cluster_ok home conv c" and i: "cl_phase c i = Trying n s" "cl_lease c (conv i) = None"
  shows "cluster_ok home conv (set_phase i Leased (c\<lparr>cl_lease := (cl_lease c)(conv i \<mapsto> i)\<rparr>))"
proof (rule cluster_okI, goal_cases)
  case (1 k j)
  then show ?case using i ok_lease [OF ok, of k j] ok_asking [OF ok, of i] by (auto simp: set_phase_def phase_defs split: if_splits)
next
  case (2 j)
  then show ?case using i ok_holds [OF ok, of j] ok_asking [OF ok, of i] by (auto simp: set_phase_def phase_defs split: if_splits)
next
  case (3 a k j)
  then show ?case using i ok_regs [OF ok, of a k j] ok_asking [OF ok, of i] by (auto simp: set_phase_def phase_defs split: if_splits)
next
  case (4 j)
  then show ?case using i ok_ended [OF ok, of j] ok_asking [OF ok, of i] by (auto simp: set_phase_def phase_defs split: if_splits)
next
  case (5 k j)
  then show ?case using i ok_subs [OF ok, of j k] ok_asking [OF ok, of i] by (auto simp: set_phase_def phase_defs split: if_splits)
next
  case (6 j)
  then show ?case using i ok_asking [OF ok, of j] ok_asking [OF ok, of i] by (auto simp: set_phase_def phase_defs split: if_splits)
qed

lemma cluster_ok_advance:
  assumes ok: "cluster_ok home conv c" and i: "holding (cl_phase c i)" "holding p"
    "registering (cl_phase c i) \<Longrightarrow> registering p" "listening (cl_phase c i) \<Longrightarrow> listening p \<or> i \<notin> set (cl_subs c (conv i))"
    "ended p \<Longrightarrow> ru_done (cl_run c i)" "\<not> asking p"
  shows "cluster_ok home conv (set_phase i p c)"
proof (rule cluster_okI, goal_cases)
  case (1 k j)
  then show ?case using i ok_lease [OF ok, of k j] by (auto simp: set_phase_def split: if_splits)
next
  case (2 j)
  then show ?case using i ok_holds [OF ok, of j] by (auto simp: set_phase_def split: if_splits)
next
  case (3 a k j)
  then show ?case using i ok_regs [OF ok, of a k j] by (auto simp: set_phase_def split: if_splits)
next
  case (4 j)
  then show ?case using i ok_ended [OF ok, of j] by (auto simp: set_phase_def split: if_splits)
next
  case (5 k j)
  then show ?case using i ok_subs [OF ok, of j k] by (auto simp: set_phase_def split: if_splits)
next
  case (6 j)
  then show ?case using i ok_asking [OF ok, of j] by (auto simp: set_phase_def split: if_splits)
qed

lemma cluster_ok_unhold:
  assumes ok: "cluster_ok home conv c" and i: "holding (cl_phase c i)" "\<not> holding p" "\<not> asking p"
    "registering (cl_phase c i) \<Longrightarrow> registering p" "\<not> listening (cl_phase c i)"
    "ended p \<Longrightarrow> ru_done (cl_run c i)"
  shows "cluster_ok home conv (set_phase i p (if cl_lost c i then c else c\<lparr>cl_lease := (cl_lease c)(conv i := None)\<rparr>))"
proof (rule cluster_okI, goal_cases)
  case (1 k j)
  then show ?case using i ok_lease [OF ok, of k j] ok_holds [OF ok, of i] by (auto simp: set_phase_def split: if_splits)
next
  case (2 j)
  then show ?case using i ok_holds [OF ok, of j] ok_holds [OF ok, of i] by (auto simp: set_phase_def split: if_splits)
next
  case (3 a k j)
  then show ?case using i ok_regs [OF ok, of a k j] ok_holds [OF ok, of i] by (auto simp: set_phase_def split: if_splits)
next
  case (4 j)
  then show ?case using i ok_ended [OF ok, of j] ok_holds [OF ok, of i] by (auto simp: set_phase_def split: if_splits)
next
  case (5 k j)
  then show ?case using i ok_subs [OF ok, of j k] ok_holds [OF ok, of i] by (auto simp: set_phase_def split: if_splits)
next
  case (6 j)
  then show ?case using i ok_asking [OF ok, of j] ok_holds [OF ok, of i] by (auto simp: set_phase_def split: if_splits)
qed

lemma cluster_ok_subscribed:
  assumes ok: "cluster_ok home conv c" and i: "cl_phase c i = Leased"
  shows "cluster_ok home conv (set_phase i Subscribed (c\<lparr>cl_subs := (cl_subs c)(conv i := i # cl_subs c (conv i))\<rparr>))"
proof (rule cluster_okI, goal_cases)
  case (1 k j)
  then show ?case using i ok_lease [OF ok, of k j] by (auto simp: set_phase_def phase_defs split: if_splits)
next
  case (2 j)
  then show ?case using i ok_holds [OF ok, of j] by (auto simp: set_phase_def phase_defs split: if_splits)
next
  case (3 a k j)
  then show ?case using i ok_regs [OF ok, of a k j] by (auto simp: set_phase_def phase_defs split: if_splits)
next
  case (4 j)
  then show ?case using i ok_ended [OF ok, of j] by (auto simp: set_phase_def phase_defs split: if_splits)
next
  case (5 k j)
  then show ?case using i ok_subs [OF ok, of j k] by (auto simp: set_phase_def phase_defs split: if_splits)
next
  case (6 j)
  then show ?case using i ok_asking [OF ok, of j] by (auto simp: set_phase_def phase_defs split: if_splits)
qed

lemma cluster_ok_registered:
  assumes ok: "cluster_ok home conv c" and i: "cl_phase c i = Subscribed"
  shows "cluster_ok home conv (set_phase i Working (takeRun (home i) (conv i) i c))"
proof (rule cluster_okI, goal_cases)
  case (1 k j)
  then show ?case using i ok_lease [OF ok, of k j] by (auto simp: set_phase_def takeRun_def phase_defs split: if_splits)
next
  case (2 j)
  then show ?case using i ok_holds [OF ok, of j] by (auto simp: set_phase_def takeRun_def phase_defs split: if_splits)
next
  case (3 a k j)
  then show ?case using i ok_regs [OF ok, of a k j] by (auto simp: set_phase_def takeRun_def phase_defs split: if_splits)
next
  case (4 j)
  then show ?case using i ok_ended [OF ok, of j] by (auto simp: set_phase_def takeRun_def phase_defs split: if_splits)
next
  case (5 k j)
  then show ?case using i ok_subs [OF ok, of j k] by (auto simp: set_phase_def takeRun_def phase_defs split: if_splits)
next
  case (6 j)
  then show ?case using i ok_asking [OF ok, of j] by (auto simp: set_phase_def takeRun_def phase_defs split: if_splits)
qed

lemma cluster_ok_released:
  assumes ok: "cluster_ok home conv c" and i: "cl_phase c i = Unleased" and key: "conv i \<noteq> []"
  shows "cluster_ok home conv (set_phase i Gone (releaseRun (home i) (conv i) i c))"
proof (rule cluster_okI, goal_cases)
  case (1 k j)
  then show ?case using i key ok_lease [OF ok, of k j] ok_ended [OF ok, of i] by (auto simp: set_phase_def releaseRun_def phase_defs split: if_splits)
next
  case (2 j)
  then show ?case using i key ok_holds [OF ok, of j] ok_ended [OF ok, of i] by (auto simp: set_phase_def releaseRun_def phase_defs split: if_splits)
next
  case (3 a k j)
  then show ?case using i key ok_regs [OF ok, of a k j] ok_ended [OF ok, of i] by (auto simp: set_phase_def releaseRun_def phase_defs split: if_splits)
next
  case (4 j)
  then show ?case using i key ok_ended [OF ok, of j] ok_ended [OF ok, of i] by (auto simp: set_phase_def releaseRun_def phase_defs split: if_splits)
next
  case (5 k j)
  then show ?case using i key ok_subs [OF ok, of j k] ok_ended [OF ok, of i] by (auto simp: set_phase_def releaseRun_def phase_defs split: if_splits)
next
  case (6 j)
  then show ?case using i key ok_asking [OF ok, of j] ok_ended [OF ok, of i] by (auto simp: set_phase_def releaseRun_def phase_defs split: if_splits)
qed

lemma cluster_ok_lost:
  assumes ok: "cluster_ok home conv c" and i: "cl_lease c (conv i) = Some i"
  shows "cluster_ok home conv (c\<lparr>cl_lease := (cl_lease c)(conv i := None), cl_lost := (cl_lost c)(i := True)\<rparr>)"
proof (rule cluster_okI, goal_cases)
  case (1 k j)
  then show ?case using i ok_lease [OF ok, of k j] ok_lease [OF ok i] by (auto simp: set_phase_def phase_defs split: if_splits)
next
  case (2 j)
  then show ?case using i ok_holds [OF ok, of j] ok_lease [OF ok i] by (auto simp: set_phase_def phase_defs split: if_splits)
next
  case (3 a k j)
  then show ?case using i ok_regs [OF ok, of a k j] ok_lease [OF ok i] by (auto simp: set_phase_def phase_defs split: if_splits)
next
  case (4 j)
  then show ?case using i ok_ended [OF ok, of j] ok_lease [OF ok i] by (auto simp: set_phase_def phase_defs split: if_splits)
next
  case (5 k j)
  then show ?case using i ok_subs [OF ok, of j k] ok_lease [OF ok i] by (auto simp: set_phase_def phase_defs split: if_splits)
next
  case (6 j)
  then show ?case using i ok_asking [OF ok, of j] ok_lease [OF ok i] by (auto simp: set_phase_def phase_defs split: if_splits)
qed

lemma cluster_ok_unsubscribed:
  assumes ok: "cluster_ok home conv c" and i: "cl_phase c i = RunClosed"
  shows "cluster_ok home conv (set_phase i Unsubscribed (c\<lparr>cl_subs := (cl_subs c)(conv i := removeAll i (cl_subs c (conv i)))\<rparr>))"
proof (rule cluster_okI, goal_cases)
  case (1 k j)
  then show ?case using i ok_lease [OF ok, of k j] ok_ended [OF ok, of i] by (auto simp: set_phase_def phase_defs split: if_splits)
next
  case (2 j)
  then show ?case using i ok_holds [OF ok, of j] ok_ended [OF ok, of i] by (auto simp: set_phase_def phase_defs split: if_splits)
next
  case (3 a k j)
  then show ?case using i ok_regs [OF ok, of a k j] ok_ended [OF ok, of i] by (auto simp: set_phase_def phase_defs split: if_splits)
next
  case (4 j)
  then show ?case using i ok_ended [OF ok, of j] ok_ended [OF ok, of i] by (auto simp: set_phase_def phase_defs split: if_splits)
next
  case (5 k j)
  then show ?case using i ok_subs [OF ok, of j k] ok_ended [OF ok, of i] by (auto simp: set_phase_def phase_defs split: if_splits)
next
  case (6 j)
  then show ?case using i ok_asking [OF ok, of j] ok_ended [OF ok, of i] by (auto simp: set_phase_def phase_defs split: if_splits)
qed

lemma cluster_ok_set_run:
  assumes "cluster_ok home conv c" and "ru_done (cl_run c i) \<Longrightarrow> ru_done r"
  shows "cluster_ok home conv (set_run i r c)"
  by (rule cluster_ok_cong [OF assms(1)]) (use assms(2) in \<open>auto simp: set_run_def\<close>)

lemma cluster_ok_offerTo:
  "cluster_ok home conv c \<Longrightarrow> offerTo j s c = (c', ok) \<Longrightarrow> cluster_ok home conv c'"
  by (rule cluster_ok_cong) (use offerTo_simps [of j s c c' ok] in auto)

lemma cluster_ok_offerLocal:
  "cluster_ok home conv c \<Longrightarrow> offerLocal a k s c = (c', ok) \<Longrightarrow> cluster_ok home conv c'"
  by (auto simp: offerLocal_def split: option.splits intro: cluster_ok_offerTo)

lemma cluster_ok_step:
  assumes step: "cl_step home conv c c'" and ok: "cluster_ok home conv c" and key: "\<And>i. conv i \<noteq> []"
  shows "cluster_ok home conv c'"
  using step
proof (cases rule: cl_step.cases)
  case (handed_local i s c1)
  with offerLocal_simps [OF handed_local(3)] cluster_ok_offerLocal [OF ok handed_local(3)]
  show ?thesis by (auto intro!: cluster_ok_idle)
next
  case (missed i s c1)
  with offerLocal_simps [OF missed(3)] cluster_ok_offerLocal [OF ok missed(3)]
  show ?thesis by (auto intro!: cluster_ok_idle)
next
  case (acquired i n s)
  with ok show ?thesis by (auto intro: cluster_ok_acquired)
next
  case (claim_errored i n s)
  with ok show ?thesis by (auto intro!: cluster_ok_idle)
next
  case (subscribed i)
  with ok show ?thesis by (auto intro: cluster_ok_subscribed)
next
  case (unsubscribable i)
  have "cluster_ok home conv (set_phase i ClaimFailed
      (if cl_lost c i then c else c\<lparr>cl_lease := (cl_lease c)(conv i := None)\<rparr>))"
    by (rule cluster_ok_unhold [OF ok]) (use unsubscribable in \<open>simp_all add: phase_defs\<close>)
  with unsubscribable show ?thesis by simp
next
  case (registered i)
  with ok show ?thesis by (auto intro: cluster_ok_registered)
next
  case (handed_across i n s j c1)
  from handed_across(6) ok have "cluster_ok home conv c1" by (auto intro: cluster_ok_offerTo)
  with handed_across offerTo_simps [OF handed_across(6)] show ?thesis by (auto intro!: cluster_ok_idle)
next
  case (nobody_home i n s)
  with ok show ?thesis by (auto intro!: cluster_ok_idle)
next
  case (operated p i r acc out)
  with ok show ?thesis by (auto intro: cluster_ok_set_run run_step_done)
next
  case (closed i)
  have "cluster_ok home conv (set_run i (run_close (cl_run c i)) c)"
    by (rule cluster_ok_set_run [OF ok]) (simp add: run_close_def)
  then have "cluster_ok home conv (set_phase i RunClosed (set_run i (run_close (cl_run c i)) c))"
    by (rule cluster_ok_advance) (use closed in \<open>simp_all add: phase_defs set_run_def run_close_def\<close>)
  with closed show ?thesis by simp
next
  case (unsubscribed i)
  with ok show ?thesis by (auto intro: cluster_ok_unsubscribed)
next
  case (unleased i)
  have "ru_done (cl_run c i)" using ok_ended [OF ok, of i] unleased by (simp add: phase_defs)
  then have "cluster_ok home conv (set_phase i Unleased
      (if cl_lost c i then c else c\<lparr>cl_lease := (cl_lease c)(conv i := None)\<rparr>))"
    by (intro cluster_ok_unhold [OF ok]) (use unleased in \<open>simp_all add: phase_defs\<close>)
  with unleased show ?thesis by simp
next
  case (released i)
  with ok key show ?thesis by (auto intro: cluster_ok_released)
next
  case (lease_lost i)
  with ok show ?thesis by (auto intro: cluster_ok_lost)
qed

lemma cluster_ok_reachable:
  assumes "(cl_step home conv)\<^sup>*\<^sup>* (cluster_init opening) c" and key: "\<And>i. conv i \<noteq> []"
  shows "cluster_ok home conv c"
  using assms(1)
proof (induction rule: rtranclp_induct)
  case (step y z)
  show ?case by (rule cluster_ok_step [OF step(2) step(3) key])
qed (rule cluster_ok_init)

text \<open>A run registered here and still accepting is the one that holds the conversation.\<close>

lemma live_holds:
  assumes ok: "cluster_ok home conv c" and r: "cl_regs c a k = Some i" and "\<not> ru_done (cl_run c i)" and "\<not> cl_lost c i"
  shows "cl_lease c k = Some i"
proof -
  from ok_regs [OF ok r] have p: "conv i = k" "registering (cl_phase c i)" by simp_all
  with assms(3) ok_ended [OF ok, of i] have "holding (cl_phase c i)" by (auto simp: phase_defs)
  with p ok_holds [OF ok, of i] assms(4) show ?thesis by simp
qed

text \<open>C15. In every reachable state of the replicas at most one of the runs registered for a conversation is live while no lease was lost, and that run holds the lease of the conversation.\<close>

theorem one_live_run_per_conversation:
  assumes "(cl_step home conv)\<^sup>*\<^sup>* (cluster_init opening) c" and "\<And>i. conv i \<noteq> []"
    and "cl_regs c a k = Some i" and "cl_regs c b k = Some j"
    and "\<not> ru_done (cl_run c i)" and "\<not> ru_done (cl_run c j)"
    and "\<not> cl_lost c i" and "\<not> cl_lost c j"
  shows "i = j \<and> cl_lease c k = Some i"
proof -
  note ok = cluster_ok_reachable [OF assms(1,2)]
  show ?thesis using live_holds [OF ok assms(3,5,7)] live_holds [OF ok assms(4,6,8)] by simp
qed

definition sample_cluster :: cluster where
  "sample_cluster =
     (let c1 = set_phase 0 (Trying 0 ''hi'') (cluster_init (\<lambda>_. ''hi''));
          c2 = set_phase 0 Leased (c1\<lparr>cl_lease := [''k'' \<mapsto> 0]\<rparr>);
          c3 = set_phase 0 Subscribed (c2\<lparr>cl_subs := (\<lambda>_. [])(''k'' := [0])\<rparr>) in
      set_phase 0 Working (takeRun 0 ''k'' 0 c3))"

lemma sample_reachable: "(cl_step (\<lambda>_. 0) (\<lambda>_. ''k''))\<^sup>*\<^sup>* (cluster_init (\<lambda>_. ''hi'')) sample_cluster"
proof -
  let ?S = "cl_step (\<lambda>_. 0) (\<lambda>_. ''k'')"
  let ?c0 = "cluster_init (\<lambda>_. ''hi'')"
  let ?c1 = "set_phase 0 (Trying 0 ''hi'') ?c0"
  let ?c2 = "set_phase 0 Leased (?c1\<lparr>cl_lease := (cl_lease ?c1)(''k'' \<mapsto> 0)\<rparr>)"
  let ?c3 = "set_phase 0 Subscribed (?c2\<lparr>cl_subs := (cl_subs ?c2)(''k'' := 0 # cl_subs ?c2 ''k'')\<rparr>)"
  let ?c4 = "set_phase 0 Working (takeRun 0 ''k'' 0 ?c3)"
  have "?S ?c0 ?c1" by (rule cl_step.missed [where s = "''hi''"]) (simp_all add: cluster_init_def offerLocal_def)
  moreover have "?S ?c1 ?c2"
    by (rule cl_step.acquired [where n = 0 and s = "''hi''"]) (simp_all add: set_phase_def cluster_init_def claimAttempts_def)
  moreover have "?S ?c2 ?c3" by (rule cl_step.subscribed) (simp add: set_phase_def)
  moreover have "?S ?c3 ?c4" by (rule cl_step.registered) (simp add: set_phase_def)
  ultimately have "?S\<^sup>*\<^sup>* ?c0 ?c4" by (meson converse_rtranclp_into_rtranclp rtranclp.rtrancl_refl)
  moreover have "?c4 = sample_cluster"
    by (simp add: sample_cluster_def Let_def set_phase_def cluster_init_def)
  ultimately show ?thesis by simp
qed

lemma sample_cluster_simps:
  "cl_regs sample_cluster 0 ''k'' = Some 0" "\<not> ru_done (cl_run sample_cluster 0)" "\<not> cl_lost sample_cluster 0"
  by (simp_all add: sample_cluster_def Let_def set_phase_def cluster_init_def takeRun_def new_run_def)

theorem one_live_run_witness: "cl_lease sample_cluster ''k'' = Some 0"
  using one_live_run_per_conversation [OF sample_reachable, of 0 "''k''" 0 0 0] sample_cluster_simps by simp

text \<open>
  An invocation that hands its message over hands it to a run that has not finished, of the same
  conversation, that holds the claim or has just lost it, and the message is the last one waiting
  there.
\<close>

lemma offerTo_True:
  assumes "offerTo j s c = (c', True)"
  shows "\<not> ru_done (cl_run c' j) \<and> \<not> ru_done (cl_run c j) \<and>
    ru_pending (cl_run c' j) = ru_pending (cl_run c j) @ (if TrimSpace s = [] then [] else [TrimSpace s])"
  using assms by (auto simp: offerTo_def run_offer_def set_run_def Let_def split: if_splits)

theorem handed_off_message_is_held:
  assumes "(cl_step home conv)\<^sup>*\<^sup>* (cluster_init opening) c" and key: "\<And>i. conv i \<noteq> []"
    and step: "cl_step home conv c c'" and "asking (cl_phase c i)" and "cl_phase c' i = HandedOff"
  shows "\<exists>j s. conv j = conv i \<and> \<not> ru_done (cl_run c' j) \<and> (cl_phase c i = Fresh s \<or> (\<exists>n. cl_phase c i = Trying n s)) \<and>
    ru_pending (cl_run c' j) = ru_pending (cl_run c j) @ (if TrimSpace s = [] then [] else [TrimSpace s]) \<and>
    (cl_lost c' j \<or> cl_lease c' (conv i) = Some j)"
proof -
  note ok = cluster_ok_reachable [OF assms(1,2)]
  show ?thesis using step
  proof (cases rule: cl_step.cases)
    case (handed_local i' s c1)
    with assms(4,5) offerLocal_simps [OF handed_local(3)] have i': "i' = i" by (auto simp: set_phase_def split: if_splits)
    from handed_local(3) i' obtain j where j: "cl_regs c (home i) (conv i) = Some j" "offerTo j s c = (c1, True)"
      by (auto simp: offerLocal_def split: option.splits)
    from live_holds [OF ok j(1)] ok_regs [OF ok j(1)] offerTo_True [OF j(2)] offerTo_simps [OF j(2)]
      handed_local i' show ?thesis
      by (intro exI [of _ j] exI [of _ s]) (auto simp: set_phase_def)
  next
    case (handed_across i' n s j c1)
    with assms(4,5) offerTo_simps [OF handed_across(6)] have i': "i' = i" by (auto simp: set_phase_def split: if_splits)
    note o1 = handed_across(6)
    from handed_across i' have sub: "j \<in> set (cl_subs c (conv i))" by simp
    have "\<not> cl_lost c j \<Longrightarrow> cl_lease c (conv i) = Some j"
      using ok_subs [OF ok sub] offerTo_True [OF o1] ok_ended [OF ok, of j] ok_holds [OF ok, of j]
      by (auto simp: phase_defs)
    with offerTo_True [OF o1] offerTo_simps [OF o1] ok_subs [OF ok sub] handed_across i' show ?thesis
      by (intro exI [of _ j] exI [of _ s]) (auto simp: set_phase_def)
  qed (use assms(4,5) in \<open>auto simp: set_phase_def set_run_def takeRun_def releaseRun_def phase_defs
      dest: offerLocal_simps split: if_splits\<close>)
qed

end
