(* ===== verification/Octo_Transcript.thy ===== *)
theory Octo_Transcript
  imports Octo_Strings Octo_Value "HOL-Library.Sublist"
begin

text \<open>
  Conversations with a model: the turns of \<^verbatim>\<open>core/llm.go\<close>, their size as the
  agent measures it (\<^verbatim>\<open>blocks/ai/contextmeter.go\<close>), and the compaction that
  keeps a transcript inside its budget (\<^verbatim>\<open>blocks/ai/agentmemory.go\<close>,
  \<^verbatim>\<open>agentcontext.go\<close>). Floating-point operations and the call that asks the model
  for a summary are parameters.
\<close>

section \<open>Turns\<close>

datatype llm_role = LLMRoleUser | LLMRoleAssistant | LLMRoleTool

record llm_tool_call =
  tc_ID :: string
  tc_Name :: string
  tc_Input :: string
  tc_Signature :: string

record llm_tool_result =
  tr_ToolCallID :: string
  tr_Tool :: string
  tr_Content :: string
  tr_IsError :: bool

record llm_thinking =
  th_Text :: string
  th_Signature :: string
  th_Redacted :: string

record llm_attachment =
  at_MimeType :: string
  at_Data :: string
  at_Name :: string

record llm_message =
  lm_Role :: llm_role
  lm_Text :: string
  lm_Attachments :: "llm_attachment list"
  lm_Thinking :: "llm_thinking list"
  lm_ToolCalls :: "llm_tool_call list"
  lm_ToolResults :: "llm_tool_result list"

definition user_turn :: "string \<Rightarrow> llm_message" where
  "user_turn s =
     \<lparr>lm_Role = LLMRoleUser, lm_Text = s, lm_Attachments = [], lm_Thinking = [], lm_ToolCalls = [], lm_ToolResults = []\<rparr>"

definition tool_turn :: "llm_tool_result list \<Rightarrow> llm_message" where
  "tool_turn rs =
     \<lparr>lm_Role = LLMRoleTool, lm_Text = [], lm_Attachments = [], lm_Thinking = [], lm_ToolCalls = [], lm_ToolResults = rs\<rparr>"

datatype llm_stop = LLMStopEndTurn | LLMStopToolUse | LLMStopMaxTokens | LLMStopRefusal | LLMStopOther string

record llm_usage =
  us_Input :: int
  us_Output :: int
  us_Prompt :: int

record llm_response =
  rp_Text :: string
  rp_ToolCalls :: "llm_tool_call list"
  rp_Stop :: llm_stop
  rp_Raw :: llm_message
  rp_Media :: "llm_attachment list"
  rp_Usage :: "llm_usage option"

section \<open>Size\<close>

definition charsPerToken :: nat where "charsPerToken = 4"
definition mediaCharsPerToken :: nat where "mediaCharsPerToken = 750"

definition message_chars :: "llm_message \<Rightarrow> nat" where
  "message_chars m =
     length (lm_Text m) + (\<Sum>t\<leftarrow>lm_Thinking m. length (th_Text t) + length (th_Redacted t)) +
     (\<Sum>c\<leftarrow>lm_ToolCalls m. length (tc_Input c)) + (\<Sum>r\<leftarrow>lm_ToolResults m. length (tr_Content r)) +
     (\<Sum>a\<leftarrow>lm_Attachments m. length (at_Data a) * charsPerToken div mediaCharsPerToken)"

definition estimateTokens :: "llm_message list \<Rightarrow> nat" where
  "estimateTokens ms = (\<Sum>m\<leftarrow>ms. message_chars m) div charsPerToken"

record 'f scale_ops =
  so_lit :: "rat \<Rightarrow> 'f"
  so_of_int :: "int \<Rightarrow> 'f"
  so_mul :: "'f \<Rightarrow> 'f \<Rightarrow> 'f"
  so_div :: "'f \<Rightarrow> 'f \<Rightarrow> 'f"
  so_max :: "'f \<Rightarrow> 'f \<Rightarrow> 'f"
  so_min :: "'f \<Rightarrow> 'f \<Rightarrow> 'f"
  so_is_zero :: "'f \<Rightarrow> bool"
  so_finite :: "'f \<Rightarrow> bool"
  so_round :: "'f \<Rightarrow> int"

record 'f meter =
  me_overhead :: int
  me_scale :: 'f
  me_last :: int
  me_prev :: "(nat \<times> int) option"

definition minTokenScale :: rat where "minTokenScale = 1 / 2"
definition maxTokenScale :: rat where "maxTokenScale = 4"

definition clampScale :: "'f scale_ops \<Rightarrow> 'f \<Rightarrow> 'f" where
  "clampScale fo s =
     (if \<not> so_finite fo s then so_lit fo 1
      else so_min fo (so_max fo s (so_lit fo minTokenScale)) (so_lit fo maxTokenScale))"

definition newContextMeter :: "'f scale_ops \<Rightarrow> 'f meter" where
  "newContextMeter fo = \<lparr>me_overhead = 0, me_scale = so_lit fo 1, me_last = 0, me_prev = None\<rparr>"

definition meter_seed :: "'f scale_ops \<Rightarrow> nat \<Rightarrow> int \<Rightarrow> 'f meter \<Rightarrow> 'f meter" where
  "meter_seed fo est n m =
     (if est = 0 \<or> n \<le> 0 then m
      else m\<lparr>me_scale := clampScale fo (so_div fo (so_of_int fo n) (so_of_int fo (int est)))\<rparr>)"

definition sizeOf :: "'f scale_ops \<Rightarrow> 'f meter \<Rightarrow> nat \<Rightarrow> int" where
  "sizeOf fo m est =
     (if est = 0 then 0
      else let scale = (if so_is_zero fo (me_scale m) then so_lit fo 1 else me_scale m) in
           so_round fo (so_mul fo scale (so_of_int fo (int est))))"

definition predict :: "'f scale_ops \<Rightarrow> 'f meter \<Rightarrow> nat \<Rightarrow> int" where
  "predict fo m est = max 0 (me_overhead m + sizeOf fo m est)"

definition meter_observe :: "'f scale_ops \<Rightarrow> nat \<Rightarrow> int \<Rightarrow> 'f meter \<Rightarrow> 'f meter" where
  "meter_observe fo est measured m =
     (if est = 0 \<or> measured \<le> 0 then m
      else let m1 = (case me_prev m of
                       None \<Rightarrow> m
                     | Some (pe, pm) \<Rightarrow>
                         if est = pe then m
                         else m\<lparr>me_scale := clampScale fo
                                (so_div fo (so_of_int fo (measured - pm)) (so_of_int fo (int est - int pe)))\<rparr>) in
           m1\<lparr>me_overhead := measured - sizeOf fo m1 est, me_prev := Some (est, measured), me_last := measured\<rparr>)"

definition observeResponse :: "'f scale_ops \<Rightarrow> nat \<Rightarrow> llm_response \<Rightarrow> 'f meter \<Rightarrow> 'f meter" where
  "observeResponse fo est resp m =
     (case rp_Usage resp of None \<Rightarrow> m | Some u \<Rightarrow> meter_observe fo est (us_Prompt u) m)"

section \<open>Compaction\<close>

datatype compaction = CompactPrune | CompactSummarize

definition fits :: "'f scale_ops \<Rightarrow> 'f meter \<Rightarrow> int \<Rightarrow> llm_message list \<Rightarrow> bool" where
  "fits fo m budget ms \<longleftrightarrow> predict fo m (estimateTokens ms) \<le> budget"

fun prune_loop :: "'f scale_ops \<Rightarrow> 'f meter \<Rightarrow> int \<Rightarrow> llm_message list \<Rightarrow> llm_message list" where
  "prune_loop fo m budget (a # b # ms) =
     (if fits fo m budget (a # b # ms) then a # b # ms else prune_loop fo m budget (b # ms))"
| "prune_loop fo m budget ms = ms"

fun trimToValidStart :: "llm_message list \<Rightarrow> llm_message list" where
  "trimToValidStart [] = []"
| "trimToValidStart (m # ms) = (if lm_Role m \<noteq> LLMRoleUser then trimToValidStart ms else m # ms)"

definition lastExchange :: "llm_message list \<Rightarrow> llm_message list" where
  "lastExchange ms =
     (case List.find (\<lambda>i. lm_Role (ms ! i) = LLMRoleUser) (rev [0..<length ms]) of None \<Rightarrow> [] | Some i \<Rightarrow> drop i ms)"

definition pruneMemory :: "'f scale_ops \<Rightarrow> 'f meter \<Rightarrow> int \<Rightarrow> llm_message list \<Rightarrow> llm_message list" where
  "pruneMemory fo m budget ms =
     (case trimToValidStart (prune_loop fo m budget ms) of [] \<Rightarrow> lastExchange ms | kept \<Rightarrow> kept)"

definition role_text :: "llm_role \<Rightarrow> string" where
  "role_text r = (case r of LLMRoleUser \<Rightarrow> ''user'' | LLMRoleAssistant \<Rightarrow> ''assistant'' | LLMRoleTool \<Rightarrow> ''tool'')"

definition newline :: string where "newline = [CHR 0x0A]"

definition turn_text :: "llm_message \<Rightarrow> string" where
  "turn_text m =
     (if lm_Text m \<noteq> [] then role_text (lm_Role m) @ '': '' @ lm_Text m @ newline else []) @
     concat (map (\<lambda>c. ''assistant called tool '' @ tc_Name c @ ''('' @ tc_Input c @ '')'' @ newline) (lm_ToolCalls m)) @
     concat (map (\<lambda>r. ''tool result: '' @ tr_Content r @ newline) (lm_ToolResults m))"

text \<open>\<open>ask\<close> is one call of the model with a single user turn: its answer, or \<open>None\<close> on an error.\<close>

type_synonym 'w summarizer = "string \<Rightarrow> 'w \<Rightarrow> 'w \<times> string option"

definition summarizeTurns :: "'w summarizer \<Rightarrow> llm_message list \<Rightarrow> 'w \<Rightarrow> 'w \<times> string option" where
  "summarizeTurns ask ms w =
     (case ask (concat (map turn_text ms)) w of (w', r) \<Rightarrow> (w', map_option TrimSpace r))"

text \<open>The first cut from \<open>cut\<close> on whose tail is small enough.\<close>

fun tail_cut :: "'f scale_ops \<Rightarrow> 'f meter \<Rightarrow> int \<Rightarrow> llm_message list \<Rightarrow> nat" where
  "tail_cut fo m keep [] = 0"
| "tail_cut fo m keep (x # xs) =
     (if keep < sizeOf fo m (estimateTokens (x # xs)) then Suc (tail_cut fo m keep xs) else 0)"

fun skip_tools :: "llm_message list \<Rightarrow> nat" where
  "skip_tools [] = 0"
| "skip_tools (x # xs) = (if lm_Role x = LLMRoleTool then Suc (skip_tools xs) else 0)"

definition summary_cut :: "'f scale_ops \<Rightarrow> 'f meter \<Rightarrow> int \<Rightarrow> llm_message list \<Rightarrow> nat" where
  "summary_cut fo m budget ms =
     (let cut = tail_cut fo m (max 0 (budget - me_overhead m) div 2) ms in cut + skip_tools (drop cut ms))"

definition summarizeMemory ::
  "'f scale_ops \<Rightarrow> 'w summarizer \<Rightarrow> 'f meter \<Rightarrow> int \<Rightarrow> llm_message list \<Rightarrow> 'w \<Rightarrow> 'w \<times> llm_message list" where
  "summarizeMemory fo ask m budget ms w =
     (let cut = summary_cut fo m budget ms in
      if cut = 0 then (w, ms)
      else (case summarizeTurns ask (take cut ms) w of
              (w', Some (c # cs)) \<Rightarrow>
                (w', user_turn (''Summary of earlier conversation:'' @ newline @ c # cs) # drop cut ms)
            | (w', _) \<Rightarrow> (w', pruneMemory fo m budget ms)))"

definition compactMemory ::
  "'f scale_ops \<Rightarrow> 'w summarizer \<Rightarrow> compaction \<Rightarrow> 'f meter \<Rightarrow> int \<Rightarrow> llm_message list \<Rightarrow> 'w \<Rightarrow> 'w \<times> llm_message list" where
  "compactMemory fo ask strategy m budget ms w =
     (if budget \<le> 0 \<or> fits fo m budget ms then (w, ms)
      else if strategy = CompactSummarize then summarizeMemory fo ask m budget ms w
      else (w, pruneMemory fo m budget ms))"

section \<open>Fitting a running conversation\<close>

definition protectedSuffix :: "llm_message list \<Rightarrow> nat" where
  "protectedSuffix ms =
     (let i = length ms - skip_tools (rev ms) in
      if i = length ms then i else if 0 < i \<and> lm_ToolCalls (ms ! (i - 1)) \<noteq> [] then i - 1 else i)"

definition opening_count :: "llm_message list \<Rightarrow> nat" where
  "opening_count ms = (case ms of m # _ \<Rightarrow> if lm_Role m = LLMRoleUser then 1 else 0 | [] \<Rightarrow> 0)"

definition fitContext ::
  "'f scale_ops \<Rightarrow> 'w summarizer \<Rightarrow> compaction \<Rightarrow> int \<Rightarrow> 'f meter \<Rightarrow> int \<Rightarrow> llm_message list \<Rightarrow> 'w \<Rightarrow>
     'w \<times> llm_message list" where
  "fitContext fo ask strategy maxTokens m reserved ms w =
     (if me_last m = 0 \<or> maxTokens \<le> 0 then (w, ms)
      else let budget = (if maxTokens - reserved \<le> 0 then 1 else maxTokens - reserved) in
        if fits fo m budget ms then (w, ms)
        else let keep = protectedSuffix ms; op = opening_count ms; head = drop op (take keep ms) in
          if head = [] then (w, ms)
          else let headBudget = budget - (sizeOf fo m (estimateTokens (take op ms)) + sizeOf fo m (estimateTokens (drop keep ms))) in
            if headBudget \<le> 0 then (w, ms)
            else (case compactMemory fo ask strategy m headBudget head w of
                    (w', compacted) \<Rightarrow> (w', take op ms @ compacted @ drop keep ms)))"

definition stoppedTranscript :: "llm_message list \<Rightarrow> llm_response option \<Rightarrow> llm_message list" where
  "stoppedTranscript ms resp =
     (case resp of None \<Rightarrow> ms | Some r \<Rightarrow> if rp_ToolCalls r \<noteq> [] then ms else ms @ [rp_Raw r])"

definition shedAttachments :: "bool \<Rightarrow> nat \<Rightarrow> llm_message list \<Rightarrow> llm_message list" where
  "shedAttachments keep iter ms = (if iter \<noteq> 0 \<or> keep then ms else map (\<lambda>m. m\<lparr>lm_Attachments := []\<rparr>) ms)"

section \<open>Replayable transcripts\<close>

text \<open>
  What a provider accepts: the first turn is a user turn, only an assistant turn calls tools,
  and the turn after it answers exactly those calls, in their order.
\<close>

definition answers :: "llm_message \<Rightarrow> llm_message \<Rightarrow> bool" where
  "answers t m \<longleftrightarrow> lm_Role t = LLMRoleTool \<and> lm_ToolCalls t = [] \<and>
     map tr_ToolCallID (lm_ToolResults t) = map tc_ID (lm_ToolCalls m)"

fun paired :: "llm_message list \<Rightarrow> bool" where
  "paired [] \<longleftrightarrow> True"
| "paired (m # ms) \<longleftrightarrow> lm_Role m \<noteq> LLMRoleTool \<and>
     (if lm_ToolCalls m = [] then paired ms
      else lm_Role m = LLMRoleAssistant \<and> (case ms of [] \<Rightarrow> False | t # rest \<Rightarrow> answers t m \<and> paired rest))"

definition opens_on_user :: "llm_message list \<Rightarrow> bool" where
  "opens_on_user ms \<longleftrightarrow> ms \<noteq> [] \<and> lm_Role (hd ms) = LLMRoleUser"

definition replayable :: "llm_message list \<Rightarrow> bool" where
  "replayable ms \<longleftrightarrow> paired ms \<and> (ms = [] \<or> opens_on_user ms)"

lemma replayable_Nil [simp]: "replayable []"
  by (simp add: replayable_def)

lemma opens_on_user_Cons [simp]: "opens_on_user (m # ms) \<longleftrightarrow> lm_Role m = LLMRoleUser"
  by (simp add: opens_on_user_def)

lemma opens_on_user_Nil [simp]: "\<not> opens_on_user []"
  by (simp add: opens_on_user_def)

lemma user_turn_simps [simp]:
  "lm_Role (user_turn s) = LLMRoleUser" "lm_ToolCalls (user_turn s) = []"
  by (simp_all add: user_turn_def)

lemma tool_turn_simps [simp]:
  "lm_Role (tool_turn rs) = LLMRoleTool" "lm_ToolCalls (tool_turn rs) = []"
  "lm_ToolResults (tool_turn rs) = rs"
  by (simp_all add: tool_turn_def)

lemma paired_append: "paired xs \<Longrightarrow> paired ys \<Longrightarrow> paired (xs @ ys)"
  by (induction xs rule: paired.induct) (auto split: list.splits if_splits)

text \<open>A transcript may be cut anywhere but in front of a tool turn.\<close>

lemma paired_split:
  "paired (xs @ ys) \<Longrightarrow> ys = [] \<or> lm_Role (hd ys) \<noteq> LLMRoleTool \<Longrightarrow> paired xs \<and> paired ys"
proof (induction xs rule: paired.induct)
  case (2 m ms)
  show ?case
  proof (cases "lm_ToolCalls m = []")
    case True
    with 2 show ?thesis by simp
  next
    case False
    show ?thesis
    proof (cases ms)
      case Nil
      with 2(3,4) False show ?thesis by (cases ys) (auto simp: answers_def)
    next
      case (Cons t rest)
      with 2(3) False have "paired (rest @ ys)" and p: "answers t m" "lm_Role m = LLMRoleAssistant" by simp_all
      with 2(2) [OF False Cons] 2(4) have "paired rest \<and> paired ys" by blast
      with p False Cons show ?thesis by simp
    qed
  qed
qed simp

lemma paired_drop:
  "paired ms \<Longrightarrow> drop k ms = [] \<or> lm_Role (hd (drop k ms)) \<noteq> LLMRoleTool \<Longrightarrow> paired (drop k ms)"
  using paired_split [of "take k ms" "drop k ms"] by simp

lemma paired_take:
  "paired ms \<Longrightarrow> drop k ms = [] \<or> lm_Role (hd (drop k ms)) \<noteq> LLMRoleTool \<Longrightarrow> paired (take k ms)"
  using paired_split [of "take k ms" "drop k ms"] by simp

lemma paired_user_turn [simp]: "paired (user_turn s # ms) = paired ms"
  by simp

lemma paired_single [simp]: "paired [m] \<longleftrightarrow> lm_Role m \<noteq> LLMRoleTool \<and> lm_ToolCalls m = []"
  by auto

lemma replayable_append: "replayable xs \<Longrightarrow> xs \<noteq> [] \<Longrightarrow> paired ys \<Longrightarrow> replayable (xs @ ys)"
  by (auto simp: replayable_def opens_on_user_def paired_append)

lemma replayable_snoc_user: "replayable ms \<Longrightarrow> lm_Role u = LLMRoleUser \<Longrightarrow> lm_ToolCalls u = [] \<Longrightarrow> replayable (ms @ [u])"
  by (cases "ms = []") (auto simp: replayable_def opens_on_user_def paired_append)

text \<open>A whole tool exchange.\<close>

lemma replayable_exchange:
  assumes "replayable ms" and "ms \<noteq> []" and "lm_Role m = LLMRoleAssistant" and "answers t m"
    and "lm_ToolCalls m \<noteq> []"
  shows "replayable (ms @ [m, t])"
  using assms by (intro replayable_append) auto

section \<open>Compaction keeps transcripts replayable\<close>

lemma prune_loop_suffix: "\<exists>k. prune_loop fo m budget ms = drop k ms"
proof (induction fo m budget ms rule: prune_loop.induct)
  case (1 fo m budget a b ms)
  show ?case
  proof (cases "fits fo m budget (a # b # ms)")
    case True
    then have "prune_loop fo m budget (a # b # ms) = drop 0 (a # b # ms)" by simp
    then show ?thesis by blast
  next
    case False
    with 1 obtain k where "prune_loop fo m budget (b # ms) = drop k (b # ms)" by blast
    with False have "prune_loop fo m budget (a # b # ms) = drop (Suc k) (a # b # ms)" by simp
    then show ?thesis by blast
  qed
qed (metis drop_0 prune_loop.simps)+

lemma trim_is_drop: "\<exists>k. trimToValidStart ms = drop k ms"
proof (induction ms)
  case (Cons m ms)
  then obtain k where "trimToValidStart ms = drop k ms" by blast
  then show ?case
    by (cases "lm_Role m = LLMRoleUser") (auto intro: exI [of _ 0] exI [of _ "Suc k"])
qed simp

lemma trim_opens: "trimToValidStart ms = [] \<or> opens_on_user (trimToValidStart ms)"
  by (induction ms) auto

lemma find_SomeD: "List.find P xs = Some x \<Longrightarrow> P x \<and> x \<in> set xs"
  by (induction xs) (auto split: if_splits)

lemma lastExchange_suffix: "(\<exists>k. lastExchange ms = drop k ms) \<and> (lastExchange ms = [] \<or> opens_on_user (lastExchange ms))"
proof (cases "List.find (\<lambda>i. lm_Role (ms ! i) = LLMRoleUser) (rev [0..<length ms])")
  case None
  then show ?thesis by (auto simp: lastExchange_def intro: exI [of _ "length ms"])
next
  case (Some i)
  then have "lm_Role (ms ! i) = LLMRoleUser" and "i < length ms"
    using find_SomeD [OF Some] by auto
  with Some show ?thesis
    by (auto simp: lastExchange_def opens_on_user_def hd_drop_conv_nth)
qed

lemma pruneMemory_suffix:
  "(\<exists>k. pruneMemory fo m budget ms = drop k ms) \<and>
   (pruneMemory fo m budget ms = [] \<or> opens_on_user (pruneMemory fo m budget ms))"
proof (cases "trimToValidStart (prune_loop fo m budget ms)")
  case Nil
  then show ?thesis using lastExchange_suffix by (simp add: pruneMemory_def)
next
  case (Cons x xs)
  then have eq: "pruneMemory fo m budget ms = trimToValidStart (prune_loop fo m budget ms)"
    by (simp add: pruneMemory_def)
  obtain j where "prune_loop fo m budget ms = drop j ms" using prune_loop_suffix by blast
  moreover obtain k where "trimToValidStart (prune_loop fo m budget ms) = drop k (prune_loop fo m budget ms)"
    using trim_is_drop by blast
  ultimately show ?thesis using eq trim_opens [of "prune_loop fo m budget ms"]
    by (metis drop_drop)
qed

lemma pruneMemory_replayable:
  assumes "paired ms"
  shows "replayable (pruneMemory fo m budget ms)"
proof -
  obtain k where k: "pruneMemory fo m budget ms = drop k ms"
    and u: "pruneMemory fo m budget ms = [] \<or> opens_on_user (pruneMemory fo m budget ms)"
    using pruneMemory_suffix by blast
  then have "paired (drop k ms)"
    by (intro paired_drop assms) (auto simp: opens_on_user_def)
  with k u show ?thesis by (auto simp: replayable_def)
qed

lemma pruneMemory_paired: "paired ms \<Longrightarrow> paired (pruneMemory fo m budget ms)"
  using pruneMemory_replayable by (auto simp: replayable_def)

lemma skip_tools_hd: "drop (skip_tools ms) ms = [] \<or> lm_Role (hd (drop (skip_tools ms) ms)) \<noteq> LLMRoleTool"
  by (induction ms) auto

lemma skip_tools_take: "t \<in> set (take (skip_tools ms) ms) \<Longrightarrow> lm_Role t = LLMRoleTool"
  by (induction ms) (auto split: if_splits)

lemma skip_tools_le: "skip_tools ms \<le> length ms"
  by (induction ms) auto

lemma summary_cut_hd:
  "drop (summary_cut fo m budget ms) ms = [] \<or> lm_Role (hd (drop (summary_cut fo m budget ms) ms)) \<noteq> LLMRoleTool"
  using skip_tools_hd [of "drop (tail_cut fo m (max 0 (budget - me_overhead m) div 2) ms) ms"]
  by (auto simp: summary_cut_def Let_def add.commute)

lemma summarizeMemory_paired:
  assumes "paired ms"
  shows "paired (snd (summarizeMemory fo ask m budget ms w))"
proof -
  have "paired (drop (summary_cut fo m budget ms) ms)"
    using summary_cut_hd by (intro paired_drop assms) blast
  then show ?thesis
    using assms by (auto simp: pruneMemory_paired summarizeMemory_def Let_def split: prod.split option.split list.split)
qed

lemma compactMemory_paired:
  "paired ms \<Longrightarrow> paired (snd (compactMemory fo ask strategy m budget ms w))"
  by (simp add: compactMemory_def pruneMemory_paired summarizeMemory_paired)

lemma compactMemory_opens:
  assumes "ms = [] \<or> opens_on_user ms"
  shows "snd (compactMemory fo ask strategy m budget ms w) = [] \<or>
    opens_on_user (snd (compactMemory fo ask strategy m budget ms w))"
  using assms pruneMemory_suffix [of fo m budget ms]
  by (auto simp: compactMemory_def summarizeMemory_def Let_def split: prod.split option.split list.split)

lemma compactMemory_replayable:
  "replayable ms \<Longrightarrow> replayable (snd (compactMemory fo ask strategy m budget ms w))"
  using compactMemory_paired [of ms fo ask strategy m budget w]
    compactMemory_opens [of ms fo ask strategy m budget w]
  by (auto simp: replayable_def)

lemma paired_tool_pred:
  "paired ms \<Longrightarrow> i < length ms \<Longrightarrow> lm_Role (ms ! i) = LLMRoleTool \<Longrightarrow> 0 < i \<and> lm_ToolCalls (ms ! (i - 1)) \<noteq> []"
proof (induction ms arbitrary: i rule: paired.induct)
  case (2 m ms)
  from 2(3,5) have i: "0 < i" by (cases i) auto
  show ?case
  proof (cases "lm_ToolCalls m = []")
    case True
    from i obtain j where j: "i = Suc j" by (cases i) auto
    with True 2(3-5) have "0 < j \<and> lm_ToolCalls (ms ! (j - 1)) \<noteq> []"
      by (intro 2(1) [OF True]) simp_all
    with j show ?thesis by (cases j) simp_all
  next
    case False
    with 2(3) obtain t rest where ms: "ms = t # rest" and r: "paired rest"
      by (auto split: list.splits)
    show ?thesis
    proof (cases "i = 1")
      case True
      with False show ?thesis by simp
    next
      case i2: False
      with i obtain j where j: "i = Suc (Suc j)" by (metis One_nat_def Suc_pred not0_implies_Suc)
      with 2(4,5) ms have "0 < j \<and> lm_ToolCalls (rest ! (j - 1)) \<noteq> []"
        by (intro 2(2) [OF False ms r]) simp_all
      with j ms show ?thesis by (cases j) simp_all
    qed
  qed
qed simp

lemma paired_user_no_calls: "paired (m # ms) \<Longrightarrow> lm_Role m = LLMRoleUser \<Longrightarrow> lm_ToolCalls m = [] \<and> paired ms"
  by (auto split: if_splits)

lemma skip_tools_rev_last:
  "skip_tools (rev ms) < length ms \<Longrightarrow> lm_Role (ms ! (length ms - skip_tools (rev ms) - 1)) \<noteq> LLMRoleTool"
  using skip_tools_hd [of "rev ms"] by (auto simp: hd_drop_conv_nth rev_nth)

lemma skip_tools_rev_tool:
  assumes "length ms - skip_tools (rev ms) \<le> j" and "j < length ms"
  shows "lm_Role (ms ! j) = LLMRoleTool"
proof -
  let ?k = "length ms - 1 - j"
  have "?k < skip_tools (rev ms)" using assms by linarith
  then have "rev ms ! ?k \<in> set (take (skip_tools (rev ms)) (rev ms))"
    using assms(2) by (auto simp: in_set_conv_nth intro: exI [of _ ?k])
  with assms show ?thesis
    using skip_tools_take [of "rev ms ! ?k" "rev ms"] by (simp add: rev_nth)
qed

text \<open>The protected suffix of a replayable transcript is a whole exchange, or empty.\<close>

lemma protectedSuffix_hd:
  assumes "paired ms"
  shows "drop (protectedSuffix ms) ms = [] \<or> lm_Role (hd (drop (protectedSuffix ms) ms)) \<noteq> LLMRoleTool"
proof -
  let ?i = "length ms - skip_tools (rev ms)"
  show ?thesis
  proof (cases "?i = length ms")
    case True
    then show ?thesis by (simp add: protectedSuffix_def Let_def)
  next
    case False
    then have lt: "?i < length ms" by simp
    with skip_tools_rev_tool [of ms ?i] have "lm_Role (ms ! ?i) = LLMRoleTool" by simp
    with paired_tool_pred [OF assms lt] have i: "0 < ?i" "lm_ToolCalls (ms ! (?i - 1)) \<noteq> []" by simp_all
    with False have "protectedSuffix ms = ?i - 1" by (simp add: protectedSuffix_def Let_def)
    moreover from i have "lm_Role (ms ! (?i - 1)) \<noteq> LLMRoleTool"
      using skip_tools_rev_last [of ms] by simp
    ultimately show ?thesis using lt by (simp add: hd_drop_conv_nth)
  qed
qed

lemma fitContext_cases:
  assumes "fitContext fo ask strategy maxTokens m reserved ms w = (w', r)"
  obtains "r = ms"
  | budget w0 where "drop (opening_count ms) (take (protectedSuffix ms) ms) \<noteq> []"
      and "r = take (opening_count ms) ms @
        snd (compactMemory fo ask strategy m budget (drop (opening_count ms) (take (protectedSuffix ms) ms)) w0) @
        drop (protectedSuffix ms) ms"
proof -
  let ?budget = "if maxTokens - reserved \<le> 0 then 1 else maxTokens - reserved"
  let ?keep = "protectedSuffix ms"
  let ?head = "drop (opening_count ms) (take ?keep ms)"
  let ?hb = "?budget - (sizeOf fo m (estimateTokens (take (opening_count ms) ms)) + sizeOf fo m (estimateTokens (drop ?keep ms)))"
  consider "r = ms" | "?head \<noteq> []" and "fitContext fo ask strategy maxTokens m reserved ms w =
      (case compactMemory fo ask strategy m ?hb ?head w of
         (w', c) \<Rightarrow> (w', take (opening_count ms) ms @ c @ drop ?keep ms))"
    using assms unfolding fitContext_def Let_def by (metis prod.inject)
  then show thesis
  proof cases
    case 1
    then show ?thesis by (rule that(1))
  next
    case 2
    with assms show ?thesis by (intro that(2) [of ?hb w]) (auto split: prod.splits)
  qed
qed

lemma fitContext_replayable:
  assumes rep: "replayable ms" and ne: "ms \<noteq> []"
    and fit: "fitContext fo ask strategy maxTokens m reserved ms w = (w', r)"
  shows "replayable r \<and> r \<noteq> [] \<and> hd r = hd ms \<and> suffix (drop (protectedSuffix ms) ms) r"
  using fit
proof (cases rule: fitContext_cases)
  case 1
  with rep ne show ?thesis by (simp add: suffix_drop)
next
  case (2 budget w0)
  let ?keep = "protectedSuffix ms"
  from rep ne obtain u rest where ms: "ms = u # rest" and u: "lm_Role u = LLMRoleUser"
    by (cases ms) (auto simp: replayable_def)
  then have op: "opening_count ms = 1" by (simp add: opening_count_def)
  from rep have p: "paired ms" by (simp add: replayable_def)
  have split: "paired (take ?keep ms)" "paired (drop ?keep ms)"
    using p protectedSuffix_hd [OF p] by (simp_all add: paired_take paired_drop)
  from 2(1) op ms have keep: "take ?keep ms = u # drop 1 (take ?keep ms)" by (cases ?keep) auto
  with split(1) u have "lm_ToolCalls u = []" and "paired (drop 1 (take ?keep ms))"
    by (metis paired_user_no_calls)+
  then have "paired (u # snd (compactMemory fo ask strategy m budget (drop 1 (take ?keep ms)) w0) @ drop ?keep ms)"
    using split(2) u by (simp add: paired_append compactMemory_paired)
  with 2(2) op ms u show ?thesis
    by (auto simp: replayable_def suffix_def intro: exI [of _ "u # x" for x])
qed

section \<open>Pruning keeps as much as fits\<close>

lemma prune_loop_keeps:
  "suffix s ms \<Longrightarrow> s \<noteq> [] \<Longrightarrow> fits fo m budget s \<Longrightarrow> suffix s (prune_loop fo m budget ms)"
proof (induction fo m budget ms rule: prune_loop.induct)
  case (1 fo m budget a b ms)
  then show ?case by (cases "fits fo m budget (a # b # ms)") (auto simp: suffix_Cons)
qed auto

lemma trim_keeps: "suffix s ms \<Longrightarrow> opens_on_user s \<Longrightarrow> suffix s (trimToValidStart ms)"
  by (induction ms) (auto simp: suffix_Cons opens_on_user_def)

lemma prune_loop_fits: "length (prune_loop fo m budget ms) \<le> 1 \<or> fits fo m budget (prune_loop fo m budget ms)"
  by (induction fo m budget ms rule: prune_loop.induct) auto

lemma estimate_suffix: "suffix s ms \<Longrightarrow> estimateTokens s \<le> estimateTokens ms"
  by (auto simp: suffix_def estimateTokens_def intro: div_le_mono)

lemma fits_suffix:
  assumes "\<And>a b. a \<le> b \<Longrightarrow> sizeOf fo m a \<le> sizeOf fo m b" and "suffix s ms" and "fits fo m budget ms"
  shows "fits fo m budget s"
  using assms(1) [OF estimate_suffix [OF assms(2)]] assms(3) by (simp add: fits_def predict_def)

theorem pruning_keeps_longest_fit:
  assumes mono: "\<And>a b. a \<le> b \<Longrightarrow> sizeOf fo m a \<le> sizeOf fo m b"
    and s: "suffix s ms" "opens_on_user s" "fits fo m budget s"
  shows "suffix s (pruneMemory fo m budget ms) \<and> fits fo m budget (pruneMemory fo m budget ms) \<and>
    suffix (pruneMemory fo m budget ms) ms \<and> opens_on_user (pruneMemory fo m budget ms)"
proof -
  let ?kept = "prune_loop fo m budget ms"
  have ne: "s \<noteq> []" using s(2) by auto
  have k: "suffix s ?kept" using prune_loop_keeps [OF s(1) ne s(3)] .
  have t: "suffix s (trimToValidStart ?kept)" using trim_keeps [OF k s(2)] .
  with ne have "trimToValidStart ?kept \<noteq> []" by auto
  then have eq: "pruneMemory fo m budget ms = trimToValidStart ?kept"
    by (simp add: pruneMemory_def split: list.split)
  have "fits fo m budget ?kept"
  proof (cases "length ?kept \<le> 1")
    case True
    with k ne have "?kept = s" by (cases ?kept) (auto simp: suffix_Cons)
    with s(3) show ?thesis by simp
  next
    case False
    with prune_loop_fits [of fo m budget ms] show ?thesis by blast
  qed
  moreover have "suffix (trimToValidStart ?kept) ?kept"
    using trim_is_drop [of ?kept] by (metis suffix_drop)
  ultimately have "fits fo m budget (trimToValidStart ?kept)" using fits_suffix [OF mono] by blast
  moreover have "suffix (pruneMemory fo m budget ms) ms" using pruneMemory_suffix [of fo m budget ms] by (metis suffix_drop)
  ultimately show ?thesis using t eq trim_opens [of ?kept] ne by auto
qed

end
