(* ===== verification/Octo_Agent_Store.thy ===== *)
theory Octo_Agent_Store
  imports Octo_KV Octo_Transcript
begin

text \<open>
  Agent memory: the interface of \<^verbatim>\<open>core/agentmemory.go\<close> and the two standalone
  stores behind it, the file tree of \<^verbatim>\<open>services/standalone/agentmemory.go\<close> and
  the in-process one of \<^verbatim>\<open>agentmemorymem.go\<close>.

  Every operation holds the lock of the conversation or file it touches, so operations are the
  steps. Instants are integers, the zero time is 0. Reading a JSON file gives the value it
  holds or an error when it holds something else; the lines of a transcript file are bytes, and
  the JSON form of a turn and the encoding of a cursor are parameters.
\<close>

section \<open>The interface's data\<close>

record memory_ref =
  mr_AgentID :: string
  mr_ThreadKey :: string
  mr_UserID :: string

record working_memory =
  wm_Version :: nat
  wm_Iteration :: nat
  wm_Tokens :: int
  wm_Payload :: string
  wm_UpdatedAt :: int

record mem_turn =
  tu_Seq :: nat
  tu_Role :: llm_role
  tu_Text :: string
  tu_Tokens :: nat
  tu_Attrs :: string
  tu_CreatedAt :: int

record mem_thread =
  ct_AgentID :: string
  ct_ThreadKey :: string
  ct_UserID :: string
  ct_Title :: string
  ct_Version :: nat
  ct_TurnCount :: nat
  ct_CreatedAt :: int
  ct_LastActivityAt :: int

record user_memory =
  um_Value :: string
  um_Version :: nat
  um_CreatedAt :: int
  um_UpdatedAt :: int

datatype mem_error = MemVersionConflict | MemDisabled | MemFailure err

record page =
  pg_Cursor :: string
  pg_Limit :: int

section \<open>Paging\<close>

definition defaultPageLimit :: nat where "defaultPageLimit = 50"

record cursor_codec =
  cc_enc :: "string \<Rightarrow> string"
  cc_dec :: "string \<Rightarrow> string option"

fun index_after :: "('a \<Rightarrow> string) \<Rightarrow> string \<Rightarrow> 'a list \<Rightarrow> nat option" where
  "index_after key s [] = None"
| "index_after key s (x # xs) = (if key x = s then Some 1 else map_option Suc (index_after key s xs))"

definition page_limit :: "page \<Rightarrow> nat" where
  "page_limit p = (if pg_Limit p \<le> 0 then defaultPageLimit else nat (pg_Limit p))"

definition page_slice :: "cursor_codec \<Rightarrow> ('a \<Rightarrow> string) \<Rightarrow> nat \<Rightarrow> 'a list \<Rightarrow> nat \<Rightarrow> 'a list \<times> string" where
  "page_slice cc key limit rows start =
     (if length rows \<le> start then ([], [])
      else let stop = min (start + limit) (length rows) in
        (take (stop - start) (drop start rows), if stop < length rows then cc_enc cc (key (rows ! (stop - 1))) else []))"

definition pageThreads :: "cursor_codec \<Rightarrow> mem_thread list \<Rightarrow> page \<Rightarrow> (err, mem_thread list \<times> string) res" where
  "pageThreads cc rows p =
     (if pg_Cursor p = [] then Inr (page_slice cc ct_ThreadKey (page_limit p) rows 0)
      else (case cc_dec cc (pg_Cursor p) of
              None \<Rightarrow> Inl (Wrap ''bad cursor'' (Err ''illegal base64 data''))
            | Some after \<Rightarrow>
                (case index_after ct_ThreadKey after rows of
                   None \<Rightarrow> Inr ([], [])
                 | Some start \<Rightarrow> Inr (page_slice cc ct_ThreadKey (page_limit p) rows start))))"

definition seq_key :: "mem_turn \<Rightarrow> string" where
  "seq_key t = itoa (tu_Seq t)"

definition pageTurns :: "cursor_codec \<Rightarrow> mem_turn list \<Rightarrow> page \<Rightarrow> mem_turn list \<times> string" where
  "pageTurns cc turns p =
     (if pg_Cursor p = [] then page_slice cc seq_key (page_limit p) turns 0
      else (case cc_dec cc (pg_Cursor p) of
              None \<Rightarrow> ([], [])
            | Some after \<Rightarrow>
                (case index_after seq_key after turns of
                   None \<Rightarrow> ([], [])
                 | Some start \<Rightarrow> page_slice cc seq_key (page_limit p) turns start)))"

section \<open>The file tree\<close>

text \<open>
  A path is the list of its components; \<^verbatim>\<open>filepath.Join\<close> drops the empty ones.
\<close>

type_synonym fpath = "string list"

definition path_join :: "string list \<Rightarrow> fpath" where
  "path_join parts = filter (\<lambda>c. c \<noteq> []) parts"

datatype mem_file =
    ThreadFile mem_thread
  | WorkingFile working_memory
  | TurnsFile string
  | UserFile "(string \<times> user_memory) list"
  | CorruptFile

text \<open>What the file system does to the next writes: carry one out, refuse it, or keep a prefix of it.\<close>

datatype disk_fault = Fine | Refused | Torn nat

record disk =
  dk_files :: "(fpath \<times> mem_file) list"
  dk_faults :: "disk_fault list"
  dk_now :: int

definition memoryRootDir :: string where "memoryRootDir = ''agent-memory''"
definition threadsDir :: string where "threadsDir = ''threads''"
definition usersDir :: string where "usersDir = ''users''"
definition threadFile :: string where "threadFile = ''thread.json''"
definition workingFile :: string where "workingFile = ''working.json''"
definition turnsFile :: string where "turnsFile = ''turns.jsonl''"
definition userMemoryFile :: string where "userMemoryFile = ''.json''"

lemmas layout_defs = memoryRootDir_def threadsDir_def usersDir_def threadFile_def workingFile_def turnsFile_def userMemoryFile_def

definition threadDir :: "memory_ref \<Rightarrow> fpath" where
  "threadDir r = path_join [memoryRootDir, encodeName (mr_AgentID r), threadsDir, encodeName (mr_ThreadKey r)]"

definition userFile :: "memory_ref \<Rightarrow> fpath" where
  "userFile r = path_join [memoryRootDir, encodeName (mr_AgentID r), usersDir, encodeName (mr_UserID r) @ userMemoryFile]"

definition readJSONFile :: "(mem_file \<Rightarrow> 'a option) \<Rightarrow> disk \<Rightarrow> fpath \<Rightarrow> (mem_error, 'a option) res" where
  "readJSONFile get d p =
     (case map_of (dk_files d) p of
        None \<Rightarrow> Inr None
      | Some f \<Rightarrow> (case get f of None \<Rightarrow> Inl (MemFailure (Err ''decoding'')) | Some x \<Rightarrow> Inr (Some x)))"

definition next_fault :: "disk \<Rightarrow> disk_fault \<times> disk" where
  "next_fault d = (case dk_faults d of [] \<Rightarrow> (Fine, d) | f # fs \<Rightarrow> (f, d\<lparr>dk_faults := fs\<rparr>))"

definition writeJSONFile :: "fpath \<Rightarrow> mem_file \<Rightarrow> disk \<Rightarrow> disk \<times> mem_error option" where
  "writeJSONFile p f d =
     (case next_fault d of
        (Fine, d1) \<Rightarrow> (d1\<lparr>dk_files := AList.update p f (dk_files d1)\<rparr>, None)
      | (_, d1) \<Rightarrow> (d1, Some (MemFailure (Err ''writing''))))"

definition appendFile :: "fpath \<Rightarrow> string \<Rightarrow> disk \<Rightarrow> disk \<times> mem_error option" where
  "appendFile p s d =
     (let old = (case map_of (dk_files d) p of Some (TurnsFile t) \<Rightarrow> t | _ \<Rightarrow> []) in
      case next_fault d of
        (Fine, d1) \<Rightarrow> (d1\<lparr>dk_files := AList.update p (TurnsFile (old @ s)) (dk_files d1)\<rparr>, None)
      | (Torn n, d1) \<Rightarrow>
          (d1\<lparr>dk_files := AList.update p (TurnsFile (old @ take n s)) (dk_files d1)\<rparr>, Some (MemFailure (Err ''appending'')))
      | (Refused, d1) \<Rightarrow> (d1, Some (MemFailure (Err ''appending''))))"

definition removeAll_dir :: "fpath \<Rightarrow> disk \<Rightarrow> disk" where
  "removeAll_dir dir d = d\<lparr>dk_files := filter (\<lambda>(p, f). take (length dir) p \<noteq> dir) (dk_files d)\<rparr>"

fun get_thread :: "mem_file \<Rightarrow> mem_thread option" where
  "get_thread (ThreadFile t) = Some t" | "get_thread _ = None"
fun get_working :: "mem_file \<Rightarrow> working_memory option" where
  "get_working (WorkingFile w) = Some w" | "get_working _ = None"
fun get_user :: "mem_file \<Rightarrow> (string \<times> user_memory) list option" where
  "get_user (UserFile u) = Some u" | "get_user _ = None"

section \<open>Working memory\<close>

definition LoadWorking :: "disk \<Rightarrow> memory_ref \<Rightarrow> (mem_error, working_memory option) res" where
  "LoadWorking d r = readJSONFile get_working d (threadDir r @ [workingFile])"

definition fresh_thread :: "memory_ref \<Rightarrow> int \<Rightarrow> mem_thread" where
  "fresh_thread r now =
     \<lparr>ct_AgentID = mr_AgentID r, ct_ThreadKey = mr_ThreadKey r, ct_UserID = mr_UserID r, ct_Title = [], ct_Version = 0,
      ct_TurnCount = 0, ct_CreatedAt = now, ct_LastActivityAt = 0\<rparr>"

definition ensureThread :: "memory_ref \<Rightarrow> int \<Rightarrow> disk \<Rightarrow> disk \<times> mem_error option" where
  "ensureThread r now d =
     (case readJSONFile get_thread d (threadDir r @ [threadFile]) of
        Inl e \<Rightarrow> (d, Some e)
      | Inr found \<Rightarrow>
          let t = (case found of None \<Rightarrow> fresh_thread r now | Some t \<Rightarrow> t);
              t1 = (if ct_UserID t = [] then t\<lparr>ct_UserID := mr_UserID r\<rparr> else t) in
          writeJSONFile (threadDir r @ [threadFile])
            (ThreadFile (t1\<lparr>ct_Version := Suc (ct_Version t1), ct_LastActivityAt := now\<rparr>)) d)"

definition SaveWorking :: "memory_ref \<Rightarrow> working_memory \<Rightarrow> disk \<Rightarrow> disk \<times> (mem_error, nat) res" where
  "SaveWorking r wm d =
     (case LoadWorking d r of
        Inl e \<Rightarrow> (d, Inl e)
      | Inr found \<Rightarrow>
          let current = (case found of None \<Rightarrow> 0 | Some w \<Rightarrow> wm_Version w) in
          if wm_Version wm \<noteq> current then (d, Inl MemVersionConflict)
          else (case ensureThread r (dk_now d) d of
                  (d1, Some e) \<Rightarrow> (d1, Inl e)
                | (d1, None) \<Rightarrow>
                    (case writeJSONFile (threadDir r @ [workingFile])
                            (WorkingFile (wm\<lparr>wm_Version := Suc current, wm_UpdatedAt := dk_now d\<rparr>)) d1 of
                       (d2, Some e) \<Rightarrow> (d2, Inl e)
                     | (d2, None) \<Rightarrow> (d2, Inr (Suc current)))))"

section \<open>The record of turns\<close>

record turn_codec =
  tc_enc :: "mem_turn \<Rightarrow> string"
  tc_dec :: "string \<Rightarrow> mem_turn option"

fun number_turns :: "nat \<Rightarrow> int \<Rightarrow> mem_turn list \<Rightarrow> mem_turn list" where
  "number_turns n now [] = []"
| "number_turns n now (t # ts) = t\<lparr>tu_Seq := Suc n, tu_CreatedAt := now\<rparr> # number_turns (Suc n) now ts"

definition turn_lines :: "turn_codec \<Rightarrow> mem_turn list \<Rightarrow> string" where
  "turn_lines tc ts = concat (map (\<lambda>t. tc_enc tc t @ newline) ts)"

definition AppendTurns :: "turn_codec \<Rightarrow> memory_ref \<Rightarrow> mem_turn list \<Rightarrow> disk \<Rightarrow> disk \<times> (mem_error, nat) res" where
  "AppendTurns tc r turns d =
     (if turns = [] then (d, Inr 0)
      else (case ensureThread r (dk_now d) d of
              (d1, Some e) \<Rightarrow> (d1, Inl e)
            | (d1, None) \<Rightarrow>
                (case readJSONFile get_thread d1 (threadDir r @ [threadFile]) of
                   Inl e \<Rightarrow> (d1, Inl e)
                 | Inr found \<Rightarrow>
                     let t = (case found of None \<Rightarrow> fresh_thread \<lparr>mr_AgentID = [], mr_ThreadKey = [], mr_UserID = []\<rparr> 0 | Some t \<Rightarrow> t);
                         numbered = number_turns (ct_TurnCount t) (dk_now d) turns in
                     (case appendFile (threadDir r @ [turnsFile]) (turn_lines tc numbered) d1 of
                        (d2, Some e) \<Rightarrow> (d2, Inl e)
                      | (d2, None) \<Rightarrow>
                          (case writeJSONFile (threadDir r @ [threadFile])
                                  (ThreadFile (t\<lparr>ct_TurnCount := ct_TurnCount t + length turns, ct_LastActivityAt := dk_now d\<rparr>)) d2 of
                             (d3, Some e) \<Rightarrow> (d3, Inl e)
                           | (d3, None) \<Rightarrow> (d3, Inr (ct_Version t)))))))"

definition trim_newlines :: "string \<Rightarrow> string" where
  "trim_newlines s = rev (dropWhile (\<lambda>c. c = CHR 0x0A) (rev s))"

definition parse_lines :: "turn_codec \<Rightarrow> string list \<Rightarrow> mem_turn list" where
  "parse_lines tc ls = List.map_filter (\<lambda>l. if TrimSpace l = [] then None else tc_dec tc l) ls"

definition readTurns :: "turn_codec \<Rightarrow> disk \<Rightarrow> fpath \<Rightarrow> nat \<Rightarrow> mem_turn list" where
  "readTurns tc d p tail =
     (case map_of (dk_files d) p of
        Some (TurnsFile raw) \<Rightarrow>
          let ls = split_on (CHR 0x0A) (trim_newlines raw);
              kept = (if 0 < tail \<and> tail < length ls then drop (length ls - tail) ls else ls) in
          parse_lines tc kept
      | _ \<Rightarrow> [])"

definition ReadThread ::
  "turn_codec \<Rightarrow> cursor_codec \<Rightarrow> disk \<Rightarrow> memory_ref \<Rightarrow> page \<Rightarrow> (mem_error, (mem_thread \<times> mem_turn list \<times> string) option) res" where
  "ReadThread tc cc d r p =
     (case readJSONFile get_thread d (threadDir r @ [threadFile]) of
        Inl e \<Rightarrow> Inl e
      | Inr None \<Rightarrow> Inr None
      | Inr (Some t) \<Rightarrow> Inr (Some (t, pageTurns cc (readTurns tc d (threadDir r @ [turnsFile]) 0) p)))"

section \<open>Conversations\<close>

definition before_in_listing :: "mem_thread \<Rightarrow> mem_thread \<Rightarrow> bool" where
  "before_in_listing a b \<longleftrightarrow>
     (if ct_LastActivityAt a \<noteq> ct_LastActivityAt b then ct_LastActivityAt b < ct_LastActivityAt a
      else lexordp (\<lambda>x y. (of_char x :: nat) < of_char y) (ct_ThreadKey a) (ct_ThreadKey b))"

fun insert_thread :: "mem_thread \<Rightarrow> mem_thread list \<Rightarrow> mem_thread list" where
  "insert_thread x [] = [x]"
| "insert_thread x (y # ys) = (if before_in_listing y x then y # insert_thread x ys else x # y # ys)"

definition sortThreads :: "mem_thread list \<Rightarrow> mem_thread list" where
  "sortThreads rows = foldr insert_thread rows []"

definition subdirs :: "fpath \<Rightarrow> disk \<Rightarrow> string list" where
  "subdirs dir d =
     remdups (List.map_filter (\<lambda>(p, f). if take (length dir) p = dir \<and> Suc (length dir) < length p then Some (p ! length dir) else None)
       (dk_files d))"

definition allThreads :: "disk \<Rightarrow> string \<Rightarrow> string \<Rightarrow> mem_thread list" where
  "allThreads d agent user =
     (let dir = path_join [memoryRootDir, encodeName agent, threadsDir];
          rows = List.map_filter (\<lambda>e. case readJSONFile get_thread d (dir @ [e, threadFile]) of Inr (Some t) \<Rightarrow> Some t | _ \<Rightarrow> None) (subdirs dir d) in
      sortThreads (filter (\<lambda>t. user = [] \<or> ct_UserID t = user) rows))"

definition ListThreads :: "cursor_codec \<Rightarrow> disk \<Rightarrow> string \<Rightarrow> string \<Rightarrow> page \<Rightarrow> (err, mem_thread list \<times> string) res" where
  "ListThreads cc d agent user p = pageThreads cc (allThreads d agent user) p"

definition DeleteThread :: "memory_ref \<Rightarrow> disk \<Rightarrow> disk" where
  "DeleteThread r d = removeAll_dir (threadDir r) d"

definition SetTitle :: "memory_ref \<Rightarrow> string \<Rightarrow> disk \<Rightarrow> disk \<times> mem_error option" where
  "SetTitle r title d =
     (case ensureThread r (dk_now d) d of
        (d1, Some e) \<Rightarrow> (d1, Some e)
      | (d1, None) \<Rightarrow>
          (case readJSONFile get_thread d1 (threadDir r @ [threadFile]) of
             Inl e \<Rightarrow> (d1, Some e)
           | Inr found \<Rightarrow>
               let t = (case found of None \<Rightarrow> fresh_thread \<lparr>mr_AgentID = [], mr_ThreadKey = [], mr_UserID = []\<rparr> 0 | Some t \<Rightarrow> t) in
               writeJSONFile (threadDir r @ [threadFile]) (ThreadFile (t\<lparr>ct_Title := title\<rparr>)) d1))"

section \<open>User memory\<close>

definition readUserMemories :: "disk \<Rightarrow> fpath \<Rightarrow> (mem_error, (string \<times> user_memory) list \<times> bool) res" where
  "readUserMemories d p =
     (case readJSONFile get_user d p of
        Inl e \<Rightarrow> Inl e
      | Inr None \<Rightarrow> Inr ([], False)
      | Inr (Some u) \<Rightarrow> Inr (u, True))"

fun insert_memory :: "string \<times> user_memory \<Rightarrow> (string \<times> user_memory) list \<Rightarrow> (string \<times> user_memory) list" where
  "insert_memory x [] = [x]"
| "insert_memory x (y # ys) =
     (if lexordp (\<lambda>a b. (of_char a :: nat) < of_char b) (fst y) (fst x) then y # insert_memory x ys else x # y # ys)"

definition sortedMemories :: "(string \<times> user_memory) list \<Rightarrow> (string \<times> user_memory) list" where
  "sortedMemories items = foldr insert_memory items []"

definition Memories :: "disk \<Rightarrow> memory_ref \<Rightarrow> (mem_error, (string \<times> user_memory) list) res" where
  "Memories d r = map_sum id (\<lambda>(u, found). sortedMemories u) (readUserMemories d (userFile r))"

definition no_memory :: user_memory where
  "no_memory = \<lparr>um_Value = [], um_Version = 0, um_CreatedAt = 0, um_UpdatedAt = 0\<rparr>"

definition PutMemory :: "memory_ref \<Rightarrow> string \<Rightarrow> string \<Rightarrow> nat \<Rightarrow> disk \<Rightarrow> disk \<times> (mem_error, nat) res" where
  "PutMemory r key v expected d =
     (case readUserMemories d (userFile r) of
        Inl e \<Rightarrow> (d, Inl e)
      | Inr (u, _) \<Rightarrow>
          let current = (case map_of u key of None \<Rightarrow> no_memory | Some m \<Rightarrow> m) in
          if um_Version current \<noteq> expected then (d, Inl MemVersionConflict)
          else let c1 = (if um_CreatedAt current = 0 then current\<lparr>um_CreatedAt := dk_now d\<rparr> else current);
                   c2 = c1\<lparr>um_Value := v, um_Version := Suc (um_Version c1), um_UpdatedAt := dk_now d\<rparr> in
            (case writeJSONFile (userFile r) (UserFile (AList.update key c2 u)) d of
               (d1, Some e) \<Rightarrow> (d1, Inl e)
             | (d1, None) \<Rightarrow> (d1, Inr (um_Version c2))))"

definition DeleteMemory :: "memory_ref \<Rightarrow> string \<Rightarrow> disk \<Rightarrow> disk \<times> mem_error option" where
  "DeleteMemory r key d =
     (case readUserMemories d (userFile r) of
        Inl e \<Rightarrow> (d, Some e)
      | Inr (u, found) \<Rightarrow>
          if \<not> found then (d, None)
          else (case map_of u key of
                  None \<Rightarrow> (d, None)
                | Some _ \<Rightarrow> writeJSONFile (userFile r) (UserFile (AList.delete key u)) d))"

section \<open>The in-process store\<close>

record mem_conversation =
  mc_meta :: mem_thread
  mc_working :: "working_memory option"
  mc_turns :: "mem_turn list"

record mem_only =
  mo_threads :: "(string \<times> mem_conversation) list"
  mo_users :: "(string \<times> (string \<times> user_memory) list) list"
  mo_now :: int

definition memThreadKey :: "memory_ref \<Rightarrow> string" where
  "memThreadKey r = mr_AgentID r @ [CHR 0x00] @ mr_ThreadKey r"

definition memUserKey :: "string \<Rightarrow> string \<Rightarrow> string" where
  "memUserKey agent user = agent @ [CHR 0x00] @ user"

definition mem_thread_of :: "memory_ref \<Rightarrow> mem_only \<Rightarrow> mem_conversation" where
  "mem_thread_of r s =
     (let c = (case map_of (mo_threads s) (memThreadKey r) of
                 None \<Rightarrow> \<lparr>mc_meta = fresh_thread r (mo_now s), mc_working = None, mc_turns = []\<rparr>
               | Some c \<Rightarrow> c);
          m = mc_meta c;
          m1 = (if ct_UserID m = [] then m\<lparr>ct_UserID := mr_UserID r\<rparr> else m) in
      c\<lparr>mc_meta := m1\<lparr>ct_LastActivityAt := mo_now s\<rparr>\<rparr>)"

definition mem_put :: "memory_ref \<Rightarrow> mem_conversation \<Rightarrow> mem_only \<Rightarrow> mem_only" where
  "mem_put r c s = s\<lparr>mo_threads := AList.update (memThreadKey r) c (mo_threads s)\<rparr>"

definition mem_loadWorking :: "mem_only \<Rightarrow> memory_ref \<Rightarrow> (mem_error, working_memory option) res" where
  "mem_loadWorking s r =
     (case map_of (mo_threads s) (memThreadKey r) of None \<Rightarrow> Inr None | Some c \<Rightarrow> Inr (mc_working c))"

definition mem_saveWorking :: "memory_ref \<Rightarrow> working_memory \<Rightarrow> mem_only \<Rightarrow> mem_only \<times> (mem_error, nat) res" where
  "mem_saveWorking r wm s =
     (let c = mem_thread_of r s;
          current = (case mc_working c of None \<Rightarrow> 0 | Some w \<Rightarrow> wm_Version w) in
      if wm_Version wm \<noteq> current then (mem_put r c s, Inl MemVersionConflict)
      else let m = mc_meta c in
        (mem_put r (c\<lparr>mc_working := Some (wm\<lparr>wm_Version := Suc current, wm_UpdatedAt := mo_now s\<rparr>),
                      mc_meta := m\<lparr>ct_Version := Suc (ct_Version m)\<rparr>\<rparr>) s, Inr (Suc current)))"

definition mem_appendTurns :: "memory_ref \<Rightarrow> mem_turn list \<Rightarrow> mem_only \<Rightarrow> mem_only \<times> nat" where
  "mem_appendTurns r turns s =
     (let c = mem_thread_of r s;
          ts = mc_turns c @ number_turns (length (mc_turns c)) (mo_now s) turns;
          m = (mc_meta c)\<lparr>ct_TurnCount := length ts, ct_Version := Suc (ct_Version (mc_meta c))\<rparr> in
      (mem_put r (c\<lparr>mc_turns := ts, mc_meta := m\<rparr>) s, ct_Version m))"

definition mem_allThreads :: "mem_only \<Rightarrow> string \<Rightarrow> string \<Rightarrow> mem_thread list" where
  "mem_allThreads s agent user =
     sortThreads (filter (\<lambda>t. ct_AgentID t = agent \<and> (user = [] \<or> ct_UserID t = user)) (map (mc_meta \<circ> snd) (mo_threads s)))"

definition mem_listThreads :: "cursor_codec \<Rightarrow> mem_only \<Rightarrow> string \<Rightarrow> string \<Rightarrow> page \<Rightarrow> (err, mem_thread list \<times> string) res" where
  "mem_listThreads cc s agent user p = pageThreads cc (mem_allThreads s agent user) p"

definition mem_readThread :: "cursor_codec \<Rightarrow> mem_only \<Rightarrow> memory_ref \<Rightarrow> page \<Rightarrow> (mem_thread \<times> mem_turn list \<times> string) option" where
  "mem_readThread cc s r p =
     (case map_of (mo_threads s) (memThreadKey r) of
        None \<Rightarrow> None | Some c \<Rightarrow> Some (mc_meta c, pageTurns cc (mc_turns c) p))"

definition mem_deleteThread :: "memory_ref \<Rightarrow> mem_only \<Rightarrow> mem_only" where
  "mem_deleteThread r s = s\<lparr>mo_threads := AList.delete (memThreadKey r) (mo_threads s)\<rparr>"

definition mem_setTitle :: "memory_ref \<Rightarrow> string \<Rightarrow> mem_only \<Rightarrow> mem_only" where
  "mem_setTitle r title s =
     (let c = mem_thread_of r s in mem_put r (c\<lparr>mc_meta := (mc_meta c)\<lparr>ct_Title := title\<rparr>\<rparr>) s)"

definition mem_user_items :: "mem_only \<Rightarrow> string \<Rightarrow> (string \<times> user_memory) list" where
  "mem_user_items s scope = (case map_of (mo_users s) scope of None \<Rightarrow> [] | Some u \<Rightarrow> u)"

definition mem_memories :: "mem_only \<Rightarrow> memory_ref \<Rightarrow> (string \<times> user_memory) list" where
  "mem_memories s r = sortedMemories (mem_user_items s (memUserKey (mr_AgentID r) (mr_UserID r)))"

definition mem_putMemory :: "memory_ref \<Rightarrow> string \<Rightarrow> string \<Rightarrow> nat \<Rightarrow> mem_only \<Rightarrow> mem_only \<times> (mem_error, nat) res" where
  "mem_putMemory r key v expected s =
     (let scope = memUserKey (mr_AgentID r) (mr_UserID r);
          u = mem_user_items s scope;
          s1 = s\<lparr>mo_users := AList.update scope u (mo_users s)\<rparr>;
          current = (case map_of u key of None \<Rightarrow> no_memory | Some m \<Rightarrow> m) in
      if um_Version current \<noteq> expected then (s1, Inl MemVersionConflict)
      else let c1 = (if um_CreatedAt current = 0 then current\<lparr>um_CreatedAt := mo_now s\<rparr> else current);
               c2 = c1\<lparr>um_Value := v, um_Version := Suc (um_Version c1), um_UpdatedAt := mo_now s\<rparr> in
        (s1\<lparr>mo_users := AList.update scope (AList.update key c2 u) (mo_users s1)\<rparr>, Inr (um_Version c2)))"

definition mem_deleteMemory :: "memory_ref \<Rightarrow> string \<Rightarrow> mem_only \<Rightarrow> mem_only" where
  "mem_deleteMemory r key s =
     (let scope = memUserKey (mr_AgentID r) (mr_UserID r) in
      case map_of (mo_users s) scope of
        None \<Rightarrow> s
      | Some u \<Rightarrow> s\<lparr>mo_users := AList.update scope (AList.delete key u) (mo_users s)\<rparr>)"

section \<open>Versioned working memory as an interface\<close>

text \<open>A reference names a conversation when its agent and thread are not empty and contain no NUL.\<close>

definition named_ref :: "memory_ref \<Rightarrow> bool" where
  "named_ref r \<longleftrightarrow> mr_AgentID r \<noteq> [] \<and> mr_ThreadKey r \<noteq> [] \<and> CHR 0x00 \<notin> set (mr_AgentID r)"

definition same_conversation :: "memory_ref \<Rightarrow> memory_ref \<Rightarrow> bool" where
  "same_conversation a b \<longleftrightarrow> mr_AgentID a = mr_AgentID b \<and> mr_ThreadKey a = mr_ThreadKey b"

definition version_of :: "working_memory option \<Rightarrow> nat" where
  "version_of w = (case w of None \<Rightarrow> 0 | Some x \<Rightarrow> wm_Version x)"

text \<open>
  The contract as a program: a map from conversations to versioned contents, in which a save
  needs the stored version and raises it.
\<close>

type_synonym wm_content = "nat \<times> nat \<times> int \<times> string"

definition content :: "working_memory \<Rightarrow> wm_content" where
  "content w = (wm_Version w, wm_Iteration w, wm_Tokens w, wm_Payload w)"

definition conv_of :: "memory_ref \<Rightarrow> string \<times> string" where
  "conv_of r = (mr_AgentID r, mr_ThreadKey r)"

definition spec_save ::
  "memory_ref \<Rightarrow> working_memory \<Rightarrow> (string \<times> string \<rightharpoonup> wm_content) \<Rightarrow> (string \<times> string \<rightharpoonup> wm_content) \<times> (mem_error, nat) res" where
  "spec_save r wm m =
     (let current = (case m (conv_of r) of None \<Rightarrow> 0 | Some (v, rest) \<Rightarrow> v) in
      if wm_Version wm \<noteq> current then (m, Inl MemVersionConflict)
      else (m(conv_of r \<mapsto> (Suc current, wm_Iteration wm, wm_Tokens wm, wm_Payload wm)), Inr (Suc current)))"

fun save_all :: "(memory_ref \<Rightarrow> working_memory \<Rightarrow> 's \<Rightarrow> 's \<times> 'r) \<Rightarrow> (memory_ref \<times> working_memory) list \<Rightarrow> 's \<Rightarrow> 's \<times> 'r list" where
  "save_all save [] s = (s, [])"
| "save_all save ((r, wm) # ops) s =
     (case save r wm s of (s1, res) \<Rightarrow> (case save_all save ops s1 of (s2, rs) \<Rightarrow> (s2, res # rs)))"

text \<open>
  \<open>load\<close> and \<open>save\<close> keep one versioned object per conversation: a save needs the stored version
  and raises it, and touches no other conversation. \<open>sound s\<close> says that no failure is due.
\<close>

locale working_store =
  fixes load :: "'s \<Rightarrow> memory_ref \<Rightarrow> (mem_error, working_memory option) res"
    and save :: "memory_ref \<Rightarrow> working_memory \<Rightarrow> 's \<Rightarrow> 's \<times> (mem_error, nat) res"
    and sound :: "'s \<Rightarrow> bool"
  assumes saved: "named_ref r \<Longrightarrow> save r wm s = (s', Inr v) \<Longrightarrow>
      \<exists>old w. load s r = Inr old \<and> version_of old = wm_Version wm \<and> v = Suc (wm_Version wm) \<and>
        load s' r = Inr (Some w) \<and> wm_Version w = v \<and> wm_Payload w = wm_Payload wm \<and>
        wm_Iteration w = wm_Iteration wm \<and> wm_Tokens w = wm_Tokens wm"
    and refused: "named_ref r \<Longrightarrow> save r wm s = (s', Inl e) \<Longrightarrow> load s' r = load s r"
    and stale: "named_ref r \<Longrightarrow> load s r = Inr old \<Longrightarrow> version_of old \<noteq> wm_Version wm \<Longrightarrow>
      snd (save r wm s) = Inl MemVersionConflict"
    and other: "named_ref r \<Longrightarrow> named_ref q \<Longrightarrow> \<not> same_conversation r q \<Longrightarrow> load (fst (save r wm s)) q = load s q"
    and works: "named_ref r \<Longrightarrow> sound s \<Longrightarrow> load s r = Inr old \<Longrightarrow> version_of old = wm_Version wm \<Longrightarrow>
      \<exists>s' v. save r wm s = (s', Inr v) \<and> sound s'"
    and stays_sound: "named_ref r \<Longrightarrow> sound s \<Longrightarrow> sound (fst (save r wm s))"
    and readable: "named_ref r \<Longrightarrow> sound s \<Longrightarrow> \<exists>old. load s r = Inr old"
    and by_conversation: "same_conversation r q \<Longrightarrow> load s r = load s q"
begin

text \<open>Of two writers that read the same version, the second is refused, and keeps what the first wrote.\<close>

lemma no_lost_update:
  assumes r: "named_ref r" and one: "save r a s = (s1, Inr v)" and same: "wm_Version b = wm_Version a"
  shows "snd (save r b s1) = Inl MemVersionConflict \<and> load (fst (save r b s1)) r = load s1 r"
proof -
  from saved [OF r one] obtain w where w: "load s1 r = Inr (Some w)" "wm_Version w = Suc (wm_Version a)" by auto
  then have c: "snd (save r b s1) = Inl MemVersionConflict"
    using stale [OF r w(1), of b] same by (simp add: version_of_def)
  then have "save r b s1 = (fst (save r b s1), Inl MemVersionConflict)" by (metis prod.collapse)
  with refused [OF r this] c show ?thesis by simp
qed

text \<open>A store represents a map when loading a named reference gives what the map holds.\<close>

definition represents :: "'s \<Rightarrow> (string \<times> string \<rightharpoonup> wm_content) \<Rightarrow> bool" where
  "represents s m \<longleftrightarrow> sound s \<and> (\<forall>r. named_ref r \<longrightarrow> (\<exists>old. load s r = Inr old \<and> map_option content old = m (conv_of r)))"

lemma conv_of_eq: "conv_of r = conv_of q \<longleftrightarrow> same_conversation r q"
  by (auto simp: conv_of_def same_conversation_def)

lemma save_refines:
  assumes rep: "represents s m" and r: "named_ref r"
  shows "represents (fst (save r wm s)) (fst (spec_save r wm m)) \<and> snd (save r wm s) = snd (spec_save r wm m)"
proof -
  from rep r obtain old where old: "load s r = Inr old" "map_option content old = m (conv_of r)"
    by (auto simp: represents_def)
  then have cur: "version_of old = (case m (conv_of r) of None \<Rightarrow> 0 | Some (v, rest) \<Rightarrow> v)"
    by (cases old) (auto simp: version_of_def content_def simp flip: old(2))
  have snd: "sound (fst (save r wm s))" using rep r stays_sound by (simp add: represents_def)
  show ?thesis
  proof (cases "version_of old = wm_Version wm")
    case True
    from works [OF r _ old(1) True] rep obtain s' v where sv: "save r wm s = (s', Inr v)" by (auto simp: represents_def)
    from saved [OF r sv] obtain w where w: "load s' r = Inr (Some w)" "v = Suc (wm_Version wm)"
      "content w = (Suc (wm_Version wm), wm_Iteration wm, wm_Tokens wm, wm_Payload wm)"
      by (auto simp: content_def)
    have "\<exists>old. load s' q = Inr old \<and> map_option content old = (fst (spec_save r wm m)) (conv_of q)" if q: "named_ref q" for q
    proof (cases "same_conversation r q")
      case same: True
      with by_conversation [OF same] w True cur show ?thesis
        by (auto simp: spec_save_def Let_def simp flip: conv_of_eq)
    next
      case False
      with other [OF r q False, of wm s] rep q sv cur True show ?thesis
        by (auto simp: represents_def spec_save_def Let_def conv_of_eq [symmetric])
    qed
    with snd sv w cur True show ?thesis by (simp add: represents_def spec_save_def Let_def)
  next
    case False
    from stale [OF r old(1) False] have c: "snd (save r wm s) = Inl MemVersionConflict" .
    then have sv: "save r wm s = (fst (save r wm s), Inl MemVersionConflict)" by (metis prod.collapse)
    have "\<exists>old. load (fst (save r wm s)) q = Inr old \<and> map_option content old = m (conv_of q)" if q: "named_ref q" for q
    proof (cases "same_conversation r q")
      case same: True
      with by_conversation [OF same] refused [OF r sv] old show ?thesis by (auto simp flip: conv_of_eq)
    next
      case other_conv: False
      with other [OF r q other_conv, of wm s] rep q show ?thesis by (auto simp: represents_def)
    qed
    with snd c cur False show ?thesis by (auto simp: represents_def spec_save_def Let_def)
  qed
qed

lemma save_all_refines:
  "represents s m \<Longrightarrow> \<forall>(r, wm) \<in> set ops. named_ref r \<Longrightarrow>
     represents (fst (save_all save ops s)) (fst (save_all spec_save ops m)) \<and>
     snd (save_all save ops s) = snd (save_all spec_save ops m)"
proof (induction ops arbitrary: s m)
  case (Cons p ops)
  obtain r wm where p: "p = (r, wm)" by (cases p)
  with Cons.prems save_refines [of s m r wm]
  have one: "represents (fst (save r wm s)) (fst (spec_save r wm m))" "snd (save r wm s) = snd (spec_save r wm m)" by auto
  from Cons.IH [OF one(1)] Cons.prems(2) one(2) show ?case
    by (auto simp: p split: prod.splits)
qed simp

end

section \<open>The file tree keeps the contract\<close>

lemma encodeName_Nil [simp]: "encodeName s = [] \<longleftrightarrow> s = []"
  by (cases s) (auto simp: Let_def)

lemma encodeName_inj [simp]: "encodeName a = encodeName b \<longleftrightarrow> a = b"
  by (metis decode_encodeName)

lemma threadDir_named:
  "named_ref r \<Longrightarrow> threadDir r = [memoryRootDir, encodeName (mr_AgentID r), threadsDir, encodeName (mr_ThreadKey r)]"
  by (simp add: threadDir_def path_join_def named_ref_def layout_defs)

lemma threadDir_eq: "named_ref r \<Longrightarrow> named_ref q \<Longrightarrow> threadDir r = threadDir q \<longleftrightarrow> same_conversation r q"
  by (auto simp: threadDir_named same_conversation_def)

lemma map_of_update_alist: "map_of (AList.update k v al) = (map_of al)(k \<mapsto> v)"
  by (rule update_conv')

lemma writeJSONFile_ok:
  "writeJSONFile p f d = (d', None) \<Longrightarrow>
     map_of (dk_files d') = (map_of (dk_files d))(p \<mapsto> f) \<and> dk_now d' = dk_now d \<and>
     (dk_faults d = [] \<longrightarrow> dk_faults d' = [])"
  by (auto simp: writeJSONFile_def next_fault_def map_of_update_alist split: list.splits disk_fault.splits)

lemma writeJSONFile_err:
  "writeJSONFile p f d = (d', Some e) \<Longrightarrow> dk_files d' = dk_files d \<and> dk_now d' = dk_now d \<and> dk_faults d \<noteq> []"
  by (auto simp: writeJSONFile_def next_fault_def split: list.splits disk_fault.splits)

lemma readJSONFile_cong: "map_of (dk_files d') p = map_of (dk_files d) p \<Longrightarrow> readJSONFile get d' p = readJSONFile get d p"
  by (simp add: readJSONFile_def)

text \<open>Stamping a conversation writes its metadata file and nothing else.\<close>

lemma ensureThread_frame:
  "ensureThread r now d = (d', e) \<Longrightarrow> p \<noteq> threadDir r @ [threadFile] \<Longrightarrow>
     map_of (dk_files d') p = map_of (dk_files d) p \<and> dk_now d' = dk_now d \<and> (dk_faults d = [] \<longrightarrow> dk_faults d' = [])"
  by (cases e) (auto simp: ensureThread_def Let_def split: sum.splits dest: writeJSONFile_ok writeJSONFile_err)

lemma file_names [simp]:
  "threadFile \<noteq> workingFile" "workingFile \<noteq> threadFile" "turnsFile \<noteq> workingFile" "workingFile \<noteq> turnsFile"
  "threadFile \<noteq> turnsFile" "turnsFile \<noteq> threadFile"
  by (simp_all add: layout_defs)

lemma SaveWorking_cases:
  assumes "SaveWorking r wm d = (d', res)"
  obtains (unread) e where "LoadWorking d r = Inl e" "d' = d" "res = Inl e"
  | (conflict) old where "LoadWorking d r = Inr old" "version_of old \<noteq> wm_Version wm" "d' = d" "res = Inl MemVersionConflict"
  | (unstamped) old e where "LoadWorking d r = Inr old" "version_of old = wm_Version wm"
      "ensureThread r (dk_now d) d = (d', Some e)" "res = Inl e"
  | (unwritten) old d1 e where "LoadWorking d r = Inr old" "version_of old = wm_Version wm"
      "ensureThread r (dk_now d) d = (d1, None)" "dk_files d' = dk_files d1" "dk_faults d1 \<noteq> []" "res = Inl e"
  | (stored) old d1 where "LoadWorking d r = Inr old" "version_of old = wm_Version wm"
      "ensureThread r (dk_now d) d = (d1, None)" "res = Inr (Suc (wm_Version wm))"
      "map_of (dk_files d') = (map_of (dk_files d1))(threadDir r @ [workingFile] \<mapsto>
         WorkingFile (wm\<lparr>wm_Version := Suc (wm_Version wm), wm_UpdatedAt := dk_now d\<rparr>))"
      "dk_faults d1 = [] \<longrightarrow> dk_faults d' = []"
proof (cases "LoadWorking d r")
  case (Inl e)
  with assms show ?thesis by (intro unread) (auto simp: SaveWorking_def)
next
  case (Inr old)
  let ?cur = "case old of None \<Rightarrow> 0 | Some w \<Rightarrow> wm_Version w"
  have v: "?cur = version_of old" by (simp add: version_of_def)
  show ?thesis
  proof (cases "version_of old = wm_Version wm")
    case False
    with assms Inr v show ?thesis by (intro conflict) (auto simp: SaveWorking_def Let_def)
  next
    case True
    obtain d1 e1 where e: "ensureThread r (dk_now d) d = (d1, e1)" by (cases "ensureThread r (dk_now d) d")
    show ?thesis
    proof (cases e1)
      case (Some x)
      with assms Inr v True e show ?thesis by (intro unstamped) (auto simp: SaveWorking_def Let_def)
    next
      case None
      let ?wm = "wm\<lparr>wm_Version := Suc (wm_Version wm), wm_UpdatedAt := dk_now d\<rparr>"
      obtain d2 e2 where w: "writeJSONFile (threadDir r @ [workingFile]) (WorkingFile ?wm) d1 = (d2, e2)"
        by (cases "writeJSONFile (threadDir r @ [workingFile]) (WorkingFile ?wm) d1")
      show ?thesis
      proof (cases e2)
        case (Some x)
        with assms Inr v True e None w writeJSONFile_err [of "threadDir r @ [workingFile]" "WorkingFile ?wm" d1 d2 x]
        show ?thesis by (intro unwritten) (auto simp: SaveWorking_def Let_def)
      next
        case n2: None
        with assms Inr v True e None w writeJSONFile_ok [of "threadDir r @ [workingFile]" "WorkingFile ?wm" d1 d2]
        show ?thesis by (intro stored) (auto simp: SaveWorking_def Let_def)
      qed
    qed
  qed
qed

lemma load_after_stamp: "ensureThread r now d = (d', e) \<Longrightarrow> LoadWorking d' q = LoadWorking d q"
  using ensureThread_frame [of r now d d' e "threadDir q @ [workingFile]"]
  by (auto simp: LoadWorking_def intro!: readJSONFile_cong)

text \<open>No failure is due and every metadata file holds metadata.\<close>

definition clean_disk :: "disk \<Rightarrow> bool" where
  "clean_disk d \<longleftrightarrow> dk_faults d = [] \<and>
     (\<forall>dir f. map_of (dk_files d) (dir @ [threadFile]) = Some f \<longrightarrow> (\<exists>t. f = ThreadFile t)) \<and>
     (\<forall>dir f. map_of (dk_files d) (dir @ [workingFile]) = Some f \<longrightarrow> (\<exists>w. f = WorkingFile w))"

lemma clean_disk_write:
  assumes "clean_disk d" and "map_of (dk_files d') = (map_of (dk_files d))(p \<mapsto> f)" and "dk_faults d' = []"
    and "\<forall>dir. p = dir @ [threadFile] \<longrightarrow> (\<exists>t. f = ThreadFile t)"
    and "\<forall>dir. p = dir @ [workingFile] \<longrightarrow> (\<exists>w. f = WorkingFile w)"
  shows "clean_disk d'"
  using assms by (auto simp: clean_disk_def split: if_splits)

lemma ensureThread_clean:
  assumes "clean_disk d"
  shows "\<exists>d' t. ensureThread r now d = (d', None) \<and> clean_disk d' \<and>
    map_of (dk_files d') = (map_of (dk_files d))(threadDir r @ [threadFile] \<mapsto> ThreadFile t) \<and>
    (\<forall>old. map_of (dk_files d) (threadDir r @ [threadFile]) = Some (ThreadFile old) \<longrightarrow> ct_TurnCount t = ct_TurnCount old) \<and>
    (map_of (dk_files d) (threadDir r @ [threadFile]) = None \<longrightarrow> ct_TurnCount t = 0)"
proof -
  let ?p = "threadDir r @ [threadFile]"
  obtain found where f: "readJSONFile get_thread d ?p = Inr found"
    "\<forall>old. map_of (dk_files d) ?p = Some (ThreadFile old) \<longrightarrow> found = Some old"
    "map_of (dk_files d) ?p = None \<longrightarrow> found = None"
    using assms by (cases "map_of (dk_files d) ?p") (fastforce simp: readJSONFile_def clean_disk_def)+
  define t where "t = (let t = (case found of None \<Rightarrow> fresh_thread r now | Some t \<Rightarrow> t);
    t1 = (if ct_UserID t = [] then t\<lparr>ct_UserID := mr_UserID r\<rparr> else t) in
    t1\<lparr>ct_Version := Suc (ct_Version t1), ct_LastActivityAt := now\<rparr>)"
  obtain d' e where w: "writeJSONFile ?p (ThreadFile t) d = (d', e)" by (cases "writeJSONFile ?p (ThreadFile t) d")
  with assms writeJSONFile_err have e: "e = None" by (cases e) (auto simp: clean_disk_def)
  have "ensureThread r now d = (d', None)" using f(1) w e by (simp add: ensureThread_def t_def Let_def)
  moreover note ok = writeJSONFile_ok [OF w [unfolded e]]
  moreover have "clean_disk d'" using assms ok by (auto intro!: clean_disk_write [OF assms] simp: clean_disk_def)
  moreover have "\<forall>old. map_of (dk_files d) ?p = Some (ThreadFile old) \<longrightarrow> ct_TurnCount t = ct_TurnCount old"
    and "map_of (dk_files d) ?p = None \<longrightarrow> ct_TurnCount t = 0"
    using f by (auto simp: t_def Let_def fresh_thread_def)
  ultimately show ?thesis by (intro exI [of _ d'] exI [of _ t]) simp
qed

interpretation disk: working_store LoadWorking SaveWorking clean_disk
proof (unfold_locales, goal_cases)
  case (1 r wm s s' v)
  from 1(2) show ?case
  proof (cases rule: SaveWorking_cases)
    case (stored old d1)
    then show ?thesis by (auto simp: LoadWorking_def readJSONFile_def)
  qed auto
next
  case (2 r wm s s' e)
  from 2(2) show ?case
  proof (cases rule: SaveWorking_cases)
    case (unwritten old d1 x)
    then have "LoadWorking s' r = LoadWorking d1 r" by (simp add: LoadWorking_def readJSONFile_def)
    with load_after_stamp [OF unwritten(3)] show ?thesis by simp
  next
    case (unstamped old x)
    from load_after_stamp [OF unstamped(3)] show ?thesis by simp
  qed auto
next
  case (3 r s old wm)
  obtain d' res where sv: "SaveWorking r wm s = (d', res)" by (cases "SaveWorking r wm s")
  then show ?case using 3 sv by (cases rule: SaveWorking_cases) simp_all
next
  case (4 r q wm s)
  obtain d' res where sv: "SaveWorking r wm s = (d', res)" by (cases "SaveWorking r wm s")
  then show ?case
  proof (cases rule: SaveWorking_cases)
    case (unwritten old d1 x)
    then have "LoadWorking d' q = LoadWorking d1 q" by (simp add: LoadWorking_def readJSONFile_def)
    with sv load_after_stamp [OF unwritten(3)] show ?thesis by simp
  next
    case (stored old d1)
    from 4 have "threadDir r \<noteq> threadDir q" by (simp add: threadDir_eq)
    with stored have "LoadWorking d' q = LoadWorking d1 q" by (auto simp: LoadWorking_def readJSONFile_def)
    with sv load_after_stamp [OF stored(3)] show ?thesis by simp
  next
    case (unstamped old x)
    with sv load_after_stamp [OF unstamped(3)] show ?thesis by simp
  qed (use sv in simp_all)
next
  case (5 r s old wm)
  obtain d' res where sv: "SaveWorking r wm s = (d', res)" by (cases "SaveWorking r wm s")
  from ensureThread_clean [OF 5(2), of r "dk_now s"] obtain d0 where d0:
    "ensureThread r (dk_now s) s = (d0, None)" "clean_disk d0" by blast
  from sv show ?case
  proof (cases rule: SaveWorking_cases)
    case (stored x d1)
    have "clean_disk d'"
      by (rule clean_disk_write [OF d0(2)]) (use stored d0 in \<open>auto simp: clean_disk_def\<close>)
    with sv stored show ?thesis by simp
  qed (use 5 d0 in \<open>auto simp: clean_disk_def\<close>)
next
  case (6 r s wm)
  obtain d' res where sv: "SaveWorking r wm s = (d', res)" by (cases "SaveWorking r wm s")
  from ensureThread_clean [OF 6(2), of r "dk_now s"] obtain d0 where d0:
    "ensureThread r (dk_now s) s = (d0, None)" "clean_disk d0" by blast
  from sv show ?case
  proof (cases rule: SaveWorking_cases)
    case (stored x d1)
    have "clean_disk d'"
      by (rule clean_disk_write [OF d0(2)]) (use stored d0 in \<open>auto simp: clean_disk_def\<close>)
    with sv show ?thesis by simp
  qed (use sv 6 d0 in \<open>auto simp: clean_disk_def\<close>)
next
  case (7 r s)
  then show ?case
    by (cases "map_of (dk_files s) (threadDir r @ [workingFile])")
      (fastforce simp: LoadWorking_def readJSONFile_def clean_disk_def)+
next
  case (8 r q s)
  then show ?case by (simp add: LoadWorking_def threadDir_def same_conversation_def)
qed

section \<open>The in-process store keeps it too\<close>

lemma memThreadKey_eq: "named_ref r \<Longrightarrow> named_ref q \<Longrightarrow> memThreadKey r = memThreadKey q \<longleftrightarrow> same_conversation r q"
proof -
  assume n: "named_ref r" "named_ref q"
  have "span_until (CHR 0x00) (memThreadKey x) = (mr_AgentID x, CHR 0x00 # mr_ThreadKey x)" if "named_ref x" for x
    using that by (simp add: memThreadKey_def named_ref_def span_until_found)
  with n show ?thesis
    by (metis (no_types, lifting) list.inject memThreadKey_def prod.inject same_conversation_def)
qed

lemma mem_thread_of_working:
  "mc_working (mem_thread_of r s) = (case map_of (mo_threads s) (memThreadKey r) of None \<Rightarrow> None | Some c \<Rightarrow> mc_working c)"
  by (auto simp: mem_thread_of_def Let_def split: option.splits)

lemma mem_load: "mem_loadWorking s r = Inr (mc_working (mem_thread_of r s))"
  by (simp add: mem_loadWorking_def mem_thread_of_working split: option.splits)

lemma mem_load_put: "mem_loadWorking (mem_put r c s) q = (if memThreadKey q = memThreadKey r then Inr (mc_working c) else mem_loadWorking s q)"
  by (simp add: mem_loadWorking_def mem_put_def map_of_update_alist)

lemma mem_put_working:
  "mc_working (mem_thread_of q (mem_put r c s)) =
     (if memThreadKey q = memThreadKey r then mc_working c else mc_working (mem_thread_of q s))"
  using mem_load_put [of r c s q] by (simp add: mem_load split: if_splits)

lemma mem_save_eq:
  "mem_saveWorking r wm s =
     (if wm_Version wm \<noteq> version_of (mc_working (mem_thread_of r s)) then (mem_put r (mem_thread_of r s) s, Inl MemVersionConflict)
      else let c = mem_thread_of r s in
        (mem_put r (c\<lparr>mc_working := Some (wm\<lparr>wm_Version := Suc (wm_Version wm), wm_UpdatedAt := mo_now s\<rparr>),
           mc_meta := (mc_meta c)\<lparr>ct_Version := Suc (ct_Version (mc_meta c))\<rparr>\<rparr>) s, Inr (Suc (wm_Version wm))))"
  by (simp add: mem_saveWorking_def Let_def version_of_def)

lemma mem_by_conversation:
  "mr_AgentID r = mr_AgentID q \<Longrightarrow> mr_ThreadKey r = mr_ThreadKey q \<Longrightarrow>
     mc_working (mem_thread_of r s) = mc_working (mem_thread_of q s)"
  by (simp add: mem_thread_of_working memThreadKey_def)

interpretation memory: working_store mem_loadWorking mem_saveWorking "\<lambda>s. True"
  by unfold_locales
    (auto simp: mem_save_eq mem_load mem_put_working memThreadKey_eq Let_def same_conversation_def split: if_splits
       intro: mem_by_conversation)

section \<open>The record of turns is complete and in order\<close>

definition codec_ok :: "turn_codec \<Rightarrow> bool" where
  "codec_ok tc \<longleftrightarrow> (\<forall>t. CHR 0x0A \<notin> set (tc_enc tc t) \<and> TrimSpace (tc_enc tc t) \<noteq> [] \<and> tc_dec tc (tc_enc tc t) = Some t)"

lemma codec_okD:
  assumes "codec_ok tc"
  shows "CHR 0x0A \<notin> set (tc_enc tc t)" "TrimSpace (tc_enc tc t) \<noteq> []" "tc_dec tc (tc_enc tc t) = Some t" "tc_enc tc t \<noteq> []"
proof -
  have "TrimSpace [] = []" by code_simp
  then show "CHR 0x0A \<notin> set (tc_enc tc t)" "TrimSpace (tc_enc tc t) \<noteq> []" "tc_dec tc (tc_enc tc t) = Some t" "tc_enc tc t \<noteq> []"
    using assms by (auto simp: codec_ok_def) metis
qed

lemma turn_lines_append: "turn_lines tc (xs @ ys) = turn_lines tc xs @ turn_lines tc ys"
  by (simp add: turn_lines_def)

lemma turn_lines_join:
  "ts \<noteq> [] \<Longrightarrow> turn_lines tc ts = join_with newline (map (tc_enc tc) ts) @ newline"
proof (induction ts rule: induct_list012)
  case (3 x y zs)
  then show ?case by (simp add: turn_lines_def)
qed (simp_all add: turn_lines_def)

lemma trim_newlines_snoc: "trim_newlines (s @ [CHR 0x0A]) = trim_newlines s"
  by (simp add: trim_newlines_def)

lemma trim_newlines_last: "s \<noteq> [] \<Longrightarrow> last s \<noteq> CHR 0x0A \<Longrightarrow> trim_newlines s = s"
  by (cases s rule: rev_cases) (simp_all add: trim_newlines_def)

lemma join_last: "xs \<noteq> [] \<Longrightarrow> last xs \<noteq> [] \<Longrightarrow> join_with sep xs \<noteq> [] \<and> last (join_with sep xs) = last (last xs)"
  by (induction sep xs rule: join_with.induct) auto

lemma parse_encoded: "codec_ok tc \<Longrightarrow> parse_lines tc (map (tc_enc tc) ts) = ts"
  by (induction ts) (simp_all add: parse_lines_def map_filter_simps codec_okD)

lemma parse_turn_lines:
  assumes "codec_ok tc"
  shows "parse_lines tc (split_on (CHR 0x0A) (trim_newlines (turn_lines tc ts))) = ts"
proof (cases "ts = []")
  case True
  have "TrimSpace [] = []" by code_simp
  with True show ?thesis by (simp add: turn_lines_def trim_newlines_def parse_lines_def map_filter_simps)
next
  case False
  let ?es = "map (tc_enc tc) ts"
  have l: "last ?es = tc_enc tc (last ts)" using False by (simp add: last_map)
  have j: "join_with newline ?es \<noteq> [] \<and> last (join_with newline ?es) = last (tc_enc tc (last ts))"
    using join_last [of ?es newline] False l codec_okD(4) [OF assms] by simp
  moreover have "last (tc_enc tc (last ts)) \<noteq> CHR 0x0A"
    using codec_okD(1,4) [OF assms, of "last ts"] by (metis last_in_set)
  ultimately have "trim_newlines (turn_lines tc ts) = join_with newline ?es"
    using False by (simp add: turn_lines_join newline_def trim_newlines_snoc trim_newlines_last)
  moreover have "split_on (CHR 0x0A) (join_with newline ?es) = ?es"
    unfolding newline_def by (rule split_on_join) (use False codec_okD(1) [OF assms] in auto)
  ultimately show ?thesis by (simp add: parse_encoded [OF assms])
qed

lemma number_turns_simps:
  "length (number_turns n now ts) = length ts"
  "map tu_Seq (number_turns n now ts) = [Suc n..<Suc (n + length ts)]"
proof (induction ts arbitrary: n)
  case (Cons t ts)
  { case 1 show ?case using Cons(1) by simp }
  { case 2 show ?case using Cons(2) [of "Suc n"] by (simp add: upt_conv_Cons del: upt_Suc) }
qed simp_all

text \<open>
  The transcript file holds the turns \<open>ts\<close>, numbered from one, and the metadata counts them.
\<close>

definition transcript_is :: "turn_codec \<Rightarrow> memory_ref \<Rightarrow> disk \<Rightarrow> mem_turn list \<Rightarrow> bool" where
  "transcript_is tc r d ts \<longleftrightarrow> clean_disk d \<and>
     (case map_of (dk_files d) (threadDir r @ [turnsFile]) of
        None \<Rightarrow> ts = [] | Some f \<Rightarrow> f = TurnsFile (turn_lines tc ts)) \<and>
     (case map_of (dk_files d) (threadDir r @ [threadFile]) of
        Some (ThreadFile t) \<Rightarrow> ct_TurnCount t = length ts | _ \<Rightarrow> ts = []) \<and>
     map tu_Seq ts = [1..<Suc (length ts)]"

lemma appendFile_ok:
  "dk_faults d = [] \<Longrightarrow> \<exists>d'. appendFile p s d = (d', None) \<and> dk_faults d' = [] \<and> dk_now d' = dk_now d \<and>
     map_of (dk_files d') = (map_of (dk_files d))(p \<mapsto> TurnsFile ((case map_of (dk_files d) p of Some (TurnsFile t) \<Rightarrow> t | _ \<Rightarrow> []) @ s))"
  by (simp add: appendFile_def next_fault_def map_of_update_alist Let_def)

lemma writeJSONFile_total: "dk_faults d = [] \<Longrightarrow> \<exists>d'. writeJSONFile p f d = (d', None)"
  by (simp add: writeJSONFile_def next_fault_def)

lemma stamp_count:
  assumes "transcript_is tc r d ts"
  shows "\<exists>d1 t. ensureThread r now d = (d1, None) \<and> clean_disk d1 \<and>
    map_of (dk_files d1) = (map_of (dk_files d))(threadDir r @ [threadFile] \<mapsto> ThreadFile t) \<and> ct_TurnCount t = length ts"
proof -
  let ?tp = "threadDir r @ [threadFile]"
  from assms have cl: "clean_disk d" by (simp add: transcript_is_def)
  from ensureThread_clean [OF cl, of r now] obtain d1 t where e:
    "ensureThread r now d = (d1, None)" "clean_disk d1" "map_of (dk_files d1) = (map_of (dk_files d))(?tp \<mapsto> ThreadFile t)"
    "\<forall>old. map_of (dk_files d) ?tp = Some (ThreadFile old) \<longrightarrow> ct_TurnCount t = ct_TurnCount old"
    "map_of (dk_files d) ?tp = None \<longrightarrow> ct_TurnCount t = 0"
    by (elim exE conjE) (rule that)
  have "ct_TurnCount t = length ts"
  proof (cases "map_of (dk_files d) ?tp")
    case None
    with assms e(5) show ?thesis by (auto simp: transcript_is_def)
  next
    case (Some f)
    with cl obtain old where "f = ThreadFile old" by (auto simp: clean_disk_def)
    with Some assms e(4) show ?thesis by (auto simp: transcript_is_def)
  qed
  with e show ?thesis by (intro exI [of _ d1] exI [of _ t]) simp
qed

lemma AppendTurns_records:
  assumes tr: "transcript_is tc r d ts" and ne: "turns \<noteq> []"
  shows "\<exists>d' v. AppendTurns tc r turns d = (d', Inr v) \<and> transcript_is tc r d' (ts @ number_turns (length ts) (dk_now d) turns)"
proof -
  let ?tp = "threadDir r @ [threadFile]" and ?lp = "threadDir r @ [turnsFile]"
  let ?new = "number_turns (length ts) (dk_now d) turns"
  from tr have cl: "clean_disk d" by (simp add: transcript_is_def)
  from stamp_count [OF tr, of "dk_now d"] obtain d1 t where e:
    "ensureThread r (dk_now d) d = (d1, None)" "clean_disk d1" "map_of (dk_files d1) = (map_of (dk_files d))(?tp \<mapsto> ThreadFile t)"
    and cnt: "ct_TurnCount t = length ts"
    by (elim exE conjE) (rule that)
  have rd: "readJSONFile get_thread d1 ?tp = Inr (Some t)" by (simp add: readJSONFile_def e(3))
  obtain d2 where a: "appendFile ?lp (turn_lines tc ?new) d1 = (d2, None)" "dk_faults d2 = []" "dk_now d2 = dk_now d1"
    "map_of (dk_files d2) = (map_of (dk_files d1))(?lp \<mapsto>
       TurnsFile ((case map_of (dk_files d1) ?lp of Some (TurnsFile t) \<Rightarrow> t | _ \<Rightarrow> []) @ turn_lines tc ?new))"
    using appendFile_ok [of d1 ?lp "turn_lines tc ?new"] e(2) by (auto simp: clean_disk_def)
  have old: "(case map_of (dk_files d1) ?lp of Some (TurnsFile t) \<Rightarrow> t | _ \<Rightarrow> []) = turn_lines tc ts"
    using tr by (auto simp: transcript_is_def e(3) turn_lines_def split: option.splits)
  let ?t' = "t\<lparr>ct_TurnCount := ct_TurnCount t + length turns, ct_LastActivityAt := dk_now d\<rparr>"
  obtain d3 where w: "writeJSONFile ?tp (ThreadFile ?t') d2 = (d3, None)" using writeJSONFile_total [OF a(2)] by blast
  have run: "AppendTurns tc r turns d = (d3, Inr (ct_Version t))"
    using ne e(1) rd a(1) w cnt by (simp add: AppendTurns_def Let_def)
  have files: "map_of (dk_files d3) = (map_of (dk_files d))(?tp \<mapsto> ThreadFile ?t', ?lp \<mapsto> TurnsFile (turn_lines tc (ts @ ?new)))"
    using writeJSONFile_ok [OF w] a(4) old e(3) by (auto simp: turn_lines_append fun_eq_iff)
  have "clean_disk d3"
    using cl files writeJSONFile_ok [OF w] a(2) by (auto simp: clean_disk_def split: if_splits)
  moreover have "map tu_Seq (ts @ ?new) = [1..<Suc (length (ts @ ?new))]"
    using tr upt_add_eq_append [of 1 "Suc (length ts)" "length turns"]
    by (simp add: transcript_is_def number_turns_simps)
  ultimately have "transcript_is tc r d3 (ts @ ?new)"
    by (simp add: transcript_is_def files cnt number_turns_simps)
  with run show ?thesis by blast
qed

lemma transcript_frame:
  assumes "transcript_is tc r d ts" and "clean_disk d'"
    and "map_of (dk_files d') (threadDir r @ [turnsFile]) = map_of (dk_files d) (threadDir r @ [turnsFile])"
    and "map_of (dk_files d') (threadDir r @ [threadFile]) = Some (ThreadFile t)" and "ct_TurnCount t = length ts"
  shows "transcript_is tc r d' ts"
  using assms by (simp add: transcript_is_def)

lemma SaveWorking_records:
  assumes tr: "transcript_is tc r d ts"
  shows "transcript_is tc r (fst (SaveWorking r wm d)) ts"
proof -
  obtain d' res where sv: "SaveWorking r wm d = (d', res)" by (cases "SaveWorking r wm d")
  from stamp_count [OF tr, of "dk_now d"] obtain d1 t where s:
    "ensureThread r (dk_now d) d = (d1, None)" "clean_disk d1"
    "map_of (dk_files d1) = (map_of (dk_files d))(threadDir r @ [threadFile] \<mapsto> ThreadFile t)" "ct_TurnCount t = length ts"
    by (elim exE conjE) (rule that)
  from sv show ?thesis
  proof (cases rule: SaveWorking_cases)
    case (stored old d2)
    then have d2: "d2 = d1" using s by simp
    have "clean_disk d'" by (rule clean_disk_write [OF s(2)]) (use stored d2 s(2) in \<open>auto simp: clean_disk_def\<close>)
    then have "transcript_is tc r d' ts"
      by (rule transcript_frame [OF tr, where t = t]) (use stored d2 s in simp_all)
    with sv show ?thesis by simp
  qed (use sv tr s in \<open>simp_all add: clean_disk_def\<close>)
qed

lemma SetTitle_records:
  assumes tr: "transcript_is tc r d ts"
  shows "transcript_is tc r (fst (SetTitle r title d)) ts"
proof -
  from stamp_count [OF tr, of "dk_now d"] obtain d1 t where s:
    "ensureThread r (dk_now d) d = (d1, None)" "clean_disk d1"
    "map_of (dk_files d1) = (map_of (dk_files d))(threadDir r @ [threadFile] \<mapsto> ThreadFile t)" "ct_TurnCount t = length ts"
    by (elim exE conjE) (rule that)
  from s(2) have "dk_faults d1 = []" by (simp add: clean_disk_def)
  then obtain d2 where w: "writeJSONFile (threadDir r @ [threadFile]) (ThreadFile (t\<lparr>ct_Title := title\<rparr>)) d1 = (d2, None)"
    using writeJSONFile_total by blast
  have "SetTitle r title d = (d2, None)" using s w by (simp add: SetTitle_def readJSONFile_def Let_def)
  moreover note ok = writeJSONFile_ok [OF w]
  moreover have "clean_disk d2" by (rule clean_disk_write [OF s(2)]) (use ok s(2) in \<open>auto simp: clean_disk_def\<close>)
  then have "transcript_is tc r d2 ts"
    by (rule transcript_frame [OF tr, where t = "t\<lparr>ct_Title := title\<rparr>"]) (use ok s in simp_all)
  ultimately show ?thesis by simp
qed

datatype store_op = SaveOp working_memory | AppendOp "mem_turn list" | TitleOp string | TickOp int

fun store_step :: "turn_codec \<Rightarrow> memory_ref \<Rightarrow> store_op \<Rightarrow> disk \<Rightarrow> disk" where
  "store_step tc r (SaveOp wm) d = fst (SaveWorking r wm d)"
| "store_step tc r (AppendOp turns) d = fst (AppendTurns tc r turns d)"
| "store_step tc r (TitleOp s) d = fst (SetTitle r s d)"
| "store_step tc r (TickOp t) d = d\<lparr>dk_now := t\<rparr>"

definition appended :: "store_op list \<Rightarrow> mem_turn list" where
  "appended ops = concat (map (\<lambda>p. case p of AppendOp ts \<Rightarrow> ts | _ \<Rightarrow> []) ops)"

definition said :: "mem_turn list \<Rightarrow> (llm_role \<times> string) list" where
  "said ts = map (\<lambda>t. (tu_Role t, tu_Text t)) ts"

lemma said_number [simp]: "said (number_turns n now ts) = said ts"
  by (induction ts arbitrary: n) (simp_all add: said_def)

lemma transcript_steps:
  "transcript_is tc r d ts \<Longrightarrow> \<exists>ts'. transcript_is tc r (fold (store_step tc r) ops d) ts' \<and> said ts' = said ts @ said (appended ops)"
proof (induction ops arbitrary: d ts)
  case Nil
  then show ?case by (auto simp: appended_def said_def)
next
  case (Cons p ops)
  have "\<exists>ts1. transcript_is tc r (store_step tc r p d) ts1 \<and> said ts1 = said ts @ said (appended [p])"
  proof (cases p)
    case (SaveOp wm)
    with SaveWorking_records [OF Cons.prems, of wm] show ?thesis by (auto simp: appended_def said_def)
  next
    case (TitleOp s)
    with SetTitle_records [OF Cons.prems, of s] show ?thesis by (auto simp: appended_def said_def)
  next
    case (TickOp t)
    with Cons.prems show ?thesis by (auto simp: appended_def said_def transcript_is_def clean_disk_def)
  next
    case (AppendOp turns)
    show ?thesis
    proof (cases "turns = []")
      case True
      with AppendOp Cons.prems show ?thesis by (auto simp: appended_def said_def AppendTurns_def)
    next
      case False
      from AppendTurns_records [OF Cons.prems False] AppendOp show ?thesis
        by (auto simp: appended_def said_def simp flip: map_append) (metis map_append said_def said_number)
    qed
  qed
  then obtain ts1 where "transcript_is tc r (store_step tc r p d) ts1" "said ts1 = said ts @ said (appended [p])" by blast
  with Cons.IH [of "store_step tc r p d" ts1] show ?case by (auto simp: appended_def said_def)
qed

definition empty_disk :: "int \<Rightarrow> disk" where
  "empty_disk now = \<lparr>dk_files = [], dk_faults = [], dk_now = now\<rparr>"

lemma history_is_complete_and_numbered_aux:
  assumes "codec_ok tc" and "d = fold (store_step tc r) ops (empty_disk now)"
  shows "said (readTurns tc d (threadDir r @ [turnsFile]) 0) = said (appended ops) \<and>
    map tu_Seq (readTurns tc d (threadDir r @ [turnsFile]) 0) = [1..<Suc (length (appended ops))]"
proof -
  have "transcript_is tc r (empty_disk now) []"
    by (simp add: transcript_is_def empty_disk_def clean_disk_def)
  from transcript_steps [OF this, of ops] assms(2) obtain ts where
    t: "transcript_is tc r d ts" "said ts = said (appended ops)" by (auto simp: said_def)
  then have l: "length ts = length (appended ops)" by (metis length_map said_def)
  have "readTurns tc d (threadDir r @ [turnsFile]) 0 = ts"
  proof (cases "map_of (dk_files d) (threadDir r @ [turnsFile])")
    case None
    with t(1) show ?thesis by (simp add: readTurns_def transcript_is_def)
  next
    case (Some f)
    with t(1) parse_turn_lines [OF assms(1), of ts] show ?thesis by (simp add: readTurns_def transcript_is_def)
  qed
  with t l show ?thesis by (simp add: transcript_is_def)
qed

text \<open>C16. After any saves, appends and titles of a conversation on a disk that keeps what is written, reading its transcript gives every appended turn once, in the order of the appends, numbered from one without a gap.\<close>

theorem history_is_complete_and_numbered:
  assumes "codec_ok tc" and "d = fold (store_step tc r) ops (empty_disk now)"
  shows "said (readTurns tc d (threadDir r @ [turnsFile]) 0) = said (appended ops) \<and>
    map tu_Seq (readTurns tc d (threadDir r @ [turnsFile]) 0) = [1..<Suc (length (appended ops))]"
  by (rule history_is_complete_and_numbered_aux [OF assms])

section \<open>Walking the pages\<close>

text \<open>A client that follows the cursor until it is empty.\<close>

fun walk_pages :: "(string \<Rightarrow> 'a list \<times> string) \<Rightarrow> nat \<Rightarrow> string \<Rightarrow> 'a list option" where
  "walk_pages f 0 cursor = None"
| "walk_pages f (Suc n) cursor =
     (case f cursor of (rows, follow) \<Rightarrow> if follow = [] then Some rows else map_option ((@) rows) (walk_pages f n follow))"

definition cursor_ok :: "cursor_codec \<Rightarrow> bool" where
  "cursor_ok cc \<longleftrightarrow> (\<forall>s. cc_dec cc (cc_enc cc s) = Some s) \<and> (\<forall>s. s \<noteq> [] \<longrightarrow> cc_enc cc s \<noteq> [])"

lemma index_after_distinct:
  "distinct (map key rows) \<Longrightarrow> i < length rows \<Longrightarrow> index_after key (key (rows ! i)) rows = Some (Suc i)"
proof (induction rows arbitrary: i)
  case (Cons x xs)
  show ?case
  proof (cases i)
    case (Suc j)
    with Cons.prems have "j < length xs" "key x \<noteq> key (xs ! j)" by auto
    with Cons Suc show ?thesis by simp
  qed simp
qed simp

definition paged :: "cursor_codec \<Rightarrow> ('a \<Rightarrow> string) \<Rightarrow> nat \<Rightarrow> 'a list \<Rightarrow> string \<Rightarrow> 'a list \<times> string" where
  "paged cc key limit rows cursor =
     (if cursor = [] then page_slice cc key limit rows 0
      else (case cc_dec cc cursor of
              None \<Rightarrow> ([], [])
            | Some after \<Rightarrow> (case index_after key after rows of
                  None \<Rightarrow> ([], []) | Some start \<Rightarrow> page_slice cc key limit rows start)))"

lemma walk_from:
  assumes "cursor_ok cc" and "distinct (map key rows)" and "\<forall>x \<in> set rows. key x \<noteq> []" and "0 < limit"
    and "start \<le> length rows" and "length rows < start + n"
    and "\<And>c. c = cursor \<Longrightarrow> paged cc key limit rows c = page_slice cc key limit rows start"
  shows "walk_pages (paged cc key limit rows) n cursor = Some (drop start rows)"
  using assms(5-)
proof (induction n arbitrary: start cursor)
  case (Suc n)
  have pg: "paged cc key limit rows cursor = page_slice cc key limit rows start" by (rule Suc.prems(3)) simp
  show ?case
  proof (cases "start + limit < length rows")
    case False
    then have "page_slice cc key limit rows start = (drop start rows, [])"
      by (auto simp: page_slice_def Let_def min_def)
    then show ?thesis by (simp add: pg)
  next
    case True
    let ?k = "start + limit"
    from True assms(4) have i: "?k - 1 < length rows" by simp
    define follow where "follow = cc_enc cc (key (rows ! (?k - 1)))"
    have ne: "follow \<noteq> []" using assms(1,3) i by (auto simp: cursor_ok_def follow_def)
    have sl: "page_slice cc key limit rows start = (take limit (drop start rows), follow)"
      using True by (simp add: page_slice_def follow_def min_def)
    have "paged cc key limit rows follow = page_slice cc key limit rows ?k"
      using ne assms(1,4) index_after_distinct [OF assms(2) i]
      by (simp add: paged_def follow_def cursor_ok_def)
    then have "walk_pages (paged cc key limit rows) n follow = Some (drop ?k rows)"
      using Suc.prems True assms(4) by (intro Suc.IH) auto
    then show ?thesis
      using ne by (simp add: pg sl) (metis add.commute append_take_drop_id drop_drop)
  qed
qed simp

lemma page_limit_cursor [simp]: "page_limit (p\<lparr>pg_Cursor := c\<rparr>) = page_limit p"
  by (simp add: page_limit_def)

lemma pageTurns_paged: "pageTurns cc turns (p\<lparr>pg_Cursor := c\<rparr>) = paged cc seq_key (page_limit p) turns c"
  by (simp add: pageTurns_def paged_def split: option.split)

lemma page_limit_pos: "0 < page_limit p"
  by (simp add: page_limit_def defaultPageLimit_def)

lemma itoa_inj: "itoa a = itoa b \<Longrightarrow> a = b"
  by (metis option.inject read_digits_itoa)


section \<open>Forgetting a conversation\<close>

lemma map_of_filter_keys: "map_of (filter (\<lambda>(p, f). P p) al) k = (if P k then map_of al k else None)"
  by (induction al) auto

text \<open>
  Deleting a named conversation removes every file of it and no file of another conversation or
  person.
\<close>

lemma delete_files:
  "map_of (dk_files (DeleteThread r d)) p = (if take (length (threadDir r)) p = threadDir r then None else map_of (dk_files d) p)"
  by (simp add: DeleteThread_def removeAll_dir_def map_of_filter_keys)

theorem delete_forgets_exactly_the_conversation:
  assumes "named_ref r" and "named_ref q" and "\<not> same_conversation r q"
  shows "LoadWorking (DeleteThread r d) r = Inr None \<and> ReadThread tc cc (DeleteThread r d) r p = Inr None \<and>
    LoadWorking (DeleteThread r d) q = LoadWorking d q \<and>
    ReadThread tc cc (DeleteThread r d) q p = ReadThread tc cc d q p \<and>
    Memories (DeleteThread r d) q = Memories d q"
proof -
  have ne: "threadDir r \<noteq> threadDir q" using assms by (simp add: threadDir_eq)
  have l: "length (threadDir r) = 4" "length (threadDir q) = 4" using assms by (simp_all add: threadDir_named)
  have keep: "map_of (dk_files (DeleteThread r d)) (threadDir q @ [f]) = map_of (dk_files d) (threadDir q @ [f])" for f
    using ne l by (simp add: delete_files)
  have gone: "map_of (dk_files (DeleteThread r d)) (threadDir r @ [f]) = None" for f
    by (simp add: delete_files)
  have read: "readTurns tc (DeleteThread r d) (threadDir q @ [turnsFile]) 0 = readTurns tc d (threadDir q @ [turnsFile]) 0"
    by (simp add: readTurns_def keep)
  have "take 4 (userFile q) \<noteq> threadDir r"
    using assms by (auto simp: userFile_def path_join_def threadDir_named named_ref_def layout_defs)
  then have user: "map_of (dk_files (DeleteThread r d)) (userFile q) = map_of (dk_files d) (userFile q)"
    using l by (simp add: delete_files)
  show ?thesis
    by (simp add: LoadWorking_def ReadThread_def readJSONFile_def keep gone read Memories_def readUserMemories_def user
        split: option.split sum.split)
qed

text \<open>
  With an empty thread key the directory of the conversation is the directory of all of them:
  clearing it clears every conversation of the agent.
\<close>

lemma empty_key_clears_agent:
  assumes "mr_AgentID r \<noteq> []" and "mr_ThreadKey r = []"
  shows "allThreads (DeleteThread r d) (mr_AgentID r) user = []"
proof -
  let ?dir = "path_join [memoryRootDir, encodeName (mr_AgentID r), threadsDir]"
  have dir: "threadDir r = ?dir" using assms by (simp add: threadDir_def path_join_def)
  have "subdirs ?dir (DeleteThread r d) = []"
    by (auto simp: subdirs_def DeleteThread_def removeAll_dir_def dir map_filter_def filter_empty_conv split: if_splits)
  then show ?thesis by (simp add: allThreads_def Let_def sortThreads_def map_filter_simps)
qed

section \<open>What a failed append leaves behind\<close>

text \<open>
  An append torn in the middle of a line leaves a fragment without a line break. The next
  append succeeds and its first line continues the fragment: the turn it was given is not among
  those read back.
\<close>

lemma parse_lines_append: "parse_lines tc (xs @ ys) = parse_lines tc xs @ parse_lines tc ys"
  by (induction xs) (simp_all add: parse_lines_def map_filter_simps split: option.split)

lemma split_turn_lines:
  assumes "codec_ok tc"
  shows "split_on (CHR 0x0A) (turn_lines tc ts @ s) = map (tc_enc tc) ts @ split_on (CHR 0x0A) s"
  using codec_okD(1) [OF assms]
  by (induction ts) (simp_all add: turn_lines_def newline_def split_on_append)

lemma torn_append_swallows_next_turn:
  assumes tc: "codec_ok tc" and frag: "CHR 0x0A \<notin> set g" "TrimSpace (g @ tc_enc tc x) \<noteq> []"
    and bad: "tc_dec tc (g @ tc_enc tc x) = None"
  shows "parse_lines tc (split_on (CHR 0x0A) (trim_newlines ((turn_lines tc ts @ g) @ turn_lines tc [x]))) = ts"
proof -
  have ne: "tc_enc tc x \<noteq> []" "last (tc_enc tc x) \<noteq> CHR 0x0A"
    using codec_okD [OF tc, of x] by (auto dest: last_in_set)
  let ?A = "turn_lines tc ts @ g @ tc_enc tc x"
  have "(turn_lines tc ts @ g) @ turn_lines tc [x] = ?A @ [CHR 0x0A]"
    by (simp add: turn_lines_def newline_def)
  moreover have "trim_newlines (?A @ [CHR 0x0A]) = ?A"
    using ne trim_newlines_snoc [of ?A] trim_newlines_last [of ?A] by simp
  ultimately have "trim_newlines ((turn_lines tc ts @ g) @ turn_lines tc [x]) = ?A" by (simp only:)
  moreover have "CHR 0x0A \<notin> set (g @ tc_enc tc x)" using frag(1) codec_okD(1) [OF tc] by simp
  then have "split_on (CHR 0x0A) (g @ tc_enc tc x) = [g @ tc_enc tc x]" by (rule split_on_no_sep)
  ultimately show ?thesis
    using bad by (simp add: split_turn_lines [OF tc] parse_lines_append parse_encoded [OF tc])
      (simp add: parse_lines_def map_filter_simps)
qed

text \<open>
  An append whose last write fails has stored its turns and not counted them. The next append
  numbers from the old count, and the reader of a transcript with repeated numbers, a page at a
  time, never reaches its end.
\<close>

lemma uncounted_append_repeats_numbers:
  assumes tc: "codec_ok tc" and f: "dk_files d = []" "dk_faults d = [Fine, Fine, Refused]"
  shows "\<exists>d1 e d2 v. AppendTurns tc r [a, b] d = (d1, Inl e) \<and> AppendTurns tc r [x, y] d1 = (d2, Inr v) \<and>
    map tu_Seq (readTurns tc d2 (threadDir r @ [turnsFile]) 0) = [1, 2, 1, 2]"
proof -
  let ?tp = "threadDir r @ [threadFile]" and ?lp = "threadDir r @ [turnsFile]"
  define n1 where "n1 = number_turns 0 (dk_now d) [a, b]"
  define n2 where "n2 = number_turns 0 (dk_now d) [x, y]"
  have "\<exists>d1 e. AppendTurns tc r [a, b] d = (d1, Inl e) \<and> dk_faults d1 = [] \<and> dk_now d1 = dk_now d \<and>
      (\<exists>t. map_of (dk_files d1) ?tp = Some (ThreadFile t) \<and> ct_TurnCount t = 0) \<and>
      map_of (dk_files d1) ?lp = Some (TurnsFile (turn_lines tc n1))"
    using f by (simp add: AppendTurns_def ensureThread_def readJSONFile_def writeJSONFile_def next_fault_def Let_def
        map_of_update_alist appendFile_def fresh_thread_def n1_def)
  then obtain d1 e t where d1: "AppendTurns tc r [a, b] d = (d1, Inl e)" "dk_faults d1 = []" "dk_now d1 = dk_now d"
    "map_of (dk_files d1) ?tp = Some (ThreadFile t)" "ct_TurnCount t = 0"
    "map_of (dk_files d1) ?lp = Some (TurnsFile (turn_lines tc n1))" by blast
  have "\<exists>d2 v. AppendTurns tc r [x, y] d1 = (d2, Inr v) \<and>
      map_of (dk_files d2) ?lp = Some (TurnsFile (turn_lines tc (n1 @ n2)))"
    using d1 by (simp add: AppendTurns_def ensureThread_def readJSONFile_def writeJSONFile_def next_fault_def Let_def
        map_of_update_alist appendFile_def n2_def turn_lines_append)
  then obtain d2 v where d2: "AppendTurns tc r [x, y] d1 = (d2, Inr v)"
    "map_of (dk_files d2) ?lp = Some (TurnsFile (turn_lines tc (n1 @ n2)))" by blast
  have "readTurns tc d2 ?lp 0 = n1 @ n2" using d2 parse_turn_lines [OF tc] by (simp add: readTurns_def)
  with d1 d2 show ?thesis by (simp add: n1_def n2_def)
qed

lemma repeated_numbers_never_end:
  assumes cc: "cursor_ok cc" and seq: "map tu_Seq ts = [1, 2, 1, 2]"
  shows "walk_pages (\<lambda>c. pageTurns cc ts \<lparr>pg_Cursor = c, pg_Limit = 1\<rparr>) n [] = None"
proof -
  from seq obtain a b x y where ts: "ts = [a, b, x, y]" and q: "tu_Seq a = 1" "tu_Seq b = 2" "tu_Seq x = 1" "tu_Seq y = 2"
    by (auto simp: map_eq_Cons_conv)
  define g where "g c = pageTurns cc ts \<lparr>pg_Cursor = c, pg_Limit = 1\<rparr>" for c
  define c1 where "c1 = cc_enc cc (itoa 1)"
  define c2 where "c2 = cc_enc cc (itoa 2)"
  have ne: "c1 \<noteq> []" "c2 \<noteq> []" using cc by (simp_all add: cursor_ok_def c1_def c2_def)
  have i: "itoa 1 \<noteq> itoa (2 :: nat)" using itoa_inj [of 1 2] by auto
  have g: "g [] = ([a], c1)" "g c1 = ([b], c2)" "g c2 = ([x], c1)"
    using cc ne i q by (simp_all add: g_def pageTurns_def ts page_limit_def page_slice_def seq_key_def cursor_ok_def c1_def c2_def)
  have w: "walk_pages g n c1 = None \<and> walk_pages g n c2 = None" for n
    by (induction n) (simp_all add: g ne)
  have "walk_pages g n [] = None" by (cases n) (simp_all add: g ne w)
  then show ?thesis by (simp add: g_def [abs_def])
qed

section \<open>The two stores behave alike\<close>

text \<open>C18. Of two writers that hold the same version of a conversation's working memory the second one is refused with a version conflict, and what the first one stored stays.\<close>

theorem second_writer_is_refused:
  assumes "named_ref r" and "SaveWorking r a d = (d1, Inr v)" and "wm_Version b = wm_Version a"
  shows "snd (SaveWorking r b d1) = Inl MemVersionConflict \<and> LoadWorking (fst (SaveWorking r b d1)) r = LoadWorking d1 r \<and>
    (\<exists>w. LoadWorking d1 r = Inr (Some w) \<and> wm_Payload w = wm_Payload a \<and> wm_Version w = v)"
  using disk.no_lost_update [OF assms] disk.saved [OF assms(1,2)] by auto

definition empty_memory :: "int \<Rightarrow> mem_only" where
  "empty_memory now = \<lparr>mo_threads = [], mo_users = [], mo_now = now\<rparr>"

lemma empty_represents:
  "disk.represents (empty_disk now) Map.empty" "memory.represents (empty_memory now') Map.empty"
  by (simp_all add: disk.represents_def memory.represents_def clean_disk_def empty_disk_def empty_memory_def
      LoadWorking_def readJSONFile_def mem_loadWorking_def)

text \<open>C19. The same saves of working memory get the same answers from the store on disk and from the one in memory, and both then load the same content for every conversation.\<close>

theorem both_stores_answer_alike:
  assumes "\<forall>(r, wm) \<in> set ops. named_ref r" and "named_ref q"
  shows "snd (save_all SaveWorking ops (empty_disk now)) = snd (save_all mem_saveWorking ops (empty_memory now')) \<and>
    (\<exists>old old'. LoadWorking (fst (save_all SaveWorking ops (empty_disk now))) q = Inr old \<and>
       mem_loadWorking (fst (save_all mem_saveWorking ops (empty_memory now'))) q = Inr old' \<and>
       map_option content old = map_option content old')"
proof -
  note d = disk.save_all_refines [OF empty_represents(1) assms(1)]
  note m = memory.save_all_refines [OF empty_represents(2) assms(1)]
  from d assms(2) obtain old where "LoadWorking (fst (save_all SaveWorking ops (empty_disk now))) q = Inr old"
    "map_option content old = fst (save_all spec_save ops Map.empty) (conv_of q)" by (auto simp: disk.represents_def)
  moreover from m assms(2) obtain old' where "mem_loadWorking (fst (save_all mem_saveWorking ops (empty_memory now'))) q = Inr old'"
    "map_option content old' = fst (save_all spec_save ops Map.empty) (conv_of q)" by (auto simp: memory.represents_def)
  ultimately show ?thesis using d m by metis
qed

section \<open>Concrete instances\<close>

text \<open>
  A codec of turns: the fields between bars, texts percent-escaped, in braces; and the identity
  on cursors.
\<close>

definition sample_role :: "llm_role \<Rightarrow> string" where
  "sample_role r = (case r of LLMRoleUser \<Rightarrow> ''u'' | LLMRoleAssistant \<Rightarrow> ''a'' | LLMRoleTool \<Rightarrow> ''t'')"

definition sample_fields :: "mem_turn \<Rightarrow> string list" where
  "sample_fields t =
     [itoa (tu_Seq t), sample_role (tu_Role t), encodeName (tu_Text t), itoa (tu_Tokens t), encodeName (tu_Attrs t),
      (if tu_CreatedAt t < 0 then ''n'' else ''p''), itoa (nat \<bar>tu_CreatedAt t\<bar>)]"

definition sample_enc :: "mem_turn \<Rightarrow> string" where
  "sample_enc t = CHR ''{'' # join_with [CHR 0x7C] (sample_fields t) @ [CHR ''}'']"

definition sample_number :: "string \<Rightarrow> nat" where
  "sample_number s = (case read_digits 0 s of None \<Rightarrow> 0 | Some n \<Rightarrow> n)"

definition sample_dec :: "string \<Rightarrow> mem_turn option" where
  "sample_dec s =
     (case split_on (CHR 0x7C) (butlast (tl s)) of
        [a, b, c, d, e, f, g] \<Rightarrow>
          if hd s \<noteq> CHR ''{'' then None
          else Some \<lparr>tu_Seq = sample_number a,
            tu_Role = (if b = ''u'' then LLMRoleUser else if b = ''a'' then LLMRoleAssistant else LLMRoleTool),
            tu_Text = decodeName c, tu_Tokens = sample_number d, tu_Attrs = decodeName e,
            tu_CreatedAt = (if f = ''n'' then - int (sample_number g) else int (sample_number g))\<rparr>
      | _ \<Rightarrow> None)"

definition sample_codec :: turn_codec where "sample_codec = \<lparr>tc_enc = sample_enc, tc_dec = sample_dec\<rparr>"
definition sample_cursor :: cursor_codec where "sample_cursor = \<lparr>cc_enc = (\<lambda>s. s), cc_dec = Some\<rparr>"

lemma upper_hex_plain: "d < 16 \<Longrightarrow> isPlainNameByte (upper_hex d)"
  by (auto simp: upper_hex_def isPlainNameByte_def Let_def)

lemma encodeName_chars: "c \<in> set (encodeName s) \<Longrightarrow> isPlainNameByte c \<or> c = CHR ''%''"
proof (induction s)
  case (Cons x xs)
  have "(of_char x :: nat) < 256" by (metis mod_less_divisor of_char_mod_256 zero_less_numeral)
  then have "isPlainNameByte (upper_hex ((of_char x :: nat) div 16))" "isPlainNameByte (upper_hex ((of_char x :: nat) mod 16))"
    by (simp_all add: upper_hex_plain less_mult_imp_div_less)
  with Cons show ?case by (auto simp: Let_def split: if_splits)
qed simp

lemma encodeName_clean: "CHR 0x7C \<notin> set (encodeName s)" "CHR 0x0A \<notin> set (encodeName s)"
  by (auto dest!: encodeName_chars simp: isPlainNameByte_def)

lemma sample_fields_clean: "x \<in> set (sample_fields t) \<Longrightarrow> CHR 0x7C \<notin> set x \<and> CHR 0x0A \<notin> set x"
  by (auto simp: sample_fields_def encodeName_clean itoa_no_char sample_role_def split: llm_role.splits if_splits)

lemma join_chars: "c \<in> set (join_with sep xs) \<Longrightarrow> c \<in> set sep \<or> (\<exists>x \<in> set xs. c \<in> set x)"
  by (induction sep xs rule: join_with.induct) auto

lemma TrimSpace_braces: "TrimSpace (CHR ''{'' # s @ [CHR ''}'']) \<noteq> []"
proof -
  have "List.find (has_prefix (CHR ''{'' # s @ [CHR ''}''])) space_runes = None"
    by (simp add: space_runes_def has_prefix_def)
  then have l: "trim_left (CHR ''{'' # s @ [CHR ''}'']) = CHR ''{'' # s @ [CHR ''}'']"
    by (subst trim_left.simps) simp
  have "List.find (has_suffix (CHR ''{'' # s @ [CHR ''}''])) space_runes = None"
    unfolding find_None_iff
  proof
    assume "\<exists>x. x \<in> set space_runes \<and> has_suffix (CHR ''{'' # s @ [CHR ''}'']) x"
    then obtain x where x: "x \<in> set space_runes" "has_suffix (CHR ''{'' # s @ [CHR ''}'']) x" by blast
    from x(1) have "x \<noteq> [] \<and> last x \<noteq> CHR ''}''" by (auto simp: space_runes_def)
    moreover from x(2) obtain z where "CHR ''{'' # s @ [CHR ''}''] = z @ x"
      unfolding has_suffix_def by (metis append_take_drop_id)
    ultimately show False by (metis append_Cons last_append last_snoc)
  qed
  then have "trim_right (CHR ''{'' # s @ [CHR ''}'']) = CHR ''{'' # s @ [CHR ''}'']"
    by (subst trim_right.simps) simp
  with l show ?thesis by (simp add: TrimSpace_def)
qed

lemma sample_number_itoa [simp]: "sample_number (itoa n) = n"
  by (simp add: sample_number_def read_digits_itoa)

lemma sample_decodes: "sample_dec (sample_enc t) = Some t"
proof -
  have "split_on (CHR 0x7C) (join_with [CHR 0x7C] (sample_fields t)) = sample_fields t"
    by (rule split_on_join) (use sample_fields_clean in blast, simp add: sample_fields_def)
  then show ?thesis
    by (cases t) (simp add: sample_dec_def sample_enc_def butlast_append sample_fields_def decode_encodeName
        sample_role_def split: llm_role.split)
qed

lemma sample_codec_ok: "codec_ok sample_codec"
proof -
  have "CHR 0x0A \<notin> set (sample_enc t)" for t
    by (auto simp: sample_enc_def dest!: join_chars dest: sample_fields_clean)
  then show ?thesis
    by (auto simp: codec_ok_def sample_codec_def sample_decodes) (simp add: sample_enc_def TrimSpace_braces)
qed

lemma sample_cursor_ok: "cursor_ok sample_cursor"
  by (simp add: cursor_ok_def sample_cursor_def)

definition sample_ref :: memory_ref where
  "sample_ref = \<lparr>mr_AgentID = ''support'', mr_ThreadKey = ''t-1'', mr_UserID = ''ana''\<rparr>"

definition sample_wm :: working_memory where
  "sample_wm = \<lparr>wm_Version = 0, wm_Iteration = 1, wm_Tokens = 20, wm_Payload = ''[]'', wm_UpdatedAt = 0\<rparr>"

definition sample_turn :: "string \<Rightarrow> mem_turn" where
  "sample_turn s = \<lparr>tu_Seq = 0, tu_Role = LLMRoleUser, tu_Text = s, tu_Tokens = 0, tu_Attrs = [], tu_CreatedAt = 0\<rparr>"

definition sample_ops :: "store_op list" where
  "sample_ops = [AppendOp [sample_turn ''hi'', sample_turn ''hello''], TitleOp ''a chat'', TickOp 9, AppendOp [sample_turn ''bye'']]"

lemma named_sample: "named_ref sample_ref"
  by (simp add: named_ref_def sample_ref_def)

theorem history_witness:
  "map tu_Seq (readTurns sample_codec (fold (store_step sample_codec sample_ref) sample_ops (empty_disk 3)) (threadDir sample_ref @ [turnsFile]) 0) = [1, 2, 3]"
  using history_is_complete_and_numbered [OF sample_codec_ok refl, of sample_ref sample_ops 3]
  by (simp add: sample_ops_def appended_def upt_rec)


theorem delete_witness:
  "LoadWorking (DeleteThread sample_ref (fst (SaveWorking sample_ref sample_wm (empty_disk 3)))) sample_ref = Inr None"
  using delete_forgets_exactly_the_conversation [OF named_sample, of "sample_ref\<lparr>mr_ThreadKey := ''t-2''\<rparr>"]
  by (simp add: named_ref_def sample_ref_def same_conversation_def)

theorem second_writer_witness:
  "snd (SaveWorking sample_ref sample_wm (fst (SaveWorking sample_ref sample_wm (empty_disk 3)))) = Inl MemVersionConflict"
proof -
  have "SaveWorking sample_ref sample_wm (empty_disk 3) = (fst (SaveWorking sample_ref sample_wm (empty_disk 3)), Inr 1)"
    by code_simp
  from second_writer_is_refused [OF named_sample this refl] show ?thesis by simp
qed

theorem both_stores_witness:
  "snd (save_all mem_saveWorking [(sample_ref, sample_wm), (sample_ref, sample_wm)] (empty_memory 5)) = [Inr 1, Inl MemVersionConflict]"
proof -
  have "snd (save_all SaveWorking [(sample_ref, sample_wm), (sample_ref, sample_wm)] (empty_disk 3)) = [Inr 1, Inl MemVersionConflict]"
    by code_simp
  with both_stores_answer_alike [of "[(sample_ref, sample_wm), (sample_ref, sample_wm)]" sample_ref 3 5] named_sample
  show ?thesis by simp
qed

end
