(* ===== verification/Octo_Agent_Session.thy ===== *)
theory Octo_Agent_Session
  imports Octo_Agent_Store Octo_Engine
begin

text \<open>
  One run's view of the agent's memory (\<^verbatim>\<open>blocks/ai/agentstore.go\<close>, and the stored
  envelope of \<^verbatim>\<open>agentmemory.go\<close>), with the observer path it reports on
  (\<^verbatim>\<open>blocks/internal/observe/events.go\<close>). The memory service and the key-value store
  are the operations of \<open>memory_ops\<close>, acting on the world; the JSON forms are parameters.
\<close>

section \<open>The observer path\<close>

record 'w emitter =
  em_flow :: "'w processor"
  em_kinds :: "string list option"

definition Wants :: "'w emitter option \<Rightarrow> string \<Rightarrow> bool" where
  "Wants e kind = (case e of None \<Rightarrow> False | Some m \<Rightarrow> (case em_kinds m of None \<Rightarrow> True | Some ks \<Rightarrow> kind \<in> set ks))"

definition event_body :: "string \<Rightarrow> (string \<times> gval) list \<Rightarrow> gval" where
  "event_body kind flds = GMap (fold (\<lambda>(k, v). AList.update k v) flds [(''type'', GStr kind)])"

definition event_message ::
  "message \<Rightarrow> string \<Rightarrow> (string \<times> gval) list \<Rightarrow> 'a world_scheme \<Rightarrow> 'a world_scheme \<times> (err, addr) res" where
  "event_message parent kind flds w =
     (case NewMessage (CorrelationID parent) w of
        (w1, Inl e) \<Rightarrow> (w1, Inl e)
      | (w1, Inr a) \<Rightarrow>
          (upd w1 a (\<lambda>m. SetBody (event_body kind flds) (m\<lparr>Variables := Variables parent\<rparr>)), Inr a))"

definition Send ::
  "('a world_scheme) emitter option \<Rightarrow> ctx \<Rightarrow> message \<Rightarrow> string \<Rightarrow> (string \<times> gval) list \<Rightarrow> 'a world_scheme \<Rightarrow>
     'a world_scheme \<times> bool" where
  "Send e c parent kind flds w =
     (case e of
        None \<Rightarrow> (w, False)
      | Some m \<Rightarrow>
          if \<not> Wants e kind then (w, False)
          else (case event_message parent kind flds w of
                  (w1, Inl x) \<Rightarrow> (w1, False)
                | (w1, Inr a) \<Rightarrow>
                    (case em_flow m c w1 a of
                       (w2, Out b) \<Rightarrow> (w2, StopRequested (heap w2 b))
                     | (w2, _) \<Rightarrow> (w2, False))))"

definition event_Kinds :: "string \<Rightarrow> string list \<Rightarrow> string list \<Rightarrow> (err, string list option) res" where
  "event_Kinds label known emit =
     (if emit = [] then Inr None
      else (case find (\<lambda>k. k \<notin> set known) emit of
              Some k \<Rightarrow> Inl (Err (label @ '' emit '' @ quote k @ '' is not an event type''))
            | None \<Rightarrow> Inr (Some emit)))"

text \<open>A report: the event stamped with its one-based iteration.\<close>

definition report_to ::
  "('a world_scheme) emitter option \<Rightarrow> ctx \<Rightarrow> message \<Rightarrow> nat \<Rightarrow> string \<Rightarrow> (string \<times> gval) list \<Rightarrow> 'a world_scheme \<Rightarrow>
     'a world_scheme \<times> bool" where
  "report_to e c m iter kind flds w =
     (if \<not> Wants e kind then (w, False)
      else Send e c m kind (AList.update ''iteration'' (GInt (int iter + 1)) flds) w)"

section \<open>Clipping text\<close>

definition RuneStart :: "char \<Rightarrow> bool" where
  "RuneStart c \<longleftrightarrow> (let n = of_char c :: nat in n < 128 \<or> 192 \<le> n)"

fun rune_cut :: "string \<Rightarrow> nat \<Rightarrow> nat" where
  "rune_cut s 0 = 0"
| "rune_cut s (Suc n) = (if RuneStart (s ! Suc n) then Suc n else rune_cut s n)"

definition ellipsis :: string where "ellipsis = [CHR 0xE2, CHR 0x80, CHR 0xA6]"

definition clipRunes :: "string \<Rightarrow> int \<Rightarrow> string" where
  "clipRunes s n =
     (if n \<le> 0 then []
      else if int (length s) \<le> n then s
      else TrimSpace (take (rune_cut s (nat n)) s) @ ellipsis)"

definition titleMaxLen :: nat where "titleMaxLen = 80"

definition titleFor :: "string \<Rightarrow> string" where
  "titleFor opening =
     (let title = fst (span_until (CHR 0x0A) (TrimSpace opening)) in
      if titleMaxLen < length title then TrimSpace (take (rune_cut title titleMaxLen) title) else title)"

definition nameFromBody :: "gval \<Rightarrow> string" where
  "nameFromBody body =
     (case body of
        GStr s \<Rightarrow> s
      | GMap kvs \<Rightarrow>
          (case map_of kvs ''title'' of
             Some (GStr s) \<Rightarrow> s
           | _ \<Rightarrow> (case map_of kvs ''name'' of Some (GStr s) \<Rightarrow> s | _ \<Rightarrow> []))
      | _ \<Rightarrow> [])"

section \<open>The stored envelope\<close>

record memory_envelope =
  env_Version :: nat
  env_Tokens :: int
  env_Messages :: "llm_message list"

definition memoryVersion :: nat where "memoryVersion = 1"

definition no_envelope :: memory_envelope where
  "no_envelope = \<lparr>env_Version = 0, env_Tokens = 0, env_Messages = []\<rparr>"

record envelope_codec =
  ec_marshal :: "memory_envelope \<Rightarrow> string"
  ec_envelope :: "string \<Rightarrow> memory_envelope option"
  ec_messages :: "string \<Rightarrow> llm_message list option"

definition decodeMemory :: "envelope_codec \<Rightarrow> string \<Rightarrow> (err, memory_envelope) res" where
  "decodeMemory ec raw =
     (let trimmed = dropWhile (\<lambda>c. c \<in> {CHR '' '', CHR 0x09, CHR 0x0D, CHR 0x0A}) raw in
      if trimmed \<noteq> [] \<and> hd trimmed = CHR ''[''
      then (case ec_messages ec raw of
              None \<Rightarrow> Inl (Wrap ''decode memory'' (Err ''invalid JSON''))
            | Some ms \<Rightarrow> Inr \<lparr>env_Version = memoryVersion, env_Tokens = 0, env_Messages = ms\<rparr>)
      else (case ec_envelope ec raw of
              None \<Rightarrow> Inl (Wrap ''decode memory'' (Err ''invalid JSON''))
            | Some env \<Rightarrow> Inr env))"

definition memoryKey :: "string \<Rightarrow> string" where
  "memoryKey thread = ''agent-memory/'' @ thread"

definition memoryWriteAttempts :: nat where "memoryWriteAttempts = 5"

datatype kv_answer = KvStored | KvConflict | KvBroken err

record 'w memory_ops =
  op_enabled :: bool
  op_load :: "memory_ref \<Rightarrow> 'w \<Rightarrow> 'w \<times> (mem_error, working_memory option) res"
  op_save :: "memory_ref \<Rightarrow> working_memory \<Rightarrow> 'w \<Rightarrow> 'w \<times> (mem_error, nat) res"
  op_append :: "memory_ref \<Rightarrow> mem_turn list \<Rightarrow> 'w \<Rightarrow> 'w \<times> (mem_error, nat) res"
  op_title :: "memory_ref \<Rightarrow> string \<Rightarrow> 'w \<Rightarrow> 'w \<times> mem_error option"
  op_memories :: "memory_ref \<Rightarrow> 'w \<Rightarrow> 'w \<times> (mem_error, (string \<times> user_memory) list) res"
  op_put :: "memory_ref \<Rightarrow> string \<Rightarrow> string \<Rightarrow> nat \<Rightarrow> 'w \<Rightarrow> 'w \<times> (mem_error, nat) res"
  op_forget :: "memory_ref \<Rightarrow> string \<Rightarrow> 'w \<Rightarrow> 'w \<times> mem_error option"
  op_search :: "memory_ref \<Rightarrow> string \<Rightarrow> 'w \<Rightarrow> 'w \<times> (mem_error, (bool \<times> string \<times> string) list) res"
  kv_get :: "string \<Rightarrow> 'w \<Rightarrow> 'w \<times> (err, (string \<times> nat) option) res"
  kv_set :: "string \<Rightarrow> string \<Rightarrow> nat \<Rightarrow> 'w \<Rightarrow> 'w \<times> kv_answer"
  kv_remove :: "string \<Rightarrow> 'w \<Rightarrow> 'w \<times> err option"
  op_clock :: "'w \<Rightarrow> int"

definition loadMemory :: "'w memory_ops \<Rightarrow> envelope_codec \<Rightarrow> string \<Rightarrow> 'w \<Rightarrow> 'w \<times> (err, memory_envelope) res" where
  "loadMemory mo ec thread w =
     (case kv_get mo (memoryKey thread) w of
        (w1, Inl e) \<Rightarrow> (w1, Inl e)
      | (w1, Inr None) \<Rightarrow> (w1, Inr no_envelope)
      | (w1, Inr (Some (raw, v))) \<Rightarrow> (w1, decodeMemory ec raw))"

fun save_attempts :: "'w memory_ops \<Rightarrow> string \<Rightarrow> string \<Rightarrow> nat \<Rightarrow> 'w \<Rightarrow> 'w \<times> err option" where
  "save_attempts mo thread encoded 0 w =
     (w, Some (Err (''save memory '' @ quote thread @ '': kv: object version conflict after '' @ itoa memoryWriteAttempts @ '' attempts'')))"
| "save_attempts mo thread encoded (Suc n) w =
     (case kv_get mo (memoryKey thread) w of
        (w1, Inl e) \<Rightarrow> (w1, Some e)
      | (w1, Inr entry) \<Rightarrow>
          (case kv_set mo (memoryKey thread) encoded (case entry of None \<Rightarrow> 0 | Some (raw, v) \<Rightarrow> v) w1 of
             (w2, KvStored) \<Rightarrow> (w2, None)
           | (w2, KvBroken e) \<Rightarrow> (w2, Some e)
           | (w2, KvConflict) \<Rightarrow> save_attempts mo thread encoded n w2))"

definition saveMemory :: "'w memory_ops \<Rightarrow> envelope_codec \<Rightarrow> string \<Rightarrow> memory_envelope \<Rightarrow> 'w \<Rightarrow> 'w \<times> err option" where
  "saveMemory mo ec thread env w =
     save_attempts mo thread (ec_marshal ec (env\<lparr>env_Version := memoryVersion\<rparr>)) memoryWriteAttempts w"

section \<open>The session\<close>

record session =
  se_thread :: string
  se_ref :: memory_ref
  se_store :: bool
  se_version :: nat
  se_legacy :: bool
  se_opening :: string
  se_recorded :: bool
  se_fresh :: bool
  se_blind :: bool
  se_lastAt :: int
  se_lastSize :: nat
  se_iteration :: nat

record 'w memory_cfg =
  cf_ops :: "'w memory_ops"
  cf_codec :: envelope_codec
  cf_agentID :: string
  cf_history :: bool
  cf_userMemory :: bool
  cf_namer :: "'w processor option"
  cf_emitter :: "'w emitter option"

definition no_ref :: memory_ref where "no_ref = \<lparr>mr_AgentID = [], mr_ThreadKey = [], mr_UserID = []\<rparr>"

definition blank_session :: "string \<Rightarrow> session" where
  "blank_session thread =
     \<lparr>se_thread = thread, se_ref = no_ref, se_store = False, se_version = 0, se_legacy = False, se_opening = [],
      se_recorded = False, se_fresh = False, se_blind = False, se_lastAt = 0, se_lastSize = 0, se_iteration = 0\<rparr>"

text \<open>\<open>user\<close> and \<open>forward\<close> are the evaluated \<^verbatim>\<open>userId\<close> and \<^verbatim>\<open>forwardContext\<close> expressions.\<close>

definition newMemorySession ::
  "'w memory_cfg \<Rightarrow> string \<Rightarrow> (err, string) res \<Rightarrow> err option \<Rightarrow> (err, session) res" where
  "newMemorySession cf thread user forward =
     (if cf_agentID cf = [] \<or> thread = [] \<or> \<not> op_enabled (cf_ops cf) then Inr (blank_session thread)
      else (case forward of
              Some e \<Rightarrow> Inl (Wrap ''ai-agent forwardContext'' e)
            | None \<Rightarrow> Inr ((blank_session thread)\<lparr>se_store := True,
                se_ref := \<lparr>mr_AgentID = cf_agentID cf, mr_ThreadKey = thread,
                           mr_UserID = (case user of Inl e \<Rightarrow> [] | Inr u \<Rightarrow> u)\<rparr>\<rparr>)))"

definition recording :: "'w memory_cfg \<Rightarrow> session \<Rightarrow> bool" where
  "recording cf s \<longleftrightarrow> se_store s \<and> cf_history cf"

definition loadHistory :: "'w memory_cfg \<Rightarrow> string \<Rightarrow> 'w \<Rightarrow> 'w \<times> (err, memory_envelope) res" where
  "loadHistory cf thread w =
     (if thread = [] then (w, Inr no_envelope)
      else (case loadMemory (cf_ops cf) (cf_codec cf) thread w of
              (w1, Inl e) \<Rightarrow> (w1, Inl (Wrap ''ai-agent load memory'' e))
            | (w1, Inr env) \<Rightarrow> (w1, Inr env)))"

definition loadWorking :: "'w memory_cfg \<Rightarrow> session \<Rightarrow> 'w \<Rightarrow> 'w \<times> session \<times> (err, memory_envelope) res" where
  "loadWorking cf s w =
     (if \<not> se_store s then (case loadHistory cf (se_thread s) w of (w1, r) \<Rightarrow> (w1, s, r))
      else (case op_load (cf_ops cf) (se_ref s) w of
              (w1, Inl e) \<Rightarrow> (w1, s\<lparr>se_blind := True\<rparr>, Inr no_envelope)
            | (w1, Inr (Some wm)) \<Rightarrow>
                (w1, s\<lparr>se_version := wm_Version wm, se_fresh := False\<rparr>,
                 (case decodeMemory (cf_codec cf) (wm_Payload wm) of Inl e \<Rightarrow> Inr no_envelope | Inr env \<Rightarrow> Inr env))
            | (w1, Inr None) \<Rightarrow>
                (case loadHistory cf (se_thread s) w1 of
                   (w2, Inl e) \<Rightarrow> (w2, s, Inl e)
                 | (w2, Inr env) \<Rightarrow>
                     (w2, s\<lparr>se_legacy := env_Messages env \<noteq> [], se_fresh := (env_Messages env = [])\<rparr>, Inr env))))"

definition dropLegacy :: "'w memory_cfg \<Rightarrow> session \<Rightarrow> 'w \<Rightarrow> 'w \<times> session" where
  "dropLegacy cf s w =
     (if \<not> se_legacy s then (w, s)
      else (fst (kv_remove (cf_ops cf) (memoryKey (se_thread s)) w), s\<lparr>se_legacy := False\<rparr>))"

definition writeWorking ::
  "'w memory_cfg \<Rightarrow> memory_envelope \<Rightarrow> nat \<Rightarrow> session \<Rightarrow> 'w \<Rightarrow> 'w \<times> session \<times> mem_error option" where
  "writeWorking cf env iter s w =
     (if se_blind s then (w, s, None)
      else let mo = cf_ops cf;
               wm = \<lparr>wm_Version = se_version s, wm_Iteration = iter, wm_Tokens = env_Tokens env,
                     wm_Payload = ec_marshal (cf_codec cf) (env\<lparr>env_Version := memoryVersion\<rparr>), wm_UpdatedAt = 0\<rparr> in
        (case (case op_save mo (se_ref s) wm w of
                 (w1, Inl MemVersionConflict) \<Rightarrow>
                   (case op_load mo (se_ref s) w1 of
                      (w2, Inl e) \<Rightarrow> (w2, Inl e)
                    | (w2, Inr found) \<Rightarrow>
                        op_save mo (se_ref s) (wm\<lparr>wm_Version := version_of found\<rparr>) w2)
               | r \<Rightarrow> r) of
           (w3, Inl e) \<Rightarrow> (w3, s, Some e)
         | (w3, Inr v) \<Rightarrow> (case dropLegacy cf (s\<lparr>se_version := v\<rparr>) w3 of (w4, s') \<Rightarrow> (w4, s', None))))"

definition checkpointInterval :: int where "checkpointInterval = 2000000000"
definition checkpointBytes :: nat where "checkpointBytes = 65536"

definition checkpoint_due :: "int \<Rightarrow> nat \<Rightarrow> session \<Rightarrow> bool" where
  "checkpoint_due t sz s \<longleftrightarrow>
     checkpointInterval \<le> t - se_lastAt s \<or> int checkpointBytes \<le> (int sz - int (se_lastSize s)) * int charsPerToken"

definition offerCheckpoint ::
  "'w memory_cfg \<Rightarrow> llm_message list \<Rightarrow> int \<Rightarrow> nat \<Rightarrow> session \<Rightarrow> 'w \<Rightarrow> 'w \<times> session \<times> memory_envelope option" where
  "offerCheckpoint cf ms tokens iter s w =
     (if \<not> se_store s \<or> \<not> checkpoint_due (op_clock (cf_ops cf) w) (estimateTokens ms) s then (w, s, None)
      else let s1 = s\<lparr>se_lastAt := op_clock (cf_ops cf) w, se_lastSize := estimateTokens ms, se_iteration := iter\<rparr>;
               env = \<lparr>env_Version = 0, env_Tokens = tokens, env_Messages = ms\<rparr> in
        (case writeWorking cf env iter s1 w of (w', s', e) \<Rightarrow> (w', s', Some env)))"

section \<open>The durable record\<close>

definition askForName ::
  "('a world_scheme) memory_cfg \<Rightarrow> ('a world_scheme) processor \<Rightarrow> ctx \<Rightarrow> message \<Rightarrow> string \<Rightarrow> session \<Rightarrow> 'a world_scheme \<Rightarrow>
     'a world_scheme \<times> (err, string) res" where
  "askForName cf namer c m answered s w =
     (case NewMessage (CorrelationID m) w of
        (w1, Inl e) \<Rightarrow> (w1, Inl e)
      | (w1, Inr a) \<Rightarrow>
          let body = GMap [(''threadKey'', GStr (se_thread s)), (''agentId'', GStr (mr_AgentID (se_ref s))),
                (''userId'', GStr (mr_UserID (se_ref s))), (''question'', GStr (se_opening s)), (''answer'', GStr answered)];
              w2 = upd w1 a (\<lambda>x. SetBody body (x\<lparr>Variables := Variables m\<rparr>)) in
          (case namer c w2 a of
             (w3, Failed e) \<Rightarrow> (w3, Inl e)
           | (w3, Dropped) \<Rightarrow> (w3, Inr [])
           | (w3, Out b) \<Rightarrow> (w3, Inr (clipRunes (TrimSpace (nameFromBody (Body (heap w3 b)))) (int titleMaxLen)))))"

definition nameThread ::
  "('a world_scheme) memory_cfg \<Rightarrow> ctx \<Rightarrow> message \<Rightarrow> string \<Rightarrow> nat \<Rightarrow> session \<Rightarrow> 'a world_scheme \<Rightarrow> 'a world_scheme" where
  "nameThread cf c m answered iterations s w =
     (case (case cf_namer cf of
              None \<Rightarrow> (w, titleFor (se_opening s))
            | Some namer \<Rightarrow> (case askForName cf namer c m answered s w of
                  (w1, Inl e) \<Rightarrow> (w1, titleFor (se_opening s)) | (w1, Inr t) \<Rightarrow> (w1, t))) of
        (w1, title) \<Rightarrow>
          if title = [] then w1
          else (case op_title (cf_ops cf) (se_ref s) title w1 of
                  (w2, Some e) \<Rightarrow> w2
                | (w2, None) \<Rightarrow>
                    fst (report_to (cf_emitter cf) c m (iterations - 1) ''thread_title''
                      [(''title'', GStr title), (''thread'', GStr (se_thread s))] w2)))"

definition turn_entry :: "llm_role \<Rightarrow> string \<Rightarrow> string \<Rightarrow> mem_turn" where
  "turn_entry role s attrs =
     \<lparr>tu_Seq = 0, tu_Role = role, tu_Text = s, tu_Tokens = 0, tu_Attrs = attrs, tu_CreatedAt = 0\<rparr>"

text \<open>\<open>attrs\<close> is the JSON of the iterations, whether the question was answered, and the reason of a stop.\<close>

definition turn_attrs :: "nat \<Rightarrow> bool \<Rightarrow> string \<Rightarrow> string" where
  "turn_attrs iterations unanswered stopReason =
     (let flds = (if iterations = 0 then [] else [quote ''iterations'' @ '':'' @ itoa iterations]) @
                 (if unanswered then [quote ''unanswered'' @ '':true''] else []) @
                 (if stopReason = [] then [] else [quote ''stopReason'' @ '':'' @ quote stopReason]) in
      ''{'' @ join_with '','' flds @ ''}'')"

definition recordTurn ::
  "('a world_scheme) memory_cfg \<Rightarrow> ctx \<Rightarrow> message \<Rightarrow> string \<Rightarrow> nat \<Rightarrow> string \<Rightarrow> session \<Rightarrow> 'a world_scheme \<Rightarrow>
     'a world_scheme \<times> session" where
  "recordTurn cf c m answered iterations stopReason s w =
     (if \<not> recording cf s \<or> se_recorded s then (w, s)
      else let s1 = s\<lparr>se_recorded := True, se_iteration := iterations\<rparr>;
               attrs = turn_attrs iterations (answered = []) stopReason;
               turns = (if se_opening s \<noteq> [] then [turn_entry LLMRoleUser (se_opening s) attrs] else []) @
                       (if answered \<noteq> [] then [turn_entry LLMRoleAssistant answered attrs] else []) in
        if turns = [] then (w, s1)
        else let w1 = (if se_fresh s then nameThread cf c m answered iterations s1 w else w) in
          (fst (op_append (cf_ops cf) (se_ref s) turns w1), s1\<lparr>se_fresh := False\<rparr>))"

section \<open>What the agent remembers of a person\<close>

definition preambleMaxMemories :: nat where "preambleMaxMemories = 50"
definition preambleMaxChars :: nat where "preambleMaxChars = 8192"

definition preamble_head :: string where
  "preamble_head = ''What you have previously chosen to remember about this person:'' @ newline"

fun preamble_entries :: "nat \<Rightarrow> string \<Rightarrow> (string \<times> user_memory) list \<Rightarrow> string \<times> nat" where
  "preamble_entries shown b [] = (b, shown)"
| "preamble_entries shown b ((key, m) # ms) =
     (if preambleMaxMemories \<le> shown \<or> preambleMaxChars \<le> length b then (b, shown)
      else let b1 = b @ ''- '' @ key @ '': '' in
        preamble_entries (Suc shown) (b1 @ clipRunes (um_Value m) (int preambleMaxChars - int (length b1)) @ newline) ms)"

definition render_preamble :: "(string \<times> user_memory) list \<Rightarrow> string" where
  "render_preamble ms =
     (case preamble_entries 0 preamble_head ms of (b, shown) \<Rightarrow>
        b @ (if shown < length ms
             then newline @ ''('' @ itoa (length ms - shown) @ '' more are stored; use search_memory to look them up.)'' @ newline
             else []) @
        newline @ ''Use it when it is relevant. Do not repeat it back unprompted.'')"

definition memoryPreamble :: "'w memory_cfg \<Rightarrow> session \<Rightarrow> 'w \<Rightarrow> 'w \<times> llm_message list" where
  "memoryPreamble cf s w =
     (if \<not> se_store s \<or> \<not> cf_userMemory cf \<or> mr_UserID (se_ref s) = [] then (w, [])
      else (case op_memories (cf_ops cf) (se_ref s) w of
              (w1, Inl e) \<Rightarrow> (w1, [])
            | (w1, Inr []) \<Rightarrow> (w1, [])
            | (w1, Inr (m # ms)) \<Rightarrow> (w1, [user_turn (render_preamble (m # ms))])))"

definition tool_reply :: "llm_tool_call \<Rightarrow> string \<Rightarrow> llm_tool_result" where
  "tool_reply call s = \<lparr>tr_ToolCallID = tc_ID call, tr_Tool = tc_Name call, tr_Content = s, tr_IsError = False\<rparr>"

definition errorResult :: "llm_tool_call \<Rightarrow> string \<Rightarrow> llm_tool_result" where
  "errorResult call s = \<lparr>tr_ToolCallID = tc_ID call, tr_Tool = tc_Name call, tr_Content = s, tr_IsError = True\<rparr>"

definition findMemory :: "'w memory_ops \<Rightarrow> memory_ref \<Rightarrow> string \<Rightarrow> 'w \<Rightarrow> 'w \<times> nat option" where
  "findMemory mo r key w =
     (case op_memories mo r w of
        (w1, Inl e) \<Rightarrow> (w1, None)
      | (w1, Inr ms) \<Rightarrow> (w1, Some (case map_of ms key of None \<Rightarrow> 0 | Some m \<Rightarrow> um_Version m)))"

definition remember ::
  "'w memory_ops \<Rightarrow> session \<Rightarrow> llm_tool_call \<Rightarrow> string \<Rightarrow> string \<Rightarrow> 'w \<Rightarrow> 'w \<times> llm_tool_result" where
  "remember mo s call key0 v0 w =
     (let key = TrimSpace key0; v = TrimSpace v0 in
      if key = [] \<or> v = [] then (w, errorResult call ''name and value are both required'')
      else if mr_UserID (se_ref s) = [] then (w, errorResult call ''there is no identified person to remember this about'')
      else (case op_put mo (se_ref s) key v 0 w of
              (w1, Inr n) \<Rightarrow> (w1, tool_reply call (''Remembered '' @ key @ ''.''))
            | (w1, Inl MemVersionConflict) \<Rightarrow>
                (case findMemory mo (se_ref s) key w1 of
                   (w2, None) \<Rightarrow> (w2, errorResult call ''could not read existing memories'')
                 | (w2, Some existing) \<Rightarrow>
                     (case op_put mo (se_ref s) key v existing w2 of
                        (w3, Inr n) \<Rightarrow> (w3, tool_reply call (''Remembered '' @ key @ ''.''))
                      | (w3, Inl e) \<Rightarrow> (w3, errorResult call ''could not store that memory'')))
            | (w1, Inl e) \<Rightarrow> (w1, errorResult call ''could not store that memory'')))"

definition forget :: "'w memory_ops \<Rightarrow> session \<Rightarrow> llm_tool_call \<Rightarrow> string \<Rightarrow> 'w \<Rightarrow> 'w \<times> llm_tool_result" where
  "forget mo s call key0 w =
     (let key = TrimSpace key0 in
      if key = [] then (w, errorResult call ''name is required'')
      else (case op_forget mo (se_ref s) key w of
              (w1, Some e) \<Rightarrow> (w1, errorResult call ''could not forget that memory'')
            | (w1, None) \<Rightarrow> (w1, tool_reply call (''Forgot '' @ key @ ''.''))))"

text \<open>A hit: whether it is a remembered fact, its name, its text.\<close>

definition searchMemory :: "'w memory_ops \<Rightarrow> session \<Rightarrow> llm_tool_call \<Rightarrow> string \<Rightarrow> 'w \<Rightarrow> 'w \<times> llm_tool_result" where
  "searchMemory mo s call query0 w =
     (let query = TrimSpace query0 in
      if query = [] then (w, errorResult call ''query is required'')
      else (case op_search mo (se_ref s) query w of
              (w1, Inl e) \<Rightarrow> (w1, errorResult call ''could not search memory'')
            | (w1, Inr []) \<Rightarrow> (w1, tool_reply call ''Nothing stored matches that.'')
            | (w1, Inr hits) \<Rightarrow>
                (w1, tool_reply call (concat (map (\<lambda>(user, key, s).
                   (if user then ''remembered '' @ key @ '': '' else ''from an earlier conversation: '') @ s @ newline) hits)))))"

text \<open>The arguments of a memory tool, as its JSON decodes.\<close>

record memory_args =
  ma_Name :: string
  ma_Value :: string
  ma_Query :: string

definition memoryToolNames :: "string list" where
  "memoryToolNames = [''remember'', ''forget'', ''search_memory'']"

definition runMemoryTool ::
  "'w memory_cfg \<Rightarrow> (string \<Rightarrow> memory_args option) \<Rightarrow> session \<Rightarrow> llm_tool_call \<Rightarrow> 'w \<Rightarrow> 'w \<times> llm_tool_result option" where
  "runMemoryTool cf args s call w =
     (if \<not> cf_userMemory cf \<or> tc_Name call \<notin> set memoryToolNames then (w, None)
      else if \<not> se_store s then (w, Some (errorResult call ''memory is not available to this agent''))
      else (case args (tc_Input call) of
              None \<Rightarrow> (w, Some (errorResult call ''invalid arguments''))
            | Some a \<Rightarrow>
                (case (if tc_Name call = ''remember'' then remember (cf_ops cf) s call (ma_Name a) (ma_Value a) w
                       else if tc_Name call = ''forget'' then forget (cf_ops cf) s call (ma_Name a) w
                       else searchMemory (cf_ops cf) s call (ma_Query a) w) of
                   (w', r) \<Rightarrow> (w', Some r))))"

definition withPreamble :: "llm_message list \<Rightarrow> llm_message list \<Rightarrow> llm_message list" where
  "withPreamble preamble ms = preamble @ ms"

definition rejectMemoryToolCollision :: "string list \<Rightarrow> err option" where
  "rejectMemoryToolCollision tools =
     map_option (\<lambda>n. Err (''ai-agent tool '' @ quote n @ '' uses a name reserved by user memory''))
       (find (\<lambda>n. n \<in> set tools) memoryToolNames)"

text \<open>Erasing a thread: the key-value transcript of both tiers, then the store.\<close>

definition clear_agent_memory ::
  "string \<Rightarrow> bool \<Rightarrow> (bool \<Rightarrow> string \<Rightarrow> 'w \<Rightarrow> 'w \<times> err option) \<Rightarrow> (memory_ref \<Rightarrow> 'w \<Rightarrow> 'w \<times> err option) \<Rightarrow>
     (err, string) res \<Rightarrow> 'w \<Rightarrow> 'w \<times> err option" where
  "clear_agent_memory agentID enabled kv_del del thread w =
     (case thread of
        Inl e \<Rightarrow> (w, Some (Wrap ''clear-agent-memory threadId'' e))
      | Inr t \<Rightarrow>
          (case kv_del False (memoryKey t) w of
             (w1, Some e) \<Rightarrow> (w1, Some (Wrap (''clear-agent-memory '' @ quote t) e))
           | (w1, None) \<Rightarrow>
               (case kv_del True (memoryKey t) w1 of
                  (w2, Some e) \<Rightarrow> (w2, Some (Wrap (''clear-agent-memory '' @ quote t) e))
                | (w2, None) \<Rightarrow>
                    if agentID = [] \<or> \<not> enabled then (w2, None)
                    else (case del \<lparr>mr_AgentID = agentID, mr_ThreadKey = t, mr_UserID = []\<rparr> w2 of
                            (w3, Some e) \<Rightarrow> (w3, Some (Wrap (''clear-agent-memory '' @ quote t) e))
                          | (w3, None) \<Rightarrow> (w3, None)))))"

section \<open>Bounds\<close>

lemma trim_left_length: "length (trim_left s) \<le> length s"
proof (induction s rule: trim_left.induct)
  case (1 s)
  show ?case
  proof (cases "List.find (has_prefix s) space_runes")
    case None
    then show ?thesis by (subst trim_left.simps) simp
  next
    case (Some r)
    from 1 [OF Some] have "length (trim_left (drop (length r) s)) \<le> length s - length r" by simp
    with Some show ?thesis by (subst trim_left.simps) simp
  qed
qed

lemma trim_right_length: "length (trim_right s) \<le> length s"
proof (induction s rule: trim_right.induct)
  case (1 s)
  show ?case
  proof (cases "List.find (has_suffix s) space_runes")
    case None
    then show ?thesis by (subst trim_right.simps) simp
  next
    case (Some r)
    from 1 [OF Some] have "length (trim_right (take (length s - length r) s)) \<le> length s" by simp
    with Some show ?thesis by (subst trim_right.simps) simp
  qed
qed

lemma TrimSpace_length: "length (TrimSpace s) \<le> length s"
  unfolding TrimSpace_def using trim_left_length trim_right_length order_trans by blast

lemma rune_cut_le: "rune_cut s n \<le> n"
  by (induction n) auto

lemma titleFor_length: "length (titleFor opening) \<le> titleMaxLen"
proof -
  let ?t = "fst (span_until (CHR 0x0A) (TrimSpace opening))"
  have "length (TrimSpace (take (rune_cut ?t titleMaxLen) ?t)) \<le> titleMaxLen"
    using TrimSpace_length [of "take (rune_cut ?t titleMaxLen) ?t"] rune_cut_le [of ?t titleMaxLen] by simp
  then show ?thesis by (simp add: titleFor_def Let_def)
qed

text \<open>The clipped text may exceed the limit by the mark of the cut, and does.\<close>

lemma clipRunes_length: "length (clipRunes s n) \<le> nat n + 3"
proof -
  have "length (TrimSpace (take (rune_cut s (nat n)) s)) \<le> nat n"
    using TrimSpace_length [of "take (rune_cut s (nat n)) s"] rune_cut_le [of s "nat n"] by simp
  moreover have "int (length s) \<le> n \<Longrightarrow> length s \<le> nat n" by linarith
  ultimately show ?thesis by (auto simp: clipRunes_def ellipsis_def)
qed

lemma clipRunes_over_limit: "clipRunes ''abcdef'' 3 = ''abc'' @ ellipsis \<and> 3 < length (clipRunes ''abcdef'' 3)"
  by code_simp

lemma preamble_entries_grows: "length b \<le> length (fst (preamble_entries shown b ms))"
  by (induction shown b ms rule: preamble_entries.induct) (auto simp: Let_def)

text \<open>The name of a memory is never clipped: one long name carries the preamble past its limit.\<close>

lemma preamble_holds_whole_name: "length key \<le> length (render_preamble [(key, m)])"
proof -
  have "length preamble_head < preambleMaxChars" by code_simp
  then show ?thesis
    by (simp add: render_preamble_def preambleMaxMemories_def Let_def not_le split: prod.split)
qed

section \<open>Saving\<close>

text \<open>A run that could not read what was stored writes nothing over it.\<close>

lemma blind_writes_nothing: "se_blind s \<Longrightarrow> writeWorking cf env iter s w = (w, s, None)"
  by (simp add: writeWorking_def)

context working_store
begin

text \<open>
  A save lands whatever version the session holds: a conflict re-reads and retries, and nothing
  comes between the two. The session then holds the stored version.
\<close>

lemma writeWorking_lands:
  assumes ops: "op_load (cf_ops cf) = (\<lambda>r w. (w, load w r))" "op_save (cf_ops cf) = save"
    and s: "\<not> se_blind s" "\<not> se_legacy s" and r: "named_ref (se_ref s)" and w: "sound w"
  shows "\<exists>w' s' x. writeWorking cf env iter s w = (w', s', None) \<and> sound w' \<and>
    load w' (se_ref s) = Inr (Some x) \<and> wm_Version x = se_version s' \<and>
    wm_Payload x = ec_marshal (cf_codec cf) (env\<lparr>env_Version := memoryVersion\<rparr>) \<and> wm_Tokens x = env_Tokens env"
proof -
  define wm where "wm = \<lparr>wm_Version = se_version s, wm_Iteration = iter, wm_Tokens = env_Tokens env,
    wm_Payload = ec_marshal (cf_codec cf) (env\<lparr>env_Version := memoryVersion\<rparr>), wm_UpdatedAt = 0\<rparr>"
  let ?r = "se_ref s"
  from readable [OF r w] obtain old where old: "load w ?r = Inr old" by blast
  have wr: "writeWorking cf env iter s w =
      (case (case save ?r wm w of
               (w1, Inl MemVersionConflict) \<Rightarrow>
                 (case load w1 ?r of Inl e \<Rightarrow> (w1, Inl e) | Inr found \<Rightarrow> save ?r (wm\<lparr>wm_Version := version_of found\<rparr>) w1)
             | res \<Rightarrow> res) of
         (w3, Inl e) \<Rightarrow> (w3, s, Some e) | (w3, Inr v) \<Rightarrow> (w3, s\<lparr>se_version := v\<rparr>, None))"
    using s by (simp add: writeWorking_def Let_def ops dropLegacy_def wm_def split: prod.splits sum.splits mem_error.splits)
  show ?thesis
  proof (cases "version_of old = wm_Version wm")
    case True
    from works [OF r w old True] obtain w' v where sv: "save ?r wm w = (w', Inr v)" "sound w'" by blast
    from saved [OF r sv(1)] obtain x where "load w' ?r = Inr (Some x)" "wm_Version x = v" "wm_Payload x = wm_Payload wm"
      "wm_Tokens x = wm_Tokens wm" by blast
    with sv wr show ?thesis by (simp add: wm_def)
  next
    case False
    note c = stale [OF r old False]
    then obtain w1 where w1: "save ?r wm w = (w1, Inl MemVersionConflict)" by (metis prod.collapse)
    have l1: "load w1 ?r = Inr old" using refused [OF r w1] old by simp
    have s1: "sound w1" using stays_sound [OF r w, of wm] w1 by simp
    from works [OF r s1 l1, of "wm\<lparr>wm_Version := version_of old\<rparr>"] obtain w' v
      where sv: "save ?r (wm\<lparr>wm_Version := version_of old\<rparr>) w1 = (w', Inr v)" "sound w'" by auto
    from saved [OF r sv(1)] obtain x where "load w' ?r = Inr (Some x)" "wm_Version x = v" "wm_Payload x = wm_Payload wm"
      "wm_Tokens x = wm_Tokens wm" by auto
    with sv wr w1 l1 show ?thesis by (simp add: wm_def)
  qed
qed

end

theorem working_memory_write_lands:
  assumes "op_load (cf_ops cf) = (\<lambda>r d. (d, LoadWorking d r))" and "op_save (cf_ops cf) = SaveWorking"
    and "\<not> se_blind s" and "\<not> se_legacy s" and "named_ref (se_ref s)" and "clean_disk d"
  shows "\<exists>d' s' x. writeWorking cf env iter s d = (d', s', None) \<and> clean_disk d' \<and>
    LoadWorking d' (se_ref s) = Inr (Some x) \<and> wm_Version x = se_version s' \<and>
    wm_Payload x = ec_marshal (cf_codec cf) (env\<lparr>env_Version := memoryVersion\<rparr>) \<and> wm_Tokens x = env_Tokens env"
  by (rule disk.writeWorking_lands [OF assms])


definition sample_memory_ops :: "disk memory_ops" where
  "sample_memory_ops =
     \<lparr>op_enabled = True, op_load = (\<lambda>r d. (d, LoadWorking d r)), op_save = SaveWorking,
      op_append = AppendTurns sample_codec, op_title = SetTitle, op_memories = (\<lambda>r d. (d, Memories d r)),
      op_put = PutMemory, op_forget = DeleteMemory, op_search = (\<lambda>r q d. (d, Inr [])),
      kv_get = (\<lambda>k d. (d, Inr None)), kv_set = (\<lambda>k v n d. (d, KvStored)), kv_remove = (\<lambda>k d. (d, None)), op_clock = dk_now\<rparr>"

definition sample_memory_cfg :: "disk memory_cfg" where
  "sample_memory_cfg =
     \<lparr>cf_ops = sample_memory_ops, cf_codec = \<lparr>ec_marshal = (\<lambda>e. itoa (length (env_Messages e))), ec_envelope = (\<lambda>s. None),
        ec_messages = (\<lambda>s. None)\<rparr>,
      cf_agentID = ''support'', cf_history = True, cf_userMemory = True, cf_namer = None, cf_emitter = None\<rparr>"

definition sample_session :: session where
  "sample_session = (blank_session ''t-1'')\<lparr>se_store := True, se_ref := sample_ref\<rparr>"

text \<open>The session holds version 0, a rival has already stored version 1.\<close>

theorem working_memory_write_witness:
  "\<exists>d' s' x. writeWorking sample_memory_cfg no_envelope 1 sample_session (fst (SaveWorking sample_ref sample_wm (empty_disk 3))) = (d', s', None) \<and>
     LoadWorking d' sample_ref = Inr (Some x) \<and> wm_Version x = se_version s'"
proof -
  have "clean_disk (empty_disk 3)" by (simp add: clean_disk_def empty_disk_def)
  then have c: "clean_disk (fst (SaveWorking sample_ref sample_wm (empty_disk 3)))"
    by (rule disk.stays_sound [OF named_sample])
  have r: "se_ref sample_session = sample_ref" by (simp add: sample_session_def)
  from working_memory_write_lands [OF _ _ _ _ _ c, of sample_memory_cfg sample_session no_envelope 1]
  show ?thesis
    by (auto simp: sample_memory_cfg_def sample_memory_ops_def sample_session_def blank_session_def named_sample)
qed

end
