(* ===== verification/Octo_Agent.thy ===== *)
theory Octo_Agent
  imports Octo_Agent_Run Octo_Agent_Session Octo_Composites
begin

text \<open>
  The ai-agent block (\<^verbatim>\<open>blocks/ai/agent.go\<close>, with the gate of
  \<^verbatim>\<open>agentauthorize.go\<close> and the seams of \<^verbatim>\<open>agentsignals.go\<close>): the loop in
  which a model calls tools until it answers or the iterations run out.

  The model, the summary it is asked for, expressions, templates and JSON are parameters, the
  memory service is \<open>memory_ops\<close>. What other invocations send to the run is a script: the
  deliveries that land before each of the loop's critical sections. A wait at a gate has its own
  script, which says whether the clock was chosen. The tape records what the loop did.
\<close>

section \<open>Configuration and state\<close>

datatype call_error = EventStop | CallError err

type_synonym 'w gate_program = "llm_tool_call \<Rightarrow> 'w \<Rightarrow> message \<Rightarrow> (err, gval) res"

text \<open>
  \<open>a_model\<close> is one call of the model: the stream events it sent, as kinds and fields, and its
  response or error. \<open>a_order\<close> is the order in which the consumers finish the calls of a turn.
\<close>

record ('w, 'f) agent =
  a_fo :: "'f scale_ops"
  a_model :: "ctx \<Rightarrow> nat \<Rightarrow> llm_message list \<Rightarrow> 'w \<Rightarrow> 'w \<times> (string \<times> (string \<times> gval) list) list \<times> (call_error + llm_response)"
  a_streaming :: bool
  a_ask :: "'w summarizer"
  a_branches :: "(string \<times> 'w processor) list"
  a_guardrail :: "'w processor option"
  a_maxIterations :: nat
  a_toolWorkers :: nat
  a_order :: "nat list \<Rightarrow> nat list"
  a_skills :: "(string \<times> string) list"
  a_template :: "string \<Rightarrow> (err, 'w \<Rightarrow> message \<Rightarrow> (err, string) res) res"
  a_responseMedia :: string
  a_keepAttachments :: bool
  a_gates :: "(string \<times> 'w gate_program) list"
  a_contextMaxTokens :: int
  a_compaction :: compaction
  a_memory :: bool
  a_mem :: "'w memory_cfg"
  a_json :: "string \<Rightarrow> gval option"
  a_show :: "gval \<Rightarrow> string"
  a_base64 :: "string \<Rightarrow> string"
  a_skillArg :: "string \<Rightarrow> string option"
  a_memArgs :: "string \<Rightarrow> memory_args option"

datatype agent_obs =
    Accepted string
  | Answered string bool
  | Injected string
  | Unanswered string
  | Asked "llm_message list"
  | GateAsked string string
  | Ran llm_tool_call
  | Checkpointed "llm_message list"
  | Saved "llm_message list"
  | Reported string nat

record ('w, 'f) ag =
  g_w :: 'w
  g_run :: agent_run
  g_script :: "delivery list list"
  g_clock :: "bool list"
  g_sess :: session
  g_meter :: "'f meter"
  g_tape :: "agent_obs list"

definition observe_ag :: "agent_obs list \<Rightarrow> ('w, 'f) ag \<Rightarrow> ('w, 'f) ag" where
  "observe_ag xs s = s\<lparr>g_tape := g_tape s @ xs\<rparr>"

text \<open>What a delivery did to the run, as the tape records it.\<close>

definition delivery_obs :: "delivery \<Rightarrow> agent_run \<Rightarrow> agent_obs list" where
  "delivery_obs d r =
     (if de_signal d = signalStop then []
      else if de_signal d = signalAuthorize
        then (if snd (run_authorize (de_auth d) (de_allowed d) r) then [Answered (de_auth d) (de_allowed d)] else [])
      else if snd (run_offer (de_text d) r) \<and> TrimSpace (de_text d) \<noteq> [] then [Accepted (TrimSpace (de_text d))] else [])"

definition deliver_one :: "delivery \<Rightarrow> ('w, 'f) ag \<Rightarrow> ('w, 'f) ag" where
  "deliver_one d s = observe_ag (delivery_obs d (g_run s)) (s\<lparr>g_run := fst (apply_delivery d (g_run s))\<rparr>)"

definition arrive :: "('w, 'f) ag \<Rightarrow> ('w, 'f) ag" where
  "arrive s = (case g_script s of [] \<Rightarrow> s | ds # rest \<Rightarrow> fold deliver_one ds (s\<lparr>g_script := rest\<rparr>))"

definition run_ctx :: "ctx \<Rightarrow> ('w, 'f) ag \<Rightarrow> ctx" where
  "run_ctx c s = Ctx (cancelled c \<or> ru_stopped (g_run s))"

section \<open>Reports\<close>

definition ag_report ::
  "('a world_scheme, 'f) agent \<Rightarrow> ctx \<Rightarrow> addr \<Rightarrow> nat \<Rightarrow> string \<Rightarrow> (string \<times> gval) list \<Rightarrow>
     ('a world_scheme, 'f) ag \<Rightarrow> ('a world_scheme, 'f) ag \<times> bool" where
  "ag_report a c cur iter kind flds s =
     (case report_to (cf_emitter (a_mem a)) c (heap (g_w s) cur) iter kind flds (g_w s) of
        (w', stop) \<Rightarrow>
          (observe_ag (if Wants (cf_emitter (a_mem a)) kind then [Reported kind iter] else []) (s\<lparr>g_w := w'\<rparr>), stop))"

definition decodeJSON :: "('w, 'f) agent \<Rightarrow> string \<Rightarrow> gval" where
  "decodeJSON a raw = (if raw = [] then GNull else case a_json a raw of None \<Rightarrow> GStr raw | Some v \<Rightarrow> v)"

definition callFields :: "('w, 'f) agent \<Rightarrow> llm_tool_call \<Rightarrow> (string \<times> gval) list" where
  "callFields a call = [(''tool'', GStr (tc_Name call)), (''toolCallId'', GStr (tc_ID call)), (''input'', decodeJSON a (tc_Input call))]"

definition resultFields :: "('w, 'f) agent \<Rightarrow> llm_tool_call \<Rightarrow> llm_tool_result \<Rightarrow> (string \<times> gval) list" where
  "resultFields a call res =
     [(''tool'', GStr (tc_Name call)), (''toolCallId'', GStr (tc_ID call)), (''output'', decodeJSON a (tr_Content res)),
      (''isError'', GBool (tr_IsError res))]"

definition stop_text :: "llm_stop \<Rightarrow> string" where
  "stop_text r = (case r of LLMStopEndTurn \<Rightarrow> ''end_turn'' | LLMStopToolUse \<Rightarrow> ''tool_use'' | LLMStopMaxTokens \<Rightarrow> ''max_tokens''
     | LLMStopRefusal \<Rightarrow> ''refusal'' | LLMStopOther s \<Rightarrow> s)"

definition contextFields :: "int \<Rightarrow> int \<Rightarrow> (string \<times> gval) list" where
  "contextFields used budget = [(''contextTokens'', GInt used), (''contextMaxTokens'', GInt budget)]"

definition turnEndFields :: "llm_response \<Rightarrow> int \<Rightarrow> (string \<times> gval) list" where
  "turnEndFields resp maxTokens =
     [(''text'', GStr (rp_Text resp)), (''stopReason'', GStr (stop_text (rp_Stop resp)))] @
     (case rp_Usage resp of
        None \<Rightarrow> []
      | Some u \<Rightarrow> (''usage'', GMap [(''inputTokens'', GInt (us_Input u)), (''outputTokens'', GInt (us_Output u)), (''promptTokens'', GInt (us_Prompt u))]) #
          (if 0 < maxTokens then contextFields (us_Prompt u + us_Output u) maxTokens else []))"

section \<open>Seams\<close>

text \<open>Messages handed to the run become user turns at the top of an iteration.\<close>

fun inject_texts ::
  "('a world_scheme, 'f) agent \<Rightarrow> ctx \<Rightarrow> addr \<Rightarrow> nat \<Rightarrow> string list \<Rightarrow> ('a world_scheme, 'f) ag \<Rightarrow> llm_message list \<Rightarrow>
     ('a world_scheme, 'f) ag \<times> llm_message list" where
  "inject_texts a c cur iter [] s ms = (s, ms)"
| "inject_texts a c cur iter (t # ts) s ms =
     (case ag_report a (run_ctx c s) cur iter ''signal'' [(fieldSignal, GStr signalContext), (fieldText, GStr t)]
             (observe_ag [Injected t] s) of
        (s1, stop) \<Rightarrow> inject_texts a c cur iter ts s1 (ms @ [user_turn t]))"

definition injectPending ::
  "('a world_scheme, 'f) agent \<Rightarrow> ctx \<Rightarrow> addr \<Rightarrow> nat \<Rightarrow> ('a world_scheme, 'f) ag \<Rightarrow> llm_message list \<Rightarrow>
     ('a world_scheme, 'f) ag \<times> llm_message list" where
  "injectPending a c cur iter s ms =
     (let s1 = arrive s in
      case run_take (g_run s1) of (r, texts) \<Rightarrow> inject_texts a c cur iter texts (s1\<lparr>g_run := r\<rparr>) ms)"

fun unanswered_texts ::
  "('a world_scheme, 'f) agent \<Rightarrow> ctx \<Rightarrow> addr \<Rightarrow> nat \<Rightarrow> string list \<Rightarrow> ('a world_scheme, 'f) ag \<Rightarrow> ('a world_scheme, 'f) ag" where
  "unanswered_texts a c cur iter [] s = s"
| "unanswered_texts a c cur iter (t # ts) s =
     unanswered_texts a c cur iter ts
       (fst (ag_report a (run_ctx c s) cur iter ''signal'' [(fieldSignal, GStr signalUnanswered), (fieldText, GStr t)]
               (observe_ag [Unanswered t] s)))"

definition reportUnanswered ::
  "('a world_scheme, 'f) agent \<Rightarrow> ctx \<Rightarrow> addr \<Rightarrow> nat \<Rightarrow> ('a world_scheme, 'f) ag \<Rightarrow> ('a world_scheme, 'f) ag" where
  "reportUnanswered a c cur iter s =
     (let s1 = arrive s;
          s2 = arrive (s1\<lparr>g_run := run_close (g_run s1)\<rparr>) in
      case run_take (g_run s2) of (r, texts) \<Rightarrow> unanswered_texts a c cur iter texts (s2\<lparr>g_run := r\<rparr>))"

section \<open>Keeping the conversation in its budget\<close>

definition strategy_text :: "compaction \<Rightarrow> string" where
  "strategy_text k = (case k of CompactPrune \<Rightarrow> ''prune'' | CompactSummarize \<Rightarrow> ''summarize'')"

definition compactionFields :: "compaction \<Rightarrow> int \<Rightarrow> int \<Rightarrow> (string \<times> gval) list" where
  "compactionFields k before budget =
     contextFields before budget @ [(''strategy'', GStr (strategy_text k)), (''before'', GInt before)]"

definition ag_fit ::
  "('a world_scheme, 'f) agent \<Rightarrow> ctx \<Rightarrow> addr \<Rightarrow> nat \<Rightarrow> int \<Rightarrow> ('a world_scheme, 'f) ag \<Rightarrow> llm_message list \<Rightarrow>
     ('a world_scheme, 'f) ag \<times> llm_message list" where
  "ag_fit a c cur iter reserved s ms =
     (let m = g_meter s; maxT = a_contextMaxTokens a;
          budget = (if maxT - reserved \<le> 0 then 1 else maxT - reserved);
          before = predict (a_fo a) m (estimateTokens ms) in
      if me_last m = 0 \<or> maxT \<le> 0 \<or> before \<le> budget then (s, ms)
      else (case ag_report a (run_ctx c s) cur iter ''compaction_start'' (compactionFields (a_compaction a) before budget) s of
        (s1, stop1) \<Rightarrow>
          (case fitContext (a_fo a) (a_ask a) (a_compaction a) maxT m reserved ms (g_w s1) of
             (w2, out) \<Rightarrow>
               let after = predict (a_fo a) m (estimateTokens out) in
               (fst (ag_report a (run_ctx c s1) cur iter ''compaction_end''
                  (compactionFields (a_compaction a) before maxT @
                     [(''after'', GInt after), (''dropped'', GInt (int (length ms) - int (length out)))])
                  (s1\<lparr>g_w := w2\<rparr>)), out))))"

definition persistMemory ::
  "('a world_scheme, 'f) agent \<Rightarrow> compaction \<Rightarrow> llm_message list \<Rightarrow> ('a world_scheme, 'f) ag \<Rightarrow> ('a world_scheme, 'f) ag" where
  "persistMemory a strategy ms s =
     (if \<not> a_memory a then s
      else (case compactMemory (a_fo a) (a_ask a) strategy (g_meter s) (a_contextMaxTokens a) ms (g_w s) of
        (w1, out) \<Rightarrow>
          let env = \<lparr>env_Version = 0, env_Tokens = sizeOf (a_fo a) (g_meter s) (estimateTokens out), env_Messages = out\<rparr>;
              sess = g_sess s in
          if se_store sess
          then (case writeWorking (a_mem a) env (se_iteration sess) sess w1 of
                  (w2, sess', e) \<Rightarrow> observe_ag (if se_blind sess then [] else [Saved out]) (s\<lparr>g_w := w2, g_sess := sess'\<rparr>))
          else observe_ag [Saved out]
                 (s\<lparr>g_w := fst (saveMemory (cf_ops (a_mem a)) (cf_codec (a_mem a)) (se_thread sess) env w1)\<rparr>)))"

definition ag_record ::
  "('a world_scheme, 'f) agent \<Rightarrow> ctx \<Rightarrow> addr \<Rightarrow> string \<Rightarrow> nat \<Rightarrow> string \<Rightarrow> ('a world_scheme, 'f) ag \<Rightarrow> ('a world_scheme, 'f) ag" where
  "ag_record a c cur answered iterations reason s =
     (case recordTurn (a_mem a) c (heap (g_w s) cur) answered iterations reason (g_sess s) (g_w s) of
        (w', sess) \<Rightarrow> s\<lparr>g_w := w', g_sess := sess\<rparr>)"

definition ag_checkpoint :: "('a world_scheme, 'f) agent \<Rightarrow> llm_message list \<Rightarrow> nat \<Rightarrow> ('a world_scheme, 'f) ag \<Rightarrow> ('a world_scheme, 'f) ag" where
  "ag_checkpoint a ms iter s =
     (case offerCheckpoint (a_mem a) ms (sizeOf (a_fo a) (g_meter s) (estimateTokens ms)) iter (g_sess s) (g_w s) of
        (w', sess, env) \<Rightarrow>
          observe_ag (case env of None \<Rightarrow> [] | Some e \<Rightarrow> [Checkpointed (env_Messages e)]) (s\<lparr>g_w := w', g_sess := sess\<rparr>))"

section \<open>Ways to end\<close>

datatype agent_exit = Finished | OutOfTurns | RefusedByModel | Halted | CallFailed

definition halt ::
  "('a world_scheme, 'f) agent \<Rightarrow> ctx \<Rightarrow> addr \<Rightarrow> nat \<Rightarrow> string \<Rightarrow> llm_message list \<Rightarrow> ('a world_scheme, 'f) ag \<Rightarrow>
     ('a world_scheme, 'f) ag \<times> agent_exit \<times> outcome" where
  "halt a c cur iter reason ms s =
     (let s1 = s\<lparr>g_w := upd (g_w s) cur RequestStop\<rparr>;
          s2 = ag_record a (Ctx False) cur [] (Suc iter) reason s1 in
      (persistMemory a CompactPrune ms s2, Halted, Out cur))"

definition haltOnSignal ::
  "('a world_scheme, 'f) agent \<Rightarrow> ctx \<Rightarrow> addr \<Rightarrow> nat \<Rightarrow> llm_message list \<Rightarrow> ('a world_scheme, 'f) ag \<Rightarrow>
     ('a world_scheme, 'f) ag \<times> agent_exit \<times> outcome" where
  "haltOnSignal a c cur iter ms s =
     halt a c cur iter ''a stop signal ended the run'' ms
       (fst (ag_report a (Ctx False) cur iter ''signal'' [(fieldSignal, GStr signalStop)] s))"

definition callFailed ::
  "('a world_scheme, 'f) agent \<Rightarrow> ctx \<Rightarrow> addr \<Rightarrow> nat \<Rightarrow> llm_message list \<Rightarrow> call_error \<Rightarrow> ('a world_scheme, 'f) ag \<Rightarrow>
     ('a world_scheme, 'f) ag \<times> agent_exit \<times> outcome" where
  "callFailed a c cur iter ms e s =
     (let s1 = arrive s in
      if ru_stopped (g_run s1) then haltOnSignal a c cur iter ms s1
      else (case e of
              EventStop \<Rightarrow> halt a c cur iter ''the events path stopped the run'' ms s1
            | CallError x \<Rightarrow> (s1, CallFailed, Failed (Wrap ''ai-agent'' x))))"

definition fallback ::
  "('a world_scheme, 'f) agent \<Rightarrow> ctx \<Rightarrow> addr \<Rightarrow> nat \<Rightarrow> string \<Rightarrow> ('a world_scheme, 'f) ag \<Rightarrow> ('a world_scheme, 'f) ag \<times> outcome" where
  "fallback a c cur iter reason s =
     (let s1 = fst (ag_report a c cur iter ''guardrail'' [(''reason'', GStr reason)] s) in
      case a_guardrail a of
        None \<Rightarrow> (s1, Failed (Err (''ai-agent: '' @ reason @ '' and no guardrail configured'')))
      | Some p \<Rightarrow> (case p c (g_w s1) cur of (w', r) \<Rightarrow> (s1\<lparr>g_w := w'\<rparr>, r)))"

fun last_index_of :: "string \<Rightarrow> string \<Rightarrow> nat option" where
  "last_index_of sub [] = (if sub = [] then Some 0 else None)"
| "last_index_of sub (x # xs) =
     (case last_index_of sub xs of Some i \<Rightarrow> Some (Suc i) | None \<Rightarrow> if has_prefix (x # xs) sub then Some 0 else None)"

definition trim_prefix :: "string \<Rightarrow> string \<Rightarrow> string" where
  "trim_prefix s p = (if has_prefix s p then drop (length p) s else s)"

definition fence :: string where "fence = replicate 3 (CHR 0x60)"

definition stripJSONFence :: "string \<Rightarrow> string" where
  "stripJSONFence s0 =
     (let s = TrimSpace s0 in
      if \<not> has_prefix s fence then s
      else let s1 = trim_prefix (trim_prefix (trim_prefix s fence) ''json'') ''JSON'';
               s2 = (case last_index_of fence s1 of None \<Rightarrow> s1 | Some i \<Rightarrow> take i s1) in
        TrimSpace s2)"

definition foldResult :: "('a world_scheme, 'f) agent \<Rightarrow> addr \<Rightarrow> string \<Rightarrow> 'a world_scheme \<Rightarrow> 'a world_scheme" where
  "foldResult a cur s w =
     (let trimmed = stripJSONFence s in
      if trimmed = [] then w
      else (case a_json a trimmed of Some v \<Rightarrow> upd w cur (SetBody v) | None \<Rightarrow> upd w cur (SetBody (GStr s))))"

definition tryFinish ::
  "('a world_scheme, 'f) agent \<Rightarrow> ctx \<Rightarrow> addr \<Rightarrow> nat \<Rightarrow> llm_message list \<Rightarrow> llm_response \<Rightarrow> ('a world_scheme, 'f) ag \<Rightarrow>
     ('a world_scheme, 'f) ag \<times> bool" where
  "tryFinish a c cur iter ms resp s =
     (let s1 = arrive s in
      case run_finish (g_run s1) of
        (r, False) \<Rightarrow> (s1\<lparr>g_run := r\<rparr>, False)
      | (r, True) \<Rightarrow>
          let s2 = s1\<lparr>g_run := r, g_w := foldResult a cur (rp_Text resp) (g_w s1)\<rparr>;
              s3 = fst (ag_report a (run_ctx c s2) cur iter ''done'' [(''text'', GStr (rp_Text resp))] s2);
              s4 = ag_record a (Ctx False) cur (rp_Text resp) (Suc iter) [] s3 in
          (persistMemory a (a_compaction a) ms s4, True))"

definition outOfTurns ::
  "('a world_scheme, 'f) agent \<Rightarrow> ctx \<Rightarrow> addr \<Rightarrow> llm_message list \<Rightarrow> ('a world_scheme, 'f) ag \<Rightarrow>
     ('a world_scheme, 'f) ag \<times> agent_exit \<times> outcome" where
  "outOfTurns a c cur ms s =
     (let iter = a_maxIterations a - 1;
          s1 = reportUnanswered a c cur iter s;
          s2 = ag_record a (Ctx False) cur [] (a_maxIterations a) ''max iterations'' s1;
          s3 = persistMemory a (a_compaction a) ms s2 in
      case fallback a c cur iter ''exceeded max iterations'' s3 of (s4, r) \<Rightarrow> (s4, OutOfTurns, r))"

section \<open>A model turn\<close>

fun stream_events ::
  "('a world_scheme, 'f) agent \<Rightarrow> ctx \<Rightarrow> addr \<Rightarrow> nat \<Rightarrow> (string \<times> (string \<times> gval) list) list \<Rightarrow> ('a world_scheme, 'f) ag \<Rightarrow>
     ('a world_scheme, 'f) ag \<times> bool" where
  "stream_events a c cur iter [] s = (s, False)"
| "stream_events a c cur iter ((kind, flds) # ds) s =
     (case ag_report a c cur iter kind flds s of
        (s1, True) \<Rightarrow> (s1, True)
      | (s1, False) \<Rightarrow> stream_events a c cur iter ds s1)"

definition completeTurn ::
  "('a world_scheme, 'f) agent \<Rightarrow> ctx \<Rightarrow> addr \<Rightarrow> nat \<Rightarrow> llm_message list \<Rightarrow> ('a world_scheme, 'f) ag \<Rightarrow>
     ('a world_scheme, 'f) ag \<times> (call_error + llm_response)" where
  "completeTurn a c cur iter request s =
     (case a_model a c iter request (g_w s) of
        (w1, deltas, res) \<Rightarrow>
          let s1 = observe_ag [Asked request] (s\<lparr>g_w := w1\<rparr>) in
          if \<not> a_streaming a then (s1, res)
          else (case stream_events a c cur iter deltas s1 of
                  (s2, True) \<Rightarrow> (s2, Inl EventStop)
                | (s2, False) \<Rightarrow> (s2, res)))"

definition callModel ::
  "('a world_scheme, 'f) agent \<Rightarrow> ctx \<Rightarrow> addr \<Rightarrow> nat \<Rightarrow> llm_message list \<Rightarrow> llm_message list \<Rightarrow> ('a world_scheme, 'f) ag \<Rightarrow>
     ('a world_scheme, 'f) ag \<times> llm_response option \<times> call_error option" where
  "callModel a c cur iter preamble ms s =
     (case ag_report a (run_ctx c s) cur iter ''turn_start'' [] s of
        (s1, True) \<Rightarrow> (s1, None, Some EventStop)
      | (s1, False) \<Rightarrow>
          (case completeTurn a (run_ctx c s1) cur iter (withPreamble preamble ms) s1 of
             (s2, Inl EventStop) \<Rightarrow> (s2, None, Some EventStop)
           | (s2, Inl (CallError e)) \<Rightarrow>
               (fst (ag_report a (run_ctx c s2) cur iter ''error'' [(''error'', GStr (err_text e))] s2), None, Some (CallError e))
           | (s2, Inr resp) \<Rightarrow>
               (case ag_report a (run_ctx c s2) cur iter ''turn_end'' (turnEndFields resp (a_contextMaxTokens a)) s2 of
                  (s3, stop) \<Rightarrow> (s3, Some resp, if stop then Some EventStop else None))))"

definition mediaFields :: "('w, 'f) agent \<Rightarrow> llm_attachment \<Rightarrow> gval" where
  "mediaFields a f =
     GMap [(''name'', GStr (at_Name f)), (''mimeType'', GStr (at_MimeType f)), (''size'', GInt (int (length (at_Data f)))),
       (''data'', GStr (a_base64 a (at_Data f)))]"

definition collectMedia :: "('a world_scheme, 'f) agent \<Rightarrow> addr \<Rightarrow> llm_response \<Rightarrow> 'a world_scheme \<Rightarrow> 'a world_scheme" where
  "collectMedia a cur resp w =
     (if a_responseMedia a = [] \<or> rp_Media resp = [] then w
      else let existing = (case Variables (heap w cur) (a_responseMedia a) of Some (GList vs) \<Rightarrow> vs | _ \<Rightarrow> []) in
        upd w cur (SetVar (a_responseMedia a) (GList (existing @ map (mediaFields a) (rp_Media resp)))))"

definition absorbResponse ::
  "('a world_scheme, 'f) agent \<Rightarrow> addr \<Rightarrow> nat \<Rightarrow> llm_response \<Rightarrow> llm_message list \<Rightarrow> ('a world_scheme, 'f) ag \<Rightarrow>
     ('a world_scheme, 'f) ag \<times> llm_message list" where
  "absorbResponse a cur sent resp ms s =
     (s\<lparr>g_meter := observeResponse (a_fo a) sent resp (g_meter s), g_w := collectMedia a cur resp (g_w s)\<rparr>, ms @ [rp_Raw resp])"

section \<open>Tools\<close>

definition loadSkill :: "('w, 'f) agent \<Rightarrow> llm_tool_call \<Rightarrow> 'w \<Rightarrow> message \<Rightarrow> llm_tool_result" where
  "loadSkill a call w m =
     (case a_skillArg a (tc_Input call) of
        None \<Rightarrow> errorResult call ''invalid arguments: name is required''
      | Some [] \<Rightarrow> errorResult call ''invalid arguments: name is required''
      | Some n \<Rightarrow>
          (case map_of (a_skills a) n of
             None \<Rightarrow> errorResult call (''unknown skill '' @ quote n)
           | Some resource \<Rightarrow>
               (case a_template a resource of
                  Inl e \<Rightarrow> errorResult call (''load skill '' @ quote n @ '': '' @ err_text e)
                | Inr tpl \<Rightarrow>
                    (case tpl w m of
                       Inl e \<Rightarrow> errorResult call (''render skill '' @ quote n @ '': '' @ err_text e)
                     | Inr s \<Rightarrow> tool_reply call s))))"

text \<open>The branch's output and the message the run goes on with, or what to tell the model.\<close>

definition dispatchToolBranch ::
  "('a world_scheme, 'f) agent \<Rightarrow> ctx \<Rightarrow> ('a world_scheme) processor \<Rightarrow> string \<Rightarrow> addr \<Rightarrow> 'a world_scheme \<Rightarrow>
     'a world_scheme \<times> (string + string) \<times> addr option" where
  "dispatchToolBranch a c flow input cur w =
     (let args = (if input = [] then ''{}'' else input) in
      case SetBodyJSON (a_json a) args (heap w cur) of
        Inl e \<Rightarrow> (w, Inl (''invalid arguments: '' @ err_text e), Some cur)
      | Inr m \<Rightarrow>
          (case flow c (upd w cur (\<lambda>_. m)) cur of
             (w1, Failed e) \<Rightarrow> (w1, Inl (err_text e), Some cur)
           | (w1, Dropped) \<Rightarrow> (w1, Inl ''tool produced no result'', Some cur)
           | (w1, Out b) \<Rightarrow>
               (case BodyJSON (heap w1 b) of
                  Inl e \<Rightarrow> (w1, Inl (''encode result: '' @ err_text e), Some b)
                | Inr doc \<Rightarrow> (w1, Inr (a_show a doc), Some b))))"

definition tool_vars :: "string \<Rightarrow> llm_tool_call \<Rightarrow> message \<Rightarrow> message" where
  "tool_vars base call m =
     (let m1 = (if base \<noteq> [] then SetVar ''toolScope'' (GStr (base @ ''/'' @ tc_Name call)) m else m) in
      SetVar ''toolCallId'' (GStr (tc_ID call)) (SetVar ''toolName'' (GStr (tc_Name call)) m1))"

definition dispatchTool ::
  "('a world_scheme, 'f) agent \<Rightarrow> ctx \<Rightarrow> string \<Rightarrow> session \<Rightarrow> llm_tool_call \<Rightarrow> addr \<Rightarrow> 'a world_scheme \<Rightarrow>
     'a world_scheme \<times> llm_tool_result \<times> addr" where
  "dispatchTool a c base sess call cur w =
     (if tc_Name call = ''load_skill'' then (w, loadSkill a call w (heap w cur), cur)
      else (case runMemoryTool (a_mem a) (a_memArgs a) sess call w of
              (w1, Some res) \<Rightarrow> (w1, res, cur)
            | (w1, None) \<Rightarrow>
                (case map_of (a_branches a) (tc_Name call) of
                   None \<Rightarrow> (w1, errorResult call (''unknown tool '' @ quote (tc_Name call)), cur)
                 | Some flow \<Rightarrow>
                     (case dispatchToolBranch a c flow (tc_Input call) cur (upd w1 cur (tool_vars base call)) of
                        (w2, Inl e, b) \<Rightarrow> (w2, errorResult call e, the b)
                      | (w2, Inr txt, b) \<Rightarrow> (w2, tool_reply call txt, the b)))))"

definition runTool ::
  "('a world_scheme, 'f) agent \<Rightarrow> ctx \<Rightarrow> string \<Rightarrow> llm_tool_call \<Rightarrow> addr \<Rightarrow> ('a world_scheme, 'f) ag \<Rightarrow>
     ('a world_scheme, 'f) ag \<times> llm_tool_result \<times> addr" where
  "runTool a c base call cur s =
     (case dispatchTool a (run_ctx c s) base (g_sess s) call cur (g_w s) of
        (w', res, b) \<Rightarrow> (observe_ag [Ran call] (s\<lparr>g_w := w'\<rparr>), res, b))"

section \<open>The gate\<close>

definition denialResult :: "llm_tool_call \<Rightarrow> string \<Rightarrow> llm_tool_result" where
  "denialResult call reason =
     \<lparr>tr_ToolCallID = tc_ID call, tr_Tool = tc_Name call,
      tr_Content = ''{'' @ quote ''authorized'' @ '':false,'' @ quote ''reason'' @ '':'' @ quote reason @ ''}'', tr_IsError = True\<rparr>"

definition gateApplies :: "'w gate_program \<Rightarrow> llm_tool_call \<Rightarrow> 'w \<Rightarrow> message \<Rightarrow> (err, bool) res" where
  "gateApplies p call w m =
     (case p call w m of
        Inl e \<Rightarrow> Inl e
      | Inr (GBool b) \<Rightarrow> Inr b
      | Inr v \<Rightarrow> Inl (Err (''authorize must evaluate to a bool, got '' @ type_name v)))"

definition authorizationIDLen :: nat where "authorizationIDLen = 16"

definition mintAuthorizationID :: "'a world_scheme \<Rightarrow> 'a world_scheme \<times> string" where
  "mintAuthorizationID w =
     (case entropy w of
        Some buf # rest \<Rightarrow> (w\<lparr>entropy := rest\<rparr>, ''auth_'' @ hex_encode (take authorizationIDLen buf))
      | None # rest \<Rightarrow> (w\<lparr>entropy := rest\<rparr>, [])
      | [] \<Rightarrow> (w, []))"

definition authorizationFields :: "('w, 'f) agent \<Rightarrow> string \<Rightarrow> llm_tool_call \<Rightarrow> (string \<times> gval) list" where
  "authorizationFields a i call =
     [(''tool'', GStr (tc_Name call)), (''toolCallId'', GStr (tc_ID call)), (fieldAuthorizationID, GStr i),
      (''input'', decodeJSON a (tc_Input call))]"

text \<open>
  The wait is one choice among what is ready: the clock, an answer, or the end of the run. The
  channel's answer, once taken, is gone with the channel.
\<close>

definition askAuthorization ::
  "('a world_scheme, 'f) agent \<Rightarrow> ctx \<Rightarrow> addr \<Rightarrow> nat \<Rightarrow> string \<Rightarrow> llm_tool_call \<Rightarrow> ('a world_scheme, 'f) ag \<Rightarrow>
     ('a world_scheme, 'f) ag \<times> (string + unit) \<times> bool" where
  "askAuthorization a c cur iter i call s =
     (case run_openGate i (g_run s) of
        (r, ch) \<Rightarrow>
          (case ag_report a (run_ctx c s) cur iter ''tool_authorization'' (authorizationFields a i call)
                  (observe_ag [GateAsked i (tc_ID call)] (s\<lparr>g_run := r\<rparr>)) of
             (s1, True) \<Rightarrow>
               (s1\<lparr>g_run := run_closeGate i (g_run s1)\<rparr>,
                Inl ''the connection that would have asked for authorization is closed'', True)
           | (s1, False) \<Rightarrow>
               let s2 = arrive s1;
                   fired = (case g_clock s2 of [] \<Rightarrow> False | b # bs \<Rightarrow> b);
                   s3 = s2\<lparr>g_clock := tl (g_clock s2)\<rparr>;
                   shut = (\<lambda>x. x\<lparr>g_run := run_closeGate i (g_run x)\<rparr>) in
               if fired then (shut s3, Inl ''nobody authorized this call within the time allowed'', False)
               else (case ru_answers (g_run s3) ch of
                       Some allowed \<Rightarrow>
                         (shut (fst (ag_report a (run_ctx c s3) cur iter ''signal''
                            [(fieldSignal, GStr signalAuthorize), (fieldAuthorizationID, GStr i), (fieldAllowed, GBool allowed)] s3)),
                          (if allowed then Inr () else Inl ''a person denied this call''), False)
                     | None \<Rightarrow>
                         (shut s3, Inl (if cancelled (run_ctx c s3) then ''the run ended before this call was authorized''
                                        else ''nobody authorized this call within the time allowed''), False))))"

definition gate ::
  "('a world_scheme, 'f) agent \<Rightarrow> ctx \<Rightarrow> addr \<Rightarrow> nat \<Rightarrow> llm_tool_call \<Rightarrow> ('a world_scheme, 'f) ag \<Rightarrow>
     ('a world_scheme, 'f) ag \<times> llm_tool_result option \<times> bool" where
  "gate a c cur iter call s =
     (case map_of (a_gates a) (tc_Name call) of
        None \<Rightarrow> (s, None, False)
      | Some p \<Rightarrow>
          (case gateApplies p call (g_w s) (heap (g_w s) cur) of
             Inl e \<Rightarrow>
               (s, Some (denialResult call (''the authorization condition for this tool could not be evaluated: '' @ err_text e)), False)
           | Inr False \<Rightarrow> (s, None, False)
           | Inr True \<Rightarrow>
               (case mintAuthorizationID (g_w s) of
                  (w1, i) \<Rightarrow>
                    (case askAuthorization a c cur iter i call (s\<lparr>g_w := w1\<rparr>) of
                       (s1, Inr _, stopped) \<Rightarrow> (s1, None, stopped)
                     | (s1, Inl reason, stopped) \<Rightarrow> (s1, Some (denialResult call reason), stopped)))))"

section \<open>A turn's calls\<close>

fun run_sequential ::
  "('a world_scheme, 'f) agent \<Rightarrow> ctx \<Rightarrow> nat \<Rightarrow> string \<Rightarrow> llm_tool_call list \<Rightarrow> addr \<Rightarrow> llm_tool_result list \<Rightarrow> bool \<Rightarrow>
     ('a world_scheme, 'f) ag \<Rightarrow> ('a world_scheme, 'f) ag \<times> llm_tool_result list \<times> bool \<times> addr" where
  "run_sequential a c iter base [] cur results stopped s = (s, results, stopped, cur)"
| "run_sequential a c iter base (call # calls) cur results stopped s =
     (case ag_report a (run_ctx c s) cur iter ''tool_call'' (callFields a call) s of
        (s1, stop1) \<Rightarrow>
      case gate a c cur iter call s1 of
        (s2, denial, stop2) \<Rightarrow>
      case (case denial of Some res \<Rightarrow> (s2, res, cur) | None \<Rightarrow> runTool a c base call cur s2) of
        (s3, res, cur') \<Rightarrow>
      case ag_report a (run_ctx c s3) cur' iter ''tool_result'' (resultFields a call res) s3 of
        (s4, stop4) \<Rightarrow>
          run_sequential a c iter base calls cur' (results @ [res]) (stopped \<or> stop1 \<or> stop2 \<or> stop4) s4)"

text \<open>In parallel, the calls are announced and gated in order; those that may run are queued.\<close>

fun queueTools ::
  "('a world_scheme, 'f) agent \<Rightarrow> ctx \<Rightarrow> nat \<Rightarrow> nat \<Rightarrow> llm_tool_call list \<Rightarrow> addr \<Rightarrow> ('a world_scheme, 'f) ag \<Rightarrow>
     ('a world_scheme, 'f) ag \<times> (nat \<times> llm_tool_result) list \<times> nat list \<times> bool" where
  "queueTools a c iter k [] cur s = (s, [], [], False)"
| "queueTools a c iter k (call # calls) cur s =
     (case ag_report a (run_ctx c s) cur iter ''tool_call'' (callFields a call) s of
        (s1, stop1) \<Rightarrow>
      case gate a c cur iter call s1 of
        (s2, Some res, stop2) \<Rightarrow>
          (case ag_report a (run_ctx c s2) cur iter ''tool_result'' (resultFields a call res) s2 of
             (s3, stop3) \<Rightarrow>
               (case queueTools a c iter (Suc k) calls cur s3 of
                  (s4, denied, q, stop4) \<Rightarrow> (s4, (k, res) # denied, q, stop1 \<or> stop2 \<or> stop3 \<or> stop4)))
      | (s2, None, stop2) \<Rightarrow>
          (case queueTools a c iter (Suc k) calls cur s2 of
             (s4, denied, q, stop4) \<Rightarrow> (s4, denied, k # q, stop1 \<or> stop2 \<or> stop4)))"

fun drain_queue ::
  "('a world_scheme, 'f) agent \<Rightarrow> ctx \<Rightarrow> nat \<Rightarrow> string \<Rightarrow> llm_tool_call list \<Rightarrow> addr \<Rightarrow> nat list \<Rightarrow> ('a world_scheme, 'f) ag \<Rightarrow>
     ('a world_scheme, 'f) ag \<times> (nat \<times> llm_tool_result) list \<times> bool" where
  "drain_queue a c iter base calls cur [] s = (s, [], False)"
| "drain_queue a c iter base calls cur (i # is) s =
     (case Clone (g_w s) cur of
        (w1, cl) \<Rightarrow>
      case runTool a c base (calls ! i) cl (s\<lparr>g_w := w1\<rparr>) of
        (s1, res, out) \<Rightarrow>
      let stop = (StopRequested (heap (g_w s1) cl) \<or> StopRequested (heap (g_w s1) out)) in
      case ag_report a (run_ctx c s1) cur iter ''tool_result'' (resultFields a (calls ! i) res) s1 of
        (s2, stop2) \<Rightarrow>
          (case drain_queue a c iter base calls cur is s2 of
             (s3, rs, stop3) \<Rightarrow> (s3, (i, res) # rs, stop \<or> stop2 \<or> stop3)))"

definition no_result :: llm_tool_result where
  "no_result = \<lparr>tr_ToolCallID = [], tr_Tool = [], tr_Content = [], tr_IsError = False\<rparr>"

definition place_results :: "nat \<Rightarrow> (nat \<times> llm_tool_result) list \<Rightarrow> llm_tool_result list" where
  "place_results n rs = map (\<lambda>i. case map_of rs i of Some r \<Rightarrow> r | None \<Rightarrow> no_result) [0..<n]"

definition run_parallel ::
  "('a world_scheme, 'f) agent \<Rightarrow> ctx \<Rightarrow> nat \<Rightarrow> string \<Rightarrow> llm_tool_call list \<Rightarrow> addr \<Rightarrow> ('a world_scheme, 'f) ag \<Rightarrow>
     ('a world_scheme, 'f) ag \<times> llm_tool_result list \<times> bool \<times> addr" where
  "run_parallel a c iter base calls cur s =
     (case queueTools a c iter 0 calls cur s of
        (s1, denied, q, stop1) \<Rightarrow>
          (case drain_queue a c iter base calls cur (a_order a q) s1 of
             (s2, rs, stop2) \<Rightarrow> (s2, place_results (length calls) (denied @ rs), stop1 \<or> stop2, cur)))"

definition runTools ::
  "('a world_scheme, 'f) agent \<Rightarrow> ctx \<Rightarrow> nat \<Rightarrow> string \<Rightarrow> llm_tool_call list \<Rightarrow> addr \<Rightarrow> ('a world_scheme, 'f) ag \<Rightarrow>
     ('a world_scheme, 'f) ag \<times> llm_tool_result list \<times> bool \<times> addr" where
  "runTools a c iter base calls cur s =
     (if 1 < a_toolWorkers a \<and> 1 < length calls then run_parallel a c iter base calls cur s
      else run_sequential a c iter base calls cur [] False s)"

section \<open>The loop\<close>

datatype turn_end = Ended agent_exit outcome | GoOn addr "llm_message list"

definition takeToolTurn ::
  "('a world_scheme, 'f) agent \<Rightarrow> ctx \<Rightarrow> nat \<Rightarrow> string \<Rightarrow> llm_response \<Rightarrow> addr \<Rightarrow> llm_message list \<Rightarrow>
     ('a world_scheme, 'f) ag \<Rightarrow> ('a world_scheme, 'f) ag \<times> turn_end" where
  "takeToolTurn a c iter base resp cur ms s =
     (case runTools a c iter base (rp_ToolCalls resp) cur s of
        (s1, results, stopped, cur') \<Rightarrow>
          let ms' = ms @ [tool_turn results];
              s2 = arrive (ag_checkpoint a ms' iter s1) in
          if ru_stopped (g_run s2)
          then (case haltOnSignal a c cur' iter ms' s2 of (s3, x, r) \<Rightarrow> (s3, Ended x r))
          else if stopped \<or> StopRequested (heap (g_w s2) cur')
          then (case halt a c cur' iter ''a tool branch stopped the run'' ms' s2 of (s3, x, r) \<Rightarrow> (s3, Ended x r))
          else (s2, GoOn cur' ms'))"

definition refused ::
  "('a world_scheme, 'f) agent \<Rightarrow> ctx \<Rightarrow> addr \<Rightarrow> addr \<Rightarrow> nat \<Rightarrow> llm_message list \<Rightarrow> ('a world_scheme, 'f) ag \<Rightarrow>
     ('a world_scheme, 'f) ag \<times> turn_end" where
  "refused a c orig cur iter ms s =
     (let s1 = ag_record a (Ctx False) orig [] (Suc iter) ''refused'' s;
          s2 = persistMemory a (a_compaction a) ms s1 in
      case fallback a (run_ctx c s2) cur iter ''model refused'' s2 of (s3, r) \<Rightarrow> (s3, Ended RefusedByModel r))"

definition agent_iteration ::
  "('a world_scheme, 'f) agent \<Rightarrow> ctx \<Rightarrow> addr \<Rightarrow> string \<Rightarrow> llm_message list \<Rightarrow> nat \<Rightarrow> addr \<Rightarrow> llm_message list \<Rightarrow>
     ('a world_scheme, 'f) ag \<Rightarrow> ('a world_scheme, 'f) ag \<times> turn_end" where
  "agent_iteration a c orig base preamble iter cur ms s =
     (case injectPending a c cur iter s ms of
        (s1, ms1) \<Rightarrow>
      case ag_fit a c cur iter (int (estimateTokens preamble)) s1 ms1 of
        (s2, ms2) \<Rightarrow>
      case callModel a c cur iter preamble ms2 s2 of
        (s3, resp, e) \<Rightarrow>
      let ms3 = shedAttachments (a_keepAttachments a) iter ms2 in
      case (resp, e) of
        (_, Some x) \<Rightarrow> (case callFailed a c cur iter (stoppedTranscript ms3 resp) x s3 of (s4, ex, r) \<Rightarrow> (s4, Ended ex r))
      | (None, None) \<Rightarrow> (s3, Ended CallFailed Dropped)
      | (Some resp, None) \<Rightarrow>
          (case absorbResponse a cur (estimateTokens ms2) resp ms3 s3 of
             (s4, ms4) \<Rightarrow>
               if rp_Stop resp = LLMStopRefusal then refused a c orig cur iter ms4 s4
               else if rp_ToolCalls resp = []
               then (case tryFinish a c cur iter ms4 resp s4 of
                       (s5, True) \<Rightarrow> (s5, Ended Finished (Out cur))
                     | (s5, False) \<Rightarrow> (s5, GoOn cur ms4))
               else takeToolTurn a c iter base resp cur ms4 s4))"

fun agent_loop ::
  "('a world_scheme, 'f) agent \<Rightarrow> ctx \<Rightarrow> addr \<Rightarrow> string \<Rightarrow> llm_message list \<Rightarrow> nat \<Rightarrow> nat \<Rightarrow> addr \<Rightarrow> llm_message list \<Rightarrow>
     ('a world_scheme, 'f) ag \<Rightarrow> ('a world_scheme, 'f) ag \<times> agent_exit \<times> outcome" where
  "agent_loop a c orig base preamble 0 iter cur ms s = outOfTurns a c cur ms s"
| "agent_loop a c orig base preamble (Suc n) iter cur ms s =
     (case agent_iteration a c orig base preamble iter cur ms s of
        (s1, Ended x r) \<Rightarrow> (s1, x, r)
      | (s1, GoOn cur' ms') \<Rightarrow> agent_loop a c orig base preamble n (Suc iter) cur' ms' s1)"

text \<open>
  The run of a claimed conversation: the session and the opening, the preamble, the loop, and
  the close of the run on the way out. \<open>opening\<close> is the evaluated opening turn and \<open>files\<close> its
  attachments.
\<close>

definition initConversation ::
  "('w, 'f) agent \<Rightarrow> (err, session) res \<Rightarrow> (err, string) res \<Rightarrow> (err, llm_attachment list) res \<Rightarrow> 'w \<Rightarrow>
     'w \<times> (err, session \<times> llm_message list \<times> 'f meter) res" where
  "initConversation a sess opening files w =
     (case sess of
        Inl e \<Rightarrow> (w, Inl e)
      | Inr s0 \<Rightarrow>
          (case opening of
             Inl e \<Rightarrow> (w, Inl e)
           | Inr o_text \<Rightarrow>
               (case files of
                  Inl e \<Rightarrow> (w, Inl (Wrap ''ai-agent attachments'' e))
                | Inr fs \<Rightarrow>
                    (case loadWorking (a_mem a) (s0\<lparr>se_opening := o_text\<rparr>) w of
                       (w1, s1, Inl e) \<Rightarrow> (w1, Inl e)
                     | (w1, s1, Inr env) \<Rightarrow>
                         (w1, Inr (s1, env_Messages env @ [(user_turn o_text)\<lparr>lm_Attachments := fs\<rparr>],
                            meter_seed (a_fo a) (estimateTokens (env_Messages env)) (env_Tokens env) (newContextMeter (a_fo a))))))))"

definition agent_run_body ::
  "('a world_scheme, 'f) agent \<Rightarrow> ctx \<Rightarrow> string \<Rightarrow> (err, session) res \<Rightarrow> (err, string) res \<Rightarrow> (err, llm_attachment list) res \<Rightarrow>
     agent_run \<Rightarrow> delivery list list \<Rightarrow> bool list \<Rightarrow> addr \<Rightarrow> 'a world_scheme \<Rightarrow>
     ('a world_scheme, 'f) ag option \<times> agent_exit \<times> outcome" where
  "agent_run_body a c base sess opening files r script clock cur w =
     (case initConversation a sess opening files w of
        (w1, Inl e) \<Rightarrow> (None, CallFailed, Failed e)
      | (w1, Inr (s0, ms, meter)) \<Rightarrow>
          (case memoryPreamble (a_mem a) s0 w1 of
             (w2, preamble) \<Rightarrow>
               (case agent_loop a c cur base preamble (a_maxIterations a) 0 cur ms
                       \<lparr>g_w = w2, g_run = r, g_script = script, g_clock = clock, g_sess = s0, g_meter = meter, g_tape = []\<rparr> of
                  (s, x, res) \<Rightarrow> (Some (s\<lparr>g_run := run_close (g_run s)\<rparr>), x, res))))"

end
