(* ===== verification/Octo_Agent_Safety.thy ===== *)
theory Octo_Agent_Safety
  imports Octo_Agent "HOL-Library.Multiset"
begin

text \<open>
  What holds of every run of the agent. The loop refines a small transition system over the run
  and the tape (\<open>move\<close>): every operation of the loop is a sequence of its moves. The properties
  are then invariants of the moves: the transcripts sent and stored are replayable, no accepted
  message is lost by an answer, a gated tool runs only with a person's consent, and the model is
  called at most once per iteration.
\<close>

section \<open>The moves\<close>

definition is_report :: "agent_obs \<Rightarrow> bool" where
  "is_report x = (case x of Reported k i \<Rightarrow> True | _ \<Rightarrow> False)"

text \<open>A stretch of tape without the reports.\<close>

definition heard :: "agent_obs list \<Rightarrow> agent_obs list" where
  "heard u = filter (\<lambda>x. \<not> is_report x) u"

lemma heard_simps [simp]:
  "heard [] = []" "heard (x # u) = (if is_report x then heard u else x # heard u)" "heard (u @ v) = heard u @ heard v"
  by (simp_all add: heard_def)

lemma is_report_simps [simp]:
  "is_report (Reported k i)" "\<not> is_report (Injected m)" "\<not> is_report (Unanswered m)"
  by (simp_all add: is_report_def)

text \<open>A person's consent to a call: its gate was announced, and then answered with a yes.\<close>

definition consented :: "llm_tool_call \<Rightarrow> agent_obs list \<Rightarrow> bool" where
  "consented call t \<longleftrightarrow> (\<exists>i u v. t = u @ GateAsked i (tc_ID call) # v \<and> Answered i True \<in> set v)"

text \<open>A tool is always gated when its condition never evaluates to false; a failing condition denies.\<close>

definition always_gated :: "('w, 'f) agent \<Rightarrow> string \<Rightarrow> bool" where
  "always_gated a tool \<longleftrightarrow> (\<exists>p. map_of (a_gates a) tool = Some p \<and> (\<forall>call w m. p call w m \<noteq> Inr (GBool False)))"

definition may_run :: "('w, 'f) agent \<Rightarrow> llm_tool_call \<Rightarrow> agent_obs list \<Rightarrow> bool" where
  "may_run a call t \<longleftrightarrow> (always_gated a (tc_Name call) \<longrightarrow> consented call t)"

text \<open>\<open>A\<close> holds of the transcripts sent to the model, \<open>T\<close> of those written to memory.\<close>

inductive move ::
  "('w, 'f) agent \<Rightarrow> (llm_message list \<Rightarrow> bool) \<Rightarrow> (llm_message list \<Rightarrow> bool) \<Rightarrow>
     agent_run \<times> agent_obs list \<Rightarrow> agent_run \<times> agent_obs list \<Rightarrow> bool"
  for a A T where
  m_report: "move a A T (r, t) (r, t @ [Reported k i])"
| m_deliver: "move a A T (r, t) (fst (apply_delivery d r), t @ delivery_obs d r)"
| m_open: "move a A T (r, t) (fst (run_openGate i r), t @ [GateAsked i tc])"
| m_shut: "move a A T (r, t) (run_closeGate i r, t)"
| m_run: "may_run a call t \<Longrightarrow> move a A T (r, t) (r, t @ [Ran call])"
| m_inject: "heard u = map Injected (ru_pending r) \<Longrightarrow> move a A T (r, t) (fst (run_take r), t @ u)"
| m_unanswered: "heard u = map Unanswered (ru_pending r) \<Longrightarrow> move a A T (r, t) (fst (run_take r), t @ u)"
| m_finish: "move a A T (r, t) (fst (run_finish r), t)"
| m_close: "move a A T (r, t) (run_close r, t)"
| m_ask: "A ms \<Longrightarrow> move a A T (r, t) (r, t @ [Asked ms])"
| m_save: "T ms \<Longrightarrow> move a A T (r, t) (r, t @ [Saved ms])"
| m_check: "T ms \<Longrightarrow> move a A T (r, t) (r, t @ [Checkpointed ms])"

abbreviation moves where "moves a A T \<equiv> (move a A T)\<^sup>*\<^sup>*"

abbreviation goes :: "('w, 'f) agent \<Rightarrow> (llm_message list \<Rightarrow> bool) \<Rightarrow> (llm_message list \<Rightarrow> bool) \<Rightarrow> ('w, 'f) ag \<Rightarrow> ('w, 'f) ag \<Rightarrow> bool" where
  "goes a A T s s' \<equiv> moves a A T (g_run s, g_tape s) (g_run s', g_tape s')"

lemma observe_ag_simps [simp]:
  "g_tape (observe_ag xs s) = g_tape s @ xs" "g_run (observe_ag xs s) = g_run s" "g_w (observe_ag xs s) = g_w s"
  "g_script (observe_ag xs s) = g_script s" "g_clock (observe_ag xs s) = g_clock s"
  "g_sess (observe_ag xs s) = g_sess s" "g_meter (observe_ag xs s) = g_meter s"
  by (simp_all add: observe_ag_def)

section \<open>Invariants of the moves\<close>

lemma consented_append: "consented call t \<Longrightarrow> consented call (t @ u)"
  unfolding consented_def by (elim exE conjE) (metis Un_iff append_Cons append_assoc set_append)

lemma may_run_append: "may_run a call t \<Longrightarrow> may_run a call (t @ u)"
  by (simp add: may_run_def consented_append)

lemma apply_delivery_step:
  "\<exists>q acc out. run_step q r = (fst (apply_delivery d r), acc, out)"
proof -
  consider "de_signal d = signalStop" | "de_signal d \<noteq> signalStop" "de_signal d = signalAuthorize"
    | "de_signal d \<noteq> signalStop" "de_signal d \<noteq> signalAuthorize" by blast
  then show ?thesis
  proof cases
    case 1
    then show ?thesis by (intro exI [of _ OpStop]) (simp add: apply_delivery_def)
  next
    case 2
    then show ?thesis by (intro exI [of _ "OpAuthorize (de_auth d) (de_allowed d)"]) (simp add: apply_delivery_def)
  next
    case 3
    then show ?thesis by (intro exI [of _ "OpOffer (de_text d)"]) (simp add: apply_delivery_def split: prod.splits)
  qed
qed

lemma gates_ok_ops:
  "gates_ok r \<Longrightarrow> gates_ok (fst (apply_delivery d r))" "gates_ok r \<Longrightarrow> gates_ok (fst (run_openGate i r))"
  "gates_ok r \<Longrightarrow> gates_ok (run_closeGate i r)" "gates_ok r \<Longrightarrow> gates_ok (fst (run_take r))"
  "gates_ok r \<Longrightarrow> gates_ok (fst (run_finish r))" "gates_ok r \<Longrightarrow> gates_ok (run_close r)"
proof -
  assume ok: "gates_ok r"
  obtain q acc out where "run_step q r = (fst (apply_delivery d r), acc, out)" using apply_delivery_step by blast
  from gates_ok_step [OF ok this] show "gates_ok (fst (apply_delivery d r))" .
  show "gates_ok (fst (run_openGate i r))" by (rule gates_ok_step [OF ok, of "OpOpenGate i"]) simp
  show "gates_ok (run_closeGate i r)" by (rule gates_ok_step [OF ok, of "OpCloseGate i"]) simp
  show "gates_ok (fst (run_take r))" by (rule gates_ok_step [OF ok, of OpTake]) (simp add: run_take_def)
  show "gates_ok (fst (run_finish r))" by (rule gates_ok_step [OF ok, of OpFinish]) simp
  show "gates_ok (run_close r)" by (rule gates_ok_step [OF ok, of OpClose]) simp
qed

lemma move_gates_ok: "move a A T x y \<Longrightarrow> gates_ok (fst x) \<Longrightarrow> gates_ok (fst y)"
  by (induction rule: move.induct) (simp_all add: gates_ok_ops)

lemma move_extends: "move a A T x y \<Longrightarrow> \<exists>u. snd y = snd x @ u"
  by (induction rule: move.induct) auto

lemma moves_gates_ok: "moves a A T x y \<Longrightarrow> gates_ok (fst x) \<Longrightarrow> gates_ok (fst y)"
  by (induction rule: rtranclp_induct) (auto dest: move_gates_ok)

lemma moves_extend: "moves a A T x y \<Longrightarrow> \<exists>u. snd y = snd x @ u"
  by (induction rule: rtranclp_induct) (force dest: move_extends)+

text \<open>Every message the run accepted was injected, reported unanswered, or still waits, in order.\<close>

definition accepted_texts :: "agent_obs list \<Rightarrow> string list" where
  "accepted_texts t = concat (map (\<lambda>x. case x of Accepted s \<Rightarrow> [s] | _ \<Rightarrow> []) t)"

definition handled_texts :: "agent_obs list \<Rightarrow> string list" where
  "handled_texts t = concat (map (\<lambda>x. case x of Injected s \<Rightarrow> [s] | Unanswered s \<Rightarrow> [s] | _ \<Rightarrow> []) t)"

lemma texts_append [simp]:
  "accepted_texts (t @ u) = accepted_texts t @ accepted_texts u" "accepted_texts [] = []"
  "handled_texts (t @ u) = handled_texts t @ handled_texts u" "handled_texts [] = []"
  by (simp_all add: accepted_texts_def handled_texts_def)

lemma texts_filter:
  "accepted_texts (heard u) = accepted_texts u"
  "handled_texts (heard u) = handled_texts u"
  by (induction u) (auto simp: accepted_texts_def handled_texts_def is_report_def split: agent_obs.splits)

lemma texts_map:
  "accepted_texts (map Injected ts) = []" "handled_texts (map Injected ts) = ts"
  "accepted_texts (map Unanswered ts) = []" "handled_texts (map Unanswered ts) = ts"
  by (induction ts) (simp_all add: accepted_texts_def handled_texts_def)

lemma texts_delivery: "handled_texts (delivery_obs d r) = []"
  "ru_pending (fst (apply_delivery d r)) = ru_pending r @ accepted_texts (delivery_obs d r)"
  by (auto simp: delivery_obs_def apply_delivery_def accepted_texts_def handled_texts_def run_op_defs Let_def
      split: option.splits)

lemma move_texts:
  "move a A T x y \<Longrightarrow> accepted_texts (snd x) = handled_texts (snd x) @ ru_pending (fst x) \<Longrightarrow>
   accepted_texts (snd y) = handled_texts (snd y) @ ru_pending (fst y)"
proof (induction rule: move.induct)
  case (m_inject u r t)
  then show ?case using texts_filter [of u] texts_map [of "ru_pending r"] by (simp add: run_take_def)
next
  case (m_unanswered u r t)
  then show ?case using texts_filter [of u] texts_map [of "ru_pending r"] by (simp add: run_take_def)
qed (simp_all add: texts_delivery, simp_all add: accepted_texts_def handled_texts_def run_op_defs)

lemma moves_texts:
  "moves a A T x y \<Longrightarrow> accepted_texts (snd x) = handled_texts (snd x) @ ru_pending (fst x) \<Longrightarrow>
   accepted_texts (snd y) = handled_texts (snd y) @ ru_pending (fst y)"
  by (induction rule: rtranclp_induct) (auto dest: move_texts)

text \<open>What was sent and stored, and what ran.\<close>

definition obs_ok :: "('w, 'f) agent \<Rightarrow> (llm_message list \<Rightarrow> bool) \<Rightarrow> (llm_message list \<Rightarrow> bool) \<Rightarrow> agent_obs list \<Rightarrow> agent_obs \<Rightarrow> bool" where
  "obs_ok a A T t x = (case x of Asked ms \<Rightarrow> A ms | Saved ms \<Rightarrow> T ms | Checkpointed ms \<Rightarrow> T ms | Ran call \<Rightarrow> may_run a call t | _ \<Rightarrow> True)"

definition tape_ok :: "('w, 'f) agent \<Rightarrow> (llm_message list \<Rightarrow> bool) \<Rightarrow> (llm_message list \<Rightarrow> bool) \<Rightarrow> agent_obs list \<Rightarrow> bool" where
  "tape_ok a A T t \<longleftrightarrow> (\<forall>u x v. t = u @ x # v \<longrightarrow> obs_ok a A T u x)"

lemma tape_ok_Nil [simp]: "tape_ok a A T []"
  by (simp add: tape_ok_def)

lemma tape_ok_append:
  assumes "tape_ok a A T t" and new: "\<And>u x v. w = u @ x # v \<Longrightarrow> obs_ok a A T (t @ u) x"
  shows "tape_ok a A T (t @ w)"
  unfolding tape_ok_def
proof (intro allI impI)
  fix u x v assume eq: "t @ w = u @ x # v"
  show "obs_ok a A T u x"
  proof (cases "length t \<le> length u")
    case True
    with eq obtain p where "u = t @ p" by (metis append_eq_append_conv_if append_take_drop_id)
    with eq new [of p x v] show ?thesis by simp
  next
    case False
    with eq have "t = u @ x # take (length t - length u - 1) v"
      by (auto simp: append_eq_append_conv2 append_eq_Cons_conv Cons_eq_append_conv)
    with assms(1) show ?thesis unfolding tape_ok_def by blast
  qed
qed

lemma tape_ok_snoc: "tape_ok a A T t \<Longrightarrow> obs_ok a A T t x \<Longrightarrow> tape_ok a A T (t @ [x])"
  by (rule tape_ok_append) (auto simp: Cons_eq_append_conv)

lemma tape_ok_quiet:
  assumes "tape_ok a A T t" and "\<And>x. x \<in> set u \<Longrightarrow> is_report x \<or> (\<exists>s b. x \<in> {Injected s, Unanswered s, Accepted s, Answered s b})"
  shows "tape_ok a A T (t @ u)"
  using assms(1)
proof (rule tape_ok_append)
  fix p x v assume "u = p @ x # v"
  with assms(2) [of x] show "obs_ok a A T (t @ p) x" by (auto simp: obs_ok_def is_report_def split: agent_obs.splits)
qed

lemma heard_map_cases:
  assumes "heard u = map f xs" and "x \<in> set u"
  shows "is_report x \<or> (\<exists>y. x = f y)"
proof (cases "is_report x")
  case False
  with assms(2) have "x \<in> set (heard u)" by (simp add: heard_def)
  then show ?thesis unfolding assms(1) by auto
qed simp

lemma move_tape_ok: "move a A T x y \<Longrightarrow> tape_ok a A T (snd x) \<Longrightarrow> tape_ok a A T (snd y)"
proof (induction rule: move.induct)
  case (m_deliver r t d)
  then show ?case by (auto intro!: tape_ok_quiet simp: delivery_obs_def split: if_splits)
next
  case (m_inject u r t)
  then show ?case using heard_map_cases [OF m_inject(1)] by (fastforce intro!: tape_ok_quiet)
next
  case (m_unanswered u r t)
  then show ?case using heard_map_cases [OF m_unanswered(1)] by (fastforce intro!: tape_ok_quiet)
qed (simp_all add: tape_ok_snoc obs_ok_def)

lemma moves_tape_ok: "moves a A T x y \<Longrightarrow> tape_ok a A T (snd x) \<Longrightarrow> tape_ok a A T (snd y)"
  by (induction rule: rtranclp_induct) (auto dest: move_tape_ok)

section \<open>Operations that leave the transcript alone\<close>

text \<open>Before any of them, the moves are transitive and grow with what may be sent.\<close>

lemma move_mono: "move a A T x y \<Longrightarrow> (\<And>ms. A ms \<Longrightarrow> A' ms) \<Longrightarrow> move a A' T x y"
  by (induction rule: move.induct) (auto intro: move.intros)

lemma moves_mono: "moves a A T x y \<Longrightarrow> (\<And>ms. A ms \<Longrightarrow> A' ms) \<Longrightarrow> moves a A' T x y"
  by (induction rule: rtranclp_induct) (auto intro: rtranclp.rtrancl_into_rtrancl move_mono)

lemmas goes_trans = rtranclp_trans [of "move a A T" for a :: "('a world_scheme, 'f) agent" and A T]

lemma goes_report:
  assumes "ag_report a c cur iter kind flds s = (s', stop)"
  shows "goes a A T s s'" and "g_run s' = g_run s"
    and "\<exists>u. g_tape s' = g_tape s @ u \<and> heard u = []"
  using assms by (auto simp: ag_report_def intro!: m_report split: prod.splits if_splits)

lemma goes_report_fst: "goes a A T s (fst (ag_report a c cur iter kind flds s))" "g_run (fst (ag_report a c cur iter kind flds s)) = g_run s"
  by (metis goes_report(1) prod.collapse, metis goes_report(2) prod.collapse)

lemma goes_deliver: fixes s :: "('a world_scheme, 'f) ag" shows "goes a A T s (deliver_one d s)"
  by (auto simp: deliver_one_def intro: m_deliver)

lemma goes_arrive: fixes s :: "('a world_scheme, 'f) ag" shows "goes a A T s (arrive s)"
proof -
  have "goes a A T s (fold deliver_one ds s)" for ds and s :: "('a world_scheme, 'f) ag"
  proof (induction ds arbitrary: s)
    case (Cons d ds)
    show ?case using goes_trans [OF goes_deliver [of a A T s d] Cons [of "deliver_one d s"]] by simp
  qed simp
  from this [of "s\<lparr>g_script := tl (g_script s)\<rparr>"] show ?thesis
    by (auto simp: arrive_def split: list.splits)
qed

lemma inject_texts_tape:
  "inject_texts a c cur iter ts s ms = (s', ms') \<Longrightarrow> g_run s' = g_run s \<and> ms' = ms @ map user_turn ts \<and>
   (\<exists>u. g_tape s' = g_tape s @ u \<and> heard u = map Injected ts)"
proof (induction ts arbitrary: s ms)
  case (Cons t ts)
  obtain s1 stop where r: "ag_report a (run_ctx c s) cur iter ''signal'' [(fieldSignal, GStr signalContext), (fieldText, GStr t)]
      (observe_ag [Injected t] s) = (s1, stop)" by fastforce
  with Cons.prems have "inject_texts a c cur iter ts s1 (ms @ [user_turn t]) = (s', ms')" by simp
  from Cons.IH [OF this] obtain u where u: "g_run s' = g_run s1" "ms' = (ms @ [user_turn t]) @ map user_turn ts"
    "g_tape s' = g_tape s1 @ u" "heard u = map Injected ts" by blast
  from goes_report(3) [OF r] obtain v where v: "g_tape s1 = (g_tape s @ [Injected t]) @ v" "heard v = []"
    by auto
  have "g_tape s' = g_tape s @ (Injected t # v @ u)" using u(3) v(1) by simp
  moreover have "heard (Injected t # v @ u) = map Injected (t # ts)"
    using u(4) v(2) by simp
  ultimately show ?case using u(1,2) goes_report(2) [OF r] by auto
qed simp

lemma goes_injectPending:
  assumes "injectPending a c cur iter s ms = (s', ms')"
  shows "goes a A T s s'" and "\<exists>ts. ms' = ms @ map user_turn ts"
proof -
  let ?s1 = "arrive s"
  from assms have "inject_texts a c cur iter (ru_pending (g_run ?s1)) (?s1\<lparr>g_run := fst (run_take (g_run ?s1))\<rparr>) ms = (s', ms')"
    by (simp add: injectPending_def run_take_def Let_def)
  from inject_texts_tape [OF this] obtain u where "g_run s' = fst (run_take (g_run ?s1))"
    and ms': "ms' = ms @ map user_turn (ru_pending (g_run ?s1))"
    and "g_tape s' = g_tape ?s1 @ u" "heard u = map Injected (ru_pending (g_run ?s1))" by auto
  then have "goes a A T ?s1 s'" by (auto intro!: r_into_rtranclp m_inject)
  with goes_arrive show "goes a A T s s'" by (rule goes_trans)
  from ms' show "\<exists>ts. ms' = ms @ map user_turn ts" by blast
qed

lemma unanswered_texts_tape:
  "g_run (unanswered_texts a c cur iter ts s) = g_run s \<and>
   (\<exists>u. g_tape (unanswered_texts a c cur iter ts s) = g_tape s @ u \<and> heard u = map Unanswered ts)"
proof (induction ts arbitrary: s)
  case (Cons t ts)
  obtain s1 stop where r: "ag_report a (run_ctx c s) cur iter ''signal'' [(fieldSignal, GStr signalUnanswered), (fieldText, GStr t)]
      (observe_ag [Unanswered t] s) = (s1, stop)" by fastforce
  from Cons.IH [of s1] obtain u where u: "g_run (unanswered_texts a c cur iter ts s1) = g_run s1"
    "g_tape (unanswered_texts a c cur iter ts s1) = g_tape s1 @ u" "heard u = map Unanswered ts" by blast
  from goes_report(3) [OF r] obtain v where v: "g_tape s1 = (g_tape s @ [Unanswered t]) @ v" "heard v = []"
    by auto
  have "g_tape (unanswered_texts a c cur iter ts s1) = g_tape s @ (Unanswered t # v @ u)" using u(2) v(1) by simp
  moreover have "heard (Unanswered t # v @ u) = map Unanswered (t # ts)"
    using u(3) v(2) by simp
  ultimately show ?case using u(1) r goes_report(2) [OF r] by auto
qed simp

lemma pending_done_arrive: "ru_done (g_run s) \<Longrightarrow> ru_done (g_run (arrive s)) \<and> ru_pending (g_run (arrive s)) = ru_pending (g_run s)"
proof -
  have "ru_done (g_run s) \<Longrightarrow> ru_done (g_run (fold deliver_one ds s)) \<and> ru_pending (g_run (fold deliver_one ds s)) = ru_pending (g_run s)"
    for ds and s :: "('w, 'f) ag"
  proof (induction ds arbitrary: s)
    case (Cons d ds)
    then have "ru_done (g_run (deliver_one d s)) \<and> ru_pending (g_run (deliver_one d s)) = ru_pending (g_run s)"
      by (auto simp: deliver_one_def apply_delivery_def run_op_defs split: option.splits)
    with Cons.IH [of "deliver_one d s"] show ?case by simp
  qed simp
  from this [of "s\<lparr>g_script := tl (g_script s)\<rparr>"] show "ru_done (g_run s) \<Longrightarrow> ?thesis"
    by (auto simp: arrive_def split: list.splits)
qed

lemma goes_reportUnanswered:
  "goes a A T s (reportUnanswered a c cur iter s)"
  "ru_done (g_run (reportUnanswered a c cur iter s)) \<and> ru_pending (g_run (reportUnanswered a c cur iter s)) = []"
proof -
  let ?s1 = "(arrive s)\<lparr>g_run := run_close (g_run (arrive s))\<rparr>"
  let ?s2 = "arrive ?s1"
  let ?r = "fst (run_take (g_run ?s2))"
  let ?s' = "reportUnanswered a c cur iter s"
  have eq: "?s' = unanswered_texts a c cur iter (ru_pending (g_run ?s2)) (?s2\<lparr>g_run := ?r\<rparr>)"
    by (simp add: reportUnanswered_def Let_def run_take_def)
  from unanswered_texts_tape [of a c cur iter "ru_pending (g_run ?s2)" "?s2\<lparr>g_run := ?r\<rparr>"] obtain u
    where u: "g_run ?s' = ?r" "g_tape ?s' = g_tape ?s2 @ u" "heard u = map Unanswered (ru_pending (g_run ?s2))"
    unfolding eq by auto
  have "goes a A T (arrive s) ?s1" by (auto intro: m_close)
  moreover have "goes a A T ?s2 ?s'" using u by (auto intro!: r_into_rtranclp m_unanswered)
  ultimately show "goes a A T s ?s'" using goes_arrive [of a A T s] goes_arrive [of a A T ?s1] by (metis (no_types, lifting) goes_trans)
  show "ru_done (g_run ?s') \<and> ru_pending (g_run ?s') = []"
    using u(1) pending_done_arrive [of ?s1] by (simp add: run_take_def run_close_def)
qed

lemma ag_record_run: "g_run (ag_record a c cur x n reason s) = g_run s" "g_tape (ag_record a c cur x n reason s) = g_tape s"
  "g_meter (ag_record a c cur x n reason s) = g_meter s"
  by (simp_all add: ag_record_def split: prod.splits)

lemma goes_record: "goes a A T s (ag_record a c cur x n reason s)"
  by (simp add: ag_record_run)

lemma goes_fallback:
  assumes "fallback a c cur iter reason s = (s', r)"
  shows "goes a A T s s'" and "g_run s' = g_run s"
proof -
  let ?s1 = "fst (ag_report a c cur iter ''guardrail'' [(''reason'', GStr reason)] s)"
  have "g_run s' = g_run ?s1 \<and> g_tape s' = g_tape ?s1"
    using assms by (auto simp: fallback_def Let_def split: option.splits prod.splits)
  moreover have "g_run ?s1 = g_run s" by (rule goes_report_fst(2))
  moreover have "goes a A T s ?s1" by (rule goes_report_fst(1))
  ultimately show "goes a A T s s'" and "g_run s' = g_run s" by simp_all
qed

lemma goes_stream:
  "stream_events a c cur iter ds s = (s', stop) \<Longrightarrow> goes a A T s s'"
proof (induction a c cur iter ds s rule: stream_events.induct)
  case (2 a c cur iter kind flds ds s)
  obtain s1 st where r: "ag_report a c cur iter kind flds s = (s1, st)" by fastforce
  with 2 show ?case using goes_report(1) [OF r, of A T] by (cases st) (auto dest: goes_trans)
qed simp

section \<open>The gate\<close>

lemma delivery_answers:
  assumes "ru_answers r ch = None" and "\<forall>j. ru_gates r j = Some ch \<longrightarrow> j = i"
  shows "(\<forall>b. ru_answers (fst (apply_delivery d r)) ch = Some b \<longrightarrow> Answered i b \<in> set (delivery_obs d r)) \<and>
    (\<forall>j. ru_gates (fst (apply_delivery d r)) j = Some ch \<longrightarrow> j = i) \<and>
    (ru_answers (fst (apply_delivery d r)) ch \<noteq> None \<longrightarrow> (\<forall>j. ru_gates (fst (apply_delivery d r)) j \<noteq> Some ch))"
proof (cases "de_signal d = signalAuthorize \<and> de_signal d \<noteq> signalStop \<and> ru_gates r (de_auth d) \<noteq> None")
  case False
  then have "ru_answers (fst (apply_delivery d r)) = ru_answers r" "ru_gates (fst (apply_delivery d r)) = ru_gates r"
    by (auto simp: apply_delivery_def run_op_defs Let_def)
  with assms show ?thesis by simp
next
  case True
  then obtain c where c: "ru_gates r (de_auth d) = Some c" by blast
  with True have eq: "apply_delivery d r =
      (r\<lparr>ru_gates := (ru_gates r)(de_auth d := None), ru_answers := (ru_answers r)(c \<mapsto> de_allowed d)\<rparr>, True)"
    "delivery_obs d r = [Answered (de_auth d) (de_allowed d)]"
    by (auto simp: apply_delivery_def delivery_obs_def run_authorize_def)
  show ?thesis
  proof (cases "c = ch")
    case True
    with c assms(2) have "de_auth d = i" by blast
    with eq True assms(2) show ?thesis by auto
  next
    case False
    with eq assms show ?thesis by auto
  qed
qed

text \<open>An answer found in the channel of a gate was delivered for its id.\<close>

lemma arrive_answers:
  assumes "ru_answers (g_run s) ch = None" and "\<forall>j. ru_gates (g_run s) j = Some ch \<longrightarrow> j = i"
    and "ru_answers (g_run (arrive s)) ch = Some b"
  shows "\<exists>u. g_tape (arrive s) = g_tape s @ u \<and> Answered i b \<in> set u"
proof -
  have none: "(\<forall>j. ru_gates (g_run s) j \<noteq> Some ch) \<Longrightarrow>
      ru_answers (g_run (fold deliver_one ds s)) ch = ru_answers (g_run s) ch \<and> (\<exists>u. g_tape (fold deliver_one ds s) = g_tape s @ u)"
    for ds and s :: "('w, 'f) ag"
  proof (induction ds arbitrary: s)
    case (Cons d ds)
    then have "(\<forall>j. ru_gates (g_run (deliver_one d s)) j \<noteq> Some ch) \<and>
        ru_answers (g_run (deliver_one d s)) ch = ru_answers (g_run s) ch"
      by (auto simp: deliver_one_def apply_delivery_def run_op_defs Let_def split: option.splits)
    with Cons.IH [of "deliver_one d s"] show ?case by (auto simp: deliver_one_def)
  qed simp
  have "ru_answers (g_run s) ch = None \<Longrightarrow> (\<forall>j. ru_gates (g_run s) j = Some ch \<longrightarrow> j = i) \<Longrightarrow>
      ru_answers (g_run (fold deliver_one ds s)) ch = Some b \<Longrightarrow>
      \<exists>u. g_tape (fold deliver_one ds s) = g_tape s @ u \<and> Answered i b \<in> set u" for ds and s :: "('w, 'f) ag"
  proof (induction ds arbitrary: s)
    case (Cons d ds)
    let ?s = "deliver_one d s"
    note D = delivery_answers [OF Cons.prems(1,2), of d]
    have t: "g_tape ?s = g_tape s @ delivery_obs d (g_run s)" and r: "g_run ?s = fst (apply_delivery d (g_run s))"
      by (simp_all add: deliver_one_def)
    show ?case
    proof (cases "ru_answers (g_run ?s) ch")
      case None
      with Cons.IH [of ?s] Cons.prems(3) D r obtain u where "g_tape (fold deliver_one ds ?s) = g_tape ?s @ u" "Answered i b \<in> set u"
        by auto
      then show ?thesis using t by auto
    next
      case (Some b')
      with D r none [of ?s ds] Cons.prems(3) obtain u
        where "b' = b" and "g_tape (fold deliver_one ds ?s) = g_tape ?s @ u" by auto
      moreover from Some D r have "Answered i b' \<in> set (delivery_obs d (g_run s))" by auto
      ultimately show ?thesis using t by auto
    qed
  qed simp
  from this [of "s\<lparr>g_script := tl (g_script s)\<rparr>"] assms show ?thesis
    by (auto simp: arrive_def split: list.splits)
qed

text \<open>Asking for authorization: the gate is announced, answers arrive, the gate is closed.\<close>

lemma goes_askAuthorization:
  assumes "askAuthorization a c cur iter i call s = (s', verdict, stopped)" and ok: "gates_ok (g_run s)"
  shows "goes a A T s s'" and "verdict = Inr () \<Longrightarrow> consented call (g_tape s')"
proof -
  let ?r = "fst (run_openGate i (g_run s))" and ?ch = "ru_chans (g_run s)"
  let ?s0 = "observe_ag [GateAsked i (tc_ID call)] (s\<lparr>g_run := ?r\<rparr>)"
  obtain s1 stop where rep: "ag_report a (run_ctx c s) cur iter ''tool_authorization'' (authorizationFields a i call) ?s0 = (s1, stop)"
    by fastforce
  have open_gate: "goes a A T s ?s0" by (auto intro: m_open)
  then have s1: "goes a A T s s1" using goes_report(1) [OF rep] by (rule goes_trans)
  have fresh: "ru_answers (g_run s1) ?ch = None \<and> (\<forall>j. ru_gates (g_run s1) j = Some ?ch \<longrightarrow> j = i)"
    using ok goes_report(2) [OF rep] unfolding gates_ok_def run_openGate_def by fastforce
  have shut: "goes a A T x (x\<lparr>g_run := run_closeGate i (g_run x)\<rparr>)" for x
    by (auto intro: m_shut)
  have "goes a A T s s' \<and> (verdict = Inr () \<longrightarrow> consented call (g_tape s'))"
  proof (cases stop)
    case True
    with assms rep have "s' = s1\<lparr>g_run := run_closeGate i (g_run s1)\<rparr>" "verdict \<noteq> Inr ()"
      by (auto simp: askAuthorization_def run_openGate_def)
    with goes_trans [OF s1 shut [of s1]] show ?thesis by simp
  next
    case False
    let ?s2 = "arrive s1"
    let ?s3 = "?s2\<lparr>g_clock := tl (g_clock ?s2)\<rparr>"
    have s3: "goes a A T s ?s3" using goes_trans [OF s1 goes_arrive [of a A T s1]] by simp
    let ?told = "\<lambda>allowed. ag_report a (run_ctx c ?s3) cur iter ''signal''
            [(fieldSignal, GStr signalAuthorize), (fieldAuthorizationID, GStr i), (fieldAllowed, GBool allowed)] ?s3"
    have eq: "askAuthorization a c cur iter i call s =
       (let fired = (case g_clock ?s2 of [] \<Rightarrow> False | b # bs \<Rightarrow> b); shut = (\<lambda>x. x\<lparr>g_run := run_closeGate i (g_run x)\<rparr>) in
        if fired then (shut ?s3, Inl ''nobody authorized this call within the time allowed'', False)
        else (case ru_answers (g_run ?s2) ?ch of
                Some allowed \<Rightarrow> (shut (fst (?told allowed)), (if allowed then Inr () else Inl ''a person denied this call''), False)
              | None \<Rightarrow> (shut ?s3, Inl (if cancelled (run_ctx c ?s3) then ''the run ended before this call was authorized''
                          else ''nobody authorized this call within the time allowed''), False)))"
      using rep False by (simp add: askAuthorization_def run_openGate_def Let_def)
    from assms(1) consider
        "s' = ?s3\<lparr>g_run := run_closeGate i (g_run ?s3)\<rparr>" "verdict \<noteq> Inr ()"
      | allowed s4 where "ru_answers (g_run ?s2) ?ch = Some allowed" and "verdict = Inr () \<longrightarrow> allowed"
          and "s4 = fst (?told allowed)" and "s' = s4\<lparr>g_run := run_closeGate i (g_run s4)\<rparr>"
      unfolding eq Let_def by (force split: if_splits option.splits)
    then show ?thesis
    proof cases
      case 1
      with goes_trans [OF s3 shut [of ?s3]] show ?thesis by simp
    next
      case (2 allowed s4)
      obtain st where told: "?told allowed = (s4, st)" using 2(3) by (metis prod.collapse)
      have s4: "goes a A T s s4" using s3 goes_report(1) [OF told] by (rule goes_trans)
      have "consented call (g_tape s')" if "allowed"
      proof -
        from arrive_answers [of s1 ?ch i allowed] fresh 2(1) that obtain u
          where u: "g_tape ?s2 = g_tape s1 @ u" "Answered i True \<in> set u" by auto
        moreover obtain v where "g_tape s1 = (g_tape s @ [GateAsked i (tc_ID call)]) @ v"
          using goes_report(3) [OF rep] by auto
        ultimately have "g_tape ?s2 = g_tape s @ GateAsked i (tc_ID call) # (v @ u)" by simp
        with u(2) have "consented call (g_tape ?s2)" unfolding consented_def by (metis Un_iff set_append)
        moreover obtain w where "g_tape s4 = g_tape ?s2 @ w" using goes_report(3) [OF told] by auto
        ultimately show ?thesis using 2(4) consented_append by simp
      qed
      with 2(2,4) goes_trans [OF s4 shut [of s4]] show ?thesis by auto
    qed
  qed
  then show "goes a A T s s'" and "verdict = Inr () \<Longrightarrow> consented call (g_tape s')" by blast+
qed

lemma goes_gate:
  assumes "gate a c cur iter call s = (s', denial, stopped)" and ok: "gates_ok (g_run s)"
  shows "goes a A T s s'" and "denial = None \<Longrightarrow> may_run a call (g_tape s')"
    and "denial = Some res \<Longrightarrow> tr_ToolCallID res = tc_ID call"
proof -
  from assms(1) consider
      "s' = s" "map_of (a_gates a) (tc_Name call) = None" "denial = None"
    | e where "s' = s" "denial = Some (denialResult call e)"
    | p where "s' = s" "map_of (a_gates a) (tc_Name call) = Some p" "gateApplies p call (g_w s) (heap (g_w s) cur) = Inr False" "denial = None"
    | w1 i verdict where "askAuthorization a c cur iter i call (s\<lparr>g_w := w1\<rparr>) = (s', verdict, stopped)"
        "denial = (case verdict of Inr _ \<Rightarrow> None | Inl reason \<Rightarrow> Some (denialResult call reason))"
    by (auto simp: gate_def split: option.splits sum.splits bool.splits prod.splits)
  then have "goes a A T s s' \<and> (denial = None \<longrightarrow> may_run a call (g_tape s')) \<and> (denial = Some res \<longrightarrow> tr_ToolCallID res = tc_ID call)"
  proof cases
    case 1
    then show ?thesis by (simp add: may_run_def always_gated_def)
  next
    case (2 e)
    then show ?thesis by (auto simp: denialResult_def)
  next
    case (3 p)
    then have "\<not> always_gated a (tc_Name call)"
      by (auto simp: always_gated_def gateApplies_def split: sum.splits gval.splits)
    with 3 show ?thesis by (simp add: may_run_def)
  next
    case (4 w1 i verdict)
    have "goes a A T (s\<lparr>g_w := w1\<rparr>) s'" using goes_askAuthorization(1) [OF 4(1)] ok by simp
    moreover have "verdict = Inr () \<Longrightarrow> consented call (g_tape s')" using goes_askAuthorization(2) [OF 4(1)] ok by simp
    ultimately show ?thesis using 4(2) by (auto simp: may_run_def denialResult_def split: sum.splits)
  qed
  then show "goes a A T s s'" and "denial = None \<Longrightarrow> may_run a call (g_tape s')"
    and "denial = Some res \<Longrightarrow> tr_ToolCallID res = tc_ID call" by blast+
qed

section \<open>The calls of a turn\<close>

lemma goes_runTool:
  assumes "runTool a c base call cur s = (s', res, b)" and "may_run a call (g_tape s)"
  shows "goes a A T s s'"
  using assms by (auto simp: runTool_def intro!: r_into_rtranclp m_run split: prod.splits)

text \<open>Whatever becomes of a call, its result carries the call's id.\<close>

lemma reply_ids [simp]: "tr_ToolCallID (errorResult call x) = tc_ID call" "tr_ToolCallID (tool_reply call x) = tc_ID call"
  "tr_ToolCallID (denialResult call x) = tc_ID call"
  by (simp_all add: errorResult_def tool_reply_def denialResult_def)

lemma runMemoryTool_id: "runMemoryTool cf args ss call w = (w', Some res) \<Longrightarrow> tr_ToolCallID res = tc_ID call"
  by (auto simp: runMemoryTool_def remember_def forget_def searchMemory_def Let_def
      split: if_splits option.splits prod.splits sum.splits mem_error.splits list.splits)

lemma loadSkill_id: "tr_ToolCallID (loadSkill a call w m) = tc_ID call"
  by (auto simp: loadSkill_def split: option.splits list.splits sum.splits)

lemma runTool_id:
  assumes "runTool a c base call cur s = (s', res, b)"
  shows "tr_ToolCallID res = tc_ID call"
proof -
  from assms obtain w' where d: "dispatchTool a (run_ctx c s) base (g_sess s) call cur (g_w s) = (w', res, b)"
    by (auto simp: runTool_def split: prod.splits)
  show ?thesis
  proof (cases "tc_Name call = ''load_skill''")
    case True
    with d show ?thesis by (auto simp: dispatchTool_def loadSkill_id)
  next
    case False
    obtain w1 r where m: "runMemoryTool (a_mem a) (a_memArgs a) (g_sess s) call (g_w s) = (w1, r)" by fastforce
    show ?thesis
    proof (cases r)
      case None
      with False d m show ?thesis by (auto simp: dispatchTool_def split: option.splits prod.splits sum.splits)
    next
      case (Some res')
      with False d m runMemoryTool_id [of "a_mem a" "a_memArgs a" "g_sess s" call "g_w s" w1 res'] show ?thesis
        by (simp add: dispatchTool_def)
    qed
  qed
qed

text \<open>One call at a time.\<close>

lemma goes_run_sequential:
  assumes "run_sequential a c iter base calls cur results stopped s = (s', out, st, cur')" and "gates_ok (g_run s)"
  shows "goes a A T s s' \<and> map tr_ToolCallID out = map tr_ToolCallID results @ map tc_ID calls"
  using assms
proof (induction calls arbitrary: cur results stopped s)
  case (Cons call calls)
  obtain s1 stop1 where r1: "ag_report a (run_ctx c s) cur iter ''tool_call'' (callFields a call) s = (s1, stop1)" by fastforce
  obtain s2 denial stop2 where g: "gate a c cur iter call s1 = (s2, denial, stop2)" by (metis prod_cases3)
  obtain s3 res cur1 where x: "(case denial of Some res \<Rightarrow> (s2, res, cur) | None \<Rightarrow> runTool a c base call cur s2) = (s3, res, cur1)"
    by (metis prod_cases3)
  obtain s4 stop4 where r4: "ag_report a (run_ctx c s3) cur1 iter ''tool_result'' (resultFields a call res) s3 = (s4, stop4)"
    by fastforce
  have ok1: "gates_ok (g_run s1)" using Cons.prems(2) goes_report(2) [OF r1] by simp
  note G = goes_gate(1) [OF g ok1, of A T] goes_gate(2,3) [OF g ok1]
  have s3: "goes a A T s2 s3 \<and> tr_ToolCallID res = tc_ID call"
  proof (cases denial)
    case None
    with x G(2) show ?thesis using goes_runTool [of a c base call cur s2 s3 res cur1 A T] runTool_id by auto
  next
    case (Some d)
    with x G(3) show ?thesis by simp
  qed
  have s4: "goes a A T s s4"
    by (rule goes_trans [OF goes_report(1) [OF r1] goes_trans [OF G(1) goes_trans [OF conjunct1 [OF s3] goes_report(1) [OF r4]]]])
  with moves_gates_ok [OF s4] Cons.prems(2) have "gates_ok (g_run s4)" by simp
  moreover have "run_sequential a c iter base calls cur1 (results @ [res]) (stopped \<or> stop1 \<or> stop2 \<or> stop4) s4 = (s', out, st, cur')"
    using Cons.prems(1) r1 g x r4 by simp
  ultimately have "goes a A T s4 s' \<and> map tr_ToolCallID out = map tr_ToolCallID (results @ [res]) @ map tc_ID calls"
    using Cons.IH by blast
  with s3 s4 show ?case by (auto intro: goes_trans)
qed simp

text \<open>
  In parallel: what was denied and what was queued share the calls out, the queued ones are
  cleared, and the consumers finish the queued ones in some order of their own.
\<close>

definition schedules :: "('w, 'f) agent \<Rightarrow> bool" where
  "schedules a \<longleftrightarrow> (\<forall>q. mset (a_order a q) = mset q)"

definition answered_at :: "llm_tool_call list \<Rightarrow> nat \<Rightarrow> (nat \<times> llm_tool_result) list \<Rightarrow> bool" where
  "answered_at calls k rs \<longleftrightarrow>
     (\<forall>(i, r) \<in> set rs. k \<le> i \<and> i < k + length calls \<and> tr_ToolCallID r = tc_ID (calls ! (i - k)))"

definition cleared_at :: "('w, 'f) agent \<Rightarrow> llm_tool_call list \<Rightarrow> nat \<Rightarrow> nat list \<Rightarrow> agent_obs list \<Rightarrow> bool" where
  "cleared_at a calls k q t \<longleftrightarrow> (\<forall>i \<in> set q. k \<le> i \<and> i < k + length calls \<and> may_run a (calls ! (i - k)) t)"

lemma answered_at_simps [simp]:
  "answered_at calls k []" "answered_at calls k ((i, r) # rs) \<longleftrightarrow>
     k \<le> i \<and> i < k + length calls \<and> tr_ToolCallID r = tc_ID (calls ! (i - k)) \<and> answered_at calls k rs"
  by (auto simp: answered_at_def)

lemma cleared_at_simps [simp]:
  "cleared_at a calls k [] t" "cleared_at a calls k (i # q) t \<longleftrightarrow>
     k \<le> i \<and> i < k + length calls \<and> may_run a (calls ! (i - k)) t \<and> cleared_at a calls k q t"
  by (auto simp: cleared_at_def)

lemma nth_shift: "Suc k \<le> i \<Longrightarrow> (x # xs) ! (i - k) = xs ! (i - Suc k)"
  by (simp add: nth_Cons' diff_Suc)

lemma answered_at_Cons: "answered_at calls (Suc k) rs \<Longrightarrow> answered_at (call # calls) k rs"
  by (auto simp: answered_at_def nth_shift)

lemma cleared_at_Cons: "cleared_at a calls (Suc k) q t \<Longrightarrow> cleared_at a (call # calls) k q t"
  by (auto simp: cleared_at_def nth_shift)

lemma cleared_at_append: "cleared_at a calls k q t \<Longrightarrow> cleared_at a calls k q (t @ u)"
  by (auto simp: cleared_at_def may_run_append)

lemma goes_queueTools:
  assumes "queueTools a c iter k calls cur s = (s', denied, q, st)" and "gates_ok (g_run s)"
  shows "goes a A T s s' \<and> answered_at calls k denied \<and> cleared_at a calls k q (g_tape s') \<and>
    {k ..< k + length calls} \<subseteq> set q \<union> fst ` set denied"
  using assms
proof (induction calls arbitrary: k s denied q st)
  case (Cons call calls)
  obtain s1 stop1 where r1: "ag_report a (run_ctx c s) cur iter ''tool_call'' (callFields a call) s = (s1, stop1)" by fastforce
  obtain s2 denial stop2 where g: "gate a c cur iter call s1 = (s2, denial, stop2)" by (metis prod_cases3)
  have ok1: "gates_ok (g_run s1)" using Cons.prems(2) goes_report(2) [OF r1] by simp
  note G = goes_gate(1) [OF g ok1, of A T] goes_gate(2,3) [OF g ok1]
  have s2: "goes a A T s s2" using goes_report(1) [OF r1] G(1) by (rule goes_trans)
  have span: "{k ..< k + length (call # calls)} = insert k {Suc k ..< Suc k + length calls}" by auto
  show ?case
  proof (cases denial)
    case None
    obtain q' st' where rest: "queueTools a c iter (Suc k) calls cur s2 = (s', denied, q', st')" and q: "q = k # q'"
      using Cons.prems(1) r1 g None by (auto split: prod.splits)
    have "gates_ok (g_run s2)" using moves_gates_ok [OF s2] Cons.prems(2) by simp
    note IH = Cons.IH [OF rest this]
    from IH obtain u where u: "g_tape s' = g_tape s2 @ u" using moves_extend by fastforce
    with IH None G(2) q show ?thesis unfolding span
      by (auto simp: cleared_at_Cons answered_at_Cons may_run_append intro: goes_trans [OF s2])
  next
    case (Some res)
    obtain s3 stop3 where r3: "ag_report a (run_ctx c s2) cur iter ''tool_result'' (resultFields a call res) s2 = (s3, stop3)" by fastforce
    obtain denied' st' where rest: "queueTools a c iter (Suc k) calls cur s3 = (s', denied', q, st')" and d: "denied = (k, res) # denied'"
      using Cons.prems(1) r1 g Some r3 by (auto split: prod.splits)
    have s3: "goes a A T s s3" using s2 goes_report(1) [OF r3] by (rule goes_trans)
    have "gates_ok (g_run s3)" using moves_gates_ok [OF s3] Cons.prems(2) by simp
    from Cons.IH [OF rest this] Some G(3) d show ?thesis unfolding span
      by (auto simp: cleared_at_Cons answered_at_Cons intro: goes_trans [OF s3])
  qed
qed simp

lemma goes_drain_queue:
  assumes "drain_queue a c iter base calls cur q s = (s', rs, st)" and "cleared_at a calls 0 q (g_tape s)"
  shows "goes a A T s s' \<and> answered_at calls 0 rs \<and> fst ` set rs = set q"
  using assms
proof (induction q arbitrary: s rs st)
  case (Cons i q)
  obtain w1 cl where cl: "Clone (g_w s) cur = (w1, cl)" by fastforce
  obtain s1 res out where x: "runTool a c base (calls ! i) cl (s\<lparr>g_w := w1\<rparr>) = (s1, res, out)" by (metis prod_cases3)
  obtain s2 stop2 where r2: "ag_report a (run_ctx c s1) cur iter ''tool_result'' (resultFields a (calls ! i) res) s1 = (s2, stop2)"
    by fastforce
  obtain rs' st' where rest: "drain_queue a c iter base calls cur q s2 = (s', rs', st')" and rs: "rs = (i, res) # rs'"
    using Cons.prems(1) cl x r2 by (auto simp: Let_def split: prod.splits)
  have "goes a A T s s1" using goes_runTool [OF x, of A T] Cons.prems(2) by simp
  then have s2: "goes a A T s s2" using goes_report(1) [OF r2] by (rule goes_trans)
  then obtain u where "g_tape s2 = g_tape s @ u" using moves_extend by fastforce
  then have "cleared_at a calls 0 q (g_tape s2)" using Cons.prems(2) by (simp add: cleared_at_append)
  from Cons.IH [OF rest this] rs runTool_id [OF x] Cons.prems(2) show ?case by (auto intro: goes_trans [OF s2])
qed simp

lemma place_results_ids:
  assumes "answered_at calls 0 rs" and "{0 ..< length calls} \<subseteq> fst ` set rs"
  shows "map tr_ToolCallID (place_results (length calls) rs) = map tc_ID calls"
proof (rule nth_equalityI)
  fix i assume "i < length (map tr_ToolCallID (place_results (length calls) rs))"
  then have i: "i < length calls" by (simp add: place_results_def)
  with assms(2) obtain r where r: "map_of rs i = Some r"
    by (metis atLeastLessThan_iff le0 map_of_eq_None_iff not_None_eq subsetD)
  with assms(1) have "tr_ToolCallID r = tc_ID (calls ! i)" by (fastforce simp: answered_at_def dest: map_of_SomeD)
  with i r show "map tr_ToolCallID (place_results (length calls) rs) ! i = map tc_ID calls ! i"
    by (simp add: place_results_def)
qed (simp add: place_results_def)

lemma goes_runTools:
  assumes "schedules a" and "runTools a c iter base calls cur s = (s', results, st, cur')" and ok: "gates_ok (g_run s)"
  shows "goes a A T s s' \<and> map tr_ToolCallID results = map tc_ID calls"
proof (cases "1 < a_toolWorkers a \<and> 1 < length calls")
  case False
  with assms(2) have "run_sequential a c iter base calls cur [] False s = (s', results, st, cur')"
    by (simp only: runTools_def if_False)
  from goes_run_sequential [OF this ok, of A T] show ?thesis by simp
next
  case True
  obtain s1 denied q stop1 where q: "queueTools a c iter 0 calls cur s = (s1, denied, q, stop1)" by (metis prod_cases4)
  obtain rs stop2 where d: "drain_queue a c iter base calls cur (a_order a q) s1 = (s', rs, stop2)"
      and res: "results = place_results (length calls) (denied @ rs)"
    using assms(2) True q by (auto simp: runTools_def run_parallel_def split: prod.splits)
  have same: "set (a_order a q) = set q" using assms(1) unfolding schedules_def by (metis set_mset_mset)
  note Q = goes_queueTools [OF q ok, of A T]
  from Q same have "cleared_at a calls 0 (a_order a q) (g_tape s1)" by (simp add: cleared_at_def)
  note D = goes_drain_queue [OF d this, of A T]
  have "answered_at calls 0 (denied @ rs)" using Q D by (auto simp: answered_at_def)
  moreover have "{0 ..< length calls} \<subseteq> fst ` set (denied @ rs)" using Q D same by (simp add: image_Un Un_commute)
  ultimately have "map tr_ToolCallID results = map tc_ID calls" using res place_results_ids by blast
  with Q D show ?thesis by (auto intro: goes_trans)
qed

section \<open>The loop\<close>

text \<open>
  What the operations on transcripts keep: \<open>S\<close> holds of the loop's transcript between two
  turns, \<open>A\<close> of what is sent, \<open>T\<close> of what is written.
\<close>

definition keeps ::
  "('a world_scheme, 'f) agent \<Rightarrow> llm_message list \<Rightarrow> (llm_message list \<Rightarrow> bool) \<Rightarrow> (llm_message list \<Rightarrow> bool) \<Rightarrow>
     (llm_message list \<Rightarrow> bool) \<Rightarrow> bool" where
  "keeps a pre S A T \<longleftrightarrow>
     (\<forall>ms x. S ms \<longrightarrow> S (ms @ [user_turn x])) \<and>
     (\<forall>ms k n m reserved w. S ms \<longrightarrow> S (snd (fitContext (a_fo a) (a_ask a) k n m reserved ms w))) \<and>
     (\<forall>ms keep iter. S ms \<longrightarrow> S (shedAttachments keep iter ms)) \<and>
     (\<forall>ms c iter req w w' ds resp. S ms \<longrightarrow> a_model a c iter req w = (w', ds, Inr resp) \<longrightarrow>
        (if rp_ToolCalls resp = [] \<or> rp_Stop resp = LLMStopRefusal then S (ms @ [rp_Raw resp])
         else \<forall>results. map tr_ToolCallID results = map tc_ID (rp_ToolCalls resp) \<longrightarrow> S (ms @ [rp_Raw resp, tool_turn results]))) \<and>
     (\<forall>ms. S ms \<longrightarrow> A (withPreamble pre ms) \<and> T ms) \<and>
     (\<forall>ms k m n w. S ms \<longrightarrow> T (snd (compactMemory (a_fo a) (a_ask a) k m n ms w)))"

lemma keepsD:
  assumes "keeps a pre S A T"
  shows "\<forall>ms x. S ms \<longrightarrow> S (ms @ [user_turn x])"
    and "\<forall>ms k n m reserved w. S ms \<longrightarrow> S (snd (fitContext (a_fo a) (a_ask a) k n m reserved ms w))"
    and "\<forall>ms keep iter. S ms \<longrightarrow> S (shedAttachments keep iter ms)"
    and "\<forall>ms c iter req w w' ds resp. S ms \<longrightarrow> a_model a c iter req w = (w', ds, Inr resp) \<longrightarrow>
        (if rp_ToolCalls resp = [] \<or> rp_Stop resp = LLMStopRefusal then S (ms @ [rp_Raw resp])
         else \<forall>results. map tr_ToolCallID results = map tc_ID (rp_ToolCalls resp) \<longrightarrow> S (ms @ [rp_Raw resp, tool_turn results]))"
    and "\<forall>ms. S ms \<longrightarrow> A (withPreamble pre ms) \<and> T ms"
    and "\<forall>ms k m n w. S ms \<longrightarrow> T (snd (compactMemory (a_fo a) (a_ask a) k m n ms w))"
proof -
  note K = assms [unfolded keeps_def]
  note K1 = conjunct2 [OF K] note K2 = conjunct2 [OF K1] note K3 = conjunct2 [OF K2] note K4 = conjunct2 [OF K3]
  show "\<forall>ms x. S ms \<longrightarrow> S (ms @ [user_turn x])" by (rule conjunct1 [OF K])
  show "\<forall>ms k n m reserved w. S ms \<longrightarrow> S (snd (fitContext (a_fo a) (a_ask a) k n m reserved ms w))"
    by (rule conjunct1 [OF K1])
  show "\<forall>ms keep iter. S ms \<longrightarrow> S (shedAttachments keep iter ms)" by (rule conjunct1 [OF K2])
  show "\<forall>ms c iter req w w' ds resp. S ms \<longrightarrow> a_model a c iter req w = (w', ds, Inr resp) \<longrightarrow>
        (if rp_ToolCalls resp = [] \<or> rp_Stop resp = LLMStopRefusal then S (ms @ [rp_Raw resp])
         else \<forall>results. map tr_ToolCallID results = map tc_ID (rp_ToolCalls resp) \<longrightarrow> S (ms @ [rp_Raw resp, tool_turn results]))"
    by (rule conjunct1 [OF K3])
  show "\<forall>ms. S ms \<longrightarrow> A (withPreamble pre ms) \<and> T ms" by (rule conjunct1 [OF K4])
  show "\<forall>ms k m n w. S ms \<longrightarrow> T (snd (compactMemory (a_fo a) (a_ask a) k m n ms w))" by (rule conjunct2 [OF K4])
qed

lemma keeps_user: "keeps a pre S A T \<Longrightarrow> S ms \<Longrightarrow> S (ms @ map user_turn ts)"
proof (induction ts arbitrary: ms)
  case (Cons t ts)
  from Cons.IH [of "ms @ [user_turn t]"] Cons.prems keepsD(1) [OF Cons.prems(1)] show ?case by simp
qed simp

lemmas keeps_fit = keepsD(2) [rule_format]
lemmas keeps_shed = keepsD(3) [rule_format]
lemmas keeps_send = keepsD(5) [rule_format]
lemmas keeps_compact = keepsD(6) [rule_format]

lemma keeps_answer:
  assumes "keeps a pre S A T" and "S ms" and "a_model a c iter req w = (w', ds, Inr resp)"
    and "rp_ToolCalls resp = [] \<or> rp_Stop resp = LLMStopRefusal"
  shows "S (ms @ [rp_Raw resp])"
  using keepsD(4) [OF assms(1), rule_format, OF assms(2,3)] assms(4) by (simp split: if_splits)

lemma keeps_tools:
  assumes "keeps a pre S A T" and "S ms" and "a_model a c iter req w = (w', ds, Inr resp)"
    and "rp_ToolCalls resp \<noteq> []" and "rp_Stop resp \<noteq> LLMStopRefusal"
    and "map tr_ToolCallID results = map tc_ID (rp_ToolCalls resp)"
  shows "S (ms @ [rp_Raw resp, tool_turn results])"
  using keepsD(4) [OF assms(1), rule_format, OF assms(2,3)] assms(4-6) by (simp split: if_splits)

lemma goes_ag_fit:
  assumes "keeps a pre S A T" and "S ms" and "ag_fit a c cur iter reserved s ms = (s', ms')"
  shows "goes a B T s s' \<and> S ms' \<and> g_run s' = g_run s"
proof -
  let ?budget = "if a_contextMaxTokens a - reserved \<le> 0 then 1 else a_contextMaxTokens a - reserved"
  let ?before = "predict (a_fo a) (g_meter s) (estimateTokens ms)"
  let ?idle = "me_last (g_meter s) = 0 \<or> a_contextMaxTokens a \<le> 0 \<or> ?before \<le> ?budget"
  show ?thesis
  proof (cases ?idle)
    case True
    with assms(2,3) show ?thesis by (simp add: ag_fit_def Let_def)
  next
    case False
    obtain s1 stop1 where r1: "ag_report a (run_ctx c s) cur iter ''compaction_start''
        (compactionFields (a_compaction a) ?before ?budget) s = (s1, stop1)" by fastforce
    obtain w2 out where f: "fitContext (a_fo a) (a_ask a) (a_compaction a) (a_contextMaxTokens a) (g_meter s) reserved ms (g_w s1) = (w2, out)"
      by fastforce
    have "s' = fst (ag_report a (run_ctx c s1) cur iter ''compaction_end''
        (compactionFields (a_compaction a) ?before (a_contextMaxTokens a) @
          [(''after'', GInt (predict (a_fo a) (g_meter s) (estimateTokens out))), (''dropped'', GInt (int (length ms) - int (length out)))])
        (s1\<lparr>g_w := w2\<rparr>)) \<and> ms' = out"
      using assms(3) unfolding ag_fit_def Let_def if_not_P [OF False] r1 f prod.case by auto
    then have s': "s' = fst (ag_report a (run_ctx c s1) cur iter ''compaction_end''
        (compactionFields (a_compaction a) ?before (a_contextMaxTokens a) @
          [(''after'', GInt (predict (a_fo a) (g_meter s) (estimateTokens out))), (''dropped'', GInt (int (length ms) - int (length out)))])
        (s1\<lparr>g_w := w2\<rparr>))" and ms': "ms' = out" by blast+
    have "goes a B T s1 s'" unfolding s' using goes_report_fst(1) [of a B T "s1\<lparr>g_w := w2\<rparr>"] by simp
    with goes_report(1) [OF r1] have "goes a B T s s'" by (rule goes_trans)
    moreover have "g_run s' = g_run s"
      unfolding s' goes_report_fst(2) using goes_report(2) [OF r1] by simp
    moreover have "S ms'" using keeps_fit [OF assms(1,2)] f ms' by (metis snd_conv)
    ultimately show ?thesis by simp
  qed
qed

lemma goes_persist:
  assumes "keeps a pre S A T" and "S ms"
  shows "goes a B T s (persistMemory a k ms s) \<and> g_run (persistMemory a k ms s) = g_run s"
proof -
  obtain w1 out where c: "compactMemory (a_fo a) (a_ask a) k (g_meter s) (a_contextMaxTokens a) ms (g_w s) = (w1, out)" by fastforce
  then have "T out" using keeps_compact [OF assms, of k "g_meter s" "a_contextMaxTokens a" "g_w s"] by simp
  then have step: "moves a B T (r, t) (r, t @ [Saved out])" for r t by (intro r_into_rtranclp m_save)
  have "g_run (persistMemory a k ms s) = g_run s \<and>
      (g_tape (persistMemory a k ms s) = g_tape s \<or> g_tape (persistMemory a k ms s) = g_tape s @ [Saved out])"
    using c by (auto simp: persistMemory_def Let_def split: prod.splits)
  with step [of "g_run s" "g_tape s"] show ?thesis by auto
qed

lemma goes_checkpoint:
  assumes "keeps a pre S A T" and "S ms"
  shows "goes a B T s (ag_checkpoint a ms iter s)"
proof -
  have step: "moves a B T (r, t) (r, t @ [Checkpointed ms])" for r t
    using keeps_send [OF assms] by (intro r_into_rtranclp m_check) blast
  have "g_run (ag_checkpoint a ms iter s) = g_run s \<and>
      (g_tape (ag_checkpoint a ms iter s) = g_tape s \<or> g_tape (ag_checkpoint a ms iter s) = g_tape s @ [Checkpointed ms])"
    by (auto simp: ag_checkpoint_def offerCheckpoint_def Let_def split: prod.splits)
  with step [of "g_run s" "g_tape s"] show ?thesis by auto
qed

lemma goes_halt:
  assumes "keeps a pre S A T" and "S ms" and "halt a c cur iter reason ms s = (s', x, r)"
  shows "goes a B T s s' \<and> x = Halted"
  using assms(3) goes_persist [OF assms(1,2), of B "ag_record a (Ctx False) cur [] (Suc iter) reason (s\<lparr>g_w := upd (g_w s) cur RequestStop\<rparr>)" CompactPrune]
  by (auto simp: halt_def Let_def ag_record_run)

lemma goes_haltOnSignal:
  assumes "keeps a pre S A T" and "S ms" and "haltOnSignal a c cur iter ms s = (s', x, r)"
  shows "goes a B T s s' \<and> x = Halted"
  using goes_halt [OF assms(1,2) assms(3) [unfolded haltOnSignal_def], of B]
    goes_report_fst(1) [of a B T s] by (blast intro: goes_trans)

lemma goes_callFailed:
  assumes "keeps a pre S A T" and "S ms" and "callFailed a c cur iter ms e s = (s', x, r)"
  shows "goes a B T s s' \<and> x \<in> {Halted, CallFailed}"
proof -
  let ?s1 = "arrive s"
  from assms(3) consider "haltOnSignal a c cur iter ms ?s1 = (s', x, r)" | reason where "halt a c cur iter reason ms ?s1 = (s', x, r)"
    | "s' = ?s1" "x = CallFailed"
    by (auto simp: callFailed_def Let_def split: if_splits call_error.splits)
  then have "goes a B T ?s1 s' \<and> x \<in> {Halted, CallFailed}"
    by cases (auto dest: goes_haltOnSignal [OF assms(1,2), of _ _ _ _ _ _ _ B] goes_halt [OF assms(1,2), of _ _ _ _ _ _ _ _ B])
  with goes_arrive [of a B T s] show ?thesis by (auto intro: goes_trans)
qed

text \<open>A stretch of the loop that asks the model at most once.\<close>

definition asks_once ::
  "('w, 'f) agent \<Rightarrow> (llm_message list \<Rightarrow> bool) \<Rightarrow> (llm_message list \<Rightarrow> bool) \<Rightarrow> agent_run \<times> agent_obs list \<Rightarrow>
     agent_run \<times> agent_obs list \<Rightarrow> bool" where
  "asks_once a A T x y \<longleftrightarrow> (\<exists>u v. moves a (\<lambda>_. False) T x u \<and> (v = u \<or> (\<exists>ms. A ms \<and> v = (fst u, snd u @ [Asked ms]))) \<and>
     moves a (\<lambda>_. False) T v y)"

definition asked_count :: "agent_obs list \<Rightarrow> nat" where
  "asked_count t = length (filter (\<lambda>x. case x of Asked ms \<Rightarrow> True | _ \<Rightarrow> False) t)"

lemma asked_count_append [simp]: "asked_count (t @ u) = asked_count t + asked_count u"
  by (simp add: asked_count_def)

lemma asked_count_heard: "asked_count (heard u) = asked_count u"
  by (induction u) (auto simp: asked_count_def is_report_def split: agent_obs.splits)

lemma asked_count_map: "asked_count (map Injected ts) = 0" "asked_count (map Unanswered ts) = 0"
  by (induction ts) (simp_all add: asked_count_def)

lemma move_asked_count: "move a (\<lambda>_. False) T x y \<Longrightarrow> asked_count (snd y) = asked_count (snd x)"
proof (induction rule: move.induct)
  case (m_inject u r t)
  then show ?case using asked_count_heard [of u] by (simp add: asked_count_map)
next
  case (m_unanswered u r t)
  then show ?case using asked_count_heard [of u] by (simp add: asked_count_map)
qed (simp_all add: asked_count_def delivery_obs_def)

lemma moves_asked_count: "moves a (\<lambda>_. False) T x y \<Longrightarrow> asked_count (snd y) = asked_count (snd x)"
  by (induction rule: rtranclp_induct) (auto dest: move_asked_count)

lemma asks_once_count: "asks_once a A T x y \<Longrightarrow> asked_count (snd y) \<le> Suc (asked_count (snd x))"
  unfolding asks_once_def by (auto dest!: moves_asked_count) (simp add: asked_count_def)

lemma asks_once_moves:
  assumes "asks_once a A T x y"
  shows "moves a A T x y"
proof -
  from assms obtain u v where u: "moves a (\<lambda>_. False) T x u" and v: "v = u \<or> (\<exists>ms. A ms \<and> v = (fst u, snd u @ [Asked ms]))"
    and y: "moves a (\<lambda>_. False) T v y" unfolding asks_once_def by blast
  have "moves a A T x u" using u by (rule moves_mono) simp
  moreover have "moves a A T u v" using v by (cases u) (auto intro: m_ask)
  moreover have "moves a A T v y" using y by (rule moves_mono) simp
  ultimately show ?thesis by (metis rtranclp_trans)
qed

lemma asks_onceI: "moves a (\<lambda>_. False) T x y \<Longrightarrow> asks_once a A T x y"
  unfolding asks_once_def by blast

lemma asks_onceE:
  assumes "asks_once a A T x y"
  obtains u v where "moves a (\<lambda>_. False) T x u" and "v = u \<or> (\<exists>ms. A ms \<and> v = (fst u, snd u @ [Asked ms]))"
    and "moves a (\<lambda>_. False) T v y"
  using assms unfolding asks_once_def by (elim exE conjE) (rule that)

lemma asks_once_before:
  assumes "moves a (\<lambda>_. False) T x y" and "asks_once a A T y z"
  shows "asks_once a A T x z"
  using assms(2)
proof (rule asks_onceE)
  fix u v assume "moves a (\<lambda>_. False) T y u" "v = u \<or> (\<exists>ms. A ms \<and> v = (fst u, snd u @ [Asked ms]))" "moves a (\<lambda>_. False) T v z"
  with rtranclp_trans [OF assms(1)] show ?thesis unfolding asks_once_def by blast
qed

lemma asks_once_after:
  assumes "asks_once a A T x y" and "moves a (\<lambda>_. False) T y z"
  shows "asks_once a A T x z"
  using assms(1)
proof (rule asks_onceE)
  fix u v assume "moves a (\<lambda>_. False) T x u" "v = u \<or> (\<exists>ms. A ms \<and> v = (fst u, snd u @ [Asked ms]))" "moves a (\<lambda>_. False) T v y"
  with rtranclp_trans [OF _ assms(2)] show ?thesis unfolding asks_once_def by blast
qed

lemma asks_completeTurn:
  assumes "A req" and "completeTurn a c cur iter req s = (s', res)"
  shows "asks_once a A T (g_run s, g_tape s) (g_run s', g_tape s')"
    and "res = Inr resp \<Longrightarrow> \<exists>w w' ds. a_model a c iter req w = (w', ds, Inr resp)"
proof -
  obtain w1 ds r where m: "a_model a c iter req (g_w s) = (w1, ds, r)" by (metis prod_cases3)
  let ?s1 = "observe_ag [Asked req] (s\<lparr>g_w := w1\<rparr>)"
  obtain s2 st where e: "stream_events a c cur iter ds ?s1 = (s2, st)" by fastforce
  have one: "asks_once a A T (g_run s, g_tape s) (g_run ?s1, g_tape ?s1)"
    using assms(1) unfolding asks_once_def by (intro exI [of _ "(g_run s, g_tape s)"] exI [of _ "(g_run ?s1, g_tape ?s1)"]) auto
  have "s' = ?s1 \<or> s' = s2" and r: "res = r \<or> res = Inl EventStop"
    using assms(2) m e by (auto simp: completeTurn_def Let_def split: if_splits prod.splits bool.splits)
  then show "asks_once a A T (g_run s, g_tape s) (g_run s', g_tape s')"
    using one goes_stream [OF e, of "\<lambda>_. False" T] asks_once_after [OF one, of "(g_run s2, g_tape s2)"] by auto
  show "res = Inr resp \<Longrightarrow> \<exists>w w' ds. a_model a c iter req w = (w', ds, Inr resp)" using m r by blast
qed

lemma asks_callModel:
  assumes "A (withPreamble pre ms)" and "callModel a c cur iter pre ms s = (s', resp, e)"
  shows "asks_once a A T (g_run s, g_tape s) (g_run s', g_tape s')"
    and "resp = Some x \<Longrightarrow> \<exists>c w w' ds. a_model a c iter (withPreamble pre ms) w = (w', ds, Inr x)"
proof -
  obtain s1 stop where r1: "ag_report a (run_ctx c s) cur iter ''turn_start'' [] s = (s1, stop)" by fastforce
  note g1 = goes_report(1) [OF r1, of "\<lambda>_. False" T]
  have "asks_once a A T (g_run s, g_tape s) (g_run s', g_tape s') \<and>
    (resp = Some x \<longrightarrow> (\<exists>c w w' ds. a_model a c iter (withPreamble pre ms) w = (w', ds, Inr x)))"
  proof (cases stop)
    case True
    with assms(2) r1 g1 show ?thesis by (auto simp: callModel_def intro: asks_onceI)
  next
    case False
    obtain s2 res where t: "completeTurn a (run_ctx c s1) cur iter (withPreamble pre ms) s1 = (s2, res)" by fastforce
    note C = asks_completeTurn(1) [where A = A and T = T, OF assms(1) t] asks_completeTurn(2) [where A = A, OF assms(1) t]
    have s2: "asks_once a A T (g_run s, g_tape s) (g_run s2, g_tape s2)" using g1 C(1) by (rule asks_once_before)
    have "goes a (\<lambda>_. False) T s2 s' \<and> (resp = Some x \<longrightarrow> res = Inr x)"
    proof (cases res)
      case (Inl f)
      with assms(2) r1 False t have "resp = None" and "s' = s2 \<or> (\<exists>flds. s' = fst (ag_report a (run_ctx c s2) cur iter ''error'' flds s2))"
        by (cases f; auto simp: callModel_def)+
      then show ?thesis using goes_report_fst(1) [of a "\<lambda>_. False" T s2] by auto
    next
      case (Inr resp')
      obtain s3 st where r3: "ag_report a (run_ctx c s2) cur iter ''turn_end'' (turnEndFields resp' (a_contextMaxTokens a)) s2 = (s3, st)"
        by fastforce
      with assms(2) r1 False t Inr have "s' = s3" "resp = Some resp'" by (auto simp: callModel_def)
      then show ?thesis using goes_report(1) [OF r3] Inr by simp
    qed
    then have after: "goes a (\<lambda>_. False) T s2 s'" and resp: "resp = Some x \<Longrightarrow> res = Inr x" by blast+
    show ?thesis using asks_once_after [OF s2 after] C(2) resp by blast
  qed
  then show "asks_once a A T (g_run s, g_tape s) (g_run s', g_tape s')"
    and "resp = Some x \<Longrightarrow> \<exists>c w w' ds. a_model a c iter (withPreamble pre ms) w = (w', ds, Inr x)" by blast+
qed

text \<open>The ways out of a turn.\<close>

lemma goes_tryFinish:
  assumes "keeps a pre S A T" and "S ms" and "tryFinish a c cur iter ms resp s = (s', fin)"
  shows "goes a B T s s'" and "fin \<Longrightarrow> ru_done (g_run s') \<and> ru_pending (g_run s') = []"
proof -
  let ?s1 = "arrive s"
  obtain r ok where f: "run_finish (g_run ?s1) = (r, ok)" by fastforce
  have r: "moves a B T (g_run ?s1, t) (r, t)" for t using m_finish [of a B T "g_run ?s1" t] f by auto
  have "goes a B T ?s1 s' \<and> (fin \<longrightarrow> ru_done (g_run s') \<and> ru_pending (g_run s') = [])"
  proof (cases ok)
    case False
    with assms(3) f r show ?thesis by (auto simp: tryFinish_def)
  next
    case True
    let ?s2 = "?s1\<lparr>g_run := r, g_w := foldResult a cur (rp_Text resp) (g_w ?s1)\<rparr>"
    let ?s3 = "fst (ag_report a (run_ctx c ?s2) cur iter ''done'' [(''text'', GStr (rp_Text resp))] ?s2)"
    let ?s4 = "ag_record a (Ctx False) cur (rp_Text resp) (Suc iter) [] ?s3"
    have s': "s' = persistMemory a (a_compaction a) ms ?s4" using assms(3) f True by (simp add: tryFinish_def Let_def)
    have "goes a B T ?s1 ?s2" using r by simp
    then have "goes a B T ?s1 ?s3" using goes_report_fst(1) by (rule goes_trans)
    then have "goes a B T ?s1 ?s4" using goes_record by (rule goes_trans)
    then have "goes a B T ?s1 s'" unfolding s' using conjunct1 [OF goes_persist [OF assms(1,2)]] by (rule goes_trans)
    moreover have "g_run s' = g_run ?s4" unfolding s' by (rule conjunct2 [OF goes_persist [OF assms(1,2)]])
    then have "g_run s' = r" unfolding ag_record_run(1) goes_report_fst(2) by simp
    moreover have "ru_done r \<and> ru_pending r = []" using f True by (auto simp: run_finish_def split: if_splits)
    ultimately show ?thesis by simp
  qed
  then show "goes a B T s s'" and "fin \<Longrightarrow> ru_done (g_run s') \<and> ru_pending (g_run s') = []"
    using goes_arrive [of a B T s] by (auto intro: goes_trans)
qed

lemma goes_outOfTurns:
  assumes "keeps a pre S A T" and "S ms" and "outOfTurns a c cur ms s = (s', x, r)"
  shows "goes a B T s s'" and "x = OutOfTurns \<and> ru_done (g_run s') \<and> ru_pending (g_run s') = []"
proof -
  let ?i = "a_maxIterations a - 1"
  let ?s1 = "reportUnanswered a c cur ?i s"
  let ?s2 = "ag_record a (Ctx False) cur [] (a_maxIterations a) ''max iterations'' ?s1"
  let ?s3 = "persistMemory a (a_compaction a) ms ?s2"
  obtain s4 r' where f: "fallback a c cur ?i ''exceeded max iterations'' ?s3 = (s4, r')" by fastforce
  with assms(3) have s': "s' = s4" "x = OutOfTurns" by (simp_all add: outOfTurns_def Let_def)
  have p: "goes a B T ?s2 ?s3 \<and> g_run ?s3 = g_run ?s2" by (rule goes_persist [OF assms(1,2)])
  have "goes a B T ?s1 ?s2" by (rule goes_record)
  with goes_reportUnanswered(1) have "goes a B T s ?s2" by (rule goes_trans)
  then have "goes a B T s ?s3" using conjunct1 [OF p] by (rule goes_trans)
  then show "goes a B T s s'" using goes_fallback(1) [OF f] unfolding s' by (rule goes_trans)
  show "x = OutOfTurns \<and> ru_done (g_run s') \<and> ru_pending (g_run s') = []"
    using s' p goes_fallback(2) [OF f] goes_reportUnanswered(2) ag_record_run(1) by metis
qed

lemma goes_refused:
  assumes "keeps a pre S A T" and "S ms" and "refused a c orig cur iter ms s = (s', e)"
  shows "goes a B T s s' \<and> (\<exists>r. e = Ended RefusedByModel r)"
proof -
  let ?s1 = "ag_record a (Ctx False) orig [] (Suc iter) ''refused'' s"
  let ?s2 = "persistMemory a (a_compaction a) ms ?s1"
  obtain s3 r where f: "fallback a (run_ctx c ?s2) cur iter ''model refused'' ?s2 = (s3, r)" by fastforce
  with assms(3) have s': "s' = s3" "e = Ended RefusedByModel r" by (simp_all add: refused_def Let_def)
  have "goes a B T s ?s1" by (rule goes_record)
  then have "goes a B T s ?s2" using conjunct1 [OF goes_persist [OF assms(1,2)]] by (rule goes_trans)
  then show ?thesis using goes_fallback(1) [OF f] s' goes_trans by blast
qed

lemma goes_takeToolTurn:
  assumes k: "keeps a pre S A T" and "schedules a" and "gates_ok (g_run s)"
    and ids: "\<And>results. map tr_ToolCallID results = map tc_ID (rp_ToolCalls resp) \<Longrightarrow> S (ms @ [tool_turn results])"
    and "takeToolTurn a c iter base resp cur ms s = (s', e)"
  shows "goes a B T s s' \<and> (case e of GoOn cur' ms' \<Rightarrow> S ms' | Ended x r \<Rightarrow> x = Halted)"
proof -
  obtain s1 results st cur' where t: "runTools a c iter base (rp_ToolCalls resp) cur s = (s1, results, st, cur')"
    by (metis prod_cases4)
  note R = goes_runTools [OF assms(2) t assms(3), of B T]
  let ?ms = "ms @ [tool_turn results]"
  let ?s2 = "arrive (ag_checkpoint a ?ms iter s1)"
  have S: "S ?ms" using ids R by blast
  have "goes a B T s (ag_checkpoint a ?ms iter s1)"
    using conjunct1 [OF R] goes_checkpoint [OF k S] by (rule goes_trans)
  then have s2: "goes a B T s ?s2" using goes_arrive by (rule goes_trans)
  from assms(5) t consider x r where "haltOnSignal a c cur' iter ?ms ?s2 = (s', x, r)" "e = Ended x r"
    | x r where "halt a c cur' iter ''a tool branch stopped the run'' ?ms ?s2 = (s', x, r)" "e = Ended x r"
    | "s' = ?s2" "e = GoOn cur' ?ms"
    by (auto simp: takeToolTurn_def Let_def split: prod.splits if_splits)
  then show ?thesis
  proof cases
    case (1 x r)
    with goes_haltOnSignal [OF k S 1(1), of B] s2 show ?thesis by (auto intro: goes_trans)
  next
    case (2 x r)
    with goes_halt [OF k S 2(1), of B] s2 show ?thesis by (auto intro: goes_trans)
  next
    case 3
    with s2 S show ?thesis by simp
  qed
qed

text \<open>One iteration, then the loop.\<close>

definition turn_ok :: "(llm_message list \<Rightarrow> bool) \<Rightarrow> ('w, 'f) ag \<Rightarrow> turn_end \<Rightarrow> bool" where
  "turn_ok S s e = (case e of
       GoOn cur ms \<Rightarrow> S ms
     | Ended x r \<Rightarrow> x \<noteq> OutOfTurns \<and> (x = Finished \<longrightarrow> ru_done (g_run s) \<and> ru_pending (g_run s) = []))"

lemma asks_agent_iteration:
  assumes k: "keeps a pre S A T" and "S ms" and sch: "schedules a" and ok: "gates_ok (g_run s)"
    and it: "agent_iteration a c orig base pre iter cur ms s = (s', e)"
  shows "asks_once a A T (g_run s, g_tape s) (g_run s', g_tape s') \<and> turn_ok S s' e"
proof -
  let ?B = "\<lambda>_ :: llm_message list. False"
  obtain s1 ms1 where inj: "injectPending a c cur iter s ms = (s1, ms1)" by fastforce
  obtain s2 ms2 where fit: "ag_fit a c cur iter (int (estimateTokens pre)) s1 ms1 = (s2, ms2)" by fastforce
  obtain s3 resp err where model: "callModel a c cur iter pre ms2 s2 = (s3, resp, err)" by (metis prod_cases3)
  have S1: "S ms1" using goes_injectPending(2) [OF inj] keeps_user [OF k \<open>S ms\<close>] by blast
  have S2: "S ms2" using goes_ag_fit [OF k S1 fit] by blast
  let ?ms3 = "shedAttachments (a_keepAttachments a) iter ms2"
  have S3: "S ?ms3" using keeps_shed [OF k S2] .
  have g2: "goes a ?B T s s2"
    using goes_trans [OF goes_injectPending(1) [OF inj] conjunct1 [OF goes_ag_fit [OF k S1 fit]]] .
  have "A (withPreamble pre ms2)" using keeps_send [OF k S2] by blast
  note M = asks_callModel(1) [where A = A and T = T, OF this model] asks_callModel(2) [where A = A, OF this model]
  have g3: "asks_once a A T (g_run s, g_tape s) (g_run s3, g_tape s3)" using g2 M(1) by (rule asks_once_before)
  have ok3: "gates_ok (g_run s3)" using moves_gates_ok [OF asks_once_moves [OF g3]] ok by simp
  have "goes a ?B T s3 s' \<and> turn_ok S s' e"
  proof (cases err)
    case (Some x)
    obtain s4 ex r where f: "callFailed a c cur iter (stoppedTranscript ?ms3 resp) x s3 = (s4, ex, r)" by (metis prod_cases3)
    with it inj fit model Some have e: "s' = s4" "e = Ended ex r"
      by (cases resp; simp add: agent_iteration_def Let_def)+
    have "S (stoppedTranscript ?ms3 resp)"
    proof (cases resp)
      case None
      with S3 show ?thesis by (simp add: stoppedTranscript_def)
    next
      case (Some y)
      with M(2) keeps_answer [OF k S3, where resp = y] S3 show ?thesis by (auto simp: stoppedTranscript_def)
    qed
    from goes_callFailed [OF k this f, of ?B] e show ?thesis by (auto simp: turn_ok_def)
  next
    case None
    show ?thesis
    proof (cases resp)
      case None
      with it inj fit model \<open>err = None\<close> have "s' = s3" "e = Ended CallFailed Dropped"
        by (simp_all add: agent_iteration_def Let_def)
      then show ?thesis by (simp add: turn_ok_def)
    next
      case (Some y)
      obtain s4 where ab: "absorbResponse a cur (estimateTokens ms2) y ?ms3 s3 = (s4, ?ms3 @ [rp_Raw y])"
        and s4: "g_run s4 = g_run s3" "g_tape s4 = g_tape s3" by (simp add: absorbResponse_def)
      from M(2) [OF Some] obtain c' w w' ds where y: "a_model a c' iter (withPreamble pre ms2) w = (w', ds, Inr y)" by blast
      note run = it [unfolded agent_iteration_def inj fit model prod.case Let_def None Some option.case ab]
      consider "rp_Stop y = LLMStopRefusal" | "rp_Stop y \<noteq> LLMStopRefusal" "rp_ToolCalls y = []"
        | "rp_Stop y \<noteq> LLMStopRefusal" "rp_ToolCalls y \<noteq> []" by blast
      then show ?thesis
      proof cases
        case 1
        with run have "refused a c orig cur iter (?ms3 @ [rp_Raw y]) s4 = (s', e)" by simp
        from goes_refused [OF k keeps_answer [OF k S3 y] this, of ?B] 1 s4 show ?thesis by (auto simp: turn_ok_def)
      next
        case 2
        obtain s5 fin where t: "tryFinish a c cur iter (?ms3 @ [rp_Raw y]) y s4 = (s5, fin)" by fastforce
        have S4: "S (?ms3 @ [rp_Raw y])" using 2 by (intro keeps_answer [OF k S3 y]) simp
        from run 2 t have "s' = s5" "e = (if fin then Ended Finished (Out cur) else GoOn cur (?ms3 @ [rp_Raw y]))"
          by (auto split: bool.splits)
        with goes_tryFinish(1) [OF k S4 t, of ?B] goes_tryFinish(2) [OF k S4 t] S4 s4 show ?thesis by (simp add: turn_ok_def)
      next
        case 3
        with run have t: "takeToolTurn a c iter base y cur (?ms3 @ [rp_Raw y]) s4 = (s', e)" by simp
        have "S ((?ms3 @ [rp_Raw y]) @ [tool_turn results])" if "map tr_ToolCallID results = map tc_ID (rp_ToolCalls y)" for results
          using keeps_tools [OF k S3 y 3(2,1) that] by simp
        from goes_takeToolTurn [OF k sch _ this t, of ?B] ok3 s4 show ?thesis
          by (auto simp: turn_ok_def split: turn_end.splits)
      qed
    qed
  qed
  with asks_once_after [OF g3] show ?thesis by blast
qed

theorem agent_loop_ok:
  assumes k: "keeps a pre S A T" and "S ms" and sch: "schedules a" and "gates_ok (g_run s)"
    and "agent_loop a c orig base pre n iter cur ms s = (s', x, r)"
  shows "goes a A T s s' \<and> asked_count (g_tape s') \<le> asked_count (g_tape s) + n \<and>
    (x \<in> {Finished, OutOfTurns} \<longrightarrow> ru_done (g_run s') \<and> ru_pending (g_run s') = [])"
  using assms(2,4,5)
proof (induction n arbitrary: iter cur ms s)
  case 0
  then have out: "outOfTurns a c cur ms s = (s', x, r)" by simp
  have no: "goes a (\<lambda>_. False) T s s'" by (rule goes_outOfTurns(1) [OF k 0(1) out])
  then have "goes a A T s s'" by (rule moves_mono) simp
  with moves_asked_count [OF no] goes_outOfTurns(2) [OF k 0(1) out] show ?case by simp
next
  case (Suc n)
  obtain s1 e where it: "agent_iteration a c orig base pre iter cur ms s = (s1, e)" by fastforce
  note I = asks_agent_iteration [OF k Suc.prems(1) sch Suc.prems(2) it]
  have g: "goes a A T s s1" using I by (blast intro: asks_once_moves)
  have n1: "asked_count (g_tape s1) \<le> Suc (asked_count (g_tape s))" using asks_once_count [OF conjunct1 [OF I]] by simp
  show ?case
  proof (cases e)
    case (Ended x' r')
    with it Suc.prems(3) have "s' = s1" "x = x'" by auto
    with I Ended g n1 show ?thesis by (auto simp: turn_ok_def)
  next
    case (GoOn cur' ms')
    with it Suc.prems(3) have rest: "agent_loop a c orig base pre n (Suc iter) cur' ms' s1 = (s', x, r)" by simp
    have "S ms'" using I GoOn by (simp add: turn_ok_def)
    moreover have "gates_ok (g_run s1)" using moves_gates_ok [OF g] Suc.prems(2) by simp
    ultimately have "goes a A T s1 s' \<and> asked_count (g_tape s') \<le> asked_count (g_tape s1) + n \<and>
        (x \<in> {Finished, OutOfTurns} \<longrightarrow> ru_done (g_run s') \<and> ru_pending (g_run s') = [])"
      using rest by (rule Suc.IH)
    with g n1 show ?thesis by (auto intro: goes_trans)
  qed
qed

end
