(* ===== verification/Octo_Agent_Contract.thy ===== *)
theory Octo_Agent_Contract
  imports Octo_Agent_Safety
begin

text \<open>
  What an ai-agent promises of every run, from the moves its loop refines: the transcripts it
  sends and stores can be replayed, the messages it accepted are accounted for, a gated tool
  needs a person's consent, the model is asked at most once per iteration.
\<close>

section \<open>What is assumed of the model and the scheduler\<close>

text \<open>
  A provider's response carries the assistant's turn with exactly the calls the response lists,
  and a refusal calls nothing (\<^verbatim>\<open>core.LLMResponse\<close>).
\<close>

definition honest_model :: "('w, 'f) agent \<Rightarrow> bool" where
  "honest_model a \<longleftrightarrow> (\<forall>c iter req w w' ds resp. a_model a c iter req w = (w', ds, Inr resp) \<longrightarrow>
     lm_Role (rp_Raw resp) = LLMRoleAssistant \<and> lm_ToolCalls (rp_Raw resp) = rp_ToolCalls resp \<and>
     (rp_Stop resp = LLMStopRefusal \<longrightarrow> rp_ToolCalls resp = []))"

definition opened :: "llm_message list \<Rightarrow> bool" where
  "opened ms \<longleftrightarrow> replayable ms \<and> ms \<noteq> []"

lemma keeps_nothing: "keeps a pre (\<lambda>_. True) (\<lambda>_. True) (\<lambda>_. True)"
  by (simp add: keeps_def)

lemma shed_replayable: "replayable ms \<Longrightarrow> replayable (shedAttachments keep iter ms)"
proof -
  have "paired ms \<Longrightarrow> paired (map (\<lambda>m. m\<lparr>lm_Attachments := []\<rparr>) ms)" for ms
    by (induction ms rule: paired.induct) (auto simp: answers_def split: list.splits if_splits)
  then show "replayable ms \<Longrightarrow> ?thesis"
    by (cases ms) (auto simp: shedAttachments_def replayable_def)
qed

lemma honest_keeps:
  assumes "honest_model a" and "pre = [] \<or> (\<exists>x. pre = [user_turn x])"
  shows "keeps a pre opened replayable replayable"
  unfolding keeps_def
proof (intro conjI allI impI, goal_cases)
  case (1 ms x)
  then show ?case by (simp add: opened_def replayable_snoc_user)
next
  case (2 ms k n m reserved w)
  then show ?case
    using fitContext_replayable [of ms "a_fo a" "a_ask a" k n m reserved w] unfolding opened_def by (metis prod.collapse)
next
  case (3 ms keep iter)
  moreover have "shedAttachments keep iter ms = [] \<longleftrightarrow> ms = []" by (simp add: shedAttachments_def)
  ultimately show ?case by (simp add: opened_def shed_replayable)
next
  case (4 ms c iter req w w' ds resp)
  with assms(1) have r: "lm_Role (rp_Raw resp) = LLMRoleAssistant" "lm_ToolCalls (rp_Raw resp) = rp_ToolCalls resp"
    "rp_Stop resp = LLMStopRefusal \<Longrightarrow> rp_ToolCalls resp = []"
    unfolding honest_model_def by blast+
  show ?case
  proof (cases "rp_ToolCalls resp = []")
    case True
    with 4 r show ?thesis by (simp add: opened_def replayable_append)
  next
    case False
    with 4 r show ?thesis by (auto simp: opened_def answers_def intro!: replayable_exchange)
  qed
next
  case (5 ms)
  then show ?case using assms(2) by (auto simp: opened_def withPreamble_def replayable_def)
next
  case (6 ms)
  then show ?case by (simp add: opened_def)
next
  case (7 ms k m n w)
  then show ?case by (simp add: opened_def compactMemory_replayable)
qed

lemma memoryPreamble_shape: "memoryPreamble cf s w = (w', pre) \<Longrightarrow> pre = [] \<or> (\<exists>x. pre = [user_turn x])"
  by (auto simp: memoryPreamble_def split: if_splits prod.splits sum.splits list.splits)

section \<open>A whole run\<close>

lemma initConversation_opened:
  assumes "initConversation a sess opening files w = (w1, Inr (s0, ms, meter))"
    and "\<And>s0 w w' s1 env. loadWorking (a_mem a) s0 w = (w', s1, Inr env) \<Longrightarrow> replayable (env_Messages env)"
  shows "opened ms"
proof -
  obtain s x fs w' s1 env where l: "loadWorking (a_mem a) s w = (w', s1, Inr env)"
    and ms: "ms = env_Messages env @ [(user_turn x)\<lparr>lm_Attachments := fs\<rparr>]"
    using assms(1) by (auto simp: initConversation_def split: sum.splits prod.splits)
  have "lm_Role ((user_turn x)\<lparr>lm_Attachments := fs\<rparr>) = LLMRoleUser" "lm_ToolCalls ((user_turn x)\<lparr>lm_Attachments := fs\<rparr>) = []"
    by (simp_all add: user_turn_def)
  with assms(2) [OF l] show ?thesis unfolding ms opened_def by (simp add: replayable_snoc_user)
qed

text \<open>The run of the loop inside a run, and what follows of it for laws it keeps.\<close>

lemma agent_run_body_ok:
  assumes run: "agent_run_body a c base sess opening files r script clock cur w = (Some s, x, res)"
    and sch: "schedules a" and ok: "gates_ok r"
    and k: "\<And>pre. pre = [] \<or> (\<exists>x. pre = [user_turn x]) \<Longrightarrow> keeps a pre S A T"
    and S: "\<And>w1 s0 ms meter. initConversation a sess opening files w = (w1, Inr (s0, ms, meter)) \<Longrightarrow> S ms"
  shows "moves a A T (r, []) (g_run s, g_tape s) \<and> asked_count (g_tape s) \<le> a_maxIterations a \<and>
    (x \<in> {Finished, OutOfTurns} \<longrightarrow> ru_pending (g_run s) = []) \<and> ru_done (g_run s)"
proof -
  obtain w1 s0 ms meter where i: "initConversation a sess opening files w = (w1, Inr (s0, ms, meter))"
    using run by (auto simp: agent_run_body_def split: prod.splits sum.splits)
  obtain w2 pre where p: "memoryPreamble (a_mem a) s0 w1 = (w2, pre)" by fastforce
  let ?s = "\<lparr>g_w = w2, g_run = r, g_script = script, g_clock = clock, g_sess = s0, g_meter = meter, g_tape = []\<rparr>"
  obtain s' x' res' where l: "agent_loop a c cur base pre (a_maxIterations a) 0 cur ms ?s = (s', x', res')" by (metis prod_cases3)
  have s: "s = s'\<lparr>g_run := run_close (g_run s')\<rparr>" "x = x'"
    using run i p l by (auto simp: agent_run_body_def)
  note L = agent_loop_ok [OF k [OF memoryPreamble_shape [OF p]] S [OF i] sch _ l]
  have "moves a A T (g_run s', g_tape s') (g_run s, g_tape s)"
    using m_close [of a A T "g_run s'" "g_tape s'"] s(1) by auto
  moreover have "moves a A T (r, []) (g_run s', g_tape s')" using L ok by simp
  ultimately have "moves a A T (r, []) (g_run s, g_tape s)" by (metis rtranclp_trans)
  moreover have "asked_count (g_tape s) \<le> a_maxIterations a" using L ok s(1) by (simp add: asked_count_def)
  moreover have "x \<in> {Finished, OutOfTurns} \<longrightarrow> ru_pending (g_run s) = []" using L ok s by (simp add: run_close_def)
  moreover have "ru_done (g_run s)" using s(1) by (simp add: run_close_def)
  ultimately show ?thesis by blast
qed


text \<open>C4. Every message a run accepted from outside was made a user turn, or reported unanswered, or still waits, in the order of acceptance. A run is closed when it ends, and one that finished or ran out of turns leaves no message waiting.\<close>

theorem accepted_messages_accounted:
  assumes "agent_run_body a c base sess opening files r script clock cur w = (Some s, x, res)"
    and "schedules a" and "gates_ok r" and "ru_pending r = []"
  shows "accepted_texts (g_tape s) = handled_texts (g_tape s) @ ru_pending (g_run s) \<and> ru_done (g_run s) \<and>
    (x \<in> {Finished, OutOfTurns} \<longrightarrow> ru_pending (g_run s) = [])"
  using agent_run_body_ok [OF assms(1-3) keeps_nothing] moves_texts [of a "\<lambda>_. True" "\<lambda>_. True" "(r, [])" "(g_run s, g_tape s)"]
    assms(4) by simp

text \<open>C5. Where a tool's condition never evaluates to false, a call of it ran only after the run announced a gate for that call and a person answered that gate with a yes, one call at a time or in parallel.\<close>

theorem gated_tools_need_consent:
  assumes "agent_run_body a c base sess opening files r script clock cur w = (Some s, x, res)"
    and "schedules a" and "gates_ok r"
    and "always_gated a (tc_Name call)" and "g_tape s = u @ Ran call # v"
  shows "\<exists>p i q. u = p @ GateAsked i (tc_ID call) # q \<and> Answered i True \<in> set q"
proof -
  have "moves a (\<lambda>_. True) (\<lambda>_. True) (r, []) (g_run s, g_tape s)" using agent_run_body_ok [OF assms(1-3) keeps_nothing] by blast
  from moves_tape_ok [OF this] have "obs_ok a (\<lambda>_. True) (\<lambda>_. True) u (Ran call)"
    using assms(5) unfolding tape_ok_def by simp
  with assms(4) have "consented call u" by (simp add: obs_ok_def may_run_def)
  then show ?thesis unfolding consented_def by blast
qed


section \<open>An agent the properties are evaluated on\<close>

definition rat_ops :: "rat scale_ops" where
  "rat_ops = \<lparr>so_lit = id, so_of_int = of_int, so_mul = (*), so_div = (/), so_max = max, so_min = min,
     so_is_zero = (\<lambda>x. x = 0), so_finite = (\<lambda>_. True), so_round = round\<rparr>"

definition no_memory_ops :: "'w memory_ops" where
  "no_memory_ops =
     \<lparr>op_enabled = False, op_load = (\<lambda>r w. (w, Inr None)), op_save = (\<lambda>r m w. (w, Inl MemDisabled)),
      op_append = (\<lambda>r ts w. (w, Inl MemDisabled)), op_title = (\<lambda>r s w. (w, Some MemDisabled)), op_memories = (\<lambda>r w. (w, Inr [])),
      op_put = (\<lambda>r k v n w. (w, Inl MemDisabled)), op_forget = (\<lambda>r k w. (w, Some MemDisabled)), op_search = (\<lambda>r q w. (w, Inr [])),
      kv_get = (\<lambda>k w. (w, Inr None)), kv_set = (\<lambda>k v n w. (w, KvStored)), kv_remove = (\<lambda>k w. (w, None)), op_clock = (\<lambda>_. 0)\<rparr>"

definition deploy_call :: llm_tool_call where
  "deploy_call = \<lparr>tc_ID = ''c1'', tc_Name = ''deploy'', tc_Input = [], tc_Signature = []\<rparr>"

text \<open>The model calls \<open>deploy\<close> on its first turn and answers on its second.\<close>

definition sample_model :: "ctx \<Rightarrow> nat \<Rightarrow> llm_message list \<Rightarrow> obs_world \<Rightarrow>
    obs_world \<times> (string \<times> (string \<times> gval) list) list \<times> (call_error + llm_response)" where
  "sample_model c iter req w =
     (let raw = (user_turn [])\<lparr>lm_Role := LLMRoleAssistant\<rparr>;
          resp = \<lparr>rp_Text = ''done'', rp_ToolCalls = [], rp_Stop = LLMStopEndTurn, rp_Raw = raw, rp_Media = [], rp_Usage = None\<rparr> in
      (w, [], Inr (if iter = 0 then resp\<lparr>rp_ToolCalls := [deploy_call], rp_Raw := raw\<lparr>lm_ToolCalls := [deploy_call]\<rparr>\<rparr> else resp)))"

definition sample_agent :: "(unit obs_world_scheme, rat) agent" where
  "sample_agent =
     \<lparr>a_fo = rat_ops, a_model = sample_model, a_streaming = False, a_ask = (\<lambda>_ w. (w, None)),
      a_branches = [(''deploy'', sample_pass)], a_guardrail = None, a_maxIterations = 3, a_toolWorkers = 1, a_order = id,
      a_skills = [], a_template = (\<lambda>_. Inl (Err ''no template'')), a_responseMedia = [], a_keepAttachments = False,
      a_gates = [(''deploy'', \<lambda>_ _ _. Inr (GBool True))], a_contextMaxTokens = 0, a_compaction = CompactPrune, a_memory = False,
      a_mem = \<lparr>cf_ops = no_memory_ops, cf_codec = \<lparr>ec_marshal = (\<lambda>_. []), ec_envelope = (\<lambda>_. None), ec_messages = (\<lambda>_. None)\<rparr>,
        cf_agentID = [], cf_history = False, cf_userMemory = False, cf_namer = None, cf_emitter = None\<rparr>,
      a_json = (\<lambda>_. Some GNull), a_show = (\<lambda>_. ''null''), a_base64 = id, a_skillArg = (\<lambda>_. None), a_memArgs = (\<lambda>_. None)\<rparr>"

text \<open>A message lands before the first turn, a yes while the gate waits, a message during the tool turn.\<close>

definition sample_script :: "delivery list list" where
  "sample_script = [[context_delivery ''hi''], [authorize_delivery [] True], [context_delivery ''wait'']]"

definition sample_run :: "bool list \<Rightarrow> (unit obs_world_scheme, rat) ag option \<times> agent_exit \<times> outcome" where
  "sample_run clock = agent_run_body sample_agent (Ctx False) [] (Inr (blank_session ''t'')) (Inr ''ship it'') (Inr [])
     new_run sample_script clock 0 sample_world"

definition sample_tape :: "agent_obs list" where
  "sample_tape = the (map_option g_tape (fst (sample_run [])))"

lemma sample_tape_is:
  "sample_tape =
     [Accepted ''hi'', Injected ''hi'', Asked [user_turn ''ship it'', user_turn ''hi''], GateAsked [] ''c1'', Answered [] True,
      Ran deploy_call, Accepted ''wait'', Injected ''wait'',
      Asked [user_turn ''ship it'', user_turn ''hi'', (user_turn [])\<lparr>lm_Role := LLMRoleAssistant, lm_ToolCalls := [deploy_call]\<rparr>,
        tool_turn [\<lparr>tr_ToolCallID = ''c1'', tr_Tool = ''deploy'', tr_Content = ''null'', tr_IsError = False\<rparr>], user_turn ''wait'']]"
  by code_simp

lemma sample_run_ends: "\<exists>s. sample_run [] = (Some s, Finished, Out 0) \<and> g_tape s = sample_tape"
proof -
  have "snd (sample_run []) = (Finished, Out 0)" "fst (sample_run []) \<noteq> None" by code_simp+
  then show ?thesis by (cases "sample_run []") (auto simp: sample_tape_def)
qed

lemma sample_laws:
  "honest_model sample_agent" "schedules sample_agent" "always_gated sample_agent ''deploy''" "a_maxIterations sample_agent = 3"
proof -
  show "honest_model sample_agent"
    by (simp add: honest_model_def sample_agent_def sample_model_def Let_def user_turn_def)
  show "schedules sample_agent" by (simp add: schedules_def sample_agent_def)
  show "always_gated sample_agent ''deploy''" by (simp add: always_gated_def sample_agent_def)
  show "a_maxIterations sample_agent = 3" by (simp add: sample_agent_def)
qed

lemma sample_loads:
  "loadWorking (a_mem sample_agent) s0 w = (w', s1, Inr env) \<Longrightarrow> replayable (env_Messages env)"
  by (auto simp: sample_agent_def loadWorking_def loadHistory_def loadMemory_def no_memory_ops_def no_envelope_def
      split: if_splits)


theorem accepted_messages_accounted_witness:
  "accepted_texts sample_tape = [''hi'', ''wait''] \<and> accepted_texts sample_tape = handled_texts sample_tape"
proof -
  obtain s where "sample_run [] = (Some s, Finished, Out 0)" and t: "g_tape s = sample_tape" using sample_run_ends by blast
  from accepted_messages_accounted [OF this(1) [unfolded sample_run_def] sample_laws(2) gates_ok_new] t
  have "accepted_texts sample_tape = handled_texts sample_tape" by (simp add: new_run_def)
  then show ?thesis by (simp add: sample_tape_is accepted_texts_def)
qed

theorem gated_tools_need_consent_witness:
  "\<exists>p i q. take 5 sample_tape = p @ GateAsked i ''c1'' # q \<and> Answered i True \<in> set q"
proof -
  obtain s where r: "sample_run [] = (Some s, Finished, Out 0)" and t: "g_tape s = sample_tape" using sample_run_ends by blast
  have "g_tape s = take 5 sample_tape @ Ran deploy_call # drop 6 sample_tape" unfolding t by (simp add: sample_tape_is)
  from gated_tools_need_consent [OF r [unfolded sample_run_def] sample_laws(2) gates_ok_new _ this] sample_laws(3)
  show ?thesis by (simp add: deploy_call_def)
qed


text \<open>When the clock is chosen first the call is denied and never runs, though the yes was accepted.\<close>

lemma late_answer_is_denied:
  "fst (snd (sample_run [True])) = Finished \<and>
   Answered [] True \<in> set (the (map_option g_tape (fst (sample_run [True])))) \<and>
   Ran deploy_call \<notin> set (the (map_option g_tape (fst (sample_run [True]))))"
  by code_simp

text \<open>
  A stop that lands with a message: the run had accepted it and ends without a turn or a report
  for it. The other exits that halt or fail are the same.
\<close>

definition scripted_run :: "nat \<Rightarrow> delivery list list \<Rightarrow> (unit obs_world_scheme, rat) ag option \<times> agent_exit \<times> outcome" where
  "scripted_run n script = agent_run_body (sample_agent\<lparr>a_maxIterations := n\<rparr>) (Ctx False) [] (Inr (blank_session ''t''))
     (Inr ''ship it'') (Inr []) new_run script [] 0 sample_world"

lemma halted_run_drops_accepted_message:
  "(case scripted_run 3 [[], [authorize_delivery [] True], [context_delivery ''wait'', stop_delivery]] of
      (Some s, x, r) \<Rightarrow> x = Halted \<and> ru_pending (g_run s) = [''wait''] \<and> accepted_texts (g_tape s) = [''wait''] \<and> handled_texts (g_tape s) = []
    | _ \<Rightarrow> False)"
  by code_simp

text \<open>A message that lands during the last allowed answer: the answer is discarded for the guardrail.\<close>

lemma last_answer_discarded:
  "(case scripted_run 2 [[], [authorize_delivery [] True], [], [], [context_delivery ''wait'']] of
      (Some s, x, r) \<Rightarrow> x = OutOfTurns \<and> asked_count (g_tape s) = 2 \<and> handled_texts (g_tape s) = [''wait''] \<and>
        r = Failed (Err ''ai-agent: exceeded max iterations and no guardrail configured'')
    | _ \<Rightarrow> False)"
  by code_simp

end
