(* ===== verification/Spec2Isabelle.thy ===== *)
theory Spec2Isabelle
  imports Octo_Cache Octo_Leases Octo_Address Octo_Timeouts Octo_Service
    Octo_Authz Octo_Project Octo_Topics Octo_Alert_Runner Octo_Agent_Contract
begin

text \<open>
  Verification of the Octo integration platform: its runtime (\<^verbatim>\<open>src/runtime\<close>), and the parts of
  its orchestrator and of its alerting service that decide something on their own.

  \<^bold>\<open>The program.\<close> A flow is a chain of blocks that a message runs through. The engine runs
  the chain (\<^verbatim>\<open>core/engine\<close>), brackets each block with events (\<^verbatim>\<open>core/blockevents.go\<close>), and hands
  the rest of a chain to blocks that take the flow over. Composite blocks (\<^verbatim>\<open>blocks/controlflow\<close>)
  hold sub-flows; the agent (\<^verbatim>\<open>blocks/ai\<close>) holds one per tool and calls a model until it answers.
  A service loads a configuration, builds its flows, binds each to its source and to a worker
  pool, and lets flows call one another (\<^verbatim>\<open>core/runtime\<close>). Blocks reach the services of the
  runtime (\<^verbatim>\<open>services/standalone\<close>): a versioned key-value store, leases, queues, topics and the
  agent's memory. The orchestrator guards its API by tokens and merges folders of files into one
  document; the observability service evaluates watches and announces incidents.

  \<^bold>\<open>Theories and what they model.\<close>

  The library:

  \<^item> \<open>Octo_Prelude\<close>, \<open>Octo_Strings\<close>: results, lists, maps, decimal numbers, quoting; the parts of
    Go's \<^verbatim>\<open>strings\<close> the sources use.
  \<^item> \<open>Octo_Value\<close>, \<open>Octo_Message\<close>: Go values as they occur in bodies and variables, the deep copy of
    \<^verbatim>\<open>types/bodycopy.go\<close>, errors; messages in a heap with their operations (\<^verbatim>\<open>types/message.go\<close>).
    Operations take the state of the world and return it.

  The engine of flows:

  \<^item> \<open>Octo_Block_Events\<close>, \<open>Octo_Engine\<close>: listeners and their dispatcher; processors, the block loop,
    continuations, the frame contract (\<^verbatim>\<open>core/engine/flow.go\<close>, \<^verbatim>\<open>continuation.go\<close>).
  \<^item> \<open>Octo_Composites\<close>, \<open>Octo_Semantics\<close>: the \<open>Process\<close> methods of the control-flow blocks; the abstract
    specification of blocks as message transformers and the proof that engine and composites
    implement it.
  \<^item> \<open>Octo_Debug\<close>, \<open>Octo_Address\<close>, \<open>Octo_Builder\<close>: spies, breakpoints and mocks; block addresses and the
    rewriting of a configuration; the builder and the factories.
  \<^item> \<open>Octo_Split\<close>, \<open>Octo_Aggregate\<close>, \<open>Octo_Rejoin\<close>, \<open>Octo_Groups\<close>, \<open>Octo_Timeouts\<close>: the two blocks that take a
    message apart and put messages together; what an aggregate does to a split, and what it
    promises while other replicas act on its store.
  \<^item> \<open>Octo_Bound_Flow\<close>, \<open>Octo_Reports\<close>, \<open>Octo_Pool\<close>, \<open>Octo_Flow_Calls\<close>: the event bus and a runnable flow; the
    refinement of its runs by reports; the worker pool with the goroutines of a flow as a step
    relation; calls of a flow by name.
  \<^item> \<open>Octo_Dotenv\<close>, \<open>Octo_Config\<close>, \<open>Octo_Service\<close>: the \<^verbatim>\<open>.env\<close> format, loading a configuration with its
    variables, and a generation of the service from start to stop.

  The services:

  \<^item> \<open>Octo_KV\<close>, \<open>Octo_Cache\<close>, \<open>Octo_Leases\<close>: the store with its flusher and snapshot files, the cache scope
    over it, and leases.
  \<^item> \<open>Octo_Queues\<close>, \<open>Octo_Topics\<close>: subjects with a bounded buffer and competing consumers, requests and
    replies; subscriptions with a channel each.

  The agent:

  \<^item> \<open>Octo_Transcript\<close>: turns, calls and results (\<^verbatim>\<open>core/llm.go\<close>), the estimate of their size, pruning,
    summarizing and fitting a conversation (\<^verbatim>\<open>agentmemory.go\<close>, \<^verbatim>\<open>contextmeter.go\<close>, \<^verbatim>\<open>agentcontext.go\<close>).
  \<^item> \<open>Octo_Agent_Run\<close>: a run as everything outside it sees it, the deliveries that reach it, and the
    claim of a conversation by one replica (\<^verbatim>\<open>agentsignals.go\<close>, \<^verbatim>\<open>agentclaim.go\<close>).
  \<^item> \<open>Octo_Agent_Store\<close>, \<open>Octo_Agent_Session\<close>: the memory on disk and in memory
    (\<^verbatim>\<open>services/standalone/agentmemory.go\<close>, \<^verbatim>\<open>agentmemorymem.go\<close>), and one run's view of it
    (\<^verbatim>\<open>agentstore.go\<close>).
  \<^item> \<open>Octo_Agent\<close>: the loop: \<open>agent_run_body\<close> is \<^verbatim>\<open>Process\<close> from the claimed conversation on,
    \<open>agent_iteration\<close> one turn of its loop. The tape records what the loop did.
  \<^item> \<open>Octo_Agent_Safety\<close>, \<open>Octo_Agent_Contract\<close>: the transition system the loop refines, its invariants,
    and what they give for whole runs.

  The orchestrator and the alerting service:

  \<^item> \<open>Octo_Authz\<close>, \<open>Octo_Project\<close>: the guard of the API with its keyset; folders of files and their
    merge into one document.
  \<^item> \<open>Octo_Alerting\<close>, \<open>Octo_Watches\<close>, \<open>Octo_Coalesce\<close>: series, statistics and three-valued verdicts;
    conditions and the plan of their fetches; coalescing.
  \<^item> \<open>Octo_Alert_State\<close>, \<open>Octo_Alert_Service\<close>, \<open>Octo_Alert_Runner\<close>: the state machine of a watch with what
    the store writes about it, the service that saves watches, and a tick of the leader.

  \<^bold>\<open>What the lemmas show.\<close> Frame and determinism of blocks, and the refinement of flow
  runs and of their terminal events by message transformers; conservation of messages and
  absence of deadlock in pool, queues and topics; optimistic concurrency of the stores, with
  what survives a restart or a fault of the disk; claims with one holder; completeness of
  splitting, grouping and paging; round trips of the formats; consent, replayability and
  accounting of the agent's runs; what tokens may do; the evidence a change of an incident's
  state needs. Lemmas that state where a promise of the code ends (a late answer, a torn append,
  a group taken twice) are part of the development.

  \<^bold>\<open>Interfaces.\<close> A locale states each contract that two components share, and its
  interpretation on the model's definitions discharges it: \<open>framed_processor\<close> and \<open>implements\<close>
  (blocks), \<open>monotone_registry\<close> (factories of the builder), \<open>versioned_kv\<close> and \<open>renamed_kv\<close> (the
  store), \<open>bounded_channel\<close> (queues and topics), \<open>run_relation\<close>, \<open>listening_bus\<close>, \<open>courteous\<close> and
  \<open>answering_bus\<close> (events of a flow), \<open>rejoining\<close> (aggregates of a split), \<open>checker\<close> (tokens),
  \<open>working_store\<close> (the two memories of the agent).

  \<^bold>\<open>Parameters.\<close> Code that is not under \<^verbatim>\<open>src\<close>, and what it answers, is an argument of the
  definitions that use it: CEL programs and templates, JSON and YAML codecs, hashes and
  signatures, float arithmetic (the record \<open>scale_ops\<close> of the meter and its counterpart of the
  statistics), the model behind the agent, the rows a metric store returns. Time, the order of
  concurrent operations, entropy and faults of the disk are scripts or step relations, so a
  theorem holds for all of them. Laws such a parameter is assumed to have are hypotheses with a
  name (\<open>honest_model\<close>, \<open>schedules\<close>, \<open>codec_ok\<close>), each with a witness that has them.

  \<^bold>\<open>Bounds and fuel.\<close> The builder takes one unit of fuel per nested block: more fuel changes
  no result, and a reference cycle is shown to diverge with any amount. The pulling loop of a
  split takes the measure of its source, which is shown to be enough. The agent's loop is bounded
  by its iterations, retries by the attempts of the code (\<open>claimAttempts\<close>, \<open>memoryWriteAttempts\<close>).
  Durations of an aggregate
  keep their 64 bits, where they can wrap; divisions truncate as those of Go. All other recursion is structural or has a termination proof.

  \<^bold>\<open>Not modelled.\<close> The connectors, and the services on Kubernetes and over HTTP, encode
  protocols of third parties over network I/O; the stores of the orchestrator, the identity
  service and the observability service besides alerting are SQL and objects of a cluster, with
  little between handler and query; the other AI blocks are one prompt around one call; the
  command lines, the test runner and the sidecars are process I/O. The search in the agent's
  memory ranks by float scores. Expressions are compiled and run by a library. Logging, tracing
  and metrics are left out everywhere. The manifest lists each part with its reason.
\<close>

end
